(* ===== verification/Ogc_Prelude.thy ===== *)
theory Ogc_Prelude
  imports Main "HOL-Library.Word" "HOL-Library.Monad_Syntax" "HOL-Library.Multiset"
begin

text \<open>
  Shared vocabulary of the development: the machine integer types of \<^verbatim>\<open>gc/gctypes.h\<close>, pointers
  as 32-bit addresses with \<open>NULL = 0\<close>, the two pointer-chasing loops that the sources write again
  and again, the list predicates \<open>path\<close> (singly linked) and \<open>dseg\<close> (doubly linked), and the
  generic lemmas on ordered insertion that the components share.

  A function of the model whose result is an \<open>option\<close> returns \<open>None\<close> exactly where the C code never
  returns (an endless loop, as the \<^verbatim>\<open>for (;;); // ERROR\<close> traps are) or dereferences \<open>NULL\<close>.
\<close>

unbundle bit_operations_syntax

type_synonym u8 = "8 word"
type_synonym u16 = "16 word"
type_synonym u32 = "32 word"
type_synonym u64 = "64 word"
type_synonym ptr = "32 word"

abbreviation NULL :: ptr where "NULL \<equiv> 0"

named_theorems chain_simps \<open>values of the pointer loops on well-formed lists\<close>
named_theorems frame_simps \<open>what an update leaves unchanged\<close>

section \<open>The pointer loops\<close>

text \<open>
  \<^verbatim>\<open>for (cur = first; cur && c(cur); cur = cur->next) pos = cur; return pos;\<close> with \<open>pos\<close> initially
  given, and \<^verbatim>\<open>for (cur = first; cur && !c(cur); cur = cur->next); return cur;\<close>. Both may run for
  ever on a cyclic chain, hence the \<open>option\<close>.
\<close>

partial_function (option) chain_last ::
    "(ptr \<Rightarrow> ptr) \<Rightarrow> (ptr \<Rightarrow> bool) \<Rightarrow> ptr \<Rightarrow> ptr \<Rightarrow> ptr option" where
  "chain_last nx c cur pos =
     (if cur \<noteq> NULL \<and> c cur then chain_last nx c (nx cur) cur else Some pos)"

partial_function (option) chain_find ::
    "(ptr \<Rightarrow> ptr) \<Rightarrow> (ptr \<Rightarrow> bool) \<Rightarrow> ptr \<Rightarrow> ptr option" where
  "chain_find nx c cur =
     (if cur \<noteq> NULL \<and> \<not> c cur then chain_find nx c (nx cur) else Some cur)"

declare chain_last.simps [code] chain_find.simps [code]

section \<open>Singly linked lists\<close>

text \<open>\<open>path nx p xs z\<close>: following \<open>nx\<close> from \<open>p\<close> visits exactly \<open>xs\<close> and arrives at \<open>z\<close>.\<close>

fun path :: "(ptr \<Rightarrow> ptr) \<Rightarrow> ptr \<Rightarrow> ptr list \<Rightarrow> ptr \<Rightarrow> bool" where
  "path nx p [] z \<longleftrightarrow> p = z"
| "path nx p (x # xs) z \<longleftrightarrow> p = x \<and> x \<noteq> NULL \<and> path nx (nx x) xs z"

abbreviation lst :: "(ptr \<Rightarrow> ptr) \<Rightarrow> ptr \<Rightarrow> ptr list \<Rightarrow> bool" where
  "lst nx p xs \<equiv> path nx p xs NULL"

lemma path_append [simp]:
  "path nx p (xs @ ys) z \<longleftrightarrow> (\<exists>m. path nx p xs m \<and> path nx m ys z)"
  by (induction xs arbitrary: p) auto

lemma path_upd [simp]: "u \<notin> set xs \<Longrightarrow> path (nx(u := v)) p xs z = path nx p xs z"
  by (induction xs arbitrary: p) auto

lemma path_cong: "(\<And>x. x \<in> set xs \<Longrightarrow> nx x = ny x) \<Longrightarrow> path nx p xs z = path ny p xs z"
  by (induction xs arbitrary: p) auto

lemma path_nonnull: "path nx p xs z \<Longrightarrow> x \<in> set xs \<Longrightarrow> x \<noteq> NULL"
  by (induction xs arbitrary: p) auto

lemma path_NULL [simp]: "path nx NULL xs z \<longleftrightarrow> xs = [] \<and> z = NULL"
  by (cases xs) auto

lemma lst_unique: "lst nx p xs \<Longrightarrow> lst nx p ys \<Longrightarrow> xs = ys"
proof (induction xs arbitrary: p ys)
  case Nil
  then show ?case by simp
next
  case (Cons x xs)
  then show ?case by (cases ys) auto
qed

lemma lst_hd_notin: "lst nx (nx x) xs \<Longrightarrow> x \<notin> set xs"
proof
  assume l: "lst nx (nx x) xs" and "x \<in> set xs"
  then obtain ys zs where xs: "xs = ys @ x # zs"
    by (auto simp: in_set_conv_decomp)
  with l have "lst nx (nx x) zs" by auto
  with l have "xs = zs" by (rule lst_unique)
  with xs show False by simp
qed

lemma lst_distinct: "lst nx p xs \<Longrightarrow> distinct xs"
  by (induction xs arbitrary: p) (auto dest: lst_hd_notin)

lemma lst_hd: "lst nx p xs \<Longrightarrow> p = (case xs of [] \<Rightarrow> NULL | x # _ \<Rightarrow> x)"
  by (cases xs) auto

lemma chain_last_lst [chain_simps]:
  "lst nx p xs \<Longrightarrow> chain_last nx c p q = Some (last (q # takeWhile c xs))"
proof (induction xs arbitrary: p q)
  case Nil
  then show ?case by (simp add: chain_last.simps)
next
  case (Cons x xs)
  then show ?case by (subst chain_last.simps) auto
qed

lemma chain_find_lst [chain_simps]:
  "lst nx p xs \<Longrightarrow>
   chain_find nx c p = Some (case dropWhile (\<lambda>x. \<not> c x) xs of [] \<Rightarrow> NULL | x # _ \<Rightarrow> x)"
proof (induction xs arbitrary: p)
  case Nil
  then show ?case by (simp add: chain_find.simps)
next
  case (Cons x xs)
  then show ?case by (subst chain_find.simps) auto
qed

lemma chain_find_find:
  "lst nx p xs \<Longrightarrow> chain_find nx c p = Some (case find c xs of None \<Rightarrow> NULL | Some x \<Rightarrow> x)"
proof (induction xs arbitrary: p)
  case Nil
  then show ?case by (simp add: chain_find.simps)
next
  case (Cons x xs)
  then show ?case by (subst chain_find.simps) auto
qed

section \<open>Ordered insertion\<close>

text \<open>
  Insertion after the longest prefix that satisfies \<open>c\<close>: what the list code does when it walks past
  every element it may not precede.
\<close>

definition ins_after :: "('a \<Rightarrow> bool) \<Rightarrow> 'a \<Rightarrow> 'a list \<Rightarrow> 'a list" where
  "ins_after c x xs = takeWhile c xs @ x # dropWhile c xs"

lemma set_ins_after [simp]: "set (ins_after c x xs) = insert x (set xs)"
  by (metis Un_insert_right ins_after_def list.simps(15) set_append takeWhile_dropWhile_id)

lemma mset_ins_after [simp]: "mset (ins_after c x xs) = add_mset x (mset xs)"
  by (metis ins_after_def mset.simps(2) mset_append takeWhile_dropWhile_id union_mset_add_mset_right)

lemma length_ins_after [simp]: "length (ins_after c x xs) = Suc (length xs)"
  by (metis length_Cons mset.simps(2) mset_ins_after size_mset)

lemma distinct_ins_after [simp]: "distinct (ins_after c x xs) \<longleftrightarrow> x \<notin> set xs \<and> distinct xs"
  by (metis distinct.simps(2) mset.simps(2) mset_eq_imp_distinct_iff mset_ins_after)

lemma ins_after_cong:
  "(\<And>y. y \<in> set xs \<Longrightarrow> c y = d y) \<Longrightarrow> ins_after c x xs = ins_after d x xs"
  unfolding ins_after_def
  by (metis dropWhile_cong takeWhile_cong)

lemma remove1_ins_after: "x \<notin> set xs \<Longrightarrow> remove1 x (ins_after c x xs) = xs"
proof -
  assume "x \<notin> set xs"
  then have "x \<notin> set (takeWhile c xs)" by (auto dest: set_takeWhileD)
  then show ?thesis by (simp add: ins_after_def remove1_append)
qed

text \<open>Insertion by a key keeps the list sorted by that key, and goes behind the equal keys.\<close>

abbreviation sorted_by :: "('a \<Rightarrow> 'k::linorder) \<Rightarrow> 'a list \<Rightarrow> bool" where
  "sorted_by k \<equiv> sorted_wrt (\<lambda>x y. k x \<le> k y)"

lemma sorted_by_dropWhile_gt:
  "sorted_by k xs \<Longrightarrow> y \<in> set (dropWhile (\<lambda>z. k z \<le> b) xs) \<Longrightarrow> b < k y"
  by (induction xs) (auto split: if_splits)

lemma sorted_by_ins_after:
  assumes "sorted_by k xs"
  shows "sorted_by k (ins_after (\<lambda>y. k y \<le> k x) x xs)"
proof -
  let ?c = "\<lambda>y. k y \<le> k x"
  have s: "sorted_by k (takeWhile ?c xs @ dropWhile ?c xs)" using assms by simp
  have lo: "\<forall>y\<in>set (takeWhile ?c xs). k y \<le> k x" by (auto dest: set_takeWhileD)
  have hi: "\<forall>y\<in>set (dropWhile ?c xs). k x \<le> k y"
    using sorted_by_dropWhile_gt [OF assms] by (auto intro: less_imp_le)
  from s lo hi show ?thesis
    by (auto simp: ins_after_def sorted_wrt_append intro: order_trans)
qed

text \<open>The variant that goes in front of the equal keys.\<close>

lemma sorted_by_ins_after_strict:
  assumes "sorted_by k xs"
  shows "sorted_by k (ins_after (\<lambda>y. k y < k x) x xs)"
proof -
  let ?c = "\<lambda>y. k y < k x"
  have s: "sorted_by k (takeWhile ?c xs @ dropWhile ?c xs)" using assms by simp
  have lo: "\<forall>y\<in>set (takeWhile ?c xs). k y \<le> k x" by (auto dest!: set_takeWhileD)
  have hi: "\<forall>y\<in>set (dropWhile ?c xs). k x \<le> k y"
    using assms by (induction xs) (auto simp: not_less intro: order_trans)
  from s lo hi show ?thesis
    by (auto simp: ins_after_def sorted_wrt_append intro: order_trans)
qed

lemma sorted_wrt_remove1: "sorted_wrt R xs \<Longrightarrow> sorted_wrt R (remove1 x xs)"
  by (induction xs) (auto dest: notin_set_remove1 in_set_remove1 intro: set_remove1_subset [THEN subsetD])

lemma sorted_by_cong:
  "(\<And>x. x \<in> set xs \<Longrightarrow> k x = l x) \<Longrightarrow> sorted_by k xs = sorted_by l xs"
  by (induction xs) auto

lemma sorted_by_hd: "sorted_by k xs \<Longrightarrow> x \<in> set xs \<Longrightarrow> k (hd xs) \<le> k x"
  by (cases xs) auto

text \<open>The first element with a property is a minimal one among those that have it.\<close>

lemma sorted_by_find_least:
  "sorted_by k xs \<Longrightarrow> find c xs = Some x \<Longrightarrow> y \<in> set xs \<Longrightarrow> c y \<Longrightarrow> k x \<le> k y"
  by (induction xs) (auto split: if_splits)

lemma find_Some_set: "find c xs = Some x \<Longrightarrow> x \<in> set xs \<and> c x"
  by (auto simp: find_Some_iff)

lemma find_ex: "x \<in> set xs \<Longrightarrow> c x \<Longrightarrow> \<exists>y. find c xs = Some y"
  by (cases "find c xs") (auto simp: find_None_iff)

lemma find_append: "find c (xs @ ys) = (case find c xs of None \<Rightarrow> find c ys | Some x \<Rightarrow> Some x)"
  by (induction xs) auto

text \<open>The first element with \<open>c\<close> is the first one with a stronger property, if it has that.\<close>

lemma find_filter_hd:
  "find c xs = Some x \<Longrightarrow> d x \<Longrightarrow> (\<And>y. d y \<Longrightarrow> c y) \<Longrightarrow> \<exists>zs. filter d xs = x # zs"
  by (induction xs) (auto split: if_splits)

section \<open>The enqueue and dequeue of a singly linked list\<close>

lemma lst_enqueue:
  assumes l: "lst nx p xs" and t: "t \<notin> set xs" "t \<noteq> NULL"
    and pos: "pos = last (NULL # takeWhile c xs)"
  shows "if pos \<noteq> NULL then lst (nx(t := nx pos, pos := t)) p (ins_after c t xs)
         else lst (nx(t := p)) t (ins_after c t xs)"
proof (cases "takeWhile c xs" rule: rev_cases)
  case Nil
  then have "dropWhile c xs = xs" using takeWhile_dropWhile_id [of c xs] by simp
  with Nil l t pos show ?thesis by (simp add: ins_after_def)
next
  case (snoc ys y)
  have xs: "xs = ys @ y # dropWhile c xs"
    using takeWhile_dropWhile_id [of c xs] snoc by simp
  have d: "distinct xs" using l by (rule lst_distinct)
  have y: "y \<noteq> NULL" using l xs by (metis in_set_conv_decomp path_nonnull)
  have pos': "pos = y" using pos snoc by simp
  obtain m where m: "path nx p ys m" "m = y" "lst nx (nx y) (dropWhile c xs)"
    using l by (subst (asm) xs) auto
  have n: "y \<notin> set ys" "y \<notin> set (dropWhile c xs)"
    using d by (subst (asm) (1) xs; simp)+
  have nt: "t \<notin> set ys" "t \<noteq> y" "t \<notin> set (dropWhile c xs)"
    using t(1) by (subst (asm) xs; simp)+
  show ?thesis using m n nt t(2) y pos'
    by (simp add: ins_after_def snoc)
qed

lemma lst_prev:
  assumes "lst nx p (xs @ y # t # zs)"
  shows "chain_find nx (\<lambda>c. nx c = t) p = Some y"
proof -
  have d: "distinct (xs @ y # t # zs)" using assms by (rule lst_distinct)
  have "nx x \<noteq> t" if "x \<in> set xs" for x
  proof
    assume x: "nx x = t"
    from that obtain as bs where "xs = as @ x # bs" by (auto simp: in_set_conv_decomp)
    with assms x have "path nx t (bs @ [y]) t" by (cases bs) auto
    with d \<open>xs = as @ x # bs\<close> show False by (cases bs) auto
  qed
  then have "dropWhile (\<lambda>x. nx x \<noteq> t) (xs @ y # t # zs) = y # t # zs"
    using assms by (subst dropWhile_append2) auto
  then show ?thesis using chain_find_lst [OF assms, of "\<lambda>c. nx c = t"] by simp
qed

lemma lst_prev_absent:
  assumes "lst nx p xs" "t \<notin> set xs" "t \<noteq> NULL"
  shows "chain_find nx (\<lambda>c. nx c = t) p = Some NULL"
proof -
  have "nx x \<noteq> t" if "x \<in> set xs" for x
  proof
    assume x: "nx x = t"
    from that obtain as bs where xs: "xs = as @ x # bs" by (auto simp: in_set_conv_decomp)
    with assms x show False by (cases bs) auto
  qed
  then have "dropWhile (\<lambda>x. nx x \<noteq> t) xs = []" by simp
  with chain_find_lst [OF assms(1), of "\<lambda>c. nx c = t"] show ?thesis by simp
qed

lemma lst_dequeue_mid:
  assumes "lst nx p (xs @ y # t # zs)"
  shows "lst (nx(y := nx t)) p (xs @ y # zs)"
proof -
  have "distinct (xs @ y # t # zs)" using assms by (rule lst_distinct)
  with assms show ?thesis by auto
qed

section \<open>Doubly linked lists\<close>

text \<open>
  \<open>dseg nx pv a p xs b z\<close>: from \<open>a\<close> along \<open>nx\<close> the nodes \<open>xs\<close> lead to \<open>z\<close>; each node's \<open>pv\<close> is the
  node before it, the first one's is \<open>p\<close>; and \<open>b\<close> is the last node, or \<open>p\<close> when there is none.
\<close>

fun dseg :: "(ptr \<Rightarrow> ptr) \<Rightarrow> (ptr \<Rightarrow> ptr) \<Rightarrow> ptr \<Rightarrow> ptr \<Rightarrow> ptr list \<Rightarrow> ptr \<Rightarrow> ptr \<Rightarrow> bool" where
  "dseg nx pv a p [] b z \<longleftrightarrow> a = z \<and> b = p"
| "dseg nx pv a p (x # xs) b z \<longleftrightarrow> a = x \<and> x \<noteq> NULL \<and> pv x = p \<and> dseg nx pv (nx x) x xs b z"

lemma dseg_append [simp]:
  "dseg nx pv a p (xs @ ys) b z \<longleftrightarrow> (\<exists>m l. dseg nx pv a p xs l m \<and> dseg nx pv m l ys b z)"
  by (induction xs arbitrary: a p) auto

lemma dseg_upd_nx [simp]:
  "u \<notin> set xs \<Longrightarrow> dseg (nx(u := v)) pv a p xs b z = dseg nx pv a p xs b z"
  by (induction xs arbitrary: a p) auto

lemma dseg_upd_pv [simp]:
  "u \<notin> set xs \<Longrightarrow> dseg nx (pv(u := v)) a p xs b z = dseg nx pv a p xs b z"
  by (induction xs arbitrary: a p) auto

lemma dseg_cong:
  "(\<And>x. x \<in> set xs \<Longrightarrow> nx x = ny x \<and> pv x = pw x) \<Longrightarrow>
   dseg nx pv a p xs b z = dseg ny pw a p xs b z"
  by (induction xs arbitrary: a p) auto

lemma dseg_path: "dseg nx pv a p xs b z \<Longrightarrow> path nx a xs z"
  by (induction xs arbitrary: a p) auto

lemma dseg_last: "dseg nx pv a p xs b z \<Longrightarrow> b = last (p # xs)"
  by (induction xs arbitrary: a p) auto

lemma dseg_hd: "dseg nx pv a p xs b NULL \<Longrightarrow> a = (case xs of [] \<Rightarrow> NULL | x # _ \<Rightarrow> x)"
  by (cases xs) auto

lemma dseg_next:
  "dseg nx pv a p (xs @ t # ys) b NULL \<Longrightarrow> nx t = NULL \<or> nx t \<in> set ys"
  by (cases ys) auto

lemma dseg_prev:
  "dseg nx pv a NULL (xs @ t # ys) b z \<Longrightarrow> pv t = NULL \<or> pv t \<in> set xs"
  by (cases xs rule: rev_cases) auto

lemma dseg_hd_prev: "dseg nx pv a p xs b NULL \<Longrightarrow> (if a \<noteq> NULL then pv a else b) = p"
  by (cases xs) auto

lemma dseg_nonnull: "dseg nx pv a p xs b z \<Longrightarrow> x \<in> set xs \<Longrightarrow> x \<noteq> NULL"
  by (auto dest: dseg_path path_nonnull)

lemma dseg_distinct: "dseg nx pv a p xs b NULL \<Longrightarrow> distinct xs"
  by (auto dest: dseg_path lst_distinct)

lemma dseg_split:
  "dseg nx pv a p xs b z \<Longrightarrow>
   \<exists>m l. dseg nx pv a p (takeWhile c xs) l m \<and> dseg nx pv m l (dropWhile c xs) b z"
  by (metis dseg_append takeWhile_dropWhile_id)

text \<open>Linking a new node \<open>t\<close> between two parts of a list, and unlinking it.\<close>

lemma dseg_link:
  assumes d: "dseg nx pv a NULL (xs @ ys) b NULL"
    and t: "t \<notin> set xs" "t \<notin> set ys" "t \<noteq> NULL"
    and pos: "pos = last (NULL # xs)"
    and nx': "nx' = (if pos \<noteq> NULL then nx(t := nx pos, pos := t) else nx(t := a))"
    and pv': "pv' = (if nx' t \<noteq> NULL then pv(t := pos, nx' t := t) else pv(t := pos))"
  shows "dseg nx' pv' (if pos \<noteq> NULL then a else t) NULL (xs @ t # ys) (if nx' t \<noteq> NULL then b else t) NULL"
proof -
  have dist: "distinct (xs @ ys)" using d by (rule dseg_distinct)
  obtain m l where x: "dseg nx pv a NULL xs l m" and y: "dseg nx pv m l ys b NULL" using d by auto
  have l: "l = pos" using dseg_last [OF x] pos by simp
  have nt: "nx' t = m"
  proof (cases xs rule: rev_cases)
    case Nil
    then show ?thesis using x pos nx' by simp
  next
    case (snoc us u)
    then show ?thesis using x pos nx' t by auto
  qed
  have ym: "m = (case ys of [] \<Rightarrow> NULL | u # _ \<Rightarrow> u)" using y by (cases ys) auto
  have y': "dseg nx' pv' m t ys (if m \<noteq> NULL then b else t) NULL"
  proof (cases ys)
    case Nil
    then show ?thesis using ym by simp
  next
    case (Cons v vs)
    have "pos \<notin> set ys" using pos dist y by (cases xs rule: rev_cases) (auto dest: dseg_nonnull)
    then show ?thesis using Cons y t dist nt ym nx' pv' by auto
  qed
  have x': "dseg nx' pv' (if pos \<noteq> NULL then a else t) NULL xs pos t"
  proof (cases xs rule: rev_cases)
    case Nil
    then show ?thesis using pos by simp
  next
    case (snoc us u)
    have u: "u \<noteq> NULL" "pos = u" using x pos snoc by auto
    have "m \<notin> set xs" using ym dist x by (cases ys) (auto dest: dseg_nonnull)
    then show ?thesis using snoc x u t dist nt nx' pv' by auto
  qed
  have "pv' t = pos" using pv' nt ym t by (cases ys) auto
  then show ?thesis unfolding dseg_append using x' y' t nt
    by (intro exI [of _ t] exI [of _ pos]) simp
qed

lemma dseg_unlink:
  assumes d: "dseg nx pv a NULL (xs @ t # ys) b NULL"
    and nx': "nx' = (if pv t \<noteq> NULL then nx(pv t := nx t) else nx)"
    and pv': "pv' = (if nx t \<noteq> NULL then pv(nx t := pv t) else pv)"
  shows "dseg nx' pv' (if pv t \<noteq> NULL then a else nx t) NULL (xs @ ys)
           (if nx t \<noteq> NULL then b else pv t) NULL"
proof -
  have dist: "distinct (xs @ t # ys)" using d by (rule dseg_distinct)
  have x: "dseg nx pv a NULL xs (pv t) t" and y: "dseg nx pv (nx t) t ys b NULL" using d by auto
  have pt: "pv t = last (NULL # xs)" using x by (rule dseg_last)
  have nt: "nx t = (case ys of [] \<Rightarrow> NULL | u # _ \<Rightarrow> u)" using y by (cases ys) auto
  have y': "dseg nx' pv' (nx t) (pv t) ys (if nx t \<noteq> NULL then b else pv t) NULL"
  proof (cases ys)
    case Nil
    then show ?thesis using nt by simp
  next
    case (Cons v vs)
    have "pv t \<notin> set ys" using pt dist y by (cases xs rule: rev_cases) (auto dest: dseg_nonnull)
    then show ?thesis using Cons y dist nt nx' pv' by auto
  qed
  have x': "dseg nx' pv' (if pv t \<noteq> NULL then a else nx t) NULL xs (pv t) (nx t)"
  proof (cases xs rule: rev_cases)
    case Nil
    then show ?thesis using pt by simp
  next
    case (snoc us u)
    have u: "u \<noteq> NULL" "pv t = u" using x pt snoc by auto
    have "nx t \<notin> set xs" using nt dist x by (cases ys) (auto dest: dseg_nonnull)
    then show ?thesis using snoc x u dist nx' pv' by auto
  qed
  from x' y' show ?thesis unfolding dseg_append by blast
qed

section \<open>Signed readings of words\<close>

lemma sint_uint_if:
  "sint (x :: 'a::len word) =
     (if uint x < 2 ^ (LENGTH('a) - 1) then uint x else uint x - 2 ^ LENGTH('a))"
proof -
  define n where "n = LENGTH('a) - 1"
  have n: "LENGTH('a) = Suc n" by (simp add: n_def)
  define u where "u = uint x"
  have b: "0 \<le> u" "u < 2 * 2 ^ n"
    using unsigned_less [of x, where ?'a = int] by (simp_all add: u_def n)
  have s: "sint x = (u + 2 ^ n) mod (2 * 2 ^ n) - 2 ^ n"
    by (simp add: sint_uint signed_take_bit_eq_take_bit_shift take_bit_eq_mod u_def n)
  show ?thesis
  proof (cases "u < 2 ^ n")
    case True
    then show ?thesis using b s by (simp add: n u_def)
  next
    case False
    have "(u + 2 ^ n) mod (2 * 2 ^ n) = (u - 2 ^ n + 2 * 2 ^ n) mod (2 * 2 ^ n)"
      by (simp add: add.commute)
    also have "\<dots> = (u - 2 ^ n) mod (2 * 2 ^ n)" by (rule mod_add_self2)
    also have "\<dots> = u - 2 ^ n" using False b by simp
    finally show ?thesis using False s by (simp add: n u_def)
  qed
qed

section \<open>Alignment\<close>

lemma align_down:
  fixes x :: "'a::len word"
  shows "unat (x AND NOT (mask n)) = unat x - unat x mod 2 ^ n"
proof -
  have "(x AND NOT (mask n)) + (x AND mask n) = (x AND NOT (mask n)) OR (x AND mask n)"
    by (rule disjunctive_add_eq_or) (rule bit_eqI, simp add: bit_simps)
  also have "\<dots> = x" by (rule bit_eqI) (auto simp: bit_simps)
  finally have e: "x AND NOT (mask n) = x - take_bit n x" by (simp add: take_bit_eq_mask algebra_simps)
  have u: "unat (take_bit n x) = unat x mod 2 ^ n"
    by (simp only: unsigned_take_bit_eq) (simp only: take_bit_eq_mod)
  have "take_bit n x \<le> x" by (simp add: word_le_nat_alt u)
  then show ?thesis unfolding e by (simp add: unat_sub u)
qed

lemma align_up:
  fixes x :: "'a::len word"
  assumes "unat x + 2 ^ n - 1 < 2 ^ LENGTH('a)" "n < LENGTH('a)"
  shows "x \<le> (x + mask n) AND NOT (mask n)" "((x + mask n) AND NOT (mask n)) AND mask n = 0"
proof -
  have "unat (take_bit n (- 1 :: 'a word)) = take_bit n (unat (- 1 :: 'a word))" by (rule unsigned_take_bit_eq)
  then have m: "unat (mask n :: 'a word) = 2 ^ n - 1"
    using assms(2) mask_eq_exp_minus_1 [of n, where 'a = nat]
    by (simp add: take_bit_minus_one_eq_mask unsigned_minus_1_eq_mask take_bit_of_mask min_def)
  have s: "unat (x + mask n) = unat x + (2 ^ n - 1)" using assms(1) m by (simp add: unat_word_ariths)
  define k where "k = (unat x + (2 ^ n - 1)) mod 2 ^ n"
  have "k < 2 ^ n" unfolding k_def by (rule mod_less_divisor) simp
  then have "unat x \<le> unat x + (2 ^ n - 1) - k" by linarith
  then show "x \<le> (x + mask n) AND NOT (mask n)" by (simp add: word_le_nat_alt align_down s k_def)
qed (simp add: and.assoc)

end
