(* ===== verification/KState.thy ===== *)
theory KState
  imports Ogc_Prelude
begin

text \<open>
  The data of the tuxedo kernel (\<^verbatim>\<open>tuxedo/\<close>, \<^verbatim>\<open>gc/tuxedo/\<close>): thread control blocks, wait queues, tick
  tasks, the mutex store and the few machine registers the C code reads and writes. A C object is
  named by its address; the store maps addresses to records with the fields of the C structs.

  The wait data and the exit code of a thread share storage in the C union: \<open>finish.rc\<close> is the
  same word as \<open>wait.link.next\<close>, and is modelled as that word (\<open>t_finish_rc\<close>).
  Not represented: the scratch registers and floating point state of \<open>PPCContext\<close>, the newlib
  reentrancy block, the \<open>user\<close> pointer (no modelled code reads it) and the thread switch callback
  (\<open>NULL\<close> unless time slicing is on; the repository's only callback returns its argument).
\<close>

section \<open>Enumerations\<close>

datatype KThrState =
    KTHR_STATE_UNINIT
  | KTHR_STATE_FINISHED
  | KTHR_STATE_RUNNING
  | KTHR_STATE_WAITING
  | KTHR_STATE_WAITING_MUTEX

fun state_code :: "KThrState \<Rightarrow> nat" where
  "state_code KTHR_STATE_UNINIT = 0"
| "state_code KTHR_STATE_FINISHED = 1"
| "state_code KTHR_STATE_RUNNING = 2"
| "state_code KTHR_STATE_WAITING = 3"
| "state_code KTHR_STATE_WAITING_MUTEX = 4"

lemma state_code_inj [simp]: "state_code a = state_code b \<longleftrightarrow> a = b"
  by (cases a; cases b) auto

text \<open>The C code compares states by their enumeration value.\<close>

instantiation KThrState :: linorder
begin
definition less_eq_KThrState :: "KThrState \<Rightarrow> KThrState \<Rightarrow> bool" where
  "a \<le> b \<longleftrightarrow> state_code a \<le> state_code b"
definition less_KThrState :: "KThrState \<Rightarrow> KThrState \<Rightarrow> bool" where
  "a < b \<longleftrightarrow> state_code a < state_code b"
instance
  by standard (auto simp: less_eq_KThrState_def less_KThrState_def)
end

lemma state_ge_running:
  "KTHR_STATE_RUNNING \<le> st \<longleftrightarrow>
   st = KTHR_STATE_RUNNING \<or> st = KTHR_STATE_WAITING \<or> st = KTHR_STATE_WAITING_MUTEX"
  by (cases st) (auto simp: less_eq_KThrState_def)

datatype KThrUnblockMode = KTHR_UNBLOCK_ANY | KTHR_UNBLOCK_BY_VALUE | KTHR_UNBLOCK_BY_MASK

text \<open>The statically allocated wait queues of the repository.\<close>

datatype static_queue =
    S_joinQueue | S_sleepQueue | S_cvWaitQueue | S_mailboxRecvQueue
  | Lwpc_queue | Lwpc_sem_queue | Exi_sync_queue

text \<open>A \<^verbatim>\<open>KThrQueue*\<close>: null, a static queue, or the \<open>waiters\<close> field of a thread.\<close>

datatype qptr = QNull | QStatic static_queue | QWaiters ptr

text \<open>The tick callbacks of the repository; \<open>Fn_other\<close> is one the program supplies.\<close>

datatype tick_fn =
    Fn_null | Fn_KThreadSleepWakeup | Fn_KCondVarTimeoutFn | Fn_lwpc_alarm_cb | Fn_other u32

section \<open>Structs\<close>

record KThrQueue =
  q_next :: ptr
  q_prev :: ptr

record PPCContext =
  ctx_pc :: u32
  ctx_msr :: u32
  ctx_lr :: u32
  ctx_gpr :: "nat \<Rightarrow> u32"

record KThread =
  t_ctx :: PPCContext
  t_next :: ptr
  t_state :: KThrState
  t_suspend :: u16
  t_prio :: u16
  t_baseprio :: u16
  t_waiters :: KThrQueue
  t_link :: KThrQueue
  t_wqueue :: qptr
  t_token :: u32

abbreviation t_finish_rc :: "KThread \<Rightarrow> u32" where
  "t_finish_rc t \<equiv> q_next (t_link t)"

record KTickTask =
  k_next :: ptr
  k_fn :: tick_fn
  k_target :: u64
  k_period :: u64

record kstate =
  threads :: "ptr \<Rightarrow> KThread"
  s_firstThread :: ptr
  ppc_next_ctx :: ptr
  sprg2 :: ptr
  sprg3 :: ptr
  msr :: u32
  squeues :: "static_queue \<Rightarrow> KThrQueue"
  mutex_owner :: "ptr \<Rightarrow> ptr"
  stack_mem :: "u32 \<Rightarrow> u32"
  tasks :: "ptr \<Rightarrow> KTickTask"
  s_firstTask :: ptr
  timebase :: u64
  dec_reg :: u32

text \<open>The zero-filled objects the C start-up code and \<^verbatim>\<open>memset\<close> leave.\<close>

definition zero_queue :: KThrQueue where
  "zero_queue = \<lparr>q_next = NULL, q_prev = NULL\<rparr>"

definition zero_thread :: KThread where
  "zero_thread = \<lparr>t_ctx = \<lparr>ctx_pc = 0, ctx_msr = 0, ctx_lr = 0, ctx_gpr = (\<lambda>_. 0)\<rparr>,
     t_next = NULL, t_state = KTHR_STATE_UNINIT, t_suspend = 0, t_prio = 0, t_baseprio = 0,
     t_waiters = zero_queue, t_link = zero_queue, t_wqueue = QNull, t_token = 0\<rparr>"

definition zero_task :: KTickTask where
  "zero_task = \<lparr>k_next = NULL, k_fn = Fn_null, k_target = 0, k_period = 0\<rparr>"

section \<open>The machine state register and interrupt locking\<close>

definition PPCBIT :: "nat \<Rightarrow> u32" where
  "PPCBIT n = drop_bit n 0x80000000"

definition MSR_EE :: u32 where "MSR_EE = 0x8000"
definition MSR_FP :: u32 where "MSR_FP = 0x2000"
definition MSR_ME :: u32 where "MSR_ME = 0x1000"
definition MSR_IR :: u32 where "MSR_IR = 0x20"
definition MSR_DR :: u32 where "MSR_DR = 0x10"
definition MSR_RI :: u32 where "MSR_RI = 0x2"

lemmas MSR_defs = MSR_EE_def MSR_FP_def MSR_ME_def MSR_IR_def MSR_DR_def MSR_RI_def

lemma MSR_bits:
  "MSR_EE = PPCBIT 16" "MSR_FP = PPCBIT 18" "MSR_ME = PPCBIT 19"
  "MSR_IR = PPCBIT 26" "MSR_DR = PPCBIT 27" "MSR_RI = PPCBIT 30"
  by (simp_all add: MSR_defs PPCBIT_def drop_bit_eq_div)

definition PPCIrqLockByMsr :: "kstate \<Rightarrow> u32 \<times> kstate" where
  "PPCIrqLockByMsr s = (msr s AND MSR_EE, s\<lparr>msr := msr s AND NOT (MSR_EE OR MSR_FP)\<rparr>)"

definition PPCIrqUnlockByMsr :: "u32 \<Rightarrow> kstate \<Rightarrow> kstate" where
  "PPCIrqUnlockByMsr st s = s\<lparr>msr := (msr s AND NOT MSR_EE) OR st\<rparr>"

definition PPCIsInExcpt :: "kstate \<Rightarrow> bool" where
  "PPCIsInExcpt s \<longleftrightarrow> msr s AND MSR_RI = 0"

section \<open>Accessors and field updates of the thread store\<close>

definition upd_thr :: "ptr \<Rightarrow> (KThread \<Rightarrow> KThread) \<Rightarrow> kstate \<Rightarrow> kstate" where
  "upd_thr t f s = s\<lparr>threads := (threads s)(t := f (threads s t))\<rparr>"

definition nextT :: "kstate \<Rightarrow> ptr \<Rightarrow> ptr" where "nextT s p = t_next (threads s p)"
definition stateT :: "kstate \<Rightarrow> ptr \<Rightarrow> KThrState" where "stateT s p = t_state (threads s p)"
definition suspendT :: "kstate \<Rightarrow> ptr \<Rightarrow> u16" where "suspendT s p = t_suspend (threads s p)"
definition prioT :: "kstate \<Rightarrow> ptr \<Rightarrow> u16" where "prioT s p = t_prio (threads s p)"
definition basepT :: "kstate \<Rightarrow> ptr \<Rightarrow> u16" where "basepT s p = t_baseprio (threads s p)"
definition waitersT :: "kstate \<Rightarrow> ptr \<Rightarrow> KThrQueue" where "waitersT s p = t_waiters (threads s p)"
definition lnextT :: "kstate \<Rightarrow> ptr \<Rightarrow> ptr" where "lnextT s p = q_next (t_link (threads s p))"
definition lprevT :: "kstate \<Rightarrow> ptr \<Rightarrow> ptr" where "lprevT s p = q_prev (t_link (threads s p))"
definition wqueueT :: "kstate \<Rightarrow> ptr \<Rightarrow> qptr" where "wqueueT s p = t_wqueue (threads s p)"
definition tokenT :: "kstate \<Rightarrow> ptr \<Rightarrow> u32" where "tokenT s p = t_token (threads s p)"

lemmas thr_acc_defs = nextT_def stateT_def suspendT_def prioT_def basepT_def waitersT_def
  lnextT_def lprevT_def wqueueT_def tokenT_def

definition set_next :: "ptr \<Rightarrow> ptr \<Rightarrow> kstate \<Rightarrow> kstate" where
  "set_next t v = upd_thr t (\<lambda>k. k\<lparr>t_next := v\<rparr>)"
definition set_state :: "ptr \<Rightarrow> KThrState \<Rightarrow> kstate \<Rightarrow> kstate" where
  "set_state t v = upd_thr t (\<lambda>k. k\<lparr>t_state := v\<rparr>)"
definition set_suspend :: "ptr \<Rightarrow> u16 \<Rightarrow> kstate \<Rightarrow> kstate" where
  "set_suspend t v = upd_thr t (\<lambda>k. k\<lparr>t_suspend := v\<rparr>)"
definition set_prio :: "ptr \<Rightarrow> u16 \<Rightarrow> kstate \<Rightarrow> kstate" where
  "set_prio t v = upd_thr t (\<lambda>k. k\<lparr>t_prio := v\<rparr>)"
definition set_basep :: "ptr \<Rightarrow> u16 \<Rightarrow> kstate \<Rightarrow> kstate" where
  "set_basep t v = upd_thr t (\<lambda>k. k\<lparr>t_baseprio := v\<rparr>)"
definition set_waiters :: "ptr \<Rightarrow> KThrQueue \<Rightarrow> kstate \<Rightarrow> kstate" where
  "set_waiters t v = upd_thr t (\<lambda>k. k\<lparr>t_waiters := v\<rparr>)"
definition set_lnext :: "ptr \<Rightarrow> ptr \<Rightarrow> kstate \<Rightarrow> kstate" where
  "set_lnext t v = upd_thr t (\<lambda>k. k\<lparr>t_link := (t_link k)\<lparr>q_next := v\<rparr>\<rparr>)"
definition set_lprev :: "ptr \<Rightarrow> ptr \<Rightarrow> kstate \<Rightarrow> kstate" where
  "set_lprev t v = upd_thr t (\<lambda>k. k\<lparr>t_link := (t_link k)\<lparr>q_prev := v\<rparr>\<rparr>)"
definition set_wqueue :: "ptr \<Rightarrow> qptr \<Rightarrow> kstate \<Rightarrow> kstate" where
  "set_wqueue t v = upd_thr t (\<lambda>k. k\<lparr>t_wqueue := v\<rparr>)"
definition set_token :: "ptr \<Rightarrow> u32 \<Rightarrow> kstate \<Rightarrow> kstate" where
  "set_token t v = upd_thr t (\<lambda>k. k\<lparr>t_token := v\<rparr>)"
definition set_ctx :: "ptr \<Rightarrow> (PPCContext \<Rightarrow> PPCContext) \<Rightarrow> kstate \<Rightarrow> kstate" where
  "set_ctx t f = upd_thr t (\<lambda>k. k\<lparr>t_ctx := f (t_ctx k)\<rparr>)"

lemmas thr_set_defs = set_next_def set_state_def set_suspend_def set_prio_def set_basep_def
  set_waiters_def set_lnext_def set_lprev_def set_wqueue_def set_token_def set_ctx_def

text \<open>Reading back what was written, and what every other field keeps.\<close>

lemmas thr_all_defs = thr_acc_defs thr_set_defs upd_thr_def fun_eq_iff

lemma nextT_set [simp]:
  "nextT (set_next t v s) = (nextT s)(t := v)" "nextT (set_state t a s) = nextT s"
  "nextT (set_suspend t u s) = nextT s" "nextT (set_prio t u s) = nextT s"
  "nextT (set_basep t u s) = nextT s" "nextT (set_waiters t w s) = nextT s"
  "nextT (set_lnext t v s) = nextT s" "nextT (set_lprev t v s) = nextT s"
  "nextT (set_wqueue t q s) = nextT s" "nextT (set_token t v s) = nextT s"
  "nextT (set_ctx t f s) = nextT s"
  by (simp_all add: thr_all_defs)

lemma stateT_set [simp]:
  "stateT (set_next t v s) = stateT s" "stateT (set_state t a s) = (stateT s)(t := a)"
  "stateT (set_suspend t u s) = stateT s" "stateT (set_prio t u s) = stateT s"
  "stateT (set_basep t u s) = stateT s" "stateT (set_waiters t w s) = stateT s"
  "stateT (set_lnext t v s) = stateT s" "stateT (set_lprev t v s) = stateT s"
  "stateT (set_wqueue t q s) = stateT s" "stateT (set_token t v s) = stateT s"
  "stateT (set_ctx t f s) = stateT s"
  by (simp_all add: thr_all_defs)

lemma suspendT_set [simp]:
  "suspendT (set_next t v s) = suspendT s" "suspendT (set_state t a s) = suspendT s"
  "suspendT (set_suspend t u s) = (suspendT s)(t := u)" "suspendT (set_prio t u s) = suspendT s"
  "suspendT (set_basep t u s) = suspendT s" "suspendT (set_waiters t w s) = suspendT s"
  "suspendT (set_lnext t v s) = suspendT s" "suspendT (set_lprev t v s) = suspendT s"
  "suspendT (set_wqueue t q s) = suspendT s" "suspendT (set_token t v s) = suspendT s"
  "suspendT (set_ctx t f s) = suspendT s"
  by (simp_all add: thr_all_defs)

lemma prioT_set [simp]:
  "prioT (set_next t v s) = prioT s" "prioT (set_state t a s) = prioT s"
  "prioT (set_suspend t u s) = prioT s" "prioT (set_prio t u s) = (prioT s)(t := u)"
  "prioT (set_basep t u s) = prioT s" "prioT (set_waiters t w s) = prioT s"
  "prioT (set_lnext t v s) = prioT s" "prioT (set_lprev t v s) = prioT s"
  "prioT (set_wqueue t q s) = prioT s" "prioT (set_token t v s) = prioT s"
  "prioT (set_ctx t f s) = prioT s"
  by (simp_all add: thr_all_defs)

lemma basepT_set [simp]:
  "basepT (set_next t v s) = basepT s" "basepT (set_state t a s) = basepT s"
  "basepT (set_suspend t u s) = basepT s" "basepT (set_prio t u s) = basepT s"
  "basepT (set_basep t u s) = (basepT s)(t := u)" "basepT (set_waiters t w s) = basepT s"
  "basepT (set_lnext t v s) = basepT s" "basepT (set_lprev t v s) = basepT s"
  "basepT (set_wqueue t q s) = basepT s" "basepT (set_token t v s) = basepT s"
  "basepT (set_ctx t f s) = basepT s"
  by (simp_all add: thr_all_defs)

lemma waitersT_set [simp]:
  "waitersT (set_next t v s) = waitersT s" "waitersT (set_state t a s) = waitersT s"
  "waitersT (set_suspend t u s) = waitersT s" "waitersT (set_prio t u s) = waitersT s"
  "waitersT (set_basep t u s) = waitersT s" "waitersT (set_waiters t w s) = (waitersT s)(t := w)"
  "waitersT (set_lnext t v s) = waitersT s" "waitersT (set_lprev t v s) = waitersT s"
  "waitersT (set_wqueue t q s) = waitersT s" "waitersT (set_token t v s) = waitersT s"
  "waitersT (set_ctx t f s) = waitersT s"
  by (simp_all add: thr_all_defs)

lemma lnextT_set [simp]:
  "lnextT (set_next t v s) = lnextT s" "lnextT (set_state t a s) = lnextT s"
  "lnextT (set_suspend t u s) = lnextT s" "lnextT (set_prio t u s) = lnextT s"
  "lnextT (set_basep t u s) = lnextT s" "lnextT (set_waiters t w s) = lnextT s"
  "lnextT (set_lnext t v s) = (lnextT s)(t := v)" "lnextT (set_lprev t v s) = lnextT s"
  "lnextT (set_wqueue t q s) = lnextT s" "lnextT (set_token t v s) = lnextT s"
  "lnextT (set_ctx t f s) = lnextT s"
  by (simp_all add: thr_all_defs)

lemma lprevT_set [simp]:
  "lprevT (set_next t v s) = lprevT s" "lprevT (set_state t a s) = lprevT s"
  "lprevT (set_suspend t u s) = lprevT s" "lprevT (set_prio t u s) = lprevT s"
  "lprevT (set_basep t u s) = lprevT s" "lprevT (set_waiters t w s) = lprevT s"
  "lprevT (set_lnext t v s) = lprevT s" "lprevT (set_lprev t v s) = (lprevT s)(t := v)"
  "lprevT (set_wqueue t q s) = lprevT s" "lprevT (set_token t v s) = lprevT s"
  "lprevT (set_ctx t f s) = lprevT s"
  by (simp_all add: thr_all_defs)

lemma wqueueT_set [simp]:
  "wqueueT (set_next t v s) = wqueueT s" "wqueueT (set_state t a s) = wqueueT s"
  "wqueueT (set_suspend t u s) = wqueueT s" "wqueueT (set_prio t u s) = wqueueT s"
  "wqueueT (set_basep t u s) = wqueueT s" "wqueueT (set_waiters t w s) = wqueueT s"
  "wqueueT (set_lnext t v s) = wqueueT s" "wqueueT (set_lprev t v s) = wqueueT s"
  "wqueueT (set_wqueue t q s) = (wqueueT s)(t := q)" "wqueueT (set_token t v s) = wqueueT s"
  "wqueueT (set_ctx t f s) = wqueueT s"
  by (simp_all add: thr_all_defs)

lemma tokenT_set [simp]:
  "tokenT (set_next t v s) = tokenT s" "tokenT (set_state t a s) = tokenT s"
  "tokenT (set_suspend t u s) = tokenT s" "tokenT (set_prio t u s) = tokenT s"
  "tokenT (set_basep t u s) = tokenT s" "tokenT (set_waiters t w s) = tokenT s"
  "tokenT (set_lnext t v s) = tokenT s" "tokenT (set_lprev t v s) = tokenT s"
  "tokenT (set_wqueue t q s) = tokenT s" "tokenT (set_token t v s) = (tokenT s)(t := v)"
  "tokenT (set_ctx t f s) = tokenT s"
  by (simp_all add: thr_all_defs)

end
