(* ===== verification/KFrame.thy ===== *)
theory KFrame
  imports KState
begin

text \<open>
  Frame facts of the kernel state: a thread field update leaves the registers and global variables
  alone, and an update of a register or global variable leaves every thread field alone.
\<close>

lemma s_firstThread_set_frame [simp]:
  "s_firstThread (set_next t v s) = s_firstThread s"
  "s_firstThread (set_state t a s) = s_firstThread s"
  "s_firstThread (set_suspend t u s) = s_firstThread s"
  "s_firstThread (set_prio t u s) = s_firstThread s"
  "s_firstThread (set_basep t u s) = s_firstThread s"
  "s_firstThread (set_waiters t w s) = s_firstThread s"
  "s_firstThread (set_lnext t v s) = s_firstThread s"
  "s_firstThread (set_lprev t v s) = s_firstThread s"
  "s_firstThread (set_wqueue t q s) = s_firstThread s"
  "s_firstThread (set_token t v s) = s_firstThread s"
  "s_firstThread (set_ctx t f s) = s_firstThread s"
  by (simp_all add: thr_set_defs upd_thr_def)

lemma ppc_next_ctx_set_frame [simp]:
  "ppc_next_ctx (set_next t v s) = ppc_next_ctx s"
  "ppc_next_ctx (set_state t a s) = ppc_next_ctx s"
  "ppc_next_ctx (set_suspend t u s) = ppc_next_ctx s"
  "ppc_next_ctx (set_prio t u s) = ppc_next_ctx s"
  "ppc_next_ctx (set_basep t u s) = ppc_next_ctx s"
  "ppc_next_ctx (set_waiters t w s) = ppc_next_ctx s"
  "ppc_next_ctx (set_lnext t v s) = ppc_next_ctx s"
  "ppc_next_ctx (set_lprev t v s) = ppc_next_ctx s"
  "ppc_next_ctx (set_wqueue t q s) = ppc_next_ctx s"
  "ppc_next_ctx (set_token t v s) = ppc_next_ctx s" "ppc_next_ctx (set_ctx t f s) = ppc_next_ctx s"
  by (simp_all add: thr_set_defs upd_thr_def)

lemma sprg2_set_frame [simp]:
  "sprg2 (set_next t v s) = sprg2 s" "sprg2 (set_state t a s) = sprg2 s"
  "sprg2 (set_suspend t u s) = sprg2 s" "sprg2 (set_prio t u s) = sprg2 s"
  "sprg2 (set_basep t u s) = sprg2 s" "sprg2 (set_waiters t w s) = sprg2 s"
  "sprg2 (set_lnext t v s) = sprg2 s" "sprg2 (set_lprev t v s) = sprg2 s"
  "sprg2 (set_wqueue t q s) = sprg2 s" "sprg2 (set_token t v s) = sprg2 s"
  "sprg2 (set_ctx t f s) = sprg2 s"
  by (simp_all add: thr_set_defs upd_thr_def)

lemma sprg3_set_frame [simp]:
  "sprg3 (set_next t v s) = sprg3 s" "sprg3 (set_state t a s) = sprg3 s"
  "sprg3 (set_suspend t u s) = sprg3 s" "sprg3 (set_prio t u s) = sprg3 s"
  "sprg3 (set_basep t u s) = sprg3 s" "sprg3 (set_waiters t w s) = sprg3 s"
  "sprg3 (set_lnext t v s) = sprg3 s" "sprg3 (set_lprev t v s) = sprg3 s"
  "sprg3 (set_wqueue t q s) = sprg3 s" "sprg3 (set_token t v s) = sprg3 s"
  "sprg3 (set_ctx t f s) = sprg3 s"
  by (simp_all add: thr_set_defs upd_thr_def)

lemma msr_set_frame [simp]:
  "msr (set_next t v s) = msr s" "msr (set_state t a s) = msr s" "msr (set_suspend t u s) = msr s"
  "msr (set_prio t u s) = msr s" "msr (set_basep t u s) = msr s" "msr (set_waiters t w s) = msr s"
  "msr (set_lnext t v s) = msr s" "msr (set_lprev t v s) = msr s" "msr (set_wqueue t q s) = msr s"
  "msr (set_token t v s) = msr s" "msr (set_ctx t f s) = msr s"
  by (simp_all add: thr_set_defs upd_thr_def)

lemma squeues_set_frame [simp]:
  "squeues (set_next t v s) = squeues s" "squeues (set_state t a s) = squeues s"
  "squeues (set_suspend t u s) = squeues s" "squeues (set_prio t u s) = squeues s"
  "squeues (set_basep t u s) = squeues s" "squeues (set_waiters t w s) = squeues s"
  "squeues (set_lnext t v s) = squeues s" "squeues (set_lprev t v s) = squeues s"
  "squeues (set_wqueue t q s) = squeues s" "squeues (set_token t v s) = squeues s"
  "squeues (set_ctx t f s) = squeues s"
  by (simp_all add: thr_set_defs upd_thr_def)

lemma mutex_owner_set_frame [simp]:
  "mutex_owner (set_next t v s) = mutex_owner s" "mutex_owner (set_state t a s) = mutex_owner s"
  "mutex_owner (set_suspend t u s) = mutex_owner s" "mutex_owner (set_prio t u s) = mutex_owner s"
  "mutex_owner (set_basep t u s) = mutex_owner s" "mutex_owner (set_waiters t w s) = mutex_owner s"
  "mutex_owner (set_lnext t v s) = mutex_owner s" "mutex_owner (set_lprev t v s) = mutex_owner s"
  "mutex_owner (set_wqueue t q s) = mutex_owner s" "mutex_owner (set_token t v s) = mutex_owner s"
  "mutex_owner (set_ctx t f s) = mutex_owner s"
  by (simp_all add: thr_set_defs upd_thr_def)

lemma stack_mem_set_frame [simp]:
  "stack_mem (set_next t v s) = stack_mem s" "stack_mem (set_state t a s) = stack_mem s"
  "stack_mem (set_suspend t u s) = stack_mem s" "stack_mem (set_prio t u s) = stack_mem s"
  "stack_mem (set_basep t u s) = stack_mem s" "stack_mem (set_waiters t w s) = stack_mem s"
  "stack_mem (set_lnext t v s) = stack_mem s" "stack_mem (set_lprev t v s) = stack_mem s"
  "stack_mem (set_wqueue t q s) = stack_mem s" "stack_mem (set_token t v s) = stack_mem s"
  "stack_mem (set_ctx t f s) = stack_mem s"
  by (simp_all add: thr_set_defs upd_thr_def)

lemma tasks_set_frame [simp]:
  "tasks (set_next t v s) = tasks s" "tasks (set_state t a s) = tasks s"
  "tasks (set_suspend t u s) = tasks s" "tasks (set_prio t u s) = tasks s"
  "tasks (set_basep t u s) = tasks s" "tasks (set_waiters t w s) = tasks s"
  "tasks (set_lnext t v s) = tasks s" "tasks (set_lprev t v s) = tasks s"
  "tasks (set_wqueue t q s) = tasks s" "tasks (set_token t v s) = tasks s"
  "tasks (set_ctx t f s) = tasks s"
  by (simp_all add: thr_set_defs upd_thr_def)

lemma s_firstTask_set_frame [simp]:
  "s_firstTask (set_next t v s) = s_firstTask s" "s_firstTask (set_state t a s) = s_firstTask s"
  "s_firstTask (set_suspend t u s) = s_firstTask s" "s_firstTask (set_prio t u s) = s_firstTask s"
  "s_firstTask (set_basep t u s) = s_firstTask s" "s_firstTask (set_waiters t w s) = s_firstTask s"
  "s_firstTask (set_lnext t v s) = s_firstTask s" "s_firstTask (set_lprev t v s) = s_firstTask s"
  "s_firstTask (set_wqueue t q s) = s_firstTask s" "s_firstTask (set_token t v s) = s_firstTask s"
  "s_firstTask (set_ctx t f s) = s_firstTask s"
  by (simp_all add: thr_set_defs upd_thr_def)

lemma timebase_set_frame [simp]:
  "timebase (set_next t v s) = timebase s" "timebase (set_state t a s) = timebase s"
  "timebase (set_suspend t u s) = timebase s" "timebase (set_prio t u s) = timebase s"
  "timebase (set_basep t u s) = timebase s" "timebase (set_waiters t w s) = timebase s"
  "timebase (set_lnext t v s) = timebase s" "timebase (set_lprev t v s) = timebase s"
  "timebase (set_wqueue t q s) = timebase s" "timebase (set_token t v s) = timebase s"
  "timebase (set_ctx t f s) = timebase s"
  by (simp_all add: thr_set_defs upd_thr_def)

lemma dec_reg_set_frame [simp]:
  "dec_reg (set_next t v s) = dec_reg s" "dec_reg (set_state t a s) = dec_reg s"
  "dec_reg (set_suspend t u s) = dec_reg s" "dec_reg (set_prio t u s) = dec_reg s"
  "dec_reg (set_basep t u s) = dec_reg s" "dec_reg (set_waiters t w s) = dec_reg s"
  "dec_reg (set_lnext t v s) = dec_reg s" "dec_reg (set_lprev t v s) = dec_reg s"
  "dec_reg (set_wqueue t q s) = dec_reg s" "dec_reg (set_token t v s) = dec_reg s"
  "dec_reg (set_ctx t f s) = dec_reg s"
  by (simp_all add: thr_set_defs upd_thr_def)

lemma s_firstThread_upd_frame [simp]:
  "nextT (s_firstThread_update f s) = nextT s" "stateT (s_firstThread_update f s) = stateT s"
  "suspendT (s_firstThread_update f s) = suspendT s" "prioT (s_firstThread_update f s) = prioT s"
  "basepT (s_firstThread_update f s) = basepT s" "waitersT (s_firstThread_update f s) = waitersT s"
  "lnextT (s_firstThread_update f s) = lnextT s" "lprevT (s_firstThread_update f s) = lprevT s"
  "wqueueT (s_firstThread_update f s) = wqueueT s" "tokenT (s_firstThread_update f s) = tokenT s"
  by (simp_all add: thr_acc_defs fun_eq_iff)

lemma ppc_next_ctx_upd_frame [simp]:
  "nextT (ppc_next_ctx_update f s) = nextT s" "stateT (ppc_next_ctx_update f s) = stateT s"
  "suspendT (ppc_next_ctx_update f s) = suspendT s" "prioT (ppc_next_ctx_update f s) = prioT s"
  "basepT (ppc_next_ctx_update f s) = basepT s" "waitersT (ppc_next_ctx_update f s) = waitersT s"
  "lnextT (ppc_next_ctx_update f s) = lnextT s" "lprevT (ppc_next_ctx_update f s) = lprevT s"
  "wqueueT (ppc_next_ctx_update f s) = wqueueT s" "tokenT (ppc_next_ctx_update f s) = tokenT s"
  by (simp_all add: thr_acc_defs fun_eq_iff)

lemma sprg2_upd_frame [simp]:
  "nextT (sprg2_update f s) = nextT s" "stateT (sprg2_update f s) = stateT s"
  "suspendT (sprg2_update f s) = suspendT s" "prioT (sprg2_update f s) = prioT s"
  "basepT (sprg2_update f s) = basepT s" "waitersT (sprg2_update f s) = waitersT s"
  "lnextT (sprg2_update f s) = lnextT s" "lprevT (sprg2_update f s) = lprevT s"
  "wqueueT (sprg2_update f s) = wqueueT s" "tokenT (sprg2_update f s) = tokenT s"
  by (simp_all add: thr_acc_defs fun_eq_iff)

lemma sprg3_upd_frame [simp]:
  "nextT (sprg3_update f s) = nextT s" "stateT (sprg3_update f s) = stateT s"
  "suspendT (sprg3_update f s) = suspendT s" "prioT (sprg3_update f s) = prioT s"
  "basepT (sprg3_update f s) = basepT s" "waitersT (sprg3_update f s) = waitersT s"
  "lnextT (sprg3_update f s) = lnextT s" "lprevT (sprg3_update f s) = lprevT s"
  "wqueueT (sprg3_update f s) = wqueueT s" "tokenT (sprg3_update f s) = tokenT s"
  by (simp_all add: thr_acc_defs fun_eq_iff)

lemma msr_upd_frame [simp]:
  "nextT (msr_update f s) = nextT s" "stateT (msr_update f s) = stateT s"
  "suspendT (msr_update f s) = suspendT s" "prioT (msr_update f s) = prioT s"
  "basepT (msr_update f s) = basepT s" "waitersT (msr_update f s) = waitersT s"
  "lnextT (msr_update f s) = lnextT s" "lprevT (msr_update f s) = lprevT s"
  "wqueueT (msr_update f s) = wqueueT s" "tokenT (msr_update f s) = tokenT s"
  by (simp_all add: thr_acc_defs fun_eq_iff)

lemma squeues_upd_frame [simp]:
  "nextT (squeues_update f s) = nextT s" "stateT (squeues_update f s) = stateT s"
  "suspendT (squeues_update f s) = suspendT s" "prioT (squeues_update f s) = prioT s"
  "basepT (squeues_update f s) = basepT s" "waitersT (squeues_update f s) = waitersT s"
  "lnextT (squeues_update f s) = lnextT s" "lprevT (squeues_update f s) = lprevT s"
  "wqueueT (squeues_update f s) = wqueueT s" "tokenT (squeues_update f s) = tokenT s"
  by (simp_all add: thr_acc_defs fun_eq_iff)

lemma mutex_owner_upd_frame [simp]:
  "nextT (mutex_owner_update f s) = nextT s" "stateT (mutex_owner_update f s) = stateT s"
  "suspendT (mutex_owner_update f s) = suspendT s" "prioT (mutex_owner_update f s) = prioT s"
  "basepT (mutex_owner_update f s) = basepT s" "waitersT (mutex_owner_update f s) = waitersT s"
  "lnextT (mutex_owner_update f s) = lnextT s" "lprevT (mutex_owner_update f s) = lprevT s"
  "wqueueT (mutex_owner_update f s) = wqueueT s" "tokenT (mutex_owner_update f s) = tokenT s"
  by (simp_all add: thr_acc_defs fun_eq_iff)

lemma stack_mem_upd_frame [simp]:
  "nextT (stack_mem_update f s) = nextT s" "stateT (stack_mem_update f s) = stateT s"
  "suspendT (stack_mem_update f s) = suspendT s" "prioT (stack_mem_update f s) = prioT s"
  "basepT (stack_mem_update f s) = basepT s" "waitersT (stack_mem_update f s) = waitersT s"
  "lnextT (stack_mem_update f s) = lnextT s" "lprevT (stack_mem_update f s) = lprevT s"
  "wqueueT (stack_mem_update f s) = wqueueT s" "tokenT (stack_mem_update f s) = tokenT s"
  by (simp_all add: thr_acc_defs fun_eq_iff)

lemma tasks_upd_frame [simp]:
  "nextT (tasks_update f s) = nextT s" "stateT (tasks_update f s) = stateT s"
  "suspendT (tasks_update f s) = suspendT s" "prioT (tasks_update f s) = prioT s"
  "basepT (tasks_update f s) = basepT s" "waitersT (tasks_update f s) = waitersT s"
  "lnextT (tasks_update f s) = lnextT s" "lprevT (tasks_update f s) = lprevT s"
  "wqueueT (tasks_update f s) = wqueueT s" "tokenT (tasks_update f s) = tokenT s"
  by (simp_all add: thr_acc_defs fun_eq_iff)

lemma s_firstTask_upd_frame [simp]:
  "nextT (s_firstTask_update f s) = nextT s" "stateT (s_firstTask_update f s) = stateT s"
  "suspendT (s_firstTask_update f s) = suspendT s" "prioT (s_firstTask_update f s) = prioT s"
  "basepT (s_firstTask_update f s) = basepT s" "waitersT (s_firstTask_update f s) = waitersT s"
  "lnextT (s_firstTask_update f s) = lnextT s" "lprevT (s_firstTask_update f s) = lprevT s"
  "wqueueT (s_firstTask_update f s) = wqueueT s" "tokenT (s_firstTask_update f s) = tokenT s"
  by (simp_all add: thr_acc_defs fun_eq_iff)

lemma timebase_upd_frame [simp]:
  "nextT (timebase_update f s) = nextT s" "stateT (timebase_update f s) = stateT s"
  "suspendT (timebase_update f s) = suspendT s" "prioT (timebase_update f s) = prioT s"
  "basepT (timebase_update f s) = basepT s" "waitersT (timebase_update f s) = waitersT s"
  "lnextT (timebase_update f s) = lnextT s" "lprevT (timebase_update f s) = lprevT s"
  "wqueueT (timebase_update f s) = wqueueT s" "tokenT (timebase_update f s) = tokenT s"
  by (simp_all add: thr_acc_defs fun_eq_iff)

lemma dec_reg_upd_frame [simp]:
  "nextT (dec_reg_update f s) = nextT s" "stateT (dec_reg_update f s) = stateT s"
  "suspendT (dec_reg_update f s) = suspendT s" "prioT (dec_reg_update f s) = prioT s"
  "basepT (dec_reg_update f s) = basepT s" "waitersT (dec_reg_update f s) = waitersT s"
  "lnextT (dec_reg_update f s) = lnextT s" "lprevT (dec_reg_update f s) = lprevT s"
  "wqueueT (dec_reg_update f s) = wqueueT s" "tokenT (dec_reg_update f s) = tokenT s"
  by (simp_all add: thr_acc_defs fun_eq_iff)

end
