(* ===== verification/KQueue.thy ===== *)
theory KQueue
  imports KFrame
begin

text \<open>
  The list primitives of \<^verbatim>\<open>tuxedo/thread_priv.h\<close>: the global thread list, ordered by priority and
  linked through \<open>next\<close>, and the wait queues, doubly linked through \<open>wait.link\<close>. Each operation is
  translated pointer by pointer; the lemmas show that it implements the list operation it stands
  for: ordered insertion, removal, first runnable thread.
\<close>

section \<open>The thread list\<close>

definition KThreadGetInsertPosition :: "kstate \<Rightarrow> ptr \<Rightarrow> ptr option" where
  "KThreadGetInsertPosition s t =
     chain_last (nextT s) (\<lambda>cur. prioT s cur \<le> prioT s t) (s_firstThread s) NULL"

definition KThreadGetPrevious :: "kstate \<Rightarrow> ptr \<Rightarrow> ptr option" where
  "KThreadGetPrevious s t = chain_find (nextT s) (\<lambda>cur. nextT s cur = t) (s_firstThread s)"

definition KThreadEnqueue :: "ptr \<Rightarrow> kstate \<Rightarrow> kstate option" where
  "KThreadEnqueue t s =
     do { pos \<leftarrow> KThreadGetInsertPosition s t;
          Some (if pos \<noteq> NULL then set_next pos t (set_next t (nextT s pos) s)
                else (set_next t (s_firstThread s) s)\<lparr>s_firstThread := t\<rparr>) }"

definition KThreadDequeue :: "ptr \<Rightarrow> kstate \<Rightarrow> kstate option" where
  "KThreadDequeue t s =
     (if s_firstThread s = t then Some (s\<lparr>s_firstThread := nextT s t\<rparr>)
      else do { prev \<leftarrow> KThreadGetPrevious s t;
                Some (if prev \<noteq> NULL then set_next prev (nextT s t) s else s) })"

definition KThreadFindRunnable :: "kstate \<Rightarrow> ptr \<Rightarrow> ptr option" where
  "KThreadFindRunnable s first =
     chain_find (nextT s) (\<lambda>t. stateT s t = KTHR_STATE_RUNNING) first"

section \<open>Wait queues\<close>

text \<open>Reading and writing the two words of a \<^verbatim>\<open>KThrQueue\<close> through a pointer. No caller passes \<open>QNull\<close>.\<close>

fun getq :: "kstate \<Rightarrow> qptr \<Rightarrow> KThrQueue" where
  "getq s QNull = zero_queue"
| "getq s (QStatic k) = squeues s k"
| "getq s (QWaiters t) = waitersT s t"

fun setq :: "qptr \<Rightarrow> KThrQueue \<Rightarrow> kstate \<Rightarrow> kstate" where
  "setq QNull v s = s"
| "setq (QStatic k) v s = s\<lparr>squeues := (squeues s)(k := v)\<rparr>"
| "setq (QWaiters t) v s = set_waiters t v s"

definition set_qnext :: "qptr \<Rightarrow> ptr \<Rightarrow> kstate \<Rightarrow> kstate" where
  "set_qnext q v s = setq q ((getq s q)\<lparr>q_next := v\<rparr>) s"

definition set_qprev :: "qptr \<Rightarrow> ptr \<Rightarrow> kstate \<Rightarrow> kstate" where
  "set_qprev q v s = setq q ((getq s q)\<lparr>q_prev := v\<rparr>) s"

definition KThrQueueGetInsertPosition :: "kstate \<Rightarrow> qptr \<Rightarrow> ptr \<Rightarrow> ptr option" where
  "KThrQueueGetInsertPosition s q t =
     do { pos \<leftarrow> chain_find (lnextT s) (\<lambda>p. \<not> prioT s p \<le> prioT s t) (q_next (getq s q));
          Some (if pos \<noteq> NULL then lprevT s pos else q_prev (getq s q)) }"

definition KThrQueueInsert :: "qptr \<Rightarrow> ptr \<Rightarrow> kstate \<Rightarrow> kstate option" where
  "KThrQueueInsert q t s =
     do { pos \<leftarrow> KThrQueueGetInsertPosition s q t;
          let s1 = (if pos \<noteq> NULL
                    then set_lnext pos t (set_lprev t pos (set_lnext t (lnextT s pos) s))
                    else set_qnext q t (set_lprev t NULL (set_lnext t (q_next (getq s q)) s)));
              s2 = (if lnextT s1 t \<noteq> NULL then set_lprev (lnextT s1 t) t s1 else set_qprev q t s1)
          in Some (set_wqueue t q s2) }"

definition KThrQueueRemove :: "qptr \<Rightarrow> ptr \<Rightarrow> kstate \<Rightarrow> kstate" where
  "KThrQueueRemove q t s =
     (if wqueueT s t \<noteq> q then s
      else let s1 = set_wqueue t QNull s;
               s2 = (if lprevT s1 t \<noteq> NULL then set_lnext (lprevT s1 t) (lnextT s1 t) s1
                     else set_qnext q (lnextT s1 t) s1)
           in (if lnextT s2 t \<noteq> NULL then set_lprev (lnextT s2 t) (lprevT s2 t) s2
               else set_qprev q (lprevT s2 t) s2))"

fun KThrQueueTestUnblock :: "kstate \<Rightarrow> ptr \<Rightarrow> KThrUnblockMode \<Rightarrow> u32 \<Rightarrow> bool" where
  "KThrQueueTestUnblock s t KTHR_UNBLOCK_ANY ref = True"
| "KThrQueueTestUnblock s t KTHR_UNBLOCK_BY_VALUE ref = (tokenT s t = ref)"
| "KThrQueueTestUnblock s t KTHR_UNBLOCK_BY_MASK ref = (tokenT s t AND ref \<noteq> 0)"

section \<open>Frame facts of the queue words\<close>

lemma getq_set [simp]:
  "getq (set_next t v s) q = getq s q" "getq (set_state t a s) q = getq s q"
  "getq (set_suspend t u s) q = getq s q" "getq (set_prio t u s) q = getq s q"
  "getq (set_basep t u s) q = getq s q" "getq (set_lnext t v s) q = getq s q"
  "getq (set_lprev t v s) q = getq s q" "getq (set_wqueue t q' s) q = getq s q"
  "getq (set_token t v s) q = getq s q" "getq (set_ctx t f s) q = getq s q"
  "getq (s_firstThread_update g s) q = getq s q" "getq (ppc_next_ctx_update g s) q = getq s q"
  "getq (sprg2_update g s) q = getq s q" "getq (sprg3_update g s) q = getq s q"
  "getq (msr_update g s) q = getq s q" "getq (mutex_owner_update h s) q = getq s q"
  "getq (stack_mem_update h s) q = getq s q" "getq (tasks_update i s) q = getq s q"
  "getq (s_firstTask_update g s) q = getq s q" "getq (timebase_update j s) q = getq s q"
  "getq (dec_reg_update g s) q = getq s q"
  by (cases q; simp)+

lemma getq_setq: "q \<noteq> QNull \<Longrightarrow> getq (setq q v s) q' = (if q' = q then v else getq s q')"
  by (cases q; cases q') auto

lemma getq_qset [simp]:
  "q \<noteq> QNull \<Longrightarrow> getq (set_qnext q v s) q' = (if q' = q then (getq s q)\<lparr>q_next := v\<rparr> else getq s q')"
  "q \<noteq> QNull \<Longrightarrow> getq (set_qprev q v s) q' = (if q' = q then (getq s q)\<lparr>q_prev := v\<rparr> else getq s q')"
  by (simp_all add: set_qnext_def set_qprev_def getq_setq)

lemma acc_setq [simp]:
  "nextT (setq q v s) = nextT s" "stateT (setq q v s) = stateT s"
  "suspendT (setq q v s) = suspendT s" "prioT (setq q v s) = prioT s"
  "basepT (setq q v s) = basepT s" "lnextT (setq q v s) = lnextT s"
  "lprevT (setq q v s) = lprevT s" "wqueueT (setq q v s) = wqueueT s"
  "tokenT (setq q v s) = tokenT s"
  by (cases q; simp)+

lemma glob_setq [simp]:
  "s_firstThread (setq q v s) = s_firstThread s" "ppc_next_ctx (setq q v s) = ppc_next_ctx s"
  "sprg2 (setq q v s) = sprg2 s" "sprg3 (setq q v s) = sprg3 s" "msr (setq q v s) = msr s"
  "mutex_owner (setq q v s) = mutex_owner s" "stack_mem (setq q v s) = stack_mem s"
  "tasks (setq q v s) = tasks s" "s_firstTask (setq q v s) = s_firstTask s"
  "timebase (setq q v s) = timebase s" "dec_reg (setq q v s) = dec_reg s"
  by (cases q; simp)+

lemma acc_set_qnext [simp]:
  "nextT (set_qnext q v s) = nextT s" "stateT (set_qnext q v s) = stateT s"
  "suspendT (set_qnext q v s) = suspendT s" "prioT (set_qnext q v s) = prioT s"
  "basepT (set_qnext q v s) = basepT s" "lnextT (set_qnext q v s) = lnextT s"
  "lprevT (set_qnext q v s) = lprevT s" "wqueueT (set_qnext q v s) = wqueueT s"
  "tokenT (set_qnext q v s) = tokenT s"
  by (simp_all add: set_qnext_def)

lemma acc_set_qprev [simp]:
  "nextT (set_qprev q v s) = nextT s" "stateT (set_qprev q v s) = stateT s"
  "suspendT (set_qprev q v s) = suspendT s" "prioT (set_qprev q v s) = prioT s"
  "basepT (set_qprev q v s) = basepT s" "lnextT (set_qprev q v s) = lnextT s"
  "lprevT (set_qprev q v s) = lprevT s" "wqueueT (set_qprev q v s) = wqueueT s"
  "tokenT (set_qprev q v s) = tokenT s"
  by (simp_all add: set_qprev_def)

text \<open>
  \<open>gframe s s'\<close>: nothing but thread records and queue words differs. \<open>qframe s s'\<close>: of the thread
  records, only the queue linkage may differ.
\<close>

definition gframe :: "kstate \<Rightarrow> kstate \<Rightarrow> bool" where
  "gframe s s' \<longleftrightarrow> sprg2 s' = sprg2 s \<and> sprg3 s' = sprg3 s \<and> ppc_next_ctx s' = ppc_next_ctx s \<and>
     msr s' = msr s \<and> mutex_owner s' = mutex_owner s \<and> stack_mem s' = stack_mem s \<and>
     tasks s' = tasks s \<and> s_firstTask s' = s_firstTask s \<and> timebase s' = timebase s \<and>
     dec_reg s' = dec_reg s"

definition qframe :: "kstate \<Rightarrow> kstate \<Rightarrow> bool" where
  "qframe s s' \<longleftrightarrow> gframe s s' \<and> s_firstThread s' = s_firstThread s \<and> nextT s' = nextT s \<and>
     stateT s' = stateT s \<and> suspendT s' = suspendT s \<and> prioT s' = prioT s \<and>
     basepT s' = basepT s \<and> tokenT s' = tokenT s"

lemma gframe_refl [simp]: "gframe s s" by (simp add: gframe_def)
lemma qframe_refl [simp]: "qframe s s" by (simp add: qframe_def)

lemma gframe_trans: "gframe s s' \<Longrightarrow> gframe s' s'' \<Longrightarrow> gframe s s''"
  by (simp add: gframe_def)

lemma qframe_trans: "qframe s s' \<Longrightarrow> qframe s' s'' \<Longrightarrow> qframe s s''"
  by (simp add: qframe_def gframe_def)

lemma qframe_gframe: "qframe s s' \<Longrightarrow> gframe s s'"
  by (simp add: qframe_def)

section \<open>The thread list implements an ordered list\<close>

definition thread_list :: "kstate \<Rightarrow> ptr list \<Rightarrow> bool" where
  "thread_list s L \<longleftrightarrow> lst (nextT s) (s_firstThread s) L"

lemma thread_list_distinct: "thread_list s L \<Longrightarrow> distinct L"
  by (simp add: thread_list_def lst_distinct)

lemma thread_list_nonnull: "thread_list s L \<Longrightarrow> t \<in> set L \<Longrightarrow> t \<noteq> NULL"
  by (auto simp: thread_list_def dest: path_nonnull)

lemma KThreadEnqueue_list:
  assumes l: "thread_list s L" and t: "t \<notin> set L" "t \<noteq> NULL"
  shows "\<exists>s'. KThreadEnqueue t s = Some s' \<and>
           thread_list s' (ins_after (\<lambda>y. prioT s y \<le> prioT s t) t L) \<and>
           gframe s s' \<and> stateT s' = stateT s \<and> suspendT s' = suspendT s \<and> prioT s' = prioT s \<and>
           basepT s' = basepT s \<and> tokenT s' = tokenT s \<and> wqueueT s' = wqueueT s \<and>
           lnextT s' = lnextT s \<and> lprevT s' = lprevT s \<and> getq s' = getq s"
proof -
  let ?c = "\<lambda>y. prioT s y \<le> prioT s t"
  let ?pos = "last (NULL # takeWhile ?c L)"
  have pos: "KThreadGetInsertPosition s t = Some ?pos"
    using l by (simp add: KThreadGetInsertPosition_def thread_list_def chain_last_lst)
  have "if ?pos \<noteq> NULL then lst ((nextT s)(t := nextT s ?pos, ?pos := t)) (s_firstThread s) (ins_after ?c t L)
        else lst ((nextT s)(t := s_firstThread s)) t (ins_after ?c t L)"
    using l t unfolding thread_list_def by (intro lst_enqueue) auto
  then show ?thesis
    by (auto simp: KThreadEnqueue_def pos thread_list_def gframe_def fun_eq_iff split: if_splits)
qed

lemma KThreadDequeue_list:
  assumes l: "thread_list s L" and t: "t \<noteq> NULL"
  shows "\<exists>s'. KThreadDequeue t s = Some s' \<and> thread_list s' (remove1 t L) \<and>
           gframe s s' \<and> stateT s' = stateT s \<and> suspendT s' = suspendT s \<and> prioT s' = prioT s \<and>
           basepT s' = basepT s \<and> tokenT s' = tokenT s \<and> wqueueT s' = wqueueT s \<and>
           lnextT s' = lnextT s \<and> lprevT s' = lprevT s \<and> getq s' = getq s"
proof (cases "t \<in> set L")
  case False
  have "KThreadGetPrevious s t = Some NULL"
    using l t False by (simp add: KThreadGetPrevious_def thread_list_def lst_prev_absent)
  moreover have "s_firstThread s \<noteq> t"
    using l t False by (cases L) (auto simp: thread_list_def)
  ultimately show ?thesis using l False
    by (simp add: KThreadDequeue_def remove1_idem)
next
  case True
  then obtain xs zs where L: "L = xs @ t # zs" "t \<notin> set xs" by (meson split_list_first)
  then have rem: "remove1 t L = xs @ zs" by (simp add: remove1_append)
  show ?thesis
  proof (cases xs rule: rev_cases)
    case Nil
    with l L have "s_firstThread s = t" "lst (nextT s) (nextT s t) zs"
      by (auto simp: thread_list_def)
    with Nil rem show ?thesis
      by (simp add: KThreadDequeue_def thread_list_def gframe_def fun_eq_iff)
  next
    case (snoc ys y)
    have l': "lst (nextT s) (s_firstThread s) (ys @ y # t # zs)"
      using l L snoc by (simp add: thread_list_def)
    have y: "y \<noteq> NULL" using l' by (meson in_set_conv_decomp path_nonnull)
    have first: "s_firstThread s \<noteq> t"
      using l' L(2) snoc by (cases ys) auto
    have "KThreadGetPrevious s t = Some y"
      using l' unfolding KThreadGetPrevious_def by (rule lst_prev)
    moreover have "lst ((nextT s)(y := nextT s t)) (s_firstThread s) (ys @ y # zs)"
      using l' by (rule lst_dequeue_mid)
    ultimately show ?thesis using y first rem snoc
      by (simp add: KThreadDequeue_def thread_list_def gframe_def fun_eq_iff)
  qed
qed

lemma KThreadFindRunnable_list:
  "lst (nextT s) p xs \<Longrightarrow>
   KThreadFindRunnable s p =
     Some (case find (\<lambda>t. stateT s t = KTHR_STATE_RUNNING) xs of None \<Rightarrow> NULL | Some t \<Rightarrow> t)"
  unfolding KThreadFindRunnable_def by (rule chain_find_find)

section \<open>A wait queue implements an ordered list\<close>

definition qlist :: "kstate \<Rightarrow> qptr \<Rightarrow> ptr list \<Rightarrow> bool" where
  "qlist s q xs \<longleftrightarrow>
     dseg (lnextT s) (lprevT s) (q_next (getq s q)) NULL xs (q_prev (getq s q)) NULL"

lemma qlist_lst: "qlist s q xs \<Longrightarrow> lst (lnextT s) (q_next (getq s q)) xs"
  by (auto simp: qlist_def dest: dseg_path)

lemma qlist_distinct: "qlist s q xs \<Longrightarrow> distinct xs"
  by (auto simp: qlist_def dest: dseg_distinct)

lemma qlist_cong:
  "(\<And>x. x \<in> set xs \<Longrightarrow> lnextT s' x = lnextT s x \<and> lprevT s' x = lprevT s x) \<Longrightarrow>
   getq s' q = getq s q \<Longrightarrow> qlist s' q xs = qlist s q xs"
  unfolding qlist_def by (auto intro!: dseg_cong)

text \<open>The insertion position is the last thread that does not have to wait behind the new one.\<close>

lemma KThrQueueGetInsertPosition_list:
  assumes "qlist s q xs"
  shows "KThrQueueGetInsertPosition s q t =
     Some (last (NULL # takeWhile (\<lambda>p. prioT s p \<le> prioT s t) xs))"
proof -
  let ?c = "\<lambda>p. prioT s p \<le> prioT s t"
  obtain m l where
    a: "dseg (lnextT s) (lprevT s) (q_next (getq s q)) NULL (takeWhile ?c xs) l m" and
    b: "dseg (lnextT s) (lprevT s) m l (dropWhile ?c xs) (q_prev (getq s q)) NULL"
    using assms dseg_split unfolding qlist_def by blast
  have l: "l = last (NULL # takeWhile ?c xs)" using a by (rule dseg_last)
  have m: "m = (case dropWhile ?c xs of [] \<Rightarrow> NULL | x # _ \<Rightarrow> x)"
    using b by (rule dseg_hd)
  have f: "chain_find (lnextT s) (\<lambda>p. \<not> ?c p) (q_next (getq s q)) = Some m"
    unfolding m using chain_find_lst [OF qlist_lst [OF assms], of "\<lambda>p. \<not> ?c p"] by simp
  have "(if m \<noteq> NULL then lprevT s m else q_prev (getq s q)) = l"
    using b by (rule dseg_hd_prev)
  with l show ?thesis by (simp add: KThrQueueGetInsertPosition_def f)
qed

lemma KThrQueueInsert_list:
  assumes q: "qlist s q xs" "q \<noteq> QNull" and t: "t \<notin> set xs" "t \<noteq> NULL"
  shows "\<exists>s'. KThrQueueInsert q t s = Some s' \<and>
           qlist s' q (ins_after (\<lambda>p. prioT s p \<le> prioT s t) t xs) \<and>
           qframe s s' \<and> wqueueT s' = (wqueueT s)(t := q) \<and>
           (\<forall>q' ys. q' \<noteq> q \<longrightarrow> set ys \<inter> insert t (set xs) = {} \<longrightarrow> qlist s' q' ys = qlist s q' ys)"
proof -
  let ?c = "\<lambda>p. prioT s p \<le> prioT s t"
  define pos where "pos = last (NULL # takeWhile ?c xs)"
  define s1 where "s1 = (if pos \<noteq> NULL
      then set_lnext pos t (set_lprev t pos (set_lnext t (lnextT s pos) s))
      else set_qnext q t (set_lprev t NULL (set_lnext t (q_next (getq s q)) s)))"
  define s2 where "s2 = (if lnextT s1 t \<noteq> NULL then set_lprev (lnextT s1 t) t s1 else set_qprev q t s1)"
  have run: "KThrQueueInsert q t s = Some (set_wqueue t q s2)"
    by (simp add: KThrQueueInsert_def KThrQueueGetInsertPosition_list [OF q(1)] pos_def s1_def s2_def
        Let_def)
  have nx: "lnextT s2 = (if pos \<noteq> NULL then (lnextT s)(t := lnextT s pos, pos := t)
                          else (lnextT s)(t := q_next (getq s q)))"
    by (simp add: s2_def s1_def)
  have nx1: "lnextT s1 t = lnextT s2 t" by (simp add: s2_def)
  have pv: "lprevT s2 = (if lnextT s2 t \<noteq> NULL then (lprevT s)(t := pos, lnextT s2 t := t)
                          else (lprevT s)(t := pos))"
    unfolding nx1 [symmetric] by (simp add: s2_def s1_def)
  have dest: "q_next (getq s2 q) = (if pos \<noteq> NULL then q_next (getq s q) else t)"
    "q_prev (getq s2 q) = (if lnextT s2 t \<noteq> NULL then q_prev (getq s q) else t)"
    unfolding nx1 [symmetric] using q(2) by (simp_all add: s2_def s1_def)
  have d: "dseg (lnextT s2) (lprevT s2) (if pos \<noteq> NULL then q_next (getq s q) else t) NULL
          (takeWhile ?c xs @ t # dropWhile ?c xs)
          (if lnextT s2 t \<noteq> NULL then q_prev (getq s q) else t) NULL"
    using q(1) t pos_def nx pv
    by (intro dseg_link) (auto simp: qlist_def dest: set_takeWhileD set_dropWhileD)
  then have "qlist (set_wqueue t q s2) q (ins_after ?c t xs)"
    by (simp add: qlist_def ins_after_def dest)
  moreover have "qframe s (set_wqueue t q s2)"
    by (simp add: s2_def s1_def qframe_def gframe_def set_qnext_def set_qprev_def)
  moreover have "wqueueT (set_wqueue t q s2) = (wqueueT s)(t := q)"
    by (simp add: s2_def s1_def)
  moreover have "qlist (set_wqueue t q s2) q' ys = qlist s q' ys"
    if "q' \<noteq> q" "set ys \<inter> insert t (set xs) = {}" for q' ys
  proof (rule qlist_cong)
    have pos_in: "pos = NULL \<or> pos \<in> set xs"
      by (metis last.simps last_in_set pos_def set_takeWhileD)
    obtain n where n: "n = NULL \<or> n \<in> set xs" and
      pv': "lprevT s2 = (if n \<noteq> NULL then (lprevT s)(t := pos, n := t) else (lprevT s)(t := pos))"
      using dseg_next [OF d] pv by (auto dest: set_dropWhileD)
    fix x assume x: "x \<in> set ys"
    with that(2) pos_in have "lnextT s2 x = lnextT s x" by (auto simp: nx)
    moreover from x that(2) n have "lprevT s2 x = lprevT s x" by (auto simp: pv')
    ultimately show
      "lnextT (set_wqueue t q s2) x = lnextT s x \<and> lprevT (set_wqueue t q s2) x = lprevT s x"
      by simp
  next
    show "getq (set_wqueue t q s2) q' = getq s q'"
      using that(1) q(2) by (simp add: s2_def s1_def)
  qed
  ultimately show ?thesis using run by blast
qed

lemma KThrQueueRemove_list:
  assumes q: "qlist s q xs" "q \<noteq> QNull" and t: "t \<in> set xs" "wqueueT s t = q"
  shows "qlist (KThrQueueRemove q t s) q (remove1 t xs) \<and> qframe s (KThrQueueRemove q t s) \<and>
         wqueueT (KThrQueueRemove q t s) = (wqueueT s)(t := QNull) \<and>
         (\<forall>u. u \<notin> set xs \<longrightarrow> lnextT (KThrQueueRemove q t s) u = lnextT s u) \<and>
         (\<forall>q' ys. q' \<noteq> q \<longrightarrow> set ys \<inter> set xs = {} \<longrightarrow>
            qlist (KThrQueueRemove q t s) q' ys = qlist s q' ys)"
proof -
  obtain us vs where xs: "xs = us @ t # vs" "t \<notin> set us" using t(1) by (meson split_list_first)
  have d: "dseg (lnextT s) (lprevT s) (q_next (getq s q)) NULL (us @ t # vs) (q_prev (getq s q)) NULL"
    using q(1) xs by (simp add: qlist_def)
  have pt: "lprevT s t = NULL \<or> lprevT s t \<in> set us" using d by (rule dseg_prev)
  have nt: "lnextT s t = NULL \<or> lnextT s t \<in> set vs" using d by (rule dseg_next)
  have tv: "t \<notin> set vs" using dseg_distinct [OF d] by simp
  have tn: "t \<noteq> NULL" using d by (auto dest: dseg_nonnull)
  define s' where "s' = KThrQueueRemove q t s"
  have nx: "lnextT s' = (if lprevT s t \<noteq> NULL then (lnextT s)(lprevT s t := lnextT s t) else lnextT s)"
    using t(2) by (simp add: s'_def KThrQueueRemove_def Let_def)
  have same: "(if lprevT s t \<noteq> NULL then (lnextT s)(lprevT s t := lnextT s t) else lnextT s) t = lnextT s t"
    using pt xs(2) by auto
  have pv: "lprevT s' = (if lnextT s t \<noteq> NULL then (lprevT s)(lnextT s t := lprevT s t) else lprevT s)"
    using t(2) same by (auto simp: s'_def KThrQueueRemove_def Let_def split: if_splits)
  have ends: "q_next (getq s' q) = (if lprevT s t \<noteq> NULL then q_next (getq s q) else lnextT s t)"
    "q_prev (getq s' q) = (if lnextT s t \<noteq> NULL then q_prev (getq s q) else lprevT s t)"
    using t(2) q(2) same by (auto simp: s'_def KThrQueueRemove_def Let_def split: if_splits)
  have "qlist s' q (us @ vs)"
    unfolding qlist_def ends nx pv by (rule dseg_unlink [OF d refl refl])
  moreover have "remove1 t xs = us @ vs" using xs by (simp add: remove1_append)
  moreover have "qframe s s'"
    by (simp add: s'_def KThrQueueRemove_def Let_def qframe_def gframe_def set_qnext_def set_qprev_def)
  moreover have "wqueueT s' = (wqueueT s)(t := QNull)"
    using t(2) by (simp add: s'_def KThrQueueRemove_def Let_def)
  moreover have "\<forall>u. u \<notin> set xs \<longrightarrow> lnextT s' u = lnextT s u" using pt xs by (auto simp: nx)
  moreover have "qlist s' q' ys = qlist s q' ys" if "q' \<noteq> q" "set ys \<inter> set xs = {}" for q' ys
  proof (rule qlist_cong)
    fix x assume "x \<in> set ys"
    then show "lnextT s' x = lnextT s x \<and> lprevT s' x = lprevT s x"
      using that(2) pt nt xs by (auto simp: nx pv)
  next
    show "getq s' q' = getq s q'"
      using that(1) q(2) t(2) by (simp add: s'_def KThrQueueRemove_def Let_def)
  qed
  ultimately show ?thesis unfolding s'_def by metis
qed

end
