(* ===== verification/OrdList.thy ===== *)
theory OrdList
  imports Ogc_Prelude
begin

text \<open>
  The contract of an intrusive list that is kept ordered by a key of its members. The thread list
  and the tick task list of the kernel are two providers; what follows from the contract alone is
  proved here once.
\<close>

locale ordered_list =
  fixes repr :: "'s \<Rightarrow> ptr list \<Rightarrow> bool"
    and key :: "'s \<Rightarrow> ptr \<Rightarrow> 'k::linorder"
    and head :: "'s \<Rightarrow> ptr"
    and enq :: "ptr \<Rightarrow> 's \<Rightarrow> 's option"
    and deq :: "ptr \<Rightarrow> 's \<Rightarrow> 's option"
    and fits :: "'s \<Rightarrow> ptr \<Rightarrow> bool"
  assumes repr_distinct: "repr s L \<Longrightarrow> distinct L"
    and repr_sorted: "repr s L \<Longrightarrow> sorted_by (key s) L"
    and repr_head: "repr s L \<Longrightarrow> head s = (case L of [] \<Rightarrow> NULL | x # _ \<Rightarrow> x)"
    and enq_repr: "repr s L \<Longrightarrow> t \<notin> set L \<Longrightarrow> t \<noteq> NULL \<Longrightarrow> fits s t \<Longrightarrow>
      \<exists>s' L'. enq t s = Some s' \<and> repr s' L' \<and> mset L' = add_mset t (mset L) \<and> remove1 t L' = L \<and>
        key s' = key s"
    and deq_repr: "repr s L \<Longrightarrow> t \<noteq> NULL \<Longrightarrow>
      \<exists>s'. deq t s = Some s' \<and> repr s' (remove1 t L) \<and> key s' = key s"
begin

text \<open>The head has the least key.\<close>

lemma head_least:
  assumes "repr s L" "t \<in> set L"
  shows "key s (head s) \<le> key s t"
  using repr_head [OF assms(1)] repr_sorted [OF assms(1)] assms(2) by (cases L) auto

text \<open>Both operations always return, and they never lose or duplicate another member.\<close>

lemma enq_members:
  assumes "repr s L" "t \<notin> set L" "t \<noteq> NULL" "fits s t" "enq t s = Some s'" "repr s' L'"
    and unique: "\<And>L1 L2. repr s' L1 \<Longrightarrow> repr s' L2 \<Longrightarrow> L1 = L2"
  shows "set L' = insert t (set L)"
proof -
  obtain s2 L2 where e: "enq t s = Some s2" "repr s2 L2" "mset L2 = add_mset t (mset L)"
    using enq_repr [OF assms(1-4)] by blast
  with assms(5,6) unique have "L' = L2" by simp
  then show ?thesis using e(3) by (metis set_mset_add_mset_insert set_mset_mset)
qed

text \<open>Taking a member out and putting it back keeps the list a list of the same members.\<close>

lemma requeue:
  assumes r: "repr s L" and t: "t \<in> set L" "t \<noteq> NULL" and fit: "\<And>s'. key s' = key s \<Longrightarrow> fits s' t"
  shows "\<exists>s1 s2 L2. deq t s = Some s1 \<and> enq t s1 = Some s2 \<and> repr s2 L2 \<and> mset L2 = mset L \<and>
           key s2 = key s"
proof -
  obtain s1 where s1: "deq t s = Some s1" "repr s1 (remove1 t L)" "key s1 = key s"
    using deq_repr [OF r t(2)] by blast
  have "t \<notin> set (remove1 t L)" using repr_distinct [OF r] by simp
  then obtain s2 L2 where "enq t s1 = Some s2" "repr s2 L2"
      "mset L2 = add_mset t (mset (remove1 t L))" "key s2 = key s1"
    using enq_repr [OF s1(2) _ t(2) fit [OF s1(3)]] by blast
  then show ?thesis using s1 t(1) by auto
qed

text \<open>Adding a member and removing it again gives the list that was there before.\<close>

lemma enq_deq:
  assumes "repr s L" "t \<notin> set L" "t \<noteq> NULL" "fits s t"
  shows "\<exists>s1 s2. enq t s = Some s1 \<and> deq t s1 = Some s2 \<and> repr s2 L"
proof -
  obtain s1 L1 where 1: "enq t s = Some s1" "repr s1 L1" "remove1 t L1 = L"
    using enq_repr [OF assms] by blast
  obtain s2 where "deq t s1 = Some s2" "repr s2 (remove1 t L1)"
    using deq_repr [OF 1(2) assms(3)] by blast
  with 1 show ?thesis by auto
qed

end

end
