(* ===== verification/KTick.thy ===== *)
theory KTick
  imports KQueue OrdList
begin

text \<open>
  The tick tasks of \<^verbatim>\<open>tuxedo/tick.c\<close>: a list of timers ordered by their target time, where times are
  64-bit counters compared by the sign of their difference, and the decrementer register that is
  programmed for the first of them. The time base is a field of the state; it advances between
  kernel calls and inside the callbacks, which \<open>KTickTaskRun\<close> takes as a parameter.
\<close>

section \<open>Operations\<close>

definition KTickIsSequential :: "u64 \<Rightarrow> u64 \<Rightarrow> bool" where
  "KTickIsSequential lhs rhs \<longleftrightarrow> 0 < sint (rhs - lhs)"

definition knext :: "kstate \<Rightarrow> ptr \<Rightarrow> ptr" where "knext s p = k_next (tasks s p)"
definition ktarget :: "kstate \<Rightarrow> ptr \<Rightarrow> u64" where "ktarget s p = k_target (tasks s p)"
definition kfn :: "kstate \<Rightarrow> ptr \<Rightarrow> tick_fn" where "kfn s p = k_fn (tasks s p)"

definition upd_task :: "ptr \<Rightarrow> (KTickTask \<Rightarrow> KTickTask) \<Rightarrow> kstate \<Rightarrow> kstate" where
  "upd_task t f s = s\<lparr>tasks := (tasks s)(t := f (tasks s t))\<rparr>"

definition KTickTaskGetInsertPosition :: "kstate \<Rightarrow> ptr \<Rightarrow> ptr option" where
  "KTickTaskGetInsertPosition s t =
     chain_last (knext s) (\<lambda>cur. KTickIsSequential (ktarget s cur) (ktarget s t)) (s_firstTask s) NULL"

definition KTickTaskGetPrevious :: "kstate \<Rightarrow> ptr \<Rightarrow> ptr option" where
  "KTickTaskGetPrevious s t = chain_find (knext s) (\<lambda>cur. knext s cur = t) (s_firstTask s)"

definition KTickTaskEnqueue :: "ptr \<Rightarrow> kstate \<Rightarrow> kstate option" where
  "KTickTaskEnqueue t s =
     do { pos \<leftarrow> KTickTaskGetInsertPosition s t;
          Some (if pos \<noteq> NULL
                then upd_task pos (\<lambda>k. k\<lparr>k_next := t\<rparr>) (upd_task t (\<lambda>k. k\<lparr>k_next := knext s pos\<rparr>) s)
                else (upd_task t (\<lambda>k. k\<lparr>k_next := s_firstTask s\<rparr>) s)\<lparr>s_firstTask := t\<rparr>) }"

definition KTickTaskDequeue :: "ptr \<Rightarrow> kstate \<Rightarrow> kstate option" where
  "KTickTaskDequeue t s =
     (if s_firstTask s = t then Some (s\<lparr>s_firstTask := knext s t\<rparr>)
      else do { prev \<leftarrow> KTickTaskGetPrevious s t;
                Some (if prev \<noteq> NULL then upd_task prev (\<lambda>k. k\<lparr>k_next := knext s t\<rparr>) s else s) })"

definition KTickTaskReschedule :: "kstate \<Rightarrow> kstate" where
  "KTickTaskReschedule s =
     (if s_firstTask s = NULL then s
      else let diff = sint (ktarget s (s_firstTask s) - timebase s);
               decr = (if diff < 0 then 0 else if diff \<le> 0x7fffffff then word_of_int diff
                       else 0x7fffffff)
           in s\<lparr>dec_reg := decr\<rparr>)"

definition KTickTaskStart :: "ptr \<Rightarrow> tick_fn \<Rightarrow> u64 \<Rightarrow> u64 \<Rightarrow> kstate \<Rightarrow> kstate option" where
  "KTickTaskStart t fn delay_ticks period_ticks s =
     (let (st, s1) = PPCIrqLockByMsr s; old = s_firstTask s1 in
      do { s2 \<leftarrow> (if kfn s1 t \<noteq> Fn_null then KTickTaskDequeue t s1 else Some s1);
           s3 \<leftarrow> KTickTaskEnqueue t
                  (upd_task t (\<lambda>k. k\<lparr>k_target := timebase s2 + delay_ticks,
                                     k_period := period_ticks, k_fn := fn\<rparr>) s2);
           let s4 = (if s_firstTask s3 \<noteq> old then KTickTaskReschedule s3 else s3)
           in Some (PPCIrqUnlockByMsr st s4) })"

definition KTickTaskStop :: "ptr \<Rightarrow> kstate \<Rightarrow> kstate option" where
  "KTickTaskStop t s =
     (let (st, s1) = PPCIrqLockByMsr s in
      if kfn s1 t = Fn_null then Some (PPCIrqUnlockByMsr st s1)
      else do { s2 \<leftarrow> KTickTaskDequeue t s1;
                let s3 = (if s_firstTask s1 = t then KTickTaskReschedule s2 else s2)
                in Some (PPCIrqUnlockByMsr st (upd_task t (\<lambda>k. k\<lparr>k_fn := Fn_null\<rparr>) s3)) })"

text \<open>One turn of the loop of \<open>KTickTaskRun\<close>, up to the call of the task's function.\<close>

definition KTickTaskPop :: "kstate \<Rightarrow> kstate option" where
  "KTickTaskPop s =
     (let cur = s_firstTask s; s1 = s\<lparr>s_firstTask := knext s cur\<rparr> in
      if k_period (tasks s1 cur) \<noteq> 0
      then KTickTaskEnqueue cur
             (upd_task cur (\<lambda>k. k\<lparr>k_target := k_target k + k_period k\<rparr>) s1)
      else Some (upd_task cur (\<lambda>k. k\<lparr>k_fn := Fn_null\<rparr>) s1))"

partial_function (option) KTickTaskRunLoop ::
    "(tick_fn \<Rightarrow> ptr \<Rightarrow> kstate \<Rightarrow> kstate option) \<Rightarrow> kstate \<Rightarrow> kstate option" where
  "KTickTaskRunLoop call s =
     (if s_firstTask s \<noteq> NULL \<and> \<not> KTickIsSequential (timebase s) (ktarget s (s_firstTask s))
      then do { s1 \<leftarrow> KTickTaskPop s;
                s2 \<leftarrow> call (kfn s (s_firstTask s)) (s_firstTask s) s1;
                KTickTaskRunLoop call s2 }
      else Some s)"

declare KTickTaskRunLoop.simps [code]

definition KTickTaskRun ::
    "(tick_fn \<Rightarrow> ptr \<Rightarrow> kstate \<Rightarrow> kstate option) \<Rightarrow> kstate \<Rightarrow> kstate option" where
  "KTickTaskRun call s = map_option KTickTaskReschedule (KTickTaskRunLoop call s)"

section \<open>Frame facts\<close>

lemma task_acc_upd [simp]:
  "knext (upd_task t (\<lambda>k. k\<lparr>k_next := v\<rparr>) s) = (knext s)(t := v)"
  "ktarget (upd_task t (\<lambda>k. k\<lparr>k_next := v\<rparr>) s) = ktarget s"
  "kfn (upd_task t (\<lambda>k. k\<lparr>k_next := v\<rparr>) s) = kfn s"
  by (auto simp: knext_def ktarget_def kfn_def upd_task_def)

lemma task_acc_glob [simp]:
  "knext (s_firstTask_update f s) = knext s" "ktarget (s_firstTask_update f s) = ktarget s"
  "kfn (s_firstTask_update f s) = kfn s" "knext (dec_reg_update f s) = knext s"
  "ktarget (dec_reg_update f s) = ktarget s" "kfn (dec_reg_update f s) = kfn s"
  "knext (msr_update f s) = knext s" "ktarget (msr_update f s) = ktarget s"
  "kfn (msr_update f s) = kfn s"
  by (auto simp: knext_def ktarget_def kfn_def)

lemma upd_task_glob [simp]:
  "s_firstTask (upd_task t f s) = s_firstTask s" "timebase (upd_task t f s) = timebase s"
  "dec_reg (upd_task t f s) = dec_reg s" "msr (upd_task t f s) = msr s"
  "threads (upd_task t f s) = threads s" "squeues (upd_task t f s) = squeues s"
  by (simp_all add: upd_task_def)

section \<open>Comparing times\<close>

text \<open>
  Within a window of \<open>2 ^ 63\<close> ticks from any base, the signed comparison is the order of the offsets
  from the base, also across a wrap of the counter.
\<close>

definition tick_off :: "u64 \<Rightarrow> kstate \<Rightarrow> ptr \<Rightarrow> int" where
  "tick_off base s t = uint (ktarget s t - base)"

lemma sint64_pos_iff: "0 < sint (x :: u64) \<longleftrightarrow> 0 < uint x \<and> uint x < 2 ^ 63"
  using unsigned_less [of x, where ?'a = int] by (simp add: sint_uint_if)

lemma KTickIsSequential_window:
  assumes "uint (a - base) < 2 ^ 63" "uint (b - base) < 2 ^ 63"
  shows "KTickIsSequential a b \<longleftrightarrow> uint (a - base) < uint (b - base)"
proof -
  define x y where "x = a - base" and "y = b - base"
  have d: "b - a = y - x" by (simp add: x_def y_def)
  have xy: "uint x < 2 ^ 63" "uint y < 2 ^ 63" "0 \<le> uint x" "0 \<le> uint y"
    using assms by (simp_all add: x_def y_def)
  have "uint (y - x) = (if uint x \<le> uint y then uint y - uint x else uint y - uint x + 2 ^ 64)"
    by (simp add: uint_sub_if')
  then have "0 < uint (y - x) \<and> uint (y - x) < 2 ^ 63 \<longleftrightarrow> uint x < uint y"
    using xy by (simp split: if_splits; linarith)
  then show ?thesis by (simp only: KTickIsSequential_def sint64_pos_iff d x_def y_def)
qed

section \<open>The task list is ordered by target time\<close>

definition tick_list :: "kstate \<Rightarrow> ptr list \<Rightarrow> bool" where
  "tick_list s L \<longleftrightarrow> lst (knext s) (s_firstTask s) L"

definition tick_fits :: "u64 \<Rightarrow> kstate \<Rightarrow> ptr \<Rightarrow> bool" where
  "tick_fits base s t \<longleftrightarrow> tick_off base s t < 2 ^ 63"

definition tick_repr :: "u64 \<Rightarrow> kstate \<Rightarrow> ptr list \<Rightarrow> bool" where
  "tick_repr base s L \<longleftrightarrow>
     tick_list s L \<and> (\<forall>t\<in>set L. tick_fits base s t) \<and> sorted_by (tick_off base s) L"

text \<open>\<open>tframe s s'\<close>: only the task store and the head of the list differ.\<close>

definition tframe :: "kstate \<Rightarrow> kstate \<Rightarrow> bool" where
  "tframe s s' \<longleftrightarrow> threads s' = threads s \<and> timebase s' = timebase s \<and> dec_reg s' = dec_reg s \<and>
     msr s' = msr s \<and> squeues s' = squeues s \<and> s_firstThread s' = s_firstThread s \<and>
     ppc_next_ctx s' = ppc_next_ctx s \<and> sprg2 s' = sprg2 s \<and> sprg3 s' = sprg3 s \<and>
     mutex_owner s' = mutex_owner s \<and> stack_mem s' = stack_mem s"

lemma tframe_refl [simp]: "tframe s s"
  by (simp add: tframe_def)

lemma tframe_trans: "tframe s s' \<Longrightarrow> tframe s' s'' \<Longrightarrow> tframe s s''"
  by (simp add: tframe_def)

lemma tframe_upd [simp]:
  "tframe s (upd_task t f s') \<longleftrightarrow> tframe s s'" "tframe s (s'\<lparr>s_firstTask := p\<rparr>) \<longleftrightarrow> tframe s s'"
  by (simp_all add: tframe_def upd_task_def)

lemma KTickTaskEnqueue_list:
  assumes l: "tick_list s L" and t: "t \<notin> set L" "t \<noteq> NULL"
  shows "\<exists>s'. KTickTaskEnqueue t s = Some s' \<and>
           tick_list s' (ins_after (\<lambda>y. KTickIsSequential (ktarget s y) (ktarget s t)) t L) \<and>
           ktarget s' = ktarget s \<and> kfn s' = kfn s \<and> tframe s s'"
proof -
  let ?c = "\<lambda>y. KTickIsSequential (ktarget s y) (ktarget s t)"
  let ?pos = "last (NULL # takeWhile ?c L)"
  have pos: "KTickTaskGetInsertPosition s t = Some ?pos"
    using l by (simp add: KTickTaskGetInsertPosition_def tick_list_def chain_last_lst)
  have "if ?pos \<noteq> NULL then lst ((knext s)(t := knext s ?pos, ?pos := t)) (s_firstTask s) (ins_after ?c t L)
        else lst ((knext s)(t := s_firstTask s)) t (ins_after ?c t L)"
    using l t unfolding tick_list_def by (intro lst_enqueue) auto
  then show ?thesis
    by (auto simp: KTickTaskEnqueue_def pos tick_list_def split: if_splits)
qed

lemma KTickTaskDequeue_list:
  assumes l: "tick_list s L" and t: "t \<noteq> NULL"
  shows "\<exists>s'. KTickTaskDequeue t s = Some s' \<and> tick_list s' (remove1 t L) \<and>
           ktarget s' = ktarget s \<and> kfn s' = kfn s \<and> tframe s s'"
proof (cases "t \<in> set L")
  case False
  have "KTickTaskGetPrevious s t = Some NULL"
    using l t False by (simp add: KTickTaskGetPrevious_def tick_list_def lst_prev_absent)
  moreover have "s_firstTask s \<noteq> t"
    using l t False by (cases L) (auto simp: tick_list_def)
  ultimately show ?thesis using l False
    by (simp add: KTickTaskDequeue_def remove1_idem)
next
  case True
  then obtain xs zs where L: "L = xs @ t # zs" "t \<notin> set xs" by (meson split_list_first)
  then have rem: "remove1 t L = xs @ zs" by (simp add: remove1_append)
  show ?thesis
  proof (cases xs rule: rev_cases)
    case Nil
    with l L have "s_firstTask s = t" "lst (knext s) (knext s t) zs"
      by (auto simp: tick_list_def)
    with Nil rem show ?thesis
      by (simp add: KTickTaskDequeue_def tick_list_def)
  next
    case (snoc ys y)
    have l': "lst (knext s) (s_firstTask s) (ys @ y # t # zs)"
      using l L snoc by (simp add: tick_list_def)
    have y: "y \<noteq> NULL" using l' by (meson in_set_conv_decomp path_nonnull)
    have first: "s_firstTask s \<noteq> t"
      using l' L(2) snoc by (cases ys) auto
    have "KTickTaskGetPrevious s t = Some y"
      using l' unfolding KTickTaskGetPrevious_def by (rule lst_prev)
    moreover have "lst ((knext s)(y := knext s t)) (s_firstTask s) (ys @ y # zs)"
      using l' by (rule lst_dequeue_mid)
    ultimately show ?thesis using y first rem snoc
      by (simp add: KTickTaskDequeue_def tick_list_def)
  qed
qed

lemma tick_off_cong: "ktarget s' = ktarget s \<Longrightarrow> tick_off b s' = tick_off b s"
  by (simp add: tick_off_def fun_eq_iff)

lemma tick_fits_cong: "ktarget s' = ktarget s \<Longrightarrow> tick_fits b s' = tick_fits b s"
  by (simp add: tick_fits_def tick_off_def fun_eq_iff)

lemma tick_repr_enqueue:
  assumes r: "tick_repr base s L" and t: "t \<notin> set L" "t \<noteq> NULL" "tick_fits base s t"
  shows "\<exists>s' L'. KTickTaskEnqueue t s = Some s' \<and> tick_repr base s' L' \<and>
           mset L' = add_mset t (mset L) \<and> remove1 t L' = L \<and>
           tick_off base s' = tick_off base s"
proof -
  let ?c = "\<lambda>y. KTickIsSequential (ktarget s y) (ktarget s t)"
  let ?d = "\<lambda>y. tick_off base s y < tick_off base s t"
  obtain s' where s': "KTickTaskEnqueue t s = Some s'" "tick_list s' (ins_after ?c t L)"
      "ktarget s' = ktarget s"
    using KTickTaskEnqueue_list [of s L t] r t by (auto simp: tick_repr_def)
  have "ins_after ?c t L = ins_after ?d t L"
    using r t(3) by (intro ins_after_cong)
      (simp add: tick_repr_def tick_fits_def tick_off_def KTickIsSequential_window)
  moreover have "sorted_by (tick_off base s) (ins_after ?d t L)"
    using r by (intro sorted_by_ins_after_strict) (simp add: tick_repr_def)
  ultimately have "tick_repr base s' (ins_after ?d t L)"
    using s' r t(3)
    by (simp add: tick_repr_def tick_off_cong [OF s'(3)] tick_fits_cong [OF s'(3)])
  then show ?thesis using s' t(1) by (auto simp: remove1_ins_after tick_off_cong [OF s'(3)])
qed

lemma tick_repr_dequeue:
  assumes r: "tick_repr base s L" and t: "t \<noteq> NULL"
  shows "\<exists>s'. KTickTaskDequeue t s = Some s' \<and> tick_repr base s' (remove1 t L) \<and>
           tick_off base s' = tick_off base s"
proof -
  obtain s' where s': "KTickTaskDequeue t s = Some s'" "tick_list s' (remove1 t L)"
      "ktarget s' = ktarget s"
    using KTickTaskDequeue_list [of s L t] r t by (auto simp: tick_repr_def)
  then have "tick_repr base s' (remove1 t L)"
    using r by (auto simp: tick_repr_def tick_off_cong [OF s'(3)] tick_fits_cong [OF s'(3)]
        intro: sorted_wrt_remove1 dest: notin_set_remove1)
  with s' show ?thesis by (auto simp: tick_off_cong [OF s'(3)])
qed

interpretation tk: ordered_list "tick_repr base" "tick_off base" s_firstTask KTickTaskEnqueue
    KTickTaskDequeue "tick_fits base" for base
proof
  show "distinct L" if "tick_repr base s L" for s L
    using that by (auto simp: tick_repr_def tick_list_def intro: lst_distinct)
  show "sorted_by (tick_off base s) L" if "tick_repr base s L" for s L
    using that by (simp add: tick_repr_def)
  show "s_firstTask s = (case L of [] \<Rightarrow> NULL | x # _ \<Rightarrow> x)" if "tick_repr base s L" for s L
    using that by (auto simp: tick_repr_def tick_list_def intro: lst_hd)
qed (use tick_repr_enqueue tick_repr_dequeue in blast)+

section \<open>Arming, disarming and running\<close>

lemma lock_acc [simp]:
  "tasks (snd (PPCIrqLockByMsr s)) = tasks s" "s_firstTask (snd (PPCIrqLockByMsr s)) = s_firstTask s"
  "timebase (snd (PPCIrqLockByMsr s)) = timebase s" "dec_reg (snd (PPCIrqLockByMsr s)) = dec_reg s"
  "threads (snd (PPCIrqLockByMsr s)) = threads s"
  by (simp_all add: PPCIrqLockByMsr_def)

lemma unlock_acc [simp]:
  "tasks (PPCIrqUnlockByMsr st s) = tasks s" "s_firstTask (PPCIrqUnlockByMsr st s) = s_firstTask s"
  "timebase (PPCIrqUnlockByMsr st s) = timebase s" "dec_reg (PPCIrqUnlockByMsr st s) = dec_reg s"
  "threads (PPCIrqUnlockByMsr st s) = threads s"
  by (simp_all add: PPCIrqUnlockByMsr_def)

lemma task_acc_tasks:
  "tasks s' = tasks s \<Longrightarrow> knext s' = knext s \<and> ktarget s' = ktarget s \<and> kfn s' = kfn s"
  by (simp add: knext_def ktarget_def kfn_def fun_eq_iff)

lemma tick_repr_tasks:
  assumes "tasks s' = tasks s" "s_firstTask s' = s_firstTask s"
  shows "tick_repr base s' L = tick_repr base s L"
proof -
  from task_acc_tasks [OF assms(1)] have a: "knext s' = knext s" "ktarget s' = ktarget s" by auto
  show ?thesis using assms(2) a(1)
    by (simp add: tick_repr_def tick_list_def tick_off_cong [OF a(2)] tick_fits_cong [OF a(2)])
qed

text \<open>What the decrementer has to hold for the first task to be served in time.\<close>

definition dec_for :: "u64 \<Rightarrow> u64 \<Rightarrow> u32" where
  "dec_for target now = word_of_int (max 0 (min 0x7fffffff (sint (target - now))))"

definition dec_ok :: "kstate \<Rightarrow> bool" where
  "dec_ok s \<longleftrightarrow> (s_firstTask s \<noteq> NULL \<longrightarrow> dec_reg s = dec_for (ktarget s (s_firstTask s)) (timebase s))"

lemma KTickTaskReschedule_dec [simp]:
  "dec_ok (KTickTaskReschedule s)"
  "tasks (KTickTaskReschedule s) = tasks s" "s_firstTask (KTickTaskReschedule s) = s_firstTask s"
  "timebase (KTickTaskReschedule s) = timebase s" "msr (KTickTaskReschedule s) = msr s"
  "threads (KTickTaskReschedule s) = threads s"
  by (auto simp: KTickTaskReschedule_def dec_ok_def dec_for_def Let_def)

lemma dec_ok_cong:
  "tasks s' = tasks s \<Longrightarrow> s_firstTask s' = s_firstTask s \<Longrightarrow> timebase s' = timebase s \<Longrightarrow>
   dec_reg s' = dec_reg s \<Longrightarrow> dec_ok s' = dec_ok s"
  by (simp add: dec_ok_def ktarget_def)

text \<open>Setting the timer fields of a task that is not in the list does not disturb the list.\<close>

lemma tick_repr_arm:
  assumes "tick_repr base s L" "t \<notin> set L"
  shows "tick_repr base (upd_task t (\<lambda>k. k\<lparr>k_target := a, k_period := p, k_fn := f\<rparr>) s) L"
proof -
  let ?s = "upd_task t (\<lambda>k. k\<lparr>k_target := a, k_period := p, k_fn := f\<rparr>) s"
  have n: "knext ?s = knext s" by (auto simp: knext_def upd_task_def)
  have o: "tick_off base ?s u = tick_off base s u" if "u \<in> set L" for u
    using that assms(2) by (auto simp: tick_off_def ktarget_def upd_task_def)
  have "sorted_by (tick_off base ?s) L = sorted_by (tick_off base s) L"
    using o by (intro sorted_by_cong)
  then show ?thesis using assms(1) o by (simp add: tick_repr_def tick_list_def tick_fits_def n)
qed

text \<open>
  The core of \<open>KTickTaskStart\<close>: with the task out of the list, or in it, arming it gives a list with
  the task at its place.
\<close>

lemma KTickTaskStart_run:
  assumes r: "tick_repr base s L" and t: "t \<noteq> NULL"
    and armed: "\<forall>u\<in>set L. kfn s u \<noteq> Fn_null"
    and fit: "uint (timebase s + delay_ticks - base) < 2 ^ 63"
  shows "\<exists>s' L'. KTickTaskStart t fn delay_ticks period_ticks s = Some s' \<and> tick_repr base s' L' \<and>
     mset L' = add_mset t (mset (remove1 t L)) \<and> remove1 t L' = remove1 t L \<and>
     ktarget s' = (ktarget s)(t := timebase s + delay_ticks) \<and> kfn s' = (kfn s)(t := fn) \<and>
     timebase s' = timebase s \<and> threads s' = threads s \<and>
     (if s_firstTask s' \<noteq> s_firstTask s then dec_ok s' else dec_reg s' = dec_reg s)"
proof -
  obtain st s1 where lock: "PPCIrqLockByMsr s = (st, s1)" by (cases "PPCIrqLockByMsr s")
  have s1: "tasks s1 = tasks s" "s_firstTask s1 = s_firstTask s" "timebase s1 = timebase s"
      "dec_reg s1 = dec_reg s" "threads s1 = threads s"
    using lock lock_acc [of s] by simp_all
  have r1: "tick_repr base s1 L" using r tick_repr_tasks [OF s1(1,2)] by simp
  have acc1: "ktarget s1 = ktarget s" "kfn s1 = kfn s" using task_acc_tasks [OF s1(1)] by auto
  obtain s2 where s2: "(if kfn s1 t \<noteq> Fn_null then KTickTaskDequeue t s1 else Some s1) = Some s2"
      "tick_repr base s2 (remove1 t L)" "ktarget s2 = ktarget s" "kfn s2 = kfn s" "tframe s1 s2"
  proof (cases "kfn s1 t = Fn_null")
    case True
    then have "t \<notin> set L" using armed acc1 by auto
    then show ?thesis using that [of s1] True r1 acc1 by (simp add: remove1_idem)
  next
    case False
    obtain s2 where "KTickTaskDequeue t s1 = Some s2" "ktarget s2 = ktarget s1" "kfn s2 = kfn s1"
        "tframe s1 s2"
      using KTickTaskDequeue_list [of s1 L t] r1 t by (auto simp: tick_repr_def)
    moreover obtain s2' where "KTickTaskDequeue t s1 = Some s2'" "tick_repr base s2' (remove1 t L)"
      using tk.deq_repr [OF r1 t] by blast
    ultimately show ?thesis using that [of s2] False acc1 by simp
  qed
  have f2: "timebase s2 = timebase s" "dec_reg s2 = dec_reg s" "threads s2 = threads s"
    using s2(5) s1 by (simp_all add: tframe_def)
  let ?s2 = "upd_task t (\<lambda>k. k\<lparr>k_target := timebase s2 + delay_ticks, k_period := period_ticks,
                                k_fn := fn\<rparr>) s2"
  have nin: "t \<notin> set (remove1 t L)" using tk.repr_distinct [OF r] by simp
  have r2: "tick_repr base ?s2 (remove1 t L)" using s2(2) nin by (rule tick_repr_arm)
  have tgt: "ktarget ?s2 = (ktarget s)(t := timebase s + delay_ticks)" "kfn ?s2 = (kfn s)(t := fn)"
    using s2(3,4) f2(1) by (auto simp: ktarget_def kfn_def upd_task_def fun_eq_iff)
  have fit2: "tick_fits base ?s2 t" using fit by (simp add: tick_fits_def tick_off_def tgt)
  obtain s3 L' where s3: "KTickTaskEnqueue t ?s2 = Some s3" "tick_repr base s3 L'"
      "mset L' = add_mset t (mset (remove1 t L))" "remove1 t L' = remove1 t L"
    using tk.enq_repr [OF r2 nin t fit2] by blast
  have e3: "ktarget s3 = ktarget ?s2" "kfn s3 = kfn ?s2" "tframe ?s2 s3"
    using KTickTaskEnqueue_list [of ?s2 "remove1 t L" t] r2 nin t s3(1) by (auto simp: tick_repr_def)
  have f3: "timebase s3 = timebase s" "dec_reg s3 = dec_reg s" "threads s3 = threads s"
    using e3(3) f2 by (simp_all add: tframe_def)
  define s4 where "s4 = (if s_firstTask s3 \<noteq> s_firstTask s1 then KTickTaskReschedule s3 else s3)"
  have run: "KTickTaskStart t fn delay_ticks period_ticks s = Some (PPCIrqUnlockByMsr st s4)"
    using s2(1) s3(1) by (simp add: KTickTaskStart_def lock s4_def Let_def)
  let ?s' = "PPCIrqUnlockByMsr st s4"
  have same: "tasks ?s' = tasks s3" "s_firstTask ?s' = s_firstTask s3" by (simp_all add: s4_def)
  have "tick_repr base ?s' L'" using s3(2) tick_repr_tasks [OF same] by simp
  moreover have "ktarget ?s' = (ktarget s)(t := timebase s + delay_ticks)" "kfn ?s' = (kfn s)(t := fn)"
    using task_acc_tasks [OF same(1)] e3 tgt by simp_all
  moreover have "timebase ?s' = timebase s" "threads ?s' = threads s" using f3 by (simp_all add: s4_def)
  moreover have "if s_firstTask ?s' \<noteq> s_firstTask s then dec_ok ?s' else dec_reg ?s' = dec_reg s"
    using f3(2) s1(2) by (auto simp: s4_def dec_ok_cong [of ?s' s4] dec_ok_cong [of _ "KTickTaskReschedule s3"])
  ultimately show ?thesis using run s3(3,4) by blast
qed

text \<open>Interrupts are as they were when the call began.\<close>

lemma irq_restore: "((m AND NOT e AND NOT f) AND NOT e OR m AND e) AND e = m AND (e :: u32)"
  by (rule bit_word_eqI) (auto simp: bit_simps)

lemma KTickTaskDequeue_msr: "KTickTaskDequeue t s = Some s' \<Longrightarrow> msr s' = msr s"
  by (auto simp: KTickTaskDequeue_def bind_eq_Some_conv split: if_splits)

lemma KTickTaskEnqueue_msr: "KTickTaskEnqueue t s = Some s' \<Longrightarrow> msr s' = msr s"
  by (auto simp: KTickTaskEnqueue_def bind_eq_Some_conv split: if_splits)

lemma KTickTaskStart_msr:
  assumes "KTickTaskStart t fn delay_ticks period_ticks s = Some s'"
  shows "msr s' AND MSR_EE = msr s AND MSR_EE"
  using assms
  by (auto simp: KTickTaskStart_def PPCIrqLockByMsr_def PPCIrqUnlockByMsr_def Let_def
      bind_eq_Some_conv irq_restore dest!: KTickTaskDequeue_msr KTickTaskEnqueue_msr split: if_splits)

lemma KTickTaskStop_run:
  assumes r: "tick_repr base s L" and t: "t \<noteq> NULL"
    and armed: "\<forall>u\<in>set L. kfn s u \<noteq> Fn_null"
  shows "\<exists>s'. KTickTaskStop t s = Some s' \<and> tick_repr base s' (remove1 t L) \<and>
     ktarget s' = ktarget s \<and> kfn s' = (kfn s)(t := Fn_null) \<and> threads s' = threads s \<and>
     (dec_ok s \<longrightarrow> dec_ok s')"
proof -
  obtain st s1 where lock: "PPCIrqLockByMsr s = (st, s1)" by (cases "PPCIrqLockByMsr s")
  have s1: "tasks s1 = tasks s" "s_firstTask s1 = s_firstTask s" "timebase s1 = timebase s"
      "dec_reg s1 = dec_reg s" "threads s1 = threads s"
    using lock lock_acc [of s] by simp_all
  have r1: "tick_repr base s1 L" using r tick_repr_tasks [OF s1(1,2)] by simp
  have acc1: "ktarget s1 = ktarget s" "kfn s1 = kfn s" using task_acc_tasks [OF s1(1)] by auto
  show ?thesis
  proof (cases "kfn s1 t = Fn_null")
    case True
    then have "t \<notin> set L" using armed acc1 by auto
    moreover have "KTickTaskStop t s = Some (PPCIrqUnlockByMsr st s1)"
      using True by (simp add: KTickTaskStop_def lock)
    moreover have "tick_repr base (PPCIrqUnlockByMsr st s1) L"
      using r1 tick_repr_tasks [of "PPCIrqUnlockByMsr st s1" s1] by simp
    moreover have "dec_ok s \<longrightarrow> dec_ok (PPCIrqUnlockByMsr st s1)"
      using s1 by (simp add: dec_ok_cong [of "PPCIrqUnlockByMsr st s1" s])
    moreover have "ktarget (PPCIrqUnlockByMsr st s1) = ktarget s" "kfn (PPCIrqUnlockByMsr st s1) = kfn s"
      using task_acc_tasks [of "PPCIrqUnlockByMsr st s1" s] s1 by simp_all
    ultimately show ?thesis using True acc1 s1 by (auto simp: remove1_idem)
  next
    case False
    obtain s2 where s2: "KTickTaskDequeue t s1 = Some s2" "tick_list s2 (remove1 t L)"
        "ktarget s2 = ktarget s" "kfn s2 = kfn s" "tframe s1 s2"
      using KTickTaskDequeue_list [of s1 L t] r1 t acc1 by (auto simp: tick_repr_def)
    have r2: "tick_repr base s2 (remove1 t L)" using tk.deq_repr [OF r1 t] s2(1) by auto
    define s3 where "s3 = (if s_firstTask s1 = t then KTickTaskReschedule s2 else s2)"
    define s' where "s' = PPCIrqUnlockByMsr st (upd_task t (\<lambda>k. k\<lparr>k_fn := Fn_null\<rparr>) s3)"
    have run: "KTickTaskStop t s = Some s'"
      using False s2(1) by (simp add: KTickTaskStop_def lock s3_def s'_def Let_def)
    have t3: "tasks s3 = tasks s2" "s_firstTask s3 = s_firstTask s2" "timebase s3 = timebase s"
        "threads s3 = threads s"
      using s2(5) s1 by (simp_all add: s3_def tframe_def)
    have first: "s_firstTask s' = s_firstTask s2" by (simp add: s'_def t3)
    have acc': "knext s' = knext s2" "ktarget s' = ktarget s" "kfn s' = (kfn s)(t := Fn_null)"
      using t3(1) s2(3,4)
      by (auto simp: s'_def knext_def ktarget_def kfn_def upd_task_def fun_eq_iff)
    have "ktarget s' = ktarget s2" using acc' s2(3) by simp
    then have "tick_repr base s' (remove1 t L)"
      using r2 first acc'(1) tick_off_cong [of s' s2 base] tick_fits_cong [of s' s2 base]
      by (simp add: tick_repr_def tick_list_def)
    moreover have "dec_ok s \<longrightarrow> dec_ok s'"
    proof (cases "s_firstTask s1 = t")
      case True
      have "dec_ok s3" using True by (simp add: s3_def)
      moreover have "ktarget s3 = ktarget s" using t3(1) s2(3) by (simp add: ktarget_def fun_eq_iff)
      ultimately show ?thesis using first t3 acc'(2) by (simp add: dec_ok_def s'_def)
    next
      case ne: False
      then have "s_firstTask s2 = s_firstTask s"
        using s2(1) s1(2) by (auto simp: KTickTaskDequeue_def bind_eq_Some_conv split: if_splits)
      then show ?thesis using ne first t3 acc'(2) s2(5) s1
        by (simp add: dec_ok_def s'_def s3_def tframe_def)
    qed
    ultimately show ?thesis using run acc' t3(4) by (auto simp: s'_def)
  qed
qed

text \<open>
  Serving the due tasks. \<open>tick_due\<close> is the test of the loop; a callback that keeps the time base and
  the task list (what every callback of the kernel does, apart from re-arming its own task) lets the
  loop serve exactly the due prefix of the list.
\<close>

definition tick_due :: "kstate \<Rightarrow> ptr \<Rightarrow> bool" where
  "tick_due s t \<longleftrightarrow> \<not> KTickIsSequential (timebase s) (ktarget s t)"

definition tick_quiet :: "(tick_fn \<Rightarrow> ptr \<Rightarrow> kstate \<Rightarrow> kstate option) \<Rightarrow> bool" where
  "tick_quiet call \<longleftrightarrow> (\<forall>f t s. \<exists>s'. call f t s = Some s' \<and> tasks s' = tasks s \<and>
     s_firstTask s' = s_firstTask s \<and> timebase s' = timebase s)"

text \<open>
  The reference for one-shot tasks: each task of the list is taken off and disarmed, and its function is called with it,
  one after the other.
\<close>

definition disarm :: "ptr \<Rightarrow> kstate \<Rightarrow> kstate" where
  "disarm t s = upd_task t (\<lambda>k. k\<lparr>k_fn := Fn_null\<rparr>) (s\<lparr>s_firstTask := knext s t\<rparr>)"

primrec serve_all :: "(tick_fn \<Rightarrow> ptr \<Rightarrow> kstate \<Rightarrow> kstate option) \<Rightarrow> ptr list \<Rightarrow> kstate \<Rightarrow> kstate option" where
  "serve_all call [] s = Some s"
| "serve_all call (t # ts) s = do { s1 \<leftarrow> call (kfn s t) t (disarm t s); serve_all call ts s1 }"

lemma KTickTaskPop_oneshot:
  assumes "tick_list s (t # L)" "k_period (tasks s t) = 0"
  shows "\<exists>s'. KTickTaskPop s = Some s' \<and> s' = disarm t s \<and> tick_list s' L \<and> timebase s' = timebase s \<and>
           ktarget s' = ktarget s \<and> kfn s' = (kfn s)(t := Fn_null) \<and>
           (\<forall>u. k_period (tasks s' u) = k_period (tasks s u))"
proof -
  have f: "s_firstTask s = t" "lst (knext s) (knext s t) L" using assms(1) by (auto simp: tick_list_def)
  let ?s' = "upd_task t (\<lambda>k. k\<lparr>k_fn := Fn_null\<rparr>) (s\<lparr>s_firstTask := knext s t\<rparr>)"
  have "knext ?s' = knext s" "ktarget ?s' = ktarget s" "kfn ?s' = (kfn s)(t := Fn_null)"
    by (auto simp: knext_def ktarget_def kfn_def upd_task_def fun_eq_iff)
  moreover have "KTickTaskPop s = Some ?s'" using f(1) assms(2) by (simp add: KTickTaskPop_def)
  ultimately show ?thesis using f by (auto simp: tick_list_def upd_task_def disarm_def)
qed

lemma KTickTaskRunLoop_oneshot:
  assumes "tick_list s L" "tick_quiet call" "\<forall>t\<in>set L. k_period (tasks s t) = 0"
  shows "\<exists>s'. KTickTaskRunLoop call s = Some s' \<and> serve_all call (takeWhile (tick_due s) L) s = Some s' \<and>
           tick_list s' (dropWhile (tick_due s) L) \<and>
           (\<forall>t\<in>set (takeWhile (tick_due s) L). kfn s' t = Fn_null) \<and>
           (\<forall>t. t \<notin> set (takeWhile (tick_due s) L) \<longrightarrow> kfn s' t = kfn s t) \<and>
           timebase s' = timebase s \<and> ktarget s' = ktarget s"
  using assms(1,3)
proof (induction L arbitrary: s)
  case Nil
  then show ?case by (subst KTickTaskRunLoop.simps) (simp add: tick_list_def)
next
  case (Cons t L)
  have f: "s_firstTask s = t" "t \<noteq> NULL" using Cons.prems(1) by (auto simp: tick_list_def)
  show ?case
  proof (cases "tick_due s t")
    case False
    then show ?thesis using f Cons.prems(1)
      by (subst KTickTaskRunLoop.simps) (simp add: tick_due_def)
  next
    case True
    obtain s1 where s1: "KTickTaskPop s = Some s1" "tick_list s1 L" "timebase s1 = timebase s"
        "ktarget s1 = ktarget s" "kfn s1 = (kfn s)(t := Fn_null)"
        "\<forall>u. k_period (tasks s1 u) = k_period (tasks s u)" "s1 = disarm t s"
      using KTickTaskPop_oneshot [OF Cons.prems(1)] Cons.prems(2) by auto
    obtain s2 where s2: "call (kfn s t) t s1 = Some s2" "tasks s2 = tasks s1"
        "s_firstTask s2 = s_firstTask s1" "timebase s2 = timebase s1"
      using assms(2) unfolding tick_quiet_def by metis
    have acc2: "knext s2 = knext s1" "ktarget s2 = ktarget s" "kfn s2 = (kfn s)(t := Fn_null)"
      using task_acc_tasks [OF s2(2)] s1 by simp_all
    have due: "tick_due s2 = tick_due s" using acc2(2) s1(3) s2(4) by (simp add: tick_due_def fun_eq_iff)
    have l2: "tick_list s2 L" using s1(2) acc2(1) s2(3) by (simp add: tick_list_def)
    have p2: "\<forall>u\<in>set L. k_period (tasks s2 u) = 0" using Cons.prems(2) s1(6) s2(2) by simp
    obtain s' where s': "KTickTaskRunLoop call s2 = Some s'"
        "tick_list s' (dropWhile (tick_due s) L)"
        "\<forall>t\<in>set (takeWhile (tick_due s) L). kfn s' t = Fn_null"
        "\<forall>t. t \<notin> set (takeWhile (tick_due s) L) \<longrightarrow> kfn s' t = kfn s2 t"
        "timebase s' = timebase s2" "ktarget s' = ktarget s2" "serve_all call (takeWhile (tick_due s) L) s2 = Some s'"
      using Cons.IH [OF l2 p2] due by auto
    have "KTickTaskRunLoop call s = Some s'"
      using f True s1(1) s2(1) s'(1) by (subst KTickTaskRunLoop.simps) (simp add: tick_due_def)
    moreover have "serve_all call (takeWhile (tick_due s) (t # L)) s = Some s'" using True s2(1) s'(7) s1(7) by simp
    moreover have "kfn s' t = Fn_null"
      using s'(3,4) acc2(3) by (cases "t \<in> set (takeWhile (tick_due s) L)") auto
    ultimately show ?thesis using True s' acc2 s1(3) s2(4) by auto
  qed
qed

text \<open>Whenever \<open>KTickTaskRun\<close> returns, no due task is left at the head and the timer is programmed.\<close>

lemma KTickTaskRunLoop_done:
  assumes "KTickTaskRunLoop call s = Some s'"
  shows "s_firstTask s' = NULL \<or> \<not> tick_due s' (s_firstTask s')"
  by (rule KTickTaskRunLoop.raw_induct
      [where P = "\<lambda>c s s'. s_firstTask s' = NULL \<or> \<not> tick_due s' (s_firstTask s')", OF _ assms])
    (auto simp: tick_due_def bind_eq_Some_conv split: if_splits)

end
