(* ===== verification/KThread.thy ===== *)
theory KThread
  imports KTick
begin

text \<open>
  The scheduler of \<^verbatim>\<open>tuxedo/thread.c\<close>, with the priority inheritance walk \<open>KThreadUpdateDynamicPrio\<close> of
  \<^verbatim>\<open>tuxedo/sync.c\<close> and the context switch of \<^verbatim>\<open>tuxedo/interrupt_asm.S\<close>. A kernel call is a function of the
  kernel state made by the current thread (\<open>sprg2\<close>); it returns the state in which the machine runs
  on, possibly in another thread. Where C code follows a point at which the caller is switched out,
  that code is a definition of its own, named \<open>..._resume\<close>, which runs when the caller runs again.
\<close>

section \<open>Context switch\<close>

definition PPCContextPrepareToJump :: "u32 \<Rightarrow> u32 \<Rightarrow> kstate \<Rightarrow> kstate" where
  "PPCContextPrepareToJump ret st s =
     (let m = msr s AND NOT MSR_EE in
      (set_ctx (sprg2 s) (\<lambda>c. c\<lparr>ctx_msr := m OR st, ctx_gpr := (ctx_gpr c)(3 := ret)\<rparr>) s)
        \<lparr>msr := m AND NOT MSR_FP AND NOT MSR_RI\<rparr>)"

definition PPCContextJump :: "ptr \<Rightarrow> kstate \<Rightarrow> kstate" where
  "PPCContextJump t s =
     s\<lparr>ppc_next_ctx := NULL, sprg2 := t,
       msr := (ctx_msr (t_ctx (threads s t)) AND NOT MSR_FP) OR (if sprg3 s = t then MSR_FP else 0)\<rparr>"

definition KThreadSwitchTo :: "ptr \<Rightarrow> u32 \<Rightarrow> kstate \<Rightarrow> kstate option" where
  "KThreadSwitchTo t st s =
     (if t = NULL then None
      else if PPCIsInExcpt s then
        Some (PPCIrqUnlockByMsr st
          (if ppc_next_ctx s = NULL \<or> prioT s t < prioT s (ppc_next_ctx s)
           then s\<lparr>ppc_next_ctx := t\<rparr> else s))
      else Some (PPCContextJump t (PPCContextPrepareToJump 1 st s)))"

definition KThreadReschedule :: "ptr \<Rightarrow> u32 \<Rightarrow> kstate \<Rightarrow> kstate option" where
  "KThreadReschedule t st s =
     (if t \<noteq> NULL \<and> prioT s t < prioT s (sprg2 s) then KThreadSwitchTo t st s
      else Some (PPCIrqUnlockByMsr st s))"

section \<open>Blocking and unblocking\<close>

definition KThrQueueBlock :: "qptr \<Rightarrow> u32 \<Rightarrow> kstate \<Rightarrow> kstate option" where
  "KThrQueueBlock q token s =
     (let self = sprg2 s; (st, s1) = PPCIrqLockByMsr s in
      do { s2 \<leftarrow> KThrQueueInsert q self
                  (set_token self token (set_state self KTHR_STATE_WAITING s1));
           next' \<leftarrow> KThreadFindRunnable s2 (s_firstThread s2);
           KThreadSwitchTo next' st s2 })"

text \<open>What \<open>KThrQueueBlock\<close> returns to its caller once that runs again.\<close>

definition KThrQueueBlock_resume :: "kstate \<Rightarrow> u32" where
  "KThrQueueBlock_resume s = tokenT s (sprg2 s)"

text \<open>
  The body of the unblocking loop for a thread that passes the test: take it off the queue, leave
  it its result in the token, make it runnable unless it is suspended.
\<close>

definition unblock_one :: "qptr \<Rightarrow> KThrUnblockMode \<Rightarrow> u32 \<Rightarrow> ptr \<Rightarrow> kstate \<Rightarrow> kstate" where
  "unblock_one q mode ref cur s =
     (let s1 = KThrQueueRemove q cur s;
          s2 = set_token cur (if mode = KTHR_UNBLOCK_BY_MASK then tokenT s1 cur AND ref else 1) s1
      in if suspendT s2 cur = 0 then set_state cur KTHR_STATE_RUNNING s2 else s2)"

partial_function (option) unblock_loop ::
    "qptr \<Rightarrow> KThrUnblockMode \<Rightarrow> u32 \<Rightarrow> int \<Rightarrow> ptr \<Rightarrow> ptr \<Rightarrow> kstate \<Rightarrow> (ptr \<times> kstate) option" where
  "unblock_loop q mode ref max' cur resched s =
     (if max' \<noteq> 0 \<and> cur \<noteq> NULL then
        (if \<not> KThrQueueTestUnblock s cur mode ref
         then unblock_loop q mode ref max' (lnextT s cur) resched s
         else unblock_loop q mode ref (if max' > 0 then max' - 1 else max') (lnextT s cur)
                (if suspendT s cur = 0 \<and> resched = NULL then cur else resched)
                (unblock_one q mode ref cur s))
      else Some (resched, s))"

declare unblock_loop.simps [code]

definition KThrQueueUnblockCommon ::
    "qptr \<Rightarrow> int \<Rightarrow> KThrUnblockMode \<Rightarrow> u32 \<Rightarrow> kstate \<Rightarrow> kstate option" where
  "KThrQueueUnblockCommon q max' mode ref s =
     (let (st, s1) = PPCIrqLockByMsr s in
      do { (resched, s2) \<leftarrow> unblock_loop q mode ref max' (q_next (getq s1 q)) NULL s1;
           KThreadReschedule resched st s2 })"

definition KThrQueueUnblockOneByValue :: "qptr \<Rightarrow> u32 \<Rightarrow> kstate \<Rightarrow> kstate option" where
  "KThrQueueUnblockOneByValue q ref = KThrQueueUnblockCommon q 1 KTHR_UNBLOCK_BY_VALUE ref"

definition KThrQueueUnblockOneByMask :: "qptr \<Rightarrow> u32 \<Rightarrow> kstate \<Rightarrow> kstate option" where
  "KThrQueueUnblockOneByMask q ref = KThrQueueUnblockCommon q 1 KTHR_UNBLOCK_BY_MASK ref"

definition KThrQueueUnblockAllByValue :: "qptr \<Rightarrow> u32 \<Rightarrow> kstate \<Rightarrow> kstate option" where
  "KThrQueueUnblockAllByValue q ref = KThrQueueUnblockCommon q (-1) KTHR_UNBLOCK_BY_VALUE ref"

definition KThrQueueUnblockAllByMask :: "qptr \<Rightarrow> u32 \<Rightarrow> kstate \<Rightarrow> kstate option" where
  "KThrQueueUnblockAllByMask q ref = KThrQueueUnblockCommon q (-1) KTHR_UNBLOCK_BY_MASK ref"

definition KThrQueueCancel :: "qptr \<Rightarrow> ptr \<Rightarrow> kstate \<Rightarrow> kstate option" where
  "KThrQueueCancel q t s =
     (let (st, s1) = PPCIrqLockByMsr s in
      if stateT s1 t \<noteq> KTHR_STATE_WAITING \<or> wqueueT s1 t \<noteq> q then Some (PPCIrqUnlockByMsr st s1)
      else let s2 = set_token t 0 (KThrQueueRemove q t s1)
           in if suspendT s2 t = 0
              then KThreadReschedule t st (set_state t KTHR_STATE_RUNNING s2)
              else KThreadReschedule NULL st s2)"

section \<open>Dynamic priorities\<close>

text \<open>The priority a thread should have: its own, or that of its first waiter if that is more urgent.\<close>

definition want_prio :: "kstate \<Rightarrow> ptr \<Rightarrow> u16" where
  "want_prio s t =
     (let w = q_next (waitersT s t) in
      if w \<noteq> NULL then (if prioT s w < basepT s t then prioT s w else basepT s t) else basepT s t)"

partial_function (option) KThreadUpdateDynamicPrio :: "ptr \<Rightarrow> kstate \<Rightarrow> kstate option" where
  "KThreadUpdateDynamicPrio t s =
     (if prioT s t = want_prio s t then Some s
      else do { s1 \<leftarrow> KThreadDequeue t s;
                s2 \<leftarrow> KThreadEnqueue t (set_prio t (want_prio s t) s1);
                if stateT s2 t = KTHR_STATE_RUNNING then Some s2
                else if wqueueT s2 t = QNull then Some s2
                else do { s3 \<leftarrow> KThrQueueInsert (wqueueT s2 t) t
                                 (KThrQueueRemove (wqueueT s2 t) t s2);
                          if stateT s3 t \<noteq> KTHR_STATE_WAITING_MUTEX then Some s3
                          else KThreadUpdateDynamicPrio (mutex_owner s3 (tokenT s3 t)) s3 } })"

declare KThreadUpdateDynamicPrio.simps [code]

abbreviation KTHR_MAIN_PRIO :: u16 where "KTHR_MAIN_PRIO \<equiv> 0x3f"
abbreviation KTHR_MIN_PRIO :: u16 where "KTHR_MIN_PRIO \<equiv> 0x7f"

definition KThreadSetPrio :: "ptr \<Rightarrow> u16 \<Rightarrow> kstate \<Rightarrow> kstate option" where
  "KThreadSetPrio t prio s =
     (let self = sprg2 s; (st, s1) = PPCIrqLockByMsr s; curprio = prioT s1 self in
      do { s2 \<leftarrow> KThreadUpdateDynamicPrio t (set_basep t (prio AND KTHR_MIN_PRIO) s1);
           next' \<leftarrow> (if t = self then
                       (if prioT s2 self > curprio then KThreadFindRunnable s2 (s_firstThread s2)
                        else Some NULL)
                     else Some (if stateT s2 t = KTHR_STATE_RUNNING then t else NULL));
           KThreadReschedule next' st s2 })"

section \<open>Thread life cycle\<close>

definition KThreadInit :: "ptr \<Rightarrow> ptr \<Rightarrow> u32 \<Rightarrow> kstate \<Rightarrow> kstate" where
  "KThreadInit mainT idleT idle_main s =
     (let s1 = s\<lparr>s_firstThread := mainT\<rparr>;
          s2 = upd_thr mainT (\<lambda>k. k\<lparr>t_next := idleT, t_state := KTHR_STATE_RUNNING,
                 t_prio := KTHR_MAIN_PRIO, t_baseprio := KTHR_MAIN_PRIO\<rparr>) s1;
          s3 = upd_thr idleT (\<lambda>k. k\<lparr>t_ctx := (t_ctx k)\<lparr>ctx_pc := idle_main,
                   ctx_msr := MSR_EE OR MSR_ME OR MSR_IR OR MSR_DR OR MSR_RI\<rparr>,
                 t_state := KTHR_STATE_RUNNING, t_prio := KTHR_MIN_PRIO + 1,
                 t_baseprio := KTHR_MIN_PRIO + 1\<rparr>) s2
      in s3\<lparr>sprg2 := mainT, sprg3 := mainT\<rparr>)"

text \<open>Link-time addresses that \<open>KThreadPrepare\<close> stores in a context.\<close>

record link_env =
  addr_KThreadExit :: u32
  addr_SDA2_BASE :: u32
  addr_SDA_BASE :: u32

definition KThreadPrepare ::
    "link_env \<Rightarrow> ptr \<Rightarrow> u32 \<Rightarrow> u32 \<Rightarrow> u32 \<Rightarrow> u16 \<Rightarrow> kstate \<Rightarrow> kstate option" where
  "KThreadPrepare env t entrypoint arg stack_top prio s =
     (let sp = stack_top AND NOT 7;
          sp' = (if sp \<noteq> 0 then sp - 8 else sp);
          p = prio AND KTHR_MIN_PRIO;
          c = \<lparr>ctx_pc = entrypoint, ctx_msr = MSR_EE OR MSR_ME OR MSR_IR OR MSR_DR OR MSR_RI,
               ctx_lr = addr_KThreadExit env,
               ctx_gpr = (\<lambda>_. 0)(1 := sp', 2 := addr_SDA2_BASE env, 3 := arg,
                                 13 := addr_SDA_BASE env)\<rparr>;
          s1 = s\<lparr>threads := (threads s)(t := zero_thread\<lparr>t_ctx := c, t_state := KTHR_STATE_WAITING,
                              t_suspend := 1, t_prio := p, t_baseprio := p\<rparr>)\<rparr>;
          s2 = (if sp \<noteq> 0 then s1\<lparr>stack_mem := (stack_mem s1)(sp' := 0xffffffff)\<rparr> else s1);
          (st, s3) = PPCIrqLockByMsr s2
      in map_option (PPCIrqUnlockByMsr st) (KThreadEnqueue t s3))"

definition KThreadResume :: "ptr \<Rightarrow> kstate \<Rightarrow> kstate option" where
  "KThreadResume t s =
     (let self = sprg2 s; (st, s1) = PPCIrqLockByMsr s in
      if suspendT s1 t = 0 then Some (PPCIrqUnlockByMsr st s1)
      else let s2 = set_suspend t (suspendT s1 t - 1) s1 in
        if suspendT s2 t \<noteq> 0 \<or> wqueueT s2 t \<noteq> QNull then Some (PPCIrqUnlockByMsr st s2)
        else let s3 = set_state t KTHR_STATE_RUNNING s2 in
          if t \<noteq> self then KThreadReschedule t st s3
          else if ppc_next_ctx s3 = NULL then None
          else Some (PPCIrqUnlockByMsr st
                 (if prioT s3 t < prioT s3 (ppc_next_ctx s3) then s3\<lparr>ppc_next_ctx := NULL\<rparr> else s3)))"

definition KThreadSuspend :: "ptr \<Rightarrow> kstate \<Rightarrow> kstate option" where
  "KThreadSuspend t s =
     (let self = sprg2 s; (st, s1) = PPCIrqLockByMsr s; s2 = set_suspend t (suspendT s1 t + 1) s1 in
      if suspendT s1 t \<noteq> 0 \<or> stateT s2 t \<noteq> KTHR_STATE_RUNNING then Some (PPCIrqUnlockByMsr st s2)
      else let s3 = set_wqueue t QNull (set_state t KTHR_STATE_WAITING s2) in
        do { next' \<leftarrow> (if t = self \<or> t = ppc_next_ctx s3
                        then KThreadFindRunnable s3 (s_firstThread s3) else Some NULL);
             if t = self then KThreadSwitchTo next' st s3
             else Some (PPCIrqUnlockByMsr st
               (if t = ppc_next_ctx s3
                then s3\<lparr>ppc_next_ctx := (if next' \<noteq> self then next' else NULL)\<rparr> else s3)) })"

definition KThreadYield :: "kstate \<Rightarrow> kstate option" where
  "KThreadYield s =
     (let self = sprg2 s; (st, s1) = PPCIrqLockByMsr s in
      do { t \<leftarrow> KThreadFindRunnable s1 (nextT s1 self);
           t' \<leftarrow> (if t = NULL \<or> prioT s1 t > prioT s1 self
                    then KThreadFindRunnable s1 (s_firstThread s1) else Some t);
           if t' \<noteq> self then KThreadSwitchTo t' st s1 else Some (PPCIrqUnlockByMsr st s1) })"

text \<open>
  \<open>KThreadJoin\<close> returns at once with the exit code of a finished thread (\<open>Some rc\<close>); otherwise the
  caller blocks on the join queue (\<open>None\<close>) and reads the code when it runs again.
\<close>

definition KThreadJoin :: "ptr \<Rightarrow> kstate \<Rightarrow> (u32 option \<times> kstate) option" where
  "KThreadJoin t s =
     (let (st, s1) = PPCIrqLockByMsr s in
      if KTHR_STATE_RUNNING \<le> stateT s1 t
      then map_option (Pair None) (KThrQueueBlock (QStatic S_joinQueue) t s1)
      else Some (Some (t_finish_rc (threads s1 t)), PPCIrqUnlockByMsr st s1))"

definition KThreadJoin_resume :: "u32 \<Rightarrow> ptr \<Rightarrow> kstate \<Rightarrow> u32 \<times> kstate" where
  "KThreadJoin_resume st t s = (t_finish_rc (threads s t), PPCIrqUnlockByMsr st s)"

text \<open>The sleeping thread's tick task lives on its stack, at the address \<open>task\<close>.\<close>

definition KThreadSleepWakeup :: "ptr \<Rightarrow> kstate \<Rightarrow> kstate option" where
  "KThreadSleepWakeup task = KThrQueueUnblockAllByValue (QStatic S_sleepQueue) task"

definition KThreadSleepTicks :: "ptr \<Rightarrow> u64 \<Rightarrow> kstate \<Rightarrow> kstate option" where
  "KThreadSleepTicks task ticks s =
     (let (st, s1) = PPCIrqLockByMsr s in
      do { s2 \<leftarrow> KTickTaskStart task Fn_KThreadSleepWakeup ticks 0 s1;
           KThrQueueBlock (QStatic S_sleepQueue) task s2 })"

definition KThreadSleepTicks_resume :: "u32 \<Rightarrow> kstate \<Rightarrow> kstate" where
  "KThreadSleepTicks_resume st = PPCIrqUnlockByMsr st"

definition KThreadExit :: "u32 \<Rightarrow> kstate \<Rightarrow> kstate option" where
  "KThreadExit rc s =
     (let self = sprg2 s;
          s1 = s\<lparr>msr := msr s AND NOT (MSR_EE OR MSR_FP OR MSR_RI)\<rparr>;
          s2 = (if sprg3 s1 = self then s1\<lparr>sprg3 := NULL\<rparr> else s1) in
      do { s3 \<leftarrow> KThreadDequeue self s2;
           s4 \<leftarrow> KThrQueueUnblockAllByValue (QStatic S_joinQueue) self
                  (set_lnext self rc (set_state self KTHR_STATE_FINISHED s3));
           next' \<leftarrow> (if ppc_next_ctx s4 = NULL then KThreadFindRunnable s4 (s_firstThread s4)
                      else Some (ppc_next_ctx s4));
           if next' = NULL then None else Some (PPCContextJump next' s4) })"

end
