(* ===== verification/KInv.thy ===== *)
theory KInv
  imports KThread
begin

text \<open>
  The well-formedness invariant of the scheduler. The ghost arguments are the thread list \<open>L\<close> and
  the contents \<open>Q q\<close> of every wait queue; the invariant ties them to the pointers and fields of the
  state, and says that no thread is lost: a live thread is runnable, or linked into exactly the
  queue its \<open>wait.queue\<close> names, or suspended.
\<close>

section \<open>The invariant\<close>

fun valid_q :: "ptr set \<Rightarrow> qptr \<Rightarrow> bool" where
  "valid_q T QNull = False"
| "valid_q T (QStatic k) = True"
| "valid_q T (QWaiters t) = (t \<in> T)"

definition queues_ok :: "kstate \<Rightarrow> ptr set \<Rightarrow> (qptr \<Rightarrow> ptr list) \<Rightarrow> bool" where
  "queues_ok s T Q \<longleftrightarrow>
     (\<forall>q. valid_q T q \<longrightarrow> qlist s q (Q q) \<and> set (Q q) \<subseteq> T) \<and>
     (\<forall>t\<in>T. \<forall>q. valid_q T q \<longrightarrow> (t \<in> set (Q q) \<longleftrightarrow> wqueueT s t = q)) \<and>
     (\<forall>t\<in>T. wqueueT s t = QNull \<or> valid_q T (wqueueT s t))"

fun thr_ok :: "KThrState \<Rightarrow> u16 \<Rightarrow> qptr \<Rightarrow> bool" where
  "thr_ok KTHR_STATE_RUNNING su wq \<longleftrightarrow> wq = QNull \<and> su = 0"
| "thr_ok KTHR_STATE_WAITING su QNull \<longleftrightarrow> su \<noteq> 0"
| "thr_ok KTHR_STATE_WAITING su (QStatic k) \<longleftrightarrow> True"
| "thr_ok KTHR_STATE_WAITING_MUTEX su (QWaiters p) \<longleftrightarrow> True"
| "thr_ok _ _ _ \<longleftrightarrow> False"

definition state_ok :: "kstate \<Rightarrow> ptr \<Rightarrow> bool" where
  "state_ok s t \<longleftrightarrow> thr_ok (stateT s t) (suspendT s t) (wqueueT s t)"

lemma thr_ok_waiting [simp]:
  "thr_ok KTHR_STATE_WAITING su wq \<longleftrightarrow> (wq = QNull \<and> su \<noteq> 0 \<or> (\<exists>k. wq = QStatic k))"
  "thr_ok KTHR_STATE_WAITING_MUTEX su wq \<longleftrightarrow> (\<exists>p. wq = QWaiters p)"
  by (cases wq; simp)+

lemma state_ok_iff:
  "state_ok s t \<longleftrightarrow>
     stateT s t \<in> {KTHR_STATE_RUNNING, KTHR_STATE_WAITING, KTHR_STATE_WAITING_MUTEX} \<and>
     (stateT s t = KTHR_STATE_RUNNING \<longrightarrow> wqueueT s t = QNull \<and> suspendT s t = 0) \<and>
     (stateT s t = KTHR_STATE_WAITING_MUTEX \<longleftrightarrow> (\<exists>p. wqueueT s t = QWaiters p)) \<and>
     (stateT s t \<noteq> KTHR_STATE_RUNNING \<and> wqueueT s t = QNull \<longrightarrow> suspendT s t \<noteq> 0)"
  unfolding state_ok_def by (cases "stateT s t"; cases "wqueueT s t") auto

definition kwf :: "kstate \<Rightarrow> ptr list \<Rightarrow> (qptr \<Rightarrow> ptr list) \<Rightarrow> bool" where
  "kwf s L Q \<longleftrightarrow>
     thread_list s L \<and> sorted_by (prioT s) L \<and> queues_ok s (set L) Q \<and>
     (\<forall>q. valid_q (set L) q \<longrightarrow> sorted_by (prioT s) (Q q)) \<and> (\<forall>t\<in>set L. state_ok s t)"

text \<open>A thread that waits for a mutex waits in the queue of that mutex's owner.\<close>

definition mutex_ok :: "kstate \<Rightarrow> ptr set \<Rightarrow> bool" where
  "mutex_ok s T \<longleftrightarrow> (\<forall>t\<in>T. \<forall>p. wqueueT s t = QWaiters p \<longrightarrow> mutex_owner s (tokenT s t) = p)"

text \<open>Priority inheritance: every thread runs at the priority its waiters entitle it to.\<close>

definition eff_prio :: "kstate \<Rightarrow> (qptr \<Rightarrow> ptr list) \<Rightarrow> ptr \<Rightarrow> u16" where
  "eff_prio s Q t =
     (case Q (QWaiters t) of [] \<Rightarrow> basepT s t | w # _ \<Rightarrow> min (prioT s w) (basepT s t))"

definition prio_ok :: "kstate \<Rightarrow> (qptr \<Rightarrow> ptr list) \<Rightarrow> ptr set \<Rightarrow> bool" where
  "prio_ok s Q T \<longleftrightarrow> (\<forall>t\<in>T. prioT s t = eff_prio s Q t)"

definition kinv :: "kstate \<Rightarrow> ptr list \<Rightarrow> (qptr \<Rightarrow> ptr list) \<Rightarrow> bool" where
  "kinv s L Q \<longleftrightarrow> kwf s L Q \<and> mutex_ok s (set L) \<and> prio_ok s Q (set L)"

text \<open>
  The thread the machine runs, or will run when the current exception ends, and the scheduling
  rule: it is runnable and no runnable thread is more urgent.
\<close>

definition cur_thread :: "kstate \<Rightarrow> ptr" where
  "cur_thread s = (if ppc_next_ctx s \<noteq> NULL then ppc_next_ctx s else sprg2 s)"

definition sched_ok :: "kstate \<Rightarrow> ptr list \<Rightarrow> bool" where
  "sched_ok s L \<longleftrightarrow> cur_thread s \<in> set L \<and> stateT s (cur_thread s) = KTHR_STATE_RUNNING \<and>
     (\<forall>t\<in>set L. stateT s t = KTHR_STATE_RUNNING \<longrightarrow> prioT s (cur_thread s) \<le> prioT s t)"

section \<open>Basic consequences\<close>

lemma kwf_nonnull: "kwf s L Q \<Longrightarrow> t \<in> set L \<Longrightarrow> t \<noteq> NULL"
  by (auto simp: kwf_def dest: thread_list_nonnull)

lemma kwf_distinct: "kwf s L Q \<Longrightarrow> distinct L"
  by (auto simp: kwf_def dest: thread_list_distinct)

lemma queues_okD:
  assumes "queues_ok s T Q" "valid_q T q"
  shows "qlist s q (Q q)" "set (Q q) \<subseteq> T" "t \<in> T \<Longrightarrow> t \<in> set (Q q) \<longleftrightarrow> wqueueT s t = q"
  using assms by (auto simp: queues_ok_def)

lemma queues_disjoint:
  assumes "queues_ok s T Q" "valid_q T q" "valid_q T q'" "q \<noteq> q'"
  shows "set (Q q) \<inter> set (Q q') = {}"
proof (rule Int_emptyI)
  fix x assume x: "x \<in> set (Q q)" "x \<in> set (Q q')"
  then have "x \<in> T" using queues_okD(2) [OF assms(1,2)] by auto
  then have "wqueueT s x = q" "wqueueT s x = q'"
    using x queues_okD(3) [OF assms(1,2)] queues_okD(3) [OF assms(1,3)] by auto
  with assms(4) show False by simp
qed

lemma valid_q_nonnull: "valid_q T q \<Longrightarrow> q \<noteq> QNull"
  by auto

lemma want_prio_eff:
  assumes "queues_ok s T Q" "t \<in> T"
  shows "want_prio s t = eff_prio s Q t"
proof -
  have "qlist s (QWaiters t) (Q (QWaiters t))" using assms by (auto simp: queues_ok_def)
  then have "q_next (waitersT s t) = (case Q (QWaiters t) of [] \<Rightarrow> NULL | x # _ \<Rightarrow> x)"
    by (auto simp: qlist_def dest: dseg_hd)
  moreover have "w \<noteq> NULL" if "Q (QWaiters t) = w # ws" for w ws
    using \<open>qlist s (QWaiters t) (Q (QWaiters t))\<close> that by (auto simp: qlist_def dest: dseg_nonnull)
  ultimately show ?thesis
    by (auto simp: want_prio_def eff_prio_def Let_def min_def split: list.splits)
qed

section \<open>Queue primitives under the invariant\<close>

lemma queues_insert:
  assumes ok: "queues_ok s T Q" and q: "valid_q T q" and t: "t \<in> T" "t \<noteq> NULL" "wqueueT s t = QNull"
  shows "\<exists>s'. KThrQueueInsert q t s = Some s' \<and>
           queues_ok s' T (Q(q := ins_after (\<lambda>p. prioT s p \<le> prioT s t) t (Q q))) \<and>
           qframe s s' \<and> wqueueT s' = (wqueueT s)(t := q)"
proof -
  let ?xs = "ins_after (\<lambda>p. prioT s p \<le> prioT s t) t (Q q)"
  have nin: "t \<notin> set (Q q')" if "valid_q T q'" for q'
    using queues_okD(3) [OF ok that t(1)] t(3) that by auto
  obtain s' where s': "KThrQueueInsert q t s = Some s'" "qlist s' q ?xs" "qframe s s'"
      "wqueueT s' = (wqueueT s)(t := q)"
      "\<forall>q' ys. q' \<noteq> q \<longrightarrow> set ys \<inter> insert t (set (Q q)) = {} \<longrightarrow> qlist s' q' ys = qlist s q' ys"
    using KThrQueueInsert_list [OF queues_okD(1) [OF ok q] valid_q_nonnull [OF q] nin [OF q] t(2)]
    by blast
  have "queues_ok s' T (Q(q := ?xs))"
    unfolding queues_ok_def
  proof (intro conjI allI impI ballI)
    fix q' assume v: "valid_q T q'"
    show "qlist s' q' ((Q(q := ?xs)) q')"
    proof (cases "q' = q")
      case False
      have "set (Q q') \<inter> insert t (set (Q q)) = {}"
        using queues_disjoint [OF ok v q False] nin [OF v] by auto
      then show ?thesis using s'(5) False queues_okD(1) [OF ok v] by simp
    qed (use s'(2) in simp)
    show "set ((Q(q := ?xs)) q') \<subseteq> T" using queues_okD(2) [OF ok v] queues_okD(2) [OF ok q] t(1) by auto
  next
    fix u q' assume u: "u \<in> T" and v: "valid_q T q'"
    show "u \<in> set ((Q(q := ?xs)) q') \<longleftrightarrow> wqueueT s' u = q'"
      using queues_okD(3) [OF ok v u] queues_okD(3) [OF ok q u] s'(4) t(3) v nin [OF v]
      by auto
  next
    fix u assume "u \<in> T"
    then show "wqueueT s' u = QNull \<or> valid_q T (wqueueT s' u)"
      using ok q s'(4) by (auto simp: queues_ok_def)
  qed
  with s' show ?thesis by blast
qed

lemma queues_remove:
  assumes ok: "queues_ok s T Q" and q: "valid_q T q" and t: "t \<in> T" "wqueueT s t = q"
  shows "queues_ok (KThrQueueRemove q t s) T (Q(q := remove1 t (Q q))) \<and>
         qframe s (KThrQueueRemove q t s) \<and>
         wqueueT (KThrQueueRemove q t s) = (wqueueT s)(t := QNull) \<and>
         (\<forall>u. u \<notin> set (Q q) \<longrightarrow> lnextT (KThrQueueRemove q t s) u = lnextT s u)"
proof -
  define s' where "s' = KThrQueueRemove q t s"
  have tin: "t \<in> set (Q q)" using queues_okD(3) [OF ok q t(1)] t(2) by simp
  have d: "distinct (Q q)" using queues_okD(1) [OF ok q] by (rule qlist_distinct)
  have s': "qlist s' q (remove1 t (Q q))" "qframe s s'" "wqueueT s' = (wqueueT s)(t := QNull)"
      "\<forall>q' ys. q' \<noteq> q \<longrightarrow> set ys \<inter> set (Q q) = {} \<longrightarrow> qlist s' q' ys = qlist s q' ys"
      "\<forall>u. u \<notin> set (Q q) \<longrightarrow> lnextT s' u = lnextT s u"
    using KThrQueueRemove_list [OF queues_okD(1) [OF ok q] valid_q_nonnull [OF q] tin t(2)]
    unfolding s'_def by blast+
  have "queues_ok s' T (Q(q := remove1 t (Q q)))"
    unfolding queues_ok_def
  proof (intro conjI allI impI ballI)
    fix q' assume v: "valid_q T q'"
    show "qlist s' q' ((Q(q := remove1 t (Q q))) q')"
    proof (cases "q' = q")
      case False
      then show ?thesis
        using s'(4) queues_disjoint [OF ok v q False] queues_okD(1) [OF ok v] by simp
    qed (use s'(1) in simp)
    show "set ((Q(q := remove1 t (Q q))) q') \<subseteq> T"
      using queues_okD(2) [OF ok v] queues_okD(2) [OF ok q] d by auto
  next
    fix u q' assume u: "u \<in> T" and v: "valid_q T q'"
    show "u \<in> set ((Q(q := remove1 t (Q q))) q') \<longleftrightarrow> wqueueT s' u = q'"
      using queues_okD(3) [OF ok v u] queues_okD(3) [OF ok q u] s'(3) t v d
      by auto
  next
    fix u assume "u \<in> T"
    then show "wqueueT s' u = QNull \<or> valid_q T (wqueueT s' u)"
      using ok s'(3) by (auto simp: queues_ok_def)
  qed
  with s' show ?thesis by (simp add: s'_def)
qed

lemma queues_ok_cong:
  assumes "lnextT s' = lnextT s" "lprevT s' = lprevT s" "getq s' = getq s" "wqueueT s' = wqueueT s"
  shows "queues_ok s' T Q = queues_ok s T Q"
  using assms by (simp add: queues_ok_def qlist_def)

end
