(* ===== verification/KPrio.thy ===== *)
theory KPrio
  imports KInv
begin

text \<open>
  Correctness of the priority inheritance walk \<open>KThreadUpdateDynamicPrio\<close>: started at a thread whose
  priority may be stale while every other thread's is right, it terminates when the wait-for chain
  has no cycle, restores the priority of every thread and keeps all lists ordered.
\<close>

section \<open>Moving one thread to a new priority\<close>

definition uframe :: "kstate \<Rightarrow> kstate \<Rightarrow> bool" where
  "uframe s s' \<longleftrightarrow> gframe s s' \<and> stateT s' = stateT s \<and> suspendT s' = suspendT s \<and>
     basepT s' = basepT s \<and> tokenT s' = tokenT s \<and> wqueueT s' = wqueueT s"

lemma uframe_refl [simp]: "uframe s s" by (simp add: uframe_def)

lemma uframe_trans: "uframe s s' \<Longrightarrow> uframe s' s'' \<Longrightarrow> uframe s s''"
  by (auto simp: uframe_def intro: gframe_trans)

lemma gframe_set [simp]:
  "gframe s (set_prio t p s') = gframe s s'" "gframe (set_prio t p s) s' = gframe s s'"
  by (simp_all add: gframe_def)

lemma thread_list_reprio:
  assumes l: "thread_list s L" and t: "t \<in> set L"
  shows "\<exists>s1 s2 L'. KThreadDequeue t s = Some s1 \<and> KThreadEnqueue t (set_prio t p s1) = Some s2 \<and>
     thread_list s2 L' \<and> mset L' = mset L \<and>
     (sorted_by (prioT s) L \<longrightarrow> sorted_by ((prioT s)(t := p)) L') \<and>
     prioT s2 = (prioT s)(t := p) \<and> uframe s s2 \<and>
     lnextT s2 = lnextT s \<and> lprevT s2 = lprevT s \<and> getq s2 = getq s"
proof -
  have tn: "t \<noteq> NULL" using l t by (rule thread_list_nonnull)
  have d: "distinct L" using l by (rule thread_list_distinct)
  obtain s1 where s1: "KThreadDequeue t s = Some s1" "thread_list s1 (remove1 t L)" "gframe s s1"
      "stateT s1 = stateT s" "suspendT s1 = suspendT s" "prioT s1 = prioT s" "basepT s1 = basepT s"
      "tokenT s1 = tokenT s" "wqueueT s1 = wqueueT s" "lnextT s1 = lnextT s" "lprevT s1 = lprevT s"
      "getq s1 = getq s"
    using KThreadDequeue_list [OF l tn] by blast
  let ?s1 = "set_prio t p s1"
  let ?L = "ins_after (\<lambda>y. prioT ?s1 y \<le> prioT ?s1 t) t (remove1 t L)"
  have "thread_list ?s1 (remove1 t L)" using s1(2) by (simp add: thread_list_def)
  moreover have "t \<notin> set (remove1 t L)" using d by simp
  ultimately obtain s2 where s2: "KThreadEnqueue t ?s1 = Some s2" "thread_list s2 ?L" "gframe ?s1 s2"
      "stateT s2 = stateT ?s1" "suspendT s2 = suspendT ?s1" "prioT s2 = prioT ?s1"
      "basepT s2 = basepT ?s1" "tokenT s2 = tokenT ?s1" "wqueueT s2 = wqueueT ?s1"
      "lnextT s2 = lnextT ?s1" "lprevT s2 = lprevT ?s1" "getq s2 = getq ?s1"
    using KThreadEnqueue_list [of ?s1 "remove1 t L" t] tn by blast
  have "mset ?L = mset L" using t by simp
  moreover have "sorted_by ((prioT s)(t := p)) ?L" if "sorted_by (prioT s) L"
  proof -
    have "sorted_by (prioT s) (remove1 t L)" using that by (rule sorted_wrt_remove1)
    then have "sorted_by ((prioT s)(t := p)) (remove1 t L)"
      using d by (subst sorted_by_cong [where l = "prioT s"]) auto
    then have "sorted_by ((prioT s)(t := p))
        (ins_after (\<lambda>y. ((prioT s)(t := p)) y \<le> ((prioT s)(t := p)) t) t (remove1 t L))"
      by (rule sorted_by_ins_after)
    then show ?thesis using s1(6) by simp
  qed
  moreover have "getq s2 = getq s" using s2(12) s1(12) by (simp add: fun_eq_iff)
  ultimately show ?thesis using s1 s2
    by (intro exI [of _ s1] exI [of _ s2] exI [of _ ?L])
      (auto simp: uframe_def intro: gframe_trans)
qed

text \<open>The thread's place in the queue it waits in follows its new priority.\<close>

lemma queue_reprio:
  assumes ok: "queues_ok s T Q" and t: "t \<in> T" "t \<noteq> NULL" and q: "q = wqueueT s t" "valid_q T q"
    and srt: "sorted_by k (Q q)" "prioT s = k(t := p)"
  shows "\<exists>s'. KThrQueueInsert q t (KThrQueueRemove q t s) = Some s' \<and>
     (let ys = ins_after (\<lambda>x. prioT s x \<le> prioT s t) t (remove1 t (Q q)) in
      queues_ok s' T (Q(q := ys)) \<and> sorted_by (prioT s) ys \<and> mset ys = mset (Q q)) \<and>
     uframe s s' \<and> prioT s' = prioT s \<and> s_firstThread s' = s_firstThread s \<and> nextT s' = nextT s"
proof -
  let ?s1 = "KThrQueueRemove q t s"
  let ?Q1 = "Q(q := remove1 t (Q q))"
  have tin: "t \<in> set (Q q)" using queues_okD(3) [OF ok q(2) t(1)] q(1) by simp
  have d: "distinct (Q q)" using queues_okD(1) [OF ok q(2)] by (rule qlist_distinct)
  have s1: "queues_ok ?s1 T ?Q1" "qframe s ?s1" "wqueueT ?s1 = (wqueueT s)(t := QNull)"
    using queues_remove [OF ok q(2) t(1) q(1) [symmetric]] by auto
  obtain s' where s': "KThrQueueInsert q t ?s1 = Some s'"
      "queues_ok s' T (?Q1(q := ins_after (\<lambda>x. prioT ?s1 x \<le> prioT ?s1 t) t (?Q1 q)))"
      "qframe ?s1 s'" "wqueueT s' = (wqueueT ?s1)(t := q)"
    using queues_insert [OF s1(1) q(2) t] s1(3) by auto
  have pr: "prioT ?s1 = prioT s" using s1(2) by (simp add: qframe_def)
  let ?ys = "ins_after (\<lambda>x. prioT s x \<le> prioT s t) t (remove1 t (Q q))"
  have "queues_ok s' T (Q(q := ?ys))" using s'(2) by (simp add: pr)
  moreover have "sorted_by (prioT s) ?ys"
  proof (rule sorted_by_ins_after)
    have "sorted_by k (remove1 t (Q q))" using srt(1) by (rule sorted_wrt_remove1)
    then show "sorted_by (prioT s) (remove1 t (Q q))"
      using d srt(2) by (subst sorted_by_cong [where l = k]) auto
  qed
  moreover have "mset ?ys = mset (Q q)" using tin by simp
  moreover have "qframe s s'" using s1(2) s'(3) by (rule qframe_trans)
  moreover have "wqueueT s' = wqueueT s" using s'(4) s1(3) q(1) by (simp add: fun_eq_iff)
  ultimately show ?thesis using s'(1) by (simp add: uframe_def qframe_def Let_def)
qed

section \<open>The walk\<close>

definition wait_rank :: "kstate \<Rightarrow> ptr set \<Rightarrow> (ptr \<Rightarrow> nat) \<Rightarrow> bool" where
  "wait_rank s T rank \<longleftrightarrow> (\<forall>u\<in>T. \<forall>p. wqueueT s u = QWaiters p \<longrightarrow> rank p < rank u)"

lemma eff_prio_cong:
  assumes "Q' (QWaiters u) = Q (QWaiters u)" "basepT s' u = basepT s u"
    and "\<And>x. x \<in> set (Q (QWaiters u)) \<Longrightarrow> prioT s' x = prioT s x"
  shows "eff_prio s' Q' u = eff_prio s Q u"
  using assms by (auto simp: eff_prio_def split: list.splits)

lemma state_ok_cong:
  assumes "uframe s s'"
  shows "state_ok s' t = state_ok s t"
  using assms by (simp add: state_ok_def uframe_def)

lemma mutex_ok_cong: "uframe s s' \<Longrightarrow> mutex_ok s' T = mutex_ok s T"
  by (simp add: mutex_ok_def uframe_def gframe_def)

text \<open>One turn of the walk, at a thread that is in no queue.\<close>

lemma update_prio_unqueued:
  assumes kw: "kwf s L Q" and t: "t \<in> set L" "wqueueT s t = QNull"
    and ne: "prioT s t \<noteq> eff_prio s Q t"
  shows "\<exists>s' L'. KThreadUpdateDynamicPrio t s = Some s' \<and> kwf s' L' Q \<and> mset L' = mset L \<and>
     uframe s s' \<and> prioT s' = (prioT s)(t := eff_prio s Q t)"
proof -
  let ?p = "eff_prio s Q t"
  have ok: "queues_ok s (set L) Q" and l: "thread_list s L" and srt: "sorted_by (prioT s) L"
    and sq: "\<And>q. valid_q (set L) q \<Longrightarrow> sorted_by (prioT s) (Q q)"
    and st: "\<And>u. u \<in> set L \<Longrightarrow> state_ok s u"
    using kw by (auto simp: kwf_def)
  have wp: "want_prio s t = ?p" using want_prio_eff [OF ok t(1)] .
  obtain s1 s2 L' where s2: "KThreadDequeue t s = Some s1" "KThreadEnqueue t (set_prio t ?p s1) = Some s2"
      "thread_list s2 L'" "mset L' = mset L" "sorted_by ((prioT s)(t := ?p)) L'"
      "prioT s2 = (prioT s)(t := ?p)" "uframe s s2"
      "lnextT s2 = lnextT s" "lprevT s2 = lprevT s" "getq s2 = getq s"
    using thread_list_reprio [OF l t(1), of ?p] srt by blast
  have wq: "wqueueT s2 = wqueueT s" using s2(7) by (simp add: uframe_def)
  have run: "KThreadUpdateDynamicPrio t s = Some s2"
    by (subst KThreadUpdateDynamicPrio.simps) (use s2(1,2) wp ne t(2) wq in simp)
  have set_eq: "set L' = set L" using s2(4) by (metis set_mset_mset)
  have "queues_ok s2 (set L) Q" using ok queues_ok_cong [OF s2(8,9,10) wq] by simp
  moreover have "sorted_by (prioT s2) (Q q)" if "valid_q (set L) q" for q
  proof -
    have "t \<notin> set (Q q)" using queues_okD(3) [OF ok that t(1)] t(2) that by auto
    then show ?thesis using sq [OF that] s2(6)
      by (subst sorted_by_cong [where l = "prioT s"]) auto
  qed
  moreover have "state_ok s2 u" if "u \<in> set L" for u
    using st [OF that] state_ok_cong [OF s2(7)] by simp
  ultimately have "kwf s2 L' Q" using s2(3,5,6) set_eq by (simp add: kwf_def)
  then show ?thesis using run s2 by blast
qed

text \<open>One turn of the walk, at a thread that waits in a queue, up to the next thread of the chain.\<close>

lemma update_prio_queued:
  assumes kw: "kwf s L Q" and t: "t \<in> set L" "wqueueT s t = q" "q \<noteq> QNull"
    and ne: "prioT s t \<noteq> eff_prio s Q t"
  shows "\<exists>s' L' ys. KThreadUpdateDynamicPrio t s =
       (if stateT s t \<noteq> KTHR_STATE_WAITING_MUTEX then Some s'
        else KThreadUpdateDynamicPrio (mutex_owner s (tokenT s t)) s') \<and>
     kwf s' L' (Q(q := ys)) \<and> mset L' = mset L \<and> mset ys = mset (Q q) \<and> uframe s s' \<and>
     prioT s' = (prioT s)(t := eff_prio s Q t)"
proof -
  let ?p = "eff_prio s Q t"
  have ok: "queues_ok s (set L) Q" and l: "thread_list s L" and srt: "sorted_by (prioT s) L"
    and sq: "\<And>q. valid_q (set L) q \<Longrightarrow> sorted_by (prioT s) (Q q)"
    and st: "\<And>u. u \<in> set L \<Longrightarrow> state_ok s u"
    using kw by (auto simp: kwf_def)
  have tn: "t \<noteq> NULL" using kw t(1) by (rule kwf_nonnull)
  have vq: "valid_q (set L) q" using ok t by (auto simp: queues_ok_def)
  have nrun: "stateT s t \<noteq> KTHR_STATE_RUNNING" using st [OF t(1)] t(2,3) by (auto simp: state_ok_iff)
  have wp: "want_prio s t = ?p" using want_prio_eff [OF ok t(1)] .
  obtain s1 s2 L' where s2: "KThreadDequeue t s = Some s1" "KThreadEnqueue t (set_prio t ?p s1) = Some s2"
      "thread_list s2 L'" "mset L' = mset L" "sorted_by ((prioT s)(t := ?p)) L'"
      "prioT s2 = (prioT s)(t := ?p)" "uframe s s2"
      "lnextT s2 = lnextT s" "lprevT s2 = lprevT s" "getq s2 = getq s"
    using thread_list_reprio [OF l t(1), of ?p] srt by blast
  have wq: "wqueueT s2 = wqueueT s" using s2(7) by (simp add: uframe_def)
  have ok2: "queues_ok s2 (set L) Q" using ok queues_ok_cong [OF s2(8,9,10) wq] by simp
  obtain s3 ys where s3: "KThrQueueInsert q t (KThrQueueRemove q t s2) = Some s3"
      "queues_ok s3 (set L) (Q(q := ys))" "sorted_by (prioT s2) ys" "mset ys = mset (Q q)"
      "uframe s2 s3" "prioT s3 = prioT s2" "s_firstThread s3 = s_firstThread s2" "nextT s3 = nextT s2"
    using queue_reprio [OF ok2 t(1) tn _ vq sq [OF vq] s2(6)] wq t(2) by (auto simp: Let_def)
  have u: "uframe s s3" using s2(7) s3(5) by (rule uframe_trans)
  have same: "stateT s2 = stateT s" "stateT s3 = stateT s" "tokenT s3 = tokenT s"
      "mutex_owner s3 = mutex_owner s"
    using s2(7) u by (simp_all add: uframe_def gframe_def)
  have run: "KThreadUpdateDynamicPrio t s =
       (if stateT s t \<noteq> KTHR_STATE_WAITING_MUTEX then Some s3
        else KThreadUpdateDynamicPrio (mutex_owner s (tokenT s t)) s3)"
    by (subst KThreadUpdateDynamicPrio.simps) (use s2(1,2) s3(1) wp ne t(2,3) wq nrun same in simp)
  have set_eq: "set L' = set L" using s2(4) by (metis set_mset_mset)
  have pr: "prioT s3 = (prioT s)(t := ?p)" using s3(6) s2(6) by simp
  have "sorted_by (prioT s3) ((Q(q := ys)) q')" if v: "valid_q (set L) q'" for q'
  proof (cases "q' = q")
    case True
    then show ?thesis using s3(3,6) by simp
  next
    case False
    then have "t \<notin> set (Q q')" using queues_okD(3) [OF ok v t(1)] t(2) by auto
    then have "sorted_by (prioT s3) (Q q') = sorted_by (prioT s) (Q q')"
      using pr by (intro sorted_by_cong) auto
    then show ?thesis using sq [OF v] False by simp
  qed
  moreover have "thread_list s3 L'" using s2(3) s3(7,8) by (simp add: thread_list_def)
  moreover have "state_ok s3 v" if "v \<in> set L" for v
    using st [OF that] state_ok_cong [OF u] by simp
  ultimately have "kwf s3 L' (Q(q := ys))" using s3(2) s2(5) pr set_eq by (simp add: kwf_def)
  then show ?thesis using run s2(4) s3(4) u pr by blast
qed

text \<open>The inherited priority is the least of the thread's own and its waiters'.\<close>

lemma eff_prio_ge:
  assumes "sorted_by (prioT s) (Q (QWaiters t))"
  shows "c \<le> eff_prio s Q t \<longleftrightarrow> c \<le> basepT s t \<and> (\<forall>x\<in>set (Q (QWaiters t)). c \<le> prioT s x)"
  using assms by (auto simp: eff_prio_def split: list.splits intro: order_trans)

lemma prio_ok_step:
  assumes ok: "queues_ok s (set L) Q" and t: "t \<in> set L"
    and oth: "\<And>u. u \<in> set L \<Longrightarrow> u \<noteq> t \<Longrightarrow> prioT s u = eff_prio s Q u"
    and bp: "basepT s' = basepT s" and pr: "prioT s' = (prioT s)(t := eff_prio s Q t)"
    and nself: "wqueueT s t \<noteq> QWaiters t"
    and u: "u \<in> set L" "wqueueT s t \<noteq> QWaiters u" and Q: "Q' (QWaiters u) = Q (QWaiters u)"
  shows "prioT s' u = eff_prio s' Q' u"
proof -
  have "t \<notin> set (Q (QWaiters u))" using queues_okD(3) [OF ok, of "QWaiters u" t] u t by simp
  then have "eff_prio s' Q' u = eff_prio s Q u"
    using bp pr Q by (intro eff_prio_cong) auto
  then show ?thesis using oth [OF u(1)] pr by simp
qed

definition prio_updated ::
    "ptr \<Rightarrow> kstate \<Rightarrow> ptr list \<Rightarrow> (qptr \<Rightarrow> ptr list) \<Rightarrow> kstate \<Rightarrow> ptr list \<Rightarrow> (qptr \<Rightarrow> ptr list) \<Rightarrow> bool" where
  "prio_updated t s L Q s' L' Q' \<longleftrightarrow> kinv s' L' Q' \<and> mset L' = mset L \<and>
     (\<forall>q. mset (Q' q) = mset (Q q)) \<and> uframe s s' \<and>
     (eff_prio s Q t \<le> prioT s t \<longrightarrow> (\<forall>u. prioT s' u \<le> prioT s u)) \<and>
     ((\<forall>p. wqueueT s t \<noteq> QWaiters p) \<longrightarrow> prioT s' = (prioT s)(t := eff_prio s Q t)) \<and>
     (wqueueT s t = QNull \<longrightarrow> Q' = Q)"

theorem update_prio:
  assumes "kwf s L Q" "mutex_ok s (set L)" "t \<in> set L" "wait_rank s (set L) rank"
    and "\<And>u. u \<in> set L \<Longrightarrow> u \<noteq> t \<Longrightarrow> prioT s u = eff_prio s Q u"
  shows "\<exists>s' L' Q'. KThreadUpdateDynamicPrio t s = Some s' \<and> prio_updated t s L Q s' L' Q'"
  using assms
proof (induction "rank t" arbitrary: t s L Q rule: less_induct)
  case less
  note kw = less.prems(1) and mx = less.prems(2) and t = less.prems(3) and rk = less.prems(4)
    and oth = less.prems(5)
  have ok: "queues_ok s (set L) Q" using kw by (simp add: kwf_def)
  have nself: "wqueueT s t \<noteq> QWaiters t" using rk t by (auto simp: wait_rank_def)
  show ?case
  proof (cases "prioT s t = eff_prio s Q t")
    case True
    have "prio_ok s Q (set L)" using oth True by (auto simp: prio_ok_def)
    moreover have "KThreadUpdateDynamicPrio t s = Some s"
      by (subst KThreadUpdateDynamicPrio.simps) (use want_prio_eff [OF ok t] True in simp)
    ultimately show ?thesis using kw mx True
      by (intro exI [of _ s] exI [of _ L] exI [of _ Q]) (auto simp: kinv_def prio_updated_def)
  next
    case ne: False
    show ?thesis
    proof (cases "wqueueT s t")
      case QNull
      obtain s' L' where s': "KThreadUpdateDynamicPrio t s = Some s'" "kwf s' L' Q" "mset L' = mset L"
          "uframe s s'" "prioT s' = (prioT s)(t := eff_prio s Q t)"
        using update_prio_unqueued [OF kw t QNull ne] by blast
      have set_eq: "set L' = set L" using s'(3) by (metis set_mset_mset)
      have "prio_ok s' Q (set L)" unfolding prio_ok_def
        using prio_ok_step [OF ok t oth _ s'(5) nself, of _ Q] s'(4) QNull by (auto simp: uframe_def)
      then have "kinv s' L' Q" using s'(2) mutex_ok_cong [OF s'(4)] mx set_eq by (simp add: kinv_def)
      then show ?thesis using s' by (auto simp: prio_updated_def)
    next
      case (QStatic k)
      obtain s' L' ys where s': "KThreadUpdateDynamicPrio t s =
            (if stateT s t \<noteq> KTHR_STATE_WAITING_MUTEX then Some s'
             else KThreadUpdateDynamicPrio (mutex_owner s (tokenT s t)) s')"
          "kwf s' L' (Q(QStatic k := ys))" "mset L' = mset L" "mset ys = mset (Q (QStatic k))"
          "uframe s s'" "prioT s' = (prioT s)(t := eff_prio s Q t)"
        using update_prio_queued [OF kw t QStatic _ ne] by auto
      have set_eq: "set L' = set L" using s'(3) by (metis set_mset_mset)
      have "state_ok s t" using kw t by (auto simp: kwf_def)
      then have "stateT s t \<noteq> KTHR_STATE_WAITING_MUTEX" using QStatic by (simp add: state_ok_iff)
      moreover have "prio_ok s' (Q(QStatic k := ys)) (set L)" unfolding prio_ok_def
        using prio_ok_step [OF ok t oth _ s'(6) nself, of _ "Q(QStatic k := ys)"] s'(5) QStatic
        by (auto simp: uframe_def)
      then have "kinv s' L' (Q(QStatic k := ys))"
        using s'(2) mutex_ok_cong [OF s'(5)] mx set_eq by (simp add: kinv_def)
      ultimately show ?thesis using s' QStatic
        by (intro exI [of _ s'] exI [of _ L'] exI [of _ "Q(QStatic k := ys)"])
          (auto simp: prio_updated_def)
    next
      case (QWaiters p)
      let ?q = "QWaiters p"
      obtain s1 L1 ys where s1: "KThreadUpdateDynamicPrio t s =
            (if stateT s t \<noteq> KTHR_STATE_WAITING_MUTEX then Some s1
             else KThreadUpdateDynamicPrio (mutex_owner s (tokenT s t)) s1)"
          "kwf s1 L1 (Q(?q := ys))" "mset L1 = mset L" "mset ys = mset (Q ?q)"
          "uframe s s1" "prioT s1 = (prioT s)(t := eff_prio s Q t)"
        using update_prio_queued [OF kw t QWaiters _ ne] by auto
      let ?Q1 = "Q(?q := ys)"
      have set_eq: "set L1 = set L" and ys_eq: "set ys = set (Q ?q)"
        using s1(3,4) by (metis set_mset_mset)+
      have "state_ok s t" using kw t by (auto simp: kwf_def)
      then have run: "KThreadUpdateDynamicPrio t s = KThreadUpdateDynamicPrio p s1"
        using s1(1) QWaiters mx t by (auto simp: state_ok_iff mutex_ok_def)
      have p: "p \<in> set L" "rank p < rank t" "p \<noteq> t"
        using ok rk t QWaiters by (auto simp: queues_ok_def wait_rank_def)
      have oth1: "prioT s1 u = eff_prio s1 ?Q1 u" if "u \<in> set L" "u \<noteq> p" for u
        using prio_ok_step [OF ok t oth _ s1(6) nself that(1), of ?Q1] that s1(5) QWaiters
        by (auto simp: uframe_def)
      have rk1: "wait_rank s1 (set L1) rank" using rk s1(5) set_eq by (simp add: wait_rank_def uframe_def)
      have mx1: "mutex_ok s1 (set L1)" using mutex_ok_cong [OF s1(5)] mx set_eq by simp
      obtain s' L' Q' where s': "KThreadUpdateDynamicPrio p s1 = Some s'" "prio_updated p s1 L1 ?Q1 s' L' Q'"
        using less.hyps [OF p(2) s1(2) mx1 _ rk1] p(1) set_eq oth1 by auto
      have mono: "\<forall>u. prioT s' u \<le> prioT s u" if le: "eff_prio s Q t \<le> prioT s t"
      proof -
        have le1: "prioT s1 u \<le> prioT s u" for u using s1(6) le by simp
        have srt: "sorted_by (prioT s) (Q ?q)" "sorted_by (prioT s1) (?Q1 ?q)"
          using kw s1(2) p(1) set_eq unfolding kwf_def by (metis valid_q.simps(3))+
        have "eff_prio s1 ?Q1 p \<le> eff_prio s Q p"
          unfolding eff_prio_ge [of s Q p, OF srt(1)]
          using eff_prio_ge [of s1 ?Q1 p, OF srt(2), of "eff_prio s1 ?Q1 p"] s1(5) ys_eq le1
          by (auto simp: uframe_def intro: order_trans)
        then have "eff_prio s1 ?Q1 p \<le> prioT s1 p" using oth [OF p(1,3)] s1(6) p(3) by simp
        then show ?thesis using s'(2) le1 by (auto simp: prio_updated_def intro: order_trans)
      qed
      have "uframe s s'" using s1(5) s'(2) by (auto simp: prio_updated_def intro: uframe_trans)
      moreover have "mset (Q' q) = mset (Q q)" for q
        using s'(2) s1(4) by (auto simp: prio_updated_def)
      ultimately show ?thesis using run s' s1(3) mono QWaiters
        by (intro exI [of _ s'] exI [of _ L'] exI [of _ Q']) (auto simp: prio_updated_def)
    qed
  qed
qed

end
