(* ===== verification/KSched.thy ===== *)
theory KSched
  imports KPrio
begin

text \<open>
  The scheduling invariant: besides \<open>kinv\<close>, the thread that runs (or that the pending exception
  return will run) is runnable and no runnable thread is more urgent. This theory has the parts
  the operations share: the context switch, rescheduling, and what they leave alone.
\<close>

section \<open>Context changes\<close>

text \<open>\<open>cframe s s'\<close>: only registers and saved contexts differ.\<close>

definition cframe :: "kstate \<Rightarrow> kstate \<Rightarrow> bool" where
  "cframe s s' \<longleftrightarrow> s_firstThread s' = s_firstThread s \<and> nextT s' = nextT s \<and> stateT s' = stateT s \<and>
     suspendT s' = suspendT s \<and> prioT s' = prioT s \<and> basepT s' = basepT s \<and> tokenT s' = tokenT s \<and>
     wqueueT s' = wqueueT s \<and> lnextT s' = lnextT s \<and> lprevT s' = lprevT s \<and> getq s' = getq s \<and>
     mutex_owner s' = mutex_owner s"

lemma cframe_refl [simp]: "cframe s s" by (simp add: cframe_def)

lemma cframe_trans: "cframe s s' \<Longrightarrow> cframe s' s'' \<Longrightarrow> cframe s s''"
  by (simp add: cframe_def)

lemma cframe_sym: "cframe s s' \<Longrightarrow> cframe s' s"
  by (simp add: cframe_def)

lemma cframe_kwf: "cframe s s' \<Longrightarrow> kwf s' L Q = kwf s L Q"
  by (simp add: cframe_def kwf_def thread_list_def queues_ok_def qlist_def state_ok_def)

lemma cframe_kinv: "cframe s s' \<Longrightarrow> kinv s' L Q = kinv s L Q"
  by (simp add: kinv_def cframe_kwf)
    (simp add: cframe_def mutex_ok_def prio_ok_def eff_prio_def cong: list.case_cong)

text \<open>No cycle of threads waiting for each other's mutexes (a deadlock).\<close>

definition wait_acyclic :: "kstate \<Rightarrow> ptr set \<Rightarrow> bool" where
  "wait_acyclic s T \<longleftrightarrow> (\<exists>rank. wait_rank s T rank)"

lemma wait_acyclic_cong: "wqueueT s' = wqueueT s \<Longrightarrow> wait_acyclic s' T = wait_acyclic s T"
  by (simp add: wait_acyclic_def wait_rank_def)

lemma wait_acyclic_keep: "wait_acyclic s T \<Longrightarrow> wqueueT s' = wqueueT s \<Longrightarrow> wait_acyclic s' T"
  using wait_acyclic_cong by blast

lemma cframe_rank: "cframe s s' \<Longrightarrow> wait_acyclic s' T = wait_acyclic s T"
  by (rule wait_acyclic_cong) (simp add: cframe_def)

lemma cframe_globals [simp]:
  "cframe s (msr_update f s)" "cframe s (sprg2_update g s)" "cframe s (ppc_next_ctx_update g s)"
  "cframe s (set_ctx t h s)"
  by (simp_all add: cframe_def fun_eq_iff)

lemma lock_cframe [simp]: "cframe s (snd (PPCIrqLockByMsr s))"
  by (simp add: PPCIrqLockByMsr_def)

lemma unlock_cframe [simp]: "cframe s (PPCIrqUnlockByMsr st s)"
  by (simp add: PPCIrqUnlockByMsr_def)

lemma prepare_cframe [simp]: "cframe s (PPCContextPrepareToJump r st s)"
  by (simp add: PPCContextPrepareToJump_def Let_def cframe_def fun_eq_iff)

lemma jump_cframe [simp]: "cframe s (PPCContextJump t s)"
  by (simp add: PPCContextJump_def cframe_def fun_eq_iff)

section \<open>Interrupt locking keeps the exception flag\<close>

lemma MSR_disjoint: "MSR_EE AND MSR_RI = 0" "MSR_FP AND MSR_RI = 0" "MSR_EE AND MSR_FP = 0"
  by (simp_all add: MSR_defs)

lemma MSR_RI_keep:
  "(m AND NOT MSR_EE AND NOT MSR_FP) AND MSR_RI = m AND MSR_RI"
  "((m AND NOT MSR_EE) OR (m' AND MSR_EE)) AND MSR_RI = m AND MSR_RI"
proof -
  have a: "NOT MSR_FP AND MSR_RI = MSR_RI" "NOT MSR_EE AND MSR_RI = MSR_RI"
    by (simp_all add: MSR_defs)
  show "(m AND NOT MSR_EE AND NOT MSR_FP) AND MSR_RI = m AND MSR_RI"
    by (simp only: and.assoc a)
  show "((m AND NOT MSR_EE) OR (m' AND MSR_EE)) AND MSR_RI = m AND MSR_RI"
    by (simp only: bit.conj_disj_distrib2 and.assoc a MSR_disjoint) simp
qed

lemma lock_excpt [simp]: "PPCIsInExcpt (snd (PPCIrqLockByMsr s)) = PPCIsInExcpt s"
  by (simp add: PPCIsInExcpt_def PPCIrqLockByMsr_def MSR_RI_keep)

lemma unlock_excpt [simp]: "PPCIsInExcpt (PPCIrqUnlockByMsr (m AND MSR_EE) s) = PPCIsInExcpt s"
  by (simp add: PPCIsInExcpt_def PPCIrqUnlockByMsr_def MSR_RI_keep)

lemma excpt_msr: "msr s' = msr s \<Longrightarrow> PPCIsInExcpt s' = PPCIsInExcpt s"
  by (simp add: PPCIsInExcpt_def)

lemma excpt_set [simp]:
  "PPCIsInExcpt (set_next t v s) = PPCIsInExcpt s" "PPCIsInExcpt (set_state t a s) = PPCIsInExcpt s"
  "PPCIsInExcpt (set_suspend t u s) = PPCIsInExcpt s" "PPCIsInExcpt (set_prio t u s) = PPCIsInExcpt s"
  "PPCIsInExcpt (set_basep t u s) = PPCIsInExcpt s" "PPCIsInExcpt (set_waiters t w s) = PPCIsInExcpt s"
  "PPCIsInExcpt (set_lnext t v s) = PPCIsInExcpt s" "PPCIsInExcpt (set_lprev t v s) = PPCIsInExcpt s"
  "PPCIsInExcpt (set_wqueue t q s) = PPCIsInExcpt s" "PPCIsInExcpt (set_token t v s) = PPCIsInExcpt s"
  "PPCIsInExcpt (set_ctx t f s) = PPCIsInExcpt s" "PPCIsInExcpt (ppc_next_ctx_update g s) = PPCIsInExcpt s"
  "PPCIsInExcpt (sprg2_update g s) = PPCIsInExcpt s" "PPCIsInExcpt (mutex_owner_update h s) = PPCIsInExcpt s"
  by (simp_all add: PPCIsInExcpt_def)

section \<open>Switching and rescheduling\<close>

text \<open>
  \<open>least_run s L t\<close>: \<open>t\<close> is a runnable thread and none is more urgent. \<open>runnable s L t\<close> is the first half.
\<close>

definition runnable :: "kstate \<Rightarrow> ptr list \<Rightarrow> ptr \<Rightarrow> bool" where
  "runnable s L t \<longleftrightarrow> t \<in> set L \<and> stateT s t = KTHR_STATE_RUNNING"

definition least_run :: "kstate \<Rightarrow> ptr list \<Rightarrow> ptr \<Rightarrow> bool" where
  "least_run s L t \<longleftrightarrow> runnable s L t \<and> (\<forall>u. runnable s L u \<longrightarrow> prioT s t \<le> prioT s u)"

lemma sched_ok_least: "sched_ok s L \<longleftrightarrow> least_run s L (cur_thread s)"
  by (auto simp: sched_ok_def least_run_def runnable_def)

lemma cframe_runnable: "cframe s s' \<Longrightarrow> runnable s' L t = runnable s L t"
  by (simp add: cframe_def runnable_def)

lemma cframe_least: "cframe s s' \<Longrightarrow> least_run s' L t = least_run s L t"
  by (simp add: cframe_runnable least_run_def) (simp add: cframe_def)

lemma unlock_sched [simp]:
  "cur_thread (PPCIrqUnlockByMsr st s) = cur_thread s" "sprg2 (PPCIrqUnlockByMsr st s) = sprg2 s"
  "ppc_next_ctx (PPCIrqUnlockByMsr st s) = ppc_next_ctx s"
  "runnable (PPCIrqUnlockByMsr st s) L t = runnable s L t"
  "least_run (PPCIrqUnlockByMsr st s) L t = least_run s L t"
  by (simp_all add: cframe_runnable [OF unlock_cframe] cframe_least [OF unlock_cframe])
    (simp_all add: PPCIrqUnlockByMsr_def cur_thread_def)

lemma lock_sched [simp]:
  "cur_thread (snd (PPCIrqLockByMsr s)) = cur_thread s" "sprg2 (snd (PPCIrqLockByMsr s)) = sprg2 s"
  "ppc_next_ctx (snd (PPCIrqLockByMsr s)) = ppc_next_ctx s"
  "runnable (snd (PPCIrqLockByMsr s)) L t = runnable s L t"
  "least_run (snd (PPCIrqLockByMsr s)) L t = least_run s L t"
  by (simp_all add: cframe_runnable [OF lock_cframe] cframe_least [OF lock_cframe])
    (simp_all add: PPCIrqLockByMsr_def cur_thread_def)

text \<open>
  The invariant every kernel call keeps. \<open>ppc_next_ctx\<close> is only set while an exception is handled,
  to a thread other than the interrupted one.
\<close>

definition next_ok :: "kstate \<Rightarrow> bool" where
  "next_ok s \<longleftrightarrow> (ppc_next_ctx s \<noteq> NULL \<longrightarrow> PPCIsInExcpt s \<and> ppc_next_ctx s \<noteq> sprg2 s)"

lemma next_ok_lock [simp]: "next_ok (snd (PPCIrqLockByMsr s)) = next_ok s"
  by (simp add: next_ok_def)

lemma next_ok_unlock [simp]: "next_ok (PPCIrqUnlockByMsr (m AND MSR_EE) s) = next_ok s"
  by (simp add: next_ok_def)

definition ksched :: "kstate \<Rightarrow> ptr list \<Rightarrow> (qptr \<Rightarrow> ptr list) \<Rightarrow> bool" where
  "ksched s L Q \<longleftrightarrow> kinv s L Q \<and> wait_acyclic s (set L) \<and> sched_ok s L \<and> sprg2 s \<in> set L \<and> next_ok s"

text \<open>The search for the next thread finds the most urgent runnable one.\<close>

lemma FindRunnable_least:
  assumes kw: "kwf s L Q" and i: "runnable s L i"
  shows "\<exists>t. KThreadFindRunnable s (s_firstThread s) = Some t \<and> least_run s L t"
proof -
  let ?c = "\<lambda>t. stateT s t = KTHR_STATE_RUNNING"
  obtain t where t: "find ?c L = Some t" using i find_ex [of i L ?c] by (auto simp: runnable_def)
  have "KThreadFindRunnable s (s_firstThread s) = Some t"
    using KThreadFindRunnable_list [of s "s_firstThread s" L] kw t by (simp add: kwf_def thread_list_def)
  moreover have "least_run s L t"
    using find_Some_set [OF t] sorted_by_find_least [OF _ t, of "prioT s"] kw
    by (auto simp: least_run_def runnable_def kwf_def)
  ultimately show ?thesis by blast
qed

lemma SwitchTo_least:
  assumes t: "least_run s L t" "t \<noteq> NULL"
    and nx: "next_ok s" "ppc_next_ctx s \<noteq> NULL \<longrightarrow> runnable s L (ppc_next_ctx s)"
    and self: "t \<noteq> sprg2 s"
  shows "\<exists>s'. KThreadSwitchTo t (m AND MSR_EE) s = Some s' \<and> cframe s s' \<and> sched_ok s' L \<and>
     sprg2 s' = (if PPCIsInExcpt s then sprg2 s else t) \<and>
     next_ok s' \<and> (\<not> PPCIsInExcpt s \<longrightarrow> cur_thread s' = t)"
proof (cases "PPCIsInExcpt s")
  case True
  define c where "c = (ppc_next_ctx s = NULL \<or> prioT s t < prioT s (ppc_next_ctx s))"
  define s1 where "s1 = (if c then s\<lparr>ppc_next_ctx := t\<rparr> else s)"
  define s' where "s' = PPCIrqUnlockByMsr (m AND MSR_EE) s1"
  have run: "KThreadSwitchTo t (m AND MSR_EE) s = Some s'"
    using t(2) True by (simp add: KThreadSwitchTo_def s'_def s1_def c_def)
  have fr: "cframe s s'" unfolding s'_def s1_def
    using cframe_trans [OF cframe_globals(3) unlock_cframe, of s] by simp
  have ex: "PPCIsInExcpt s'" using True excpt_msr [of s1 s] by (simp add: s'_def s1_def)
  have nx': "ppc_next_ctx s' = (if c then t else ppc_next_ctx s)" "sprg2 s' = sprg2 s"
    by (simp_all add: s'_def s1_def PPCIrqUnlockByMsr_def)
  have "least_run s L (cur_thread s')"
  proof (cases c)
    case True
    then show ?thesis using t nx' by (simp add: cur_thread_def)
  next
    case False
    then have "cur_thread s' = ppc_next_ctx s" "runnable s L (ppc_next_ctx s)"
        "prioT s (ppc_next_ctx s) \<le> prioT s t"
      using nx(2) nx' by (auto simp: cur_thread_def c_def)
    then show ?thesis using t(1) by (auto simp: least_run_def intro: order_trans)
  qed
  then have "sched_ok s' L" using fr by (simp add: sched_ok_least cframe_least)
  then show ?thesis using run fr ex nx' nx(1) self True by (auto simp: next_ok_def)
next
  case False
  let ?s = "PPCContextJump t (PPCContextPrepareToJump 1 (m AND MSR_EE) s)"
  have run: "KThreadSwitchTo t (m AND MSR_EE) s = Some ?s"
    using t(2) False by (simp add: KThreadSwitchTo_def)
  have fr: "cframe s ?s" by (rule cframe_trans [OF prepare_cframe jump_cframe])
  have r: "ppc_next_ctx ?s = NULL" "sprg2 ?s = t" by (simp_all add: PPCContextJump_def)
  then have "sched_ok ?s L" using fr t(1) by (simp add: sched_ok_least cframe_least cur_thread_def)
  then show ?thesis using run fr r False by (simp add: cur_thread_def next_ok_def)
qed

text \<open>
  Rescheduling to a candidate \<open>t\<close> keeps the rule when the state would satisfy it but for \<open>t\<close>, and the
  interrupted thread is itself runnable.
\<close>

definition least_but :: "kstate \<Rightarrow> ptr list \<Rightarrow> ptr \<Rightarrow> bool" where
  "least_but s L t \<longleftrightarrow> runnable s L (cur_thread s) \<and> runnable s L (sprg2 s) \<and>
     (t \<noteq> NULL \<longrightarrow> runnable s L t) \<and> prioT s (cur_thread s) \<le> prioT s (sprg2 s) \<and>
     (\<forall>u. runnable s L u \<longrightarrow> prioT s (cur_thread s) \<le> prioT s u \<or> t \<noteq> NULL \<and> prioT s t \<le> prioT s u)"

lemma Reschedule_least:
  assumes b: "least_but s L t" and nx: "next_ok s"
  shows "\<exists>s'. KThreadReschedule t (m AND MSR_EE) s = Some s' \<and> cframe s s' \<and> sched_ok s' L \<and>
     sprg2 s' \<in> set L \<and> next_ok s'"
proof (cases "t \<noteq> NULL \<and> prioT s t < prioT s (sprg2 s)")
  case False
  let ?s = "PPCIrqUnlockByMsr (m AND MSR_EE) s"
  have run: "KThreadReschedule t (m AND MSR_EE) s = Some ?s" using False by (auto simp: KThreadReschedule_def)
  have r: "sprg2 ?s = sprg2 s" "ppc_next_ctx ?s = ppc_next_ctx s" by (simp_all add: PPCIrqUnlockByMsr_def)
  have le: "prioT s (cur_thread s) \<le> prioT s (sprg2 s)"
    using b False by (auto simp: least_but_def)
  have "least_run s L (cur_thread s)"
    using b False le by (auto simp: least_but_def least_run_def intro: order_trans)
  then have "sched_ok ?s L" by (simp add: sched_ok_least)
  then show ?thesis using run r nx b by (auto simp: least_but_def runnable_def)
next
  case True
  show ?thesis
  proof (cases "ppc_next_ctx s = NULL \<or> prioT s t \<le> prioT s (ppc_next_ctx s)")
    case le: True
    have "prioT s t \<le> prioT s (cur_thread s)" using le True by (auto simp: cur_thread_def)
    then have "least_run s L t"
      using b True by (auto simp: least_but_def least_run_def intro: order_trans)
    moreover have "ppc_next_ctx s \<noteq> NULL \<longrightarrow> runnable s L (ppc_next_ctx s)"
      using b by (auto simp: least_but_def cur_thread_def)
    ultimately obtain s' where s': "KThreadSwitchTo t (m AND MSR_EE) s = Some s'" "cframe s s'"
        "sched_ok s' L" "sprg2 s' = (if PPCIsInExcpt s then sprg2 s else t)"
        "next_ok s'"
      using SwitchTo_least [of s L t m] True nx by auto
    then show ?thesis using True b by (auto simp: KThreadReschedule_def least_but_def runnable_def)
  next
    case gt: False
    then have ex: "PPCIsInExcpt s" and cur: "cur_thread s = ppc_next_ctx s"
      using nx by (auto simp: cur_thread_def next_ok_def)
    let ?s = "PPCIrqUnlockByMsr (m AND MSR_EE) s"
    have run: "KThreadReschedule t (m AND MSR_EE) s = Some ?s"
      using True gt ex by (auto simp: KThreadReschedule_def KThreadSwitchTo_def not_le)
    have r: "sprg2 ?s = sprg2 s" "ppc_next_ctx ?s = ppc_next_ctx s" by (simp_all add: PPCIrqUnlockByMsr_def)
    have "least_run s L (cur_thread s)"
      using b gt unfolding cur by (force simp: least_but_def least_run_def cur)
    then have "sched_ok ?s L" by (simp add: sched_ok_least)
    then show ?thesis using run r nx b by (auto simp: least_but_def runnable_def)
  qed
qed

section \<open>Changes of state under the lock\<close>

lemma fst_lock [simp]: "fst (PPCIrqLockByMsr s) = msr s AND MSR_EE"
  by (simp add: PPCIrqLockByMsr_def)

lemma lock_fields [simp]:
  "nextT (snd (PPCIrqLockByMsr s)) = nextT s" "stateT (snd (PPCIrqLockByMsr s)) = stateT s"
  "suspendT (snd (PPCIrqLockByMsr s)) = suspendT s" "prioT (snd (PPCIrqLockByMsr s)) = prioT s"
  "basepT (snd (PPCIrqLockByMsr s)) = basepT s" "tokenT (snd (PPCIrqLockByMsr s)) = tokenT s"
  "wqueueT (snd (PPCIrqLockByMsr s)) = wqueueT s" "lnextT (snd (PPCIrqLockByMsr s)) = lnextT s"
  "lprevT (snd (PPCIrqLockByMsr s)) = lprevT s" "getq (snd (PPCIrqLockByMsr s)) = getq s"
  "waitersT (snd (PPCIrqLockByMsr s)) = waitersT s"
  "mutex_owner (snd (PPCIrqLockByMsr s)) = mutex_owner s"
  "s_firstThread (snd (PPCIrqLockByMsr s)) = s_firstThread s"
  "squeues (snd (PPCIrqLockByMsr s)) = squeues s"
  using lock_cframe [of s] by (simp_all add: cframe_def) (simp_all add: PPCIrqLockByMsr_def)

lemma unlock_fields [simp]:
  "nextT (PPCIrqUnlockByMsr st s) = nextT s" "stateT (PPCIrqUnlockByMsr st s) = stateT s"
  "suspendT (PPCIrqUnlockByMsr st s) = suspendT s" "prioT (PPCIrqUnlockByMsr st s) = prioT s"
  "basepT (PPCIrqUnlockByMsr st s) = basepT s" "tokenT (PPCIrqUnlockByMsr st s) = tokenT s"
  "wqueueT (PPCIrqUnlockByMsr st s) = wqueueT s" "lnextT (PPCIrqUnlockByMsr st s) = lnextT s"
  "lprevT (PPCIrqUnlockByMsr st s) = lprevT s" "getq (PPCIrqUnlockByMsr st s) = getq s"
  "mutex_owner (PPCIrqUnlockByMsr st s) = mutex_owner s"
  "s_firstThread (PPCIrqUnlockByMsr st s) = s_firstThread s"
  using unlock_cframe [of s st] by (simp_all add: cframe_def)

lemma lock_kinv [simp]: "kinv (snd (PPCIrqLockByMsr s)) L Q = kinv s L Q"
  by (rule cframe_kinv) simp

lemma kschedI:
  assumes "cframe s s'" "kinv s L Q" "wait_acyclic s (set L)" "sched_ok s' L" "sprg2 s' \<in> set L" "next_ok s'"
  shows "ksched s' L Q"
  using assms cframe_kinv [OF assms(1)] cframe_rank [OF assms(1)] by (auto simp: ksched_def)

lemma cur_thread_set [simp]:
  "cur_thread (set_next t v s) = cur_thread s" "cur_thread (set_state t a s) = cur_thread s"
  "cur_thread (set_suspend t u s) = cur_thread s" "cur_thread (set_prio t u s) = cur_thread s"
  "cur_thread (set_basep t u s) = cur_thread s" "cur_thread (set_waiters t w s) = cur_thread s"
  "cur_thread (set_lnext t v s) = cur_thread s" "cur_thread (set_lprev t v s) = cur_thread s"
  "cur_thread (set_wqueue t q s) = cur_thread s" "cur_thread (set_token t v s) = cur_thread s"
  "cur_thread (set_ctx t f s) = cur_thread s"
  by (simp_all add: cur_thread_def)

lemma gframe_cur: "gframe s s' \<Longrightarrow> cur_thread s' = cur_thread s"
  by (simp add: cur_thread_def gframe_def)

lemma gframe_next_ok: "gframe s s' \<Longrightarrow> next_ok s' = next_ok s"
  by (simp add: next_ok_def gframe_def PPCIsInExcpt_def)

lemma getq_fun [simp]:
  "getq (set_next t v s) = getq s" "getq (set_state t a s) = getq s"
  "getq (set_suspend t u s) = getq s" "getq (set_prio t u s) = getq s"
  "getq (set_basep t u s) = getq s" "getq (set_lnext t v s) = getq s"
  "getq (set_lprev t v s) = getq s" "getq (set_wqueue t q' s) = getq s"
  "getq (set_token t v s) = getq s" "getq (set_ctx t f s) = getq s"
  "getq (s_firstThread_update g s) = getq s" "getq (ppc_next_ctx_update g s) = getq s"
  "getq (sprg2_update g s) = getq s" "getq (sprg3_update g s) = getq s"
  "getq (msr_update g s) = getq s" "getq (mutex_owner_update h s) = getq s"
  "getq (stack_mem_update h s) = getq s" "getq (tasks_update i s) = getq s"
  "getq (s_firstTask_update g s) = getq s" "getq (timebase_update j s) = getq s"
  "getq (dec_reg_update g s) = getq s"
  by (rule ext, simp)+

text \<open>Only the run state and suspend count of threads changed.\<close>

lemma kinv_restate:
  assumes "kinv s L Q" "\<forall>u\<in>set L. state_ok s' u"
    and "s_firstThread s' = s_firstThread s" "nextT s' = nextT s" "prioT s' = prioT s"
    "basepT s' = basepT s" "tokenT s' = tokenT s" "wqueueT s' = wqueueT s" "lnextT s' = lnextT s"
    "lprevT s' = lprevT s" "getq s' = getq s" "mutex_owner s' = mutex_owner s"
  shows "kinv s' L Q"
  using assms unfolding kinv_def kwf_def thread_list_def queues_ok_def qlist_def mutex_ok_def
    prio_ok_def eff_prio_def by (simp cong: list.case_cong)

lemma kinvD:
  assumes "kinv s L Q"
  shows "kwf s L Q" "queues_ok s (set L) Q" "thread_list s L" "sorted_by (prioT s) L"
    "t \<in> set L \<Longrightarrow> state_ok s t" "t \<in> set L \<Longrightarrow> t \<noteq> NULL" "mutex_ok s (set L)" "prio_ok s Q (set L)"
    "valid_q (set L) q \<Longrightarrow> sorted_by (prioT s) (Q q)"
  using assms kwf_nonnull by (auto simp: kinv_def kwf_def)

lemma kschedD:
  assumes "ksched s L Q"
  shows "kinv s L Q" "wait_acyclic s (set L)" "least_run s L (cur_thread s)"
    "sprg2 s \<in> set L" "next_ok s"
  using assms by (auto simp: ksched_def sched_ok_least)

lemma ksched_cframe:
  assumes "ksched s L Q" "cframe s s'" "cur_thread s' = cur_thread s" "sprg2 s' = sprg2 s" "next_ok s'"
  shows "ksched s' L Q"
  using assms cframe_least [OF assms(2)] by (auto simp: ksched_def sched_ok_least cframe_kinv cframe_rank)

lemma ksched_lock [simp]: "ksched (snd (PPCIrqLockByMsr s)) L Q = ksched s L Q"
  unfolding ksched_def sched_ok_least
  using cframe_kinv [OF lock_cframe [of s]] cframe_rank [OF lock_cframe [of s]] by simp

lemma ksched_unlock [simp]: "ksched (PPCIrqUnlockByMsr (m AND MSR_EE) s) L Q = ksched s L Q"
  unfolding ksched_def sched_ok_least
  using cframe_kinv [OF unlock_cframe [of s]] cframe_rank [OF unlock_cframe [of s]] by simp

end
