(* ===== verification/KOps.thy ===== *)
theory KOps
  imports KSched
begin

text \<open>
  The kernel calls of \<^verbatim>\<open>tuxedo/thread.c\<close> keep the scheduling invariant \<open>ksched\<close>, and what each does to
  the threads: suspending and resuming, yielding, blocking on and waking from a wait queue.
\<close>

section \<open>Suspending and resuming\<close>

lemma state_okD:
  assumes "state_ok s t"
  shows "suspendT s t \<noteq> 0 \<Longrightarrow> stateT s t \<noteq> KTHR_STATE_RUNNING"
    "stateT s t = KTHR_STATE_RUNNING \<Longrightarrow> wqueueT s t = QNull"
    "stateT s t = KTHR_STATE_RUNNING \<Longrightarrow> suspendT s t = 0"
  using assms by (auto simp: state_ok_iff)

lemma state_ok_same:
  assumes "state_ok s u" "stateT s' u = stateT s u" "suspendT s' u = suspendT s u" "wqueueT s' u = wqueueT s u"
  shows "state_ok s' u"
  using assms by (simp add: state_ok_def)

lemma thr_ok_dec:
  assumes "thr_ok st su wq" "su \<noteq> 0" "su \<noteq> 1 \<or> wq \<noteq> QNull"
  shows "thr_ok st (su - 1) wq"
proof (cases st)
  case KTHR_STATE_WAITING
  have "su - 1 \<noteq> 0" if "su \<noteq> 1" using that by simp
  with KTHR_STATE_WAITING assms show ?thesis by (cases wq) simp_all
qed (use assms in simp_all)

text \<open>A thread becomes runnable: the rule holds but for it.\<close>

lemma least_but_new:
  assumes k: "least_run s L (cur_thread s)" and self: "runnable s L (sprg2 s)" and t: "t \<in> set L" "t \<noteq> NULL"
    and s': "cur_thread s' = cur_thread s" "sprg2 s' = sprg2 s" "prioT s' = prioT s"
      "stateT s' = (stateT s)(t := KTHR_STATE_RUNNING)"
  shows "least_but s' L t"
  using assms unfolding least_but_def least_run_def runnable_def by auto

lemma KThreadResume_sched:
  assumes k: "ksched s L Q" and t: "t \<in> set L"
    and self: "t \<noteq> sprg2 s \<Longrightarrow> runnable s L (sprg2 s)"
  shows "\<exists>s'. KThreadResume t s = Some s' \<and> ksched s' L Q \<and>
     suspendT s' = (suspendT s)(t := suspendT s t - (if suspendT s t = 0 then 0 else 1)) \<and>
     stateT s' = (stateT s)(t := if suspendT s t = 1 \<and> wqueueT s t = QNull then KTHR_STATE_RUNNING
                                 else stateT s t)"
proof -
  let ?s1 = "snd (PPCIrqLockByMsr s)"
  let ?s2 = "set_suspend t (suspendT s t - 1) ?s1"
  let ?s3 = "set_state t KTHR_STATE_RUNNING ?s2"
  note D = kschedD [OF k]
  have tn: "t \<noteq> NULL" using kinvD(6) [OF D(1) t] .
  have st: "state_ok s u" if "u \<in> set L" for u using kinvD(5) [OF D(1) that] .
  consider (none) "suspendT s t = 0"
    | (stay) "suspendT s t \<noteq> 0" "suspendT s t \<noteq> 1 \<or> wqueueT s t \<noteq> QNull"
    | (wake) "suspendT s t = 1" "wqueueT s t = QNull"
    by blast
  then show ?thesis
  proof cases
    case none
    then have "KThreadResume t s = Some (PPCIrqUnlockByMsr (msr s AND MSR_EE) ?s1)"
      by (simp add: KThreadResume_def split_beta Let_def)
    then show ?thesis using k none by (auto simp: fun_eq_iff)
  next
    case stay
    have run: "KThreadResume t s = Some (PPCIrqUnlockByMsr (msr s AND MSR_EE) ?s2)"
      using stay by (auto simp: KThreadResume_def split_beta Let_def)
    have "state_ok ?s2 u" if "u \<in> set L" for u
    proof (cases "u = t")
      case True
      then show ?thesis using st [OF t] stay thr_ok_dec by (simp add: state_ok_def)
    qed (use st [OF that] in \<open>simp add: state_ok_def\<close>)
    then have kv: "kinv ?s2 L Q" by (intro kinv_restate [OF D(1)]) simp_all
    have "least_run ?s2 L (cur_thread ?s2)"
      using D(3) by (simp add: least_run_def runnable_def)
    moreover have "next_ok ?s2" using D(5) by (simp add: next_ok_def)
    moreover have "wait_acyclic ?s2 (set L)" using D(2) by (rule wait_acyclic_keep) simp
    ultimately have "ksched ?s2 L Q" using kv D(4) by (simp add: ksched_def sched_ok_least)
    then show ?thesis using run stay by (auto simp: fun_eq_iff)
  next
    case wake
    have "state_ok ?s3 u" if "u \<in> set L" for u using st [OF that] wake by (auto simp: state_ok_def)
    then have kv: "kinv ?s3 L Q" by (intro kinv_restate [OF D(1)]) simp_all
    have nx: "next_ok ?s3" using D(5) by (simp add: next_ok_def)
    have ac: "wait_acyclic ?s3 (set L)" using D(2) by (rule wait_acyclic_keep) simp
    have fields: "suspendT ?s3 = (suspendT s)(t := 0)" "stateT ?s3 = (stateT s)(t := KTHR_STATE_RUNNING)"
      using wake by auto
    show ?thesis
    proof (cases "t = sprg2 s")
      case False
      have "least_but ?s3 L t"
        using D(3) self [OF False] t tn by (rule least_but_new) auto
      then obtain s' where s': "KThreadReschedule t (msr s AND MSR_EE) ?s3 = Some s'" "cframe ?s3 s'"
          "sched_ok s' L" "sprg2 s' \<in> set L" "next_ok s'"
        using Reschedule_least nx by blast
      have "KThreadResume t s = Some s'"
        using wake False s'(1) by (simp add: KThreadResume_def split_beta Let_def)
      moreover have "ksched s' L Q" using kschedI [OF s'(2) kv ac s'(3,4,5)] .
      ultimately show ?thesis using s'(2) fields wake by (simp add: cframe_def)
    next
      case True
      let ?n = "ppc_next_ctx s"
      let ?s4 = "if prioT s t < prioT s ?n then ?s3\<lparr>ppc_next_ctx := NULL\<rparr> else ?s3"
      have "\<not> runnable s L t" using state_okD(1) [OF st [OF t]] wake by (simp add: runnable_def)
      then have n: "?n \<noteq> NULL" "cur_thread s = ?n" using D(3) True by (auto simp: least_run_def cur_thread_def)
      have run: "KThreadResume t s = Some (PPCIrqUnlockByMsr (msr s AND MSR_EE) ?s4)"
        using wake True n by (simp add: KThreadResume_def split_beta Let_def)
      have c: "cur_thread ?s4 = (if prioT s t < prioT s ?n then t else ?n)"
        using n True by (simp add: cur_thread_def)
      have "least_run ?s4 L (cur_thread ?s4)"
        using D(3) n t unfolding c least_run_def runnable_def by auto
      moreover have "next_ok ?s4" using nx by (simp add: next_ok_def)
      moreover have "cframe ?s3 ?s4" by simp
      ultimately have "ksched ?s4 L Q"
        using kschedI [of ?s3 ?s4 L Q] kv ac D(4) by (simp add: sched_ok_least)
      then have "ksched (PPCIrqUnlockByMsr (msr s AND MSR_EE) ?s4) L Q" by (subst ksched_unlock)
      then show ?thesis using run fields wake \<open>cframe ?s3 ?s4\<close> by (auto simp: cframe_def)
    qed
  qed
qed

text \<open>The current thread gave up the processor: the most urgent runnable thread gets it.\<close>

lemma Find_SwitchTo:
  assumes k: "kinv s L Q" and i: "runnable s L i" and self: "sprg2 s \<in> set L" "\<not> runnable s L (sprg2 s)"
    and nx: "next_ok s" "ppc_next_ctx s \<noteq> NULL \<longrightarrow> runnable s L (ppc_next_ctx s)"
  shows "\<exists>n s'. KThreadFindRunnable s (s_firstThread s) = Some n \<and> least_run s L n \<and>
     KThreadSwitchTo n (m AND MSR_EE) s = Some s' \<and> cframe s s' \<and> sched_ok s' L \<and> sprg2 s' \<in> set L \<and>
     next_ok s'"
proof -
  obtain n where n: "KThreadFindRunnable s (s_firstThread s) = Some n" "least_run s L n"
    using FindRunnable_least [OF kinvD(1) [OF k] i] by blast
  have "n \<noteq> NULL" "n \<noteq> sprg2 s" using n(2) kinvD(6) [OF k] self(2) by (auto simp: least_run_def runnable_def)
  then obtain s' where "KThreadSwitchTo n (m AND MSR_EE) s = Some s'" "cframe s s'" "sched_ok s' L"
      "sprg2 s' = (if PPCIsInExcpt s then sprg2 s else n)" "next_ok s'"
    using SwitchTo_least [OF n(2) _ nx, of m] by blast
  then show ?thesis using n self(1) by (auto simp: least_run_def runnable_def)
qed

lemma thr_ok_inc:
  assumes "thr_ok st su wq" "su \<noteq> 0xffff" "su \<noteq> 0 \<or> st \<noteq> KTHR_STATE_RUNNING"
  shows "thr_ok st (su + 1) wq"
proof -
  have "su + 1 \<noteq> 0"
  proof
    assume "su + 1 = 0"
    then have "su = - 1" by (simp add: eq_neg_iff_add_eq_0)
    then show False using assms(2) by simp
  qed
  then show ?thesis using assms by (cases st; cases wq) auto
qed

lemma KThreadSuspend_sched:
  assumes k: "ksched s L Q" and t: "t \<in> set L" "suspendT s t \<noteq> 0xffff"
    and i: "runnable s L i" "i \<noteq> t"
  shows "\<exists>s'. KThreadSuspend t s = Some s' \<and> ksched s' L Q \<and>
     suspendT s' = (suspendT s)(t := suspendT s t + 1) \<and>
     stateT s' = (stateT s)(t := if stateT s t = KTHR_STATE_RUNNING then KTHR_STATE_WAITING else stateT s t)"
proof -
  let ?s1 = "snd (PPCIrqLockByMsr s)"
  let ?s2 = "set_suspend t (suspendT s t + 1) ?s1"
  let ?s3 = "set_wqueue t QNull (set_state t KTHR_STATE_WAITING ?s2)"
  note D = kschedD [OF k]
  have st: "state_ok s u" if "u \<in> set L" for u using kinvD(5) [OF D(1) that] .
  show ?thesis
  proof (cases "suspendT s t \<noteq> 0 \<or> stateT s t \<noteq> KTHR_STATE_RUNNING")
    case True
    then have nr: "stateT s t \<noteq> KTHR_STATE_RUNNING" using state_okD(1) [OF st [OF t(1)]] by blast
    have run: "KThreadSuspend t s = Some (PPCIrqUnlockByMsr (msr s AND MSR_EE) ?s2)"
      using True by (auto simp: KThreadSuspend_def split_beta Let_def)
    have "state_ok ?s2 u" if "u \<in> set L" for u
      using st [OF that] thr_ok_inc [OF _ t(2) True] by (auto simp: state_ok_def)
    then have kv: "kinv ?s2 L Q" by (intro kinv_restate [OF D(1)]) simp_all
    have "least_run ?s2 L (cur_thread ?s2)" using D(3) by (simp add: least_run_def runnable_def)
    moreover have "next_ok ?s2" using D(5) by (simp add: next_ok_def)
    moreover have "wait_acyclic ?s2 (set L)" using D(2) by (rule wait_acyclic_keep) simp
    ultimately have "ksched ?s2 L Q" using kv D(4) by (simp add: ksched_def sched_ok_least)
    then show ?thesis using run nr by (auto simp: fun_eq_iff)
  next
    case False
    then have run_t: "suspendT s t = 0" "stateT s t = KTHR_STATE_RUNNING" "wqueueT s t = QNull"
      using state_okD(2) [OF st [OF t(1)]] by auto
    have wq: "wqueueT ?s3 = wqueueT s" using run_t by auto
    have "state_ok ?s3 u" if "u \<in> set L" for u using st [OF that] run_t by (simp add: state_ok_def)
    then have kv: "kinv ?s3 L Q" using wq by (intro kinv_restate [OF D(1)]) simp_all
    have nx: "next_ok ?s3" using D(5) by (simp add: next_ok_def)
    have ac: "wait_acyclic ?s3 (set L)" using D(2) wq by (rule wait_acyclic_keep)
    have i3: "runnable ?s3 L i" using i by (simp add: runnable_def)
    have fields: "suspendT ?s3 = (suspendT s)(t := suspendT s t + 1)"
        "stateT ?s3 = (stateT s)(t := KTHR_STATE_WAITING)" by auto
    show ?thesis
    proof (cases "t = sprg2 s")
      case self: True
      have "ppc_next_ctx ?s3 \<noteq> NULL \<longrightarrow> runnable ?s3 L (ppc_next_ctx ?s3)"
        using D(3,5) self by (auto simp: least_run_def runnable_def cur_thread_def next_ok_def)
      then obtain n s' where s': "KThreadFindRunnable ?s3 (s_firstThread ?s3) = Some n"
          "KThreadSwitchTo n (msr s AND MSR_EE) ?s3 = Some s'" "cframe ?s3 s'" "sched_ok s' L"
          "sprg2 s' \<in> set L" "next_ok s'"
        using Find_SwitchTo [OF kv i3 _ _ nx, of "msr s"] self D(4) by (auto simp: runnable_def)
      have "KThreadSuspend t s = Some s'"
        using run_t self s'(1,2) by (simp add: KThreadSuspend_def split_beta Let_def)
      moreover have "ksched s' L Q" using kschedI [OF s'(3) kv ac s'(4,5,6)] .
      ultimately show ?thesis using s'(3) fields run_t by (simp add: cframe_def)
    next
      case other: False
      obtain n where n: "KThreadFindRunnable ?s3 (s_firstThread ?s3) = Some n" "least_run ?s3 L n"
        using FindRunnable_least [OF kinvD(1) [OF kv] i3] by blast
      let ?s4 = "if t = ppc_next_ctx s
        then ?s3\<lparr>ppc_next_ctx := (if n \<noteq> sprg2 s then n else NULL)\<rparr> else ?s3"
      have run: "KThreadSuspend t s = Some (PPCIrqUnlockByMsr (msr s AND MSR_EE) ?s4)"
        using run_t other n(1) by (cases "t = ppc_next_ctx s") (simp_all add: KThreadSuspend_def split_beta Let_def)
      have n0: "n \<noteq> NULL" using n(2) kinvD(6) [OF kv] by (auto simp: least_run_def runnable_def)
      have fr: "cframe ?s3 ?s4" by simp
      have "least_run ?s3 L (cur_thread ?s4)"
      proof (cases "t = ppc_next_ctx s")
        case True
        then show ?thesis using n n0 by (auto simp: cur_thread_def)
      next
        case ne: False
        then have "cur_thread s \<noteq> t" using other by (simp add: cur_thread_def)
        then show ?thesis using D(3) ne by (auto simp: least_run_def runnable_def)
      qed
      moreover have "next_ok ?s4" using nx kinvD(6) [OF D(1) t(1)] D(5)
        by (auto simp: next_ok_def)
      ultimately have "ksched ?s4 L Q"
        using kschedI [OF fr kv ac] D(4) cframe_least [OF fr] by (simp add: sched_ok_least)
      then have "ksched (PPCIrqUnlockByMsr (msr s AND MSR_EE) ?s4) L Q" by (subst ksched_unlock)
      then show ?thesis using run fields run_t fr by (auto simp: cframe_def)
    qed
  qed
qed

section \<open>Yielding\<close>

text \<open>
  Among the runnable threads of its priority, a yielding thread passes the processor to the next
  one in list order, cyclically.
\<close>

definition peer :: "kstate \<Rightarrow> ptr \<Rightarrow> bool" where
  "peer s u \<longleftrightarrow> stateT s u = KTHR_STATE_RUNNING \<and> prioT s u = prioT s (sprg2 s)"

lemma yield_target:
  assumes k: "kinv s L Q" and self: "least_run s L (sprg2 s)" and L: "L = xs @ sprg2 s # ys"
  shows "\<exists>t t'. KThreadFindRunnable s (nextT s (sprg2 s)) = Some t \<and>
     (if t = NULL \<or> prioT s t > prioT s (sprg2 s) then KThreadFindRunnable s (s_firstThread s) else Some t)
       = Some t' \<and> t' = hd (filter (peer s) ys @ filter (peer s) xs @ [sprg2 s]) \<and> least_run s L t'"
proof -
  let ?c = "\<lambda>t. stateT s t = KTHR_STATE_RUNNING"
  let ?self = "sprg2 s"
  have l: "lst (nextT s) (s_firstThread s) L" using kinvD(3) [OF k] by (simp add: thread_list_def)
  then have ly: "lst (nextT s) (nextT s ?self) ys" using L by simp
  have srt: "sorted_by (prioT s) xs" "sorted_by (prioT s) ys" "\<And>x. x \<in> set xs \<Longrightarrow> prioT s x \<le> prioT s ?self"
    using kinvD(4) [OF k] L by (auto simp: sorted_wrt_append)
  have ge: "prioT s ?self \<le> prioT s u" if "u \<in> set L" "?c u" for u
    using self that by (auto simp: least_run_def runnable_def)
  have eq: "least_run s L u" if "u \<in> set L" "peer s u" for u
    using self that by (auto simp: least_run_def runnable_def peer_def)
  have sc: "?c ?self" using self by (simp add: least_run_def runnable_def)
  have f1: "KThreadFindRunnable s (nextT s ?self) = Some (case find ?c ys of None \<Rightarrow> NULL | Some t \<Rightarrow> t)"
    by (rule KThreadFindRunnable_list [OF ly])
  have f2: "KThreadFindRunnable s (s_firstThread s) = Some (case find ?c L of None \<Rightarrow> NULL | Some t \<Rightarrow> t)"
    by (rule KThreadFindRunnable_list [OF l])
  show ?thesis
  proof (cases "\<exists>t. find ?c ys = Some t \<and> prioT s t \<le> prioT s ?self")
    case True
    then obtain t where t: "find ?c ys = Some t" "prioT s t \<le> prioT s ?self" by blast
    have tin: "t \<in> set ys" "?c t" using find_Some_set [OF t(1)] by auto
    then have pt: "peer s t" using ge [of t] t(2) L by (simp add: peer_def)
    obtain zs where "filter (peer s) ys = t # zs"
      using find_filter_hd [OF t(1), of "peer s"] pt by (auto simp: peer_def)
    moreover have "t \<noteq> NULL" using kinvD(6) [OF k, of t] tin L by simp
    ultimately show ?thesis using f1 t eq [of t] tin(1) pt L by auto
  next
    case False
    have none: "filter (peer s) ys = []"
    proof (cases "find ?c ys")
      case None
      then show ?thesis by (auto simp: find_None_iff peer_def filter_empty_conv)
    next
      case (Some t)
      then have "prioT s ?self < prioT s u" if "u \<in> set ys" "?c u" for u
        using False sorted_by_find_least [OF srt(2) Some that] by (meson less_le_trans not_le)
      then show ?thesis by (fastforce simp: filter_empty_conv peer_def)
    qed
    have go: "t = NULL \<or> prioT s t > prioT s ?self" if "t = (case find ?c ys of None \<Rightarrow> NULL | Some t \<Rightarrow> t)" for t
      using False that by (auto split: option.splits)
    show ?thesis
    proof (cases "find ?c xs")
      case None
      then have "filter (peer s) xs = []" by (auto simp: find_None_iff peer_def filter_empty_conv)
      moreover have "find ?c L = Some ?self" using None sc L by (simp add: find_append)
      ultimately show ?thesis using f1 f2 go none self by auto
    next
      case (Some t)
      have tin: "t \<in> set xs" "?c t" using find_Some_set [OF Some] by auto
      then have pt: "peer s t" using ge [of t] srt(3) [of t] L by (simp add: peer_def)
      obtain zs where "filter (peer s) xs = t # zs"
        using find_filter_hd [OF Some, of "peer s"] pt by (auto simp: peer_def)
      moreover have "find ?c L = Some t" using Some L by (simp add: find_append)
      ultimately show ?thesis using f1 f2 go none eq [of t] tin pt L by auto
    qed
  qed
qed

lemma KThreadYield_sched:
  assumes k: "ksched s L Q" and ex: "\<not> PPCIsInExcpt s" and L: "L = xs @ sprg2 s # ys"
  shows "\<exists>s'. KThreadYield s = Some s' \<and> ksched s' L Q \<and> cframe s s' \<and>
     sprg2 s' = hd (filter (peer s) ys @ filter (peer s) xs @ [sprg2 s])"
proof -
  let ?s1 = "snd (PPCIrqLockByMsr s)"
  note D = kschedD [OF k]
  have cur: "cur_thread s = sprg2 s" using D(5) ex by (simp add: cur_thread_def next_ok_def)
  have k1: "kinv ?s1 L Q" using D(1) by simp
  have p: "peer ?s1 = peer s" by (simp add: peer_def fun_eq_iff)
  obtain t t' where t: "KThreadFindRunnable ?s1 (nextT ?s1 (sprg2 ?s1)) = Some t"
      "(if t = NULL \<or> prioT ?s1 t > prioT ?s1 (sprg2 ?s1)
        then KThreadFindRunnable ?s1 (s_firstThread ?s1) else Some t) = Some t'"
      "t' = hd (filter (peer s) ys @ filter (peer s) xs @ [sprg2 s])" "least_run ?s1 L t'"
    using yield_target [OF k1, of xs ys] D(3) cur L p by auto
  have run: "KThreadYield s = (if t' \<noteq> sprg2 s then KThreadSwitchTo t' (msr s AND MSR_EE) ?s1
      else Some (PPCIrqUnlockByMsr (msr s AND MSR_EE) ?s1))"
    using t(1,2) by (simp add: KThreadYield_def split_beta Let_def)
  show ?thesis
  proof (cases "t' = sprg2 s")
    case True
    moreover have "cframe s (PPCIrqUnlockByMsr (msr s AND MSR_EE) ?s1)"
      by (rule cframe_trans [OF lock_cframe unlock_cframe])
    ultimately show ?thesis using run k t(3) by simp
  next
    case False
    have "t' \<noteq> NULL" using t(4) kinvD(6) [OF k1] by (auto simp: least_run_def runnable_def)
    then obtain s' where s': "KThreadSwitchTo t' (msr s AND MSR_EE) ?s1 = Some s'" "cframe ?s1 s'"
        "sched_ok s' L" "sprg2 s' = t'" "next_ok s'"
      using SwitchTo_least [OF t(4), of "msr s"] D(5) ex False by (auto simp: next_ok_def)
    moreover have "ksched s' L Q"
      using kschedI [OF s'(2) k1 _ s'(3) _ s'(5)] s'(4) t(4) D(2) cframe_rank [OF lock_cframe]
      by (simp add: least_run_def runnable_def)
    ultimately show ?thesis using run False t(3) cframe_trans [OF lock_cframe s'(2)] by simp
  qed
qed

end
