(* ===== verification/KBlock.thy ===== *)
theory KBlock
  imports KOps
begin

text \<open>
  Blocking on and waking from the static wait queues: \<open>KThrQueueBlock\<close>, \<open>KThrQueueUnblock...\<close>,
  \<open>KThrQueueCancel\<close>. Blocking links the caller into the queue at its priority; unblocking refines
  a filter of the queue, hands every woken thread its result and reschedules.
\<close>

section \<open>Changing the static queues\<close>

lemma kinv_static:
  assumes k: "kinv s L Q" and ok: "queues_ok s' (set L) Q'"
    and q: "\<And>p. Q' (QWaiters p) = Q (QWaiters p)" "\<And>k. sorted_by (prioT s) (Q' (QStatic k))"
    and st: "\<And>u. u \<in> set L \<Longrightarrow> state_ok s' u"
    and m: "\<And>u p. u \<in> set L \<Longrightarrow> wqueueT s' u = QWaiters p \<Longrightarrow> wqueueT s u = QWaiters p \<and> tokenT s' u = tokenT s u"
    and fr: "s_firstThread s' = s_firstThread s" "nextT s' = nextT s" "prioT s' = prioT s" "basepT s' = basepT s"
      "mutex_owner s' = mutex_owner s"
  shows "kinv s' L Q'"
proof -
  have "sorted_by (prioT s) (Q' q')" if "valid_q (set L) q'" for q'
    using that q kinvD(9) [OF k that] by (cases q') auto
  then have "kwf s' L Q'"
    using kinvD(3,4) [OF k] ok st fr by (simp add: kwf_def thread_list_def)
  moreover have "mutex_ok s' (set L)"
    using kinvD(7) [OF k] m fr(5) by (simp add: mutex_ok_def)
  moreover have "prio_ok s' Q' (set L)"
    using kinvD(8) [OF k] q(1) fr by (simp add: prio_ok_def eff_prio_def cong: list.case_cong)
  ultimately show ?thesis by (simp add: kinv_def)
qed

lemma wait_acyclic_drop:
  assumes "wait_acyclic s T" "\<And>u p. u \<in> T \<Longrightarrow> wqueueT s' u = QWaiters p \<Longrightarrow> wqueueT s u = QWaiters p"
  shows "wait_acyclic s' T"
  using assms unfolding wait_acyclic_def wait_rank_def by metis

text \<open>Linking a thread that is in no queue into a static queue.\<close>

lemma kinv_insert_static:
  assumes k: "kinv s L Q" and t: "t \<in> set L" "wqueueT s t = QNull"
    and s1: "s1 = set_token t tok (set_state t KTHR_STATE_WAITING s)"
  shows "\<exists>s2. KThrQueueInsert (QStatic k) t s1 = Some s2 \<and>
     kinv s2 L (Q(QStatic k := ins_after (\<lambda>p. prioT s p \<le> prioT s t) t (Q (QStatic k)))) \<and>
     qframe s1 s2 \<and> wqueueT s2 = (wqueueT s)(t := QStatic k)"
proof -
  let ?q = "QStatic k"
  let ?Q = "Q(?q := ins_after (\<lambda>p. prioT s p \<le> prioT s t) t (Q ?q))"
  have ok1: "queues_ok s1 (set L) Q" using kinvD(2) [OF k] queues_ok_cong [of s1 s] s1 by simp
  obtain s2 where s2: "KThrQueueInsert ?q t s1 = Some s2" "queues_ok s2 (set L) ?Q" "qframe s1 s2"
      "wqueueT s2 = (wqueueT s)(t := ?q)"
    using queues_insert [OF ok1, of ?q t] t kinvD(6) [OF k t(1)] s1 by auto
  have f: "stateT s2 = (stateT s)(t := KTHR_STATE_WAITING)" "suspendT s2 = suspendT s"
      "tokenT s2 = (tokenT s)(t := tok)"
    using s2(3) s1 by (simp_all add: qframe_def)
  have "sorted_by (prioT s) (?Q (QStatic j))" for j
    using kinvD(9) [OF k, of "QStatic j"] by (auto intro: sorted_by_ins_after)
  moreover have "state_ok s2 u" if "u \<in> set L" for u
    using kinvD(5) [OF k that] f s2(4) by (simp add: state_ok_def)
  ultimately have "kinv s2 L ?Q"
    using s2(3,4) f s1 by (intro kinv_static [OF k s2(2)])
      (auto simp: qframe_def gframe_def split: if_splits)
  then show ?thesis using s2 by blast
qed

lemma SwitchTo_thread: "KThreadSwitchTo t st s = Some s' \<Longrightarrow> \<not> PPCIsInExcpt s \<Longrightarrow> sprg2 s' = cur_thread s'"
  by (auto simp: KThreadSwitchTo_def PPCContextJump_def cur_thread_def split: if_splits)

lemma KThrQueueBlock_core:
  assumes D: "kinv s L Q" "wait_acyclic s (set L)" "next_ok s"
      "ppc_next_ctx s \<noteq> NULL \<longrightarrow> runnable s L (ppc_next_ctx s)"
    and self: "runnable s L (sprg2 s)" and i: "runnable s L i" "i \<noteq> sprg2 s"
  shows "\<exists>s'. KThrQueueBlock (QStatic k) tok s = Some s' \<and>
     ksched s' L (Q(QStatic k := ins_after (\<lambda>p. prioT s p \<le> prioT s (sprg2 s)) (sprg2 s) (Q (QStatic k)))) \<and>
     stateT s' = (stateT s)(sprg2 s := KTHR_STATE_WAITING) \<and>
     tokenT s' = (tokenT s)(sprg2 s := tok) \<and> wqueueT s' = (wqueueT s)(sprg2 s := QStatic k) \<and>
     suspendT s' = suspendT s \<and> prioT s' = prioT s \<and> mutex_owner s' = mutex_owner s \<and> cur_thread s' \<noteq> sprg2 s \<and>
     (\<not> PPCIsInExcpt s \<longrightarrow> sprg2 s' = cur_thread s')"
proof -
  let ?self = "sprg2 s"
  let ?q = "QStatic k"
  let ?Q = "Q(?q := ins_after (\<lambda>p. prioT s p \<le> prioT s ?self) ?self (Q ?q))"
  let ?s0 = "snd (PPCIrqLockByMsr s)"
  let ?s1 = "set_token ?self tok (set_state ?self KTHR_STATE_WAITING ?s0)"
  have st: "state_ok s u" if "u \<in> set L" for u using kinvD(5) [OF D(1) that] .
  have sr: "stateT s ?self = KTHR_STATE_RUNNING" "?self \<in> set L" using self by (auto simp: runnable_def)
  have wq: "wqueueT s ?self = QNull" using state_okD(2) [OF st] sr by blast
  obtain s2 where s2: "KThrQueueInsert ?q ?self ?s1 = Some s2" "kinv s2 L ?Q" "qframe ?s1 s2"
      "wqueueT s2 = (wqueueT s)(?self := ?q)"
    using kinv_insert_static [of ?s0 L Q ?self ?s1 tok k] D(1) sr wq by auto
  have g: "gframe ?s1 s2" using s2(3) by (rule qframe_gframe)
  have f: "stateT s2 = (stateT s)(?self := KTHR_STATE_WAITING)" "suspendT s2 = suspendT s"
      "tokenT s2 = (tokenT s)(?self := tok)" "prioT s2 = prioT s" "sprg2 s2 = ?self"
      "ppc_next_ctx s2 = ppc_next_ctx s" "mutex_owner s2 = mutex_owner s"
    using s2(3) by (simp_all add: qframe_def gframe_def)
  have nx: "next_ok s2" using gframe_next_ok [OF g] D(3) by (simp add: next_ok_def)
  have nxr: "ppc_next_ctx s2 \<noteq> NULL \<longrightarrow> runnable s2 L (ppc_next_ctx s2)"
    using D(3,4) f by (auto simp: runnable_def next_ok_def)
  have i2: "runnable s2 L i" and ns: "\<not> runnable s2 L (sprg2 s2)" using i f by (auto simp: runnable_def)
  obtain n s' where s': "KThreadFindRunnable s2 (s_firstThread s2) = Some n"
      "KThreadSwitchTo n (msr s AND MSR_EE) s2 = Some s'" "cframe s2 s'" "sched_ok s' L"
      "sprg2 s' \<in> set L" "next_ok s'"
    using Find_SwitchTo [OF s2(2) i2 _ ns nx nxr, of "msr s"] f(5) sr(2) by auto
  have run: "KThrQueueBlock ?q tok s = Some s'"
    using s2(1) s'(1,2) by (simp add: KThrQueueBlock_def split_beta Let_def)
  have "wait_acyclic s2 (set L)"
    using D(2) by (rule wait_acyclic_drop) (auto simp: s2(4) split: if_splits)
  then have ks: "ksched s' L ?Q" using kschedI [OF s'(3) s2(2) _ s'(4,5,6)] by blast
  then have "cur_thread s' \<noteq> ?self"
    using ns s'(3) f(5) by (auto simp: ksched_def sched_ok_def runnable_def cframe_def)
  moreover have "PPCIsInExcpt s2 = PPCIsInExcpt s"
    using g excpt_msr [of s2 ?s1] by (simp add: gframe_def)
  then have "\<not> PPCIsInExcpt s \<longrightarrow> sprg2 s' = cur_thread s'" using SwitchTo_thread [OF s'(2)] by simp
  ultimately show ?thesis using run ks s'(3) f s2(4) by (simp add: cframe_def)
qed

lemma KThrQueueBlock_sched:
  assumes k: "ksched s L Q" and self: "runnable s L (sprg2 s)" and i: "runnable s L i" "i \<noteq> sprg2 s"
  shows "\<exists>s'. KThrQueueBlock (QStatic k) tok s = Some s' \<and>
     ksched s' L (Q(QStatic k := ins_after (\<lambda>p. prioT s p \<le> prioT s (sprg2 s)) (sprg2 s) (Q (QStatic k)))) \<and>
     stateT s' = (stateT s)(sprg2 s := KTHR_STATE_WAITING) \<and>
     tokenT s' = (tokenT s)(sprg2 s := tok) \<and> wqueueT s' = (wqueueT s)(sprg2 s := QStatic k) \<and>
     suspendT s' = suspendT s \<and> prioT s' = prioT s \<and> mutex_owner s' = mutex_owner s \<and> cur_thread s' \<noteq> sprg2 s \<and>
     (\<not> PPCIsInExcpt s \<longrightarrow> sprg2 s' = cur_thread s')"
proof (rule KThrQueueBlock_core [OF kschedD(1,2,5) [OF k] _ self i])
  show "ppc_next_ctx s \<noteq> NULL \<longrightarrow> runnable s L (ppc_next_ctx s)"
    using kschedD(3) [OF k] by (auto simp: least_run_def cur_thread_def)
qed

section \<open>The unblocking loop\<close>

text \<open>The threads the loop takes from a queue: those that pass the test, at most \<open>n\<close> unless \<open>n\<close> is negative.\<close>

fun taken :: "('a \<Rightarrow> bool) \<Rightarrow> int \<Rightarrow> 'a list \<Rightarrow> 'a list" where
  "taken c n [] = []"
| "taken c n (x # xs) =
     (if n = 0 then []
      else if c x then x # taken c (if n > 0 then n - 1 else n) xs else taken c n xs)"

lemma taken_0 [simp]: "taken c 0 xs = []"
  by (cases xs) auto

lemma taken_subset: "set (taken c n xs) \<subseteq> {x \<in> set xs. c x}"
  by (induction xs arbitrary: n) auto

lemma taken_all: "taken c (-1) xs = filter c xs"
  by (induction xs) auto

lemma taken_one: "taken c 1 xs = (case find c xs of None \<Rightarrow> [] | Some x \<Rightarrow> [x])"
  by (induction xs) auto

lemma sorted_by_taken: "sorted_by k xs \<Longrightarrow> sorted_by k (taken c n xs)"
  using taken_subset [of c _ "_ :: 'a list"] by (induction xs arbitrary: n) fastforce+

lemma taken_cong:
  "(\<And>x. x \<in> set xs \<Longrightarrow> c x = d x) \<Longrightarrow> taken c n xs = taken d n xs"
  by (induction xs arbitrary: n) auto

definition unblock_result :: "KThrUnblockMode \<Rightarrow> u32 \<Rightarrow> u32 \<Rightarrow> u32" where
  "unblock_result mode ref tok = (if mode = KTHR_UNBLOCK_BY_MASK then tok AND ref else 1)"

text \<open>\<open>unblocked q ts mode ref s s'\<close>: \<open>s'\<close> is \<open>s\<close> with exactly the threads \<open>ts\<close> taken off the queue.\<close>

definition unblocked :: "ptr set \<Rightarrow> KThrUnblockMode \<Rightarrow> u32 \<Rightarrow> kstate \<Rightarrow> kstate \<Rightarrow> bool" where
  "unblocked ts mode ref s s' \<longleftrightarrow> gframe s s' \<and> s_firstThread s' = s_firstThread s \<and> nextT s' = nextT s \<and>
     suspendT s' = suspendT s \<and> prioT s' = prioT s \<and> basepT s' = basepT s \<and>
     wqueueT s' = (\<lambda>u. if u \<in> ts then QNull else wqueueT s u) \<and>
     tokenT s' = (\<lambda>u. if u \<in> ts then unblock_result mode ref (tokenT s u) else tokenT s u) \<and>
     stateT s' = (\<lambda>u. if u \<in> ts \<and> suspendT s u = 0 then KTHR_STATE_RUNNING else stateT s u)"

lemma unblocked_refl [simp]: "unblocked {} mode ref s s"
  by (simp add: unblocked_def)

lemma unblocked_step:
  assumes "unblocked {x} mode ref s s1" "unblocked ts mode ref s1 s2" "x \<notin> ts"
  shows "unblocked (insert x ts) mode ref s s2"
  using assms unfolding unblocked_def by (auto simp: fun_eq_iff intro: gframe_trans)

lemma unblock_one_unblocked:
  assumes ok: "queues_ok s T Q" and q: "valid_q T q" and t: "t \<in> T" "wqueueT s t = q"
  shows "queues_ok (unblock_one q mode ref t s) T (Q(q := remove1 t (Q q))) \<and>
         unblocked {t} mode ref s (unblock_one q mode ref t s) \<and>
         (\<forall>u. u \<notin> set (Q q) \<longrightarrow> lnextT (unblock_one q mode ref t s) u = lnextT s u)"
proof -
  let ?s1 = "KThrQueueRemove q t s"
  have s1: "queues_ok ?s1 T (Q(q := remove1 t (Q q)))" "qframe s ?s1"
      "wqueueT ?s1 = (wqueueT s)(t := QNull)" "\<forall>u. u \<notin> set (Q q) \<longrightarrow> lnextT ?s1 u = lnextT s u"
    using queues_remove [OF ok q t] by auto
  let ?s2 = "set_token t (if mode = KTHR_UNBLOCK_BY_MASK then tokenT ?s1 t AND ref else 1) ?s1"
  have "queues_ok (unblock_one q mode ref t s) T (Q(q := remove1 t (Q q)))"
    using s1(1) queues_ok_cong [of ?s2 ?s1] queues_ok_cong [of "set_state t KTHR_STATE_RUNNING ?s2" ?s1]
    by (simp add: unblock_one_def Let_def)
  moreover have "unblocked {t} mode ref s (unblock_one q mode ref t s)"
    using s1(2,3) by (auto simp: unblock_one_def Let_def unblocked_def unblock_result_def qframe_def
        gframe_def fun_eq_iff)
  moreover have "lnextT (unblock_one q mode ref t s) = lnextT ?s1"
    by (simp add: unblock_one_def Let_def)
  ultimately show ?thesis using s1(4) by simp
qed

lemma TestUnblock_cong: "tokenT s' u = tokenT s u \<Longrightarrow> KThrQueueTestUnblock s' u mode ref = KThrQueueTestUnblock s u mode ref"
  by (cases mode) auto

lemma qlist_lnext:
  assumes "qlist s q (xs @ y # ys)"
  shows "y \<noteq> NULL \<and> lnextT s y = (case ys of [] \<Rightarrow> NULL | z # _ \<Rightarrow> z)"
  using assms by (auto simp: qlist_def dest: dseg_hd)

text \<open>The threads an unblocking call takes, and the one it reschedules to.\<close>

definition unblock_set :: "kstate \<Rightarrow> KThrUnblockMode \<Rightarrow> u32 \<Rightarrow> int \<Rightarrow> ptr list \<Rightarrow> ptr list" where
  "unblock_set s mode ref n ys = taken (\<lambda>u. KThrQueueTestUnblock s u mode ref) n ys"

definition first_awake :: "kstate \<Rightarrow> ptr \<Rightarrow> ptr list \<Rightarrow> ptr" where
  "first_awake s r ts =
     (if r \<noteq> NULL then r else case find (\<lambda>u. suspendT s u = 0) ts of None \<Rightarrow> NULL | Some u \<Rightarrow> u)"

lemma unblock_loop_run:
  assumes "queues_ok s T Q" "valid_q T q" "Q q = xs @ ys" "cur = (case ys of [] \<Rightarrow> NULL | y # _ \<Rightarrow> y)"
  shows "\<exists>s'. unblock_loop q mode ref n cur r s = Some (first_awake s r (unblock_set s mode ref n ys), s') \<and>
     queues_ok s' T (Q(q := xs @ filter (\<lambda>u. u \<notin> set (unblock_set s mode ref n ys)) ys)) \<and>
     unblocked (set (unblock_set s mode ref n ys)) mode ref s s' \<and>
     (\<forall>u. u \<notin> set (xs @ ys) \<longrightarrow> lnextT s' u = lnextT s u)"
  using assms
proof (induction ys arbitrary: xs s Q cur r n)
  case Nil
  have "Q(q := xs) = Q" using Nil.prems(3) by auto
  then show ?case using Nil.prems
    by (subst unblock_loop.simps) (simp add: unblock_set_def first_awake_def)
next
  case (Cons y ys)
  let ?c = "\<lambda>u. KThrQueueTestUnblock s u mode ref"
  note ok = Cons.prems(1) and q = Cons.prems(2)
  have ql: "qlist s q (xs @ y # ys)" using queues_okD(1) [OF ok q] Cons.prems(3) by simp
  have y: "y \<noteq> NULL" "lnextT s y = (case ys of [] \<Rightarrow> NULL | z # _ \<Rightarrow> z)" using qlist_lnext [OF ql] by auto
  have d: "distinct (xs @ y # ys)" using ql by (rule qlist_distinct)
  have yT: "y \<in> T" "wqueueT s y = q"
    using queues_okD(2,3) [OF ok q] Cons.prems(3) by auto
  have cur: "cur = y" using Cons.prems(4) by simp
  consider (stop) "n = 0" | (skip) "n \<noteq> 0" "\<not> ?c y" | (take) "n \<noteq> 0" "?c y" by blast
  then show ?case
  proof cases
    case stop
    have "Q(q := xs @ y # ys) = Q" using Cons.prems(3) by auto
    then show ?thesis using stop ok by (subst unblock_loop.simps) (simp add: unblock_set_def first_awake_def)
  next
    case skip
    have us: "unblock_set s mode ref n (y # ys) = unblock_set s mode ref n ys"
      using skip by (simp add: unblock_set_def)
    have "y \<notin> set (unblock_set s mode ref n ys)"
      using taken_subset [of ?c n ys] skip by (auto simp: unblock_set_def)
    then have fl: "xs @ filter (\<lambda>u. u \<notin> set (unblock_set s mode ref n ys)) (y # ys) =
        (xs @ [y]) @ filter (\<lambda>u. u \<notin> set (unblock_set s mode ref n ys)) ys" by simp
    have "Q q = (xs @ [y]) @ ys" using Cons.prems(3) by simp
    moreover have "unblock_loop q mode ref n cur r s = unblock_loop q mode ref n (lnextT s y) r s"
      using skip cur y(1) by (subst unblock_loop.simps) simp
    ultimately show ?thesis using Cons.IH [OF ok q _ y(2), of "xs @ [y]" n r] unfolding us fl by simp
  next
    case take
    define n' where "n' = (if n > 0 then n - 1 else n)"
    let ?r = "if suspendT s y = 0 \<and> r = NULL then y else r"
    let ?s1 = "unblock_one q mode ref y s"
    let ?ts = "unblock_set s mode ref n' ys"
    have s1: "queues_ok ?s1 T (Q(q := remove1 y (Q q)))" "unblocked {y} mode ref s ?s1"
        "\<forall>u. u \<notin> set (Q q) \<longrightarrow> lnextT ?s1 u = lnextT s u"
      using unblock_one_unblocked [OF ok q yT] by auto
    have rem: "remove1 y (Q q) = xs @ ys" using Cons.prems(3) d by (simp add: remove1_append)
    have tok: "tokenT ?s1 u = tokenT s u" if "u \<in> set ys" for u
      using s1(2) that d by (auto simp: unblocked_def)
    have "taken (\<lambda>u. KThrQueueTestUnblock ?s1 u mode ref) n' ys = taken ?c n' ys"
      by (rule taken_cong) (rule TestUnblock_cong [OF tok])
    then have us1: "unblock_set ?s1 mode ref n' ys = ?ts" by (simp add: unblock_set_def)
    have us: "unblock_set s mode ref n (y # ys) = y # ?ts" using take by (simp add: unblock_set_def n'_def)
    have yts: "y \<notin> set ?ts" using taken_subset [of ?c n' ys] d by (auto simp: unblock_set_def)
    have su: "suspendT ?s1 = suspendT s" using s1(2) by (simp add: unblocked_def)
    obtain s' where s': "unblock_loop q mode ref n' (lnextT s y) ?r ?s1 = Some (first_awake ?s1 ?r ?ts, s')"
        "queues_ok s' T (Q(q := xs @ filter (\<lambda>u. u \<notin> set ?ts) ys))"
        "unblocked (set ?ts) mode ref ?s1 s'" "\<forall>u. u \<notin> set (xs @ ys) \<longrightarrow> lnextT s' u = lnextT ?s1 u"
      using Cons.IH [OF s1(1) q, of xs "lnextT s y" n' ?r] rem y(2) us1
      by (auto simp: fun_upd_def cong: if_cong)
    have "unblock_loop q mode ref n cur r s = unblock_loop q mode ref n' (lnextT s y) ?r ?s1"
      using take cur y(1) by (subst unblock_loop.simps) (simp add: n'_def)
    moreover have "first_awake ?s1 ?r ?ts = first_awake s r (y # ?ts)"
      using y(1) su by (simp add: first_awake_def)
    moreover have "filter (\<lambda>u. u \<notin> set ?ts) ys = filter (\<lambda>u. u \<notin> set (y # ?ts)) (y # ys)"
      using d by (auto intro: filter_cong)
    moreover have "unblocked (set (y # ?ts)) mode ref s s'"
      using unblocked_step [OF s1(2) s'(3) yts] by simp
    ultimately show ?thesis unfolding us using s'(1,2,4) s1(3) Cons.prems(3)
      by (simp add: fun_upd_def)
  qed
qed

section \<open>Waking threads keeps the scheduling invariant\<close>

text \<open>What the woken threads \<open>ts\<close> see, and that no other thread sees anything.\<close>

definition woken :: "ptr set \<Rightarrow> (u32 \<Rightarrow> u32) \<Rightarrow> kstate \<Rightarrow> kstate \<Rightarrow> bool" where
  "woken ts result s s' \<longleftrightarrow>
     (\<forall>u. wqueueT s' u = (if u \<in> ts then QNull else wqueueT s u)) \<and>
     (\<forall>u. tokenT s' u = (if u \<in> ts then result (tokenT s u) else tokenT s u)) \<and>
     (\<forall>u. stateT s' u = (if u \<in> ts \<and> suspendT s u = 0 then KTHR_STATE_RUNNING else stateT s u)) \<and>
     suspendT s' = suspendT s \<and> prioT s' = prioT s \<and> basepT s' = basepT s"

lemma woken_cframe: "woken ts result s s1 \<Longrightarrow> cframe s1 s' \<Longrightarrow> woken ts result s s'"
  by (simp add: woken_def cframe_def)

lemma woken_lock [simp]: "woken ts result (snd (PPCIrqLockByMsr s)) s' = woken ts result s s'"
  unfolding woken_def by simp

lemma woken_kinv:
  assumes k: "kinv s L Q" and ok: "queues_ok s' (set L) (Q(QStatic k := filter (\<lambda>u. u \<notin> ts) (Q (QStatic k))))"
    and ts: "ts \<subseteq> set (Q (QStatic k))" and w: "woken ts result s s'"
    and fr: "s_firstThread s' = s_firstThread s" "nextT s' = nextT s" "mutex_owner s' = mutex_owner s"
  shows "kinv s' L (Q(QStatic k := filter (\<lambda>u. u \<notin> ts) (Q (QStatic k))))"
proof (rule kinv_static [OF k ok])
  note ok0 = kinvD(2) [OF k]
  fix u assume u: "u \<in> set L"
  have "wqueueT s u = QStatic k" if "u \<in> ts"
    using queues_okD(3) [OF ok0, of "QStatic k" u] ts that u by auto
  then show "state_ok s' u"
    using kinvD(5) [OF k u] w by (cases "stateT s u") (auto simp: state_ok_def woken_def)
next
  show "sorted_by (prioT s) ((Q(QStatic k := filter (\<lambda>u. u \<notin> ts) (Q (QStatic k)))) (QStatic j))" for j
    using kinvD(9) [OF k, of "QStatic j"] by (auto intro: sorted_wrt_filter)
qed (use w fr in \<open>auto simp: woken_def split: if_splits\<close>)

lemma woken_least:
  assumes k: "kinv s L Q" and c: "least_run s L (cur_thread s)" and self: "runnable s L (sprg2 s)"
    and ts: "set ts \<subseteq> set (Q (QStatic k))" "sorted_by (prioT s) ts" and w: "woken (set ts) result s s'"
    and reg: "cur_thread s' = cur_thread s" "sprg2 s' = sprg2 s"
  shows "least_but s' L (first_awake s NULL ts)"
proof -
  have tL: "set ts \<subseteq> set L" using queues_okD(2) [OF kinvD(2) [OF k], of "QStatic k"] ts(1) by auto
  have keep: "runnable s' L u" if "runnable s L u" for u
    using that w by (auto simp: runnable_def woken_def)
  have new: "runnable s L u \<or> u \<in> set ts \<and> suspendT s u = 0" if "runnable s' L u" for u
    using that w by (auto simp: runnable_def woken_def split: if_splits)
  have pr: "prioT s' = prioT s" using w by (simp add: woken_def)
  have base: "runnable s' L (cur_thread s')" "runnable s' L (sprg2 s')"
      "prioT s' (cur_thread s') \<le> prioT s' (sprg2 s')"
    using keep c self reg pr by (auto simp: least_run_def)
  show ?thesis
  proof (cases "find (\<lambda>u. suspendT s u = 0) ts")
    case None
    then have "runnable s L u" if "runnable s' L u" for u using new [OF that] by (auto simp: find_None_iff)
    then show ?thesis using None c base reg pr by (auto simp: first_awake_def least_but_def least_run_def)
  next
    case (Some r)
    have r: "r \<in> set ts" "suspendT s r = 0" using find_Some_set [OF Some] by auto
    then have "runnable s' L r" "r \<noteq> NULL"
      using w tL kinvD(6) [OF k, of r] by (auto simp: runnable_def woken_def)
    moreover have "prioT s (cur_thread s) \<le> prioT s u \<or> prioT s r \<le> prioT s u" if "runnable s' L u" for u
      using new [OF that] c sorted_by_find_least [OF ts(2) Some] by (auto simp: least_run_def)
    ultimately show ?thesis using Some base reg pr by (auto simp: first_awake_def least_but_def)
  qed
qed

lemma UnblockCommon_core:
  assumes k: "kinv s L Q" and ts: "ts = unblock_set s mode ref n (Q (QStatic k))"
  shows "\<exists>s2. KThrQueueUnblockCommon (QStatic k) n mode ref s =
       KThreadReschedule (first_awake s NULL ts) (msr s AND MSR_EE) s2 \<and>
     kinv s2 L (Q(QStatic k := filter (\<lambda>u. u \<notin> set ts) (Q (QStatic k)))) \<and>
     woken (set ts) (unblock_result mode ref) s s2 \<and> gframe (snd (PPCIrqLockByMsr s)) s2 \<and>
     set ts \<subseteq> set (Q (QStatic k)) \<and> sorted_by (prioT s) ts \<and>
     (\<forall>u. u \<notin> set (Q (QStatic k)) \<longrightarrow> lnextT s2 u = lnextT s u)"
proof -
  let ?q = "QStatic k"
  let ?Q = "Q(?q := filter (\<lambda>u. u \<notin> set ts) (Q ?q))"
  let ?s1 = "snd (PPCIrqLockByMsr s)"
  have k1: "kinv ?s1 L Q" using k by simp
  have ts1: "unblock_set ?s1 mode ref n (Q ?q) = ts"
    unfolding ts unblock_set_def by (rule taken_cong) (simp add: TestUnblock_cong [of ?s1])
  have hd: "q_next (getq ?s1 ?q) = (case Q ?q of [] \<Rightarrow> NULL | y # _ \<Rightarrow> y)"
    using queues_okD(1) [OF kinvD(2) [OF k1], of ?q] by (auto simp: qlist_def dest: dseg_hd)
  obtain s2 where s2: "unblock_loop ?q mode ref n (q_next (getq ?s1 ?q)) NULL ?s1 =
        Some (first_awake ?s1 NULL ts, s2)" "queues_ok s2 (set L) ?Q" "unblocked (set ts) mode ref ?s1 s2"
      "\<forall>u. u \<notin> set (Q ?q) \<longrightarrow> lnextT s2 u = lnextT ?s1 u"
    using unblock_loop_run [where xs = "[]" and q = ?q and mode = mode and ref = ref and n = n and r = NULL,
        OF kinvD(2) [OF k1] _ _ hd] unfolding ts1 by auto
  have w: "woken (set ts) (unblock_result mode ref) ?s1 s2"
    using s2(3) by (simp add: woken_def unblocked_def)
  have g: "gframe ?s1 s2" and fr: "s_firstThread s2 = s_firstThread ?s1" "nextT s2 = nextT ?s1"
    using s2(3) by (simp_all add: unblocked_def)
  have sub: "set ts \<subseteq> set (Q ?q)" unfolding ts unblock_set_def using taken_subset by fast
  have srt: "sorted_by (prioT s) ts"
    unfolding ts unblock_set_def using kinvD(9) [OF k, of ?q] by (simp add: sorted_by_taken)
  have kv: "kinv s2 L ?Q"
    using woken_kinv [OF k1 s2(2) sub w fr] g by (simp add: gframe_def)
  have fa: "first_awake ?s1 NULL ts = first_awake s NULL ts" by (simp add: first_awake_def)
  have "KThrQueueUnblockCommon ?q n mode ref s =
      KThreadReschedule (first_awake s NULL ts) (msr s AND MSR_EE) s2"
    using s2(1) unfolding fa by (simp add: KThrQueueUnblockCommon_def split_beta Let_def)
  then show ?thesis using kv w g sub srt s2(4) by (intro exI [of _ s2]) simp
qed

lemma UnblockCommon_sched:
  assumes k: "ksched s L Q" and self: "runnable s L (sprg2 s)"
    and ts: "ts = unblock_set s mode ref n (Q (QStatic k))"
  shows "\<exists>s'. KThrQueueUnblockCommon (QStatic k) n mode ref s = Some s' \<and>
     ksched s' L (Q(QStatic k := filter (\<lambda>u. u \<notin> set ts) (Q (QStatic k)))) \<and>
     woken (set ts) (unblock_result mode ref) s s'"
proof -
  let ?Q = "Q(QStatic k := filter (\<lambda>u. u \<notin> set ts) (Q (QStatic k)))"
  note D = kschedD [OF k]
  obtain s2 where s2: "KThrQueueUnblockCommon (QStatic k) n mode ref s =
        KThreadReschedule (first_awake s NULL ts) (msr s AND MSR_EE) s2" "kinv s2 L ?Q"
      "woken (set ts) (unblock_result mode ref) s s2" "gframe (snd (PPCIrqLockByMsr s)) s2"
      "set ts \<subseteq> set (Q (QStatic k))" "sorted_by (prioT s) ts"
    using UnblockCommon_core [OF D(1) ts] by blast
  have reg: "cur_thread s2 = cur_thread s" "sprg2 s2 = sprg2 s" "next_ok s2"
    using gframe_cur [OF s2(4)] gframe_next_ok [OF s2(4)] s2(4) D(5) by (auto simp: gframe_def)
  obtain s' where s': "KThreadReschedule (first_awake s NULL ts) (msr s AND MSR_EE) s2 = Some s'"
      "cframe s2 s'" "sched_ok s' L" "sprg2 s' \<in> set L" "next_ok s'"
    using Reschedule_least [OF woken_least [OF D(1,3) self s2(5,6,3) reg(1,2)] reg(3)] by blast
  have "wait_acyclic s2 (set L)"
    using D(2) by (rule wait_acyclic_drop) (use s2(3) in \<open>auto simp: woken_def split: if_splits\<close>)
  then have "ksched s' L ?Q" using kschedI [OF s'(2) s2(2) _ s'(3,4,5)] by blast
  then show ?thesis using s2(1) s'(1) woken_cframe [OF s2(3) s'(2)] by auto
qed

lemma KThrQueueCancel_sched:
  assumes k: "ksched s L Q" and self: "runnable s L (sprg2 s)" and t: "t \<in> set L"
  shows "\<exists>s'. KThrQueueCancel (QStatic k) t s = Some s' \<and>
     (if wqueueT s t = QStatic k
      then ksched s' L (Q(QStatic k := filter (\<lambda>u. u \<noteq> t) (Q (QStatic k)))) \<and> woken {t} (\<lambda>_. 0) s s'
      else ksched s' L Q \<and> cframe s s')"
proof -
  let ?q = "QStatic k"
  let ?s1 = "snd (PPCIrqLockByMsr s)"
  note D = kschedD [OF k]
  have k1: "kinv ?s1 L Q" using D(1) by simp
  note ok1 = kinvD(2) [OF k1]
  have st: "state_ok s t" using kinvD(5) [OF D(1) t] .
  show ?thesis
  proof (cases "wqueueT s t = ?q")
    case False
    then have "KThrQueueCancel ?q t s = Some (PPCIrqUnlockByMsr (msr s AND MSR_EE) ?s1)"
      by (simp add: KThrQueueCancel_def split_beta Let_def)
    then show ?thesis using False k cframe_trans [OF lock_cframe unlock_cframe] by simp
  next
    case True
    then have w: "stateT s t = KTHR_STATE_WAITING" using st by (cases "stateT s t") (auto simp: state_ok_def)
    have tin: "t \<in> set (Q ?q)" using queues_okD(3) [OF ok1, of ?q t] t True by simp
    have d: "distinct (Q ?q)" using queues_okD(1) [OF ok1, of ?q] by (simp add: qlist_distinct)
    let ?s2 = "set_token t 0 (KThrQueueRemove ?q t ?s1)"
    let ?s3 = "if suspendT s t = 0 then set_state t KTHR_STATE_RUNNING ?s2 else ?s2"
    let ?Q = "Q(?q := filter (\<lambda>u. u \<noteq> t) (Q ?q))"
    have "remove1 t (Q ?q) = filter (\<lambda>u. u \<noteq> t) (Q ?q)"
      using d by (simp add: distinct_remove1_removeAll removeAll_filter_not_eq eq_commute [of t])
    then have rm: "queues_ok (KThrQueueRemove ?q t ?s1) (set L) ?Q" "qframe ?s1 (KThrQueueRemove ?q t ?s1)"
        "wqueueT (KThrQueueRemove ?q t ?s1) = (wqueueT s)(t := QNull)"
      using queues_remove [OF ok1, of ?q t] t True by auto
    have ok3: "queues_ok ?s3 (set L) ?Q" using rm(1) queues_ok_cong [of ?s3 "KThrQueueRemove ?q t ?s1"] by simp
    have wk: "woken (set [t]) (\<lambda>_. 0) ?s1 ?s3"
      using rm(2,3) by (auto simp: woken_def qframe_def)
    have kv: "kinv ?s3 L ?Q"
      using woken_kinv [OF k1 _ _ wk, of k] ok3 tin rm(2) by (simp add: qframe_def gframe_def)
    have reg: "cur_thread ?s3 = cur_thread s" "sprg2 ?s3 = sprg2 s" "next_ok ?s3"
      using gframe_cur [of ?s1 ?s3] gframe_next_ok [of ?s1 ?s3] rm(2) D(5) by (auto simp: qframe_def gframe_def)
    have b: "least_but ?s3 L (first_awake ?s1 NULL [t])"
      using woken_least [OF k1 _ _ _ _ wk] D(3) self reg(1,2) tin by simp
    have fa: "first_awake ?s1 NULL [t] = (if suspendT s t = 0 then t else NULL)"
      by (simp add: first_awake_def)
    obtain s' where s': "KThreadReschedule (if suspendT s t = 0 then t else NULL) (msr s AND MSR_EE) ?s3 = Some s'"
        "cframe ?s3 s'" "sched_ok s' L" "sprg2 s' \<in> set L" "next_ok s'"
      using Reschedule_least [OF b reg(3), of "msr s"] unfolding fa by blast
    have "wait_acyclic ?s3 (set L)"
      using D(2) by (rule wait_acyclic_drop) (use wk in \<open>auto simp: woken_def split: if_splits\<close>)
    then have "ksched s' L ?Q" using kschedI [OF s'(2) kv _ s'(3,4,5)] by blast
    moreover have "KThrQueueCancel ?q t s = Some s'"
      using s'(1) True w rm(2) by (auto simp: KThrQueueCancel_def split_beta Let_def qframe_def)
    moreover have "woken {t} (\<lambda>_. 0) s s'" using woken_cframe [OF wk s'(2)] by simp
    ultimately show ?thesis using True by simp
  qed
qed

end
