(* ===== verification/KLife.thy ===== *)
theory KLife
  imports KBlock
begin

text \<open>
  The life of a thread: initialisation of the kernel, preparing a thread, changing its priority,
  sleeping, joining, and exit.
\<close>

section \<open>Changing a priority\<close>

lemma set_basep_others:
  assumes "prio_ok s Q (set L)" "u \<in> set L" "u \<noteq> t"
  shows "prioT (set_basep t p s) u = eff_prio (set_basep t p s) Q u"
  using assms by (auto simp: prio_ok_def eff_prio_def split: list.splits)

lemma set_basep_kwf: "kwf (set_basep t p s) L Q = kwf s L Q"
  by (simp add: kwf_def thread_list_def queues_ok_def qlist_def state_ok_def)

lemma set_basep_mutex: "mutex_ok (set_basep t p s) T = mutex_ok s T"
  by (simp add: mutex_ok_def)

lemma set_basep_update:
  assumes k: "kinv s L Q" and ac: "wait_acyclic s (set L)" and t: "t \<in> set L"
  shows "\<exists>s' L' Q'. KThreadUpdateDynamicPrio t (set_basep t p s) = Some s' \<and>
     prio_updated t (set_basep t p s) L Q s' L' Q'"
proof -
  let ?s = "set_basep t p s"
  obtain rank where "wait_rank s (set L) rank" using ac by (auto simp: wait_acyclic_def)
  then have "wait_rank ?s (set L) rank" by (simp add: wait_rank_def)
  then show ?thesis
    using update_prio [of ?s L Q t rank] set_basep_others [OF kinvD(8) [OF k]] kinvD(1,7) [OF k] t
    by (auto simp: set_basep_kwf set_basep_mutex)
qed

lemma KThreadSetPrio_sched:
  assumes k: "ksched s L Q" and t: "t \<in> set L" and ex: "\<not> PPCIsInExcpt s"
    and nm: "\<And>p. wqueueT s t \<noteq> QWaiters p"
  shows "\<exists>s' L' Q'. KThreadSetPrio t prio s = Some s' \<and> ksched s' L' Q' \<and> mset L' = mset L \<and>
     (\<forall>q. mset (Q' q) = mset (Q q)) \<and> basepT s' = (basepT s)(t := prio AND KTHR_MIN_PRIO) \<and> stateT s' = stateT s"
proof -
  let ?self = "sprg2 s"
  let ?s1 = "snd (PPCIrqLockByMsr s)"
  let ?p = "prio AND KTHR_MIN_PRIO"
  let ?sb = "set_basep t ?p ?s1"
  note D = kschedD [OF k]
  have k1: "kinv ?s1 L Q" using D(1) by simp
  have ac1: "wait_acyclic ?s1 (set L)" using D(2) by (simp add: cframe_rank [OF lock_cframe])
  obtain s2 L2 Q2 where s2: "KThreadUpdateDynamicPrio t ?sb = Some s2" "prio_updated t ?sb L Q s2 L2 Q2"
    using set_basep_update [OF k1 ac1 t] by blast
  have u: "uframe ?sb s2" and kv: "kinv s2 L2 Q2" and ml: "mset L2 = mset L" and mq: "\<forall>q. mset (Q2 q) = mset (Q q)"
    and pr: "prioT s2 = (prioT s)(t := eff_prio ?sb Q t)"
    using s2(2) nm by (auto simp: prio_updated_def)
  have set_eq: "set L2 = set L" using ml by (metis set_mset_mset)
  have f: "stateT s2 = stateT s" "wqueueT s2 = wqueueT s" "basepT s2 = (basepT s)(t := ?p)" "sprg2 s2 = ?self"
      "ppc_next_ctx s2 = ppc_next_ctx s"
    using u by (simp_all add: uframe_def gframe_def)
  have g: "gframe ?sb s2" using u by (simp add: uframe_def)
  have nx: "next_ok s2" using gframe_next_ok [OF g] D(5) by (simp add: next_ok_def)
  have cur: "cur_thread s2 = ?self" "cur_thread s = ?self" using D(5) ex f by (auto simp: cur_thread_def next_ok_def)
  have r: "runnable s2 L2 = runnable s L" using f(1) set_eq by (auto simp: runnable_def fun_eq_iff)
  have lr: "runnable s L ?self" "\<And>v. runnable s L v \<Longrightarrow> prioT s ?self \<le> prioT s v"
    using D(3) cur by (auto simp: least_run_def)
  have ac: "wait_acyclic s2 (set L2)" using wait_acyclic_keep [OF D(2), of s2] f set_eq by simp
  obtain n where n: "KThreadFindRunnable s2 (s_firstThread s2) = Some n" "least_run s2 L2 n"
    using FindRunnable_least [OF kinvD(1) [OF kv], of ?self] lr(1) r by auto
  define nxt where "nxt = (if t = ?self then (if prioT s2 ?self > prioT s ?self then n else NULL)
      else if stateT s2 t = KTHR_STATE_RUNNING then t else NULL)"
  have "least_but s2 L2 nxt"
  proof (cases "t = ?self")
    case True
    have n0: "n \<noteq> NULL" using n(2) kinvD(6) [OF kv, of n] by (simp add: least_run_def runnable_def)
    have le: "prioT s2 ?self \<le> prioT s2 v" if "runnable s L v" "\<not> prioT s2 ?self > prioT s ?self" for v
      using that lr(2) [OF that(1)] pr True by (auto simp: not_less intro: order_trans)
    show ?thesis
    proof (cases "prioT s2 ?self > prioT s ?self")
      case True
      then show ?thesis using lr(1) n n0 f(4) \<open>t = ?self\<close> by (simp add: least_but_def nxt_def cur r least_run_def)
    next
      case False
      then show ?thesis using lr(1) le f(4) \<open>t = ?self\<close> by (simp add: least_but_def nxt_def cur r)
    qed
  next
    case False
    moreover have "t \<noteq> NULL" using kinvD(6) [OF D(1) t] .
    ultimately show ?thesis
      using lr pr f(1,4) t by (auto simp: least_but_def nxt_def cur r) (auto simp: runnable_def)
  qed
  then obtain s' where s': "KThreadReschedule nxt (msr s AND MSR_EE) s2 = Some s'" "cframe s2 s'" "sched_ok s' L2"
      "sprg2 s' \<in> set L2" "next_ok s'"
    using Reschedule_least nx by blast
  have "KThreadSetPrio t prio s = Some s'"
    using s2(1) n(1) s'(1) f(4) by (auto simp: KThreadSetPrio_def split_beta Let_def nxt_def split: if_splits)
  moreover have "ksched s' L2 Q2" using kschedI [OF s'(2) kv ac s'(3,4,5)] .
  ultimately show ?thesis using ml mq f s'(2) by (auto simp: cframe_def)
qed

section \<open>Creating threads\<close>

text \<open>A fresh thread record at \<open>t\<close>, not yet in the list.\<close>

lemma fresh_queues:
  assumes ok: "queues_ok s T Q" and t: "t \<notin> T" "t \<noteq> NULL"
    and s1: "s1 = s\<lparr>threads := (threads s)(t := k)\<rparr>" "t_wqueue k = QNull" "t_waiters k = zero_queue"
  shows "queues_ok s1 (insert t T) (Q(QWaiters t := []))"
proof -
  have f: "wqueueT s1 = (wqueueT s)(t := QNull)" "getq s1 = (getq s)(QWaiters t := zero_queue)"
      "\<And>u. u \<noteq> t \<Longrightarrow> lnextT s1 u = lnextT s u \<and> lprevT s1 u = lprevT s u"
  proof -
    show "wqueueT s1 = (wqueueT s)(t := QNull)" by (auto simp: s1 wqueueT_def fun_eq_iff)
    show "getq s1 = (getq s)(QWaiters t := zero_queue)"
    proof
      show "getq s1 q = ((getq s)(QWaiters t := zero_queue)) q" for q
        by (cases q) (auto simp: s1 waitersT_def)
    qed
    show "lnextT s1 u = lnextT s u \<and> lprevT s1 u = lprevT s u" if "u \<noteq> t" for u
      using that by (simp add: s1 lnextT_def lprevT_def)
  qed
  have old: "qlist s1 q (Q q) \<and> set (Q q) \<subseteq> T" if "valid_q T q" for q
  proof -
    have "q \<noteq> QWaiters t" using that t by auto
    moreover have "t \<notin> set (Q q)" using queues_okD(2) [OF ok that] t by auto
    ultimately have "qlist s1 q (Q q) = qlist s q (Q q)" using f(2,3) by (intro qlist_cong) (metis, simp)
    then show ?thesis using queues_okD [OF ok that] by simp
  qed
  have vq: "valid_q (insert t T) q \<longleftrightarrow> valid_q T q \<or> q = QWaiters t" for q by (cases q) auto
  show ?thesis unfolding queues_ok_def
  proof (intro conjI allI impI ballI)
    fix q assume q: "valid_q (insert t T) q"
    have e: "qlist s1 (QWaiters t) []" using f(2) by (simp add: qlist_def zero_queue_def)
    show "qlist s1 q ((Q(QWaiters t := [])) q)" "set ((Q(QWaiters t := [])) q) \<subseteq> insert t T"
      using old [of q] e q by (auto simp: vq)
  next
    fix u q assume u: "u \<in> insert t T" and q: "valid_q (insert t T) q"
    have nw: "wqueueT s u \<noteq> QWaiters t" if "u \<in> T" using that ok t by (auto simp: queues_ok_def)
    show "u \<in> set ((Q(QWaiters t := [])) q) \<longleftrightarrow> wqueueT s1 u = q"
      using u q old queues_okD(3) [OF ok, of q u] nw t f(1) by (auto simp: vq)
  next
    fix u assume "u \<in> insert t T"
    then show "wqueueT s1 u = QNull \<or> valid_q (insert t T) (wqueueT s1 u)"
      using ok f(1) by (auto simp: queues_ok_def vq)
  qed
qed

lemma KThreadPrepare_sched:
  assumes k: "ksched s L Q" and t: "t \<notin> set L" "t \<noteq> NULL"
  shows "\<exists>s' L'. KThreadPrepare env t pc arg sp prio s = Some s' \<and> ksched s' L' (Q(QWaiters t := [])) \<and>
     mset L' = add_mset t (mset L) \<and> stateT s' t = KTHR_STATE_WAITING \<and> suspendT s' t = 1 \<and>
     prioT s' t = prio AND KTHR_MIN_PRIO \<and> wqueueT s' t = QNull \<and>
     (\<forall>u. u \<noteq> t \<longrightarrow> stateT s' u = stateT s u \<and> prioT s' u = prioT s u)"
proof -
  define p where "p = prio AND KTHR_MIN_PRIO"
  define c where "c = \<lparr>ctx_pc = pc, ctx_msr = MSR_EE OR MSR_ME OR MSR_IR OR MSR_DR OR MSR_RI,
      ctx_lr = addr_KThreadExit env,
      ctx_gpr = (\<lambda>_. 0)(1 := if sp AND NOT 7 \<noteq> 0 then (sp AND NOT 7) - 8 else sp AND NOT 7,
        2 := addr_SDA2_BASE env, 3 := arg, 13 := addr_SDA_BASE env)\<rparr>"
  define kt where "kt = zero_thread\<lparr>t_ctx := c, t_state := KTHR_STATE_WAITING, t_suspend := 1,
      t_prio := p, t_baseprio := p\<rparr>"
  define s1 where "s1 = s\<lparr>threads := (threads s)(t := kt)\<rparr>"
  define s2 where "s2 = (if sp AND NOT 7 \<noteq> 0
      then s1\<lparr>stack_mem := (stack_mem s1)((sp AND NOT 7) - 8 := 0xffffffff)\<rparr> else s1)"
  define s3 where "s3 = snd (PPCIrqLockByMsr s2)"
  note D = kschedD [OF k]
  have f1: "stateT s1 = (stateT s)(t := KTHR_STATE_WAITING)" "suspendT s1 = (suspendT s)(t := 1)"
      "prioT s1 = (prioT s)(t := p)" "basepT s1 = (basepT s)(t := p)" "wqueueT s1 = (wqueueT s)(t := QNull)"
      "nextT s1 = (nextT s)(t := NULL)" "\<And>u. u \<noteq> t \<Longrightarrow> tokenT s1 u = tokenT s u"
    by (auto simp: s1_def kt_def zero_thread_def thr_acc_defs fun_eq_iff)
  have c13: "cframe s1 s3" unfolding s3_def s2_def
    by (rule cframe_trans [OF _ lock_cframe]) (simp add: cframe_def)
  have r2: "msr s2 = msr s" "sprg2 s2 = sprg2 s" "ppc_next_ctx s2 = ppc_next_ctx s" by (simp_all add: s2_def s1_def)
  have reg: "cur_thread s3 = cur_thread s" "sprg2 s3 = sprg2 s" "next_ok s3"
    using D(5) excpt_msr [OF r2(1)] r2 by (simp_all add: s3_def cur_thread_def next_ok_def)
  have q3: "queues_ok s3 (insert t (set L)) (Q(QWaiters t := []))"
    using fresh_queues [OF kinvD(2) [OF D(1)] t s1_def] c13
    by (simp add: kt_def zero_thread_def queues_ok_def qlist_def cframe_def)
  have "thread_list s3 L"
    using kinvD(3) [OF D(1)] c13 f1(6) t by (simp add: thread_list_def cframe_def s1_def)
  then obtain s4 where s4: "KThreadEnqueue t s3 = Some s4"
      "thread_list s4 (ins_after (\<lambda>y. prioT s3 y \<le> prioT s3 t) t L)" "gframe s3 s4" "stateT s4 = stateT s3"
      "suspendT s4 = suspendT s3" "prioT s4 = prioT s3" "basepT s4 = basepT s3" "tokenT s4 = tokenT s3"
      "wqueueT s4 = wqueueT s3" "lnextT s4 = lnextT s3" "lprevT s4 = lprevT s3" "getq s4 = getq s3"
    using KThreadEnqueue_list [of s3 L t] t by blast
  let ?L = "ins_after (\<lambda>y. prioT s3 y \<le> prioT s3 t) t L"
  let ?Q = "Q(QWaiters t := [])"
  have f4: "stateT s4 = (stateT s)(t := KTHR_STATE_WAITING)" "suspendT s4 = (suspendT s)(t := 1)"
      "prioT s4 = (prioT s)(t := p)" "basepT s4 = (basepT s)(t := p)" "wqueueT s4 = (wqueueT s)(t := QNull)"
      "\<And>u. u \<noteq> t \<Longrightarrow> tokenT s4 u = tokenT s u" "mutex_owner s4 = mutex_owner s"
    using s4 f1 c13 by (auto simp: cframe_def gframe_def s1_def)
  have pL: "sorted_by (prioT s3) xs = sorted_by (prioT s) xs" if "t \<notin> set xs" for xs
    using that f1(3) c13 by (intro sorted_by_cong) (auto simp: cframe_def)
  have nin: "t \<notin> set (Q q)" if "valid_q (set L) q" for q using queues_okD(2) [OF kinvD(2) [OF D(1)] that] t by auto
  have kw: "kwf s4 ?L ?Q" unfolding kwf_def
  proof (intro conjI allI impI ballI)
    show "sorted_by (prioT s4) ?L" using pL [OF t(1)] kinvD(4) [OF D(1)] s4(6) sorted_by_ins_after by metis
    show "queues_ok s4 (set ?L) ?Q" using q3 s4(9-12) by (simp add: queues_ok_def qlist_def)
  next
    fix q assume q: "valid_q (set ?L) q"
    show "sorted_by (prioT s4) (?Q q)"
    proof (cases "q = QWaiters t")
      case False
      then have v: "valid_q (set L) q" using q by (cases q) auto
      then show ?thesis using False pL [OF nin [OF v]] kinvD(9) [OF D(1) v] s4(6) by simp
    qed simp
  next
    show "state_ok s4 u" if "u \<in> set ?L" for u
      using that kinvD(5) [OF D(1), of u] f4 by (auto simp: state_ok_def)
  qed (rule s4(2))
  have nw: "wqueueT s u \<noteq> QWaiters t" if "u \<in> set L" for u
    using kinvD(2) [OF D(1)] that t by (auto simp: queues_ok_def)
  have "mutex_ok s4 (set ?L)"
    using kinvD(7) [OF D(1)] f4 by (auto simp: mutex_ok_def)
  moreover have "prio_ok s4 ?Q (set ?L)" unfolding prio_ok_def
  proof
    fix u assume u: "u \<in> set ?L"
    show "prioT s4 u = eff_prio s4 ?Q u"
    proof (cases "u = t")
      case False
      then have "u \<in> set L" using u by simp
      then have "eff_prio s4 ?Q u = eff_prio s Q u"
        using False nin [of "QWaiters u"] f4 by (intro eff_prio_cong) auto
      then show ?thesis using kinvD(8) [OF D(1)] \<open>u \<in> set L\<close> False f4(3) by (simp add: prio_ok_def)
    qed (simp add: eff_prio_def f4)
  qed
  ultimately have kv: "kinv s4 ?L ?Q" using kw by (simp add: kinv_def)
  obtain rank where rk: "wait_rank s (set L) rank" using D(2) by (auto simp: wait_acyclic_def)
  have ac: "wait_acyclic s4 (set ?L)" unfolding wait_acyclic_def
    using rk f4(5) by (intro exI [of _ rank]) (auto simp: wait_rank_def)
  have reg4: "cur_thread s4 = cur_thread s" "sprg2 s4 = sprg2 s" "next_ok s4"
    using reg gframe_cur [OF s4(3)] gframe_next_ok [OF s4(3)] s4(3) by (auto simp: gframe_def)
  have "least_run s4 ?L (cur_thread s)"
    using D(3) f4(1,3) t(1) by (auto simp: least_run_def runnable_def)
  then have ks: "ksched s4 ?L ?Q" using kv ac reg4 D(4) by (simp add: ksched_def sched_ok_least)
  have run: "KThreadPrepare env t pc arg sp prio s = Some (PPCIrqUnlockByMsr (msr s2 AND MSR_EE) s4)"
    using s4(1) unfolding KThreadPrepare_def Let_def p_def [symmetric] c_def [symmetric] kt_def [symmetric]
      s1_def [symmetric] split_beta by (auto simp: s3_def s2_def)
  then show ?thesis using ks f4 by (intro exI [of _ "PPCIrqUnlockByMsr (msr s2 AND MSR_EE) s4"] exI [of _ ?L])
      (simp add: p_def)
qed

text \<open>The kernel starts with the main thread running and the idle thread behind it.\<close>

lemma KThreadInit_sched:
  assumes z: "threads s = (\<lambda>_. zero_thread)" "squeues s = (\<lambda>_. zero_queue)"
    and ne: "mainT \<noteq> idleT" "mainT \<noteq> NULL" "idleT \<noteq> NULL"
    and reg: "\<not> PPCIsInExcpt s" "ppc_next_ctx s = NULL"
  shows "ksched (KThreadInit mainT idleT pc s) [mainT, idleT] (\<lambda>_. [])"
proof -
  define s' where "s' = KThreadInit mainT idleT pc s"
  have f: "s_firstThread s' = mainT" "nextT s' = (\<lambda>_. NULL)(mainT := idleT)"
      "stateT s' = (\<lambda>_. KTHR_STATE_UNINIT)(mainT := KTHR_STATE_RUNNING, idleT := KTHR_STATE_RUNNING)"
      "prioT s' = (\<lambda>_. 0)(mainT := 0x3f, idleT := 0x80)" "basepT s' = (\<lambda>_. 0)(mainT := 0x3f, idleT := 0x80)"
      "suspendT s' = (\<lambda>_. 0)" "wqueueT s' = (\<lambda>_. QNull)" "sprg2 s' = mainT" "ppc_next_ctx s' = NULL"
      "waitersT s' = (\<lambda>_. zero_queue)" "squeues s' = (\<lambda>_. zero_queue)"
    using ne z reg by (auto simp: s'_def KThreadInit_def Let_def upd_thr_def thr_acc_defs zero_thread_def fun_eq_iff)
  have q: "qlist s' q []" if "q \<noteq> QNull" for q
    using that f by (cases q) (auto simp: qlist_def zero_queue_def)
  have "queues_ok s' {mainT, idleT} (\<lambda>_. [])"
    using f(7) q valid_q_nonnull by (auto simp: queues_ok_def)
  then have "kwf s' [mainT, idleT] (\<lambda>_. [])"
    using f ne by (auto simp: kwf_def thread_list_def state_ok_def)
  moreover have "prio_ok s' (\<lambda>_. []) {mainT, idleT}" "mutex_ok s' {mainT, idleT}" "wait_acyclic s' {mainT, idleT}"
    using f by (auto simp: prio_ok_def eff_prio_def mutex_ok_def wait_acyclic_def wait_rank_def)
  moreover have "sched_ok s' [mainT, idleT]" using f ne by (auto simp: sched_ok_def cur_thread_def)
  ultimately show ?thesis using f unfolding s'_def [symmetric]
    by (simp add: ksched_def kinv_def next_ok_def)
qed

section \<open>Exit\<close>

text \<open>Taking a runnable thread that nobody waits for out of the system.\<close>

lemma kinv_leave:
  assumes k: "kinv s L Q" and t: "t \<in> set L" "stateT s t = KTHR_STATE_RUNNING" "Q (QWaiters t) = []"
    and s': "thread_list s' (remove1 t L)" "\<And>u. u \<noteq> t \<Longrightarrow> stateT s' u = stateT s u \<and> lnextT s' u = lnextT s u"
      "suspendT s' = suspendT s" "prioT s' = prioT s" "basepT s' = basepT s" "tokenT s' = tokenT s"
      "wqueueT s' = wqueueT s" "lprevT s' = lprevT s" "getq s' = getq s" "mutex_owner s' = mutex_owner s"
  shows "kinv s' (remove1 t L) Q"
proof -
  note ok = kinvD(2) [OF k]
  have d: "distinct L" using kinvD(1) [OF k] by (rule kwf_distinct)
  have sl: "set (remove1 t L) = set L - {t}" using d by (rule set_remove1_eq)
  have wq: "wqueueT s t = QNull" using kinvD(5) [OF k t(1)] t(2) by (rule state_okD(2))
  have nin: "t \<notin> set (Q q)" if "valid_q (set L) q" for q using queues_okD(3) [OF ok that t(1)] wq that by auto
  have vq: "valid_q (set L - {t}) q \<longleftrightarrow> valid_q (set L) q \<and> q \<noteq> QWaiters t" for q by (cases q) auto
  have nw: "wqueueT s u \<noteq> QWaiters t" if "u \<in> set L" for u
    using queues_okD(3) [OF ok, of "QWaiters t" u] that t by simp
  have ql: "qlist s' q (Q q) = qlist s q (Q q)" if "valid_q (set L) q" for q
    using nin [OF that] s'(2,8,9) by (intro qlist_cong) (metis, simp)
  have "queues_ok s' (set L - {t}) Q"
    unfolding queues_ok_def
  proof (intro conjI allI impI ballI)
    fix q assume "valid_q (set L - {t}) q"
    then have v: "valid_q (set L) q" by (simp add: vq)
    show "qlist s' q (Q q)" "set (Q q) \<subseteq> set L - {t}"
      using ql [OF v] queues_okD(1,2) [OF ok v] nin [OF v] by auto
    show "u \<in> set (Q q) \<longleftrightarrow> wqueueT s' u = q" if "u \<in> set L - {t}" for u
      using queues_okD(3) [OF ok v] that s'(7) by simp
  next
    fix u assume "u \<in> set L - {t}"
    then show "wqueueT s' u = QNull \<or> valid_q (set L - {t}) (wqueueT s' u)"
      using ok nw s'(7) by (auto simp: queues_ok_def vq)
  qed
  then have "kwf s' (remove1 t L) Q"
    using s' kinvD(4,5,9) [OF k] by (auto simp: kwf_def sl vq state_ok_def sorted_wrt_remove1)
  moreover have "mutex_ok s' (set (remove1 t L))" using kinvD(7) [OF k] s' by (auto simp: mutex_ok_def sl)
  moreover have "prio_ok s' Q (set (remove1 t L))"
    using kinvD(8) [OF k] s'(4,5) by (auto simp: prio_ok_def sl eff_prio_def split: list.splits)
  ultimately show ?thesis by (simp add: kinv_def)
qed

lemma jump_ksched:
  assumes "kinv s L Q" "wait_acyclic s (set L)" "least_run s L t"
  shows "ksched (PPCContextJump t s) L Q"
proof (rule kschedI [OF jump_cframe assms(1,2)])
  have r: "sprg2 (PPCContextJump t s) = t" "ppc_next_ctx (PPCContextJump t s) = NULL"
    by (simp_all add: PPCContextJump_def)
  then show "sched_ok (PPCContextJump t s) L"
    using assms(3) by (simp add: sched_ok_least cframe_least [OF jump_cframe] cur_thread_def)
  show "sprg2 (PPCContextJump t s) \<in> set L" "next_ok (PPCContextJump t s)"
    using r assms(3) by (simp_all add: least_run_def runnable_def next_ok_def)
qed

lemma kinv_cframe_trans: "kinv s L Q \<Longrightarrow> cframe s s' \<Longrightarrow> kinv s' L Q"
  by (simp add: cframe_kinv)

text \<open>The choice at the end of \<open>KThreadExit\<close>: a joiner more urgent than the dead thread, or the first runnable.\<close>

lemma exit_choice:
  assumes k: "kinv s L Q" and i: "runnable s L i" and nx: "ppc_next_ctx s = NULL" and ex: "PPCIsInExcpt s"
    and r: "r \<noteq> NULL \<longrightarrow> runnable s L r"
    and least: "\<And>u. runnable s L u \<Longrightarrow> prioT s (sprg2 s) \<le> prioT s u \<or> r \<noteq> NULL \<and> prioT s r \<le> prioT s u"
  shows "\<exists>s4 n. KThreadReschedule r (m AND MSR_EE) s = Some s4 \<and> cframe s s4 \<and> n \<noteq> NULL \<and> least_run s L n \<and>
     (if ppc_next_ctx s4 = NULL then KThreadFindRunnable s4 (s_firstThread s4) else Some (ppc_next_ctx s4)) = Some n \<and>
     threads s4 = threads s"
proof (cases "r \<noteq> NULL \<and> prioT s r < prioT s (sprg2 s)")
  case True
  let ?s4 = "PPCIrqUnlockByMsr (m AND MSR_EE) (s\<lparr>ppc_next_ctx := r\<rparr>)"
  have "KThreadReschedule r (m AND MSR_EE) s = Some ?s4"
    using True nx ex by (simp add: KThreadReschedule_def KThreadSwitchTo_def)
  moreover have "cframe s ?s4" by (rule cframe_trans [OF cframe_globals(3) unlock_cframe])
  moreover have "least_run s L r"
    using True r least by (auto simp: least_run_def intro: order_trans less_imp_le)
  ultimately show ?thesis using True by (intro exI [of _ ?s4] exI [of _ r]) simp
next
  case False
  let ?s4 = "PPCIrqUnlockByMsr (m AND MSR_EE) s"
  have "KThreadReschedule r (m AND MSR_EE) s = Some ?s4" using False by (auto simp: KThreadReschedule_def)
  moreover obtain n where "KThreadFindRunnable ?s4 (s_firstThread ?s4) = Some n" "least_run s L n"
    using FindRunnable_least [of ?s4 L Q i] kinv_cframe_trans [OF k, THEN kinvD(1)] i by auto
  moreover have "n \<noteq> NULL" if "least_run s L n" for n
    using that kinvD(6) [OF k] by (auto simp: least_run_def runnable_def)
  ultimately show ?thesis using nx by (intro exI [of _ ?s4] exI [of _ n]) auto
qed

lemma msr_no_RI: "PPCIsInExcpt (s\<lparr>msr := m AND NOT (MSR_EE OR MSR_FP OR MSR_RI)\<rparr>)"
proof -
  have "NOT MSR_RI AND MSR_RI = 0" by simp
  then show ?thesis by (simp add: PPCIsInExcpt_def and.assoc)
qed

lemma KThreadExit_sched:
  assumes k: "ksched s L Q" and ex: "\<not> PPCIsInExcpt s" and i: "runnable s L i" "i \<noteq> sprg2 s"
    and nw: "Q (QWaiters (sprg2 s)) = []"
    and ts: "ts = filter (\<lambda>u. tokenT s u = sprg2 s) (Q (QStatic S_joinQueue))"
  shows "\<exists>s'. KThreadExit rc s = Some s' \<and>
     ksched s' (remove1 (sprg2 s) L)
       (Q(QStatic S_joinQueue := filter (\<lambda>u. u \<notin> set ts) (Q (QStatic S_joinQueue)))) \<and>
     stateT s' (sprg2 s) = KTHR_STATE_FINISHED \<and> lnextT s' (sprg2 s) = rc \<and>
     (\<forall>u\<in>set ts. wqueueT s' u = QNull \<and> tokenT s' u = 1 \<and>
        (suspendT s u = 0 \<longrightarrow> stateT s' u = KTHR_STATE_RUNNING)) \<and>
     (\<forall>u. runnable s L u \<longrightarrow> u \<noteq> sprg2 s \<longrightarrow> runnable s' (remove1 (sprg2 s) L) u)"
proof -
  let ?self = "sprg2 s"
  let ?L = "remove1 ?self L"
  let ?q = "QStatic S_joinQueue"
  define s2 where "s2 = (let s1 = s\<lparr>msr := msr s AND NOT (MSR_EE OR MSR_FP OR MSR_RI)\<rparr> in
      if sprg3 s1 = ?self then s1\<lparr>sprg3 := NULL\<rparr> else s1)"
  note D = kschedD [OF k]
  have cur: "cur_thread s = ?self" using D(5) ex by (simp add: cur_thread_def next_ok_def)
  have sl: "?self \<in> set L" "stateT s ?self = KTHR_STATE_RUNNING" using D(3) cur by (auto simp: least_run_def runnable_def)
  have c2: "cframe s s2" by (simp add: s2_def Let_def cframe_def)
  have k2: "kinv s2 L Q" using kinv_cframe_trans [OF D(1) c2] .
  have r2: "sprg2 s2 = ?self" "ppc_next_ctx s2 = NULL" "PPCIsInExcpt s2"
    using D(5) ex msr_no_RI by (auto simp: s2_def Let_def next_ok_def PPCIsInExcpt_def)
  have d: "distinct L" using kinvD(1) [OF D(1)] by (rule kwf_distinct)
  have set_L: "set ?L = set L - {?self}" using d by (rule set_remove1_eq)
  obtain s3 where s3: "KThreadDequeue ?self s2 = Some s3" "thread_list s3 ?L" "gframe s2 s3"
      "stateT s3 = stateT s2" "suspendT s3 = suspendT s2" "prioT s3 = prioT s2" "basepT s3 = basepT s2"
      "tokenT s3 = tokenT s2" "wqueueT s3 = wqueueT s2" "lnextT s3 = lnextT s2" "lprevT s3 = lprevT s2"
      "getq s3 = getq s2"
    using KThreadDequeue_list [OF kinvD(3) [OF k2], of ?self] kinvD(6) [OF D(1) sl(1)] by blast
  define sf where "sf = set_lnext ?self rc (set_state ?self KTHR_STATE_FINISHED s3)"
  have tk: "tokenT sf = tokenT s" and su: "suspendT sf = suspendT s" and pr: "prioT sf = prioT s"
    and wq: "wqueueT sf = wqueueT s" and st: "stateT sf = (stateT s)(?self := KTHR_STATE_FINISHED)"
    using s3 c2 by (simp_all add: sf_def cframe_def)
  have kf: "kinv sf ?L Q"
    using s3 c2 by (intro kinv_leave [OF k2 sl(1) _ nw]) (auto simp: sf_def cframe_def sl(2) thread_list_def gframe_def)
  have rf: "sprg2 sf = ?self" "ppc_next_ctx sf = NULL" "PPCIsInExcpt sf"
    using s3(3) r2 by (auto simp: sf_def gframe_def PPCIsInExcpt_def)
  have tsf: "ts = unblock_set sf KTHR_UNBLOCK_BY_VALUE ?self (-1) (Q ?q)"
    by (simp add: ts unblock_set_def taken_all tk)
  obtain s5 where s5: "KThrQueueUnblockCommon ?q (-1) KTHR_UNBLOCK_BY_VALUE ?self sf =
        KThreadReschedule (first_awake sf NULL ts) (msr sf AND MSR_EE) s5"
      "kinv s5 ?L (Q(?q := filter (\<lambda>u. u \<notin> set ts) (Q ?q)))"
      "woken (set ts) (unblock_result KTHR_UNBLOCK_BY_VALUE ?self) sf s5" "gframe (snd (PPCIrqLockByMsr sf)) s5"
      "set ts \<subseteq> set (Q ?q)" "sorted_by (prioT sf) ts" "\<forall>u. u \<notin> set (Q ?q) \<longrightarrow> lnextT s5 u = lnextT sf u"
    using UnblockCommon_core [OF kf tsf] by blast
  note w = s5(3) [unfolded woken_def]
  have tsL: "set ts \<subseteq> set ?L" using queues_okD(2) [OF kinvD(2) [OF kf], of ?q] s5(5) by auto
  have self_q: "?self \<notin> set (Q ?q)" using queues_okD(2) [OF kinvD(2) [OF kf], of ?q] set_L by auto
  have r5: "sprg2 s5 = ?self" "ppc_next_ctx s5 = NULL" "PPCIsInExcpt s5"
    using s5(4) rf excpt_msr [of s5 "snd (PPCIrqLockByMsr sf)"] by (auto simp: gframe_def)
  have i5: "runnable s5 ?L i" using i w st set_L by (auto simp: runnable_def)
  have pr5: "prioT s5 = prioT sf" using w by simp
  have least: "runnable s L u \<Longrightarrow> prioT s ?self \<le> prioT s u" for u using D(3) cur by (simp add: least_run_def)
  have new: "runnable s L u \<or> u \<in> set ts \<and> suspendT s u = 0" if "runnable s5 ?L u" for u
    using that w st set_L su by (auto simp: runnable_def split: if_splits)
  obtain s6 n where s6: "KThreadReschedule (first_awake sf NULL ts) (msr sf AND MSR_EE) s5 = Some s6"
      "cframe s5 s6" "n \<noteq> NULL" "least_run s5 ?L n" "(if ppc_next_ctx s6 = NULL
        then KThreadFindRunnable s6 (s_firstThread s6) else Some (ppc_next_ctx s6)) = Some n"
      "threads s6 = threads s5"
  proof (atomize_elim, rule exit_choice [OF s5(2) i5 r5(2,3)])
    show "first_awake sf NULL ts \<noteq> NULL \<longrightarrow> runnable s5 ?L (first_awake sf NULL ts)"
      using w tsL find_Some_set [of "\<lambda>u. suspendT sf u = 0" ts]
      by (auto simp: first_awake_def runnable_def split: option.splits)
  next
    fix u assume u: "runnable s5 ?L u"
    have awake: "first_awake sf NULL ts \<noteq> NULL \<and> prioT sf (first_awake sf NULL ts) \<le> prioT sf u"
      if a: "u \<in> set ts" "suspendT s u = 0"
    proof -
      obtain r where r: "find (\<lambda>u. suspendT sf u = 0) ts = Some r"
        using find_ex [of u ts "\<lambda>u. suspendT sf u = 0"] a su by auto
      then have "r \<noteq> NULL" using find_Some_set [OF r] tsL kinvD(6) [OF kf] by blast
      then show ?thesis using r sorted_by_find_least [OF s5(6) r a(1)] a(2) su by (simp add: first_awake_def)
    qed
    show "prioT s5 (sprg2 s5) \<le> prioT s5 u \<or>
        first_awake sf NULL ts \<noteq> NULL \<and> prioT s5 (first_awake sf NULL ts) \<le> prioT s5 u"
      using new [OF u] awake least pr5 pr r5(1) by auto
  qed
  have k6: "kinv s6 ?L (Q(?q := filter (\<lambda>u. u \<notin> set ts) (Q ?q)))" using kinv_cframe_trans [OF s5(2) s6(2)] .
  obtain rank where rk: "wait_rank s (set L) rank" using D(2) by (auto simp: wait_acyclic_def)
  have wq6: "wqueueT s6 = wqueueT s5" using s6(2) by (simp add: cframe_def)
  have ac: "wait_acyclic s6 (set ?L)" unfolding wait_acyclic_def wait_rank_def
    using rk w wq wq6 set_L by (intro exI [of _ rank]) (auto simp: wait_rank_def split: if_splits)
  have lr: "least_run s6 ?L n" using s6(4) cframe_least [OF s6(2)] by simp
  have run: "KThreadExit rc s = Some (PPCContextJump n s6)"
    using s3(1) s5(1) s6(1,3,5)
    unfolding KThreadExit_def KThrQueueUnblockAllByValue_def Let_def s2_def [symmetric, unfolded Let_def]
    by (simp add: sf_def [symmetric])
  have cj: "cframe s5 (PPCContextJump n s6)" using s6(2) jump_cframe by (rule cframe_trans)
  have "stateT (PPCContextJump n s6) ?self = KTHR_STATE_FINISHED" "lnextT (PPCContextJump n s6) ?self = rc"
    using cj w st s5(7) self_q tsL set_L by (auto simp: cframe_def sf_def)
  moreover have "\<forall>u\<in>set ts. wqueueT (PPCContextJump n s6) u = QNull \<and> tokenT (PPCContextJump n s6) u = 1 \<and>
      (suspendT s u = 0 \<longrightarrow> stateT (PPCContextJump n s6) u = KTHR_STATE_RUNNING)"
    using cj w su by (auto simp: cframe_def unblock_result_def)
  moreover have "\<forall>u. runnable s L u \<longrightarrow> u \<noteq> ?self \<longrightarrow> runnable (PPCContextJump n s6) ?L u"
    using cj w st set_L by (auto simp: cframe_def runnable_def)
  ultimately show ?thesis using run jump_ksched [OF k6 ac lr] by blast
qed

end
