(* ===== verification/KSync.thy ===== *)
theory KSync
  imports KLife
begin

text \<open>
  Mutexes with priority inheritance and condition variables: \<^verbatim>\<open>tuxedo/sync.c\<close> and \<^verbatim>\<open>gc/tuxedo/sync.h\<close>.
  A mutex is its address; \<open>mutex_owner\<close> is the \<open>owner\<close> field. A thread that waits for a mutex is
  linked into the \<open>waiters\<close> queue of the owner thread, with the mutex as its token.
  The \<^verbatim>\<open>for (;;); // ERROR\<close> traps give \<open>None\<close>. Code after a point where the caller may be switched
  out is in the \<open>..._resume\<close> definitions, as in the scheduler.
\<close>

section \<open>Mutexes\<close>

text \<open>The loop of \<open>KThreadRemoveWaiter\<close>: \<open>no\<close> is \<open>next_owner\<close>.\<close>

partial_function (option) remove_waiter_loop ::
    "ptr \<Rightarrow> u32 \<Rightarrow> ptr \<Rightarrow> ptr \<Rightarrow> kstate \<Rightarrow> (ptr \<times> kstate) option" where
  "remove_waiter_loop t token cur no s =
     (if cur = NULL then Some (no, s)
      else if tokenT s cur = token then
        (if no = NULL
         then remove_waiter_loop t token (lnextT s cur) cur
                (set_state cur (if suspendT s cur = 0 then KTHR_STATE_RUNNING else KTHR_STATE_WAITING)
                   (KThrQueueRemove (QWaiters t) cur s))
         else do { s2 \<leftarrow> KThrQueueInsert (QWaiters no) cur (KThrQueueRemove (QWaiters t) cur s);
                   remove_waiter_loop t token (lnextT s cur) no s2 })
      else remove_waiter_loop t token (lnextT s cur) no s)"

declare remove_waiter_loop.simps [code]

definition KThreadRemoveWaiter :: "ptr \<Rightarrow> u32 \<Rightarrow> kstate \<Rightarrow> (ptr \<times> kstate) option" where
  "KThreadRemoveWaiter t token s =
     do { (no, s1) \<leftarrow> remove_waiter_loop t token (q_next (waitersT s t)) NULL s;
          if no \<noteq> NULL
          then do { s2 \<leftarrow> KThreadUpdateDynamicPrio t s1;
                    s3 \<leftarrow> KThreadUpdateDynamicPrio no s2;
                    Some (no, s3) }
          else Some (no, s1) }"

definition set_owner :: "ptr \<Rightarrow> ptr \<Rightarrow> kstate \<Rightarrow> kstate" where
  "set_owner m t s = s\<lparr>mutex_owner := (mutex_owner s)(m := t)\<rparr>"

definition KMutexTryLockImpl :: "ptr \<Rightarrow> ptr \<Rightarrow> kstate \<Rightarrow> bool \<times> kstate" where
  "KMutexTryLockImpl m self s =
     (if mutex_owner s m = NULL then (True, set_owner m self s) else (False, s))"

definition KMutexTryLock :: "ptr \<Rightarrow> kstate \<Rightarrow> bool \<times> kstate" where
  "KMutexTryLock m s = KMutexTryLockImpl m (sprg2 s) s"

text \<open>The part of \<open>KMutexLock\<close> under the interrupt lock, reached when the first try failed.\<close>

definition KMutexLock_slow :: "ptr \<Rightarrow> kstate \<Rightarrow> kstate option" where
  "KMutexLock_slow m s =
     (let self = sprg2 s; (st, s1) = PPCIrqLockByMsr s in
      if mutex_owner s1 m = NULL then Some (PPCIrqUnlockByMsr st (set_owner m self s1))
      else let owner = mutex_owner s1 m in
        do { s2 \<leftarrow> KThrQueueInsert (QWaiters owner) self
                    (set_token self m (set_state self KTHR_STATE_WAITING_MUTEX s1));
             s3 \<leftarrow> (if prioT s2 self < prioT s2 owner then KThreadUpdateDynamicPrio owner s2 else Some s2);
             next' \<leftarrow> (if prioT s2 self < prioT s2 owner \<and> stateT s3 owner = KTHR_STATE_RUNNING
                         then Some owner else KThreadFindRunnable s3 (s_firstThread s3));
             KThreadSwitchTo next' st s3 })"

definition KMutexLock :: "ptr \<Rightarrow> kstate \<Rightarrow> kstate option" where
  "KMutexLock m s =
     (let (ok, s1) = KMutexTryLockImpl m (sprg2 s) s in if ok then Some s1 else KMutexLock_slow m s1)"

definition KMutexUnlock :: "ptr \<Rightarrow> kstate \<Rightarrow> kstate option" where
  "KMutexUnlock m s =
     (let self = sprg2 s; (st, s1) = PPCIrqLockByMsr s in
      if mutex_owner s1 m \<noteq> self then None
      else do { (no, s2) \<leftarrow> KThreadRemoveWaiter self m s1;
                let s3 = set_owner m no s2;
                next' \<leftarrow> (if prioT s1 self < prioT s3 self
                           then KThreadFindRunnable s3 (s_firstThread s3) else Some self);
                if next' \<noteq> self then KThreadReschedule next' st s3
                else Some (PPCIrqUnlockByMsr st s3) })"

section \<open>Recursive mutexes\<close>

text \<open>
  A \<open>KRMutex\<close> at \<open>m\<close> is a mutex with a count, kept in a store of its own. When \<open>KMutexLock\<close> blocks,
  the assignment \<open>counter = 1\<close> runs when the caller runs again.
\<close>

definition KMutexIsLockedByCurrentThread :: "ptr \<Rightarrow> kstate \<Rightarrow> bool" where
  "KMutexIsLockedByCurrentThread m s \<longleftrightarrow> mutex_owner s m = sprg2 s"

definition KRMutexLock :: "ptr \<Rightarrow> kstate \<times> (ptr \<Rightarrow> u32) \<Rightarrow> (kstate \<times> (ptr \<Rightarrow> u32)) option" where
  "KRMutexLock m = (\<lambda>(s, c).
     if KMutexIsLockedByCurrentThread m s then Some (s, c(m := c m + 1))
     else do { s' \<leftarrow> KMutexLock m s;
               Some (s', if KMutexIsLockedByCurrentThread m s' \<and> sprg2 s' = sprg2 s then c(m := 1) else c) })"

definition KRMutexLock_resume :: "ptr \<Rightarrow> (ptr \<Rightarrow> u32) \<Rightarrow> (ptr \<Rightarrow> u32)" where
  "KRMutexLock_resume m c = c(m := 1)"

definition KRMutexTryLock :: "ptr \<Rightarrow> kstate \<times> (ptr \<Rightarrow> u32) \<Rightarrow> bool \<times> kstate \<times> (ptr \<Rightarrow> u32)" where
  "KRMutexTryLock m = (\<lambda>(s, c).
     if KMutexIsLockedByCurrentThread m s then (True, s, c(m := c m + 1))
     else let (rc, s') = KMutexTryLock m s in (rc, s', if rc then c(m := 1) else c))"

definition KRMutexUnlock :: "ptr \<Rightarrow> kstate \<times> (ptr \<Rightarrow> u32) \<Rightarrow> (kstate \<times> (ptr \<Rightarrow> u32)) option" where
  "KRMutexUnlock m = (\<lambda>(s, c).
     let c' = c(m := c m - 1) in
     if c' m = 0 then map_option (\<lambda>s'. (s', c')) (KMutexUnlock m s) else Some (s, c'))"

section \<open>Condition variables\<close>

definition KCondVarSignal :: "ptr \<Rightarrow> kstate \<Rightarrow> kstate option" where
  "KCondVarSignal cv = KThrQueueUnblockOneByValue (QStatic S_cvWaitQueue) cv"

definition KCondVarBroadcast :: "ptr \<Rightarrow> kstate \<Rightarrow> kstate option" where
  "KCondVarBroadcast cv = KThrQueueUnblockAllByValue (QStatic S_cvWaitQueue) cv"

text \<open>Releasing the mutex before the wait, as both waiting functions do.\<close>

definition cv_release :: "ptr \<Rightarrow> kstate \<Rightarrow> kstate option" where
  "cv_release m s =
     (if mutex_owner s m \<noteq> sprg2 s then None
      else do { (no, s1) \<leftarrow> KThreadRemoveWaiter (sprg2 s) m s; Some (set_owner m no s1) })"

definition KCondVarWait :: "ptr \<Rightarrow> ptr \<Rightarrow> kstate \<Rightarrow> kstate option" where
  "KCondVarWait cv m s =
     (let (st, s1) = PPCIrqLockByMsr s in
      do { s2 \<leftarrow> cv_release m s1; KThrQueueBlock (QStatic S_cvWaitQueue) cv s2 })"

text \<open>
  After the wait the mutex is locked again; when that blocks once more, the closing
  \<open>PPCIrqUnlockByMsr\<close> is left to the next time the caller runs.
\<close>

definition cv_relock :: "u32 \<Rightarrow> ptr \<Rightarrow> kstate \<Rightarrow> kstate option" where
  "cv_relock st m s =
     do { s' \<leftarrow> KMutexLock m s; Some (if mutex_owner s m = NULL then PPCIrqUnlockByMsr st s' else s') }"

definition KCondVarWait_resume :: "u32 \<Rightarrow> ptr \<Rightarrow> kstate \<Rightarrow> kstate option" where
  "KCondVarWait_resume st m s = cv_relock st m s"

definition KCondVarTimeoutFn :: "ptr \<Rightarrow> kstate \<Rightarrow> kstate option" where
  "KCondVarTimeoutFn self = KThrQueueCancel (QStatic S_cvWaitQueue) self"

text \<open>The timeout task lives on the caller's stack, at the address \<open>task\<close>. \<open>None\<close> of the inner pair: no wait.\<close>

definition KCondVarWaitTimeoutTicks ::
    "ptr \<Rightarrow> ptr \<Rightarrow> ptr \<Rightarrow> u64 \<Rightarrow> kstate \<Rightarrow> (bool option \<times> kstate) option" where
  "KCondVarWaitTimeoutTicks task cv m timeout_ticks s =
     (if timeout_ticks = 0 then Some (Some False, s)
      else let (st, s1) = PPCIrqLockByMsr s in
        do { s2 \<leftarrow> cv_release m s1;
             s3 \<leftarrow> KTickTaskStart task Fn_KCondVarTimeoutFn timeout_ticks 0 s2;
             s4 \<leftarrow> KThrQueueBlock (QStatic S_cvWaitQueue) cv s3;
             Some (None, s4) })"

definition KCondVarWaitTimeoutTicks_resume :: "u32 \<Rightarrow> ptr \<Rightarrow> ptr \<Rightarrow> kstate \<Rightarrow> (bool \<times> kstate) option" where
  "KCondVarWaitTimeoutTicks_resume st task m s =
     (let ret = (KThrQueueBlock_resume s \<noteq> 0) in
      do { s1 \<leftarrow> KTickTaskStop task s; s2 \<leftarrow> cv_relock st m s1; Some (ret, s2) })"

end
