(* ===== verification/KMutexInv.thy ===== *)
theory KMutexInv
  imports KSync
begin

text \<open>
  The mutex operations keep the scheduling invariant: handing a mutex to its most urgent waiter,
  moving the other waiters to the new owner and recomputing both priorities loses no waiter and
  leaves every thread at the priority it is entitled to.
\<close>

section \<open>The hand-over loop\<close>

definition ins_prio :: "kstate \<Rightarrow> ptr list \<Rightarrow> ptr \<Rightarrow> ptr list" where
  "ins_prio s xs t = ins_after (\<lambda>p. prioT s p \<le> prioT s t) t xs"

lemma ins_prio_cong: "prioT s' = prioT s \<Longrightarrow> ins_prio s' = ins_prio s"
  by (simp add: ins_prio_def fun_eq_iff)

lemma set_foldl_ins_prio [simp]: "set (foldl (ins_prio s) xs ys) = set xs \<union> set ys"
  by (induction ys arbitrary: xs) (auto simp: ins_prio_def)

lemma sorted_foldl_ins_prio: "sorted_by (prioT s) xs \<Longrightarrow> sorted_by (prioT s) (foldl (ins_prio s) xs ys)"
  by (induction ys arbitrary: xs) (auto simp: ins_prio_def intro: sorted_by_ins_after)

text \<open>With the new owner known, every further waiter of the mutex moves to the new owner's queue.\<close>

lemma remove_waiter_loop_move:
  assumes "queues_ok s T Q" "t \<in> T" "no \<in> T" "no \<noteq> NULL" "no \<noteq> t" "Q (QWaiters t) = xs @ ys"
    "cur = (case ys of [] \<Rightarrow> NULL | y # _ \<Rightarrow> y)"
  shows "\<exists>s'. remove_waiter_loop t tok cur no s = Some (no, s') \<and>
     queues_ok s' T (Q(QWaiters t := xs @ filter (\<lambda>u. tokenT s u \<noteq> tok) ys,
       QWaiters no := foldl (ins_prio s) (Q (QWaiters no)) (filter (\<lambda>u. tokenT s u = tok) ys))) \<and>
     qframe s s' \<and> wqueueT s' = (\<lambda>u. if u \<in> set ys \<and> tokenT s u = tok then QWaiters no else wqueueT s u)"
  using assms
proof (induction ys arbitrary: xs s Q cur)
  case Nil
  have "Q(QWaiters t := xs, QWaiters no := Q (QWaiters no)) = Q" using Nil.prems(6) by (auto simp: fun_eq_iff)
  then show ?case using Nil.prems by (subst remove_waiter_loop.simps) (simp add: fun_upd_def)
next
  case (Cons y ys)
  let ?t = "QWaiters t" and ?n = "QWaiters no"
  note ok = Cons.prems(1)
  have vt: "valid_q T ?t" and vn: "valid_q T ?n" using Cons.prems(2,3) by auto
  have ql: "qlist s ?t (xs @ y # ys)" using queues_okD(1) [OF ok vt] Cons.prems(6) by simp
  have y: "y \<noteq> NULL" "lnextT s y = (case ys of [] \<Rightarrow> NULL | z # _ \<Rightarrow> z)" using qlist_lnext [OF ql] by auto
  have d: "distinct (xs @ y # ys)" using ql by (rule qlist_distinct)
  have yT: "y \<in> T" "wqueueT s y = ?t" using queues_okD(2,3) [OF ok vt] Cons.prems(6) by auto
  have cur: "cur = y" using Cons.prems(7) by simp
  show ?case
  proof (cases "tokenT s y = tok")
    case False
    have "remove_waiter_loop t tok cur no s = remove_waiter_loop t tok (lnextT s y) no s"
      using False cur y(1) by (subst remove_waiter_loop.simps) simp
    moreover have "Q ?t = (xs @ [y]) @ ys" using Cons.prems(6) by simp
    moreover have "(\<lambda>u. if u \<in> set (y # ys) \<and> tokenT s u = tok then ?n else wqueueT s u) =
        (\<lambda>u. if u \<in> set ys \<and> tokenT s u = tok then ?n else wqueueT s u)" using False by auto
    ultimately show ?thesis
      using Cons.IH [OF ok Cons.prems(2-5) _ y(2), of "xs @ [y]"] False by (simp add: fun_upd_def)
  next
    case True
    let ?s1 = "KThrQueueRemove ?t y s"
    have s1: "queues_ok ?s1 T (Q(?t := xs @ ys))" "qframe s ?s1" "wqueueT ?s1 = (wqueueT s)(y := QNull)"
      using queues_remove [OF ok vt yT] Cons.prems(6) d by (auto simp: remove1_append)
    have pr1: "prioT ?s1 = prioT s" using s1(2) by (simp add: qframe_def)
    obtain s2 where s2: "KThrQueueInsert ?n y ?s1 = Some s2"
        "queues_ok s2 T ((Q(?t := xs @ ys))(?n := ins_prio s (Q ?n) y))" "qframe ?s1 s2"
        "wqueueT s2 = (wqueueT ?s1)(y := ?n)"
      using queues_insert [OF s1(1) vn yT(1) y(1)] s1(3) Cons.prems(5) pr1 by (auto simp: ins_prio_def)
    have q2: "qframe s s2" using s1(2) s2(3) by (rule qframe_trans)
    have f2: "tokenT s2 = tokenT s" "prioT s2 = prioT s" using q2 by (auto simp: qframe_def)
    have i2: "ins_prio s2 = ins_prio s" using f2(2) by (rule ins_prio_cong)
    let ?Q2 = "(Q(?t := xs @ ys))(?n := ins_prio s (Q ?n) y)"
    have qt: "?Q2 ?t = xs @ ys" "?Q2 ?n = ins_prio s (Q ?n) y" using Cons.prems(5) by auto
    obtain s' where s': "remove_waiter_loop t tok (lnextT s y) no s2 = Some (no, s')"
        "queues_ok s' T (?Q2(?t := xs @ filter (\<lambda>u. tokenT s u \<noteq> tok) ys,
           ?n := foldl (ins_prio s) (ins_prio s (Q ?n) y) (filter (\<lambda>u. tokenT s u = tok) ys)))"
        "qframe s2 s'" "wqueueT s' = (\<lambda>u. if u \<in> set ys \<and> tokenT s u = tok then ?n else wqueueT s2 u)"
      using Cons.IH [OF s2(2) Cons.prems(2-5) qt(1) y(2)] unfolding f2 i2 qt(2) by blast
    have "remove_waiter_loop t tok cur no s = Some (no, s')"
      using True cur y(1) Cons.prems(4) s2(1) s'(1) by (subst remove_waiter_loop.simps) simp
    moreover have "?Q2(?t := xs @ filter (\<lambda>u. tokenT s u \<noteq> tok) ys,
           ?n := foldl (ins_prio s) (ins_prio s (Q ?n) y) (filter (\<lambda>u. tokenT s u = tok) ys)) =
         Q(?t := xs @ filter (\<lambda>u. tokenT s u \<noteq> tok) (y # ys),
           ?n := foldl (ins_prio s) (Q ?n) (filter (\<lambda>u. tokenT s u = tok) (y # ys)))"
      using True by (auto simp: fun_eq_iff)
    moreover have "qframe s s'" using q2 s'(3) by (rule qframe_trans)
    moreover have "wqueueT s' = (\<lambda>u. if u \<in> set (y # ys) \<and> tokenT s u = tok then ?n else wqueueT s u)"
      using s'(4) s2(4) s1(3) True by (auto simp: fun_eq_iff)
    ultimately show ?thesis using s'(2) by (simp only: fun_upd_def) blast
  qed
qed

lemma remove_waiter_loop_skip:
  "path (lnextT s) cur as m \<Longrightarrow> \<forall>u\<in>set as. tokenT s u \<noteq> tok \<Longrightarrow>
   remove_waiter_loop t tok cur no s = remove_waiter_loop t tok m no s"
proof (induction as arbitrary: cur)
  case (Cons a as)
  then show ?case by (subst remove_waiter_loop.simps) auto
qed simp

text \<open>What the hand-over leaves alone: everything but queue linkage and the new owner's run state.\<close>

definition hframe :: "kstate \<Rightarrow> kstate \<Rightarrow> bool" where
  "hframe s s' \<longleftrightarrow> gframe s s' \<and> s_firstThread s' = s_firstThread s \<and> nextT s' = nextT s \<and>
     suspendT s' = suspendT s \<and> prioT s' = prioT s \<and> basepT s' = basepT s \<and> tokenT s' = tokenT s"

definition handed :: "kstate \<Rightarrow> ptr \<Rightarrow> ptr list \<Rightarrow> kstate \<Rightarrow> bool" where
  "handed s n rest s' \<longleftrightarrow> hframe s s' \<and>
     stateT s' = (stateT s)(n := if suspendT s n = 0 then KTHR_STATE_RUNNING else KTHR_STATE_WAITING) \<and>
     wqueueT s' = (\<lambda>u. if u = n then QNull else if u \<in> set rest then QWaiters n else wqueueT s u)"

definition handed_queues ::
    "kstate \<Rightarrow> (qptr \<Rightarrow> ptr list) \<Rightarrow> ptr \<Rightarrow> u32 \<Rightarrow> ptr \<Rightarrow> ptr list \<Rightarrow> qptr \<Rightarrow> ptr list" where
  "handed_queues s Q t tok n rest =
     Q(QWaiters t := filter (\<lambda>u. tokenT s u \<noteq> tok) (Q (QWaiters t)),
       QWaiters n := foldl (ins_prio s) (Q (QWaiters n)) rest)"

lemma remove_waiter_loop_none:
  assumes ok: "queues_ok s T Q" and t: "t \<in> T" and none: "filter (\<lambda>u. tokenT s u = tok) (Q (QWaiters t)) = []"
  shows "remove_waiter_loop t tok (q_next (waitersT s t)) NULL s = Some (NULL, s)"
proof -
  have "lst (lnextT s) (q_next (waitersT s t)) (Q (QWaiters t))"
    using qlist_lst [OF queues_okD(1) [OF ok, of "QWaiters t"]] t by simp
  then have "remove_waiter_loop t tok (q_next (waitersT s t)) NULL s = remove_waiter_loop t tok NULL NULL s"
    using none by (intro remove_waiter_loop_skip) (auto simp: filter_empty_conv)
  then show ?thesis by (simp add: remove_waiter_loop.simps)
qed

lemma remove_waiter_loop_hand:
  assumes ok: "queues_ok s T Q" and t: "t \<in> T" "wqueueT s t \<noteq> QWaiters t"
    and ms: "filter (\<lambda>u. tokenT s u = tok) (Q (QWaiters t)) = n # rest"
  shows "\<exists>s'. remove_waiter_loop t tok (q_next (waitersT s t)) NULL s = Some (n, s') \<and>
     queues_ok s' T (handed_queues s Q t tok n rest) \<and> handed s n rest s'"
proof -
  let ?t = "QWaiters t" and ?n = "QWaiters n"
  have vt: "valid_q T ?t" using t by simp
  obtain as bs where Qt: "Q ?t = as @ n # bs" "\<forall>u\<in>set as. tokenT s u \<noteq> tok" "tokenT s n = tok"
      "rest = filter (\<lambda>u. tokenT s u = tok) bs"
    using ms by (auto simp: filter_eq_Cons_iff)
  have ql: "qlist s ?t (as @ n # bs)" using queues_okD(1) [OF ok vt] Qt(1) by simp
  have nl: "n \<noteq> NULL" "lnextT s n = (case bs of [] \<Rightarrow> NULL | z # _ \<Rightarrow> z)" using qlist_lnext [OF ql] by auto
  have d: "distinct (as @ n # bs)" using ql by (rule qlist_distinct)
  have nT: "n \<in> T" "wqueueT s n = ?t" using queues_okD(2,3) [OF ok vt] Qt(1) by auto
  have nt: "n \<noteq> t" using nT(2) t(2) by auto
  have "path (lnextT s) (q_next (waitersT s t)) as n"
    using qlist_lst [OF ql] by auto
  then have skip: "remove_waiter_loop t tok (q_next (waitersT s t)) NULL s = remove_waiter_loop t tok n NULL s"
    using Qt(2) by (rule remove_waiter_loop_skip)
  let ?s1 = "KThrQueueRemove ?t n s"
  let ?st = "if suspendT s n = 0 then KTHR_STATE_RUNNING else KTHR_STATE_WAITING"
  let ?s2 = "set_state n ?st ?s1"
  have s1: "queues_ok ?s1 T (Q(?t := as @ bs))" "qframe s ?s1" "wqueueT ?s1 = (wqueueT s)(n := QNull)"
    using queues_remove [OF ok vt nT] Qt(1) d by (auto simp: remove1_append)
  have ok2: "queues_ok ?s2 T (Q(?t := as @ bs))" using s1(1) queues_ok_cong [of ?s2 ?s1] by simp
  have f2: "tokenT ?s2 = tokenT s" "prioT ?s2 = prioT s" using s1(2) by (auto simp: qframe_def)
  have i2: "ins_prio ?s2 = ins_prio s" using f2(2) by (rule ins_prio_cong)
  have qn: "(Q(?t := as @ bs)) ?t = as @ bs" "(Q(?t := as @ bs)) ?n = Q ?n" using nt by auto
  obtain s' where s': "remove_waiter_loop t tok (lnextT s n) n ?s2 = Some (n, s')"
      "queues_ok s' T ((Q(?t := as @ bs))(?t := as @ filter (\<lambda>u. tokenT s u \<noteq> tok) bs,
         ?n := foldl (ins_prio s) (Q ?n) rest))"
      "qframe ?s2 s'" "wqueueT s' = (\<lambda>u. if u \<in> set bs \<and> tokenT s u = tok then ?n else wqueueT ?s2 u)"
    using remove_waiter_loop_move [OF ok2 t(1) nT(1) nl(1) nt qn(1) nl(2), of tok] Qt(4)
    unfolding f2 i2 qn(2) by blast
  have run: "remove_waiter_loop t tok n NULL s = Some (n, s')"
    using s'(1) nl(1) Qt(3) by (subst remove_waiter_loop.simps) simp
  have "(Q(?t := as @ bs))(?t := as @ filter (\<lambda>u. tokenT s u \<noteq> tok) bs,
         ?n := foldl (ins_prio s) (Q ?n) rest) = handed_queues s Q t tok n rest"
    using Qt by (auto simp: handed_queues_def fun_eq_iff)
  moreover have "handed s n rest s'"
    using s1(2,3) s'(3,4) Qt(4) d by (auto simp: handed_def hframe_def qframe_def fun_eq_iff intro: gframe_trans)
      (auto simp: gframe_def)
  ultimately show ?thesis using skip run s'(2) by auto
qed

section \<open>Handing a mutex over\<close>

lemma update_prio_running:
  assumes kw: "kwf s L Q" and t: "t \<in> set L" "wqueueT s t = QNull"
  shows "\<exists>s' L'. KThreadUpdateDynamicPrio t s = Some s' \<and> kwf s' L' Q \<and> mset L' = mset L \<and> uframe s s' \<and>
     prioT s' = (prioT s)(t := eff_prio s Q t)"
proof (cases "prioT s t = eff_prio s Q t")
  case True
  have "want_prio s t = eff_prio s Q t" using kw t(1) by (intro want_prio_eff) (auto simp: kwf_def)
  then have "KThreadUpdateDynamicPrio t s = Some s" using True by (subst KThreadUpdateDynamicPrio.simps) simp
  then show ?thesis using kw True by (intro exI [of _ s] exI [of _ L]) (auto simp: fun_eq_iff)
qed (rule update_prio_unqueued [OF kw t])

lemma handed_kwf:
  assumes k: "kinv s L Q" and t: "t \<in> set L" and ms: "filter (\<lambda>u. tokenT s u = tok) (Q (QWaiters t)) = n # rest"
    and ok: "queues_ok s1 (set L) (handed_queues s Q t tok n rest)" and h: "handed s n rest s1"
  shows "kwf s1 L (handed_queues s Q t tok n rest)"
proof -
  let ?Q = "handed_queues s Q t tok n rest"
  have nin: "n \<in> set (Q (QWaiters t))" "set rest \<subseteq> set (Q (QWaiters t))"
    using ms by (metis filter_is_subset list.set_intros(1) subsetD, metis filter_is_subset set_subset_Cons order_trans)
  have w: "wqueueT s u = QWaiters t" if "u \<in> set (Q (QWaiters t))" "u \<in> set L" for u
    using queues_okD(3) [OF kinvD(2) [OF k], of "QWaiters t" u] that t by simp
  have nL: "n \<in> set L" using queues_okD(2) [OF kinvD(2) [OF k], of "QWaiters t"] nin t by auto
  have "sorted_by (prioT s) (?Q q)" if "valid_q (set L) q" for q
    using kinvD(9) [OF k that] kinvD(9) [OF k, of "QWaiters n"] nL kinvD(9) [OF k, of "QWaiters t"] t
    by (auto simp: handed_queues_def intro: sorted_foldl_ins_prio sorted_wrt_filter)
  moreover have "state_ok s1 u" if u: "u \<in> set L" for u
  proof (cases "u \<in> set (n # rest)")
    case True
    then have "wqueueT s u = QWaiters t" using nin w [OF _ u] by auto
    then have "stateT s u = KTHR_STATE_WAITING_MUTEX"
      using kinvD(5) [OF k u] by (cases "stateT s u") (auto simp: state_ok_def)
    then show ?thesis using True h by (auto simp: state_ok_def handed_def hframe_def)
  next
    case False
    then show ?thesis using kinvD(5) [OF k u] h by (auto simp: state_ok_def handed_def hframe_def)
  qed
  ultimately show ?thesis
    using kinvD(3,4) [OF k] ok h by (auto simp: kwf_def thread_list_def handed_def hframe_def)
qed

lemma handed_acyclic:
  assumes ac: "wait_acyclic s T" and t: "\<And>u. u \<in> set rest \<Longrightarrow> u \<in> T \<and> wqueueT s u = QWaiters t"
    and w: "wqueueT s' = (\<lambda>u. if u = n then QNull else if u \<in> set rest then QWaiters n else wqueueT s u)"
  shows "wait_acyclic s' T"
proof -
  obtain rank where r: "wait_rank s T rank" using ac by (auto simp: wait_acyclic_def)
  have "wait_rank s' T (rank(n := 0))" unfolding wait_rank_def
  proof (intro ballI allI impI)
    fix u p assume u: "u \<in> T" "wqueueT s' u = QWaiters p"
    then have un: "u \<noteq> n" using w by auto
    show "(rank(n := 0)) p < (rank(n := 0)) u"
    proof (cases "u \<in> set rest")
      case True
      then have "p = n" "rank t < rank u" using u w un t r by (auto simp: wait_rank_def)
      then show ?thesis using un by simp
    next
      case False
      then have "rank p < rank u" using u w un r by (auto simp: wait_rank_def)
      then show ?thesis using un by simp
    qed
  qed
  then show ?thesis by (auto simp: wait_acyclic_def)
qed

lemma RemoveWaiter_hand:
  assumes k: "kinv s L Q" and ac: "wait_acyclic s (set L)"
    and t: "t \<in> set L" "stateT s t = KTHR_STATE_RUNNING" "mutex_owner s tok = t"
    and ms: "filter (\<lambda>u. tokenT s u = tok) (Q (QWaiters t)) = n # rest"
  shows "\<exists>s' L'. KThreadRemoveWaiter t tok s = Some (n, s') \<and> mset L' = mset L \<and>
     kinv (set_owner tok n s') L' (handed_queues s Q t tok n rest) \<and> wait_acyclic s' (set L') \<and>
     gframe s s' \<and> suspendT s' = suspendT s \<and> basepT s' = basepT s \<and> tokenT s' = tokenT s \<and>
     stateT s' = (stateT s)(n := if suspendT s n = 0 then KTHR_STATE_RUNNING else KTHR_STATE_WAITING) \<and>
     wqueueT s' = (\<lambda>u. if u = n then QNull else if u \<in> set rest then QWaiters n else wqueueT s u) \<and>
     (\<forall>u. u \<noteq> t \<longrightarrow> u \<noteq> n \<longrightarrow> prioT s' u = prioT s u) \<and> prioT s t \<le> prioT s' t \<and> prioT s t \<le> prioT s' n"
proof -
  let ?Q = "handed_queues s Q t tok n rest"
  note ok = kinvD(2) [OF k]
  have wt: "wqueueT s t = QNull" using kinvD(5) [OF k t(1)] t(2) by (rule state_okD(2))
  obtain s1 where s1: "remove_waiter_loop t tok (q_next (waitersT s t)) NULL s = Some (n, s1)"
      "queues_ok s1 (set L) ?Q" "handed s n rest s1"
    using remove_waiter_loop_hand [OF ok t(1) _ ms] wt by auto
  note h = s1(3) [unfolded handed_def hframe_def]
  have sub: "set (n # rest) \<subseteq> set (Q (QWaiters t))" using ms by (metis filter_is_subset)
  have inL: "u \<in> set L \<and> wqueueT s u = QWaiters t" if "u \<in> set (Q (QWaiters t))" for u
    using queues_okD(2,3) [OF ok, of "QWaiters t"] that t(1) by auto
  have n: "n \<in> set L" "wqueueT s1 n = QNull" "wqueueT s1 t = QNull" "n \<noteq> t" "n \<noteq> NULL"
    using inL [of n] sub wt h t(2) kinvD(6) [OF k, of n] inL by auto
  have kw1: "kwf s1 L ?Q" by (rule handed_kwf [OF k t(1) ms s1(2,3)])
  obtain s2 L2 where s2: "KThreadUpdateDynamicPrio t s1 = Some s2" "kwf s2 L2 ?Q" "mset L2 = mset L" "uframe s1 s2"
      "prioT s2 = (prioT s1)(t := eff_prio s1 ?Q t)"
    using update_prio_running [OF kw1 t(1) n(3)] by blast
  have L2: "set L2 = set L" using s2(3) by (metis set_mset_mset)
  have "wqueueT s2 n = QNull" using s2(4) n(2) by (simp add: uframe_def)
  then obtain s3 L3 where s3: "KThreadUpdateDynamicPrio n s2 = Some s3" "kwf s3 L3 ?Q" "mset L3 = mset L" "uframe s2 s3"
      "prioT s3 = (prioT s2)(n := eff_prio s2 ?Q n)"
    using update_prio_running [OF s2(2), of n] n(1) L2 s2(3) by auto
  have L3: "set L3 = set L" using s3(3) by (metis set_mset_mset)
  have u13: "uframe s1 s3" using s2(4) s3(4) by (rule uframe_trans)
  have nq: "t \<notin> set (?Q (QWaiters u)) \<and> n \<notin> set (?Q (QWaiters u))" if "u \<in> set L" for u
    using queues_okD(3) [OF s1(2), of "QWaiters u"] that t(1) n by auto
  have eff: "eff_prio s' ?Q u = eff_prio s1 ?Q u"
    if "u \<in> set L" "\<And>x. x \<noteq> t \<Longrightarrow> x \<noteq> n \<Longrightarrow> prioT s' x = prioT s1 x" "basepT s' = basepT s1" for u s'
    using nq [OF that(1)] that(2,3) by (intro eff_prio_cong) (auto, metis)
  have pr3: "prioT s3 = (prioT s)(t := eff_prio s1 ?Q t, n := eff_prio s1 ?Q n)"
    using s3(5) s2(5) eff [of n s2] n(1) h s2(4) by (auto simp: uframe_def)
  have same: "eff_prio s1 ?Q u = eff_prio s Q u" if "u \<noteq> t" "u \<noteq> n" for u
    using that h by (intro eff_prio_cong) (auto simp: handed_queues_def)
  have po: "prio_ok s3 ?Q (set L)" unfolding prio_ok_def
  proof
    fix u assume u: "u \<in> set L"
    have "eff_prio s3 ?Q u = eff_prio s1 ?Q u" using u pr3 h u13 by (intro eff) (auto simp: uframe_def)
    then show "prioT s3 u = eff_prio s3 ?Q u"
      using pr3 same [of u] kinvD(8) [OF k] u n(4) by (auto simp: prio_ok_def)
  qed
  have srt: "sorted_by (prioT s1) (?Q (QWaiters u))" if "u \<in> set L" for u
    using kw1 that unfolding kwf_def by (metis valid_q.simps(3))
  have wl: "prioT s t \<le> prioT s u" if "u \<in> set (Q (QWaiters t))" for u
    using eff_prio_ge [of s Q t "prioT s t"] kinvD(9) [OF k, of "QWaiters t"] kinvD(8) [OF k] t(1) that
    by (auto simp: prio_ok_def)
  have base: "prioT s t \<le> basepT s t" "prioT s n \<le> basepT s n"
      "\<And>x. x \<in> set (Q (QWaiters n)) \<Longrightarrow> prioT s n \<le> prioT s x"
    using eff_prio_ge [of s Q t "prioT s t"] eff_prio_ge [of s Q n "prioT s n"] kinvD(9) [OF k, of "QWaiters t"]
      kinvD(9) [OF k, of "QWaiters n"] kinvD(8) [OF k] t(1) n(1) by (auto simp: prio_ok_def)
  have "prioT s t \<le> eff_prio s1 ?Q t"
    unfolding eff_prio_ge [of s1 ?Q t, OF srt [OF t(1)]] using base(1) wl h n(4) by (auto simp: handed_queues_def)
  moreover have "prioT s t \<le> eff_prio s1 ?Q n"
    unfolding eff_prio_ge [of s1 ?Q n, OF srt [OF n(1)]] using base(2,3) wl sub h
    by (auto simp: handed_queues_def intro: order_trans)
  moreover have "mutex_ok (set_owner tok n s3) (set L)"
    unfolding mutex_ok_def
  proof (intro ballI allI impI)
    fix u p assume u: "u \<in> set L" and "wqueueT (set_owner tok n s3) u = QWaiters p"
    then have w: "wqueueT s1 u = QWaiters p" using u13 by (simp add: uframe_def set_owner_def wqueueT_def fun_eq_iff)
    have tk: "tokenT (set_owner tok n s3) u = tokenT s u" "mutex_owner s3 = mutex_owner s"
      using u13 h by (simp_all add: uframe_def gframe_def set_owner_def tokenT_def fun_eq_iff)
    have "((mutex_owner s)(tok := n)) (tokenT s u) = p" if "p = t"
    proof -
      have "u \<in> set (?Q (QWaiters t))" using queues_okD(3) [OF s1(2), of "QWaiters t" u] w that t(1) u by simp
      then have "tokenT s u \<noteq> tok" "u \<in> set (Q (QWaiters t))" using n(4) by (auto simp: handed_queues_def)
      then show ?thesis using kinvD(7) [OF k] inL that u by (auto simp: mutex_ok_def)
    qed
    moreover have "((mutex_owner s)(tok := n)) (tokenT s u) = p" if "p \<noteq> t"
    proof (cases "u \<in> set rest")
      case True
      then have "u \<in> set (filter (\<lambda>u. tokenT s u = tok) (Q (QWaiters t)))" unfolding ms by simp
      then have "tokenT s u = tok" by simp
      then show ?thesis using w h True by (auto split: if_splits)
    next
      case False
      then have ws: "wqueueT s u = QWaiters p" using w h by (auto split: if_splits)
      then have o: "mutex_owner s (tokenT s u) = p" using kinvD(7) [OF k] u by (auto simp: mutex_ok_def)
      then show ?thesis using t(3) that by auto
    qed
    ultimately show "mutex_owner (set_owner tok n s3) (tokenT (set_owner tok n s3) u) = p"
      using tk by (cases "p = t") (auto simp: set_owner_def)
  qed
  moreover have "kwf (set_owner tok n s3) L3 ?Q" "prio_ok (set_owner tok n s3) ?Q (set L)"
    using s3(2) po by (simp_all add: kwf_def prio_ok_def eff_prio_def set_owner_def thread_list_def queues_ok_def
        qlist_def state_ok_def thr_acc_defs cong: list.case_cong)
  moreover have "wait_acyclic s3 (set L)"
    using handed_acyclic [OF ac, of rest t s3 n] inL sub h u13 by (auto simp: uframe_def)
  moreover have "KThreadRemoveWaiter t tok s = Some (n, s3)"
    using s1(1) s2(1) s3(1) n(5) by (simp add: KThreadRemoveWaiter_def)
  ultimately show ?thesis using s3(3) L3 pr3 h u13 n(4)
    by (intro exI [of _ s3] exI [of _ L3]) (auto simp: kinv_def uframe_def intro: gframe_trans)
qed

end
