(* ===== verification/KMutexOps.thy ===== *)
theory KMutexOps
  imports KMutexInv
begin

text \<open>
  \<open>KMutexLock\<close>, \<open>KMutexUnlock\<close> and the condition variable waits keep the scheduling invariant.
\<close>

lemma set_owner_fields [simp]:
  "nextT (set_owner m t s) = nextT s" "stateT (set_owner m t s) = stateT s"
  "suspendT (set_owner m t s) = suspendT s" "prioT (set_owner m t s) = prioT s"
  "basepT (set_owner m t s) = basepT s" "tokenT (set_owner m t s) = tokenT s"
  "wqueueT (set_owner m t s) = wqueueT s" "lnextT (set_owner m t s) = lnextT s"
  "lprevT (set_owner m t s) = lprevT s" "getq (set_owner m t s) = getq s"
  "waitersT (set_owner m t s) = waitersT s" "s_firstThread (set_owner m t s) = s_firstThread s"
  "sprg2 (set_owner m t s) = sprg2 s" "ppc_next_ctx (set_owner m t s) = ppc_next_ctx s" "msr (set_owner m t s) = msr s"
  "cur_thread (set_owner m t s) = cur_thread s" "next_ok (set_owner m t s) = next_ok s"
  "PPCIsInExcpt (set_owner m t s) = PPCIsInExcpt s"
  by (simp_all add: set_owner_def thr_acc_defs cur_thread_def next_ok_def PPCIsInExcpt_def fun_eq_iff)

lemma set_owner_sched [simp]:
  "runnable (set_owner m t s) L u = runnable s L u" "least_run (set_owner m t s) L u = least_run s L u"
  "wait_acyclic (set_owner m t s) T = wait_acyclic s T"
  by (simp_all add: runnable_def least_run_def wait_acyclic_def wait_rank_def)

text \<open>A change of owner that no waiter notices.\<close>

lemma set_owner_kinv:
  assumes "kinv s L Q" "\<And>u p. u \<in> set L \<Longrightarrow> wqueueT s u = QWaiters p \<Longrightarrow> tokenT s u \<noteq> m"
  shows "kinv (set_owner m t s) L Q"
proof -
  have "kwf (set_owner m t s) L Q" "prio_ok (set_owner m t s) Q (set L)"
    using kinvD(1,8) [OF assms(1)]
    by (simp_all add: kwf_def thread_list_def queues_ok_def qlist_def state_ok_def prio_ok_def eff_prio_def cong: list.case_cong)
  moreover have "mutex_ok (set_owner m t s) (set L)"
    using kinvD(7) [OF assms(1)] assms(2) by (auto simp: mutex_ok_def set_owner_def tokenT_def wqueueT_def)
  ultimately show ?thesis by (simp add: kinv_def)
qed

section \<open>Unlocking\<close>

text \<open>The threads that wait for mutex \<open>m\<close> of the current thread, most urgent first.\<close>

definition mutex_waiters :: "kstate \<Rightarrow> (qptr \<Rightarrow> ptr list) \<Rightarrow> ptr \<Rightarrow> ptr list" where
  "mutex_waiters s Q m = filter (\<lambda>u. tokenT s u = m) (Q (QWaiters (mutex_owner s m)))"

definition released :: "kstate \<Rightarrow> (qptr \<Rightarrow> ptr list) \<Rightarrow> ptr \<Rightarrow> kstate \<Rightarrow> bool" where
  "released s Q m s' \<longleftrightarrow>
     (case mutex_waiters s Q m of
        [] \<Rightarrow> mutex_owner s' = (mutex_owner s)(m := NULL) \<and> stateT s' = stateT s \<and> wqueueT s' = wqueueT s
      | n # rest \<Rightarrow> mutex_owner s' = (mutex_owner s)(m := n) \<and>
          stateT s' = (stateT s)(n := if suspendT s n = 0 then KTHR_STATE_RUNNING else KTHR_STATE_WAITING) \<and>
          wqueueT s' = (\<lambda>u. if u = n then QNull else if u \<in> set rest then QWaiters n else wqueueT s u)) \<and>
     suspendT s' = suspendT s \<and> basepT s' = basepT s \<and> tokenT s' = tokenT s"

text \<open>The release that unlocking and the condition variable waits share, up to rescheduling.\<close>

lemma release_core:
  assumes k: "kinv s L Q" and ac: "wait_acyclic s (set L)" and self: "runnable s L (sprg2 s)"
    and m: "mutex_owner s m = sprg2 s"
  shows "\<exists>no s' L' Q'. KThreadRemoveWaiter (sprg2 s) m s = Some (no, s') \<and> kinv (set_owner m no s') L' Q' \<and>
     wait_acyclic s' (set L') \<and> mset L' = mset L \<and> gframe s s' \<and> released s Q m (set_owner m no s') \<and>
     runnable s' L' (sprg2 s) \<and> prioT s (sprg2 s) \<le> prioT s' (sprg2 s) \<and>
     (\<forall>u. runnable s' L' u \<longrightarrow> u \<noteq> sprg2 s \<longrightarrow>
        runnable s L u \<and> prioT s' u = prioT s u \<or> prioT s (sprg2 s) \<le> prioT s' u) \<and>
     (\<forall>u. runnable s L u \<longrightarrow> runnable s' L' u) \<and> (\<forall>k. Q' (QStatic k) = Q (QStatic k))"
proof -
  let ?self = "sprg2 s"
  have sl: "?self \<in> set L" "stateT s ?self = KTHR_STATE_RUNNING" using self by (auto simp: runnable_def)
  have ws: "wqueueT s ?self = QNull" using state_okD(2) [OF kinvD(5) [OF k sl(1)] sl(2)] .
  show ?thesis
  proof (cases "mutex_waiters s Q m")
    case Nil
    then have none: "filter (\<lambda>u. tokenT s u = m) (Q (QWaiters ?self)) = []" by (simp add: mutex_waiters_def m)
    have run: "KThreadRemoveWaiter ?self m s = Some (NULL, s)"
      using remove_waiter_loop_none [OF kinvD(2) [OF k] sl(1) none] by (simp add: KThreadRemoveWaiter_def)
    have "tokenT s u \<noteq> m" if "u \<in> set L" "wqueueT s u = QWaiters p" for u p
    proof
      assume "tokenT s u = m"
      then have "p = ?self" using kinvD(7) [OF k] that m by (auto simp: mutex_ok_def)
      then have "u \<in> set (Q (QWaiters ?self))"
        using queues_okD(3) [OF kinvD(2) [OF k], of "QWaiters ?self" u] that sl(1) by simp
      then show False using none \<open>tokenT s u = m\<close> by (auto simp: filter_empty_conv)
    qed
    then have "kinv (set_owner m NULL s) L Q" by (rule set_owner_kinv [OF k])
    moreover have "released s Q m (set_owner m NULL s)" using Nil by (simp add: released_def) (simp add: set_owner_def)
    ultimately show ?thesis using run ac self
      by (intro exI [of _ NULL] exI [of _ s] exI [of _ L] exI [of _ Q]) auto
  next
    case (Cons n rest)
    then have ms: "filter (\<lambda>u. tokenT s u = m) (Q (QWaiters ?self)) = n # rest" by (simp add: mutex_waiters_def m)
    let ?Q = "handed_queues s Q ?self m n rest"
    obtain s' L' where s': "KThreadRemoveWaiter ?self m s = Some (n, s')" "mset L' = mset L"
        "kinv (set_owner m n s') L' ?Q" "wait_acyclic s' (set L')" "gframe s s'" "suspendT s' = suspendT s"
        "basepT s' = basepT s" "tokenT s' = tokenT s"
        "stateT s' = (stateT s)(n := if suspendT s n = 0 then KTHR_STATE_RUNNING else KTHR_STATE_WAITING)"
        "wqueueT s' = (\<lambda>u. if u = n then QNull else if u \<in> set rest then QWaiters n else wqueueT s u)"
        "\<forall>u. u \<noteq> ?self \<longrightarrow> u \<noteq> n \<longrightarrow> prioT s' u = prioT s u" "prioT s ?self \<le> prioT s' ?self"
        "prioT s ?self \<le> prioT s' n"
      using RemoveWaiter_hand [OF k ac sl m ms] by blast
    have L': "set L' = set L" using s'(2) by (metis set_mset_mset)
    have "n \<in> set (filter (\<lambda>u. tokenT s u = m) (Q (QWaiters ?self)))" unfolding ms by simp
    then have "n \<in> set (Q (QWaiters ?self))" by simp
    then have nw: "wqueueT s n = QWaiters ?self" "n \<in> set L"
      using queues_okD(2,3) [OF kinvD(2) [OF k], of "QWaiters ?self"] sl(1) by auto
    have n: "stateT s n \<noteq> KTHR_STATE_RUNNING" "n \<noteq> ?self"
      using state_okD(2) [OF kinvD(5) [OF k nw(2)]] nw(1) ws by auto
    have "released s Q m (set_owner m n s')"
      using Cons s' by (simp add: released_def) (simp add: set_owner_def gframe_def)
    moreover have "runnable s L u \<and> prioT s' u = prioT s u \<or> prioT s ?self \<le> prioT s' u"
      if "runnable s' L' u" "u \<noteq> ?self" for u
      using that s'(9,11,13) L' by (cases "u = n") (auto simp: runnable_def split: if_splits)
    moreover have "runnable s' L' u" if "runnable s L u" for u
      using that s'(9) n(1) L' by (auto simp: runnable_def)
    moreover have "\<forall>k. ?Q (QStatic k) = Q (QStatic k)" by (simp add: handed_queues_def)
    ultimately show ?thesis using s' self by blast
  qed
qed

lemma KMutexUnlock_sched:
  assumes k: "ksched s L Q" and ex: "\<not> PPCIsInExcpt s" and m: "mutex_owner s m = sprg2 s"
  shows "\<exists>s' L' Q'. KMutexUnlock m s = Some s' \<and> ksched s' L' Q' \<and> mset L' = mset L \<and> released s Q m s'"
proof -
  let ?self = "sprg2 s"
  let ?s1 = "snd (PPCIrqLockByMsr s)"
  note D = kschedD [OF k]
  have cur: "cur_thread s = ?self" using D(5) ex by (simp add: cur_thread_def next_ok_def)
  have k1: "kinv ?s1 L Q" using D(1) by simp
  have ac1: "wait_acyclic ?s1 (set L)" using D(2) cframe_rank [OF lock_cframe] by simp
  have self1: "runnable ?s1 L (sprg2 ?s1)" using D(3) cur by (simp add: least_run_def)
  obtain no s2 L' Q' where s2: "KThreadRemoveWaiter ?self m ?s1 = Some (no, s2)" "kinv (set_owner m no s2) L' Q'"
      "wait_acyclic s2 (set L')" "mset L' = mset L" "gframe ?s1 s2" "released ?s1 Q m (set_owner m no s2)"
      "runnable s2 L' ?self" "prioT s ?self \<le> prioT s2 ?self"
      "\<forall>u. runnable s2 L' u \<longrightarrow> u \<noteq> ?self \<longrightarrow>
         runnable s L u \<and> prioT s2 u = prioT s u \<or> prioT s ?self \<le> prioT s2 u"
    using release_core [OF k1 ac1 self1, of m] m by auto
  have rel: "released s Q m (set_owner m no s2)" using s2(6) by (simp add: released_def mutex_waiters_def split: list.splits cong: if_cong)
  let ?s3 = "set_owner m no s2"
  have reg: "sprg2 ?s3 = ?self" "cur_thread ?s3 = ?self" "next_ok ?s3"
    using s2(5) gframe_cur [OF s2(5)] gframe_next_ok [OF s2(5)] cur D(5) by (auto simp: gframe_def)
  have set_eq: "set L' = set L" using s2(4) by (metis set_mset_mset)
  have ge: "prioT s ?self \<le> prioT s u" if "runnable s L u" for u using D(3) cur that by (auto simp: least_run_def)
  have all: "prioT s ?self \<le> prioT s2 u" if "runnable s2 L' u" for u
    using s2(8,9) ge that by (cases "u = ?self") auto
  obtain nx where nx: "KThreadFindRunnable ?s3 (s_firstThread ?s3) = Some nx" "least_run ?s3 L' nx"
    using FindRunnable_least [OF kinvD(1) [OF s2(2)], of ?self] s2(7) by auto
  have ks: "ksched (PPCIrqUnlockByMsr (msr s AND MSR_EE) ?s3) L' Q'" if "least_run ?s3 L' ?self"
    unfolding ksched_unlock using that s2(2,3) reg D(4) set_eq by (simp add: ksched_def sched_ok_least)
  have relc: "released s Q m s'" if "cframe ?s3 s'" for s'
    using rel that by (simp add: released_def cframe_def split: list.splits)
  consider (stay) "\<not> prioT s ?self < prioT s2 ?self" | (same) "prioT s ?self < prioT s2 ?self" "nx = ?self"
    | (switch) "prioT s ?self < prioT s2 ?self" "nx \<noteq> ?self" by blast
  then show ?thesis
  proof cases
    case stay
    then have "least_run ?s3 L' ?self" using s2(7,8) all by (auto simp: least_run_def)
    moreover have "KMutexUnlock m s = Some (PPCIrqUnlockByMsr (msr s AND MSR_EE) ?s3)"
      using stay s2(1) m by (simp add: KMutexUnlock_def split_beta Let_def)
    ultimately show ?thesis using ks relc [OF unlock_cframe] s2(4) by blast
  next
    case same
    then have "KMutexUnlock m s = Some (PPCIrqUnlockByMsr (msr s AND MSR_EE) ?s3)"
      using s2(1) m nx(1) by (simp add: KMutexUnlock_def split_beta Let_def)
    then show ?thesis using ks nx(2) same relc [OF unlock_cframe] s2(4) by blast
  next
    case switch
    have "nx \<noteq> NULL" using nx(2) kinvD(6) [OF s2(2)] by (auto simp: least_run_def runnable_def)
    have "runnable ?s3 L' nx" using nx(2) by (simp add: least_run_def)
    then have "least_but ?s3 L' nx"
      using nx(2) \<open>nx \<noteq> NULL\<close> s2(7) reg by (auto simp: least_but_def least_run_def)
    then obtain s' where s': "KThreadReschedule nx (msr s AND MSR_EE) ?s3 = Some s'" "cframe ?s3 s'"
        "sched_ok s' L'" "sprg2 s' \<in> set L'" "next_ok s'"
      using Reschedule_least reg(3) by blast
    have "KMutexUnlock m s = Some s'"
      using s2(1) m nx(1) switch s'(1) by (simp add: KMutexUnlock_def split_beta Let_def)
    moreover have "ksched s' L' Q'" using kschedI [OF s'(2) s2(2) _ s'(3,4,5)] s2(3) by simp
    ultimately show ?thesis using relc [OF s'(2)] s2(4) by blast
  qed
qed

section \<open>Locking\<close>

text \<open>The mutex was free.\<close>

lemma free_mutex_unwaited:
  assumes "kinv s L Q" "mutex_owner s m = NULL" "u \<in> set L" "wqueueT s u = QWaiters p"
  shows "tokenT s u \<noteq> m"
proof
  assume "tokenT s u = m"
  then have "p = NULL" using assms kinvD(7) [OF assms(1)] by (auto simp: mutex_ok_def)
  moreover have "p \<in> set L" using kinvD(2) [OF assms(1)] assms(3,4) by (auto simp: queues_ok_def)
  ultimately show False using kinvD(6) [OF assms(1)] by blast
qed

lemma set_owner_sched_free:
  assumes k: "ksched s L Q" and m: "mutex_owner s m = NULL"
  shows "ksched (set_owner m t s) L Q"
  using kschedD [OF k] set_owner_kinv [OF kschedD(1) [OF k] free_mutex_unwaited [OF kschedD(1) [OF k] m]]
  by (simp add: ksched_def sched_ok_least)

text \<open>Linking the caller into the owner's queue and passing its priority on.\<close>

lemma lock_insert:
  assumes k: "kinv s L Q" and self: "runnable s L t" and m: "mutex_owner s m = w" "w \<in> set L"
    and rk: "wait_rank s (set L) rank" "rank w < rank t"
    and s1: "s1 = set_token t m (set_state t KTHR_STATE_WAITING_MUTEX s)"
  shows "\<exists>s2. KThrQueueInsert (QWaiters w) t s1 = Some s2 \<and>
     kwf s2 L (Q(QWaiters w := ins_prio s (Q (QWaiters w)) t)) \<and> mutex_ok s2 (set L) \<and> wait_rank s2 (set L) rank \<and>
     qframe s1 s2 \<and> wqueueT s2 = (wqueueT s)(t := QWaiters w)"
proof -
  let ?q = "QWaiters w"
  let ?Q = "Q(?q := ins_prio s (Q ?q) t)"
  have t: "t \<in> set L" "stateT s t = KTHR_STATE_RUNNING" using self by (auto simp: runnable_def)
  have wt: "wqueueT s t = QNull" using state_okD(2) [OF kinvD(5) [OF k t(1)] t(2)] .
  have ok1: "queues_ok s1 (set L) Q" using kinvD(2) [OF k] queues_ok_cong [of s1 s] s1 by simp
  obtain s2 where s2: "KThrQueueInsert ?q t s1 = Some s2" "queues_ok s2 (set L) ?Q" "qframe s1 s2"
      "wqueueT s2 = (wqueueT s)(t := ?q)"
    using queues_insert [OF ok1, of ?q t] t m(2) wt kinvD(6) [OF k t(1)] s1 by (auto simp: ins_prio_def)
  have f: "stateT s2 = (stateT s)(t := KTHR_STATE_WAITING_MUTEX)" "suspendT s2 = suspendT s" "prioT s2 = prioT s"
      "tokenT s2 = (tokenT s)(t := m)" "mutex_owner s2 = mutex_owner s" "s_firstThread s2 = s_firstThread s"
      "nextT s2 = nextT s"
    using s2(3) s1 by (simp_all add: qframe_def gframe_def)
  have "sorted_by (prioT s2) (?Q q')" if "valid_q (set L) q'" for q'
    using kinvD(9) [OF k that] f(3) by (auto simp: ins_prio_def intro: sorted_by_ins_after)
  moreover have "state_ok s2 u" if "u \<in> set L" for u
    using kinvD(5) [OF k that] f s2(4) by (simp add: state_ok_def)
  ultimately have "kwf s2 L ?Q"
    using kinvD(3,4) [OF k] s2(2) f by (simp add: kwf_def thread_list_def)
  moreover have "mutex_ok s2 (set L)"
    using kinvD(7) [OF k] f(4,5) s2(4) m(1) by (auto simp: mutex_ok_def)
  moreover have "wait_rank s2 (set L) rank" using rk s2(4) by (auto simp: wait_rank_def)
  ultimately show ?thesis using s2 by blast
qed

lemma eff_prio_insert:
  assumes srt: "sorted_by (prioT s) (Q (QWaiters w))"
  shows "eff_prio s (Q(QWaiters w := ins_prio s (Q (QWaiters w)) t)) w = min (eff_prio s Q w) (prioT s t)"
proof -
  let ?Q = "Q(QWaiters w := ins_prio s (Q (QWaiters w)) t)"
  have srt': "sorted_by (prioT s) (?Q (QWaiters w))" using srt by (simp add: ins_prio_def sorted_by_ins_after)
  have "c \<le> eff_prio s ?Q w \<longleftrightarrow> c \<le> min (eff_prio s Q w) (prioT s t)" for c
    using eff_prio_ge [of s ?Q w c] srt' eff_prio_ge [of s Q w c] srt by (auto simp: ins_prio_def)
  then show ?thesis by (metis order_antisym order_refl)
qed

text \<open>
  Passing the priority on, if it is the more urgent one: the whole chain of owners ends up at the
  right priorities, none less urgent than before.
\<close>

lemma lock_boost:
  assumes kw: "kwf s L (Q(QWaiters w := ins_prio s (Q (QWaiters w)) t))" and mx: "mutex_ok s (set L)"
    and w: "w \<in> set L" "w \<noteq> t" and rk: "wait_rank s (set L) rank"
    and old: "\<And>u. u \<in> set L \<Longrightarrow> prioT s u = eff_prio s Q u" "sorted_by (prioT s) (Q (QWaiters w))"
  shows "\<exists>s' L' Q'. (if prioT s t < prioT s w then KThreadUpdateDynamicPrio w s else Some s) = Some s' \<and>
     kinv s' L' Q' \<and> mset L' = mset L \<and> uframe s s' \<and> (\<forall>u. prioT s' u \<le> prioT s u) \<and>
     (wqueueT s w = QNull \<longrightarrow> prioT s' = (prioT s)(w := min (prioT s w) (prioT s t)))"
proof -
  let ?Q = "Q(QWaiters w := ins_prio s (Q (QWaiters w)) t)"
  have eff: "eff_prio s ?Q w = min (prioT s w) (prioT s t)"
    using eff_prio_insert [of s Q w t, OF old(2)] old(1) [OF w(1)] by simp
  have oth: "prioT s u = eff_prio s ?Q u" if "u \<in> set L" "u \<noteq> w" for u
    using old(1) [OF that(1)] that(2) by (simp add: eff_prio_def)
  show ?thesis
  proof (cases "prioT s t < prioT s w")
    case False
    then have "prioT s w = eff_prio s ?Q w" using eff by (auto simp: min_def)
    then have "prio_ok s ?Q (set L)" using oth by (metis prio_ok_def)
    then have "kinv s L ?Q" using kw mx by (simp add: kinv_def)
    then show ?thesis using False
      by (intro exI [of _ s] exI [of _ L] exI [of _ ?Q]) (auto simp: min_def)
  next
    case True
    obtain s' L' Q' where s': "KThreadUpdateDynamicPrio w s = Some s'" "prio_updated w s L ?Q s' L' Q'"
      using update_prio [OF kw mx w(1) rk oth] by blast
    then show ?thesis using True eff
      by (intro exI [of _ s'] exI [of _ L'] exI [of _ Q']) (auto simp: prio_updated_def)
  qed
qed

lemma KMutexLock_free:
  assumes "mutex_owner s m = NULL"
  shows "KMutexLock m s = Some (set_owner m (sprg2 s) s)"
  using assms by (simp add: KMutexLock_def KMutexTryLockImpl_def)

lemma KMutexLock_contended:
  assumes k: "ksched s L Q" and ex: "\<not> PPCIsInExcpt s" and w: "mutex_owner s m = w" "w \<in> set L"
    and rk: "wait_rank s (set L) rank" "rank w < rank (sprg2 s)"
    and i: "runnable s L i" "i \<noteq> sprg2 s"
  shows "\<exists>s' L' Q'. KMutexLock m s = Some s' \<and> ksched s' L' Q' \<and> mset L' = mset L \<and>
     stateT s' = (stateT s)(sprg2 s := KTHR_STATE_WAITING_MUTEX) \<and> wqueueT s' = (wqueueT s)(sprg2 s := QWaiters w) \<and>
     tokenT s' = (tokenT s)(sprg2 s := m) \<and> mutex_owner s' = mutex_owner s \<and> suspendT s' = suspendT s \<and>
     basepT s' = basepT s \<and> (\<forall>u. prioT s' u \<le> prioT s u) \<and> sprg2 s' \<noteq> sprg2 s"
proof -
  let ?self = "sprg2 s"
  let ?s0 = "snd (PPCIrqLockByMsr s)"
  let ?s1 = "set_token ?self m (set_state ?self KTHR_STATE_WAITING_MUTEX ?s0)"
  let ?Q = "Q(QWaiters w := ins_prio ?s0 (Q (QWaiters w)) ?self)"
  note D = kschedD [OF k]
  have w0: "w \<noteq> NULL" "w \<noteq> ?self" using kinvD(6) [OF D(1) w(2)] rk(2) by auto
  have cur: "cur_thread s = ?self" using D(5) ex by (simp add: cur_thread_def next_ok_def)
  have lr: "runnable s L ?self" "\<And>u. runnable s L u \<Longrightarrow> prioT s ?self \<le> prioT s u"
    using D(3) cur by (auto simp: least_run_def)
  have k0: "kinv ?s0 L Q" using D(1) by simp
  have rk0: "wait_rank ?s0 (set L) rank" using rk(1) by (simp add: wait_rank_def)
  obtain s2 where s2: "KThrQueueInsert (QWaiters w) ?self ?s1 = Some s2" "kwf s2 L ?Q" "mutex_ok s2 (set L)"
      "wait_rank s2 (set L) rank" "qframe ?s1 s2" "wqueueT s2 = (wqueueT s)(?self := QWaiters w)"
    using lock_insert [OF k0 _ _ w(2) rk0 rk(2), of m ?s1] lr(1) w(1) by auto
  have f2: "prioT s2 = prioT s" "basepT s2 = basepT s" "stateT s2 = (stateT s)(?self := KTHR_STATE_WAITING_MUTEX)"
      "tokenT s2 = (tokenT s)(?self := m)" "suspendT s2 = suspendT s" "mutex_owner s2 = mutex_owner s"
    using s2(5) by (simp_all add: qframe_def gframe_def)
  have ip: "ins_prio ?s0 = ins_prio s2" using f2(1) by (intro ins_prio_cong) simp
  have eff: "eff_prio s2 Q u = eff_prio s Q u" for u using f2 by (intro eff_prio_cong) auto
  obtain s3 L' Q' where s3: "(if prioT s2 ?self < prioT s2 w then KThreadUpdateDynamicPrio w s2 else Some s2) = Some s3"
      "kinv s3 L' Q'" "mset L' = mset L" "uframe s2 s3" "\<forall>u. prioT s3 u \<le> prioT s2 u"
      "wqueueT s2 w = QNull \<longrightarrow> prioT s3 = (prioT s2)(w := min (prioT s2 w) (prioT s2 ?self))"
    using lock_boost [OF s2(2) [unfolded ip] s2(3) w(2) w0(2) s2(4)] kinvD(8,9) [OF D(1)] w(2) f2(1) eff
    by (auto simp: prio_ok_def)
  have set_eq: "set L' = set L" using s3(3) by (metis set_mset_mset)
  have f3: "stateT s3 = stateT s2" "wqueueT s3 = wqueueT s2" "tokenT s3 = tokenT s2" "suspendT s3 = suspendT s2"
      "basepT s3 = basepT s2" "mutex_owner s3 = mutex_owner s2" "gframe s2 s3"
    using s3(4) by (auto simp: uframe_def gframe_def)
  have g: "gframe ?s1 s3" using qframe_gframe [OF s2(5)] f3(7) by (rule gframe_trans)
  have reg: "sprg2 s3 = ?self" "ppc_next_ctx s3 = NULL" "\<not> PPCIsInExcpt s3" "next_ok s3"
    using g D(5) ex excpt_msr [of s3 ?s1] by (auto simp: gframe_def next_ok_def)
  have run3: "runnable s3 L' u \<longleftrightarrow> runnable s L u \<and> u \<noteq> ?self" for u
    using f3(1) f2(3) set_eq by (auto simp: runnable_def)
  obtain n where n: "KThreadFindRunnable s3 (s_firstThread s3) = Some n" "least_run s3 L' n"
    using FindRunnable_least [OF kinvD(1) [OF s3(2)], of i] i run3 by auto
  define nx where "nx = (if prioT s2 ?self < prioT s2 w \<and> stateT s3 w = KTHR_STATE_RUNNING then w else n)"
  have "least_run s3 L' nx"
  proof (cases "prioT s2 ?self < prioT s2 w \<and> stateT s3 w = KTHR_STATE_RUNNING")
    case True
    then have rw: "runnable s L w" using f3(1) f2(3) w(2) w0 by (simp add: runnable_def)
    then have "wqueueT s2 w = QNull"
      using state_okD(2) [OF kinvD(5) [OF D(1) w(2)]] s2(6) w0 by (simp add: runnable_def)
    then have p3: "prioT s3 = (prioT s)(w := prioT s ?self)" using s3(6) True f2(1) by (simp add: min_absorb2 less_imp_le)
    then show ?thesis using rw lr(2) w0 True run3 by (auto simp: nx_def least_run_def)
  qed (use n(2) in \<open>auto simp: nx_def\<close>)
  moreover have "nx \<noteq> NULL" "nx \<noteq> ?self"
    using calculation kinvD(6) [OF s3(2)] run3 by (auto simp: least_run_def runnable_def)
  ultimately obtain s' where s': "KThreadSwitchTo nx (msr s AND MSR_EE) s3 = Some s'" "cframe s3 s'" "sched_ok s' L'"
      "sprg2 s' = nx" "next_ok s'"
    using SwitchTo_least [of s3 L' nx "msr s"] reg by auto
  have "KMutexLock_slow m s = Some s'"
    using s2(1) s3(1) n(1) s'(1) w w0 by (simp add: KMutexLock_slow_def split_beta Let_def nx_def split: if_splits)
  then have "KMutexLock m s = Some s'" using w w0 by (simp add: KMutexLock_def KMutexTryLockImpl_def)
  moreover have "nx \<in> set L'" using \<open>least_run s3 L' nx\<close> by (simp add: least_run_def runnable_def)
  moreover have "wait_acyclic s3 (set L')"
    using s2(4) f3(2) set_eq by (auto simp: wait_acyclic_def wait_rank_def)
  ultimately have "ksched s' L' Q'" using kschedI [OF s'(2) s3(2) _ s'(3) _ s'(5)] s'(4) by simp
  then show ?thesis using \<open>KMutexLock m s = Some s'\<close> s3(3,5) s'(2,4) f3 f2 s2(6) \<open>nx \<noteq> ?self\<close>
    by (auto simp: cframe_def)
qed

section \<open>Condition variables\<close>

text \<open>Releasing the mutex and starting to wait is one step: the caller is in the queue when others run.\<close>

lemma KCondVarWait_sched:
  assumes k: "ksched s L Q" and ex: "\<not> PPCIsInExcpt s" and m: "mutex_owner s m = sprg2 s"
    and i: "runnable s L i" "i \<noteq> sprg2 s"
  shows "\<exists>s' L' Q'. KCondVarWait cv m s = Some s' \<and> ksched s' L' Q' \<and> mset L' = mset L \<and>
     stateT s' (sprg2 s) = KTHR_STATE_WAITING \<and> tokenT s' (sprg2 s) = cv \<and> wqueueT s' (sprg2 s) = QStatic S_cvWaitQueue \<and>
     set (Q' (QStatic S_cvWaitQueue)) = insert (sprg2 s) (set (Q (QStatic S_cvWaitQueue))) \<and>
     mutex_owner s' = (mutex_owner s)(m := case mutex_waiters s Q m of [] \<Rightarrow> NULL | n # _ \<Rightarrow> n) \<and>
     (\<forall>u. runnable s L u \<longrightarrow> u \<noteq> sprg2 s \<longrightarrow> runnable s' L' u)"
proof -
  let ?self = "sprg2 s"
  let ?s1 = "snd (PPCIrqLockByMsr s)"
  note D = kschedD [OF k]
  have cur: "cur_thread s = ?self" using D(5) ex by (simp add: cur_thread_def next_ok_def)
  have k1: "kinv ?s1 L Q" using D(1) by simp
  have ac1: "wait_acyclic ?s1 (set L)" using D(2) cframe_rank [OF lock_cframe] by simp
  have self1: "runnable ?s1 L (sprg2 ?s1)" using D(3) cur by (simp add: least_run_def)
  obtain no s2 L' Q' where s2: "KThreadRemoveWaiter ?self m ?s1 = Some (no, s2)" "kinv (set_owner m no s2) L' Q'"
      "wait_acyclic s2 (set L')" "mset L' = mset L" "gframe ?s1 s2" "released ?s1 Q m (set_owner m no s2)"
      "runnable s2 L' ?self" "\<forall>u. runnable s L u \<longrightarrow> runnable s2 L' u" "\<forall>k. Q' (QStatic k) = Q (QStatic k)"
    using release_core [OF k1 ac1 self1, of m] m by auto
  let ?s3 = "set_owner m no s2"
  have reg: "sprg2 ?s3 = ?self" "ppc_next_ctx ?s3 = NULL" "next_ok ?s3"
    using s2(5) gframe_next_ok [OF s2(5)] ex D(5) by (auto simp: gframe_def next_ok_def)
  have rel: "cv_release m ?s1 = Some ?s3" using s2(1) m by (simp add: cv_release_def)
  have own: "mutex_owner ?s3 = (mutex_owner s)(m := case mutex_waiters s Q m of [] \<Rightarrow> NULL | n # _ \<Rightarrow> n)"
    using s2(6) by (simp add: released_def mutex_waiters_def split: list.splits)
  obtain s' where s': "KThrQueueBlock (QStatic S_cvWaitQueue) cv ?s3 = Some s'"
      "ksched s' L' (Q'(QStatic S_cvWaitQueue := ins_after (\<lambda>p. prioT ?s3 p \<le> prioT ?s3 ?self) ?self (Q' (QStatic S_cvWaitQueue))))"
      "stateT s' = (stateT ?s3)(?self := KTHR_STATE_WAITING)" "tokenT s' = (tokenT ?s3)(?self := cv)"
      "wqueueT s' = (wqueueT ?s3)(?self := QStatic S_cvWaitQueue)" "mutex_owner s' = mutex_owner ?s3"
    using KThrQueueBlock_core [OF s2(2) _ reg(3), of i S_cvWaitQueue cv] s2(3,7,8) reg(1,2) i by auto
  have "KCondVarWait cv m s = Some s'" using rel s'(1) by (simp add: KCondVarWait_def split_beta Let_def)
  moreover have "runnable s' L' u" if "runnable s L u" "u \<noteq> ?self" for u
    using that s2(8) s'(3) by (auto simp: runnable_def)
  ultimately show ?thesis using s' s2(4,9) own by (intro exI [of _ s'] exI [of _ L'] exI conjI) auto
qed

lemma KCondVarSignal_sched:
  assumes k: "ksched s L Q" and self: "runnable s L (sprg2 s)"
  shows "\<exists>s' Q'. KCondVarSignal cv s = Some s' \<and> ksched s' L Q' \<and>
     (case find (\<lambda>u. tokenT s u = cv) (Q (QStatic S_cvWaitQueue)) of
        None \<Rightarrow> woken {} (\<lambda>_. 1) s s' | Some u \<Rightarrow> woken {u} (\<lambda>_. 1) s s')"
proof -
  let ?ts = "unblock_set s KTHR_UNBLOCK_BY_VALUE cv 1 (Q (QStatic S_cvWaitQueue))"
  have r: "unblock_result KTHR_UNBLOCK_BY_VALUE cv = (\<lambda>_. 1)" by (simp add: unblock_result_def fun_eq_iff)
  show ?thesis
    using UnblockCommon_sched [OF k self refl, of S_cvWaitQueue 1 KTHR_UNBLOCK_BY_VALUE cv] unfolding r
    by (auto simp: KCondVarSignal_def KThrQueueUnblockOneByValue_def unblock_set_def taken_one split: option.splits)
qed

end
