(* ===== verification/KStep.thy ===== *)
theory KStep
  imports KMutexOps
begin

text \<open>
  The kernel as a state machine. A step is one kernel call made by the running thread, one call made
  by an interrupt handler, or the entry into and the return from the interrupt dispatcher of
  \<open>interrupt_asm.S\<close>. \<open>kexec\<close> makes the call, \<open>kcall_ok\<close> says when it is made, \<open>kreach\<close> is the closure. Under these
  conditions every call returns, and the scheduling invariant \<open>ksched\<close> holds in every reachable state.
\<close>

section \<open>Interrupt entry and return\<close>

text \<open>
  \<open>PPCExcptIrqHandler\<close> saves the interrupted machine state in the current thread's context; the
  processor has cleared \<open>EE\<close>, \<open>FP\<close> and \<open>RI\<close> on entry. On return it loads \<open>__ppc_next_ctx\<close> when the
  dispatcher asked for a switch, and the interrupted context otherwise.
\<close>

definition irq_enter :: "kstate \<Rightarrow> kstate" where
  "irq_enter s = (set_ctx (sprg2 s) (\<lambda>c. c\<lparr>ctx_msr := msr s\<rparr>) s)
     \<lparr>msr := msr s AND NOT (MSR_EE OR MSR_FP OR MSR_RI)\<rparr>"

definition irq_return :: "kstate \<Rightarrow> kstate" where
  "irq_return s = PPCContextJump (if ppc_next_ctx s \<noteq> NULL then ppc_next_ctx s else sprg2 s) s"

lemma irq_enter_sched:
  assumes "ksched s L Q" "\<not> PPCIsInExcpt s"
  shows "ksched (irq_enter s) L Q" "PPCIsInExcpt (irq_enter s)" "runnable (irq_enter s) L u = runnable s L u"
proof -
  have c: "cframe s (irq_enter s)" unfolding irq_enter_def
    by (rule cframe_trans [OF cframe_globals(4) cframe_globals(1)])
  have r: "sprg2 (irq_enter s) = sprg2 s" "ppc_next_ctx (irq_enter s) = ppc_next_ctx s"
    by (simp_all add: irq_enter_def)
  have n: "ppc_next_ctx s = NULL" using kschedD(5) [OF assms(1)] assms(2) by (auto simp: next_ok_def)
  show "ksched (irq_enter s) L Q"
    using r n by (intro ksched_cframe [OF assms(1) c]) (auto simp: cur_thread_def next_ok_def)
  show "PPCIsInExcpt (irq_enter s)" using msr_no_RI by (simp add: irq_enter_def PPCIsInExcpt_def)
  show "runnable (irq_enter s) L u = runnable s L u" by (rule cframe_runnable [OF c])
qed

lemma irq_return_sched:
  assumes "ksched s L Q"
  shows "ksched (irq_return s) L Q" "sprg2 (irq_return s) = cur_thread s" "runnable (irq_return s) L u = runnable s L u"
proof -
  have eq: "irq_return s = PPCContextJump (cur_thread s) s" by (simp add: irq_return_def cur_thread_def)
  show "ksched (irq_return s) L Q" unfolding eq by (rule jump_ksched [OF kschedD(1-3) [OF assms]])
  show "sprg2 (irq_return s) = cur_thread s" by (simp add: eq PPCContextJump_def)
  show "runnable (irq_return s) L u = runnable s L u" unfolding eq by (rule cframe_runnable [OF jump_cframe])
qed

section \<open>The step relation\<close>

definition live :: "kstate \<Rightarrow> ptr \<Rightarrow> bool" where
  "live s t \<longleftrightarrow> (\<exists>L. thread_list s L \<and> t \<in> set L)"

definition handler_ok :: "kstate \<Rightarrow> bool" where
  "handler_ok s \<longleftrightarrow> \<not> PPCIsInExcpt s \<or> stateT s (sprg2 s) = KTHR_STATE_RUNNING"

definition may_wait :: "kstate \<Rightarrow> ptr \<Rightarrow> bool" where
  "may_wait s w \<longleftrightarrow> (\<exists>rank. wait_rank s {t. live s t} rank \<and> rank w < rank (sprg2 s))"

text \<open>What can happen next: an interrupt, the return from it, or a kernel call with its arguments.\<close>

datatype kcall =
    K_irq
  | K_rfi
  | K_prepare link_env ptr u32 u32 u32 u16
  | K_resume ptr
  | K_suspend ptr
  | K_yield
  | K_set_prio ptr u16
  | K_exit u32
  | K_block static_queue u32
  | K_unblock static_queue int KThrUnblockMode u32
  | K_cancel static_queue ptr
  | K_lock ptr
  | K_unlock ptr
  | K_cv_wait ptr ptr

fun kexec :: "kcall \<Rightarrow> kstate \<Rightarrow> kstate option" where
  "kexec K_irq s = Some (irq_enter s)"
| "kexec K_rfi s = Some (irq_return s)"
| "kexec (K_prepare env t pc arg sp prio) s = KThreadPrepare env t pc arg sp prio s"
| "kexec (K_resume t) s = KThreadResume t s"
| "kexec (K_suspend t) s = KThreadSuspend t s"
| "kexec K_yield s = KThreadYield s"
| "kexec (K_set_prio t prio) s = KThreadSetPrio t prio s"
| "kexec (K_exit rc) s = KThreadExit rc s"
| "kexec (K_block k tok) s = KThrQueueBlock (QStatic k) tok s"
| "kexec (K_unblock k n mode ref) s = KThrQueueUnblockCommon (QStatic k) n mode ref s"
| "kexec (K_cancel k t) s = KThrQueueCancel (QStatic k) t s"
| "kexec (K_lock m) s = KMutexLock m s"
| "kexec (K_unlock m) s = KMutexUnlock m s"
| "kexec (K_cv_wait cv m) s = KCondVarWait cv m s"

text \<open>
  The conditions under which the calls are made. The code checks none of them.
  \<^item> A thread is prepared in memory of its own; the other calls that name a thread name a live one.
  \<^item> The idle thread does not block, exit or get suspended, and suspend counts do not overflow.
  \<^item> A handler wakes or resumes others while the thread it interrupted is still running (\<open>handler_ok\<close>): once it has suspended
    that thread, it may only resume that one, suspend more threads, or return.
  \<^item> Calls that can sleep, exit, yield, change priorities or use mutexes are made by threads, not by handlers.
  \<^item> The priority of a thread that waits for a mutex is not changed: there \<open>KThreadSetPrio\<close> may make the
    owner more urgent than the caller and does not reschedule.
  \<^item> A lock that has to wait closes no cycle of owners, and the owner is alive; a thread that exits owns no mutex others wait for;
    mutexes are released by their owner.
\<close>

fun kcall_ok :: "ptr \<Rightarrow> kcall \<Rightarrow> kstate \<Rightarrow> bool" where
  "kcall_ok idle K_irq s \<longleftrightarrow> \<not> PPCIsInExcpt s"
| "kcall_ok idle K_rfi s \<longleftrightarrow> PPCIsInExcpt s"
| "kcall_ok idle (K_prepare env t pc arg sp prio) s \<longleftrightarrow> \<not> live s t \<and> t \<noteq> NULL"
| "kcall_ok idle (K_resume t) s \<longleftrightarrow> live s t \<and> (t = sprg2 s \<or> handler_ok s)"
| "kcall_ok idle (K_suspend t) s \<longleftrightarrow> live s t \<and> t \<noteq> idle \<and> suspendT s t \<noteq> 0xffff"
| "kcall_ok idle K_yield s \<longleftrightarrow> \<not> PPCIsInExcpt s"
| "kcall_ok idle (K_set_prio t prio) s \<longleftrightarrow> \<not> PPCIsInExcpt s \<and> live s t \<and> stateT s t \<noteq> KTHR_STATE_WAITING_MUTEX"
| "kcall_ok idle (K_exit rc) s \<longleftrightarrow> \<not> PPCIsInExcpt s \<and> sprg2 s \<noteq> idle \<and> q_next (waitersT s (sprg2 s)) = NULL"
| "kcall_ok idle (K_block k tok) s \<longleftrightarrow> \<not> PPCIsInExcpt s \<and> sprg2 s \<noteq> idle"
| "kcall_ok idle (K_unblock k n mode ref) s \<longleftrightarrow> handler_ok s"
| "kcall_ok idle (K_cancel k t) s \<longleftrightarrow> handler_ok s \<and> live s t"
| "kcall_ok idle (K_lock m) s \<longleftrightarrow> \<not> PPCIsInExcpt s \<and>
     (mutex_owner s m \<noteq> NULL \<longrightarrow> sprg2 s \<noteq> idle \<and> live s (mutex_owner s m) \<and> may_wait s (mutex_owner s m))"
| "kcall_ok idle (K_unlock m) s \<longleftrightarrow> \<not> PPCIsInExcpt s \<and> mutex_owner s m = sprg2 s"
| "kcall_ok idle (K_cv_wait cv m) s \<longleftrightarrow> \<not> PPCIsInExcpt s \<and> sprg2 s \<noteq> idle \<and> mutex_owner s m = sprg2 s"

inductive kreach :: "ptr \<Rightarrow> kstate \<Rightarrow> kstate \<Rightarrow> bool" for idle s0 where
  start: "kreach idle s0 s0"
| step: "kreach idle s0 s \<Longrightarrow> kcall_ok idle c s \<Longrightarrow> kexec c s = Some s' \<Longrightarrow> kreach idle s0 s'"

lemma kreach_trans:
  assumes "kreach idle s1 s2" "kreach idle s0 s1"
  shows "kreach idle s0 s2"
  using assms by (induction rule: kreach.induct) (auto intro: kreach.intros)

section \<open>The invariant\<close>

definition kernel_ok :: "ptr \<Rightarrow> kstate \<Rightarrow> bool" where
  "kernel_ok idle s \<longleftrightarrow> (\<exists>L Q. ksched s L Q \<and> runnable s L idle)"

lemma kernel_okI: "ksched s L Q \<Longrightarrow> runnable s L idle \<Longrightarrow> kernel_ok idle s"
  by (auto simp: kernel_ok_def)

lemma live_iff: "ksched s L Q \<Longrightarrow> live s t \<longleftrightarrow> t \<in> set L"
  using kinvD(3) [OF kschedD(1)] by (auto simp: live_def thread_list_def dest: lst_unique)

lemma handler_self:
  assumes "ksched s L Q" "handler_ok s"
  shows "runnable s L (sprg2 s)"
  using kschedD(3-5) [OF assms(1)] assms(2)
  by (auto simp: handler_ok_def runnable_def least_run_def cur_thread_def next_ok_def split: if_splits)

lemma thread_mode: "\<not> PPCIsInExcpt s \<Longrightarrow> handler_ok s"
  by (simp add: handler_ok_def)

lemma runnable_stateT: "runnable s L t \<Longrightarrow> stateT s' t = stateT s t \<Longrightarrow> mset L' = mset L \<Longrightarrow> runnable s' L' t"
  by (auto simp: runnable_def dest: mset_eq_setD)

lemma woken_runnable: "woken ts f s s' \<Longrightarrow> runnable s L t \<Longrightarrow> runnable s' L t"
  by (auto simp: woken_def runnable_def)

lemma no_waiters:
  assumes "ksched s L Q" "t \<in> set L" "q_next (waitersT s t) = NULL"
  shows "Q (QWaiters t) = []"
proof -
  have "qlist s (QWaiters t) (Q (QWaiters t))"
    using queues_okD(1) [OF kinvD(2) [OF kschedD(1) [OF assms(1)]], of "QWaiters t"] assms(2) by simp
  then show ?thesis using assms(3) by (cases "Q (QWaiters t)") (auto simp: qlist_def)
qed

lemma not_mutex_queue:
  assumes "ksched s L Q" "t \<in> set L" "stateT s t \<noteq> KTHR_STATE_WAITING_MUTEX"
  shows "wqueueT s t \<noteq> QWaiters p"
  using kinvD(5) [OF kschedD(1) [OF assms(1)] assms(2)] assms(3)
  by (cases "stateT s t") (auto simp: state_ok_def)


text \<open>One lemma per kind of step: the call returns, and the invariant holds again.\<close>

definition goes_on :: "ptr \<Rightarrow> kstate option \<Rightarrow> bool" where
  "goes_on idle r \<longleftrightarrow> (\<exists>s'. r = Some s' \<and> kernel_ok idle s')"

lemma goes_onI: "r = Some s' \<Longrightarrow> ksched s' L Q \<Longrightarrow> runnable s' L idle \<Longrightarrow> goes_on idle r"
  by (auto simp: goes_on_def kernel_ok_def)

lemma step_enter: "kernel_ok idle s \<Longrightarrow> \<not> PPCIsInExcpt s \<Longrightarrow> goes_on idle (Some (irq_enter s))"
  using irq_enter_sched by (fastforce simp: kernel_ok_def goes_on_def)

lemma step_leave: "kernel_ok idle s \<Longrightarrow> goes_on idle (Some (irq_return s))"
  using irq_return_sched by (fastforce simp: kernel_ok_def goes_on_def)

lemma step_prepare:
  assumes "kernel_ok idle s" "\<not> live s t" "t \<noteq> NULL"
  shows "goes_on idle (KThreadPrepare env t pc arg sp prio s)"
proof -
  obtain L Q where k: "ksched s L Q" "runnable s L idle" using assms(1) by (auto simp: kernel_ok_def)
  have t: "t \<notin> set L" using live_iff [OF k(1)] assms(2) by simp
  obtain s' L' where s': "KThreadPrepare env t pc arg sp prio s = Some s'" "ksched s' L' (Q(QWaiters t := []))"
      "mset L' = add_mset t (mset L)" "\<forall>u. u \<noteq> t \<longrightarrow> stateT s' u = stateT s u"
    using KThreadPrepare_sched [OF k(1) t assms(3), of env pc arg sp prio] by auto
  moreover from this(3) have "set L' = insert t (set L)" using set_mset_mset by (metis set_mset_add_mset_insert)
  ultimately show ?thesis using k(2) t by (intro goes_onI [OF s'(1,2)]) (auto simp: runnable_def)
qed

lemma step_resume:
  assumes "kernel_ok idle s" "live s t" "t = sprg2 s \<or> handler_ok s"
  shows "goes_on idle (KThreadResume t s)"
proof -
  obtain L Q where k: "ksched s L Q" "runnable s L idle" using assms(1) by (auto simp: kernel_ok_def)
  have "t \<in> set L" "t \<noteq> sprg2 s \<Longrightarrow> runnable s L (sprg2 s)"
    using live_iff [OF k(1)] handler_self [OF k(1)] assms(2,3) by auto
  from KThreadResume_sched [OF k(1) this] obtain s' where s': "KThreadResume t s = Some s'" "ksched s' L Q"
      "stateT s' = (stateT s)(t := if suspendT s t = 1 \<and> wqueueT s t = QNull then KTHR_STATE_RUNNING else stateT s t)"
    by blast
  then show ?thesis using k(2) by (intro goes_onI [OF s'(1,2)]) (auto simp: runnable_def)
qed

lemma step_suspend:
  assumes "kernel_ok idle s" "live s t" "t \<noteq> idle" "suspendT s t \<noteq> 0xffff"
  shows "goes_on idle (KThreadSuspend t s)"
proof -
  obtain L Q where k: "ksched s L Q" "runnable s L idle" using assms(1) by (auto simp: kernel_ok_def)
  obtain s' where s': "KThreadSuspend t s = Some s'" "ksched s' L Q" "stateT s' idle = stateT s idle"
    using KThreadSuspend_sched [OF k(1) _ assms(4) k(2)] live_iff [OF k(1)] assms(2,3) by auto
  then show ?thesis using k(2) by (intro goes_onI [OF s'(1,2)]) (auto simp: runnable_def)
qed

lemma step_yield:
  assumes "kernel_ok idle s" "\<not> PPCIsInExcpt s"
  shows "goes_on idle (KThreadYield s)"
proof -
  obtain L Q where k: "ksched s L Q" "runnable s L idle" using assms(1) by (auto simp: kernel_ok_def)
  obtain xs ys where "L = xs @ sprg2 s # ys" using kschedD(4) [OF k(1)] by (meson split_list)
  then obtain s' where s': "KThreadYield s = Some s'" "ksched s' L Q" "cframe s s'"
    using KThreadYield_sched [OF k(1) assms(2)] by auto
  then show ?thesis using k(2) cframe_runnable by (intro goes_onI [OF s'(1,2)]) auto
qed

lemma step_set_prio:
  assumes "kernel_ok idle s" "\<not> PPCIsInExcpt s" "live s t" "stateT s t \<noteq> KTHR_STATE_WAITING_MUTEX"
  shows "goes_on idle (KThreadSetPrio t prio s)"
proof -
  obtain L Q where k: "ksched s L Q" "runnable s L idle" using assms(1) by (auto simp: kernel_ok_def)
  have t: "t \<in> set L" using live_iff [OF k(1)] assms(3) by simp
  obtain s' L' Q' where s': "KThreadSetPrio t prio s = Some s'" "ksched s' L' Q'" "mset L' = mset L" "stateT s' = stateT s"
    using KThreadSetPrio_sched [OF k(1) t assms(2) not_mutex_queue [OF k(1) t assms(4)], of prio] by auto
  then show ?thesis using k(2) runnable_stateT [of s L idle] by (intro goes_onI [OF s'(1,2)]) auto
qed

lemma step_exit:
  assumes "kernel_ok idle s" "\<not> PPCIsInExcpt s" "sprg2 s \<noteq> idle" "q_next (waitersT s (sprg2 s)) = NULL"
  shows "goes_on idle (KThreadExit rc s)"
proof -
  obtain L Q where k: "ksched s L Q" "runnable s L idle" using assms(1) by (auto simp: kernel_ok_def)
  show ?thesis
    using KThreadExit_sched [OF k(1) assms(2) k(2) _ no_waiters [OF k(1) kschedD(4) [OF k(1)] assms(4)] refl, of rc]
      assms(3) k(2) by (auto intro!: goes_onI)
qed

lemma step_block:
  assumes "kernel_ok idle s" "\<not> PPCIsInExcpt s" "sprg2 s \<noteq> idle"
  shows "goes_on idle (KThrQueueBlock (QStatic k) tok s)"
proof -
  obtain L Q where k: "ksched s L Q" "runnable s L idle" using assms(1) by (auto simp: kernel_ok_def)
  obtain s' Q' where s': "KThrQueueBlock (QStatic k) tok s = Some s'" "ksched s' L Q'"
      "stateT s' = (stateT s)(sprg2 s := KTHR_STATE_WAITING)"
    using KThrQueueBlock_sched [OF k(1) handler_self [OF k(1) thread_mode [OF assms(2)]] k(2), of k tok] assms(3) by auto
  then show ?thesis using k(2) assms(3) by (intro goes_onI [OF s'(1,2)]) (auto simp: runnable_def)
qed

lemma step_unblock:
  assumes "kernel_ok idle s" "handler_ok s"
  shows "goes_on idle (KThrQueueUnblockCommon (QStatic k) n mode ref s)"
proof -
  obtain L Q where k: "ksched s L Q" "runnable s L idle" using assms(1) by (auto simp: kernel_ok_def)
  show ?thesis
    using UnblockCommon_sched [OF k(1) handler_self [OF k(1) assms(2)] refl, of k n mode ref]
      woken_runnable [OF _ k(2)] by (auto intro!: goes_onI)
qed

lemma step_cancel:
  assumes "kernel_ok idle s" "handler_ok s" "live s t"
  shows "goes_on idle (KThrQueueCancel (QStatic k) t s)"
proof -
  obtain L Q where k: "ksched s L Q" "runnable s L idle" using assms(1) by (auto simp: kernel_ok_def)
  obtain s' Q' where s': "KThrQueueCancel (QStatic k) t s = Some s'" "ksched s' L Q'" "woken {t} (\<lambda>_. 0) s s' \<or> cframe s s'"
    using KThrQueueCancel_sched [OF k(1) handler_self [OF k(1) assms(2)], of t k] live_iff [OF k(1)] assms(3)
    by (auto split: if_splits)
  then show ?thesis using woken_runnable [OF _ k(2)] cframe_runnable [of s s'] k(2) by (auto intro!: goes_onI)
qed

lemma step_lock:
  assumes "kernel_ok idle s" "\<not> PPCIsInExcpt s"
    "mutex_owner s m \<noteq> NULL \<longrightarrow> sprg2 s \<noteq> idle \<and> live s (mutex_owner s m) \<and> may_wait s (mutex_owner s m)"
  shows "goes_on idle (KMutexLock m s)"
proof -
  obtain L Q where k: "ksched s L Q" "runnable s L idle" using assms(1) by (auto simp: kernel_ok_def)
  show ?thesis
  proof (cases "mutex_owner s m = NULL")
    case True
    then show ?thesis using KMutexLock_free [OF True] set_owner_sched_free [OF k(1) True] k(2)
      by (auto intro!: goes_onI)
  next
    case False
    then have w: "mutex_owner s m \<in> set L" "sprg2 s \<noteq> idle" using assms(3) live_iff [OF k(1)] by auto
    have "{t. live s t} = set L" using live_iff [OF k(1)] by auto
    then obtain rank where rk: "wait_rank s (set L) rank" "rank (mutex_owner s m) < rank (sprg2 s)"
      using assms(3) False by (auto simp: may_wait_def)
    obtain s' L' Q' where s': "KMutexLock m s = Some s'" "ksched s' L' Q'" "mset L' = mset L"
        "stateT s' = (stateT s)(sprg2 s := KTHR_STATE_WAITING_MUTEX)"
      using KMutexLock_contended [OF k(1) assms(2) refl w(1) rk k(2)] w(2) by auto
    then show ?thesis using runnable_stateT [OF k(2), of s' L'] w(2) by (intro goes_onI [OF s'(1,2)]) auto
  qed
qed

lemma step_unlock:
  assumes "kernel_ok idle s" "\<not> PPCIsInExcpt s" "mutex_owner s m = sprg2 s"
  shows "goes_on idle (KMutexUnlock m s)"
proof -
  obtain L Q where k: "ksched s L Q" "runnable s L idle" using assms(1) by (auto simp: kernel_ok_def)
  obtain s' L' Q' where u: "KMutexUnlock m s = Some s'" "ksched s' L' Q'" "mset L' = mset L" "released s Q m s'"
    using KMutexUnlock_sched [OF k(1) assms(2,3)] by auto
  have "stateT s' idle = KTHR_STATE_RUNNING"
  proof (cases "mutex_waiters s Q m")
    case Nil
    then show ?thesis using u(4) k(2) by (simp add: released_def runnable_def)
  next
    case (Cons n rest)
    have "suspendT s idle = 0"
      using k(2) kinvD(5) [OF kschedD(1) [OF k(1)], of idle] by (auto simp: runnable_def state_ok_def)
    then show ?thesis using u(4) k(2) Cons by (auto simp: released_def runnable_def)
  qed
  then show ?thesis using u(3) k(2) by (intro goes_onI [OF u(1,2)]) (auto simp: runnable_def dest: mset_eq_setD)
qed

lemma step_cv_wait:
  assumes "kernel_ok idle s" "\<not> PPCIsInExcpt s" "sprg2 s \<noteq> idle" "mutex_owner s m = sprg2 s"
  shows "goes_on idle (KCondVarWait cv m s)"
proof -
  obtain L Q where k: "ksched s L Q" "runnable s L idle" using assms(1) by (auto simp: kernel_ok_def)
  then show ?thesis
    using KCondVarWait_sched [OF k(1) assms(2,4) k(2), of cv] assms(3) by (auto intro!: goes_onI)
qed

lemmas kstep_lemmas = step_enter step_leave step_prepare step_resume step_suspend step_yield step_set_prio
  step_exit step_block step_unblock step_cancel step_lock step_unlock step_cv_wait

lemma kexec_ok: "kernel_ok idle s \<Longrightarrow> kcall_ok idle c s \<Longrightarrow> goes_on idle (kexec c s)"
  by (cases c) (auto intro: kstep_lemmas)

lemma kreach_ok: "kreach idle s0 s \<Longrightarrow> kernel_ok idle s0 \<Longrightarrow> kernel_ok idle s"
  by (induction rule: kreach.induct) (auto simp: goes_on_def dest: kexec_ok)

end
