(* ===== verification/KProps.thy ===== *)
theory KProps
  imports KStep
begin

text \<open>
  The correctness properties of the thread scheduler, the wait queues and the mutexes, each applied
  to a concrete kernel state. \<open>boot\<close> is the state \<open>KThreadInit\<close> leaves behind for a main thread at
  address \<open>0x100\<close> and the idle thread at \<open>0x200\<close>.
\<close>

section \<open>A concrete kernel\<close>

definition zero_state :: kstate where
  "zero_state = \<lparr>threads = (\<lambda>_. zero_thread), s_firstThread = NULL, ppc_next_ctx = NULL, sprg2 = NULL,
     sprg3 = NULL, msr = MSR_EE OR MSR_RI, squeues = (\<lambda>_. zero_queue), mutex_owner = (\<lambda>_. NULL),
     stack_mem = (\<lambda>_. 0), tasks = (\<lambda>_. zero_task), s_firstTask = NULL, timebase = 0, dec_reg = 0\<rparr>"

definition boot :: kstate where "boot = KThreadInit 0x100 0x200 0x3000 zero_state"

lemma zero_state_ready:
  "threads zero_state = (\<lambda>_. zero_thread)" "squeues zero_state = (\<lambda>_. zero_queue)"
  "\<not> PPCIsInExcpt zero_state" "ppc_next_ctx zero_state = NULL"
  by (simp_all add: zero_state_def PPCIsInExcpt_def MSR_EE_def MSR_RI_def)

lemma boot_ksched: "ksched boot [0x100, 0x200] (\<lambda>_. [])"
  unfolding boot_def by (rule KThreadInit_sched) (simp_all add: zero_state_ready)

lemma boot_regs [simp]:
  "sprg2 boot = 0x100" "ppc_next_ctx boot = NULL" "\<not> PPCIsInExcpt boot" "mutex_owner boot = (\<lambda>_. NULL)"
  by (simp_all add: boot_def KThreadInit_def Let_def upd_thr_def zero_state_def PPCIsInExcpt_def MSR_EE_def MSR_RI_def)

lemma boot_fields [simp]:
  "wqueueT boot = (\<lambda>_. QNull)" "suspendT boot = (\<lambda>_. 0)" "tokenT boot = (\<lambda>_. 0)"
  "stateT boot 0x100 = KTHR_STATE_RUNNING" "stateT boot 0x200 = KTHR_STATE_RUNNING"
  "prioT boot 0x100 = 0x3f" "prioT boot 0x200 = 0x80"
  by (simp_all add: boot_def KThreadInit_def Let_def upd_thr_def zero_state_def zero_thread_def thr_acc_defs fun_eq_iff)

lemma boot_runnable [simp]:
  "runnable boot [0x100, 0x200] 0x100" "runnable boot [0x100, 0x200] 0x200"
  by (simp_all add: runnable_def)

text \<open>The same kernel with one mutex, at \<open>0x900\<close>, held by the idle or by the main thread.\<close>

lemma boot_owned_ksched: "ksched (set_owner 0x900 t boot) [0x100, 0x200] (\<lambda>_. [])"
  by (rule set_owner_sched_free [OF boot_ksched]) simp

lemma set_owner_at [simp]: "mutex_owner (set_owner m t s) m = t"
  by (simp add: set_owner_def)

lemma boot_rank: "wait_rank (set_owner m t boot) T rank"
  by (simp add: wait_rank_def)

section \<open>The reachable states\<close>

text \<open>
  C1. From the state \<open>KThreadInit\<close> sets up, any sequence of interrupts and of kernel calls made under the conditions of
  \<open>kcall_ok\<close> leads to a state in which the thread list is linked and sorted by priority, every wait queue is linked and
  sorted and holds exactly the threads that wait on it, every priority is the inherited one, no cycle
  of mutex owners exists, the idle thread can run, and the thread the processor runs (or is about to
  run on leaving an exception) is one of the most urgent runnable threads. Every next call made under these conditions
  returns, so that no run gets stuck. The conditions are: the priority of a thread that waits for a mutex is not changed
  (there the code does not reschedule); a handler that has suspended the interrupted thread does not wake or resume others; the idle
  thread does not block or exit and is not suspended; suspend counts do not overflow; a contended lock closes no cycle and
  its owner is alive; a thread with waiters for its mutexes does not exit; only owners unlock.
\<close>

theorem kernel_invariant:
  assumes "threads s0 = (\<lambda>_. zero_thread)" "squeues s0 = (\<lambda>_. zero_queue)"
    and "mainT \<noteq> idleT" "mainT \<noteq> NULL" "idleT \<noteq> NULL" "\<not> PPCIsInExcpt s0" "ppc_next_ctx s0 = NULL"
    and "kreach idleT (KThreadInit mainT idleT pc s0) s"
  shows "\<exists>L Q. ksched s L Q \<and> runnable s L idleT \<and>
    (\<forall>t. live s t \<and> stateT s t = KTHR_STATE_RUNNING \<longrightarrow> prioT s (cur_thread s) \<le> prioT s t) \<and>
    (\<forall>c. kcall_ok idleT c s \<longrightarrow> (\<exists>s'. kexec c s = Some s'))"
proof -
  have k: "ksched (KThreadInit mainT idleT pc s0) [mainT, idleT] (\<lambda>_. [])"
    by (rule KThreadInit_sched) (use assms(1-7) in auto)
  have "runnable (KThreadInit mainT idleT pc s0) [mainT, idleT] idleT"
    using assms(3) by (simp add: runnable_def KThreadInit_def Let_def upd_thr_def thr_acc_defs)
  then have ok: "kernel_ok idleT s" using kreach_ok [OF assms(8) kernel_okI [OF k]] by blast
  then obtain L Q where L: "ksched s L Q" "runnable s L idleT" by (auto simp: kernel_ok_def)
  have "prioT s (cur_thread s) \<le> prioT s t" if "live s t" "stateT s t = KTHR_STATE_RUNNING" for t
    using that kschedD(3) [OF L(1)] live_iff [OF L(1)] by (auto simp: least_run_def runnable_def)
  moreover have "\<exists>s'. kexec c s = Some s'" if "kcall_ok idleT c s" for c
    using kexec_ok [OF ok that] by (auto simp: goes_on_def)
  ultimately show ?thesis using L by blast
qed

theorem kernel_invariant_witness:
  "\<exists>L Q. ksched (irq_enter boot) L Q \<and> runnable (irq_enter boot) L 0x200 \<and>
    (\<forall>t. live (irq_enter boot) t \<and> stateT (irq_enter boot) t = KTHR_STATE_RUNNING \<longrightarrow>
       prioT (irq_enter boot) (cur_thread (irq_enter boot)) \<le> prioT (irq_enter boot) t) \<and>
    (\<forall>c. kcall_ok 0x200 c (irq_enter boot) \<longrightarrow> (\<exists>s'. kexec c (irq_enter boot) = Some s'))"
proof (rule kernel_invariant [of zero_state "0x100" "0x200" "0x3000"])
  show "kreach 0x200 (KThreadInit 0x100 0x200 0x3000 zero_state) (irq_enter boot)"
    unfolding boot_def [symmetric] by (rule kreach.step [OF kreach.start, of _ K_irq]) simp_all
qed (simp_all add: zero_state_ready)


section \<open>Priority inheritance and mutexes\<close>

text \<open>
  C2. Recomputing the dynamic priority of a thread whose own priority may be out of date ends: the
  walk along the mutex owners stops because the chain of waits is acyclic. Afterwards every thread
  has the priority it inherits from its waiters, the thread list and the wait queues hold the same
  threads and are sorted again, and a thread that became more urgent made nobody less urgent.
\<close>

theorem update_prio_terminates:
  assumes "kwf s L Q" "mutex_ok s (set L)" "t \<in> set L" "wait_rank s (set L) rank"
    and "\<And>u. u \<in> set L \<Longrightarrow> u \<noteq> t \<Longrightarrow> prioT s u = eff_prio s Q u"
  shows "\<exists>s' L' Q'. KThreadUpdateDynamicPrio t s = Some s' \<and> kinv s' L' Q' \<and> mset L' = mset L \<and>
    (\<forall>q. mset (Q' q) = mset (Q q)) \<and> stateT s' = stateT s \<and> basepT s' = basepT s \<and>
    (eff_prio s Q t \<le> prioT s t \<longrightarrow> (\<forall>u. prioT s' u \<le> prioT s u))"
  using update_prio [OF assms] by (fastforce simp: prio_updated_def uframe_def)

theorem update_prio_terminates_witness:
  "\<exists>s' L' Q'. KThreadUpdateDynamicPrio 0x100 (set_basep 0x100 0x10 boot) = Some s' \<and> kinv s' L' Q' \<and>
    mset L' = mset [0x100, 0x200] \<and> (\<forall>q. mset (Q' q) = mset []) \<and>
    stateT s' = stateT (set_basep 0x100 0x10 boot) \<and> basepT s' = basepT (set_basep 0x100 0x10 boot) \<and>
    (eff_prio (set_basep 0x100 0x10 boot) (\<lambda>_. []) 0x100 \<le> prioT (set_basep 0x100 0x10 boot) 0x100 \<longrightarrow>
      (\<forall>u. prioT s' u \<le> prioT (set_basep 0x100 0x10 boot) u))"
proof (rule update_prio_terminates [where rank = "\<lambda>_. 0"])
  note D = kinvD [OF kschedD(1) [OF boot_ksched]]
  show "kwf (set_basep 0x100 0x10 boot) [0x100, 0x200] (\<lambda>_. [])" using D(1) by (simp only: set_basep_kwf)
  show "prioT (set_basep 0x100 0x10 boot) u = eff_prio (set_basep 0x100 0x10 boot) (\<lambda>_. []) u"
    if "u \<in> set [0x100, 0x200]" "u \<noteq> 0x100" for u using set_basep_others [OF D(8) that] .
qed (simp_all add: mutex_ok_def wait_rank_def)

text \<open>
  C3. Unlocking a mutex hands it to its most urgent waiter: that thread becomes the owner and runs
  (or stays suspended), the remaining waiters of this mutex now wait on the new owner, waiters of
  other mutexes of the old owner stay, and with no waiter the mutex is free. The scheduling invariant
  holds again, so a more urgent new owner is running.
\<close>

theorem unlock_hands_over:
  assumes "ksched s L Q" "\<not> PPCIsInExcpt s" "mutex_owner s m = sprg2 s"
  shows "\<exists>s' L' Q'. KMutexUnlock m s = Some s' \<and> ksched s' L' Q' \<and> mset L' = mset L \<and> released s Q m s'"
  using KMutexUnlock_sched [OF assms] .

theorem unlock_hands_over_witness:
  "\<exists>s' L' Q'. KMutexUnlock 0x900 (set_owner 0x900 0x100 boot) = Some s' \<and> ksched s' L' Q' \<and>
    mset L' = mset [0x100, 0x200] \<and> released (set_owner 0x900 0x100 boot) (\<lambda>_. []) 0x900 s'"
  by (rule unlock_hands_over [OF boot_owned_ksched]) simp_all

text \<open>
  C4. Locking a mutex that another thread holds puts the caller to sleep on that owner: it is queued
  on the owner's waiters with the mutex as its token, nobody's priority gets less urgent, the mutex
  keeps its owner, and another thread runs. The owners must not form a cycle with the caller, which
  the code does not check.
\<close>

theorem lock_contended:
  assumes "ksched s L Q" "\<not> PPCIsInExcpt s" "mutex_owner s m \<in> set L"
    and "wait_rank s (set L) rank" "rank (mutex_owner s m) < rank (sprg2 s)"
    and "runnable s L i" "i \<noteq> sprg2 s"
  shows "\<exists>s' L' Q'. KMutexLock m s = Some s' \<and> ksched s' L' Q' \<and> mset L' = mset L \<and>
    stateT s' = (stateT s)(sprg2 s := KTHR_STATE_WAITING_MUTEX) \<and> tokenT s' = (tokenT s)(sprg2 s := m) \<and>
    wqueueT s' = (wqueueT s)(sprg2 s := QWaiters (mutex_owner s m)) \<and> mutex_owner s' = mutex_owner s \<and>
    (\<forall>u. prioT s' u \<le> prioT s u) \<and> sprg2 s' \<noteq> sprg2 s"
  using KMutexLock_contended [OF assms(1,2) refl assms(3-7)] by blast

theorem lock_contended_witness:
  "\<exists>s' L' Q'. KMutexLock 0x900 (set_owner 0x900 0x200 boot) = Some s' \<and> ksched s' L' Q' \<and>
    mset L' = mset [0x100, 0x200] \<and>
    stateT s' = (stateT (set_owner 0x900 0x200 boot))(0x100 := KTHR_STATE_WAITING_MUTEX) \<and>
    tokenT s' = (tokenT (set_owner 0x900 0x200 boot))(0x100 := 0x900) \<and>
    wqueueT s' = (wqueueT (set_owner 0x900 0x200 boot))(0x100 := QWaiters 0x200) \<and>
    mutex_owner s' = mutex_owner (set_owner 0x900 0x200 boot) \<and>
    (\<forall>u. prioT s' u \<le> prioT (set_owner 0x900 0x200 boot) u) \<and> sprg2 s' \<noteq> 0x100"
  using lock_contended [OF boot_owned_ksched, of "0x200" "0x900" "\<lambda>t. unat (0x200 - t)" "0x200"]
  by (simp add: boot_rank)

section \<open>Running and waiting\<close>

lemma same_queues:
  assumes "ksched s L Q" "ksched s' L Q" "t \<in> set L"
  shows "wqueueT s' t = wqueueT s t"
  using kinvD(2) [OF kschedD(1) [OF assms(1)]] kinvD(2) [OF kschedD(1) [OF assms(2)]] assms(3)
  unfolding queues_ok_def by metis

lemma suspend_other_self:
  assumes "KThreadSuspend t s = Some s'" "t \<noteq> sprg2 s"
  shows "sprg2 s' = sprg2 s"
  using assms by (auto simp: KThreadSuspend_def Let_def split_beta PPCIrqLockByMsr_def split: if_splits option.splits bind_splits)

text \<open>
  C5. Suspending another thread and resuming it again restores its state and its suspend count,
  whether it was running or waiting.
\<close>

theorem suspend_resume:
  assumes "ksched s L Q" "\<not> PPCIsInExcpt s" "t \<in> set L" "t \<noteq> sprg2 s" "suspendT s t \<noteq> 0xffff"
  shows "\<exists>s1 s2. KThreadSuspend t s = Some s1 \<and> KThreadResume t s1 = Some s2 \<and> ksched s2 L Q \<and>
    suspendT s2 = suspendT s \<and> stateT s2 = stateT s"
proof -
  note self = handler_self [OF assms(1) thread_mode [OF assms(2)]]
  obtain s1 where s1: "KThreadSuspend t s = Some s1" "ksched s1 L Q" "suspendT s1 = (suspendT s)(t := suspendT s t + 1)"
      "stateT s1 = (stateT s)(t := if stateT s t = KTHR_STATE_RUNNING then KTHR_STATE_WAITING else stateT s t)"
    using KThreadSuspend_sched [OF assms(1,3,5) self] assms(4) by auto
  have self1: "runnable s1 L (sprg2 s1)"
    using suspend_other_self [OF s1(1) assms(4)] self s1(4) assms(4) by (simp add: runnable_def)
  have wq: "wqueueT s1 t = wqueueT s t" by (rule same_queues [OF assms(1) s1(2) assms(3)])
  have ok: "thr_ok (stateT s t) (suspendT s t) (wqueueT s t)"
    using kinvD(5) [OF kschedD(1) [OF assms(1)] assms(3)] by (simp add: state_ok_def)
  have old: "(if suspendT s t + 1 = 1 \<and> wqueueT s t = QNull then KTHR_STATE_RUNNING else stateT s1 t) = stateT s t"
    using ok s1(4) by (cases "stateT s t"; cases "wqueueT s t") auto
  have one: "suspendT s t + 1 \<noteq> 0" using assms(5) eq_neg_iff_add_eq_0 [of "suspendT s t" 1] by auto
  obtain s2 where s2: "KThreadResume t s1 = Some s2" "ksched s2 L Q"
      "suspendT s2 = (suspendT s1)(t := suspendT s1 t - (if suspendT s1 t = 0 then 0 else 1))"
      "stateT s2 = (stateT s1)(t := if suspendT s1 t = 1 \<and> wqueueT s1 t = QNull then KTHR_STATE_RUNNING else stateT s1 t)"
    using KThreadResume_sched [OF s1(2) assms(3)] self1 by blast
  have "stateT s2 = (stateT s1)(t := stateT s t)" using s2(4) old wq s1(3) by simp
  then have "stateT s2 = stateT s" using s1(4) by (simp add: fun_eq_iff)
  moreover have "suspendT s2 = suspendT s" using s2(3) s1(3) one by (simp add: fun_eq_iff)
  ultimately show ?thesis using s1(1) s2(1,2) by blast
qed

theorem suspend_resume_witness:
  "\<exists>s1 s2. KThreadSuspend 0x200 boot = Some s1 \<and> KThreadResume 0x200 s1 = Some s2 \<and>
    ksched s2 [0x100, 0x200] (\<lambda>_. []) \<and> suspendT s2 = suspendT boot \<and> stateT s2 = stateT boot"
  by (rule suspend_resume [OF boot_ksched]) simp_all


text \<open>
  C6. A yield passes the processor round robin among the running threads of the caller's priority: to
  the first one after the caller in the thread list, else the first one before it, else the caller
  goes on. Nothing else changes.
\<close>

theorem yield_round_robin:
  assumes "ksched s (xs @ sprg2 s # ys) Q" "\<not> PPCIsInExcpt s"
  shows "\<exists>s'. KThreadYield s = Some s' \<and> ksched s' (xs @ sprg2 s # ys) Q \<and> cframe s s' \<and>
    sprg2 s' = hd (filter (peer s) ys @ filter (peer s) xs @ [sprg2 s])"
  using KThreadYield_sched [OF assms refl] .

theorem yield_round_robin_witness:
  "\<exists>s'. KThreadYield boot = Some s' \<and> ksched s' [0x100, 0x200] (\<lambda>_. []) \<and> cframe boot s' \<and> sprg2 s' = 0x100"
  using yield_round_robin [of boot "[]" "[0x200]" "\<lambda>_. []"] boot_ksched by (simp add: peer_def)

text \<open>
  C7. A thread that blocks on a kernel wait queue is put behind the waiters that are at least as urgent
  and before the others, keeps its priority, records its token, and another thread runs.
\<close>

theorem block_waits:
  assumes "ksched s L Q" "\<not> PPCIsInExcpt s" "runnable s L i" "i \<noteq> sprg2 s"
  shows "\<exists>s'. KThrQueueBlock (QStatic k) tok s = Some s' \<and>
    ksched s' L (Q(QStatic k := takeWhile (\<lambda>p. prioT s p \<le> prioT s (sprg2 s)) (Q (QStatic k)) @
      sprg2 s # dropWhile (\<lambda>p. prioT s p \<le> prioT s (sprg2 s)) (Q (QStatic k)))) \<and>
    stateT s' = (stateT s)(sprg2 s := KTHR_STATE_WAITING) \<and> tokenT s' = (tokenT s)(sprg2 s := tok) \<and>
    prioT s' = prioT s \<and> cur_thread s' \<noteq> sprg2 s"
  using KThrQueueBlock_sched [OF assms(1) handler_self [OF assms(1) thread_mode [OF assms(2)]] assms(3,4), of k tok]
  by (auto simp: ins_after_def)

theorem block_waits_witness:
  "\<exists>s'. KThrQueueBlock (QStatic S_sleepQueue) 7 boot = Some s' \<and>
    ksched s' [0x100, 0x200] ((\<lambda>_. [])(QStatic S_sleepQueue := [0x100])) \<and>
    stateT s' = (stateT boot)(0x100 := KTHR_STATE_WAITING) \<and> tokenT s' = (tokenT boot)(0x100 := 7) \<and>
    prioT s' = prioT boot \<and> cur_thread s' \<noteq> 0x100"
  using block_waits [OF boot_ksched, of "0x200" S_sleepQueue 7] by simp

text \<open>
  C8. Unblocking wakes exactly the first \<open>n\<close> waiters the mode selects (all of them for a negative
  \<open>n\<close>), in queue order: they leave the queue, their token becomes the result of the wait, and those
  that are not suspended run. The other waiters stay queued in order, and afterwards the most
  urgent runnable thread is running.
\<close>

theorem unblock_wakes:
  assumes "ksched s L Q" "handler_ok s"
    and "ts = taken (\<lambda>u. KThrQueueTestUnblock s u mode ref) n (Q (QStatic k))"
  shows "\<exists>s'. KThrQueueUnblockCommon (QStatic k) n mode ref s = Some s' \<and>
    ksched s' L (Q(QStatic k := filter (\<lambda>u. u \<notin> set ts) (Q (QStatic k)))) \<and>
    woken (set ts) (unblock_result mode ref) s s'"
  by (rule UnblockCommon_sched [OF assms(1) handler_self [OF assms(1,2)]]) (simp add: assms(3) unblock_set_def)

text \<open>\<open>boot2\<close> has the main thread asleep on the sleep queue with token 7.\<close>

definition boot2 :: kstate where "boot2 = the (KThrQueueBlock (QStatic S_sleepQueue) 7 boot)"

lemma boot2_ksched:
  "ksched boot2 [0x100, 0x200] ((\<lambda>_. [])(QStatic S_sleepQueue := [0x100]))" "tokenT boot2 0x100 = 7"
  "stateT boot2 0x200 = KTHR_STATE_RUNNING" "stateT boot2 0x100 = KTHR_STATE_WAITING" "suspendT boot2 0x100 = 0"
  "wqueueT boot2 0x100 = QStatic S_sleepQueue"
  using KThrQueueBlock_sched [OF boot_ksched, of "0x200" S_sleepQueue 7]
  by (auto simp: boot2_def ins_after_def)

lemma boot2_handler: "handler_ok boot2"
proof -
  have "sprg2 boot2 = cur_thread boot2"
    using KThrQueueBlock_sched [OF boot_ksched, of "0x200" S_sleepQueue 7] by (auto simp: boot2_def)
  then show ?thesis using kschedD(3) [OF boot2_ksched(1)] by (simp add: handler_ok_def least_run_def runnable_def)
qed

theorem unblock_wakes_witness:
  "\<exists>s'. KThrQueueUnblockCommon (QStatic S_sleepQueue) 1 KTHR_UNBLOCK_BY_VALUE 7 boot2 = Some s' \<and>
    ksched s' [0x100, 0x200] ((\<lambda>_. [])(QStatic S_sleepQueue := [])) \<and>
    woken {0x100} (unblock_result KTHR_UNBLOCK_BY_VALUE 7) boot2 s'"
  using unblock_wakes [OF boot2_ksched(1) boot2_handler refl, of S_sleepQueue 1 KTHR_UNBLOCK_BY_VALUE 7]
  by (simp add: boot2_ksched(2))


text \<open>
  C9. Setting the base priority of a thread that does not wait for a mutex clamps it to seven bits,
  keeps every thread's state and the members of every queue, re-sorts what has to be re-sorted and
  leaves the most urgent runnable thread running.
\<close>

theorem set_prio_sched:
  assumes "ksched s L Q" "t \<in> set L" "\<not> PPCIsInExcpt s" "stateT s t \<noteq> KTHR_STATE_WAITING_MUTEX"
  shows "\<exists>s' L' Q'. KThreadSetPrio t prio s = Some s' \<and> ksched s' L' Q' \<and> mset L' = mset L \<and>
    (\<forall>q. mset (Q' q) = mset (Q q)) \<and> basepT s' = (basepT s)(t := prio AND KTHR_MIN_PRIO) \<and> stateT s' = stateT s"
  by (rule KThreadSetPrio_sched [OF assms(1-3) not_mutex_queue [OF assms(1,2,4)]])

theorem set_prio_sched_witness:
  "\<exists>s' L' Q'. KThreadSetPrio 0x100 0x1ff boot = Some s' \<and> ksched s' L' Q' \<and> mset L' = mset [0x100, 0x200] \<and>
    (\<forall>q. mset (Q' q) = mset []) \<and> basepT s' = (basepT boot)(0x100 := 0x7f) \<and> stateT s' = stateT boot"
  using set_prio_sched [OF boot_ksched, of "0x100" "0x1ff"] by simp

text \<open>
  C10. A thread that exits without holding a contended mutex leaves the thread list for good, its
  result is kept in its record, exactly the threads that joined it are woken, and the most urgent
  runnable thread is entered.
\<close>

theorem exit_wakes_joiners:
  assumes "ksched s L Q" "\<not> PPCIsInExcpt s" "runnable s L i" "i \<noteq> sprg2 s" "Q (QWaiters (sprg2 s)) = []"
    and "ts = filter (\<lambda>u. tokenT s u = sprg2 s) (Q (QStatic S_joinQueue))"
  shows "\<exists>s'. KThreadExit rc s = Some s' \<and>
    ksched s' (remove1 (sprg2 s) L) (Q(QStatic S_joinQueue := filter (\<lambda>u. u \<notin> set ts) (Q (QStatic S_joinQueue)))) \<and>
    stateT s' (sprg2 s) = KTHR_STATE_FINISHED \<and> t_finish_rc (threads s' (sprg2 s)) = rc \<and>
    (\<forall>u\<in>set ts. wqueueT s' u = QNull \<and> (suspendT s u = 0 \<longrightarrow> stateT s' u = KTHR_STATE_RUNNING))"
  using KThreadExit_sched [OF assms, of rc] by (auto simp: lnextT_def)

theorem exit_wakes_joiners_witness:
  "\<exists>s'. KThreadExit 42 boot = Some s' \<and>
    ksched s' [0x200] ((\<lambda>_. [])(QStatic S_joinQueue := [])) \<and>
    stateT s' 0x100 = KTHR_STATE_FINISHED \<and> t_finish_rc (threads s' 0x100) = 42 \<and>
    (\<forall>u\<in>set []. wqueueT s' u = QNull \<and> (suspendT boot u = 0 \<longrightarrow> stateT s' u = KTHR_STATE_RUNNING))"
  using exit_wakes_joiners [OF boot_ksched, of "0x200" "[]" 42] by simp

text \<open>
  C11. Waiting on a condition variable releases the mutex to its most urgent waiter and queues the
  caller on the condition variable in one step: no other thread runs in between, so no signal can be
  lost.
\<close>

theorem cond_wait_atomic:
  assumes "ksched s L Q" "\<not> PPCIsInExcpt s" "mutex_owner s m = sprg2 s" "runnable s L i" "i \<noteq> sprg2 s"
  shows "\<exists>s' L' Q'. KCondVarWait cv m s = Some s' \<and> ksched s' L' Q' \<and> mset L' = mset L \<and>
    stateT s' (sprg2 s) = KTHR_STATE_WAITING \<and> tokenT s' (sprg2 s) = cv \<and>
    set (Q' (QStatic S_cvWaitQueue)) = insert (sprg2 s) (set (Q (QStatic S_cvWaitQueue))) \<and>
    mutex_owner s' = (mutex_owner s)(m := case mutex_waiters s Q m of [] \<Rightarrow> NULL | n # _ \<Rightarrow> n)"
  using KCondVarWait_sched [OF assms, of cv] by blast

theorem cond_wait_atomic_witness:
  "\<exists>s' L' Q'. KCondVarWait 0x910 0x900 (set_owner 0x900 0x100 boot) = Some s' \<and> ksched s' L' Q' \<and>
    mset L' = mset [0x100, 0x200] \<and> stateT s' 0x100 = KTHR_STATE_WAITING \<and> tokenT s' 0x100 = 0x910 \<and>
    set (Q' (QStatic S_cvWaitQueue)) = {0x100} \<and>
    mutex_owner s' = (mutex_owner (set_owner 0x900 0x100 boot))(0x900 := NULL)"
  using cond_wait_atomic [OF boot_owned_ksched, of "0x100" "0x900" "0x200" "0x910"] by (simp add: mutex_waiters_def)

text \<open>
  A signal wakes the most urgent thread that waits on this condition variable, the first in the
  shared queue with its address as token, and nobody when there is none.
\<close>

theorem cond_signal_one:
  assumes "ksched s L Q" "handler_ok s"
  shows "\<exists>s' Q'. KCondVarSignal cv s = Some s' \<and> ksched s' L Q' \<and>
    (case find (\<lambda>u. tokenT s u = cv) (Q (QStatic S_cvWaitQueue)) of
       None \<Rightarrow> woken {} (\<lambda>_. 1) s s' | Some u \<Rightarrow> woken {u} (\<lambda>_. 1) s s')"
  by (rule KCondVarSignal_sched [OF assms(1) handler_self [OF assms]])

theorem cond_signal_one_witness:
  "\<exists>s' Q'. KCondVarSignal 0x910 boot = Some s' \<and> ksched s' [0x100, 0x200] Q' \<and> woken {} (\<lambda>_. 1) boot s'"
  using cond_signal_one [OF boot_ksched, of "0x910"] by (simp add: handler_ok_def)

end
