(* ===== verification/Fifo.thy ===== *)
theory Fifo
  imports Ogc_Prelude
begin

text \<open>
  The contract of a bounded first-in first-out buffer: a representation invariant, its contents as a
  list, a capacity, and the two operations. The kernel mailbox is a provider. \<open>replay\<close> is the reference: what a
  bounded queue has to answer to a sequence of operations.
\<close>

section \<open>The reference\<close>

text \<open>\<open>Put x ok\<close>: \<open>x\<close> was offered and accepted or refused. \<open>Got r\<close>: a receiver got \<open>r\<close>, or nothing.\<close>

datatype 'a fifo_event = Put 'a bool | Got "'a option"

fun replay :: "nat \<Rightarrow> 'a list \<Rightarrow> 'a fifo_event list \<Rightarrow> 'a list option" where
  "replay n q [] = Some q"
| "replay n q (Put x ok # es) =
     (if ok \<noteq> (length q < n) then None else replay n (if ok then q @ [x] else q) es)"
| "replay n q (Got r # es) =
     (case q of [] \<Rightarrow> if r = None then replay n [] es else None
      | y # ys \<Rightarrow> if r = Some y then replay n ys es else None)"

lemma replay_snoc: "replay n q (es @ [e]) = do { q' \<leftarrow> replay n q es; replay n q' [e] }"
  by (induction n q es rule: replay.induct) (auto split: list.splits)

section \<open>The contract\<close>

locale bounded_fifo =
  fixes wf :: "'s \<Rightarrow> bool"
    and contents :: "'s \<Rightarrow> 'a list"
    and cap :: "'s \<Rightarrow> nat"
    and put :: "'a \<Rightarrow> 's \<Rightarrow> 's option"
    and take' :: "'s \<Rightarrow> ('a \<times> 's) option"
  assumes bound: "wf s \<Longrightarrow> length (contents s) \<le> cap s"
    and put_full: "wf s \<Longrightarrow> put x s = None \<longleftrightarrow> length (contents s) = cap s"
    and put_ok: "wf s \<Longrightarrow> put x s = Some s' \<Longrightarrow> wf s' \<and> contents s' = contents s @ [x] \<and> cap s' = cap s"
    and take_empty: "wf s \<Longrightarrow> take' s = None \<longleftrightarrow> contents s = []"
    and take_ok: "wf s \<Longrightarrow> take' s = Some (x, s') \<Longrightarrow> wf s' \<and> contents s = x # contents s' \<and> cap s' = cap s"
begin

text \<open>Each operation answers as the reference does.\<close>

lemma put_replay:
  assumes "wf s"
  shows "case put x s of None \<Rightarrow> replay (cap s) (contents s) [Put x False] = Some (contents s)
    | Some s' \<Rightarrow> wf s' \<and> cap s' = cap s \<and> replay (cap s) (contents s) [Put x True] = Some (contents s')"
proof (cases "put x s")
  case None
  then show ?thesis using put_full [OF assms, of x] by simp
next
  case (Some s')
  then have "length (contents s) < cap s" using bound [OF assms] put_full [OF assms, of x] by (simp add: le_less)
  then show ?thesis using put_ok [OF assms Some] Some by simp
qed

lemma take_replay:
  assumes "wf s"
  shows "case take' s of None \<Rightarrow> replay (cap s) (contents s) [Got None] = Some (contents s)
    | Some (x, s') \<Rightarrow> wf s' \<and> cap s' = cap s \<and> replay (cap s) (contents s) [Got (Some x)] = Some (contents s')"
  using take_empty [OF assms] take_ok [OF assms] by (auto split: option.splits)

end

end
