(* ===== verification/KMailbox.thy ===== *)
theory KMailbox
  imports KMutexOps Fifo
begin

text \<open>
  Mailboxes: \<^verbatim>\<open>tuxedo/mailbox.c\<close> and \<^verbatim>\<open>gc/tuxedo/mailbox.h\<close>. The slot arithmetic of the C functions is in
  \<open>mb_put\<close> and \<open>mb_take\<close>, with the tests for a full and an empty mailbox in \<open>mb_send\<close> and \<open>mb_recv\<close>, which the operations call under the
  interrupt lock. Runs of one mailbox are refined to the reference queue of \<open>Fifo\<close>. Where a call may switch
  to another thread before its closing \<open>PPCIrqUnlockByMsr\<close>, \<open>finish_irq\<close> leaves that to the time the
  caller runs again.
\<close>

section \<open>Operations\<close>

record KMailbox =
  slots :: "u32 list"
  num_slots :: u16
  cur_slot :: u16
  pending_slots :: u16
  send_waiters :: u8
  recv_waiters :: u8

type_synonym mbstate = "kstate \<times> (ptr \<Rightarrow> KMailbox)"

definition KMailboxPrepare :: "u32 list \<Rightarrow> u32 \<Rightarrow> KMailbox" where
  "KMailboxPrepare buf n =
     \<lparr>slots = buf, num_slots = ucast n, cur_slot = 0, pending_slots = 0, send_waiters = 0, recv_waiters = 0\<rparr>"

text \<open>The 16-bit fields are promoted to \<open>int\<close> before they are added.\<close>

definition mb_put :: "u32 \<Rightarrow> KMailbox \<Rightarrow> KMailbox" where
  "mb_put message m =
     (let next_slot = unat (cur_slot m) + unat (pending_slots m);
          next_slot' = (if next_slot \<ge> unat (num_slots m) then next_slot - unat (num_slots m) else next_slot)
      in m\<lparr>pending_slots := pending_slots m + 1, slots := (slots m)[next_slot' := message]\<rparr>)"

definition mb_take :: "KMailbox \<Rightarrow> u32 \<times> KMailbox" where
  "mb_take m =
     (let message = slots m ! unat (cur_slot m);
          c = cur_slot m + 1
      in (message, m\<lparr>cur_slot := (if c \<ge> num_slots m then c - num_slots m else c),
                     pending_slots := pending_slots m - 1\<rparr>))"

text \<open>The parts of the operations that test the mailbox and move a message; \<open>None\<close> when it is full or empty.\<close>

definition mb_send :: "u32 \<Rightarrow> KMailbox \<Rightarrow> KMailbox option" where
  "mb_send x m = (if pending_slots m = num_slots m then None else Some (mb_put x m))"

definition mb_recv :: "KMailbox \<Rightarrow> (u32 \<times> KMailbox) option" where
  "mb_recv m = (if pending_slots m = 0 then None else Some (mb_take m))"

definition finish_irq :: "u32 \<Rightarrow> ptr \<Rightarrow> kstate \<Rightarrow> kstate" where
  "finish_irq st self s = (if sprg2 s = self then PPCIrqUnlockByMsr st s else s)"

definition KMailboxTrySend :: "ptr \<Rightarrow> u32 \<Rightarrow> mbstate \<Rightarrow> (bool \<times> mbstate) option" where
  "KMailboxTrySend mb message = (\<lambda>(s, M).
     let (st, s1) = PPCIrqLockByMsr s in
     case mb_send message (M mb) of
       None \<Rightarrow> Some (False, PPCIrqUnlockByMsr st s1, M)
     | Some m \<Rightarrow>
       if recv_waiters m \<noteq> 0
       then do { s2 \<leftarrow> KThrQueueUnblockOneByValue (QStatic S_mailboxRecvQueue) mb s1;
                 Some (True, finish_irq st (sprg2 s) s2, M(mb := m\<lparr>recv_waiters := recv_waiters m - 1\<rparr>)) }
       else Some (True, PPCIrqUnlockByMsr st s1, M(mb := m)))"

definition KMailboxTryRecv :: "ptr \<Rightarrow> mbstate \<Rightarrow> u32 option \<times> mbstate" where
  "KMailboxTryRecv mb = (\<lambda>(s, M).
     let (st, s1) = PPCIrqLockByMsr s in
     case mb_recv (M mb) of
       None \<Rightarrow> (None, PPCIrqUnlockByMsr st s1, M)
     | Some (x, m) \<Rightarrow> (Some x, PPCIrqUnlockByMsr st s1, M(mb := m)))"

text \<open>\<open>KMailboxRecv\<close> up to the point where it blocks (\<open>None\<close>) or returns a message.\<close>

definition KMailboxRecv :: "ptr \<Rightarrow> mbstate \<Rightarrow> (u32 option \<times> mbstate) option" where
  "KMailboxRecv mb = (\<lambda>(s, M).
     let (st, s1) = PPCIrqLockByMsr s in
     case mb_recv (M mb) of
       None \<Rightarrow> do { s2 \<leftarrow> KThrQueueBlock (QStatic S_mailboxRecvQueue) mb s1;
                    Some (None, s2, M(mb := (M mb)\<lparr>recv_waiters := recv_waiters (M mb) + 1\<rparr>)) }
     | Some (x, m) \<Rightarrow> Some (Some x, PPCIrqUnlockByMsr st s1, M(mb := m)))"

definition KMailboxRecv_resume :: "u32 \<Rightarrow> ptr \<Rightarrow> mbstate \<Rightarrow> u32 \<times> mbstate" where
  "KMailboxRecv_resume st mb = (\<lambda>(s, M).
     let (x, m) = mb_take (M mb) in (x, PPCIrqUnlockByMsr st s, M(mb := m)))"

section \<open>A mailbox is a bounded queue\<close>

definition mb_wf :: "KMailbox \<Rightarrow> bool" where
  "mb_wf m \<longleftrightarrow> length (slots m) = unat (num_slots m) \<and> unat (cur_slot m) < unat (num_slots m) \<and>
     unat (pending_slots m) \<le> unat (num_slots m)"

definition mb_contents :: "KMailbox \<Rightarrow> u32 list" where
  "mb_contents m =
     map (\<lambda>i. slots m ! ((unat (cur_slot m) + i) mod unat (num_slots m))) [0..<unat (pending_slots m)]"

lemma unat_eq16: "unat (x :: u16) = unat y \<Longrightarrow> x = y"
  by (rule unsigned_word_eqI)

lemma unat_inc: "unat (x :: u16) < unat (y :: u16) \<Longrightarrow> unat (x + 1) = unat x + 1"
  using unsigned_less [of y, where ?'a = nat] by (simp add: unat_word_ariths)

lemma unat_dec: "x \<noteq> 0 \<Longrightarrow> unat ((x :: u16) - 1) = unat x - 1"
  by (metis unat_minus_one)

lemma mod_once: "(a :: nat) < 2 * n \<Longrightarrow> a mod n = (if a \<ge> n then a - n else a)"
  by (simp add: mod_if)

lemma mb_wf_prepare:
  assumes "length buf = unat n" "n \<noteq> 0" "n < 2 ^ 16"
  shows "mb_wf (KMailboxPrepare buf n) \<and> mb_contents (KMailboxPrepare buf n) = []"
proof -
  have "unat (ucast n :: u16) = unat n"
    using assms(3) by (simp add: unsigned_ucast_eq take_bit_eq_mod word_less_nat_alt)
  moreover have "0 < unat n" using assms(2) by (simp add: unat_gt_0)
  ultimately show ?thesis using assms(1) by (simp add: mb_wf_def mb_contents_def KMailboxPrepare_def)
qed

lemma mb_put_wf:
  assumes w: "mb_wf m" and room: "pending_slots m \<noteq> num_slots m"
  shows "mb_wf (mb_put x m) \<and> mb_contents (mb_put x m) = mb_contents m @ [x] \<and> num_slots (mb_put x m) = num_slots m"
proof -
  define c p n where "c = unat (cur_slot m)" and "p = unat (pending_slots m)" and "n = unat (num_slots m)"
  have b: "c < n" "p < n" "length (slots m) = n"
    using w room unat_eq16 by (auto simp: mb_wf_def c_def p_def n_def order_less_le)
  have pn: "unat (pending_slots m + 1) = p + 1"
    using unat_inc [of "pending_slots m" "num_slots m"] b(2) by (simp add: p_def n_def)
  have k: "(if c + p \<ge> n then c + p - n else c + p) = (c + p) mod n" using mod_once [of "c + p" n] b by simp
  have put: "mb_put x m = m\<lparr>pending_slots := pending_slots m + 1, slots := (slots m)[(c + p) mod n := x]\<rparr>"
    unfolding mb_put_def Let_def c_def [symmetric] p_def [symmetric] n_def [symmetric] k by simp
  have other: "(c + i) mod n \<noteq> (c + p) mod n" if "i < p" for i
    using that b by (simp add: mod_once split: if_splits) (auto split: if_splits)
  have keep: "(slots m)[(c + p) mod n := x] ! ((c + i) mod n) = slots m ! ((c + i) mod n)" if "i < p" for i
    using other [OF that] by (metis nth_list_update_neq)
  have "mb_wf (mb_put x m)" using b pn by (simp add: mb_wf_def put c_def n_def)
  moreover have "mb_contents (mb_put x m) = mb_contents m @ [x]"
    using b keep by (simp add: mb_contents_def put pn c_def [symmetric] p_def [symmetric] n_def [symmetric])
  ultimately show ?thesis by (simp add: put)
qed

lemma mb_take_wf:
  assumes w: "mb_wf m" and ne: "pending_slots m \<noteq> 0"
  shows "mb_wf (snd (mb_take m)) \<and> mb_contents m = fst (mb_take m) # mb_contents (snd (mb_take m)) \<and>
    num_slots (snd (mb_take m)) = num_slots m"
proof -
  define c p n where "c = unat (cur_slot m)" and "p = unat (pending_slots m)" and "n = unat (num_slots m)"
  have b: "c < n" "p \<le> n" "length (slots m) = n" using w by (auto simp: mb_wf_def c_def p_def n_def)
  have p0: "0 < p" using ne by (simp add: p_def unat_gt_0)
  have pn: "unat (pending_slots m - 1) = p - 1" using unat_dec [OF ne] by (simp add: p_def)
  have c1: "unat (cur_slot m + 1) = c + 1"
    using unat_inc [of "cur_slot m" "num_slots m"] b(1) by (simp add: c_def n_def)
  have cn: "unat (if cur_slot m + 1 \<ge> num_slots m then cur_slot m + 1 - num_slots m else cur_slot m + 1) = (c + 1) mod n"
  proof (cases "cur_slot m + 1 \<ge> num_slots m")
    case True
    then have "c + 1 = n" using c1 b(1) by (simp add: word_le_nat_alt n_def)
    then have "cur_slot m + 1 = num_slots m" using c1 by (auto simp: n_def intro: unsigned_word_eqI)
    then show ?thesis using \<open>c + 1 = n\<close> by simp
  next
    case False
    then have "c + 1 < n" using c1 by (simp add: word_le_nat_alt n_def not_le)
    then show ?thesis using False c1 by simp
  qed
  define m' where "m' = snd (mb_take m)"
  have f: "slots m' = slots m" "num_slots m' = num_slots m" "unat (cur_slot m') = (c + 1) mod n"
      "unat (pending_slots m') = p - 1" "fst (mb_take m) = slots m ! c"
    using cn pn by (simp_all add: m'_def mb_take_def Let_def c_def)
  have "mb_wf m'" using f b by (simp add: mb_wf_def n_def [symmetric])
  moreover have "mb_contents m = slots m ! c # mb_contents m'"
  proof -
    have "[0..<p] = 0 # map Suc [0..<p - 1]" using p0 by (metis Suc_diff_1 map_Suc_upt upt_conv_Cons)
    then show ?thesis using b(1)
      by (simp add: mb_contents_def f c_def [symmetric] p_def [symmetric] n_def [symmetric] mod_add_left_eq)
  qed
  ultimately show ?thesis using f by (simp add: m'_def)
qed

interpretation mbx: bounded_fifo mb_wf mb_contents "\<lambda>m. unat (num_slots m)" mb_send mb_recv
proof
  fix m m' :: KMailbox and x :: u32
  assume w: "mb_wf m"
  show "length (mb_contents m) \<le> unat (num_slots m)" using w by (simp add: mb_contents_def mb_wf_def)
  show "mb_send x m = None \<longleftrightarrow> length (mb_contents m) = unat (num_slots m)"
    using w unat_eq16 by (auto simp: mb_send_def mb_contents_def)
  show "mb_wf m' \<and> mb_contents m' = mb_contents m @ [x] \<and> unat (num_slots m') = unat (num_slots m)"
    if "mb_send x m = Some m'" using that mb_put_wf [OF w, of x] by (auto simp: mb_send_def split: if_splits)
  show "mb_recv m = None \<longleftrightarrow> mb_contents m = []" by (simp add: mb_recv_def mb_contents_def unat_eq_zero)
  show "mb_wf m' \<and> mb_contents m = x # mb_contents m' \<and> unat (num_slots m') = unat (num_slots m)"
    if "mb_recv m = Some (x, m')" using that mb_take_wf [OF w] by (auto simp: mb_recv_def split: if_splits)
qed

section \<open>The operations on the mailbox\<close>

text \<open>Sending: full mailboxes refuse and change nothing; otherwise the message is appended and one receiver woken.\<close>

lemma KMailboxTrySend_full:
  assumes "pending_slots (M mb) = num_slots (M mb)"
  shows "\<exists>s'. KMailboxTrySend mb x (s, M) = Some (False, s', M) \<and> cframe s s'"
  using assms cframe_trans [OF lock_cframe unlock_cframe] by (auto simp: KMailboxTrySend_def mb_send_def split_beta Let_def)

lemma finish_irq_sched [simp]: "ksched (finish_irq (m AND MSR_EE) self s) L Q = ksched s L Q"
  by (simp add: finish_irq_def)

lemma finish_irq_cframe: "cframe s (finish_irq st self s)"
  by (simp add: finish_irq_def)

lemma KMailboxTrySend_room:
  assumes k: "ksched s L Q" and self: "runnable s L (sprg2 s)" and w: "mb_wf (M mb)"
    and room: "pending_slots (M mb) \<noteq> num_slots (M mb)"
  shows "\<exists>s' m' Q'. KMailboxTrySend mb x (s, M) = Some (True, s', M(mb := m')) \<and> ksched s' L Q' \<and>
     mb_wf m' \<and> mb_contents m' = mb_contents (M mb) @ [x] \<and>
     (if recv_waiters (M mb) = 0 then cframe s s' \<and> Q' = Q \<and> recv_waiters m' = 0
      else recv_waiters m' = recv_waiters (M mb) - 1 \<and>
        (case find (\<lambda>u. tokenT s u = mb) (Q (QStatic S_mailboxRecvQueue)) of
           None \<Rightarrow> woken {} (\<lambda>_. 1) s s' | Some u \<Rightarrow> woken {u} (\<lambda>_. 1) s s'))"
proof -
  let ?s1 = "snd (PPCIrqLockByMsr s)"
  let ?m = "mb_put x (M mb)"
  have put: "mb_wf ?m" "mb_contents ?m = mb_contents (M mb) @ [x]" using mb_put_wf [OF w room] by auto
  have rw: "recv_waiters ?m = recv_waiters (M mb)" by (simp add: mb_put_def Let_def)
  have wf': "mb_wf (?m\<lparr>recv_waiters := v\<rparr>) \<and> mb_contents (?m\<lparr>recv_waiters := v\<rparr>) = mb_contents (M mb) @ [x]" for v
    using put by (simp add: mb_wf_def mb_contents_def)
  show ?thesis
  proof (cases "recv_waiters (M mb) = 0")
    case True
    then have "KMailboxTrySend mb x (s, M) = Some (True, PPCIrqUnlockByMsr (msr s AND MSR_EE) ?s1, M(mb := ?m))"
      using room rw by (simp add: KMailboxTrySend_def mb_send_def split_beta Let_def)
    then show ?thesis using k put True rw cframe_trans [OF lock_cframe unlock_cframe]
      by (intro exI [of _ "PPCIrqUnlockByMsr (msr s AND MSR_EE) ?s1"] exI [of _ ?m] exI [of _ Q]) simp
  next
    case False
    have r: "unblock_result KTHR_UNBLOCK_BY_VALUE mb = (\<lambda>_. 1)" by (simp add: unblock_result_def fun_eq_iff)
    let ?ts = "unblock_set ?s1 KTHR_UNBLOCK_BY_VALUE mb 1 (Q (QStatic S_mailboxRecvQueue))"
    have ts: "?ts = (case find (\<lambda>u. tokenT s u = mb) (Q (QStatic S_mailboxRecvQueue)) of None \<Rightarrow> [] | Some u \<Rightarrow> [u])"
      by (simp add: unblock_set_def taken_one)
    obtain s2 Q' where s2: "KThrQueueUnblockOneByValue (QStatic S_mailboxRecvQueue) mb ?s1 = Some s2" "ksched s2 L Q'"
        "woken (set ?ts) (\<lambda>_. 1) s s2"
      using UnblockCommon_sched [of ?s1 L Q ?ts, OF _ _ refl] k self unfolding r
      by (auto simp: KThrQueueUnblockOneByValue_def)
    let ?s' = "finish_irq (msr s AND MSR_EE) (sprg2 s) s2"
    have "KMailboxTrySend mb x (s, M) = Some (True, ?s', M(mb := ?m\<lparr>recv_waiters := recv_waiters (M mb) - 1\<rparr>))"
      using room rw False s2(1) by (simp add: KMailboxTrySend_def mb_send_def split_beta Let_def)
    moreover have "woken (set ?ts) (\<lambda>_. 1) s ?s'" using woken_cframe [OF s2(3) finish_irq_cframe] .
    ultimately show ?thesis using s2(2) wf' False ts
      by (intro exI [of _ ?s'] exI [of _ "?m\<lparr>recv_waiters := recv_waiters (M mb) - 1\<rparr>"] exI [of _ Q'])
        (auto split: option.splits)
  qed
qed

text \<open>A blocked receiver takes a slot without looking again whether there is a message.\<close>

lemma KMailboxRecv_resume_empty:
  assumes "pending_slots (M mb) = 0"
  shows "pending_slots (snd (snd (KMailboxRecv_resume st mb (s, M))) mb) = 0xffff"
  using assms by (simp add: KMailboxRecv_resume_def mb_take_def Let_def)

section \<open>Runs\<close>

text \<open>
  What happens to one mailbox, with what each operation answered: messages are offered, receivers poll, receive at once or
  fall asleep (\<open>Got None\<close>) and later take a message when they have been woken, and in between anything else happens that leaves this mailbox
  alone. A woken receiver is taken to find a message; \<open>KMailboxRecv_resume_empty\<close> is the case that it does not.
\<close>

inductive mb_run :: "ptr \<Rightarrow> mbstate \<Rightarrow> u32 fifo_event list \<Rightarrow> mbstate \<Rightarrow> bool" for mb w where
  start: "mb_run mb w [] w"
| send: "mb_run mb w es w1 \<Longrightarrow> KMailboxTrySend mb x w1 = Some (ok, w2) \<Longrightarrow> mb_run mb w (es @ [Put x ok]) w2"
| poll: "mb_run mb w es w1 \<Longrightarrow> KMailboxTryRecv mb w1 = (r, w2) \<Longrightarrow> mb_run mb w (es @ [Got r]) w2"
| recv: "mb_run mb w es w1 \<Longrightarrow> KMailboxRecv mb w1 = Some (r, w2) \<Longrightarrow> mb_run mb w (es @ [Got r]) w2"
| resume: "mb_run mb w es w1 \<Longrightarrow> pending_slots (snd w1 mb) \<noteq> 0 \<Longrightarrow> KMailboxRecv_resume st mb w1 = (x, w2) \<Longrightarrow>
    mb_run mb w (es @ [Got (Some x)]) w2"
| other: "mb_run mb w es w1 \<Longrightarrow> snd w2 mb = snd w1 mb \<Longrightarrow> mb_run mb w es w2"

text \<open>The number of waiting receivers is no part of the queue.\<close>

lemma mb_waiters [simp]:
  "mb_wf (m\<lparr>recv_waiters := v\<rparr>) = mb_wf m" "mb_contents (m\<lparr>recv_waiters := v\<rparr>) = mb_contents m"
  by (simp_all add: mb_wf_def mb_contents_def)

definition mb_ok :: "nat \<Rightarrow> u32 list \<Rightarrow> u32 fifo_event list \<Rightarrow> KMailbox \<Rightarrow> bool" where
  "mb_ok n q es m \<longleftrightarrow> mb_wf m \<and> unat (num_slots m) = n \<and> replay n q es = Some (mb_contents m)"

lemma mb_ok_step:
  assumes "mb_ok n q es m" "mb_wf m'" "unat (num_slots m') = unat (num_slots m)"
    "replay (unat (num_slots m)) (mb_contents m) [e] = Some (mb_contents m')"
  shows "mb_ok n q (es @ [e]) m'"
  using assms by (auto simp add: mb_ok_def replay_snoc)

lemma mb_ok_send:
  assumes ok: "mb_ok n q es (M mb)" and r: "KMailboxTrySend mb x (s, M) = Some (b, s', M')"
  shows "mb_ok n q (es @ [Put x b]) (M' mb)"
proof -
  have w: "mb_wf (M mb)" using ok by (simp add: mb_ok_def)
  show ?thesis
  proof (cases "mb_send x (M mb)")
    case None
    then have "M' = M" "\<not> b" using r by (auto simp: KMailboxTrySend_def split_beta Let_def)
    then show ?thesis using mbx.put_replay [OF w, of x] None mb_ok_step [OF ok w refl] by (simp del: replay.simps)
  next
    case (Some m)
    have m': "M' mb = m\<lparr>recv_waiters := recv_waiters (M' mb)\<rparr>" "b"
      using r Some by (auto simp: KMailboxTrySend_def split_beta Let_def bind_eq_Some_conv split: if_splits)
    have "mb_ok n q (es @ [Put x True]) (m\<lparr>recv_waiters := recv_waiters (M' mb)\<rparr>)"
      using mbx.put_replay [OF w, of x] Some by (intro mb_ok_step [OF ok]) (simp_all del: replay.simps)
    then show ?thesis using m' by simp
  qed
qed

lemma mb_ok_none: "mb_ok n q es m \<Longrightarrow> mb_recv m = None \<Longrightarrow> mb_ok n q (es @ [Got None]) (m\<lparr>recv_waiters := v\<rparr>)"
  using mbx.take_replay [of m] by (intro mb_ok_step [of n q es m]) (simp_all add: mb_ok_def del: replay.simps)

lemma mb_ok_recv: "mb_ok n q es m \<Longrightarrow> mb_recv m = Some (x, m') \<Longrightarrow> mb_ok n q (es @ [Got (Some x)]) m'"
  using mbx.take_replay [of m] by (intro mb_ok_step [of n q es m]) (simp_all add: mb_ok_def del: replay.simps)

lemma mb_run_ok:
  assumes "mb_run mb w es w'" "mb_wf (snd w mb)"
  shows "mb_ok (unat (num_slots (snd w mb))) (mb_contents (snd w mb)) es (snd w' mb)"
  using assms
proof (induction rule: mb_run.induct)
  case start
  then show ?case by (simp add: mb_ok_def)
next
  case (send es w1 x ok w2)
  then show ?case using mb_ok_send by (cases w1; cases w2) fastforce
next
  case (poll es w1 r w2)
  obtain s M where w1: "w1 = (s, M)" by force
  show ?case
  proof (cases "mb_recv (M mb)")
    case None
    then show ?thesis using poll mb_ok_none [of _ _ es "M mb" "recv_waiters (M mb)"] w1
      by (auto simp: KMailboxTryRecv_def split_beta Let_def)
  next
    case (Some xm)
    then show ?thesis using poll mb_ok_recv [of _ _ es "M mb" "fst xm" "snd xm"] w1
      by (auto simp: KMailboxTryRecv_def split_beta Let_def)
  qed
next
  case (recv es w1 r w2)
  obtain s M where w1: "w1 = (s, M)" by force
  show ?case
  proof (cases "mb_recv (M mb)")
    case None
    then show ?thesis using recv mb_ok_none [of _ _ es "M mb"] w1
      by (auto simp: KMailboxRecv_def split_beta Let_def bind_eq_Some_conv)
  next
    case (Some xm)
    then show ?thesis using recv mb_ok_recv [of _ _ es "M mb" "fst xm" "snd xm"] w1
      by (auto simp: KMailboxRecv_def split_beta Let_def)
  qed
next
  case (resume es w1 st x w2)
  obtain s M where w1: "w1 = (s, M)" by force
  then have "mb_recv (M mb) = Some (mb_take (M mb))" using resume by (simp add: mb_recv_def)
  then show ?case using resume mb_ok_recv [of _ _ es "M mb" x "snd (mb_take (M mb))"] w1
    by (auto simp: KMailboxRecv_resume_def split_beta Let_def)
next
  case (other es w1 w2)
  then show ?case by simp
qed

text \<open>Whether a message can be sent does not depend on the kernel unless receivers wait.\<close>

lemma send_now:
  assumes "recv_waiters (M mb) = 0" "mb_send x (M mb) = Some m"
  shows "\<exists>s'. KMailboxTrySend mb x (s, M) = Some (True, s', M(mb := m))"
proof -
  have "recv_waiters m = 0" using assms by (auto simp: mb_send_def mb_put_def Let_def split: if_splits)
  then show ?thesis using assms(2) by (simp add: KMailboxTrySend_def split_beta Let_def)
qed

end
