(* ===== verification/SlotTable.thy ===== *)
theory SlotTable
  imports Ogc_Prelude
begin

text \<open>
  The handle tables of \<^verbatim>\<open>libogc/lwpcompat\<close>, one bit for each of 64 slots, and the contract of a table of
  slots with an allocator.
\<close>

section \<open>Slot allocation (\<^verbatim>\<open>lwpc_common.h\<close>)\<close>

definition ffsll :: "u64 \<Rightarrow> int" where
  "ffsll x = (case find (\<lambda>i. bit x i) [0..<64] of None \<Rightarrow> 0 | Some i \<Rightarrow> int i + 1)"

definition alloc_slot :: "u64 \<Rightarrow> int \<times> u64" where
  "alloc_slot used =
     (let slot = ffsll (NOT used) - 1 in
      (slot, if slot \<ge> 0 then used OR push_bit (nat slot) 1 else used))"

definition free_slot :: "u64 \<Rightarrow> nat \<Rightarrow> u64" where
  "free_slot used slot = used AND NOT (push_bit slot 1)"

section \<open>The contract\<close>

locale slot_table =
  fixes alloc :: "'s \<Rightarrow> (nat \<times> 's) option"
    and free :: "nat \<Rightarrow> 's \<Rightarrow> 's"
    and used :: "'s \<Rightarrow> nat set"
    and cap :: nat
  assumes used_cap: "used s \<subseteq> {..<cap}"
    and alloc_full: "alloc s = None \<longleftrightarrow> used s = {..<cap}"
    and alloc_ok: "alloc s = Some (i, s') \<Longrightarrow> i < cap \<and> i \<notin> used s \<and> used s' = insert i (used s)"
    and alloc_first: "alloc s = Some (i, s') \<Longrightarrow> {..<i} \<subseteq> used s"
    and free_ok: "i < cap \<Longrightarrow> used (free i s) = used s - {i}"
begin

lemma used_finite [simp]: "finite (used s)"
  using used_cap [of s] by (rule finite_subset) simp

fun alloc_many :: "nat \<Rightarrow> 's \<Rightarrow> (nat list \<times> 's) option" where
  "alloc_many 0 s = Some ([], s)"
| "alloc_many (Suc n) s = do { (i, s1) \<leftarrow> alloc s; (is, s2) \<leftarrow> alloc_many n s1; Some (i # is, s2) }"

text \<open>As many allocations succeed as there are free slots, and no slot is handed out twice.\<close>

lemma alloc_many_run:
  "card (used s) + n \<le> cap \<Longrightarrow>
   \<exists>is s'. alloc_many n s = Some (is, s') \<and> length is = n \<and> distinct is \<and> set is \<inter> used s = {} \<and>
     used s' = used s \<union> set is"
proof (induction n arbitrary: s)
  case (Suc n)
  have "card (used s) \<noteq> card {..<cap}" using Suc.prems by simp
  then have "used s \<noteq> {..<cap}" by metis
  then obtain i s1 where a: "alloc s = Some (i, s1)" using alloc_full [of s] by (cases "alloc s") auto
  have i: "i \<notin> used s" "used s1 = insert i (used s)" using alloc_ok [OF a] by auto
  then have "card (used s1) + n \<le> cap" using Suc.prems by simp
  then obtain "is" s' where "alloc_many n s1 = Some (is, s')" "length is = n" "distinct is"
      "set is \<inter> used s1 = {}" "used s' = used s1 \<union> set is"
    using Suc.IH by blast
  then show ?case using a i by auto
qed simp

text \<open>A full table refuses; after any slot is freed, that slot is the next one handed out.\<close>

lemma alloc_after_free:
  assumes "alloc s = None" "i < cap"
  shows "\<exists>s'. alloc (free i s) = Some (i, s') \<and> used s' = {..<cap}"
proof -
  have u: "used s = {..<cap}" using assms(1) alloc_full by simp
  then have uf: "used (free i s) = {..<cap} - {i}" using free_ok [OF assms(2), of s] by simp
  then have "alloc (free i s) \<noteq> None" using alloc_full [of "free i s"] assms(2) by auto
  then obtain j s' where a: "alloc (free i s) = Some (j, s')" by auto
  have "j < cap" "j \<notin> used (free i s)" "used s' = insert j (used (free i s))" using alloc_ok [OF a] by auto
  then show ?thesis using a uf assms(2) by auto
qed

end

end
