(* ===== verification/Lwpc.thy ===== *)
theory Lwpc
  imports KMailbox SlotTable
begin

text \<open>
  The LWP compatibility layer \<^verbatim>\<open>libogc/lwpcompat\<close>: semaphores, thread queues, message queues, mutexes,
  condition variables and threads of the old interface on top of the tuxedo kernel. Handles are small
  integers, or complemented addresses.

  A call returns its C result and the new state; \<open>None\<close> stands for what the kernel calls beneath leave
  undefined and for a handle beyond the tables (undefined behaviour in C). Parameters stand for
  \<^verbatim>\<open>malloc\<close> (the address it returns), \<^verbatim>\<open>sizeof(KThread)\<close>, which depends on newlib's \<^verbatim>\<open>struct _reent\<close>, and
  the weak function \<^verbatim>\<open>SYS_SetTimeslice\<close>, which a program may replace.
\<close>

section \<open>State\<close>

text \<open>What an interrupt-locked section that touches no kernel object leaves: the floating point bit is off.\<close>

definition irq_section :: "kstate \<Rightarrow> kstate" where
  "irq_section s = (let (st, s1) = PPCIrqLockByMsr s in PPCIrqUnlockByMsr st s1)"

record lwpc =
  ks :: kstate
  queue_used :: u64
  sem_used :: u64
  sem_table :: "nat \<Rightarrow> u32"
  mutex_used :: u64
  mutex_recursive :: u64
  mutex_base :: ptr
  rm_counter :: "ptr \<Rightarrow> u32"
  cond_used :: u64
  mailboxes :: "ptr \<Rightarrow> KMailbox"

definition lwpc_alloc_slot :: "u64 \<Rightarrow> kstate \<Rightarrow> int \<times> u64 \<times> kstate" where
  "lwpc_alloc_slot used s = (let (slot, used') = alloc_slot used in (slot, used', irq_section s))"

definition lwpc_free_slot :: "u64 \<Rightarrow> nat \<Rightarrow> kstate \<Rightarrow> u64 \<times> kstate" where
  "lwpc_free_slot used slot s = (free_slot used slot, irq_section s)"

abbreviation LWP_NULL :: u32 where "LWP_NULL \<equiv> 0xffffffff"

definition valid_handle :: "u32 \<Rightarrow> bool" where
  "valid_handle h \<longleftrightarrow> h \<noteq> 0 \<and> h \<noteq> LWP_NULL"

text \<open>Index into a table of 64 slots: the handle less one.\<close>

definition slot_of :: "u32 \<Rightarrow> nat option" where
  "slot_of h = (if unat (h - 1) < 64 then Some (unat (h - 1)) else None)"

text \<open>Running a kernel call inside the record.\<close>

definition with_ks :: "(kstate \<Rightarrow> kstate option) \<Rightarrow> lwpc \<Rightarrow> lwpc option" where
  "with_ks f w = map_option (\<lambda>s. w\<lparr>ks := s\<rparr>) (f (ks w))"

section \<open>Thread queues (\<^verbatim>\<open>lwpc_queue.c\<close>)\<close>

definition LWP_InitQueue :: "lwpc \<Rightarrow> (int \<times> u32) \<times> lwpc" where
  "LWP_InitQueue w =
     (let (slot, used, s) = lwpc_alloc_slot (queue_used w) (ks w); w' = w\<lparr>queue_used := used, ks := s\<rparr> in
      if slot \<ge> 0 then ((0, word_of_int slot + 1), w') else ((-1, LWP_NULL), w'))"

definition LWP_CloseQueue :: "u32 \<Rightarrow> lwpc \<Rightarrow> lwpc option" where
  "LWP_CloseQueue h w =
     (if valid_handle h
      then do { i \<leftarrow> slot_of h;
                let (used, s) = lwpc_free_slot (queue_used w) i (ks w) in Some (w\<lparr>queue_used := used, ks := s\<rparr>) }
      else Some w)"

definition LWP_ThreadSleep :: "u32 \<Rightarrow> lwpc \<Rightarrow> (int \<times> lwpc) option" where
  "LWP_ThreadSleep h w =
     (if valid_handle h then map_option (Pair 0) (with_ks (KThrQueueBlock (QStatic Lwpc_queue) h) w)
      else Some (-1, w))"

definition LWP_ThreadSignal :: "u32 \<Rightarrow> lwpc \<Rightarrow> lwpc option" where
  "LWP_ThreadSignal h w =
     (if valid_handle h then with_ks (KThrQueueUnblockOneByValue (QStatic Lwpc_queue) h) w else Some w)"

definition LWP_ThreadBroadcast :: "u32 \<Rightarrow> lwpc \<Rightarrow> lwpc option" where
  "LWP_ThreadBroadcast h w =
     (if valid_handle h then with_ks (KThrQueueUnblockAllByValue (QStatic Lwpc_queue) h) w else Some w)"

section \<open>Semaphores (\<^verbatim>\<open>lwpc_sem.c\<close>)\<close>

definition LWP_SemInit :: "u32 \<Rightarrow> u32 \<Rightarrow> lwpc \<Rightarrow> (int \<times> u32) \<times> lwpc" where
  "LWP_SemInit start max' w =
     (let (slot, used, s) = lwpc_alloc_slot (sem_used w) (ks w); w' = w\<lparr>sem_used := used, ks := s\<rparr> in
      if slot < 0 then ((-1, LWP_NULL), w')
      else ((0, word_of_int slot + 1), w'\<lparr>sem_table := (sem_table w')(nat slot := start)\<rparr>))"

definition LWP_SemDestroy :: "u32 \<Rightarrow> lwpc \<Rightarrow> (int \<times> lwpc) option" where
  "LWP_SemDestroy h w =
     (if \<not> valid_handle h then Some (-1, w)
      else do { i \<leftarrow> slot_of h;
                let (used, s) = lwpc_free_slot (sem_used w) i (ks w) in Some (0, w\<lparr>sem_used := used, ks := s\<rparr>) })"

definition LWP_SemWait :: "u32 \<Rightarrow> lwpc \<Rightarrow> (int \<times> lwpc) option" where
  "LWP_SemWait h w =
     (if \<not> valid_handle h then Some (-1, w)
      else do { i \<leftarrow> slot_of h;
                let (st, s1) = PPCIrqLockByMsr (ks w);
                    v = sem_table w i - 1;
                    w1 = w\<lparr>ks := s1, sem_table := (sem_table w)(i := v)\<rparr>
                in if v <s 0
                   then map_option (Pair 0) (with_ks (KThrQueueBlock (QStatic Lwpc_sem_queue) h) w1)
                   else Some (0, w1\<lparr>ks := PPCIrqUnlockByMsr st s1\<rparr>) })"

definition LWP_SemWait_resume :: "u32 \<Rightarrow> lwpc \<Rightarrow> lwpc" where
  "LWP_SemWait_resume st w = w\<lparr>ks := PPCIrqUnlockByMsr st (ks w)\<rparr>"

definition LWP_SemGetValue :: "u32 \<Rightarrow> lwpc \<Rightarrow> (int \<times> u32 option) option" where
  "LWP_SemGetValue h w =
     (if \<not> valid_handle h then Some (-1, None)
      else do { i \<leftarrow> slot_of h; Some (0, Some (if 0 \<le>s sem_table w i then sem_table w i else 0)) })"

definition LWP_SemPost :: "u32 \<Rightarrow> lwpc \<Rightarrow> (int \<times> lwpc) option" where
  "LWP_SemPost h w =
     (if \<not> valid_handle h then Some (-1, w)
      else do { i \<leftarrow> slot_of h;
                let (st, s1) = PPCIrqLockByMsr (ks w);
                    v = sem_table w i;
                    w1 = w\<lparr>ks := s1, sem_table := (sem_table w)(i := v + 1)\<rparr>
                in if v <s 0
                   then do { s2 \<leftarrow> KThrQueueUnblockOneByValue (QStatic Lwpc_sem_queue) h s1;
                             Some (0, w1\<lparr>ks := finish_irq st (sprg2 (ks w)) s2\<rparr>) }
                   else Some (0, w1\<lparr>ks := PPCIrqUnlockByMsr st s1\<rparr>) })"

section \<open>Message queues (\<^verbatim>\<open>lwpc_mq.c\<close>)\<close>

definition MQ_MSG_NOBLOCK :: u32 where "MQ_MSG_NOBLOCK = 1"

definition lwpc_get_mailbox :: "u32 \<Rightarrow> ptr" where
  "lwpc_get_mailbox h = (if valid_handle h then NOT h else NULL)"

definition MQ_Init :: "ptr \<Rightarrow> u32 list \<Rightarrow> u32 \<Rightarrow> lwpc \<Rightarrow> (int \<times> u32 option) \<times> lwpc" where
  "MQ_Init mem buf cnt w =
     (if cnt = 0 then ((-1, None), w)
      else if mem = NULL then ((-1, Some LWP_NULL), w)
      else ((0, Some (NOT mem)), w\<lparr>mailboxes := (mailboxes w)(mem := KMailboxPrepare buf cnt)\<rparr>))"

text \<open>\<open>free_mem\<close> is \<^verbatim>\<open>free\<close> of the C library.\<close>

definition MQ_Close :: "(ptr \<Rightarrow> lwpc \<Rightarrow> lwpc) \<Rightarrow> u32 \<Rightarrow> lwpc \<Rightarrow> lwpc" where
  "MQ_Close free_mem h w = (let mb = lwpc_get_mailbox h in if mb \<noteq> NULL then free_mem mb w else w)"

definition MQ_Send :: "u32 \<Rightarrow> u32 \<Rightarrow> u32 \<Rightarrow> lwpc \<Rightarrow> (bool \<times> lwpc) option" where
  "MQ_Send h msg flags w =
     (let mb = lwpc_get_mailbox h in
      if mb = NULL then Some (False, w)
      else if (flags OR MQ_MSG_NOBLOCK) AND MQ_MSG_NOBLOCK \<noteq> 0
      then do { (rc, s, M) \<leftarrow> KMailboxTrySend mb msg (ks w, mailboxes w);
                Some (rc, w\<lparr>ks := s, mailboxes := M\<rparr>) }
      else Some (False, w))"

text \<open>\<open>Some (Some (rc, msg))\<close>: returned; \<open>Some None\<close>: the caller blocks and ends in \<open>MQ_Receive_resume\<close>.\<close>

definition MQ_Receive :: "u32 \<Rightarrow> u32 \<Rightarrow> lwpc \<Rightarrow> ((bool \<times> u32 option) option \<times> lwpc) option" where
  "MQ_Receive h flags w =
     (let mb = lwpc_get_mailbox h in
      if mb = NULL then Some (Some (False, None), w)
      else let fl = (if PPCIsInExcpt (ks w) then flags OR MQ_MSG_NOBLOCK else flags) in
        if fl AND MQ_MSG_NOBLOCK \<noteq> 0
        then let (r, s, M) = KMailboxTryRecv mb (ks w, mailboxes w)
             in Some (Some (r \<noteq> None, r), w\<lparr>ks := s, mailboxes := M\<rparr>)
        else do { (r, s, M) \<leftarrow> KMailboxRecv mb (ks w, mailboxes w);
                  Some (case r of None \<Rightarrow> None | Some x \<Rightarrow> Some (True, Some x), w\<lparr>ks := s, mailboxes := M\<rparr>) })"

definition MQ_Receive_resume :: "u32 \<Rightarrow> u32 \<Rightarrow> lwpc \<Rightarrow> u32 \<times> lwpc" where
  "MQ_Receive_resume st h w =
     (let (x, s, M) = KMailboxRecv_resume st (lwpc_get_mailbox h) (ks w, mailboxes w)
      in (x, w\<lparr>ks := s, mailboxes := M\<rparr>))"

section \<open>Mutexes and condition variables (\<^verbatim>\<open>lwpc_sync.c\<close>)\<close>

text \<open>A \<open>KRMutex\<close> has 8 bytes: the owner and the count.\<close>

definition mutex_addr :: "lwpc \<Rightarrow> nat \<Rightarrow> ptr" where
  "mutex_addr w i = mutex_base w + 8 * of_nat i"

definition LWP_MutexInit :: "bool \<Rightarrow> lwpc \<Rightarrow> (int \<times> u32) \<times> lwpc" where
  "LWP_MutexInit use_recursive w =
     (let (slot, used, s) = lwpc_alloc_slot (mutex_used w) (ks w); w' = w\<lparr>mutex_used := used, ks := s\<rparr> in
      if slot < 0 then ((-1, LWP_NULL), w')
      else ((0, 1 + word_of_int slot),
        w'\<lparr>mutex_recursive := (if use_recursive then mutex_recursive w' OR push_bit (nat slot) 1
                               else mutex_recursive w' AND NOT (push_bit (nat slot) 1)),
           ks := irq_section s\<rparr>))"

definition LWP_MutexDestroy :: "u32 \<Rightarrow> lwpc \<Rightarrow> (int \<times> lwpc) option" where
  "LWP_MutexDestroy h w =
     (if \<not> valid_handle h then Some (-1, w)
      else do { i \<leftarrow> slot_of h;
                let (used, s) = lwpc_free_slot (mutex_used w) i (ks w) in Some (0, w\<lparr>mutex_used := used, ks := s\<rparr>) })"

definition with_rm ::
    "(kstate \<times> (ptr \<Rightarrow> u32) \<Rightarrow> (kstate \<times> (ptr \<Rightarrow> u32)) option) \<Rightarrow> lwpc \<Rightarrow> lwpc option" where
  "with_rm f w = map_option (\<lambda>(s, c). w\<lparr>ks := s, rm_counter := c\<rparr>) (f (ks w, rm_counter w))"

definition LWP_MutexLock :: "u32 \<Rightarrow> lwpc \<Rightarrow> (int \<times> lwpc) option" where
  "LWP_MutexLock h w =
     (if \<not> valid_handle h then Some (-1, w)
      else do { i \<leftarrow> slot_of h;
                map_option (Pair 0)
                  (if bit (mutex_recursive w) i then with_rm (KRMutexLock (mutex_addr w i)) w
                   else with_ks (KMutexLock (mutex_addr w i)) w) })"

definition LWP_MutexTryLock :: "u32 \<Rightarrow> lwpc \<Rightarrow> (int \<times> lwpc) option" where
  "LWP_MutexTryLock h w =
     (if \<not> valid_handle h then Some (-1, w)
      else do { i \<leftarrow> slot_of h;
                if bit (mutex_recursive w) i
                then let (rc, s, c) = KRMutexTryLock (mutex_addr w i) (ks w, rm_counter w)
                     in Some (if rc then 0 else 1, w\<lparr>ks := s, rm_counter := c\<rparr>)
                else let (rc, s) = KMutexTryLock (mutex_addr w i) (ks w)
                     in Some (if rc then 0 else 1, w\<lparr>ks := s\<rparr>) })"

definition LWP_MutexUnlock :: "u32 \<Rightarrow> lwpc \<Rightarrow> (int \<times> lwpc) option" where
  "LWP_MutexUnlock h w =
     (if \<not> valid_handle h then Some (-1, w)
      else do { i \<leftarrow> slot_of h;
                map_option (Pair 0)
                  (if bit (mutex_recursive w) i then with_rm (KRMutexUnlock (mutex_addr w i)) w
                   else with_ks (KMutexUnlock (mutex_addr w i)) w) })"

definition lwpc_get_condvar :: "u32 \<Rightarrow> ptr" where
  "lwpc_get_condvar h = (if valid_handle h then 0xc0000000 + h else NULL)"

text \<open>The address of the mutex and whether it is recursive; the outer \<open>None\<close> is a handle beyond the table.\<close>

definition lwpc_get_mutex_for_cv :: "u32 \<Rightarrow> lwpc \<Rightarrow> ((ptr \<times> bool) option) option" where
  "lwpc_get_mutex_for_cv h w =
     (if \<not> valid_handle h then Some None
      else do { i \<leftarrow> slot_of h; Some (Some (mutex_addr w i, bit (mutex_recursive w) i)) })"

definition LWP_CondInit :: "lwpc \<Rightarrow> (int \<times> u32) \<times> lwpc" where
  "LWP_CondInit w =
     (let (slot, used, s) = lwpc_alloc_slot (cond_used w) (ks w); w' = w\<lparr>cond_used := used, ks := s\<rparr> in
      if slot < 0 then ((-1, LWP_NULL), w') else ((0, word_of_int slot + 1), w'))"

definition LWP_CondDestroy :: "u32 \<Rightarrow> lwpc \<Rightarrow> (int \<times> lwpc) option" where
  "LWP_CondDestroy h w =
     (if \<not> valid_handle h then Some (-1, w)
      else do { i \<leftarrow> slot_of h;
                let (used, s) = lwpc_free_slot (cond_used w) i (ks w) in Some (0, w\<lparr>cond_used := used, ks := s\<rparr>) })"

definition LWP_CondSignal :: "u32 \<Rightarrow> lwpc \<Rightarrow> (int \<times> lwpc) option" where
  "LWP_CondSignal h w =
     (let cv = lwpc_get_condvar h in
      if cv = NULL then Some (-1, w) else map_option (Pair 0) (with_ks (KCondVarSignal cv) w))"

definition LWP_CondBroadcast :: "u32 \<Rightarrow> lwpc \<Rightarrow> (int \<times> lwpc) option" where
  "LWP_CondBroadcast h w =
     (let cv = lwpc_get_condvar h in
      if cv = NULL then Some (-1, w) else map_option (Pair 0) (with_ks (KCondVarBroadcast cv) w))"

abbreviation ETIMEDOUT :: int where "ETIMEDOUT \<equiv> 116"

text \<open>\<open>Some r\<close>: returned \<open>r\<close>; \<open>None\<close>: the caller waits.\<close>

definition lwpc_cond_timed_wait_impl ::
    "ptr \<Rightarrow> ptr \<Rightarrow> ptr \<Rightarrow> u64 option \<Rightarrow> kstate \<Rightarrow> (int option \<times> kstate) option" where
  "lwpc_cond_timed_wait_impl task cv m reltime s =
     (case reltime of
        Some ticks \<Rightarrow> map_option (\<lambda>(r, s'). (map_option (\<lambda>b. if b then 0 else ETIMEDOUT) r, s'))
                        (KCondVarWaitTimeoutTicks task cv m ticks s)
      | None \<Rightarrow> map_option (Pair None) (KCondVarWait cv m s))"

definition LWP_CondTimedWait ::
    "ptr \<Rightarrow> u32 \<Rightarrow> u32 \<Rightarrow> u64 option \<Rightarrow> lwpc \<Rightarrow> (int option \<times> lwpc) option" where
  "LWP_CondTimedWait task cond mutex reltime w =
     (let cv = lwpc_get_condvar cond in
      if cv = NULL then Some (Some (-1), w)
      else do { mo \<leftarrow> lwpc_get_mutex_for_cv mutex w;
                case mo of
                  None \<Rightarrow> Some (Some (-1), w)
                | Some (m, is_recursive) \<Rightarrow>
                    let w1 = (if is_recursive then w\<lparr>rm_counter := (rm_counter w)(m := 0)\<rparr> else w) in
                    do { (r, s) \<leftarrow> lwpc_cond_timed_wait_impl task cv m reltime (ks w1);
                         let w2 = w1\<lparr>ks := s\<rparr> in
                         Some (r, if r \<noteq> None \<and> is_recursive
                                  then w2\<lparr>rm_counter := (rm_counter w2)(m := rm_counter w m)\<rparr> else w2) } })"

text \<open>Once the wait is over and the mutex held again, the saved count comes back.\<close>

definition LWP_CondTimedWait_resume :: "u32 \<Rightarrow> u32 \<Rightarrow> lwpc \<Rightarrow> lwpc option" where
  "LWP_CondTimedWait_resume counter_backup mutex w =
     do { mo \<leftarrow> lwpc_get_mutex_for_cv mutex w;
          Some (case mo of Some (m, True) \<Rightarrow> w\<lparr>rm_counter := (rm_counter w)(m := counter_backup)\<rparr> | _ \<Rightarrow> w) }"

definition LWP_CondWait :: "ptr \<Rightarrow> u32 \<Rightarrow> u32 \<Rightarrow> lwpc \<Rightarrow> (int option \<times> lwpc) option" where
  "LWP_CondWait task cond mutex = LWP_CondTimedWait task cond mutex None"

section \<open>Threads (\<^verbatim>\<open>lwpc_thread.c\<close>)\<close>

definition lwpc_get_thread :: "u32 \<Rightarrow> ptr" where
  "lwpc_get_thread h = (if valid_handle h then NOT h else NULL)"

definition LWP_CreateThread ::
    "link_env \<Rightarrow> u32 \<Rightarrow> (kstate \<Rightarrow> kstate) \<Rightarrow> ptr \<Rightarrow> u32 \<Rightarrow> u32 \<Rightarrow> u32 \<Rightarrow> u32 \<Rightarrow> u8 \<Rightarrow> lwpc
      \<Rightarrow> ((int \<times> u32 option) \<times> lwpc) option" where
  "LWP_CreateThread env ksize set_timeslice mem entry arg stackbase stack_size prio w =
     (if entry = 0 then Some ((-1, None), w)
      else let stack_size' = (if stack_size = 0 then 8 * 1024 else stack_size);
               t = mem in
        if t = NULL then Some ((-1, Some LWP_NULL), w)
        else let stackbase' = (if stackbase = 0 then t + ksize else stackbase);
                 s0 = (if prio AND 0x80 = 0 then set_timeslice (ks w) else ks w) in
          do { s1 \<leftarrow> KThreadPrepare env t entry arg (stackbase' + stack_size')
                      (KTHR_MIN_PRIO - (ucast prio AND 127)) s0;
               s2 \<leftarrow> KThreadResume t s1;
               Some ((0, Some (NOT t)), w\<lparr>ks := s2\<rparr>) })"

definition LWP_SuspendThread :: "u32 \<Rightarrow> lwpc \<Rightarrow> (int \<times> lwpc) option" where
  "LWP_SuspendThread h w =
     (let t = lwpc_get_thread h in
      if t = NULL then Some (-1, w) else map_option (Pair 0) (with_ks (KThreadSuspend t) w))"

definition LWP_ResumeThread :: "u32 \<Rightarrow> lwpc \<Rightarrow> (int \<times> lwpc) option" where
  "LWP_ResumeThread h w =
     (let t = lwpc_get_thread h in
      if t = NULL then Some (-1, w) else map_option (Pair 0) (with_ks (KThreadResume t) w))"

definition LWP_ThreadIsSuspended :: "u32 \<Rightarrow> lwpc \<Rightarrow> bool" where
  "LWP_ThreadIsSuspended h w \<longleftrightarrow> (let t = lwpc_get_thread h in t \<noteq> NULL \<and> suspendT (ks w) t \<noteq> 0)"

definition LWP_GetSelf :: "lwpc \<Rightarrow> u32" where
  "LWP_GetSelf w = NOT (sprg2 (ks w))"

definition LWP_SetThreadPriority :: "u32 \<Rightarrow> u32 \<Rightarrow> lwpc \<Rightarrow> lwpc option" where
  "LWP_SetThreadPriority h prio w =
     (let t = (if h \<noteq> LWP_NULL then lwpc_get_thread h else sprg2 (ks w)) in
      if t = NULL then Some w
      else with_ks (KThreadSetPrio t (KTHR_MIN_PRIO - (ucast prio AND 127))) w)"

definition LWP_YieldThread :: "lwpc \<Rightarrow> lwpc option" where
  "LWP_YieldThread = with_ks KThreadYield"

text \<open>\<open>Some (rc, value)\<close>: returned; \<open>None\<close>: the caller waits for the thread.\<close>

definition LWP_JoinThread :: "u32 \<Rightarrow> lwpc \<Rightarrow> ((int \<times> u32 option) option \<times> lwpc) option" where
  "LWP_JoinThread h w =
     (let t = lwpc_get_thread h in
      if t = NULL then Some (Some (-1, None), w)
      else do { (r, s) \<leftarrow> KThreadJoin t (ks w);
                Some (map_option (\<lambda>rc. (0, Some rc)) r, w\<lparr>ks := s\<rparr>) })"

end
