(* ===== verification/KIrq.thy ===== *)
theory KIrq
  imports KTick
begin

text \<open>
  The interrupt controller driver \<^verbatim>\<open>tuxedo/interrupt.c\<close>: finding the cause of an interrupt, enabling and
  disabling sources, and the table of handlers. The hardware registers are fields of \<open>irqhw\<close> (16 or
  32 bits wide, as in \<^verbatim>\<open>gc/tuxedo/mm.h\<close>); a register holds the value that was written last, so what
  the devices themselves change is a change of the record between two calls. The parameter \<open>wii\<close> is
  the build target: \<open>IRQ_PI_ACR\<close> exists on the Wii only.
\<close>

section \<open>Interrupt numbers and masks\<close>

abbreviation IRQ_PI_ERROR :: nat where "IRQ_PI_ERROR \<equiv> 0"
abbreviation IRQ_PI_DEBUG :: nat where "IRQ_PI_DEBUG \<equiv> 1"
abbreviation IRQ_MEM0 :: nat where "IRQ_MEM0 \<equiv> 2"
abbreviation IRQ_MEM1 :: nat where "IRQ_MEM1 \<equiv> 3"
abbreviation IRQ_MEM2 :: nat where "IRQ_MEM2 \<equiv> 4"
abbreviation IRQ_MEM3 :: nat where "IRQ_MEM3 \<equiv> 5"
abbreviation IRQ_MEMADDRESS :: nat where "IRQ_MEMADDRESS \<equiv> 6"
abbreviation IRQ_PI_RSW :: nat where "IRQ_PI_RSW \<equiv> 7"
abbreviation IRQ_PI_VI :: nat where "IRQ_PI_VI \<equiv> 8"
abbreviation IRQ_PI_PETOKEN :: nat where "IRQ_PI_PETOKEN \<equiv> 9"
abbreviation IRQ_PI_PEFINISH :: nat where "IRQ_PI_PEFINISH \<equiv> 10"
abbreviation IRQ_PI_HSP :: nat where "IRQ_PI_HSP \<equiv> 11"
abbreviation IRQ_DSP_ARAM :: nat where "IRQ_DSP_ARAM \<equiv> 12"
abbreviation IRQ_DSP_DSP :: nat where "IRQ_DSP_DSP \<equiv> 13"
abbreviation IRQ_AI :: nat where "IRQ_AI \<equiv> 14"
abbreviation IRQ_EXI0_EXI :: nat where "IRQ_EXI0_EXI \<equiv> 15"
abbreviation IRQ_EXI0_TC :: nat where "IRQ_EXI0_TC \<equiv> 16"
abbreviation IRQ_EXI0_EXT :: nat where "IRQ_EXI0_EXT \<equiv> 17"
abbreviation IRQ_EXI1_EXI :: nat where "IRQ_EXI1_EXI \<equiv> 18"
abbreviation IRQ_EXI1_TC :: nat where "IRQ_EXI1_TC \<equiv> 19"
abbreviation IRQ_EXI1_EXT :: nat where "IRQ_EXI1_EXT \<equiv> 20"
abbreviation IRQ_EXI2_EXI :: nat where "IRQ_EXI2_EXI \<equiv> 21"
abbreviation IRQ_EXI2_TC :: nat where "IRQ_EXI2_TC \<equiv> 22"
abbreviation IRQ_PI_SI :: nat where "IRQ_PI_SI \<equiv> 23"
abbreviation IRQ_PI_DI :: nat where "IRQ_PI_DI \<equiv> 24"
abbreviation IRQ_DSP_AI :: nat where "IRQ_DSP_AI \<equiv> 25"
abbreviation IRQ_PI_CP :: nat where "IRQ_PI_CP \<equiv> 26"
abbreviation IRQ_PI_ACR :: nat where "IRQ_PI_ACR \<equiv> 27"

definition IRQ_MAX :: "bool \<Rightarrow> nat" where
  "IRQ_MAX wii = (if wii then 28 else 27)"

abbreviation IRQMASK :: "nat \<Rightarrow> u32" where "IRQMASK \<equiv> PPCBIT"

text \<open>The mask of a set of interrupts.\<close>

definition im_of :: "nat list \<Rightarrow> u32" where
  "im_of is = foldr (\<lambda>i m. IRQMASK i OR m) is 0"

definition IM_MEM :: u32 where
  "IM_MEM = im_of [IRQ_MEM0, IRQ_MEM1, IRQ_MEM2, IRQ_MEM3, IRQ_MEMADDRESS]"
definition IM_DSP :: u32 where "IM_DSP = im_of [IRQ_DSP_AI, IRQ_DSP_ARAM, IRQ_DSP_DSP]"
definition IM_EXI0 :: u32 where "IM_EXI0 = im_of [IRQ_EXI0_EXI, IRQ_EXI0_TC, IRQ_EXI0_EXT]"
definition IM_EXI1 :: u32 where "IM_EXI1 = im_of [IRQ_EXI1_EXI, IRQ_EXI1_TC, IRQ_EXI1_EXT]"
definition IM_EXI2 :: u32 where "IM_EXI2 = im_of [IRQ_EXI2_EXI, IRQ_EXI2_TC]"
definition IM_PI :: "bool \<Rightarrow> u32" where
  "IM_PI wii = im_of ([IRQ_PI_CP, IRQ_PI_PETOKEN, IRQ_PI_PEFINISH, IRQ_PI_SI, IRQ_PI_DI, IRQ_PI_RSW,
     IRQ_PI_ERROR, IRQ_PI_VI, IRQ_PI_DEBUG, IRQ_PI_HSP] @ (if wii then [IRQ_PI_ACR] else []))"

record irqhw =
  pi0 :: u32
  pi1 :: u32
  mi14 :: u16
  mi15 :: u16
  dsp5 :: u16
  ai0 :: u32
  exi0 :: u32
  exi5 :: u32
  exi10 :: u32

record irqstate =
  irq_ks :: kstate
  hw :: irqhw
  s_irqCookies :: "nat \<Rightarrow> u32 \<times> u32"

text \<open>\<^verbatim>\<open>x & (1U<<n)\<close>\<close>

definition tst :: "u32 \<Rightarrow> nat \<Rightarrow> bool" where
  "tst x n \<longleftrightarrow> x AND push_bit n 1 \<noteq> 0"

section \<open>Initialisation\<close>

text \<open>The exception vector setup \<^verbatim>\<open>PPCExcptSetHandler\<close> writes code memory and is not represented.\<close>

definition KIrqInit :: "irqstate \<Rightarrow> irqstate" where
  "KIrqInit s =
     (let h = hw s in
      s\<lparr>hw := h\<lparr>mi14 := 0, dsp5 := dsp5 h AND NOT 0x1f8, ai0 := ai0 h AND NOT 0x2c,
                exi0 := exi0 h AND NOT 0x2c0f, exi5 := exi5 h AND NOT 0x0c0f, exi10 := exi10 h AND NOT 0x000f,
                pi1 := 0xf0\<rparr>,
        irq_ks := PPCIrqUnlockByMsr MSR_EE (irq_ks s)\<rparr>)"

section \<open>The cause of an interrupt\<close>

definition KIrqDecodeExiCause :: "u32 \<Rightarrow> int" where
  "KIrqDecodeExiCause exi_cause =
     (let c = exi_cause AND push_bit 1 exi_cause in
      if tst c 1 then int IRQ_EXI0_EXI
      else if tst c 3 then int IRQ_EXI0_TC
      else if tst c 11 then int IRQ_EXI0_EXT
      else -1)"

text \<open>\<open>__builtin_ffs\<close>\<close>

definition ffs :: "u32 \<Rightarrow> int" where
  "ffs x = (case find (\<lambda>i. bit x i) [0..<32] of None \<Rightarrow> 0 | Some i \<Rightarrow> int i + 1)"

definition KIrqGetCause :: "bool \<Rightarrow> irqhw \<Rightarrow> int" where
  "KIrqGetCause wii h =
     (let pi_cause = pi0 h AND pi1 h;
          mi_cause = ucast (mi14 h AND mi15 h) AND (0x1f :: u32);
          dsp_cause = (ucast (dsp5 h) :: u32) AND drop_bit 1 (ucast (dsp5 h));
          has_dsp_ai = (tst pi_cause 6 \<and> tst dsp_cause 3);
          ai_cause = ai0 h AND push_bit 1 (ai0 h);
          e0 = KIrqDecodeExiCause (exi0 h);
          e1 = KIrqDecodeExiCause (exi5 h);
          e2 = KIrqDecodeExiCause (exi10 h AND NOT (push_bit 11 1))
      in if tst pi_cause 0 then int IRQ_PI_ERROR
         else if tst pi_cause 12 then int IRQ_PI_DEBUG
         else if tst pi_cause 7 \<and> mi_cause \<noteq> 0 then ffs mi_cause - 1 + int IRQ_MEM0
         else if tst pi_cause 1 then int IRQ_PI_RSW
         else if tst pi_cause 8 then int IRQ_PI_VI
         else if tst pi_cause 9 then int IRQ_PI_PETOKEN
         else if tst pi_cause 10 then int IRQ_PI_PEFINISH
         else if tst pi_cause 13 then int IRQ_PI_HSP
         else if tst pi_cause 6 \<and> tst dsp_cause 5 then int IRQ_DSP_ARAM
         else if tst pi_cause 6 \<and> tst dsp_cause 7 then int IRQ_DSP_DSP
         else if tst pi_cause 5 \<and> tst ai_cause 3 then int IRQ_AI
         else if tst pi_cause 4 \<and> e0 \<ge> 0 then e0
         else if tst pi_cause 4 \<and> e1 \<ge> 0 then e1 + int IRQ_EXI1_EXI - int IRQ_EXI0_EXI
         else if tst pi_cause 4 \<and> e2 \<ge> 0 then e2 + int IRQ_EXI2_EXI - int IRQ_EXI0_EXI
         else if tst pi_cause 3 then int IRQ_PI_SI
         else if tst pi_cause 2 then int IRQ_PI_DI
         else if has_dsp_ai then int IRQ_DSP_AI
         else if tst pi_cause 11 then int IRQ_PI_CP
         else if wii \<and> tst pi_cause 14 then int IRQ_PI_ACR
         else -1)"

datatype irq_exid = PPC_EXCPT_IRQ | PPC_EXCPT_DECR

text \<open>
  Dispatch: the decrementer runs the tick tasks, an interrupt calls the handler of its cause with its
  \<open>user\<close> value. \<open>call\<close> stands for the handlers a program registers, \<open>tick\<close> for the tick task functions.
\<close>

definition KIrqDispatch ::
    "bool \<Rightarrow> (u32 \<Rightarrow> nat \<Rightarrow> u32 \<Rightarrow> irqstate \<Rightarrow> irqstate option) \<Rightarrow> (tick_fn \<Rightarrow> ptr \<Rightarrow> kstate \<Rightarrow> kstate option) \<Rightarrow>
     irq_exid \<Rightarrow> irqstate \<Rightarrow> irqstate option" where
  "KIrqDispatch wii call tick exid s =
     (if exid = PPC_EXCPT_DECR then map_option (\<lambda>k. s\<lparr>irq_ks := k\<rparr>) (KTickTaskRun tick (irq_ks s))
      else let irq = KIrqGetCause wii (hw s) in
        if irq \<ge> 0 then
          (let (fn, user) = s_irqCookies s (nat irq) in
           if fn \<noteq> NULL then call fn (nat irq) user s else Some s)
        else Some s)"

section \<open>Enabling and disabling\<close>

definition KIrqEncodeMem :: "u32 \<Rightarrow> u32" where
  "KIrqEncodeMem msk = drop_bit IRQ_MEM0 msk AND 0x1f"

text \<open>\<^verbatim>\<open>if (msk & IRQMASK(i)) ret |= 1U<<n;\<close>\<close>

definition enc1 :: "u32 \<Rightarrow> nat \<Rightarrow> nat \<Rightarrow> u32" where
  "enc1 msk i n = (if msk AND IRQMASK i \<noteq> 0 then push_bit n 1 else 0)"

definition KIrqEncodeDsp :: "u32 \<Rightarrow> u32" where
  "KIrqEncodeDsp msk = enc1 msk IRQ_DSP_ARAM 6 OR enc1 msk IRQ_DSP_DSP 8 OR enc1 msk IRQ_DSP_AI 4"

definition KIrqEncodeAi :: "u32 \<Rightarrow> u32" where
  "KIrqEncodeAi msk = enc1 msk IRQ_AI 2"

definition KIrqEncodeExi :: "u32 \<Rightarrow> u32" where
  "KIrqEncodeExi msk = enc1 msk IRQ_EXI0_EXI 0 OR enc1 msk IRQ_EXI0_TC 2 OR enc1 msk IRQ_EXI0_EXT 10"

definition KIrqEncodePi :: "bool \<Rightarrow> u32 \<Rightarrow> u32" where
  "KIrqEncodePi wii msk =
     enc1 msk IRQ_PI_ERROR 0 OR enc1 msk IRQ_PI_DEBUG 12 OR enc1 msk IRQ_PI_RSW 1 OR enc1 msk IRQ_PI_VI 8 OR
     enc1 msk IRQ_PI_PETOKEN 9 OR enc1 msk IRQ_PI_PEFINISH 10 OR enc1 msk IRQ_PI_HSP 13 OR enc1 msk IRQ_PI_SI 3 OR
     enc1 msk IRQ_PI_DI 2 OR enc1 msk IRQ_PI_CP 11 OR (if wii then enc1 msk IRQ_PI_ACR 14 else 0)"

text \<open>One register: drop the acknowledge bits \<open>ack\<close>, clear, set.\<close>

definition upd_reg :: "u32 \<Rightarrow> u32 \<Rightarrow> u32 \<Rightarrow> u32 \<Rightarrow> u32" where
  "upd_reg ack clr st reg = (reg AND NOT ack AND NOT clr) OR st"

definition KIrqModify_hw :: "bool \<Rightarrow> u32 \<Rightarrow> u32 \<Rightarrow> irqhw \<Rightarrow> irqhw" where
  "KIrqModify_hw wii clr_mask set_mask h =
     (let mod_mask = clr_mask XOR set_mask;
          clr = clr_mask AND mod_mask;
          st = set_mask AND mod_mask
      in h\<lparr>mi14 := (if mod_mask AND IM_MEM \<noteq> 0
                     then ucast (upd_reg 0 (KIrqEncodeMem clr) (KIrqEncodeMem st) (ucast (mi14 h))) else mi14 h),
           dsp5 := (if mod_mask AND IM_DSP \<noteq> 0
                     then ucast (upd_reg 0xa8 (KIrqEncodeDsp clr) (KIrqEncodeDsp st) (ucast (dsp5 h))) else dsp5 h),
           ai0 := (if mod_mask AND IRQMASK IRQ_AI \<noteq> 0
                     then upd_reg 0x8 (KIrqEncodeAi clr) (KIrqEncodeAi st) (ai0 h) else ai0 h),
           exi0 := (if mod_mask AND IM_EXI0 \<noteq> 0
                     then upd_reg 0x280a (KIrqEncodeExi clr) (KIrqEncodeExi st) (exi0 h) else exi0 h),
           exi5 := (if mod_mask AND IM_EXI1 \<noteq> 0
                     then upd_reg 0x80a (KIrqEncodeExi (push_bit 3 clr)) (KIrqEncodeExi (push_bit 3 st)) (exi5 h)
                     else exi5 h),
           exi10 := (if mod_mask AND IM_EXI2 \<noteq> 0
                     then upd_reg 0xa (KIrqEncodeExi (push_bit 6 clr AND NOT (IRQMASK IRQ_EXI0_EXT)))
                            (KIrqEncodeExi (push_bit 6 st AND NOT (IRQMASK IRQ_EXI0_EXT))) (exi10 h)
                     else exi10 h),
           pi1 := (if mod_mask AND IM_PI wii \<noteq> 0
                     then upd_reg 0 (KIrqEncodePi wii clr) (KIrqEncodePi wii st) (pi1 h) else pi1 h)\<rparr>)"

definition KIrqModify :: "bool \<Rightarrow> u32 \<Rightarrow> u32 \<Rightarrow> irqstate \<Rightarrow> irqstate" where
  "KIrqModify wii clr_mask set_mask s =
     (let (st, k) = PPCIrqLockByMsr (irq_ks s) in
      s\<lparr>hw := KIrqModify_hw wii clr_mask set_mask (hw s), irq_ks := PPCIrqUnlockByMsr st k\<rparr>)"

definition KIrqEnable :: "bool \<Rightarrow> u32 \<Rightarrow> irqstate \<Rightarrow> irqstate" where
  "KIrqEnable wii msk = KIrqModify wii 0 msk"

definition KIrqDisable :: "bool \<Rightarrow> u32 \<Rightarrow> irqstate \<Rightarrow> irqstate" where
  "KIrqDisable wii msk = KIrqModify wii msk 0"

section \<open>Handlers\<close>

definition KIrqGet :: "nat \<Rightarrow> irqstate \<Rightarrow> u32" where
  "KIrqGet irq s = fst (s_irqCookies s irq)"

definition KIrqSet :: "nat \<Rightarrow> u32 \<Rightarrow> u32 \<Rightarrow> irqstate \<Rightarrow> u32 \<times> irqstate" where
  "KIrqSet irq fn user s =
     (let (st, k) = PPCIrqLockByMsr (irq_ks s) in
      (fst (s_irqCookies s irq),
       s\<lparr>s_irqCookies := (s_irqCookies s)(irq := (fn, user)), irq_ks := PPCIrqUnlockByMsr st k\<rparr>))"

section \<open>Bits\<close>

lemma and_zero: "(x :: u32) AND y = 0 \<longleftrightarrow> (\<forall>n<32. \<not> (bit x n \<and> bit y n))"
  by (auto simp: bit_eq_iff [of "x AND y" 0] bit_simps)

lemma bit_push1: "n < 32 \<Longrightarrow> bit (push_bit n (1 :: u32)) k \<longleftrightarrow> k = n"
  by (auto simp: bit_simps)

lemma bit_pow2: "n < 32 \<Longrightarrow> bit ((2 :: u32) ^ n) k \<longleftrightarrow> k = n"
  using bit_push1 [of n k] by simp

lemma tst_bit: "n < 32 \<Longrightarrow> tst x n = bit x n"
  by (auto simp: tst_def and_zero bit_pow2)

lemma bit_PPCBIT: "i < 32 \<Longrightarrow> bit (PPCBIT i) n \<longleftrightarrow> n = 31 - i"
proof -
  assume i: "i < 32"
  have h: "(0x80000000 :: u32) = push_bit 31 1" by (simp add: push_bit_eq_mult)
  have "bit (PPCBIT i) n = bit (push_bit 31 (1 :: u32)) (i + n)"
    unfolding PPCBIT_def h by (simp only: bit_drop_bit_eq o_def)
  also have "\<dots> \<longleftrightarrow> i + n = 31" by (rule bit_push1) simp
  finally show ?thesis using i by auto
qed

lemma and_PPCBIT: "i < 32 \<Longrightarrow> x AND PPCBIT i \<noteq> 0 \<longleftrightarrow> bit x (31 - i)"
  by (auto simp: and_zero bit_PPCBIT)

lemma and_or_zero: "(x :: u32) AND (a OR b) \<noteq> 0 \<longleftrightarrow> x AND a \<noteq> 0 \<or> x AND b \<noteq> 0"
  by (auto simp: and_zero bit_simps)

lemma and_im_of: "\<forall>i\<in>set is. i < 32 \<Longrightarrow> x AND im_of is \<noteq> 0 \<longleftrightarrow> (\<exists>i\<in>set is. bit x (31 - i))"
proof (induction "is")
  case (Cons a "is")
  have "im_of (a # is) = PPCBIT a OR im_of is" by (simp add: im_of_def)
  then show ?case using Cons and_or_zero [of x "PPCBIT a" "im_of is"] and_PPCBIT [of a x] by simp
qed (simp add: im_of_def)

lemma bit_enc1: "i < 32 \<Longrightarrow> n < 32 \<Longrightarrow> bit (enc1 x i n) k \<longleftrightarrow> k = n \<and> bit x (31 - i)"
  by (auto simp: enc1_def and_PPCBIT bit_simps)

lemma bit_upd_reg: "n < 32 \<Longrightarrow> bit (upd_reg ack clr st reg) n \<longleftrightarrow> bit st n \<or> bit reg n \<and> \<not> bit ack n \<and> \<not> bit clr n"
  by (auto simp: upd_reg_def bit_simps)

lemmas irq_bits = and_im_of and_PPCBIT bit_enc1 bit_upd_reg bit_simps

section \<open>Enable bits\<close>

text \<open>The register bit that enables a source, for every source but the memory ones.\<close>

fun irq_enabled :: "irqhw \<Rightarrow> nat \<Rightarrow> bool" where
  "irq_enabled h n =
     (if n = IRQ_PI_ERROR then bit (pi1 h) 0 else if n = IRQ_PI_DEBUG then bit (pi1 h) 12
      else if n = IRQ_PI_RSW then bit (pi1 h) 1 else if n = IRQ_PI_VI then bit (pi1 h) 8
      else if n = IRQ_PI_PETOKEN then bit (pi1 h) 9 else if n = IRQ_PI_PEFINISH then bit (pi1 h) 10
      else if n = IRQ_PI_HSP then bit (pi1 h) 13 else if n = IRQ_PI_SI then bit (pi1 h) 3
      else if n = IRQ_PI_DI then bit (pi1 h) 2 else if n = IRQ_PI_CP then bit (pi1 h) 11
      else if n = IRQ_PI_ACR then bit (pi1 h) 14
      else if n = IRQ_DSP_ARAM then bit (dsp5 h) 6 else if n = IRQ_DSP_DSP then bit (dsp5 h) 8
      else if n = IRQ_DSP_AI then bit (dsp5 h) 4 else if n = IRQ_AI then bit (ai0 h) 2
      else if n = IRQ_EXI0_EXI then bit (exi0 h) 0 else if n = IRQ_EXI0_TC then bit (exi0 h) 2
      else if n = IRQ_EXI0_EXT then bit (exi0 h) 10
      else if n = IRQ_EXI1_EXI then bit (exi5 h) 0 else if n = IRQ_EXI1_TC then bit (exi5 h) 2
      else if n = IRQ_EXI1_EXT then bit (exi5 h) 10
      else if n = IRQ_EXI2_EXI then bit (exi10 h) 0 else if n = IRQ_EXI2_TC then bit (exi10 h) 2
      else False)"

declare irq_enabled.simps [simp del]

definition irq_sources :: "bool \<Rightarrow> nat list" where
  "irq_sources wii = [IRQ_PI_ERROR, IRQ_PI_DEBUG] @ [IRQ_PI_RSW..<IRQ_MAX wii]"

lemma enc_mod:
  fixes m :: u32
  shows "bit (KIrqEncodePi wii m) 0 = bit m 31" "bit (KIrqEncodePi wii m) 12 = bit m 30"
    "bit (KIrqEncodePi wii m) 1 = bit m 24" "bit (KIrqEncodePi wii m) 8 = bit m 23"
    "bit (KIrqEncodePi wii m) 9 = bit m 22" "bit (KIrqEncodePi wii m) 10 = bit m 21"
    "bit (KIrqEncodePi wii m) 13 = bit m 20" "bit (KIrqEncodePi wii m) 3 = bit m 8"
    "bit (KIrqEncodePi wii m) 2 = bit m 7" "bit (KIrqEncodePi wii m) 11 = bit m 5"
    "bit (KIrqEncodePi wii m) 14 = (wii \<and> bit m 4)"
    "bit (KIrqEncodeDsp m) 6 = bit m 19" "bit (KIrqEncodeDsp m) 8 = bit m 18" "bit (KIrqEncodeDsp m) 4 = bit m 6"
    "bit (KIrqEncodeAi m) 2 = bit m 17"
    "bit (KIrqEncodeExi m) 0 = bit m 16" "bit (KIrqEncodeExi m) 2 = bit m 15" "bit (KIrqEncodeExi m) 10 = bit m 14"
  by (auto simp: KIrqEncodePi_def KIrqEncodeDsp_def KIrqEncodeAi_def KIrqEncodeExi_def bit_or_iff bit_enc1)

lemma and_groups:
  fixes m :: u32
  shows "m AND IM_DSP \<noteq> 0 \<longleftrightarrow> bit m 6 \<or> bit m 19 \<or> bit m 18" "m AND PPCBIT IRQ_AI \<noteq> 0 \<longleftrightarrow> bit m 17"
    "m AND IM_EXI0 \<noteq> 0 \<longleftrightarrow> bit m 16 \<or> bit m 15 \<or> bit m 14"
    "m AND IM_EXI1 \<noteq> 0 \<longleftrightarrow> bit m 13 \<or> bit m 12 \<or> bit m 11"
    "m AND IM_EXI2 \<noteq> 0 \<longleftrightarrow> bit m 10 \<or> bit m 9"
    "m AND IM_PI wii \<noteq> 0 \<longleftrightarrow> bit m 5 \<or> bit m 22 \<or> bit m 21 \<or> bit m 8 \<or> bit m 7 \<or> bit m 24 \<or>
       bit m 31 \<or> bit m 23 \<or> bit m 30 \<or> bit m 20 \<or> wii \<and> bit m 4"
  by (simp_all only: IM_DSP_def IM_EXI0_def IM_EXI1_def IM_EXI2_def IM_PI_def) (auto simp: and_im_of and_PPCBIT)

text \<open>One register: its group's condition is met whenever a bit of the group is in just one mask.\<close>

lemma upd_generic:
  assumes "k < 32" "b < 32" "\<not> bit ack k" "\<And>m. bit (E m) k = bit m b" "\<And>m. \<not> m AND G \<noteq> 0 \<Longrightarrow> \<not> bit m b"
  shows "bit (if (clr XOR st) AND G \<noteq> 0
      then upd_reg ack (E (clr AND (clr XOR st))) (E (st AND (clr XOR st))) r else r) k \<longleftrightarrow>
    (if bit clr b = bit st b then bit r k else bit st b)"
proof (cases "(clr XOR st) AND G \<noteq> 0")
  case True
  then show ?thesis using assms(1,3) by (auto simp: bit_upd_reg assms(4) bit_and_iff bit_xor_iff)
next
  case False
  then have "bit clr b = bit st b" using assms(5) [OF False] by (simp add: bit_xor_iff)
  then show ?thesis using False by simp
qed

lemma pi_bit:
  assumes "(k, b) \<in> {(0, 31), (12, 30), (1, 24), (8, 23), (9, 22), (10, 21), (13, 20), (3, 8), (2, 7), (11, 5)} \<or>
    (k, b) = (14, 4) \<and> wii"
  shows "bit (pi1 (KIrqModify_hw wii clr st h)) k \<longleftrightarrow> (if bit clr b = bit st b then bit (pi1 h) k else bit st b)"
proof -
  have "k < 32" "b < 32" using assms by auto
  moreover have "bit (KIrqEncodePi wii m) k = bit m b" for m
    using assms by (auto simp: enc_mod enc_mod(3) [unfolded One_nat_def])
  moreover have "\<not> bit m b" if "\<not> m AND IM_PI wii \<noteq> 0" for m using that assms unfolding and_groups by auto
  ultimately show ?thesis
    using upd_generic [of k b 0 "KIrqEncodePi wii" "IM_PI wii" clr st "pi1 h"] by (simp add: KIrqModify_hw_def Let_def)
qed

lemma bit_ucast16: "k < 16 \<Longrightarrow> bit (ucast (x :: u32) :: u16) k = bit x k"
  by (simp add: bit_simps)

lemma bit_ucast32: "bit (ucast (x :: u16) :: u32) k = bit x k"
  by (auto simp: bit_simps dest: bit_imp_le_length)

lemma dsp_bit:
  assumes "(k, b) \<in> {(6, 19), (8, 18), (4, 6)}"
  shows "bit (dsp5 (KIrqModify_hw wii clr st h)) k \<longleftrightarrow> (if bit clr b = bit st b then bit (dsp5 h) k else bit st b)"
proof -
  have "k < 32" "k < 16" "b < 32" using assms by auto
  moreover have "\<not> bit (0xa8 :: u32) k" using assms by auto
  moreover have "bit (KIrqEncodeDsp m) k = bit m b" for m using assms by (auto simp: enc_mod)
  moreover have "\<not> bit m b" if "\<not> m AND IM_DSP \<noteq> 0" for m using that assms unfolding and_groups by auto
  ultimately show ?thesis
    using upd_generic [of k b "0xa8" KIrqEncodeDsp IM_DSP clr st "ucast (dsp5 h)"]
    by (simp add: KIrqModify_hw_def Let_def bit_ucast16 bit_ucast32 split: if_splits)
qed

lemma ai_bit:
  "bit (ai0 (KIrqModify_hw wii clr st h)) 2 \<longleftrightarrow> (if bit clr 17 = bit st 17 then bit (ai0 h) 2 else bit st 17)"
  using upd_generic [of 2 17 8 KIrqEncodeAi "PPCBIT IRQ_AI" clr st "ai0 h"]
  by (simp add: KIrqModify_hw_def Let_def enc_mod and_groups [simplified])

lemma exi0_bit:
  assumes "(k, b) \<in> {(0, 16), (2, 15), (10, 14)}"
  shows "bit (exi0 (KIrqModify_hw wii clr st h)) k \<longleftrightarrow> (if bit clr b = bit st b then bit (exi0 h) k else bit st b)"
proof -
  have "k < 32" "b < 32" using assms by auto
  moreover have "\<not> bit (0x280a :: u32) k" using assms by auto
  moreover have "bit (KIrqEncodeExi m) k = bit m b" for m using assms by (auto simp: enc_mod)
  moreover have "\<not> bit m b" if "\<not> m AND IM_EXI0 \<noteq> 0" for m using that assms unfolding and_groups by auto
  ultimately show ?thesis
    using upd_generic [of k b "0x280a" KIrqEncodeExi IM_EXI0 clr st "exi0 h"] by (simp add: KIrqModify_hw_def Let_def)
qed

lemma exi1_bit:
  assumes "(k, b) \<in> {(0, 13), (2, 12), (10, 11)}"
  shows "bit (exi5 (KIrqModify_hw wii clr st h)) k \<longleftrightarrow> (if bit clr b = bit st b then bit (exi5 h) k else bit st b)"
proof -
  have "k < 32" "b < 32" using assms by auto
  moreover have "\<not> bit (0x80a :: u32) k" using assms by auto
  moreover have "bit (KIrqEncodeExi (push_bit 3 m)) k = bit m b" for m using assms by (auto simp: enc_mod bit_simps)
  moreover have "\<not> bit m b" if "\<not> m AND IM_EXI1 \<noteq> 0" for m using that assms unfolding and_groups by auto
  ultimately show ?thesis
    using upd_generic [of k b "0x80a" "\<lambda>m. KIrqEncodeExi (push_bit 3 m)" IM_EXI1 clr st "exi5 h"]
    by (simp add: KIrqModify_hw_def Let_def)
qed

lemma exi2_bit:
  assumes "(k, b) \<in> {(0, 10), (2, 9)}"
  shows "bit (exi10 (KIrqModify_hw wii clr st h)) k \<longleftrightarrow> (if bit clr b = bit st b then bit (exi10 h) k else bit st b)"
proof -
  have "k < 32" "b < 32" using assms by auto
  moreover have "\<not> bit (0xa :: u32) k" using assms by auto
  moreover have "bit (KIrqEncodeExi (push_bit 6 m AND NOT (PPCBIT 17))) k = bit m b" for m
    using assms by (auto simp: enc_mod bit_and_iff bit_not_iff bit_PPCBIT bit_push_bit_iff)
  moreover have "\<not> bit m b" if "\<not> m AND IM_EXI2 \<noteq> 0" for m using that assms unfolding and_groups by auto
  ultimately show ?thesis
    using upd_generic [of k b "0xa" "\<lambda>m. KIrqEncodeExi (push_bit 6 m AND NOT (PPCBIT 17))" IM_EXI2 clr st "exi10 h"]
    by (simp add: KIrqModify_hw_def Let_def)
qed

lemma irq_sources_cases:
  assumes "src \<in> set (irq_sources wii)"
  shows "src = 0 \<or> src = 1 \<or> src = 7 \<or> src = 8 \<or> src = 9 \<or> src = 10 \<or> src = 11 \<or> src = 12 \<or> src = 13 \<or> src = 14 \<or> src = 15 \<or>
    src = 16 \<or> src = 17 \<or> src = 18 \<or> src = 19 \<or> src = 20 \<or> src = 21 \<or> src = 22 \<or> src = 23 \<or> src = 24 \<or> src = 25 \<or>
    src = 26 \<or> src = 27 \<and> wii"
proof -
  have "src = 0 \<or> src = 1 \<or> 7 \<le> src \<and> src < 27 \<or> src = 27 \<and> wii"
    using assms by (auto simp: irq_sources_def IRQ_MAX_def split: if_splits)
  moreover have "src = 7 \<or> src = 8 \<or> src = 9 \<or> src = 10 \<or> src = 11 \<or> src = 12 \<or> src = 13 \<or> src = 14 \<or> src = 15 \<or> src = 16 \<or>
    src = 17 \<or> src = 18 \<or> src = 19 \<or> src = 20 \<or> src = 21 \<or> src = 22 \<or> src = 23 \<or> src = 24 \<or> src = 25 \<or> src = 26"
    if "7 \<le> src" "src < 27"
    using that by presburger
  ultimately show ?thesis by blast
qed

text \<open>A source changes exactly when its bit is in one of the two masks, and to what that mask says.\<close>

lemma KIrqModify_enabled:
  assumes "n \<in> set (irq_sources wii)"
  shows "irq_enabled (KIrqModify_hw wii clr st h) n \<longleftrightarrow>
    (if bit clr (31 - n) = bit st (31 - n) then irq_enabled h n else bit st (31 - n))"
  using irq_sources_cases [OF assms]
  by (elim disjE) (simp_all add: irq_enabled.simps pi_bit dsp_bit ai_bit exi0_bit exi1_bit exi2_bit)

lemma KIrqEnable_enabled:
  assumes "n \<in> set (irq_sources wii)"
  shows "irq_enabled (hw (KIrqEnable wii m s)) n \<longleftrightarrow> irq_enabled (hw s) n \<or> bit m (31 - n)"
  using KIrqModify_enabled [OF assms, of 0 m]
  by (simp add: KIrqEnable_def KIrqModify_def case_prod_beta)

lemma KIrqDisable_enabled:
  assumes "n \<in> set (irq_sources wii)"
  shows "irq_enabled (hw (KIrqDisable wii m s)) n \<longleftrightarrow> irq_enabled (hw s) n \<and> \<not> bit m (31 - n)"
  using KIrqModify_enabled [OF assms, of m 0]
  by (simp add: KIrqDisable_def KIrqModify_def case_prod_beta)

section \<open>The reported cause\<close>

lemma ffs_mem:
  assumes "(x :: u32) AND 0x1f \<noteq> 0"
  shows "1 \<le> ffs (x AND 0x1f) \<and> ffs (x AND 0x1f) \<le> 5"
proof -
  have m: "(0x1f :: u32) = mask 5" by (simp add: mask_eq_exp_minus_1)
  obtain k where k: "bit (x AND 0x1f) k" "k < 32"
    using assms and_zero [of x "0x1f"] by (auto simp: bit_and_iff)
  show ?thesis
  proof (cases "find (\<lambda>i. bit (x AND 0x1f) i) [0..<32]")
    case None
    then show ?thesis using k by (auto simp: find_None_iff simp del: upt_rec_numeral)
  next
    case (Some i)
    then have "bit (x AND mask 5) i" unfolding m [symmetric] find_Some_iff by blast
    then have "i < 5" by (simp add: bit_simps)
    then show ?thesis using Some unfolding ffs_def by simp
  qed
qed

lemma exi_cause:
  "KIrqDecodeExiCause x = -1 \<or> (KIrqDecodeExiCause x = 15 \<and> bit x 0) \<or> (KIrqDecodeExiCause x = 16 \<and> bit x 2) \<or>
   (KIrqDecodeExiCause x = 17 \<and> bit x 10 \<and> bit x 11)"
proof -
  define y where "y = x AND push_bit 1 x"
  have y: "bit y n \<Longrightarrow> bit x (n - 1) \<and> bit x n" for n
    unfolding y_def bit_and_iff bit_push_bit_iff by simp
  from y [of 1] y [of 3] y [of 11] show ?thesis
    unfolding KIrqDecodeExiCause_def y_def [symmetric] by (simp add: Let_def tst_bit)
qed

text \<open>
  A reported cause is an interrupt number, and apart from the memory interrupts its enable bit is set.
\<close>

definition cause_ok :: "bool \<Rightarrow> irqhw \<Rightarrow> int \<Rightarrow> bool" where
  "cause_ok wii h c \<longleftrightarrow> c = -1 \<or> (2 \<le> c \<and> c \<le> 6) \<or>
     (0 \<le> c \<and> nat c \<in> set (irq_sources wii) \<and> irq_enabled h (nat c))"

lemma cause_if: "(b \<Longrightarrow> P x) \<Longrightarrow> (\<not> b \<Longrightarrow> P y) \<Longrightarrow> P (if b then x else y)"
  by simp

lemma cause_okI: "n \<in> set (irq_sources wii) \<Longrightarrow> irq_enabled h n \<Longrightarrow> cause_ok wii h (int n)"
  by (simp add: cause_ok_def)

lemma source_range: "n \<in> set (irq_sources wii) \<longleftrightarrow> n = 0 \<or> n = 1 \<or> 7 \<le> n \<and> (n < 27 \<or> n = 27 \<and> wii)"
  by (auto simp: irq_sources_def IRQ_MAX_def split: if_splits)

lemma dsp_cause:
  "bit ((ucast (d :: u16) :: u32) AND drop_bit 1 (ucast d)) n \<longleftrightarrow> bit d n \<and> bit d (Suc n)"
  unfolding bit_and_iff bit_drop_bit_eq o_def bit_ucast32 by simp

lemma ai_cause: "bit (x AND push_bit 1 x) n \<Longrightarrow> bit (x :: u32) (n - 1)"
  unfolding bit_and_iff bit_push_bit_iff by simp

lemmas cause_bits = source_range irq_enabled.simps tst_bit bit_and_iff

lemma KIrqGetCause_ok: "cause_ok wii h (KIrqGetCause wii h)"
proof -
  let ?c = "cause_ok wii h"
  have pi: "?c (int n)" if "tst (pi0 h AND pi1 h) k" "(n, k) \<in> {(0, 0), (1, 12), (7, 1), (8, 8), (9, 9), (10, 10), (11, 13),
      (23, 3), (24, 2), (26, 11)} \<or> wii \<and> (n, k) = (27, 14)" for n k
    by (rule cause_okI) (use that in \<open>auto simp: cause_bits\<close>)
  have mem: "?c (ffs (ucast (mi14 h AND mi15 h) AND 0x1f) - 1 + int 2)" if "ucast (mi14 h AND mi15 h) AND (0x1f :: u32) \<noteq> 0"
    using ffs_mem [OF that] by (simp add: cause_ok_def)
  have dsp: "?c (int n)" if "tst (ucast (dsp5 h) AND drop_bit 1 (ucast (dsp5 h))) k" "(n, k) \<in> {(12, 5), (13, 7), (25, 3)}" for n k
    by (rule cause_okI) (use that in \<open>auto simp: source_range irq_enabled.simps tst_bit dsp_cause [unfolded One_nat_def]\<close>)
  have ai: "?c (int 14)" if "tst (ai0 h AND push_bit 1 (ai0 h)) 3"
    by (rule cause_okI) (use that ai_cause [of "ai0 h" 3] in \<open>auto simp: source_range irq_enabled.simps tst_bit\<close>)
  have e0: "?c (KIrqDecodeExiCause (exi0 h))" if "0 \<le> KIrqDecodeExiCause (exi0 h)"
    using exi_cause [of "exi0 h"] that by (auto simp: cause_ok_def source_range irq_enabled.simps)
  have e1: "?c (KIrqDecodeExiCause (exi5 h) + int 18 - int 15)" if "0 \<le> KIrqDecodeExiCause (exi5 h)"
    using exi_cause [of "exi5 h"] that by (auto simp: cause_ok_def source_range irq_enabled.simps)
  have e2: "?c (KIrqDecodeExiCause (exi10 h AND NOT (push_bit 11 1)) + int 21 - int 15)"
    if "0 \<le> KIrqDecodeExiCause (exi10 h AND NOT (push_bit 11 1))"
    using exi_cause [of "exi10 h AND NOT (push_bit 11 1)"] that
    by (auto simp: cause_ok_def source_range irq_enabled.simps bit_and_iff bit_not_iff bit_pow2)
  have none: "?c (-1)" by (simp add: cause_ok_def)
  show ?thesis
    unfolding KIrqGetCause_def Let_def
    by (intro cause_if [where P = ?c]; (elim conjE)?;
        ((rule mem ai e0 e1 e2 none; assumption) | (rule none) | (erule pi, (simp; fail)) | (erule dsp, (simp; fail))))
qed

section \<open>The handler table\<close>

lemma KIrqSet_Get:
  "KIrqSet irq fn user s = (old, s') \<Longrightarrow> old = KIrqGet irq s \<and> KIrqGet i s' = (if i = irq then fn else KIrqGet i s)"
  by (auto simp: KIrqSet_def KIrqGet_def case_prod_beta)

text \<open>
  The memory interrupts: the masks number interrupts from the most significant bit, and the encoding
  shifts as if they were numbered from the least significant one, so no memory interrupt is ever
  switched.
\<close>

lemma KIrqEncodeMem_zero: "KIrqEncodeMem (m AND IM_MEM) = 0"
proof -
  have "\<not> bit (m AND IM_MEM) n" if "n < 25" for n
  proof -
    have "bit IM_MEM n \<Longrightarrow> n \<in> {29, 28, 27, 26, 25}"
      by (auto simp: IM_MEM_def im_of_def bit_or_iff bit_PPCBIT)
    then show ?thesis using that by (auto simp: bit_and_iff)
  qed
  then have A: "n < 5 \<Longrightarrow> \<not> bit (m AND IM_MEM) (2 + n)" for n by simp
  have B: "bit (0x1f :: u32) n \<Longrightarrow> n < 5" for n
    using bit_mask_iff [of 5 n, where 'a = u32] by (simp add: mask_eq_exp_minus_1)
  have "\<not> (bit (m AND IM_MEM) (2 + n) \<and> bit (0x1f :: u32) n)" for n
    using A [OF B] by blast
  then show ?thesis
    unfolding KIrqEncodeMem_def by (intro bit_eqI) (simp only: bit_and_iff bit_drop_bit_eq o_def bit_0_eq; blast)
qed

text \<open>
  What a mask does to the register of the memory interrupts: bit \<open>j\<close> follows bit \<open>j + 2\<close> of the mask, that of source
  \<open>29 - j\<close>, when the mask has a memory interrupt at all. A mask of memory interrupts alone changes nothing.
\<close>

lemma mem_bit: "j < 5 \<Longrightarrow> bit (KIrqEncodeMem m) j \<longleftrightarrow> bit m (j + 2)"
proof -
  assume j: "j < 5"
  have "(0x1f :: u32) = mask 5" by (simp add: mask_numeral)
  then have "bit (0x1f :: u32) j" using j by (simp only: bit_mask_iff) (simp add: possible_bit_def)
  then show ?thesis by (simp add: KIrqEncodeMem_def bit_and_iff bit_drop_bit_eq add.commute)
qed

lemma KIrqModify_mem:
  assumes "j < 5"
  shows "bit (mi14 (KIrqModify_hw wii c e h)) j \<longleftrightarrow>
    (if (c XOR e) AND IM_MEM = 0 then bit (mi14 h) j
     else bit (mi14 h) j \<and> \<not> (bit c (j + 2) \<and> \<not> bit e (j + 2)) \<or> bit e (j + 2) \<and> \<not> bit c (j + 2))"
  using assms mem_bit [OF assms]
  by (auto simp: KIrqModify_hw_def Let_def upd_reg_def bit_ucast_iff bit_and_iff bit_or_iff bit_not_iff bit_xor_iff possible_bit_def)

lemma KIrqEnable_mem:
  assumes "j < 5"
  shows "bit (mi14 (hw (KIrqEnable wii m s))) j \<longleftrightarrow> bit (mi14 (hw s)) j \<or> m AND IM_MEM \<noteq> 0 \<and> bit m (j + 2)"
    "bit (mi14 (hw (KIrqDisable wii m s))) j \<longleftrightarrow> bit (mi14 (hw s)) j \<and> \<not> (m AND IM_MEM \<noteq> 0 \<and> bit m (j + 2))"
  using KIrqModify_mem [OF assms, of wii 0 m "hw s"] KIrqModify_mem [OF assms, of wii m 0 "hw s"]
  by (auto simp: KIrqEnable_def KIrqDisable_def KIrqModify_def case_prod_beta)

lemma KIrqEnable_mem_only:
  "mi14 (hw (KIrqEnable wii (m AND IM_MEM) s)) = mi14 (hw s)" "mi14 (hw (KIrqDisable wii (m AND IM_MEM) s)) = mi14 (hw s)"
proof -
  have z: "KIrqEncodeMem (m AND IM_MEM) = 0" "KIrqEncodeMem 0 = 0" by (rule KIrqEncodeMem_zero) (simp add: KIrqEncodeMem_def)
  have u: "(ucast (ucast r :: u32) :: u16) = r" for r :: u16 by (rule bit_word_eqI) (simp add: bit_ucast_iff)
  show "mi14 (hw (KIrqEnable wii (m AND IM_MEM) s)) = mi14 (hw s)" "mi14 (hw (KIrqDisable wii (m AND IM_MEM) s)) = mi14 (hw s)"
    using z u by (simp_all add: KIrqEnable_def KIrqDisable_def KIrqModify_def KIrqModify_hw_def upd_reg_def case_prod_beta Let_def)
qed
end
