(* ===== verification/SysProps.thy ===== *)
theory SysProps
  imports KProps LwpcInv KIrq
begin

text \<open>
  The correctness properties of the tick tasks, the mailboxes, the compatibility layer and the
  interrupt controller, each applied to a concrete state.
\<close>

section \<open>Tick tasks\<close>

text \<open>\<open>ticking\<close> has one armed one-shot task, at \<open>0x500\<close>, due at tick 5.\<close>

definition ticking :: "u64 \<Rightarrow> kstate" where
  "ticking now = zero_state\<lparr>tasks := (\<lambda>_. zero_task)(0x500 :=
     \<lparr>k_next = NULL, k_fn = Fn_KThreadSleepWakeup, k_target = 5, k_period = 0\<rparr>),
     s_firstTask := 0x500, timebase := now\<rparr>"

lemma ticking_repr: "tick_repr 0 (ticking now) [0x500]" "tick_list (ticking now) [0x500]"
  by (simp_all add: tick_repr_def tick_list_def tick_fits_def tick_off_def ticking_def knext_def ktarget_def)

lemma ticking_armed [simp]:
  "kfn (ticking now) 0x500 = Fn_KThreadSleepWakeup" "timebase (ticking now) = now" "s_firstTask (ticking now) = 0x500"
  "ktarget (ticking now) 0x500 = 5" "k_period (tasks (ticking now) 0x500) = 0"
  by (simp_all add: ticking_def kfn_def ktarget_def)

text \<open>
  C13. Starting a task arms it at the current time plus the delay, moving it if it was already armed;
  the list of armed tasks stays sorted by deadline across a wrap of the 64-bit counter (all deadlines
  within half its range), no other task moves, and the decrementer is reprogrammed whenever the
  first task changes.
\<close>

theorem tick_start_sorted:
  assumes "tick_repr base s L" "t \<noteq> NULL" "\<forall>u\<in>set L. kfn s u \<noteq> Fn_null"
    and "uint (timebase s + delay_ticks - base) < 2 ^ 63"
  shows "\<exists>s' L'. KTickTaskStart t fn delay_ticks period_ticks s = Some s' \<and> tick_repr base s' L' \<and>
    mset L' = add_mset t (mset (remove1 t L)) \<and> remove1 t L' = remove1 t L \<and>
    ktarget s' = (ktarget s)(t := timebase s + delay_ticks) \<and> kfn s' = (kfn s)(t := fn) \<and>
    (s_firstTask s' \<noteq> s_firstTask s \<longrightarrow> dec_ok s')"
  using KTickTaskStart_run [OF assms, of fn period_ticks] by (auto split: if_splits)

theorem tick_start_sorted_witness:
  "\<exists>s' L'. KTickTaskStart 0x600 Fn_KCondVarTimeoutFn 3 0 (ticking 1) = Some s' \<and> tick_repr 0 s' L' \<and>
    mset L' = add_mset 0x600 (mset [0x500]) \<and> remove1 0x600 L' = [0x500] \<and>
    ktarget s' = (ktarget (ticking 1))(0x600 := 4) \<and> kfn s' = (kfn (ticking 1))(0x600 := Fn_KCondVarTimeoutFn) \<and>
    (s_firstTask s' \<noteq> 0x500 \<longrightarrow> dec_ok s')"
  using tick_start_sorted [OF ticking_repr(1), of "0x600" 1 3 Fn_KCondVarTimeoutFn 0] by simp

text \<open>
  Stopping a task, armed or not, leaves the other tasks armed in order and the task disarmed, and
  the decrementer stays programmed for the first remaining deadline.
\<close>

theorem tick_stop_disarms:
  assumes "tick_repr base s L" "t \<noteq> NULL" "\<forall>u\<in>set L. kfn s u \<noteq> Fn_null"
  shows "\<exists>s'. KTickTaskStop t s = Some s' \<and> tick_repr base s' (remove1 t L) \<and>
    kfn s' = (kfn s)(t := Fn_null) \<and> ktarget s' = ktarget s \<and> (dec_ok s \<longrightarrow> dec_ok s')"
  using KTickTaskStop_run [OF assms] by blast

theorem tick_stop_disarms_witness:
  "\<exists>s'. KTickTaskStop 0x500 (ticking 1) = Some s' \<and> tick_repr 0 s' [] \<and>
    kfn s' = (kfn (ticking 1))(0x500 := Fn_null) \<and> ktarget s' = ktarget (ticking 1) \<and> (dec_ok (ticking 1) \<longrightarrow> dec_ok s')"
  using tick_stop_disarms [OF ticking_repr(1), of "0x500" 1] by simp

text \<open>
  C15. The decrementer handler ends and runs exactly the one-shot tasks that are due: their functions are called once each, in
  the order of the list, each with its task, which is off the list and disarmed by then (\<open>serve_all\<close>); the tasks that are not
  due stay armed in order, and the decrementer is programmed for the next deadline. The functions return and leave the time base and the
  armed tasks as they are; all tasks are one-shot.
\<close>

theorem tick_run_due:
  assumes "tick_list s L" "tick_quiet call" "\<forall>t\<in>set L. k_period (tasks s t) = 0"
  shows "\<exists>s1 s'. serve_all call (takeWhile (tick_due s) L) s = Some s1 \<and> s' = KTickTaskReschedule s1 \<and>
    KTickTaskRun call s = Some s' \<and> tick_list s' (dropWhile (tick_due s) L) \<and>
    (\<forall>t\<in>set (takeWhile (tick_due s) L). kfn s' t = Fn_null) \<and>
    (\<forall>t. t \<notin> set (takeWhile (tick_due s) L) \<longrightarrow> kfn s' t = kfn s t) \<and> dec_ok s'"
proof -
  obtain s1 where s1: "KTickTaskRunLoop call s = Some s1" "serve_all call (takeWhile (tick_due s) L) s = Some s1"
      "tick_list s1 (dropWhile (tick_due s) L)" "\<forall>t\<in>set (takeWhile (tick_due s) L). kfn s1 t = Fn_null"
      "\<forall>t. t \<notin> set (takeWhile (tick_due s) L) \<longrightarrow> kfn s1 t = kfn s t"
    using KTickTaskRunLoop_oneshot [OF assms] by blast
  have t: "tasks (KTickTaskReschedule s1) = tasks s1" by simp
  show ?thesis using s1 task_acc_tasks [OF t] by (intro exI [of _ s1] exI [of _ "KTickTaskReschedule s1"])
    (simp add: KTickTaskRun_def tick_list_def)
qed

text \<open>A function that counts its calls in the word at the address of the task.\<close>

definition count_call :: "tick_fn \<Rightarrow> ptr \<Rightarrow> kstate \<Rightarrow> kstate option" where
  "count_call f t s = Some (s\<lparr>stack_mem := (stack_mem s)(t := stack_mem s t + 1)\<rparr>)"

theorem tick_run_due_witness:
  "\<exists>s'. KTickTaskRun count_call (ticking 9) = Some s' \<and> stack_mem s' 0x500 = 1 \<and> tick_list s' [] \<and>
    (\<forall>t\<in>set [0x500]. kfn s' t = Fn_null) \<and>
    (\<forall>t. t \<notin> set [0x500] \<longrightarrow> kfn s' t = kfn (ticking 9) t) \<and> dec_ok s'"
proof -
  have due: "tick_due (ticking 9) 0x500" by (simp add: tick_due_def KTickIsSequential_def)
  have "tick_quiet count_call" by (simp add: tick_quiet_def count_call_def)
  moreover have "stack_mem (KTickTaskReschedule s) = stack_mem s" for s by (simp add: KTickTaskReschedule_def Let_def)
  moreover have "stack_mem (disarm 0x500 (ticking 9)) 0x500 = 0" by (simp add: disarm_def upd_task_def ticking_def zero_state_def)
  ultimately show ?thesis using tick_run_due [OF ticking_repr(2), of count_call 9] due by (auto simp: count_call_def)
qed

section \<open>Mailboxes\<close>

definition box2 :: KMailbox where "box2 = KMailboxPrepare [0, 0] 2"

lemma box2_ok: "mb_wf box2" "mb_contents box2 = []" "num_slots box2 = 2" "pending_slots box2 = 0"
  "recv_waiters box2 = 0"
  using mb_wf_prepare [of "[0, 0]" 2] by (simp_all add: box2_def) (simp_all add: KMailboxPrepare_def)

lemma KMailboxRecv_returns:
  assumes "kernel_ok idle s" "\<not> PPCIsInExcpt s" "sprg2 s \<noteq> idle"
  shows "KMailboxRecv mb (s, M) \<noteq> None"
proof -
  let ?s1 = "snd (PPCIrqLockByMsr s)"
  have "kernel_ok idle ?s1" using assms(1) by (simp add: kernel_ok_def)
  from step_block [OF this, of S_mailboxRecvQueue mb] obtain s2 where "KThrQueueBlock (QStatic S_mailboxRecvQueue) mb ?s1 = Some s2"
    using assms(2,3) by (auto simp: goes_on_def)
  then show ?thesis by (simp add: KMailboxRecv_def split_beta Let_def split: option.splits)
qed

text \<open>
  C16. A mailbox is a bounded first-in first-out queue. Whatever messages are offered to it and whatever receivers poll,
  receive, fall asleep and take a message when they have been woken, in any order and with anything else the kernel does in between, each
  operation answers as a queue of the mailbox's number of slots (\<open>replay\<close>): a message is refused exactly when the queue is
  full and appended otherwise, a receiver gets the oldest message or, exactly when there is none, nothing (and sleeps). The ring
  buffer stays well formed. The calls return: sending whenever the kernel invariant holds (in a handler, while the interrupted
  thread is running), receiving whenever a thread other than the idle thread does it. A woken
  receiver is taken to find a message; \<open>mailbox_recv_underflow\<close> shows what happens otherwise.
\<close>

theorem mailbox_fifo:
  assumes "mb_run mb w es w'" "mb_wf (snd w mb)"
  shows "replay (unat (num_slots (snd w mb))) (mb_contents (snd w mb)) es = Some (mb_contents (snd w' mb)) \<and>
    mb_wf (snd w' mb) \<and> num_slots (snd w' mb) = num_slots (snd w mb) \<and>
    (\<forall>x L Q. ksched (fst w') L Q \<and> handler_ok (fst w') \<longrightarrow> KMailboxTrySend mb x w' \<noteq> None) \<and>
    (\<forall>idle. kernel_ok idle (fst w') \<and> \<not> PPCIsInExcpt (fst w') \<and> sprg2 (fst w') \<noteq> idle \<longrightarrow> KMailboxRecv mb w' \<noteq> None)"
proof -
  have ok: "mb_ok (unat (num_slots (snd w mb))) (mb_contents (snd w mb)) es (snd w' mb)" using mb_run_ok [OF assms] .
  then have wf: "mb_wf (snd w' mb)" by (simp add: mb_ok_def)
  obtain s M where w': "w' = (s, M)" by force
  have "KMailboxTrySend mb x w' \<noteq> None" if "ksched (fst w') L Q" "handler_ok (fst w')" for x L Q
    using KMailboxTrySend_full [of M mb x s] KMailboxTrySend_room [of s L Q M mb x, OF _ handler_self] that wf w' by fastforce
  moreover have "KMailboxRecv mb w' \<noteq> None" if "kernel_ok idle s" "\<not> PPCIsInExcpt s" "sprg2 s \<noteq> idle" for idle
    using KMailboxRecv_returns [of idle s] that w' by simp
  ultimately show ?thesis using ok w' by (auto simp: mb_ok_def intro: unat_eq16)
qed

text \<open>A mailbox of two slots: the third message is refused, and the first two come out in order.\<close>

theorem mailbox_fifo_witness:
  "\<exists>w'. mb_run 0xa00 (boot, \<lambda>_. box2) [Put 7 True, Put 8 True, Put 9 False, Got (Some 7), Got (Some 8), Got None] w' \<and>
    replay 2 [] [Put 7 True, Put 8 True, Put 9 False, Got (Some 7), Got (Some 8), Got None] = Some (mb_contents (snd w' 0xa00)) \<and>
    mb_wf (snd w' 0xa00) \<and> num_slots (snd w' 0xa00) = 2"
proof -
  let ?w = "(boot, \<lambda>_. box2)"
  obtain s1 where s1: "KMailboxTrySend 0xa00 7 ?w = Some (True, s1, (\<lambda>_. box2)(0xa00 := mb_put 7 box2))"
    using send_now [of "\<lambda>_. box2" "0xa00" 7] by (auto simp: mb_send_def box2_ok)
  let ?M2 = "(\<lambda>_ :: ptr. box2)(0xa00 := mb_put 8 (mb_put 7 box2))"
  obtain s2 where s2: "KMailboxTrySend 0xa00 8 (s1, (\<lambda>_. box2)(0xa00 := mb_put 7 box2)) = Some (True, s2, ?M2)"
    using send_now [of "(\<lambda>_. box2)(0xa00 := mb_put 7 box2)" "0xa00" 8]
    by (auto simp: mb_send_def mb_put_def box2_def KMailboxPrepare_def Let_def)
  obtain s3 where s3: "KMailboxTrySend 0xa00 9 (s2, ?M2) = Some (False, s3, ?M2)"
    using KMailboxTrySend_full [of ?M2 "0xa00" 9 s2] by (auto simp: mb_put_def box2_def KMailboxPrepare_def Let_def)
  have b: "mb_recv (mb_put 8 (mb_put 7 box2)) = Some (7, snd (mb_take (mb_put 8 (mb_put 7 box2))))"
    "mb_recv (snd (mb_take (mb_put 8 (mb_put 7 box2)))) = Some (8, snd (mb_take (snd (mb_take (mb_put 8 (mb_put 7 box2))))))"
    "mb_recv (snd (mb_take (snd (mb_take (mb_put 8 (mb_put 7 box2)))))) = None"
    by (simp_all add: mb_recv_def mb_take_def mb_put_def box2_def KMailboxPrepare_def Let_def word_le_nat_alt)
  obtain s4 where s4: "KMailboxTryRecv 0xa00 (s3, ?M2) = (Some 7, s4, ?M2(0xa00 := snd (mb_take (?M2 0xa00))))"
    using b(1) by (simp add: KMailboxTryRecv_def split_beta Let_def)
  let ?M4 = "?M2(0xa00 := snd (mb_take (?M2 0xa00)))"
  obtain s5 where s5: "KMailboxRecv 0xa00 (s4, ?M4) = Some (Some 8, s5, ?M4(0xa00 := snd (mb_take (?M4 0xa00))))"
    using b(2) by (simp add: KMailboxRecv_def split_beta Let_def)
  let ?M5 = "?M4(0xa00 := snd (mb_take (?M4 0xa00)))"
  obtain s6 where s6: "KMailboxTryRecv 0xa00 (s5, ?M5) = (None, s6, ?M5)"
    using b(3) by (simp add: KMailboxTryRecv_def split_beta Let_def)
  have r: "mb_run 0xa00 ?w [Put 7 True, Put 8 True, Put 9 False, Got (Some 7), Got (Some 8), Got None] (s6, ?M5)"
    using mb_run.poll [OF mb_run.recv [OF mb_run.poll [OF mb_run.send [OF mb_run.send [OF mb_run.send [OF mb_run.start s1] s2] s3] s4] s5] s6] by simp
  show ?thesis using mailbox_fifo [OF r] r by (intro exI [of _ "(s6, ?M5)"]) (simp add: box2_ok)
qed

text \<open>
  Posting to a mailbox with room appends the message and, when receivers wait, wakes the most
  urgent thread that waits on this mailbox; the kernel invariant holds again.
\<close>

theorem mailbox_send:
  assumes "ksched s L Q" "handler_ok s" "mb_wf (M mb)" "pending_slots (M mb) \<noteq> num_slots (M mb)"
  shows "\<exists>s' m' Q'. KMailboxTrySend mb x (s, M) = Some (True, s', M(mb := m')) \<and> ksched s' L Q' \<and>
    mb_wf m' \<and> mb_contents m' = mb_contents (M mb) @ [x] \<and>
    (if recv_waiters (M mb) = 0 then cframe s s' \<and> Q' = Q
     else recv_waiters m' = recv_waiters (M mb) - 1 \<and>
       (case find (\<lambda>u. tokenT s u = mb) (Q (QStatic S_mailboxRecvQueue)) of
          None \<Rightarrow> woken {} (\<lambda>_. 1) s s' | Some u \<Rightarrow> woken {u} (\<lambda>_. 1) s s'))"
  using KMailboxTrySend_room [where M = M and mb = mb, OF assms(1) handler_self [OF assms(1,2)] assms(3,4), of x]
  by (auto split: if_splits option.splits)

theorem mailbox_send_witness:
  "\<exists>s' m' Q'. KMailboxTrySend 0xa00 7 (boot, \<lambda>_. box2) = Some (True, s', (\<lambda>_. box2)(0xa00 := m')) \<and>
    ksched s' [0x100, 0x200] Q' \<and> mb_wf m' \<and> mb_contents m' = [7] \<and> cframe boot s' \<and> Q' = (\<lambda>_. [])"
  using mailbox_send [OF boot_ksched, of "\<lambda>_. box2" "0xa00" 7] by (simp add: box2_ok handler_ok_def)

text \<open>
  \<open>KMailboxRecv\<close> tests for a message once, before it sleeps. When the message that woke it has
  been taken by another receiver in the meantime, it consumes a stale slot and the number of pending
  messages wraps around to \<open>0xffff\<close>.
\<close>

theorem mailbox_recv_underflow:
  assumes "pending_slots (M mb) = 0"
  shows "pending_slots (snd (snd (KMailboxRecv_resume st mb (s, M))) mb) = 0xffff"
  by (rule KMailboxRecv_resume_empty [where M = M, OF assms])

theorem mailbox_recv_underflow_witness:
  "pending_slots (snd (snd (KMailboxRecv_resume 0 0xa00 (boot, \<lambda>_. box2))) 0xa00) = 0xffff"
  by (rule mailbox_recv_underflow [where M = "\<lambda>_. box2"]) (simp add: box2_ok)


section \<open>The compatibility layer\<close>

text \<open>\<open>lwp0\<close> has one semaphore, handle 1, with the given count.\<close>

definition lwp0 :: "u32 \<Rightarrow> lwpc" where
  "lwp0 v = \<lparr>ks = boot, queue_used = 0, sem_used = 1, sem_table = (\<lambda>_. 0)(0 := v), mutex_used = 0,
     mutex_recursive = 0, mutex_base = 0x800, rm_counter = (\<lambda>_. 0), cond_used = 0, mailboxes = (\<lambda>_. box2)\<rparr>"

lemma lwp0_ok: "v < 0x80000000 \<Longrightarrow> sem_ok (lwp0 v) (\<lambda>_. [])" "ks (lwp0 v) = boot" "sem_table (lwp0 v) 0 = v"
  by (auto simp: sem_ok_def sem_waiters_def lwp0_def sint_uint_if word_less_def)

lemma handle1: "valid_handle 1" "slot_of 1 = Some 0"
  by (simp_all add: valid_handle_def slot_of_def)

text \<open>
  C19. Waiting on a semaphore takes one unit: with a positive count the caller goes on, otherwise it
  sleeps as one of the waiters of this semaphore. A negative count is always the number of waiters of
  every semaphore.
\<close>

theorem sem_wait_counts:
  assumes "ksched (ks w) L Q" "\<not> PPCIsInExcpt (ks w)" "runnable (ks w) L u" "u \<noteq> sprg2 (ks w)"
    and "sem_ok w Q" "valid_handle h" "slot_of h = Some i" "sint (sem_table w i) \<noteq> - 2147483648"
  shows "\<exists>w' Q'. LWP_SemWait h w = Some (0, w') \<and> ksched (ks w') L Q' \<and> sem_ok w' Q' \<and>
    sint (sem_table w' i) = sint (sem_table w i) - 1 \<and>
    (if 0 < sint (sem_table w i) then stateT (ks w') = stateT (ks w) \<and> sprg2 (ks w') = sprg2 (ks w)
     else stateT (ks w') (sprg2 (ks w)) = KTHR_STATE_WAITING \<and> sprg2 (ks w) \<in> set (sem_waiters (ks w') Q' i))"
  by (rule LWP_SemWait_ok [OF assms(1) handler_self [OF assms(1) thread_mode [OF assms(2)]] assms(3-8)])

theorem sem_wait_counts_witness:
  "\<exists>w' Q'. LWP_SemWait 1 (lwp0 0) = Some (0, w') \<and> ksched (ks w') [0x100, 0x200] Q' \<and> sem_ok w' Q' \<and>
    sint (sem_table w' 0) = - 1 \<and> stateT (ks w') 0x100 = KTHR_STATE_WAITING \<and> 0x100 \<in> set (sem_waiters (ks w') Q' 0)"
  using sem_wait_counts [of "lwp0 0" "[0x100, 0x200]" "\<lambda>_. []" "0x200" 1 0] boot_ksched lwp0_ok [of 0] handle1 by simp

text \<open>
  Posting gives one unit back: with waiters it wakes the most urgent waiter of this semaphore and
  nobody else, without waiters it wakes nobody.
\<close>

theorem sem_post_wakes:
  assumes "ksched (ks w) L Q" "handler_ok (ks w)" "sem_ok w Q" "valid_handle h" "slot_of h = Some i"
    and "sint (sem_table w i) \<noteq> 2147483647"
  shows "\<exists>w' Q'. LWP_SemPost h w = Some (0, w') \<and> ksched (ks w') L Q' \<and> sem_ok w' Q' \<and>
    sint (sem_table w' i) = sint (sem_table w i) + 1 \<and>
    (case sem_waiters (ks w) Q i of [] \<Rightarrow> woken {} (\<lambda>_. 1) (ks w) (ks w')
     | u # us \<Rightarrow> woken {u} (\<lambda>_. 1) (ks w) (ks w') \<and> sem_waiters (ks w') Q' i = us)"
  by (rule LWP_SemPost_ok [OF assms(1) handler_self [OF assms(1,2)] assms(3-6)])

theorem sem_post_wakes_witness:
  "\<exists>w' Q'. LWP_SemPost 1 (lwp0 3) = Some (0, w') \<and> ksched (ks w') [0x100, 0x200] Q' \<and> sem_ok w' Q' \<and>
    sint (sem_table w' 0) = 4 \<and> woken {} (\<lambda>_. 1) boot (ks w')"
  using sem_post_wakes [of "lwp0 3" "[0x100, 0x200]" "\<lambda>_. []" 1 0] boot_ksched lwp0_ok [of 3] handle1
  by (simp add: handler_ok_def sem_waiters_def)

text \<open>
  C21. The 64-entry handle tables: as long as enough slots are free, any number of allocations returns
  different handles, none of them in use before, and marks exactly these as used.
\<close>

theorem slots_distinct:
  assumes "card (slots_used u) + n \<le> 64"
  shows "\<exists>is u'. slots.alloc_many n u = Some (is, u') \<and> length is = n \<and> distinct is \<and>
    set is \<inter> slots_used u = {} \<and> slots_used u' = slots_used u \<union> set is"
  by (rule slots.alloc_many_run [OF assms])

theorem slots_distinct_witness:
  "\<exists>is u'. slots.alloc_many 64 0 = Some (is, u') \<and> length is = 64 \<and> distinct is \<and>
    set is \<inter> slots_used 0 = {} \<and> slots_used u' = slots_used 0 \<union> set is"
  by (rule slots_distinct) (simp add: slots_used_def)

section \<open>Interrupts\<close>

definition quiet_hw :: irqhw where
  "quiet_hw = \<lparr>pi0 = 0, pi1 = 0xf0, mi14 = 0, mi15 = 0, dsp5 = 0, ai0 = 0, exi0 = 0, exi5 = 0, exi10 = 0\<rparr>"

definition irq0 :: irqstate where
  "irq0 = \<lparr>irq_ks = boot, hw = quiet_hw, s_irqCookies = (\<lambda>_. (0, 0))\<rparr>"

text \<open>
  C22. What enabling and disabling a mask does to every source. All sources but the five memory interrupts, whatever register they
  live in: those of the mask are switched, the others stay as they are. The memory interrupts are not switched by their own
  bits: a mask of memory interrupts alone changes none of them, and in a mixed mask memory interrupt \<open>j\<close> follows the bit of source \<open>29 - j\<close>
  (\<open>KIrqEncodeMem\<close> shifts the mask the wrong way).
\<close>

theorem irq_mask:
  assumes "n \<in> set (irq_sources wii)" "j < 5"
  shows "(irq_enabled (hw (KIrqEnable wii m s)) n \<longleftrightarrow> irq_enabled (hw s) n \<or> bit m (31 - n)) \<and>
    (irq_enabled (hw (KIrqDisable wii m s)) n \<longleftrightarrow> irq_enabled (hw s) n \<and> \<not> bit m (31 - n)) \<and>
    mi14 (hw (KIrqEnable wii (m AND IM_MEM) s)) = mi14 (hw s) \<and> mi14 (hw (KIrqDisable wii (m AND IM_MEM) s)) = mi14 (hw s) \<and>
    (bit (mi14 (hw (KIrqEnable wii m s))) j \<longleftrightarrow> bit (mi14 (hw s)) j \<or> m AND IM_MEM \<noteq> 0 \<and> bit m (j + 2)) \<and>
    (bit (mi14 (hw (KIrqDisable wii m s))) j \<longleftrightarrow> bit (mi14 (hw s)) j \<and> \<not> (m AND IM_MEM \<noteq> 0 \<and> bit m (j + 2)))"
  using KIrqEnable_enabled [OF assms(1)] KIrqDisable_enabled [OF assms(1)] KIrqEnable_mem [OF assms(2)] KIrqEnable_mem_only by simp

theorem irq_mask_witness:
  "irq_enabled (hw (KIrqEnable True (IRQMASK IRQ_PI_VI OR IRQMASK IRQ_MEM0) irq0)) IRQ_PI_VI \<and>
    \<not> irq_enabled (hw (KIrqDisable True (IRQMASK IRQ_PI_VI OR IRQMASK IRQ_MEM0) irq0)) IRQ_PI_VI \<and>
    \<not> bit (mi14 (hw (KIrqEnable True (IRQMASK IRQ_PI_VI OR IRQMASK IRQ_MEM0) irq0))) 0"
proof -
  let ?m = "IRQMASK IRQ_PI_VI OR IRQMASK IRQ_MEM0"
  have v: "IRQ_PI_VI \<in> set (irq_sources True)" by (simp add: irq_sources_def IRQ_MAX_def)
  have b: "bit ?m (31 - IRQ_PI_VI)" "\<not> bit ?m (0 + 2)" by (simp_all add: bit_or_iff bit_PPCBIT)
  then show ?thesis using irq_mask [OF v, of 0 ?m irq0] by (simp add: irq0_def quiet_hw_def)
qed

text \<open>
  The interrupt the dispatcher picks is none, a memory interrupt, or one whose source is enabled;
  so the handler table is indexed in range and a masked source is never dispatched.
\<close>

theorem irq_cause_enabled: "cause_ok wii h (KIrqGetCause wii h)"
  by (rule KIrqGetCause_ok)

text \<open>
  The masks of the memory interrupts never reach the memory interface: \<open>KIrqEncodeMem\<close> shifts
  the mask as if bit 0 were its least significant bit, so the register update is empty.
\<close>

theorem irq_mem_never: "KIrqEncodeMem (m AND IM_MEM) = 0"
  by (rule KIrqEncodeMem_zero)

end
