(* ===== verification/NodeQueue.thy ===== *)
theory NodeQueue
  imports Ogc_Prelude
begin

text \<open>
  The contract of an intrusive queue: nodes live in the memory \<open>'m\<close>, a queue \<open>'q\<close> holds a list of
  nodes, and a node can be linked when its storage is \<open>fresh\<close> for the queue.
\<close>

locale node_queue =
  fixes repr :: "'m \<Rightarrow> 'q \<Rightarrow> 'a list \<Rightarrow> bool"
    and fresh :: "'q \<Rightarrow> 'a list \<Rightarrow> 'a \<Rightarrow> bool"
    and append :: "'q \<Rightarrow> 'a \<Rightarrow> 'm \<Rightarrow> 'm"
    and get :: "'q \<Rightarrow> 'm \<Rightarrow> 'a option \<times> 'm"
  assumes append_repr: "repr m q xs \<Longrightarrow> fresh q xs n \<Longrightarrow> repr (append q n m) q (xs @ [n])"
    and get_empty: "repr m q [] \<Longrightarrow> get q m = (None, m)"
    and get_first: "repr m q (x # xs) \<Longrightarrow> \<exists>m'. get q m = (Some x, m') \<and> repr m' q xs"
begin

fun append_all :: "'q \<Rightarrow> 'a list \<Rightarrow> 'm \<Rightarrow> 'm" where
  "append_all q [] m = m"
| "append_all q (n # ns) m = append_all q ns (append q n m)"

fun get_all :: "'q \<Rightarrow> nat \<Rightarrow> 'm \<Rightarrow> 'a option list \<times> 'm" where
  "get_all q 0 m = ([], m)"
| "get_all q (Suc k) m = (let (r, m1) = get q m; (rs, m2) = get_all q k m1 in (r # rs, m2))"

lemma append_all_repr:
  "repr m q xs \<Longrightarrow> (\<And>ys n zs. ns = ys @ n # zs \<Longrightarrow> fresh q (xs @ ys) n) \<Longrightarrow>
   repr (append_all q ns m) q (xs @ ns)"
proof (induction ns arbitrary: m xs)
  case (Cons n ns)
  have "repr (append q n m) q (xs @ [n])" using append_repr Cons.prems(1) Cons.prems(2) [of "[]"] by simp
  from Cons.IH [OF this] show ?case using Cons.prems(2) [of "n # _"] by simp
qed simp

lemma get_all_repr: "repr m q xs \<Longrightarrow> fst (get_all q (length xs) m) = map Some xs \<and> repr (snd (get_all q (length xs) m)) q []"
proof (induction xs arbitrary: m)
  case (Cons x xs)
  obtain m' where m': "get q m = (Some x, m')" "repr m' q xs" using get_first [OF Cons.prems] by blast
  then show ?case using Cons.IH [OF m'(2)] by (simp add: case_prod_beta)
qed simp

text \<open>Nodes come out in the order they were appended.\<close>

lemma fifo_order:
  assumes "repr m q []" "\<And>ys n zs. ns = ys @ n # zs \<Longrightarrow> fresh q ys n"
  shows "fst (get_all q (length ns) (append_all q ns m)) = map Some ns"
  using append_all_repr [OF assms(1), of ns] assms(2) get_all_repr by simp

end

end
