(* ===== verification/LwpQueue.thy ===== *)
theory LwpQueue
  imports NodeQueue
begin

text \<open>
  The doubly linked node queues of \<^verbatim>\<open>libogc/lwp_queue.c\<close> and \<^verbatim>\<open>lwp_queue.inl\<close>, on a memory of words.
  A node at address \<open>n\<close> has \<open>next\<close> at \<open>n\<close> and \<open>prev\<close> at \<open>n + 4\<close>. A queue at \<open>q\<close> has \<open>first\<close>,
  \<open>perm_null\<close> and \<open>last\<close> at \<open>q\<close>, \<open>q + 4\<close> and \<open>q + 8\<close>, which overlay the two sentinels: the head node is
  \<open>q\<close> itself, the tail node is \<open>q + 4\<close>, and \<open>perm_null\<close> is both the head's \<open>prev\<close> and the tail's \<open>next\<close>.

  The functions of \<^verbatim>\<open>lwp_queue.c\<close> run the ones of \<^verbatim>\<open>lwp_queue.inl\<close> with interrupts off; a call is one
  step of the memory.
\<close>

type_synonym wmem = "u32 \<Rightarrow> u32"

section \<open>Operations\<close>

definition lwp_queue_head :: "u32 \<Rightarrow> u32" where "lwp_queue_head q = q"
definition lwp_queue_tail :: "u32 \<Rightarrow> u32" where "lwp_queue_tail q = q + 4"

definition lwp_queue_istail :: "u32 \<Rightarrow> u32 \<Rightarrow> bool" where "lwp_queue_istail q n \<longleftrightarrow> n = lwp_queue_tail q"
definition lwp_queue_ishead :: "u32 \<Rightarrow> u32 \<Rightarrow> bool" where "lwp_queue_ishead q n \<longleftrightarrow> n = lwp_queue_head q"

definition lwp_queue_firstnodeI :: "u32 \<Rightarrow> wmem \<Rightarrow> u32 \<times> wmem" where
  "lwp_queue_firstnodeI q m =
     (let ret = m q;
          new_first = m ret;
          m1 = m(q := new_first)
      in (ret, m1(new_first + 4 := lwp_queue_head q)))"

definition lwp_queue_init_empty :: "u32 \<Rightarrow> wmem \<Rightarrow> wmem" where
  "lwp_queue_init_empty q m = m(q := lwp_queue_tail q, q + 4 := 0, q + 8 := lwp_queue_head q)"

definition lwp_queue_isempty :: "u32 \<Rightarrow> wmem \<Rightarrow> bool" where
  "lwp_queue_isempty q m \<longleftrightarrow> m q = lwp_queue_tail q"

definition lwp_queue_onenode :: "u32 \<Rightarrow> wmem \<Rightarrow> bool" where
  "lwp_queue_onenode q m \<longleftrightarrow> m q = m (q + 8)"

definition lwp_queue_appendI :: "u32 \<Rightarrow> u32 \<Rightarrow> wmem \<Rightarrow> wmem" where
  "lwp_queue_appendI q n m =
     (let m1 = m(n := lwp_queue_tail q);
          old = m1 (q + 8)
      in m1(q + 8 := n, old := n, n + 4 := old))"

definition lwp_queue_extractI :: "u32 \<Rightarrow> wmem \<Rightarrow> wmem" where
  "lwp_queue_extractI n m = (let nxt = m n; prv = m (n + 4) in m(nxt + 4 := prv, prv := nxt))"

definition lwp_queue_insertI :: "u32 \<Rightarrow> u32 \<Rightarrow> wmem \<Rightarrow> wmem" where
  "lwp_queue_insertI after n m =
     (let m1 = m(n + 4 := after);
          before = m1 after
      in m1(after := n, n := before, before + 4 := n))"

definition lwp_queue_prependI :: "u32 \<Rightarrow> u32 \<Rightarrow> wmem \<Rightarrow> wmem" where
  "lwp_queue_prependI q n = lwp_queue_insertI (lwp_queue_head q) n"

text \<open>\<open>NULL\<close>, returned for an empty queue, is 0.\<close>

definition lwp_queue_getI :: "u32 \<Rightarrow> wmem \<Rightarrow> u32 \<times> wmem" where
  "lwp_queue_getI q m = (if \<not> lwp_queue_isempty q m then lwp_queue_firstnodeI q m else (0, m))"

fun init_loop :: "nat \<Rightarrow> u32 \<Rightarrow> u32 \<Rightarrow> u32 \<Rightarrow> wmem \<Rightarrow> u32 \<times> wmem" where
  "init_loop 0 cur nxt sz m = (cur, m)"
| "init_loop (Suc k) cur nxt sz m = init_loop k nxt (nxt + sz) sz (m(cur := nxt, nxt + 4 := cur))"

definition lwp_queue_initialize :: "u32 \<Rightarrow> u32 \<Rightarrow> u32 \<Rightarrow> u32 \<Rightarrow> wmem \<Rightarrow> wmem" where
  "lwp_queue_initialize q start_addr num_nodes node_size m =
     (let (cur, m1) = init_loop (unat num_nodes) (lwp_queue_head q) start_addr node_size (m(q + 4 := 0))
      in m1(cur := lwp_queue_tail q, q + 8 := cur))"

definition lwp_queue_get :: "u32 \<Rightarrow> wmem \<Rightarrow> u32 \<times> wmem" where
  "lwp_queue_get q m = (if \<not> lwp_queue_isempty q m then lwp_queue_firstnodeI q m else (0, m))"

definition lwp_queue_append :: "u32 \<Rightarrow> u32 \<Rightarrow> wmem \<Rightarrow> wmem" where
  "lwp_queue_append q n m = lwp_queue_appendI q n m"

definition lwp_queue_extract :: "u32 \<Rightarrow> wmem \<Rightarrow> wmem" where
  "lwp_queue_extract n m = lwp_queue_extractI n m"

definition lwp_queue_insert :: "u32 \<Rightarrow> u32 \<Rightarrow> wmem \<Rightarrow> wmem" where
  "lwp_queue_insert after n m = lwp_queue_insertI after n m"

section \<open>Chains of nodes\<close>

text \<open>Consecutive nodes point at each other; the words that say so are the cells of the chain.\<close>

fun linked :: "wmem \<Rightarrow> u32 list \<Rightarrow> bool" where
  "linked m (a # b # ns) \<longleftrightarrow> m a = b \<and> m (b + 4) = a \<and> linked m (b # ns)"
| "linked m ns \<longleftrightarrow> True"

fun cells :: "u32 list \<Rightarrow> u32 list" where
  "cells (a # b # ns) = a # (b + 4) # cells (b # ns)"
| "cells ns = []"

lemma linked_append: "linked m (as @ a # bs) \<longleftrightarrow> linked m (as @ [a]) \<and> linked m (a # bs)"
proof (induction "as")
  case (Cons x xs)
  then show ?case by (cases xs) auto
qed simp

lemma cells_append: "cells (as @ a # bs) = cells (as @ [a]) @ cells (a # bs)"
proof (induction "as")
  case (Cons x xs)
  then show ?case by (cases xs) simp_all
qed simp

lemma cells_snoc: "xs \<noteq> [] \<Longrightarrow> cells (xs @ [b]) = cells xs @ [last xs, b + 4]"
  by (induction xs rule: cells.induct) auto

lemma linked_snoc: "xs \<noteq> [] \<Longrightarrow> linked m (xs @ [b]) \<longleftrightarrow> linked m xs \<and> m (last xs) = b \<and> m (b + 4) = last xs"
  by (induction xs rule: cells.induct) auto

lemma linked_cong: "(\<And>p. p \<in> set (cells ns) \<Longrightarrow> m' p = m p) \<Longrightarrow> linked m' ns = linked m ns"
  by (induction ns rule: cells.induct) auto

lemma linked_upd [simp]: "p \<notin> set (cells ns) \<Longrightarrow> linked (m(p := v)) ns = linked m ns"
  by (rule linked_cong) auto

lemma set_cells: "set (cells (a # xs @ [b])) = insert a (set xs) \<union> insert (b + 4) ((\<lambda>n. n + 4) ` set xs)"
  by (induction xs arbitrary: a) auto

text \<open>Insertion and removal in the middle of a chain.\<close>

lemma chain_insert:
  assumes "linked m (as @ a # b # bs)" "distinct (cells (as @ a # b # bs))"
    "n \<notin> set (cells (as @ a # b # bs))" "n + 4 \<notin> set (cells (as @ a # b # bs))"
  shows "linked (m(n + 4 := a, a := n, n := b, b + 4 := n)) (as @ a # n # b # bs)"
    "distinct (cells (as @ a # n # b # bs))"
  using assms
  unfolding linked_append [of _ "as" a "n # b # bs"] linked_append [of _ "as" a "b # bs"]
    cells_append [of "as" a "n # b # bs"] cells_append [of "as" a "b # bs"]
  by auto

lemma chain_remove:
  assumes "linked m (as @ a # n # b # bs)" "distinct (cells (as @ a # n # b # bs))"
  shows "m n = b" "m (n + 4) = a" "linked (m(b + 4 := a, a := b)) (as @ a # b # bs)" "distinct (cells (as @ a # b # bs))"
  using assms
  unfolding linked_append [of _ "as" a "n # b # bs"] linked_append [of _ "as" a "b # bs"]
    cells_append [of "as" a "n # b # bs"] cells_append [of "as" a "b # bs"]
  by auto

section \<open>Queues as lists\<close>

text \<open>
  The queue at \<open>q\<close> holds the nodes \<open>xs\<close>: both sentinels and the nodes are chained, and no two words of
  the structure overlap.
\<close>

definition chain_of :: "u32 \<Rightarrow> u32 list \<Rightarrow> u32 list" where
  "chain_of q xs = q # xs @ [q + 4]"

definition words :: "u32 \<Rightarrow> u32 list \<Rightarrow> u32 list" where
  "words q xs = (q + 4) # cells (chain_of q xs)"

definition lwp_list :: "wmem \<Rightarrow> u32 \<Rightarrow> u32 list \<Rightarrow> bool" where
  "lwp_list m q xs \<longleftrightarrow> linked m (chain_of q xs) \<and> distinct (words q xs) \<and> m (q + 4) = 0 \<and> 0 \<notin> set xs"

definition node_fresh :: "u32 \<Rightarrow> u32 list \<Rightarrow> u32 \<Rightarrow> bool" where
  "node_fresh q xs n \<longleftrightarrow> n \<noteq> 0 \<and> n \<notin> set (words q xs) \<and> n + 4 \<notin> set (words q xs)"

lemma set_words: "set (words q xs) = {q, q + 4, q + 8} \<union> set xs \<union> (\<lambda>n. n + 4) ` set xs"
  unfolding words_def chain_of_def by (auto simp: set_cells)

lemma lwp_list_cong:
  assumes "\<And>p. p \<in> set (words q xs) \<Longrightarrow> m' p = m p"
  shows "lwp_list m' q xs = lwp_list m q xs"
  using linked_cong [of "chain_of q xs" m' m] assms by (auto simp: lwp_list_def words_def)

lemma chain_split: "chain_of q (ys @ zs) = butlast (q # ys) @ last (q # ys) # (zs @ [q + 4])"
  by (simp add: chain_of_def)

lemma lwp_list_distinct:
  assumes "lwp_list m q xs"
  shows "distinct xs" "q \<notin> set xs" "q + 4 \<notin> set xs" "q + 8 \<notin> set xs"
proof -
  have "distinct (cells (a # xs @ [b])) \<Longrightarrow> distinct xs \<and> a \<notin> set xs \<and> b + 4 \<notin> insert a (set xs)" for a b
    by (induction xs arbitrary: a) (auto simp: set_cells)
  from this [of q "q + 4"] assms show "distinct xs" "q \<notin> set xs" "q + 4 \<notin> set xs" "q + 8 \<notin> set xs"
    by (auto simp: lwp_list_def words_def chain_of_def set_cells add.commute)
qed

lemma lwp_list_first: "lwp_list m q xs \<Longrightarrow> m q = (case xs of [] \<Rightarrow> q + 4 | x # _ \<Rightarrow> x)"
  by (cases xs) (auto simp: lwp_list_def chain_of_def)

lemma lwp_list_last: "lwp_list m q xs \<Longrightarrow> m (q + 8) = last (q # xs)"
  using linked_append [of m "butlast (q # xs)" "last (q # xs)" "[q + 4]"] chain_split [of q xs "[]"]
  by (simp add: lwp_list_def add.commute)

text \<open>The successor of a node.\<close>

lemma lwp_list_next: "lwp_list m q (ys @ n # zs) \<Longrightarrow> m n = (case zs of [] \<Rightarrow> q + 4 | z # _ \<Rightarrow> z)"
  using linked_append [of m "q # ys" n "zs @ [q + 4]"] by (cases zs) (auto simp: lwp_list_def chain_of_def)

lemma lwp_list_prev: "lwp_list m q (ys @ n # zs) \<Longrightarrow> m (n + 4) = last (q # ys)"
  using linked_append [of m "butlast (q # ys)" "last (q # ys)" "n # zs @ [q + 4]"] chain_split [of q ys "n # zs"]
  by (simp add: lwp_list_def)

lemma isempty_iff: "lwp_list m q xs \<Longrightarrow> lwp_queue_isempty q m \<longleftrightarrow> xs = []"
  using lwp_list_first [of m q xs] lwp_list_distinct(3) [of m q xs]
  by (auto simp: lwp_queue_isempty_def lwp_queue_tail_def split: list.splits)

lemma onenode_iff: "lwp_list m q xs \<Longrightarrow> lwp_queue_onenode q m \<longleftrightarrow> length xs = 1"
  using lwp_list_first [of m q xs] lwp_list_last [of m q xs] lwp_list_distinct [of m q xs]
  by (cases xs; cases "tl xs" rule: rev_cases) (auto simp: lwp_queue_onenode_def)

lemma init_empty_list: "lwp_list (lwp_queue_init_empty q m) q []"
  by (simp add: lwp_list_def chain_of_def words_def lwp_queue_init_empty_def lwp_queue_tail_def lwp_queue_head_def)

text \<open>Insertion after the node, or the head, before \<open>zs\<close>.\<close>

lemma insertI_list:
  assumes "lwp_list m q (ys @ zs)" "node_fresh q (ys @ zs) n"
  shows "lwp_list (lwp_queue_insertI (last (q # ys)) n m) q (ys @ n # zs)"
    "\<And>p. p \<notin> set (words q (ys @ n # zs)) \<Longrightarrow> lwp_queue_insertI (last (q # ys)) n m p = m p"
proof -
  let ?a = "last (q # ys)" and ?as = "butlast (q # ys)"
  obtain b bs where b: "zs @ [q + 4] = b # bs" by (cases "zs @ [q + 4]") auto
  have L: "linked m (?as @ ?a # b # bs)" "distinct ((q + 4) # cells (?as @ ?a # b # bs))" "m (q + 4) = 0"
    using assms(1) unfolding lwp_list_def words_def chain_split b by auto
  have n: "n \<notin> set (cells (?as @ ?a # b # bs))" "n + 4 \<notin> set (cells (?as @ ?a # b # bs))" "n \<noteq> q + 4" "n + 4 \<noteq> q + 4" "n \<noteq> 0"
    using assms(2) unfolding node_fresh_def words_def chain_split b by auto
  have ab: "?a \<in> set (cells (?as @ ?a # b # bs))" "b + 4 \<in> set (cells (?as @ ?a # b # bs))"
    unfolding cells_append [of ?as ?a "b # bs"] by simp_all
  have ma: "m ?a = b" using L(1) linked_append [of m ?as ?a "b # bs"] by simp
  have eq: "lwp_queue_insertI ?a n m = m(n + 4 := ?a, ?a := n, n := b, b + 4 := n)"
    using n ab ma by (auto simp: lwp_queue_insertI_def Let_def)
  have C: "chain_of q (ys @ n # zs) = ?as @ ?a # n # b # bs" unfolding chain_split using b by simp
  have cs: "set (cells (?as @ ?a # n # b # bs)) = set (cells (?as @ ?a # b # bs)) \<union> {n, n + 4}"
    unfolding cells_append [of ?as ?a "n # b # bs"] cells_append [of ?as ?a "b # bs"] by auto
  show "lwp_list (lwp_queue_insertI ?a n m) q (ys @ n # zs)"
    unfolding lwp_list_def words_def C eq
    using chain_insert [OF L(1) _ n(1,2)] L(2,3) n ab assms(1) cs by (auto simp: lwp_list_def)
  show "\<And>p. p \<notin> set (words q (ys @ n # zs)) \<Longrightarrow> lwp_queue_insertI ?a n m p = m p"
    unfolding words_def C eq list.set(2) cs using n ab by auto
qed

lemma upd_twist4:
  "distinct [a, b, c, d] \<Longrightarrow> m(a := w, b := x, c := y, d := z) = m(d := z, c := y, a := w, b := x)"
  by (rule ext) simp

lemma appendI_insertI:
  assumes "lwp_list m q xs" "node_fresh q xs n"
  shows "lwp_queue_appendI q n m = lwp_queue_insertI (last (q # xs)) n m"
proof -
  have l: "m (q + 8) = last (q # xs)" by (rule lwp_list_last [OF assms(1)])
  have x: "m (last (q # xs)) = q + 4"
    using assms(1) lwp_list_next [of m q "butlast xs" "last xs" "[]"] lwp_list_first [OF assms(1)] by (cases xs rule: rev_cases) auto
  have d: "n \<notin> {q, q + 4, q + 8} \<union> set xs" "n + 4 \<notin> {q, q + 4, q + 8} \<union> set xs"
    using assms(2) by (auto simp: node_fresh_def set_words)
  have "last (q # xs) \<in> insert q (set xs)" using last_in_set [of "q # xs"] by auto
  moreover have "q + 8 \<notin> insert q (set xs)" using lwp_list_distinct(4) [OF assms(1)] by simp
  ultimately have "distinct [n, q + 8, last (q # xs), n + 4]" "last (q # xs) \<noteq> n + 4" "q + 8 \<noteq> n" using d by auto
  then show ?thesis
    unfolding lwp_queue_appendI_def lwp_queue_insertI_def lwp_queue_tail_def Let_def
    using l x upd_twist4 [of n "q + 8" "last (q # xs)" "n + 4" m] by (simp only: fun_upd_apply if_False add.assoc) simp
qed

lemma appendI_list:
  assumes "lwp_list m q xs" "node_fresh q xs n"
  shows "lwp_list (lwp_queue_appendI q n m) q (xs @ [n])"
    "\<And>p. p \<notin> set (words q (xs @ [n])) \<Longrightarrow> lwp_queue_appendI q n m p = m p"
  using insertI_list [of m q xs "[]" n] assms appendI_insertI [OF assms] by simp_all

lemma prependI_list:
  assumes "lwp_list m q xs" "node_fresh q xs n"
  shows "lwp_list (lwp_queue_prependI q n m) q (n # xs)"
  using insertI_list [of m q "[]" xs n] assms by (simp add: lwp_queue_prependI_def lwp_queue_head_def)

text \<open>Extraction of a node; the node's own links are left as they were.\<close>

lemma extractI_list:
  assumes "lwp_list m q (ys @ n # zs)"
  shows "lwp_list (lwp_queue_extractI n m) q (ys @ zs)"
    "\<And>p. p \<notin> set (words q (ys @ zs)) \<Longrightarrow> lwp_queue_extractI n m p = m p"
proof -
  let ?a = "last (q # ys)" and ?as = "butlast (q # ys)"
  obtain b bs where b: "zs @ [q + 4] = b # bs" by (cases "zs @ [q + 4]") auto
  have L: "linked m (?as @ ?a # n # b # bs)" "distinct ((q + 4) # cells (?as @ ?a # n # b # bs))" "m (q + 4) = 0"
    using assms(1) b unfolding lwp_list_def words_def chain_split by auto
  note R = chain_remove [OF L(1) L(2) [unfolded distinct.simps(2), THEN conjunct2]]
  have C: "chain_of q (ys @ zs) = ?as @ ?a # b # bs" unfolding chain_split using b by simp
  have cs: "set (cells (?as @ ?a # b # bs)) \<subseteq> set (cells (?as @ ?a # n # b # bs))"
      "?a \<in> set (cells (?as @ ?a # b # bs))" "b + 4 \<in> set (cells (?as @ ?a # b # bs))"
    unfolding cells_append [of ?as ?a "n # b # bs"] cells_append [of ?as ?a "b # bs"] by auto
  have eq: "lwp_queue_extractI n m = m(b + 4 := ?a, ?a := b)" using R(1,2) by (simp add: lwp_queue_extractI_def Let_def)
  have q4: "q + 4 \<notin> set (cells (?as @ ?a # b # bs))" using L(2) cs(1) by auto
  then have "(m(b + 4 := ?a, ?a := b)) (q + 4) = 0" using L(3) cs(2,3) by auto
  then show "lwp_list (lwp_queue_extractI n m) q (ys @ zs)"
    unfolding lwp_list_def words_def C eq using R(3,4) q4 assms by (simp add: lwp_list_def)
  show "\<And>p. p \<notin> set (words q (ys @ zs)) \<Longrightarrow> lwp_queue_extractI n m p = m p"
    unfolding words_def C eq using cs by auto
qed

text \<open>Taking the first node is extracting it.\<close>

lemma firstnodeI_list:
  assumes "lwp_list m q (x # xs)"
  shows "lwp_queue_firstnodeI q m = (x, lwp_queue_extractI x m)"
proof -
  have f: "m q = x" using lwp_list_first [OF assms] by simp
  have p: "m (x + 4) = q" using lwp_list_prev [of m q "[]" x xs] assms by simp
  have n: "m x = (case xs of [] \<Rightarrow> q + 4 | z # _ \<Rightarrow> z)" using lwp_list_next [of m q "[]" x xs] assms by simp
  have "distinct (cells (q # x # xs @ [q + 4]))" using assms by (simp add: lwp_list_def words_def chain_of_def)
  then have "m x + 4 \<noteq> q" using n by (auto simp: set_cells split: list.splits)
  then show ?thesis
    unfolding lwp_queue_firstnodeI_def lwp_queue_extractI_def lwp_queue_head_def Let_def f p
    by (simp add: fun_upd_twist)
qed

lemma getI_empty: "lwp_list m q [] \<Longrightarrow> lwp_queue_getI q m = (0, m)"
  using isempty_iff [of m q "[]"] by (simp add: lwp_queue_getI_def)

lemma getI_first:
  assumes "lwp_list m q (x # xs)"
  shows "lwp_queue_getI q m = (x, lwp_queue_extractI x m)" "x \<noteq> 0"
  using isempty_iff [OF assms] firstnodeI_list [OF assms] assms by (auto simp: lwp_queue_getI_def lwp_list_def)

interpretation lwpq: node_queue lwp_list node_fresh lwp_queue_append
  "\<lambda>q m. (if fst (lwp_queue_get q m) = 0 then None else Some (fst (lwp_queue_get q m)), snd (lwp_queue_get q m))"
proof
  show "lwp_list m q xs \<Longrightarrow> node_fresh q xs n \<Longrightarrow> lwp_list (lwp_queue_append q n m) q (xs @ [n])" for m q xs n
    unfolding lwp_queue_append_def by (rule appendI_list)
qed (use getI_empty getI_first extractI_list(1) [of _ _ "[]"] in
      \<open>auto simp: lwp_queue_get_def lwp_queue_getI_def split: if_splits\<close>)

section \<open>Building a queue from an array of nodes\<close>

definition node_array :: "u32 \<Rightarrow> nat \<Rightarrow> u32 \<Rightarrow> u32 list" where
  "node_array start k sz = map (\<lambda>i. start + of_nat i * sz) [0..<k]"

lemma node_array_Suc: "node_array start (Suc k) sz = start # node_array (start + sz) k sz"
  unfolding node_array_def
  by (rule nth_equalityI) (auto simp: nth_Cons algebra_simps split: nat.splits simp del: upt_Suc)

lemma init_loop_chain:
  "distinct (cells (cur # node_array nxt k sz)) \<Longrightarrow>
   \<exists>m'. init_loop k cur nxt sz m = (last (cur # node_array nxt k sz), m') \<and>
     linked m' (cur # node_array nxt k sz) \<and> (\<forall>p. p \<notin> set (cells (cur # node_array nxt k sz)) \<longrightarrow> m' p = m p)"
proof (induction k arbitrary: cur nxt m)
  case (Suc k)
  let ?r = "nxt # node_array (nxt + sz) k sz"
  have d: "distinct (cells ?r)" "cur \<notin> set (cells ?r)" "nxt + 4 \<notin> set (cells ?r)" "cur \<noteq> nxt + 4"
    using Suc.prems by (auto simp: node_array_Suc)
  obtain m' where m': "init_loop k nxt (nxt + sz) sz (m(cur := nxt, nxt + 4 := cur)) = (last ?r, m')"
      "linked m' ?r" "\<forall>p. p \<notin> set (cells ?r) \<longrightarrow> m' p = (m(cur := nxt, nxt + 4 := cur)) p"
    using Suc.IH [OF d(1), of "m(cur := nxt, nxt + 4 := cur)"] by blast
  then show ?case using d by (intro exI [of _ m']) (auto simp: node_array_Suc)
qed (simp add: node_array_def)

lemma initialize_list:
  assumes "distinct (words q (node_array start (unat k) sz))" "0 \<notin> set (node_array start (unat k) sz)"
  shows "lwp_list (lwp_queue_initialize q start k sz m) q (node_array start (unat k) sz)"
proof -
  let ?xs = "node_array start (unat k) sz" and ?m = "m(q + 4 := 0)"
  have c: "cells (chain_of q ?xs) = cells (q # ?xs) @ [last (q # ?xs), q + 4 + 4]"
    using cells_snoc [of "q # ?xs" "q + 4"] by (simp add: chain_of_def)
  obtain m' where m': "init_loop (unat k) q start sz ?m = (last (q # ?xs), m')" "linked m' (q # ?xs)"
      "\<forall>p. p \<notin> set (cells (q # ?xs)) \<longrightarrow> m' p = ?m p"
    using init_loop_chain [of q start "unat k" sz ?m] assms(1) unfolding words_def c by auto
  let ?m' = "m'(last (q # ?xs) := q + 4, q + 8 := last (q # ?xs))"
  have "lwp_queue_initialize q start k sz m = ?m'"
    using m'(1) by (simp add: lwp_queue_initialize_def lwp_queue_head_def lwp_queue_tail_def)
  moreover have "linked ?m' (chain_of q ?xs)"
    using linked_snoc [of "q # ?xs" ?m' "q + 4"] m'(2) assms(1)
    unfolding words_def c by (simp add: chain_of_def add.commute)
  moreover have "?m' (q + 4) = 0" using m'(3) assms(1) unfolding words_def c by auto
  ultimately show ?thesis using assms by (simp add: lwp_list_def)
qed

end
