(* ===== verification/ArQueue.thy ===== *)
theory ArQueue
  imports LwpQueue LwpcInv
begin

text \<open>
  The queue of ARAM transfers \<^verbatim>\<open>libogc/arqueue.c\<close>: two priorities, transfers of the low one cut into
  chunks so that high priority requests get in between, and the interrupt routine that runs when a
  transfer has ended.

  The request's \<open>node\<close> is its first field, so a request and its node have the same address; the links
  are in the word memory \<open>amem\<close> and the other fields in \<open>reqs\<close>. \<^verbatim>\<open>AR_StartDMA\<close> hands a transfer to the
  hardware: it is added to the log \<open>dma\<close>. The addresses of the two static queues are fields, and so are
  the address and the \<open>polled\<close> flags of the table \<^verbatim>\<open>__ARQMInfo\<close> of the ARAM stack manager, which its
  callback writes.
\<close>

datatype arq_task = ARQ_TASK_READY | ARQ_TASK_RUNNING | ARQ_TASK_FINISHED

text \<open>An \<^verbatim>\<open>ARQCallback\<close>: null, the callbacks of the repository, or one of the program.\<close>

datatype arq_cb = CbNull | CbDummy | CbSync | CbPoll | CbUser u32

record ARQRequest =
  r_owner :: u32
  r_dir :: u32
  r_prio :: u32
  r_state :: arq_task
  r_aram :: u32
  r_mram :: u32
  r_len :: u32
  r_cb :: arq_cb

record dma_op =
  d_dir :: u32
  d_mram :: u32
  d_aram :: u32
  d_len :: u32

record arq =
  amem :: wmem
  reqs :: "u32 \<Rightarrow> ARQRequest"
  qLo :: u32
  qHi :: u32
  pendLo :: u32
  pendHi :: u32
  cbLo :: arq_cb
  cbHi :: arq_cb
  chunk :: u32
  initflag :: bool
  isr_registered :: bool
  syncq :: u32
  dma :: "dma_op list"
  arqm_info :: u32
  polled :: "nat \<Rightarrow> bool"
  lw :: lwpc

abbreviation ARQ_PRIO_LO :: u32 where "ARQ_PRIO_LO \<equiv> 0"
abbreviation ARQ_PRIO_HI :: u32 where "ARQ_PRIO_HI \<equiv> 1"
abbreviation ARQ_DEF_CHUNK_SIZE :: u32 where "ARQ_DEF_CHUNK_SIZE \<equiv> 4096"

section \<open>Operations\<close>

definition upd_req :: "u32 \<Rightarrow> (ARQRequest \<Rightarrow> ARQRequest) \<Rightarrow> arq \<Rightarrow> arq" where
  "upd_req r f a = a\<lparr>reqs := (reqs a)(r := f (reqs a r))\<rparr>"

definition AR_StartDMA :: "u32 \<Rightarrow> u32 \<Rightarrow> u32 \<Rightarrow> u32 \<Rightarrow> arq \<Rightarrow> arq" where
  "AR_StartDMA dir mram aram len a =
     a\<lparr>dma := dma a @ [\<lparr>d_dir = dir, d_mram = mram, d_aram = aram, d_len = len\<rparr>]\<rparr>"

definition queue_get :: "u32 \<Rightarrow> arq \<Rightarrow> u32 \<times> arq" where
  "queue_get q a = (let (r, m) = lwp_queue_getI q (amem a) in (r, a\<lparr>amem := m\<rparr>))"

text \<open>Start the high priority request \<open>req\<close>.\<close>

definition start_hi :: "u32 \<Rightarrow> arq \<Rightarrow> arq" where
  "start_hi req a =
     (let a1 = upd_req req (\<lambda>r. r\<lparr>r_state := ARQ_TASK_RUNNING\<rparr>) a;
          r = reqs a1 req
      in (AR_StartDMA (r_dir r) (r_mram r) (r_aram r) (r_len r) a1)\<lparr>cbHi := r_cb r, pendHi := req\<rparr>)"

definition ARQPopTaskQueueHi :: "arq \<Rightarrow> arq" where
  "ARQPopTaskQueueHi a =
     (let (req, a1) = queue_get (qHi a) a in if req = 0 then a1 else start_hi req a1)"

text \<open>Start the next chunk of the low priority request \<open>req\<close>.\<close>

definition start_lo :: "u32 \<Rightarrow> arq \<Rightarrow> arq" where
  "start_lo req a =
     (let a2 = upd_req req (\<lambda>r. r\<lparr>r_state := ARQ_TASK_RUNNING\<rparr>) a;
          r = reqs a2 req
      in if r_len r \<le> chunk a2
         then (AR_StartDMA (r_dir r) (r_mram r) (r_aram r) (r_len r) a2)\<lparr>cbLo := r_cb r\<rparr>
         else upd_req req (\<lambda>r. r\<lparr>r_len := r_len r - chunk a2, r_aram := r_aram r + chunk a2,
                                 r_mram := r_mram r + chunk a2\<rparr>)
                (AR_StartDMA (r_dir r) (r_mram r) (r_aram r) (chunk a2) a2))"

definition ARQServiceQueueLo :: "arq \<Rightarrow> arq" where
  "ARQServiceQueueLo a =
     (let a1 = (if pendLo a = 0 then let (req, a') = queue_get (qLo a) a in a'\<lparr>pendLo := req\<rparr> else a);
          req = pendLo a1
      in if req = 0 then a1 else start_lo req a1)"

text \<open>
  Calling a callback: the synchronous one wakes the threads asleep in \<^verbatim>\<open>ARQ_PostRequest\<close>; the one of
  \<^verbatim>\<open>arqmgr.c\<close> marks the entry of its table (16 entries of 72 bytes, each beginning with its request) as
  done; \<open>user\<close> stands for the callbacks of the program.
\<close>

definition arqm_handle :: "arq \<Rightarrow> nat \<Rightarrow> u32" where
  "arqm_handle a i = arqm_info a + 72 * of_nat i"

definition ARQMPollCallback :: "u32 \<Rightarrow> arq \<Rightarrow> arq" where
  "ARQMPollCallback req a =
     (case find (\<lambda>i. req = arqm_handle a i) [0..<16] of None \<Rightarrow> a
      | Some i \<Rightarrow> a\<lparr>polled := (polled a)(i := True)\<rparr>)"

definition call_cb :: "(arq_cb \<Rightarrow> u32 \<Rightarrow> arq \<Rightarrow> arq option) \<Rightarrow> arq_cb \<Rightarrow> u32 \<Rightarrow> arq \<Rightarrow> arq option" where
  "call_cb user cb req a =
     (case cb of CbNull \<Rightarrow> None
      | CbDummy \<Rightarrow> Some a
      | CbSync \<Rightarrow> map_option (\<lambda>w. a\<lparr>lw := w\<rparr>) (LWP_ThreadBroadcast (syncq a) (lw a))
      | CbPoll \<Rightarrow> Some (ARQMPollCallback req a)
      | CbUser _ \<Rightarrow> user cb req a)"

definition ARInterruptServiceRoutine :: "(arq_cb \<Rightarrow> u32 \<Rightarrow> arq \<Rightarrow> arq option) \<Rightarrow> arq \<Rightarrow> arq option" where
  "ARInterruptServiceRoutine user a =
     do { a1 \<leftarrow>
            (if cbHi a \<noteq> CbNull
             then map_option (\<lambda>b. b\<lparr>pendHi := 0, cbHi := CbNull\<rparr>)
                    (call_cb user (cbHi a) (pendHi a) (upd_req (pendHi a) (\<lambda>r. r\<lparr>r_state := ARQ_TASK_FINISHED\<rparr>) a))
             else if cbLo a \<noteq> CbNull
             then map_option (\<lambda>b. b\<lparr>pendLo := 0, cbLo := CbNull\<rparr>)
                    (call_cb user (cbLo a) (pendLo a) (upd_req (pendLo a) (\<lambda>r. r\<lparr>r_state := ARQ_TASK_FINISHED\<rparr>) a))
             else Some a);
          let a2 = ARQPopTaskQueueHi a1 in
          Some (if pendHi a2 = 0 then ARQServiceQueueLo a2 else a2) }"

definition isr_section :: "(arq \<Rightarrow> arq) \<Rightarrow> arq \<Rightarrow> arq" where
  "isr_section f a =
     (let (level, s) = PPCIrqLockByMsr (ks (lw a));
          a1 = f (a\<lparr>lw := (lw a)\<lparr>ks := s\<rparr>\<rparr>)
      in a1\<lparr>lw := (lw a1)\<lparr>ks := PPCIrqUnlockByMsr level (ks (lw a1))\<rparr>\<rparr>)"

definition ARQ_Init :: "arq \<Rightarrow> arq" where
  "ARQ_Init a =
     (if initflag a then a
      else isr_section (\<lambda>a.
        let ((_, h), w) = LWP_InitQueue (lw a) in
        a\<lparr>pendLo := 0, pendHi := 0, cbLo := CbNull, cbHi := CbNull, chunk := ARQ_DEF_CHUNK_SIZE,
          lw := w, syncq := h,
          amem := lwp_queue_init_empty (qHi a) (lwp_queue_init_empty (qLo a) (amem a)),
          isr_registered := True, initflag := True\<rparr>) a)"

definition ARQ_Reset :: "arq \<Rightarrow> arq" where
  "ARQ_Reset = isr_section (\<lambda>a. a\<lparr>initflag := False\<rparr>)"

definition ARQ_SetChunkSize :: "u32 \<Rightarrow> arq \<Rightarrow> arq" where
  "ARQ_SetChunkSize sz = isr_section (\<lambda>a. a\<lparr>chunk := (sz + 31) AND NOT 31\<rparr>)"

definition ARQ_GetChunkSize :: "arq \<Rightarrow> u32" where
  "ARQ_GetChunkSize a = chunk a"

definition ARQ_FlushQueue :: "arq \<Rightarrow> arq" where
  "ARQ_FlushQueue = isr_section (\<lambda>a.
     let a1 = a\<lparr>amem := lwp_queue_init_empty (qHi a) (lwp_queue_init_empty (qLo a) (amem a))\<rparr>
     in if cbLo a1 = CbNull then a1\<lparr>pendLo := 0\<rparr> else a1)"

definition ARQ_PostRequestAsync ::
    "u32 \<Rightarrow> u32 \<Rightarrow> u32 \<Rightarrow> u32 \<Rightarrow> u32 \<Rightarrow> u32 \<Rightarrow> u32 \<Rightarrow> arq_cb \<Rightarrow> arq \<Rightarrow> arq" where
  "ARQ_PostRequestAsync req owner dir prio aram_addr mram_addr len cb a =
     (let a0 = upd_req req (\<lambda>_. \<lparr>r_owner = owner, r_dir = dir, r_prio = prio, r_state = ARQ_TASK_READY,
                 r_aram = aram_addr, r_mram = mram_addr, r_len = len,
                 r_cb = (if cb = CbNull then CbDummy else cb)\<rparr>) a
      in isr_section (\<lambda>a.
           let a1 = (if prio = ARQ_PRIO_LO then a\<lparr>amem := lwp_queue_appendI (qLo a) req (amem a)\<rparr>
                     else a\<lparr>amem := lwp_queue_appendI (qHi a) req (amem a)\<rparr>)
           in if pendLo a1 = 0 \<and> pendHi a1 = 0
              then let (p, a2) = queue_get (qHi a1) a1;
                       a3 = (if p \<noteq> 0 then start_hi p a2 else a2)
                   in if pendHi a3 = 0 then ARQServiceQueueLo a3 else a3
              else a1) a0)"

text \<open>
  \<^verbatim>\<open>ARQ_PostRequest\<close> sleeps until its request is finished. A thread that is woken looks again
  (\<open>arq_wait\<close>): \<open>Inl\<close> is asleep again, \<open>Inr\<close> is the return.
\<close>

definition arq_wait :: "u32 \<Rightarrow> u32 \<Rightarrow> arq \<Rightarrow> (arq + arq) option" where
  "arq_wait req level a =
     (if r_state (reqs a req) \<noteq> ARQ_TASK_FINISHED
      then map_option (\<lambda>(_, w). Inl (a\<lparr>lw := w\<rparr>)) (LWP_ThreadSleep (syncq a) (lw a))
      else Some (Inr (a\<lparr>lw := (lw a)\<lparr>ks := PPCIrqUnlockByMsr level (ks (lw a))\<rparr>\<rparr>)))"

definition ARQ_PostRequest :: "u32 \<Rightarrow> u32 \<Rightarrow> u32 \<Rightarrow> u32 \<Rightarrow> u32 \<Rightarrow> u32 \<Rightarrow> u32 \<Rightarrow> arq \<Rightarrow> (arq + arq) option" where
  "ARQ_PostRequest req owner dir prio aram_addr mram_addr len a =
     (let a1 = ARQ_PostRequestAsync req owner dir prio aram_addr mram_addr len CbSync a;
          (level, s) = PPCIrqLockByMsr (ks (lw a1))
      in arq_wait req level (a1\<lparr>lw := (lw a1)\<lparr>ks := s\<rparr>\<rparr>))"

definition clear_pendLo :: "u32 \<Rightarrow> arq \<Rightarrow> arq" where
  "clear_pendLo req a =
     (if pendLo a \<noteq> 0 \<and> pendLo a = req \<and> cbLo a = CbNull then a\<lparr>pendLo := 0\<rparr> else a)"

definition ARQ_RemoveRequest :: "u32 \<Rightarrow> arq \<Rightarrow> arq" where
  "ARQ_RemoveRequest req =
     isr_section (\<lambda>a. clear_pendLo req (a\<lparr>amem := lwp_queue_extractI req (amem a)\<rparr>))"

text \<open>
  The loop over one queue, from \<open>req\<close> to the tail. Fuel stands for the length of the queue: \<open>None\<close> when
  the tail is not reached.
\<close>

fun remove_owner_loop :: "nat \<Rightarrow> u32 \<Rightarrow> u32 \<Rightarrow> u32 \<Rightarrow> u32 \<Rightarrow> arq \<Rightarrow> (u32 \<times> u32 \<times> arq) option" where
  "remove_owner_loop 0 tl' owner req cnt a = None"
| "remove_owner_loop (Suc k) tl' owner req cnt a =
     (if req = tl' then Some (req, cnt, a)
      else let (cnt', a') = (if r_owner (reqs a req) = owner
                             then (cnt + 1, a\<lparr>amem := lwp_queue_extractI req (amem a)\<rparr>) else (cnt, a))
           in remove_owner_loop k tl' owner (amem a' req) cnt' a')"

definition ARQ_RemoveOwnerRequest :: "nat \<Rightarrow> u32 \<Rightarrow> arq \<Rightarrow> (u32 \<times> arq) option" where
  "ARQ_RemoveOwnerRequest fuel owner a =
     (let (level, s) = PPCIrqLockByMsr (ks (lw a)); a0 = a\<lparr>lw := (lw a)\<lparr>ks := s\<rparr>\<rparr> in
      do { (_, cnt, a1) \<leftarrow> remove_owner_loop fuel (lwp_queue_tail (qHi a0)) owner (amem a0 (qHi a0)) 0 a0;
           (req, cnt', a2) \<leftarrow> remove_owner_loop fuel (lwp_queue_tail (qLo a1)) owner (amem a1 (qLo a1)) cnt a1;
           let a3 = clear_pendLo req a2 in
           Some (cnt', a3\<lparr>lw := (lw a3)\<lparr>ks := PPCIrqUnlockByMsr level (ks (lw a3))\<rparr>\<rparr>) })"

section \<open>The invariant\<close>

text \<open>
  The queues hold the lists \<open>lo\<close> and \<open>hi\<close>, in storage of their own, apart from the pending requests.
  A high priority transfer in flight has its callback set; the callback of the low priority
  request is set for its last chunk only, and never while a high priority transfer is in flight.
\<close>

definition pend_apart :: "arq \<Rightarrow> u32 list \<Rightarrow> u32 list \<Rightarrow> u32 \<Rightarrow> bool" where
  "pend_apart a lo hi p \<longleftrightarrow> p \<noteq> 0 \<longrightarrow> node_fresh (qLo a) lo p \<and> node_fresh (qHi a) hi p"

definition arq_inv :: "arq \<Rightarrow> u32 list \<Rightarrow> u32 list \<Rightarrow> bool" where
  "arq_inv a lo hi \<longleftrightarrow>
     lwp_list (amem a) (qLo a) lo \<and> lwp_list (amem a) (qHi a) hi \<and>
     set (words (qLo a) lo) \<inter> set (words (qHi a) hi) = {} \<and>
     (\<forall>r\<in>set lo \<union> set hi. r_cb (reqs a r) \<noteq> CbNull \<and> r_state (reqs a r) = ARQ_TASK_READY) \<and>
     pend_apart a lo hi (pendLo a) \<and> pend_apart a lo hi (pendHi a) \<and>
     (pendHi a \<noteq> 0 \<longrightarrow> pendLo a \<noteq> pendHi a) \<and>
     (cbHi a = CbNull \<longleftrightarrow> pendHi a = 0) \<and>
     (cbLo a \<noteq> CbNull \<longrightarrow> pendLo a \<noteq> 0 \<and> pendHi a = 0) \<and>
     (pendLo a \<noteq> 0 \<longrightarrow> r_cb (reqs a (pendLo a)) \<noteq> CbNull)"

definition busy :: "arq \<Rightarrow> bool" where
  "busy a \<longleftrightarrow> pendLo a \<noteq> 0 \<or> pendHi a \<noteq> 0"

text \<open>Work conserving: an idle queue is an empty one.\<close>

definition arq_ok :: "arq \<Rightarrow> u32 list \<Rightarrow> u32 list \<Rightarrow> bool" where
  "arq_ok a lo hi \<longleftrightarrow> arq_inv a lo hi \<and> (\<not> busy a \<longrightarrow> lo = [] \<and> hi = [])"

lemma node_fresh_mono: "node_fresh q xs n \<Longrightarrow> set ys \<subseteq> set xs \<Longrightarrow> node_fresh q ys n"
  by (auto simp: node_fresh_def set_words)

lemma words_mono: "set ys \<subseteq> set xs \<Longrightarrow> set (words q ys) \<subseteq> set (words q xs)"
  by (auto simp: set_words)

lemma first_fresh:
  assumes "lwp_list m q (x # xs)"
  shows "node_fresh q xs x"
proof -
  have "distinct ((q + 4) # q # (x + 4) # cells (x # xs @ [q + 4]))"
    using assms by (simp add: lwp_list_def words_def chain_of_def)
  moreover have "x \<notin> set (tl (cells (x # xs @ [q + 4])))" "hd (cells (x # xs @ [q + 4])) = x"
    using calculation by (cases xs; simp)+
  ultimately show ?thesis
    using assms lwp_list_distinct [OF assms]
    by (cases xs) (auto simp: node_fresh_def set_words lwp_list_def set_cells add.commute)
qed

lemma other_queue_fresh: "x \<in> set xs \<Longrightarrow> 0 \<notin> set xs \<Longrightarrow> set (words q xs) \<inter> set (words q' ys) = {} \<Longrightarrow> node_fresh q' ys x"
  by (auto simp: node_fresh_def set_words)

lemma arq_invD:
  assumes "arq_inv a lo hi"
  shows "lwp_list (amem a) (qLo a) lo" "lwp_list (amem a) (qHi a) hi" "set (words (qLo a) lo) \<inter> set (words (qHi a) hi) = {}"
    "0 \<notin> set lo" "0 \<notin> set hi" "set lo \<inter> set hi = {}"
  using assms by (auto simp: arq_inv_def lwp_list_def set_words)

section \<open>Starting a transfer\<close>

lemma start_hi_inv:
  assumes "arq_inv a lo (x # hi)" "pendHi a = 0" "cbLo a = CbNull"
  shows "arq_inv (start_hi x (a\<lparr>amem := lwp_queue_extractI x (amem a)\<rparr>)) lo hi"
proof -
  note D = arq_invD [OF assms(1)]
  let ?m = "lwp_queue_extractI x (amem a)"
  have w: "set (words (qLo a) lo) \<inter> set (words (qHi a) hi) = {}" using D(3) words_mono [of hi "x # hi" "qHi a"] by auto
  have hi: "lwp_list ?m (qHi a) hi" using extractI_list(1) [of "amem a" "qHi a" "[]" x hi] D(2) by simp
  have "lwp_list ?m (qLo a) lo = lwp_list (amem a) (qLo a) lo"
    using extractI_list(2) [of "amem a" "qHi a" "[]" x hi] D(2) w by (intro lwp_list_cong) auto
  then have lo: "lwp_list ?m (qLo a) lo" using D(1) by simp
  have f: "node_fresh (qHi a) hi x" "node_fresh (qLo a) lo x" "x \<noteq> 0" "x \<notin> set lo" "x \<notin> set hi"
    using first_fresh [OF D(2)] other_queue_fresh [of x "x # hi" "qHi a" "qLo a" lo] D by (auto simp: node_fresh_def set_words)
  have p: "pendLo a \<noteq> 0 \<Longrightarrow> pendLo a \<noteq> x \<and> node_fresh (qHi a) hi (pendLo a)"
    using assms(1) node_fresh_mono [of "qHi a" "x # hi" "pendLo a" hi]
    by (auto simp: arq_inv_def pend_apart_def node_fresh_def set_words)
  show ?thesis
    using assms lo hi f w p
    by (auto simp: arq_inv_def pend_apart_def start_hi_def upd_req_def AR_StartDMA_def Let_def)
qed

lemma start_lo_inv:
  assumes "arq_inv a lo hi" "pendLo a \<noteq> 0" "pendHi a = 0"
  shows "arq_inv (start_lo (pendLo a) a) lo hi"
  using assms arq_invD [OF assms(1)]
  by (auto simp: arq_inv_def pend_apart_def start_lo_def upd_req_def AR_StartDMA_def Let_def node_fresh_def set_words)

lemma queue_get_lo_inv:
  assumes "arq_inv a (x # lo) hi" "pendLo a = 0"
  shows "arq_inv (a\<lparr>amem := lwp_queue_extractI x (amem a), pendLo := x\<rparr>) lo hi"
proof -
  note D = arq_invD [OF assms(1)]
  let ?m = "lwp_queue_extractI x (amem a)"
  have w: "set (words (qLo a) lo) \<inter> set (words (qHi a) hi) = {}" using D(3) words_mono [of lo "x # lo" "qLo a"] by auto
  have lo: "lwp_list ?m (qLo a) lo" using extractI_list(1) [of "amem a" "qLo a" "[]" x lo] D(1) by simp
  have "lwp_list ?m (qHi a) hi = lwp_list (amem a) (qHi a) hi"
    using extractI_list(2) [of "amem a" "qLo a" "[]" x lo] D(1) w by (intro lwp_list_cong) auto
  then have hi: "lwp_list ?m (qHi a) hi" using D(2) by simp
  have f: "node_fresh (qLo a) lo x" "node_fresh (qHi a) hi x" "x \<noteq> 0"
    using first_fresh [OF D(1)] other_queue_fresh [of x "x # lo" "qLo a" "qHi a" hi] D by auto
  have p: "pendHi a \<noteq> 0 \<Longrightarrow> pendHi a \<noteq> x \<and> node_fresh (qLo a) lo (pendHi a)"
    using assms(1) node_fresh_mono [of "qLo a" "x # lo" "pendHi a" lo]
    by (auto simp: arq_inv_def pend_apart_def node_fresh_def set_words)
  show ?thesis using assms lo hi f w p by (auto simp: arq_inv_def pend_apart_def)
qed

section \<open>Choosing the next transfer\<close>

definition arq_next :: "arq \<Rightarrow> arq" where
  "arq_next a = (let a2 = ARQPopTaskQueueHi a in if pendHi a2 = 0 then ARQServiceQueueLo a2 else a2)"

lemma PopHi_nil: "arq_inv a lo [] \<Longrightarrow> ARQPopTaskQueueHi a = a"
  using getI_empty [of "amem a" "qHi a"] by (simp add: ARQPopTaskQueueHi_def queue_get_def arq_inv_def)

lemma PopHi_cons:
  "arq_inv a lo (x # hi) \<Longrightarrow> ARQPopTaskQueueHi a = start_hi x (a\<lparr>amem := lwp_queue_extractI x (amem a)\<rparr>)"
  using getI_first [of "amem a" "qHi a" x hi] by (simp add: ARQPopTaskQueueHi_def queue_get_def arq_inv_def)

lemma ServiceLo_nil: "arq_inv a [] hi \<Longrightarrow> pendLo a = 0 \<Longrightarrow> ARQServiceQueueLo a = a"
  using getI_empty [of "amem a" "qLo a"] by (simp add: ARQServiceQueueLo_def queue_get_def arq_inv_def)

lemma ServiceLo_cons:
  "arq_inv a (x # lo) hi \<Longrightarrow> pendLo a = 0 \<Longrightarrow>
   ARQServiceQueueLo a = start_lo x (a\<lparr>amem := lwp_queue_extractI x (amem a), pendLo := x\<rparr>)"
  using getI_first [of "amem a" "qLo a" x lo] by (simp add: ARQServiceQueueLo_def queue_get_def arq_inv_def)

lemma ServiceLo_pend: "pendLo a \<noteq> 0 \<Longrightarrow> ARQServiceQueueLo a = start_lo (pendLo a) a"
  by (simp add: ARQServiceQueueLo_def)

lemma start_hi_fields [simp]:
  "pendHi (start_hi x a) = x" "pendLo (start_hi x a) = pendLo a" "amem (start_hi x a) = amem a"
  "qLo (start_hi x a) = qLo a" "qHi (start_hi x a) = qHi a" "chunk (start_hi x a) = chunk a"
  "cbLo (start_hi x a) = cbLo a" "cbHi (start_hi x a) = r_cb (reqs a x)" "lw (start_hi x a) = lw a"
  by (simp_all add: start_hi_def upd_req_def AR_StartDMA_def Let_def)

lemma start_lo_fields [simp]:
  "pendHi (start_lo x a) = pendHi a" "pendLo (start_lo x a) = pendLo a" "amem (start_lo x a) = amem a"
  "qLo (start_lo x a) = qLo a" "qHi (start_lo x a) = qHi a" "chunk (start_lo x a) = chunk a"
  "cbHi (start_lo x a) = cbHi a" "cbLo (start_lo x a) = (if r_len (reqs a x) \<le> chunk a then r_cb (reqs a x) else cbLo a)"
  "lw (start_lo x a) = lw a"
  by (simp_all add: start_lo_def upd_req_def AR_StartDMA_def Let_def)

text \<open>The transfer a request stands for, and its first chunk.\<close>

definition req_dma :: "ARQRequest \<Rightarrow> dma_op" where
  "req_dma r = \<lparr>d_dir = r_dir r, d_mram = r_mram r, d_aram = r_aram r, d_len = r_len r\<rparr>"

definition chunk_dma :: "u32 \<Rightarrow> ARQRequest \<Rightarrow> dma_op" where
  "chunk_dma c r = (req_dma r)\<lparr>d_len := if r_len r \<le> c then r_len r else c\<rparr>"

lemma start_hi_dma: "dma (start_hi x a) = dma a @ [req_dma (reqs a x)]"
  by (simp add: start_hi_def upd_req_def AR_StartDMA_def Let_def req_dma_def)

lemma start_lo_dma: "dma (start_lo x a) = dma a @ [chunk_dma (chunk a) (reqs a x)]"
  by (simp add: start_lo_def upd_req_def AR_StartDMA_def Let_def req_dma_def chunk_dma_def)

text \<open>
  High priority requests first; then the rest of the low priority request in progress; then the
  next low priority request.
\<close>

lemma arq_next_hi:
  assumes "arq_inv a lo (x # hi)" "pendHi a = 0" "cbLo a = CbNull"
  shows "arq_ok (arq_next a) lo hi \<and> pendHi (arq_next a) = x \<and> pendLo (arq_next a) = pendLo a \<and>
    dma (arq_next a) = dma a @ [req_dma (reqs a x)]"
proof -
  have x: "x \<noteq> 0" using arq_invD(5) [OF assms(1)] by auto
  have "arq_next a = start_hi x (a\<lparr>amem := lwp_queue_extractI x (amem a)\<rparr>)"
    using x by (simp add: arq_next_def PopHi_cons [OF assms(1)])
  then show ?thesis using start_hi_inv [OF assms] x by (simp add: arq_ok_def busy_def start_hi_dma)
qed

lemma arq_next_cont:
  assumes "arq_inv a lo []" "pendHi a = 0" "pendLo a \<noteq> 0"
  shows "arq_next a = start_lo (pendLo a) a \<and> arq_ok (arq_next a) lo []"
  using start_lo_inv [OF assms(1,3,2)] assms PopHi_nil [OF assms(1)] ServiceLo_pend [OF assms(3)]
  by (simp add: arq_next_def arq_ok_def busy_def)

lemma arq_next_lo:
  assumes "arq_inv a (x # lo) []" "pendHi a = 0" "pendLo a = 0"
  shows "arq_ok (arq_next a) lo [] \<and> pendLo (arq_next a) = x \<and> pendHi (arq_next a) = 0 \<and>
    dma (arq_next a) = dma a @ [chunk_dma (chunk a) (reqs a x)]"
proof -
  let ?b = "a\<lparr>amem := lwp_queue_extractI x (amem a), pendLo := x\<rparr>"
  have x: "x \<noteq> 0" using arq_invD(4) [OF assms(1)] by auto
  have "arq_next a = start_lo x ?b"
    using assms(2) by (simp add: arq_next_def PopHi_nil [OF assms(1)] ServiceLo_cons [OF assms(1,3)])
  moreover have "arq_inv (start_lo x ?b) lo []"
    using start_lo_inv [OF queue_get_lo_inv [OF assms(1,3)]] x assms(2) by simp
  ultimately show ?thesis using x assms(2) by (simp add: arq_ok_def busy_def start_lo_dma)
qed

lemma arq_next_idle:
  assumes "arq_inv a [] []" "pendHi a = 0" "pendLo a = 0"
  shows "arq_next a = a"
  using assms PopHi_nil [OF assms(1)] ServiceLo_nil [OF assms(1,3)] by (simp add: arq_next_def)

text \<open>Whatever is queued, the choice keeps the invariant, and starts exactly one transfer unless all work is done.\<close>

definition next_lists :: "u32 \<Rightarrow> u32 list \<Rightarrow> u32 list \<Rightarrow> u32 list \<times> u32 list" where
  "next_lists pend lo hi = (if hi \<noteq> [] then (lo, tl hi) else if pend \<noteq> 0 then (lo, []) else (tl lo, []))"

lemma arq_next_ok:
  assumes "arq_inv a lo hi" "pendHi a = 0" "cbLo a = CbNull" "next_lists (pendLo a) lo hi = (lo', hi')"
  shows "arq_ok (arq_next a) lo' hi'"
    "length (dma (arq_next a)) = length (dma a) + (if busy (arq_next a) then 1 else 0)"
proof (atomize (full), goal_cases)
  case 1
  consider x hs where "hi = x # hs" | "hi = []" "pendLo a \<noteq> 0" | x ls where "hi = []" "pendLo a = 0" "lo = x # ls"
    | "hi = []" "pendLo a = 0" "lo = []" by (cases hi; cases lo) auto
  then show ?case
  proof cases
    case 1
    then show ?thesis
      using arq_next_hi [of a lo] assms arq_invD(5) [OF assms(1)] by (auto simp: next_lists_def busy_def)
  next
    case 2
    then show ?thesis using arq_next_cont [of a lo] assms by (auto simp: next_lists_def busy_def start_lo_dma)
  next
    case 3
    then show ?thesis
      using arq_next_lo [of a] assms arq_invD(4) [OF assms(1)] by (auto simp: next_lists_def busy_def)
  next
    case 4
    then show ?thesis using arq_next_idle [of a] assms by (auto simp: next_lists_def busy_def arq_ok_def)
  qed
qed

section \<open>Posting a request\<close>

text \<open>A request can be posted when its node is apart from the queues and from the pending requests.\<close>

definition apart :: "u32 \<Rightarrow> u32 \<Rightarrow> bool" where
  "apart p q \<longleftrightarrow> p \<noteq> q \<and> p \<noteq> q + 4 \<and> p + 4 \<noteq> q"

definition req_fresh :: "arq \<Rightarrow> u32 list \<Rightarrow> u32 list \<Rightarrow> u32 \<Rightarrow> bool" where
  "req_fresh a lo hi req \<longleftrightarrow> node_fresh (qLo a) lo req \<and> node_fresh (qHi a) hi req \<and>
     (pendLo a \<noteq> 0 \<longrightarrow> apart req (pendLo a)) \<and> (pendHi a \<noteq> 0 \<longrightarrow> apart req (pendHi a))"

definition new_req :: "u32 \<Rightarrow> u32 \<Rightarrow> u32 \<Rightarrow> u32 \<Rightarrow> u32 \<Rightarrow> u32 \<Rightarrow> arq_cb \<Rightarrow> ARQRequest" where
  "new_req owner dir prio aram_addr mram_addr len cb =
     \<lparr>r_owner = owner, r_dir = dir, r_prio = prio, r_state = ARQ_TASK_READY, r_aram = aram_addr,
      r_mram = mram_addr, r_len = len, r_cb = (if cb = CbNull then CbDummy else cb)\<rparr>"

definition post_queue :: "u32 \<Rightarrow> ARQRequest \<Rightarrow> arq \<Rightarrow> arq" where
  "post_queue req r a =
     a\<lparr>reqs := (reqs a)(req := r),
       amem := lwp_queue_appendI (if r_prio r = ARQ_PRIO_LO then qLo a else qHi a) req (amem a)\<rparr>"

lemma fresh_snoc:
  "node_fresh q xs p \<Longrightarrow> apart r p \<Longrightarrow> node_fresh q (xs @ [r]) p"
  by (auto simp: node_fresh_def set_words apart_def)

lemma post_queue_inv:
  assumes "arq_inv a lo hi" "req_fresh a lo hi req" "r_cb r \<noteq> CbNull" "r_state r = ARQ_TASK_READY"
  shows "if r_prio r = ARQ_PRIO_LO then arq_inv (post_queue req r a) (lo @ [req]) hi
         else arq_inv (post_queue req r a) lo (hi @ [req])"
proof -
  note D = arq_invD [OF assms(1)]
  have f: "node_fresh (qLo a) lo req" "node_fresh (qHi a) hi req" "req \<noteq> pendLo a" "req \<noteq> pendHi a"
    using assms(2) by (auto simp: req_fresh_def apart_def node_fresh_def)
  have w: "set (words (qLo a) (lo @ [req])) \<inter> set (words (qHi a) hi) = {}"
      "set (words (qLo a) lo) \<inter> set (words (qHi a) (hi @ [req])) = {}"
    using D(3) f(1,2) by (auto simp: set_words node_fresh_def)
  have l: "lwp_list (lwp_queue_appendI (qLo a) req (amem a)) (qLo a) (lo @ [req])"
      "lwp_list (lwp_queue_appendI (qHi a) req (amem a)) (qHi a) (hi @ [req])"
    by (rule appendI_list(1) [OF D(1) f(1)], rule appendI_list(1) [OF D(2) f(2)])
  have "lwp_list (lwp_queue_appendI (qLo a) req (amem a)) (qHi a) hi = lwp_list (amem a) (qHi a) hi"
      "lwp_list (lwp_queue_appendI (qHi a) req (amem a)) (qLo a) lo = lwp_list (amem a) (qLo a) lo"
    using appendI_list(2) [OF D(1) f(1)] appendI_list(2) [OF D(2) f(2)] w by (intro lwp_list_cong; blast)+
  then have k: "lwp_list (lwp_queue_appendI (qLo a) req (amem a)) (qHi a) hi"
      "lwp_list (lwp_queue_appendI (qHi a) req (amem a)) (qLo a) lo" using D by simp_all
  have p: "pend_apart a (lo @ [req]) hi x \<and> pend_apart a lo (hi @ [req]) x" if "x = pendLo a \<or> x = pendHi a" for x
    using that assms(1,2) fresh_snoc by (auto simp: arq_inv_def pend_apart_def req_fresh_def)
  have q: "req \<notin> set lo" "req \<notin> set hi" using f(1,2) by (auto simp: node_fresh_def set_words)
  show ?thesis
  proof (cases "r_prio r = ARQ_PRIO_LO")
    case True
    have "arq_inv (post_queue req r a) (lo @ [req]) hi"
      unfolding arq_inv_def pend_apart_def post_queue_def
      using True l(1) k(1) w(1) p f assms(1,3,4) q by (auto simp: arq_inv_def pend_apart_def)
    then show ?thesis using True by simp
  next
    case False
    have "arq_inv (post_queue req r a) lo (hi @ [req])"
      unfolding arq_inv_def pend_apart_def post_queue_def
      using False l(2) k(2) w(2) p f assms(1,3,4) q by (auto simp: arq_inv_def pend_apart_def)
    then show ?thesis using False by simp
  qed
qed

text \<open>The effect of the interrupt lock on the kernel state beneath.\<close>

definition locked :: "arq \<Rightarrow> arq" where
  "locked a = a\<lparr>lw := (lw a)\<lparr>ks := irq_section (ks (lw a))\<rparr>\<rparr>"

lemma locked_fields [simp]:
  "amem (locked a) = amem a" "reqs (locked a) = reqs a" "qLo (locked a) = qLo a" "qHi (locked a) = qHi a"
  "pendLo (locked a) = pendLo a" "pendHi (locked a) = pendHi a" "cbLo (locked a) = cbLo a" "cbHi (locked a) = cbHi a"
  "chunk (locked a) = chunk a" "dma (locked a) = dma a" "syncq (locked a) = syncq a" "initflag (locked a) = initflag a"
  by (simp_all add: locked_def)

lemma arq_inv_locked [simp]: "arq_inv (locked a) lo hi = arq_inv a lo hi" "busy (locked a) = busy a"
    "arq_ok (locked a) lo hi = arq_ok a lo hi"
  by (simp_all add: arq_inv_def pend_apart_def busy_def arq_ok_def)

text \<open>A section that leaves the kernel alone can be run outside the lock.\<close>

lemma isr_section_commute:
  assumes "\<And>w. f (a\<lparr>lw := w\<rparr>) = (f a)\<lparr>lw := w\<rparr>"
  shows "isr_section f a = locked (f a)"
  using arg_cong [OF assms [of "lw a"], of lw] assms by (simp add: isr_section_def locked_def irq_section_def case_prod_beta)

lemma lw_update:
  "upd_req x g (a\<lparr>lw := w\<rparr>) = (upd_req x g a)\<lparr>lw := w\<rparr>"
  "start_hi x (a\<lparr>lw := w\<rparr>) = (start_hi x a)\<lparr>lw := w\<rparr>"
  "start_lo x (a\<lparr>lw := w\<rparr>) = (start_lo x a)\<lparr>lw := w\<rparr>"
  by (simp_all add: upd_req_def start_hi_def start_lo_def AR_StartDMA_def Let_def)

lemmas arq_step_defs = arq_next_def ARQPopTaskQueueHi_def ARQServiceQueueLo_def queue_get_def start_hi_def
  start_lo_def AR_StartDMA_def upd_req_def

lemma arq_next_lw: "arq_next (a\<lparr>lw := w\<rparr>) = (arq_next a)\<lparr>lw := w\<rparr>"
  by (cases a) (simp add: arq_step_defs case_prod_beta Let_def)

lemma Post_eq:
  "ARQ_PostRequestAsync req owner dir prio aram_addr mram_addr len cb a =
    (let b = post_queue req (new_req owner dir prio aram_addr mram_addr len cb) a
     in locked (if busy a then b else arq_next b))"
proof -
  let ?r = "new_req owner dir prio aram_addr mram_addr len cb"
  let ?b = "post_queue req ?r a"
  have n: "arq_next c = (let (p, a2) = queue_get (qHi c) c; a3 = (if p \<noteq> 0 then start_hi p a2 else a2)
      in if pendHi a3 = 0 then ARQServiceQueueLo a3 else a3)" for c
    by (auto simp: arq_next_def ARQPopTaskQueueHi_def case_prod_beta Let_def)
  have "ARQ_PostRequestAsync req owner dir prio aram_addr mram_addr len cb a =
      isr_section (\<lambda>c. let d = c\<lparr>amem := lwp_queue_appendI (if prio = ARQ_PRIO_LO then qLo c else qHi c) req (amem c)\<rparr>
        in if busy d then d else arq_next d) (a\<lparr>reqs := (reqs a)(req := ?r)\<rparr>)"
    unfolding ARQ_PostRequestAsync_def n busy_def upd_req_def new_req_def Let_def
    by (rule arg_cong2 [where f = isr_section]) (auto simp: fun_eq_iff)
  also have "\<dots> = locked (if busy a then ?b else arq_next ?b)"
  proof (subst isr_section_commute)
    let ?f = "\<lambda>c. let d = c\<lparr>amem := lwp_queue_appendI (if prio = ARQ_PRIO_LO then qLo c else qHi c) req (amem c)\<rparr>
        in if busy d then d else arq_next d"
    have T: "c\<lparr>lw := w\<rparr>\<lparr>amem := m\<rparr> = c\<lparr>amem := m\<rparr>\<lparr>lw := w\<rparr>" for c :: arq and w m by simp
    show "?f (a\<lparr>reqs := (reqs a)(req := ?r)\<rparr>\<lparr>lw := w\<rparr>) = (?f (a\<lparr>reqs := (reqs a)(req := ?r)\<rparr>))\<lparr>lw := w\<rparr>" for w
      by (simp add: Let_def busy_def T arq_next_lw)
  qed (simp add: Let_def busy_def post_queue_def new_req_def)
  finally show ?thesis by (simp add: Let_def)
qed

lemma new_req_fields [simp]:
  "r_cb (new_req ow d pr ar mr ln cb) \<noteq> CbNull" "r_state (new_req ow d pr ar mr ln cb) = ARQ_TASK_READY"
  "r_prio (new_req ow d pr ar mr ln cb) = pr" "r_len (new_req ow d pr ar mr ln cb) = ln"
  "r_aram (new_req ow d pr ar mr ln cb) = ar" "r_mram (new_req ow d pr ar mr ln cb) = mr"
  "r_dir (new_req ow d pr ar mr ln cb) = d" "r_cb (new_req ow d pr ar mr ln CbDummy) = CbDummy"
  by (simp_all add: new_req_def)

lemma post_queue_fields [simp]:
  "pendLo (post_queue req r a) = pendLo a" "pendHi (post_queue req r a) = pendHi a" "dma (post_queue req r a) = dma a"
  "cbLo (post_queue req r a) = cbLo a" "cbHi (post_queue req r a) = cbHi a" "chunk (post_queue req r a) = chunk a"
  "reqs (post_queue req r a) = (reqs a)(req := r)"
  by (simp_all add: post_queue_def)

text \<open>On a busy queue a request waits its turn; on an idle one its transfer is started at once.\<close>

lemma Post_busy:
  fixes owner dir prio ar mr len :: u32 and cb :: arq_cb
  assumes "arq_ok a lo hi" "req_fresh a lo hi req" "busy a"
  defines "a' \<equiv> ARQ_PostRequestAsync req owner dir prio ar mr len cb a"
  shows "dma a' = dma a \<and> busy a' \<and>
    (if prio = ARQ_PRIO_LO then arq_ok a' (lo @ [req]) hi else arq_ok a' lo (hi @ [req]))"
  using post_queue_inv [of a lo hi req "new_req owner dir prio ar mr len cb"] assms
  unfolding a'_def Post_eq by (auto simp: arq_ok_def busy_def Let_def)

lemma Post_idle:
  fixes owner dir prio ar mr len :: u32 and cb :: arq_cb
  assumes "arq_ok a lo hi" "req_fresh a lo hi req" "\<not> busy a"
  defines "r \<equiv> new_req owner dir prio ar mr len cb"
  defines "a' \<equiv> ARQ_PostRequestAsync req owner dir prio ar mr len cb a"
  shows "arq_ok a' [] [] \<and>
    (if prio = ARQ_PRIO_LO then pendLo a' = req \<and> pendHi a' = 0 \<and> dma a' = dma a @ [chunk_dma (chunk a) r]
     else pendHi a' = req \<and> pendLo a' = 0 \<and> dma a' = dma a @ [req_dma r])"
proof -
  let ?b = "post_queue req r a"
  have e: "lo = []" "hi = []" "pendLo a = 0" "pendHi a = 0" using assms(1,3) by (auto simp: arq_ok_def busy_def)
  have c: "cbLo a = CbNull" using assms(1) e by (auto simp: arq_ok_def arq_inv_def)
  have i: "if prio = ARQ_PRIO_LO then arq_inv ?b [req] [] else arq_inv ?b [] [req]"
    using post_queue_inv [of a lo hi req r] assms(1,2) e by (simp add: arq_ok_def r_def split: if_splits)
  have "a' = locked (arq_next ?b)" unfolding a'_def Post_eq using assms(3) by (simp add: r_def)
  then show ?thesis using i arq_next_lo [of ?b req "[]"] arq_next_hi [of ?b "[]" req "[]"] e c by auto
qed

section \<open>The interrupt routine\<close>

definition finish_req :: "u32 \<Rightarrow> arq \<Rightarrow> arq" where
  "finish_req p a = upd_req p (\<lambda>r. r\<lparr>r_state := ARQ_TASK_FINISHED\<rparr>) a"

text \<open>The callback of a finished request, and what it must leave to the queue.\<close>

definition isr_cb :: "arq \<Rightarrow> arq_cb" where
  "isr_cb a = (if cbHi a \<noteq> CbNull then cbHi a else cbLo a)"

definition isr_req :: "arq \<Rightarrow> u32" where
  "isr_req a = (if cbHi a \<noteq> CbNull then pendHi a else pendLo a)"

definition same_pending :: "arq \<Rightarrow> arq \<Rightarrow> bool" where
  "same_pending a b \<longleftrightarrow> pendLo b = pendLo a \<and> pendHi b = pendHi a \<and> cbLo b = cbLo a \<and> cbHi b = cbHi a \<and> dma b = dma a"

definition clear_done :: "arq \<Rightarrow> arq" where
  "clear_done b = (if cbHi b \<noteq> CbNull then b\<lparr>pendHi := 0, cbHi := CbNull\<rparr> else b\<lparr>pendLo := 0, cbLo := CbNull\<rparr>)"

lemma ISR_eq:
  assumes "isr_cb a \<noteq> CbNull" "call_cb user (isr_cb a) (isr_req a) (finish_req (isr_req a) a) = Some b" "same_pending a b"
  shows "ARInterruptServiceRoutine user a = Some (arq_next (clear_done b))"
  using assms
  by (auto simp: ARInterruptServiceRoutine_def isr_cb_def isr_req_def finish_req_def clear_done_def same_pending_def
    arq_next_def Let_def split: if_splits)

lemma ISR_chunk:
  assumes "isr_cb a = CbNull"
  shows "ARInterruptServiceRoutine user a = Some (arq_next a)"
  using assms by (auto simp: ARInterruptServiceRoutine_def isr_cb_def arq_next_def Let_def split: if_splits)

lemma clear_done_inv:
  assumes "arq_inv b lo hi" "isr_cb b \<noteq> CbNull"
  shows "arq_inv (clear_done b) lo hi \<and> pendHi (clear_done b) = 0 \<and> cbLo (clear_done b) = CbNull \<and>
    dma (clear_done b) = dma b \<and> pendLo (clear_done b) = (if cbHi b \<noteq> CbNull then pendLo b else 0)"
  using assms by (auto simp: arq_inv_def pend_apart_def clear_done_def isr_cb_def)

lemma finish_req_inv:
  assumes "arq_inv a lo hi" "isr_cb a \<noteq> CbNull"
  shows "arq_inv (finish_req (isr_req a) a) lo hi" "same_pending a (finish_req (isr_req a) a)"
proof -
  have "isr_req a \<noteq> 0" "isr_req a \<notin> set lo \<union> set hi"
    using assms by (auto simp: isr_cb_def isr_req_def arq_inv_def pend_apart_def node_fresh_def set_words split: if_splits)
  then show "arq_inv (finish_req (isr_req a) a) lo hi" "same_pending a (finish_req (isr_req a) a)"
    using assms(1) by (auto simp: finish_req_def arq_inv_def pend_apart_def upd_req_def same_pending_def)
qed

text \<open>
  A callback that may post requests, or wake threads, but leaves the pending ones alone: the interrupt
  routine keeps the invariant, and starts exactly one transfer unless all work is done.
\<close>

lemma ISR_ok:
  assumes "arq_ok a lo hi" "busy a"
    "isr_cb a \<noteq> CbNull \<longrightarrow> (\<exists>b lo' hi'. call_cb user (isr_cb a) (isr_req a) (finish_req (isr_req a) a) = Some b \<and>
       same_pending a b \<and> arq_inv b lo' hi')"
  shows "\<exists>a' lo' hi'. ARInterruptServiceRoutine user a = Some a' \<and> arq_ok a' lo' hi' \<and>
    length (dma a') = length (dma a) + (if busy a' then 1 else 0)"
proof (cases "isr_cb a = CbNull")
  case True
  have i: "arq_inv a lo hi" using assms(1) by (simp add: arq_ok_def)
  then have "pendHi a = 0" "cbLo a = CbNull" using True by (auto simp: isr_cb_def arq_inv_def split: if_splits)
  from arq_next_ok [OF i this] show ?thesis using ISR_chunk [OF True] by (metis surj_pair)
next
  case False
  then obtain b lo' hi' where b: "call_cb user (isr_cb a) (isr_req a) (finish_req (isr_req a) a) = Some b"
      "same_pending a b" "arq_inv b lo' hi'" using assms(3) by blast
  have "isr_cb b \<noteq> CbNull" using False b(2) by (auto simp: isr_cb_def same_pending_def)
  note c = clear_done_inv [OF b(3) this]
  from arq_next_ok [of "clear_done b" lo' hi'] c have
    "\<exists>l h. arq_ok (arq_next (clear_done b)) l h \<and>
       length (dma (arq_next (clear_done b))) = length (dma b) + (if busy (arq_next (clear_done b)) then 1 else 0)"
    by (metis surj_pair)
  then show ?thesis using ISR_eq [OF False b(1,2)] b(2) by (auto simp: same_pending_def)
qed

text \<open>The callbacks of the repository leave the queue alone.\<close>

lemma call_dummy: "call_cb user CbDummy r a = Some a"
  by (simp add: call_cb_def)

lemma call_sync:
  "LWP_ThreadBroadcast (syncq a) (lw a) = Some w \<Longrightarrow> call_cb user CbSync r a = Some (a\<lparr>lw := w\<rparr>)"
  by (simp add: call_cb_def)

section \<open>Chunks\<close>

text \<open>The transfers of a low priority request: chunks of size \<open>c\<close>, the last one with what is left.\<close>

function chunks :: "u32 \<Rightarrow> u32 \<Rightarrow> u32 \<Rightarrow> u32 \<Rightarrow> u32 \<Rightarrow> dma_op list" where
  "chunks c dir mr ar len =
     (if len \<le> c \<or> c = 0 then [\<lparr>d_dir = dir, d_mram = mr, d_aram = ar, d_len = len\<rparr>]
      else \<lparr>d_dir = dir, d_mram = mr, d_aram = ar, d_len = c\<rparr> # chunks c dir (mr + c) (ar + c) (len - c))"
  by auto
termination
proof (relation "measure (\<lambda>(c, dir, mr, ar, len). unat len)")
  fix c dir mr ar len :: u32
  assume a: "\<not> (len \<le> c \<or> c = 0)"
  then have "unat (len - c) = unat len - unat c" by (intro unat_sub) auto
  then show "((c, dir, mr + c, ar + c, len - c), (c, dir, mr, ar, len)) \<in> measure (\<lambda>(c, dir, mr, ar, len). unat len)"
    using a unat_gt_0 [of c] by (auto simp: word_le_nat_alt)
qed simp

declare chunks.simps [simp del]

lemma chunks_step: "len \<le> c \<or> c = 0 \<Longrightarrow> chunks c dir mr ar len = [\<lparr>d_dir = dir, d_mram = mr, d_aram = ar, d_len = len\<rparr>]"
    "\<not> len \<le> c \<Longrightarrow> c \<noteq> 0 \<Longrightarrow> chunks c dir mr ar len =
       \<lparr>d_dir = dir, d_mram = mr, d_aram = ar, d_len = c\<rparr> # chunks c dir (mr + c) (ar + c) (len - c)"
  by (subst chunks.simps, simp)+

text \<open>They cover the request: no chunk is longer than \<open>c\<close>, and each one continues where the last one ended.\<close>

lemma chunks_len: "sum_list (map (\<lambda>d. unat (d_len d)) (chunks c dir mr ar len)) = unat len"
proof (induction c dir mr ar len rule: chunks.induct)
  case (1 c dir mr ar len)
  show ?case
  proof (cases "len \<le> c \<or> c = 0")
    case False
    then have "unat c \<le> unat len" by (simp add: word_le_nat_alt)
    then show ?thesis using 1 False by (simp add: chunks_step unat_sub word_le_nat_alt)
  qed (simp add: chunks_step)
qed

lemma chunks_bound: "c \<noteq> 0 \<Longrightarrow> d \<in> set (chunks c dir mr ar len) \<Longrightarrow> d_len d \<le> c \<and> d_dir d = dir"
proof (induction c dir mr ar len rule: chunks.induct)
  case (1 c dir mr ar len)
  then show ?case by (cases "len \<le> c \<or> c = 0") (auto simp: chunks_step)
qed

fun contiguous :: "u32 \<Rightarrow> u32 \<Rightarrow> dma_op list \<Rightarrow> bool" where
  "contiguous mr ar [] \<longleftrightarrow> True"
| "contiguous mr ar (d # ds) \<longleftrightarrow> d_mram d = mr \<and> d_aram d = ar \<and> contiguous (mr + d_len d) (ar + d_len d) ds"

lemma chunks_contiguous: "contiguous mr ar (chunks c dir mr ar len)"
proof (induction c dir mr ar len rule: chunks.induct)
  case (1 c dir mr ar len)
  then show ?case by (cases "len \<le> c \<or> c = 0") (auto simp: chunks_step)
qed

text \<open>The interrupt routine, once for each transfer that ends.\<close>

fun isr_times :: "(arq_cb \<Rightarrow> u32 \<Rightarrow> arq \<Rightarrow> arq option) \<Rightarrow> nat \<Rightarrow> arq \<Rightarrow> arq option" where
  "isr_times user 0 a = Some a"
| "isr_times user (Suc n) a = do { b \<leftarrow> ARInterruptServiceRoutine user a; isr_times user n b }"

lemma start_lo_reqs: "reqs (start_lo x a) x =
    (let r = (reqs a x)\<lparr>r_state := ARQ_TASK_RUNNING\<rparr> in
     if r_len r \<le> chunk a then r
     else r\<lparr>r_len := r_len r - chunk a, r_aram := r_aram r + chunk a, r_mram := r_mram r + chunk a\<rparr>)"
  by (simp add: start_lo_def upd_req_def AR_StartDMA_def Let_def)

lemma chunks_run:
  assumes "arq_inv a [] []" "pendLo a = req" "req \<noteq> 0" "pendHi a = 0" "chunk a = c" "c \<noteq> 0" "cbLo a = CbNull"
    "reqs a req = r" "r_dir r = dir" "r_mram r = mr" "r_aram r = ar" "r_len r = len" "r_cb r = CbDummy"
  shows "\<exists>a'. isr_times user (length (chunks c dir mr ar len)) (start_lo req a) = Some a' \<and>
    dma a' = dma a @ chunks c dir mr ar len \<and> r_state (reqs a' req) = ARQ_TASK_FINISHED \<and> \<not> busy a' \<and> arq_ok a' [] []"
  using assms
proof (induction c dir mr ar len arbitrary: a r rule: chunks.induct)
  case (1 c dir mr ar len)
  let ?b = "start_lo req a"
  have ib: "arq_inv ?b [] []" using start_lo_inv [of a "[]" "[]"] 1(2-5) by simp
  have cbHi: "cbHi a = CbNull" using 1(2,5) by (simp add: arq_inv_def)
  show ?case
  proof (cases "len \<le> c")
    case True
    have cb: "isr_cb ?b = CbDummy" "isr_req ?b = req" using cbHi 1 True by (auto simp: isr_cb_def isr_req_def)
    let ?f = "finish_req req ?b"
    have f: "arq_inv ?f [] []" "same_pending ?b ?f" using finish_req_inv [OF ib] cb by simp_all
    have s: "ARInterruptServiceRoutine user ?b = Some (arq_next (clear_done ?f))"
      using ISR_eq [of ?b user ?f] cb f(2) call_dummy by simp
    have "isr_cb ?f \<noteq> CbNull" using f(2) cb by (auto simp: isr_cb_def same_pending_def)
    note c = clear_done_inv [OF f(1) this]
    have ch: "cbHi ?f = CbNull" using f(2) cbHi by (simp add: same_pending_def)
    have "arq_next (clear_done ?f) = clear_done ?f" using c ch by (intro arq_next_idle) auto
    moreover have "reqs (clear_done ?f) req = (reqs ?b req)\<lparr>r_state := ARQ_TASK_FINISHED\<rparr>"
      by (simp add: clear_done_def finish_req_def upd_req_def)
    moreover have "dma (clear_done ?f) = dma a @ chunks c dir mr ar len"
      using c f(2) 1 True by (simp add: same_pending_def start_lo_dma chunks_step chunk_dma_def req_dma_def)
    ultimately show ?thesis using s c ch 1 True by (simp add: chunks_step busy_def arq_ok_def)
  next
    case False
    let ?r = "reqs ?b req"
    have cb: "isr_cb ?b = CbNull" using cbHi 1 False by (simp add: isr_cb_def)
    have "arq_next ?b = start_lo req ?b" using arq_next_cont [of ?b "[]"] ib 1 by simp
    then have s: "ARInterruptServiceRoutine user ?b = Some (start_lo req ?b)" using ISR_chunk [OF cb] by simp
    have r: "r_dir ?r = dir" "r_mram ?r = mr + c" "r_aram ?r = ar + c" "r_len ?r = len - c" "r_cb ?r = CbDummy"
      using 1 False by (simp_all add: start_lo_reqs Let_def)
    have "\<exists>a'. isr_times user (length (chunks c dir (mr + c) (ar + c) (len - c))) (start_lo req ?b) = Some a' \<and>
        dma a' = dma ?b @ chunks c dir (mr + c) (ar + c) (len - c) \<and>
        r_state (reqs a' req) = ARQ_TASK_FINISHED \<and> \<not> busy a' \<and> arq_ok a' [] []"
      by (rule 1(1) [of ?b ?r]) (use False 1(2-) ib r in simp_all)
    then show ?thesis using s 1 False by (auto simp: chunks_step start_lo_dma chunk_dma_def req_dma_def)
  qed
qed

text \<open>A low priority request on an idle queue is transferred completely, chunk by chunk.\<close>

lemma Post_chunks:
  assumes "arq_ok a [] []" "\<not> busy a" "req_fresh a [] [] req" "chunk a \<noteq> 0"
  shows "\<exists>a'. isr_times user (length (chunks (chunk a) dir mr ar len))
      (ARQ_PostRequestAsync req owner dir ARQ_PRIO_LO ar mr len CbDummy a) = Some a' \<and>
    dma a' = dma a @ chunks (chunk a) dir mr ar len \<and> r_state (reqs a' req) = ARQ_TASK_FINISHED \<and> \<not> busy a'"
proof -
  let ?r = "new_req owner dir ARQ_PRIO_LO ar mr len CbDummy"
  let ?b = "post_queue req ?r a" and ?m = "lwp_queue_extractI req (amem (post_queue req ?r a))"
  let ?c = "?b\<lparr>amem := ?m, pendLo := req\<rparr>"
  have e: "pendLo a = 0" "pendHi a = 0" "cbLo a = CbNull" using assms(1,2) by (auto simp: arq_ok_def busy_def arq_inv_def)
  have i: "arq_inv ?b [req] []" using post_queue_inv [of a "[]" "[]" req ?r] assms(1,3) by (simp add: arq_ok_def)
  have n: "arq_next ?b = start_lo req ?c"
    using e i by (simp add: arq_next_def PopHi_nil [OF i] ServiceLo_cons [OF i] Let_def)
  have P: "ARQ_PostRequestAsync req owner dir ARQ_PRIO_LO ar mr len CbDummy a = start_lo req (locked ?c)"
    using assms(2) n by (simp add: Post_eq) (simp add: locked_def lw_update)
  have c: "arq_inv (locked ?c) [] []" using queue_get_lo_inv [OF i] e by simp
  have z: "req \<noteq> 0" using assms(3) by (simp add: req_fresh_def node_fresh_def)
  from chunks_run [OF c, of req "chunk a" ?r dir mr ar len user] show ?thesis
    unfolding P using z e assms(4) by auto
qed

section \<open>Removing requests\<close>

text \<open>The loop over a queue keeps the requests of other owners and counts the ones it unlinks.\<close>

lemma remove_owner_loop_list:
  assumes "lwp_list (amem a) q (ys @ zs)" "length zs < k"
  shows "\<exists>m. remove_owner_loop k (q + 4) owner (hd (zs @ [q + 4])) cnt a =
      Some (q + 4, cnt + of_nat (length (filter (\<lambda>r. r_owner (reqs a r) = owner) zs)), a\<lparr>amem := m\<rparr>) \<and>
    lwp_list m q (ys @ filter (\<lambda>r. r_owner (reqs a r) \<noteq> owner) zs) \<and>
    (\<forall>p. p \<notin> set (words q (ys @ zs)) \<longrightarrow> m p = amem a p)"
  using assms
proof (induction zs arbitrary: a ys cnt k)
  case Nil
  then obtain k' where "k = Suc k'" by (cases k) auto
  then show ?case using Nil by (intro exI [of _ "amem a"]) simp
next
  case (Cons x zs)
  obtain k' where k: "k = Suc k'" "length zs < k'" using Cons.prems(2) by (cases k) auto
  have x: "x \<noteq> q + 4" using lwp_list_distinct(3) [OF Cons.prems(1)] by auto
  have nx: "amem a x = hd (zs @ [q + 4])" using lwp_list_next [OF Cons.prems(1)] by (cases zs) simp_all
  show ?case
  proof (cases "r_owner (reqs a x) = owner")
    case True
    let ?m = "lwp_queue_extractI x (amem a)"
    let ?a = "a\<lparr>amem := ?m\<rparr>"
    have l: "lwp_list (amem ?a) q (ys @ zs)" using extractI_list(1) [OF Cons.prems(1)] by simp
    have "x \<notin> set (words q (ys @ zs))"
    proof -
      have "distinct (cells (chain_of q (ys @ x # zs)))" using Cons.prems(1) by (simp add: lwp_list_def words_def)
      moreover have "cells (chain_of q (ys @ x # zs)) = cells ((q # ys) @ [x]) @ cells (x # zs @ [q + 4])"
        using cells_append [of "q # ys" x "zs @ [q + 4]"] by (simp add: chain_of_def)
      ultimately have "x \<notin> set (cells ((q # ys) @ [x]))" "x \<notin> set (tl (cells (x # zs @ [q + 4])))"
        by (cases zs; force)+
      then show ?thesis
        using x lwp_list_distinct [OF Cons.prems(1)] set_cells [of q ys x] set_cells [of "hd (zs @ [q + 4])" "tl zs" "q + 4"]
        by (cases zs) (auto simp: set_words add.commute)
    qed
    then have e: "?m x = hd (zs @ [q + 4])" using extractI_list(2) [OF Cons.prems(1)] nx by simp
    obtain m where m: "remove_owner_loop k' (q + 4) owner (hd (zs @ [q + 4])) (cnt + 1) ?a =
        Some (q + 4, cnt + 1 + of_nat (length (filter (\<lambda>r. r_owner (reqs ?a r) = owner) zs)), ?a\<lparr>amem := m\<rparr>)"
        "lwp_list m q (ys @ filter (\<lambda>r. r_owner (reqs ?a r) \<noteq> owner) zs)"
        "\<forall>p. p \<notin> set (words q (ys @ zs)) \<longrightarrow> m p = ?m p"
      using Cons.IH [OF l k(2), of "cnt + 1"] by auto
    have "\<forall>p. p \<notin> set (words q (ys @ x # zs)) \<longrightarrow> m p = amem a p"
      using m(3) extractI_list(2) [OF Cons.prems(1)] words_mono [of "ys @ zs" "ys @ x # zs" q] by auto
    then show ?thesis using m k x e True by (intro exI [of _ m]) (simp add: Let_def add_ac)
  next
    case False
    have "lwp_list (amem a) q ((ys @ [x]) @ zs)" using Cons.prems(1) by simp
    from Cons.IH [OF this k(2), of cnt] show ?thesis using k x nx False by (simp add: Let_def)
  qed
qed

lemma RemoveOwner_ok:
  assumes "arq_inv a lo hi" "length lo < k" "length hi < k" "pendLo a \<noteq> qLo a + 4 \<or> pendLo a = 0"
  shows "\<exists>a'. ARQ_RemoveOwnerRequest k owner a =
      Some (of_nat (length (filter (\<lambda>r. r_owner (reqs a r) = owner) (hi @ lo))), a') \<and>
    lwp_list (amem a') (qLo a) (filter (\<lambda>r. r_owner (reqs a r) \<noteq> owner) lo) \<and>
    lwp_list (amem a') (qHi a) (filter (\<lambda>r. r_owner (reqs a r) \<noteq> owner) hi) \<and>
    pendLo a' = pendLo a \<and> pendHi a' = pendHi a \<and> dma a' = dma a"
proof -
  note D = arq_invD [OF assms(1)]
  let ?F = "filter (\<lambda>r. r_owner (reqs a r) \<noteq> owner)"
  define a0 where "a0 = a\<lparr>lw := (lw a)\<lparr>ks := snd (PPCIrqLockByMsr (ks (lw a)))\<rparr>\<rparr>"
  have first: "lwp_list m q xs \<Longrightarrow> m q = hd (xs @ [q + 4])" for m q xs by (cases xs) (auto dest: lwp_list_first)
  obtain m1 where m1: "remove_owner_loop k (qHi a + 4) owner (amem a (qHi a)) 0 a0 =
      Some (qHi a + 4, of_nat (length (filter (\<lambda>r. r_owner (reqs a r) = owner) hi)), a0\<lparr>amem := m1\<rparr>)"
      "lwp_list m1 (qHi a) (?F hi)" "\<forall>p. p \<notin> set (words (qHi a) hi) \<longrightarrow> m1 p = amem a p"
    using remove_owner_loop_list [of a0 "qHi a" "[]" hi k owner 0] D(2) assms(3) first [OF D(2)] by (auto simp: a0_def)
  let ?a1 = "a0\<lparr>amem := m1\<rparr>"
  have "lwp_list m1 (qLo a) lo = lwp_list (amem a) (qLo a) lo" using m1(3) D(3) by (intro lwp_list_cong) blast
  then have l1: "lwp_list m1 (qLo a) lo" using D(1) by simp
  obtain m2 where m2: "remove_owner_loop k (qLo a + 4) owner (m1 (qLo a)) (of_nat (length (filter (\<lambda>r. r_owner (reqs a r) = owner) hi))) ?a1 =
      Some (qLo a + 4, of_nat (length (filter (\<lambda>r. r_owner (reqs a r) = owner) (hi @ lo))), a0\<lparr>amem := m2\<rparr>)"
      "lwp_list m2 (qLo a) (?F lo)" "\<forall>p. p \<notin> set (words (qLo a) lo) \<longrightarrow> m2 p = m1 p"
    using remove_owner_loop_list [of ?a1 "qLo a" "[]" lo k owner "of_nat (length (filter (\<lambda>r. r_owner (reqs a r) = owner) hi))"]
      l1 assms(2) first [OF l1] by (auto simp: a0_def)
  have "set (words (qHi a) (?F hi)) \<subseteq> set (words (qHi a) hi)" by (rule words_mono) auto
  then have "lwp_list m2 (qHi a) (?F hi) = lwp_list m1 (qHi a) (?F hi)" using m2(3) D(3) by (intro lwp_list_cong) blast
  then have h2: "lwp_list m2 (qHi a) (?F hi)" using m1(2) by simp
  have c: "clear_pendLo (qLo a + 4) (a0\<lparr>amem := m2\<rparr>) = a0\<lparr>amem := m2\<rparr>"
    using assms(4) by (auto simp: clear_pendLo_def a0_def)
  show ?thesis
    unfolding ARQ_RemoveOwnerRequest_def
    using m1(1) m2(1,2) h2 c by (simp add: case_prod_beta lwp_queue_tail_def a0_def Let_def)
qed

section \<open>Initialisation and flushing\<close>

lemma init_both:
  assumes "set (words lo []) \<inter> set (words hi []) = {}"
  shows "lwp_list (lwp_queue_init_empty hi (lwp_queue_init_empty lo m)) lo []"
    "lwp_list (lwp_queue_init_empty hi (lwp_queue_init_empty lo m)) hi []"
proof -
  let ?m = "lwp_queue_init_empty lo m"
  have "lwp_list (lwp_queue_init_empty hi ?m) lo [] = lwp_list ?m lo []"
    using assms by (intro lwp_list_cong) (auto simp: set_words lwp_queue_init_empty_def)
  then show "lwp_list (lwp_queue_init_empty hi ?m) lo []" "lwp_list (lwp_queue_init_empty hi ?m) hi []"
    using init_empty_list by simp_all
qed

lemma ARQ_Init_ok:
  assumes "\<not> initflag a" "set (words (qLo a) []) \<inter> set (words (qHi a) []) = {}"
  shows "arq_ok (ARQ_Init a) [] [] \<and> \<not> busy (ARQ_Init a) \<and> chunk (ARQ_Init a) = ARQ_DEF_CHUNK_SIZE \<and> initflag (ARQ_Init a)"
  using assms init_both [OF assms(2)]
  by (simp add: ARQ_Init_def isr_section_def case_prod_beta arq_ok_def arq_inv_def pend_apart_def busy_def Let_def)

lemma ARQ_Init_again: "initflag a \<Longrightarrow> ARQ_Init a = a"
  by (simp add: ARQ_Init_def)

lemma Flush_ok:
  assumes "arq_inv a lo hi"
  shows "arq_ok (ARQ_FlushQueue a) [] []" "dma (ARQ_FlushQueue a) = dma a" "pendHi (ARQ_FlushQueue a) = pendHi a"
    "pendLo (ARQ_FlushQueue a) = (if cbLo a = CbNull then 0 else pendLo a)"
proof -
  have "set (words (qLo a) []) \<inter> set (words (qHi a) []) = {}"
    using arq_invD(3) [OF assms] words_mono [of "[]" lo "qLo a"] words_mono [of "[]" hi "qHi a"] by auto
  note l = init_both [OF this, of "amem a"]
  have "node_fresh (qLo a) lo p \<Longrightarrow> node_fresh (qLo a) [] p" "node_fresh (qHi a) hi p \<Longrightarrow> node_fresh (qHi a) [] p" for p
    by (auto intro: node_fresh_mono)
  then show "arq_ok (ARQ_FlushQueue a) [] []"
    using assms l \<open>_ \<inter> _ = {}\<close>
    by (auto simp: ARQ_FlushQueue_def isr_section_def case_prod_beta arq_ok_def arq_inv_def pend_apart_def Let_def)
  show "dma (ARQ_FlushQueue a) = dma a" "pendHi (ARQ_FlushQueue a) = pendHi a"
    "pendLo (ARQ_FlushQueue a) = (if cbLo a = CbNull then 0 else pendLo a)"
    by (simp_all add: ARQ_FlushQueue_def isr_section_def case_prod_beta Let_def)
qed

lemma ARQ_SetChunkSize_aligned:
  "chunk (ARQ_SetChunkSize sz a) AND 31 = 0"
  "unat sz + 31 < 2 ^ 32 \<Longrightarrow> sz \<le> chunk (ARQ_SetChunkSize sz a)"
proof -
  have c: "chunk (ARQ_SetChunkSize sz a) = (sz + 31) AND NOT 31"
    by (simp add: ARQ_SetChunkSize_def isr_section_def case_prod_beta)
  have m: "(31 :: u32) = mask 5" by (simp add: mask_eq_exp_minus_1)
  show "chunk (ARQ_SetChunkSize sz a) AND 31 = 0" unfolding c by (simp add: and.assoc)
  assume "unat sz + 31 < 2 ^ 32"
  then show "sz \<le> chunk (ARQ_SetChunkSize sz a)" unfolding c m by (intro align_up) simp_all
qed

end
