(* ===== verification/ArqMgr.thy ===== *)
theory ArqMgr
  imports ArQueue
begin

text \<open>
  The ARAM stack manager \<^verbatim>\<open>libogc/arqmgr.c\<close>: a stack of blocks in auxiliary memory, each pushed by a
  high priority transfer. A push posts its request and then spins until the callback has run:
  \<open>ARQM_PushData\<close> is the part up to the loop, \<open>ARQM_PushData_poll\<close> one look at the flag.
  The fields of \<^verbatim>\<open>ARQM_Info\<close> that no code reads (\<^verbatim>\<open>callback\<close>, \<^verbatim>\<open>buffer\<close>, \<^verbatim>\<open>file_len\<close>, \<^verbatim>\<open>read_len\<close>,
  \<^verbatim>\<open>curr_read_offset\<close>, \<^verbatim>\<open>curr_aram_offset\<close>) are left out, and so is the content of the zero buffer.
\<close>

record arqm =
  aq :: arq
  StackLocation :: u32
  FreeBytes :: u32
  StackPointer :: "nat \<Rightarrow> u32"
  aram_start :: "nat \<Rightarrow> u32"
  ZeroBuffer :: u32

abbreviation ARQM_STACKENTRIES :: nat where "ARQM_STACKENTRIES \<equiv> 16"
abbreviation ARQM_ZEROBYTES :: u32 where "ARQM_ZEROBYTES \<equiv> 256"

definition ROUNDUP32 :: "u32 \<Rightarrow> u32" where
  "ROUNDUP32 x = (x + 0x1f) AND NOT 0x1f"

text \<open>The section with interrupts off: reset the flag of entry \<open>i\<close> and post its request.\<close>

definition push_transfer :: "nat \<Rightarrow> u32 \<Rightarrow> u32 \<Rightarrow> u32 \<Rightarrow> u32 \<Rightarrow> arq \<Rightarrow> arq" where
  "push_transfer i owner start buffer rlen q =
     (let (level, k) = PPCIrqLockByMsr (ks (lw q));
          q1 = q\<lparr>lw := (lw q)\<lparr>ks := k\<rparr>, polled := (polled q)(i := False)\<rparr>;
          q2 = ARQ_PostRequestAsync (arqm_handle q1 i) owner 0 ARQ_PRIO_HI start buffer rlen CbPoll q1
      in q2\<lparr>lw := (lw q2)\<lparr>ks := PPCIrqUnlockByMsr level (ks (lw q2))\<rparr>\<rparr>)"

text \<open>\<open>Inl 0\<close> is the failure return; \<open>Inr i\<close> is waiting for entry \<open>i\<close>.\<close>

definition ARQM_PushData :: "u32 \<Rightarrow> u32 \<Rightarrow> arqm \<Rightarrow> (u32 + nat) \<times> arqm" where
  "ARQM_PushData buffer len s =
     (if buffer AND 0x1f \<noteq> 0 \<or> len \<le>s 0 then (Inl 0, s)
      else let rlen = ROUNDUP32 len in
        if FreeBytes s \<ge> rlen \<and> unat (StackLocation s) < ARQM_STACKENTRIES - 1
        then let i = unat (StackLocation s);
                 start = StackPointer s i;
                 loc = StackLocation s + 1
             in (Inr i, s\<lparr>aq := push_transfer i (loc - 1) start buffer rlen (aq s), StackLocation := loc,
                          aram_start := (aram_start s)(i := start),
                          StackPointer := (StackPointer s)(Suc i := start + rlen),
                          FreeBytes := FreeBytes s - rlen\<rparr>)
        else (Inl 0, s))"

definition ARQM_PushData_poll :: "nat \<Rightarrow> arqm \<Rightarrow> u32 option" where
  "ARQM_PushData_poll i s = (if polled (aq s) i then Some (aram_start s i) else None)"

definition ARQM_Init :: "u32 \<Rightarrow> u32 \<Rightarrow> arqm \<Rightarrow> ((u32 + nat) \<times> arqm) option" where
  "ARQM_Init arambase len s =
     (if len \<le>s 0 then None
      else Some (ARQM_PushData (ZeroBuffer s) ARQM_ZEROBYTES
        (s\<lparr>StackLocation := 0, StackPointer := (StackPointer s)(0 := arambase), FreeBytes := len\<rparr>)))"

definition ARQM_Pop :: "arqm \<Rightarrow> arqm" where
  "ARQM_Pop s =
     (let (level, k) = PPCIrqLockByMsr (ks (lw (aq s)));
          s1 = (if StackLocation s > 1
                then let i = unat (StackLocation s) in
                     s\<lparr>FreeBytes := FreeBytes s + (StackPointer s i - StackPointer s (i - 1)),
                       StackLocation := StackLocation s - 1\<rparr>
                else s)
      in s1\<lparr>aq := (aq s1)\<lparr>lw := (lw (aq s1))\<lparr>ks := PPCIrqUnlockByMsr level k\<rparr>\<rparr>\<rparr>)"

definition ARQM_GetZeroBuffer :: "arqm \<Rightarrow> u32" where
  "ARQM_GetZeroBuffer s = StackPointer s 0"

definition ARQM_GetStackPointer :: "arqm \<Rightarrow> u32" where
  "ARQM_GetStackPointer s = StackPointer s (unat (StackLocation s))"

definition ARQM_GetFreeSize :: "arqm \<Rightarrow> u32" where
  "ARQM_GetFreeSize s = FreeBytes s"

section \<open>The stack\<close>

text \<open>
  The blocks lie one after the other between \<open>base\<close> and the stack pointer, and the free bytes are what
  is left of the area: nothing wraps around.
\<close>

definition arqm_ok :: "u32 \<Rightarrow> nat \<Rightarrow> arqm \<Rightarrow> bool" where
  "arqm_ok base tot s \<longleftrightarrow>
     unat (StackLocation s) < ARQM_STACKENTRIES \<and> StackPointer s 0 = base \<and> unat base + tot < 2 ^ 32 \<and>
     (\<forall>i < unat (StackLocation s). StackPointer s i < StackPointer s (Suc i)) \<and>
     unat (StackPointer s (unat (StackLocation s))) + unat (FreeBytes s) = unat base + tot"

lemma roundup32:
  assumes "0 <s len"
  shows "len \<le> ROUNDUP32 len" "ROUNDUP32 len AND 0x1f = 0" "0 < ROUNDUP32 len"
proof -
  have m: "(0x1f :: u32) = mask 5" by (simp add: mask_eq_exp_minus_1)
  define u where "u = uint len"
  have "0 < sint len" using assms by (simp add: word_sless_alt)
  then have "0 < u \<and> u < 2 ^ 31"
    using sint_uint_if [of len] unsigned_less [of len, where ?'a = int] by (auto simp: u_def [symmetric] split: if_splits)
  moreover have "u = int (unat len)" by (simp add: u_def)
  ultimately have "0 < int (unat len)" "int (unat len) < int (2 ^ 31)" by simp_all
  then have p: "0 < unat len" "unat len < 2 ^ 31" by (simp only: of_nat_0_less_iff, simp only: of_nat_less_iff)
  then have a: "unat len + 2 ^ 5 - 1 < 2 ^ LENGTH(32)" by simp
  show "len \<le> ROUNDUP32 len" "ROUNDUP32 len AND 0x1f = 0"
    unfolding ROUNDUP32_def m using align_up [OF a] by simp_all
  then show "0 < ROUNDUP32 len" using p(1) by (simp add: word_le_nat_alt word_less_nat_alt)
qed

lemma push_accept:
  assumes "buffer AND 0x1f = 0" "0 <s len" "ROUNDUP32 len \<le> FreeBytes s" "unat (StackLocation s) < 15"
  shows "ARQM_PushData buffer len s = (Inr (unat (StackLocation s)),
     s\<lparr>aq := push_transfer (unat (StackLocation s)) (StackLocation s) (ARQM_GetStackPointer s) buffer (ROUNDUP32 len) (aq s), StackLocation := StackLocation s + 1,
       aram_start := (aram_start s)(unat (StackLocation s) := ARQM_GetStackPointer s),
       StackPointer := (StackPointer s)(Suc (unat (StackLocation s)) := ARQM_GetStackPointer s + ROUNDUP32 len),
       FreeBytes := FreeBytes s - ROUNDUP32 len\<rparr>)"
proof -
  have "\<not> len \<le>s 0" using assms(2) by (simp add: word_sle_eq word_sless_alt)
  then show ?thesis using assms
    by (simp add: ARQM_PushData_def ARQM_GetStackPointer_def case_prod_beta Let_def)
qed

lemma unat_succ15: "unat (x :: u32) < 15 \<Longrightarrow> unat (x + 1) = Suc (unat x)"
  by (simp add: unat_word_ariths)

lemma push_ok:
  assumes "arqm_ok base tot s" "buffer AND 0x1f = 0" "0 <s len" "ROUNDUP32 len \<le> FreeBytes s" "unat (StackLocation s) < 15"
    "ARQM_PushData buffer len s = (r, s')"
  shows "arqm_ok base tot s' \<and> r = Inr (unat (StackLocation s)) \<and>
    aram_start s' (unat (StackLocation s)) = ARQM_GetStackPointer s \<and>
    unat (ARQM_GetStackPointer s') = unat (ARQM_GetStackPointer s) + unat (ROUNDUP32 len) \<and>
    unat (ARQM_GetFreeSize s') = unat (ARQM_GetFreeSize s) - unat (ROUNDUP32 len)"
proof -
  let ?i = "unat (StackLocation s)" and ?r = "ROUNDUP32 len"
  obtain q where s': "r = Inr ?i" "s' = s\<lparr>aq := q, StackLocation := StackLocation s + 1,
       aram_start := (aram_start s)(?i := ARQM_GetStackPointer s),
       StackPointer := (StackPointer s)(Suc ?i := ARQM_GetStackPointer s + ?r),
       FreeBytes := FreeBytes s - ?r\<rparr>"
    using push_accept [OF assms(2-5)] assms(6) by auto
  have i: "unat (StackLocation s + 1) = Suc ?i" by (rule unat_succ15 [OF assms(5)])
  have f: "unat (FreeBytes s - ?r) = unat (FreeBytes s) - unat ?r" "unat ?r \<le> unat (FreeBytes s)"
    using assms(4) by (simp_all add: unat_sub word_le_nat_alt)
  have sum: "unat (StackPointer s ?i) + unat (FreeBytes s) = unat base + tot" "unat base + tot < 2 ^ 32"
    using assms(1) by (simp_all add: arqm_ok_def)
  then have sp: "unat (StackPointer s ?i + ?r) = unat (StackPointer s ?i) + unat ?r"
    using f(2) by (simp add: unat_word_ariths)
  have lt: "StackPointer s ?i < StackPointer s ?i + ?r"
    using sp roundup32(3) [OF assms(3)] by (simp add: word_less_nat_alt)
  show ?thesis
    using assms(1,5) i f sum sp lt unfolding s'
    by (auto simp: arqm_ok_def ARQM_GetStackPointer_def ARQM_GetFreeSize_def less_Suc_eq)
qed

text \<open>A push that finds no room, or gets a bad buffer or length, changes nothing.\<close>

lemma push_refuse:
  "buffer AND 0x1f \<noteq> 0 \<or> len \<le>s 0 \<or> FreeBytes s < ROUNDUP32 len \<or> 15 \<le> unat (StackLocation s) \<Longrightarrow>
   ARQM_PushData buffer len s = (Inl 0, s)"
  by (auto simp: ARQM_PushData_def Let_def)

lemma pop_fields:
  "StackLocation (ARQM_Pop s) = (if StackLocation s > 1 then StackLocation s - 1 else StackLocation s)"
  "FreeBytes (ARQM_Pop s) = (if StackLocation s > 1 then FreeBytes s +
     (StackPointer s (unat (StackLocation s)) - StackPointer s (unat (StackLocation s) - 1)) else FreeBytes s)"
  "StackPointer (ARQM_Pop s) = StackPointer s"
  by (simp_all add: ARQM_Pop_def case_prod_beta Let_def)

lemma unat_pred: "(x :: u32) > 1 \<Longrightarrow> unat (x - 1) = unat x - 1"
  by (rule unat_minus_one) auto

lemma pop_ok:
  assumes "arqm_ok base tot s"
  shows "arqm_ok base tot (ARQM_Pop s)"
proof (cases "StackLocation s > 1")
  case True
  let ?i = "unat (StackLocation s)"
  have i: "unat (StackLocation s - 1) = ?i - 1" "1 < ?i" using True unat_pred by (auto simp: word_less_nat_alt)
  have lt: "StackPointer s (?i - 1) < StackPointer s ?i"
    using assms i(2) unfolding arqm_ok_def by (metis One_nat_def Suc_pred' diff_less less_trans zero_less_one)
  have sum: "unat (StackPointer s ?i) + unat (FreeBytes s) = unat base + tot" "unat base + tot < 2 ^ 32"
    using assms by (simp_all add: arqm_ok_def)
  have "unat (StackPointer s ?i - StackPointer s (?i - 1)) = unat (StackPointer s ?i) - unat (StackPointer s (?i - 1))"
    using lt by (intro unat_sub) simp
  then have "unat (FreeBytes s + (StackPointer s ?i - StackPointer s (?i - 1))) =
      unat (FreeBytes s) + (unat (StackPointer s ?i) - unat (StackPointer s (?i - 1)))"
    using sum by (simp add: unat_word_ariths)
  then show ?thesis using assms True i sum lt
    by (auto simp: arqm_ok_def pop_fields word_less_nat_alt)
qed (use assms in \<open>simp add: arqm_ok_def pop_fields\<close>)

text \<open>Popping undoes the push.\<close>

lemma push_pop:
  assumes "arqm_ok base tot s" "buffer AND 0x1f = 0" "0 <s len" "ROUNDUP32 len \<le> FreeBytes s"
    "0 < unat (StackLocation s)" "unat (StackLocation s) < 15" "ARQM_PushData buffer len s = (r, s')"
  shows "StackLocation (ARQM_Pop s') = StackLocation s \<and> ARQM_GetFreeSize (ARQM_Pop s') = ARQM_GetFreeSize s \<and>
    ARQM_GetStackPointer (ARQM_Pop s') = ARQM_GetStackPointer s"
proof -
  let ?i = "unat (StackLocation s)"
  have i: "unat (StackLocation s + 1) = Suc ?i" by (rule unat_succ15 [OF assms(6)])
  then have "StackLocation s + 1 > 1" using assms(5) by (simp add: word_less_nat_alt)
  then show ?thesis
    using push_accept [OF assms(2,3,4,6)] assms(7) i
    by (auto simp: pop_fields ARQM_GetFreeSize_def ARQM_GetStackPointer_def)
qed

section \<open>The transfer of a push\<close>

lemma find_handle:
  assumes "i < 16"
  shows "\<exists>j. find (\<lambda>j. arqm_handle a i = arqm_handle a j) [0..<16] = Some j \<and> j = i"
proof -
  have inj: "arqm_handle a i = arqm_handle a j \<longleftrightarrow> i = j" if "j < 16" for j
  proof -
    have "unat (72 * of_nat k :: u32) = 72 * k" if "k < 16" for k
      using that by (simp add: unat_word_ariths unat_of_nat)
    then have "72 * of_nat i = (72 * of_nat j :: u32) \<longleftrightarrow> i = j"
      using assms that by (metis mult_cancel1 numeral_eq_iff zero_neq_numeral)
    then show ?thesis by (simp add: arqm_handle_def)
  qed
  obtain j where "find (\<lambda>j. arqm_handle a i = arqm_handle a j) [0..<16] = Some j"
    using assms by (cases "find (\<lambda>j. arqm_handle a i = arqm_handle a j) [0..<16]") (auto simp: find_None_iff simp del: upt_rec_numeral)
  moreover from this have "j < 16" "arqm_handle a i = arqm_handle a j"
    by (auto simp: find_Some_iff simp del: upt_rec_numeral)
  ultimately show ?thesis using inj by auto
qed

lemma poll_callback: "i < 16 \<Longrightarrow> ARQMPollCallback (arqm_handle a i) a = a\<lparr>polled := (polled a)(i := True)\<rparr>"
  using find_handle [of i a] by (auto simp: ARQMPollCallback_def)

lemma arq_inv_upd [simp]:
  "arq_inv (a\<lparr>lw := w\<rparr>) lo hi = arq_inv a lo hi" "arq_inv (a\<lparr>polled := f\<rparr>) lo hi = arq_inv a lo hi"
  "busy (a\<lparr>lw := w\<rparr>) = busy a" "busy (a\<lparr>polled := f\<rparr>) = busy a"
  "arqm_handle (a\<lparr>lw := w\<rparr>) i = arqm_handle a i" "arqm_handle (a\<lparr>polled := f\<rparr>) i = arqm_handle a i"
  "isr_cb (a\<lparr>lw := w\<rparr>) = isr_cb a" "isr_req (a\<lparr>lw := w\<rparr>) = isr_req a"
  by (simp_all add: arq_inv_def pend_apart_def busy_def arqm_handle_def isr_cb_def isr_req_def)

lemma req_fresh_upd [simp]:
  "req_fresh (a\<lparr>lw := w\<rparr>) lo hi r = req_fresh a lo hi r" "req_fresh (a\<lparr>polled := f\<rparr>) lo hi r = req_fresh a lo hi r"
  by (simp_all add: req_fresh_def)

text \<open>A high priority request on an idle queue, started.\<close>

lemma Post_idle_hi:
  fixes owner dir ar mr len :: u32
  assumes "arq_inv a [] []" "\<not> busy a" "req_fresh a [] [] req"
  defines "a' \<equiv> ARQ_PostRequestAsync req owner dir ARQ_PRIO_HI ar mr len CbPoll a"
  shows "arq_inv a' [] []" "pendHi a' = req" "pendLo a' = 0" "cbHi a' = CbPoll" "cbLo a' = CbNull" "arqm_info a' = arqm_info a"
    "polled a' = polled a"
    "dma a' = dma a @ [\<lparr>d_dir = dir, d_mram = mr, d_aram = ar, d_len = len\<rparr>]"
proof -
  let ?r = "new_req owner dir ARQ_PRIO_HI ar mr len CbPoll"
  let ?b = "post_queue req ?r a"
  have e: "pendLo a = 0" "pendHi a = 0" "cbLo a = CbNull" using assms(1,2) by (auto simp: busy_def arq_inv_def)
  have i: "arq_inv ?b [] [req]" using post_queue_inv [of a "[]" "[]" req ?r] assms(1,3) by simp
  have z: "req \<noteq> 0" using assms(3) by (simp add: req_fresh_def node_fresh_def)
  have a': "a' = locked (start_hi req (?b\<lparr>amem := lwp_queue_extractI req (amem ?b)\<rparr>))"
    using assms(2) z by (simp add: a'_def Post_eq arq_next_def PopHi_cons [OF i])
  show "arq_inv a' [] []" using start_hi_inv [OF i] e by (simp add: a')
  show "pendHi a' = req" "pendLo a' = 0" "cbHi a' = CbPoll" "cbLo a' = CbNull" using e by (simp_all add: a' new_req_def)
  show "arqm_info a' = arqm_info a" "polled a' = polled a"
    by (simp_all add: a' locked_def start_hi_def upd_req_def AR_StartDMA_def post_queue_def Let_def)
  show "dma a' = dma a @ [\<lparr>d_dir = dir, d_mram = mr, d_aram = ar, d_len = len\<rparr>]"
    by (simp add: a' start_hi_dma req_dma_def)
qed

text \<open>The interrupt that ends the transfer lets the push return.\<close>

lemma push_transfer_done:
  assumes "arq_ok q [] []" "\<not> busy q" "i < 16" "req_fresh q [] [] (arqm_handle q i)"
  shows "\<exists>q'. ARInterruptServiceRoutine user (push_transfer i owner start buffer rlen q) = Some q' \<and>
    polled q' i \<and> \<not> busy q' \<and> arq_ok q' [] [] \<and>
    dma q' = dma q @ [\<lparr>d_dir = 0, d_mram = buffer, d_aram = start, d_len = rlen\<rparr>]"
proof -
  define q1 where "q1 = q\<lparr>lw := (lw q)\<lparr>ks := snd (PPCIrqLockByMsr (ks (lw q)))\<rparr>, polled := (polled q)(i := False)\<rparr>"
  let ?h = "arqm_handle q i"
  let ?p = "ARQ_PostRequestAsync ?h owner 0 ARQ_PRIO_HI start buffer rlen CbPoll q1"
  let ?t = "push_transfer i owner start buffer rlen q"
  have h1: "arq_inv q1 [] []" "\<not> busy q1" "req_fresh q1 [] [] ?h" "arqm_handle q1 i = ?h" "arqm_info q1 = arqm_info q"
      "dma q1 = dma q"
    using assms by (simp_all add: q1_def arq_ok_def busy_def arqm_handle_def)
  note P = Post_idle_hi [OF h1(1,2,3), of owner 0 start buffer rlen]
  obtain w where t: "?t = ?p\<lparr>lw := w\<rparr>"
    by (simp add: push_transfer_def case_prod_beta Let_def q1_def [symmetric] h1(4))
  have cb: "isr_cb ?t = CbPoll" "isr_req ?t = ?h" using P by (simp_all add: t isr_cb_def isr_req_def)
  have it: "arq_inv ?t [] []" using P(1) by (simp add: t)
  let ?f = "finish_req ?h ?t"
  have f: "arq_inv ?f [] []" "same_pending ?t ?f" using finish_req_inv [OF it] cb by simp_all
  have hf: "arqm_handle ?f i = ?h" using P(6) h1(5) by (simp add: finish_req_def upd_req_def t arqm_handle_def)
  let ?g = "?f\<lparr>polled := (polled ?f)(i := True)\<rparr>"
  have g: "arq_inv ?g [] []" "same_pending ?t ?g" using f by (simp_all add: same_pending_def)
  have "call_cb user CbPoll ?h ?f = Some ?g" using poll_callback [OF assms(3), of ?f] hf by (simp add: call_cb_def)
  then have s: "ARInterruptServiceRoutine user ?t = Some (arq_next (clear_done ?g))"
    using ISR_eq [of ?t user ?g] cb g(2) by simp
  have "isr_cb ?g \<noteq> CbNull" using g(2) cb by (auto simp: isr_cb_def same_pending_def)
  note c = clear_done_inv [OF g(1) this]
  have pl: "pendLo (clear_done ?g) = 0" using c g(2) P(3) by (auto simp: same_pending_def t)
  have n: "arq_next (clear_done ?g) = clear_done ?g" using c pl by (intro arq_next_idle) auto
  have "polled (clear_done ?g) i" by (simp add: clear_done_def)
  then show ?thesis using s n c pl g(2) P(8) h1(6) by (simp add: busy_def arq_ok_def same_pending_def t)
qed

end
