(* ===== verification/Conf.thy ===== *)
theory Conf
  imports Ogc_Prelude
begin

text \<open>
  The system settings of the Wii, \<^verbatim>\<open>libogc/conf.c\<close>: the binary file SYSCONF, a table of named entries, and
  the obfuscated text file \<^verbatim>\<open>setting.txt\<close>.

  \<open>conf_buffer\<close> is the memory from \<^verbatim>\<open>__conf_buffer\<close> on, one byte per index; the file takes the first
  \<open>0x4000\<close> bytes (what a corrupt offset reads beyond them is whatever follows in memory).
  \<open>conf_txt_buffer\<close> is likewise \<^verbatim>\<open>__conf_txt_buffer\<close>. Numbers in the file are big-endian. A buffer of the
  caller is a function from indices to bytes; a call returns it as it leaves it. The IOS file calls,
  which go to the other processor of the console, are the parameter \<open>ios\<close>.
\<close>

type_synonym bytes = "nat \<Rightarrow> u8"

record conf =
  conf_inited :: bool
  conf_buffer :: bytes
  conf_txt_buffer :: bytes
  conf_buffer_dirty :: bool

text \<open>What IOS answers: a descriptor or an error; the length read and the bytes; the length written.\<close>

record ios =
  IOS_Open :: "string \<Rightarrow> int \<Rightarrow> int"
  IOS_Read :: "int \<Rightarrow> nat \<Rightarrow> int \<times> u8 list"
  IOS_Write :: "int \<Rightarrow> bytes \<Rightarrow> nat \<Rightarrow> int"

abbreviation CONF_FILE_SIZE :: nat where "CONF_FILE_SIZE \<equiv> 0x4000"
abbreviation CONF_TXT_FILE_SIZE :: nat where "CONF_TXT_FILE_SIZE \<equiv> 0x100"
abbreviation CONF_EBADFILE :: int where "CONF_EBADFILE \<equiv> - 0x6001"
abbreviation CONF_ENOENT :: int where "CONF_ENOENT \<equiv> - 0x6002"
abbreviation CONF_ETOOBIG :: int where "CONF_ETOOBIG \<equiv> - 0x6003"
abbreviation CONF_ENOTINIT :: int where "CONF_ENOTINIT \<equiv> - 0x6004"
abbreviation CONF_ENOTIMPL :: int where "CONF_ENOTIMPL \<equiv> - 0x6005"
abbreviation CONF_EBADVALUE :: int where "CONF_EBADVALUE \<equiv> - 0x6006"

definition conf_file :: string where "conf_file = ''/shared2/sys/SYSCONF''"
definition conf_txt_file :: string where "conf_txt_file = ''/title/00000001/00000002/data/setting.txt''"

section \<open>Bytes\<close>

definition cstr :: "string \<Rightarrow> u8 list" where
  "cstr s = map of_char s"

definition rd_bytes :: "bytes \<Rightarrow> nat \<Rightarrow> nat \<Rightarrow> u8 list" where
  "rd_bytes b i n = map (\<lambda>k. b (i + k)) [0..<n]"

definition wr_bytes :: "bytes \<Rightarrow> nat \<Rightarrow> u8 list \<Rightarrow> bytes" where
  "wr_bytes b i xs = (\<lambda>k. if i \<le> k \<and> k < i + length xs then xs ! (k - i) else b k)"

definition be16 :: "bytes \<Rightarrow> nat \<Rightarrow> nat" where
  "be16 b i = unat (b i) * 256 + unat (b (i + 1))"

definition be32 :: "bytes \<Rightarrow> nat \<Rightarrow> u32" where
  "be32 b i = of_nat (((unat (b i) * 256 + unat (b (i + 1))) * 256 + unat (b (i + 2))) * 256 + unat (b (i + 3)))"

section \<open>Initialisation\<close>

text \<open>\<^verbatim>\<open>key = (key<<1) | (key>>31)\<close>\<close>

definition rotl1 :: "u32 \<Rightarrow> u32" where
  "rotl1 key = push_bit 1 key OR drop_bit 31 key"

fun decrypt_loop :: "nat \<Rightarrow> nat \<Rightarrow> u32 \<Rightarrow> bytes \<Rightarrow> bytes" where
  "decrypt_loop 0 i key b = b"
| "decrypt_loop (Suc n) i key b = decrypt_loop n (Suc i) (rotl1 key) (b(i := b i XOR ucast (key AND 0xff)))"

definition CONF_DecryptTextBuffer :: "bytes \<Rightarrow> bytes" where
  "CONF_DecryptTextBuffer b = decrypt_loop CONF_TXT_FILE_SIZE 0 0x73B5DBFA b"

definition CONF_Init :: "ios \<Rightarrow> conf \<Rightarrow> int \<times> conf" where
  "CONF_Init io c =
     (if conf_inited c then (0, c)
      else let fd = IOS_Open io conf_file 1 in
      if fd < 0 then (fd, c)
      else let (ret, data) = IOS_Read io fd CONF_FILE_SIZE;
               zero = wr_bytes (conf_buffer c) 0 (replicate CONF_FILE_SIZE 0);
               tzero = wr_bytes (conf_txt_buffer c) 0 (replicate (CONF_TXT_FILE_SIZE + 1) 0);
               c1 = c\<lparr>conf_buffer := wr_bytes zero 0 data, conf_txt_buffer := tzero\<rparr>
      in if ret \<noteq> int CONF_FILE_SIZE then (CONF_EBADFILE, c1)
      else let fd2 = IOS_Open io conf_txt_file 1 in
      if fd2 < 0 then (fd2, c1)
      else let (ret2, txt) = IOS_Read io fd2 CONF_TXT_FILE_SIZE;
               c2 = c1\<lparr>conf_txt_buffer := wr_bytes (conf_txt_buffer c1) 0 txt\<rparr>
      in if ret2 \<noteq> int CONF_TXT_FILE_SIZE then (CONF_EBADFILE, c2)
      else if rd_bytes (conf_buffer c2) 0 4 \<noteq> cstr ''SCv0'' then (CONF_EBADFILE, c2)
      else (0, c2\<lparr>conf_txt_buffer := CONF_DecryptTextBuffer (conf_txt_buffer c2), conf_inited := True\<rparr>))"

section \<open>The text file\<close>

text \<open>\<^verbatim>\<open>strchr\<close> from index \<open>i\<close>; \<open>n\<close> bounds the search, the buffer ends with a zero byte.\<close>

fun strchr_n :: "nat \<Rightarrow> bytes \<Rightarrow> nat \<Rightarrow> u8 \<Rightarrow> nat option" where
  "strchr_n 0 b i ch = None"
| "strchr_n (Suc n) b i ch = (if b i = ch then Some i else if b i = 0 then None else strchr_n n b (Suc i) ch)"

definition strchr :: "bytes \<Rightarrow> nat \<Rightarrow> u8 \<Rightarrow> nat option" where
  "strchr b i ch = strchr_n (CONF_TXT_FILE_SIZE + 1 - i) b i ch"

text \<open>\<^verbatim>\<open>while(line < end && *line++ != '\<close>newline\<^verbatim>\<open>');\<close>\<close>

fun skip_line :: "nat \<Rightarrow> bytes \<Rightarrow> nat \<Rightarrow> nat" where
  "skip_line 0 b i = i"
| "skip_line (Suc n) b i = (if i < CONF_TXT_FILE_SIZE then if b i \<noteq> 10 then skip_line n b (Suc i) else Suc i else i)"

text \<open>One round of the loop at \<open>line\<close>: \<open>Some\<close> is a return, with the bytes written for the caller.\<close>

definition txt_line :: "bytes \<Rightarrow> u8 list \<Rightarrow> nat \<Rightarrow> nat \<Rightarrow> (int \<times> u8 list) option" where
  "txt_line b name len line =
     (case strchr b line 61 of
        Some delim \<Rightarrow>
          if delim - line = length name \<and> name = rd_bytes b line (length name)
          then (case (case strchr b line 13 of Some e \<Rightarrow> Some e | None \<Rightarrow> strchr b line 10) of
                  Some e \<Rightarrow> let slen = int e - int (delim + 1) in
                    Some (if slen < int len then (slen, rd_bytes b (delim + 1) (nat slen) @ [0]) else (CONF_ETOOBIG, []))
                | None \<Rightarrow> None)
          else None
      | None \<Rightarrow> None)"

fun txt_loop :: "nat \<Rightarrow> bytes \<Rightarrow> u8 list \<Rightarrow> nat \<Rightarrow> nat \<Rightarrow> int \<times> u8 list" where
  "txt_loop 0 b name len line = (CONF_ENOENT, [])"
| "txt_loop (Suc n) b name len line =
     (if line < CONF_TXT_FILE_SIZE
      then (case txt_line b name len line of Some r \<Rightarrow> r
            | None \<Rightarrow> txt_loop n b name len (skip_line CONF_TXT_FILE_SIZE b line))
      else (CONF_ENOENT, []))"

definition CONF_GetTxt :: "u8 list \<Rightarrow> nat \<Rightarrow> conf \<Rightarrow> int \<times> u8 list" where
  "CONF_GetTxt name len c =
     (if \<not> conf_inited c then (CONF_ENOTINIT, [])
      else txt_loop (CONF_TXT_FILE_SIZE + 1) (conf_txt_buffer c) name len 0)"

section \<open>Entries\<close>

fun find_loop :: "bytes \<Rightarrow> u8 list \<Rightarrow> nat \<Rightarrow> nat \<Rightarrow> nat option" where
  "find_loop b name 0 offset = None"
| "find_loop b name (Suc cnt) offset =
     (let o1 = be16 b offset in
      if length name = unat (b o1 AND 0x0F) + 1 \<and> name = rd_bytes b (o1 + 1) (length name) then Some o1
      else find_loop b name cnt (offset + 2))"

definition CONF_Find :: "u8 list \<Rightarrow> conf \<Rightarrow> nat option" where
  "CONF_Find name c = find_loop (conf_buffer c) name (be16 (conf_buffer c) 4) 6"

definition entry_type :: "bytes \<Rightarrow> nat \<Rightarrow> nat" where
  "entry_type b e = unat (drop_bit 5 (b e))"

definition entry_length :: "bytes \<Rightarrow> nat \<Rightarrow> nat \<Rightarrow> int" where
  "entry_length b nlen e =
     (let t = entry_type b e in
      if t = 1 then int (be16 b (e + nlen + 1)) + 1
      else if t = 2 then int (unat (b (e + nlen + 1))) + 1
      else if t = 3 then 1 else if t = 4 then 2 else if t = 5 then 4 else if t = 7 then 1
      else CONF_ENOTIMPL)"

definition CONF_GetLength :: "u8 list \<Rightarrow> conf \<Rightarrow> int" where
  "CONF_GetLength name c =
     (if \<not> conf_inited c then CONF_ENOTINIT
      else case CONF_Find name c of None \<Rightarrow> CONF_ENOENT | Some e \<Rightarrow> entry_length (conf_buffer c) (length name) e)"

definition CONF_GetType :: "u8 list \<Rightarrow> conf \<Rightarrow> int" where
  "CONF_GetType name c =
     (if \<not> conf_inited c then CONF_ENOTINIT
      else case CONF_Find name c of None \<Rightarrow> CONF_ENOENT | Some e \<Rightarrow> int (entry_type (conf_buffer c) e))"

text \<open>Where the data of an entry starts.\<close>

definition data_at :: "bytes \<Rightarrow> nat \<Rightarrow> nat \<Rightarrow> nat" where
  "data_at b nlen e = (let t = entry_type b e in if t = 1 then e + nlen + 3 else if t = 2 then e + nlen + 2 else e + nlen + 1)"

definition CONF_Get :: "u8 list \<Rightarrow> bytes \<Rightarrow> nat \<Rightarrow> conf \<Rightarrow> int \<times> bytes" where
  "CONF_Get name buffer len c =
     (if \<not> conf_inited c then (CONF_ENOTINIT, buffer)
      else case CONF_Find name c of None \<Rightarrow> (CONF_ENOENT, buffer)
      | Some e \<Rightarrow>
         (let b = conf_buffer c; l = CONF_GetLength name c in
          if l < 0 then (l, buffer)
          else if l > int len then (CONF_ETOOBIG, buffer)
          else let t = entry_type b e; data = rd_bytes b (data_at b (length name) e) (nat l) in
            if t = 1 \<or> t = 2 then (l, wr_bytes buffer 0 data)
            else if t = 3 \<or> t = 4 \<or> t = 5 \<or> t = 7 then (l, wr_bytes (wr_bytes buffer 0 (replicate len 0)) 0 data)
            else (CONF_ENOTIMPL, buffer)))"

definition CONF_Set :: "u8 list \<Rightarrow> bytes \<Rightarrow> nat \<Rightarrow> conf \<Rightarrow> int \<times> conf" where
  "CONF_Set name buffer len c =
     (if \<not> conf_inited c then (CONF_ENOTINIT, c)
      else case CONF_Find name c of None \<Rightarrow> (CONF_ENOENT, c)
      | Some e \<Rightarrow>
         (let b = conf_buffer c; l = CONF_GetLength name c in
          if l < 0 then (l, c)
          else if l \<noteq> int len then (CONF_EBADVALUE, c)
          else let t = entry_type b e in
            if t = 1 \<or> t = 2 \<or> t = 3 \<or> t = 4 \<or> t = 5 \<or> t = 7
            then (l, c\<lparr>conf_buffer := wr_bytes b (data_at b (length name) e) (rd_bytes buffer 0 (nat l)),
                       conf_buffer_dirty := True\<rparr>)
            else (CONF_ENOTIMPL, c)))"

definition CONF_WriteBuffer :: "ios \<Rightarrow> conf \<Rightarrow> int \<times> conf" where
  "CONF_WriteBuffer io c =
     (if \<not> conf_inited c then (CONF_ENOTINIT, c)
      else if \<not> conf_buffer_dirty c then (0, c)
      else let fd = IOS_Open io conf_file 2 in
      if fd < 0 then (fd, c)
      else if IOS_Write io fd (conf_buffer c) CONF_FILE_SIZE \<noteq> int CONF_FILE_SIZE then (CONF_EBADFILE, c)
      else (0, c\<lparr>conf_buffer_dirty := False\<rparr>))"

definition CONF_SaveChanges :: "ios \<Rightarrow> conf \<Rightarrow> int \<times> conf" where
  "CONF_SaveChanges io c =
     (if \<not> conf_inited c then (CONF_ENOTINIT, c)
      else let (ret, c') = CONF_WriteBuffer io c in if ret < 0 then (ret, c') else (0, c'))"

section \<open>Settings\<close>

definition zeros :: bytes where "zeros = (\<lambda>_. 0)"

text \<open>The pattern of the accessors: read \<open>n\<close> bytes, any other length is an error.\<close>

definition get_setting :: "string \<Rightarrow> nat \<Rightarrow> (bytes \<Rightarrow> int) \<Rightarrow> conf \<Rightarrow> int" where
  "get_setting name n val c =
     (let (res, b) = CONF_Get (cstr name) zeros n c in
      if res < 0 then res else if res \<noteq> int n then CONF_EBADVALUE else val b)"

definition byte_val :: "bytes \<Rightarrow> int" where "byte_val b = uint (b 0)"
definition word_val :: "bytes \<Rightarrow> int" where "word_val b = sint (be32 b 0)"

definition CONF_GetShutdownMode :: "conf \<Rightarrow> int" where
  "CONF_GetShutdownMode = get_setting ''IPL.IDL'' 2 (\<lambda>b. uint (b 0))"

definition CONF_GetIdleLedMode :: "conf \<Rightarrow> int" where
  "CONF_GetIdleLedMode = get_setting ''IPL.IDL'' 2 (\<lambda>b. uint (b 1))"

definition CONF_GetProgressiveScan :: "conf \<Rightarrow> int" where
  "CONF_GetProgressiveScan = get_setting ''IPL.PGS'' 1 byte_val"

definition CONF_GetEuRGB60 :: "conf \<Rightarrow> int" where
  "CONF_GetEuRGB60 = get_setting ''IPL.E60'' 1 byte_val"

definition CONF_GetIRSensitivity :: "conf \<Rightarrow> int" where
  "CONF_GetIRSensitivity = get_setting ''BT.SENS'' 4 word_val"

definition CONF_GetSensorBarPosition :: "conf \<Rightarrow> int" where
  "CONF_GetSensorBarPosition = get_setting ''BT.BAR'' 1 byte_val"

definition CONF_GetPadSpeakerVolume :: "conf \<Rightarrow> int" where
  "CONF_GetPadSpeakerVolume = get_setting ''BT.SPKV'' 1 byte_val"

definition CONF_GetPadMotorMode :: "conf \<Rightarrow> int" where
  "CONF_GetPadMotorMode = get_setting ''BT.MOT'' 1 byte_val"

definition CONF_GetSoundMode :: "conf \<Rightarrow> int" where
  "CONF_GetSoundMode = get_setting ''IPL.SND'' 1 byte_val"

definition CONF_GetLanguage :: "conf \<Rightarrow> int" where
  "CONF_GetLanguage = get_setting ''IPL.LNG'' 1 byte_val"

definition CONF_GetScreenSaverMode :: "conf \<Rightarrow> int" where
  "CONF_GetScreenSaverMode = get_setting ''IPL.SSV'' 1 byte_val"

definition CONF_GetAspectRatio :: "conf \<Rightarrow> int" where
  "CONF_GetAspectRatio = get_setting ''IPL.AR'' 1 byte_val"

definition CONF_GetEULA :: "conf \<Rightarrow> int" where
  "CONF_GetEULA = get_setting ''IPL.EULA'' 1 byte_val"

definition CONF_GetWiiConnect24 :: "conf \<Rightarrow> int" where
  "CONF_GetWiiConnect24 = get_setting ''NET.WCFG'' 4 word_val"

text \<open>Accessors that leave their value in the caller's buffer.\<close>

definition CONF_GetCounterBias :: "bytes \<Rightarrow> conf \<Rightarrow> int \<times> bytes" where
  "CONF_GetCounterBias bias c =
     (let (res, b) = CONF_Get (cstr ''IPL.CB'') bias 4 c in
      (if res < 0 then res else if res \<noteq> 4 then CONF_EBADVALUE else 0, b))"

definition CONF_GetDisplayOffsetH :: "bytes \<Rightarrow> conf \<Rightarrow> int \<times> bytes" where
  "CONF_GetDisplayOffsetH offset c =
     (let (res, b) = CONF_Get (cstr ''IPL.DH'') offset 1 c in
      (if res < 0 then res else if res \<noteq> 1 then CONF_EBADVALUE else 0, b))"

text \<open>\<^verbatim>\<open>sizeof(conf_pads)\<close>: a count and 16 devices of 66 bytes; \<^verbatim>\<open>sizeof(conf_pad_guests)\<close>: a count and 6 of 82.\<close>

abbreviation sizeof_conf_pads :: nat where "sizeof_conf_pads \<equiv> 1057"
abbreviation sizeof_conf_pad_guests :: nat where "sizeof_conf_pad_guests \<equiv> 493"
abbreviation CONF_PAD_MAX_REGISTERED :: nat where "CONF_PAD_MAX_REGISTERED \<equiv> 10"
abbreviation CONF_PAD_MAX_ACTIVE :: nat where "CONF_PAD_MAX_ACTIVE \<equiv> 4"

definition CONF_GetPadDevices :: "bytes \<Rightarrow> conf \<Rightarrow> int \<times> bytes" where
  "CONF_GetPadDevices pads c =
     (let (res, b) = CONF_Get (cstr ''BT.DINF'') pads sizeof_conf_pads c in
      (if res < 0 then res else if res < int sizeof_conf_pads then CONF_EBADVALUE else 0, b))"

definition CONF_SetPadDevices :: "bytes option \<Rightarrow> conf \<Rightarrow> int \<times> conf" where
  "CONF_SetPadDevices pads c =
     (case pads of None \<Rightarrow> (CONF_EBADVALUE, c)
      | Some p \<Rightarrow> if unat (p 0) > CONF_PAD_MAX_REGISTERED then (CONF_EBADVALUE, c)
                  else CONF_Set (cstr ''BT.DINF'') p sizeof_conf_pads c)"

definition CONF_GetPadGuestDevices :: "bytes \<Rightarrow> conf \<Rightarrow> int \<times> bytes" where
  "CONF_GetPadGuestDevices pads c =
     (let (res, b) = CONF_Get (cstr ''BT.CDIF'') pads sizeof_conf_pad_guests c in
      (if res < 0 then res else if res < int sizeof_conf_pad_guests then CONF_EBADVALUE else 0, b))"

definition CONF_SetPadGuestDevices :: "bytes option \<Rightarrow> conf \<Rightarrow> int \<times> conf" where
  "CONF_SetPadGuestDevices pads c =
     (let p = (case pads of None \<Rightarrow> zeros | Some p \<Rightarrow> p) in
      if unat (p 0) > CONF_PAD_MAX_ACTIVE then (CONF_EBADVALUE, c)
      else CONF_Set (cstr ''BT.CDIF'') p sizeof_conf_pad_guests c)"

text \<open>\<open>stack\<close> is what the uninitialised local buffer holds.\<close>

definition CONF_GetNickName :: "bytes \<Rightarrow> bytes \<Rightarrow> conf \<Rightarrow> int \<times> bytes" where
  "CONF_GetNickName stack nickname c =
     (let (res, buf) = CONF_Get (cstr ''IPL.NIK'') stack 0x16 c in
      if res < 0 then (res, nickname)
      else if res \<noteq> 0x16 \<or> be16 buf 0 = 0 then (CONF_EBADVALUE, nickname)
      else (res, wr_bytes nickname 0 (map (\<lambda>i. buf (2 * i + 1)) [0..<10] @ [0])))"

definition CONF_GetParentalPassword :: "bytes \<Rightarrow> bytes \<Rightarrow> conf \<Rightarrow> int \<times> bytes" where
  "CONF_GetParentalPassword stack password c =
     (let (res, buf) = CONF_Get (cstr ''IPL.PC'') stack 0x4A c in
      if res < 0 then (res, password)
      else if res \<noteq> 1 then (CONF_EBADVALUE, password)
      else (res, wr_bytes password 0 (rd_bytes buf 3 4 @ [0])))"

definition CONF_GetParentalAnswer :: "bytes \<Rightarrow> bytes \<Rightarrow> conf \<Rightarrow> int \<times> bytes" where
  "CONF_GetParentalAnswer stack answer c =
     (let (res, buf) = CONF_Get (cstr ''IPL.PC'') stack 0x4A c in
      if res < 0 then (res, answer)
      else if res \<noteq> 1 then (CONF_EBADVALUE, answer)
      else (res, wr_bytes answer 0 (rd_bytes buf 8 32 @ [0])))"

text \<open>Settings of the text file: the value is looked up in a list of strings.\<close>

definition txt_setting :: "string \<Rightarrow> nat \<Rightarrow> (string \<times> int) list \<Rightarrow> conf \<Rightarrow> int" where
  "txt_setting name len vals c =
     (let (res, buf) = CONF_GetTxt (cstr name) len c in
      if res < 0 then res
      else case find (\<lambda>(s, _). takeWhile (\<lambda>x. x \<noteq> 0) buf = cstr s) vals of
             Some (_, v) \<Rightarrow> v | None \<Rightarrow> CONF_EBADVALUE)"

definition CONF_GetRegion :: "conf \<Rightarrow> int" where
  "CONF_GetRegion = txt_setting ''GAME'' 3 [(''JP'', 0), (''US'', 1), (''EU'', 2), (''KR'', 4), (''CN'', 5)]"

definition CONF_GetArea :: "conf \<Rightarrow> int" where
  "CONF_GetArea = txt_setting ''AREA'' 4 [(''JPN'', 0), (''USA'', 1), (''EUR'', 2), (''AUS'', 3), (''BRA'', 4),
     (''TWN'', 5), (''ROC'', 6), (''KOR'', 7), (''HKG'', 8), (''ASI'', 9), (''LTN'', 10), (''SAF'', 11), (''CHN'', 12)]"

definition CONF_GetVideo :: "conf \<Rightarrow> int" where
  "CONF_GetVideo = txt_setting ''VIDEO'' 5 [(''NTSC'', 0), (''PAL'', 1), (''MPAL'', 2)]"

section \<open>Bytes read and written\<close>

lemma length_rd_bytes [simp]: "length (rd_bytes b i n) = n"
  by (simp add: rd_bytes_def)

lemma rd_wr_bytes: "rd_bytes (wr_bytes b i xs) i (length xs) = xs"
  by (rule nth_equalityI) (auto simp: rd_bytes_def wr_bytes_def)

lemma rd_bytes_cong: "(\<And>k. i \<le> k \<Longrightarrow> k < i + n \<Longrightarrow> b' k = b k) \<Longrightarrow> rd_bytes b' i n = rd_bytes b i n"
  by (simp add: rd_bytes_def)

lemma wr_bytes_outside: "\<not> (i \<le> k \<and> k < i + length xs) \<Longrightarrow> wr_bytes b i xs k = b k"
  by (auto simp: wr_bytes_def)

lemma wr_bytes_over: "length xs = length ys \<Longrightarrow> wr_bytes (wr_bytes b i xs) i ys = wr_bytes b i ys"
  by (auto simp: wr_bytes_def fun_eq_iff)

section \<open>The text cipher\<close>

text \<open>The key byte at position \<open>j\<close>.\<close>

definition key_byte :: "u32 \<Rightarrow> nat \<Rightarrow> u8" where
  "key_byte key j = ucast ((rotl1 ^^ j) key AND 0xff)"

lemma decrypt_loop_eq:
  "decrypt_loop n i key b = (\<lambda>j. if i \<le> j \<and> j < i + n then b j XOR key_byte key (j - i) else b j)"
proof (induction n arbitrary: i key b)
  case (Suc n)
  have k: "key_byte (rotl1 key) (j - Suc i) = key_byte key (j - i)" if "Suc i \<le> j" for j
    using that by (simp add: key_byte_def Suc_diff_Suc [symmetric] funpow_swap1)
  show ?case unfolding decrypt_loop.simps Suc.IH by (rule ext) (auto simp: k, simp add: key_byte_def)
qed (rule ext, auto)

lemma decrypt_involution: "CONF_DecryptTextBuffer (CONF_DecryptTextBuffer b) = b"
  by (rule ext) (simp add: CONF_DecryptTextBuffer_def decrypt_loop_eq xor.assoc)

section \<open>Layout of the entries\<close>

definition offsets :: "bytes \<Rightarrow> nat list" where
  "offsets b = map (\<lambda>k. be16 b (6 + 2 * k)) [0..<be16 b 4]"

definition name_len :: "bytes \<Rightarrow> nat \<Rightarrow> nat" where
  "name_len b e = unat (b e AND 0x0F) + 1"

definition entry_name :: "bytes \<Rightarrow> u8 list \<Rightarrow> nat \<Rightarrow> bool" where
  "entry_name b name e \<longleftrightarrow> length name = name_len b e \<and> name = rd_bytes b (e + 1) (length name)"

definition entry_end :: "bytes \<Rightarrow> nat \<Rightarrow> nat" where
  "entry_end b e = data_at b (name_len b e) e + nat (entry_length b (name_len b e) e)"

text \<open>
  A well-formed file: every entry has a known type and lies between the offset table and the end of
  the file, and no two entries overlap.
\<close>

definition conf_wf :: "bytes \<Rightarrow> bool" where
  "conf_wf b \<longleftrightarrow> (\<forall>e\<in>set (offsets b). 6 + 2 * be16 b 4 \<le> e \<and> 0 \<le> entry_length b (name_len b e) e \<and>
       entry_end b e \<le> CONF_FILE_SIZE \<and>
       (\<forall>e'\<in>set (offsets b). e = e' \<or> entry_end b e \<le> e' \<or> entry_end b e' \<le> e))"

lemma find_loop_eq: "find_loop b name n off = find (entry_name b name) (map (\<lambda>k. be16 b (off + 2 * k)) [0..<n])"
proof (induction n arbitrary: off)
  case (Suc n)
  have "map (\<lambda>k. be16 b (off + 2 * k)) [0..<Suc n] = be16 b off # map (\<lambda>k. be16 b (off + 2 + 2 * k)) [0..<n]"
    by (simp add: upt_conv_Cons map_Suc_upt [symmetric] del: upt_Suc)
  moreover have "entry_name b name (be16 b off) \<longleftrightarrow>
      length name = unat (b (be16 b off) AND 0x0F) + 1 \<and> name = rd_bytes b (be16 b off + 1) (length name)"
    by (simp only: entry_name_def name_len_def)
  ultimately show ?case unfolding find_loop.simps Let_def by (simp only: Suc.IH find.simps)
qed simp

text \<open>The lookup returns the first entry of the table with the name.\<close>

lemma CONF_Find_eq: "CONF_Find name c = find (entry_name (conf_buffer c) name) (offsets (conf_buffer c))"
  by (simp add: CONF_Find_def find_loop_eq offsets_def)

lemma CONF_Find_Some:
  "CONF_Find name c = Some e \<Longrightarrow> e \<in> set (offsets (conf_buffer c)) \<and> length name = name_len (conf_buffer c) e"
  unfolding CONF_Find_eq find_Some_iff by (auto simp: entry_name_def)

lemma data_after: "e + name_len b e < data_at b (name_len b e) e"
  by (simp add: data_at_def Let_def)

text \<open>An entry's header, up to its data, decides where and how long its data is.\<close>

lemma header_cong:
  assumes "\<And>k. e \<le> k \<Longrightarrow> k < data_at b (name_len b e) e \<Longrightarrow> b' k = b k"
  shows "name_len b' e = name_len b e" "entry_type b' e = entry_type b e"
    "data_at b' (name_len b e) e = data_at b (name_len b e) e"
    "entry_length b' (name_len b e) e = entry_length b (name_len b e) e" "entry_name b' name e = entry_name b name e"
    "entry_end b' e = entry_end b e"
proof -
  have e: "b' e = b e" using assms [of e] data_after [of e b] by simp
  then show n: "name_len b' e = name_len b e" and t: "entry_type b' e = entry_type b e"
    by (simp_all add: name_len_def entry_type_def)
  then show d: "data_at b' (name_len b e) e = data_at b (name_len b e) e" by (simp add: data_at_def)
  show l: "entry_length b' (name_len b e) e = entry_length b (name_len b e) e"
    using assms [of "e + name_len b e + 1"] assms [of "e + name_len b e + 2"] t
    by (auto simp: entry_length_def Let_def data_at_def be16_def split: if_splits)
  have "rd_bytes b' (e + 1) (name_len b e) = rd_bytes b (e + 1) (name_len b e)"
    using data_after [of e b] by (intro rd_bytes_cong assms) auto
  then show "entry_name b' name e = entry_name b name e" using n by (auto simp: entry_name_def)
  show "entry_end b' e = entry_end b e" using n d l by (simp add: entry_end_def)
qed

text \<open>Writing the data of one entry keeps the table and all headers.\<close>

lemma write_entry:
  assumes "conf_wf b" "e \<in> set (offsets b)" "length xs = nat (entry_length b (name_len b e) e)"
  defines "b' \<equiv> wr_bytes b (data_at b (name_len b e) e) xs"
  shows "offsets b' = offsets b" "\<And>e' k. e' \<in> set (offsets b) \<Longrightarrow> e' \<le> k \<Longrightarrow> k < data_at b (name_len b e') e' \<Longrightarrow> b' k = b k"
    "\<And>e' k. e' \<in> set (offsets b) \<Longrightarrow> e' \<noteq> e \<Longrightarrow> e' \<le> k \<Longrightarrow> k < entry_end b e' \<Longrightarrow> b' k = b k"
    "\<And>k. k < 6 + 2 * be16 b 4 \<or> CONF_FILE_SIZE \<le> k \<Longrightarrow> b' k = b k"
proof -
  have w: "6 + 2 * be16 b 4 \<le> e" "entry_end b e \<le> CONF_FILE_SIZE"
      "\<And>e'. e' \<in> set (offsets b) \<Longrightarrow> e = e' \<or> entry_end b e \<le> e' \<or> entry_end b e' \<le> e"
    using assms(1,2) unfolding conf_wf_def by blast+
  have r: "b' k = b k" if "k < data_at b (name_len b e) e \<or> entry_end b e \<le> k" for k
    using that assms(3) unfolding b'_def by (intro wr_bytes_outside) (auto simp: entry_end_def)
  show low: "\<And>k. k < 6 + 2 * be16 b 4 \<or> CONF_FILE_SIZE \<le> k \<Longrightarrow> b' k = b k"
    using r w(1,2) data_after [of e b] by force
  have "be16 b' 4 = be16 b 4" "\<And>k. k < be16 b 4 \<Longrightarrow> be16 b' (6 + 2 * k) = be16 b (6 + 2 * k)"
    using low by (simp_all add: be16_def)
  then show "offsets b' = offsets b" by (auto simp: offsets_def)
  show other: "\<And>e' k. e' \<in> set (offsets b) \<Longrightarrow> e' \<noteq> e \<Longrightarrow> e' \<le> k \<Longrightarrow> k < entry_end b e' \<Longrightarrow> b' k = b k"
    using r w(3) data_after [of e b] by (metis (no_types, lifting) add_leD1 le_trans less_imp_le_nat less_le_trans)
  show "b' k = b k" if "e' \<in> set (offsets b)" "e' \<le> k" "k < data_at b (name_len b e') e'" for e' k
    using r other [of e' k] that by (cases "e' = e") (auto simp: entry_end_def)
qed

lemma write_entry_wf:
  assumes "conf_wf b" "e \<in> set (offsets b)" "length xs = nat (entry_length b (name_len b e) e)"
  shows "conf_wf (wr_bytes b (data_at b (name_len b e) e) xs)"
proof -
  let ?b = "wr_bytes b (data_at b (name_len b e) e) xs"
  note W = write_entry [OF assms]
  have h: "name_len ?b e' = name_len b e'" "entry_length ?b (name_len b e') e' = entry_length b (name_len b e') e'"
      "entry_end ?b e' = entry_end b e'" if "e' \<in> set (offsets b)" for e'
    using header_cong [of e' b ?b] W(2) [OF that] by auto
  have "be16 ?b 4 = be16 b 4" using W(1) by (metis diff_zero length_map length_upt offsets_def)
  then show ?thesis using assms(1) unfolding conf_wf_def W(1) by (simp add: h)
qed

section \<open>Setting and getting\<close>

text \<open>What a successful \<^verbatim>\<open>CONF_Set\<close> does.\<close>

lemma CONF_Set_Some:
  assumes "CONF_Set name buffer len c = (l, c')" "0 \<le> l"
  shows "\<exists>e. conf_inited c \<and> CONF_Find name c = Some e \<and> l = int len \<and> entry_length (conf_buffer c) (length name) e = l \<and>
    entry_type (conf_buffer c) e \<in> {1, 2, 3, 4, 5, 7} \<and>
    c' = c\<lparr>conf_buffer := wr_bytes (conf_buffer c) (data_at (conf_buffer c) (length name) e) (rd_bytes buffer 0 len),
           conf_buffer_dirty := True\<rparr>"
  using assms by (auto simp: CONF_Set_def CONF_GetLength_def Let_def split: option.splits if_splits)

lemma CONF_Set_entry:
  assumes "conf_wf (conf_buffer c)" "CONF_Set name buffer len c = (l, c')" "0 \<le> l" "CONF_Find name c = Some e"
  shows "e \<in> set (offsets (conf_buffer c))" "length name = name_len (conf_buffer c) e" "l = int len"
    "length (rd_bytes buffer 0 len) = nat (entry_length (conf_buffer c) (name_len (conf_buffer c) e) e)"
    "conf_buffer c' = wr_bytes (conf_buffer c) (data_at (conf_buffer c) (name_len (conf_buffer c) e) e) (rd_bytes buffer 0 len)"
    "conf_inited c'" "conf_buffer_dirty c'"
  using CONF_Set_Some [OF assms(2,3)] CONF_Find_Some [OF assms(4)] assms(4) by auto

lemma find_cong': "(\<And>x. x \<in> set xs \<Longrightarrow> P x = Q x) \<Longrightarrow> find P xs = find Q xs"
  by (rule find_cong) auto

lemma CONF_Set_find:
  assumes "conf_wf (conf_buffer c)" "CONF_Set name buffer len c = (l, c')" "0 \<le> l"
  shows "CONF_Find name' c' = CONF_Find name' c"
proof -
  obtain e where e: "CONF_Find name c = Some e" using CONF_Set_Some [OF assms(2,3)] by blast
  note S = CONF_Set_entry [OF assms e]
  note W = write_entry [OF assms(1) S(1) S(4)]
  have "entry_name (conf_buffer c') name' x = entry_name (conf_buffer c) name' x" if "x \<in> set (offsets (conf_buffer c))" for x
    unfolding S(5) using header_cong(5) [of x "conf_buffer c"] W(2) [OF that] by blast
  then show ?thesis unfolding CONF_Find_eq S(5) W(1) unfolding S(5) [symmetric] by (rule find_cong')
qed

text \<open>The value read back is the value set, the file stays well-formed, and is marked for writing.\<close>

lemma CONF_Set_Get:
  assumes "conf_wf (conf_buffer c)" "CONF_Set name buffer len c = (l, c')" "0 \<le> l"
  shows "CONF_Get name out len c' = (l, wr_bytes out 0 (rd_bytes buffer 0 len))"
    "conf_wf (conf_buffer c')" "conf_buffer_dirty c'"
proof -
  obtain e where e: "CONF_Find name c = Some e" and t: "entry_type (conf_buffer c) e \<in> {1, 2, 3, 4, 5, 7}"
      and l: "entry_length (conf_buffer c) (length name) e = l"
    using CONF_Set_Some [OF assms(2,3)] by blast
  note S = CONF_Set_entry [OF assms e]
  let ?b = "conf_buffer c" and ?b' = "conf_buffer c'"
  note W = write_entry [OF assms(1) S(1) S(4), folded S(5)]
  note H = header_cong [of e ?b ?b', OF W(2) [OF S(1)], folded S(2)]
  have f: "CONF_Find name c' = Some e" using CONF_Set_find [OF assms] e by simp
  have d: "rd_bytes ?b' (data_at ?b (length name) e) len = rd_bytes buffer 0 len"
    using rd_wr_bytes [of ?b "data_at ?b (length name) e" "rd_bytes buffer 0 len"] by (simp add: S(5) S(2))
  have g: "CONF_GetLength name c' = l" using S(6) f H(4) l by (simp add: CONF_GetLength_def)
  have ln: "l = int len" by (rule S(3))
  show "CONF_Get name out len c' = (l, wr_bytes out 0 (rd_bytes buffer 0 len))"
    using S(6) f g d t assms(3) H(2,3) ln
    by (auto simp: CONF_Get_def Let_def wr_bytes_over)
  show "conf_wf ?b'" unfolding S(5) by (rule write_entry_wf [OF assms(1) S(1) S(4)])
  show "conf_buffer_dirty c'" by (rule S(7))
qed

text \<open>Every other entry keeps its type, length and value.\<close>

lemma CONF_Set_other:
  assumes "conf_wf (conf_buffer c)" "CONF_Set name buffer len c = (l, c')" "0 \<le> l" "CONF_Find name' c \<noteq> CONF_Find name c"
  shows "CONF_Get name' out n c' = CONF_Get name' out n c" "CONF_GetType name' c' = CONF_GetType name' c"
proof -
  obtain e where e: "CONF_Find name c = Some e" using CONF_Set_Some [OF assms(2,3)] by blast
  note S = CONF_Set_entry [OF assms(1-3) e]
  let ?b = "conf_buffer c" and ?b' = "conf_buffer c'"
  note W = write_entry [OF assms(1) S(1) S(4), folded S(5)]
  have i: "conf_inited c' = conf_inited c" using CONF_Set_Some [OF assms(2,3)] by auto
  have f: "CONF_Find name' c' = CONF_Find name' c" by (rule CONF_Set_find [OF assms(1-3)])
  have "CONF_Get name' out n c' = CONF_Get name' out n c \<and> CONF_GetType name' c' = CONF_GetType name' c"
  proof (cases "CONF_Find name' c")
    case None
    then show ?thesis using f i by (simp add: CONF_Get_def CONF_GetType_def)
  next
    case (Some e')
    have o: "e' \<in> set (offsets ?b)" "length name' = name_len ?b e'" "e' \<noteq> e"
      using CONF_Find_Some [OF Some] assms(4) Some e by auto
    note H = header_cong [of e' ?b ?b', OF W(2) [OF o(1)], folded o(2)]
    have "CONF_GetLength name' c' = CONF_GetLength name' c" using f i Some H(4) by (simp add: CONF_GetLength_def)
    moreover have "rd_bytes ?b' (data_at ?b (length name') e') (nat (entry_length ?b (length name') e')) =
        rd_bytes ?b (data_at ?b (length name') e') (nat (entry_length ?b (length name') e'))"
      using W(3) [OF o(1,3)] data_after [of e' ?b] by (intro rd_bytes_cong) (auto simp: entry_end_def o(2))
    ultimately show ?thesis using f i Some H by (auto simp: CONF_Get_def CONF_GetType_def CONF_GetLength_def Let_def)
  qed
  then show "CONF_Get name' out n c' = CONF_Get name' out n c" "CONF_GetType name' c' = CONF_GetType name' c" by auto
qed

text \<open>Nothing outside the file, and nothing of the header and the offset table, is written.\<close>

lemma CONF_Set_bounds:
  assumes "conf_wf (conf_buffer c)" "CONF_Set name buffer len c = (l, c')" "k < 6 + 2 * be16 (conf_buffer c) 4 \<or> CONF_FILE_SIZE \<le> k"
  shows "conf_buffer c' k = conf_buffer c k"
proof (cases "0 \<le> l")
  case True
  obtain e where e: "CONF_Find name c = Some e" using CONF_Set_Some [OF assms(2) True] by blast
  note S = CONF_Set_entry [OF assms(1,2) True e]
  show ?thesis using write_entry(4) [OF assms(1) S(1) S(4) assms(3)] by (simp add: S(5))
next
  case False
  then show ?thesis using assms(2) by (auto simp: CONF_Set_def Let_def split: option.splits if_splits)
qed

lemma CONF_Set_error: "CONF_Set name buffer len c = (l, c') \<Longrightarrow> l < 0 \<Longrightarrow> c' = c"
  by (auto simp: CONF_Set_def Let_def split: option.splits if_splits)

text \<open>A value of the parental control entry, which is 0x4A bytes long, is never returned.\<close>

lemma parental_never:
  assumes "CONF_GetLength (cstr ''IPL.PC'') c = 0x4A"
  shows "CONF_GetParentalPassword stack password c = (CONF_EBADVALUE, password)"
    "CONF_GetParentalAnswer stack password c = (CONF_EBADVALUE, password)"
proof -
  have "fst (CONF_Get (cstr ''IPL.PC'') stack 0x4A c) \<noteq> 1 \<and> 0 \<le> fst (CONF_Get (cstr ''IPL.PC'') stack 0x4A c)"
    using assms
    by (auto simp: CONF_Get_def CONF_GetLength_def entry_length_def Let_def split: option.splits if_splits)
  then show "CONF_GetParentalPassword stack password c = (CONF_EBADVALUE, password)"
    "CONF_GetParentalAnswer stack password c = (CONF_EBADVALUE, password)"
    by (auto simp: CONF_GetParentalPassword_def CONF_GetParentalAnswer_def case_prod_beta Let_def)
qed

text \<open>Saving: the dirty mark is cleared exactly when the whole file was written.\<close>

lemma CONF_SaveChanges_cases:
  "CONF_SaveChanges io c =
     (if \<not> conf_inited c then (CONF_ENOTINIT, c)
      else if \<not> conf_buffer_dirty c then (0, c)
      else if IOS_Open io conf_file 2 < 0 then (IOS_Open io conf_file 2, c)
      else if IOS_Write io (IOS_Open io conf_file 2) (conf_buffer c) CONF_FILE_SIZE = int CONF_FILE_SIZE
      then (0, c\<lparr>conf_buffer_dirty := False\<rparr>) else (CONF_EBADFILE, c))"
  by (simp add: CONF_SaveChanges_def CONF_WriteBuffer_def Let_def)

section \<open>The text file\<close>

lemma strchr_n_Some: "strchr_n n b i ch = Some j \<Longrightarrow> b j = ch \<and> i \<le> j"
  by (induction n b i ch rule: strchr_n.induct) (auto split: if_splits)

lemma strchr_Some: "strchr b i ch = Some j \<Longrightarrow> b j = ch \<and> i \<le> j"
  unfolding strchr_def by (rule strchr_n_Some)

lemma skip_line_ge: "i \<le> skip_line n b i"
  by (induction n b i rule: skip_line.induct) (auto intro: order_trans [OF le_SucI])

lemma skip_line_gt: "i < CONF_TXT_FILE_SIZE \<Longrightarrow> 0 < n \<Longrightarrow> i < skip_line n b i"
proof (cases n)
  case (Suc k)
  assume "i < CONF_TXT_FILE_SIZE"
  then show ?thesis using Suc skip_line_ge [of "Suc i" k b] by auto
qed simp

text \<open>A line starts at the start of the buffer or after a newline.\<close>

definition line_start :: "bytes \<Rightarrow> nat \<Rightarrow> bool" where
  "line_start b i \<longleftrightarrow> i = 0 \<or> CONF_TXT_FILE_SIZE \<le> i \<or> b (i - 1) = 10"

lemma skip_line_start: "CONF_TXT_FILE_SIZE \<le> i + n \<Longrightarrow> line_start b (skip_line n b i)"
  by (induction n b i rule: skip_line.induct) (auto simp: line_start_def)

text \<open>The loop ends: a round more than there are bytes left makes no difference.\<close>

lemma txt_loop_fuel: "CONF_TXT_FILE_SIZE < n + i \<Longrightarrow> txt_loop (n + k) b name len i = txt_loop n b name len i"
proof (induction n arbitrary: i)
  case 0
  then show ?case by (cases k) simp_all
next
  case (Suc n)
  have "txt_loop (n + k) b name len (skip_line CONF_TXT_FILE_SIZE b i) = txt_loop n b name len (skip_line CONF_TXT_FILE_SIZE b i)"
    if "i < CONF_TXT_FILE_SIZE"
    using Suc.IH [of "skip_line CONF_TXT_FILE_SIZE b i"] Suc.prems skip_line_gt [OF that, of CONF_TXT_FILE_SIZE b] by simp
  then show ?case by (simp split: option.split)
qed

lemma txt_line_Some:
  assumes "txt_line b name len i = Some (l, v)" "0 \<le> l"
  shows "rd_bytes b i (length name) = name \<and> b (i + length name) = 61 \<and> l < int len \<and>
    v = rd_bytes b (i + length name + 1) (nat l) @ [0] \<and> b (i + length name + 1 + nat l) \<in> {13, 10}"
proof -
  obtain d where d: "strchr b i 61 = Some d" "d - i = length name" "name = rd_bytes b i (length name)"
    using assms(1) by (auto simp: txt_line_def split: option.splits if_splits)
  then have di: "d = i + length name" "b d = 61" using strchr_Some [OF d(1)] by auto
  obtain e where e: "strchr b i 13 = Some e \<or> strchr b i 10 = Some e" "l = int e - int (d + 1)" "l < int len"
      "v = rd_bytes b (d + 1) (nat l) @ [0]"
    using assms d by (auto simp: txt_line_def Let_def split: option.splits if_splits)
  then have "e = d + 1 + nat l" using assms(2) by simp
  then show ?thesis using d e di strchr_Some [of b i _ e] by (auto simp: add_ac)
qed

lemma txt_loop_sound:
  assumes "txt_loop n b name len i = (l, v)" "0 \<le> l" "line_start b i"
  shows "\<exists>j. line_start b j \<and> rd_bytes b j (length name) = name \<and> b (j + length name) = 61 \<and> l < int len \<and>
    v = rd_bytes b (j + length name + 1) (nat l) @ [0] \<and> b (j + length name + 1 + nat l) \<in> {13, 10}"
  using assms
proof (induction n arbitrary: i)
  case (Suc n)
  show ?case
  proof (cases "txt_line b name len i")
    case None
    then show ?thesis
      using Suc skip_line_start [of i CONF_TXT_FILE_SIZE b] by (auto split: if_splits)
  next
    case (Some r)
    then have "r = (l, v)" using Suc.prems(1,2) by (auto split: if_splits)
    then show ?thesis using txt_line_Some [of b name len i l v] Some Suc.prems(2,3) by blast
  qed
qed simp

end
