(* ===== verification/DevProps.thy ===== *)
theory DevProps
  imports SysProps ArqMgr Conf
begin

text \<open>
  The correctness properties of the node queues, the ARAM request queue and its manager, and the
  system configuration, each applied to a concrete state.
\<close>

section \<open>Node queues\<close>

text \<open>
  The intrusive queues of \<open>lwp_queue.c\<close> are first in, first out: nodes appended to an empty queue
  are returned in that order, and their links never disturb each other as long as no node is in the
  queue already.
\<close>

theorem node_queue_fifo:
  assumes "lwp_list m q []" "\<And>ys n zs. ns = ys @ n # zs \<Longrightarrow> node_fresh q ys n"
  shows "fst (lwpq.get_all q (length ns) (lwpq.append_all q ns m)) = map Some ns"
  by (rule lwpq.fifo_order [OF assms])

theorem node_queue_fifo_witness:
  "fst (lwpq.get_all 0x1000 (length [0x2000, 0x3000 :: u32])
     (lwpq.append_all 0x1000 [0x2000, 0x3000] (lwp_queue_init_empty 0x1000 (\<lambda>_. 0)))) = map Some [0x2000, 0x3000]"
  by (rule node_queue_fifo [OF init_empty_list])
    (auto simp: Cons_eq_append_conv node_fresh_def set_words)

section \<open>The ARAM request queue\<close>

definition arq0 :: arq where
  "arq0 = \<lparr>amem = (\<lambda>_. 0), reqs = (\<lambda>_. new_req 0 0 0 0 0 0 CbNull), qLo = 0x1000, qHi = 0x1100, pendLo = 0, pendHi = 0,
     cbLo = CbNull, cbHi = CbNull, chunk = 0, initflag = False, isr_registered = False, syncq = 0, dma = [],
     arqm_info = 0x4000, polled = (\<lambda>_. False), lw = lwp0 0\<rparr>"

definition arq1 :: arq where "arq1 = ARQ_Init arq0"

lemma arq1_ok: "arq_ok arq1 [] []" "\<not> busy arq1" "chunk arq1 = 4096" "qLo arq1 = 0x1000" "qHi arq1 = 0x1100"
  "pendLo arq1 = 0" "pendHi arq1 = 0" "dma arq1 = []"
proof -
  have "\<not> initflag arq0" "set (words (qLo arq0) []) \<inter> set (words (qHi arq0) []) = {}"
    by (auto simp: arq0_def set_words)
  from ARQ_Init_ok [OF this] show "arq_ok arq1 [] []" "\<not> busy arq1" "chunk arq1 = 4096" by (auto simp: arq1_def)
  show "qLo arq1 = 0x1000" "qHi arq1 = 0x1100" "pendLo arq1 = 0" "pendHi arq1 = 0" "dma arq1 = []"
    by (simp_all add: arq1_def ARQ_Init_def arq0_def isr_section_def split_beta Let_def)
qed

lemma arq1_fresh: "req_fresh arq1 [] [] 0x2000"
  by (auto simp: req_fresh_def node_fresh_def set_words arq1_ok)

text \<open>
  Posting a request to a busy queue only appends it to the queue of its priority; posted to an
  idle queue it is started at once: a high priority request with one transfer of its whole length, a
  low priority one with a transfer of at most one chunk.
\<close>

theorem arq_post:
  assumes "arq_ok a lo hi" "req_fresh a lo hi req"
  shows "let a' = ARQ_PostRequestAsync req owner dir prio ar mr len cb a; r = new_req owner dir prio ar mr len cb in
    if busy a then dma a' = dma a \<and> (if prio = ARQ_PRIO_LO then arq_ok a' (lo @ [req]) hi else arq_ok a' lo (hi @ [req]))
    else arq_ok a' [] [] \<and> dma a' = dma a @ [if prio = ARQ_PRIO_LO then chunk_dma (chunk a) r else req_dma r]"
  using Post_busy [OF assms, of owner dir prio ar mr len cb] Post_idle [OF assms, of owner dir prio ar mr len cb]
  by (auto simp: Let_def)

theorem arq_post_witness:
  "let a' = ARQ_PostRequestAsync 0x2000 1 0 ARQ_PRIO_LO 0x8000 0x9000 0x2800 CbNull arq1 in
    arq_ok a' [] [] \<and> dma a' = [\<lparr>d_dir = 0, d_mram = 0x9000, d_aram = 0x8000, d_len = 0x1000\<rparr>]"
  using arq_post [OF arq1_ok(1) arq1_fresh, of 1 0 ARQ_PRIO_LO "0x8000" "0x9000" "0x2800" CbNull]
  by (simp add: arq1_ok Let_def chunk_dma_def req_dma_def new_req_def)

text \<open>
  The transfer interrupt of a busy queue keeps the invariant of the queues whatever the completed
  request's callback does to them, and starts exactly one transfer when work is left and none
  otherwise: there is never more than one transfer in flight.
\<close>

theorem arq_isr:
  assumes "arq_ok a lo hi" "busy a"
    and "isr_cb a \<noteq> CbNull \<longrightarrow> (\<exists>b lo' hi'. call_cb user (isr_cb a) (isr_req a) (finish_req (isr_req a) a) = Some b \<and>
       same_pending a b \<and> arq_inv b lo' hi')"
  shows "\<exists>a' lo' hi'. ARInterruptServiceRoutine user a = Some a' \<and> arq_ok a' lo' hi' \<and>
    length (dma a') = length (dma a) + (if busy a' then 1 else 0)"
  by (rule ISR_ok [OF assms])

definition arq2 :: arq where
  "arq2 = ARQ_PostRequestAsync 0x2000 1 0 ARQ_PRIO_LO 0x8000 0x9000 0x2800 CbNull arq1"

lemma arq2_ok: "arq_ok arq2 [] []" "busy arq2" "isr_cb arq2 = CbNull"
proof -
  show "arq_ok arq2 [] []" "busy arq2"
    using Post_idle [OF arq1_ok(1) arq1_fresh arq1_ok(2), of 1 0 ARQ_PRIO_LO "0x8000" "0x9000" "0x2800" CbNull]
    by (auto simp: arq2_def busy_def)
  show "isr_cb arq2 = CbNull"
    by (simp add: arq2_def arq1_def arq0_def ARQ_Init_def ARQ_PostRequestAsync_def isr_section_def split_beta Let_def
      upd_req_def lwp_queue_appendI_def lwp_queue_init_empty_def queue_get_def lwp_queue_getI_def
      lwp_queue_isempty_def lwp_queue_firstnodeI_def lwp_queue_tail_def lwp_queue_head_def ARQServiceQueueLo_def start_lo_def AR_StartDMA_def isr_cb_def new_req_def)
qed


theorem arq_isr_witness:
  "\<exists>a' lo' hi'. ARInterruptServiceRoutine (\<lambda>_ _ _. None) arq2 = Some a' \<and> arq_ok a' lo' hi' \<and>
    length (dma a') = length (dma arq2) + (if busy a' then 1 else 0)"
  by (rule arq_isr [OF arq2_ok(1,2)]) (simp add: arq2_ok(3))

text \<open>
  C28. A low priority request posted to an idle queue is transferred completely: after one interrupt
  per chunk the transfers issued for it are adjacent in both memories, each at most one chunk long,
  together as long as the request, and the request is finished.
\<close>

theorem arq_chunks:
  assumes "arq_ok a [] []" "\<not> busy a" "req_fresh a [] [] req" "chunk a \<noteq> 0"
  shows "\<exists>a' ds. isr_times user (length ds) (ARQ_PostRequestAsync req owner dir ARQ_PRIO_LO ar mr len CbDummy a) = Some a' \<and>
    dma a' = dma a @ ds \<and> contiguous mr ar ds \<and> sum_list (map (\<lambda>d. unat (d_len d)) ds) = unat len \<and>
    (\<forall>d\<in>set ds. d_len d \<le> chunk a \<and> d_dir d = dir) \<and>
    r_state (reqs a' req) = ARQ_TASK_FINISHED \<and> \<not> busy a'"
proof -
  obtain a' where "isr_times user (length (chunks (chunk a) dir mr ar len))
        (ARQ_PostRequestAsync req owner dir ARQ_PRIO_LO ar mr len CbDummy a) = Some a'"
      "dma a' = dma a @ chunks (chunk a) dir mr ar len" "r_state (reqs a' req) = ARQ_TASK_FINISHED" "\<not> busy a'"
    using Post_chunks [OF assms, of user dir mr ar len owner] by blast
  then show ?thesis
    using chunks_contiguous [of mr ar "chunk a" dir len] chunks_len [of "chunk a" dir mr ar len]
      chunks_bound [OF assms(4), of _ dir mr ar len]
    by (intro exI [of _ a'] exI [of _ "chunks (chunk a) dir mr ar len"]) blast
qed

theorem arq_chunks_witness:
  "\<exists>a' ds. isr_times (\<lambda>_ _ _. None) (length ds) (ARQ_PostRequestAsync 0x2000 1 0 ARQ_PRIO_LO 0x8000 0x9000 0x2800 CbDummy arq1) = Some a' \<and>
    dma a' = dma arq1 @ ds \<and> contiguous 0x9000 0x8000 ds \<and> sum_list (map (\<lambda>d. unat (d_len d)) ds) = unat (0x2800 :: u32) \<and>
    (\<forall>d\<in>set ds. d_len d \<le> chunk arq1 \<and> d_dir d = 0) \<and>
    r_state (reqs a' 0x2000) = ARQ_TASK_FINISHED \<and> \<not> busy a'"
  by (rule arq_chunks [OF arq1_ok(1,2) arq1_fresh]) (simp add: arq1_ok)

text \<open>
  Removing an owner's requests takes exactly the queued requests of that owner out of both queues,
  keeps the others in order and returns how many there were. The request being transferred is never
  cancelled, although the function tries to: it compares it with the end of the queue.
\<close>

theorem arq_remove_owner:
  assumes "arq_inv a lo hi" "length lo < k" "length hi < k" "pendLo a \<noteq> qLo a + 4 \<or> pendLo a = 0"
  shows "\<exists>a'. ARQ_RemoveOwnerRequest k owner a =
      Some (of_nat (length (filter (\<lambda>r. r_owner (reqs a r) = owner) (hi @ lo))), a') \<and>
    lwp_list (amem a') (qLo a) (filter (\<lambda>r. r_owner (reqs a r) \<noteq> owner) lo) \<and>
    lwp_list (amem a') (qHi a) (filter (\<lambda>r. r_owner (reqs a r) \<noteq> owner) hi) \<and>
    pendLo a' = pendLo a \<and> pendHi a' = pendHi a \<and> dma a' = dma a"
  by (rule RemoveOwner_ok [OF assms])

theorem arq_remove_owner_witness:
  "\<exists>a'. ARQ_RemoveOwnerRequest 9 1 arq1 = Some (of_nat 0, a') \<and>
    lwp_list (amem a') 0x1000 [] \<and> lwp_list (amem a') 0x1100 [] \<and> pendLo a' = 0 \<and> pendHi a' = 0 \<and> dma a' = []"
proof -
  have "arq_inv arq1 [] []" using arq1_ok(1) by (simp add: arq_ok_def)
  from arq_remove_owner [OF this, of 9 1] show ?thesis by (simp add: arq1_ok)
qed

section \<open>The ARAM stack\<close>

definition arqm0 :: arqm where
  "arqm0 = \<lparr>aq = arq1, StackLocation = 1, FreeBytes = 0x1000, StackPointer = (\<lambda>i. 0x4000 + 0x100 * of_nat i),
     aram_start = (\<lambda>_. 0), ZeroBuffer = 0x8000\<rparr>"

lemma arqm0_ok: "arqm_ok 0x4000 0x1100 arqm0"
  by (simp add: arqm_ok_def arqm0_def)

text \<open>
  Pushing data onto the ARAM stack and popping it again restores the stack pointer, the free space
  and the stack depth.
\<close>

theorem arqm_push_pop:
  assumes "arqm_ok base tot s" "buffer AND 0x1f = 0" "0 <s len" "ROUNDUP32 len \<le> FreeBytes s"
    and "0 < unat (StackLocation s)" "unat (StackLocation s) < 15" "ARQM_PushData buffer len s = (r, s')"
  shows "arqm_ok base tot s' \<and> StackLocation (ARQM_Pop s') = StackLocation s \<and>
    ARQM_GetFreeSize (ARQM_Pop s') = ARQM_GetFreeSize s \<and> ARQM_GetStackPointer (ARQM_Pop s') = ARQM_GetStackPointer s"
  using push_pop [OF assms] push_ok [OF assms(1-4,6,7)] by blast

theorem arqm_push_pop_witness:
  "\<exists>r s'. ARQM_PushData 0x8000 100 arqm0 = (r, s') \<and> arqm_ok 0x4000 0x1100 s' \<and> StackLocation (ARQM_Pop s') = 1 \<and>
    ARQM_GetFreeSize (ARQM_Pop s') = 0x1000 \<and> ARQM_GetStackPointer (ARQM_Pop s') = 0x4100"
proof -
  obtain r s' where p: "ARQM_PushData 0x8000 100 arqm0 = (r, s')" by fastforce
  have "(0 :: u32) <s 100" by (simp add: word_sless_alt)
  with arqm_push_pop [OF arqm0_ok _ _ _ _ _ p] show ?thesis
    using p by (auto simp: arqm0_def ROUNDUP32_def ARQM_GetFreeSize_def ARQM_GetStackPointer_def)
qed

text \<open>
  The transfer of a push ends: with an idle request queue the data is moved by one transfer to
  the pushed region, its interrupt sets the flag the push polls for, and the queue is idle again.
\<close>

theorem arqm_transfer:
  assumes "arq_ok q [] []" "\<not> busy q" "i < 16" "req_fresh q [] [] (arqm_handle q i)"
  shows "\<exists>q'. ARInterruptServiceRoutine user (push_transfer i owner start buffer rlen q) = Some q' \<and>
    polled q' i \<and> \<not> busy q' \<and> arq_ok q' [] [] \<and>
    dma q' = dma q @ [\<lparr>d_dir = 0, d_mram = buffer, d_aram = start, d_len = rlen\<rparr>]"
  by (rule push_transfer_done [OF assms])

theorem arqm_transfer_witness:
  "\<exists>q'. ARInterruptServiceRoutine (\<lambda>_ _ _. None) (push_transfer 0 1 0x4100 0x8000 128 arq1) = Some q' \<and>
    polled q' 0 \<and> \<not> busy q' \<and> arq_ok q' [] [] \<and>
    dma q' = dma arq1 @ [\<lparr>d_dir = 0, d_mram = 0x8000, d_aram = 0x4100, d_len = 128\<rparr>]"
proof (rule arqm_transfer [OF arq1_ok(1,2)])
  have "arqm_info arq1 = 0x4000"
    by (simp add: arq1_def ARQ_Init_def arq0_def isr_section_def split_beta Let_def)
  then show "req_fresh arq1 [] [] (arqm_handle arq1 0)"
    by (simp add: arqm_handle_def req_fresh_def node_fresh_def set_words arq1_ok)
qed simp


section \<open>The system configuration\<close>

text \<open>
  \<open>conf0\<close> is a configuration with two entries, the byte \<open>IPL.PGS\<close> at offset \<open>0x20\<close> and the array
  \<open>IPL.PC\<close> of \<open>0x4A\<close> bytes at offset \<open>0x40\<close>.
\<close>

definition sysconf :: bytes where
  "sysconf = zeros(5 := 2, 7 := 0x20, 9 := 0x40,
     0x20 := 0x66, 0x21 := 0x49, 0x22 := 0x50, 0x23 := 0x4c, 0x24 := 0x2e, 0x25 := 0x50, 0x26 := 0x47, 0x27 := 0x53,
     0x40 := 0x45, 0x41 := 0x49, 0x42 := 0x50, 0x43 := 0x4c, 0x44 := 0x2e, 0x45 := 0x50, 0x46 := 0x43, 0x47 := 0x49)"

text \<open>The text settings, the one line \<open>GAME=US\<close>.\<close>

definition settings :: bytes where
  "settings = zeros(0 := 0x47, 1 := 0x41, 2 := 0x4d, 3 := 0x45, 4 := 61, 5 := 0x55, 6 := 0x53, 7 := 13, 8 := 10)"

definition conf0 :: conf where
  "conf0 = \<lparr>conf_inited = True, conf_buffer = sysconf, conf_txt_buffer = settings, conf_buffer_dirty = False\<rparr>"

lemma names: "cstr ''IPL.PGS'' = [0x49, 0x50, 0x4c, 0x2e, 0x50, 0x47, 0x53]" "cstr ''IPL.PC'' = [0x49, 0x50, 0x4c, 0x2e, 0x50, 0x43]"
  by (simp_all add: cstr_def)

lemma sysconf_head: "be16 sysconf 4 = 2" "offsets sysconf = [0x20, 0x40]"
  by (simp_all add: be16_def sysconf_def offsets_def zeros_def)

lemma conf0_wf: "conf_wf (conf_buffer conf0)"
  unfolding conf_wf_def conf0_def
  by (simp add: sysconf_head) (simp add: sysconf_def name_len_def entry_length_def entry_type_def entry_end_def data_at_def be16_def zeros_def Let_def drop_bit_eq_div)

lemma conf0_find: "CONF_Find (cstr ''IPL.PGS'') conf0 = Some 0x20" "CONF_Find (cstr ''IPL.PC'') conf0 = Some 0x40"
  unfolding CONF_Find_eq
  by (simp_all add: conf0_def sysconf_head names entry_name_def name_len_def rd_bytes_def)
    (simp_all add: sysconf_def zeros_def)


lemma conf0_set: "\<exists>c'. CONF_Set (cstr ''IPL.PGS'') (\<lambda>_. 1) 1 conf0 = (1, c')"
  by (simp add: CONF_Set_def conf0_find CONF_GetLength_def Let_def)
    (simp add: conf0_def sysconf_def zeros_def entry_length_def entry_type_def names Let_def drop_bit_eq_div)

text \<open>
  C32. A setting that was written successfully reads back as written, the buffer stays well formed and
  is marked for saving; a write that fails changes nothing.
\<close>

theorem conf_set_get:
  assumes "conf_wf (conf_buffer c)" "CONF_Set name buffer len c = (l, c')"
  shows "if l < 0 then c' = c
    else CONF_Get name out len c' = (l, wr_bytes out 0 (rd_bytes buffer 0 len)) \<and> conf_wf (conf_buffer c') \<and> conf_buffer_dirty c'"
  using CONF_Set_Get [OF assms] CONF_Set_error [OF assms(2)] by auto

theorem conf_set_get_witness:
  "\<exists>c'. CONF_Set (cstr ''IPL.PGS'') (\<lambda>_. 1) 1 conf0 = (1, c') \<and>
    CONF_Get (cstr ''IPL.PGS'') zeros 1 c' = (1, wr_bytes zeros 0 (rd_bytes (\<lambda>_. 1) 0 1)) \<and>
    conf_wf (conf_buffer c') \<and> conf_buffer_dirty c'"
proof -
  obtain c' where c': "CONF_Set (cstr ''IPL.PGS'') (\<lambda>_. 1) 1 conf0 = (1, c')" using conf0_set by blast
  show ?thesis using conf_set_get [OF conf0_wf c', of zeros] c' by simp
qed

text \<open>
  Writing a setting leaves every other setting and every byte of the buffer outside the entries
  as it was.
\<close>

theorem conf_set_frame:
  assumes "conf_wf (conf_buffer c)" "CONF_Set name buffer len c = (l, c')" "CONF_Find name' c \<noteq> CONF_Find name c"
  shows "CONF_Get name' out n c' = CONF_Get name' out n c \<and>
    (\<forall>k. k < 6 + 2 * be16 (conf_buffer c) 4 \<or> CONF_FILE_SIZE \<le> k \<longrightarrow> conf_buffer c' k = conf_buffer c k)"
proof (cases "l < 0")
  case True
  then show ?thesis using CONF_Set_error [OF assms(2)] by simp
next
  case False
  then show ?thesis using CONF_Set_other [OF assms(1,2) _ assms(3)] CONF_Set_bounds [OF assms(1,2)] by auto
qed

theorem conf_set_frame_witness:
  "\<exists>c'. CONF_Set (cstr ''IPL.PGS'') (\<lambda>_. 1) 1 conf0 = (1, c') \<and>
    CONF_Get (cstr ''IPL.PC'') zeros 0x4A c' = CONF_Get (cstr ''IPL.PC'') zeros 0x4A conf0 \<and>
    (\<forall>k. k < 6 + 2 * be16 (conf_buffer conf0) 4 \<or> CONF_FILE_SIZE \<le> k \<longrightarrow> conf_buffer c' k = conf_buffer conf0 k)"
proof -
  obtain c' where c': "CONF_Set (cstr ''IPL.PGS'') (\<lambda>_. 1) 1 conf0 = (1, c')" using conf0_set by blast
  show ?thesis using conf_set_frame [OF conf0_wf c', of "cstr ''IPL.PC''" zeros "0x4A"] c' by (auto simp: conf0_find)
qed

text \<open>
  Decrypting the text settings twice gives the original bytes: the cipher is its own inverse, so
  the same routine encrypts.
\<close>

theorem conf_cipher_involution: "CONF_DecryptTextBuffer (CONF_DecryptTextBuffer b) = b"
  by (rule decrypt_involution)

text \<open>
  A text setting that is found is the text between the equals sign and the end of a line that
  starts with its name and an equals sign, terminated by a zero byte, and shorter than the caller's
  buffer.
\<close>

theorem conf_txt_sound:
  assumes "CONF_GetTxt name len c = (l, v)" "0 \<le> l"
  shows "\<exists>j. line_start (conf_txt_buffer c) j \<and> rd_bytes (conf_txt_buffer c) j (length name) = name \<and>
    conf_txt_buffer c (j + length name) = 61 \<and> l < int len \<and>
    v = rd_bytes (conf_txt_buffer c) (j + length name + 1) (nat l) @ [0] \<and>
    conf_txt_buffer c (j + length name + 1 + nat l) \<in> {13, 10}"
proof -
  have "txt_loop (CONF_TXT_FILE_SIZE + 1) (conf_txt_buffer c) name len 0 = (l, v)"
    using assms unfolding CONF_GetTxt_def by (auto split: if_splits)
  then show ?thesis by (rule txt_loop_sound) (use assms(2) in \<open>simp_all add: line_start_def\<close>)
qed

lemma strchr_step:
  "0 < n \<Longrightarrow> strchr_n n b i ch = (if b i = ch then Some i else if b i = 0 then None else strchr_n (n - 1) b (i + 1) ch)"
  by (cases n) auto

lemma conf0_game: "CONF_GetTxt (cstr ''GAME'') 3 conf0 = (2, [0x55, 0x53, 0])"
proof -
  have d: "strchr settings 0 61 = Some 4" "strchr settings 0 13 = Some 7"
    unfolding strchr_def by (simp_all add: strchr_step settings_def zeros_def)
  have n: "cstr ''GAME'' = [0x47, 0x41, 0x4d, 0x45]" by (simp add: cstr_def)
  have "txt_line settings (cstr ''GAME'') 3 0 = Some (2, [0x55, 0x53, 0])"
    unfolding txt_line_def d n by (simp add: rd_bytes_def settings_def zeros_def upt_rec)
  then have "txt_loop (Suc 256) settings (cstr ''GAME'') 3 0 = (2, [0x55, 0x53, 0])"
    by (subst txt_loop.simps) simp
  then show ?thesis unfolding CONF_GetTxt_def by (simp add: conf0_def)
qed

theorem conf_txt_sound_witness:
  "\<exists>j. line_start settings j \<and> rd_bytes settings j 4 = cstr ''GAME'' \<and> settings (j + 4) = 61 \<and> (2 :: int) < int 3 \<and>
    [0x55, 0x53, 0] = rd_bytes settings (j + 4 + 1) 2 @ [0] \<and> settings (j + 4 + 1 + 2) \<in> {13, 10}"
proof -
  have "conf_txt_buffer conf0 = settings" "length (cstr ''GAME'') = 4" by (simp_all add: conf0_def cstr_def)
  then show ?thesis using conf_txt_sound [OF conf0_game] by simp
qed

text \<open>
  The parental control PIN and answer can never be read: the functions ask for the whole entry of
  \<open>0x4A\<close> bytes and then take any length but 1 for an error.
\<close>

theorem conf_parental_never:
  assumes "CONF_GetLength (cstr ''IPL.PC'') c = 0x4A"
  shows "CONF_GetParentalPassword stack password c = (CONF_EBADVALUE, password) \<and>
    CONF_GetParentalAnswer stack password c = (CONF_EBADVALUE, password)"
  using parental_never [OF assms] by blast

theorem conf_parental_never_witness:
  "CONF_GetParentalPassword zeros zeros conf0 = (CONF_EBADVALUE, zeros) \<and>
    CONF_GetParentalAnswer zeros zeros conf0 = (CONF_EBADVALUE, zeros)"
proof (rule conf_parental_never)
  show "CONF_GetLength (cstr ''IPL.PC'') conf0 = 0x4A"
    by (simp add: CONF_GetLength_def conf0_find)
      (simp add: conf0_def sysconf_def zeros_def entry_length_def entry_type_def names Let_def drop_bit_eq_div)
qed

end
