(* ===== verification/Card.thy ===== *)
theory Card
  imports Ogc_Prelude
begin

text \<open>
  Memory cards, \<^verbatim>\<open>libogc/card.c\<close>: the file system kept in the work area. The work area is 5 blocks of
  8192 bytes: the header, two copies of the directory and two copies of the block allocation table.
  It is a memory of 16-bit words, \<open>work\<close>; the copy \<open>d\<close> (0 or 1) of the directory starts at word
  \<open>dirblk d\<close> and the copy \<open>f\<close> of the table at \<open>fatblk f\<close>. \<^verbatim>\<open>curr_dir\<close> and \<^verbatim>\<open>curr_fat\<close>, pointers to the
  copy the next change goes to, are the index of the copy, \<open>None\<close> for null.

  The entry of block \<open>b\<close> in \<^verbatim>\<open>fat[b-CARD_SYSAREA]\<close> is the word \<open>b\<close> of its table: the five words before
  the entries are the table's own fields.

  A command to the card (\<^verbatim>\<open>__card_start\<close> and the EXI transfers after it) is accepted or refused by the
  EXI bus: its result is the parameter \<open>exi\<close>, and an accepted command is recorded in \<open>cmd\<close> with the
  callback that runs when it ends. Callbacks called on the way are returned in a list.
  \<open>None\<close> stands for a null pointer dereferenced.
\<close>

section \<open>Data\<close>

datatype card_cb =
    CNull | CSync | CDefault | CUser u32
  | CFatErase | CFatWrite | CDirErase | CDirWrite | CCreateFat | CDelete | CFormat

datatype card_cmd = CmdErase u32 | CmdWrite u32 u32 nat

record card =
  attached :: bool
  result :: int
  card_size :: u16
  sector_size :: u32
  blocks :: u16
  curr_fileblock :: u16
  curr_dir :: "nat option"
  curr_fat :: "nat option"
  work :: "nat \<Rightarrow> u16"
  format_step :: u32
  cmd :: "(card_cmd \<times> card_cb) option"
  card_api_cb :: card_cb
  card_erase_cb :: card_cb

type_synonym cardmap = "int \<Rightarrow> card"

abbreviation CARD_SYSAREA :: nat where "CARD_SYSAREA \<equiv> 5"
abbreviation CARD_MAXFILES :: nat where "CARD_MAXFILES \<equiv> 127"
abbreviation CARD_FILENAMELEN :: nat where "CARD_FILENAMELEN \<equiv> 32"

abbreviation CARD_ERROR_READY :: int where "CARD_ERROR_READY \<equiv> 0"
abbreviation CARD_ERROR_BUSY :: int where "CARD_ERROR_BUSY \<equiv> - 1"
abbreviation CARD_ERROR_NOCARD :: int where "CARD_ERROR_NOCARD \<equiv> - 3"
abbreviation CARD_ERROR_NOFILE :: int where "CARD_ERROR_NOFILE \<equiv> - 4"
abbreviation CARD_ERROR_BROKEN :: int where "CARD_ERROR_BROKEN \<equiv> - 6"
abbreviation CARD_ERROR_INSSPACE :: int where "CARD_ERROR_INSSPACE \<equiv> - 9"
abbreviation CARD_ERROR_LIMIT :: int where "CARD_ERROR_LIMIT \<equiv> - 11"
abbreviation CARD_ERROR_FATAL_ERROR :: int where "CARD_ERROR_FATAL_ERROR \<equiv> - 128"

definition dirblk :: "nat \<Rightarrow> nat" where "dirblk d = (d + 1) * 4096"
definition fatblk :: "nat \<Rightarrow> nat" where "fatblk f = (f + 3) * 4096"

text \<open>Word offsets of the fields of \<^verbatim>\<open>struct card_dircntrl\<close> in a directory block.\<close>

abbreviation DIR_updated :: nat where "DIR_updated \<equiv> 4093"
abbreviation DIR_chksum1 :: nat where "DIR_chksum1 \<equiv> 4094"
abbreviation DIR_chksum2 :: nat where "DIR_chksum2 \<equiv> 4095"

text \<open>Word offsets of the fields of \<^verbatim>\<open>struct card_bat\<close>.\<close>

abbreviation FAT_chksum1 :: nat where "FAT_chksum1 \<equiv> 0"
abbreviation FAT_chksum2 :: nat where "FAT_chksum2 \<equiv> 1"
abbreviation FAT_updated :: nat where "FAT_updated \<equiv> 2"
abbreviation FAT_freeblocks :: nat where "FAT_freeblocks \<equiv> 3"
abbreviation FAT_lastalloc :: nat where "FAT_lastalloc \<equiv> 4"

definition block_copy :: "nat \<Rightarrow> nat \<Rightarrow> (nat \<Rightarrow> u16) \<Rightarrow> (nat \<Rightarrow> u16)" where
  "block_copy dst src w = (\<lambda>i. if dst \<le> i \<and> i < dst + 4096 then w (src + (i - dst)) else w i)"

section \<open>Checksums\<close>

fun checksum_loop :: "(nat \<Rightarrow> u16) \<Rightarrow> nat \<Rightarrow> nat \<Rightarrow> u16 \<times> u16 \<Rightarrow> u16 \<times> u16" where
  "checksum_loop w i 0 cs = cs"
| "checksum_loop w i (Suc n) (cs1, cs2) = checksum_loop w (Suc i) n (cs1 + w i, cs2 + (w i XOR 0xffff))"

text \<open>\<open>len\<close> is in bytes, as in the source.\<close>

definition card_checksum :: "(nat \<Rightarrow> u16) \<Rightarrow> nat \<Rightarrow> nat \<Rightarrow> u16 \<times> u16" where
  "card_checksum w i len =
     (let (cs1, cs2) = checksum_loop w i (len div 2) (0, 0)
      in (if cs1 = 0xffff then 0 else cs1, if cs2 = 0xffff then 0 else cs2))"

section \<open>The control block\<close>

definition card_putcntrlblock :: "int \<Rightarrow> card \<Rightarrow> card" where
  "card_putcntrlblock res c =
     (if attached c then c\<lparr>result := res\<rparr> else if result c = CARD_ERROR_BUSY then c\<lparr>result := res\<rparr> else c)"

definition valid_chn :: "int \<Rightarrow> bool" where
  "valid_chn chn \<longleftrightarrow> 0 \<le> chn \<and> chn < 2"

definition card_getcntrlblock :: "int \<Rightarrow> cardmap \<Rightarrow> int \<times> cardmap" where
  "card_getcntrlblock chn m =
     (if \<not> valid_chn chn then (CARD_ERROR_FATAL_ERROR, m)
      else let c = m chn in
        if \<not> attached c then (CARD_ERROR_NOCARD, m)
        else if result c \<noteq> CARD_ERROR_BUSY
        then (CARD_ERROR_READY, m(chn := c\<lparr>result := CARD_ERROR_BUSY, card_api_cb := CNull\<rparr>))
        else (CARD_ERROR_BUSY, m))"

definition CARD_GetErrorCode :: "int \<Rightarrow> cardmap \<Rightarrow> int" where
  "CARD_GetErrorCode chn m = (if \<not> valid_chn chn then CARD_ERROR_NOCARD else result (m chn))"

section \<open>Commands\<close>

definition ogc_card_sectorerase :: "int \<Rightarrow> u32 \<Rightarrow> card_cb \<Rightarrow> card \<Rightarrow> int \<times> card" where
  "ogc_card_sectorerase exi sector cb c =
     (if sector mod sector_size c \<noteq> 0 then (CARD_ERROR_FATAL_ERROR, c)
      else if exi < 0 then (exi, c) else (exi, c\<lparr>cmd := Some (CmdErase sector, cb)\<rparr>))"

text \<open>\<open>buf\<close> is the word of the work area the data starts at.\<close>

definition ogc_card_write :: "int \<Rightarrow> u32 \<Rightarrow> u32 \<Rightarrow> nat \<Rightarrow> card_cb \<Rightarrow> card \<Rightarrow> int \<times> card" where
  "ogc_card_write exi address block_len buf cb c =
     (if \<not> attached c then (CARD_ERROR_NOCARD, c)
      else if exi < 0 then (exi, c) else (exi, c\<lparr>cmd := Some (CmdWrite address block_len buf, cb)\<rparr>))"

section \<open>Writing the directory and the table back\<close>

definition card_updatefat :: "int \<Rightarrow> nat \<Rightarrow> card_cb \<Rightarrow> card \<Rightarrow> int \<times> card" where
  "card_updatefat exi f cb c =
     (if \<not> attached c then (CARD_ERROR_NOCARD, c)
      else let b = fatblk f;
               w1 = (work c)(b + FAT_updated := work c (b + FAT_updated) + 1);
               (cs1, cs2) = card_checksum w1 (b + 2) 0x1ffc;
               w2 = w1(b + FAT_chksum1 := cs1, b + FAT_chksum2 := cs2)
           in ogc_card_sectorerase exi (of_nat (f + 3) * sector_size c) CFatErase (c\<lparr>work := w2, card_erase_cb := cb\<rparr>))"

definition card_updatedir :: "int \<Rightarrow> card_cb \<Rightarrow> card \<Rightarrow> (int \<times> card) option" where
  "card_updatedir exi cb c =
     (if \<not> attached c then Some (CARD_ERROR_NOCARD, c)
      else do { d \<leftarrow> curr_dir c;
                let b = dirblk d;
                    w1 = (work c)(b + DIR_updated := work c (b + DIR_updated) + 1);
                    (cs1, cs2) = card_checksum w1 b 0x1ffc;
                    w2 = w1(b + DIR_chksum1 := cs1, b + DIR_chksum2 := cs2)
                in Some (ogc_card_sectorerase exi (of_nat (d + 1) * sector_size c) CDirErase
                           (c\<lparr>work := w2, card_erase_cb := cb\<rparr>)) })"

text \<open>The end of an update: the result is stored unless an API call is waiting for it, and the callback is called.\<close>

definition finish_update :: "int \<Rightarrow> card \<Rightarrow> card \<times> (card_cb \<times> int) list" where
  "finish_update ret c =
     (let c1 = (if card_api_cb c = CNull then card_putcntrlblock ret c else c);
          cb = card_erase_cb c1
      in if cb \<noteq> CNull then (c1\<lparr>card_erase_cb := CNull\<rparr>, [(cb, ret)]) else (c1, []))"

definition card_faterasecallback :: "int \<Rightarrow> int \<Rightarrow> card \<Rightarrow> (card \<times> (card_cb \<times> int) list) option" where
  "card_faterasecallback exi res c =
     (if res \<ge> 0
      then do { f \<leftarrow> curr_fat c;
                let (ret, c1) = ogc_card_write exi (of_nat (f + 3) * sector_size c) 8192 (fatblk f) CFatWrite c
                in Some (if ret \<ge> 0 then (c1, []) else finish_update ret c1) }
      else Some (finish_update res c))"

definition card_direrasecallback :: "int \<Rightarrow> int \<Rightarrow> card \<Rightarrow> (card \<times> (card_cb \<times> int) list) option" where
  "card_direrasecallback exi res c =
     (if res \<ge> 0
      then do { d \<leftarrow> curr_dir c;
                let (ret, c1) = ogc_card_write exi (of_nat (d + 1) * sector_size c) 8192 (dirblk d) CDirWrite c
                in Some (if ret \<ge> 0 then (c1, []) else finish_update ret c1) }
      else Some (finish_update res c))"

text \<open>After a successful write the other copy becomes current, with the content just written.\<close>

definition card_fatwritecallback :: "int \<Rightarrow> card \<Rightarrow> card \<times> (card_cb \<times> int) list" where
  "card_fatwritecallback res c =
     (let c1 = (if res \<ge> 0
                then if curr_fat c = Some 0 then c\<lparr>curr_fat := Some 1, work := block_copy (fatblk 1) (fatblk 0) (work c)\<rparr>
                     else c\<lparr>curr_fat := Some 0, work := block_copy (fatblk 0) (fatblk 1) (work c)\<rparr>
                else c)
      in finish_update res c1)"

definition card_dirwritecallback :: "int \<Rightarrow> card \<Rightarrow> card \<times> (card_cb \<times> int) list" where
  "card_dirwritecallback res c =
     (let c1 = (if res \<ge> 0
                then if curr_dir c = Some 0 then c\<lparr>curr_dir := Some 1, work := block_copy (dirblk 1) (dirblk 0) (work c)\<rparr>
                     else c\<lparr>curr_dir := Some 0, work := block_copy (dirblk 0) (dirblk 1) (work c)\<rparr>
                else c)
      in finish_update res c1)"

section \<open>Checking the copies\<close>

definition dir_bad :: "nat \<Rightarrow> (nat \<Rightarrow> u16) \<Rightarrow> bool" where
  "dir_bad d w \<longleftrightarrow> card_checksum w (dirblk d) 0x1ffc \<noteq> (w (dirblk d + DIR_chksum1), w (dirblk d + DIR_chksum2))"

text \<open>The number of free blocks the table shows (\<^verbatim>\<open>curblock\<close> from \<open>CARD_SYSAREA\<close> to \<open>blocks\<close>).\<close>

definition count_free :: "nat \<Rightarrow> u16 \<Rightarrow> (nat \<Rightarrow> u16) \<Rightarrow> u16" where
  "count_free f n w = of_nat (length (filter (\<lambda>b. w (fatblk f + b) = 0) [CARD_SYSAREA..<unat n]))"

definition fat_bad :: "nat \<Rightarrow> u16 \<Rightarrow> (nat \<Rightarrow> u16) \<Rightarrow> bool" where
  "fat_bad f n w \<longleftrightarrow>
     card_checksum w (fatblk f + 2) 0x1ffc \<noteq> (w (fatblk f + FAT_chksum1), w (fatblk f + FAT_chksum2)) \<or>
     count_free f n w \<noteq> w (fatblk f + FAT_freeblocks)"

text \<open>
  Which copy to use next, from what was found bad: a bad one, else the older one; it is overwritten
  with the other. A pointer that is still set is kept.
\<close>

definition pick_copy :: "(nat \<Rightarrow> bool) \<Rightarrow> u16 \<Rightarrow> u16 \<Rightarrow> nat" where
  "pick_copy bad upd0 upd1 =
     (if \<not> bad 0 \<and> \<not> bad 1 then if upd0 < upd1 then 0 else 1 else if bad 1 then 1 else 0)"

definition card_checkdir :: "card \<Rightarrow> nat \<times> nat \<times> card" where
  "card_checkdir c =
     (let bad = (\<lambda>d. dir_bad d (work c));
          nbad = length (filter bad [0, 1]);
          dir = pick_copy bad (work c (dirblk 0 + DIR_updated)) (work c (dirblk 1 + DIR_updated));
          cur = (if nbad > 0 then None else curr_dir c)
      in case cur of
           None \<Rightarrow> (nbad, dir, c\<lparr>curr_dir := Some dir, work := block_copy (dirblk dir) (dirblk (1 - dir)) (work c)\<rparr>)
         | Some d \<Rightarrow> (nbad, if d = 0 then 0 else 1, c))"

definition card_checkfat :: "card \<Rightarrow> nat \<times> nat \<times> card" where
  "card_checkfat c =
     (let bad = (\<lambda>f. fat_bad f (blocks c) (work c));
          nbad = length (filter bad [0, 1]);
          fat = pick_copy bad (work c (fatblk 0 + FAT_updated)) (work c (fatblk 1 + FAT_updated));
          cur = (if nbad > 0 then None else curr_fat c)
      in case cur of
           None \<Rightarrow> (nbad, fat, c\<lparr>curr_fat := Some fat, work := block_copy (fatblk fat) (fatblk (1 - fat)) (work c)\<rparr>)
         | Some f \<Rightarrow> (nbad, if f = 0 then 0 else 1, c))"

definition card_verify :: "card \<Rightarrow> int \<times> card" where
  "card_verify c =
     (let (n1, _, c1) = card_checkdir c; (n2, _, c2) = card_checkfat c1
      in (if n1 + n2 \<le> 2 \<and> curr_dir c2 \<noteq> None \<and> curr_fat c2 \<noteq> None then CARD_ERROR_READY else CARD_ERROR_BROKEN, c2))"

section \<open>Identification\<close>

definition card_sector_sizes :: "u32 list" where
  "card_sector_sizes = [0x2000, 0x4000, 0x8000, 0x10000, 0x20000, 0x40000, 0, 0]"

definition ROTL :: "u32 \<Rightarrow> nat \<Rightarrow> u32" where
  "ROTL v n = push_bit n v OR drop_bit (32 - n) v"

definition card_iscard :: "u32 \<Rightarrow> bool" where
  "card_iscard i =
     (if i AND NOT 0xffff \<noteq> 0 then False
      else if i AND 3 \<noteq> 0 then False
      else let tmp = i AND 0xfc in
        if tmp \<in> set [4, 8, 0x10, 0x20, 0x40, 0x80]
        then let idx = ROTL i 23 AND 0x1c; secsize = card_sector_sizes ! unat (drop_bit 2 idx) in
             if secsize = 0 then False else (push_bit 20 tmp AND 0x1FFE0000) div secsize > 8
        else False)"

section \<open>Allocating and freeing blocks\<close>

text \<open>\<^verbatim>\<open>currblock++; if(currblock<CARD_SYSAREA || currblock>=card->blocks) currblock = CARD_SYSAREA;\<close>\<close>

definition next_block :: "u16 \<Rightarrow> u16 \<Rightarrow> u16" where
  "next_block n cur = (let b = cur + 1 in if b < 5 \<or> b \<ge> n then 5 else b)"

text \<open>
  The loop of \<^verbatim>\<open>__card_allocblock\<close>: \<open>k\<close> tries are left, \<open>i\<close> blocks are still needed, \<open>tb\<close> is the first
  word of the table. \<open>Inl\<close> is the error return, with the table as it is by then.
\<close>

fun alloc_loop :: "nat \<Rightarrow> nat \<Rightarrow> nat \<Rightarrow> u16 \<Rightarrow> u16 \<Rightarrow> u16 \<Rightarrow> u16 \<Rightarrow> (nat \<Rightarrow> u16) \<Rightarrow>
    (nat \<Rightarrow> u16) + (u16 \<times> u16 \<times> (nat \<Rightarrow> u16))" where
  "alloc_loop k 0 tb n block cur prev w = Inr (block, cur, w)"
| "alloc_loop 0 (Suc i) tb n block cur prev w = Inl w"
| "alloc_loop (Suc k) (Suc i) tb n block cur prev w =
     (let cur' = next_block n cur in
      if w (tb + unat cur') = 0
      then let w1 = (if block \<noteq> 0xffff then w(tb + unat prev := cur') else w);
               block' = (if block \<noteq> 0xffff then block else cur')
           in alloc_loop k i tb n block' cur' cur' (w1(tb + unat cur' := 0xffff))
      else alloc_loop k (Suc i) tb n block cur' prev w)"

definition card_allocblock :: "int \<Rightarrow> u32 \<Rightarrow> card_cb \<Rightarrow> card \<Rightarrow> (int \<times> card) option" where
  "card_allocblock exi need cb c =
     (if \<not> attached c then Some (CARD_ERROR_NOCARD, c)
      else do { f \<leftarrow> curr_fat c;
                let tb = fatblk f; free = work c (tb + FAT_freeblocks) in
                if unat free < unat need then Some (CARD_ERROR_INSSPACE, c)
                else case alloc_loop (unat (ucast (blocks c) - 5 :: u32)) (unat need) tb (blocks c) 0xffff
                            (work c (tb + FAT_lastalloc)) 0 (work c) of
                       Inl w \<Rightarrow> Some (CARD_ERROR_BROKEN, c\<lparr>work := w\<rparr>)
                     | Inr (block, cur, w) \<Rightarrow>
                         Some (card_updatefat exi f cb
                           (c\<lparr>work := w(tb + FAT_freeblocks := w (tb + FAT_freeblocks) - ucast need,
                                         tb + FAT_lastalloc := cur), curr_fileblock := block\<rparr>)) })"

text \<open>
  The loop of \<^verbatim>\<open>__card_freeblock\<close>, with fuel for the length of the chain: \<open>None\<close> when the fuel ends,
  \<open>Some (Inl w)\<close> is the error return.
\<close>

fun free_loop :: "nat \<Rightarrow> nat \<Rightarrow> u16 \<Rightarrow> u16 \<Rightarrow> (nat \<Rightarrow> u16) \<Rightarrow> ((nat \<Rightarrow> u16) + (nat \<Rightarrow> u16)) option" where
  "free_loop 0 tb n nxt w = None"
| "free_loop (Suc k) tb n nxt w =
     (if nxt = 0xffff then Some (Inr w)
      else if nxt < 5 \<or> nxt \<ge> n then Some (Inl w)
      else let nxt' = w (tb + unat nxt);
               w1 = w(tb + unat nxt := 0)
           in free_loop k tb n nxt' (w1(tb + FAT_freeblocks := w1 (tb + FAT_freeblocks) + 1)))"

definition card_freeblock :: "nat \<Rightarrow> int \<Rightarrow> u16 \<Rightarrow> card_cb \<Rightarrow> card \<Rightarrow> (int \<times> card) option" where
  "card_freeblock fuel exi block cb c =
     (if \<not> attached c then Some (CARD_ERROR_NOCARD, c)
      else do { f \<leftarrow> curr_fat c;
                let tb = fatblk f; nxt = work c (tb + unat block);
                    w1 = (work c)(tb + unat block := 0);
                    w2 = w1(tb + FAT_freeblocks := w1 (tb + FAT_freeblocks) + 1)
                in do { r \<leftarrow> free_loop fuel tb (blocks c) nxt w2;
                        Some (case r of Inl w \<Rightarrow> (CARD_ERROR_BROKEN, c\<lparr>work := w\<rparr>)
                              | Inr w \<Rightarrow> card_updatefat exi f cb (c\<lparr>work := w\<rparr>)) } })"

section \<open>Formatting\<close>

definition fill :: "nat \<Rightarrow> nat \<Rightarrow> u16 \<Rightarrow> (nat \<Rightarrow> u16) \<Rightarrow> (nat \<Rightarrow> u16)" where
  "fill b n v w = (\<lambda>i. if b \<le> i \<and> i < b + n then v else w i)"

text \<open>
  The header: \<open>serial\<close> stands for the 16 words made from the clock, the SRAM and a video register,
  \<open>enc\<close> is the font encoding.
\<close>

definition format_header :: "(nat \<Rightarrow> u16) \<Rightarrow> u16 \<Rightarrow> u16 \<Rightarrow> (nat \<Rightarrow> u16) \<Rightarrow> (nat \<Rightarrow> u16)" where
  "format_header serial enc csize w =
     (let w1 = fill 0 4096 0xffff w;
          w2 = (\<lambda>i. if i < 16 then serial i else w1 i)(16 := 0, 17 := csize, 18 := enc);
          (cs1, cs2) = card_checksum w2 0 508
      in w2(254 := cs1, 255 := cs2))"

definition format_dir :: "nat \<Rightarrow> (nat \<Rightarrow> u16) \<Rightarrow> (nat \<Rightarrow> u16)" where
  "format_dir d w =
     (let b = dirblk d;
          w1 = fill b 4096 0xffff w;
          (cs1, cs2) = card_checksum w1 b 8188
      in w1(b + DIR_chksum1 := cs1, b + DIR_chksum2 := cs2))"

definition format_fat :: "u16 \<Rightarrow> nat \<Rightarrow> (nat \<Rightarrow> u16) \<Rightarrow> (nat \<Rightarrow> u16)" where
  "format_fat n f w =
     (let b = fatblk f;
          w1 = (fill b 4096 0 w)(b + FAT_updated := of_nat f, b + FAT_freeblocks := n - 5, b + FAT_lastalloc := 4);
          (cs1, cs2) = card_checksum w1 (b + 2) 8188
      in w1(b + FAT_chksum1 := cs1, b + FAT_chksum2 := cs2))"

definition format_image :: "(nat \<Rightarrow> u16) \<Rightarrow> u16 \<Rightarrow> card \<Rightarrow> (nat \<Rightarrow> u16)" where
  "format_image serial enc c =
     format_fat (blocks c) 1 (format_fat (blocks c) 0 (format_dir 1 (format_dir 0
       (format_header serial enc (card_size c) (work c)))))"

definition card_formatregion ::
    "int \<Rightarrow> (nat \<Rightarrow> u16) \<Rightarrow> u16 \<Rightarrow> card_cb \<Rightarrow> int \<Rightarrow> cardmap \<Rightarrow> int \<times> cardmap" where
  "card_formatregion exi serial enc cb chn m =
     (if \<not> valid_chn chn then (CARD_ERROR_NOCARD, m)
      else let (ret, m1) = card_getcntrlblock chn m in
      if ret < 0 then (ret, m1)
      else let c1 = (m1 chn)\<lparr>work := format_image serial enc (m1 chn),
                             card_api_cb := (if cb = CNull then CDefault else cb), format_step := 0\<rparr>;
               (ret2, c2) = ogc_card_sectorerase exi 0 CFormat c1
           in if ret2 \<ge> 0 then (ret2, m1(chn := c2)) else (ret2, m1(chn := card_putcntrlblock ret2 c2)))"

text \<open>One step of the format per finished command: erase blocks 0 to 4, write them, then set up the pointers.\<close>

definition format_done :: "int \<Rightarrow> card \<Rightarrow> card \<times> (card_cb \<times> int) list" where
  "format_done ret c =
     (let cb = card_api_cb c; c1 = card_putcntrlblock ret (c\<lparr>card_api_cb := CNull\<rparr>)
      in (c1, if cb \<noteq> CNull then [(cb, ret)] else []))"

definition format_callback :: "int \<Rightarrow> int \<Rightarrow> card \<Rightarrow> card \<times> (card_cb \<times> int) list" where
  "format_callback exi res c =
     (if res \<ge> 0
      then let c1 = c\<lparr>format_step := format_step c + 1\<rparr>; st = format_step c1 in
        if st < 5
        then let (ret, c2) = ogc_card_sectorerase exi (st * sector_size c1) CFormat c1
             in if ret \<ge> 0 then (c2, []) else format_done ret c2
        else if st < 10
        then let (ret, c2) = ogc_card_write exi ((st - 5) * sector_size c1) 8192 (unat (st - 5) * 4096) CFormat c1
             in if ret \<ge> 0 then (c2, []) else format_done ret c2
        else format_done res (c1\<lparr>curr_dir := Some 0, curr_fat := Some 0,
               work := block_copy (fatblk 0) (fatblk 1) (block_copy (dirblk 0) (dirblk 1) (work c1))\<rparr>)
      else format_done res c)"

section \<open>Channels\<close>

text \<open>A function with a channel argument checks it first and works on that card; \<open>err\<close> is its error code.\<close>

definition on_chn :: "int \<Rightarrow> int \<Rightarrow> (card \<Rightarrow> (int \<times> card) option) \<Rightarrow> cardmap \<Rightarrow> (int \<times> cardmap) option" where
  "on_chn err chn f m =
     (if \<not> valid_chn chn then Some (err, m) else map_option (\<lambda>(r, c). (r, m(chn := c))) (f (m chn)))"

end
