(* ===== verification/CardFat.thy ===== *)
theory CardFat
  imports Card
begin

text \<open>
  The block allocation table of a memory card: an update leaves a copy that passes the check,
  allocation hands out free blocks as one chain, freeing a chain gives them back.
\<close>

lemma unat_eq_iff [simp]: "unat x = unat y \<longleftrightarrow> x = y"
  by (simp add: word_unat_eq_iff)

section \<open>Checksums\<close>

text \<open>Equal words at any two places have equal sums.\<close>

lemma checksum_loop_shift:
  "(\<And>k. k < n \<Longrightarrow> w' (i' + k) = w (i + k)) \<Longrightarrow> checksum_loop w' i' n cs = checksum_loop w i n cs"
proof (induction n arbitrary: i i' cs)
  case (Suc n)
  obtain a b where "cs = (a, b)" by (cases cs)
  moreover have "w' i' = w i" using Suc.prems [of 0] by simp
  moreover have "w' (Suc i' + k) = w (Suc i + k)" if "k < n" for k using Suc.prems [of "Suc k"] that by simp
  ultimately show ?case using Suc.IH [of "Suc i'" "Suc i"] by simp
qed simp

lemma checksum_shift:
  "(\<And>k. k < len div 2 \<Longrightarrow> w' (i' + k) = w (i + k)) \<Longrightarrow> card_checksum w' i' len = card_checksum w i len"
  unfolding card_checksum_def using checksum_loop_shift [of "len div 2" w' i' w i] by simp

lemma checksum_cong:
  "(\<And>k. i \<le> k \<Longrightarrow> k < i + len div 2 \<Longrightarrow> w' k = w k) \<Longrightarrow> card_checksum w' i len = card_checksum w i len"
  by (rule checksum_shift) simp

text \<open>The two sums: of the words, and of their complements.\<close>

lemma checksum_loop_sum:
  "checksum_loop w i n (a, b) = (a + (\<Sum>k<n. w (i + k)), b + (\<Sum>k<n. w (i + k) XOR 0xffff))"
proof (induction n arbitrary: i a b)
  case (Suc n)
  have "(\<Sum>k<Suc n. g (i + k)) = g i + (\<Sum>k<n. g (Suc i + k))" for g :: "nat \<Rightarrow> u16"
    by (simp add: sum.lessThan_Suc_shift del: sum.lessThan_Suc)
  from this [of w] this [of "\<lambda>k. w k XOR 0xffff"] show ?case
    using Suc.IH [of "Suc i"] by (simp add: add.assoc del: sum.lessThan_Suc)
qed simp

section \<open>Updating a copy\<close>

lemma sectorerase_work [simp]: "work (snd (ogc_card_sectorerase exi sec cb c)) = work c"
    "curr_fat (snd (ogc_card_sectorerase exi sec cb c)) = curr_fat c"
    "curr_dir (snd (ogc_card_sectorerase exi sec cb c)) = curr_dir c"
    "blocks (snd (ogc_card_sectorerase exi sec cb c)) = blocks c"
    "attached (snd (ogc_card_sectorerase exi sec cb c)) = attached c"
    "curr_fileblock (snd (ogc_card_sectorerase exi sec cb c)) = curr_fileblock c"
  by (simp_all add: ogc_card_sectorerase_def)

lemma updatefat_fields:
  "curr_fat (snd (card_updatefat exi f cb c)) = curr_fat c" "blocks (snd (card_updatefat exi f cb c)) = blocks c"
  "attached (snd (card_updatefat exi f cb c)) = attached c"
  "curr_fileblock (snd (card_updatefat exi f cb c)) = curr_fileblock c"
  by (simp_all add: card_updatefat_def case_prod_beta Let_def)

lemma updatefat_work:
  fixes exi :: int and f :: nat and cb :: card_cb
  assumes "attached c"
  defines "w' \<equiv> work (snd (card_updatefat exi f cb c))"
  shows "i \<notin> {fatblk f, fatblk f + 1, fatblk f + 2} \<Longrightarrow> w' i = work c i"
    "w' (fatblk f + FAT_updated) = work c (fatblk f + FAT_updated) + 1"
    "card_checksum w' (fatblk f + 2) 0x1ffc = (w' (fatblk f + FAT_chksum1), w' (fatblk f + FAT_chksum2))"
proof -
  let ?b = "fatblk f"
  let ?w1 = "(work c)(?b + FAT_updated := work c (?b + FAT_updated) + 1)"
  let ?cs = "card_checksum ?w1 (?b + 2) 0x1ffc"
  have w': "w' = ?w1(?b + FAT_chksum1 := fst ?cs, ?b + FAT_chksum2 := snd ?cs)"
    using assms(1) by (simp add: w'_def card_updatefat_def case_prod_beta Let_def)
  show "i \<notin> {?b, ?b + 1, ?b + 2} \<Longrightarrow> w' i = work c i" by (simp add: w')
  show "w' (?b + FAT_updated) = work c (?b + FAT_updated) + 1" by (simp add: w')
  have "card_checksum w' (?b + 2) 0x1ffc = ?cs" unfolding w' by (rule checksum_cong) auto
  then show "card_checksum w' (?b + 2) 0x1ffc = (w' (?b + FAT_chksum1), w' (?b + FAT_chksum2))" by (simp add: w')
qed

text \<open>The free counter of a copy is right when it is the number of free blocks.\<close>

definition free_blocks :: "nat \<Rightarrow> nat \<Rightarrow> (nat \<Rightarrow> u16) \<Rightarrow> nat set" where
  "free_blocks tb n w = {b. CARD_SYSAREA \<le> b \<and> b < n \<and> w (tb + b) = 0}"

definition fat_counted :: "nat \<Rightarrow> nat \<Rightarrow> (nat \<Rightarrow> u16) \<Rightarrow> bool" where
  "fat_counted tb n w \<longleftrightarrow> unat (w (tb + FAT_freeblocks)) = card (free_blocks tb n w)"

lemma free_blocks_filter: "card (free_blocks tb n w) = length (filter (\<lambda>b. w (tb + b) = 0) [CARD_SYSAREA..<n])"
proof -
  have "free_blocks tb n w = set (filter (\<lambda>b. w (tb + b) = 0) [CARD_SYSAREA..<n])" by (auto simp: free_blocks_def)
  then show ?thesis using distinct_card [of "filter (\<lambda>b. w (tb + b) = 0) [CARD_SYSAREA..<n]"] by simp
qed

lemma free_blocks_cong:
  "(\<And>b. CARD_SYSAREA \<le> b \<Longrightarrow> b < n \<Longrightarrow> w' (tb + b) = w (tb + b)) \<Longrightarrow> free_blocks tb n w' = free_blocks tb n w"
  by (auto simp: free_blocks_def)

lemma updatefat_good:
  assumes "attached c" "fat_counted (fatblk f) (unat (blocks c)) (work c)"
  shows "\<not> fat_bad f (blocks c) (work (snd (card_updatefat exi f cb c)))"
proof -
  let ?w = "work (snd (card_updatefat exi f cb c))"
  note U = updatefat_work [OF assms(1), where exi = exi and f = f and cb = cb]
  have "free_blocks (fatblk f) (unat (blocks c)) ?w = free_blocks (fatblk f) (unat (blocks c)) (work c)"
    by (rule free_blocks_cong) (rule U(1), simp)
  moreover have "?w (fatblk f + FAT_freeblocks) = work c (fatblk f + FAT_freeblocks)" by (rule U(1)) simp
  ultimately have "count_free f (blocks c) ?w = ?w (fatblk f + FAT_freeblocks)"
    using assms(2) [unfolded fat_counted_def, symmetric]
    unfolding count_free_def free_blocks_filter [symmetric] by simp
  then show ?thesis using U(3) by (simp add: fat_bad_def)
qed

section \<open>Chains\<close>

text \<open>The blocks of a file: each entry names the next block, the last one holds 0xffff.\<close>

fun is_chain :: "nat \<Rightarrow> (nat \<Rightarrow> u16) \<Rightarrow> u16 list \<Rightarrow> bool" where
  "is_chain tb w [] \<longleftrightarrow> False"
| "is_chain tb w [b] \<longleftrightarrow> w (tb + unat b) = 0xffff"
| "is_chain tb w (b # c # bs) \<longleftrightarrow> w (tb + unat b) = c \<and> is_chain tb w (c # bs)"

fun link :: "nat \<Rightarrow> u16 list \<Rightarrow> (nat \<Rightarrow> u16) \<Rightarrow> (nat \<Rightarrow> u16)" where
  "link tb [] w = w"
| "link tb [b] w = w(tb + unat b := 0xffff)"
| "link tb (b # c # bs) w = (link tb (c # bs) w)(tb + unat b := c)"

lemma link_outside: "(\<And>b. b \<in> set bs \<Longrightarrow> i \<noteq> tb + unat b) \<Longrightarrow> link tb bs w i = w i"
  by (induction tb bs w rule: link.induct) auto

lemma is_chain_cong: "(\<And>b. b \<in> set bs \<Longrightarrow> w' (tb + unat b) = w (tb + unat b)) \<Longrightarrow> is_chain tb w' bs = is_chain tb w bs"
  by (induction tb w bs rule: is_chain.induct) auto

lemma chain_entries: "is_chain tb w xs \<Longrightarrow> x \<in> set xs \<Longrightarrow> w (tb + unat x) = 0xffff \<or> w (tb + unat x) \<in> set xs"
  by (induction tb w xs rule: is_chain.induct) auto

lemma link_chain: "distinct bs \<Longrightarrow> bs \<noteq> [] \<Longrightarrow> is_chain tb (link tb bs w) bs"
proof (induction tb bs w rule: link.induct)
  case (3 tb b c bs w)
  have "is_chain tb (link tb (c # bs) w) (c # bs)" using 3 by simp
  moreover have "is_chain tb ((link tb (c # bs) w)(tb + unat b := c)) (c # bs) = is_chain tb (link tb (c # bs) w) (c # bs)"
    using 3(2) by (intro is_chain_cong) auto
  ultimately show ?case by (simp add: fun_upd_def)
qed auto

lemma link_snoc:
  "acc \<noteq> [] \<Longrightarrow> distinct (acc @ [c]) \<Longrightarrow>
   link tb (acc @ [c]) w = (link tb acc w)(tb + unat (last acc) := c, tb + unat c := 0xffff)"
proof (induction acc rule: induct_list012)
  case (2 b)
  then show ?case by (auto simp: fun_eq_iff)
next
  case (3 b d bs)
  have "link tb ((b # d # bs) @ [c]) w = (link tb ((d # bs) @ [c]) w)(tb + unat b := d)" by simp
  also have "link tb ((d # bs) @ [c]) w = (link tb (d # bs) w)(tb + unat (last (d # bs)) := c, tb + unat c := 0xffff)"
    by (rule 3(2)) (use 3(4) in auto)
  also have "(link tb (d # bs) w)(tb + unat (last (d # bs)) := c, tb + unat c := 0xffff, tb + unat b := d) =
      (link tb (d # bs) w)(tb + unat b := d, tb + unat (last (d # bs)) := c, tb + unat c := 0xffff)"
  proof -
    have "last (d # bs) \<in> set (d # bs)" by (rule last_in_set) simp
    then have "tb + unat b \<noteq> tb + unat (last (d # bs))" "tb + unat b \<noteq> tb + unat c"
      using 3(4) by auto
    then show ?thesis by (auto simp: fun_eq_iff)
  qed
  finally show ?case by (simp only: link.simps(3) append_Cons last_ConsR list.distinct(2) not_False_eq_True)
qed auto

section \<open>Allocation\<close>

text \<open>The blocks the loop looks at.\<close>

fun visits :: "u16 \<Rightarrow> nat \<Rightarrow> u16 \<Rightarrow> u16 list" where
  "visits n 0 cur = []"
| "visits n (Suc k) cur = next_block n cur # visits n k (next_block n cur)"

lemma unat_next_block:
  assumes "5 < unat n"
  shows "5 \<le> unat (next_block n cur)" "unat (next_block n cur) < unat n"
    "5 \<le> unat cur \<Longrightarrow> unat cur < unat n \<Longrightarrow>
      unat (next_block n cur) = 5 + (unat cur - 5 + 1) mod (unat n - 5)"
proof -
  have five: "unat (5 :: u16) = 5" by simp
  show "5 \<le> unat (next_block n cur)" "unat (next_block n cur) < unat n"
    using assms by (auto simp: next_block_def Let_def word_less_nat_alt word_le_nat_alt not_less not_le)
  assume c: "5 \<le> unat cur" "unat cur < unat n"
  have "unat n < 65536" using unsigned_less [of n, where ?'a = nat] by simp
  then have s: "unat (cur + 1) = unat cur + 1" using c by (simp add: unat_word_ariths)
  show "unat (next_block n cur) = 5 + (unat cur - 5 + 1) mod (unat n - 5)"
  proof (cases "unat cur + 1 = unat n")
    case True
    then have "unat cur - 5 + 1 = unat n - 5" using c by simp
    then show ?thesis using True s by (simp add: next_block_def Let_def word_less_nat_alt word_le_nat_alt)
  next
    case False
    then have "(unat cur - 5 + 1) mod (unat n - 5) = unat cur - 5 + 1" using c by simp
    then show ?thesis using False c s by (simp add: next_block_def Let_def word_less_nat_alt word_le_nat_alt)
  qed
qed

lemma visits_cyclic:
  assumes "5 < unat n"
  shows "map unat (visits n k cur) =
    map (\<lambda>j. 5 + (unat (next_block n cur) - 5 + j) mod (unat n - 5)) [0..<k]"
proof (induction k arbitrary: cur)
  case (Suc k)
  let ?p = "next_block n cur" and ?N = "unat n - 5"
  note p = unat_next_block(1,2) [OF assms, of cur]
  have "(unat (next_block n ?p) - 5 + j) mod ?N = (unat ?p - 5 + Suc j) mod ?N" for j
    using unat_next_block(3) [OF assms p] by (simp add: mod_simps)
  then have "map unat (visits n k ?p) = map (\<lambda>j. 5 + (unat ?p - 5 + j) mod ?N) (map Suc [0..<k])"
    unfolding Suc.IH by simp
  then have "map unat (visits n k ?p) = map (\<lambda>j. 5 + (unat ?p - 5 + j) mod ?N) [Suc 0..<Suc k]"
    by (simp add: map_Suc_upt)
  moreover have "unat ?p = 5 + (unat ?p - 5 + 0) mod ?N" using p by simp
  ultimately show ?case by (simp add: upt_conv_Cons del: upt_Suc)
qed simp

lemma shift_mod_inj: "i < N \<Longrightarrow> j < N \<Longrightarrow> (a + i) mod N = (a + j) mod N \<Longrightarrow> i = (j :: nat)"
proof (induction i j rule: linorder_wlog)
  case (le i j)
  then have "N dvd (a + j) - (a + i)" using mod_eq_dvd_iff_nat [of "a + i" "a + j" N] by simp
  then have "N dvd j - i" by simp
  moreover have "j - i < N" using le by simp
  ultimately show ?case using le by (cases "j - i = 0") (auto dest: nat_dvd_not_less)
qed simp

lemma visits_all:
  assumes "5 < unat n"
  defines "N \<equiv> unat n - 5"
  shows "distinct (visits n N cur)" "unat ` set (visits n N cur) = {5..<unat n}"
proof -
  let ?a = "unat (next_block n cur) - 5"
  let ?f = "\<lambda>j. 5 + (?a + j) mod N"
  have N: "0 < N" using assms by simp
  have inj: "inj_on ?f {0..<N}"
    by (rule inj_onI) (auto dest: shift_mod_inj)
  have m: "map unat (visits n N cur) = map ?f [0..<N]" unfolding N_def by (rule visits_cyclic [OF assms(1)])
  have "distinct (map unat (visits n N cur))" unfolding m using inj by (simp add: distinct_map)
  then show "distinct (visits n N cur)" by (simp add: distinct_map)
  have "unat n = N + 5" using assms by simp
  then have "?f ` {0..<N} \<subseteq> {5..<unat n}" using N by auto
  moreover have "card (?f ` {0..<N}) = N" using card_image [OF inj] by simp
  ultimately have "?f ` {0..<N} = {5..<unat n}" using card_subset_eq [of "{5..<unat n}" "?f ` {0..<N}"] by (simp add: N_def)
  then show "unat ` set (visits n N cur) = {5..<unat n}" using arg_cong [OF m, of set] by simp
qed

text \<open>The loop takes the free blocks in the order it visits them and links them behind those it has.\<close>

lemma alloc_loop_run:
  assumes "distinct (acc @ visits n k cur)" "0xffff \<notin> set (acc @ visits n k cur)"
    "i \<le> length (filter (\<lambda>b. w (tb + unat b) = 0) (visits n k cur))"
    "block = (if acc = [] then 0xffff else hd acc)" "acc \<noteq> [] \<longrightarrow> prev = last acc"
  shows "\<exists>cur'. alloc_loop k i tb n block cur prev (link tb acc w) =
    (let bs = acc @ take i (filter (\<lambda>b. w (tb + unat b) = 0) (visits n k cur))
     in Inr (if bs = [] then 0xffff else hd bs, cur', link tb bs w))"
  using assms
proof (induction k arbitrary: i acc block cur prev)
  case 0
  then show ?case by auto
next
  case (Suc k)
  let ?c = "next_block n cur"
  let ?F = "filter (\<lambda>b. w (tb + unat b) = 0)"
  have c: "?c \<notin> set acc" "?c \<noteq> 0xffff" using Suc.prems(1,2) by auto
  have wc: "link tb acc w (tb + unat ?c) = w (tb + unat ?c)" by (rule link_outside) (use c in auto)
  show ?case
  proof (cases i)
    case 0
    then show ?thesis using Suc.prems(4) by simp
  next
    case i: (Suc i')
    show ?thesis
    proof (cases "w (tb + unat ?c) = 0")
      case True
      have l: "(if block \<noteq> 0xffff then (link tb acc w)(tb + unat prev := ?c) else link tb acc w)(tb + unat ?c := 0xffff) =
          link tb (acc @ [?c]) w"
      proof (cases "acc = []")
        case False
        then have "block \<in> set acc" using Suc.prems(4) by simp
        then have "block \<noteq> 0xffff" using Suc.prems(2) by auto
        then show ?thesis using link_snoc [of acc ?c tb w] False Suc.prems(1,5) by simp
      qed (use Suc.prems(4) in simp)
      let ?b = "if block \<noteq> 0xffff then block else ?c"
      have b: "?b = hd (acc @ [?c])" using Suc.prems(2,4) by (cases acc) auto
      obtain cur' where "alloc_loop k i' tb n ?b ?c ?c (link tb (acc @ [?c]) w) =
          (let bs = (acc @ [?c]) @ take i' (?F (visits n k ?c)) in Inr (if bs = [] then 0xffff else hd bs, cur', link tb bs w))"
        using Suc.IH [of "acc @ [?c]" ?c i' ?b ?c] Suc.prems(1,2,3) i True b by auto
      then show ?thesis using i True wc l by (simp add: Let_def)
    next
      case False
      then show ?thesis using Suc.IH [of acc ?c i block prev] Suc.prems i wc by (auto simp: Let_def)
    qed
  qed
qed

text \<open>All free blocks are visited.\<close>

lemma visits_free:
  assumes "5 < unat n"
  shows "length (filter (\<lambda>b. w (tb + unat b) = 0) (visits n (unat n - 5) cur)) = card (free_blocks tb (unat n) w)"
proof -
  let ?vs = "filter (\<lambda>b. w (tb + unat b) = 0) (visits n (unat n - 5) cur)"
  note V = visits_all [OF assms, of cur]
  have "unat ` set ?vs = free_blocks tb (unat n) w"
  proof -
    have "unat ` set ?vs = {b \<in> unat ` set (visits n (unat n - 5) cur). w (tb + b) = 0}" by auto
    then show ?thesis unfolding V(2) by (auto simp: free_blocks_def)
  qed
  moreover have "card (unat ` set ?vs) = card (set ?vs)" by (rule card_image) (simp add: inj_on_def)
  moreover have "card (set ?vs) = length ?vs" using V(1) by (intro distinct_card) simp
  ultimately show ?thesis by simp
qed

lemma free_blocks_card: "card (free_blocks tb (unat (n :: u16)) w) < 65536"
proof -
  have "card (free_blocks tb (unat n) w) \<le> card {CARD_SYSAREA..<unat n}" by (rule card_mono) (auto simp: free_blocks_def)
  moreover have "unat n < 65536" using unsigned_less [of n, where ?'a = nat] by simp
  ultimately show ?thesis by simp
qed

definition fat_frame :: "nat \<Rightarrow> u16 list \<Rightarrow> (nat \<Rightarrow> u16) \<Rightarrow> (nat \<Rightarrow> u16) \<Rightarrow> bool" where
  "fat_frame tb bs w w' \<longleftrightarrow> (\<forall>b. CARD_SYSAREA \<le> b \<longrightarrow> b \<notin> unat ` set bs \<longrightarrow> w' (tb + b) = w (tb + b))"

text \<open>
  Allocation of \<open>need\<close> blocks, when as many are free: the blocks were free, form one chain from
  \<^verbatim>\<open>curr_fileblock\<close>, no other entry changes, and the table passes the check.
\<close>

lemma allocblock_ok:
  assumes "attached c" "curr_fat c = Some f" "5 < unat (blocks c)" "fat_counted (fatblk f) (unat (blocks c)) (work c)"
    "0 < unat need" "unat need \<le> card (free_blocks (fatblk f) (unat (blocks c)) (work c))"
  shows "\<exists>ret c' bs. card_allocblock exi need cb c = Some (ret, c') \<and> length bs = unat need \<and> distinct bs \<and>
    unat ` set bs \<subseteq> free_blocks (fatblk f) (unat (blocks c)) (work c) \<and>
    curr_fileblock c' = hd bs \<and> is_chain (fatblk f) (work c') bs \<and> fat_frame (fatblk f) bs (work c) (work c') \<and>
    fat_counted (fatblk f) (unat (blocks c)) (work c') \<and> \<not> fat_bad f (blocks c) (work c')"
proof -
  let ?n = "blocks c" and ?tb = "fatblk f" and ?w = "work c"
  let ?cur = "?w (?tb + FAT_lastalloc)"
  let ?vs = "visits ?n (unat ?n - 5) ?cur"
  let ?F = "filter (\<lambda>b. ?w (?tb + unat b) = 0) ?vs"
  let ?bs = "take (unat need) ?F"
  note V = visits_all [OF assms(3), of ?cur]
  have vr: "5 \<le> unat b \<and> unat b < unat ?n" if "b \<in> set ?vs" for b using that V(2) by auto
  have n16: "unat ?n < 65536" using unsigned_less [of ?n, where ?'a = nat] by simp
  have ff: "0xffff \<notin> set ?vs" using vr [of "0xffff"] n16 by auto
  have cnt: "unat (?w (?tb + FAT_freeblocks)) = card (free_blocks ?tb (unat ?n) ?w)" using assms(4) by (simp add: fat_counted_def)
  have fl: "length ?F = card (free_blocks ?tb (unat ?n) ?w)" by (rule visits_free [OF assms(3)])
  have k: "unat (ucast ?n - 5 :: u32) = unat ?n - 5"
  proof -
    have "unat (ucast ?n :: u32) = unat ?n" using n16 by (simp add: unsigned_ucast_eq take_bit_nat_eq_self)
    then show ?thesis using assms(3) by (simp add: unat_sub word_le_nat_alt)
  qed
  obtain cur' where loop: "alloc_loop (unat ?n - 5) (unat need) ?tb ?n 0xffff ?cur 0 ?w =
      Inr (if ?bs = [] then 0xffff else hd ?bs, cur', link ?tb ?bs ?w)"
    using alloc_loop_run [of "[]" ?n "unat ?n - 5" ?cur "unat need" ?w ?tb "0xffff" 0] V(1) ff assms(6) fl
    by (auto simp: Let_def)
  have len: "length ?bs = unat need" using assms(6) fl by simp
  have ne: "?bs \<noteq> []" using len assms(5) by auto
  have d: "distinct ?bs" using V(1) by simp
  have sub: "unat ` set ?bs \<subseteq> free_blocks ?tb (unat ?n) ?w"
    using vr by (auto simp: free_blocks_def dest!: in_set_takeD)
  let ?w1 = "link ?tb ?bs ?w"
  let ?w2 = "?w1(?tb + FAT_freeblocks := ?w1 (?tb + FAT_freeblocks) - ucast need, ?tb + FAT_lastalloc := cur')"
  let ?c1 = "c\<lparr>work := ?w2, curr_fileblock := hd ?bs\<rparr>"
  have ge5: "b \<in> set ?bs \<Longrightarrow> 5 \<le> unat b" for b using sub by (auto simp: free_blocks_def)
  have w1f: "?w1 (?tb + FAT_freeblocks) = ?w (?tb + FAT_freeblocks)" by (rule link_outside) (use ge5 in force)
  have call: "card_allocblock exi need cb c = Some (card_updatefat exi f cb ?c1)"
    using assms(1,2,6) cnt loop k ne by (simp add: card_allocblock_def Let_def)
  define c' where "c' = snd (card_updatefat exi f cb ?c1)"
  note U = updatefat_work [of ?c1, where exi = exi and f = f and cb = cb, folded c'_def]
  have w': "work c' (?tb + b) = ?w1 (?tb + b)" if "5 \<le> b" for b
    using U(1) [of "?tb + b"] assms(1) that by simp
  have frame: "fat_frame ?tb ?bs ?w (work c')"
    unfolding fat_frame_def by (auto simp: w' intro!: link_outside)
  have chain: "is_chain ?tb (work c') ?bs"
    using link_chain [OF d ne] is_chain_cong [of ?bs "work c'" ?tb ?w1] w' ge5 by auto
  have fb: "free_blocks ?tb (unat ?n) (work c') = free_blocks ?tb (unat ?n) ?w - unat ` set ?bs"
  proof -
    have nz: "work c' (?tb + unat b) \<noteq> 0" if "b \<in> set ?bs" for b
      using chain_entries [OF chain that] ge5 [of 0] by auto
    show ?thesis using frame nz by (auto simp: free_blocks_def fat_frame_def)
  qed
  have cardb: "card (unat ` set ?bs) = unat need" using card_image [of unat "set ?bs"] distinct_card [OF d] len by (simp add: inj_on_def)
  have fin: "finite (free_blocks ?tb (unat ?n) ?w)" by (simp add: free_blocks_def)
  have "card (free_blocks ?tb (unat ?n) (work c')) = card (free_blocks ?tb (unat ?n) ?w) - unat need"
    unfolding fb using card_Diff_subset [of "unat ` set ?bs"] sub cardb by simp
  moreover have "unat (work c' (?tb + FAT_freeblocks)) = card (free_blocks ?tb (unat ?n) ?w) - unat need"
  proof -
    have "unat need < 65536" using assms(6) free_blocks_card [of ?tb ?n ?w] by simp
    then have u: "unat (ucast need :: u16) = unat need" by (simp add: unsigned_ucast_eq take_bit_nat_eq_self)
    have "work c' (?tb + FAT_freeblocks) = ?w (?tb + FAT_freeblocks) - ucast need"
      using U(1) [of "?tb + FAT_freeblocks"] assms(1) w1f by simp
    then show ?thesis using assms(6) cnt u by (simp add: unat_sub word_le_nat_alt)
  qed
  ultimately have counted: "fat_counted ?tb (unat ?n) (work c')" by (simp add: fat_counted_def)
  have "work c' (?tb + b) = work ?c1 (?tb + b)" if "3 \<le> b" for b using U(1) [of "?tb + b"] assms(1) that by simp
  then have "fat_counted ?tb (unat ?n) (work ?c1) = fat_counted ?tb (unat ?n) (work c')"
    using free_blocks_cong [of "unat ?n" "work c'" ?tb "work ?c1"] by (simp add: fat_counted_def)
  then have good: "\<not> fat_bad f ?n (work c')"
    using updatefat_good [of ?c1 f exi cb] assms(1) counted by (simp add: c'_def)
  show ?thesis
    using call len d sub chain frame counted good updatefat_fields(4) [of exi f cb ?c1]
    by (intro exI [of _ "fst (card_updatefat exi f cb ?c1)"] exI [of _ c'] exI [of _ ?bs]) (simp add: c'_def)
qed

section \<open>Freeing\<close>

definition chain_range :: "u16 \<Rightarrow> u16 list \<Rightarrow> bool" where
  "chain_range n bs \<longleftrightarrow> (\<forall>b\<in>set bs. 5 \<le> unat b \<and> unat b < unat n)"

fun clear_all :: "nat \<Rightarrow> u16 list \<Rightarrow> (nat \<Rightarrow> u16) \<Rightarrow> (nat \<Rightarrow> u16)" where
  "clear_all tb [] w = w"
| "clear_all tb (b # bs) w =
     (let w1 = w(tb + unat b := 0) in clear_all tb bs (w1(tb + FAT_freeblocks := w1 (tb + FAT_freeblocks) + 1)))"

lemma clear_all_at:
  "(\<And>b. b \<in> set bs \<Longrightarrow> 5 \<le> unat b) \<Longrightarrow> i \<noteq> tb + FAT_freeblocks \<Longrightarrow>
   clear_all tb bs w i = (if i \<in> (\<lambda>b. tb + unat b) ` set bs then 0 else w i)"
  by (induction tb bs w rule: clear_all.induct) (auto simp: Let_def)

lemma clear_all_count:
  "(\<And>b. b \<in> set bs \<Longrightarrow> 5 \<le> unat b) \<Longrightarrow>
   clear_all tb bs w (tb + FAT_freeblocks) = w (tb + FAT_freeblocks) + of_nat (length bs)"
proof (induction tb bs w rule: clear_all.induct)
  case (2 tb b bs w)
  have "5 \<le> unat b" using 2(2) by simp
  then have "tb + FAT_freeblocks \<noteq> tb + unat b" by simp
  then show ?case using 2 by (simp add: Let_def add_ac fun_upd_def)
qed simp

lemma free_loop_run:
  assumes "is_chain tb w bs" "distinct bs" "chain_range n bs" "length bs < k"
  shows "free_loop k tb n (hd bs) w = Some (Inr (clear_all tb bs w))"
  using assms
proof (induction bs arbitrary: k w rule: induct_list012)
  case (2 b)
  obtain j where k: "k = Suc (Suc j)" using 2(4) by (cases k; cases "k - 1") auto
  have b: "5 \<le> unat b" "unat b < unat n" using 2(3) by (simp_all add: chain_range_def)
  moreover have "unat n < 65536" using unsigned_less [of n, where ?'a = nat] by simp
  ultimately have "b \<noteq> 0xffff" "\<not> b < 5" "\<not> b \<ge> n" by (auto simp: word_less_nat_alt word_le_nat_alt)
  then show ?case using 2(1) k by (simp add: Let_def fun_upd_def)
next
  case (3 b d bs)
  obtain j where k: "k = Suc j" "length (d # bs) < j" using 3(6) by (cases k) auto
  have b: "5 \<le> unat b" "unat b < unat n" using 3(5) by (simp_all add: chain_range_def)
  moreover have "unat n < 65536" using unsigned_less [of n, where ?'a = nat] by simp
  ultimately have r: "b \<noteq> 0xffff" "\<not> b < 5" "\<not> b \<ge> n" by (auto simp: word_less_nat_alt word_le_nat_alt)
  let ?w1 = "w(tb + unat b := 0)"
  let ?w2 = "?w1(tb + FAT_freeblocks := ?w1 (tb + FAT_freeblocks) + 1)"
  have "is_chain tb ?w2 (d # bs) = is_chain tb w (d # bs)"
    using 3(4,5) by (intro is_chain_cong) (auto simp: chain_range_def)
  then have "is_chain tb ?w2 (d # bs)" using 3(3) by (simp only: is_chain.simps(3))
  then have "free_loop j tb n (hd (d # bs)) ?w2 = Some (Inr (clear_all tb (d # bs) ?w2))"
    by (rule 3(2)) (use 3(4,5) k(2) in \<open>auto simp: chain_range_def\<close>)
  moreover have "w (tb + unat b) = d" using 3(3) by simp
  moreover have "free_loop (Suc j) tb n b w = free_loop j tb n (w (tb + unat b)) ?w2"
    using r by (simp add: Let_def fun_upd_def del: clear_all.simps)
  moreover have "clear_all tb (b # d # bs) w = clear_all tb (d # bs) ?w2"
    by (subst clear_all.simps(2)) (simp only: Let_def)
  ultimately show ?case by (simp only: list.sel k(1))
qed simp

text \<open>
  Freeing a file: every block of the chain is free afterwards, no other entry changes, the free counter
  is right again, and the table passes the check.
\<close>

lemma freeblock_ok:
  assumes "attached c" "curr_fat c = Some f" "fat_counted (fatblk f) (unat (blocks c)) (work c)"
    "is_chain (fatblk f) (work c) bs" "distinct bs" "chain_range (blocks c) bs" "length bs \<le> fuel"
  shows "\<exists>ret c'. card_freeblock fuel exi (hd bs) cb c = Some (ret, c') \<and>
    (\<forall>b\<in>set bs. work c' (fatblk f + unat b) = 0) \<and> fat_frame (fatblk f) bs (work c) (work c') \<and>
    fat_counted (fatblk f) (unat (blocks c)) (work c') \<and> \<not> fat_bad f (blocks c) (work c')"
proof -
  let ?n = "blocks c" and ?tb = "fatblk f" and ?w = "work c"
  let ?W = "clear_all ?tb bs ?w"
  let ?c1 = "c\<lparr>work := ?W\<rparr>"
  have ne: "bs \<noteq> []" using assms(4) by auto
  have n16: "unat ?n < 65536" using unsigned_less [of ?n, where ?'a = nat] by simp
  have ge5: "b \<in> set bs \<Longrightarrow> 5 \<le> unat b" for b using assms(6) by (simp add: chain_range_def)
  have "free_loop (Suc fuel) ?tb ?n (hd bs) ?w = Some (Inr ?W)"
    by (rule free_loop_run [OF assms(4,5,6)]) (use assms(7) in simp)
  moreover have "hd bs \<noteq> 0xffff" "\<not> hd bs < 5" "\<not> hd bs \<ge> ?n"
    using assms(6) hd_in_set [OF ne] n16 by (auto simp: chain_range_def word_less_nat_alt word_le_nat_alt)
  ultimately have call: "card_freeblock fuel exi (hd bs) cb c = Some (card_updatefat exi f cb ?c1)"
    using assms(1,2) by (simp add: card_freeblock_def Let_def)
  define c' where "c' = snd (card_updatefat exi f cb ?c1)"
  note U = updatefat_work [of ?c1, where exi = exi and f = f and cb = cb, folded c'_def]
  have w': "work c' (?tb + b) = (if b \<in> unat ` set bs then 0 else ?w (?tb + b))" if "5 \<le> b" for b
    using U(1) [of "?tb + b"] assms(1) that clear_all_at [of bs "?tb + b" ?tb ?w] ge5 by auto
  have frame: "fat_frame ?tb bs ?w (work c')" by (auto simp: fat_frame_def w')
  have zero: "\<forall>b\<in>set bs. work c' (?tb + unat b) = 0" using w' ge5 by auto
  have nz: "?w (?tb + unat b) \<noteq> 0" if "b \<in> set bs" for b
    using chain_entries [OF assms(4) that] ge5 [of 0] by auto
  have fb: "free_blocks ?tb (unat ?n) (work c') = free_blocks ?tb (unat ?n) ?w \<union> unat ` set bs"
    using w' assms(6) by (auto simp: free_blocks_def chain_range_def split: if_splits)
  have dis: "free_blocks ?tb (unat ?n) ?w \<inter> unat ` set bs = {}" using nz by (auto simp: free_blocks_def)
  have fin: "finite (free_blocks ?tb (unat ?n) ?w)" by (simp add: free_blocks_def)
  have cardb: "card (unat ` set bs) = length bs"
    using card_image [of unat "set bs"] distinct_card [OF assms(5)] by (simp add: inj_on_def)
  have cnt: "card (free_blocks ?tb (unat ?n) (work c')) = card (free_blocks ?tb (unat ?n) ?w) + length bs"
    unfolding fb using card_Un_disjoint [OF fin _ dis] cardb by simp
  have "work c' (?tb + FAT_freeblocks) = ?w (?tb + FAT_freeblocks) + of_nat (length bs)"
    using U(1) [of "?tb + FAT_freeblocks"] assms(1) clear_all_count [of bs ?tb ?w] ge5 by simp
  then have "unat (work c' (?tb + FAT_freeblocks)) = card (free_blocks ?tb (unat ?n) ?w) + length bs"
    using assms(3) cnt free_blocks_card [of ?tb ?n "work c'"] by (simp add: fat_counted_def unat_word_ariths unat_of_nat)
  then have counted: "fat_counted ?tb (unat ?n) (work c')" using cnt by (simp add: fat_counted_def)
  have "work c' (?tb + b) = work ?c1 (?tb + b)" if "3 \<le> b" for b using U(1) [of "?tb + b"] assms(1) that by simp
  then have "fat_counted ?tb (unat ?n) (work ?c1) = fat_counted ?tb (unat ?n) (work c')"
    using free_blocks_cong [of "unat ?n" "work c'" ?tb "work ?c1"] by (simp add: fat_counted_def)
  then have good: "\<not> fat_bad f ?n (work c')"
    using updatefat_good [of ?c1 f exi cb] assms(1) counted by (simp add: c'_def)
  show ?thesis using call zero frame counted good
    by (intro exI [of _ "fst (card_updatefat exi f cb ?c1)"] exI [of _ c']) (simp add: c'_def)
qed

end
