(* ===== verification/CardCheck.thy ===== *)
theory CardCheck
  imports CardFat
begin

text \<open>
  Mounting a card: what the check of the two copies of the directory and of the allocation table finds
  and repairs, and what formatting leaves for it.
\<close>

section \<open>Copies\<close>

lemma blk_simps: "dirblk 0 = 4096" "dirblk 1 = 8192" "fatblk 0 = 12288" "fatblk 1 = 16384"
  "dirblk (Suc 0) = 8192" "fatblk (Suc 0) = 16384"
  by (simp_all add: dirblk_def fatblk_def)

lemma block_copy_dst: "k < 4096 \<Longrightarrow> block_copy dst src w (dst + k) = w (src + k)"
  by (simp add: block_copy_def)

lemma block_copy_other: "\<not> (dst \<le> i \<and> i < dst + 4096) \<Longrightarrow> block_copy dst src w i = w i"
  by (auto simp: block_copy_def)

text \<open>Whether a copy is bad depends on its own words only.\<close>

lemma dir_bad_shift: "(\<And>k. k < 4096 \<Longrightarrow> w' (dirblk d' + k) = w (dirblk d + k)) \<Longrightarrow> dir_bad d' w' = dir_bad d w"
  unfolding dir_bad_def using checksum_shift [of "0x1ffc" w' "dirblk d'" w "dirblk d"] by simp

lemma fat_bad_shift:
  assumes "\<And>k. k < 4096 \<Longrightarrow> w' (fatblk d' + k) = w (fatblk d + k)" "unat n \<le> 4096"
  shows "fat_bad d' n w' = fat_bad d n w"
proof -
  have "card_checksum w' (fatblk d' + 2) 0x1ffc = card_checksum w (fatblk d + 2) 0x1ffc"
  proof (rule checksum_shift)
    fix k :: nat assume "k < 0x1ffc div 2"
    then show "w' (fatblk d' + 2 + k) = w (fatblk d + 2 + k)" using assms(1) [of "2 + k"] by (simp add: add.assoc)
  qed
  moreover have "filter (\<lambda>b. w' (fatblk d' + b) = 0) [CARD_SYSAREA..<unat n] = filter (\<lambda>b. w (fatblk d + b) = 0) [CARD_SYSAREA..<unat n]"
    using assms by (intro filter_cong) auto
  ultimately show ?thesis using assms(1) [of 0] assms(1) [of 1] assms(1) [of 3] by (simp add: fat_bad_def count_free_def)
qed

definition same_dir :: "nat \<Rightarrow> (nat \<Rightarrow> u16) \<Rightarrow> nat \<Rightarrow> (nat \<Rightarrow> u16) \<Rightarrow> bool" where
  "same_dir d' w' d w \<longleftrightarrow> (\<forall>k<4096. w' (dirblk d' + k) = w (dirblk d + k))"

lemma copy_dir:
  assumes "d < 2"
  shows "same_dir d (block_copy (dirblk d) (dirblk (1 - d)) w) (1 - d) w"
    "same_dir (1 - d) (block_copy (dirblk d) (dirblk (1 - d)) w) (1 - d) w"
proof -
  have "d = 0 \<or> d = 1" using assms by auto
  then show "same_dir d (block_copy (dirblk d) (dirblk (1 - d)) w) (1 - d) w"
    "same_dir (1 - d) (block_copy (dirblk d) (dirblk (1 - d)) w) (1 - d) w"
    by (auto simp: same_dir_def block_copy_def blk_simps)
qed

section \<open>The directory\<close>

text \<open>One bad copy is repaired from the good one, and becomes the one to write next.\<close>

lemma checkdir_repair:
  assumes "d < 2" "dir_bad d (work c)" "\<not> dir_bad (1 - d) (work c)" "card_checkdir c = (nbad, dir, c')"
  shows "nbad = 1 \<and> dir = d \<and> curr_dir c' = Some d \<and> same_dir 0 (work c') (1 - d) (work c) \<and>
    same_dir 1 (work c') (1 - d) (work c) \<and> \<not> dir_bad 0 (work c') \<and> \<not> dir_bad 1 (work c')"
proof -
  let ?w = "block_copy (dirblk d) (dirblk (1 - d)) (work c)"
  have d: "d = 0 \<or> d = 1" using assms(1) by auto
  have c': "nbad = 1 \<and> dir = d \<and> c' = c\<lparr>curr_dir := Some d, work := ?w\<rparr>"
    using assms(2-4) d by (auto simp: card_checkdir_def pick_copy_def Let_def)
  have s: "same_dir 0 ?w (1 - d) (work c)" "same_dir 1 ?w (1 - d) (work c)" using copy_dir [OF assms(1), of "work c"] d by auto
  have "\<not> dir_bad 0 ?w" "\<not> dir_bad 1 ?w"
    using dir_bad_shift [of ?w 0 "work c" "1 - d"] dir_bad_shift [of ?w 1 "work c" "1 - d"] s assms(3) unfolding same_dir_def by auto
  then show ?thesis using c' s by simp
qed

text \<open>With two good copies on a fresh mount the one with the greater counter survives.\<close>

lemma checkdir_newest:
  assumes "\<not> dir_bad 0 (work c)" "\<not> dir_bad 1 (work c)" "curr_dir c = None" "card_checkdir c = (nbad, dir, c')"
  defines "new \<equiv> if work c (dirblk 0 + DIR_updated) < work c (dirblk 1 + DIR_updated) then (1 :: nat) else 0"
  shows "nbad = 0 \<and> curr_dir c' = Some (1 - new) \<and> same_dir 0 (work c') new (work c) \<and> same_dir 1 (work c') new (work c)"
proof -
  have n: "new = 0 \<or> new = 1" by (auto simp: new_def)
  have "nbad = 0 \<and> c' = c\<lparr>curr_dir := Some (1 - new), work := block_copy (dirblk (1 - new)) (dirblk new) (work c)\<rparr>"
    using assms(1-4) by (auto simp: card_checkdir_def pick_copy_def Let_def new_def)
  then show ?thesis using copy_dir [of "1 - new" "work c"] n by auto
qed

section \<open>Verification of a mounted card\<close>

lemma copy_dir_fat: "fat_bad f n (block_copy (dirblk d) (dirblk e) w) = fat_bad f n w" if "d < 2" "f < 2" "unat n \<le> 4096"
proof (rule fat_bad_shift [OF _ that(3)])
  fix k :: nat assume "k < 4096"
  then show "block_copy (dirblk d) (dirblk e) w (fatblk f + k) = w (fatblk f + k)"
    using that(1,2) by (intro block_copy_other) (auto simp: dirblk_def fatblk_def)
qed

text \<open>
  A card whose two directory copies are both bad passes the verification when its two tables are good:
  the limit on the number of bad copies is on their sum.
\<close>

lemma verify_both_bad:
  assumes "dir_bad 0 (work c)" "dir_bad 1 (work c)" "\<not> fat_bad 0 (blocks c) (work c)" "\<not> fat_bad 1 (blocks c) (work c)"
    "unat (blocks c) \<le> 4096"
  shows "fst (card_verify c) = CARD_ERROR_READY"
proof -
  have "card_checkdir c = (2, 1, c\<lparr>curr_dir := Some 1, work := block_copy (dirblk 1) (dirblk 0) (work c)\<rparr>)" (is "_ = (2, 1, ?c1)")
    using assms(1,2) by (simp add: card_checkdir_def pick_copy_def Let_def)
  moreover have "\<not> fat_bad 0 (blocks c) (work ?c1)" "\<not> fat_bad 1 (blocks c) (work ?c1)"
    using copy_dir_fat assms(3-5) by simp_all
  then have "fst (card_checkfat ?c1) = 0" "curr_fat (snd (snd (card_checkfat ?c1))) \<noteq> None"
      "curr_dir (snd (snd (card_checkfat ?c1))) = Some 1"
    by (auto simp: card_checkfat_def Let_def split: option.splits)
  ultimately show ?thesis by (simp add: card_verify_def case_prod_beta Let_def)
qed

section \<open>Updating the directory\<close>

lemma updatedir_work:
  fixes exi :: int and cb :: card_cb
  assumes "attached c" "curr_dir c = Some d" "card_updatedir exi cb c = Some (r, c')"
  shows "i \<notin> {dirblk d + DIR_updated, dirblk d + DIR_chksum1, dirblk d + DIR_chksum2} \<Longrightarrow> work c' i = work c i"
    "work c' (dirblk d + DIR_updated) = work c (dirblk d + DIR_updated) + 1" "\<not> dir_bad d (work c')" "curr_dir c' = Some d"
proof -
  let ?b = "dirblk d"
  let ?w1 = "(work c)(?b + DIR_updated := work c (?b + DIR_updated) + 1)"
  let ?cs = "card_checksum ?w1 ?b 0x1ffc"
  have w': "work c' = ?w1(?b + DIR_chksum1 := fst ?cs, ?b + DIR_chksum2 := snd ?cs)"
    and cd: "curr_dir c' = Some d"
    using arg_cong [OF assms(3), of "\<lambda>x. work (snd (the x))"] arg_cong [OF assms(3), of "\<lambda>x. curr_dir (snd (the x))"] assms(1,2)
    by (simp_all add: card_updatedir_def case_prod_beta Let_def)
  show "i \<notin> {?b + DIR_updated, ?b + DIR_chksum1, ?b + DIR_chksum2} \<Longrightarrow> work c' i = work c i" by (simp add: w')
  show "work c' (?b + DIR_updated) = work c (?b + DIR_updated) + 1" by (simp add: w')
  have "card_checksum (work c') ?b 0x1ffc = ?cs" unfolding w' by (rule checksum_cong) auto
  then show "\<not> dir_bad d (work c')" by (simp add: dir_bad_def w')
  show "curr_dir c' = Some d" by (rule cd)
qed

section \<open>Formatting\<close>

text \<open>
  Both directory copies of a formatted card carry the counter 0xffff. The first update makes its copy's
  counter wrap to 0, so at the next mount the copy from before the update counts as the newer one.
\<close>

lemma format_dir_at:
  "work' = format_dir d w \<Longrightarrow> k < 4094 \<Longrightarrow> work' (dirblk d + k) = 0xffff"
  "work' = format_dir d w \<Longrightarrow> \<not> (dirblk d \<le> i \<and> i < dirblk d + 4096) \<Longrightarrow> work' i = w i"
  "work' = format_dir d w \<Longrightarrow> \<not> dir_bad d work'"
proof -
  let ?w1 = "fill (dirblk d) 4096 0xffff w"
  let ?cs = "card_checksum ?w1 (dirblk d) 8188"
  have f: "format_dir d w = ?w1(dirblk d + DIR_chksum1 := fst ?cs, dirblk d + DIR_chksum2 := snd ?cs)"
    by (simp add: format_dir_def case_prod_beta Let_def)
  show "work' = format_dir d w \<Longrightarrow> k < 4094 \<Longrightarrow> work' (dirblk d + k) = 0xffff" by (simp add: f fill_def)
  show "work' = format_dir d w \<Longrightarrow> \<not> (dirblk d \<le> i \<and> i < dirblk d + 4096) \<Longrightarrow> work' i = w i" by (auto simp: f fill_def)
  have "card_checksum (format_dir d w) (dirblk d) 8188 = ?cs" unfolding f by (rule checksum_cong) auto
  then show "work' = format_dir d w \<Longrightarrow> \<not> dir_bad d work'" by (simp add: dir_bad_def) (simp add: f)
qed

lemma format_fat_other: "\<not> (fatblk f \<le> i \<and> i < fatblk f + 4096) \<Longrightarrow> format_fat n f w i = w i"
  by (auto simp: format_fat_def case_prod_beta Let_def fill_def)

lemma format_dirs:
  assumes "d < 2"
  shows "format_image serial enc c (dirblk d + DIR_updated) = 0xffff" "\<not> dir_bad d (format_image serial enc c)"
proof -
  let ?h = "format_header serial enc (card_size c) (work c)"
  let ?w = "format_image serial enc c"
  have k: "?w (dirblk d + k) = format_dir 1 (format_dir 0 ?h) (dirblk d + k)" if "k < 4096" for k
    using that assms unfolding format_image_def by (subst format_fat_other, auto simp: dirblk_def fatblk_def)+
  have d: "d = 0 \<or> d = 1" using assms by auto
  have g: "format_dir 1 (format_dir 0 ?h) (dirblk d + k) = format_dir d (if d = 0 then ?h else format_dir 0 ?h) (dirblk d + k)"
    if "k < 4096" for k
    using d that format_dir_at(2) [of "format_dir 1 (format_dir 0 ?h)" 1 "format_dir 0 ?h" "dirblk d + k"]
    by (auto simp: blk_simps)
  show "?w (dirblk d + DIR_updated) = 0xffff" using k [of DIR_updated] g [of DIR_updated] format_dir_at(1) [OF refl, of DIR_updated] by simp
  have "dir_bad d ?w = dir_bad d (format_dir d (if d = 0 then ?h else format_dir 0 ?h))"
    by (rule dir_bad_shift) (simp only: k g)
  then show "\<not> dir_bad d ?w" using format_dir_at(3) [OF refl] by simp
qed

lemma update_lost:
  fixes exi :: int and cb :: card_cb
  assumes "attached c" "curr_dir c = Some 0" "work c (dirblk 0 + DIR_updated) = 0xffff" "work c (dirblk 1 + DIR_updated) = 0xffff"
    "\<not> dir_bad 1 (work c)" "card_updatedir exi cb c = Some (r, c1)"
    "card_checkdir (c1\<lparr>curr_dir := None\<rparr>) = (nbad, dir, c2)"
  shows "nbad = 0 \<and> same_dir 0 (work c2) 1 (work c) \<and> same_dir 1 (work c2) 1 (work c)"
proof -
  note U = updatedir_work [OF assms(1,2,6)]
  have k: "work c1 (dirblk 1 + k) = work c (dirblk 1 + k)" if "k < 4096" for k
    using that by (intro U(1)) (auto simp: blk_simps)
  have "dir_bad 1 (work c1) = dir_bad 1 (work c)" by (rule dir_bad_shift) (rule k)
  then have b: "\<not> dir_bad 0 (work c1)" "\<not> dir_bad 1 (work c1)" using assms(5) U(3) by simp_all
  have "work c1 (dirblk 0 + DIR_updated) < work c1 (dirblk 1 + DIR_updated)"
    using U(2) assms(3,4) k [of DIR_updated] by simp
  then show ?thesis using checkdir_newest [of "c1\<lparr>curr_dir := None\<rparr>" nbad dir c2] b assms(7) k
    by (simp add: same_dir_def)
qed

end
