(* ===== verification/CardProps.thy ===== *)
theory CardProps
  imports CardCheck
begin

text \<open>
  The correctness properties of the memory card file system, each applied to a concrete card.
\<close>

text \<open>\<open>card0\<close> is a card of 64 blocks whose work area holds the given words.\<close>

definition card0 :: "(nat \<Rightarrow> u16) \<Rightarrow> card" where
  "card0 w = \<lparr>attached = True, result = 0, card_size = 4, sector_size = 0x2000, blocks = 64, curr_fileblock = 0xffff,
     curr_dir = Some 0, curr_fat = Some 0, work = w, format_step = 0, cmd = None, card_api_cb = CNull, card_erase_cb = CNull\<rparr>"

lemma card0_fields [simp]:
  "attached (card0 w)" "blocks (card0 w) = 64" "curr_dir (card0 w) = Some 0" "curr_fat (card0 w) = Some 0" "work (card0 w) = w"
  by (simp_all add: card0_def)

section \<open>The block allocation table\<close>

text \<open>
  C37. Allocating blocks that the table can supply succeeds: it returns the first of a chain of exactly
  that many different blocks, all of them free before, each entry naming the next and the last one
  ending the chain; no other entry changes, the free count stays exact, and the table written back
  passes the mount check.
\<close>

theorem card_alloc:
  assumes "attached c" "curr_fat c = Some f" "5 < unat (blocks c)" "fat_counted (fatblk f) (unat (blocks c)) (work c)"
    and "0 < unat need" "unat need \<le> card (free_blocks (fatblk f) (unat (blocks c)) (work c))"
  shows "\<exists>ret c' bs. card_allocblock exi need cb c = Some (ret, c') \<and> length bs = unat need \<and> distinct bs \<and>
    unat ` set bs \<subseteq> free_blocks (fatblk f) (unat (blocks c)) (work c) \<and>
    curr_fileblock c' = hd bs \<and> is_chain (fatblk f) (work c') bs \<and> fat_frame (fatblk f) bs (work c) (work c') \<and>
    fat_counted (fatblk f) (unat (blocks c)) (work c') \<and> \<not> fat_bad f (blocks c) (work c')"
  by (rule allocblock_ok [OF assms])

lemma empty_fat: "free_blocks (fatblk 0) 64 ((\<lambda>_. 0)(fatblk 0 + 3 := 59)) = {5..<64}"
  by (auto simp: free_blocks_def)

theorem card_alloc_witness:
  "\<exists>ret c' bs. card_allocblock 0 3 CNull (card0 ((\<lambda>_. 0)(fatblk 0 + 3 := 59))) = Some (ret, c') \<and> length bs = unat (3 :: u32) \<and>
    distinct bs \<and> unat ` set bs \<subseteq> free_blocks (fatblk 0) 64 ((\<lambda>_. 0)(fatblk 0 + 3 := 59)) \<and>
    curr_fileblock c' = hd bs \<and> is_chain (fatblk 0) (work c') bs \<and>
    fat_frame (fatblk 0) bs ((\<lambda>_. 0)(fatblk 0 + 3 := 59)) (work c') \<and>
    fat_counted (fatblk 0) 64 (work c') \<and> \<not> fat_bad 0 64 (work c')"
  using card_alloc [of "card0 ((\<lambda>_. 0)(fatblk 0 + 3 := 59))" 0 3 0 CNull] empty_fat
  by (simp add: fat_counted_def)

text \<open>
  C38. Freeing a file's chain ends for every chain of different blocks in the data area: all its entries
  become free, no other entry changes, the free count stays exact and the table passes the mount
  check. So freeing what was allocated gives the blocks back.
\<close>

theorem card_free:
  assumes "attached c" "curr_fat c = Some f" "fat_counted (fatblk f) (unat (blocks c)) (work c)"
    and "is_chain (fatblk f) (work c) bs" "distinct bs" "chain_range (blocks c) bs" "length bs \<le> fuel"
  shows "\<exists>ret c'. card_freeblock fuel exi (hd bs) cb c = Some (ret, c') \<and>
    (\<forall>b\<in>set bs. work c' (fatblk f + unat b) = 0) \<and> fat_frame (fatblk f) bs (work c) (work c') \<and>
    fat_counted (fatblk f) (unat (blocks c)) (work c') \<and> \<not> fat_bad f (blocks c) (work c')"
  by (rule freeblock_ok [OF assms])

lemma one_file:
  "free_blocks (fatblk 0) 64 ((\<lambda>_. 0)(fatblk 0 + 3 := 57, fatblk 0 + 5 := 9, fatblk 0 + 9 := 0xffff)) = {5..<64} - {5, 9}"
  by (auto simp: free_blocks_def)

theorem card_free_witness:
  "let w = (\<lambda>_. 0)(fatblk 0 + 3 := 57, fatblk 0 + 5 := 9, fatblk 0 + 9 := 0xffff) in
   \<exists>ret c'. card_freeblock 64 0 5 CNull (card0 w) = Some (ret, c') \<and>
    (\<forall>b\<in>set [5, 9]. work c' (fatblk 0 + unat (b :: u16)) = 0) \<and> fat_frame (fatblk 0) [5, 9] w (work c') \<and>
    fat_counted (fatblk 0) 64 (work c') \<and> \<not> fat_bad 0 64 (work c')"
  using card_free [of "card0 ((\<lambda>_. 0)(fatblk 0 + 3 := 57, fatblk 0 + 5 := 9, fatblk 0 + 9 := 0xffff))" 0 "[5, 9]" 64 0 CNull]
  by (simp add: fat_counted_def one_file chain_range_def Let_def)

section \<open>The two copies of the directory\<close>

text \<open>
  C39. When one of the two directory copies is damaged, mounting the card replaces it by the intact one
  and makes it the copy the next update is written to.
\<close>

theorem card_repair:
  assumes "d < 2" "dir_bad d (work c)" "\<not> dir_bad (1 - d) (work c)" "card_checkdir c = (nbad, dir, c')"
  shows "nbad = 1 \<and> curr_dir c' = Some d \<and> same_dir 0 (work c') (1 - d) (work c) \<and>
    same_dir 1 (work c') (1 - d) (work c) \<and> \<not> dir_bad 0 (work c') \<and> \<not> dir_bad 1 (work c')"
  using checkdir_repair [OF assms] by blast

lemma checksum_zero:
  "(\<forall>k<n. w (i + k) = 0) \<Longrightarrow> checksum_loop w i n (a, b) = (a, b - of_nat n)"
proof (induction n arbitrary: i a b)
  case (Suc n)
  then have w: "w i = 0" "\<forall>k<n. w (Suc i + k) = 0" by (auto dest: spec [of _ "Suc k" for k])
  have "(0xffff :: u16) = - 1" by simp
  then have "checksum_loop w i (Suc n) (a, b) = checksum_loop w (Suc i) n (a, b - 1)"
    using w(1) by (simp only: checksum_loop.simps xor.left_neutral add_0_right add_uminus_conv_diff)
  also have "\<dots> = (a, b - 1 - of_nat n)" by (rule Suc.IH [OF w(2)])
  finally show ?case by (simp add: algebra_simps)
qed simp

lemma dir0_blank: "dir_bad 0 (format_dir 1 (\<lambda>_. 0))"
proof -
  let ?w = "format_dir 1 (\<lambda>_. 0)"
  have z: "?w (4096 + k) = 0" if "k < 4096" for k
    using format_dir_at(2) [of ?w 1 "\<lambda>_. 0" "4096 + k"] that by (simp add: dirblk_def)
  have "checksum_loop ?w 4096 4094 (0, 0) = (0, 0 - of_nat 4094)" by (rule checksum_zero) (intro allI impI z, simp)
  then show ?thesis using z [of 4094] z [of 4095] by (simp add: dir_bad_def card_checksum_def dirblk_def)
qed

theorem card_repair_witness:
  "\<exists>nbad dir c'. card_checkdir (card0 (format_dir 1 (\<lambda>_. 0))) = (nbad, dir, c') \<and>
    nbad = 1 \<and> curr_dir c' = Some 0 \<and> same_dir 0 (work c') (1 - 0) (format_dir 1 (\<lambda>_. 0)) \<and>
    same_dir 1 (work c') (1 - 0) (format_dir 1 (\<lambda>_. 0)) \<and> \<not> dir_bad 0 (work c') \<and> \<not> dir_bad 1 (work c')"
proof -
  obtain nbad dir c' where c': "card_checkdir (card0 (format_dir 1 (\<lambda>_. 0))) = (nbad, dir, c')" by (cases rule: prod_cases3)
  show ?thesis using card_repair [OF _ _ _ c', of 0] c' dir0_blank format_dir_at(3) [OF refl, of 1 "\<lambda>_. 0"] by simp
qed

text \<open>
  C40. The first change to the directory of a freshly formatted card is lost at the next mount.
  Formatting leaves the update counter of both copies at \<open>0xffff\<close>; the first update wraps it to 0 in
  the copy it writes, and the mount check then takes the other copy for the newer one and overwrites
  the change with it.
\<close>

theorem card_format_update_lost:
  assumes "attached c" "curr_dir c = Some 0" "work c (dirblk 0 + DIR_updated) = 0xffff" "work c (dirblk 1 + DIR_updated) = 0xffff"
    and "\<not> dir_bad 1 (work c)" "card_updatedir exi cb c = Some (r, c1)"
    and "card_checkdir (c1\<lparr>curr_dir := None\<rparr>) = (nbad, dir, c2)"
  shows "nbad = 0 \<and> same_dir 0 (work c2) 1 (work c) \<and> same_dir 1 (work c2) 1 (work c)"
  by (rule update_lost [OF assms])

theorem card_format_update_lost_witness:
  "let w = format_image (\<lambda>_. 0) 0 (card0 (\<lambda>_. 0)) in
   \<exists>r c1 nbad dir c2. card_updatedir 0 CNull (card0 w) = Some (r, c1) \<and>
     card_checkdir (c1\<lparr>curr_dir := None\<rparr>) = (nbad, dir, c2) \<and>
     nbad = 0 \<and> same_dir 0 (work c2) 1 w \<and> same_dir 1 (work c2) 1 w"
proof -
  let ?w = "format_image (\<lambda>_. 0) 0 (card0 (\<lambda>_. 0))"
  obtain r c1 where c1: "card_updatedir 0 CNull (card0 ?w) = Some (r, c1)"
    by (cases "card_updatedir 0 CNull (card0 ?w)") (auto simp: card_updatedir_def Let_def split_beta)
  obtain nbad dir c2 where c2: "card_checkdir (c1\<lparr>curr_dir := None\<rparr>) = (nbad, dir, c2)" by (cases rule: prod_cases3)
  show ?thesis
    using card_format_update_lost [OF _ _ _ _ _ c1 c2] format_dirs [of 0 "\<lambda>_. 0" 0 "card0 (\<lambda>_. 0)"]
      format_dirs [of 1 "\<lambda>_. 0" 0 "card0 (\<lambda>_. 0)"] c1 c2 by (simp add: Let_def)
qed

end
