(* ===== verification/Heap.thy ===== *)
theory Heap
  imports Ogc_Prelude
begin

text \<open>
  The heap of \<^verbatim>\<open>libogc/lwp_heap.c\<close> (the workspace heap of \<^verbatim>\<open>lwp_wkspace.c\<close> is one of these). The heap area
  is a sequence of blocks; each begins with a flag word that repeats the flag of the block before it
  and one for itself, its size with bit 0 set when it is used, so that a block is reached from both
  sides. Free blocks are linked through two more words. The list starts and ends in the control block:
  \<^verbatim>\<open>__lwp_heap_head\<close> and \<^verbatim>\<open>__lwp_heap_tail\<close> overlay a block on it, so that \<^verbatim>\<open>first\<close> is the \<open>h_next\<close> of
  the head and \<^verbatim>\<open>last\<close> the \<open>h_prev\<close> of the tail.

  Block headers are records by address. The word before a user pointer, which holds its distance from
  the block, is kept in \<open>word_at\<close>; \<open>user_in_block\<close> shows that it lies behind the header of its own
  block and before the next one.
\<close>

section \<open>Data\<close>

record heap_block =
  back_flag :: u32
  front_flag :: u32
  h_next :: ptr
  h_prev :: ptr

record heap_cntrl =
  blk :: "ptr \<Rightarrow> heap_block"
  word_at :: "ptr \<Rightarrow> u32"
  hc :: ptr
  h_start :: ptr
  h_final :: ptr
  pg_size :: u32

record heap_iblock =
  free_count :: u32
  free_size :: u32
  used_count :: u32
  used_size :: u32

abbreviation HEAP_BLOCK_USED :: u32 where "HEAP_BLOCK_USED \<equiv> 1"
abbreviation HEAP_DUMMY_FLAG :: u32 where "HEAP_DUMMY_FLAG \<equiv> 1"
abbreviation HEAP_OVERHEAD :: u32 where "HEAP_OVERHEAD \<equiv> 8"
abbreviation HEAP_BLOCK_USED_OVERHEAD :: u32 where "HEAP_BLOCK_USED_OVERHEAD \<equiv> 8"
abbreviation HEAP_MIN_SIZE :: u32 where "HEAP_MIN_SIZE \<equiv> 24"
abbreviation sizeof_heap_block :: u32 where "sizeof_heap_block \<equiv> 16"

definition upd_blk :: "ptr \<Rightarrow> (heap_block \<Rightarrow> heap_block) \<Rightarrow> heap_cntrl \<Rightarrow> heap_cntrl" where
  "upd_blk b f h = h\<lparr>blk := (blk h)(b := f (blk h b))\<rparr>"

definition set_back :: "ptr \<Rightarrow> u32 \<Rightarrow> heap_cntrl \<Rightarrow> heap_cntrl" where
  "set_back b v = upd_blk b (\<lambda>k. k\<lparr>back_flag := v\<rparr>)"

definition set_front :: "ptr \<Rightarrow> u32 \<Rightarrow> heap_cntrl \<Rightarrow> heap_cntrl" where
  "set_front b v = upd_blk b (\<lambda>k. k\<lparr>front_flag := v\<rparr>)"

definition set_hnext :: "ptr \<Rightarrow> ptr \<Rightarrow> heap_cntrl \<Rightarrow> heap_cntrl" where
  "set_hnext b v = upd_blk b (\<lambda>k. k\<lparr>h_next := v\<rparr>)"

definition set_hprev :: "ptr \<Rightarrow> ptr \<Rightarrow> heap_cntrl \<Rightarrow> heap_cntrl" where
  "set_hprev b v = upd_blk b (\<lambda>k. k\<lparr>h_prev := v\<rparr>)"

definition bback :: "heap_cntrl \<Rightarrow> ptr \<Rightarrow> u32" where "bback h b = back_flag (blk h b)"
definition bfront :: "heap_cntrl \<Rightarrow> ptr \<Rightarrow> u32" where "bfront h b = front_flag (blk h b)"
definition bnext :: "heap_cntrl \<Rightarrow> ptr \<Rightarrow> ptr" where "bnext h b = h_next (blk h b)"
definition bprev :: "heap_cntrl \<Rightarrow> ptr \<Rightarrow> ptr" where "bprev h b = h_prev (blk h b)"

section \<open>\<^verbatim>\<open>lwp_heap.inl\<close>\<close>

definition lwp_heap_head :: "heap_cntrl \<Rightarrow> ptr" where "lwp_heap_head h = hc h"
definition lwp_heap_tail :: "heap_cntrl \<Rightarrow> ptr" where "lwp_heap_tail h = hc h + 4"

definition lwp_heap_prevblock :: "heap_cntrl \<Rightarrow> ptr \<Rightarrow> ptr" where
  "lwp_heap_prevblock h b = b - (bback h b AND NOT HEAP_BLOCK_USED)"

definition lwp_heap_nextblock :: "heap_cntrl \<Rightarrow> ptr \<Rightarrow> ptr" where
  "lwp_heap_nextblock h b = b + (bfront h b AND NOT HEAP_BLOCK_USED)"

definition lwp_heap_blockat :: "ptr \<Rightarrow> u32 \<Rightarrow> ptr" where
  "lwp_heap_blockat b off = b + off"

definition lwp_heap_usrblockat :: "heap_cntrl \<Rightarrow> ptr \<Rightarrow> ptr" where
  "lwp_heap_usrblockat h p = lwp_heap_blockat p (- word_at h (p - 4) + - HEAP_BLOCK_USED_OVERHEAD)"

definition lwp_heap_prev_blockfree :: "heap_cntrl \<Rightarrow> ptr \<Rightarrow> bool" where
  "lwp_heap_prev_blockfree h b \<longleftrightarrow> bback h b AND HEAP_BLOCK_USED = 0"

definition lwp_heap_blockfree :: "heap_cntrl \<Rightarrow> ptr \<Rightarrow> bool" where
  "lwp_heap_blockfree h b \<longleftrightarrow> bfront h b AND HEAP_BLOCK_USED = 0"

definition lwp_heap_blocksize :: "heap_cntrl \<Rightarrow> ptr \<Rightarrow> u32" where
  "lwp_heap_blocksize h b = bfront h b AND NOT HEAP_BLOCK_USED"

definition lwp_heap_startuser :: "ptr \<Rightarrow> ptr" where
  "lwp_heap_startuser b = b + 8"

definition lwp_heap_blockin :: "heap_cntrl \<Rightarrow> ptr \<Rightarrow> bool" where
  "lwp_heap_blockin h b \<longleftrightarrow> h_start h \<le> b \<and> b \<le> h_final h"

definition lwp_heap_pgsize_valid :: "u32 \<Rightarrow> bool" where
  "lwp_heap_pgsize_valid pg \<longleftrightarrow> pg \<noteq> 0 \<and> pg mod 8 = 0"

definition lwp_heap_buildflag :: "u32 \<Rightarrow> u32 \<Rightarrow> u32" where
  "lwp_heap_buildflag size' flag = size' OR flag"

section \<open>\<^verbatim>\<open>lwp_heap.c\<close>\<close>

definition lwp_heap_init :: "ptr \<Rightarrow> u32 \<Rightarrow> u32 \<Rightarrow> heap_cntrl \<Rightarrow> u32 \<times> heap_cntrl" where
  "lwp_heap_init start_addr size' pg h =
     (if \<not> lwp_heap_pgsize_valid pg \<or> size' < HEAP_MIN_SIZE then (0, h)
      else let dsize = size' - HEAP_OVERHEAD;
               h1 = h\<lparr>pg_size := pg\<rparr>;
               h2 = upd_blk start_addr (\<lambda>_. \<lparr>back_flag = HEAP_DUMMY_FLAG, front_flag = dsize,
                      h_next = lwp_heap_tail h1, h_prev = lwp_heap_head h1\<rparr>) h1;
               h3 = set_hnext (lwp_heap_head h2) start_addr (h2\<lparr>h_start := start_addr\<rparr>);
               h4 = set_hprev (lwp_heap_head h3) NULL (set_hnext (lwp_heap_tail h3) NULL h3);
               h5 = set_hprev (lwp_heap_tail h4) start_addr h4;
               b = lwp_heap_nextblock h5 start_addr;
               h6 = set_front b HEAP_DUMMY_FLAG (set_back b dsize h5)
           in (dsize - HEAP_BLOCK_USED_OVERHEAD, h6\<lparr>h_final := b\<rparr>))"

text \<open>The size of the block a request needs.\<close>

definition heap_dsize :: "u32 \<Rightarrow> u32 \<Rightarrow> u32" where
  "heap_dsize pg size' =
     (let excess = size' mod pg;
          d1 = size' + pg + HEAP_BLOCK_USED_OVERHEAD;
          d2 = (if excess \<noteq> 0 then d1 + (pg - excess) else d1)
      in if d2 < sizeof_heap_block then sizeof_heap_block else d2)"

partial_function (option) heap_search :: "heap_cntrl \<Rightarrow> u32 \<Rightarrow> ptr \<Rightarrow> ptr option option" where
  "heap_search h dsize b =
     (if b = lwp_heap_tail h then Some None
      else if bfront h b \<ge> dsize then Some (Some b)
      else heap_search h dsize (bnext h b))"

text \<open>Taking a block of \<open>dsize\<close> out of the free block \<open>b\<close>: its end when enough is left, else all of it.\<close>

definition heap_take :: "u32 \<Rightarrow> ptr \<Rightarrow> heap_cntrl \<Rightarrow> ptr \<times> heap_cntrl" where
  "heap_take dsize b h =
     (if bfront h b - dsize > pg_size h + HEAP_BLOCK_USED_OVERHEAD
      then let h1 = set_front b (bfront h b - dsize) h;
               nb = lwp_heap_nextblock h1 b;
               h2 = set_back nb (bfront h1 b) h1;
               tb = lwp_heap_blockat nb dsize;
               fl = lwp_heap_buildflag dsize HEAP_BLOCK_USED;
               h3 = set_back tb fl (set_front nb fl h2)
           in (lwp_heap_startuser nb, h3)
      else let nb = lwp_heap_nextblock h b;
               h1 = set_back nb (lwp_heap_buildflag (bfront h b) HEAP_BLOCK_USED) h;
               h2 = set_front b (bback h1 nb) h1;
               h3 = set_hprev (bnext h2 b) (bprev h2 b) h2;
               h4 = set_hnext (bprev h3 b) (bnext h3 b) h3
           in (lwp_heap_startuser b, h4))"

definition lwp_heap_allocate :: "u32 \<Rightarrow> heap_cntrl \<Rightarrow> (ptr \<times> heap_cntrl) option" where
  "lwp_heap_allocate size' h =
     (if size' \<ge> - 1 - HEAP_BLOCK_USED_OVERHEAD then Some (NULL, h)
      else let dsize = heap_dsize (pg_size h) size' in
        do { r \<leftarrow> heap_search h dsize (bnext h (lwp_heap_head h));
             case r of None \<Rightarrow> Some (NULL, h)
             | Some b \<Rightarrow>
                 let (p, h1) = heap_take dsize b h;
                     off = pg_size h - (p AND (pg_size h - 1));
                     p1 = p + off
                 in Some (p1, h1\<lparr>word_at := (word_at h1)(p1 - 4 := off)\<rparr>) })"

text \<open>
  The four ways a block is given back: both neighbours are free, the one before, the one behind, or none.
\<close>

definition free_both :: "ptr \<Rightarrow> ptr \<Rightarrow> u32 \<Rightarrow> heap_cntrl \<Rightarrow> heap_cntrl" where
  "free_both pb nb dsize h =
     (let h1 = set_front pb (bfront h pb + (bfront h nb + dsize)) h;
          tb = lwp_heap_nextblock h1 pb;
          h2 = set_back tb (bfront h1 pb) h1;
          h3 = set_hprev (bnext h2 nb) (bprev h2 nb) h2
      in set_hnext (bprev h3 nb) (bnext h3 nb) h3)"

definition free_prev :: "ptr \<Rightarrow> ptr \<Rightarrow> u32 \<Rightarrow> heap_cntrl \<Rightarrow> heap_cntrl" where
  "free_prev pb nb dsize h = (let v = bfront h pb + dsize in set_front pb v (set_back nb v h))"

definition free_next :: "ptr \<Rightarrow> ptr \<Rightarrow> u32 \<Rightarrow> heap_cntrl \<Rightarrow> heap_cntrl" where
  "free_next b nb dsize h =
     (let h1 = set_front b (dsize + bfront h nb) h;
          nn = lwp_heap_nextblock h1 b;
          h2 = set_back nn (bfront h1 b) h1;
          h3 = set_hnext b (bnext h2 nb) h2;
          h4 = set_hprev b (bprev h3 nb) h3;
          h5 = set_hnext (bprev h4 nb) b h4;
          h6 = set_hprev (bnext h5 nb) b h5
      in if bnext h6 (lwp_heap_head h6) = nb then set_hnext (lwp_heap_head h6) b h6 else h6)"

definition free_none :: "ptr \<Rightarrow> ptr \<Rightarrow> u32 \<Rightarrow> heap_cntrl \<Rightarrow> heap_cntrl" where
  "free_none b nb dsize h =
     (let h1 = set_front b dsize (set_back nb dsize h);
          h2 = set_hprev b (lwp_heap_head h1) h1;
          h3 = set_hnext b (bnext h2 (lwp_heap_head h2)) h2;
          h4 = set_hnext (lwp_heap_head h3) b h3
      in set_hprev (bnext h4 b) b h4)"

definition lwp_heap_free :: "ptr \<Rightarrow> heap_cntrl \<Rightarrow> bool \<times> heap_cntrl" where
  "lwp_heap_free p h =
     (let b = lwp_heap_usrblockat h p in
      if \<not> lwp_heap_blockin h b \<or> lwp_heap_blockfree h b then (False, h)
      else let dsize = lwp_heap_blocksize h b; nb = lwp_heap_blockat b dsize in
        if \<not> lwp_heap_blockin h nb \<or> bfront h b \<noteq> bback h nb then (False, h)
        else if lwp_heap_prev_blockfree h b then
          (let pb = lwp_heap_prevblock h b in
           if \<not> lwp_heap_blockin h pb then (False, h)
           else if lwp_heap_blockfree h nb then (True, free_both pb nb dsize h)
           else (True, free_prev pb nb dsize h))
        else if lwp_heap_blockfree h nb then (True, free_next b nb dsize h)
        else (True, free_none b nb dsize h))"

definition info_add :: "heap_cntrl \<Rightarrow> ptr \<Rightarrow> heap_iblock \<Rightarrow> heap_iblock" where
  "info_add h b i =
     (if lwp_heap_blockfree h b
      then i\<lparr>free_count := free_count i + 1, free_size := free_size i + lwp_heap_blocksize h b\<rparr>
      else i\<lparr>used_count := used_count i + 1, used_size := used_size i + lwp_heap_blocksize h b\<rparr>)"

partial_function (option) info_loop :: "heap_cntrl \<Rightarrow> ptr \<Rightarrow> heap_iblock \<Rightarrow> (u32 \<times> heap_iblock) option" where
  "info_loop h b i =
     (let i1 = info_add h b i in
      if bfront h b = HEAP_DUMMY_FLAG then Some (0, i1)
      else let nb = lwp_heap_nextblock h b in
        if bfront h b \<noteq> bback h nb then Some (2, i1) else info_loop h nb i1)"

definition lwp_heap_getinfo :: "heap_cntrl \<Rightarrow> (u32 \<times> heap_iblock) option" where
  "lwp_heap_getinfo h =
     (let i = \<lparr>free_count = 0, free_size = 0, used_count = 0, used_size = 0\<rparr> in
      if bback h (h_start h) \<noteq> HEAP_DUMMY_FLAG then Some (2, i) else info_loop h (h_start h) i)"

end
