(* ===== verification/HeapInv.thy ===== *)
theory HeapInv
  imports Heap
begin

text \<open>
  The heap as a list of tiles, pairs of a size and whether the block is used. \<open>heap_ok h ts\<close> says that
  the block headers describe the tiles \<open>ts\<close>, that no two neighbouring blocks are free, and that the
  free list holds exactly the free blocks.
\<close>

section \<open>Field accesses\<close>

lemma heap_get_set [simp]:
  "bback (set_back b v h) = (bback h)(b := v)" "bback (set_front b v h) = bback h"
  "bback (set_hnext b v h) = bback h" "bback (set_hprev b v h) = bback h"
  "bfront (set_back b v h) = bfront h" "bfront (set_front b v h) = (bfront h)(b := v)"
  "bfront (set_hnext b v h) = bfront h" "bfront (set_hprev b v h) = bfront h"
  "bnext (set_back b v h) = bnext h" "bnext (set_front b v h) = bnext h"
  "bnext (set_hnext b v h) = (bnext h)(b := v)" "bnext (set_hprev b v h) = bnext h"
  "bprev (set_back b v h) = bprev h" "bprev (set_front b v h) = bprev h"
  "bprev (set_hnext b v h) = bprev h" "bprev (set_hprev b v h) = (bprev h)(b := v)"
  by (auto simp: fun_eq_iff bback_def bfront_def bnext_def bprev_def upd_blk_def
      set_back_def set_front_def set_hnext_def set_hprev_def)

lemma heap_glob_set [simp]:
  "hc (set_back b v h) = hc h" "hc (set_front b v h) = hc h" "hc (set_hnext b v h) = hc h" "hc (set_hprev b v h) = hc h"
  "h_start (set_back b v h) = h_start h" "h_start (set_front b v h) = h_start h"
  "h_start (set_hnext b v h) = h_start h" "h_start (set_hprev b v h) = h_start h"
  "h_final (set_back b v h) = h_final h" "h_final (set_front b v h) = h_final h"
  "h_final (set_hnext b v h) = h_final h" "h_final (set_hprev b v h) = h_final h"
  "pg_size (set_back b v h) = pg_size h" "pg_size (set_front b v h) = pg_size h"
  "pg_size (set_hnext b v h) = pg_size h" "pg_size (set_hprev b v h) = pg_size h"
  "word_at (set_back b v h) = word_at h" "word_at (set_front b v h) = word_at h"
  "word_at (set_hnext b v h) = word_at h" "word_at (set_hprev b v h) = word_at h"
  by (simp_all add: upd_blk_def set_back_def set_front_def set_hnext_def set_hprev_def)

lemma heap_get_glob [simp]:
  "bback (h\<lparr>word_at := w\<rparr>) = bback h" "bfront (h\<lparr>word_at := w\<rparr>) = bfront h"
  "bnext (h\<lparr>word_at := w\<rparr>) = bnext h" "bprev (h\<lparr>word_at := w\<rparr>) = bprev h"
  by (simp_all add: fun_eq_iff bback_def bfront_def bnext_def bprev_def)

section \<open>Tiles\<close>

type_synonym tile = "nat \<times> bool"

definition tflag :: "tile \<Rightarrow> u32" where
  "tflag t = of_nat (fst t) OR (if snd t then 1 else 0)"

definition tsum :: "tile list \<Rightarrow> nat" where
  "tsum ts = sum_list (map fst ts)"

lemma tsum_simps [simp]: "tsum [] = 0" "tsum (t # ts) = fst t + tsum ts" "tsum (xs @ ys) = tsum xs + tsum ys"
  by (simp_all add: tsum_def)

definition lflag :: "u32 \<Rightarrow> tile list \<Rightarrow> u32" where
  "lflag f ts = (if ts = [] then f else tflag (last ts))"

lemma lflag_simps [simp]: "lflag f [] = f" "lflag f (t # ts) = lflag (tflag t) ts" "lflag f (xs @ ys) = lflag (lflag f xs) ys"
  by (auto simp: lflag_def)

definition tile_ok :: "tile \<Rightarrow> bool" where
  "tile_ok t \<longleftrightarrow> 16 \<le> fst t \<and> 8 dvd fst t"

fun tseg :: "(nat \<Rightarrow> u32) \<Rightarrow> (nat \<Rightarrow> u32) \<Rightarrow> nat \<Rightarrow> u32 \<Rightarrow> tile list \<Rightarrow> bool" where
  "tseg bk fr a f [] \<longleftrightarrow> True"
| "tseg bk fr a f (t # ts) \<longleftrightarrow> bk a = f \<and> fr a = tflag t \<and> tile_ok t \<and> tseg bk fr (a + fst t) (tflag t) ts"

lemma tseg_append [simp]:
  "tseg bk fr a f (xs @ ys) \<longleftrightarrow> tseg bk fr a f xs \<and> tseg bk fr (a + tsum xs) (lflag f xs) ys"
  by (induction xs arbitrary: a f) (auto simp: add.assoc)

lemma tseg_cong:
  "(\<And>x. a \<le> x \<Longrightarrow> x < a + tsum ts \<Longrightarrow> bk' x = bk x \<and> fr' x = fr x) \<Longrightarrow> tseg bk' fr' a f ts = tseg bk fr a f ts"
proof (induction ts arbitrary: a f)
  case (Cons t ts)
  show ?case
  proof (cases "tile_ok t")
    case True
    then have "bk' a = bk a" "fr' a = fr a" using Cons.prems [of a] by (auto simp: tile_ok_def)
    then show ?thesis using Cons.IH [of "a + fst t" "tflag t"] Cons.prems by auto
  qed simp
qed simp

text \<open>The end of the heap is a block of no size with the dummy flag.\<close>

definition tiled :: "(nat \<Rightarrow> u32) \<Rightarrow> (nat \<Rightarrow> u32) \<Rightarrow> nat \<Rightarrow> u32 \<Rightarrow> tile list \<Rightarrow> bool" where
  "tiled bk fr a f ts \<longleftrightarrow> tseg bk fr a f ts \<and> bk (a + tsum ts) = lflag f ts \<and> fr (a + tsum ts) = HEAP_DUMMY_FLAG"

lemma tiled_simps:
  "tiled bk fr a f (t # ts) \<longleftrightarrow> bk a = f \<and> fr a = tflag t \<and> tile_ok t \<and> tiled bk fr (a + fst t) (tflag t) ts"
  "tiled bk fr a f [] \<longleftrightarrow> bk a = f \<and> fr a = HEAP_DUMMY_FLAG"
  "tiled bk fr a f (xs @ ys) \<longleftrightarrow> tseg bk fr a f xs \<and> tiled bk fr (a + tsum xs) (lflag f xs) ys"
  by (auto simp: tiled_def add.assoc)

lemma tiled_head: "tiled bk fr a f ts \<Longrightarrow> bk a = f"
  by (cases ts) (auto simp: tiled_simps)

lemma tiled_retag:
  assumes "tiled bk fr a f ts" "bk' a = f'" "\<And>x. a < x \<Longrightarrow> bk' x = bk x" "\<And>x. a \<le> x \<Longrightarrow> fr' x = fr x"
  shows "tiled bk' fr' a f' ts"
proof (cases ts)
  case Nil
  then show ?thesis using assms by (simp add: tiled_simps)
next
  case (Cons t rest)
  have "tiled bk' fr' (a + fst t) (tflag t) rest = tiled bk fr (a + fst t) (tflag t) rest"
    unfolding tiled_def using assms(1,3,4) Cons
    by (subst tseg_cong [where bk = bk and fr = fr]) (auto simp: tiled_simps tile_ok_def)
  then show ?thesis using assms Cons by (simp add: tiled_simps)
qed

lemma tflag_even:
  assumes "tile_ok t" "fst t < 2 ^ 32"
  shows "tflag t AND NOT 1 = of_nat (fst t)" "tflag t AND 1 = (if snd t then 1 else 0)" "\<not> snd t \<Longrightarrow> tflag t = of_nat (fst t)"
    "tflag t \<noteq> 1"
proof -
  have "even (fst t)" using assms(1) by (auto simp: tile_ok_def intro: dvd_trans [of 2 8])
  then have b0: "\<not> bit (fst t) 0" by (simp add: bit_0)
  have o: "(of_nat (fst t) :: u32) AND 1 = 0"
    using b0 by (intro bit_word_eqI) (auto simp: bit_simps, metis gr0I)
  have e: "(of_nat (fst t) :: u32) AND NOT 1 = of_nat (fst t)"
    using b0 by (intro bit_word_eqI) (auto simp: bit_simps, metis gr0I)
  show "tflag t AND NOT 1 = of_nat (fst t)" using e by (simp add: tflag_def bit.conj_disj_distrib2)
  show t1: "tflag t AND 1 = (if snd t then 1 else 0)" using o by (simp add: tflag_def bit.conj_disj_distrib2)
  show "\<not> snd t \<Longrightarrow> tflag t = of_nat (fst t)" by (simp add: tflag_def)
  show "tflag t \<noteq> 1"
  proof
    assume "tflag t = 1"
    then have "(of_nat (fst t) :: u32) = 0" using \<open>tflag t AND NOT 1 = of_nat (fst t)\<close> by simp
    then have "fst t = 0" using assms(2) by (auto simp: word_of_nat_eq_0_iff dest: dvd_imp_le)
    then show False using assms(1) by (simp add: tile_ok_def)
  qed
qed


section \<open>The free list\<close>

fun dlinks :: "(ptr \<Rightarrow> ptr) \<Rightarrow> (ptr \<Rightarrow> ptr) \<Rightarrow> ptr list \<Rightarrow> bool" where
  "dlinks nx pv (a # b # xs) \<longleftrightarrow> nx a = b \<and> pv b = a \<and> dlinks nx pv (b # xs)"
| "dlinks nx pv xs \<longleftrightarrow> True"

lemma dlinks_append: "dlinks nx pv (xs @ a # ys) \<longleftrightarrow> dlinks nx pv (xs @ [a]) \<and> dlinks nx pv (a # ys)"
  by (induction xs rule: induct_list012) auto

lemma dlinks_cong:
  "(\<And>x. x \<in> set (butlast xs) \<Longrightarrow> nx' x = nx x) \<Longrightarrow> (\<And>x. x \<in> set (tl xs) \<Longrightarrow> pv' x = pv x) \<Longrightarrow>
   dlinks nx' pv' xs = dlinks nx pv xs"
  by (induction nx pv xs rule: dlinks.induct) auto

lemma dlinks_remove:
  assumes "dlinks nx pv (as @ a # b # c # cs)" "distinct (as @ a # b # c # cs)"
  shows "nx b = c" "pv b = a" "dlinks (nx(a := c)) (pv(c := a)) (as @ a # c # cs)"
proof -
  show "nx b = c" "pv b = a" using assms(1) by (auto simp: dlinks_append [of nx pv as a "b # c # cs"])
  have "dlinks (nx(a := c)) (pv(c := a)) (as @ [a]) = dlinks nx pv (as @ [a])"
    "dlinks (nx(a := c)) (pv(c := a)) (c # cs) = dlinks nx pv (c # cs)"
    by (rule dlinks_cong; use assms(2) in \<open>auto dest: in_set_butlastD list.set_sel(2) [rotated] split: if_splits\<close>)+
  then show "dlinks (nx(a := c)) (pv(c := a)) (as @ a # c # cs)"
    using assms(1) unfolding dlinks_append [of nx pv as a "b # c # cs"] dlinks_append [of "nx(a := c)" "pv(c := a)" as a "c # cs"]
    by simp
qed

lemma dlinks_insert:
  assumes "dlinks nx pv (as @ a # c # cs)" "distinct (as @ a # c # cs)" "b \<notin> set (as @ a # c # cs)"
  shows "dlinks (nx(b := c, a := b)) (pv(b := a, c := b)) (as @ a # b # c # cs)"
proof -
  have "dlinks (nx(b := c, a := b)) (pv(b := a, c := b)) (as @ [a]) = dlinks nx pv (as @ [a])"
    "dlinks (nx(b := c, a := b)) (pv(b := a, c := b)) (c # cs) = dlinks nx pv (c # cs)"
    by (rule dlinks_cong; use assms(2,3) in \<open>auto dest: in_set_butlastD list.set_sel(2) [rotated] split: if_splits\<close>)+
  moreover have "a \<noteq> b" "a \<noteq> c" "b \<noteq> c" using assms(2,3) by auto
  ultimately show ?thesis
    using assms(1) unfolding dlinks_append [of nx pv as a "c # cs"]
      dlinks_append [of "nx(b := c, a := b)" "pv(b := a, c := b)" as a "b # c # cs"]
    by simp
qed

section \<open>The invariant\<close>

fun faddrs :: "nat \<Rightarrow> tile list \<Rightarrow> nat list" where
  "faddrs a [] = []"
| "faddrs a (t # ts) = (if snd t then faddrs (a + fst t) ts else a # faddrs (a + fst t) ts)"

lemma faddrs_append [simp]: "faddrs a (xs @ ys) = faddrs a xs @ faddrs (a + tsum xs) ys"
  by (induction xs arbitrary: a) (auto simp: add.assoc)

lemma faddrs_range:
  "tseg bk fr a f ts \<Longrightarrow> x \<in> set (faddrs a ts) \<Longrightarrow> a \<le> x \<and> x < a + tsum ts"
proof (induction ts arbitrary: a f)
  case (Cons t ts)
  then show ?case using Cons.IH [of "a + fst t" "tflag t"] by (fastforce simp: tile_ok_def split: if_splits)
qed simp

fun no_adjacent :: "tile list \<Rightarrow> bool" where
  "no_adjacent (t # u # ts) \<longleftrightarrow> (snd t \<or> snd u) \<and> no_adjacent (u # ts)"
| "no_adjacent ts \<longleftrightarrow> True"

definition hbk :: "heap_cntrl \<Rightarrow> nat \<Rightarrow> u32" where
  "hbk h x = (if x < 2 ^ 32 then bback h (of_nat x) else 0)"

definition hfr :: "heap_cntrl \<Rightarrow> nat \<Rightarrow> u32" where
  "hfr h x = (if x < 2 ^ 32 then bfront h (of_nat x) else 0)"

lemma of_nat_eq32: "x < 2 ^ 32 \<Longrightarrow> y < 2 ^ 32 \<Longrightarrow> (of_nat x :: u32) = of_nat y \<longleftrightarrow> x = y"
  by (auto dest: arg_cong [of _ _ unat] simp: unat_of_nat take_bit_nat_eq_self)

lemma unat_of_nat32: "x < 2 ^ 32 \<Longrightarrow> unat (of_nat x :: u32) = x"
  by (simp add: unat_of_nat take_bit_nat_eq_self)

lemma hbk_set [simp]:
  "x < 2 ^ 32 \<Longrightarrow> hbk (set_back (of_nat x) v h) = (hbk h)(x := v)" "hbk (set_front b v h) = hbk h"
  "hbk (set_hnext b v h) = hbk h" "hbk (set_hprev b v h) = hbk h" "hbk (h\<lparr>word_at := w\<rparr>) = hbk h"
  using of_nat_eq32 by (auto simp: hbk_def fun_eq_iff)

lemma hfr_set [simp]:
  "x < 2 ^ 32 \<Longrightarrow> hfr (set_front (of_nat x) v h) = (hfr h)(x := v)" "hfr (set_back b v h) = hfr h"
  "hfr (set_hnext b v h) = hfr h" "hfr (set_hprev b v h) = hfr h" "hfr (h\<lparr>word_at := w\<rparr>) = hfr h"
  using of_nat_eq32 by (auto simp: hfr_def fun_eq_iff)

definition heap_ok :: "heap_cntrl \<Rightarrow> tile list \<Rightarrow> ptr list \<Rightarrow> bool" where
  "heap_ok h ts fs \<longleftrightarrow>
     (let a = unat (h_start h) in
      8 dvd a \<and> a + tsum ts + 16 \<le> 2 ^ 32 \<and> unat (h_final h) = a + tsum ts \<and>
      tiled (hbk h) (hfr h) a HEAP_DUMMY_FLAG ts \<and> no_adjacent ts \<and>
      lwp_heap_pgsize_valid (pg_size h) \<and> unat (pg_size h) + 16 < 2 ^ 32 \<and>
      (unat (hc h) + 16 \<le> a \<or> a + tsum ts < unat (hc h)) \<and> unat (hc h) + 4 < 2 ^ 32 \<and>
      dlinks (bnext h) (bprev h) (lwp_heap_head h # fs @ [lwp_heap_tail h]) \<and>
      distinct fs \<and> set fs = of_nat ` set (faddrs a ts))"

section \<open>Changing tiles\<close>

lemma tiled_merge:
  assumes "tiled bk fr a f (xs @ ms @ ys)" "ms \<noteq> []" "tile_ok (tsum ms, v)" "p = a + tsum xs" "F = tflag (tsum ms, v)"
  shows "tiled (bk(p + tsum ms := F)) (fr(p := F)) a f (xs @ (tsum ms, v) # ys)"
proof -
  have pos: "0 < tsum ms" using assms(3) by (simp add: tile_ok_def)
  have x: "tseg bk fr a f xs" and my: "tseg bk fr p (lflag f xs) ms" "tiled bk fr (p + tsum ms) (lflag (lflag f xs) ms) ys"
    using assms(1) by (simp_all add: tiled_simps assms(4))
  have "tseg (bk(p + tsum ms := F)) (fr(p := F)) a f xs"
    using x by (subst tseg_cong [where bk = bk and fr = fr]) (auto simp: assms(4))
  moreover have "bk p = lflag f xs" using my(1) assms(2) by (cases ms) auto
  moreover have "tiled (bk(p + tsum ms := F)) (fr(p := F)) (p + tsum ms) F ys"
    using my(2) by (rule tiled_retag) (use pos in auto)
  ultimately show ?thesis using assms(3,4,5) pos by (simp add: tiled_simps)
qed

lemma tiled_split:
  assumes "tiled bk fr a f (xs @ (n, u) # ys)" "tile_ok (k, v)" "tile_ok (d, w)" "n = k + d" "p = a + tsum xs"
  shows "tiled (bk(p + k := tflag (k, v), p + n := tflag (d, w))) (fr(p := tflag (k, v), p + k := tflag (d, w))) a f
    (xs @ (k, v) # (d, w) # ys)"
proof -
  let ?bk = "bk(p + k := tflag (k, v), p + n := tflag (d, w))" and ?fr = "fr(p := tflag (k, v), p + k := tflag (d, w))"
  have pos: "0 < k" "0 < d" using assms(2,3) by (auto simp: tile_ok_def)
  have x: "tseg bk fr a f xs" "bk p = lflag f xs" "tiled bk fr (p + n) (tflag (n, u)) ys"
    using assms(1) by (simp_all add: tiled_simps assms(5) add.assoc)
  have "tseg ?bk ?fr a f xs"
    using x(1) by (subst tseg_cong [where bk = bk and fr = fr]) (auto simp: assms(5))
  moreover have "tiled ?bk ?fr (p + n) (tflag (d, w)) ys"
    using x(3) by (rule tiled_retag) (use pos assms(4) in auto)
  ultimately show ?thesis using assms(2,3,4,5) x(2) pos by (simp add: tiled_simps add.assoc)
qed

lemma no_adjacent_append:
  "no_adjacent (xs @ t # ys) \<longleftrightarrow> no_adjacent (xs @ [t]) \<and> no_adjacent (t # ys)"
proof (induction xs)
  case (Cons x xs)
  then show ?case by (cases xs) auto
qed simp

end
