(* ===== verification/HeapOps.thy ===== *)
theory HeapOps
  imports HeapInv
begin

text \<open>Initialisation, allocation, freeing and the statistics of the heap in terms of its tiles.\<close>

lemma heap_okD:
  assumes "heap_ok h ts fs"
  shows "8 dvd unat (h_start h)" "unat (h_start h) + tsum ts + 16 \<le> 2 ^ 32" "unat (h_final h) = unat (h_start h) + tsum ts"
    "tiled (hbk h) (hfr h) (unat (h_start h)) HEAP_DUMMY_FLAG ts" "no_adjacent ts"
    "lwp_heap_pgsize_valid (pg_size h)" "unat (pg_size h) + 16 < 2 ^ 32"
    "dlinks (bnext h) (bprev h) (lwp_heap_head h # fs @ [lwp_heap_tail h])" "distinct fs"
    "set fs = of_nat ` set (faddrs (unat (h_start h)) ts)"
  using assms by (simp_all add: heap_ok_def Let_def)

lemma heap_tile:
  assumes "heap_ok h (xs @ (n, u) # ys) fs" "p = unat (h_start h) + tsum xs"
  shows "p + n + 16 \<le> 2 ^ 32" "bfront h (of_nat p) = tflag (n, u)" "bback h (of_nat p) = lflag 1 xs" "tile_ok (n, u)"
    "bback h (of_nat (p + n)) = tflag (n, u)"
proof -
  have t: "tiled (hbk h) (hfr h) p (lflag 1 xs) ((n, u) # ys)"
    using heap_okD(4) [OF assms(1)] by (simp add: tiled_simps assms(2))
  show b: "p + n + 16 \<le> 2 ^ 32" using heap_okD(2) [OF assms(1)] assms(2) by simp
  show "bfront h (of_nat p) = tflag (n, u)" "bback h (of_nat p) = lflag 1 xs" "tile_ok (n, u)"
    using t b by (auto simp: tiled_simps hbk_def hfr_def split: if_splits)
  have "hbk h (p + n) = tflag (n, u)" using t by (auto simp: tiled_simps dest: tiled_head)
  then show "bback h (of_nat (p + n)) = tflag (n, u)" using b by (simp add: hbk_def split: if_splits)
qed

lemma heap_end:
  assumes "heap_ok h ts fs"
  shows "bfront h (of_nat (unat (h_start h) + tsum ts)) = 1" "bback h (of_nat (unat (h_start h) + tsum ts)) = lflag 1 ts"
  using heap_okD(2,4) [OF assms] by (auto simp: tiled_def hbk_def hfr_def split: if_splits)

text \<open>The sentinels of the free list are no blocks.\<close>

lemma heap_sentinel:
  assumes "heap_ok h ts fs" "unat (h_start h) \<le> x" "x \<le> unat (h_start h) + tsum ts"
  shows "of_nat x \<noteq> lwp_heap_head h" "of_nat x \<noteq> lwp_heap_tail h"
proof -
  have x: "x < 2 ^ 32" using heap_okD(2) [OF assms(1)] assms(3) by simp
  have c: "unat (hc h) + 16 \<le> unat (h_start h) \<or> unat (h_start h) + tsum ts < unat (hc h)" "unat (hc h) + 4 < 2 ^ 32"
    using assms(1) by (simp_all add: heap_ok_def Let_def)
  have "unat (of_nat x :: u32) = x" using x by (simp add: unat_of_nat take_bit_nat_eq_self)
  moreover have "unat (hc h + 4) = unat (hc h) + 4" using c(2) by (subst unat_plus_if') simp
  ultimately show "of_nat x \<noteq> lwp_heap_head h" "of_nat x \<noteq> lwp_heap_tail h"
    using c(1) assms(2,3) by (auto simp: lwp_heap_head_def lwp_heap_tail_def)
qed

lemma heap_chain_distinct:
  assumes "heap_ok h ts fs"
  shows "distinct (lwp_heap_head h # fs @ [lwp_heap_tail h])" "f \<in> set fs \<Longrightarrow> \<exists>x \<in> set (faddrs (unat (h_start h)) ts). f = of_nat x"
proof -
  have r: "x \<in> set (faddrs (unat (h_start h)) ts) \<Longrightarrow> unat (h_start h) \<le> x \<and> x \<le> unat (h_start h) + tsum ts" for x
    using faddrs_range [of "hbk h" "hfr h" "unat (h_start h)" 1 ts x] heap_okD(4) [OF assms] by (auto simp: tiled_def)
  have "lwp_heap_head h \<noteq> lwp_heap_tail h" by (simp add: lwp_heap_head_def lwp_heap_tail_def)
  moreover have "lwp_heap_head h \<notin> set fs" "lwp_heap_tail h \<notin> set fs"
    unfolding heap_okD(10) [OF assms] using heap_sentinel [OF assms] r by (metis imageE)+
  ultimately show "distinct (lwp_heap_head h # fs @ [lwp_heap_tail h])" using heap_okD(9) [OF assms] by simp
  show "f \<in> set fs \<Longrightarrow> \<exists>x \<in> set (faddrs (unat (h_start h)) ts). f = of_nat x" using heap_okD(10) [OF assms] by auto
qed

section \<open>Initialisation\<close>

lemma upd_blk_const:
  "bback (upd_blk b (\<lambda>_. k) h) = (bback h)(b := back_flag k)" "bfront (upd_blk b (\<lambda>_. k) h) = (bfront h)(b := front_flag k)"
  "bnext (upd_blk b (\<lambda>_. k) h) = (bnext h)(b := h_next k)" "bprev (upd_blk b (\<lambda>_. k) h) = (bprev h)(b := h_prev k)"
  "hc (upd_blk b f h) = hc h" "h_start (upd_blk b f h) = h_start h" "h_final (upd_blk b f h) = h_final h"
  "pg_size (upd_blk b f h) = pg_size h"
  by (auto simp: fun_eq_iff bback_def bfront_def bnext_def bprev_def upd_blk_def)

lemma heap_get_reg [simp]:
  "bback (h\<lparr>h_start := x\<rparr>) = bback h" "bfront (h\<lparr>h_start := x\<rparr>) = bfront h" "bnext (h\<lparr>h_start := x\<rparr>) = bnext h"
  "bprev (h\<lparr>h_start := x\<rparr>) = bprev h" "bback (h\<lparr>h_final := x\<rparr>) = bback h" "bfront (h\<lparr>h_final := x\<rparr>) = bfront h"
  "bnext (h\<lparr>h_final := x\<rparr>) = bnext h" "bprev (h\<lparr>h_final := x\<rparr>) = bprev h"
  "bback (h\<lparr>pg_size := y\<rparr>) = bback h" "bfront (h\<lparr>pg_size := y\<rparr>) = bfront h"
  "bnext (h\<lparr>pg_size := y\<rparr>) = bnext h" "bprev (h\<lparr>pg_size := y\<rparr>) = bprev h"
  by (simp_all add: fun_eq_iff bback_def bfront_def bnext_def bprev_def)

lemma heap_init_ok:
  assumes pg: "lwp_heap_pgsize_valid pg" "unat pg + 16 < 2 ^ 32" and sz: "HEAP_MIN_SIZE \<le> size'" "8 dvd unat size'"
    and st: "8 dvd unat start" "unat start + unat size' + 8 \<le> 2 ^ 32"
    and c: "unat (hc h) + 16 \<le> unat start \<or> unat start + unat size' \<le> unat (hc h)" "unat (hc h) + 4 < 2 ^ 32"
    and r: "lwp_heap_init start size' pg h = (n, h')"
  shows "heap_ok h' [(unat size' - 8, False)] [start] \<and> n = size' - 16 \<and> pg_size h' = pg \<and> h_start h' = start"
proof -
  have s24: "24 \<le> unat size'" using sz(1) by (simp add: word_le_nat_alt)
  define d where "d = unat size' - 8"
  have dw: "size' - 8 = of_nat d" "d < 2 ^ 32" using s24 unsigned_less [of size', where ?'a = nat]
    by (simp_all add: d_def)
  have sd: "unat size' = d + 8" using s24 by (simp add: d_def)
  have tk: "tile_ok (d, False)" using s24 sz(2) by (simp add: tile_ok_def d_def)
  note fl = tflag_even [OF tk, simplified fst_conv snd_conv, OF dw(2)]
  define b where "b = start + of_nat d"
  have b: "b = of_nat (unat start + d)" by (simp add: b_def)
  have lt: "unat start + d < 2 ^ 32" using st(2) s24 by (simp add: d_def)
  have ub: "unat b = unat start + d" unfolding b by (rule unat_of_nat32 [OF lt])
  let ?H = "hc h" and ?T = "hc h + 4"
  have ne: "start \<noteq> b" "start \<noteq> ?H" "start \<noteq> ?T" "?H \<noteq> ?T"
  proof -
    have "unat ?T = unat ?H + 4" using c(2) by (subst unat_plus_if') simp
    then show "start \<noteq> ?H" "start \<noteq> ?T" using c(1) s24 by auto
    show "start \<noteq> b" using ub tk by (auto simp: tile_ok_def)
  qed simp
  have h': "n = size' - 16" "hc h' = ?H" "h_start h' = start" "h_final h' = b" "pg_size h' = pg"
      "bback h' = (bback h)(start := 1, b := of_nat d)" "bfront h' = (bfront h)(start := of_nat d, b := 1)"
      "bnext h' start = ?T" "bnext h' ?H = start" "bprev h' start = ?H" "bprev h' ?T = start"
  proof -
    have f: "(of_nat d :: u32) AND - 2 = of_nat d" using fl(1,3) by simp
    have "\<not> (\<not> lwp_heap_pgsize_valid pg \<or> size' < HEAP_MIN_SIZE)" using pg(1) sz(1) by (simp add: not_less)
    note r' = r [unfolded lwp_heap_init_def if_not_P [OF this] Let_def dw(1), simplified]
    show "n = size' - 16" using r' by (auto simp flip: dw(1))
    show "hc h' = ?H" "h_start h' = start" "h_final h' = b" "pg_size h' = pg"
      "bback h' = (bback h)(start := 1, b := of_nat d)" "bfront h' = (bfront h)(start := of_nat d, b := 1)"
      "bnext h' start = ?T" "bnext h' ?H = start" "bprev h' start = ?H" "bprev h' ?T = start"
      using r' ne by (auto simp: upd_blk_const lwp_heap_nextblock_def lwp_heap_head_def lwp_heap_tail_def b_def f)
  qed
  have k: "hbk h' (unat start) = 1" "hfr h' (unat start) = of_nat d" "hbk h' (unat start + d) = of_nat d" "hfr h' (unat start + d) = 1"
    using h'(6,7) ne(1) lt by (auto simp: hbk_def hfr_def simp flip: b_def)
  have "tiled (hbk h') (hfr h') (unat start) 1 [(d, False)]"
    using k tk fl(3) by (simp add: tiled_simps)
  then show ?thesis
    using h' st s24 sz(1) pg c lt ub ne sd
    by (auto simp: heap_ok_def Let_def lwp_heap_head_def lwp_heap_tail_def d_def [symmetric])
qed

section \<open>Searching the free list\<close>

lemma heap_search_links:
  assumes "dlinks (bnext h) pv (a # fs @ [lwp_heap_tail h])" "lwp_heap_tail h \<notin> set fs"
  shows "heap_search h d (bnext h a) = Some (find (\<lambda>b. d \<le> bfront h b) fs)"
  using assms
proof (induction fs arbitrary: a)
  case Nil
  then show ?case by (simp add: heap_search.simps)
next
  case (Cons f fs)
  then have "bnext h a = f" "f \<noteq> lwp_heap_tail h" by auto
  then show ?case using Cons.IH [of f] Cons.prems by (simp add: heap_search.simps [of h d f])
qed

lemma faddr_tile: "x \<in> set (faddrs a ts) \<longleftrightarrow> (\<exists>xs n ys. ts = xs @ (n, False) # ys \<and> x = a + tsum xs)"
proof (induction ts arbitrary: a)
  case (Cons t ts)
  show ?case
  proof
    assume "x \<in> set (faddrs a (t # ts))"
    then consider "\<not> snd t" "x = a" | "x \<in> set (faddrs (a + fst t) ts)" by (auto split: if_splits)
    then show "\<exists>xs n ys. t # ts = xs @ (n, False) # ys \<and> x = a + tsum xs"
    proof cases
      case 1
      then show ?thesis by (intro exI [of _ "[]"] exI [of _ "fst t"] exI [of _ ts]) (cases t; simp)
    next
      case 2
      then obtain xs n ys where "ts = xs @ (n, False) # ys" "x = a + fst t + tsum xs" using Cons.IH by auto
      then show ?thesis by (intro exI [of _ "t # xs"] exI [of _ n] exI [of _ ys]) simp
    qed
  next
    assume "\<exists>xs n ys. t # ts = xs @ (n, False) # ys \<and> x = a + tsum xs"
    then obtain xs n ys where e: "t # ts = xs @ (n, False) # ys" "x = a + tsum xs" by blast
    then show "x \<in> set (faddrs a (t # ts))" unfolding e(1) by simp
  qed
qed simp

lemma free_block_tile:
  assumes "heap_ok h ts fs" "f \<in> set fs"
  shows "\<exists>xs n ys. ts = xs @ (n, False) # ys \<and> f = of_nat (unat (h_start h) + tsum xs) \<and> bfront h f = of_nat n \<and>
    n < 2 ^ 32 \<and> tile_ok (n, False)"
proof -
  obtain xs n ys where e: "ts = xs @ (n, False) # ys" "f = of_nat (unat (h_start h) + tsum xs)"
    using heap_chain_distinct(2) [OF assms] by (auto simp: faddr_tile)
  note t = heap_tile [OF assms(1) [unfolded e(1)] refl]
  have z: "n < 2 ^ 32" using t(1) by simp
  have "bfront h f = of_nat n" using t(2) e(2) tflag_even(3) [OF t(4)] z by simp
  then show ?thesis using e z t(4) by blast
qed

section \<open>Allocation\<close>

lemma heap_ok_update:
  assumes "heap_ok h ts fs" "h_start h' = h_start h" "h_final h' = h_final h" "hc h' = hc h" "pg_size h' = pg_size h"
    "tiled (hbk h') (hfr h') (unat (h_start h)) HEAP_DUMMY_FLAG ts'" "no_adjacent ts'" "tsum ts' = tsum ts"
    "dlinks (bnext h') (bprev h') (lwp_heap_head h # fs' @ [lwp_heap_tail h])" "distinct fs'"
    "set fs' = of_nat ` set (faddrs (unat (h_start h)) ts')"
  shows "heap_ok h' ts' fs'"
  using assms unfolding heap_ok_def Let_def lwp_heap_head_def lwp_heap_tail_def by auto

lemma no_adjacent_snoc: "no_adjacent (xs @ [t]) \<longleftrightarrow> no_adjacent xs \<and> (xs \<noteq> [] \<and> \<not> snd (last xs) \<longrightarrow> snd t)"
proof (induction xs)
  case (Cons x xs)
  then show ?case by (cases xs) auto
qed simp

lemma no_adjacent_Cons: "no_adjacent (t # ys) \<longleftrightarrow> no_adjacent ys \<and> (ys \<noteq> [] \<and> \<not> snd (hd ys) \<longrightarrow> snd t)"
  by (cases ys) auto

lemma no_adjacent_mid:
  "no_adjacent (xs @ t # ys) \<longleftrightarrow> no_adjacent xs \<and> (xs \<noteq> [] \<and> \<not> snd (last xs) \<longrightarrow> snd t) \<and> no_adjacent (t # ys)"
  by (simp only: no_adjacent_append [of xs t ys] no_adjacent_snoc simp_thms conj_assoc)

lemma pgsize_ge: "lwp_heap_pgsize_valid pg \<Longrightarrow> 8 dvd unat pg \<and> 8 \<le> unat pg"
proof -
  assume v: "lwp_heap_pgsize_valid pg"
  then have "unat (pg mod 8) = 0" by (simp add: lwp_heap_pgsize_valid_def)
  then have "8 dvd unat pg" by (simp add: unat_mod dvd_eq_mod_eq_0)
  moreover have "0 < unat pg" using v by (simp add: lwp_heap_pgsize_valid_def unat_gt_0)
  ultimately show ?thesis by (auto dest: dvd_imp_le)
qed

text \<open>What taking a block does to the tiles and to the free list.\<close>

lemma heap_take_split:
  assumes ok: "heap_ok h (xs @ (n, False) # ys) fs" and p: "p = unat (h_start h) + tsum xs"
    and D: "8 dvd D" "16 \<le> D" "D \<le> n" and big: "unat (pg_size h) + 8 < n - D"
    and r: "heap_take (of_nat D) (of_nat p) h = (q, h')"
  shows "q = of_nat (p + (n - D) + 8) \<and> heap_ok h' (xs @ (n - D, False) # (D, True) # ys) fs \<and>
    word_at h' = word_at h \<and> pg_size h' = pg_size h \<and> h_start h' = h_start h"
proof -
  note t = heap_tile [OF ok p]
  have n: "n < 2 ^ 32" "p + n < 2 ^ 32" using t(1) by auto
  have tn: "tile_ok (n - D, False)" "tile_ok (D, True)" and D32: "D < 2 ^ 32" "n - D < 2 ^ 32"
    using t(4) D big pgsize_ge [OF heap_okD(6) [OF ok]] n by (auto simp: tile_ok_def dvd_diff_nat)
  have fr: "bfront h (of_nat p) = of_nat n" using t(2) tflag_even(3) [OF t(4)] n by simp
  have sub: "bfront h (of_nat p) - of_nat D = of_nat (n - D)" using D(3) by (simp add: fr of_nat_diff)
  have gt: "pg_size h + 8 < (of_nat (n - D) :: u32)"
    unfolding word_less_nat_alt unat_of_nat32 [OF D32(2)] using big heap_okD(7) [OF ok] by (simp add: unat_plus_if')
  have mask: "(of_nat (n - D) :: u32) AND NOT 1 = of_nat (n - D)"
    using tflag_even(1,3) [OF tn(1)] D32 by simp
  have nb: "of_nat p + of_nat (n - D) = (of_nat (p + (n - D)) :: u32)" "of_nat (p + (n - D)) + of_nat D = (of_nat (p + n) :: u32)"
    using D(3) by (simp_all flip: of_nat_add)
  have fl: "lwp_heap_buildflag (of_nat D) 1 = tflag (D, True)" "tflag (n - D, False) = of_nat (n - D)"
    by (simp_all add: lwp_heap_buildflag_def tflag_def)
  have q: "q = of_nat (p + (n - D)) + 8" and h': "h' = set_back (of_nat (p + n)) (tflag (D, True)) (set_front (of_nat (p + (n - D)))
      (tflag (D, True)) (set_back (of_nat (p + (n - D))) (tflag (n - D, False)) (set_front (of_nat p) (tflag (n - D, False)) h)))"
    using r gt by (simp_all only: heap_take_def sub if_True Let_def lwp_heap_nextblock_def lwp_heap_blockat_def lwp_heap_startuser_def
        heap_get_set heap_glob_set fun_upd_same mask nb fl prod.inject)
  have lt: "p + (n - D) < 2 ^ 32" "p < 2 ^ 32" using n by simp_all
  have "tiled (hbk h') (hfr h') (unat (h_start h)) 1 (xs @ (n - D, False) # (D, True) # ys)"
    unfolding h' hbk_set hfr_set hbk_set(1) [OF n(2)] hbk_set(1) [OF lt(1)] hfr_set(1) [OF lt(1)] hfr_set(1) [OF lt(2)]
    by (rule tiled_split [OF heap_okD(4) [OF ok] tn _ p]) (use D(3) in simp)
  moreover have "no_adjacent (xs @ (n - D, False) # (D, True) # ys)" using heap_okD(5) [OF ok] by (auto simp: no_adjacent_mid no_adjacent_Cons)
  ultimately have "heap_ok h' (xs @ (n - D, False) # (D, True) # ys) fs"
    using D(3) heap_okD(8-10) [OF ok] by (intro heap_ok_update [OF ok]) (auto simp: h' add.assoc)
  then show ?thesis using q by (simp add: h')
qed

text \<open>Unlinking a free block, and putting another one in its place.\<close>

lemma heap_unlink:
  assumes "heap_ok h ts fs" "b \<in> set fs"
  obtains a c fs' where "bnext h b = c" "bprev h b = a" "a \<noteq> b" "c \<noteq> b" "a \<noteq> c"
    "dlinks ((bnext h)(a := c)) ((bprev h)(c := a)) (lwp_heap_head h # fs' @ [lwp_heap_tail h])"
    "distinct fs'" "set fs' = set fs - {b}"
    "\<And>e. e \<notin> set (lwp_heap_head h # fs @ [lwp_heap_tail h]) \<Longrightarrow> \<exists>gs. distinct gs \<and> set gs = insert e (set fs - {b}) \<and> e \<noteq> a \<and> e \<noteq> c \<and>
       dlinks ((bnext h)(e := c, a := e)) ((bprev h)(e := a, c := e)) (lwp_heap_head h # gs @ [lwp_heap_tail h])"
proof -
  obtain as bs where fs: "fs = as @ b # bs" using assms(2) by (meson split_list)
  define A where "A = lwp_heap_head h # fs @ [lwp_heap_tail h]"
  obtain us a c cs where A: "A = us @ a # b # c # cs" "us @ [a] = lwp_heap_head h # as" "c # cs = bs @ [lwp_heap_tail h]"
    by (cases "lwp_heap_head h # as" rule: rev_cases; cases bs) (auto simp: A_def fs)
  have d: "distinct A" "dlinks (bnext h) (bprev h) A"
    using heap_chain_distinct(1) [OF assms(1)] heap_okD(8) [OF assms(1)] by (simp_all add: A_def)
  note l = dlinks_remove [OF d(2) [unfolded A(1)] d(1) [unfolded A(1)]]
  have sh: "lwp_heap_head h # (as @ zs @ bs) @ [lwp_heap_tail h] = us @ a # zs @ c # cs" for zs
    using A(2,3) by (metis append.assoc append_Cons append_Nil)
  have ds: "distinct (us @ a # c # cs)" using d(1) by (auto simp: A(1))
  show thesis
  proof (rule that [OF l(1,2)])
    show "a \<noteq> b" "c \<noteq> b" "a \<noteq> c" using d(1) by (auto simp: A(1))
    show "dlinks ((bnext h)(a := c)) ((bprev h)(c := a)) (lwp_heap_head h # (as @ bs) @ [lwp_heap_tail h])"
      using l(3) sh [of "[]"] by simp
    show "distinct (as @ bs)" "set (as @ bs) = set fs - {b}" using heap_okD(9) [OF assms(1)] by (auto simp: fs)
    fix e assume n: "e \<notin> set (lwp_heap_head h # fs @ [lwp_heap_tail h])"
    then have e: "e \<notin> set (us @ a # c # cs)" "e \<notin> set fs" using n [folded A_def, unfolded A(1)] by simp_all
    have "dlinks (((bnext h)(a := c))(e := c, a := e)) (((bprev h)(c := a))(e := a, c := e)) (us @ a # e # c # cs)"
      by (rule dlinks_insert [OF l(3) ds e(1)])
    moreover have "((bnext h)(a := c))(e := c, a := e) = (bnext h)(e := c, a := e)"
      "((bprev h)(c := a))(e := a, c := e) = (bprev h)(e := a, c := e)" by auto
    ultimately show "\<exists>gs. distinct gs \<and> set gs = insert e (set fs - {b}) \<and> e \<noteq> a \<and> e \<noteq> c \<and>
       dlinks ((bnext h)(e := c, a := e)) ((bprev h)(e := a, c := e)) (lwp_heap_head h # gs @ [lwp_heap_tail h])"
      using e heap_okD(9) [OF assms(1)] sh [of "[e]"] by (intro exI [of _ "as @ e # bs"]) (auto simp: fs)
  qed
qed

lemma faddrs_others:
  assumes ok: "heap_ok h (xs @ ms @ ys) fs" and p: "p = unat (h_start h) + tsum xs" and x: "p \<le> x" "x < p + tsum ms"
  shows "of_nat x \<notin> (of_nat :: nat \<Rightarrow> u32) ` (set (faddrs (unat (h_start h)) xs) \<union> set (faddrs (p + tsum ms) ys))"
proof -
  let ?a = "unat (h_start h)"
  have seg: "tseg (hbk h) (hfr h) ?a 1 xs" "tseg (hbk h) (hfr h) (p + tsum ms) (lflag (lflag 1 xs) ms) ys"
    using heap_okD(4) [OF ok] by (auto simp: tiled_def p add.assoc)
  have "x \<notin> set (faddrs ?a xs) \<union> set (faddrs (p + tsum ms) ys)" "set (faddrs ?a xs) \<union> set (faddrs (p + tsum ms) ys) \<subseteq> {..< 2 ^ 32}"
    using faddrs_range [OF seg(1)] faddrs_range [OF seg(2)] x heap_okD(2) [OF ok] p by fastforce+
  moreover have "x < 2 ^ 32" using x(2) heap_okD(2) [OF ok] p by simp
  ultimately show ?thesis using of_nat_eq32 [of x] by (auto simp: image_iff)
qed

lemma heap_take_whole:
  assumes ok: "heap_ok h (xs @ (n, False) # ys) fs" and p: "p = unat (h_start h) + tsum xs"
    and D: "D \<le> n" and small: "\<not> unat (pg_size h) + 8 < n - D"
    and r: "heap_take (of_nat D) (of_nat p) h = (q, h')"
  shows "q = of_nat (p + 8) \<and> (\<exists>fs'. heap_ok h' (xs @ (n, True) # ys) fs') \<and>
    word_at h' = word_at h \<and> pg_size h' = pg_size h \<and> h_start h' = h_start h"
proof -
  note t = heap_tile [OF ok p]
  have n: "n < 2 ^ 32" "p + n < 2 ^ 32" "p < 2 ^ 32" "n - D < 2 ^ 32" using t(1) by auto
  have tn: "tile_ok (n, True)" "tsum [(n, False)] = n" using t(4) by (simp_all add: tile_ok_def)
  have fr: "bfront h (of_nat p) = of_nat n" using t(2) tflag_even(3) [OF t(4)] n by simp
  have mask: "(of_nat n :: u32) AND NOT 1 = of_nat n" using tflag_even(1,3) [OF t(4)] n by simp
  have sub: "(of_nat n :: u32) - of_nat D = of_nat (n - D)" using D by (simp add: of_nat_diff)
  have gt: "\<not> pg_size h + 8 < (of_nat (n - D) :: u32)"
    unfolding word_less_nat_alt unat_of_nat32 [OF n(4)] using small heap_okD(7) [OF ok] by (simp add: unat_plus_if')
  have fl: "lwp_heap_buildflag (of_nat n) 1 = tflag (n, True)" by (simp add: lwp_heap_buildflag_def tflag_def)
  have "of_nat p \<in> set fs" using heap_okD(10) [OF ok] p by auto
  then obtain a c fs' where l: "bnext h (of_nat p) = c" "bprev h (of_nat p) = a" "c \<noteq> of_nat p"
    "dlinks ((bnext h)(a := c)) ((bprev h)(c := a)) (lwp_heap_head h # fs' @ [lwp_heap_tail h])"
    "distinct fs'" "set fs' = set fs - {of_nat p}" using heap_unlink [OF ok] by metis
  have q: "q = of_nat p + 8" and h': "h' = set_hnext a c (set_hprev c a (set_front (of_nat p) (tflag (n, True))
      (set_back (of_nat (p + n)) (tflag (n, True)) h)))"
    using r gt by (simp_all only: heap_take_def fr sub if_False Let_def lwp_heap_nextblock_def lwp_heap_startuser_def
        heap_get_set heap_glob_set fun_upd_same fun_upd_other [OF l(3) [symmetric]] mask fl l(1,2) prod.inject of_nat_add)
  have v: "hbk h' = (hbk h)(p + n := tflag (n, True))" "hfr h' = (hfr h)(p := tflag (n, True))"
    by (simp_all only: h' hbk_set hfr_set hbk_set(1) [OF n(2)] hfr_set(1) [OF n(3)])
  have "tiled (hbk h') (hfr h') (unat (h_start h)) 1 (xs @ (n, True) # ys)"
    unfolding v using tiled_merge [of "hbk h" "hfr h" _ 1 xs "[(n, False)]" ys True, OF _ _ _ p refl] heap_okD(4) [OF ok] tn by simp
  moreover have "no_adjacent (xs @ (n, True) # ys)" using heap_okD(5) [OF ok] by (auto simp: no_adjacent_mid no_adjacent_Cons)
  moreover have "set fs' = of_nat ` set (faddrs (unat (h_start h)) (xs @ (n, True) # ys))"
    using faddrs_others [of h xs "[(n, False)]" ys fs p p] ok p tn heap_okD(10) [OF ok] l(6)
    by (auto simp: tile_ok_def add.assoc)
  ultimately have "heap_ok h' (xs @ (n, True) # ys) fs'"
    using l(4,5) by (intro heap_ok_update [OF ok]) (auto simp: h')
  then show ?thesis using q by (auto simp: h')
qed

end
