(* ===== verification/HeapAlloc.thy ===== *)
theory HeapAlloc
  imports HeapOps
begin

text \<open>
  Allocation seen by a caller. \<open>owned h p lo hi\<close> says that the user pointer \<open>p\<close> belongs to the used
  block from \<open>lo\<close> to \<open>hi\<close> and that the word before it leads back to the block, which is what
  \<^verbatim>\<open>__lwp_heap_free\<close> relies on.
\<close>

section \<open>The used blocks\<close>

fun uaddrs :: "nat \<Rightarrow> tile list \<Rightarrow> (nat \<times> nat) list" where
  "uaddrs a [] = []"
| "uaddrs a (t # ts) = (if snd t then (a, a + fst t) # uaddrs (a + fst t) ts else uaddrs (a + fst t) ts)"

lemma uaddrs_append [simp]: "uaddrs a (xs @ ys) = uaddrs a xs @ uaddrs (a + tsum xs) ys"
  by (induction xs arbitrary: a) (auto simp: add.assoc)

lemma uaddrs_range:
  "tseg bk fr a f ts \<Longrightarrow> (l, u) \<in> set (uaddrs a ts) \<Longrightarrow> a \<le> l \<and> l + 16 \<le> u \<and> u \<le> a + tsum ts"
proof (induction ts arbitrary: a f)
  case (Cons t ts)
  then show ?case using Cons.IH [of "a + fst t" "tflag t"] by (fastforce simp: tile_ok_def split: if_splits)
qed simp

lemma uaddrs_disjoint:
  "tseg bk fr a f ts \<Longrightarrow> (l, u) \<in> set (uaddrs a ts) \<Longrightarrow> (l', u') \<in> set (uaddrs a ts) \<Longrightarrow>
   (l, u) = (l', u') \<or> u \<le> l' \<or> u' \<le> l"
proof (induction ts arbitrary: a f)
  case (Cons t ts)
  note r = uaddrs_range [of bk fr "a + fst t" "tflag t" ts]
  show ?case
    using Cons.prems Cons.IH [of "a + fst t" "tflag t"] r [of l u] r [of l' u'] by (auto split: if_splits)
qed simp

lemma uaddr_tile: "(l, u) \<in> set (uaddrs a ts) \<Longrightarrow> \<exists>xs n ys. ts = xs @ (n, True) # ys \<and> l = a + tsum xs \<and> u = l + n"
proof (induction ts arbitrary: a)
  case (Cons t ts)
  then consider "snd t" "l = a" "u = a + fst t" | "(l, u) \<in> set (uaddrs (a + fst t) ts)" by (auto split: if_splits)
  then show ?case
  proof cases
    case 1
    then show ?thesis by (intro exI [of _ "[]"] exI [of _ "fst t"] exI [of _ ts]) (cases t; simp)
  next
    case 2
    then obtain xs n ys where "ts = xs @ (n, True) # ys" "l = a + fst t + tsum xs" "u = l + n" using Cons.IH by blast
    then show ?thesis by (intro exI [of _ "t # xs"] exI [of _ n] exI [of _ ys]) simp
  qed
qed simp

text \<open>The headers determine the tiles.\<close>

lemma tflag_inj: "tile_ok t \<Longrightarrow> tile_ok u \<Longrightarrow> fst t < 2 ^ 32 \<Longrightarrow> fst u < 2 ^ 32 \<Longrightarrow> tflag t = tflag u \<Longrightarrow> t = u"
  using tflag_even(1,2) [of t] tflag_even(1,2) [of u] of_nat_eq32 [of "fst t" "fst u"]
  by (cases t; cases u) (auto split: if_splits)

lemma tiled_unique:
  "tiled bk fr a f ts \<Longrightarrow> tiled bk fr a f' us \<Longrightarrow> a + tsum ts < 2 ^ 32 \<Longrightarrow> a + tsum us < 2 ^ 32 \<Longrightarrow> ts = us"
proof (induction ts arbitrary: a f f' us)
  case Nil
  then show ?case using tflag_even(4) by (cases us) (auto simp: tiled_simps)
next
  case (Cons t ts)
  show ?case
  proof (cases us)
    case Nil
    then show ?thesis using Cons.prems tflag_even(4) [of t] by (auto simp: tiled_simps)
  next
    case (Cons u us')
    then have "t = u" using Cons.prems by (intro tflag_inj) (auto simp: tiled_simps)
    then show ?thesis using Cons.IH [of "a + fst t" "tflag t" "tflag t" us'] Cons.prems Cons by (auto simp: tiled_simps)
  qed
qed

lemma heap_ok_unique: "heap_ok h ts fs \<Longrightarrow> heap_ok h us gs \<Longrightarrow> ts = us"
  using heap_okD(2,4) [of h ts fs] heap_okD(2,4) [of h us gs] by (auto intro: tiled_unique)

definition owned :: "heap_cntrl \<Rightarrow> ptr \<Rightarrow> nat \<Rightarrow> nat \<Rightarrow> bool" where
  "owned h p lo hi \<longleftrightarrow> (\<exists>ts fs. heap_ok h ts fs \<and> (lo, hi) \<in> set (uaddrs (unat (h_start h)) ts)) \<and>
     lo + 16 \<le> unat p \<and> unat p \<le> hi \<and> word_at h (p - 4) = p - of_nat lo - 8"

lemma owned_iff: "heap_ok h ts fs \<Longrightarrow> owned h p lo hi \<longleftrightarrow> (lo, hi) \<in> set (uaddrs (unat (h_start h)) ts) \<and>
     lo + 16 \<le> unat p \<and> unat p \<le> hi \<and> word_at h (p - 4) = p - of_nat lo - 8"
  using heap_ok_unique by (fastforce simp: owned_def)

section \<open>The size of a request\<close>

definition block_req :: "nat \<Rightarrow> nat \<Rightarrow> nat" where
  "block_req pg n = (if n mod pg = 0 then n else n + (pg - n mod pg)) + pg + 8"

lemma req_bounds: "0 < pg \<Longrightarrow> n + pg + 8 \<le> block_req pg n \<and> block_req pg n < n + 2 * pg + 8"
proof -
  assume "0 < pg"
  then have "n mod pg < pg" by simp
  then show ?thesis unfolding block_req_def by auto
qed

lemma req_dvd: assumes "8 dvd pg" "8 \<le> pg" shows "8 dvd block_req pg n" "16 \<le> block_req pg n"
proof -
  have "n + (pg - n mod pg) = (n div pg) * pg + pg" 
    using assms(2) mod_less_divisor [of pg n] div_mult_mod_eq [of n pg] by linarith
  moreover have "n mod pg = 0 \<Longrightarrow> n = (n div pg) * pg" using div_mult_mod_eq [of n pg] by simp
  ultimately show "8 dvd block_req pg n" using assms(1) unfolding block_req_def by (metis dvd_add dvd_mult dvd_refl)
  show "16 \<le> block_req pg n" using assms(2) by (simp add: block_req_def)
qed

lemma heap_dsize_req:
  assumes "lwp_heap_pgsize_valid pg" "unat s + 2 * unat pg + 8 \<le> 2 ^ 32"
  shows "heap_dsize pg s = of_nat (block_req (unat pg) (unat s))" "block_req (unat pg) (unat s) < 2 ^ 32"
proof -
  note g = pgsize_ge [OF assms(1)]
  let ?r = "block_req (unat pg) (unat s)"
  show lt: "?r < 2 ^ 32" using req_bounds [of "unat pg" "unat s"] assms(2) g by simp
  have m: "s mod pg = of_nat (unat s mod unat pg)" by (simp flip: unat_mod)
  have mlt: "unat s mod unat pg < unat pg" using g by simp
  have e: "s mod pg \<noteq> 0 \<longleftrightarrow> unat s mod unat pg \<noteq> 0" by (simp add: unat_eq_zero flip: unat_mod)
  have d: "pg - s mod pg = of_nat (unat pg - unat s mod unat pg)" using mlt by (simp add: m of_nat_diff)
  have r: "(if s mod pg \<noteq> 0 then s + pg + 8 + (pg - s mod pg) else s + pg + 8) = of_nat ?r"
  proof (cases "unat s mod unat pg = 0")
    case True
    then show ?thesis using e by (simp add: block_req_def)
  next
    case False
    then show ?thesis using e unfolding d by (simp add: block_req_def)
  qed
  have "\<not> of_nat ?r < (16 :: u32)"
    using req_dvd(2) [of "unat pg" "unat s"] g by (simp add: word_less_nat_alt unat_of_nat32 [OF lt])
  then show "heap_dsize pg s = of_nat ?r" unfolding heap_dsize_def Let_def r by simp
qed

section \<open>Allocation\<close>

lemma heap_offset:
  assumes "lwp_heap_pgsize_valid pg" "8 dvd unat q" "off = pg - (q AND (pg - 1))"
  shows "8 \<le> unat off" "unat off \<le> unat pg"
proof -
  note g = pgsize_ge [OF assms(1)]
  let ?m = "q AND (pg - 1)"
  have "unat (pg - 1) = unat pg - 1" using assms(1) by (intro unat_minus_one) (simp add: lwp_heap_pgsize_valid_def)
  then have m: "unat ?m < unat pg" using word_and_le2 [of "pg - 1" q] word_and_le1 [of q "pg - 1"] g
    by (auto simp: word_le_nat_alt and.commute)
  have "take_bit 3 (unat q) = 0" using assms(2) by (simp add: take_bit_eq_mod dvd_eq_mod_eq_0)
  then have "take_bit 3 (unat ?m) = 0" by (simp add: unsigned_and_eq)
  then have "8 dvd unat ?m" by (simp add: take_bit_eq_mod dvd_eq_mod_eq_0)
  then have "8 dvd unat pg - unat ?m" using g by (simp add: dvd_diff_nat)
  moreover have o: "unat off = unat pg - unat ?m" using m unfolding assms(3) by (intro unat_sub) (simp add: word_le_nat_alt)
  ultimately show "8 \<le> unat off" "unat off \<le> unat pg" using m by (auto dest: dvd_imp_le)
qed

text \<open>The block a request takes from the free block at \<open>lo\<close>, as tiles.\<close>

definition take_tiles :: "nat \<Rightarrow> nat \<Rightarrow> tile list \<Rightarrow> nat \<Rightarrow> tile list \<Rightarrow> tile list" where
  "take_tiles pg D xs n ys =
     (if pg + 8 < n - D then xs @ (n - D, False) # (D, True) # ys else xs @ (n, True) # ys)"

lemma heap_take_ok:
  assumes ok: "heap_ok h (xs @ (n, False) # ys) fs" and p: "p = unat (h_start h) + tsum xs"
    and D: "8 dvd D" "16 \<le> D" "D \<le> n" and r: "heap_take (of_nat D) (of_nat p) h = (q, h')"
  shows "\<exists>lo fs'. q = of_nat (lo + 8) \<and> lo = (if unat (pg_size h) + 8 < n - D then p + (n - D) else p) \<and> lo + D \<le> p + n \<and> 8 dvd lo \<and>
    heap_ok h' (take_tiles (unat (pg_size h)) D xs n ys) fs' \<and>
    set (uaddrs (unat (h_start h)) (take_tiles (unat (pg_size h)) D xs n ys)) =
      insert (lo, p + n) (set (uaddrs (unat (h_start h)) (xs @ (n, False) # ys))) \<and>
    word_at h' = word_at h \<and> pg_size h' = pg_size h \<and> h_start h' = h_start h"
proof -
  have "tseg (hbk h) (hfr h) (unat (h_start h)) 1 xs" using heap_okD(4) [OF ok] by (simp add: tiled_def)
  then have "8 dvd tsum xs" by (induction xs arbitrary: rule: rev_induct) (auto simp: tile_ok_def)
  then have d8: "8 dvd p" "8 dvd n" using heap_okD(1) [OF ok] heap_tile(4) [OF ok p] by (auto simp: p tile_ok_def)
  show ?thesis
  proof (cases "unat (pg_size h) + 8 < n - D")
    case True
    have "8 dvd p + (n - D)" using d8 D by (intro dvd_add dvd_diff_nat)
    then have "8 dvd unat (h_start h) + (tsum xs + n) - D" using D(3) by (simp add: p add.assoc)
    then show ?thesis
      by (intro exI [of _ "p + (n - D)"] exI [of _ fs])
        (use heap_take_split [OF ok p D True r] D d8 True in \<open>auto simp: take_tiles_def p add.assoc\<close>)
  next
    case False
    then obtain fs' where "q = of_nat (p + 8)" "heap_ok h' (xs @ (n, True) # ys) fs'" "word_at h' = word_at h"
      "pg_size h' = pg_size h" "h_start h' = h_start h" using heap_take_whole [OF ok p D(3) False r] by blast
    then show ?thesis by (intro exI [of _ p] exI [of _ fs']) (use D d8 False in \<open>auto simp: take_tiles_def p add.assoc\<close>)
  qed
qed

lemma heap_ok_word [simp]: "heap_ok (h\<lparr>word_at := w\<rparr>) ts fs = heap_ok h ts fs"
  by (simp add: heap_ok_def Let_def lwp_heap_head_def lwp_heap_tail_def)

text \<open>The region a caller gets lies behind the header of its block and ends before the next block.\<close>

lemma user_in_block:
  assumes "lwp_heap_pgsize_valid pg" "8 dvd lo" "block_req (unat pg) (unat s) \<le> hi - lo" "lo < hi" "hi < 2 ^ 32"
    "q = of_nat (lo + 8)" "off = pg - (q AND (pg - 1))"
  shows "unat (q + off) = lo + 8 + unat off \<and> lo + 16 \<le> unat (q + off) \<and> unat (q + off) + unat s \<le> hi \<and> off = q + off - of_nat lo - 8"
proof -
  note g = pgsize_ge [OF assms(1)]
  have s: "unat s + unat pg + 8 \<le> hi - lo" using req_bounds [of "unat pg" "unat s"] assms(3) g by simp
  have q: "unat q = lo + 8" unfolding assms(6) using s g assms(5) by (intro unat_of_nat32) simp
  then have "8 dvd unat q" using assms(2) by simp
  note o = heap_offset [OF assms(1) this assms(7)]
  have u: "unat (q + off) = lo + 8 + unat off" using q o s assms(5) g by (simp add: unat_plus_if')
  have "off = q + off - of_nat lo - 8" by (simp add: assms(6))
  then show ?thesis using u o s q by simp
qed

lemma heap_allocate_run:
  assumes ok: "heap_ok h ts fs" and s: "unat s + 2 * unat (pg_size h) + 8 \<le> 2 ^ 32"
  shows "lwp_heap_allocate s h = (case find (\<lambda>b. of_nat (block_req (unat (pg_size h)) (unat s)) \<le> bfront h b) fs of
       None \<Rightarrow> Some (NULL, h)
     | Some b \<Rightarrow> let (p, h1) = heap_take (of_nat (block_req (unat (pg_size h)) (unat s))) b h;
                    off = pg_size h - (p AND (pg_size h - 1)); p1 = p + off
                in Some (p1, h1\<lparr>word_at := (word_at h1)(p1 - 4 := off)\<rparr>))"
proof -
  have "unat s + 24 \<le> 2 ^ 32" using s pgsize_ge [OF heap_okD(6) [OF ok]] by simp
  then have "\<not> s \<ge> - 1 - HEAP_BLOCK_USED_OVERHEAD" by (simp add: word_le_nat_alt)
  moreover have "heap_search h d (bnext h (lwp_heap_head h)) = Some (find (\<lambda>b. d \<le> bfront h b) fs)" for d
    using heap_search_links [OF heap_okD(8) [OF ok]] heap_chain_distinct(1) [OF ok] by auto
  ultimately show ?thesis
    by (simp add: lwp_heap_allocate_def heap_dsize_req [OF heap_okD(6) [OF ok] s] Let_def split: option.split)
qed

lemma free_not_used:
  assumes "heap_ok h (xs @ (n, False) # ys) fs" "p = unat (h_start h) + tsum xs"
    "(l, u) \<in> set (uaddrs (unat (h_start h)) (xs @ (n, False) # ys))"
  shows "u \<noteq> p + n"
proof -
  have seg: "tseg (hbk h) (hfr h) (unat (h_start h)) 1 xs" "tseg (hbk h) (hfr h) (p + n) (tflag (n, False)) ys"
    using heap_okD(4) [OF assms(1)] by (auto simp: tiled_def assms(2) add.assoc)
  have "16 \<le> n" using heap_tile(4) [OF assms(1,2)] by (simp add: tile_ok_def)
  then show ?thesis using assms(3) uaddrs_range [OF seg(1), of l u] uaddrs_range [OF seg(2), of l u]
    by (auto simp: assms(2) add.assoc)
qed

lemma free_block_fits:
  assumes ok: "heap_ok h ts fs" and "(m, False) \<in> set ts" "D \<le> m" "D < 2 ^ 32"
  shows "\<exists>b \<in> set fs. of_nat D \<le> bfront h b"
proof -
  obtain xs ys where t: "ts = xs @ (m, False) # ys" using assms(2) by (meson split_list)
  let ?p = "unat (h_start h) + tsum xs"
  note k = heap_tile [OF ok [unfolded t] refl]
  have "of_nat ?p \<in> set fs" using heap_okD(10) [OF ok] t by auto
  moreover have "bfront h (of_nat ?p) = of_nat m" using k(1,2) tflag_even(3) [OF k(4)] by simp
  moreover have "(of_nat D :: u32) \<le> of_nat m" using assms(3,4) k(1) by (simp add: word_le_nat_alt unat_of_nat32)
  ultimately show ?thesis by metis
qed

lemma heap_allocate_none:
  assumes ok: "heap_ok h ts fs" and s: "unat s + 2 * unat (pg_size h) + 8 \<le> 2 ^ 32"
    and no: "\<And>n. (n, False) \<in> set ts \<Longrightarrow> n < block_req (unat (pg_size h)) (unat s)"
  shows "lwp_heap_allocate s h = Some (NULL, h)"
proof -
  note D = heap_dsize_req(2) [OF heap_okD(6) [OF ok] s]
  have "\<not> of_nat (block_req (unat (pg_size h)) (unat s)) \<le> bfront h f" if "f \<in> set fs" for f
    using free_block_tile [OF ok that] no D by (fastforce simp: word_le_nat_alt unat_of_nat32 not_le)
  then have "find (\<lambda>b. of_nat (block_req (unat (pg_size h)) (unat s)) \<le> bfront h b) fs = None" by (auto simp: find_None_iff)
  then show ?thesis by (simp add: heap_allocate_run [OF ok s])
qed

lemma heap_allocate_ok:
  assumes ok: "heap_ok h ts fs" and s: "unat s + 2 * unat (pg_size h) + 8 \<le> 2 ^ 32"
    and fit: "(m, False) \<in> set ts" "block_req (unat (pg_size h)) (unat s) \<le> m"
  shows "\<exists>p h' xs n ys fs' lo hi. lwp_heap_allocate s h = Some (p, h') \<and> ts = xs @ (n, False) # ys \<and> block_req (unat (pg_size h)) (unat s) \<le> n \<and>
    heap_ok h' (take_tiles (unat (pg_size h)) (block_req (unat (pg_size h)) (unat s)) xs n ys) fs' \<and>
    lo = (if unat (pg_size h) + 8 < n - block_req (unat (pg_size h)) (unat s)
          then unat (h_start h) + tsum xs + (n - block_req (unat (pg_size h)) (unat s)) else unat (h_start h) + tsum xs) \<and>
    owned h' p lo hi \<and> unat p + unat s \<le> hi \<and> pg_size h' = pg_size h \<and> h_start h' = h_start h \<and>
    (lo, hi) \<notin> set (uaddrs (unat (h_start h)) ts) \<and>
    set (uaddrs (unat (h_start h)) (take_tiles (unat (pg_size h)) (block_req (unat (pg_size h)) (unat s)) xs n ys)) =
      insert (lo, hi) (set (uaddrs (unat (h_start h)) ts)) \<and>
    (\<forall>q l u. owned h q l u \<longrightarrow> owned h' q l u \<and> (u \<le> lo \<or> hi \<le> l))"
proof -
  let ?pg = "unat (pg_size h)" and ?D = "block_req (unat (pg_size h)) (unat s)" and ?a = "unat (h_start h)"
  note pv = heap_okD(6) [OF ok]
  have D: "8 dvd ?D" "16 \<le> ?D" "?D < 2 ^ 32" using pgsize_ge [OF pv] req_dvd heap_dsize_req(2) [OF pv s] by auto
  obtain b where b: "find (\<lambda>b. of_nat ?D \<le> bfront h b) fs = Some b"
    using free_block_fits [OF ok fit D(3)] by (metis (no_types, lifting) find_None_iff not_None_eq)
  then have bf: "b \<in> set fs" "of_nat ?D \<le> bfront h b" by (auto simp: find_Some_iff)
  obtain xs n ys where t: "ts = xs @ (n, False) # ys" "b = of_nat (?a + tsum xs)" "bfront h b = of_nat n" "n < 2 ^ 32"
    using free_block_tile [OF ok bf(1)] by blast
  have Dn: "?D \<le> n" using bf(2) D(3) t(4) unfolding t(3) by (simp add: word_le_nat_alt unat_of_nat32)
  define e where "e = ?a + tsum xs + n"
  have e: "e + 16 \<le> 2 ^ 32" using heap_tile(1) [OF ok [unfolded t(1)] refl] by (simp add: e_def)
  obtain q h1 where k: "heap_take (of_nat ?D) b h = (q, h1)" by fastforce
  obtain lo fs' where l: "q = of_nat (lo + 8)" "lo = (if ?pg + 8 < n - ?D then ?a + tsum xs + (n - ?D) else ?a + tsum xs)" "lo + ?D \<le> e" "8 dvd lo"
    "heap_ok h1 (take_tiles ?pg ?D xs n ys) fs'"
    "set (uaddrs ?a (take_tiles ?pg ?D xs n ys)) = insert (lo, e) (set (uaddrs ?a ts))"
    "word_at h1 = word_at h" "pg_size h1 = pg_size h" "h_start h1 = h_start h"
    using heap_take_ok [OF ok [unfolded t(1)] refl D(1,2) Dn k [unfolded t(2)]] unfolding t(1) e_def by blast
  define off where "off = pg_size h - (q AND (pg_size h - 1))"
  define p h' where h': "p = q + off" "h' = h1\<lparr>word_at := (word_at h1)(p - 4 := off)\<rparr>"
  have r: "lwp_heap_allocate s h = Some (p, h')"
    unfolding heap_allocate_run [OF ok s] b by (simp add: k off_def [symmetric] h' Let_def)
  have u: "unat p = lo + 8 + unat off" "lo + 16 \<le> unat p" "unat p + unat s \<le> e" "off = p - of_nat lo - 8"
  proof -
    have "?D \<le> e - lo" "lo < e" "e < 2 ^ 32" using l(3) e D(2) by auto
    from user_in_block [OF pv l(4) this l(1) off_def] show
      "unat p = lo + 8 + unat off" "lo + 16 \<le> unat p" "unat p + unat s \<le> e" "off = p - of_nat lo - 8" by (simp_all add: h'(1))
  qed
  have seg: "tseg (hbk h1) (hfr h1) ?a 1 (take_tiles ?pg ?D xs n ys)" using heap_okD(4) [OF l(5)] by (simp add: tiled_def l(9))
  have ok': "heap_ok h' (take_tiles ?pg ?D xs n ys) fs'" using l(5) by (simp add: h'(2))
  have "owned h' p lo e" unfolding owned_iff [OF ok'] using u l(6,9) by (simp add: h'(2))
  moreover have new: "(lo, e) \<notin> set (uaddrs ?a ts)" using free_not_used [OF ok [unfolded t(1)] refl, of lo e] unfolding t(1) e_def by auto
  moreover have "owned h' z i j \<and> (j \<le> lo \<or> e \<le> i)" if z: "owned h z i j" for z i j
  proof -
    note zi = z [unfolded owned_iff [OF ok]]
    have m: "(i, j) \<in> set (uaddrs ?a (take_tiles ?pg ?D xs n ys))" "(lo, e) \<in> set (uaddrs ?a (take_tiles ?pg ?D xs n ys))"
      using zi l(6) by auto
    have "(i, j) \<noteq> (lo, e)" using new zi by auto
    then have dj: "j \<le> lo \<or> e \<le> i" using uaddrs_disjoint [OF seg m] by auto
    then have "z \<noteq> p" using zi u by auto
    then show ?thesis unfolding owned_iff [OF ok'] using zi m dj l(7,9) by (auto simp: h'(2))
  qed
  ultimately show ?thesis using r t(1) Dn ok' u(3) l(2,6,8,9)
    by (intro exI [of _ p] exI [of _ h'] exI [of _ xs] exI [of _ n] exI [of _ ys] exI [of _ fs'] exI [of _ lo] exI [of _ e]) (simp add: h'(2))
qed

end
