(* ===== verification/HeapFree.thy ===== *)
theory HeapFree
  imports HeapAlloc
begin

text \<open>Giving blocks back: coalescing with the free neighbours keeps the invariant, and nothing else changes owner.\<close>

section \<open>Merging tiles\<close>

lemma tseg_tsum: "tseg bk fr a f ms \<Longrightarrow> ms \<noteq> [] \<Longrightarrow> tile_ok (tsum ms, v)"
proof (induction ms arbitrary: a f)
  case (Cons t ms)
  then show ?case by (cases "ms = []") (auto simp: tile_ok_def)
qed simp

lemma heap_merge:
  assumes ok: "heap_ok h (xs @ ms @ ys) fs" and ms: "ms \<noteq> []" and p: "p = unat (h_start h) + tsum xs" and F: "F = of_nat (tsum ms)"
    and nb: "xs \<noteq> [] \<Longrightarrow> snd (last xs)" "ys \<noteq> [] \<Longrightarrow> snd (hd ys)"
    and h': "hbk h' = (hbk h)(p + tsum ms := F)" "hfr h' = (hfr h)(p := F)"
      "h_start h' = h_start h" "h_final h' = h_final h" "hc h' = hc h" "pg_size h' = pg_size h"
    and l: "dlinks (bnext h') (bprev h') (lwp_heap_head h # fs' @ [lwp_heap_tail h])" "distinct fs'"
      "set fs' = insert (of_nat p) (set fs - of_nat ` set (faddrs p ms))"
  shows "heap_ok h' (xs @ (tsum ms, False) # ys) fs'"
proof -
  have seg: "tseg (hbk h) (hfr h) p (lflag 1 xs) ms" using heap_okD(4) [OF ok] by (simp add: tiled_simps tiled_def p)
  have F': "F = tflag (tsum ms, False)" by (simp add: F tflag_def)
  have "tiled (hbk h') (hfr h') (unat (h_start h)) 1 (xs @ (tsum ms, False) # ys)"
    unfolding h'(1,2) by (rule tiled_merge [OF heap_okD(4) [OF ok] ms tseg_tsum [OF seg ms] p F'])
  moreover have "no_adjacent (xs @ (tsum ms, False) # ys)"
  proof -
    obtain m ms' where m: "ms = m # ms'" using ms by (cases ms) auto
    have "no_adjacent xs" using heap_okD(5) [OF ok] by (simp add: m no_adjacent_mid)
    moreover have "no_adjacent ys"
    proof (cases ys)
      case (Cons y ys')
      then show ?thesis using heap_okD(5) [OF ok] no_adjacent_mid [of "xs @ ms" y ys'] by simp
    qed simp
    ultimately show ?thesis using nb by (auto simp: no_adjacent_mid no_adjacent_Cons)
  qed
  moreover have "set fs' = of_nat ` set (faddrs (unat (h_start h)) (xs @ (tsum ms, False) # ys))"
  proof -
    have "of_nat ` set (faddrs p ms) \<inter> (of_nat :: nat \<Rightarrow> u32) ` (set (faddrs (unat (h_start h)) xs) \<union> set (faddrs (p + tsum ms) ys)) = {}"
      using faddrs_others [OF ok p] faddrs_range [OF seg] by auto
    then show ?thesis unfolding l(3) heap_okD(10) [OF ok] by (auto simp: p add.assoc)
  qed
  ultimately show ?thesis using h'(3-6) l(1,2) by (intro heap_ok_update [OF ok]) auto
qed

section \<open>The four cases\<close>

lemma free_front:
  assumes "heap_ok h (xs @ (n, False) # ys) fs" "p = unat (h_start h) + tsum xs"
  shows "bfront h (of_nat p) = of_nat n" "of_nat p \<in> set fs"
proof -
  note t = heap_tile [OF assms]
  show "bfront h (of_nat p) = of_nat n" using t(1,2) tflag_even(3) [OF t(4)] by simp
  show "of_nat p \<in> set fs" using heap_okD(10) [OF assms(1)] assms(2) by auto
qed

lemma even_mask: "8 dvd n \<Longrightarrow> (of_nat n :: u32) AND NOT 1 = of_nat n"
proof -
  assume "8 dvd n"
  then have "even n" by (metis dvd_trans even_numeral)
  then have "\<not> bit n 0" by (simp add: bit_0)
  then show ?thesis by (intro bit_word_eqI) (auto simp: bit_simps, metis gr0I)
qed

lemma free_globs:
  "h_start (free_both pb nb d h) = h_start h" "h_final (free_both pb nb d h) = h_final h" "hc (free_both pb nb d h) = hc h"
  "pg_size (free_both pb nb d h) = pg_size h" "word_at (free_both pb nb d h) = word_at h"
  "h_start (free_prev pb nb d h) = h_start h" "h_final (free_prev pb nb d h) = h_final h" "hc (free_prev pb nb d h) = hc h"
  "pg_size (free_prev pb nb d h) = pg_size h" "word_at (free_prev pb nb d h) = word_at h"
  "h_start (free_next pb nb d h) = h_start h" "h_final (free_next pb nb d h) = h_final h" "hc (free_next pb nb d h) = hc h"
  "pg_size (free_next pb nb d h) = pg_size h" "word_at (free_next pb nb d h) = word_at h"
  "h_start (free_none pb nb d h) = h_start h" "h_final (free_none pb nb d h) = h_final h" "hc (free_none pb nb d h) = hc h"
  "pg_size (free_none pb nb d h) = pg_size h" "word_at (free_none pb nb d h) = word_at h"
  by (simp_all add: free_both_def free_prev_def free_next_def free_none_def Let_def)

lemma free_both_ok:
  assumes ok: "heap_ok h (xs @ (m, False) # (n, True) # (k, False) # ys) fs" and p: "p = unat (h_start h) + tsum xs"
  shows "\<exists>fs'. heap_ok (free_both (of_nat p) (of_nat (p + m + n)) (of_nat n) h) (xs @ (m + n + k, False) # ys) fs'"
proof -
  let ?ms = "[(m, False), (n, True), (k, False)]" and ?F = "of_nat (m + n + k) :: u32" and ?nb = "of_nat (p + m + n) :: ptr"
  have ok3: "heap_ok h (xs @ ?ms @ ys) fs" using ok by simp
  have seg: "tseg (hbk h) (hfr h) p (lflag 1 xs) ?ms" using heap_okD(4) [OF ok] by (simp add: tiled_simps tiled_def p)
  have t3: "tile_ok (m + n + k, False)" using tseg_tsum [OF seg, of False] by (simp add: add.assoc)
  have b: "p + (m + n + k) < 2 ^ 32" "p < 2 ^ 32" using heap_okD(2) [OF ok] p by auto
  note f = free_front [OF ok p]
    free_front [of h "xs @ [(m, False), (n, True)]" k ys fs "p + m + n"]
  have nb: "bfront h ?nb = of_nat k" "?nb \<in> set fs" using f(3,4) ok p by (simp_all add: add.assoc)
  obtain a c fs' where l: "bnext h ?nb = c" "bprev h ?nb = a" "c \<noteq> ?nb"
    "dlinks ((bnext h)(a := c)) ((bprev h)(c := a)) (lwp_heap_head h # fs' @ [lwp_heap_tail h])"
    "distinct fs'" "set fs' = set fs - {?nb}" using heap_unlink [OF ok nb(2)] by metis
  have sum: "of_nat m + (of_nat k + of_nat n) = ?F" and pn: "of_nat p + ?F = of_nat (p + (m + n + k))" by simp_all
  have mask: "?F AND NOT 1 = ?F" using t3 by (intro even_mask) (simp add: tile_ok_def)
  have h': "free_both (of_nat p) ?nb (of_nat n) h = set_hnext a c (set_hprev c a (set_back (of_nat (p + (m + n + k))) ?F (set_front (of_nat p) ?F h)))"
    by (simp only: free_both_def Let_def f(1) nb(1) sum lwp_heap_nextblock_def heap_get_set fun_upd_same mask l(1,2)
        fun_upd_other [OF l(3) [symmetric]] pn)
  have np: "?nb \<noteq> of_nat p" using of_nat_eq32 [of p "p + m + n"] b seg by (auto simp: tile_ok_def simp del: of_nat_add)
  have na: "xs \<noteq> [] \<Longrightarrow> snd (last xs)" "ys \<noteq> [] \<Longrightarrow> snd (hd ys)"
    using heap_okD(5) [OF ok] by (simp_all add: no_adjacent_mid no_adjacent_Cons)
  have v: "hbk (free_both (of_nat p) ?nb (of_nat n) h) = (hbk h)(p + tsum ?ms := ?F)"
    "hfr (free_both (of_nat p) ?nb (of_nat n) h) = (hfr h)(p := ?F)"
    "bnext (free_both (of_nat p) ?nb (of_nat n) h) = (bnext h)(a := c)"
    "bprev (free_both (of_nat p) ?nb (of_nat n) h) = (bprev h)(c := a)"
    unfolding h' hbk_set hfr_set hbk_set(1) [OF b(1)] hfr_set(1) [OF b(2)] by (simp_all add: add.assoc)
  have "set fs' = insert (of_nat p) (set fs - of_nat ` set (faddrs p ?ms))"
  proof -
    have "set (faddrs p ?ms) = {p, p + m + n}" by simp
    then show ?thesis unfolding l(6) using f(2) np by (simp only: image_insert image_empty) blast
  qed
  then have "heap_ok (free_both (of_nat p) ?nb (of_nat n) h) (xs @ (tsum ?ms, False) # ys) fs'"
    using l(4,5) by (intro heap_merge [OF ok3 _ p _ na v(1,2) free_globs(1-4)]) (simp_all only: v, simp_all add: add.assoc)
  then show ?thesis by (auto simp: add.assoc)
qed

lemma free_prev_ok:
  assumes ok: "heap_ok h (xs @ (m, False) # (n, True) # ys) fs" and p: "p = unat (h_start h) + tsum xs"
    and y: "ys \<noteq> [] \<Longrightarrow> snd (hd ys)"
  shows "heap_ok (free_prev (of_nat p) (of_nat (p + m + n)) (of_nat n) h) (xs @ (m + n, False) # ys) fs"
proof -
  let ?ms = "[(m, False), (n, True)]" and ?F = "of_nat (m + n) :: u32" and ?nb = "of_nat (p + m + n) :: ptr"
  have ok2: "heap_ok h (xs @ ?ms @ ys) fs" using ok by simp
  have b: "p + m + n < 2 ^ 32" "p < 2 ^ 32" using heap_okD(2) [OF ok] p by auto
  note f = free_front [OF ok p]
  have h': "free_prev (of_nat p) ?nb (of_nat n) h = set_front (of_nat p) ?F (set_back ?nb ?F h)"
    by (simp add: free_prev_def Let_def f(1))
  have v: "hbk (free_prev (of_nat p) ?nb (of_nat n) h) = (hbk h)(p + tsum ?ms := ?F)"
    "hfr (free_prev (of_nat p) ?nb (of_nat n) h) = (hfr h)(p := ?F)"
    "bnext (free_prev (of_nat p) ?nb (of_nat n) h) = bnext h" "bprev (free_prev (of_nat p) ?nb (of_nat n) h) = bprev h"
    unfolding h' hbk_set hfr_set hbk_set(1) [OF b(1)] hfr_set(1) [OF b(2)] by (simp_all add: add.assoc)
  have na: "xs \<noteq> [] \<Longrightarrow> snd (last xs)" using heap_okD(5) [OF ok] by (simp add: no_adjacent_mid)
  have "heap_ok (free_prev (of_nat p) ?nb (of_nat n) h) (xs @ (tsum ?ms, False) # ys) fs"
    using f(2) heap_okD(8,9) [OF ok]
    by (intro heap_merge [OF ok2 _ p _ na y v(1,2) free_globs(6-9)]) (simp_all only: v, auto)
  then show ?thesis by simp
qed

lemma free_none_ok:
  assumes ok: "heap_ok h (xs @ (n, True) # ys) fs" and p: "p = unat (h_start h) + tsum xs"
    and x: "xs \<noteq> [] \<Longrightarrow> snd (last xs)" and y: "ys \<noteq> [] \<Longrightarrow> snd (hd ys)"
  shows "heap_ok (free_none (of_nat p) (of_nat (p + n)) (of_nat n) h) (xs @ (n, False) # ys) (of_nat p # fs)"
proof -
  let ?ms = "[(n, True)]" and ?F = "of_nat n :: u32" and ?nb = "of_nat (p + n) :: ptr" and ?b = "of_nat p :: ptr"
  have ok1: "heap_ok h (xs @ ?ms @ ys) fs" using ok by simp
  note t = heap_tile [OF ok p]
  have b: "p + n < 2 ^ 32" "p < 2 ^ 32" using t(1) by auto
  have "0 < n" using t(4) by (simp add: tile_ok_def)
  then have "?b \<notin> set fs" using faddrs_others [OF ok1 p, of p] heap_okD(10) [OF ok] by (auto simp: p)
  then have bn: "?b \<notin> set (lwp_heap_head h # fs @ [lwp_heap_tail h])"
    using heap_sentinel [OF ok, of p] by (auto simp: p)
  obtain c cs where c: "fs @ [lwp_heap_tail h] = c # cs" by (cases "fs @ [lwp_heap_tail h]") auto
  have hd: "bnext h (lwp_heap_head h) = c" "?b \<noteq> lwp_heap_head h" "?b \<noteq> c" using heap_okD(8) [OF ok] bn c by auto
  have h': "free_none ?b ?nb (of_nat n) h =
      set_hprev c ?b (set_hnext (lwp_heap_head h) ?b (set_hnext ?b c (set_hprev ?b (lwp_heap_head h) (set_front ?b ?F (set_back ?nb ?F h)))))"
    using hd by (simp add: free_none_def Let_def lwp_heap_head_def)
  have v: "hbk (free_none ?b ?nb (of_nat n) h) = (hbk h)(p + tsum ?ms := ?F)"
    "hfr (free_none ?b ?nb (of_nat n) h) = (hfr h)(p := ?F)"
    "bnext (free_none ?b ?nb (of_nat n) h) = (bnext h)(?b := c, lwp_heap_head h := ?b)"
    "bprev (free_none ?b ?nb (of_nat n) h) = (bprev h)(?b := lwp_heap_head h, c := ?b)"
    unfolding h' hbk_set hfr_set hbk_set(1) [OF b(1)] hfr_set(1) [OF b(2)] by (simp_all add: add.assoc)
  have l: "dlinks (bnext (free_none ?b ?nb (of_nat n) h)) (bprev (free_none ?b ?nb (of_nat n) h)) (lwp_heap_head h # (?b # fs) @ [lwp_heap_tail h])"
    using dlinks_insert [of "bnext h" "bprev h" "[]" "lwp_heap_head h" c cs ?b] heap_okD(8) [OF ok] heap_chain_distinct(1) [OF ok] bn
    unfolding v append_Cons c append_Nil by blast
  have "heap_ok (free_none ?b ?nb (of_nat n) h) (xs @ (tsum ?ms, False) # ys) (?b # fs)"
    using \<open>?b \<notin> set fs\<close> heap_okD(9) [OF ok]
    by (intro heap_merge [OF ok1 _ p _ x y v(1,2) free_globs(16-19) l]) auto
  then show ?thesis by simp
qed

lemma free_next_ok:
  assumes ok: "heap_ok h (xs @ (n, True) # (k, False) # ys) fs" and p: "p = unat (h_start h) + tsum xs"
    and x: "xs \<noteq> [] \<Longrightarrow> snd (last xs)"
  shows "\<exists>fs'. heap_ok (free_next (of_nat p) (of_nat (p + n)) (of_nat n) h) (xs @ (n + k, False) # ys) fs'"
proof -
  let ?ms = "[(n, True), (k, False)]" and ?F = "of_nat (n + k) :: u32" and ?nb = "of_nat (p + n) :: ptr" and ?b = "of_nat p :: ptr"
  have ok2: "heap_ok h (xs @ ?ms @ ys) fs" using ok by simp
  have seg: "tseg (hbk h) (hfr h) p (lflag 1 xs) ?ms" using heap_okD(4) [OF ok] by (simp add: tiled_simps tiled_def p)
  have b: "p + (n + k) < 2 ^ 32" "p < 2 ^ 32" "p + n < 2 ^ 32" using heap_okD(2) [OF ok] p by auto
  have nb: "bfront h ?nb = of_nat k" "?nb \<in> set fs"
    using free_front [of h "xs @ [(n, True)]" k ys fs "p + n"] ok p by (simp_all add: add.assoc)
  have ne: "?b \<noteq> ?nb" using of_nat_eq32 [OF b(2,3)] seg by (auto simp: tile_ok_def simp del: of_nat_add)
  have "set fs = insert ?nb (of_nat ` (set (faddrs (unat (h_start h)) xs) \<union> set (faddrs (p + tsum ?ms) ys)))"
    unfolding heap_okD(10) [OF ok] by (auto simp: p add.assoc)
  then have "?b \<notin> set fs" using faddrs_others [OF ok2 p, of p] ne seg by (auto simp: tile_ok_def simp del: of_nat_add)
  then have bn: "?b \<notin> set (lwp_heap_head h # fs @ [lwp_heap_tail h])" using heap_sentinel [OF ok, of p] by (auto simp: p)
  obtain a c gs where l: "bnext h ?nb = c" "bprev h ?nb = a" "a \<noteq> ?nb" "c \<noteq> ?nb" "?b \<noteq> a" "?b \<noteq> c"
    "dlinks ((bnext h)(?b := c, a := ?b)) ((bprev h)(?b := a, c := ?b)) (lwp_heap_head h # gs @ [lwp_heap_tail h])"
    "distinct gs" "set gs = insert ?b (set fs - {?nb})" using heap_unlink [OF ok nb(2)] bn by metis
  have hd: "bnext h (lwp_heap_head h) = ?nb \<Longrightarrow> a = lwp_heap_head h"
    using heap_okD(8) [OF ok] l(2) by (cases "fs @ [lwp_heap_tail h]") auto
  have eq: "of_nat n + of_nat k = ?F" and pn: "?b + ?F = of_nat (p + (n + k))" by simp_all
  have mask: "?F AND NOT 1 = ?F" using seg by (intro even_mask) (auto simp: tile_ok_def)
  let ?h = "set_hprev c ?b (set_hnext a ?b (set_hprev ?b a (set_hnext ?b c (set_back (of_nat (p + (n + k))) ?F (set_front ?b ?F h)))))"
  have nef: "(?nb = ?b) = False" "(?nb = a) = False" using ne l(3) by auto
  have "bnext ?h (lwp_heap_head h) \<noteq> ?nb" using hd l(3,4) ne bn by (auto simp: simp del: of_nat_add)
  then have h': "free_next ?b ?nb (of_nat n) h = ?h"
    by (simp only: free_next_def Let_def nb(1) eq lwp_heap_nextblock_def heap_get_set fun_upd_same mask nef if_cancel
        l(1,2) pn lwp_heap_head_def heap_glob_set if_False fun_upd_apply [of _ _ _ ?nb])
  have v: "hbk (free_next ?b ?nb (of_nat n) h) = (hbk h)(p + tsum ?ms := ?F)"
    "hfr (free_next ?b ?nb (of_nat n) h) = (hfr h)(p := ?F)"
    "bnext (free_next ?b ?nb (of_nat n) h) = (bnext h)(?b := c, a := ?b)"
    "bprev (free_next ?b ?nb (of_nat n) h) = (bprev h)(?b := a, c := ?b)"
    unfolding h' hbk_set hfr_set hbk_set(1) [OF b(1)] hfr_set(1) [OF b(2)] by (simp_all add: add.assoc)
  have na: "ys \<noteq> [] \<Longrightarrow> snd (hd ys)" using heap_okD(5) [OF ok] by (simp add: no_adjacent_mid no_adjacent_Cons)
  have "set gs = insert ?b (set fs - of_nat ` set (faddrs p ?ms))" using l(9) by simp
  then have "heap_ok (free_next ?b ?nb (of_nat n) h) (xs @ (tsum ?ms, False) # ys) gs"
    using l(7,8) by (intro heap_merge [OF ok2 _ p _ x na v(1,2) free_globs(11-14)]) (simp_all only: v, simp_all)
  then show ?thesis by auto
qed

section \<open>Freeing\<close>

definition free_tiles :: "tile list \<Rightarrow> nat \<Rightarrow> tile list \<Rightarrow> tile list" where
  "free_tiles xs n ys =
     (let (xs', m) = (if xs \<noteq> [] \<and> \<not> snd (last xs) then (butlast xs, fst (last xs)) else (xs, 0));
          (k, ys') = (if ys \<noteq> [] \<and> \<not> snd (hd ys) then (fst (hd ys), tl ys) else (0, ys))
      in xs' @ (m + n + k, False) # ys')"

lemma heap_blockin: "heap_ok h ts fs \<Longrightarrow> unat (h_start h) \<le> x \<Longrightarrow> x \<le> unat (h_start h) + tsum ts \<Longrightarrow> lwp_heap_blockin h (of_nat x)"
  using heap_okD(2,3) [of h ts fs] by (simp add: lwp_heap_blockin_def word_le_nat_alt unat_of_nat32)

lemma lflag_prevfree:
  assumes "tseg bk fr a f xs" "tsum xs < 2 ^ 32"
  shows "lflag 1 xs AND 1 = 0 \<longleftrightarrow> xs \<noteq> [] \<and> \<not> snd (last xs)"
proof (cases xs rule: rev_cases)
  case (snoc ys t)
  then show ?thesis using assms tflag_even(2) [of t] by auto
qed simp

lemma heap_free_run:
  assumes ok: "heap_ok h (xs @ (n, True) # ys) fs" and p: "p = unat (h_start h) + tsum xs"
    and q: "lwp_heap_usrblockat h q = of_nat p"
  shows "lwp_heap_free q h =
    (if xs \<noteq> [] \<and> \<not> snd (last xs)
     then (True, (if ys \<noteq> [] \<and> \<not> snd (hd ys) then free_both else free_prev) (of_nat (p - fst (last xs))) (of_nat (p + n)) (of_nat n) h)
     else (True, (if ys \<noteq> [] \<and> \<not> snd (hd ys) then free_next else free_none) (of_nat p) (of_nat (p + n)) (of_nat n) h))"
proof -
  note t = heap_tile [OF ok p]
  have b: "n < 2 ^ 32" "tsum xs < 2 ^ 32" "p + n < 2 ^ 32" using t(1) p by auto
  note fl = tflag_even [OF t(4), simplified fst_conv snd_conv, OF b(1)]
  have seg: "tseg (hbk h) (hfr h) (unat (h_start h)) 1 xs" using heap_okD(4) [OF ok] by (simp add: tiled_def)
  have bin: "lwp_heap_blockin h (of_nat p)" "lwp_heap_blockin h (of_nat (p + n))"
    using heap_blockin [OF ok, of p] heap_blockin [OF ok, of "p + n"] p by simp_all
  have use: "\<not> lwp_heap_blockfree h (of_nat p)" "lwp_heap_blocksize h (of_nat p) = of_nat n"
    using fl(1,2) by (simp_all add: lwp_heap_blockfree_def lwp_heap_blocksize_def t(2))
  have nb: "lwp_heap_blockat (of_nat p) (of_nat n) = of_nat (p + n)" by (simp add: lwp_heap_blockat_def)
  have prev: "lwp_heap_prev_blockfree h (of_nat p) \<longleftrightarrow> xs \<noteq> [] \<and> \<not> snd (last xs)"
    using lflag_prevfree [OF seg b(2)] by (simp add: lwp_heap_prev_blockfree_def t(3))
  have nxt: "lwp_heap_blockfree h (of_nat (p + n)) \<longleftrightarrow> ys \<noteq> [] \<and> \<not> snd (hd ys)"
  proof (cases ys)
    case Nil
    then show ?thesis using heap_end(1) [OF ok] p by (simp add: lwp_heap_blockfree_def add.assoc)
  next
    case (Cons y ys')
    have "bfront h (of_nat (p + n)) = tflag y" "tile_ok y" "fst y < 2 ^ 32"
      using heap_tile(1,2,4) [of h "xs @ [(n, True)]" "fst y" "snd y" ys' fs "p + n"] ok p Cons by (simp_all add: add.assoc)
    then show ?thesis using tflag_even(2) [of y] Cons by (simp add: lwp_heap_blockfree_def)
  qed
  have pb: "lwp_heap_prevblock h (of_nat p) = of_nat (p - fst (last xs)) \<and> lwp_heap_blockin h (of_nat (p - fst (last xs)))"
    if fx: "xs \<noteq> [] \<and> \<not> snd (last xs)"
  proof -
    obtain xs' m where x: "xs = xs' @ [(m, False)]" using fx by (cases xs rule: rev_cases; cases "last xs") auto
    have m: "m \<le> p" "tile_ok (m, False)" "m < 2 ^ 32" using seg b(2) by (auto simp: x p)
    have "lflag 1 xs AND NOT 1 = of_nat m" using tflag_even(1) [OF m(2)] m(3) by (simp add: x)
    then have "lwp_heap_prevblock h (of_nat p) = of_nat (p - m)"
      unfolding lwp_heap_prevblock_def t(3) using m(1) by (simp add: of_nat_diff)
    moreover have "lwp_heap_blockin h (of_nat (p - m))" using heap_blockin [OF ok, of "p - m"] by (simp add: p x)
    ultimately show ?thesis by (simp add: x)
  qed
  let ?P = "xs \<noteq> [] \<and> \<not> snd (last xs)" and ?N = "ys \<noteq> [] \<and> \<not> snd (hd ys)"
  have u: "lwp_heap_free q h =
    (if ?P then if \<not> lwp_heap_blockin h (lwp_heap_prevblock h (of_nat p)) then (False, h)
       else if ?N then (True, free_both (lwp_heap_prevblock h (of_nat p)) (of_nat (p + n)) (of_nat n) h)
       else (True, free_prev (lwp_heap_prevblock h (of_nat p)) (of_nat (p + n)) (of_nat n) h)
     else if ?N then (True, free_next (of_nat p) (of_nat (p + n)) (of_nat n) h)
     else (True, free_none (of_nat p) (of_nat (p + n)) (of_nat n) h))"
    by (simp only: lwp_heap_free_def q Let_def use bin nb t(2,5) prev nxt if_False if_True simp_thms)
  show ?thesis
  proof (cases ?P)
    case True
    then show ?thesis unfolding u using pb [OF True] by (simp del: of_nat_add of_nat_diff)
  next
    case False
    then show ?thesis unfolding u if_not_P [OF False] by simp
  qed
qed

lemma heap_free_ok:
  assumes ok: "heap_ok h (xs @ (n, True) # ys) fs" and p: "p = unat (h_start h) + tsum xs"
    and q: "lwp_heap_usrblockat h q = of_nat p"
  shows "\<exists>h' fs'. lwp_heap_free q h = (True, h') \<and> heap_ok h' (free_tiles xs n ys) fs' \<and>
    word_at h' = word_at h \<and> pg_size h' = pg_size h \<and> h_start h' = h_start h \<and> h_final h' = h_final h"
proof -
  note r = heap_free_run [OF assms]
  have sx: "xs = butlast xs @ [(fst (last xs), False)]" if "xs \<noteq> [] \<and> \<not> snd (last xs)"
    using that by (cases xs rule: rev_cases; cases "last xs") auto
  have sy: "ys = (fst (hd ys), False) # tl ys" if "ys \<noteq> [] \<and> \<not> snd (hd ys)"
    using that by (cases ys; cases "hd ys") auto
  show ?thesis
  proof (cases "xs \<noteq> [] \<and> \<not> snd (last xs)"; cases "ys \<noteq> [] \<and> \<not> snd (hd ys)")
    assume c: "xs \<noteq> [] \<and> \<not> snd (last xs)" "ys \<noteq> [] \<and> \<not> snd (hd ys)"
    obtain xs' m k ys' where e: "xs = xs' @ [(m, False)]" "ys = (k, False) # ys'" using sx [OF c(1)] sy [OF c(2)] by blast
    define p0 where "p0 = unat (h_start h) + tsum xs'"
    have p0: "p - m = p0" "p + n = p0 + m + n" by (simp_all add: p e p0_def)
    obtain fs' where "heap_ok (free_both (of_nat p0) (of_nat (p0 + m + n)) (of_nat n) h) (xs' @ (m + n + k, False) # ys') fs'"
      using free_both_ok [of h xs' m n k ys' fs p0] ok e p0_def by auto
    moreover have "lwp_heap_free q h = (True, free_both (of_nat p0) (of_nat (p0 + m + n)) (of_nat n) h)"
      using r c by (simp add: e p0 del: of_nat_add)
    ultimately show ?thesis by (auto simp: free_tiles_def e free_globs)
  next
    assume c: "xs \<noteq> [] \<and> \<not> snd (last xs)" "\<not> (ys \<noteq> [] \<and> \<not> snd (hd ys))"
    obtain xs' m where e: "xs = xs' @ [(m, False)]" using sx [OF c(1)] by blast
    from free_prev_ok [of h xs' m n ys fs "unat (h_start h) + tsum xs'"] ok c(2)
    show ?thesis unfolding r if_not_P [OF c(2)] by (auto simp: e p free_tiles_def free_globs add.assoc)
  next
    assume c: "\<not> (xs \<noteq> [] \<and> \<not> snd (last xs))" "ys \<noteq> [] \<and> \<not> snd (hd ys)"
    obtain k ys' where e: "ys = (k, False) # ys'" using sy [OF c(2)] by blast
    from free_next_ok [of h xs n k ys' fs p] ok c(1) p
    show ?thesis unfolding r if_not_P [OF c(1)] by (auto simp: e free_tiles_def free_globs)
  next
    assume c: "\<not> (xs \<noteq> [] \<and> \<not> snd (last xs))" "\<not> (ys \<noteq> [] \<and> \<not> snd (hd ys))"
    from free_none_ok [OF ok p] c
    show ?thesis unfolding r if_not_P [OF c(1)] if_not_P [OF c(2)] by (auto simp: free_tiles_def free_globs if_not_P [OF c(1)] if_not_P [OF c(2)])
  qed
qed

lemma free_tiles_uaddrs:
  "uaddrs a (free_tiles xs n ys) = uaddrs a xs @ uaddrs (a + tsum xs + n) ys"
proof -
  obtain xs' m where x: "(if xs \<noteq> [] \<and> \<not> snd (last xs) then (butlast xs, fst (last xs)) else (xs, 0)) = (xs', m)" by fastforce
  obtain k ys' where y: "(if ys \<noteq> [] \<and> \<not> snd (hd ys) then (fst (hd ys), tl ys) else (0, ys)) = (k, ys')" by fastforce
  have "uaddrs a xs' = uaddrs a xs \<and> tsum xs' + m = tsum xs"
    using x by (cases xs rule: rev_cases) (auto split: if_splits)
  moreover have "uaddrs (b + k) ys' = uaddrs b ys" for b using y by (cases ys) (auto split: if_splits)
  ultimately show ?thesis unfolding free_tiles_def x y Let_def prod.case by (simp, metis add.assoc)
qed

lemma free_tiles_tsum: "tsum (free_tiles xs n ys) = tsum xs + n + tsum ys"
  by (cases xs rule: rev_cases; cases ys) (auto simp: free_tiles_def)

lemma heap_free_owned:
  assumes ok: "heap_ok h ts fs" and o: "owned h p lo hi"
  shows "\<exists>h' ts' fs'. lwp_heap_free p h = (True, h') \<and> heap_ok h' ts' fs' \<and> tsum ts' = tsum ts \<and> pg_size h' = pg_size h \<and> h_start h' = h_start h \<and>
    (\<forall>q l u. owned h' q l u \<longleftrightarrow> owned h q l u \<and> (l, u) \<noteq> (lo, hi))"
proof -
  note oi = o [unfolded owned_iff [OF ok]]
  obtain xs n ys where t: "ts = xs @ (n, True) # ys" "lo = unat (h_start h) + tsum xs" "hi = lo + n" using uaddr_tile oi by blast
  have b: "lwp_heap_usrblockat h p = of_nat lo" using oi by (simp add: lwp_heap_usrblockat_def lwp_heap_blockat_def)
  obtain h' fs' where r: "lwp_heap_free p h = (True, h')" "heap_ok h' (free_tiles xs n ys) fs'" "word_at h' = word_at h"
    "pg_size h' = pg_size h" "h_start h' = h_start h" using heap_free_ok [OF ok [unfolded t(1)] t(2) b] by blast
  have seg: "tseg (hbk h) (hfr h) (unat (h_start h)) 1 xs" "tseg (hbk h) (hfr h) hi (tflag (n, True)) ys" "0 < n"
    using heap_okD(4) [OF ok] by (auto simp: tiled_def t tile_ok_def add.assoc)
  have "(l, u) \<in> set (uaddrs (unat (h_start h)) (free_tiles xs n ys)) \<longleftrightarrow> (l, u) \<in> set (uaddrs (unat (h_start h)) ts) \<and> (l, u) \<noteq> (lo, hi)" for l u
    using uaddrs_range [OF seg(1), of l u] uaddrs_range [OF seg(2), of l u] seg(3) t(2,3)
    unfolding free_tiles_uaddrs by (auto simp: t(1))
  then have "owned h' q l u \<longleftrightarrow> owned h q l u \<and> (l, u) \<noteq> (lo, hi)" for q l u
    unfolding owned_iff [OF r(2)] owned_iff [OF ok] r(3,5) by blast
  moreover have "tsum (free_tiles xs n ys) = tsum ts" by (simp add: free_tiles_tsum t(1))
  ultimately show ?thesis using r by blast
qed

end
