(* ===== verification/HeapUse.thy ===== *)
theory HeapUse
  imports HeapFree
begin

text \<open>
  What the callers of a heap rely on: an interface \<open>allocator\<close>, the safety of any sequence of
  requests against it, its interpretation by \<^verbatim>\<open>lwp_heap.c\<close>, and the statistics of
  \<^verbatim>\<open>__lwp_heap_getinfo\<close> that \<^verbatim>\<open>lwp_wkspace.c\<close> reports.
\<close>

section \<open>Clients\<close>

text \<open>A client takes memory of a given size, or gives back the \<open>i\<close>-th of the pointers it holds.\<close>

datatype heap_req = Take u32 | Give nat

fun serve :: "(u32 \<Rightarrow> 's \<Rightarrow> (ptr \<times> 's) option) \<Rightarrow> (ptr \<Rightarrow> 's \<Rightarrow> bool \<times> 's) \<Rightarrow> heap_req list \<Rightarrow> 's \<Rightarrow> (ptr \<times> u32) list \<Rightarrow>
    ('s \<times> (ptr \<times> u32) list) option" where
  "serve al fr [] s live = Some (s, live)"
| "serve al fr (Take n # rs) s live =
     (case al n s of None \<Rightarrow> None
      | Some (p, s') \<Rightarrow> serve al fr rs s' (if p = NULL then live else (p, n) # live))"
| "serve al fr (Give i # rs) s live =
     (if i < length live then case fr (fst (live ! i)) s of (ok, s') \<Rightarrow> if ok then serve al fr rs s' (take i live @ drop (Suc i) live) else None
      else serve al fr rs s live)"

locale allocator =
  fixes inv :: "'s \<Rightarrow> bool" and region :: "'s \<Rightarrow> ptr \<Rightarrow> nat \<Rightarrow> nat \<Rightarrow> bool" and admit :: "u32 \<Rightarrow> bool"
    and alloc :: "u32 \<Rightarrow> 's \<Rightarrow> (ptr \<times> 's) option" and release :: "ptr \<Rightarrow> 's \<Rightarrow> bool \<times> 's"
  assumes alloc_law: "inv s \<Longrightarrow> admit n \<Longrightarrow> alloc n s = Some (NULL, s) \<or>
      (\<exists>p s' lo hi. alloc n s = Some (p, s') \<and> p \<noteq> NULL \<and> inv s' \<and> region s' p lo hi \<and> lo < unat p \<and> unat p + unat n \<le> hi \<and>
         (\<forall>q l u. region s q l u \<longrightarrow> region s' q l u \<and> (u \<le> lo \<or> hi \<le> l)))"
    and release_law: "inv s \<Longrightarrow> region s p lo hi \<Longrightarrow> \<exists>s'. release p s = (True, s') \<and> inv s' \<and>
      (\<forall>q l u. region s q l u \<and> (l, u) \<noteq> (lo, hi) \<longrightarrow> region s' q l u)"
begin

text \<open>The pointers held belong to different blocks and the memory asked for lies inside the block.\<close>

definition held :: "'s \<Rightarrow> ptr \<times> u32 \<Rightarrow> nat \<times> nat \<Rightarrow> bool" where
  "held s m b \<longleftrightarrow> region s (fst m) (fst b) (snd b) \<and> fst b < unat (fst m) \<and> unat (fst m) + unat (snd m) \<le> snd b"

definition apart :: "nat \<times> nat \<Rightarrow> nat \<times> nat \<Rightarrow> bool" where
  "apart b c \<longleftrightarrow> snd b \<le> fst c \<or> snd c \<le> fst b"

definition holds :: "'s \<Rightarrow> (ptr \<times> u32) list \<Rightarrow> (nat \<times> nat) list \<Rightarrow> bool" where
  "holds s live bs \<longleftrightarrow> list_all2 (held s) live bs \<and> sorted_wrt apart bs"

lemma holds_take:
  assumes "holds s live bs" "held s' m b" "\<And>q l u. region s q l u \<Longrightarrow> region s' q l u \<and> apart b (l, u)"
  shows "holds s' (m # live) (b # bs)"
proof -
  have l: "list_all2 (held s) live bs" "sorted_wrt apart bs" using assms(1) by (auto simp: holds_def)
  have "list_all2 (held s') live bs" using l(1) by (rule list_all2_mono) (use assms(3) in \<open>auto simp: held_def\<close>)
  moreover have "apart b c" if "c \<in> set bs" for c
  proof -
    obtain m' where "held s m' c" using l(1) \<open>c \<in> set bs\<close> by (metis list_all2_conv_all_nth in_set_conv_nth)
    then show ?thesis using assms(3) [of "fst m'" "fst c" "snd c"] by (simp add: held_def)
  qed
  ultimately show ?thesis using assms(2) l(2) by (simp add: holds_def)
qed

lemma holds_give:
  assumes h: "holds s live bs" and i: "i < length live"
    and r: "\<And>q l u. region s q l u \<Longrightarrow> (l, u) \<noteq> bs ! i \<Longrightarrow> region s' q l u"
  shows "holds s' (take i live @ drop (Suc i) live) (take i bs @ drop (Suc i) bs)"
proof -
  have l: "list_all2 (held s) live bs" "sorted_wrt apart bs" "i < length bs" "length live = length bs"
    using h i by (auto simp: holds_def dest: list_all2_lengthD)
  have sp: "bs = take i bs @ bs ! i # drop (Suc i) bs" by (rule id_take_nth_drop [OF l(3)])
  have so: "sorted_wrt apart (take i bs @ bs ! i # drop (Suc i) bs)" using l(2) sp by simp
  have k: "held s' m c" if "held s m c" "c \<in> set (take i bs @ drop (Suc i) bs)" for m c
  proof -
    have "apart c (bs ! i) \<or> apart (bs ! i) c" using so that(2) by (auto simp: sorted_wrt_append)
    moreover have "fst c < snd c" using that(1) by (auto simp: held_def)
    ultimately have "c \<noteq> bs ! i" by (auto simp: apart_def)
    then show ?thesis using that(1) r [of "fst m" "fst c" "snd c"] by (auto simp: held_def)
  qed
  have "list_all2 (held s) (take i live @ drop (Suc i) live) (take i bs @ drop (Suc i) bs)"
    using l(1) by (intro list_all2_appendI list_all2_takeI list_all2_dropI)
  then have "list_all2 (held s') (take i live @ drop (Suc i) live) (take i bs @ drop (Suc i) bs)"
    using k by (auto intro: list.rel_mono_strong)
  then show ?thesis using so by (auto simp: holds_def sorted_wrt_append)
qed

lemma serve_safe:
  "inv s \<Longrightarrow> holds s live bs \<Longrightarrow> \<forall>n. Take n \<in> set rs \<longrightarrow> admit n \<Longrightarrow>
   \<exists>s' live' bs'. serve alloc release rs s live = Some (s', live') \<and> inv s' \<and> holds s' live' bs'"
proof (induction rs arbitrary: s live bs)
  case Nil
  then show ?case by auto
next
  case (Cons r rs)
  show ?case
  proof (cases r)
    case (Take n)
    with alloc_law [OF Cons.prems(1), of n] Cons.prems(3) consider "alloc n s = Some (NULL, s)"
      | p s' lo hi where "alloc n s = Some (p, s')" "p \<noteq> NULL" "inv s'" "held s' (p, n) (lo, hi)"
        "\<And>q l u. region s q l u \<Longrightarrow> region s' q l u \<and> apart (lo, hi) (l, u)"
      by (auto simp: held_def apart_def) blast
    then show ?thesis
    proof cases
      case 1
      then show ?thesis using Cons.IH [OF Cons.prems(1,2)] Cons.prems(3) Take by simp
    next
      case 2
      then show ?thesis using Cons.IH [OF 2(3) holds_take [OF Cons.prems(2) 2(4,5)]] Cons.prems(3) Take by simp
    qed
  next
    case (Give i)
    show ?thesis
    proof (cases "i < length live")
      case True
      then have "held s (live ! i) (bs ! i)" using Cons.prems(2) by (auto simp: holds_def list_all2_conv_all_nth)
      then obtain s' where s': "release (fst (live ! i)) s = (True, s')" "inv s'"
          "\<And>q l u. region s q l u \<Longrightarrow> (l, u) \<noteq> bs ! i \<Longrightarrow> region s' q l u"
        using release_law [OF Cons.prems(1)] unfolding held_def by (metis prod.collapse)
      show ?thesis using Cons.IH [OF s'(2) holds_give [OF Cons.prems(2) True s'(3)]] Cons.prems(3) Give True s'(1) by simp
    next
      case False
      then show ?thesis using Cons.IH [OF Cons.prems(1,2)] Cons.prems(3) Give by simp
    qed
  qed
qed

lemma serve_apart:
  assumes "inv s" "\<forall>n. Take n \<in> set rs \<longrightarrow> admit n"
  shows "\<exists>s' live. serve alloc release rs s [] = Some (s', live) \<and> inv s' \<and>
    sorted_wrt (\<lambda>(p, n) (q, m). unat p + unat n \<le> unat q \<or> unat q + unat m \<le> unat p) live"
proof -
  obtain s' live bs where r: "serve alloc release rs s [] = Some (s', live)" "holds s' live bs" "inv s'"
    using serve_safe [OF assms(1) _ assms(2), of "[]" "[]"] by (auto simp: holds_def)
  have "i < j \<Longrightarrow> j < length live \<Longrightarrow> unat (fst (live ! i)) + unat (snd (live ! i)) \<le> unat (fst (live ! j)) \<or>
      unat (fst (live ! j)) + unat (snd (live ! j)) \<le> unat (fst (live ! i))" for i j
  proof -
    assume ij: "i < j" "j < length live"
    have "held s' (live ! i) (bs ! i)" "held s' (live ! j) (bs ! j)" "apart (bs ! i) (bs ! j)"
      using r(2) ij by (auto simp: holds_def list_all2_conv_all_nth sorted_wrt_iff_nth_less)
    then show ?thesis by (auto simp: held_def apart_def)
  qed
  then show ?thesis using r(1,3) by (auto simp: sorted_wrt_iff_nth_less case_prod_beta)
qed

end

text \<open>An allocator whose used blocks are known: what is taken and given back again leaves no trace.\<close>

locale tracked_allocator = allocator inv region admit alloc release
  for inv :: "'s \<Rightarrow> bool" and region :: "'s \<Rightarrow> ptr \<Rightarrow> nat \<Rightarrow> nat \<Rightarrow> bool" and admit :: "u32 \<Rightarrow> bool"
    and alloc :: "u32 \<Rightarrow> 's \<Rightarrow> (ptr \<times> 's) option" and release :: "ptr \<Rightarrow> 's \<Rightarrow> bool \<times> 's" +
  fixes used :: "'s \<Rightarrow> (nat \<times> nat) set"
  assumes alloc_used: "inv s \<Longrightarrow> admit n \<Longrightarrow> alloc n s = Some (p, s') \<Longrightarrow> p \<noteq> NULL \<Longrightarrow>
      \<exists>b. b \<notin> used s \<and> used s' = insert b (used s) \<and> region s' p (fst b) (snd b)"
    and release_used: "inv s \<Longrightarrow> region s p (fst b) (snd b) \<Longrightarrow> used (snd (release p s)) = used s - {b}"
begin

definition holding :: "'s \<Rightarrow> ptr list \<Rightarrow> (nat \<times> nat) list \<Rightarrow> bool" where
  "holding s ps bs \<longleftrightarrow> list_all2 (\<lambda>p b. region s p (fst b) (snd b)) ps bs \<and> distinct bs"

lemma alloc_cases:
  assumes "inv s" "admit n"
  obtains "alloc n s = Some (NULL, s)"
  | p s' b where "alloc n s = Some (p, s')" "p \<noteq> NULL" "inv s'" "b \<notin> used s" "used s' = insert b (used s)"
      "region s' p (fst b) (snd b)" "\<And>q l u. region s q l u \<Longrightarrow> region s' q l u"
  using alloc_law [OF assms] alloc_used [OF assms] by metis

lemma holding_alloc:
  assumes "holding s ps bs" "set bs \<subseteq> used s" "b \<notin> used s" "region s' p (fst b) (snd b)" "\<And>q l u. region s q l u \<Longrightarrow> region s' q l u"
  shows "holding s' (ps @ [p]) (bs @ [b])"
proof -
  have "list_all2 (\<lambda>p b. region s' p (fst b) (snd b)) ps bs"
    using assms(1,5) unfolding holding_def by (auto intro: list_all2_mono)
  then show ?thesis using assms(1-4) by (auto simp: holding_def intro: list_all2_appendI)
qed

lemma release_one:
  assumes "inv s" "holding s (p # ps) (b # bs)"
  shows "inv (snd (release p s)) \<and> holding (snd (release p s)) ps bs \<and> used (snd (release p s)) = used s - {b}"
proof -
  have h: "region s p (fst b) (snd b)" "list_all2 (\<lambda>p b. region s p (fst b) (snd b)) ps bs" "b \<notin> set bs" "distinct bs"
    using assms(2) by (auto simp: holding_def)
  obtain s' where s': "release p s = (True, s')" "inv s'" "\<And>q l u. region s q l u \<Longrightarrow> (l, u) \<noteq> (fst b, snd b) \<Longrightarrow> region s' q l u"
    using release_law [OF assms(1) h(1)] by metis
  have "list_all2 (\<lambda>p b. region s' p (fst b) (snd b)) ps bs"
    using h(2) by (rule list.rel_mono_strong) (use s'(3) h(3) in \<open>metis prod.collapse\<close>)
  then show ?thesis using s' h(4) release_used [OF assms(1) h(1)] by (simp add: holding_def)
qed

text \<open>The pointers \<open>ps\<close> are held on top of the used blocks \<open>U\<close>.\<close>

definition taken :: "'s \<Rightarrow> (nat \<times> nat) set \<Rightarrow> ptr list \<Rightarrow> bool" where
  "taken s U ps \<longleftrightarrow> inv s \<and> (\<exists>bs. holding s ps bs \<and> set bs \<inter> U = {} \<and> used s = U \<union> set bs)"

lemma taken_start: "inv s \<Longrightarrow> taken s (used s) []"
  by (simp add: taken_def holding_def)

lemma taken_used: "taken s U [] \<Longrightarrow> inv s \<and> used s = U"
  by (auto simp: taken_def holding_def)

lemma taken_alloc:
  assumes "taken s U ps" "admit n"
  obtains "alloc n s = Some (NULL, s)" | p s' where "alloc n s = Some (p, s')" "p \<noteq> NULL" "taken s' U (ps @ [p])" "taken s' U (p # ps)"
proof -
  obtain bs where b: "inv s" "holding s ps bs" "set bs \<inter> U = {}" "used s = U \<union> set bs" using assms(1) by (auto simp: taken_def)
  from alloc_cases [OF b(1) assms(2)] show ?thesis
  proof cases
    case 1
    then show ?thesis by (rule that(1))
  next
    case (2 p s' c)
    have h: "holding s' (ps @ [p]) (bs @ [c])" by (rule holding_alloc [OF b(2) _ 2(4,6,7)]) (use b(4) in auto)
    have "length ps = length bs" using b(2) unfolding holding_def by (blast dest: list_all2_lengthD)
    with h have h': "holding s' (p # ps) (c # bs)" by (simp add: holding_def list_all2_append)
    have "set (bs @ [c]) \<inter> U = {}" "used s' = U \<union> set (bs @ [c])" using b(3,4) 2(4,5) by auto
    then have "taken s' U (ps @ [p])" "taken s' U (p # ps)" unfolding taken_def using h h' 2(3)
      by (blast, intro conjI exI [of _ "c # bs"]) auto
    then show ?thesis by (rule that(2) [OF 2(1,2)])
  qed
qed

lemma taken_release: "taken s U (p # ps) \<Longrightarrow> taken (snd (release p s)) U ps"
proof -
  assume "taken s U (p # ps)"
  then obtain b bs where b: "inv s" "holding s (p # ps) (b # bs)" "set (b # bs) \<inter> U = {}" "used s = U \<union> set (b # bs)"
    by (auto simp: taken_def holding_def list_all2_Cons1)
  have "b \<notin> set bs" using b(2) by (simp add: holding_def)
  then show ?thesis using release_one [OF b(1,2)] b(3,4) unfolding taken_def by (intro conjI exI [of _ bs]) auto
qed

lemma taken_release_all: "taken s U ps \<Longrightarrow> taken (fold (\<lambda>p s. snd (release p s)) ps s) U []"
  by (induction ps arbitrary: s) (simp_all add: taken_release)

end

section \<open>The heap is an allocator\<close>

definition heap_inv :: "u32 \<Rightarrow> nat \<Rightarrow> heap_cntrl \<Rightarrow> bool" where
  "heap_inv pg T h \<longleftrightarrow> pg_size h = pg \<and> (\<exists>ts fs. heap_ok h ts fs \<and> tsum ts = T)"

lemma take_tiles_tsum: "D \<le> n \<Longrightarrow> tsum (take_tiles pg D xs n ys) = tsum (xs @ (n, False) # ys)"
  by (simp add: take_tiles_def)

definition admitted :: "u32 \<Rightarrow> u32 \<Rightarrow> bool" where
  "admitted pg n \<longleftrightarrow> unat n + 2 * unat pg + 8 \<le> 2 ^ 32"

interpretation lwp: allocator "heap_inv pg T" owned "admitted pg" lwp_heap_allocate lwp_heap_free for pg T
proof (standard, goal_cases)
  case (1 s n)
  then obtain ts fs where ok: "heap_ok s ts fs" "pg_size s = pg" "tsum ts = T" by (auto simp: heap_inv_def)
  have n: "unat n + 2 * unat (pg_size s) + 8 \<le> 2 ^ 32" using 1(2) ok(2) by (simp add: admitted_def)
  show ?case
  proof (cases "\<exists>m. (m, False) \<in> set ts \<and> block_req (unat (pg_size s)) (unat n) \<le> m")
    case True
    then obtain p h' xs k ys fs' lo hi where a: "lwp_heap_allocate n s = Some (p, h')"
        "heap_ok h' (take_tiles (unat (pg_size s)) (block_req (unat (pg_size s)) (unat n)) xs k ys) fs'"
        "owned h' p lo hi" "unat p + unat n \<le> hi" "pg_size h' = pg_size s"
        "\<And>q l u. owned s q l u \<longrightarrow> owned h' q l u \<and> (u \<le> lo \<or> hi \<le> l)"
        "ts = xs @ (k, False) # ys" "block_req (unat (pg_size s)) (unat n) \<le> k"
      using heap_allocate_ok [OF ok(1) n] by metis
    have "lo < unat p" using a(3) by (simp add: owned_def)
    then have "p \<noteq> NULL" by auto
    moreover have "heap_inv pg T h'" using a(2,5) ok(2,3) take_tiles_tsum [OF a(8)] a(7) unfolding heap_inv_def by blast
    ultimately show ?thesis using a \<open>lo < unat p\<close> by blast
  next
    case False
    then show ?thesis using heap_allocate_none [OF ok(1) n] not_le by blast
  qed
next
  case (2 s p lo hi)
  then obtain ts fs where "heap_ok s ts fs" "pg_size s = pg" "tsum ts = T" by (auto simp: heap_inv_def)
  then show ?case using heap_free_owned [OF _ 2(2), of ts fs] by (fastforce simp: heap_inv_def)
qed

text \<open>The used blocks of a heap.\<close>

definition blocks :: "heap_cntrl \<Rightarrow> (nat \<times> nat) set" where
  "blocks h = {b. \<exists>ts fs. heap_ok h ts fs \<and> b \<in> set (uaddrs (unat (h_start h)) ts)}"

lemma blocks_eq: "heap_ok h ts fs \<Longrightarrow> blocks h = set (uaddrs (unat (h_start h)) ts)"
  using heap_ok_unique by (fastforce simp: blocks_def)

lemma heap_alloc_blocks:
  assumes "heap_inv pg T s" "admitted pg n" "lwp_heap_allocate n s = Some (p, s')" "p \<noteq> NULL"
  shows "\<exists>b. b \<notin> blocks s \<and> blocks s' = insert b (blocks s) \<and> owned s' p (fst b) (snd b)"
proof -
  obtain ts fs where ok: "heap_ok s ts fs" "pg_size s = pg" "tsum ts = T" using assms(1) by (auto simp: heap_inv_def)
  have n: "unat n + 2 * unat (pg_size s) + 8 \<le> 2 ^ 32" using assms(2) ok(2) by (simp add: admitted_def)
  obtain m where m: "(m, False) \<in> set ts" "block_req (unat (pg_size s)) (unat n) \<le> m"
    using heap_allocate_none [OF ok(1) n] assms(3,4) not_le by fastforce
  obtain h' xs k ys fs' lo hi where a: "s' = h'"
      "heap_ok h' (take_tiles (unat (pg_size s)) (block_req (unat (pg_size s)) (unat n)) xs k ys) fs'"
      "owned h' p lo hi" "h_start h' = h_start s" "(lo, hi) \<notin> set (uaddrs (unat (h_start s)) ts)"
      "set (uaddrs (unat (h_start s)) (take_tiles (unat (pg_size s)) (block_req (unat (pg_size s)) (unat n)) xs k ys)) =
        insert (lo, hi) (set (uaddrs (unat (h_start s)) ts))"
    using heap_allocate_ok [OF ok(1) n m] assms(3) by (metis option.inject prod.inject)
  then show ?thesis by (intro exI [of _ "(lo, hi)"]) (simp add: blocks_eq [OF ok(1)] blocks_eq [OF a(2)])
qed

lemma heap_free_blocks:
  assumes "heap_inv pg T s" "owned s p (fst b) (snd b)"
  shows "blocks (snd (lwp_heap_free p s)) = blocks s - {b}"
proof -
  obtain ts fs where ok: "heap_ok s ts fs" using assms(1) by (auto simp: heap_inv_def)
  note oi = assms(2) [unfolded owned_iff [OF ok]]
  obtain xs n ys where t: "ts = xs @ (n, True) # ys" "fst b = unat (h_start s) + tsum xs" "snd b = fst b + n" using uaddr_tile oi by blast
  have u: "lwp_heap_usrblockat s p = of_nat (fst b)" using oi by (simp add: lwp_heap_usrblockat_def lwp_heap_blockat_def)
  obtain h' fs' where r: "lwp_heap_free p s = (True, h')" "heap_ok h' (free_tiles xs n ys) fs'" "h_start h' = h_start s"
    using heap_free_ok [OF ok [unfolded t(1)] t(2) u] by blast
  have seg: "tseg (hbk s) (hfr s) (unat (h_start s)) 1 xs" "tseg (hbk s) (hfr s) (snd b) (tflag (n, True)) ys" "0 < n"
    using heap_okD(4) [OF ok] by (auto simp: tiled_def t tile_ok_def add.assoc)
  have "c \<in> set (uaddrs (unat (h_start s)) (free_tiles xs n ys)) \<longleftrightarrow> c \<in> set (uaddrs (unat (h_start s)) ts) - {b}" for c
    using uaddrs_range [OF seg(1), of "fst c" "snd c"] uaddrs_range [OF seg(2), of "fst c" "snd c"] seg(3) t(2,3)
    unfolding free_tiles_uaddrs by (cases b; cases c) (auto simp: t(1))
  then show ?thesis by (auto simp: r(1,3) blocks_eq [OF ok] blocks_eq [OF r(2)])
qed

interpretation lwpt: tracked_allocator "heap_inv pg T" owned "admitted pg" lwp_heap_allocate lwp_heap_free blocks for pg T
  by unfold_locales (use heap_alloc_blocks heap_free_blocks in blast)+

section \<open>Taking and giving back\<close>

lemma take_free_tiles:
  assumes "no_adjacent (xs @ (n, False) # ys)" "D \<le> n"
  shows "free_tiles (xs @ [(n - D, False)]) D ys = xs @ (n, False) # ys" "free_tiles xs n ys = xs @ (n, False) # ys"
  using assms by (auto simp: free_tiles_def no_adjacent_mid no_adjacent_Cons split: prod.splits if_splits)

lemma heap_allocate_free:
  assumes ok: "heap_ok h ts fs" and s: "unat s + 2 * unat (pg_size h) + 8 \<le> 2 ^ 32"
    and fit: "(m, False) \<in> set ts" "block_req (unat (pg_size h)) (unat s) \<le> m"
  shows "\<exists>p h' h'' fs''. lwp_heap_allocate s h = Some (p, h') \<and> lwp_heap_free p h' = (True, h'') \<and> heap_ok h'' ts fs''"
proof -
  let ?pg = "unat (pg_size h)" and ?D = "block_req (unat (pg_size h)) (unat s)" and ?a = "unat (h_start h)"
  obtain p h' xs n ys fs' lo hi where a: "lwp_heap_allocate s h = Some (p, h')" "ts = xs @ (n, False) # ys" "?D \<le> n"
      "heap_ok h' (take_tiles ?pg ?D xs n ys) fs'" "h_start h' = h_start h"
      "lo = (if ?pg + 8 < n - ?D then ?a + tsum xs + (n - ?D) else ?a + tsum xs)" "owned h' p lo hi"
    using heap_allocate_ok [OF ok s fit] by metis
  have b: "lwp_heap_usrblockat h' p = of_nat lo" using a(7) by (simp add: owned_def lwp_heap_usrblockat_def lwp_heap_blockat_def)
  note na = take_free_tiles [OF heap_okD(5) [OF ok, unfolded a(2)] a(3)]
  show ?thesis
  proof (cases "?pg + 8 < n - ?D")
    case True
    have "heap_ok h' ((xs @ [(n - ?D, False)]) @ (?D, True) # ys) fs'" using a(4) True by (simp add: take_tiles_def)
    moreover have "lo = unat (h_start h') + tsum (xs @ [(n - ?D, False)])" using a(5,6) True by simp
    ultimately obtain h'' fs'' where "lwp_heap_free p h' = (True, h'')" "heap_ok h'' (free_tiles (xs @ [(n - ?D, False)]) ?D ys) fs''"
      using heap_free_ok [OF _ _ b] by blast
    then show ?thesis unfolding na(1) using a(1,2) by blast
  next
    case False
    have "heap_ok h' (xs @ (n, True) # ys) fs'" using a(4) False by (simp add: take_tiles_def)
    from heap_free_ok [OF this _ b] show ?thesis using a(1,2,5,6) na(2) False by auto
  qed
qed

section \<open>Statistics\<close>

definition free_bytes :: "tile list \<Rightarrow> nat" where "free_bytes ts = sum_list (map fst (filter (\<lambda>t. \<not> snd t) ts))"
definition used_bytes :: "tile list \<Rightarrow> nat" where "used_bytes ts = sum_list (map fst (filter snd ts))"

lemma tile_bytes: "free_bytes ts + used_bytes ts = tsum ts"
  by (induction ts) (auto simp: free_bytes_def used_bytes_def tsum_def)

lemma info_loop_tiled:
  assumes "tiled (hbk h) (hfr h) a f ts" "a + tsum ts < 2 ^ 32"
  shows "info_loop h (of_nat a) i = Some (0, \<lparr>free_count = free_count i + of_nat (length (filter (\<lambda>t. \<not> snd t) ts)),
     free_size = free_size i + of_nat (free_bytes ts), used_count = used_count i + of_nat (length (filter snd ts)) + 1,
     used_size = used_size i + of_nat (used_bytes ts)\<rparr>)"
  using assms
proof (induction ts arbitrary: a f i)
  case Nil
  then have "bfront h (of_nat a) = 1" by (auto simp: tiled_simps hfr_def)
  then show ?case
    by (simp add: info_loop.simps info_add_def lwp_heap_blockfree_def lwp_heap_blocksize_def free_bytes_def used_bytes_def)
next
  case (Cons t ts)
  have t: "bfront h (of_nat a) = tflag t" "tile_ok t" "fst t < 2 ^ 32" "tiled (hbk h) (hfr h) (a + fst t) (tflag t) ts"
    using Cons.prems by (simp_all add: tiled_simps) (simp add: hfr_def split: if_splits)
  then have nb: "lwp_heap_nextblock h (of_nat a) = of_nat (a + fst t)" "bback h (of_nat (a + fst t)) = tflag t"
    using tflag_even(1) [OF t(2,3)] Cons.prems(2) tiled_head [OF t(4)]
    by (simp_all add: lwp_heap_nextblock_def hbk_def split: if_splits)
  have i: "info_add h (of_nat a) i = (if snd t then i\<lparr>used_count := used_count i + 1, used_size := used_size i + of_nat (fst t)\<rparr>
      else i\<lparr>free_count := free_count i + 1, free_size := free_size i + of_nat (fst t)\<rparr>)"
    using tflag_even(1,2) [OF t(2,3)] by (simp add: info_add_def lwp_heap_blockfree_def lwp_heap_blocksize_def t(1))
  have "info_loop h (of_nat a) i = info_loop h (of_nat (a + fst t)) (info_add h (of_nat a) i)"
    using tflag_even(4) [OF t(2,3)] by (simp only: info_loop.simps [of h "of_nat a"] Let_def t(1) nb if_False simp_thms)
  also note Cons.IH [OF t(4), of "info_add h (of_nat a) i"]
  finally show ?case using Cons.prems(2) i by (simp add: free_bytes_def used_bytes_def add.assoc ac_simps)
qed

lemma heap_getinfo_ok:
  assumes "heap_ok h ts fs"
  shows "lwp_heap_getinfo h = Some (0, \<lparr>free_count = of_nat (length (filter (\<lambda>t. \<not> snd t) ts)), free_size = of_nat (free_bytes ts),
     used_count = of_nat (length (filter snd ts)) + 1, used_size = of_nat (used_bytes ts)\<rparr>)"
proof -
  note t = heap_okD(4) [OF assms]
  have "bback h (h_start h) = 1" using tiled_head [OF t] heap_okD(2) [OF assms] by (simp add: hbk_def)
  then show ?thesis using info_loop_tiled [OF t] heap_okD(2) [OF assms] by (simp add: lwp_heap_getinfo_def)
qed

end
