(* ===== verification/Wkspace.thy ===== *)
theory Wkspace
  imports HeapUse
begin

text \<open>
  The workspace heap of \<^verbatim>\<open>libogc/lwp_wkspace.c\<close> and \<^verbatim>\<open>lwp_wkspace.inl\<close>: one heap at the bottom of the
  arena, with a page size of \<^verbatim>\<open>PPC_ALIGNMENT\<close>. The words of the area start out zero (\<open>heap_memset\<close>).
\<close>

record wkspace =
  wkspace_heap :: heap_cntrl
  wkspace_iblock :: heap_iblock
  wkspace_heap_size :: u32
  arena_lo :: ptr

abbreviation PPC_ALIGNMENT :: u32 where "PPC_ALIGNMENT \<equiv> 8"

definition ROUND32UP :: "u32 \<Rightarrow> u32" where
  "ROUND32UP v = (v + 31) AND NOT 31"

definition zeroed :: "ptr \<Rightarrow> u32 \<Rightarrow> ptr \<Rightarrow> u32 \<Rightarrow> u32" where
  "zeroed lo n a v = (if a - lo < n then 0 else v)"

definition heap_memset :: "ptr \<Rightarrow> u32 \<Rightarrow> heap_cntrl \<Rightarrow> heap_cntrl" where
  "heap_memset lo n h =
     h\<lparr>blk := (\<lambda>b. \<lparr>back_flag = zeroed lo n b (back_flag (blk h b)), front_flag = zeroed lo n (b + 4) (front_flag (blk h b)),
                     h_next = zeroed lo n (b + 8) (h_next (blk h b)), h_prev = zeroed lo n (b + 12) (h_prev (blk h b))\<rparr>),
       word_at := (\<lambda>a. zeroed lo n a (word_at h a))\<rparr>"

definition lwp_wkspace_heapsize :: "wkspace \<Rightarrow> u32" where
  "lwp_wkspace_heapsize w = wkspace_heap_size w"

definition wkspace_info :: "wkspace \<Rightarrow> wkspace option" where
  "wkspace_info w = map_option (\<lambda>(_, i). w\<lparr>wkspace_iblock := i\<rparr>) (lwp_heap_getinfo (wkspace_heap w))"

definition lwp_wkspace_heapfree :: "wkspace \<Rightarrow> (u32 \<times> wkspace) option" where
  "lwp_wkspace_heapfree w = map_option (\<lambda>w. (free_size (wkspace_iblock w), w)) (wkspace_info w)"

definition lwp_wkspace_heapused :: "wkspace \<Rightarrow> (u32 \<times> wkspace) option" where
  "lwp_wkspace_heapused w = map_option (\<lambda>w. (used_size (wkspace_iblock w), w)) (wkspace_info w)"

definition lwp_wkspace_init :: "u32 \<Rightarrow> wkspace \<Rightarrow> wkspace" where
  "lwp_wkspace_init size' w =
     (let arLo = ROUND32UP (arena_lo w);
          dsize = size' - (arLo - arena_lo w);
          (n, h) = lwp_heap_init arLo dsize PPC_ALIGNMENT (heap_memset arLo dsize (wkspace_heap w))
      in w\<lparr>arena_lo := arLo + dsize, wkspace_heap := h, wkspace_heap_size := wkspace_heap_size w + n\<rparr>)"

definition lwp_wkspace_allocate :: "u32 \<Rightarrow> wkspace \<Rightarrow> (ptr \<times> wkspace) option" where
  "lwp_wkspace_allocate size' w =
     map_option (\<lambda>(p, h). (p, w\<lparr>wkspace_heap := h\<rparr>)) (lwp_heap_allocate size' (wkspace_heap w))"

definition lwp_wkspace_free :: "ptr \<Rightarrow> wkspace \<Rightarrow> bool \<times> wkspace" where
  "lwp_wkspace_free p w = (case lwp_heap_free p (wkspace_heap w) of (r, h) \<Rightarrow> (r, w\<lparr>wkspace_heap := h\<rparr>))"

section \<open>Properties\<close>

lemma ROUND32UP_up:
  assumes "unat a + 32 \<le> 2 ^ 32"
  shows "32 dvd unat (ROUND32UP a) \<and> unat a \<le> unat (ROUND32UP a) \<and> unat (ROUND32UP a) < unat a + 32"
proof -
  have v: "unat (a + 31) = unat a + 31" using assms by (simp add: unat_plus_if')
  have "(31 :: u32) = mask 5" by (simp add: mask_numeral)
  then have r: "unat (ROUND32UP a) = unat a + 31 - (unat a + 31) mod 32"
    unfolding ROUND32UP_def using align_down [of "a + 31" 5] v by simp
  have "(unat a + 31) mod 32 < 32" by simp
  then show ?thesis unfolding r by (auto simp: minus_mod_eq_mult_div)
qed

lemma heap_memset_glob [simp]: "hc (heap_memset lo n h) = hc h"
  by (simp add: heap_memset_def)

lemma wkspace_init_ok:
  assumes a: "unat (arena_lo w) + unat size' + 8 \<le> 2 ^ 32" and s: "64 \<le> unat size'" "8 dvd unat size'" "8 dvd unat (arena_lo w)"
    and c: "unat (hc (wkspace_heap w)) + 16 \<le> unat (arena_lo w)"
  shows "\<exists>n. heap_ok (wkspace_heap (lwp_wkspace_init size' w)) [(n, False)] [ROUND32UP (arena_lo w)] \<and>
    lwp_wkspace_heapsize (lwp_wkspace_init size' w) = lwp_wkspace_heapsize w + of_nat n - 8 \<and>
    pg_size (wkspace_heap (lwp_wkspace_init size' w)) = PPC_ALIGNMENT \<and>
    unat (arena_lo (lwp_wkspace_init size' w)) = unat (arena_lo w) + unat size'"
proof -
  let ?lo = "ROUND32UP (arena_lo w)" and ?d = "size' - (ROUND32UP (arena_lo w) - arena_lo w)"
  note r = ROUND32UP_up [of "arena_lo w"]
  have r: "32 dvd unat ?lo" "unat (arena_lo w) \<le> unat ?lo" "unat ?lo < unat (arena_lo w) + 32" using r a s(1) by auto
  have lo8: "8 dvd unat ?lo" using r(1) by (rule dvd_trans [rotated]) simp
  have g: "unat (?lo - arena_lo w) = unat ?lo - unat (arena_lo w)" using r(2) by (intro unat_sub) (simp add: word_le_nat_alt)
  then have d: "unat ?d = unat size' - (unat ?lo - unat (arena_lo w))"
    using r s(1) by (subst unat_sub) (auto simp: word_le_nat_alt)
  have d8: "8 dvd unat ?d" unfolding d using s(2,3) lo8 by (intro dvd_diff_nat)
  obtain n h' where i: "lwp_heap_init ?lo ?d 8 (heap_memset ?lo ?d (wkspace_heap w)) = (n, h')" by fastforce
  have "heap_ok h' [(unat ?d - 8, False)] [?lo] \<and> n = ?d - 16 \<and> pg_size h' = 8 \<and> h_start h' = ?lo"
    by (rule heap_init_ok [OF _ _ _ d8 lo8 _ _ _ i])
      (use a c d r s in \<open>auto simp: lwp_heap_pgsize_valid_def word_le_nat_alt\<close>)
  moreover have "unat (?lo + ?d) = unat (arena_lo w) + unat size'" using d r s(1) a by (simp add: unat_plus_if')
  moreover have "of_nat (unat ?d - 8) - 8 = ?d - 16" using d r s(1) by (simp add: of_nat_diff)
  moreover have "lwp_wkspace_init size' w = w\<lparr>arena_lo := ?lo + ?d, wkspace_heap := h', wkspace_heap_size := wkspace_heap_size w + n\<rparr>"
    by (simp only: lwp_wkspace_init_def Let_def i prod.case)
  ultimately show ?thesis by (intro exI [of _ "unat ?d - 8"]) (simp add: lwp_wkspace_heapsize_def)
qed

text \<open>The workspace serves requests as the heap does.\<close>

definition wkspace_inv :: "nat \<Rightarrow> wkspace \<Rightarrow> bool" where
  "wkspace_inv T w \<longleftrightarrow> heap_inv PPC_ALIGNMENT T (wkspace_heap w)"

interpretation wksp: allocator "wkspace_inv T" "\<lambda>w. owned (wkspace_heap w)" "admitted PPC_ALIGNMENT" lwp_wkspace_allocate lwp_wkspace_free for T
proof (standard, goal_cases)
  case (1 s n)
  then show ?case using lwp.alloc_law [of PPC_ALIGNMENT T "wkspace_heap s" n]
    unfolding wkspace_inv_def lwp_wkspace_allocate_def by fastforce
next
  case (2 s p lo hi)
  then show ?case using lwp.release_law [of PPC_ALIGNMENT T "wkspace_heap s" p lo hi]
    unfolding wkspace_inv_def lwp_wkspace_free_def by fastforce
qed

interpretation wkspt: tracked_allocator "wkspace_inv T" "\<lambda>w. owned (wkspace_heap w)" "admitted PPC_ALIGNMENT"
  lwp_wkspace_allocate lwp_wkspace_free "\<lambda>w. blocks (wkspace_heap w)" for T
proof (standard, goal_cases)
  case (1 s n p s')
  then show ?case using lwpt.alloc_used [of PPC_ALIGNMENT T "wkspace_heap s" n p "wkspace_heap s'"]
    by (auto simp: wkspace_inv_def lwp_wkspace_allocate_def)
next
  case (2 s p b)
  then show ?case using lwpt.release_used [of PPC_ALIGNMENT T "wkspace_heap s" p b]
    by (simp add: wkspace_inv_def lwp_wkspace_free_def case_prod_beta)
qed

lemma wkspace_totals:
  assumes "wkspace_inv T w"
  shows "\<exists>f u w1 w2. lwp_wkspace_heapfree w = Some (f, w1) \<and> lwp_wkspace_heapused w = Some (u, w2) \<and> unat f + unat u = T"
proof -
  obtain ts fs where ok: "heap_ok (wkspace_heap w) ts fs" "tsum ts = T" using assms by (auto simp: wkspace_inv_def heap_inv_def)
  have "free_bytes ts < 2 ^ 32" "used_bytes ts < 2 ^ 32" using tile_bytes [of ts] heap_okD(2) [OF ok(1)] by simp_all
  then show ?thesis using tile_bytes [of ts] ok(2) unat_of_nat32
    by (simp add: lwp_wkspace_heapfree_def lwp_wkspace_heapused_def wkspace_info_def heap_getinfo_ok [OF ok(1)])
qed

end
