(* ===== verification/HeapProps.thy ===== *)
theory HeapProps
  imports Wkspace
begin

text \<open>The properties of the heap and of the workspace, with their witnesses.\<close>

section \<open>A heap to try them on\<close>

definition heap_blank :: heap_cntrl where
  "heap_blank = \<lparr>blk = (\<lambda>_. \<lparr>back_flag = 0, front_flag = 0, h_next = NULL, h_prev = NULL\<rparr>), word_at = (\<lambda>_. 0),
     hc = 0x80001000, h_start = NULL, h_final = NULL, pg_size = 0\<rparr>"

definition heap0 :: heap_cntrl where
  "heap0 = snd (lwp_heap_init 0x80100000 0x1000 8 heap_blank)"

definition wkspace0 :: wkspace where
  "wkspace0 = \<lparr>wkspace_heap = heap_blank, wkspace_iblock = \<lparr>free_count = 0, free_size = 0, used_count = 0, used_size = 0\<rparr>,
     wkspace_heap_size = 0, arena_lo = 0x80100008\<rparr>"

lemma heap0_ok: "heap_ok heap0 [(0xff8, False)] [0x80100000]" "pg_size heap0 = 8"
proof -
  obtain n h where r: "lwp_heap_init 0x80100000 0x1000 8 heap_blank = (n, h)" by fastforce
  have "heap_ok h [(unat (0x1000 :: u32) - 8, False)] [0x80100000] \<and> n = 0x1000 - 16 \<and> pg_size h = 8 \<and> h_start h = 0x80100000"
    by (rule heap_init_ok [OF _ _ _ _ _ _ _ _ r]) (simp_all add: lwp_heap_pgsize_valid_def heap_blank_def)
  then show "heap_ok heap0 [(0xff8, False)] [0x80100000]" "pg_size heap0 = 8" by (simp_all add: heap0_def r)
qed

section \<open>Properties\<close>

text \<open>
  C12. Every pointer that \<^verbatim>\<open>__lwp_heap_allocate\<close> hands out is memory of the requested size that no
  other holder has: after \<^verbatim>\<open>__lwp_heap_init\<close>, whatever sequence of allocations and frees the clients
  make (each freeing pointers it holds), every call returns, every free succeeds, and the memory of
  the pointers that are held is pairwise disjoint. The requests are bounded: with two pages and eight bytes of overhead they stay below
  \<open>2 ^ 32\<close>. The code refuses only the largest sizes; between them and the bound the computed block size wraps around, and the
  block handed out is too small (\<open>heap_huge_request\<close>).
\<close>

theorem heap_clients_apart:
  assumes "lwp_heap_pgsize_valid pg" "unat pg + 16 < 2 ^ 32" "HEAP_MIN_SIZE \<le> size'" "8 dvd unat size'"
    "8 dvd unat start" "unat start + unat size' + 8 \<le> 2 ^ 32"
    "unat (hc h) + 16 \<le> unat start \<or> unat start + unat size' \<le> unat (hc h)" "unat (hc h) + 4 < 2 ^ 32"
    "lwp_heap_init start size' pg h = (n, h0)"
    "\<forall>m. Take m \<in> set rs \<longrightarrow> unat m + 2 * unat pg + 8 \<le> 2 ^ 32"
  shows "\<exists>h' live. serve lwp_heap_allocate lwp_heap_free rs h0 [] = Some (h', live) \<and>
    sorted_wrt (\<lambda>(p, n) (q, m). unat p + unat n \<le> unat q \<or> unat q + unat m \<le> unat p) live"
proof -
  have "heap_inv pg (unat size' - 8) h0" using heap_init_ok [OF assms(1-9)] unfolding heap_inv_def by fastforce
  then show ?thesis using lwp.serve_apart [of pg "unat size' - 8" h0 rs] assms(10) by (auto simp: admitted_def)
qed

theorem heap_clients_apart_witness:
  "\<exists>h' live. serve lwp_heap_allocate lwp_heap_free [Take 100, Take 20, Give 1, Take 60] heap0 [] = Some (h', live) \<and>
    sorted_wrt (\<lambda>(p, n) (q, m). unat p + unat n \<le> unat q \<or> unat q + unat m \<le> unat p) live"
  by (rule heap_clients_apart [where pg = 8 and size' = "0x1000" and start = "0x80100000" and h = heap_blank and n = "0xff0"])
    (auto simp: lwp_heap_pgsize_valid_def heap_blank_def heap0_def lwp_heap_init_def Let_def)

text \<open>
  C14. Allocating finds memory whenever a free block is large enough for the request with its
  overhead, and freeing the pointer at once brings the heap back to the same blocks: the remainder that
  was split off and the block returned are merged again.
\<close>

theorem heap_allocate_free_restores:
  assumes "heap_ok h ts fs" "unat s + 2 * unat (pg_size h) + 8 \<le> 2 ^ 32" "(m, False) \<in> set ts" "block_req (unat (pg_size h)) (unat s) \<le> m"
  shows "\<exists>p h' h'' fs''. lwp_heap_allocate s h = Some (p, h') \<and> lwp_heap_free p h' = (True, h'') \<and> heap_ok h'' ts fs''"
  by (rule heap_allocate_free [OF assms])

theorem heap_allocate_free_restores_witness:
  "\<exists>p h' h'' fs''. lwp_heap_allocate 100 heap0 = Some (p, h') \<and> lwp_heap_free p h' = (True, h'') \<and> heap_ok h'' [(0xff8, False)] fs''"
  by (rule heap_allocate_free_restores [OF heap0_ok(1), where m = "0xff8"]) (simp_all add: heap0_ok block_req_def)

text \<open>
  A request near the end of the 32-bit range is not refused: the size of the block wraps around, and
  a heap with page size 8 serves it exactly like a request for no bytes at all.
\<close>

theorem heap_huge_request:
  assumes "pg_size h = 8" "0xfffffff0 \<le> s" "s < 0xfffffff7"
  shows "lwp_heap_allocate s h = lwp_heap_allocate 0 h"
proof -
  have "unat (0xfffffff0 :: u32) \<le> unat s" "unat s < unat (0xfffffff7 :: u32)"
    using assms(2,3) unfolding word_le_nat_alt word_less_nat_alt by simp_all
  then obtain k :: nat where k: "k < 7" "unat s = 0xfffffff0 + k" using that [of "unat s - 0xfffffff0"] by auto
  have s: "s = 0xfffffff0 + of_nat k" using k by (simp add: word_unat_eq_iff unat_plus_if' unat_of_nat32)
  have "k = 0 \<or> k = 1 \<or> k = 2 \<or> k = 3 \<or> k = 4 \<or> k = 5 \<or> k = 6" using k(1) by linarith
  then have "heap_dsize 8 s = 16" unfolding s by (elim disjE) (simp_all add: heap_dsize_def)
  moreover have "heap_dsize 8 0 = 16" by (simp add: heap_dsize_def)
  moreover have "\<not> s \<ge> - 1 - HEAP_BLOCK_USED_OVERHEAD"
  proof -
    have "- 1 - HEAP_BLOCK_USED_OVERHEAD = 0xfffffff7" by simp
    then show ?thesis using assms(3) by (simp only: not_le)
  qed
  ultimately show ?thesis using assms(1) by (simp add: lwp_heap_allocate_def)
qed

theorem heap_huge_request_witness:
  "lwp_heap_allocate 0xfffffff0 heap0 = lwp_heap_allocate 0 heap0 \<and> fst (the (lwp_heap_allocate 0 heap0)) \<noteq> NULL"
proof -
  obtain p h' lo hi where "lwp_heap_allocate 0 heap0 = Some (p, h')" "owned h' p lo hi"
    using heap_allocate_ok [OF heap0_ok(1), of 0 "0xff8"] by (auto simp: heap0_ok(2) block_req_def)
  then have "fst (the (lwp_heap_allocate 0 heap0)) \<noteq> NULL" by (auto simp: owned_def)
  then show ?thesis using heap_huge_request [OF heap0_ok(2), of "0xfffffff0"] by simp
qed

text \<open>
  C31. The workspace loses no memory: after \<^verbatim>\<open>__lwp_wkspace_init\<close> and any sequence of allocations (of bounded size, as in
  the heap) and frees, \<^verbatim>\<open>__lwp_wkspace_heapfree\<close> and \<^verbatim>\<open>__lwp_wkspace_heapused\<close> add up to the same total, eight bytes
  more than \<^verbatim>\<open>__lwp_wkspace_heapsize\<close> says.
\<close>

theorem wkspace_accounting:
  assumes "unat (arena_lo w) + unat size' + 8 \<le> 2 ^ 32" "64 \<le> unat size'" "8 dvd unat size'" "8 dvd unat (arena_lo w)"
    "unat (hc (wkspace_heap w)) + 16 \<le> unat (arena_lo w)" "wkspace_heap_size w = 0"
    "\<forall>m. Take m \<in> set rs \<longrightarrow> unat m + 24 \<le> 2 ^ 32"
  shows "\<exists>w' live f u w1 w2. serve lwp_wkspace_allocate lwp_wkspace_free rs (lwp_wkspace_init size' w) [] = Some (w', live) \<and>
    lwp_wkspace_heapfree w' = Some (f, w1) \<and> lwp_wkspace_heapused w' = Some (u, w2) \<and>
    unat f + unat u = unat (lwp_wkspace_heapsize (lwp_wkspace_init size' w)) + 8"
proof -
  obtain n where n: "heap_ok (wkspace_heap (lwp_wkspace_init size' w)) [(n, False)] [ROUND32UP (arena_lo w)]"
      "lwp_wkspace_heapsize (lwp_wkspace_init size' w) = lwp_wkspace_heapsize w + of_nat n - 8"
      "pg_size (wkspace_heap (lwp_wkspace_init size' w)) = PPC_ALIGNMENT"
    using wkspace_init_ok [OF assms(1-5)] by blast
  then have "wkspace_inv n (lwp_wkspace_init size' w)" unfolding wkspace_inv_def heap_inv_def by fastforce
  then obtain w' live where r: "serve lwp_wkspace_allocate lwp_wkspace_free rs (lwp_wkspace_init size' w) [] = Some (w', live)" "wkspace_inv n w'"
    using wksp.serve_apart [of n "lwp_wkspace_init size' w" rs] assms(7) by (auto simp: admitted_def)
  have "16 \<le> n" "n < 2 ^ 32" using heap_okD(2,4) [OF n(1)] by (auto simp: tiled_simps tile_ok_def)
  then have "unat (lwp_wkspace_heapsize (lwp_wkspace_init size' w)) = n - 8"
    using n(2) assms(6) unat_of_nat32 [of n] by (simp add: lwp_wkspace_heapsize_def unat_sub word_le_nat_alt)
  then show ?thesis using r wkspace_totals [OF r(2)] \<open>16 \<le> n\<close> by fastforce
qed

theorem wkspace_accounting_witness:
  "\<exists>w' live f u w1 w2. serve lwp_wkspace_allocate lwp_wkspace_free [Take 100, Take 20, Give 1] (lwp_wkspace_init 0x10000 wkspace0) [] = Some (w', live) \<and>
    lwp_wkspace_heapfree w' = Some (f, w1) \<and> lwp_wkspace_heapused w' = Some (u, w2) \<and>
    unat f + unat u = unat (lwp_wkspace_heapsize (lwp_wkspace_init 0x10000 wkspace0)) + 8"
  by (rule wkspace_accounting) (auto simp: wkspace0_def heap_blank_def)

end
