(* ===== verification/ByteMem.thy ===== *)
theory ByteMem
  imports Ogc_Prelude
begin

text \<open>Memory as bytes: blocks of bytes and big-endian words in it, and the address maps of \<^verbatim>\<open>gc/ogc/system.h\<close>.\<close>

type_synonym bmem = "ptr \<Rightarrow> u8"

definition MEM_VIRTUAL_TO_PHYSICAL :: "ptr \<Rightarrow> ptr" where
  "MEM_VIRTUAL_TO_PHYSICAL x = x AND NOT 0xc0000000"

definition MEM_PHYSICAL_TO_K0 :: "ptr \<Rightarrow> ptr" where
  "MEM_PHYSICAL_TO_K0 x = x + 0x80000000"

definition load_bytes :: "bmem \<Rightarrow> ptr \<Rightarrow> nat \<Rightarrow> u8 list" where
  "load_bytes m a n = map (\<lambda>i. m (a + of_nat i)) [0 ..< n]"

definition store_bytes :: "ptr \<Rightarrow> u8 list \<Rightarrow> bmem \<Rightarrow> bmem" where
  "store_bytes a bs m = (\<lambda>x. if unat (x - a) < length bs then bs ! unat (x - a) else m x)"

definition be_bytes :: "nat \<Rightarrow> u64 \<Rightarrow> u8 list" where
  "be_bytes n v = map (\<lambda>i. ucast (drop_bit (8 * (n - 1 - i)) v)) [0 ..< n]"

definition load_u32 :: "bmem \<Rightarrow> ptr \<Rightarrow> u32" where
  "load_u32 m a = push_bit 24 (ucast (m a)) OR push_bit 16 (ucast (m (a + 1))) OR push_bit 8 (ucast (m (a + 2))) OR ucast (m (a + 3))"

definition store_u32 :: "ptr \<Rightarrow> u32 \<Rightarrow> bmem \<Rightarrow> bmem" where
  "store_u32 a v = store_bytes a (be_bytes 4 (ucast v))"

definition strnlen_at :: "bmem \<Rightarrow> ptr \<Rightarrow> nat \<Rightarrow> nat" where
  "strnlen_at m a n = (case find (\<lambda>i. m (a + of_nat i) = 0) [0 ..< n] of None \<Rightarrow> n | Some i \<Rightarrow> i)"

lemma length_load_bytes [simp]: "length (load_bytes m a n) = n"
  by (simp add: load_bytes_def)

lemma length_be_bytes [simp]: "length (be_bytes n v) = n"
  by (simp add: be_bytes_def)

lemma load_bytes_add: "load_bytes m a (j + k) = load_bytes m a j @ load_bytes m (a + of_nat j) k"
  by (rule nth_equalityI) (auto simp: load_bytes_def nth_append of_nat_diff add.assoc)

lemma load_store_bytes:
  assumes "length bs \<le> 2 ^ 32"
  shows "load_bytes (store_bytes a bs m) a (length bs) = bs"
proof (rule nth_equalityI)
  fix i assume "i < length (load_bytes (store_bytes a bs m) a (length bs))"
  then have i: "i < length bs" by simp
  then have "unat (of_nat i :: ptr) = i" using assms by (simp add: unat_of_nat take_bit_nat_eq_self)
  then show "load_bytes (store_bytes a bs m) a (length bs) ! i = bs ! i"
    using i by (simp add: load_bytes_def store_bytes_def)
qed simp

lemma store_bytes_other: "length bs \<le> unat (x - a) \<Longrightarrow> store_bytes a bs m x = m x"
  by (simp add: store_bytes_def)

end
