(* ===== verification/Ipc.thy ===== *)
theory Ipc
  imports HeapUse SlotTable ByteMem KIrq
begin

text \<open>
  The messages to the IOS processor, \<^verbatim>\<open>libogc/ipc.c\<close>: the heaps for messages, the ring of 16 queued
  requests, the mailbox protocol with its acknowledgements and the interrupt handlers, and the calls
  \<^verbatim>\<open>IOS_Open\<close> to \<^verbatim>\<open>IOS_IoctlvRebootBackground\<close> (their formatted variants are in \<^verbatim>\<open>IpcFmt\<close>).

  Requests are records by address and vectors of \<^verbatim>\<open>ioctlv\<close> are kept by the address of each entry. The hardware
  registers are not ours: \<open>rd s r\<close> is the sequence of values that the next reads of register \<open>r\<close> return,
  \<open>wr s\<close> the log of all writes. Waking a thread queue is logged in \<open>woken\<close>, not carried out on the kernel's queues; \<open>ee\<close> is whether interrupts are
  enabled (the \<open>EE\<close> bit, kept here and not in the kernel's state); \<open>ipc_irqs\<close> is the interrupt controller, in which the handler is registered.
  \<open>accepted\<close> is a history variable without counterpart in the code: the requests for which \<^verbatim>\<open>__ipc_asyncrequest\<close> and \<^verbatim>\<open>__ipc_syncrequest\<close>
  reported \<^verbatim>\<open>IPC_OK\<close>, in that order. Nothing reads it. Cache maintenance has no effect on this state. Negative results are words, as in C.

  A synchronous call sleeps in its middle; it is modelled by what it does before (\<open>ios_sync\<close>) and after
  (\<open>ios_sync_end\<close>).
\<close>

section \<open>Data\<close>

type_synonym s32 = "32 word"

abbreviation IPC_OK :: s32 where "IPC_OK \<equiv> 0"
abbreviation IPC_EINVAL :: s32 where "IPC_EINVAL \<equiv> - 4"
abbreviation IPC_ENOHEAP :: s32 where "IPC_ENOHEAP \<equiv> - 5"
abbreviation IPC_EQUEUEFULL :: s32 where "IPC_EQUEUEFULL \<equiv> - 8"
abbreviation IPC_ENOMEM :: s32 where "IPC_ENOMEM \<equiv> - 22"

abbreviation IOS_OPEN :: u32 where "IOS_OPEN \<equiv> 1"
abbreviation IOS_CLOSE :: u32 where "IOS_CLOSE \<equiv> 2"
abbreviation IOS_READ :: u32 where "IOS_READ \<equiv> 3"
abbreviation IOS_WRITE :: u32 where "IOS_WRITE \<equiv> 4"
abbreviation IOS_SEEK :: u32 where "IOS_SEEK \<equiv> 5"
abbreviation IOS_IOCTL :: u32 where "IOS_IOCTL \<equiv> 6"
abbreviation IOS_IOCTLV :: u32 where "IOS_IOCTLV \<equiv> 7"

abbreviation RELNCH_RELAUNCH :: u32 where "RELNCH_RELAUNCH \<equiv> 1"
abbreviation RELNCH_BACKGROUND :: u32 where "RELNCH_BACKGROUND \<equiv> 2"

abbreviation IPC_HEAP_SIZE :: u32 where "IPC_HEAP_SIZE \<equiv> 4096"
abbreviation IPC_REQUESTSIZE :: u32 where "IPC_REQUESTSIZE \<equiv> 64"
abbreviation IPC_NUMHEAPS :: nat where "IPC_NUMHEAPS \<equiv> 16"
abbreviation TQUEUE_NULL :: u32 where "TQUEUE_NULL \<equiv> 0xffffffff"

text \<open>\<open>r_fd\<close> is the union of \<^verbatim>\<open>fd\<close> and \<^verbatim>\<open>req_cmd\<close>; \<open>r_arg\<close> the union of the arguments as five words.\<close>

record ipcreq =
  r_cmd :: u32
  r_result :: s32
  r_fd :: u32
  r_arg :: "nat \<Rightarrow> u32"
  r_cb :: ptr
  r_usrdata :: ptr
  r_relnch :: u32
  r_syncqueue :: u32
  r_magic :: u32

record ipcheap =
  membase :: ptr
  ih_size :: u32
  ih_heap :: heap_cntrl

record ipc =
  cnt_sent :: u32
  cnt_queue :: u32
  req_send_no :: u32
  req_queue_no :: u32
  reqs :: "nat \<Rightarrow> ptr"
  rq :: "ptr \<Rightarrow> ipcreq"
  vec :: "ptr \<Rightarrow> ptr \<times> u32"
  mailboxack :: int
  relnchFl :: bool
  relnchRpc :: ptr
  req_magic :: u32
  spuriousresponsecnt :: u64
  ipc_hid :: s32
  ipc_heaps :: "nat \<Rightarrow> ipcheap"
  bufferlo :: ptr
  bufferhi :: ptr
  currbufferlo :: ptr
  currbufferhi :: ptr
  ipc_initialized :: bool
  ipc_clntinitialized :: bool
  ipc_seed :: u32
  rd :: "nat \<Rightarrow> nat \<Rightarrow> u32"
  wr :: "(nat \<times> u32) list"
  queue_slots :: u64
  woken :: "u32 list"
  ee :: bool
  ipc_irqs :: irqstate
  accepted :: "ptr list"

definition upd_rq :: "ptr \<Rightarrow> (ipcreq \<Rightarrow> ipcreq) \<Rightarrow> ipc \<Rightarrow> ipc" where
  "upd_rq p f s = s\<lparr>rq := (rq s)(p := f (rq s p))\<rparr>"

definition upd_arg :: "nat \<Rightarrow> (u32 \<Rightarrow> u32) \<Rightarrow> ipcreq \<Rightarrow> ipcreq" where
  "upd_arg i f r = r\<lparr>r_arg := (r_arg r)(i := f (r_arg r i))\<rparr>"

definition ipc_isr :: "(ipc \<Rightarrow> 'a \<times> ipc) \<Rightarrow> ipc \<Rightarrow> 'a \<times> ipc" where
  "ipc_isr f s = (case f (s\<lparr>ee := False\<rparr>) of (r, s') \<Rightarrow> (r, s'\<lparr>ee := ee s\<rparr>))"

section \<open>Registers and small helpers\<close>

definition IPC_ReadReg :: "nat \<Rightarrow> ipc \<Rightarrow> u32 \<times> ipc" where
  "IPC_ReadReg r s = (rd s r 0, s\<lparr>rd := (rd s)(r := (\<lambda>n. rd s r (Suc n)))\<rparr>)"

definition IPC_WriteReg :: "nat \<Rightarrow> u32 \<Rightarrow> ipc \<Rightarrow> ipc" where
  "IPC_WriteReg r v s = s\<lparr>wr := wr s @ [(r, v)]\<rparr>"

definition ACR_WriteReg :: "nat \<Rightarrow> u32 \<Rightarrow> ipc \<Rightarrow> ipc" where
  "ACR_WriteReg r v s = s\<lparr>wr := wr s @ [(r div 4, v)]\<rparr>"

text \<open>\<^verbatim>\<open>IPC_WriteReg(1, (IPC_ReadReg(1) & 0x30) | v)\<close>, the way the control register is always written.\<close>

definition ipc_ctrl :: "u32 \<Rightarrow> ipc \<Rightarrow> ipc" where
  "ipc_ctrl v s = (let (r, s1) = IPC_ReadReg 1 s in IPC_WriteReg 1 ((r AND 0x30) OR v) s1)"

definition ipc_srand :: "u32 \<Rightarrow> ipc \<Rightarrow> ipc" where
  "ipc_srand seed s = s\<lparr>ipc_seed := seed\<rparr>"

definition ipc_rand :: "ipc \<Rightarrow> u32 \<times> ipc" where
  "ipc_rand s = (let v = 214013 * ipc_seed s + 2531011 in (v, s\<lparr>ipc_seed := v\<rparr>))"

section \<open>Heaps\<close>

definition iosAlloc :: "s32 \<Rightarrow> s32 \<Rightarrow> ipc \<Rightarrow> (ptr \<times> ipc) option" where
  "iosAlloc hid size' s =
     (if hid <s 0 \<or> 16 \<le>s hid \<or> size' \<le>s 0 then Some (NULL, s)
      else let i = unat hid; h = ipc_heaps s i in
        map_option (\<lambda>(p, h'). (p, s\<lparr>ipc_heaps := (ipc_heaps s)(i := h\<lparr>ih_heap := h'\<rparr>)\<rparr>)) (lwp_heap_allocate size' (ih_heap h)))"

definition iosFree :: "s32 \<Rightarrow> ptr \<Rightarrow> ipc \<Rightarrow> ipc" where
  "iosFree hid p s =
     (if hid <s 0 \<or> 16 \<le>s hid \<or> p = NULL then s
      else let i = unat hid; h = ipc_heaps s i in
        s\<lparr>ipc_heaps := (ipc_heaps s)(i := h\<lparr>ih_heap := snd (lwp_heap_free p (ih_heap h))\<rparr>)\<rparr>)"

definition ipc_allocreq :: "ipc \<Rightarrow> (ptr \<times> ipc) option" where
  "ipc_allocreq s = iosAlloc (ipc_hid s) IPC_REQUESTSIZE s"

definition ipc_freereq :: "ptr \<Rightarrow> ipc \<Rightarrow> ipc" where
  "ipc_freereq p s = iosFree (ipc_hid s) p s"

definition IPC_GetBufferLo :: "ipc \<Rightarrow> ptr" where "IPC_GetBufferLo s = currbufferlo s"
definition IPC_GetBufferHi :: "ipc \<Rightarrow> ptr" where "IPC_GetBufferHi s = currbufferhi s"

definition IPC_SetBufferLo :: "ptr \<Rightarrow> ipc \<Rightarrow> ipc" where
  "IPC_SetBufferLo b s = (if bufferlo s \<le> b then s\<lparr>currbufferlo := b\<rparr> else s)"

definition IPC_SetBufferHi :: "ptr \<Rightarrow> ipc \<Rightarrow> ipc" where
  "IPC_SetBufferHi b s = (if b \<le> bufferhi s then s\<lparr>currbufferhi := b\<rparr> else s)"

text \<open>Two of the early returns come after interrupts were disabled and do not enable them again.\<close>

definition iosCreateHeap :: "s32 \<Rightarrow> ipc \<Rightarrow> s32 \<times> ipc" where
  "iosCreateHeap size' s =
     (let level = ee s; s0 = s\<lparr>ee := False\<rparr> in
      case find (\<lambda>i. membase (ipc_heaps s0 i) = NULL) [0..<IPC_NUMHEAPS] of
        None \<Rightarrow> (IPC_ENOHEAP, s0\<lparr>ee := level\<rparr>)
      | Some i \<Rightarrow>
          let ipclo = (IPC_GetBufferLo s0 + 0x1f) AND NOT 0x1f;
              ipchi = IPC_GetBufferHi s0;
              free = ipchi - (ipclo + size')
          in if free <s 0 then (IPC_ENOMEM, s0)
             else let (ret, h) = lwp_heap_init ipclo size' 32 (ih_heap (ipc_heaps s0 i));
                      s1 = s0\<lparr>ipc_heaps := (ipc_heaps s0)(i := \<lparr>membase = ipclo, ih_size = size', ih_heap = h\<rparr>)\<rparr>
                  in if ret \<le>s 0 then (IPC_ENOMEM, s1)
                     else (of_nat i, (IPC_SetBufferLo (ipclo + size') s1)\<lparr>ee := level\<rparr>))"

section \<open>The queue and the mailbox\<close>

definition ipc_syncqueuerequest :: "ptr \<Rightarrow> ipc \<Rightarrow> s32 \<times> ipc" where
  "ipc_syncqueuerequest req s =
     (let cnt = cnt_queue s - cnt_sent s in
      if cnt \<ge> 16 then (IPC_EQUEUEFULL, s)
      else (IPC_OK, s\<lparr>reqs := (reqs s)(unat (req_queue_no s) := req),
                      req_queue_no := (req_queue_no s + 1) AND 0x0f, cnt_queue := cnt_queue s + 1\<rparr>))"

definition ipc_queuerequest :: "ptr \<Rightarrow> ipc \<Rightarrow> s32 \<times> ipc" where
  "ipc_queuerequest req = ipc_isr (\<lambda>s.
     let cnt = cnt_queue s - cnt_sent s in
     if cnt \<ge> 16 then (IPC_EQUEUEFULL, s)
     else (IPC_OK, s\<lparr>reqs := (reqs s)(unat (req_queue_no s) := req),
                     req_queue_no := (req_queue_no s + 1) AND 0x0f, cnt_queue := cnt_queue s + 1\<rparr>))"

definition ipc_sendrequest :: "ipc \<Rightarrow> ipc" where
  "ipc_sendrequest s =
     (let cnt = cnt_queue s - cnt_sent s; req = reqs s (unat (req_send_no s)) in
      if cnt > 0 \<and> req \<noteq> NULL then
        let s1 = upd_rq req (\<lambda>r. r\<lparr>r_magic := req_magic s\<rparr>) s;
            fl = r_relnch (rq s1 req);
            s2 = (if fl AND RELNCH_RELAUNCH \<noteq> 0
                  then s1\<lparr>relnchFl := True, relnchRpc := req,
                          mailboxack := mailboxack s1 - (if fl AND RELNCH_BACKGROUND = 0 then 1 else 0)\<rparr>
                  else s1);
            s3 = IPC_WriteReg 0 (MEM_VIRTUAL_TO_PHYSICAL req) s2;
            s4 = s3\<lparr>req_send_no := (req_send_no s3 + 1) AND 0x0f, cnt_sent := cnt_sent s3 + 1, mailboxack := mailboxack s3 - 1\<rparr>
        in ipc_ctrl 1 s4
      else s)"

definition thread_signal :: "u32 \<Rightarrow> ipc \<Rightarrow> ipc" where
  "thread_signal q s = (if q \<noteq> 0 \<and> q \<noteq> TQUEUE_NULL then s\<lparr>woken := woken s @ [q]\<rparr> else s)"

definition ack_up :: "ipc \<Rightarrow> ipc" where
  "ack_up s = (if mailboxack s < 1 then s\<lparr>mailboxack := mailboxack s + 1\<rparr> else s)"

text \<open>The entries of a vector are eight bytes apart.\<close>

definition vec_k0 :: "ptr \<Rightarrow> nat \<Rightarrow> ipc \<Rightarrow> ipc" where
  "vec_k0 v i s =
     (let a = v + 8 * of_nat i in
      if fst (vec s a) \<noteq> NULL then s\<lparr>vec := (vec s)(a := (MEM_PHYSICAL_TO_K0 (fst (vec s a)), snd (vec s a)))\<rparr> else s)"

definition reply_args :: "ptr \<Rightarrow> ipc \<Rightarrow> ipc" where
  "reply_args req s =
     (let k0 = (\<lambda>x. if x \<noteq> NULL then MEM_PHYSICAL_TO_K0 x else x); c = r_fd (rq s req) in
      if c = IOS_READ then upd_rq req (upd_arg 0 k0) s
      else if c = IOS_IOCTL then upd_rq req (upd_arg 3 k0) (upd_rq req (upd_arg 1 k0) s)
      else if c = IOS_IOCTLV then
        let s1 = upd_rq req (upd_arg 3 k0) s;
            r = rq s1 req;
            s2 = fold (vec_k0 (r_arg r 3)) [0 ..< unat (r_arg r 1 + r_arg r 2)] s1
        in if relnchFl s2 \<and> relnchRpc s2 = req then ack_up (s2\<lparr>relnchFl := False\<rparr>) else s2
      else s)"

text \<open>\<open>run_cb\<close> is the code of the callbacks: given the callback, the result and the user data.\<close>

definition ipc_replyhandler :: "(ptr \<Rightarrow> s32 \<Rightarrow> ptr \<Rightarrow> ipc \<Rightarrow> ipc option) \<Rightarrow> ipc \<Rightarrow> ipc option" where
  "ipc_replyhandler run_cb s =
     (let (p, s1) = IPC_ReadReg 2 s in
      if p = NULL then Some s1
      else let s2 = ACR_WriteReg 48 0x40000000 (ipc_ctrl 4 s1); req = MEM_PHYSICAL_TO_K0 p in
        do { s3 \<leftarrow> (if r_magic (rq s2 req) = req_magic s2 then
                      let s' = reply_args req s2; r = rq s' req in
                      if r_cb r \<noteq> NULL
                      then map_option (ipc_freereq req) (run_cb (r_cb r) (r_result r) (r_usrdata r) s')
                      else Some (thread_signal (r_syncqueue r) s')
                    else Some (s2\<lparr>spuriousresponsecnt := spuriousresponsecnt s2 + 1\<rparr>));
             Some (ipc_ctrl 8 s3) })"

definition ipc_ackhandler :: "ipc \<Rightarrow> ipc" where
  "ipc_ackhandler s =
     (let s1 = ack_up (ACR_WriteReg 48 0x40000000 (ipc_ctrl 2 s)) in
      if mailboxack s1 > 0 then
        ipc_sendrequest
          (if relnchFl s1
           then let s2 = (upd_rq (relnchRpc s1) (\<lambda>r. r\<lparr>r_result := 0\<rparr>) s1)\<lparr>relnchFl := False\<rparr>
                in ipc_ctrl 8 (thread_signal (r_syncqueue (rq s2 (relnchRpc s2))) s2)
           else s1)
      else s1)"

definition ipc_interrupthandler :: "(ptr \<Rightarrow> s32 \<Rightarrow> ptr \<Rightarrow> ipc \<Rightarrow> ipc option) \<Rightarrow> ipc \<Rightarrow> ipc option" where
  "ipc_interrupthandler run_cb s =
     (let (i, s1) = IPC_ReadReg 1 s in
      do { s2 \<leftarrow> (if i AND 0x14 = 0x14 then ipc_replyhandler run_cb s1 else Some s1);
           let (j, s3) = IPC_ReadReg 1 s2 in
           Some (if j AND 0x22 = 0x22 then ipc_ackhandler s3 else s3) })"

section \<open>Requests\<close>

text \<open>Recording in \<open>accepted\<close> that a request was reported as accepted.\<close>

definition note_accepted :: "ptr \<Rightarrow> s32 \<Rightarrow> ipc \<Rightarrow> ipc" where
  "note_accepted req ret s = (if ret = IPC_OK then s\<lparr>accepted := accepted s @ [req]\<rparr> else s)"

definition ipc_asyncrequest :: "ptr \<Rightarrow> ipc \<Rightarrow> s32 \<times> ipc" where
  "ipc_asyncrequest req s =
     (let (ret, s1) = ipc_queuerequest req s;
          s2 = (if ret \<noteq> 0 then ipc_freereq req s1
                else snd (ipc_isr (\<lambda>s. ((), if mailboxack s > 0 then ipc_sendrequest s else s)) s1))
      in (ret, note_accepted req ret s2))"

text \<open>
  Until the caller sleeps: \<^verbatim>\<open>LWP_InitQueue\<close>, queueing and sending. The first result says that the caller
  sleeps, which it does not when the queue is full or no thread queue was left.
\<close>

definition init_queue :: "ptr \<Rightarrow> ipc \<Rightarrow> ipc" where
  "init_queue req s =
     (let (slot, used) = alloc_slot (queue_slots s) in
      upd_rq req (\<lambda>r. r\<lparr>r_syncqueue := (if slot \<ge> 0 then of_int slot + 1 else TQUEUE_NULL)\<rparr>) (s\<lparr>queue_slots := used\<rparr>))"

definition close_queue :: "u32 \<Rightarrow> ipc \<Rightarrow> ipc" where
  "close_queue q s =
     (if q \<noteq> 0 \<and> q \<noteq> TQUEUE_NULL then s\<lparr>queue_slots := free_slot (queue_slots s) (unat (q - 1))\<rparr> else s)"

definition ipc_syncrequest :: "ptr \<Rightarrow> ipc \<Rightarrow> bool \<times> s32 \<times> ipc" where
  "ipc_syncrequest req s =
     (let (ret, s2) = ipc_syncqueuerequest req ((init_queue req s)\<lparr>ee := False\<rparr>) in
      if ret = 0
      then let s3 = (if mailboxack s2 > 0 then ipc_sendrequest s2 else s2)
           in (r_syncqueue (rq s3 req) \<noteq> TQUEUE_NULL, ret, note_accepted req ret s3)
      else (False, ret, note_accepted req ret s2))"

text \<open>After the sleep: the result, closing the thread queue and freeing the request.\<close>

definition ios_sync_end :: "ptr \<Rightarrow> bool \<Rightarrow> s32 \<Rightarrow> ipc \<Rightarrow> s32 \<times> ipc" where
  "ios_sync_end req level ret s =
     (let ret' = (if ret = 0 then r_result (rq s req) else ret)
      in (ret', ipc_freereq req (close_queue (r_syncqueue (rq s req)) (s\<lparr>ee := level\<rparr>))))"

definition ios_async :: "(ipcreq \<Rightarrow> ipcreq) \<Rightarrow> (ipc \<Rightarrow> ipc) \<Rightarrow> ipc \<Rightarrow> (s32 \<times> ipc) option" where
  "ios_async fill g s =
     do { (req, s1) \<leftarrow> ipc_allocreq s;
          Some (if req = NULL then (IPC_ENOMEM, s1) else ipc_asyncrequest req (g (upd_rq req fill s1))) }"

definition ios_sync :: "(ipcreq \<Rightarrow> ipcreq) \<Rightarrow> (ipc \<Rightarrow> ipc) \<Rightarrow> ipc \<Rightarrow> (ptr \<times> bool \<times> s32 \<times> ipc) option" where
  "ios_sync fill g s =
     do { (req, s1) \<leftarrow> ipc_allocreq s;
          Some (req, if req = NULL then (False, IPC_ENOMEM, s1) else ipc_syncrequest req (g (upd_rq req fill s1))) }"

section \<open>The calls\<close>

definition fill_req :: "u32 \<Rightarrow> s32 \<Rightarrow> (ptr \<times> ptr) option \<Rightarrow> u32 \<Rightarrow> (nat \<Rightarrow> u32 option) \<Rightarrow> ipcreq \<Rightarrow> ipcreq" where
  "fill_req c fd cb relnch ar r =
     (let r1 = r\<lparr>r_cmd := c, r_fd := fd, r_relnch := relnch, r_arg := (\<lambda>i. case ar i of None \<Rightarrow> r_arg r i | Some v \<Rightarrow> v)\<rparr> in
      case cb of None \<Rightarrow> r1\<lparr>r_cb := NULL\<rparr> | Some (f, d) \<Rightarrow> r1\<lparr>r_cb := f, r_usrdata := d\<rparr>)"

text \<open>\<^verbatim>\<open>IOS_Open\<close> does not set \<^verbatim>\<open>fd\<close>.\<close>

definition fill_open :: "(ptr \<times> ptr) option \<Rightarrow> ptr \<Rightarrow> u32 \<Rightarrow> ipcreq \<Rightarrow> ipcreq" where
  "fill_open cb path' mode r = fill_req IOS_OPEN (r_fd r) cb 0 [0 \<mapsto> MEM_VIRTUAL_TO_PHYSICAL path', 1 \<mapsto> mode] r"

definition IOS_Open :: "ptr \<Rightarrow> u32 \<Rightarrow> ipc \<Rightarrow> (ptr \<times> bool \<times> s32 \<times> ipc) option" where
  "IOS_Open path' mode s =
     (if path' = NULL then Some (NULL, False, IPC_EINVAL, s) else ios_sync (fill_open None path' mode) id s)"

definition IOS_OpenAsync :: "ptr \<Rightarrow> u32 \<Rightarrow> ptr \<Rightarrow> ptr \<Rightarrow> ipc \<Rightarrow> (s32 \<times> ipc) option" where
  "IOS_OpenAsync path' mode cb d = ios_async (fill_open (Some (cb, d)) path' mode) id"

definition IOS_Close :: "s32 \<Rightarrow> ipc \<Rightarrow> (ptr \<times> bool \<times> s32 \<times> ipc) option" where
  "IOS_Close fd = ios_sync (fill_req IOS_CLOSE fd None 0 Map.empty) id"

definition IOS_CloseAsync :: "s32 \<Rightarrow> ptr \<Rightarrow> ptr \<Rightarrow> ipc \<Rightarrow> (s32 \<times> ipc) option" where
  "IOS_CloseAsync fd cb d = ios_async (fill_req IOS_CLOSE fd (Some (cb, d)) 0 Map.empty) id"

definition IOS_Read :: "s32 \<Rightarrow> ptr \<Rightarrow> s32 \<Rightarrow> ipc \<Rightarrow> (ptr \<times> bool \<times> s32 \<times> ipc) option" where
  "IOS_Read fd buf len = ios_sync (fill_req IOS_READ fd None 0 [0 \<mapsto> MEM_VIRTUAL_TO_PHYSICAL buf, 1 \<mapsto> len]) id"

definition IOS_ReadAsync :: "s32 \<Rightarrow> ptr \<Rightarrow> s32 \<Rightarrow> ptr \<Rightarrow> ptr \<Rightarrow> ipc \<Rightarrow> (s32 \<times> ipc) option" where
  "IOS_ReadAsync fd buf len cb d =
     ios_async (fill_req IOS_READ fd (Some (cb, d)) 0 [0 \<mapsto> MEM_VIRTUAL_TO_PHYSICAL buf, 1 \<mapsto> len]) id"

definition IOS_Write :: "s32 \<Rightarrow> ptr \<Rightarrow> s32 \<Rightarrow> ipc \<Rightarrow> (ptr \<times> bool \<times> s32 \<times> ipc) option" where
  "IOS_Write fd buf len = ios_sync (fill_req IOS_WRITE fd None 0 [0 \<mapsto> MEM_VIRTUAL_TO_PHYSICAL buf, 1 \<mapsto> len]) id"

definition IOS_WriteAsync :: "s32 \<Rightarrow> ptr \<Rightarrow> s32 \<Rightarrow> ptr \<Rightarrow> ptr \<Rightarrow> ipc \<Rightarrow> (s32 \<times> ipc) option" where
  "IOS_WriteAsync fd buf len cb d =
     ios_async (fill_req IOS_WRITE fd (Some (cb, d)) 0 [0 \<mapsto> MEM_VIRTUAL_TO_PHYSICAL buf, 1 \<mapsto> len]) id"

definition IOS_Seek :: "s32 \<Rightarrow> s32 \<Rightarrow> s32 \<Rightarrow> ipc \<Rightarrow> (ptr \<times> bool \<times> s32 \<times> ipc) option" where
  "IOS_Seek fd where' whence = ios_sync (fill_req IOS_SEEK fd None 0 [0 \<mapsto> where', 1 \<mapsto> whence]) id"

definition IOS_SeekAsync :: "s32 \<Rightarrow> s32 \<Rightarrow> s32 \<Rightarrow> ptr \<Rightarrow> ptr \<Rightarrow> ipc \<Rightarrow> (s32 \<times> ipc) option" where
  "IOS_SeekAsync fd where' whence cb d = ios_async (fill_req IOS_SEEK fd (Some (cb, d)) 0 [0 \<mapsto> where', 1 \<mapsto> whence]) id"

definition ioctl_args :: "u32 \<Rightarrow> ptr \<Rightarrow> u32 \<Rightarrow> ptr \<Rightarrow> u32 \<Rightarrow> nat \<Rightarrow> u32 option" where
  "ioctl_args ioctl bi li bo lo =
     [0 \<mapsto> ioctl, 1 \<mapsto> MEM_VIRTUAL_TO_PHYSICAL bi, 2 \<mapsto> li, 3 \<mapsto> MEM_VIRTUAL_TO_PHYSICAL bo, 4 \<mapsto> lo]"

definition IOS_Ioctl :: "s32 \<Rightarrow> u32 \<Rightarrow> ptr \<Rightarrow> u32 \<Rightarrow> ptr \<Rightarrow> u32 \<Rightarrow> ipc \<Rightarrow> (ptr \<times> bool \<times> s32 \<times> ipc) option" where
  "IOS_Ioctl fd ioctl bi li bo lo = ios_sync (fill_req IOS_IOCTL fd None 0 (ioctl_args ioctl bi li bo lo)) id"

definition IOS_IoctlAsync :: "s32 \<Rightarrow> u32 \<Rightarrow> ptr \<Rightarrow> u32 \<Rightarrow> ptr \<Rightarrow> u32 \<Rightarrow> ptr \<Rightarrow> ptr \<Rightarrow> ipc \<Rightarrow> (s32 \<times> ipc) option" where
  "IOS_IoctlAsync fd ioctl bi li bo lo cb d = ios_async (fill_req IOS_IOCTL fd (Some (cb, d)) 0 (ioctl_args ioctl bi li bo lo)) id"

text \<open>Entries without data or of length 0 keep their address.\<close>

definition vec_phys :: "ptr \<Rightarrow> u32 \<Rightarrow> ipc \<Rightarrow> ipc" where
  "vec_phys v i s =
     (let a = v + 8 * i in
      if fst (vec s a) \<noteq> NULL \<and> snd (vec s a) > 0
      then s\<lparr>vec := (vec s)(a := (MEM_VIRTUAL_TO_PHYSICAL (fst (vec s a)), snd (vec s a)))\<rparr> else s)"

definition vec_translate :: "ptr \<Rightarrow> s32 \<Rightarrow> s32 \<Rightarrow> ipc \<Rightarrow> ipc" where
  "vec_translate v cnt_in cnt_io s =
     fold (\<lambda>i. vec_phys v (cnt_in + of_nat i)) [0 ..< nat (sint cnt_io)] (fold (\<lambda>i. vec_phys v (of_nat i)) [0 ..< nat (sint cnt_in)] s)"

definition ioctlv_args :: "u32 \<Rightarrow> s32 \<Rightarrow> s32 \<Rightarrow> ptr \<Rightarrow> nat \<Rightarrow> u32 option" where
  "ioctlv_args ioctl cnt_in cnt_io v = [0 \<mapsto> ioctl, 1 \<mapsto> cnt_in, 2 \<mapsto> cnt_io, 3 \<mapsto> MEM_VIRTUAL_TO_PHYSICAL v]"

definition IOS_Ioctlv :: "s32 \<Rightarrow> u32 \<Rightarrow> s32 \<Rightarrow> s32 \<Rightarrow> ptr \<Rightarrow> ipc \<Rightarrow> (ptr \<times> bool \<times> s32 \<times> ipc) option" where
  "IOS_Ioctlv fd ioctl cnt_in cnt_io v =
     ios_sync (fill_req IOS_IOCTLV fd None 0 (ioctlv_args ioctl cnt_in cnt_io v)) (vec_translate v cnt_in cnt_io)"

definition IOS_IoctlvAsync :: "s32 \<Rightarrow> u32 \<Rightarrow> s32 \<Rightarrow> s32 \<Rightarrow> ptr \<Rightarrow> ptr \<Rightarrow> ptr \<Rightarrow> ipc \<Rightarrow> (s32 \<times> ipc) option" where
  "IOS_IoctlvAsync fd ioctl cnt_in cnt_io v cb d =
     ios_async (fill_req IOS_IOCTLV fd (Some (cb, d)) 0 (ioctlv_args ioctl cnt_in cnt_io v)) (vec_translate v cnt_in cnt_io)"

definition IOS_IoctlvReboot :: "s32 \<Rightarrow> u32 \<Rightarrow> s32 \<Rightarrow> s32 \<Rightarrow> ptr \<Rightarrow> ipc \<Rightarrow> (ptr \<times> bool \<times> s32 \<times> ipc) option" where
  "IOS_IoctlvReboot fd ioctl cnt_in cnt_io v =
     ios_sync (fill_req IOS_IOCTLV fd None RELNCH_RELAUNCH (ioctlv_args ioctl cnt_in cnt_io v)) (vec_translate v cnt_in cnt_io)"

definition IOS_IoctlvRebootBackground :: "s32 \<Rightarrow> u32 \<Rightarrow> s32 \<Rightarrow> s32 \<Rightarrow> ptr \<Rightarrow> ipc \<Rightarrow> (ptr \<times> bool \<times> s32 \<times> ipc) option" where
  "IOS_IoctlvRebootBackground fd ioctl cnt_in cnt_io v =
     ios_sync (\<lambda>r. fill_req IOS_IOCTLV fd None (RELNCH_BACKGROUND OR RELNCH_RELAUNCH) (ioctlv_args ioctl cnt_in cnt_io v) (r\<lparr>r_result := 0\<rparr>))
       (vec_translate v cnt_in cnt_io)"

section \<open>Initialisation\<close>

text \<open>
  The parameters are the address of \<^verbatim>\<open>__ipc_interrupthandler\<close>, the tick count and the buffer of \<^verbatim>\<open>__SYS_GetIPCBufferLo\<close> and \<^verbatim>\<open>Hi\<close>.
  \<^verbatim>\<open>IRQ_Request\<close> and \<^verbatim>\<open>__UnmaskIrq\<close> of \<^verbatim>\<open>gc/ogc/irq.h\<close> are \<open>KIrqSet\<close> and \<open>KIrqEnable\<close>; \<^verbatim>\<open>ipc.c\<close> is built for the Wii only.
\<close>

definition IPC_Init :: "ptr \<Rightarrow> ptr \<Rightarrow> ipc \<Rightarrow> ipc" where
  "IPC_Init lo hi s =
     (if \<not> ipc_initialized s
      then s\<lparr>bufferlo := lo, currbufferlo := lo, bufferhi := hi, currbufferhi := hi, ipc_initialized := True\<rparr> else s)"

definition IPC_ClntInit :: "ptr \<Rightarrow> u32 \<Rightarrow> ptr \<Rightarrow> ptr \<Rightarrow> ipc \<Rightarrow> s32 \<times> ipc" where
  "IPC_ClntInit inth tick lo hi s =
     (if \<not> ipc_clntinitialized s then
        let (m, s1) = ipc_rand (ipc_srand tick (s\<lparr>ipc_clntinitialized := True\<rparr>));
            (hid, s2) = iosCreateHeap IPC_HEAP_SIZE (IPC_Init lo hi (s1\<lparr>req_magic := m\<rparr>));
            irqs1 = snd (KIrqSet IRQ_PI_ACR inth NULL (ipc_irqs s2));
            irqs2 = KIrqEnable True (IRQMASK IRQ_PI_ACR) irqs1
        in (IPC_OK, IPC_WriteReg 1 56 (s2\<lparr>ipc_hid := hid, ipc_irqs := irqs2\<rparr>))
      else (IPC_OK, s))"

definition IPC_Reinitialize :: "ipc \<Rightarrow> ipc" where
  "IPC_Reinitialize s = snd (ipc_isr (\<lambda>s. ((), (IPC_WriteReg 1 56 s)\<lparr>mailboxack := 1, relnchFl := False, relnchRpc := NULL,
      req_queue_no := 0, cnt_queue := 0, req_send_no := 0, cnt_sent := 0\<rparr>)) s)"

end
