(* ===== verification/IpcInv.thy ===== *)
theory IpcInv
  imports Ipc
begin

text \<open>
  The ring of requests as a queue, and what every operation and every interrupt does to it: requests
  are written to the mailbox in the order in which they were accepted.
\<close>

section \<open>The ring\<close>

definition pend_n :: "ipc \<Rightarrow> nat" where "pend_n s = unat (cnt_queue s - cnt_sent s)"

definition ipc_pending :: "ipc \<Rightarrow> ptr list" where
  "ipc_pending s = map (\<lambda>i. reqs s ((unat (req_send_no s) + i) mod 16)) [0 ..< pend_n s]"

text \<open>The messages written to the mailbox so far.\<close>

definition sent :: "ipc \<Rightarrow> ptr list" where
  "sent s = map snd (filter (\<lambda>(r, _). r = 0) (wr s))"

definition ipc_trace :: "ipc \<Rightarrow> ptr list" where
  "ipc_trace s = sent s @ map MEM_VIRTUAL_TO_PHYSICAL (ipc_pending s)"

definition ipc_wf :: "ipc \<Rightarrow> bool" where
  "ipc_wf s \<longleftrightarrow> pend_n s \<le> 16 \<and> unat (req_send_no s) < 16 \<and>
     unat (req_queue_no s) = (unat (req_send_no s) + pend_n s) mod 16 \<and>
     - 1 \<le> mailboxack s \<and> mailboxack s \<le> 1 \<and> NULL \<notin> set (ipc_pending s)"

text \<open>No request waits while the mailbox is free.\<close>

definition ipc_busy :: "ipc \<Rightarrow> bool" where
  "ipc_busy s \<longleftrightarrow> (0 < mailboxack s \<longrightarrow> ipc_pending s = [])"

definition ring :: "ipc \<Rightarrow> (u32 \<times> u32 \<times> u32 \<times> u32 \<times> (nat \<Rightarrow> ptr)) \<times> int \<times> ptr list \<times> ptr list" where
  "ring s = ((cnt_sent s, cnt_queue s, req_send_no s, req_queue_no s, reqs s), mailboxack s, sent s, accepted s)"

lemma ring_cong:
  assumes "fst (ring s') = fst (ring s)"
  shows "ipc_pending s' = ipc_pending s" "pend_n s' = pend_n s"
  using assms by (simp_all add: ring_def ipc_pending_def pend_n_def)

lemma ring_wf:
  assumes "fst (ring s') = fst (ring s)" "mailboxack s' \<in> {- 1 .. 1}" "ipc_wf s"
  shows "ipc_wf s'"
  using assms ring_cong [OF assms(1)] by (auto simp: ipc_wf_def ring_def)

lemma ring_same:
  assumes "ring s' = ring s"
  shows "ipc_wf s' = ipc_wf s" "ipc_trace s' = ipc_trace s" "ipc_busy s' = ipc_busy s" "ipc_pending s' = ipc_pending s"
    "accepted s' = accepted s"
  using assms by (auto simp: ipc_wf_def ipc_trace_def ipc_busy_def ring_def ipc_pending_def pend_n_def)

lemma unat_wrap16: "unat ((x + 1) AND 0x0f :: u32) = (unat x + 1) mod 16"
proof -
  have "(0x0f :: u32) = mask 4" by (simp add: mask_numeral)
  then have "(x + 1) AND 0x0f = take_bit 4 (x + 1)" by (simp add: take_bit_eq_mask)
  then have "unat ((x + 1) AND 0x0f) = take_bit 4 (unat (x + 1))" by (simp only: unsigned_take_bit_eq)
  also have "\<dots> = (unat x + 1) mod 16"
    by (simp add: unat_word_ariths take_bit_eq_mod mod_mod_cancel)
  finally show ?thesis .
qed

section \<open>Queueing\<close>

lemma pend_n_inc: "pend_n s < 16 \<Longrightarrow> unat (cnt_queue s + 1 - cnt_sent s) = pend_n s + 1"
proof -
  assume "pend_n s < 16"
  then have "unat ((cnt_queue s - cnt_sent s) + 1) = pend_n s + 1" by (simp add: pend_n_def unat_plus_if')
  then show ?thesis by (simp add: algebra_simps)
qed

lemma queue_full_iff: "cnt_queue s - cnt_sent s \<ge> 16 \<longleftrightarrow> 16 \<le> pend_n s"
  by (simp add: pend_n_def word_le_nat_alt)

lemma syncqueue_ok:
  assumes wf: "ipc_wf s" and n: "pend_n s < 16" and r: "ipc_syncqueuerequest req s = (ret, s')" and nn: "req \<noteq> NULL"
  shows "ret = IPC_OK \<and> ipc_pending s' = ipc_pending s @ [req] \<and> ipc_wf s' \<and> mailboxack s' = mailboxack s \<and> sent s' = sent s \<and>
    relnchFl s' = relnchFl s \<and> accepted s' = accepted s"
proof -
  have s': "ret = IPC_OK" "s' = s\<lparr>reqs := (reqs s)(unat (req_queue_no s) := req),
      req_queue_no := (req_queue_no s + 1) AND 0x0f, cnt_queue := cnt_queue s + 1\<rparr>"
    using r n queue_full_iff [of s] by (auto simp: ipc_syncqueuerequest_def Let_def split: if_splits)
  have q: "unat (req_queue_no s) = (unat (req_send_no s) + pend_n s) mod 16" using wf by (simp add: ipc_wf_def)
  have n': "pend_n s' = Suc (pend_n s)" using pend_n_inc [OF n] by (simp add: s' pend_n_def)
  have "(unat (req_send_no s) + i) mod 16 \<noteq> (unat (req_send_no s) + pend_n s) mod 16" if "i < pend_n s" for i
  proof
    assume e: "(unat (req_send_no s) + i) mod 16 = (unat (req_send_no s) + pend_n s) mod 16"
    then have "16 dvd pend_n s - i" using mod_eq_dvd_iff_nat [of "unat (req_send_no s) + i" "unat (req_send_no s) + pend_n s" 16] that by simp
    then show False using that n by (auto dest: dvd_imp_le)
  qed
  then have p: "ipc_pending s' = ipc_pending s @ [req]"
    unfolding ipc_pending_def n' by (simp add: s' q)
  have "unat (req_queue_no s') = (unat (req_send_no s') + pend_n s') mod 16"
  proof -
    have "req_queue_no s' = (req_queue_no s + 1) AND 0x0f" "req_send_no s' = req_send_no s" by (simp_all add: s')
    then show ?thesis unfolding n' using q by (simp only: unat_wrap16) (simp add: mod_Suc_eq)
  qed
  then have "ipc_wf s'" using wf n nn p n' by (auto simp: ipc_wf_def s')
  then show ?thesis using s' p by (simp add: sent_def)
qed

lemma syncqueue_full:
  "16 \<le> pend_n s \<Longrightarrow> ipc_syncqueuerequest req s = (IPC_EQUEUEFULL, s)"
  using queue_full_iff [of s] by (simp add: ipc_syncqueuerequest_def)

lemma queuerequest_eq: "ipc_queuerequest req = ipc_isr (ipc_syncqueuerequest req)"
  by (simp add: ipc_queuerequest_def ipc_syncqueuerequest_def [abs_def])

lemma ring_ee [simp]: "ring (s\<lparr>ee := b\<rparr>) = ring s"
  by (simp add: ring_def sent_def)

section \<open>Sending\<close>

lemma ctrl_ring [simp]: "ring (ipc_ctrl v s) = ring s" "rq (ipc_ctrl v s) = rq s" "relnchFl (ipc_ctrl v s) = relnchFl s"
  "relnchRpc (ipc_ctrl v s) = relnchRpc s" "req_magic (ipc_ctrl v s) = req_magic s" "mailboxack (ipc_ctrl v s) = mailboxack s"
  "ipc_heaps (ipc_ctrl v s) = ipc_heaps s" "ipc_hid (ipc_ctrl v s) = ipc_hid s" "vec (ipc_ctrl v s) = vec s"
  by (simp_all add: ipc_ctrl_def IPC_ReadReg_def IPC_WriteReg_def ring_def sent_def Let_def)

lemma other_ring [simp]:
  "ring (upd_rq p f s) = ring s" "ring (ACR_WriteReg 48 v s) = ring s" "ring (thread_signal q s) = ring s"
  "ring (s\<lparr>relnchFl := b\<rparr>) = ring s" "ring (s\<lparr>spuriousresponsecnt := c\<rparr>) = ring s" "ring (s\<lparr>queue_slots := u\<rparr>) = ring s"
  "ring (snd (IPC_ReadReg r s)) = ring s" "ring (s\<lparr>vec := w\<rparr>) = ring s" "ring (s\<lparr>ipc_heaps := hp\<rparr>) = ring s"
  by (simp_all add: upd_rq_def ACR_WriteReg_def thread_signal_def IPC_ReadReg_def ring_def sent_def)

lemma send_ok:
  assumes wf: "ipc_wf s" and p: "ipc_pending s = p # ps" and a: "0 < mailboxack s"
  shows "ipc_pending (ipc_sendrequest s) = ps" "sent (ipc_sendrequest s) = sent s @ [MEM_VIRTUAL_TO_PHYSICAL p]"
    "ipc_wf (ipc_sendrequest s)" "mailboxack (ipc_sendrequest s) \<le> 0" "accepted (ipc_sendrequest s) = accepted s"
proof -
  have n: "0 < pend_n s" "pend_n s \<le> 16" using p wf by (cases "pend_n s = 0"; simp add: ipc_pending_def ipc_wf_def)+
  have sn: "unat (req_send_no s) < 16" using wf by (simp add: ipc_wf_def)
  have u: "[0 ..< pend_n s] = 0 # map Suc [0 ..< pend_n s - 1]"
    using n(1) by (simp add: map_Suc_upt upt_conv_Cons)
  then have hd: "reqs s (unat (req_send_no s)) = p" and
    ps: "ps = map (\<lambda>i. reqs s ((unat (req_send_no s) + Suc i) mod 16)) [0 ..< pend_n s - 1]"
    using p sn by (auto simp: ipc_pending_def o_def)
  have nn: "p \<noteq> NULL" using wf p by (auto simp: ipc_wf_def)
  have c: "cnt_queue s - cnt_sent s > 0" using n(1) by (simp add: pend_n_def word_less_nat_alt)
  define k :: int where "k = (if r_relnch (rq s p) AND RELNCH_RELAUNCH \<noteq> 0 \<and> r_relnch (rq s p) AND RELNCH_BACKGROUND = 0 then 2 else 1)"
  have r: "ring (ipc_sendrequest s) = ((cnt_sent s + 1, cnt_queue s, (req_send_no s + 1) AND 0x0f, req_queue_no s, reqs s),
      mailboxack s - k, sent s @ [MEM_VIRTUAL_TO_PHYSICAL p], accepted s)"
    using c nn unfolding ipc_sendrequest_def hd Let_def
    by (simp add: ring_def upd_rq_def IPC_WriteReg_def IPC_ReadReg_def ipc_ctrl_def sent_def k_def Let_def del: ctrl_ring)
  show "sent (ipc_sendrequest s) = sent s @ [MEM_VIRTUAL_TO_PHYSICAL p]" "accepted (ipc_sendrequest s) = accepted s"
    using r by (simp_all add: ring_def)
  have n': "pend_n (ipc_sendrequest s) = pend_n s - 1"
  proof -
    have "cnt_queue s - (cnt_sent s + 1) = (cnt_queue s - cnt_sent s) - 1" by simp
    moreover have "cnt_queue s - cnt_sent s \<noteq> 0" using c by (metis less_irrefl)
    ultimately have "unat (cnt_queue s - (cnt_sent s + 1)) = unat (cnt_queue s - cnt_sent s) - 1" using unat_minus_one by metis
    then show ?thesis using r by (simp add: ring_def pend_n_def)
  qed
  show pe: "ipc_pending (ipc_sendrequest s) = ps"
    unfolding ipc_pending_def n' ps using r by (simp add: ring_def unat_wrap16 mod_add_left_eq mod_simps del: unat_eq_zero)
  have "mailboxack s = 1" using wf a by (auto simp: ipc_wf_def)
  then have m: "mailboxack (ipc_sendrequest s) \<in> {- 1, 0}" using r by (auto simp: ring_def k_def)
  then show "mailboxack (ipc_sendrequest s) \<le> 0" by auto
  have "(unat (req_send_no s) + pend_n s) mod 16 = ((unat (req_send_no s) + 1) mod 16 + (pend_n s - 1)) mod 16"
  proof -
    have "unat (req_send_no s) + pend_n s = (unat (req_send_no s) + 1) + (pend_n s - 1)" using n(1) by simp
    then show ?thesis by (simp only: mod_add_left_eq)
  qed
  then have "unat (req_queue_no (ipc_sendrequest s)) = (unat (req_send_no (ipc_sendrequest s)) + pend_n (ipc_sendrequest s)) mod 16"
    "unat (req_send_no (ipc_sendrequest s)) < 16"
    unfolding n' using r wf by (simp_all add: ring_def unat_wrap16 ipc_wf_def)
  then show "ipc_wf (ipc_sendrequest s)" using n n' pe m wf p by (auto simp: ipc_wf_def)
qed

lemma send_none: "ipc_pending s = [] \<Longrightarrow> ipc_sendrequest s = s"
  by (auto simp: ipc_pending_def ipc_sendrequest_def pend_n_def Let_def unat_eq_zero)

text \<open>
  \<open>grown s s'\<close>: the ring stays well formed, and the messages that were sent or wait have been added to, at the end, by exactly those that
  were reported as accepted.
\<close>

definition grown :: "ipc \<Rightarrow> ipc \<Rightarrow> bool" where
  "grown s s' \<longleftrightarrow> ipc_wf s' \<and>
     (\<exists>new. accepted s' = accepted s @ new \<and> ipc_trace s' = ipc_trace s @ map MEM_VIRTUAL_TO_PHYSICAL new)"

lemma grown_refl: "ipc_wf s \<Longrightarrow> grown s s" by (simp add: grown_def)

lemma grown_trans: "grown s t \<Longrightarrow> grown t u \<Longrightarrow> grown s u" by (auto simp: grown_def)

lemma grown_ring: "ring s = ring t \<Longrightarrow> ring s' = ring t' \<Longrightarrow> grown s s' = grown t t'"
  using ring_same(1,2,5) [of s t] ring_same(1,2,5) [of s' t'] by (simp add: grown_def)

lemma grown_same: "ring s' = ring s \<Longrightarrow> ipc_wf s \<Longrightarrow> grown s s'"
  using ring_same(1,2,5) [of s' s] by (simp add: grown_def)

definition flush :: "ipc \<Rightarrow> ipc" where
  "flush s = (if 0 < mailboxack s then ipc_sendrequest s else s)"

lemma flush_ok:
  assumes "ipc_wf s"
  shows "ipc_wf (flush s)" "ipc_trace (flush s) = ipc_trace s" "ipc_busy (flush s)" "accepted (flush s) = accepted s"
proof -
  have "ipc_wf (flush s) \<and> ipc_trace (flush s) = ipc_trace s \<and> ipc_busy (flush s) \<and> accepted (flush s) = accepted s"
  proof (cases "0 < mailboxack s")
    case True
    show ?thesis
    proof (cases "ipc_pending s")
      case Nil
      then show ?thesis using assms send_none [OF Nil] by (simp add: flush_def ipc_busy_def)
    next
      case (Cons p ps)
      note k = send_ok [OF assms Cons True]
      show ?thesis using k True Cons by (simp add: flush_def ipc_trace_def ipc_busy_def)
    qed
  next
    case False
    then show ?thesis using assms by (simp add: flush_def ipc_busy_def)
  qed
  then show "ipc_wf (flush s)" "ipc_trace (flush s) = ipc_trace s" "ipc_busy (flush s)" "accepted (flush s) = accepted s" by simp_all
qed

section \<open>Requests\<close>

lemma freereq_ring [simp]: "ring (ipc_freereq p s) = ring s" "relnchFl (ipc_freereq p s) = relnchFl s"
  by (simp_all add: ipc_freereq_def iosFree_def Let_def)

lemma queue_flush:
  assumes wf: "ipc_wf s" and nn: "req \<noteq> NULL" and n: "length (ipc_pending s) < 16"
    and q: "ipc_syncqueuerequest req s = (ret, s1)"
  shows "ret = IPC_OK" "ring t = ring s1 \<Longrightarrow> ring u = ring (flush t) \<Longrightarrow>
    ipc_wf u \<and> ipc_trace u = ipc_trace s @ [MEM_VIRTUAL_TO_PHYSICAL req] \<and> ipc_busy u \<and> accepted u = accepted s"
proof -
  have "pend_n s < 16" using n by (simp add: ipc_pending_def)
  note k = syncqueue_ok [OF wf this q nn]
  then show "ret = IPC_OK" by simp
  assume t: "ring t = ring s1" and u: "ring u = ring (flush t)"
  have "ipc_wf t" "ipc_trace t = ipc_trace s @ [MEM_VIRTUAL_TO_PHYSICAL req]" "accepted t = accepted s"
    using k ring_same [OF t] by (simp_all add: ipc_trace_def)
  then show "ipc_wf u \<and> ipc_trace u = ipc_trace s @ [MEM_VIRTUAL_TO_PHYSICAL req] \<and> ipc_busy u \<and> accepted u = accepted s"
    using ring_same [OF u] flush_ok by simp
qed

lemma noted [simp]:
  "ipc_wf (note_accepted req ret s) = ipc_wf s" "ipc_trace (note_accepted req ret s) = ipc_trace s"
  "ipc_busy (note_accepted req ret s) = ipc_busy s" "accepted (note_accepted req 0 s) = accepted s @ [req]"
  by (simp_all add: note_accepted_def ipc_wf_def ipc_trace_def ipc_busy_def ipc_pending_def pend_n_def sent_def)

lemma not_noted [simp]: "ret \<noteq> 0 \<Longrightarrow> note_accepted req ret s = s"
  by (simp add: note_accepted_def)

lemma async_ok:
  assumes wf: "ipc_wf s" and nn: "req \<noteq> NULL" and r: "ipc_asyncrequest req s = (ret, s')"
  shows "if length (ipc_pending s) < 16
     then ret = IPC_OK \<and> ipc_wf s' \<and> ipc_trace s' = ipc_trace s @ [MEM_VIRTUAL_TO_PHYSICAL req] \<and> ipc_busy s' \<and>
       accepted s' = accepted s @ [req]
     else ret = IPC_EQUEUEFULL \<and> s' = ipc_freereq req s"
proof -
  let ?s = "s\<lparr>ee := False\<rparr>"
  note e = ring_same [of ?s s, simplified]
  obtain ret1 s1 where q: "ipc_syncqueuerequest req ?s = (ret1, s1)" by fastforce
  have r': "(ret, s') = (if ret1 \<noteq> 0 then (ret1, ipc_freereq req (s1\<lparr>ee := ee s\<rparr>))
      else (0, note_accepted req 0 ((flush (s1\<lparr>ee := False\<rparr>))\<lparr>ee := ee s\<rparr>)))"
    using r by (auto simp: ipc_asyncrequest_def queuerequest_eq ipc_isr_def q flush_def Let_def split: if_splits)
  show ?thesis
  proof (cases "length (ipc_pending s) < 16")
    case True
    have "ret1 = IPC_OK" using queue_flush(1) [OF _ nn _ q] True by (simp add: e wf)
    then show ?thesis using queue_flush(2) [OF _ nn _ q, of "s1\<lparr>ee := False\<rparr>" "(flush (s1\<lparr>ee := False\<rparr>))\<lparr>ee := ee s\<rparr>"] True r'
      by (simp add: e wf)
  next
    case False
    then have "16 \<le> pend_n ?s" by (simp add: ipc_pending_def pend_n_def)
    then have "ret1 = IPC_EQUEUEFULL" "s1 = ?s" using syncqueue_full [of ?s req] q by auto
    then show ?thesis using False r' by simp
  qed
qed

lemma sync_ok:
  assumes wf: "ipc_wf s" and nn: "req \<noteq> NULL" and r: "ipc_syncrequest req s = (b, ret, s')"
  shows "if length (ipc_pending s) < 16
     then ret = IPC_OK \<and> ipc_wf s' \<and> ipc_trace s' = ipc_trace s @ [MEM_VIRTUAL_TO_PHYSICAL req] \<and> ipc_busy s' \<and>
       accepted s' = accepted s @ [req]
     else ret = IPC_EQUEUEFULL \<and> \<not> b \<and> ring s' = ring s"
proof -
  let ?s = "(init_queue req s)\<lparr>ee := False\<rparr>"
  have i: "ring ?s = ring s" by (simp add: init_queue_def case_prod_beta)
  note e = ring_same [OF i]
  obtain ret1 s1 where q: "ipc_syncqueuerequest req ?s = (ret1, s1)" by fastforce
  have r': "ret = ret1" "ret1 = 0 \<Longrightarrow> s' = note_accepted req 0 (flush s1)" "ret1 \<noteq> 0 \<Longrightarrow> s' = s1 \<and> \<not> b"
    using r by (auto simp: ipc_syncrequest_def q flush_def Let_def split: if_splits)
  show ?thesis
  proof (cases "length (ipc_pending s) < 16")
    case True
    have "ret1 = IPC_OK" using queue_flush(1) [OF _ nn _ q] True by (simp add: e wf)
    then show ?thesis using queue_flush(2) [OF _ nn _ q refl, of "flush s1"] True r' by (simp add: e wf)
  next
    case False
    then have "16 \<le> pend_n ?s" using ring_cong(2) [of ?s s] i by (simp add: ipc_pending_def)
    then have "ret1 = IPC_EQUEUEFULL" "s1 = ?s" using syncqueue_full [of ?s req] q by auto
    then show ?thesis using False r' i by simp
  qed
qed

section \<open>Interrupts\<close>

lemma ack_up_ok:
  assumes "ipc_wf s"
  shows "ipc_wf (ack_up s)" "ipc_trace (ack_up s) = ipc_trace s" "ipc_pending (ack_up s) = ipc_pending s"
    "accepted (ack_up s) = accepted s"
proof -
  have f: "fst (ring (ack_up s)) = fst (ring s)" "sent (ack_up s) = sent s" by (simp_all add: ack_up_def ring_def sent_def)
  have "mailboxack (ack_up s) \<in> {- 1 .. 1}" using assms by (auto simp: ack_up_def ipc_wf_def)
  from ring_wf [OF f(1) this assms] show "ipc_wf (ack_up s)" .
  show p: "ipc_pending (ack_up s) = ipc_pending s" by (rule ring_cong(1) [OF f(1)])
  show "ipc_trace (ack_up s) = ipc_trace s" using p f(2) by (simp add: ipc_trace_def)
  show "accepted (ack_up s) = accepted s" by (simp add: ack_up_def)
qed

text \<open>An acknowledgement: what waits is sent when the mailbox becomes free.\<close>

lemma ack_flush: "\<exists>t. ring t = ring (ack_up (ACR_WriteReg 48 0x40000000 (ipc_ctrl 2 s))) \<and> ipc_ackhandler s = flush t"
proof -
  let ?s1 = "ack_up (ACR_WriteReg 48 0x40000000 (ipc_ctrl 2 s))"
  show ?thesis
  proof (cases "0 < mailboxack ?s1 \<and> relnchFl ?s1")
    case True
    define s2 where "s2 = (upd_rq (relnchRpc ?s1) (\<lambda>r. r\<lparr>r_result := 0\<rparr>) ?s1)\<lparr>relnchFl := False\<rparr>"
    let ?t = "ipc_ctrl 8 (thread_signal (r_syncqueue (rq s2 (relnchRpc s2))) s2)"
    have k: "ring ?t = ring ?s1" by (simp add: s2_def)
    then have "mailboxack ?t = mailboxack ?s1" by (simp only: ring_def prod.inject)
    then have "ipc_ackhandler s = flush ?t" using True by (simp add: ipc_ackhandler_def flush_def Let_def s2_def)
    then show ?thesis using k by blast
  next
    case False
    then show ?thesis by (intro exI [of _ ?s1]) (auto simp: ipc_ackhandler_def flush_def Let_def)
  qed
qed

lemma ack_ok:
  assumes "ipc_wf s"
  shows "grown s (ipc_ackhandler s)" "ipc_busy (ipc_ackhandler s)"
proof -
  let ?s0 = "ACR_WriteReg 48 0x40000000 (ipc_ctrl 2 s)"
  obtain t where t: "ring t = ring (ack_up ?s0)" "ipc_ackhandler s = flush t" using ack_flush by blast
  have s0: "ring ?s0 = ring s" by simp
  note e = ring_same(1,2,5) [OF s0]
  have "ipc_wf (ack_up ?s0)" "ipc_trace (ack_up ?s0) = ipc_trace s" "accepted (ack_up ?s0) = accepted s"
    using ack_up_ok [of ?s0] e assms by auto
  then have "ipc_wf t" "ipc_trace t = ipc_trace s" "accepted t = accepted s" using ring_same(1,2,5) [OF t(1)] by auto
  then show "grown s (ipc_ackhandler s)" "ipc_busy (ipc_ackhandler s)"
    unfolding t(2) using flush_ok [of t] by (simp_all add: grown_def)
qed

lemma ack_sends:
  assumes wf: "ipc_wf s" and p: "ipc_pending s = p # ps" and m: "mailboxack s = 0"
  shows "sent (ipc_ackhandler s) = sent s @ [MEM_VIRTUAL_TO_PHYSICAL p] \<and> ipc_pending (ipc_ackhandler s) = ps"
proof -
  let ?s0 = "ACR_WriteReg 48 0x40000000 (ipc_ctrl 2 s)"
  obtain t where t: "ring t = ring (ack_up ?s0)" "ipc_ackhandler s = flush t" using ack_flush by blast
  have s0: "ring ?s0 = ring s" by simp
  then have w: "ipc_wf (ack_up ?s0)" "ipc_pending (ack_up ?s0) = p # ps" "mailboxack ?s0 = 0" "sent ?s0 = sent s"
    using ack_up_ok [of ?s0] ring_same(1,4) [OF s0] wf p m by (auto simp: ring_def)
  then have u: "ipc_wf t" "ipc_pending t = p # ps" "mailboxack t = 1" "sent t = sent s"
    using ring_same(1,4) [OF t(1)] t(1) by (auto simp: ring_def ack_up_def) (simp add: sent_def)
  show ?thesis using send_ok(1,2) [OF u(1,2)] u(3,4) unfolding t(2) flush_def by simp
qed

lemma vec_k0_ring [simp]: "ring (fold (vec_k0 v) is s) = ring s" "relnchFl (fold (vec_k0 v) is s) = relnchFl s"
  by (induction "is" arbitrary: s) (auto simp: vec_k0_def Let_def)

lemma reply_args_ok:
  assumes "ipc_wf s"
  shows "grown s (reply_args req s)" "\<not> relnchFl s \<Longrightarrow> ring (reply_args req s) = ring s"
proof -
  define k0 where "k0 = (\<lambda>x. if x \<noteq> NULL then MEM_PHYSICAL_TO_K0 x else x)"
  define s1 where "s1 = upd_rq req (upd_arg 3 k0) s"
  define s2 where "s2 = fold (vec_k0 (r_arg (rq s1 req) 3)) [0 ..< unat (r_arg (rq s1 req) 1 + r_arg (rq s1 req) 2)] s1"
  have s2: "ring s2 = ring s" "relnchFl s2 = relnchFl s" by (simp_all add: s2_def s1_def) (simp add: upd_rq_def)
  have "reply_args req s =
     (if r_fd (rq s req) = IOS_READ then upd_rq req (upd_arg 0 k0) s
      else if r_fd (rq s req) = IOS_IOCTL then upd_rq req (upd_arg 3 k0) (upd_rq req (upd_arg 1 k0) s)
      else if r_fd (rq s req) = IOS_IOCTLV then if relnchFl s2 \<and> relnchRpc s2 = req then ack_up (s2\<lparr>relnchFl := False\<rparr>) else s2
      else s)"
    by (simp add: reply_args_def k0_def s1_def s2_def Let_def)
  moreover have "ring (s2\<lparr>relnchFl := False\<rparr>) = ring s" by (simp add: s2(1))
  ultimately have "ring (reply_args req s) = ring s \<or> (relnchFl s \<and> (\<exists>t. ring t = ring s \<and> reply_args req s = ack_up t))"
    using s2 by (cases "relnchFl s2 \<and> relnchRpc s2 = req") (auto intro!: exI [of _ "s2\<lparr>relnchFl := False\<rparr>"])
  moreover have "grown s (ack_up t)" if "ring t = ring s" for t
    using ack_up_ok [of t] ring_same(1,2,5) [OF that] assms by (simp add: grown_def)
  ultimately show "grown s (reply_args req s)" "\<not> relnchFl s \<Longrightarrow> ring (reply_args req s) = ring s"
    using grown_same [of "reply_args req s" s] assms by auto
qed

text \<open>
  Replies. A callback is code of the program: it may call the functions of this file, which only add to
  what was accepted (\<open>cb_grows\<close>) and leave no request waiting (\<open>cb_busy\<close>).
\<close>

definition cb_grows :: "(ptr \<Rightarrow> s32 \<Rightarrow> ptr \<Rightarrow> ipc \<Rightarrow> ipc option) \<Rightarrow> bool" where
  "cb_grows run_cb \<longleftrightarrow> (\<forall>f r d s. ipc_wf s \<longrightarrow> (\<exists>s'. run_cb f r d s = Some s' \<and> grown s s' \<and> (ipc_busy s \<longrightarrow> ipc_busy s')))"

lemma reply_ok:
  assumes wf: "ipc_wf s" and cb: "cb_grows run_cb"
  shows "\<exists>s'. ipc_replyhandler run_cb s = Some s' \<and> grown s s' \<and> (ipc_busy s \<and> \<not> relnchFl s \<longrightarrow> ipc_busy s')"
proof -
  obtain p s1 where p: "IPC_ReadReg 2 s = (p, s1)" by fastforce
  have s1: "ring s1 = ring s" "relnchFl s1 = relnchFl s" using p by (auto simp: IPC_ReadReg_def ring_def sent_def)
  define s2 where "s2 = ACR_WriteReg 48 0x40000000 (ipc_ctrl 4 s1)"
  let ?req = "MEM_PHYSICAL_TO_K0 p"
  have s2: "ring s2 = ring s" "relnchFl s2 = relnchFl s" using s1 by (simp_all add: s2_def) (simp add: ACR_WriteReg_def)
  note e = ring_same [OF s2(1)]
  define t where "t = reply_args ?req s2"
  have t: "grown s t" "\<not> relnchFl s \<Longrightarrow> ring t = ring s" "ipc_wf t"
    using reply_args_ok [of s2 ?req] wf e s2 grown_ring [OF s2(1) refl, of t] by (simp_all add: t_def grown_def)
  have tg: "grown s t" "ipc_busy s \<and> \<not> relnchFl s \<longrightarrow> ipc_busy t" using t ring_same(3) [of t s] by auto
  define u where "u = run_cb (r_cb (rq t ?req)) (r_result (rq t ?req)) (r_usrdata (rq t ?req)) t"
  obtain u' where u: "u = Some u'" "grown t u'" "ipc_busy t \<longrightarrow> ipc_busy u'" using cb t(3) unfolding cb_grows_def u_def by blast
  have step: "grown s x \<and> (ipc_busy s \<and> \<not> relnchFl s \<longrightarrow> ipc_busy x)" if "ring x = ring y" "grown s y" "ipc_busy s \<and> \<not> relnchFl s \<longrightarrow> ipc_busy y" for x y
    using that grown_ring [OF refl that(1), of s] ring_same(3) [OF that(1)] by simp
  have g3: "grown s u'" "ipc_busy s \<and> \<not> relnchFl s \<longrightarrow> ipc_busy u'" using u tg grown_trans by blast+
  obtain s3 where s3: "(if r_magic (rq s2 ?req) = req_magic s2 then
        if r_cb (rq t ?req) \<noteq> NULL then map_option (ipc_freereq ?req) u else Some (thread_signal (r_syncqueue (rq t ?req)) t)
      else Some (s2\<lparr>spuriousresponsecnt := spuriousresponsecnt s2 + 1\<rparr>)) = Some s3"
    "grown s s3 \<and> (ipc_busy s \<and> \<not> relnchFl s \<longrightarrow> ipc_busy s3)"
  proof -
    have "grown s s2" "ipc_busy s2 = ipc_busy s" using e wf grown_same [OF s2(1)] by simp_all
    then have "grown s (s2\<lparr>spuriousresponsecnt := c\<rparr>) \<and> (ipc_busy s \<and> \<not> relnchFl s \<longrightarrow> ipc_busy (s2\<lparr>spuriousresponsecnt := c\<rparr>))" for c
      using step [of "s2\<lparr>spuriousresponsecnt := c\<rparr>" s2] by simp
    moreover have "grown s (ipc_freereq ?req u') \<and> (ipc_busy s \<and> \<not> relnchFl s \<longrightarrow> ipc_busy (ipc_freereq ?req u'))"
      using step [of "ipc_freereq ?req u'" u'] g3 by simp
    moreover have "grown s (thread_signal q t) \<and> (ipc_busy s \<and> \<not> relnchFl s \<longrightarrow> ipc_busy (thread_signal q t))" for q
      using step [of "thread_signal q t" t] tg by simp
    ultimately show ?thesis using u(1) that by (cases "r_magic (rq s2 ?req) = req_magic s2"; cases "r_cb (rq t ?req) = NULL") auto
  qed
  have "ipc_replyhandler run_cb s = Some (if p = NULL then s1 else ipc_ctrl 8 s3)"
    unfolding ipc_replyhandler_def p Let_def prod.case s2_def [symmetric] t_def [symmetric] u_def [symmetric] s3(1) by simp
  moreover have "grown s (ipc_ctrl 8 s3)" "ipc_busy (ipc_ctrl 8 s3) = ipc_busy s3"
    using s3(2) grown_ring [OF refl, of "ipc_ctrl 8 s3" s3] ring_same(3) [of "ipc_ctrl 8 s3" s3] by simp_all
  moreover have "grown s s1" "ipc_busy s1 = ipc_busy s" using ring_same [OF s1(1)] wf grown_same [OF s1(1)] by simp_all
  ultimately show ?thesis using s3(2) by auto
qed

lemma interrupt_ok:
  assumes wf: "ipc_wf s" and cb: "cb_grows run_cb"
  shows "\<exists>s'. ipc_interrupthandler run_cb s = Some s' \<and> grown s s' \<and> (ipc_busy s \<and> \<not> relnchFl s \<longrightarrow> ipc_busy s')"
proof -
  have rr: "ring (snd (IPC_ReadReg r t)) = ring t" "relnchFl (snd (IPC_ReadReg r t)) = relnchFl t" for r t
    by simp (simp add: IPC_ReadReg_def)
  obtain i s1 where i: "IPC_ReadReg 1 s = (i, s1)" by fastforce
  have s1: "ring s1 = ring s" "relnchFl s1 = relnchFl s" using rr [of 1 s] unfolding i snd_conv by simp_all
  note e = ring_same [OF s1(1)]
  obtain s2 where s2: "(if i AND 0x14 = 0x14 then ipc_replyhandler run_cb s1 else Some s1) = Some s2" "grown s s2"
    "ipc_busy s \<and> \<not> relnchFl s \<longrightarrow> ipc_busy s2"
  proof (cases "i AND 0x14 = 0x14")
    case True
    have "ipc_wf s1" using e wf by simp
    then obtain s2 where "ipc_replyhandler run_cb s1 = Some s2" "grown s1 s2" "ipc_busy s1 \<and> \<not> relnchFl s1 \<longrightarrow> ipc_busy s2"
      using reply_ok [OF _ cb] by blast
    then show ?thesis using True that [of s2] grown_ring [OF s1(1) refl, of s2] s1 e by simp
  next
    case False
    then show ?thesis using that [of s1] e wf grown_same [OF s1(1)] by simp
  qed
  obtain j s3 where j: "IPC_ReadReg 1 s2 = (j, s3)" by fastforce
  have s3: "ring s3 = ring s2" using rr [of 1 s2] unfolding j snd_conv by simp
  note e3 = ring_same [OF s3]
  have "ipc_wf s2" using s2(2) by (simp add: grown_def)
  then have a: "grown s2 (ipc_ackhandler s3)" "ipc_busy (ipc_ackhandler s3)"
    using ack_ok [of s3] e3 grown_ring [OF s3 refl, of "ipc_ackhandler s3"] by simp_all
  have b: "grown s2 s3" "ipc_busy s3 = ipc_busy s2" using e3 \<open>ipc_wf s2\<close> grown_same [OF s3] by simp_all
  have "ipc_interrupthandler run_cb s = Some (if j AND 0x22 = 0x22 then ipc_ackhandler s3 else s3)"
    unfolding ipc_interrupthandler_def i Let_def prod.case s2(1) by (simp add: j [unfolded One_nat_def])
  then show ?thesis using a b s2(2,3) grown_trans by auto
qed

end
