(* ===== verification/IpcUse.thy ===== *)
theory IpcUse
  imports IpcInv "HOL-Library.Sublist"
begin

text \<open>
  Runs of the message layer: any sequence of calls, interrupts and steps of the IOS processor; the message
  heap when a call is refused; the translation of vectors to physical addresses and back.
\<close>

section \<open>Runs\<close>

text \<open>
  What the program does between interrupts: it makes requests and ends them. \<open>env\<close> is what happens outside: IOS fills in
  results and sets registers, and callers read and free requests. It does not touch the ring.
\<close>

inductive ipc_call :: "ipc \<Rightarrow> ipc \<Rightarrow> bool" where
  async: "req \<noteq> NULL \<Longrightarrow> ipc_asyncrequest req s = (ret, s') \<Longrightarrow> ipc_call s s'"
| sync: "req \<noteq> NULL \<Longrightarrow> ipc_syncrequest req s = (b, ret, s') \<Longrightarrow> ipc_call s s'"
| sync_end: "ios_sync_end req level ret s = (ret', s') \<Longrightarrow> ipc_call s s'"
| env: "ring s' = ring s \<Longrightarrow> relnchFl s' = relnchFl s \<Longrightarrow> ipc_call s s'"

text \<open>Callbacks are code of the program: they return, having made any number of calls.\<close>

definition cb_calls :: "(ptr \<Rightarrow> s32 \<Rightarrow> ptr \<Rightarrow> ipc \<Rightarrow> ipc option) \<Rightarrow> bool" where
  "cb_calls run_cb \<longleftrightarrow> (\<forall>f r d s. \<exists>s'. run_cb f r d s = Some s' \<and> ipc_call\<^sup>*\<^sup>* s s')"

text \<open>
  A run: calls, interrupts, and \<open>IPC_Reinitialize\<close>, which \<^verbatim>\<open>ios.c\<close> calls after a new IOS was loaded; the flag says whether it
  was called.
\<close>

inductive ipc_run :: "(ptr \<Rightarrow> s32 \<Rightarrow> ptr \<Rightarrow> ipc \<Rightarrow> ipc option) \<Rightarrow> bool \<Rightarrow> ipc \<Rightarrow> ipc \<Rightarrow> bool" for run_cb where
  refl: "ipc_run run_cb False s s"
| call: "ipc_run run_cb b s t \<Longrightarrow> ipc_call t u \<Longrightarrow> ipc_run run_cb b s u"
| irq: "ipc_run run_cb b s t \<Longrightarrow> ipc_interrupthandler run_cb t = Some u \<Longrightarrow> ipc_run run_cb b s u"
| reinit: "ipc_run run_cb b s t \<Longrightarrow> ipc_run run_cb True s (IPC_Reinitialize t)"

lemma close_queue_ring [simp]: "ring (close_queue q s) = ring s"
  by (simp add: close_queue_def)

lemma call_grown:
  assumes "ipc_call s s'" "ipc_wf s"
  shows "grown s s' \<and> (ipc_busy s \<longrightarrow> ipc_busy s')"
  using assms(1)
proof cases
  case (async req ret)
  note k = async_ok [OF assms(2) async] and f = freereq_ring(1) [of req s]
  show ?thesis
  proof (cases "length (ipc_pending s) < 16")
    case True
    then show ?thesis using k by (simp add: grown_def)
  next
    case False
    then show ?thesis using k grown_same [OF f assms(2)] ring_same(3) [OF f] by simp
  qed
next
  case (sync req b ret)
  note k = sync_ok [OF assms(2) sync]
  show ?thesis
  proof (cases "length (ipc_pending s) < 16")
    case True
    then show ?thesis using k by (simp add: grown_def)
  next
    case False
    then show ?thesis using k grown_same [of s' s] ring_same(3) [of s' s] assms(2) by simp
  qed
next
  case (sync_end req level ret ret')
  then have "ring s' = ring s" by (auto simp: ios_sync_end_def Let_def)
  then show ?thesis using grown_same [of s' s] ring_same(3) [of s' s] assms(2) by simp
next
  case env
  then show ?thesis using grown_same [of s' s] ring_same(3) [of s' s] assms(2) by simp
qed

lemma calls_grown:
  assumes "ipc_call\<^sup>*\<^sup>* s s'" "ipc_wf s"
  shows "grown s s' \<and> (ipc_busy s \<longrightarrow> ipc_busy s')"
  using assms
proof (induction rule: rtranclp_induct)
  case base
  then show ?case by (simp add: grown_refl)
next
  case (step t u)
  then have "grown t u \<and> (ipc_busy t \<longrightarrow> ipc_busy u)" using call_grown by (simp add: grown_def)
  then show ?case using step grown_trans by blast
qed

lemma cb_calls_grows: "cb_calls run_cb \<Longrightarrow> cb_grows run_cb"
  using calls_grown unfolding cb_calls_def cb_grows_def by meson

lemma reinit_empty: "ipc_wf (IPC_Reinitialize s)" "ipc_trace (IPC_Reinitialize s) = sent s" "accepted (IPC_Reinitialize s) = accepted s"
  by (simp_all add: IPC_Reinitialize_def ipc_isr_def IPC_WriteReg_def ipc_wf_def ipc_trace_def ipc_pending_def pend_n_def sent_def)

text \<open>
  \<open>kept b s s'\<close>: the messages sent or waiting are those of the start and the accepted ones, in that order; all of them unless the
  ring was reinitialised, which drops those that wait.
\<close>

definition kept :: "bool \<Rightarrow> ipc \<Rightarrow> ipc \<Rightarrow> bool" where
  "kept b s s' \<longleftrightarrow> ipc_wf s' \<and> (\<exists>new. accepted s' = accepted s @ new \<and>
     subseq (ipc_trace s') (ipc_trace s @ map MEM_VIRTUAL_TO_PHYSICAL new) \<and>
     (\<not> b \<longrightarrow> ipc_trace s' = ipc_trace s @ map MEM_VIRTUAL_TO_PHYSICAL new))"

lemma kept_grown:
  assumes "kept b s t" "grown t u"
  shows "kept b s u"
proof -
  obtain n1 where n1: "accepted t = accepted s @ n1" "subseq (ipc_trace t) (ipc_trace s @ map MEM_VIRTUAL_TO_PHYSICAL n1)"
      "\<not> b \<longrightarrow> ipc_trace t = ipc_trace s @ map MEM_VIRTUAL_TO_PHYSICAL n1"
    using assms(1) unfolding kept_def by blast
  obtain n2 where n2: "ipc_wf u" "accepted u = accepted t @ n2" "ipc_trace u = ipc_trace t @ map MEM_VIRTUAL_TO_PHYSICAL n2"
    using assms(2) unfolding grown_def by blast
  have "subseq (ipc_trace u) ((ipc_trace s @ map MEM_VIRTUAL_TO_PHYSICAL n1) @ map MEM_VIRTUAL_TO_PHYSICAL n2)"
    unfolding n2(3) by (rule list_emb_append_mono [OF n1(2) subseq_order.refl])
  then show ?thesis using n1 n2 unfolding kept_def by (intro conjI exI [of _ "n1 @ n2"]) simp_all
qed

lemma kept_reinit:
  assumes "kept b s t"
  shows "kept True s (IPC_Reinitialize t)"
proof -
  obtain n where n: "accepted t = accepted s @ n" "subseq (ipc_trace t) (ipc_trace s @ map MEM_VIRTUAL_TO_PHYSICAL n)"
    using assms unfolding kept_def by blast
  have "subseq (sent t) (ipc_trace t)" by (simp add: ipc_trace_def subseq_rev_drop_many)
  then have "subseq (sent t) (ipc_trace s @ map MEM_VIRTUAL_TO_PHYSICAL n)" using n(2) by (rule subseq_order.order_trans)
  then show ?thesis using n(1) unfolding kept_def by (simp add: reinit_empty)
qed

lemma run_kept:
  assumes "ipc_run run_cb b s s'" "ipc_wf s" "cb_calls run_cb"
  shows "kept b s s'"
  using assms
proof (induction rule: ipc_run.induct)
  case (refl s)
  then show ?case by (simp add: kept_def)
next
  case (call b s t u)
  then have k: "kept b s t" by simp
  then have "grown t u" using call_grown [OF call.hyps(2)] unfolding kept_def by blast
  then show ?case by (rule kept_grown [OF k])
next
  case (irq b s t u)
  then have k: "kept b s t" by simp
  then have "ipc_wf t" unfolding kept_def by blast
  from interrupt_ok [OF this cb_calls_grows [OF irq.prems(2)]] have "grown t u" using irq.hyps(2) by auto
  then show ?case by (rule kept_grown [OF k])
next
  case (reinit b s t)
  then show ?case using kept_reinit by blast
qed

section \<open>Vectors\<close>

definition vec_at :: "ptr \<Rightarrow> (ptr \<times> u32 \<Rightarrow> ptr \<times> u32) \<Rightarrow> ipc \<Rightarrow> ipc" where
  "vec_at a g s = s\<lparr>vec := (vec s)(a := g (vec s a))\<rparr>"

definition entry_phys :: "ptr \<times> u32 \<Rightarrow> ptr \<times> u32" where
  "entry_phys e = (if fst e \<noteq> NULL \<and> snd e > 0 then (MEM_VIRTUAL_TO_PHYSICAL (fst e), snd e) else e)"

definition entry_k0 :: "ptr \<times> u32 \<Rightarrow> ptr \<times> u32" where
  "entry_k0 e = (if fst e \<noteq> NULL then (MEM_PHYSICAL_TO_K0 (fst e), snd e) else e)"

lemma vec_phys_at: "vec_phys v i = vec_at (v + 8 * i) entry_phys"
  by (auto simp: fun_eq_iff vec_phys_def vec_at_def entry_phys_def Let_def)

lemma vec_k0_at: "vec_k0 v i = vec_at (v + 8 * of_nat i) entry_k0"
  by (auto simp: fun_eq_iff vec_k0_def vec_at_def entry_k0_def Let_def)

lemma fold_vec_at:
  assumes "distinct as"
  shows "vec (fold (\<lambda>a. vec_at a g) as s) = (\<lambda>a. if a \<in> set as then g (vec s a) else vec s a)"
  using assms by (induction as arbitrary: s) (auto simp: vec_at_def fun_eq_iff)

definition entries :: "ptr \<Rightarrow> nat \<Rightarrow> ptr list" where
  "entries v n = map (\<lambda>i. v + 8 * of_nat i) [0 ..< n]"

lemma entries_distinct: "n \<le> 2 ^ 28 \<Longrightarrow> distinct (entries v n)"
proof -
  assume n: "n \<le> 2 ^ 28"
  have "i = j" if "i < n" "j < n" "(8 :: u32) * of_nat i = 8 * of_nat j" for i j
  proof -
    have "of_nat (8 * i) = (of_nat (8 * j) :: u32)" using that(3) by simp
    then have "8 * i = 8 * j" using of_nat_eq32 [of "8 * i" "8 * j"] that n by (simp del: of_nat_mult)
    then show ?thesis by simp
  qed
  then show ?thesis by (auto simp: entries_def distinct_map inj_on_def)
qed

lemma vec_translate_at:
  assumes "0 \<le> sint cnt_in" "0 \<le> sint cnt_io"
  shows "vec_translate v cnt_in cnt_io s = fold (\<lambda>a. vec_at a entry_phys) (entries v (nat (sint cnt_in) + nat (sint cnt_io))) s"
proof -
  have c: "cnt_in = of_nat (nat (sint cnt_in))" using assms(1) by simp
  have u: "[0 ..< n + m] = [0 ..< n] @ map (\<lambda>i. n + i) [0 ..< m]" for n m :: nat
    by (induction m) auto
  have e: "cnt_in + of_nat i = of_nat (nat (sint cnt_in) + i)" for i by (subst c) (simp del: of_nat_nat)
  show ?thesis
    unfolding vec_translate_def vec_phys_at entries_def u e by (simp only: fold_map fold_append map_append map_map o_def)
qed

lemma phys_k0:
  assumes "0x80000000 < x" "x < 0xc0000000"
  shows "MEM_PHYSICAL_TO_K0 (MEM_VIRTUAL_TO_PHYSICAL x) = x" "MEM_VIRTUAL_TO_PHYSICAL x \<noteq> NULL"
proof -
  have x: "0x80000000 < unat x" "unat x < 0xc0000000" using assms by (simp_all add: word_less_nat_alt)
  have "NOT 0xc0000000 = (mask 30 :: u32)" by (simp add: mask_numeral)
  then have "MEM_VIRTUAL_TO_PHYSICAL x = take_bit 30 x" by (simp add: MEM_VIRTUAL_TO_PHYSICAL_def take_bit_eq_mask)
  then have "unat (MEM_VIRTUAL_TO_PHYSICAL x) = unat x mod 2 ^ 30" by (simp only: unsigned_take_bit_eq) (simp only: take_bit_eq_mod)
  also have "\<dots> = unat x - 0x80000000"
  proof -
    obtain k where k: "unat x = k + 0x80000000" "k < 0x40000000" using x that [of "unat x - 0x80000000"] by auto
    have "(k + 2 * 2 ^ 30) mod 2 ^ 30 = k mod (2 ^ 30 :: nat)" by (rule mod_mult_self1)
    then show ?thesis using k by simp
  qed
  finally have u: "unat (MEM_VIRTUAL_TO_PHYSICAL x) = unat x - 0x80000000" .
  then show "MEM_VIRTUAL_TO_PHYSICAL x \<noteq> NULL" using x by auto
  have "unat (MEM_PHYSICAL_TO_K0 (MEM_VIRTUAL_TO_PHYSICAL x)) = unat x"
    using u x by (simp add: MEM_PHYSICAL_TO_K0_def unat_plus_if')
  then show "MEM_PHYSICAL_TO_K0 (MEM_VIRTUAL_TO_PHYSICAL x) = x" by (simp only: word_unat_eq_iff)
qed

definition entry_ok :: "ptr \<times> u32 \<Rightarrow> bool" where
  "entry_ok e \<longleftrightarrow> fst e = NULL \<or> (0x80000000 < fst e \<and> fst e < 0xc0000000 \<and> snd e > 0)"

lemma entry_round: "entry_ok e \<Longrightarrow> entry_k0 (entry_phys e) = e"
  using phys_k0 by (cases e) (auto simp: entry_ok_def entry_k0_def entry_phys_def)

lemma entry_empty: "fst e \<noteq> NULL \<Longrightarrow> snd e = 0 \<Longrightarrow> fst (entry_k0 (entry_phys e)) = fst e + 0x80000000"
  by (simp add: entry_k0_def entry_phys_def MEM_PHYSICAL_TO_K0_def)

lemma vec_there_and_back:
  assumes "0 \<le> sint cnt_in" "0 \<le> sint cnt_io" "nat (sint cnt_in) + nat (sint cnt_io) \<le> 2 ^ 28"
  shows "vec (fold (vec_k0 v) [0 ..< nat (sint cnt_in) + nat (sint cnt_io)] (vec_translate v cnt_in cnt_io s)) =
    (\<lambda>a. if a \<in> set (entries v (nat (sint cnt_in) + nat (sint cnt_io))) then entry_k0 (entry_phys (vec s a)) else vec s a)"
proof -
  have "fold (vec_k0 v) [0 ..< n] t = fold (\<lambda>a. vec_at a entry_k0) (entries v n) t" for n t
    unfolding vec_k0_at [abs_def] entries_def fold_map o_def ..
  then show ?thesis unfolding vec_translate_at [OF assms(1,2)] by (simp add: fold_vec_at entries_distinct [OF assms(3)] fun_eq_iff)
qed

section \<open>Heaps\<close>

definition hid_ok :: "ipc \<Rightarrow> bool" where
  "hid_ok s \<longleftrightarrow> 0 \<le>s ipc_hid s \<and> ipc_hid s <s 16"

definition msg_heap :: "ipc \<Rightarrow> heap_cntrl" where
  "msg_heap s = ih_heap (ipc_heaps s (unat (ipc_hid s)))"

lemma allocreq_eq:
  assumes "hid_ok s"
  shows "ipc_allocreq s = map_option (\<lambda>(p, h'). (p, s\<lparr>ipc_heaps := (ipc_heaps s)(unat (ipc_hid s) := (ipc_heaps s (unat (ipc_hid s)))\<lparr>ih_heap := h'\<rparr>)\<rparr>))
    (lwp_heap_allocate IPC_REQUESTSIZE (msg_heap s))"
proof -
  have "\<not> (64 :: s32) \<le>s 0" by (simp add: word_sle_eq)
  moreover have "\<not> ipc_hid s <s 0" "\<not> 16 \<le>s ipc_hid s" using assms by (auto simp: hid_ok_def word_sless_alt word_sle_eq)
  ultimately show ?thesis by (simp add: ipc_allocreq_def iosAlloc_def msg_heap_def Let_def)
qed

lemma freereq_heap:
  assumes "hid_ok s" "p \<noteq> NULL"
  shows "msg_heap (ipc_freereq p s) = snd (lwp_heap_free p (msg_heap s))" "ipc_hid (ipc_freereq p s) = ipc_hid s"
proof -
  have "\<not> ipc_hid s <s 0" "\<not> 16 \<le>s ipc_hid s" using assms(1) by (auto simp: hid_ok_def word_sless_alt word_sle_eq)
  then show "msg_heap (ipc_freereq p s) = snd (lwp_heap_free p (msg_heap s))" "ipc_hid (ipc_freereq p s) = ipc_hid s"
    using assms(2) by (simp_all add: ipc_freereq_def iosFree_def msg_heap_def Let_def)
qed

lemma async_full_restores:
  assumes wf: "ipc_wf s" and full: "length (ipc_pending s) = 16" and hid: "hid_ok s"
    and ok: "heap_ok (msg_heap s) ts fs" "pg_size (msg_heap s) = 32" and fit: "(m, False) \<in> set ts" "104 \<le> m"
  shows "\<exists>s' fs'. ios_async fill id s = Some (IPC_EQUEUEFULL, s') \<and> heap_ok (msg_heap s') ts fs' \<and> ring s' = ring s"
proof -
  have req: "block_req (unat (pg_size (msg_heap s))) (unat IPC_REQUESTSIZE) \<le> m"
    "unat IPC_REQUESTSIZE + 2 * unat (pg_size (msg_heap s)) + 8 \<le> 2 ^ 32"
    using fit(2) by (simp_all add: block_req_def ok(2))
  obtain p h' h'' fs'' where a: "lwp_heap_allocate IPC_REQUESTSIZE (msg_heap s) = Some (p, h')" "lwp_heap_free p h' = (True, h'')" "heap_ok h'' ts fs''"
    using heap_allocate_free [OF ok(1) req(2) fit(1) req(1)] by blast
  have nn: "p \<noteq> NULL" using heap_allocate_ok [OF ok(1) req(2) fit(1) req(1)] a(1) by (auto simp: owned_def)
  define s1 where "s1 = s\<lparr>ipc_heaps := (ipc_heaps s)(unat (ipc_hid s) := (ipc_heaps s (unat (ipc_hid s)))\<lparr>ih_heap := h'\<rparr>)\<rparr>"
  define s2 where "s2 = upd_rq p fill s1"
  have s2: "ring s2 = ring s" "hid_ok s2" "msg_heap s2 = h'"
    using hid by (simp_all add: s2_def s1_def) (simp_all add: upd_rq_def hid_ok_def msg_heap_def)
  note e = ring_same [OF s2(1)]
  obtain ret s' where r: "ipc_asyncrequest p s2 = (ret, s')" by fastforce
  have "ret = IPC_EQUEUEFULL" "s' = ipc_freereq p s2" using async_ok [OF _ nn r] wf full by (simp_all add: e)
  moreover have "ios_async fill id s = Some (ret, s')"
    using a(1) nn r by (simp add: ios_async_def allocreq_eq [OF hid] s1_def [symmetric] s2_def)
  ultimately show ?thesis using a(2,3) freereq_heap(1) [OF s2(2) nn] s2 by auto
qed

lemma create_heap_nomem:
  assumes "find (\<lambda>i. membase (ipc_heaps s i) = NULL) [0..<IPC_NUMHEAPS] = Some i"
    "IPC_GetBufferHi s - (((IPC_GetBufferLo s + 0x1f) AND NOT 0x1f) + size') <s 0"
  shows "iosCreateHeap size' s = (IPC_ENOMEM, s\<lparr>ee := False\<rparr>)"
  using assms by (simp add: iosCreateHeap_def IPC_GetBufferHi_def IPC_GetBufferLo_def Let_def)

end
