(* ===== verification/IpcProps.thy ===== *)
theory IpcProps
  imports IpcUse
begin

text \<open>The properties of the message layer, with their witnesses.\<close>

section \<open>A client to try them on\<close>

definition msg_heap_blank :: heap_cntrl where
  "msg_heap_blank = \<lparr>blk = (\<lambda>_. \<lparr>back_flag = 0, front_flag = 0, h_next = NULL, h_prev = NULL\<rparr>), word_at = (\<lambda>_. 0),
     hc = 0x80002000, h_start = NULL, h_final = NULL, pg_size = 0\<rparr>"

definition req_blank :: ipcreq where
  "req_blank = \<lparr>r_cmd = 0, r_result = 0, r_fd = 0, r_arg = (\<lambda>_. 0), r_cb = NULL, r_usrdata = NULL, r_relnch = 0, r_syncqueue = 0, r_magic = 0\<rparr>"

text \<open>No interrupt enabled, no handler registered.\<close>

definition irq_blank :: irqstate where
  "irq_blank = \<lparr>irq_ks = \<lparr>threads = (\<lambda>_. zero_thread), s_firstThread = NULL, ppc_next_ctx = NULL, sprg2 = NULL,
     sprg3 = NULL, msr = MSR_EE OR MSR_RI, squeues = (\<lambda>_. zero_queue), mutex_owner = (\<lambda>_. NULL),
     stack_mem = (\<lambda>_. 0), tasks = (\<lambda>_. zero_task), s_firstTask = NULL, timebase = 0, dec_reg = 0\<rparr>,
     hw = \<lparr>pi0 = 0, pi1 = 0xf0, mi14 = 0, mi15 = 0, dsp5 = 0, ai0 = 0, exi0 = 0, exi5 = 0, exi10 = 0\<rparr>, s_irqCookies = (\<lambda>_. (0, 0))\<rparr>"

definition ipc0 :: ipc where
  "ipc0 = \<lparr>cnt_sent = 0, cnt_queue = 0, req_send_no = 0, req_queue_no = 0, reqs = (\<lambda>_. NULL), rq = (\<lambda>_. req_blank),
     vec = (\<lambda>a. if a = 0x90000808 then (0x80400000, 0) else (0x80300000, 32)), mailboxack = 1, relnchFl = False, relnchRpc = NULL, req_magic = 0x1234, spuriousresponsecnt = 0,
     ipc_hid = 0, ipc_heaps = (\<lambda>i. if i = 0 then \<lparr>membase = 0x90000000, ih_size = 0x1000, ih_heap = snd (lwp_heap_init 0x90000000 0x1000 32 msg_heap_blank)\<rparr>
        else \<lparr>membase = NULL, ih_size = 0, ih_heap = msg_heap_blank\<rparr>),
     bufferlo = 0x90000000, bufferhi = 0x90001800, currbufferlo = 0x90001000, currbufferhi = 0x90001800,
     ipc_initialized = True, ipc_clntinitialized = True, ipc_seed = 0, rd = (\<lambda>_ _. 0x32), wr = [], queue_slots = 0, woken = [], ee = True,
     ipc_irqs = irq_blank, accepted = []\<rparr>"

definition ipc_full :: ipc where
  "ipc_full = ipc0\<lparr>cnt_queue := 16, mailboxack := 0, reqs := (\<lambda>i. 0x90000100 + 64 * of_nat i)\<rparr>"

lemma ipc0_wf: "ipc_wf ipc0" "ipc_pending ipc0 = []"
  by (simp_all add: ipc_wf_def pend_n_def ipc_pending_def ipc0_def)

lemma ipc_full_wf: "ipc_wf ipc_full" "length (ipc_pending ipc_full) = 16"
  "\<exists>ps. ipc_pending ipc_full = 0x90000100 # ps" "mailboxack ipc_full = 0"
proof -
  have "unat (0x90000100 + 64 * of_nat i :: u32) \<noteq> 0" if "i < 16" for i :: nat
  proof -
    have "unat (64 * of_nat i :: u32) = 64 * i" using that by (simp add: unat_word_ariths unat_of_nat32)
    then show ?thesis using that by (simp add: unat_plus_if')
  qed
  then have "(0x90000100 + 64 * of_nat i :: u32) \<noteq> NULL" if "i < 16" for i :: nat using that by (metis unsigned_0)
  then show "ipc_wf ipc_full" by (auto simp: ipc_wf_def pend_n_def ipc_pending_def ipc_full_def ipc0_def)
  show "length (ipc_pending ipc_full) = 16" by (simp add: pend_n_def ipc_pending_def ipc_full_def ipc0_def)
  show "\<exists>ps. ipc_pending ipc_full = 0x90000100 # ps"
    by (simp add: pend_n_def ipc_pending_def ipc_full_def ipc0_def upt_conv_Cons)
  show "mailboxack ipc_full = 0" by (simp add: ipc_full_def)
qed

lemma ipc_full_heap: "heap_ok (msg_heap ipc_full) [(0xff8, False)] [0x90000000]" "pg_size (msg_heap ipc_full) = 32" "hid_ok ipc_full"
proof -
  obtain n h where r: "lwp_heap_init 0x90000000 0x1000 32 msg_heap_blank = (n, h)" by fastforce
  have "heap_ok h [(unat (0x1000 :: u32) - 8, False)] [0x90000000] \<and> n = 0x1000 - 16 \<and> pg_size h = 32 \<and> h_start h = 0x90000000"
    by (rule heap_init_ok [OF _ _ _ _ _ _ _ _ r]) (simp_all add: lwp_heap_pgsize_valid_def msg_heap_blank_def)
  then show "heap_ok (msg_heap ipc_full) [(0xff8, False)] [0x90000000]" "pg_size (msg_heap ipc_full) = 32"
    by (simp_all add: msg_heap_def ipc_full_def ipc0_def r)
  show "hid_ok ipc_full" by (simp add: hid_ok_def ipc_full_def ipc0_def word_sless_alt)
qed

abbreviation no_cb :: "ptr \<Rightarrow> s32 \<Rightarrow> ptr \<Rightarrow> ipc \<Rightarrow> ipc option" where "no_cb \<equiv> (\<lambda>_ _ _ s. Some s)"

lemma no_cb_calls: "cb_calls no_cb"
  by (simp add: cb_calls_def)

section \<open>Properties\<close>

text \<open>
  C18. No message is lost, duplicated or overtaken: in every run of calls, interrupts (whose callbacks make any number of calls
  and return) and steps of the IOS processor, what has been written to the mailbox followed by what waits in the ring is what
  there was at the start followed by exactly the requests that were reported as accepted, in the order in
  which they were accepted. When the ring was reinitialised during the run, some of these are missing (those that waited then), and none is
  duplicated or overtaken. The ring never holds more than 16, and the interrupt handler returns.
\<close>

theorem ipc_order:
  assumes "ipc_run run_cb b s s'" "ipc_wf s" "cb_calls run_cb"
  shows "\<exists>new. accepted s' = accepted s @ new \<and>
    (\<not> b \<longrightarrow> sent s' @ map MEM_VIRTUAL_TO_PHYSICAL (ipc_pending s') =
       sent s @ map MEM_VIRTUAL_TO_PHYSICAL (ipc_pending s) @ map MEM_VIRTUAL_TO_PHYSICAL new) \<and>
    subseq (sent s' @ map MEM_VIRTUAL_TO_PHYSICAL (ipc_pending s'))
      (sent s @ map MEM_VIRTUAL_TO_PHYSICAL (ipc_pending s) @ map MEM_VIRTUAL_TO_PHYSICAL new) \<and>
    length (ipc_pending s') \<le> 16 \<and> ipc_interrupthandler run_cb s' \<noteq> None"
proof -
  have k: "kept b s s'" by (rule run_kept [OF assms])
  then have wf: "ipc_wf s'" by (simp add: kept_def)
  then have "ipc_interrupthandler run_cb s' \<noteq> None" using interrupt_ok [OF _ cb_calls_grows [OF assms(3)]] by blast
  then show ?thesis using k wf by (auto simp: kept_def ipc_trace_def ipc_wf_def ipc_pending_def)
qed

text \<open>One request and the interrupt that acknowledges it: it was accepted, and it is in the mailbox or waits.\<close>

theorem ipc_order_witness:
  "\<exists>s1 s2. ipc_asyncrequest 0x90000050 ipc0 = (0, s1) \<and> ipc_interrupthandler no_cb s1 = Some s2 \<and> length (ipc_pending s2) \<le> 16 \<and>
    (\<exists>new. accepted s2 = new \<and> sent s2 @ map MEM_VIRTUAL_TO_PHYSICAL (ipc_pending s2) = map MEM_VIRTUAL_TO_PHYSICAL new) \<and>
    accepted s1 = [0x90000050]"
proof -
  obtain r s1 where a: "ipc_asyncrequest 0x90000050 ipc0 = (r, s1)" by fastforce
  have s1: "r = 0" "ipc_wf s1" "accepted s1 = [0x90000050]" using async_ok [OF ipc0_wf(1) _ a] by (simp_all add: ipc0_wf(2)) (simp add: ipc0_def)
  moreover obtain s2 where i: "ipc_interrupthandler no_cb s1 = Some s2"
    using interrupt_ok [OF s1(2) cb_calls_grows [OF no_cb_calls]] by blast
  moreover have "ipc_run no_cb False ipc0 s2"
    using ipc_run.irq [OF ipc_run.call [OF ipc_run.refl ipc_call.async [OF _ a]] i] by simp
  moreover have "sent ipc0 = []" "accepted ipc0 = []" by (simp_all add: ipc0_def sent_def)
  ultimately show ?thesis using a ipc_order [OF _ ipc0_wf(1) no_cb_calls, of False s2] ipc0_wf(2) by auto
qed

text \<open>
  When the IOS processor acknowledges a message and others wait, the oldest one is sent at once and the
  others keep their places.
\<close>

theorem ipc_ack_sends_next:
  assumes "ipc_wf s" "ipc_pending s = p # ps" "mailboxack s = 0"
  shows "sent (ipc_ackhandler s) = sent s @ [MEM_VIRTUAL_TO_PHYSICAL p] \<and> ipc_pending (ipc_ackhandler s) = ps"
  by (rule ack_sends [OF assms])

theorem ipc_ack_sends_next_witness:
  "\<exists>ps. ipc_pending ipc_full = 0x90000100 # ps \<and>
    sent (ipc_ackhandler ipc_full) = sent ipc_full @ [MEM_VIRTUAL_TO_PHYSICAL 0x90000100] \<and> ipc_pending (ipc_ackhandler ipc_full) = ps"
  using ipc_full_wf(3) ipc_ack_sends_next [OF ipc_full_wf(1) _ ipc_full_wf(4)] by blast

text \<open>
  A call that finds the ring full returns \<^verbatim>\<open>IPC_EQUEUEFULL\<close>, leaves the ring alone and gives its request
  back: the blocks of the message heap are as before.
\<close>

theorem ipc_full_restores:
  assumes "ipc_wf s" "length (ipc_pending s) = 16" "hid_ok s" "heap_ok (msg_heap s) ts fs" "pg_size (msg_heap s) = 32"
    "(m, False) \<in> set ts" "104 \<le> m"
  shows "\<exists>s' fs'. ios_async fill id s = Some (IPC_EQUEUEFULL, s') \<and> heap_ok (msg_heap s') ts fs' \<and> ring s' = ring s"
  by (rule async_full_restores [OF assms])

theorem ipc_full_restores_witness:
  "\<exists>s' fs'. IOS_WriteAsync 3 0x80400000 32 0x80005000 NULL ipc_full = Some (IPC_EQUEUEFULL, s') \<and>
    heap_ok (msg_heap s') [(0xff8, False)] fs' \<and> ring s' = ring ipc_full"
  unfolding IOS_WriteAsync_def by (rule ipc_full_restores [OF ipc_full_wf(1,2) ipc_full_heap(3,1,2), of "0xff8"]) simp_all

text \<open>
  C36. The vector of an \<^verbatim>\<open>IOS_Ioctlv\<close> comes back as it was given: the addresses of its entries, made physical for
  the IOS processor, are made virtual again by the reply. The exception is an entry of length 0 with an
  address: it is not made physical, so that the reply moves it by \<open>0x80000000\<close>.
\<close>

theorem ipc_vector_restored:
  assumes "0 \<le> sint cnt_in" "0 \<le> sint cnt_io" "nat (sint cnt_in) + nat (sint cnt_io) \<le> 2 ^ 28"
    "\<forall>a \<in> set (entries v (nat (sint cnt_in) + nat (sint cnt_io))).
       fst (vec s a) = NULL \<or> 0x80000000 < fst (vec s a) \<and> fst (vec s a) < 0xc0000000"
  shows "vec (fold (vec_k0 v) [0 ..< unat (cnt_in + cnt_io)] (vec_translate v cnt_in cnt_io s)) =
    (\<lambda>a. if a \<in> set (entries v (nat (sint cnt_in) + nat (sint cnt_io))) \<and> fst (vec s a) \<noteq> NULL \<and> snd (vec s a) = 0
         then (fst (vec s a) + 0x80000000, 0) else vec s a)"
proof -
  let ?n = "nat (sint cnt_in) + nat (sint cnt_io)"
  have "cnt_in + cnt_io = of_nat ?n" using assms(1,2) by simp
  then have n: "unat (cnt_in + cnt_io) = ?n" using unat_of_nat32 [of ?n] assms(3) by simp
  have e: "entry_k0 (entry_phys x) = (if fst x \<noteq> NULL \<and> snd x = 0 then (fst x + 0x80000000, 0) else x)"
    if "fst x = NULL \<or> 0x80000000 < fst x \<and> fst x < 0xc0000000" for x
  proof (cases "fst x \<noteq> NULL \<and> snd x = 0")
    case True
    then show ?thesis by (simp add: entry_k0_def entry_phys_def MEM_PHYSICAL_TO_K0_def)
  next
    case False
    then show ?thesis using that entry_round [of x] by (auto simp: entry_ok_def word_gt_0)
  qed
  have "(if a \<in> set (entries v ?n) then entry_k0 (entry_phys (vec s a)) else vec s a) =
    (if a \<in> set (entries v ?n) \<and> fst (vec s a) \<noteq> NULL \<and> snd (vec s a) = 0 then (fst (vec s a) + 0x80000000, 0) else vec s a)" for a
  proof (cases "a \<in> set (entries v ?n)")
    case True
    have "fst (vec s a) = NULL \<or> 0x80000000 < fst (vec s a) \<and> fst (vec s a) < 0xc0000000" using assms(4) True by (rule bspec)
    from e [OF this] True show ?thesis by (simp only: simp_thms if_True)
  qed simp
  then show ?thesis unfolding n vec_there_and_back [OF assms(1-3)] by (simp only:)
qed

theorem ipc_vector_restored_witness:
  "vec (fold (vec_k0 0x90000800) [0 ..< unat (2 + 0 :: u32)] (vec_translate 0x90000800 2 0 ipc0)) 0x90000800 = (0x80300000, 32) \<and>
   vec (fold (vec_k0 0x90000800) [0 ..< unat (2 + 0 :: u32)] (vec_translate 0x90000800 2 0 ipc0)) 0x90000808 = (0x00400000, 0)"
proof -
  have "vec (fold (vec_k0 0x90000800) [0 ..< unat (2 + 0 :: u32)] (vec_translate 0x90000800 2 0 ipc0)) =
    (\<lambda>a. if a \<in> set (entries 0x90000800 (nat (sint (2 :: u32)) + nat (sint (0 :: u32)))) \<and> fst (vec ipc0 a) \<noteq> NULL \<and> snd (vec ipc0 a) = 0
         then (fst (vec ipc0 a) + 0x80000000, 0) else vec ipc0 a)"
    by (rule ipc_vector_restored) (auto simp: ipc0_def)
  then show ?thesis by (simp add: ipc0_def entries_def upt_rec)
qed

text \<open>\<^verbatim>\<open>iosCreateHeap\<close> returns with interrupts disabled when the buffer is too small.\<close>

lemma create_heap_disables: "iosCreateHeap 0x1000 ipc0 = (IPC_ENOMEM, ipc0\<lparr>ee := False\<rparr>)"
  by (rule create_heap_nomem [where i = 1]) (simp_all add: ipc0_def IPC_GetBufferHi_def IPC_GetBufferLo_def upt_rec word_sless_alt)

end
