(* ===== verification/IpcFmt.thy ===== *)
theory IpcFmt
  imports IpcUse Wkspace
begin

text \<open>
  The formatted calls \<^verbatim>\<open>IOS_IoctlvFormat\<close> and \<^verbatim>\<open>IOS_IoctlvFormatAsync\<close> of \<^verbatim>\<open>libogc/ipc.c\<close>. The arguments of a
  call are described by a string: scalars and strings are copied into buffers of the message heap, behind
  a colon those that IOS may change, which are copied back and freed afterwards.

  The state adds to the message layer the workspace, which holds the bookkeeping, and bytes of memory.
  Variable arguments are words and double words; reading one of the wrong kind is undefined (\<open>None\<close>).
\<close>

section \<open>Data\<close>

datatype vararg = V32 u32 | V64 u64

record fmt_bufent =
  ipc_buf :: ptr
  io_buf :: ptr
  copy_len :: s32

record fmt_cbdata =
  user_cb :: ptr
  user_data :: ptr
  num_bufs :: s32
  f_hId :: s32
  f_bufs :: ptr

record ipcw =
  ip :: ipc
  wk :: wkspace
  mem :: "ptr \<Rightarrow> u8"
  ent :: "ptr \<Rightarrow> fmt_bufent"
  cbd :: "ptr \<Rightarrow> fmt_cbdata"

text \<open>The local variables of the parser.\<close>

record ploc =
  argp :: ptr
  bufp :: ptr
  cnt_in :: s32
  cnt_io :: s32

abbreviation IOS_MAXFMT_PARAMS :: nat where "IOS_MAXFMT_PARAMS \<equiv> 32"
abbreviation IPC_HEAP :: s32 where "IPC_HEAP \<equiv> - 1"

definition io_alloc :: "s32 \<Rightarrow> s32 \<Rightarrow> ipcw \<Rightarrow> (ptr \<times> ipcw) option" where
  "io_alloc hid n w = map_option (\<lambda>(p, s). (p, w\<lparr>ip := s\<rparr>)) (iosAlloc hid n (ip w))"

definition io_free :: "s32 \<Rightarrow> ptr \<Rightarrow> ipcw \<Rightarrow> ipcw" where
  "io_free hid p w = w\<lparr>ip := iosFree hid p (ip w)\<rparr>"

definition wk_alloc :: "u32 \<Rightarrow> ipcw \<Rightarrow> (ptr \<times> ipcw) option" where
  "wk_alloc n w = map_option (\<lambda>(p, k). (p, w\<lparr>wk := k\<rparr>)) (lwp_wkspace_allocate n (wk w))"

definition wk_free :: "ptr \<Rightarrow> ipcw \<Rightarrow> ipcw" where
  "wk_free p w = w\<lparr>wk := snd (lwp_wkspace_free p (wk w))\<rparr>"

section \<open>The parser\<close>

text \<open>A buffer of the message heap for the bytes of one argument.\<close>

definition fmt_buffer :: "s32 \<Rightarrow> ptr \<Rightarrow> ptr \<Rightarrow> u8 list \<Rightarrow> ptr option \<Rightarrow> ploc \<Rightarrow> ipcw \<Rightarrow> ploc \<times> ipcw" where
  "fmt_buffer hid cb pdata bs io l w =
     (let n = length bs;
          w1 = w\<lparr>mem := store_bytes pdata bs (mem w), ip := (ip w)\<lparr>vec := (vec (ip w))(argp l := (pdata, of_nat n))\<rparr>,
                 ent := (ent w)(bufp l := (case io of
                    None \<Rightarrow> (ent w (bufp l))\<lparr>ipc_buf := pdata\<rparr>
                  | Some d \<Rightarrow> \<lparr>ipc_buf = pdata, io_buf = d, copy_len = of_nat n\<rparr>)),
                 cbd := (cbd w)(cb := (cbd w cb)\<lparr>num_bufs := num_bufs (cbd w cb) + 1\<rparr>)\<rparr>
      in (l\<lparr>argp := argp l + 8, bufp := bufp l + 12,
            cnt_in := (if io = None then cnt_in l + 1 else cnt_in l), cnt_io := (if io = None then cnt_io l else cnt_io l + 1)\<rparr>, w1))"

definition fmt_data :: "bool \<Rightarrow> ptr \<Rightarrow> u32 \<Rightarrow> ploc \<Rightarrow> ipcw \<Rightarrow> ploc \<times> ipcw" where
  "fmt_data out d n l w =
     (l\<lparr>argp := argp l + 8, cnt_in := (if out then cnt_in l else cnt_in l + 1), cnt_io := (if out then cnt_io l + 1 else cnt_io l)\<rparr>,
      w\<lparr>ip := (ip w)\<lparr>vec := (vec (ip w))(argp l := (d, n))\<rparr>\<rparr>)"

text \<open>The sizes of the scalars; a 64-bit argument is taken as a double word.\<close>

definition scalar_size :: "char \<Rightarrow> nat option" where
  "scalar_size c = (if c = CHR ''b'' then Some 1 else if c = CHR ''h'' then Some 2 else if c = CHR ''i'' then Some 4
     else if c = CHR ''q'' then Some 8 else None)"

definition scalar_bytes :: "nat \<Rightarrow> vararg \<Rightarrow> u8 list option" where
  "scalar_bytes n v = (case v of V32 x \<Rightarrow> if n \<le> 4 then Some (be_bytes n (ucast x)) else None
     | V64 x \<Rightarrow> if n = 8 then Some (be_bytes n x) else None)"

definition lower :: "char \<Rightarrow> char" where
  "lower c = (if 65 \<le> (of_char c :: nat) \<and> of_char c \<le> (90 :: nat) then char_of (of_char c + 32 :: nat) else c)"

fun parse_io :: "s32 \<Rightarrow> ptr \<Rightarrow> string \<Rightarrow> vararg list \<Rightarrow> ploc \<Rightarrow> ipcw \<Rightarrow> (s32 \<times> ploc \<times> ipcw) option" where
  "parse_io hid cb [] as l w = Some (IPC_OK, l, w)"
| "parse_io hid cb (c # cs) as l w =
     (case scalar_size (lower c) of
        Some n \<Rightarrow>
          do { (p, w1) \<leftarrow> io_alloc hid (of_nat n) w;
               if p = NULL then Some (IPC_ENOMEM, l, w1)
               else case as of
                 V32 d # as' \<Rightarrow> (case fmt_buffer hid cb p (load_bytes (mem w1) d n) (Some d) l w1 of (l', w') \<Rightarrow> parse_io hid cb cs as' l' w')
               | _ \<Rightarrow> None }
      | None \<Rightarrow>
          if lower c = CHR ''d'' then
            (case as of V32 d # V32 n # as' \<Rightarrow> (case fmt_data True d n l w of (l', w') \<Rightarrow> parse_io hid cb cs as' l' w') | _ \<Rightarrow> None)
          else Some (IPC_EINVAL, l, w))"

fun parse_in :: "s32 \<Rightarrow> ptr \<Rightarrow> string \<Rightarrow> vararg list \<Rightarrow> ploc \<Rightarrow> ipcw \<Rightarrow> (s32 \<times> ploc \<times> ipcw) option" where
  "parse_in hid cb [] as l w = parse_io hid cb [] as l w"
| "parse_in hid cb (c # cs) as l w =
     (case scalar_size (lower c) of
        Some n \<Rightarrow>
          do { (p, w1) \<leftarrow> io_alloc hid (of_nat n) w;
               if p = NULL then Some (IPC_ENOMEM, l, w1)
               else case as of
                 a # as' \<Rightarrow> do { bs \<leftarrow> scalar_bytes n a;
                               case fmt_buffer hid cb p bs None l w1 of (l', w') \<Rightarrow> parse_in hid cb cs as' l' w' }
               | _ \<Rightarrow> None }
      | None \<Rightarrow>
          if lower c = CHR ''d'' then
            (case as of V32 d # V32 n # as' \<Rightarrow> (case fmt_data False d n l w of (l', w') \<Rightarrow> parse_in hid cb cs as' l' w') | _ \<Rightarrow> None)
          else if lower c = CHR ''s'' then
            (case as of
               V32 ps # as' \<Rightarrow>
                 let len = strnlen_at (mem w) ps 256 in
                 if len \<ge> 256 then Some (IPC_EINVAL, l, w)
                 else do { (p, w1) \<leftarrow> io_alloc hid (of_nat len + 1) w;
                           if p = NULL then Some (IPC_ENOMEM, l, w1)
                           else case fmt_buffer hid cb p (load_bytes (mem w1) ps (len + 1)) None l w1 of (l', w') \<Rightarrow> parse_in hid cb cs as' l' w' }
             | _ \<Rightarrow> None)
          else if c = CHR '':'' then parse_io hid cb cs as l w
          else Some (IPC_EINVAL, l, w))"

text \<open>\<^verbatim>\<open>free_and_error\<close>, and the loop over the buffers.\<close>

definition free_buf :: "s32 \<Rightarrow> ptr \<Rightarrow> nat \<Rightarrow> ipcw \<Rightarrow> ipcw" where
  "free_buf hid bufs i w =
     (let p = ipc_buf (ent w (bufs + 12 * of_nat i)) in if p \<noteq> NULL then io_free hid p w else w)"

definition fmt_cleanup :: "s32 \<Rightarrow> ptr \<Rightarrow> ipcw \<Rightarrow> ipcw" where
  "fmt_cleanup hid cb w =
     (let c = cbd w cb in wk_free (f_bufs c) (fold (free_buf hid (f_bufs c)) [0 ..< nat (sint (num_bufs c))] w))"

definition ios_ioctlvformat_parse :: "string \<Rightarrow> vararg list \<Rightarrow> ptr \<Rightarrow> s32 \<Rightarrow> ipcw \<Rightarrow> (s32 \<times> s32 \<times> s32 \<times> ptr \<times> ipcw) option" where
  "ios_ioctlvformat_parse format as cb hId w =
     (let hid = (if hId = IPC_HEAP then ipc_hid (ip w) else hId) in
      if hid <s 0 then Some (IPC_EINVAL, 0, 0, NULL, w)
      else if length format \<ge> IOS_MAXFMT_PARAMS then Some (IPC_EINVAL, 0, 0, NULL, w)
      else let n = length format + 1; w0 = w\<lparr>cbd := (cbd w)(cb := (cbd w cb)\<lparr>f_hId := hid\<rparr>)\<rparr> in
        do { (bufs, w1) \<leftarrow> wk_alloc (12 * of_nat n) w0;
             let w2 = w1\<lparr>cbd := (cbd w1)(cb := (cbd w1 cb)\<lparr>f_bufs := bufs\<rparr>)\<rparr> in
             if bufs = NULL then Some (IPC_ENOMEM, 0, 0, NULL, w2)
             else do { (argv, w3) \<leftarrow> io_alloc hid (8 * of_nat n) w2;
               if argv = NULL then Some (IPC_ENOMEM, 0, 0, NULL, wk_free bufs w3)
               else let w4 = w3\<lparr>ip := (ip w3)\<lparr>vec := (\<lambda>a. if a - argv < 8 * of_nat n then (NULL, 0) else vec (ip w3) a)\<rparr>,
                                ent := (\<lambda>a. if a - bufs < 12 * of_nat n then \<lparr>ipc_buf = NULL, io_buf = NULL, copy_len = 0\<rparr> else ent w3 a)\<rparr>;
                        w5 = w4\<lparr>cbd := (cbd w4)(cb := (cbd w4 cb)\<lparr>num_bufs := 1\<rparr>),
                                ent := (ent w4)(bufs := (ent w4 bufs)\<lparr>ipc_buf := argv\<rparr>)\<rparr>
                    in do { (ret, l, w6) \<leftarrow> parse_in hid cb format as \<lparr>argp = argv, bufp = bufs + 12, cnt_in = 0, cnt_io = 0\<rparr> w5;
                            Some (ret, cnt_in l, cnt_io l, argv, if ret = IPC_OK then w6 else fmt_cleanup hid cb w6) } } })"

section \<open>After the call\<close>

definition copy_back :: "s32 \<Rightarrow> ptr \<Rightarrow> nat \<Rightarrow> ipcw \<Rightarrow> ipcw" where
  "copy_back hid bufs i w =
     (let e = ent w (bufs + 12 * of_nat i) in
      if ipc_buf e \<noteq> NULL then
        io_free hid (ipc_buf e)
          (if io_buf e \<noteq> NULL \<and> copy_len e \<noteq> 0
           then w\<lparr>mem := store_bytes (io_buf e) (load_bytes (mem w) (ipc_buf e) (unat (copy_len e))) (mem w)\<rparr> else w)
      else w)"

text \<open>\<^verbatim>\<open>__ioctlvfmtCB\<close> up to the user's callback: its result is the callback to make.\<close>

definition ioctlvfmtCB :: "ptr \<Rightarrow> ipcw \<Rightarrow> (ptr \<times> ptr) \<times> ipcw" where
  "ioctlvfmtCB cb w =
     (let c = cbd w cb;
          w1 = (if f_bufs c \<noteq> NULL
                then (fold (copy_back (f_hId c) (f_bufs c)) [0 ..< unat (num_bufs c)] w)\<lparr>cbd := (cbd w)(cb := c\<lparr>num_bufs := - 1\<rparr>)\<rparr>
                else w)
      in ((user_cb c, user_data c), wk_free cb (wk_free (f_bufs c) w1)))"

definition fmt_begin :: "s32 \<Rightarrow> string \<Rightarrow> vararg list \<Rightarrow> ipcw \<Rightarrow> (ptr \<times> s32 \<times> s32 \<times> s32 \<times> ptr \<times> ipcw) option" where
  "fmt_begin hId format as w =
     do { (cb, w1) \<leftarrow> wk_alloc 20 w;
          if cb = NULL then Some (NULL, IPC_ENOMEM, 0, 0, NULL, w1)
          else let w2 = w1\<lparr>cbd := (cbd w1)(cb := \<lparr>user_cb = NULL, user_data = NULL, num_bufs = 0, f_hId = 0, f_bufs = NULL\<rparr>)\<rparr> in
            do { (ret, ci, co, argv, w3) \<leftarrow> ios_ioctlvformat_parse format as cb hId w2;
                 Some (if ret <s 0 then (NULL, ret, ci, co, argv, wk_free cb w3) else (cb, ret, ci, co, argv, w3)) } }"

text \<open>Until the caller sleeps, and what it does when it wakes up.\<close>

definition IOS_IoctlvFormat :: "s32 \<Rightarrow> s32 \<Rightarrow> u32 \<Rightarrow> string \<Rightarrow> vararg list \<Rightarrow> ipcw \<Rightarrow> (ptr \<times> ptr \<times> bool \<times> s32 \<times> ipcw) option" where
  "IOS_IoctlvFormat hId fd ioctl format as w =
     do { (cb, ret, ci, co, argv, w1) \<leftarrow> fmt_begin hId format as w;
          if cb = NULL then Some (NULL, NULL, False, ret, w1)
          else do { (r, b, ret', s) \<leftarrow> IOS_Ioctlv fd ioctl ci co argv (ip w1); Some (cb, r, b, ret', w1\<lparr>ip := s\<rparr>) } }"

definition IOS_IoctlvFormat_end :: "ptr \<Rightarrow> ptr \<Rightarrow> bool \<Rightarrow> s32 \<Rightarrow> ipcw \<Rightarrow> s32 \<times> ipcw" where
  "IOS_IoctlvFormat_end cb r level ret w =
     (let (ret', w1) = (if r = NULL then (ret, w) else case ios_sync_end r level ret (ip w) of (x, s) \<Rightarrow> (x, w\<lparr>ip := s\<rparr>))
      in (ret', snd (ioctlvfmtCB cb w1)))"

text \<open>\<open>fmtCB\<close> is the address of \<^verbatim>\<open>__ioctlvfmtCB\<close>.\<close>

definition IOS_IoctlvFormatAsync :: "ptr \<Rightarrow> s32 \<Rightarrow> s32 \<Rightarrow> u32 \<Rightarrow> ptr \<Rightarrow> ptr \<Rightarrow> string \<Rightarrow> vararg list \<Rightarrow> ipcw \<Rightarrow> (s32 \<times> ipcw) option" where
  "IOS_IoctlvFormatAsync fmtCB hId fd ioctl ucb ud format as w =
     do { (cb, ret, ci, co, argv, w1) \<leftarrow> fmt_begin hId format as w;
          if cb = NULL then Some (ret, w1)
          else let w2 = w1\<lparr>cbd := (cbd w1)(cb := (cbd w1 cb)\<lparr>user_cb := ucb, user_data := ud\<rparr>)\<rparr> in
            do { (ret', s) \<leftarrow> IOS_IoctlvAsync fd ioctl ci co argv fmtCB cb (ip w2); Some (ret', w2\<lparr>ip := s\<rparr>) } }"

end
