(* ===== verification/IpcFmtInv.thy ===== *)
theory IpcFmtInv
  imports IpcFmt
begin

text \<open>
  The formatted calls return every buffer: on every error path of the parser, and after a call.
\<close>

section \<open>The message heaps are allocators\<close>

definition ios_heap :: "s32 \<Rightarrow> ipc \<Rightarrow> heap_cntrl" where
  "ios_heap hid s = ih_heap (ipc_heaps s (unat hid))"

definition ios_inv :: "s32 \<Rightarrow> nat \<Rightarrow> ipc \<Rightarrow> bool" where
  "ios_inv hid T s \<longleftrightarrow> \<not> hid <s 0 \<and> \<not> 16 \<le>s hid \<and> heap_inv 32 T (ios_heap hid s)"

definition ios_admit :: "s32 \<Rightarrow> bool" where
  "ios_admit n \<longleftrightarrow> \<not> n \<le>s 0 \<and> admitted 32 n"

lemma iosAlloc_eq:
  assumes "ios_inv hid T s" "ios_admit n"
  shows "iosAlloc hid n s = map_option (\<lambda>(p, h'). (p, s\<lparr>ipc_heaps := (ipc_heaps s)(unat hid := (ipc_heaps s (unat hid))\<lparr>ih_heap := h'\<rparr>)\<rparr>))
    (lwp_heap_allocate n (ios_heap hid s))"
  using assms by (simp add: iosAlloc_def ios_inv_def ios_admit_def ios_heap_def Let_def)

lemma ios_heap_set [simp]:
  "ios_heap hid (s\<lparr>ipc_heaps := (ipc_heaps s)(unat hid := (ipc_heaps s (unat hid))\<lparr>ih_heap := h'\<rparr>)\<rparr>) = h'"
  by (simp add: ios_heap_def)

lemma iosFree_heap: "ios_inv hid T s \<Longrightarrow> p \<noteq> NULL \<Longrightarrow> ios_heap hid (iosFree hid p s) = snd (lwp_heap_free p (ios_heap hid s))"
  by (simp add: iosFree_def ios_inv_def ios_heap_def Let_def)

lemma owned_nonnull: "owned h p l u \<Longrightarrow> p \<noteq> NULL"
  by (auto simp: owned_def)

interpretation ios: tracked_allocator "ios_inv hid T" "\<lambda>s. owned (ios_heap hid s)" ios_admit "iosAlloc hid" "\<lambda>p s. (True, iosFree hid p s)"
  "\<lambda>s. blocks (ios_heap hid s)" for hid T
proof (standard, goal_cases)
  case (1 s n)
  then have h: "heap_inv 32 T (ios_heap hid s)" "admitted 32 n" by (auto simp: ios_inv_def ios_admit_def)
  have inv': "ios_inv hid T (s\<lparr>ipc_heaps := (ipc_heaps s)(unat hid := (ipc_heaps s (unat hid))\<lparr>ih_heap := h'\<rparr>)\<rparr>) \<longleftrightarrow> heap_inv 32 T h'" for h'
    using 1(1) by (simp add: ios_inv_def)
  show ?case unfolding iosAlloc_eq [OF 1]
    using lwp.alloc_law [OF h] by (elim disjE exE conjE) (simp_all add: ios_heap_def, use inv' in fastforce)
next
  case (2 s p lo hi)
  note i = iosFree_heap [OF 2(1) owned_nonnull [OF 2(2)]]
  have "heap_inv 32 T (ios_heap hid s)" using 2(1) by (simp add: ios_inv_def)
  from lwp.release_law [OF this 2(2)] show ?case using 2(1) by (auto simp: i ios_inv_def)
next
  case (3 s n p s')
  have h: "heap_inv 32 T (ios_heap hid s)" "admitted 32 n" using 3(1,2) by (auto simp: ios_inv_def ios_admit_def)
  obtain h' where "lwp_heap_allocate n (ios_heap hid s) = Some (p, h')" "ios_heap hid s' = h'"
    using 3(3) unfolding iosAlloc_eq [OF 3(1,2)] by auto
  then show ?case using lwpt.alloc_used [OF h _ 3(4)] by simp
next
  case (4 s p b)
  have "heap_inv 32 T (ios_heap hid s)" using 4(1) by (simp add: ios_inv_def)
  then show ?case using lwpt.release_used [OF _ 4(2)] iosFree_heap [OF 4(1) owned_nonnull [OF 4(2)]] by simp
qed

section \<open>The buffers taken so far\<close>

text \<open>
  \<open>U\<close> are the blocks in use before the call, \<open>k\<close> the workspace; \<open>m\<close> more buffers fit into the list at \<open>bufs\<close>.
\<close>

definition bufs_taken :: "s32 \<Rightarrow> nat \<Rightarrow> (nat \<times> nat) set \<Rightarrow> ptr \<Rightarrow> ptr \<Rightarrow> ptr list \<Rightarrow> ipcw \<Rightarrow> bool" where
  "bufs_taken hid T U cb bufs ps w \<longleftrightarrow>
     f_bufs (cbd w cb) = bufs \<and> f_hId (cbd w cb) = hid \<and> num_bufs (cbd w cb) = of_nat (length ps) \<and>
     (\<forall>i < length ps. ipc_buf (ent w (bufs + 12 * of_nat i)) = ps ! i) \<and>
     ios.taken hid T (ip w) U ps"

definition fmt_inv :: "s32 \<Rightarrow> nat \<Rightarrow> (nat \<times> nat) set \<Rightarrow> ptr \<Rightarrow> ptr \<Rightarrow> wkspace \<Rightarrow> nat \<Rightarrow> ploc \<Rightarrow> ipcw \<Rightarrow> bool" where
  "fmt_inv hid T U cb bufs k m l w \<longleftrightarrow> wk w = k \<and>
     (\<exists>ps. length ps + m \<le> 33 \<and> bufs_taken hid T U cb bufs ps w \<and> bufp l = bufs + 12 * of_nat (length ps))"

lemma fmt_inv_mono: "fmt_inv hid T U cb bufs k m l w \<Longrightarrow> m' \<le> m \<Longrightarrow> fmt_inv hid T U cb bufs k m' l w"
  unfolding fmt_inv_def by (meson add_left_mono order_trans)

lemma entry_distinct:
  fixes bufs :: ptr
  assumes "i < j" "j \<le> 33"
  shows "bufs + 12 * of_nat i \<noteq> bufs + 12 * of_nat j"
proof -
  have "unat (12 * of_nat n :: ptr) = 12 * n" if "n \<le> 33" for n :: nat
    using that by (simp add: unat_word_ariths unat_of_nat32)
  then have "unat (12 * of_nat i :: ptr) \<noteq> unat (12 * of_nat j :: ptr)" using assms by simp
  then show ?thesis by auto
qed

lemma taken_nonnull: "ios.taken hid T s U ps \<Longrightarrow> i < length ps \<Longrightarrow> ps ! i \<noteq> NULL"
  unfolding ios.taken_def ios.holding_def list_all2_conv_all_nth using owned_nonnull by blast

lemma taken_heap: "ios_heap hid s' = ios_heap hid s \<Longrightarrow> ios.taken hid T s' U ps = ios.taken hid T s U ps"
  by (simp add: ios.taken_def ios.holding_def ios_inv_def)

lemma bufs_taken_cong:
  assumes "ios_heap hid (ip w') = ios_heap hid (ip w)" "ent w' = ent w" "f_bufs (cbd w' cb) = f_bufs (cbd w cb)"
    "f_hId (cbd w' cb) = f_hId (cbd w cb)" "num_bufs (cbd w' cb) = num_bufs (cbd w cb)"
  shows "bufs_taken hid T U cb bufs ps w' = bufs_taken hid T U cb bufs ps w"
  using assms(2-5) taken_heap [OF assms(1)] by (simp add: bufs_taken_def)

lemma fmt_data_inv:
  assumes "fmt_inv hid T U cb bufs k m l w" "fmt_data out d n l w = (l', w')"
  shows "fmt_inv hid T U cb bufs k m l' w'"
proof -
  have r: "bufp l' = bufp l" "wk w' = wk w" "w' = w\<lparr>ip := (ip w)\<lparr>vec := (vec (ip w))(argp l := (d, n))\<rparr>\<rparr>"
    using assms(2) by (auto simp: fmt_data_def)
  have "bufs_taken hid T U cb bufs ps w' = bufs_taken hid T U cb bufs ps w" for ps
    by (rule bufs_taken_cong) (simp_all add: r(3) ios_heap_def)
  then show ?thesis using assms(1) r(1,2) by (simp add: fmt_inv_def)
qed

lemma fmt_buffer_inv:
  assumes w: "fmt_inv hid T U cb bufs k (Suc m) l w" and n: "ios_admit n"
  shows "io_alloc hid n w = Some (NULL, w) \<or>
    (\<exists>p w1. io_alloc hid n w = Some (p, w1) \<and> p \<noteq> NULL \<and>
       (\<forall>bs io l' w'. fmt_buffer hid cb p bs io l w1 = (l', w') \<longrightarrow> fmt_inv hid T U cb bufs k m l' w'))"
proof -
  obtain ps where i: "wk w = k" "length ps + Suc m \<le> 33" "bufs_taken hid T U cb bufs ps w" "bufp l = bufs + 12 * of_nat (length ps)"
    using w unfolding fmt_inv_def by blast
  note t = i(3) [unfolded bufs_taken_def]
  then have "ios.taken hid T (ip w) U ps" by blast
  from this n show ?thesis
  proof (rule ios.taken_alloc)
    assume "iosAlloc hid n (ip w) = Some (NULL, ip w)"
    then show ?thesis by (simp add: io_alloc_def)
  next
    fix p s'
    assume p: "iosAlloc hid n (ip w) = Some (p, s')" "p \<noteq> NULL" "ios.taken hid T s' U (ps @ [p])"
    have e: "ipc_buf (ent w (bufs + 12 * of_nat j)) = ps ! j" "bufs + 12 * of_nat j \<noteq> bufp l" if "j < length ps" for j
      using t that entry_distinct [OF that, of bufs] i(2,4) by auto
    have "fmt_inv hid T U cb bufs k m l' w'" if "fmt_buffer hid cb p cs io l (w\<lparr>ip := s'\<rparr>) = (l', w')" for cs io l' w'
    proof -
      have w': "wk w' = k" "ios_heap hid (ip w') = ios_heap hid s'" "cbd w' cb = (cbd w cb)\<lparr>num_bufs := num_bufs (cbd w cb) + 1\<rparr>"
          "bufp l' = bufp l + 12" "\<And>a. ipc_buf (ent w' a) = (if a = bufp l then p else ipc_buf (ent w a))"
        using that i(1) by (auto simp: fmt_buffer_def Let_def ios_heap_def split: option.splits)
      have "ipc_buf (ent w' (bufs + 12 * of_nat j)) = (ps @ [p]) ! j" if "j < length (ps @ [p])" for j
        using that e w'(5) i(4) by (cases "j < length ps") (auto simp: nth_append less_Suc_eq)
      then have "bufs_taken hid T U cb bufs (ps @ [p]) w'"
        unfolding bufs_taken_def using t w' p(3) taken_heap [OF w'(2)] by auto
      moreover have "bufp l' = bufs + 12 * of_nat (length (ps @ [p]))" using w'(4) i(4) by (simp add: algebra_simps)
      ultimately show ?thesis using w'(1) i(2) unfolding fmt_inv_def by (intro conjI exI [of _ "ps @ [p]"]) auto
    qed
    then show ?thesis using p(1,2) by (auto simp: io_alloc_def)
  qed
qed

section \<open>The parser\<close>

text \<open>Arguments of the kinds that the format names, as far as the parser reads them.\<close>

fun io_args :: "string \<Rightarrow> vararg list \<Rightarrow> bool" where
  "io_args [] as = True"
| "io_args (c # cs) as =
     (if scalar_size (lower c) \<noteq> None then (case as of V32 _ # as' \<Rightarrow> io_args cs as' | _ \<Rightarrow> False)
      else if lower c = CHR ''d'' then (case as of V32 _ # V32 _ # as' \<Rightarrow> io_args cs as' | _ \<Rightarrow> False)
      else True)"

fun in_args :: "string \<Rightarrow> vararg list \<Rightarrow> bool" where
  "in_args [] as = True"
| "in_args (c # cs) as =
     (case scalar_size (lower c) of
        Some n \<Rightarrow> (case as of a # as' \<Rightarrow> scalar_bytes n a \<noteq> None \<and> in_args cs as' | _ \<Rightarrow> False)
      | None \<Rightarrow>
          if lower c = CHR ''d'' then (case as of V32 _ # V32 _ # as' \<Rightarrow> in_args cs as' | _ \<Rightarrow> False)
          else if lower c = CHR ''s'' then (case as of V32 _ # as' \<Rightarrow> in_args cs as' | _ \<Rightarrow> False)
          else if c = CHR '':'' then io_args cs as else True)"

lemma small_admit: "0 < n \<Longrightarrow> n \<le> 1024 \<Longrightarrow> ios_admit (of_nat n)"
  by (simp add: ios_admit_def admitted_def unat_of_nat32 word_sle_eq signed_of_nat signed_take_bit_int_eq_self)

lemma scalar_admit: "scalar_size c = Some n \<Longrightarrow> ios_admit (of_nat n)"
  by (rule small_admit) (auto simp: scalar_size_def split: if_splits)

definition parsed :: "s32 \<Rightarrow> nat \<Rightarrow> (nat \<times> nat) set \<Rightarrow> ptr \<Rightarrow> ptr \<Rightarrow> wkspace \<Rightarrow> (s32 \<times> ploc \<times> ipcw) option \<Rightarrow> bool" where
  "parsed hid T U cb bufs k r \<longleftrightarrow>
     (case r of None \<Rightarrow> False | Some (ret, l, w) \<Rightarrow> ret \<in> {IPC_OK, IPC_ENOMEM, IPC_EINVAL} \<and> fmt_inv hid T U cb bufs k 0 l w)"

lemma parsed_stop [simp]:
  "fmt_inv hid T U cb bufs k m l w \<Longrightarrow> ret \<in> {IPC_OK, IPC_ENOMEM, IPC_EINVAL} \<Longrightarrow> parsed hid T U cb bufs k (Some (ret, l, w))"
  using fmt_inv_mono [of hid T U cb bufs k m l w 0] by (simp add: parsed_def)

lemma parse_io_inv:
  "io_args cs as \<Longrightarrow> fmt_inv hid T U cb bufs k (length cs) l w \<Longrightarrow> parsed hid T U cb bufs k (parse_io hid cb cs as l w)"
proof (induction cs arbitrary: as l w)
  case Nil
  then show ?case by simp
next
  case (Cons c cs)
  have w: "fmt_inv hid T U cb bufs k (Suc (length cs)) l w" using Cons.prems(2) by simp
  show ?case
  proof (cases "scalar_size (lower c)")
    case (Some n)
    then obtain d as' where a: "as = V32 d # as'" "io_args cs as'"
      using Cons.prems(1) by (auto split: list.splits vararg.splits)
    from fmt_buffer_inv [OF w scalar_admit [OF Some]] show ?thesis
    proof (elim disjE exE conjE)
      assume "io_alloc hid (of_nat n) w = Some (NULL, w)"
      then show ?thesis using w Some by simp
    next
      fix p w1
      assume p: "io_alloc hid (of_nat n) w = Some (p, w1)" "p \<noteq> NULL"
        "\<forall>bs io l' w'. fmt_buffer hid cb p bs io l w1 = (l', w') \<longrightarrow> fmt_inv hid T U cb bufs k (length cs) l' w'"
      obtain l' w' where b: "fmt_buffer hid cb p (load_bytes (mem w1) d n) (Some d) l w1 = (l', w')" by fastforce
      have "fmt_inv hid T U cb bufs k (length cs) l' w'" using p(3) b by blast
      then show ?thesis using Cons.IH [OF a(2)] p(1,2) b Some a(1) by simp
    qed
  next
    case None
    show ?thesis
    proof (cases "lower c = CHR ''d''")
      case True
      then obtain d n as' where a: "as = V32 d # V32 n # as'" "io_args cs as'"
        using Cons.prems(1) None by (auto split: list.splits vararg.splits)
      obtain l' w' where b: "fmt_data True d n l w = (l', w')" by fastforce
      have "fmt_inv hid T U cb bufs k (length cs) l' w'" using fmt_data_inv [OF fmt_inv_mono [OF w, of "length cs"] b] by simp
      then show ?thesis using Cons.IH [OF a(2)] None True a(1) b by simp
    next
      case False
      then show ?thesis using w None by simp
    qed
  qed
qed

lemma parse_in_inv:
  "in_args cs as \<Longrightarrow> fmt_inv hid T U cb bufs k (length cs) l w \<Longrightarrow> parsed hid T U cb bufs k (parse_in hid cb cs as l w)"
proof (induction cs arbitrary: as l w)
  case Nil
  then show ?case by simp
next
  case (Cons c cs)
  have w: "fmt_inv hid T U cb bufs k (Suc (length cs)) l w" using Cons.prems(2) by simp
  have step: "parsed hid T U cb bufs k
      (do { (p, w1) \<leftarrow> io_alloc hid n w; if p = NULL then Some (IPC_ENOMEM, l, w1)
            else case fmt_buffer hid cb p (f w1) None l w1 of (l', w') \<Rightarrow> parse_in hid cb cs as' l' w' })"
    if n: "ios_admit n" and a: "in_args cs as'" for n f as'
    using fmt_buffer_inv [OF w n]
  proof (elim disjE exE conjE)
    assume "io_alloc hid n w = Some (NULL, w)"
    then show ?thesis using w by simp
  next
    fix p w1
    assume p: "io_alloc hid n w = Some (p, w1)" "p \<noteq> NULL"
      "\<forall>bs io l' w'. fmt_buffer hid cb p bs io l w1 = (l', w') \<longrightarrow> fmt_inv hid T U cb bufs k (length cs) l' w'"
    obtain l' w' where b: "fmt_buffer hid cb p (f w1) None l w1 = (l', w')" by fastforce
    have "fmt_inv hid T U cb bufs k (length cs) l' w'" using p(3) b by blast
    then show ?thesis using Cons.IH [OF a] p(1,2) b by simp
  qed
  consider n where "scalar_size (lower c) = Some n" | "scalar_size (lower c) = None" "lower c = CHR ''d''"
    | "scalar_size (lower c) = None" "lower c = CHR ''s''" | "scalar_size (lower c) = None" "lower c \<noteq> CHR ''d''" "lower c \<noteq> CHR ''s''"
    by fastforce
  then show ?case
  proof cases
    case 1
    then obtain a as' bs where a: "as = a # as'" "scalar_bytes n a = Some bs" "in_args cs as'"
      using Cons.prems(1) by (auto split: list.splits)
    show ?thesis using step [OF scalar_admit [OF 1] a(3), of "\<lambda>_. bs"] 1 a(1,2) by (simp cong: if_cong)
  next
    case 2
    then obtain d n as' where a: "as = V32 d # V32 n # as'" "in_args cs as'"
      using Cons.prems(1) by (auto split: list.splits vararg.splits)
    obtain l' w' where b: "fmt_data False d n l w = (l', w')" by fastforce
    have "fmt_inv hid T U cb bufs k (length cs) l' w'" using fmt_data_inv [OF fmt_inv_mono [OF w, of "length cs"] b] by simp
    then show ?thesis using Cons.IH [OF a(2)] 2 a(1) b by simp
  next
    case 3
    then obtain q as' where a: "as = V32 q # as'" "in_args cs as'"
      using Cons.prems(1) by (auto split: list.splits vararg.splits)
    show ?thesis
    proof (cases "256 \<le> strnlen_at (mem w) q 256")
      case True
      then show ?thesis using w 3 a(1) by simp
    next
      case False
      have "ios_admit (of_nat (strnlen_at (mem w) q 256 + 1))" using False by (intro small_admit) simp_all
      from step [OF this a(2), of "\<lambda>w1. load_bytes (mem w1) q (strnlen_at (mem w) q 256 + 1)"] show ?thesis
        using 3 a(1) False by (simp add: add.commute Let_def)
    qed
  next
    case 4
    then show ?thesis using w parse_io_inv [of cs as hid T U cb bufs k l w] fmt_inv_mono [OF w, of "length cs"] Cons.prems(1) by simp
  qed
qed

section \<open>Giving the buffers back\<close>

lemma fold_free_buf:
  assumes "\<forall>i < length ps. ipc_buf (ent w (bufs + 12 * of_nat i)) = ps ! i" "\<forall>i < length ps. ps ! i \<noteq> NULL" "n \<le> length ps"
  shows "fold (free_buf hid bufs) [0 ..< n] w = w\<lparr>ip := fold (iosFree hid) (take n ps) (ip w)\<rparr>"
  using assms by (induction n) (auto simp: free_buf_def io_free_def Let_def take_Suc_conv_app_nth)

lemma fold_copy_back:
  assumes "\<forall>i < length ps. ipc_buf (ent w (bufs + 12 * of_nat i)) = ps ! i" "\<forall>i < length ps. ps ! i \<noteq> NULL" "n \<le> length ps"
  shows "\<exists>m. fold (copy_back hid bufs) [0 ..< n] w = w\<lparr>mem := m, ip := fold (iosFree hid) (take n ps) (ip w)\<rparr>"
  using assms
proof (induction n)
  case 0
  then show ?case by (intro exI [of _ "mem w"]) simp
next
  case (Suc n)
  then obtain m where m: "fold (copy_back hid bufs) [0 ..< n] w = w\<lparr>mem := m, ip := fold (iosFree hid) (take n ps) (ip w)\<rparr>" by auto
  have "n < length ps" "ipc_buf (ent w (bufs + 12 * of_nat n)) = ps ! n" "ps ! n \<noteq> NULL" using Suc.prems by auto
  then show ?case
    by (simp only: upt_Suc le0 if_True fold_append o_apply m fold_simps take_Suc_conv_app_nth) (auto simp: copy_back_def io_free_def Let_def)
qed

lemma bufs_released:
  assumes "bufs_taken hid T U cb bufs ps w"
  shows "ios_inv hid T (fold (iosFree hid) ps (ip w)) \<and> blocks (ios_heap hid (fold (iosFree hid) ps (ip w))) = U"
proof -
  have "ios.taken hid T (ip w) U ps" using assms by (simp add: bufs_taken_def)
  moreover have "(\<lambda>p s. snd (True, iosFree hid p s)) = iosFree hid" by simp
  ultimately show ?thesis using ios.taken_used [OF ios.taken_release_all] by metis
qed

lemma bufs_entries:
  assumes "bufs_taken hid T U cb bufs ps w"
  shows "\<forall>i < length ps. ipc_buf (ent w (bufs + 12 * of_nat i)) = ps ! i" "\<forall>i < length ps. ps ! i \<noteq> NULL"
  using assms taken_nonnull unfolding bufs_taken_def by blast+

lemma fmt_cleanup_ok:
  assumes "fmt_inv hid T U cb bufs k m l w"
  shows "ios_inv hid T (ip (fmt_cleanup hid cb w)) \<and> blocks (ios_heap hid (ip (fmt_cleanup hid cb w))) = U \<and>
    wk (fmt_cleanup hid cb w) = snd (lwp_wkspace_free bufs k)"
proof -
  obtain ps where p: "length ps \<le> 33" "bufs_taken hid T U cb bufs ps w" "wk w = k"
    using assms unfolding fmt_inv_def by (meson add_leD1)
  then have n: "nat (sint (num_bufs (cbd w cb))) = length ps" "f_bufs (cbd w cb) = bufs"
    by (simp_all add: bufs_taken_def signed_of_nat signed_take_bit_int_eq_self)
  show ?thesis
    using bufs_released [OF p(2)] fold_free_buf [OF bufs_entries [OF p(2)] order.refl, of hid] p(3)
    by (simp add: fmt_cleanup_def Let_def n wk_free_def)
qed

lemma ioctlvfmtCB_ok:
  assumes "bufs_taken hid T U cb bufs ps w" "length ps \<le> 33" "bufs \<noteq> NULL"
  shows "ios_inv hid T (ip (snd (ioctlvfmtCB cb w))) \<and> blocks (ios_heap hid (ip (snd (ioctlvfmtCB cb w)))) = U \<and>
    wk (snd (ioctlvfmtCB cb w)) = snd (lwp_wkspace_free cb (snd (lwp_wkspace_free bufs (wk w)))) \<and>
    fst (ioctlvfmtCB cb w) = (user_cb (cbd w cb), user_data (cbd w cb))"
proof -
  have n: "unat (num_bufs (cbd w cb)) = length ps" "f_bufs (cbd w cb) = bufs" "f_hId (cbd w cb) = hid"
    using assms(1,2) by (simp_all add: bufs_taken_def unat_of_nat32)
  obtain m where "fold (copy_back hid bufs) [0 ..< length ps] w = w\<lparr>mem := m, ip := fold (iosFree hid) ps (ip w)\<rparr>"
    using fold_copy_back [OF bufs_entries [OF assms(1)] order.refl, of hid] by auto
  then show ?thesis using bufs_released [OF assms(1)] assms(3) by (simp add: ioctlvfmtCB_def Let_def n wk_free_def)
qed

section \<open>The whole call\<close>

text \<open>
  \<open>fmt_ready\<close>: the bookkeeping of a parsed call is in place. \<open>fmt_undone\<close>: only \<open>qs\<close> is left of it, in the workspace.
\<close>

definition fmt_ready :: "s32 \<Rightarrow> nat \<Rightarrow> nat \<Rightarrow> (nat \<times> nat) set \<Rightarrow> (nat \<times> nat) set \<Rightarrow> ptr \<Rightarrow> ipcw \<Rightarrow> bool" where
  "fmt_ready hid T Tw U V cb w \<longleftrightarrow> (\<exists>bufs ps. bufs \<noteq> NULL \<and> length ps \<le> 33 \<and> bufs_taken hid T U cb bufs ps w \<and> wkspt.taken Tw (wk w) V [bufs, cb])"

definition fmt_undone :: "s32 \<Rightarrow> nat \<Rightarrow> nat \<Rightarrow> (nat \<times> nat) set \<Rightarrow> (nat \<times> nat) set \<Rightarrow> ptr list \<Rightarrow> ipcw \<Rightarrow> bool" where
  "fmt_undone hid T Tw U V qs w \<longleftrightarrow> ios_inv hid T (ip w) \<and> blocks (ios_heap hid (ip w)) = U \<and> wkspt.taken Tw (wk w) V qs"

lemma fmt_start_inv:
  assumes "ios.taken hid T s U [argv]" "length format < 32" "ip w = s\<lparr>vec := v\<rparr>" "ipc_buf (ent w bufs) = argv"
    "f_hId (cbd w cb) = hid" "f_bufs (cbd w cb) = bufs" "num_bufs (cbd w cb) = 1"
  shows "fmt_inv hid T U cb bufs (wk w) (length format) \<lparr>argp = argv, bufp = bufs + 12, cnt_in = 0, cnt_io = 0\<rparr> w"
proof -
  have "ios_heap hid (s\<lparr>vec := v\<rparr>) = ios_heap hid s" by (simp add: ios_heap_def)
  from taken_heap [OF this] assms show ?thesis
    unfolding fmt_inv_def bufs_taken_def by (intro conjI exI [of _ "[argv]"]) simp_all
qed

lemma fmt_parsed:
  assumes "parsed hid T U cb bufs k r" "wkspt.taken Tw k V [bufs, cb]" "bufs \<noteq> NULL"
  shows "\<exists>ret l w'. r = Some (ret, l, w') \<and> (if ret = IPC_OK then fmt_ready hid T Tw U V cb w'
     else ret \<in> {IPC_ENOMEM, IPC_EINVAL} \<and> fmt_undone hid T Tw U V [cb] (fmt_cleanup hid cb w'))"
proof -
  obtain ret l w' where r: "r = Some (ret, l, w')" "ret \<in> {IPC_OK, IPC_ENOMEM, IPC_EINVAL}" "fmt_inv hid T U cb bufs k 0 l w'"
    using assms(1) by (auto simp: parsed_def split: option.splits)
  have "fmt_ready hid T Tw U V cb w'" using r(3) assms(2,3) unfolding fmt_inv_def fmt_ready_def by auto
  moreover have "fmt_undone hid T Tw U V [cb] (fmt_cleanup hid cb w')"
    using fmt_cleanup_ok [OF r(3)] wkspt.taken_release [OF assms(2)] by (simp add: fmt_undone_def)
  ultimately show ?thesis using r(1,2) by auto
qed

lemma parse_ok:
  assumes h: "hid = (if hId = IPC_HEAP then ipc_hid (ip w) else hId)" "ios_inv hid T (ip w)" "U = blocks (ios_heap hid (ip w))"
    "wkspt.taken Tw (wk w) V [cb]" "in_args format as"
  shows "\<exists>ret ci co argv w'. ios_ioctlvformat_parse format as cb hId w = Some (ret, ci, co, argv, w') \<and>
    (if ret = IPC_OK then fmt_ready hid T Tw U V cb w' else ret \<in> {IPC_ENOMEM, IPC_EINVAL} \<and> fmt_undone hid T Tw U V [cb] w')"
proof -
  let ?n = "of_nat (length format + 1) :: u32"
  have neg: "\<not> hid <s 0" using h(2) by (simp add: ios_inv_def)
  have u0: "fmt_undone hid T Tw U V [cb] w'" if "ip w' = ip w" "wkspt.taken Tw (wk w') V [cb]" for w'
    using that h(2,3) by (simp add: fmt_undone_def)
  show ?thesis
  proof (cases "length format < 32")
    case False
    then show ?thesis using neg h(1) u0 [of w] h(4) by (simp add: ios_ioctlvformat_parse_def Let_def)
  next
    case True
    note body = ios_ioctlvformat_parse_def Let_def h(1) [symmetric] wk_alloc_def io_alloc_def
    have a1: "admitted PPC_ALIGNMENT (12 * ?n)" "ios_admit (8 * ?n)"
      using small_admit [of "8 * (length format + 1)"] True unat_of_nat32 [of "12 * (length format + 1)"] by (simp_all add: admitted_def)
    from h(4) a1(1) show ?thesis
    proof (rule wkspt.taken_alloc)
      assume "lwp_wkspace_allocate (12 * ?n) (wk w) = Some (NULL, wk w)"
      then show ?thesis using True neg u0 h(4) by (simp add: body)
    next
      fix bufs k
      assume b: "lwp_wkspace_allocate (12 * ?n) (wk w) = Some (bufs, k)" "bufs \<noteq> NULL" "wkspt.taken Tw k V (bufs # [cb])"
      have "ios.taken hid T (ip w) U []" unfolding h(3) by (rule ios.taken_start [OF h(2)])
      from this a1(2) show ?thesis
      proof (rule ios.taken_alloc)
        assume "iosAlloc hid (8 * ?n) (ip w) = Some (NULL, ip w)"
        then show ?thesis using True neg b(1,2) u0 wkspt.taken_release [OF b(3)] by (simp add: body wk_free_def)
      next
        fix argv s
        assume v: "iosAlloc hid (8 * ?n) (ip w) = Some (argv, s)" "argv \<noteq> NULL" "ios.taken hid T s U ([] @ [argv])"
        let ?c = "(cbd w cb)\<lparr>f_hId := hid, f_bufs := bufs, num_bufs := 1\<rparr>"
        let ?e = "\<lambda>a. if a - bufs < 12 * ?n then \<lparr>ipc_buf = NULL, io_buf = NULL, copy_len = 0\<rparr> else ent w a"
        let ?v = "\<lambda>a. if a - argv < 8 * ?n then (NULL, 0) else vec s a"
        let ?w = "w\<lparr>wk := k, ip := s\<lparr>vec := ?v\<rparr>, cbd := (cbd w)(cb := ?c), ent := ?e(bufs := (?e bufs)\<lparr>ipc_buf := argv\<rparr>)\<rparr>"
        let ?p = "parse_in hid cb format as \<lparr>argp = argv, bufp = bufs + 12, cnt_in = 0, cnt_io = 0\<rparr> ?w"
        have run: "ios_ioctlvformat_parse format as cb hId w =
            do { (ret, l, w6) \<leftarrow> ?p; Some (ret, cnt_in l, cnt_io l, argv, if ret = IPC_OK then w6 else fmt_cleanup hid cb w6) }"
          using True neg b(1,2) v(1,2) by (simp add: body cong: if_cong)
        have "fmt_inv hid T U cb bufs (wk ?w) (length format) \<lparr>argp = argv, bufp = bufs + 12, cnt_in = 0, cnt_io = 0\<rparr> ?w"
          by (rule fmt_start_inv [of hid T s U argv format ?w ?v]) (use v(3) True in simp_all)
        then have "parsed hid T U cb bufs k ?p" using parse_in_inv [OF h(5), of hid T U cb bufs k] by simp
        from fmt_parsed [OF this b(3,2)] obtain ret l w' where r: "?p = Some (ret, l, w')"
            "if ret = IPC_OK then fmt_ready hid T Tw U V cb w'
             else ret \<in> {IPC_ENOMEM, IPC_EINVAL} \<and> fmt_undone hid T Tw U V [cb] (fmt_cleanup hid cb w')" by blast
        show ?thesis unfolding run r(1) using r(2) by (cases "ret = IPC_OK") simp_all
      qed
    qed
  qed
qed

lemma fmt_begin_ok:
  assumes h: "hid = (if hId = IPC_HEAP then ipc_hid (ip w) else hId)" "ios_inv hid T (ip w)" "wkspace_inv Tw (wk w)" "in_args format as"
  shows "\<exists>cb ret ci co argv w'. fmt_begin hId format as w = Some (cb, ret, ci, co, argv, w') \<and>
    (if cb = NULL then ret \<in> {IPC_ENOMEM, IPC_EINVAL} \<and> fmt_undone hid T Tw (blocks (ios_heap hid (ip w))) (blocks (wkspace_heap (wk w))) [] w'
     else ret = IPC_OK \<and> fmt_ready hid T Tw (blocks (ios_heap hid (ip w))) (blocks (wkspace_heap (wk w))) cb w')"
proof -
  let ?U = "blocks (ios_heap hid (ip w))" and ?V = "blocks (wkspace_heap (wk w))"
  have t0: "wkspt.taken Tw (wk w) ?V []" by (rule wkspt.taken_start [OF h(3)])
  have "admitted PPC_ALIGNMENT 20" by (simp add: admitted_def)
  from t0 this show ?thesis
  proof (rule wkspt.taken_alloc)
    assume "lwp_wkspace_allocate 20 (wk w) = Some (NULL, wk w)"
    then show ?thesis using h(2) t0 by (simp add: fmt_begin_def wk_alloc_def fmt_undone_def)
  next
    fix cb k
    assume a: "lwp_wkspace_allocate 20 (wk w) = Some (cb, k)" "cb \<noteq> NULL" "wkspt.taken Tw k ?V ([] @ [cb])"
    let ?w = "w\<lparr>wk := k, cbd := (cbd w)(cb := \<lparr>user_cb = NULL, user_data = NULL, num_bufs = 0, f_hId = 0, f_bufs = NULL\<rparr>)\<rparr>"
    have "\<exists>ret ci co argv w'. ios_ioctlvformat_parse format as cb hId ?w = Some (ret, ci, co, argv, w') \<and>
        (if ret = IPC_OK then fmt_ready hid T Tw ?U ?V cb w' else ret \<in> {IPC_ENOMEM, IPC_EINVAL} \<and> fmt_undone hid T Tw ?U ?V [cb] w')"
      by (rule parse_ok) (use h a(3) in simp_all)
    then obtain ret ci co argv w' where p: "ios_ioctlvformat_parse format as cb hId ?w = Some (ret, ci, co, argv, w')"
        "if ret = IPC_OK then fmt_ready hid T Tw ?U ?V cb w' else ret \<in> {IPC_ENOMEM, IPC_EINVAL} \<and> fmt_undone hid T Tw ?U ?V [cb] w'"
      by blast
    show ?thesis
    proof (cases "ret = IPC_OK")
      case True
      then show ?thesis using p a(1,2) by (simp add: fmt_begin_def wk_alloc_def)
    next
      case False
      then have u: "ret <s 0" "fmt_undone hid T Tw ?U ?V [cb] w'" using p(2) by (auto simp: word_sless_alt)
      then have "fmt_undone hid T Tw ?U ?V [] (wk_free cb w')"
        using wkspt.taken_release [of Tw "wk w'" ?V cb "[]"] by (simp add: fmt_undone_def wk_free_def)
      then show ?thesis using p a(1,2) u(1) False by (simp add: fmt_begin_def wk_alloc_def)
    qed
  qed
qed

lemma fmt_done_ok:
  assumes "fmt_ready hid T Tw U V cb w"
  shows "fmt_undone hid T Tw U V [] (snd (ioctlvfmtCB cb w))"
proof -
  obtain bufs ps where r: "bufs \<noteq> NULL" "length ps \<le> 33" "bufs_taken hid T U cb bufs ps w" "wkspt.taken Tw (wk w) V [bufs, cb]"
    using assms unfolding fmt_ready_def by blast
  then show ?thesis
    using ioctlvfmtCB_ok [OF r(3,2,1)] wkspt.taken_release [OF wkspt.taken_release [OF r(4)]] by (simp add: fmt_undone_def)
qed

lemma fmt_ready_cong:
  assumes "ios_heap hid (ip w') = ios_heap hid (ip w)" "ent w' = ent w" "cbd w' cb = (cbd w cb)\<lparr>user_cb := u, user_data := d\<rparr>" "wk w' = wk w"
  shows "fmt_ready hid T Tw U V cb w' = fmt_ready hid T Tw U V cb w"
  using bufs_taken_cong [OF assms(1,2)] assms(3,4) by (simp add: fmt_ready_def)

text \<open>
  After \<^verbatim>\<open>IOS_IoctlvFormatAsync\<close> the workspace holds the bookkeeping whatever the result: when the call is refused
  (\<^verbatim>\<open>IPC_ENOMEM\<close>, \<^verbatim>\<open>IPC_EQUEUEFULL\<close>) no reply will ever release it.
\<close>

lemma fmt_async_keeps:
  assumes "fmt_begin hId format as w = Some (cb, ret, ci, co, argv, w1)" "cb \<noteq> NULL"
    "IOS_IoctlvFormatAsync fmtCB hId fd ioctl ucb ud format as w = Some (ret', w')"
  shows "wk w' = wk w1"
  using assms by (auto simp: IOS_IoctlvFormatAsync_def Let_def split: bind_splits)

end
