(* ===== verification/IpcFmtProps.thy ===== *)
theory IpcFmtProps
  imports IpcFmtInv HeapProps IpcProps
begin

text \<open>The property of the formatted calls, with its witness.\<close>

definition ipcw0 :: ipcw where
  "ipcw0 = \<lparr>ip = ipc0, wk = lwp_wkspace_init 0x10000 wkspace0, mem = (\<lambda>_. 0),
     ent = (\<lambda>_. \<lparr>ipc_buf = NULL, io_buf = NULL, copy_len = 0\<rparr>),
     cbd = (\<lambda>_. \<lparr>user_cb = NULL, user_data = NULL, num_bufs = 0, f_hId = 0, f_bufs = NULL\<rparr>)\<rparr>"

lemma ipcw0_ok: "\<exists>T. ios_inv 0 T (ip ipcw0)" "\<exists>Tw. wkspace_inv Tw (wk ipcw0)"
proof -
  have "ios_heap 0 (ip ipcw0) = msg_heap ipc_full" by (simp add: ios_heap_def msg_heap_def ipcw0_def ipc_full_def ipc0_def)
  then have "ios_inv 0 0xff8 (ip ipcw0)"
    using ipc_full_heap(1,2) unfolding ios_inv_def heap_inv_def by (fastforce simp: word_sless_alt word_sle_eq)
  then show "\<exists>T. ios_inv 0 T (ip ipcw0)" by blast
  obtain n where "heap_ok (wkspace_heap (lwp_wkspace_init 0x10000 wkspace0)) [(n, False)] [ROUND32UP (arena_lo wkspace0)]"
      "pg_size (wkspace_heap (lwp_wkspace_init 0x10000 wkspace0)) = PPC_ALIGNMENT"
    using wkspace_init_ok [of wkspace0 "0x10000"] by (auto simp: wkspace0_def heap_blank_def)
  then show "\<exists>Tw. wkspace_inv Tw (wk ipcw0)" unfolding wkspace_inv_def heap_inv_def by (fastforce simp: ipcw0_def)
qed

text \<open>
  C30. The formatted calls lose no memory. When the arguments are of the kinds the format names, parsing
  always ends with a result. Either the call is refused, with \<^verbatim>\<open>IPC_ENOMEM\<close> or \<^verbatim>\<open>IPC_EINVAL\<close>, and the used
  blocks of the message heap and of the workspace are the ones from before: everything taken up to the
  point of failure has been given back. Or it goes on, and when \<^verbatim>\<open>__ioctlvfmtCB\<close> runs after the reply, on
  whatever bytes IOS has left in memory, all buffers, the buffer list and the callback data are given back.
\<close>

theorem ioctlvformat_no_leak:
  assumes "hid = (if hId = IPC_HEAP then ipc_hid (ip w) else hId)" "ios_inv hid T (ip w)" "wkspace_inv Tw (wk w)" "in_args format as"
  shows "\<exists>cb ret ci co argv w1. fmt_begin hId format as w = Some (cb, ret, ci, co, argv, w1) \<and>
    (if cb = NULL
     then ret \<in> {IPC_ENOMEM, IPC_EINVAL} \<and> blocks (ios_heap hid (ip w1)) = blocks (ios_heap hid (ip w)) \<and>
       blocks (wkspace_heap (wk w1)) = blocks (wkspace_heap (wk w))
     else ret = IPC_OK \<and>
       (\<forall>w2. ios_heap hid (ip w2) = ios_heap hid (ip w1) \<and> ent w2 = ent w1 \<and> cbd w2 cb = cbd w1 cb \<and> wk w2 = wk w1 \<longrightarrow>
          blocks (ios_heap hid (ip (snd (ioctlvfmtCB cb w2)))) = blocks (ios_heap hid (ip w)) \<and>
          blocks (wkspace_heap (wk (snd (ioctlvfmtCB cb w2)))) = blocks (wkspace_heap (wk w))))"
proof -
  let ?U = "blocks (ios_heap hid (ip w))" and ?V = "blocks (wkspace_heap (wk w))"
  have u: "blocks (ios_heap hid (ip w')) = ?U \<and> blocks (wkspace_heap (wk w')) = ?V" if "fmt_undone hid T Tw ?U ?V [] w'" for w'
    using that wkspt.taken_used [of Tw "wk w'" ?V] by (simp add: fmt_undone_def)
  obtain cb ret ci co argv w1 where b: "fmt_begin hId format as w = Some (cb, ret, ci, co, argv, w1)"
      "if cb = NULL then ret \<in> {IPC_ENOMEM, IPC_EINVAL} \<and> fmt_undone hid T Tw ?U ?V [] w1 else ret = IPC_OK \<and> fmt_ready hid T Tw ?U ?V cb w1"
    using fmt_begin_ok [OF assms] by blast
  have "blocks (ios_heap hid (ip (snd (ioctlvfmtCB cb w2)))) = ?U \<and> blocks (wkspace_heap (wk (snd (ioctlvfmtCB cb w2)))) = ?V"
    if "fmt_ready hid T Tw ?U ?V cb w1" "ios_heap hid (ip w2) = ios_heap hid (ip w1)" "ent w2 = ent w1" "cbd w2 cb = cbd w1 cb" "wk w2 = wk w1" for w2
    using u [OF fmt_done_ok] fmt_ready_cong [OF that(2,3) _ that(5)] that(1,4) by (metis fmt_cbdata.surjective fmt_cbdata.update_convs(1,2))
  then show ?thesis using b u [of w1] by (cases "cb = NULL") auto
qed

theorem ioctlvformat_no_leak_witness:
  "\<exists>cb ret ci co argv w1. fmt_begin IPC_HEAP ''iq:d'' [V32 7, V64 9, V32 0x80400000, V32 32] ipcw0 = Some (cb, ret, ci, co, argv, w1) \<and>
    (cb = NULL \<longrightarrow> ret \<in> {IPC_ENOMEM, IPC_EINVAL} \<and> blocks (ios_heap 0 (ip w1)) = blocks (ios_heap 0 (ip ipcw0)) \<and>
       blocks (wkspace_heap (wk w1)) = blocks (wkspace_heap (wk ipcw0))) \<and>
    (cb \<noteq> NULL \<longrightarrow> blocks (ios_heap 0 (ip (snd (ioctlvfmtCB cb w1)))) = blocks (ios_heap 0 (ip ipcw0)) \<and>
       blocks (wkspace_heap (wk (snd (ioctlvfmtCB cb w1)))) = blocks (wkspace_heap (wk ipcw0)))"
proof -
  obtain T Tw where i: "ios_inv 0 T (ip ipcw0)" "wkspace_inv Tw (wk ipcw0)" using ipcw0_ok by blast
  have h: "(0 :: s32) = (if IPC_HEAP = IPC_HEAP then ipc_hid (ip ipcw0) else IPC_HEAP)" by (simp add: ipcw0_def ipc0_def)
  have a: "in_args ''iq:d'' [V32 7, V64 9, V32 0x80400000, V32 32]"
    by (simp add: scalar_size_def scalar_bytes_def lower_def)
  show ?thesis using ioctlvformat_no_leak [OF h i a] by (elim exE conjE) (simp split: if_splits)
qed

end
