(* ===== verification/Dsp.thy ===== *)
theory Dsp
  imports KIrq
begin

text \<open>
  The task scheduler of the signal processor, \<^verbatim>\<open>libogc/dsp.c\<close>. Tasks are kept in a doubly linked list
  sorted by priority; the processor runs one of them, and its mails (started, resumed, yielded, finished,
  request) drive the interrupt handler, which hands the processor from task to task by sending mails back.

  The control register is \<open>dsp5\<close> of the interrupt controller's registers; the four mailbox registers are in \<open>dreg\<close>,
  and every mail written is also kept in order in \<open>dmail\<close>. \<open>dev\<close> is what the hardware does to the registers
  before each poll of a mailbox, \<open>call\<close> the callbacks of the tasks. A section with interrupts disabled is
  one step. The result \<open>None\<close> is a poll that never ends or a dereferenced null pointer.
\<close>

section \<open>Data\<close>

record dsptask =
  d_state :: u32
  d_prio :: u32
  d_flags :: u32
  iram_maddr :: ptr
  iram_len :: u32
  iram_addr :: u32
  dram_maddr :: ptr
  dram_len :: u32
  dram_addr :: u32
  init_vec :: u16
  resume_vec :: u16
  init_cb :: u32
  res_cb :: u32
  done_cb :: u32
  req_cb :: u32
  d_next :: ptr
  d_prev :: ptr

text \<open>A \<^verbatim>\<open>DSPCallback\<close>: null, \<open>dsp_def_taskcb\<close>, or one of the program.\<close>

datatype dsp_cb = DNull | DDef | DUser u32

record dsp =
  dirq :: irqstate
  dreg :: "nat \<Rightarrow> u16"
  dmail :: "u32 list"
  dtask :: "ptr \<Rightarrow> dsptask"
  dsp_inited :: bool
  dsp_rudetask_pend :: bool
  dsp_intcb :: dsp_cb
  dsp_currtask :: ptr
  dsp_lasttask :: ptr
  dsp_firsttask :: ptr
  dsp_rudetask :: ptr
  tmp_task :: ptr

abbreviation DSPTASK_INIT :: u32 where "DSPTASK_INIT \<equiv> 0"
abbreviation DSPTASK_RUN :: u32 where "DSPTASK_RUN \<equiv> 1"
abbreviation DSPTASK_YIELD :: u32 where "DSPTASK_YIELD \<equiv> 2"
abbreviation DSPTASK_DONE :: u32 where "DSPTASK_DONE \<equiv> 3"
abbreviation DSPTASK_CLEARALL :: u32 where "DSPTASK_CLEARALL \<equiv> 0"
abbreviation DSPTASK_ATTACH :: u32 where "DSPTASK_ATTACH \<equiv> 1"
abbreviation DSPTASK_CANCEL :: u32 where "DSPTASK_CANCEL \<equiv> 2"
abbreviation DSPCR_DSPRESET :: u16 where "DSPCR_DSPRESET \<equiv> 0x0800"
abbreviation DSPCR_DSPDMA :: u16 where "DSPCR_DSPDMA \<equiv> 0x0200"
abbreviation DSPCR_DSPINT :: u16 where "DSPCR_DSPINT \<equiv> 0x0080"
abbreviation DSPCR_ARINT :: u16 where "DSPCR_ARINT \<equiv> 0x0020"
abbreviation DSPCR_AIINT :: u16 where "DSPCR_AIINT \<equiv> 0x0008"
abbreviation DSPCR_HALT :: u16 where "DSPCR_HALT \<equiv> 0x0004"
abbreviation DSPCR_PIINT :: u16 where "DSPCR_PIINT \<equiv> 0x0002"
abbreviation DSPCR_RES :: u16 where "DSPCR_RES \<equiv> 0x0001"

section \<open>Registers and mailboxes\<close>

definition dspcr :: "dsp \<Rightarrow> u16" where
  "dspcr s = dsp5 (hw (dirq s))"

definition set_dspcr :: "u16 \<Rightarrow> dsp \<Rightarrow> dsp" where
  "set_dspcr v s = s\<lparr>dirq := (dirq s)\<lparr>hw := (hw (dirq s))\<lparr>dsp5 := v\<rparr>\<rparr>\<rparr>"

definition DSP_CheckMailTo :: "dsp \<Rightarrow> u32" where
  "DSP_CheckMailTo s = drop_bit 15 (ucast (dreg s 0)) AND 1"

definition DSP_CheckMailFrom :: "dsp \<Rightarrow> u32" where
  "DSP_CheckMailFrom s = drop_bit 15 (ucast (dreg s 2)) AND 1"

definition DSP_ReadMailFrom :: "dsp \<Rightarrow> u32" where
  "DSP_ReadMailFrom s = push_bit 16 (ucast (dreg s 2)) OR ucast (dreg s 3)"

definition DSP_SendMailTo :: "u32 \<Rightarrow> dsp \<Rightarrow> dsp" where
  "DSP_SendMailTo mail s =
     s\<lparr>dreg := (dreg s)(0 := ucast (drop_bit 16 mail), 1 := ucast mail), dmail := dmail s @ [mail]\<rparr>"

definition DSP_ReadCPUtoDSP :: "dsp \<Rightarrow> u32" where
  "DSP_ReadCPUtoDSP s = push_bit 16 (ucast (dreg s 0)) OR ucast (dreg s 1)"

definition DSP_AssertInt :: "dsp \<Rightarrow> dsp" where
  "DSP_AssertInt s = set_dspcr ((dspcr s AND NOT (DSPCR_AIINT OR DSPCR_ARINT OR DSPCR_DSPINT)) OR DSPCR_PIINT) s"

definition DSP_Reset :: "dsp \<Rightarrow> dsp" where
  "DSP_Reset s =
     set_dspcr ((dspcr s AND NOT (DSPCR_AIINT OR DSPCR_ARINT OR DSPCR_DSPINT)) OR (DSPCR_DSPRESET OR DSPCR_RES)) s"

definition DSP_Halt :: "dsp \<Rightarrow> dsp" where
  "DSP_Halt s = set_dspcr ((dspcr s AND NOT (DSPCR_AIINT OR DSPCR_ARINT OR DSPCR_DSPINT)) OR DSPCR_HALT) s"

definition DSP_Unhalt :: "dsp \<Rightarrow> dsp" where
  "DSP_Unhalt s = set_dspcr (dspcr s AND NOT (DSPCR_AIINT OR DSPCR_ARINT OR DSPCR_DSPINT OR DSPCR_HALT)) s"

definition DSP_GetDMAStatus :: "dsp \<Rightarrow> u32" where
  "DSP_GetDMAStatus s = ucast (dspcr s AND DSPCR_DSPDMA)"

text \<open>\<^verbatim>\<open>while(DSP_CheckMailTo());\<close> and \<^verbatim>\<open>while(!DSP_CheckMailFrom());\<close>\<close>

partial_function (option) dsp_wait_to :: "(dsp \<Rightarrow> dsp) \<Rightarrow> dsp \<Rightarrow> dsp option" where
  "dsp_wait_to dev s = (if DSP_CheckMailTo (dev s) \<noteq> 0 then dsp_wait_to dev (dev s) else Some (dev s))"

partial_function (option) dsp_wait_from :: "(dsp \<Rightarrow> dsp) \<Rightarrow> dsp \<Rightarrow> dsp option" where
  "dsp_wait_from dev s = (if DSP_CheckMailFrom (dev s) = 0 then dsp_wait_from dev (dev s) else Some (dev s))"

declare dsp_wait_to.simps [code] dsp_wait_from.simps [code]

text \<open>A sequence of \<^verbatim>\<open>DSP_SendMailTo(m); while(DSP_CheckMailTo());\<close>, each mail computed when it is sent.\<close>

fun dsp_mails :: "(dsp \<Rightarrow> dsp) \<Rightarrow> (dsp \<Rightarrow> u32) list \<Rightarrow> dsp \<Rightarrow> dsp option" where
  "dsp_mails dev [] s = Some s"
| "dsp_mails dev (m # ms) s = do { s1 \<leftarrow> dsp_wait_to dev (DSP_SendMailTo (m s) s); dsp_mails dev ms s1 }"

section \<open>The task list\<close>

definition upd_task :: "ptr \<Rightarrow> (dsptask \<Rightarrow> dsptask) \<Rightarrow> dsp \<Rightarrow> dsp option" where
  "upd_task p f s = (if p = NULL then None else Some (s\<lparr>dtask := (dtask s)(p := f (dtask s p))\<rparr>))"

definition dsp_inserttask :: "ptr \<Rightarrow> dsp \<Rightarrow> dsp option" where
  "dsp_inserttask task s =
     (if task = NULL then None
      else if dsp_firsttask s = NULL then
        upd_task task (\<lambda>x. x\<lparr>d_next := NULL, d_prev := NULL\<rparr>)
          (s\<lparr>dsp_currtask := task, dsp_lasttask := task, dsp_firsttask := task\<rparr>)
      else do {
        t \<leftarrow> chain_find (\<lambda>t. d_next (dtask s t)) (\<lambda>t. d_prio (dtask s task) < d_prio (dtask s t)) (dsp_firsttask s);
        if t \<noteq> NULL then do {
          let p = d_prev (dtask s t);
          s1 \<leftarrow> upd_task task (\<lambda>x. x\<lparr>d_prev := p\<rparr>) s;
          s2 \<leftarrow> upd_task t (\<lambda>x. x\<lparr>d_prev := task\<rparr>) s1;
          s3 \<leftarrow> upd_task task (\<lambda>x. x\<lparr>d_next := t\<rparr>) s2;
          if p = NULL then Some (s3\<lparr>dsp_firsttask := task\<rparr>) else upd_task p (\<lambda>x. x\<lparr>d_next := task\<rparr>) s3 }
        else do {
          s1 \<leftarrow> upd_task (dsp_lasttask s) (\<lambda>x. x\<lparr>d_next := task\<rparr>) s;
          s2 \<leftarrow> upd_task task (\<lambda>x. x\<lparr>d_next := NULL, d_prev := dsp_lasttask s\<rparr>) s1;
          Some (s2\<lparr>dsp_lasttask := task\<rparr>) } })"

definition dsp_removetask :: "ptr \<Rightarrow> dsp \<Rightarrow> dsp option" where
  "dsp_removetask task s = do {
     s1 \<leftarrow> upd_task task (\<lambda>x. x\<lparr>d_flags := DSPTASK_CLEARALL, d_state := DSPTASK_DONE\<rparr>) s;
     let n = d_next (dtask s1 task);
     let p = d_prev (dtask s1 task);
     if dsp_firsttask s1 = task then
       (if n \<noteq> NULL then upd_task n (\<lambda>x. x\<lparr>d_prev := NULL\<rparr>) (s1\<lparr>dsp_firsttask := n\<rparr>)
        else Some (s1\<lparr>dsp_currtask := NULL, dsp_lasttask := NULL, dsp_firsttask := NULL\<rparr>))
     else if dsp_lasttask s1 = task then do {
       s2 \<leftarrow> upd_task p (\<lambda>x. x\<lparr>d_next := NULL\<rparr>) (s1\<lparr>dsp_lasttask := p\<rparr>);
       Some (s2\<lparr>dsp_currtask := dsp_firsttask s2\<rparr>) }
     else do {
       s2 \<leftarrow> upd_task p (\<lambda>x. x\<lparr>d_next := n\<rparr>) (s1\<lparr>dsp_currtask := n\<rparr>);
       upd_task (d_next (dtask s2 task)) (\<lambda>x. x\<lparr>d_prev := d_prev (dtask s2 task)\<rparr>) s2 } }"

section \<open>Starting and switching tasks\<close>

definition dsp_boottask :: "(dsp \<Rightarrow> dsp) \<Rightarrow> ptr \<Rightarrow> dsp \<Rightarrow> dsp option" where
  "dsp_boottask dev task s = do {
     s1 \<leftarrow> dsp_wait_from dev s;
     dsp_mails dev
       [\<lambda>_. 0x80F3A001, \<lambda>s. iram_maddr (dtask s task), \<lambda>_. 0x80F3C002, \<lambda>s. iram_addr (dtask s task) AND 0xffff,
        \<lambda>_. 0x80F3A002, \<lambda>s. iram_len (dtask s task), \<lambda>_. 0x80F3B002, \<lambda>_. 0,
        \<lambda>_. 0x80F3D001, \<lambda>s. ucast (init_vec (dtask s task))] s1 }"

definition dsp_exectask :: "(dsp \<Rightarrow> dsp) \<Rightarrow> ptr \<Rightarrow> ptr \<Rightarrow> dsp \<Rightarrow> dsp option" where
  "dsp_exectask dev exec hire s =
     (if hire = NULL then None
      else do {
        s1 \<leftarrow> (if exec = NULL then dsp_mails dev [\<lambda>_. 0, \<lambda>_. 0, \<lambda>_. 0] s
               else dsp_mails dev [\<lambda>s. dram_maddr (dtask s exec), \<lambda>s. dram_len (dtask s exec), \<lambda>s. dram_addr (dtask s exec)] s);
        s2 \<leftarrow> dsp_mails dev [\<lambda>s. iram_maddr (dtask s hire), \<lambda>s. iram_len (dtask s hire), \<lambda>s. iram_addr (dtask s hire)] s1;
        if d_state (dtask s2 hire) = DSPTASK_INIT then
          dsp_mails dev [\<lambda>s. ucast (init_vec (dtask s hire)), \<lambda>_. 0, \<lambda>_. 0, \<lambda>_. 0] s2
        else
          dsp_mails dev [\<lambda>s. ucast (resume_vec (dtask s hire)), \<lambda>s. dram_maddr (dtask s hire),
            \<lambda>s. dram_len (dtask s hire), \<lambda>s. dram_addr (dtask s hire)] s2 })"

section \<open>The mails of the processor\<close>

text \<open>\<^verbatim>\<open>if(__dsp_currtask->cb) __dsp_currtask->cb(__dsp_currtask);\<close>\<close>

definition dsp_docb :: "(u32 \<Rightarrow> ptr \<Rightarrow> dsp \<Rightarrow> dsp option) \<Rightarrow> (dsptask \<Rightarrow> u32) \<Rightarrow> dsp \<Rightarrow> dsp option" where
  "dsp_docb call cb s =
     (let c = dsp_currtask s; f = cb (dtask s c) in
      if c = NULL then None else if f \<noteq> NULL then call f c s else Some s)"

definition set_currstate :: "u32 \<Rightarrow> dsp \<Rightarrow> dsp option" where
  "set_currstate v s = upd_task (dsp_currtask s) (\<lambda>x. x\<lparr>d_state := v\<rparr>) s"

text \<open>The current task yields to the task \<open>hire\<close>.\<close>

definition dsp_switch :: "(dsp \<Rightarrow> dsp) \<Rightarrow> (dsp \<Rightarrow> ptr) \<Rightarrow> dsp \<Rightarrow> dsp option" where
  "dsp_switch dev hire s = do {
     s1 \<leftarrow> dsp_mails dev [\<lambda>_. 0xCDD10001] s;
     s2 \<leftarrow> dsp_exectask dev (dsp_currtask s1) (hire s1) s1;
     s3 \<leftarrow> set_currstate DSPTASK_YIELD s2;
     Some (s3\<lparr>dsp_currtask := hire s3\<rparr>) }"

definition currnext :: "dsp \<Rightarrow> ptr" where
  "currnext s = d_next (dtask s (dsp_currtask s))"

definition clear_rude :: "dsp \<Rightarrow> dsp" where
  "clear_rude s = s\<lparr>dsp_rudetask := NULL, dsp_rudetask_pend := False\<rparr>"

text \<open>The case \<open>0xDCD10002\<close>: the current task yields.\<close>

definition dsp_yielded :: "(dsp \<Rightarrow> dsp) \<Rightarrow> (u32 \<Rightarrow> ptr \<Rightarrow> dsp \<Rightarrow> dsp option) \<Rightarrow> dsp \<Rightarrow> dsp option" where
  "dsp_yielded dev call s =
     (if dsp_rudetask_pend s then
        (if dsp_rudetask s = dsp_currtask s then do {
           s1 \<leftarrow> dsp_mails dev [\<lambda>_. 0xCDD10003] s;
           dsp_docb call res_cb (clear_rude s1) }
         else map_option clear_rude (dsp_switch dev dsp_rudetask s))
      else if currnext s = NULL then
        (if dsp_firsttask s = dsp_currtask s then do {
           s1 \<leftarrow> dsp_mails dev [\<lambda>_. 0xCDD10003] s;
           dsp_docb call res_cb s1 }
         else dsp_switch dev dsp_firsttask s)
      else dsp_switch dev currnext s)"

text \<open>The case \<open>0xDCD10003\<close>: the current task is finished.\<close>

definition dsp_finished :: "(dsp \<Rightarrow> dsp) \<Rightarrow> (u32 \<Rightarrow> ptr \<Rightarrow> dsp \<Rightarrow> dsp option) \<Rightarrow> dsp \<Rightarrow> dsp option" where
  "dsp_finished dev call s =
     (if dsp_rudetask_pend s then do {
        s1 \<leftarrow> dsp_docb call done_cb s;
        s2 \<leftarrow> dsp_mails dev [\<lambda>_. 0xCDD10001] s1;
        s3 \<leftarrow> dsp_exectask dev NULL (dsp_rudetask s2) s2;
        s4 \<leftarrow> dsp_removetask (dsp_currtask s3) s3;
        Some (clear_rude (s4\<lparr>dsp_currtask := dsp_rudetask s4\<rparr>)) }
      else if currnext s = NULL then
        (if dsp_firsttask s = dsp_currtask s then do {
           s1 \<leftarrow> dsp_docb call done_cb s;
           s2 \<leftarrow> dsp_mails dev [\<lambda>_. 0xCDD10002] s1;
           s3 \<leftarrow> set_currstate DSPTASK_DONE s2;
           dsp_removetask (dsp_currtask s3) s3 }
         else do {
           s1 \<leftarrow> dsp_docb call done_cb s;
           s2 \<leftarrow> dsp_mails dev [\<lambda>_. 0xCDD10001] s1;
           s3 \<leftarrow> set_currstate DSPTASK_DONE s2;
           s4 \<leftarrow> dsp_exectask dev NULL (dsp_firsttask s3) s3;
           let s5 = s4\<lparr>dsp_currtask := dsp_firsttask s4\<rparr>;
           dsp_removetask (dsp_lasttask s5) s5 })
      else do {
        s1 \<leftarrow> dsp_docb call done_cb s;
        s2 \<leftarrow> dsp_mails dev [\<lambda>_. 0xCDD10001] s1;
        s3 \<leftarrow> set_currstate DSPTASK_DONE s2;
        s4 \<leftarrow> dsp_exectask dev NULL (currnext s3) s3;
        let s5 = s4\<lparr>dsp_currtask := currnext s4\<rparr>;
        dsp_removetask (d_prev (dtask s5 (dsp_currtask s5))) s5 })"

definition dsp_def_taskcb :: "(dsp \<Rightarrow> dsp) \<Rightarrow> (u32 \<Rightarrow> ptr \<Rightarrow> dsp \<Rightarrow> dsp option) \<Rightarrow> dsp \<Rightarrow> dsp option" where
  "dsp_def_taskcb dev call s = do {
     s1 \<leftarrow> dsp_wait_from dev s;
     if dsp_currtask s1 = NULL then None
     else do {
       let m = DSP_ReadMailFrom s1;
       let mail = (if d_flags (dtask s1 (dsp_currtask s1)) AND DSPTASK_CANCEL \<noteq> 0 \<and> m = 0xDCD10002 then 0xDCD10003 else m);
       if mail = 0xDCD10000 then do { s2 \<leftarrow> set_currstate DSPTASK_RUN s1; dsp_docb call init_cb s2 }
       else if mail = 0xDCD10001 then do { s2 \<leftarrow> set_currstate DSPTASK_RUN s1; dsp_docb call res_cb s2 }
       else if mail = 0xDCD10002 then dsp_yielded dev call s1
       else if mail = 0xDCD10003 then dsp_finished dev call s1
       else if mail = 0xDCD10004 then dsp_docb call req_cb s1
       else Some s1 } }"

text \<open>\<open>user\<close> are the interrupt callbacks of the program.\<close>

definition dsp_inthandler ::
    "(dsp \<Rightarrow> dsp) \<Rightarrow> (u32 \<Rightarrow> ptr \<Rightarrow> dsp \<Rightarrow> dsp option) \<Rightarrow> (u32 \<Rightarrow> dsp \<Rightarrow> dsp option) \<Rightarrow> dsp \<Rightarrow> dsp option" where
  "dsp_inthandler dev call user s =
     (let s1 = set_dspcr ((dspcr s AND NOT (DSPCR_AIINT OR DSPCR_ARINT)) OR DSPCR_DSPINT) s in
      case dsp_intcb s1 of DNull \<Rightarrow> Some s1 | DDef \<Rightarrow> dsp_def_taskcb dev call s1 | DUser f \<Rightarrow> user f s1)"

section \<open>The interface\<close>

text \<open>\<open>fn\<close> is the address of \<open>dsp_inthandler\<close>.\<close>

definition DSP_Init :: "bool \<Rightarrow> u32 \<Rightarrow> dsp \<Rightarrow> dsp" where
  "DSP_Init wii fn s =
     (if dsp_inited s then s
      else let s1 = s\<lparr>dsp_intcb := DDef, dirq := KIrqEnable wii (IRQMASK IRQ_DSP_DSP) (snd (KIrqSet IRQ_DSP_DSP fn NULL (dirq s)))\<rparr>;
               s2 = set_dspcr ((dspcr s1 AND NOT (DSPCR_AIINT OR DSPCR_ARINT OR DSPCR_DSPINT)) OR DSPCR_DSPRESET) s1;
               s3 = set_dspcr (dspcr s2 AND NOT (DSPCR_HALT OR DSPCR_AIINT OR DSPCR_ARINT OR DSPCR_DSPINT)) s2
           in s3\<lparr>dsp_currtask := NULL, dsp_firsttask := NULL, dsp_lasttask := NULL, tmp_task := NULL, dsp_inited := True\<rparr>)"

definition DSP_RegisterCallback :: "dsp_cb \<Rightarrow> dsp \<Rightarrow> dsp_cb \<times> dsp" where
  "DSP_RegisterCallback usr_cb s =
     (dsp_intcb s, s\<lparr>dsp_intcb := (if usr_cb \<noteq> DNull then usr_cb else DDef)\<rparr>)"

definition DSP_AddTask :: "(dsp \<Rightarrow> dsp) \<Rightarrow> ptr \<Rightarrow> dsp \<Rightarrow> (ptr \<times> dsp) option" where
  "DSP_AddTask dev task s = do {
     s1 \<leftarrow> dsp_inserttask task s;
     s2 \<leftarrow> upd_task task (\<lambda>x. x\<lparr>d_state := DSPTASK_INIT, d_flags := DSPTASK_ATTACH\<rparr>) s1;
     s3 \<leftarrow> (if dsp_firsttask s2 = task then dsp_boottask dev task s2 else Some s2);
     Some (task, s3) }"

definition DSP_CancelTask :: "ptr \<Rightarrow> dsp \<Rightarrow> dsp option" where
  "DSP_CancelTask task = upd_task task (\<lambda>x. x\<lparr>d_flags := d_flags x OR DSPTASK_CANCEL\<rparr>)"

definition DSP_AssertTask :: "ptr \<Rightarrow> dsp \<Rightarrow> (ptr \<times> dsp) option" where
  "DSP_AssertTask task s =
     (let c = dsp_currtask s; s1 = s\<lparr>dsp_rudetask := task, dsp_rudetask_pend := True\<rparr> in
      if task = c then Some (task, s1)
      else if task = NULL \<or> c = NULL then None
      else if d_prio (dtask s task) < d_prio (dtask s c) then
        Some (task, if d_state (dtask s c) = DSPTASK_RUN
                    then set_dspcr ((dspcr s1 AND NOT (DSPCR_DSPINT OR DSPCR_ARINT OR DSPCR_AIINT)) OR DSPCR_PIINT) s1 else s1)
      else Some (NULL, s))"

end
