(* ===== verification/DspInv.thy ===== *)
theory DspInv
  imports Dsp
begin

text \<open>
  The abstract scheduler of signal processor tasks, and lemmas on how the operations of \<open>Dsp\<close> implement
  it: what sending mails leaves alone, and how tasks are linked into and out of the list.
\<close>

section \<open>The abstract scheduler\<close>

text \<open>
  The tasks in the order of their priority, the one that runs (\<open>NULL\<close> when there is none), one that
  has been asked for with \<^verbatim>\<open>DSP_AssertTask\<close>, and the tasks that are to be cancelled.
\<close>

record dsched =
  tasks_of :: "ptr list"
  running :: ptr
  urgent :: "ptr option"
  cancelled :: "ptr \<Rightarrow> bool"

text \<open>The next task in the list, after the last one the first.\<close>

definition cyc_next :: "'a \<Rightarrow> 'a list \<Rightarrow> 'a" where
  "cyc_next x L = hd (tl (dropWhile (\<lambda>y. y \<noteq> x) L) @ L)"

datatype dsp_req = RAdd ptr | RCancel ptr | RAssert ptr | RMail u32

definition sched_yield :: "dsched \<Rightarrow> dsched" where
  "sched_yield a = a\<lparr>running := (case urgent a of Some r \<Rightarrow> r | None \<Rightarrow> cyc_next (running a) (tasks_of a)), urgent := None\<rparr>"

definition sched_done :: "dsched \<Rightarrow> dsched" where
  "sched_done a =
     (let L = remove1 (running a) (tasks_of a) in
      a\<lparr>tasks_of := L,
        running := (case urgent a of Some r \<Rightarrow> r | None \<Rightarrow> if L = [] then NULL else cyc_next (running a) (tasks_of a)),
        urgent := None, cancelled := (cancelled a)(running a := False)\<rparr>)"

text \<open>A mail that says that the current task is finished, or that it yields when it is to be cancelled.\<close>

definition ends_task :: "u32 \<Rightarrow> dsched \<Rightarrow> bool" where
  "ends_task m a \<longleftrightarrow> m = 0xDCD10003 \<or> m = 0xDCD10002 \<and> cancelled a (running a)"

fun sched_step :: "(ptr \<Rightarrow> u32) \<Rightarrow> dsp_req \<Rightarrow> dsched \<Rightarrow> dsched" where
  "sched_step p (RAdd t) a =
     a\<lparr>tasks_of := ins_after (\<lambda>y. p y \<le> p t) t (tasks_of a),
       running := (if tasks_of a = [] then t else running a), cancelled := (cancelled a)(t := False)\<rparr>"
| "sched_step p (RCancel t) a = a\<lparr>cancelled := (cancelled a)(t := True)\<rparr>"
| "sched_step p (RAssert t) a = (if t = running a \<or> p t < p (running a) then a\<lparr>urgent := Some t\<rparr> else a)"
| "sched_step p (RMail m) a = (if ends_task m a then sched_done a else if m = 0xDCD10002 then sched_yield a else a)"

text \<open>
  What the code relies on and does not check: a task is added once, only an added task is asserted, mails come from a task, and
  a task that asserted itself does not finish, or yield when it is to be cancelled, before it has yielded otherwise. In this last case
  the code makes the task current again and then takes it off the list.
\<close>

fun sched_ok :: "dsp_req \<Rightarrow> dsched \<Rightarrow> bool" where
  "sched_ok (RAdd t) a \<longleftrightarrow> t \<noteq> NULL \<and> t \<notin> set (tasks_of a)"
| "sched_ok (RCancel t) a \<longleftrightarrow> t \<noteq> NULL"
| "sched_ok (RAssert t) a \<longleftrightarrow> t \<in> set (tasks_of a)"
| "sched_ok (RMail m) a \<longleftrightarrow> tasks_of a \<noteq> [] \<and> (ends_task m a \<longrightarrow> urgent a \<noteq> Some (running a))"

section \<open>Views of the state\<close>

abbreviation dnx :: "dsp \<Rightarrow> ptr \<Rightarrow> ptr" where "dnx s \<equiv> \<lambda>t. d_next (dtask s t)"
abbreviation dpv :: "dsp \<Rightarrow> ptr \<Rightarrow> ptr" where "dpv s \<equiv> \<lambda>t. d_prev (dtask s t)"

definition dlist :: "ptr list \<Rightarrow> dsp \<Rightarrow> bool" where
  "dlist L s \<longleftrightarrow> dseg (dnx s) (dpv s) (dsp_firsttask s) NULL L (dsp_lasttask s) NULL"

text \<open>The same tasks: only registers, mails and fields the scheduler does not use may differ.\<close>

definition keeps :: "dsp \<Rightarrow> dsp \<Rightarrow> bool" where
  "keeps s s' \<longleftrightarrow> (\<forall>t. d_next (dtask s' t) = d_next (dtask s t) \<and> d_prev (dtask s' t) = d_prev (dtask s t) \<and>
       d_prio (dtask s' t) = d_prio (dtask s t) \<and> d_state (dtask s' t) = d_state (dtask s t) \<and>
       d_flags (dtask s' t) = d_flags (dtask s t)) \<and>
     dsp_currtask s' = dsp_currtask s \<and> dsp_firsttask s' = dsp_firsttask s \<and> dsp_lasttask s' = dsp_lasttask s \<and>
     dsp_rudetask s' = dsp_rudetask s \<and> dsp_rudetask_pend s' = dsp_rudetask_pend s \<and> dsp_intcb s' = dsp_intcb s"

text \<open>
  The tasks of the list \<open>L\<close>: linked, sorted by their priorities \<open>p\<close>, flagged as attached, no other task so flagged, and
  in a state of a live task, those of \<open>X\<close> excepted.
\<close>

definition tasks_rel :: "(ptr \<Rightarrow> u32) \<Rightarrow> ptr list \<Rightarrow> (ptr \<Rightarrow> bool) \<Rightarrow> ptr set \<Rightarrow> dsp \<Rightarrow> bool" where
  "tasks_rel p L cn X s \<longleftrightarrow> dlist L s \<and> sorted_by p L \<and> (\<forall>t. d_prio (dtask s t) = p t) \<and>
     (\<forall>t. d_flags (dtask s t) = (if t \<in> set L then DSPTASK_ATTACH else 0) OR (if cn t then DSPTASK_CANCEL else 0)) \<and>
     (\<forall>t \<in> set L - X. d_state (dtask s t) \<in> {DSPTASK_INIT, DSPTASK_RUN, DSPTASK_YIELD}) \<and> dsp_intcb s = DDef"

definition dsp_rel :: "(ptr \<Rightarrow> u32) \<Rightarrow> dsched \<Rightarrow> dsp \<Rightarrow> bool" where
  "dsp_rel p a s \<longleftrightarrow> tasks_rel p (tasks_of a) (cancelled a) {} s \<and> dsp_currtask s = running a \<and>
     (if tasks_of a = [] then running a = NULL else running a \<in> set (tasks_of a)) \<and>
     (case urgent a of None \<Rightarrow> \<not> dsp_rudetask_pend s
      | Some r \<Rightarrow> dsp_rudetask_pend s \<and> dsp_rudetask s = r \<and> r \<in> set (tasks_of a))"

lemma keeps_refl [simp]: "keeps s s"
  by (simp add: keeps_def)

lemma keeps_trans [trans]: "keeps s t \<Longrightarrow> keeps t u \<Longrightarrow> keeps s u"
  unfolding keeps_def by metis

lemma dlist_keeps: "keeps s s' \<Longrightarrow> dlist L s' = dlist L s"
  unfolding keeps_def dlist_def by simp

lemma tasks_keeps: "keeps s s' \<Longrightarrow> tasks_rel p L cn X s' = tasks_rel p L cn X s"
  unfolding tasks_rel_def by (simp add: dlist_keeps) (simp add: keeps_def)

lemma rel_keeps: "keeps s s' \<Longrightarrow> dsp_rel p a s' = dsp_rel p a s"
  unfolding dsp_rel_def by (cases "urgent a") (simp_all add: tasks_keeps, simp_all add: keeps_def)

lemma tasks_upd [simp]:
  "tasks_rel p L cn X (s\<lparr>dsp_currtask := c\<rparr>) = tasks_rel p L cn X s"
  "tasks_rel p L cn X (s\<lparr>dsp_rudetask := r\<rparr>) = tasks_rel p L cn X s"
  "tasks_rel p L cn X (s\<lparr>dsp_rudetask_pend := b\<rparr>) = tasks_rel p L cn X s"
  by (simp_all add: tasks_rel_def dlist_def)

section \<open>Hardware and callbacks\<close>

definition sent :: "dsp \<Rightarrow> u32 list \<Rightarrow> dsp \<Rightarrow> bool" where
  "sent s ms s' \<longleftrightarrow> (\<exists>r q. s' = s\<lparr>dreg := r, dirq := q, dmail := dmail s @ ms\<rparr>)"

lemma sent_refl: "sent s [] s"
  unfolding sent_def by (intro exI [of _ "dreg s"] exI [of _ "dirq s"]) simp

lemma sent_trans: "sent s ms t \<Longrightarrow> sent t ns u \<Longrightarrow> sent s (ms @ ns) u"
  unfolding sent_def by clarsimp blast

lemma sent_keeps: "sent s ms s' \<Longrightarrow> keeps s s'"
  by (auto simp: sent_def keeps_def)

lemma sent_same:
  assumes "sent s ms s'"
  shows "dtask s' = dtask s" "dsp_currtask s' = dsp_currtask s" "dsp_firsttask s' = dsp_firsttask s"
    "dsp_lasttask s' = dsp_lasttask s" "dsp_rudetask s' = dsp_rudetask s" "dsp_rudetask_pend s' = dsp_rudetask_pend s"
    "dsp_intcb s' = dsp_intcb s" "dmail s' = dmail s @ ms"
  using assms by (auto simp: sent_def)

text \<open>
  The hardware changes registers only, takes every mail in the end, and sends one when it is waited for. \<open>delivers\<close>: the
  mail it sends is \<open>m\<close>.
\<close>

definition dsp_hw :: "(dsp \<Rightarrow> dsp) \<Rightarrow> bool" where
  "dsp_hw dev \<longleftrightarrow> (\<forall>s. sent s [] (dev s)) \<and> (\<forall>s. \<exists>n. DSP_CheckMailTo ((dev ^^ n) (dev s)) = 0) \<and>
     (\<forall>s. \<exists>n. DSP_CheckMailFrom ((dev ^^ n) (dev s)) \<noteq> 0)"

definition delivers :: "(dsp \<Rightarrow> dsp) \<Rightarrow> u32 \<Rightarrow> bool" where
  "delivers dev m \<longleftrightarrow> (\<forall>s. DSP_CheckMailFrom (dev s) \<noteq> 0 \<longrightarrow> DSP_ReadMailFrom (dev s) = m)"

text \<open>The callbacks return and do not use the scheduler.\<close>

definition cb_ok :: "(u32 \<Rightarrow> ptr \<Rightarrow> dsp \<Rightarrow> dsp option) \<Rightarrow> bool" where
  "cb_ok call \<longleftrightarrow> (\<forall>f t s. \<exists>s'. call f t s = Some s' \<and> keeps s s')"

lemma hw_sent: "dsp_hw dev \<Longrightarrow> sent s [] (dev s)"
  by (simp add: dsp_hw_def)

lemma wait_to_ok:
  assumes "dsp_hw dev"
  shows "\<exists>s'. dsp_wait_to dev s = Some s' \<and> sent s [] s'"
proof -
  obtain n where "DSP_CheckMailTo ((dev ^^ n) (dev s)) = 0" using assms unfolding dsp_hw_def by blast
  then show ?thesis
  proof (induction n arbitrary: s)
    case 0
    then show ?case using hw_sent [OF assms] by (subst dsp_wait_to.simps) simp
  next
    case (Suc n)
    have "DSP_CheckMailTo ((dev ^^ n) (dev (dev s))) = 0" using Suc.prems by (simp add: funpow_swap1)
    from Suc.IH [OF this] show ?case using hw_sent [OF assms, of s] sent_trans [of s "[]" "dev s" "[]"]
      by (subst dsp_wait_to.simps) auto
  qed
qed

lemma wait_from_ok:
  assumes "dsp_hw dev"
  shows "\<exists>s'. dsp_wait_from dev s = Some s' \<and> sent s [] s' \<and> (\<forall>m. delivers dev m \<longrightarrow> DSP_ReadMailFrom s' = m)"
proof -
  obtain n where "DSP_CheckMailFrom ((dev ^^ n) (dev s)) \<noteq> 0" using assms unfolding dsp_hw_def by blast
  then show ?thesis
  proof (induction n arbitrary: s)
    case 0
    then show ?case using hw_sent [OF assms] by (subst dsp_wait_from.simps) (auto simp: delivers_def)
  next
    case (Suc n)
    have "DSP_CheckMailFrom ((dev ^^ n) (dev (dev s))) \<noteq> 0" using Suc.prems by (simp add: funpow_swap1)
    from Suc.IH [OF this] show ?case using hw_sent [OF assms, of s] sent_trans [of s "[]" "dev s" "[]"]
      by (subst dsp_wait_from.simps) (auto simp: delivers_def)
  qed
qed

definition task_mail :: "(dsp \<Rightarrow> u32) \<Rightarrow> bool" where
  "task_mail f \<longleftrightarrow> (\<forall>s ms s'. sent s ms s' \<longrightarrow> f s' = f s)"

lemma task_mail_const [simp]: "task_mail (\<lambda>_. c)"
  by (simp add: task_mail_def)

lemma task_mail_task [simp]: "task_mail (\<lambda>s. f (dtask s t))"
  by (auto simp: task_mail_def sent_same)

lemma mails_ok:
  assumes "dsp_hw dev"
  shows "\<forall>f \<in> set fs. task_mail f \<Longrightarrow> \<exists>s'. dsp_mails dev fs s = Some s' \<and> sent s (map (\<lambda>f. f s) fs) s'"
proof (induction fs arbitrary: s)
  case Nil
  then show ?case by (simp add: sent_refl)
next
  case (Cons f fs)
  have "sent s [f s] (DSP_SendMailTo (f s) s)"
    by (auto simp: sent_def DSP_SendMailTo_def intro!: exI [of _ "(dreg s)(0 := r, 1 := q)" for r q] exI [of _ "dirq s"])
  moreover obtain s1 where s1: "dsp_wait_to dev (DSP_SendMailTo (f s) s) = Some s1" "sent (DSP_SendMailTo (f s) s) [] s1"
    using wait_to_ok [OF assms] by blast
  ultimately have a: "sent s [f s] s1" using sent_trans by fastforce
  then have "map (\<lambda>f. f s1) fs = map (\<lambda>f. f s) fs" using Cons.prems by (auto simp: task_mail_def)
  moreover obtain s' where "dsp_mails dev fs s1 = Some s'" "sent s1 (map (\<lambda>f. f s1) fs) s'" using Cons by auto
  ultimately have "dsp_mails dev fs s1 = Some s'" "sent s1 (map (\<lambda>f. f s) fs) s'" by (simp_all only:)
  then have "dsp_mails dev (f # fs) s = Some s' \<and> sent s (map (\<lambda>f. f s) (f # fs)) s'"
    using s1(1) sent_trans [OF a, of "map (\<lambda>f. f s) fs" s'] by simp
  then show ?case by blast
qed

lemma docb_ok:
  assumes "cb_ok call" "dsp_currtask s \<noteq> NULL"
  shows "\<exists>s'. dsp_docb call cb s = Some s' \<and> keeps s s'"
  using assms by (auto simp: dsp_docb_def cb_ok_def Let_def)

text \<open>The mails that hand the processor to the task \<open>hire\<close>; \<open>NULL\<close> as the task that is left saves nothing.\<close>

definition hire_mails :: "dsp \<Rightarrow> ptr \<Rightarrow> ptr \<Rightarrow> u32 list" where
  "hire_mails s exec hire =
     (let e = dtask s exec; h = dtask s hire in
      (if exec = NULL then [0, 0, 0] else [dram_maddr e, dram_len e, dram_addr e]) @
      [iram_maddr h, iram_len h, iram_addr h] @
      (if d_state h = DSPTASK_INIT then [ucast (init_vec h), 0, 0, 0]
       else [ucast (resume_vec h), dram_maddr h, dram_len h, dram_addr h]))"

lemma exectask_ok:
  assumes "dsp_hw dev" "hire \<noteq> NULL"
  shows "\<exists>s'. dsp_exectask dev exec hire s = Some s' \<and> sent s (hire_mails s exec hire) s'"
proof -
  note m = mails_ok [OF assms(1)]
  let ?e = "if exec = NULL then [\<lambda>_. 0, \<lambda>_. 0, \<lambda>_. 0] else [\<lambda>s. dram_maddr (dtask s exec), \<lambda>s. dram_len (dtask s exec), \<lambda>s. dram_addr (dtask s exec)]"
  let ?h = "[\<lambda>s. iram_maddr (dtask s hire), \<lambda>s. iram_len (dtask s hire), \<lambda>s. iram_addr (dtask s hire)]"
  let ?v = "if d_state (dtask s hire) = DSPTASK_INIT then [\<lambda>s. ucast (init_vec (dtask s hire)), \<lambda>_. 0, \<lambda>_. 0, \<lambda>_. 0]
     else [\<lambda>s. ucast (resume_vec (dtask s hire)), \<lambda>s. dram_maddr (dtask s hire), \<lambda>s. dram_len (dtask s hire), \<lambda>s. dram_addr (dtask s hire)]"
  have "\<forall>f \<in> set ?e. task_mail f" "\<forall>f \<in> set ?v. task_mail f" by (auto simp: task_mail_def sent_same)
  note e = m [OF this(1)] and v = m [OF this(2)]
  obtain s1 where s1: "dsp_mails dev ?e s = Some s1" "sent s (map (\<lambda>f. f s) ?e) s1" using e by blast
  obtain s2 where s2: "dsp_mails dev ?h s1 = Some s2" "sent s1 (map (\<lambda>f. f s1) ?h) s2" using m [of ?h s1] by auto
  obtain s3 where s3: "dsp_mails dev ?v s2 = Some s3" "sent s2 (map (\<lambda>f. f s2) ?v) s3" using v by blast
  have d: "dtask s1 = dtask s" "dtask s2 = dtask s" using sent_same(1) [OF s1(2)] sent_same(1) [OF s2(2)] by simp_all
  have "dsp_exectask dev exec hire s = Some s3"
    using assms(2) s1(1) s2(1) s3(1) d unfolding dsp_exectask_def
    by (cases "exec = NULL"; cases "d_state (dtask s hire) = DSPTASK_INIT") (simp_all del: dsp_mails.simps)
  moreover have "map (\<lambda>f. f s) ?e @ map (\<lambda>f. f s1) ?h @ map (\<lambda>f. f s2) ?v = hire_mails s exec hire"
    unfolding hire_mails_def Let_def by (simp add: d)
  ultimately show ?thesis using sent_trans [OF s1(2) sent_trans [OF s2(2) s3(2)]] by auto
qed

section \<open>Linking and unlinking tasks\<close>

lemma inserttask_ok:
  assumes l: "dlist L s" and p: "\<And>t. d_prio (dtask s t) = p t" and t: "t \<noteq> NULL" "t \<notin> set L"
  shows "\<exists>s'. dsp_inserttask t s = Some s' \<and> dlist (ins_after (\<lambda>y. p y \<le> p t) t L) s' \<and>
     (\<forall>x. d_prio (dtask s' x) = p x \<and> d_state (dtask s' x) = d_state (dtask s x) \<and> d_flags (dtask s' x) = d_flags (dtask s x)) \<and>
     dsp_currtask s' = (if L = [] then t else dsp_currtask s) \<and>
     dsp_rudetask s' = dsp_rudetask s \<and> dsp_rudetask_pend s' = dsp_rudetask_pend s \<and> dsp_intcb s' = dsp_intcb s"
proof (cases "L = []")
  case True
  then show ?thesis using l t p by (simp add: dlist_def dsp_inserttask_def upd_task_def ins_after_def)
next
  case False
  let ?c = "\<lambda>y. p y \<le> p t"
  define xs ys where "xs = takeWhile ?c L" and "ys = dropWhile ?c L"
  have L: "L = xs @ ys" by (simp add: xs_def ys_def)
  have d: "dseg (dnx s) (dpv s) (dsp_firsttask s) NULL (xs @ ys) (dsp_lasttask s) NULL" using l by (simp add: dlist_def L)
  have f: "dsp_firsttask s \<noteq> NULL" using l False by (cases L) (auto simp: dlist_def)
  have find: "chain_find (dnx s) (\<lambda>x. d_prio (dtask s t) < d_prio (dtask s x)) (dsp_firsttask s) = Some (case ys of [] \<Rightarrow> NULL | x # _ \<Rightarrow> x)"
    using chain_find_lst [OF dseg_path [OF l [unfolded dlist_def]], of "\<lambda>x. p t < p x"] by (simp add: p not_less ys_def)
  have i: "ins_after ?c t L = xs @ t # ys" by (simp add: ins_after_def xs_def ys_def)
  have tn: "t \<notin> set xs" "t \<notin> set ys" using t L by auto
  show ?thesis
  proof (cases ys)
    case Nil
    have b: "dsp_lasttask s = last (NULL # xs)" "dsp_lasttask s \<noteq> NULL" "dsp_lasttask s \<in> set xs"
      using dseg_last [OF d] False L Nil dseg_nonnull [OF d] by auto
    have n: "dnx s (dsp_lasttask s) = NULL" using d Nil False L b(1) by (cases xs rule: rev_cases) auto
    let ?s = "s\<lparr>dtask := (dtask s)(dsp_lasttask s := (dtask s (dsp_lasttask s))\<lparr>d_next := t\<rparr>,
        t := (dtask s t)\<lparr>d_next := NULL, d_prev := dsp_lasttask s\<rparr>), dsp_lasttask := t\<rparr>"
    have ne: "t \<noteq> dsp_lasttask s" using b(3) tn(1) by blast
    have "dsp_inserttask t s = Some ?s" using t b ne f find Nil by (simp add: dsp_inserttask_def upd_task_def)
    moreover have "dlist (ins_after ?c t L) ?s"
    proof -
      have "dnx ?s = (if dsp_lasttask s \<noteq> NULL then (dnx s)(t := dnx s (dsp_lasttask s), dsp_lasttask s := t) else (dnx s)(t := dsp_firsttask s))"
        using ne n b(2) by (simp add: fun_eq_iff)
      moreover have "dpv ?s = (if dnx ?s t \<noteq> NULL then (dpv s)(t := dsp_lasttask s, dnx ?s t := t) else (dpv s)(t := dsp_lasttask s))"
        using ne by (simp add: fun_eq_iff)
      ultimately show ?thesis using dseg_link [OF d tn t(1) b(1), of "dnx ?s" "dpv ?s"] b(2) n ne Nil unfolding i dlist_def by simp
    qed
    ultimately show ?thesis using p False by auto
  next
    case (Cons y zs)
    have y: "y \<noteq> NULL" "p t < p y" "dpv s y = last (NULL # xs)" "y \<notin> set xs"
      using Cons d dseg_distinct [OF d] hd_dropWhile [of ?c L] dseg_last [of "dnx s" "dpv s" _ NULL xs] by (auto simp: ys_def not_le)
    let ?p = "last (NULL # xs)"
    have ty: "t \<noteq> y" "t \<noteq> ?p" using tn Cons t by auto
    have py: "?p \<noteq> y" using y by auto
    have nx: "(if ?p \<noteq> NULL then dnx s ?p else dsp_firsttask s) = y" using d Cons by (cases xs rule: rev_cases) auto
    let ?u = "(dtask s)(t := (dtask s t)\<lparr>d_prev := ?p, d_next := y\<rparr>, y := (dtask s y)\<lparr>d_prev := t\<rparr>)"
    let ?s = "s\<lparr>dtask := (if ?p = NULL then ?u else ?u(?p := (dtask s ?p)\<lparr>d_next := t\<rparr>)),
        dsp_firsttask := (if ?p = NULL then t else dsp_firsttask s)\<rparr>"
    have "dsp_inserttask t s = Some ?s" using t y ty py f find Cons
      by (simp add: dsp_inserttask_def upd_task_def Let_def fun_upd_twist del: last.simps)
    moreover have "dlist (ins_after ?c t L) ?s"
    proof -
      have "dnx ?s = (if ?p \<noteq> NULL then (dnx s)(t := dnx s ?p, ?p := t) else (dnx s)(t := dsp_firsttask s))"
        using ty py nx by (cases "?p = NULL") (simp_all add: fun_eq_iff del: last.simps)
      moreover have n: "dnx ?s t = y" using ty by (simp del: last.simps)
      moreover have "dpv ?s = (if y \<noteq> NULL then (dpv s)(t := ?p, y := t) else (dpv s)(t := ?p))"
        using ty py y(1) by (simp add: fun_eq_iff del: last.simps)
      ultimately show ?thesis using dseg_link [OF d tn t(1) refl, of "dnx ?s" "dpv ?s"] y(1) unfolding i dlist_def n
        by (cases "?p = NULL") (simp_all del: last.simps)
    qed
    ultimately show ?thesis using p False by auto
  qed
qed

text \<open>Which task \<open>dsp_removetask\<close> leaves as the current one depends on where the task was.\<close>

lemma removetask_ok:
  assumes l: "dlist (xs @ t # ys) s"
  shows "\<exists>s'. dsp_removetask t s = Some s' \<and> dlist (xs @ ys) s' \<and>
     (\<forall>x. d_prio (dtask s' x) = d_prio (dtask s x) \<and>
        d_state (dtask s' x) = (if x = t then DSPTASK_DONE else d_state (dtask s x)) \<and>
        d_flags (dtask s' x) = (if x = t then 0 else d_flags (dtask s x))) \<and>
     dsp_currtask s' = (if xs = [] then if ys = [] then NULL else dsp_currtask s else if ys = [] then dsp_firsttask s else hd ys) \<and>
     dsp_rudetask s' = dsp_rudetask s \<and> dsp_rudetask_pend s' = dsp_rudetask_pend s \<and> dsp_intcb s' = dsp_intcb s"
proof -
  let ?n = "dnx s t" and ?p = "dpv s t"
  have d: "dseg (dnx s) (dpv s) (dsp_firsttask s) NULL (xs @ t # ys) (dsp_lasttask s) NULL" using l by (simp add: dlist_def)
  have dist: "distinct (xs @ t # ys)" using d by (rule dseg_distinct)
  have t: "t \<noteq> NULL" using dseg_nonnull [OF d] by simp
  have p: "?p = last (NULL # xs)" "?p = NULL \<longleftrightarrow> xs = []" "dsp_firsttask s = t \<longleftrightarrow> xs = []" "?p \<noteq> t"
    using d dist t dseg_last [of "dnx s" "dpv s" "dsp_firsttask s" NULL xs ?p t] dseg_nonnull [OF d] by (cases xs; auto)+
  have n: "?n = (case ys of [] \<Rightarrow> NULL | y # _ \<Rightarrow> y)" "?n = NULL \<longleftrightarrow> ys = []" "?n \<noteq> t" "dsp_lasttask s = t \<longleftrightarrow> ys = []"
    using d dist t dseg_last [OF d] dseg_nonnull [OF d] by (cases ys; auto)+
  have np: "?p \<noteq> ?n \<or> ?p = NULL" using p n dist dseg_nonnull [OF d] last_in_set [of xs] by (cases ys) (auto simp del: last_in_set)
  let ?u = "(dtask s)(t := (dtask s t)\<lparr>d_flags := 0, d_state := DSPTASK_DONE\<rparr>)"
  let ?v = "if ?p = NULL then ?u else ?u(?p := (dtask s ?p)\<lparr>d_next := ?n\<rparr>)"
  let ?w = "if ?n = NULL then ?v else ?v(?n := (dtask s ?n)\<lparr>d_prev := ?p\<rparr>)"
  let ?s = "s\<lparr>dtask := ?w, dsp_firsttask := (if ?p \<noteq> NULL then dsp_firsttask s else ?n), dsp_lasttask := (if ?n \<noteq> NULL then dsp_lasttask s else ?p),
     dsp_currtask := (if xs = [] then if ys = [] then NULL else dsp_currtask s else if ys = [] then dsp_firsttask s else hd ys)\<rparr>"
  have h: "ys \<noteq> [] \<Longrightarrow> hd ys = ?n" using n(1) by (cases ys) auto
  have "dsp_removetask t s = Some ?s"
  proof (cases "xs = []"; cases "ys = []")
    assume x: "xs = []" and y: "ys = []"
    show ?thesis using t p(2-4) n(2-4) by (simp add: dsp_removetask_def upd_task_def x y)
  next
    assume x: "xs = []" and y: "ys \<noteq> []"
    show ?thesis using t p(2-4) n(2-4) h [OF y] by (simp add: dsp_removetask_def upd_task_def x y Let_def)
  next
    assume x: "xs \<noteq> []" and y: "ys = []"
    show ?thesis using t p(2-4) n(2-4) by (simp add: dsp_removetask_def upd_task_def x y Let_def)
  next
    assume x: "xs \<noteq> []" and y: "ys \<noteq> []"
    show ?thesis using t p(2-4) n(2-4) np h [OF y] by (simp add: dsp_removetask_def upd_task_def x y Let_def)
  qed
  moreover have "dlist (xs @ ys) ?s"
  proof -
    have "dnx ?s = (if ?p \<noteq> NULL then (dnx s)(?p := ?n) else dnx s)"
      using p(4) n(3) np by (cases "?p = NULL"; cases "?n = NULL") (simp_all add: fun_eq_iff)
    moreover have "dpv ?s = (if ?n \<noteq> NULL then (dpv s)(?n := ?p) else dpv s)"
      using p(4) n(3) np by (cases "?p = NULL"; cases "?n = NULL") (simp_all add: fun_eq_iff)
    ultimately show ?thesis using dseg_unlink [OF d, of "dnx ?s" "dpv ?s"] unfolding dlist_def by simp
  qed
  ultimately show ?thesis using p(4) n(3) np by auto
qed

end
