(* ===== verification/DspStep.thy ===== *)
theory DspStep
  imports DspInv
begin

text \<open>The operations of \<open>Dsp\<close> implement the abstract scheduler of \<open>DspInv\<close>, step by step.\<close>

section \<open>The current task in the list\<close>

lemma cyc_next_eq:
  "distinct (xs @ x # ys) \<Longrightarrow> cyc_next x (xs @ x # ys) = (if ys = [] then hd (xs @ [x]) else hd ys)"
  unfolding cyc_next_def by (subst dropWhile_append2) (auto simp: hd_append)

lemma cyc_next_mem: "x \<in> set L \<Longrightarrow> distinct L \<Longrightarrow> cyc_next x L \<in> set L"
  by (auto simp: cyc_next_eq hd_append dest!: split_list)

lemma tasks_distinct: "tasks_rel p L cn X s \<Longrightarrow> distinct L"
  by (auto simp: tasks_rel_def dlist_def dest: dseg_distinct)

lemma tasks_nonnull: "tasks_rel p L cn X s \<Longrightarrow> t \<in> set L \<Longrightarrow> t \<noteq> NULL"
  by (auto simp: tasks_rel_def dlist_def dest: dseg_nonnull)

lemma list_ends:
  assumes "dlist (xs @ c # ys) s"
  shows "d_next (dtask s c) = (case ys of [] \<Rightarrow> NULL | y # _ \<Rightarrow> y)" "dsp_firsttask s = hd (xs @ [c])"
    "dsp_lasttask s = last (c # ys)" "ys \<noteq> [] \<Longrightarrow> d_prev (dtask s (hd ys)) = c"
  using assms dseg_last [of "dnx s" "dpv s" _ NULL "xs @ c # ys" "dsp_lasttask s" NULL]
  by (cases ys; cases xs; auto simp: dlist_def)+

text \<open>A change of the state of a task.\<close>

definition with_state :: "ptr \<Rightarrow> u32 \<Rightarrow> dsp \<Rightarrow> dsp" where
  "with_state t v s = s\<lparr>dtask := (dtask s)(t := (dtask s t)\<lparr>d_state := v\<rparr>)\<rparr>"

lemma set_currstate_eq: "dsp_currtask s \<noteq> NULL \<Longrightarrow> set_currstate v s = Some (with_state (dsp_currtask s) v s)"
  by (simp add: set_currstate_def upd_task_def with_state_def)

lemma with_state_simps [simp]:
  "dsp_currtask (with_state t v s) = dsp_currtask s" "dsp_firsttask (with_state t v s) = dsp_firsttask s"
  "dsp_lasttask (with_state t v s) = dsp_lasttask s" "dsp_rudetask (with_state t v s) = dsp_rudetask s"
  "dsp_rudetask_pend (with_state t v s) = dsp_rudetask_pend s" "dsp_intcb (with_state t v s) = dsp_intcb s"
  "d_next (dtask (with_state t v s) x) = d_next (dtask s x)" "d_prev (dtask (with_state t v s) x) = d_prev (dtask s x)"
  "d_prio (dtask (with_state t v s) x) = d_prio (dtask s x)" "d_flags (dtask (with_state t v s) x) = d_flags (dtask s x)"
  "d_state (dtask (with_state t v s) x) = (if x = t then v else d_state (dtask s x))" "dmail (with_state t v s) = dmail s"
  by (simp_all add: with_state_def)

lemma tasks_with_state:
  "tasks_rel p L cn X s \<Longrightarrow> v \<in> {0, 1, 2} \<or> t \<in> X \<Longrightarrow> tasks_rel p L cn X (with_state t v s)"
  by (auto simp: tasks_rel_def dlist_def)

lemma rel_with_state: "dsp_rel p a s \<Longrightarrow> v \<in> {0, 1, 2} \<Longrightarrow> dsp_rel p a (with_state t v s)"
  by (cases "urgent a") (auto simp: dsp_rel_def tasks_with_state)

lemma rel_running: "dsp_rel p a s \<Longrightarrow> tasks_of a \<noteq> [] \<Longrightarrow> dsp_currtask s = running a \<and> running a \<in> set (tasks_of a) \<and> running a \<noteq> NULL"
  by (auto simp: dsp_rel_def dest: tasks_nonnull)

lemma rel_tasks: "dsp_rel p a s \<Longrightarrow> tasks_rel p (tasks_of a) (cancelled a) {} s"
  by (simp add: dsp_rel_def)

lemma tasks_dlist: "tasks_rel p L cn X s \<Longrightarrow> dlist L s"
  by (simp add: tasks_rel_def)

section \<open>Yielding\<close>

text \<open>A task that is found by a global or a link: mails and changes of task states do not change it.\<close>

definition task_choice :: "(dsp \<Rightarrow> ptr) \<Rightarrow> bool" where
  "task_choice hire \<longleftrightarrow> (\<forall>s ms s'. sent s ms s' \<longrightarrow> hire s' = hire s) \<and> (\<forall>t s v. hire (with_state t v s) = hire s)"

lemma task_choices [simp]: "task_choice dsp_rudetask" "task_choice dsp_firsttask" "task_choice currnext"
  by (simp_all add: task_choice_def sent_same currnext_def)

lemma switch_ok:
  assumes hw: "dsp_hw dev" and c: "dsp_currtask s \<noteq> NULL" and h: "hire s \<noteq> NULL" and ch: "task_choice hire"
  shows "\<exists>s'. dsp_switch dev hire s = Some s' \<and>
     keeps ((with_state (dsp_currtask s) DSPTASK_YIELD s)\<lparr>dsp_currtask := hire s\<rparr>) s' \<and>
     dmail s' = dmail s @ 0xCDD10001 # hire_mails s (dsp_currtask s) (hire s)"
proof -
  obtain s1 where s1: "dsp_mails dev [\<lambda>_. 0xCDD10001] s = Some s1" "sent s [0xCDD10001] s1"
    using mails_ok [OF hw, of "[\<lambda>_. 0xCDD10001]" s] by auto
  have st: "\<And>s ms s'. sent s ms s' \<Longrightarrow> hire s' = hire s" "\<And>t s v. hire (with_state t v s) = hire s" using ch by (simp_all add: task_choice_def)
  note e1 = sent_same [OF s1(2)] st(1) [OF s1(2)]
  obtain s2 where s2: "dsp_exectask dev (dsp_currtask s) (hire s) s1 = Some s2" "sent s1 (hire_mails s (dsp_currtask s) (hire s)) s2"
    using exectask_ok [OF hw h, of "dsp_currtask s" s1] by (auto simp: hire_mails_def e1(1))
  note e2 = sent_same [OF s2(2)] st(1) [OF s2(2)]
  let ?s = "(with_state (dsp_currtask s) DSPTASK_YIELD s2)\<lparr>dsp_currtask := hire s\<rparr>"
  have "hire (with_state (dsp_currtask s) DSPTASK_YIELD s2) = hire s" using st(2) e1 e2 by simp
  then have "dsp_switch dev hire s = Some ?s"
    using s1(1) s2(1) c e1 e2 by (simp add: dsp_switch_def set_currstate_eq del: dsp_mails.simps)
  moreover have "keeps ((with_state (dsp_currtask s) DSPTASK_YIELD s)\<lparr>dsp_currtask := hire s\<rparr>) ?s"
    using e1 e2 by (simp add: keeps_def with_state_def)
  ultimately show ?thesis using e1 e2 by auto
qed

lemma rel_switch:
  assumes "dsp_rel p a s" "h \<in> set (tasks_of a)" "keeps ((with_state (dsp_currtask s) DSPTASK_YIELD s)\<lparr>dsp_currtask := h\<rparr>) s'"
  shows "dsp_rel p (a\<lparr>running := h\<rparr>) s'"
proof -
  have "dsp_rel p (a\<lparr>running := h\<rparr>) ((with_state (dsp_currtask s) DSPTASK_YIELD s)\<lparr>dsp_currtask := h\<rparr>)"
    using assms(1,2) by (cases "urgent a") (auto simp: dsp_rel_def tasks_with_state)
  then show ?thesis using rel_keeps [OF assms(3)] by simp
qed

lemma rel_clear: "dsp_rel p a s \<Longrightarrow> dsp_rel p (a\<lparr>urgent := None\<rparr>) (clear_rude s)"
  by (auto simp: dsp_rel_def clear_rude_def)

lemma resume_ok:
  assumes "dsp_hw dev" "cb_ok call" "dsp_currtask s \<noteq> NULL"
  shows "\<exists>s1 s'. dsp_mails dev [\<lambda>_. m] s = Some s1 \<and> sent s [m] s1 \<and> dsp_docb call cb s1 = Some s' \<and> keeps s s'"
proof -
  obtain s1 where s1: "dsp_mails dev [\<lambda>_. m] s = Some s1" "sent s [m] s1" using mails_ok [OF assms(1), of "[\<lambda>_. m]" s] by auto
  moreover obtain s' where "dsp_docb call cb s1 = Some s'" "keeps s1 s'"
    using docb_ok [OF assms(2), of s1 cb] assms(3) sent_same(2) [OF s1(2)] by auto
  ultimately show ?thesis using keeps_trans [OF sent_keeps] by blast
qed

text \<open>A task that was asserted is resumed when it is the current one, and hired otherwise.\<close>

lemma yield_urgent_ok:
  assumes hw: "dsp_hw dev" and cb: "cb_ok call" and r: "dsp_rel p a s" and ne: "tasks_of a \<noteq> []" and some: "urgent a = Some u"
  shows "\<exists>s'. dsp_yielded dev call s = Some s' \<and> dsp_rel p (sched_yield a) s'"
proof -
  note run = rel_running [OF r ne]
  have u: "dsp_rudetask_pend s" "dsp_rudetask s = u" "u \<in> set (tasks_of a)" using r some by (auto simp: dsp_rel_def)
  show ?thesis
  proof (cases "u = running a")
    case True
    obtain s1 where s1: "dsp_mails dev [\<lambda>_. 0xCDD10003] s = Some s1" "sent s [0xCDD10003] s1" using mails_ok [OF hw, of "[\<lambda>_. 0xCDD10003]" s] by auto
    have r1: "dsp_rel p (a\<lparr>urgent := None\<rparr>) (clear_rude s1)" using rel_clear r rel_keeps [OF sent_keeps [OF s1(2)]] by blast
    obtain s' where s': "dsp_docb call res_cb (clear_rude s1) = Some s'" "keeps (clear_rude s1) s'"
      using docb_ok [OF cb, of "clear_rude s1"] run sent_same(2) [OF s1(2)] by (auto simp: clear_rude_def)
    have "dsp_rel p (a\<lparr>urgent := None\<rparr>) s'" using r1 rel_keeps [OF s'(2)] by simp
    moreover have "sched_yield a = a\<lparr>urgent := None\<rparr>" using some True by (simp add: sched_yield_def)
    ultimately show ?thesis using s1(1) s'(1) u run True by (simp add: dsp_yielded_def del: dsp_mails.simps)
  next
    case False
    have c: "dsp_currtask s \<noteq> NULL" "dsp_rudetask s \<noteq> NULL" using run u tasks_nonnull [OF rel_tasks [OF r]] by auto
    obtain s' where s': "dsp_switch dev dsp_rudetask s = Some s'"
        "keeps ((with_state (dsp_currtask s) DSPTASK_YIELD s)\<lparr>dsp_currtask := dsp_rudetask s\<rparr>) s'"
      using switch_ok [OF hw c task_choices(1)] by blast
    have "dsp_rel p (a\<lparr>running := u, urgent := None\<rparr>) (clear_rude s')"
      using rel_clear [OF rel_switch [OF r _ s'(2)]] u by simp
    then show ?thesis using s'(1) u run False some by (simp add: dsp_yielded_def sched_yield_def)
  qed
qed

text \<open>Otherwise the next task runs, and a task that is alone goes on.\<close>

lemma yield_next_ok:
  assumes hw: "dsp_hw dev" and cb: "cb_ok call" and r: "dsp_rel p a s" and ne: "tasks_of a \<noteq> []" and none: "urgent a = None"
  shows "\<exists>s'. dsp_yielded dev call s = Some s' \<and> dsp_rel p (sched_yield a) s'"
proof -
  note run = rel_running [OF r ne]
  then obtain xs ys where L: "tasks_of a = xs @ running a # ys" by (auto dest: split_list)
  have d: "distinct (tasks_of a)" using tasks_distinct [OF rel_tasks [OF r]] .
  note ends = list_ends [OF tasks_dlist [OF rel_tasks [OF r], unfolded L]] and nn = tasks_nonnull [OF rel_tasks [OF r]]
  let ?n = "cyc_next (running a) (tasks_of a)"
  have nx: "currnext s = (case ys of [] \<Rightarrow> NULL | y # _ \<Rightarrow> y)" "?n = (if ys = [] then hd (xs @ [running a]) else hd ys)" "?n \<in> set (tasks_of a)"
    using ends(1) run cyc_next_eq [OF d [unfolded L]] cyc_next_mem [OF _ d, of "running a"] by (simp_all add: currnext_def L [symmetric])
  have y: "sched_yield a = a\<lparr>running := ?n\<rparr>" "\<not> dsp_rudetask_pend s" using none r by (simp_all add: sched_yield_def dsp_rel_def)
  show ?thesis
  proof (cases "ys = [] \<and> xs = []")
    case True
    then have "sched_yield a = a" unfolding y nx by simp
    moreover obtain s1 s' where "dsp_mails dev [\<lambda>_. 0xCDD10003] s = Some s1" "dsp_docb call res_cb s1 = Some s'" "keeps s s'"
      using resume_ok [OF hw cb] run by metis
    ultimately show ?thesis using y(2) nx(1) ends(2) run True r rel_keeps by (simp add: dsp_yielded_def del: dsp_mails.simps)
  next
    case False
    let ?h = "if ys = [] then dsp_firsttask else currnext"
    have h: "?h s = ?n" using nx ends(2) by (cases ys) simp_all
    have c: "dsp_currtask s \<noteq> NULL" "?h s \<noteq> NULL" using run nn nx(3) unfolding h by auto
    have ch: "task_choice ?h" by simp
    obtain s' where s': "dsp_switch dev ?h s = Some s'" "keeps ((with_state (dsp_currtask s) DSPTASK_YIELD s)\<lparr>dsp_currtask := ?n\<rparr>) s'"
      using switch_ok [OF hw c ch] unfolding h by blast
    have "dsp_rel p (sched_yield a) s'" unfolding y using rel_switch [OF r nx(3) s'(2)] .
    moreover have "ys = [] \<Longrightarrow> dsp_firsttask s \<noteq> running a" using False ends(2) L d by (cases xs) auto
    moreover have "ys \<noteq> [] \<Longrightarrow> currnext s \<noteq> NULL" using c h by auto
    ultimately show ?thesis using y(2) nx(1) run s'(1) by (cases "ys = []") (simp_all add: dsp_yielded_def)
  qed
qed

lemma yield_ok:
  assumes "dsp_hw dev" "cb_ok call" "dsp_rel p a s" "tasks_of a \<noteq> []"
  shows "\<exists>s'. dsp_yielded dev call s = Some s' \<and> dsp_rel p (sched_yield a) s'"
  using yield_urgent_ok yield_next_ok assms by (cases "urgent a") blast+

section \<open>Finishing\<close>

lemma remove_rel:
  assumes r: "tasks_rel p (xs @ t # ys) cn {t} s"
  shows "\<exists>s'. dsp_removetask t s = Some s' \<and> tasks_rel p (xs @ ys) (cn(t := False)) {} s' \<and>
     dsp_currtask s' = (if xs = [] then if ys = [] then NULL else dsp_currtask s else if ys = [] then dsp_firsttask s else hd ys) \<and>
     dsp_rudetask s' = dsp_rudetask s \<and> dsp_rudetask_pend s' = dsp_rudetask_pend s"
proof -
  obtain s' where s': "dsp_removetask t s = Some s'" "dlist (xs @ ys) s'"
    "\<And>x. d_prio (dtask s' x) = d_prio (dtask s x)" "\<And>x. d_state (dtask s' x) = (if x = t then DSPTASK_DONE else d_state (dtask s x))"
    "\<And>x. d_flags (dtask s' x) = (if x = t then 0 else d_flags (dtask s x))"
    "dsp_currtask s' = (if xs = [] then if ys = [] then NULL else dsp_currtask s else if ys = [] then dsp_firsttask s else hd ys)"
    "dsp_rudetask s' = dsp_rudetask s" "dsp_rudetask_pend s' = dsp_rudetask_pend s" "dsp_intcb s' = dsp_intcb s"
    using removetask_ok [OF tasks_dlist [OF r]] by blast
  have "t \<notin> set xs" "t \<notin> set ys" using tasks_distinct [OF r] by auto
  then have "tasks_rel p (xs @ ys) (cn(t := False)) {} s'" using r s' by (auto simp: tasks_rel_def sorted_wrt_append)
  then show ?thesis using s' by blast
qed

lemma tasks_mono: "tasks_rel p L cn {} s \<Longrightarrow> tasks_rel p L cn X s"
  by (auto simp: tasks_rel_def)

text \<open>The callback and the first mail.\<close>

lemma leave_ok:
  assumes "dsp_hw dev" "cb_ok call" "dsp_currtask s \<noteq> NULL"
  shows "\<exists>s1 s2. dsp_docb call cb s = Some s1 \<and> dsp_mails dev [\<lambda>_. m] s1 = Some s2 \<and> keeps s s2"
proof -
  obtain s1 where s1: "dsp_docb call cb s = Some s1" "keeps s s1" using docb_ok [OF assms(2,3)] by blast
  moreover obtain s2 where "dsp_mails dev [\<lambda>_. m] s1 = Some s2" "sent s1 [m] s2" using mails_ok [OF assms(1), of "[\<lambda>_. m]" s1] by auto
  ultimately show ?thesis using keeps_trans sent_keeps by blast
qed

lemma keeps_same:
  assumes "keeps s s'"
  shows "dsp_currtask s' = dsp_currtask s" "dsp_firsttask s' = dsp_firsttask s" "dsp_lasttask s' = dsp_lasttask s"
    "dsp_rudetask s' = dsp_rudetask s" "dsp_rudetask_pend s' = dsp_rudetask_pend s" "currnext s' = currnext s"
    "d_prev (dtask s' t) = d_prev (dtask s t)"
  using assms by (simp_all add: keeps_def currnext_def)

lemma done_urgent_ok:
  assumes hw: "dsp_hw dev" and cb: "cb_ok call" and r: "dsp_rel p a s" and ne: "tasks_of a \<noteq> []"
    and some: "urgent a = Some u" "u \<noteq> running a"
  shows "\<exists>s'. dsp_finished dev call s = Some s' \<and> dsp_rel p (sched_done a) s'"
proof -
  note run = rel_running [OF r ne]
  then obtain xs ys where L: "tasks_of a = xs @ running a # ys" by (auto dest: split_list)
  have d: "distinct (tasks_of a)" using tasks_distinct [OF rel_tasks [OF r]] .
  have rm: "remove1 (running a) (tasks_of a) = xs @ ys" using d unfolding L by (simp add: remove1_append)
  have u: "dsp_rudetask_pend s" "dsp_rudetask s = u" "u \<in> set (xs @ ys)" "u \<noteq> NULL"
    using r some tasks_nonnull [OF rel_tasks [OF r]] L by (auto simp: dsp_rel_def)
  obtain s1 s2 where s2: "dsp_docb call done_cb s = Some s1" "dsp_mails dev [\<lambda>_. 0xCDD10001] s1 = Some s2" "keeps s s2"
    using leave_ok [OF hw cb] run by metis
  obtain s3 where s3: "dsp_exectask dev NULL u s2 = Some s3" "keeps s2 s3" using exectask_ok [OF hw u(4)] sent_keeps by blast
  have k: "keeps s s3" using keeps_trans [OF s2(3) s3(2)] .
  have "tasks_rel p (xs @ running a # ys) (cancelled a) {running a} s3"
    using tasks_mono [OF rel_tasks [OF r]] tasks_keeps [OF k] by (simp add: L)
  from remove_rel [OF this] obtain s4 where s4: "dsp_removetask (running a) s3 = Some s4" "tasks_rel p (xs @ ys) ((cancelled a)(running a := False)) {} s4"
      "dsp_rudetask s4 = dsp_rudetask s3" by blast
  let ?s = "clear_rude (s4\<lparr>dsp_currtask := dsp_rudetask s4\<rparr>)"
  have "dsp_finished dev call s = Some ?s" using u run s2 s3 s4 keeps_same [OF k] keeps_same [OF s2(3)]
    by (simp add: dsp_finished_def del: dsp_mails.simps)
  moreover have "dsp_rel p (sched_done a) ?s"
    using s4 u some keeps_same [OF k] by (auto simp: dsp_rel_def sched_done_def rm clear_rude_def)
  ultimately show ?thesis by blast
qed

text \<open>The last task of all, the last of the list, and one that has a successor.\<close>

lemma done_next_ok:
  assumes hw: "dsp_hw dev" and cb: "cb_ok call" and r: "dsp_rel p a s" and ne: "tasks_of a \<noteq> []" and none: "urgent a = None"
  shows "\<exists>s'. dsp_finished dev call s = Some s' \<and> dsp_rel p (sched_done a) s'"
proof -
  note run = rel_running [OF r ne]
  then obtain xs ys where L: "tasks_of a = xs @ running a # ys" by (auto dest: split_list)
  let ?c = "running a" and ?n = "cyc_next (running a) (tasks_of a)" and ?alone = "xs = [] \<and> ys = []"
  have d: "distinct (tasks_of a)" using tasks_distinct [OF rel_tasks [OF r]] .
  have rm: "remove1 ?c (tasks_of a) = xs @ ys" using d unfolding L by (simp add: remove1_append)
  note ends = list_ends [OF tasks_dlist [OF rel_tasks [OF r], unfolded L]] and nn = tasks_nonnull [OF rel_tasks [OF r]]
  have nx: "currnext s = (case ys of [] \<Rightarrow> NULL | y # _ \<Rightarrow> y)" "?n = (if ys = [] then hd (xs @ [?c]) else hd ys)" "?n \<in> set (tasks_of a)"
    using ends(1) run cyc_next_eq [OF d [unfolded L]] cyc_next_mem [OF _ d, of ?c] by (simp_all add: currnext_def L [symmetric])
  have pd: "\<not> dsp_rudetask_pend s" using none r by (simp add: dsp_rel_def)
  obtain s1 s2 where s2: "dsp_docb call done_cb s = Some s1"
      "dsp_mails dev [\<lambda>_. if ?alone then 0xCDD10002 else 0xCDD10001] s1 = Some s2" "keeps s s2"
    using leave_ok [OF hw cb] run by metis
  note k2 = keeps_same [OF s2(3)]
  let ?s = "with_state ?c DSPTASK_DONE s2"
  have t3: "tasks_rel p (xs @ ?c # ys) (cancelled a) {?c} ?s"
    using tasks_with_state tasks_mono [OF rel_tasks [OF r]] tasks_keeps [OF s2(3)] by (simp add: L)
  have st: "set_currstate DSPTASK_DONE s2 = Some ?s" using run k2 by (simp add: set_currstate_eq)
  show ?thesis
  proof (cases ?alone)
    case True
    from remove_rel [OF t3] obtain s4 where s4: "dsp_removetask ?c ?s = Some s4" "tasks_rel p (xs @ ys) ((cancelled a)(?c := False)) {} s4"
        "dsp_currtask s4 = NULL" "dsp_rudetask_pend s4 = dsp_rudetask_pend s2" using True by auto
    have "dsp_finished dev call s = Some s4" using True pd nx(1) run ends(2) s2 st s4 k2
      by (simp add: dsp_finished_def del: dsp_mails.simps)
    moreover have "dsp_rel p (sched_done a) s4" using s4 True pd k2 none by (simp add: dsp_rel_def sched_done_def rm)
    ultimately show ?thesis by blast
  next
    case False
    obtain s4 where s4: "dsp_exectask dev NULL ?n ?s = Some s4" "keeps ?s s4" using exectask_ok [OF hw] nn nx(3) sent_keeps by blast
    note k4 = keeps_same [OF s4(2)]
    have "tasks_rel p (xs @ ?c # ys) (cancelled a) {?c} (s4\<lparr>dsp_currtask := ?n\<rparr>)" using t3 tasks_keeps [OF s4(2)] by simp
    from remove_rel [OF this] obtain s5 where s5: "dsp_removetask ?c (s4\<lparr>dsp_currtask := ?n\<rparr>) = Some s5"
        "tasks_rel p (xs @ ys) ((cancelled a)(?c := False)) {} s5" "dsp_rudetask_pend s5 = dsp_rudetask_pend s4"
        "dsp_currtask s5 = (if xs = [] then if ys = [] then NULL else ?n else if ys = [] then dsp_firsttask s4 else hd ys)" by auto
    have h: "if ys = [] then dsp_firsttask s = ?n \<and> ?n \<noteq> ?c \<and> dsp_lasttask s = ?c else currnext s = ?n \<and> ?n \<noteq> NULL \<and> d_prev (dtask s ?n) = ?c"
      using nx ends nn L d False by (cases ys; cases xs) auto
    have "dsp_finished dev call s = Some s5"
      using False pd nx(1) h run s2 st s4(1) s5(1) k2 k4 by (cases ys) (auto simp: dsp_finished_def currnext_def simp del: dsp_mails.simps)
    moreover have "dsp_currtask s5 = ?n" using s5(4) nx(2) ends(2) False k4 k2 by auto
    moreover have "?n \<in> set (xs @ ys)" using nx(2) False by (cases "ys = []") auto
    ultimately show ?thesis using s5 False pd k2 k4 none by (auto simp: dsp_rel_def sched_done_def rm)
  qed
qed

section \<open>Every operation\<close>

lemma task_event_ok:
  assumes "cb_ok call" "dsp_rel p a s" "tasks_of a \<noteq> []"
  shows "\<exists>s1 s'. set_currstate DSPTASK_RUN s = Some s1 \<and> dsp_docb call cb s1 = Some s' \<and> dsp_rel p a s'"
    "\<exists>s'. dsp_docb call cb s = Some s' \<and> dsp_rel p a s'"
proof -
  note run = rel_running [OF assms(2,3)]
  let ?s = "with_state (running a) DSPTASK_RUN s"
  have "dsp_rel p a ?s" using rel_with_state [OF assms(2)] by simp
  moreover obtain s' where "dsp_docb call cb ?s = Some s'" "keeps ?s s'" using docb_ok [OF assms(1), of ?s cb] run by auto
  ultimately show "\<exists>s1 s'. set_currstate DSPTASK_RUN s = Some s1 \<and> dsp_docb call cb s1 = Some s' \<and> dsp_rel p a s'"
    using run rel_keeps by (auto simp: set_currstate_eq)
  show "\<exists>s'. dsp_docb call cb s = Some s' \<and> dsp_rel p a s'" using docb_ok [OF assms(1), of s cb] run rel_keeps assms(2) by auto
qed

lemma cancel_flag:
  assumes "tasks_rel p L cn X s"
  shows "d_flags (dtask s t) AND DSPTASK_CANCEL \<noteq> 0 \<longleftrightarrow> cn t"
  using assms by (auto simp: tasks_rel_def)

lemma taskcb_ends:
  assumes hw: "dsp_hw dev" "delivers dev m" and r: "dsp_rel p a s" and ne: "tasks_of a \<noteq> []" and e: "ends_task m a"
  shows "\<exists>s1. dsp_def_taskcb dev call s = dsp_finished dev call s1 \<and> dsp_rel p a s1"
proof -
  obtain s1 where s1: "dsp_wait_from dev s = Some s1" "sent s [] s1" "DSP_ReadMailFrom s1 = m" using wait_from_ok [OF hw(1)] hw(2) by blast
  have r1: "dsp_rel p a s1" using r rel_keeps [OF sent_keeps [OF s1(2)]] by simp
  then show ?thesis using e s1 rel_running [OF r1 ne] cancel_flag [OF rel_tasks [OF r1]]
    by (auto simp: dsp_def_taskcb_def Let_def ends_task_def)
qed

lemma taskcb_ok:
  assumes hw: "dsp_hw dev" "delivers dev m" and cb: "cb_ok call" and r: "dsp_rel p a s" and ok: "sched_ok (RMail m) a"
  shows "\<exists>s'. dsp_def_taskcb dev call s = Some s' \<and> dsp_rel p (sched_step p (RMail m) a) s'"
proof -
  obtain s1 where s1: "dsp_wait_from dev s = Some s1" "sent s [] s1" "DSP_ReadMailFrom s1 = m" using wait_from_ok [OF hw(1)] hw(2) by blast
  have r1: "dsp_rel p a s1" using r rel_keeps [OF sent_keeps [OF s1(2)]] by simp
  have ne: "tasks_of a \<noteq> []" using ok by simp
  note run = rel_running [OF r1 ne]
  note ev = task_event_ok [OF cb r1 ne]
  consider "ends_task m a" | "m = 0xDCD10002" "\<not> cancelled a (running a)" | "m \<noteq> 0xDCD10002" "m \<noteq> 0xDCD10003"
    unfolding ends_task_def by blast
  then show ?thesis
  proof cases
    case 1
    from taskcb_ends [OF hw r ne this] obtain s2 where "dsp_def_taskcb dev call s = dsp_finished dev call s2" "dsp_rel p a s2" by blast
    then show ?thesis
      using done_urgent_ok [OF hw(1) cb _ ne] done_next_ok [OF hw(1) cb _ ne] ok 1 by (cases "urgent a") auto
  next
    case 2
    then show ?thesis using yield_ok [OF hw(1) cb r1 ne] s1 run cancel_flag [OF rel_tasks [OF r1]] by (auto simp: dsp_def_taskcb_def ends_task_def)
  next
    case 3
    then show ?thesis using s1 run ev(1) [of init_cb] ev(1) [of res_cb] ev(2) [of req_cb] r1 by (auto simp: dsp_def_taskcb_def ends_task_def)
  qed
qed

lemma inthandler_ok:
  assumes "dsp_hw dev" "delivers dev m" "cb_ok call" "dsp_rel p a s" "sched_ok (RMail m) a"
  shows "\<exists>s'. dsp_inthandler dev call user s = Some s' \<and> dsp_rel p (sched_step p (RMail m) a) s'"
proof -
  have "dsp_rel p a (set_dspcr v s)" for v using assms(4) rel_keeps [of s "set_dspcr v s"] by (simp add: keeps_def set_dspcr_def)
  moreover from this have "dsp_intcb (set_dspcr v s) = DDef" for v by (auto simp: dsp_rel_def tasks_rel_def)
  ultimately show ?thesis using taskcb_ok [OF assms(1-3) _ assms(5)] by (simp add: dsp_inthandler_def Let_def)
qed

lemma inthandler_ends:
  assumes "dsp_hw dev" "delivers dev m" "dsp_rel p a s" "tasks_of a \<noteq> []" "ends_task m a"
  shows "\<exists>s1. dsp_inthandler dev call user s = dsp_finished dev call s1 \<and> dsp_rel p a s1"
proof -
  have "dsp_rel p a (set_dspcr v s)" for v using assms(3) rel_keeps [of s "set_dspcr v s"] by (simp add: keeps_def set_dspcr_def)
  moreover from this have "dsp_intcb (set_dspcr v s) = DDef" for v by (auto simp: dsp_rel_def tasks_rel_def)
  ultimately show ?thesis using taskcb_ends [OF assms(1,2) _ assms(4,5)] by (simp add: dsp_inthandler_def Let_def)
qed

lemma boottask_ok:
  assumes "dsp_hw dev"
  shows "\<exists>s'. dsp_boottask dev t s = Some s' \<and> sent s [0x80F3A001, iram_maddr (dtask s t), 0x80F3C002, iram_addr (dtask s t) AND 0xffff,
      0x80F3A002, iram_len (dtask s t), 0x80F3B002, 0, 0x80F3D001, ucast (init_vec (dtask s t))] s'"
proof -
  let ?fs = "[\<lambda>_. 0x80F3A001, \<lambda>s. iram_maddr (dtask s t), \<lambda>_. 0x80F3C002, \<lambda>s. iram_addr (dtask s t) AND 0xffff,
      \<lambda>_. 0x80F3A002, \<lambda>s. iram_len (dtask s t), \<lambda>_. 0x80F3B002, \<lambda>_. 0, \<lambda>_. 0x80F3D001, \<lambda>s. ucast (init_vec (dtask s t))]"
  obtain s1 where s1: "dsp_wait_from dev s = Some s1" "sent s [] s1" using wait_from_ok [OF assms] by blast
  have "\<forall>f \<in> set ?fs. task_mail f" by (auto simp: task_mail_def sent_same)
  from mails_ok [OF assms this] obtain s' where s': "dsp_mails dev ?fs s1 = Some s'" "sent s1 (map (\<lambda>f. f s1) ?fs) s'" by blast
  have "dsp_boottask dev t s = Some s'" using s1(1) s'(1) by (simp add: dsp_boottask_def del: dsp_mails.simps)
  then show ?thesis using sent_trans [OF s1(2) s'(2)] sent_same(1) [OF s1(2)] by auto
qed

text \<open>Before a task that is put first in the list is booted.\<close>

lemma attach_ok:
  assumes r: "dsp_rel p a s" and ok: "sched_ok (RAdd t) a"
  shows "\<exists>s1 s2. dsp_inserttask t s = Some s1 \<and> upd_task t (\<lambda>x. x\<lparr>d_state := DSPTASK_INIT, d_flags := DSPTASK_ATTACH\<rparr>) s1 = Some s2 \<and>
     dsp_rel p (sched_step p (RAdd t) a) s2"
proof -
  let ?L = "ins_after (\<lambda>y. p y \<le> p t) t (tasks_of a)"
  have t: "tasks_rel p (tasks_of a) (cancelled a) {} s" by (rule rel_tasks [OF r])
  obtain s1 where s1: "dsp_inserttask t s = Some s1" "dlist ?L s1" "\<And>x. d_prio (dtask s1 x) = p x"
      "\<And>x. d_state (dtask s1 x) = d_state (dtask s x)" "\<And>x. d_flags (dtask s1 x) = d_flags (dtask s x)"
      "dsp_currtask s1 = (if tasks_of a = [] then t else dsp_currtask s)" "dsp_rudetask s1 = dsp_rudetask s"
      "dsp_rudetask_pend s1 = dsp_rudetask_pend s" "dsp_intcb s1 = dsp_intcb s"
    using inserttask_ok [OF tasks_dlist [OF t], of p t] t ok by (auto simp: tasks_rel_def)
  let ?s = "s1\<lparr>dtask := (dtask s1)(t := (dtask s1 t)\<lparr>d_state := DSPTASK_INIT, d_flags := DSPTASK_ATTACH\<rparr>)\<rparr>"
  have "dnx ?s = dnx s1" "dpv ?s = dpv s1" by (simp_all add: fun_eq_iff)
  then have l: "dlist ?L ?s" using s1(2) unfolding dlist_def by (simp del: fun_upd_apply)
  have "tasks_rel p ?L ((cancelled a)(t := False)) {} ?s" unfolding tasks_rel_def
    using l s1 t sorted_by_ins_after [of p "tasks_of a" t] by (auto simp: tasks_rel_def)
  moreover have "?L \<noteq> []" by (simp add: ins_after_def)
  ultimately have "dsp_rel p (sched_step p (RAdd t) a) ?s" using s1 r by (cases "urgent a") (auto simp: dsp_rel_def split: if_splits)
  then show ?thesis using s1(1) ok by (auto simp: upd_task_def)
qed

lemma add_ok:
  assumes hw: "dsp_hw dev" and r: "dsp_rel p a s" and ok: "sched_ok (RAdd t) a"
  shows "\<exists>s'. DSP_AddTask dev t s = Some (t, s') \<and> dsp_rel p (sched_step p (RAdd t) a) s'"
proof -
  obtain s1 s2 where s2: "dsp_inserttask t s = Some s1"
      "upd_task t (\<lambda>x. x\<lparr>d_state := DSPTASK_INIT, d_flags := DSPTASK_ATTACH\<rparr>) s1 = Some s2"
      "dsp_rel p (sched_step p (RAdd t) a) s2"
    using attach_ok [OF r ok] by blast
  moreover obtain s3 where "dsp_boottask dev t s2 = Some s3" "keeps s2 s3" using boottask_ok [OF hw] sent_keeps by blast
  ultimately show ?thesis using rel_keeps by (simp add: DSP_AddTask_def)
qed

lemma cancel_ok:
  assumes r: "dsp_rel p a s" and ok: "sched_ok (RCancel t) a"
  shows "\<exists>s'. DSP_CancelTask t s = Some s' \<and> dsp_rel p (sched_step p (RCancel t) a) s'"
proof -
  let ?s = "s\<lparr>dtask := (dtask s)(t := (dtask s t)\<lparr>d_flags := d_flags (dtask s t) OR DSPTASK_CANCEL\<rparr>)\<rparr>"
  have "dnx ?s = dnx s" "dpv ?s = dpv s" by (simp_all add: fun_eq_iff)
  then have l: "dlist (tasks_of a) ?s" using tasks_dlist [OF rel_tasks [OF r]] unfolding dlist_def by (simp del: fun_upd_apply)
  have "tasks_rel p (tasks_of a) ((cancelled a)(t := True)) {} ?s" unfolding tasks_rel_def
    using l rel_tasks [OF r] by (auto simp: tasks_rel_def)
  then have "dsp_rel p (sched_step p (RCancel t) a) ?s" using r by (cases "urgent a") (auto simp: dsp_rel_def)
  then show ?thesis using ok by (simp add: DSP_CancelTask_def upd_task_def)
qed

lemma assert_ok:
  assumes r: "dsp_rel p a s" and ok: "sched_ok (RAssert t) a"
  shows "\<exists>s'. DSP_AssertTask t s = Some (if t = running a \<or> p t < p (running a) then t else NULL, s') \<and>
     dsp_rel p (sched_step p (RAssert t) a) s'"
proof -
  have ne: "tasks_of a \<noteq> []" using ok by auto
  note run = rel_running [OF r ne]
  have t: "t \<noteq> NULL" using ok tasks_nonnull [OF rel_tasks [OF r]] by simp
  have pr: "d_prio (dtask s x) = p x" for x using rel_tasks [OF r] by (simp add: tasks_rel_def)
  let ?s = "s\<lparr>dsp_rudetask := t, dsp_rudetask_pend := True\<rparr>"
  have "dsp_rel p (a\<lparr>urgent := Some t\<rparr>) ?s" using r ok by (auto simp: dsp_rel_def)
  moreover have "keeps ?s (set_dspcr v ?s)" for v by (simp add: keeps_def set_dspcr_def)
  ultimately have "dsp_rel p (a\<lparr>urgent := Some t\<rparr>) (set_dspcr v ?s)" "dsp_rel p (a\<lparr>urgent := Some t\<rparr>) ?s" for v using rel_keeps by blast+
  then show ?thesis using run t r by (auto simp: DSP_AssertTask_def pr Let_def)
qed

section \<open>Runs\<close>

text \<open>Every request comes with what the hardware does while it is served.\<close>

fun dsp_exec :: "(u32 \<Rightarrow> ptr \<Rightarrow> dsp \<Rightarrow> dsp option) \<Rightarrow> (u32 \<Rightarrow> dsp \<Rightarrow> dsp option) \<Rightarrow> dsp_req \<Rightarrow> (dsp \<Rightarrow> dsp) \<Rightarrow> dsp \<Rightarrow> dsp option" where
  "dsp_exec call user (RAdd t) dev s = map_option snd (DSP_AddTask dev t s)"
| "dsp_exec call user (RCancel t) dev s = DSP_CancelTask t s"
| "dsp_exec call user (RAssert t) dev s = map_option snd (DSP_AssertTask t s)"
| "dsp_exec call user (RMail m) dev s = dsp_inthandler dev call user s"

fun dsp_run :: "(u32 \<Rightarrow> ptr \<Rightarrow> dsp \<Rightarrow> dsp option) \<Rightarrow> (u32 \<Rightarrow> dsp \<Rightarrow> dsp option) \<Rightarrow> (dsp_req \<times> (dsp \<Rightarrow> dsp)) list \<Rightarrow> dsp \<Rightarrow> dsp option" where
  "dsp_run call user [] s = Some s"
| "dsp_run call user ((r, dev) # rs) s = do { s1 \<leftarrow> dsp_exec call user r dev s; dsp_run call user rs s1 }"

fun sched_runs_ok :: "(ptr \<Rightarrow> u32) \<Rightarrow> dsp_req list \<Rightarrow> dsched \<Rightarrow> bool" where
  "sched_runs_ok p [] a \<longleftrightarrow> True"
| "sched_runs_ok p (r # rs) a \<longleftrightarrow> sched_ok r a \<and> sched_runs_ok p rs (sched_step p r a)"

text \<open>The hardware of a request; that of an interrupt delivers the mail.\<close>

fun req_hw :: "dsp_req \<times> (dsp \<Rightarrow> dsp) \<Rightarrow> bool" where
  "req_hw (RMail m, dev) \<longleftrightarrow> dsp_hw dev \<and> delivers dev m"
| "req_hw (r, dev) \<longleftrightarrow> dsp_hw dev"

lemma exec_ok:
  assumes "cb_ok call" "dsp_rel p a s" "req_hw (r, dev)" "sched_ok r a"
  shows "\<exists>s'. dsp_exec call user r dev s = Some s' \<and> dsp_rel p (sched_step p r a) s'"
proof (cases r)
  case (RAdd t)
  then show ?thesis using add_ok [OF _ assms(2)] assms by fastforce
next
  case (RCancel t)
  then show ?thesis using cancel_ok [OF assms(2)] assms(4) by fastforce
next
  case (RAssert t)
  then show ?thesis using assert_ok [OF assms(2)] assms(4) by fastforce
next
  case (RMail m)
  then show ?thesis using inthandler_ok [OF _ _ assms(1,2)] assms(3,4) by simp
qed

lemma run_ok:
  assumes "cb_ok call" "dsp_rel p a s" "\<forall>r \<in> set rs. req_hw r" "sched_runs_ok p (map fst rs) a"
  shows "\<exists>s'. dsp_run call user rs s = Some s' \<and> dsp_rel p (fold (sched_step p) (map fst rs) a) s'"
  using assms(2-4)
proof (induction rs arbitrary: s a)
  case Nil
  then show ?case by simp
next
  case (Cons q rs)
  obtain r dev where q: "q = (r, dev)" by (cases q)
  have "req_hw (r, dev)" "sched_ok r a" using Cons.prems q by auto
  from exec_ok [OF assms(1) Cons.prems(1) this] obtain s1 where "dsp_exec call user r dev s = Some s1" "dsp_rel p (sched_step p r a) s1" by blast
  then show ?case using Cons q by simp
qed

end
