(* ===== verification/DspProps.thy ===== *)
theory DspProps
  imports DspStep
begin

text \<open>The properties of the signal processor's task scheduler, with their witnesses.\<close>

section \<open>Hardware that delivers a mail\<close>

definition deliver :: "u32 \<Rightarrow> dsp \<Rightarrow> dsp" where
  "deliver m s = s\<lparr>dreg := (dreg s)(0 := dreg s 0 AND 0x7fff, 2 := ucast (drop_bit 16 m), 3 := ucast m)\<rparr>"

lemma deliver_mail: "DSP_ReadMailFrom (deliver m s) = m"
proof -
  have "DSP_ReadMailFrom (deliver m s) = push_bit 16 (ucast (ucast (drop_bit 16 m) :: u16)) OR ucast (ucast m :: u16)"
    by (simp add: DSP_ReadMailFrom_def deliver_def)
  also have "\<dots> = m" by (rule bit_eqI) (auto simp: bit_simps)
  finally show ?thesis .
qed

lemma deliver_ok:
  assumes "bit m 31"
  shows "dsp_hw (deliver m)" "delivers (deliver m) m"
proof -
  have m: "(0x7fff :: u16) = mask 15" by (simp add: mask_eq_exp_minus_1)
  have "DSP_CheckMailTo (deliver m s) = 0" for s
    unfolding DSP_CheckMailTo_def deliver_def m by (rule bit_eqI) (auto simp: bit_simps)
  moreover have "bit (DSP_CheckMailFrom (deliver m s)) 0" for s
    using assms by (simp add: DSP_CheckMailFrom_def deliver_def bit_simps)
  then have "DSP_CheckMailFrom (deliver m s) \<noteq> 0" for s by (metis bit_0_eq bot_apply bot_bool_def)
  moreover have "sent s [] (deliver m s)" for s unfolding sent_def deliver_def
    by (intro exI [of _ "dreg (deliver m s)"] exI [of _ "dirq s"]) (simp add: deliver_def)
  ultimately show "dsp_hw (deliver m)" unfolding dsp_hw_def by (metis funpow_0)
  show "delivers (deliver m) m" by (simp add: delivers_def deliver_mail)
qed

section \<open>Round robin\<close>

lemma cyc_next_nth:
  assumes "distinct L" "i < length L"
  shows "cyc_next (L ! i) L = L ! (Suc i mod length L)"
proof -
  have L: "L = take i L @ L ! i # drop (Suc i) L" using assms(2) by (rule id_take_nth_drop)
  have "distinct (take i L @ L ! i # drop (Suc i) L)" using assms(1) L by simp
  from cyc_next_eq [OF this] have c: "cyc_next (L ! i) L = (if drop (Suc i) L = [] then hd (take i L @ [L ! i]) else hd (drop (Suc i) L))"
    using L by simp
  show ?thesis
  proof (cases "Suc i < length L")
    case True
    then show ?thesis using c by (simp add: hd_drop_conv_nth)
  next
    case False
    then have e: "Suc i = length L" using assms(2) by simp
    have "take i L @ [L ! i] = L" using take_Suc_conv_app_nth [OF assms(2)] e by simp
    then show ?thesis using c e assms(2) by (cases L) auto
  qed
qed

lemma yields_run:
  assumes "cb_ok call" "\<forall>dev \<in> set ds. dsp_hw dev \<and> delivers dev 0xDCD10002"
    "dsp_rel p a s" "tasks_of a = L" "i < length L" "running a = L ! i" "urgent a = None" "\<forall>t \<in> set L. \<not> cancelled a t"
  shows "\<exists>s'. dsp_run call user (map (Pair (RMail 0xDCD10002)) ds) s = Some s' \<and>
     dsp_rel p (a\<lparr>running := L ! ((i + length ds) mod length L)\<rparr>) s'"
  using assms(2-)
proof (induction ds arbitrary: s a i)
  case Nil
  then show ?case by (cases a) simp
next
  case (Cons dev ds)
  have d: "distinct L" using tasks_distinct [OF rel_tasks [OF Cons.prems(2)]] Cons.prems(3) by simp
  let ?i = "Suc i mod length L" and ?a = "sched_step p (RMail 0xDCD10002) a"
  have ok: "sched_ok (RMail 0xDCD10002) a" using Cons.prems by (auto simp: ends_task_def)
  have a: "?a = a\<lparr>running := L ! ?i\<rparr>" using Cons.prems cyc_next_nth [OF d] by (auto simp: ends_task_def sched_yield_def)
  have "dsp_hw dev" "delivers dev 0xDCD10002" using Cons.prems(1) by simp_all
  from inthandler_ok [OF this assms(1) Cons.prems(2) ok] obtain s1 where s1: "dsp_inthandler dev call user s = Some s1" "dsp_rel p ?a s1" by blast
  have "0 < length L" using Cons.prems(4) by linarith
  then have i: "?i < length L" by simp
  obtain s' where "dsp_run call user (map (Pair (RMail 0xDCD10002)) ds) s1 = Some s'"
      "dsp_rel p (?a\<lparr>running := L ! ((?i + length ds) mod length L)\<rparr>) s'"
    using Cons.IH [of ?a s1 ?i] s1(2) i Cons.prems unfolding a by auto
  then show ?case using s1(1) unfolding a by (simp add: mod_add_left_eq)
qed

text \<open>The initial state.\<close>

definition sched_start :: dsched where
  "sched_start = \<lparr>tasks_of = [], running = NULL, urgent = None, cancelled = (\<lambda>_. False)\<rparr>"

lemma init_ok:
  assumes "\<not> dsp_inited s" "\<not> dsp_rudetask_pend s" "\<forall>t. d_flags (dtask s t) = DSPTASK_CLEARALL"
  shows "dsp_rel (\<lambda>t. d_prio (dtask s t)) sched_start (DSP_Init wii fn s)"
  using assms by (simp add: dsp_rel_def tasks_rel_def sched_start_def DSP_Init_def Let_def set_dspcr_def dlist_def)

section \<open>Booting\<close>

lemma upd_task_mail: "upd_task t f s = Some s' \<Longrightarrow> dmail s' = dmail s \<and> dsp_firsttask s' = dsp_firsttask s"
  by (auto simp: upd_task_def split: if_splits)

lemma insert_mail: "dsp_inserttask t s = Some s' \<Longrightarrow> dmail s' = dmail s"
  by (auto simp: dsp_inserttask_def Let_def split: if_splits bind_splits dest!: upd_task_mail)

text \<open>
  A task that is more urgent than every task of the list is booted as soon as it is added, although the processor runs another
  task, which stays the current one.
\<close>

theorem dsp_add_boots_over_running:
  assumes "dsp_rel p a s" "dsp_hw dev" "sched_ok (RAdd t) a" "tasks_of a \<noteq> []" "p t < p (hd (tasks_of a))"
  shows "\<exists>s' ms. DSP_AddTask dev t s = Some (t, s') \<and> dsp_currtask s' = running a \<and> running a \<noteq> t \<and> dmail s' = dmail s @ 0x80F3A001 # ms"
proof -
  obtain s1 s2 where s2: "dsp_inserttask t s = Some s1"
      "upd_task t (\<lambda>x. x\<lparr>d_state := DSPTASK_INIT, d_flags := DSPTASK_ATTACH\<rparr>) s1 = Some s2"
      "dsp_rel p (sched_step p (RAdd t) a) s2"
    using attach_ok [OF assms(1,3)] by blast
  have "ins_after (\<lambda>y. p y \<le> p t) t (tasks_of a) = t # tasks_of a" using assms(4,5) by (cases "tasks_of a") (auto simp: ins_after_def)
  then have l: "dlist (t # tasks_of a) s2" using tasks_dlist [OF rel_tasks [OF s2(3)]] by simp
  then have f: "dsp_firsttask s2 = t" by (simp add: dlist_def)
  obtain s3 where s3: "dsp_boottask dev t s2 = Some s3" "\<exists>ms. sent s2 (0x80F3A001 # ms) s3" using boottask_ok [OF assms(2)] by blast
  then obtain ms where ms: "sent s2 (0x80F3A001 # ms) s3" by blast
  have "DSP_AddTask dev t s = Some (t, s3)" using s2 s3 f by (simp add: DSP_AddTask_def)
  moreover have "dsp_currtask s3 = running a" using s2(3) assms(4) sent_same(2) [OF ms] by (auto simp: dsp_rel_def)
  moreover have "running a \<noteq> t" using rel_running [OF assms(1,4)] assms(3) by auto
  moreover have "dmail s3 = dmail s @ 0x80F3A001 # ms" using sent_same(8) [OF ms] upd_task_mail [OF s2(2)] insert_mail [OF s2(1)] by simp
  ultimately show ?thesis by blast
qed

section \<open>Properties\<close>

definition zero_dsptask :: dsptask where
  "zero_dsptask = \<lparr>d_state = 0, d_prio = 0, d_flags = 0, iram_maddr = 0, iram_len = 0, iram_addr = 0, dram_maddr = 0, dram_len = 0,
     dram_addr = 0, init_vec = 0, resume_vec = 0, init_cb = 0, res_cb = 0, done_cb = 0, req_cb = 0, d_next = NULL, d_prev = NULL\<rparr>"

text \<open>Three tasks at 0x100, 0x200 and 0x300 with the priorities 2, 1 and 2; the second has a callback.\<close>

definition dsp_start :: dsp where
  "dsp_start = \<lparr>dirq = \<lparr>irq_ks = \<lparr>threads = (\<lambda>_. zero_thread), s_firstThread = NULL, ppc_next_ctx = NULL, sprg2 = NULL, sprg3 = NULL, msr = 0,
        squeues = (\<lambda>_. zero_queue), mutex_owner = (\<lambda>_. NULL), stack_mem = (\<lambda>_. 0), tasks = (\<lambda>_. zero_task), s_firstTask = NULL,
        timebase = 0, dec_reg = 0\<rparr>,
      hw = \<lparr>pi0 = 0, pi1 = 0xf0, mi14 = 0, mi15 = 0, dsp5 = 0, ai0 = 0, exi0 = 0, exi5 = 0, exi10 = 0\<rparr>, s_irqCookies = (\<lambda>_. (0, 0))\<rparr>,
      dreg = (\<lambda>_. 0), dmail = [],
      dtask = (\<lambda>_. zero_dsptask)(0x100 := zero_dsptask\<lparr>d_prio := 2\<rparr>, 0x200 := zero_dsptask\<lparr>d_prio := 1, done_cb := 0x80\<rparr>, 0x300 := zero_dsptask\<lparr>d_prio := 2\<rparr>),
      dsp_inited = False, dsp_rudetask_pend = False, dsp_intcb = DNull, dsp_currtask = NULL, dsp_lasttask = NULL, dsp_firsttask = NULL,
      dsp_rudetask = NULL, tmp_task = NULL\<rparr>"

text \<open>A callback that asserts the interrupt of the processor.\<close>

definition pi_cb :: "u32 \<Rightarrow> ptr \<Rightarrow> dsp \<Rightarrow> dsp option" where
  "pi_cb f t s = Some (DSP_AssertInt s)"

lemma pi_cb_ok: "cb_ok pi_cb"
  by (simp add: cb_ok_def pi_cb_def keeps_def DSP_AssertInt_def set_dspcr_def)

text \<open>
  C23. The signal processor's scheduler does what the abstract one does. After initialisation, whatever
  sequence of added, cancelled and asserted tasks and of mails from the processor follows, under the conditions of \<open>sched_ok\<close> (a task is
  added when it is not in the list, only a task of the list is asserted, mails come while there is a task, and a task that asserted
  itself does not finish or get cancelled before it has yielded; \<open>dsp_asserted_task_finishes\<close> is that last case), every call and every
  interrupt returns and dereferences no null pointer; the tasks stay linked in both directions and
  sorted by priority, exactly those in the list are flagged as attached, and each is in a state of a live task; the current
  task is one of them; and the list, the current task and the pending one are those of the abstract scheduler.
\<close>

theorem dsp_scheduler_refines:
  assumes "\<not> dsp_inited s" "\<not> dsp_rudetask_pend s" "\<forall>t. d_flags (dtask s t) = DSPTASK_CLEARALL"
    "cb_ok call" "\<forall>r \<in> set rs. req_hw r" "sched_runs_ok (\<lambda>t. d_prio (dtask s t)) (map fst rs) sched_start"
  shows "\<exists>s'. dsp_run call user rs (DSP_Init wii fn s) = Some s' \<and>
     dsp_rel (\<lambda>t. d_prio (dtask s t)) (fold (sched_step (\<lambda>t. d_prio (dtask s t))) (map fst rs) sched_start) s'"
  using run_ok [OF assms(4) init_ok [OF assms(1-3)] assms(5,6)] .

theorem dsp_scheduler_refines_witness:
  "\<exists>s'. dsp_run pi_cb (\<lambda>_. Some) [(RAdd 0x100, deliver 0x8071FEED), (RAdd 0x300, deliver 0x8071FEED), (RAdd 0x200, deliver 0x8071FEED),
       (RMail 0xDCD10002, deliver 0xDCD10002), (RAssert 0x200, deliver 0x8071FEED), (RMail 0xDCD10002, deliver 0xDCD10002),
       (RMail 0xDCD10003, deliver 0xDCD10003)] (DSP_Init True 0x80001000 dsp_start) = Some s' \<and>
     dlist [0x100, 0x300] s' \<and> dsp_currtask s' = 0x100"
proof -
  let ?p = "\<lambda>t. d_prio (dtask dsp_start t)"
  let ?rs = "[(RAdd 0x100, deliver 0x8071FEED), (RAdd 0x300, deliver 0x8071FEED), (RAdd 0x200, deliver 0x8071FEED),
       (RMail 0xDCD10002, deliver 0xDCD10002), (RAssert 0x200, deliver 0x8071FEED), (RMail 0xDCD10002, deliver 0xDCD10002),
       (RMail 0xDCD10003, deliver 0xDCD10003)]"
  let ?q = "\<lambda>t. if t = 0x200 then 1 else if t = 0x100 \<or> t = 0x300 then 2 else 0"
  have p: "?p = ?q" by (auto simp: dsp_start_def zero_dsptask_def)
  have "\<forall>r \<in> set ?rs. req_hw r" using deliver_ok by simp
  moreover have "sched_runs_ok ?p (map fst ?rs) sched_start"
    unfolding p by code_simp
  moreover have "\<not> dsp_inited dsp_start" "\<not> dsp_rudetask_pend dsp_start" "\<forall>t. d_flags (dtask dsp_start t) = DSPTASK_CLEARALL"
    by (simp_all add: dsp_start_def zero_dsptask_def)
  ultimately obtain s' where s': "dsp_run pi_cb (\<lambda>_. Some) ?rs (DSP_Init True 0x80001000 dsp_start) = Some s'"
      "dsp_rel ?p (fold (sched_step ?p) (map fst ?rs) sched_start) s'"
    using dsp_scheduler_refines [OF _ _ _ pi_cb_ok] by metis
  define a where "a = fold (sched_step ?q) (map fst ?rs) sched_start"
  have a: "tasks_of a = [0x100, 0x300]" "running a = 0x100" unfolding a_def by code_simp+
  have r: "dsp_rel ?q a s'" using s'(2) unfolding p a_def .
  have "dlist [0x100, 0x300] s'" "dsp_currtask s' = 0x100"
    using tasks_dlist [OF rel_tasks [OF r]] rel_running [OF r] unfolding a by simp_all
  then show ?thesis using s'(1) by blast
qed

text \<open>
  C29. Round robin. As long as no task is asserted or cancelled, the tasks of the list get the processor in turn: when the
  current task is the \<open>i\<close>-th of the list, then after \<open>k\<close> yields it is the one \<open>k\<close> places further, counted around the list, so every
  task runs again after at most as many yields as there are tasks; and the list stays as it is.
\<close>

theorem dsp_round_robin:
  assumes "dsp_rel p a s" "cb_ok call" "i < length (tasks_of a)" "running a = tasks_of a ! i" "urgent a = None"
    "\<forall>t \<in> set (tasks_of a). \<not> cancelled a t" "\<forall>dev \<in> set ds. dsp_hw dev \<and> delivers dev 0xDCD10002"
  shows "\<exists>s'. dsp_run call user (map (Pair (RMail 0xDCD10002)) ds) s = Some s' \<and> dlist (tasks_of a) s' \<and>
     dsp_currtask s' = tasks_of a ! ((i + length ds) mod length (tasks_of a))"
proof -
  obtain s' where "dsp_run call user (map (Pair (RMail 0xDCD10002)) ds) s = Some s'"
      and r: "dsp_rel p (a\<lparr>running := tasks_of a ! ((i + length ds) mod length (tasks_of a))\<rparr>) s'"
    using yields_run [OF assms(2,7,1) refl assms(3-6)] by blast
  then show ?thesis using tasks_dlist [OF rel_tasks [OF r]] by (auto simp: dsp_rel_def)
qed

text \<open>Two tasks after initialisation.\<close>

lemma two_tasks:
  "\<exists>s. dsp_rel (\<lambda>t. d_prio (dtask dsp_start t)) \<lparr>tasks_of = [0x100, 0x300], running = 0x100, urgent = None, cancelled = (\<lambda>_. False)\<rparr> s"
proof -
  let ?p = "\<lambda>t. d_prio (dtask dsp_start t)" and ?d = "deliver 0x8071FEED"
  have i: "dsp_rel ?p sched_start (DSP_Init True 0 dsp_start)" by (rule init_ok) (simp_all add: dsp_start_def zero_dsptask_def)
  have h: "dsp_hw ?d" by (rule deliver_ok) simp
  have "sched_ok (RAdd 0x100) sched_start" by (simp add: sched_start_def)
  from add_ok [OF h i this] obtain s1 where s1: "dsp_rel ?p (sched_step ?p (RAdd 0x100) sched_start) s1" by blast
  have "sched_ok (RAdd 0x300) (sched_step ?p (RAdd 0x100) sched_start)" by (simp add: sched_start_def ins_after_def)
  from add_ok [OF h s1 this] obtain s2 where "dsp_rel ?p (sched_step ?p (RAdd 0x300) (sched_step ?p (RAdd 0x100) sched_start)) s2" by blast
  moreover have "?p 0x100 = 2" "?p 0x300 = 2" by (simp_all add: dsp_start_def zero_dsptask_def)
  ultimately show ?thesis by (auto simp: sched_start_def ins_after_def fun_upd_idem)
qed

theorem dsp_round_robin_witness:
  "\<exists>s s'. dsp_run pi_cb (\<lambda>_. Some) (map (Pair (RMail 0xDCD10002)) (replicate 3 (deliver 0xDCD10002))) s = Some s' \<and>
     dlist [0x100, 0x300] s' \<and> dsp_currtask s' = 0x300"
proof -
  let ?a = "\<lparr>tasks_of = [0x100, 0x300], running = 0x100, urgent = None, cancelled = (\<lambda>_. False)\<rparr>"
  obtain s where s: "dsp_rel (\<lambda>t. d_prio (dtask dsp_start t)) ?a s" using two_tasks by blast
  have d: "dsp_hw (deliver 0xDCD10002) \<and> delivers (deliver 0xDCD10002) 0xDCD10002" using deliver_ok [of "0xDCD10002"] by simp
  have e: "3 mod Suc (Suc 0) = Suc 0" by (simp flip: numeral_2_eq_2)
  show ?thesis using dsp_round_robin [OF s pi_cb_ok, where i = 0 and ds = "replicate 3 (deliver 0xDCD10002)" and user = "\<lambda>_. Some"] d
    e by (auto intro!: exI [of "\<lambda>s. \<exists>s'. P s s'" s for P])
qed

text \<open>
  C33. A task that asserts itself and finishes before it yields stays the current task although it is no longer
  in the list: the handler takes it for the asserted task that is to run next, tells the processor to resume it, unlinks it and
  marks it done. The processor is then handed to a task that has finished.
\<close>

theorem dsp_asserted_task_finishes:
  assumes "dsp_rel p a s" "dsp_hw dev" "delivers dev m" "cb_ok call" "tasks_of a \<noteq> []"
    "urgent a = Some (running a)" "ends_task m a"
  shows "\<exists>s'. dsp_inthandler dev call user s = Some s' \<and> dsp_currtask s' = running a \<and>
     dlist (remove1 (running a) (tasks_of a)) s' \<and> running a \<notin> set (remove1 (running a) (tasks_of a)) \<and>
     d_state (dtask s' (running a)) = DSPTASK_DONE"
proof -
  obtain s1 where s1: "dsp_inthandler dev call user s = dsp_finished dev call s1" "dsp_rel p a s1"
    using inthandler_ends [OF assms(2,3,1,5,7)] by blast
  note run = rel_running [OF s1(2) assms(5)]
  then obtain xs ys where L: "tasks_of a = xs @ running a # ys" by (auto dest: split_list)
  have d: "distinct (xs @ running a # ys)" using tasks_distinct [OF rel_tasks [OF s1(2)]] unfolding L .
  then have rm: "remove1 (running a) (tasks_of a) = xs @ ys" unfolding L by (simp add: remove1_append)
  have u: "dsp_rudetask_pend s1" "dsp_rudetask s1 = running a" using s1(2) assms(6) by (auto simp: dsp_rel_def)
  obtain s2 s3 where s3: "dsp_docb call done_cb s1 = Some s2" "dsp_mails dev [\<lambda>_. 0xCDD10001] s2 = Some s3" "keeps s1 s3"
    using leave_ok [OF assms(2,4)] run by metis
  obtain s4 where s4: "dsp_exectask dev NULL (running a) s3 = Some s4" "keeps s3 s4" using exectask_ok [OF assms(2)] run sent_keeps by blast
  have k: "keeps s1 s4" using keeps_trans [OF s3(3) s4(2)] .
  have "dlist (xs @ running a # ys) s4" using tasks_dlist [OF rel_tasks [OF s1(2)]] dlist_keeps [OF k] unfolding L by simp
  from removetask_ok [OF this] obtain s5 where s5: "dsp_removetask (running a) s4 = Some s5" "dlist (xs @ ys) s5"
      "d_state (dtask s5 (running a)) = DSPTASK_DONE" "dsp_rudetask s5 = dsp_rudetask s4" by auto
  let ?s = "clear_rude (s5\<lparr>dsp_currtask := dsp_rudetask s5\<rparr>)"
  have "dsp_finished dev call s1 = Some ?s" using u run s3 s4 s5 keeps_same [OF k] keeps_same [OF s3(3)]
    by (simp add: dsp_finished_def del: dsp_mails.simps)
  moreover have "dsp_currtask ?s = running a" using s5(4) u keeps_same [OF k] by (simp add: clear_rude_def)
  moreover have "dlist (xs @ ys) ?s" "d_state (dtask ?s (running a)) = DSPTASK_DONE" using s5(2,3) by (simp_all add: clear_rude_def dlist_def)
  ultimately show ?thesis using s1(1) d unfolding rm by auto
qed

theorem dsp_asserted_task_finishes_witness:
  "\<exists>s s'. dsp_inthandler (deliver 0xDCD10003) pi_cb (\<lambda>_. Some) s = Some s' \<and> dsp_currtask s' = 0x100 \<and> dlist [0x300] s' \<and>
     d_state (dtask s' 0x100) = DSPTASK_DONE"
proof -
  let ?a = "\<lparr>tasks_of = [0x100, 0x300], running = 0x100, urgent = None, cancelled = (\<lambda>_. False)\<rparr>"
  obtain s where s: "dsp_rel (\<lambda>t. d_prio (dtask dsp_start t)) ?a s" using two_tasks by blast
  obtain s1 where s1: "dsp_rel (\<lambda>t. d_prio (dtask dsp_start t)) (?a\<lparr>urgent := Some 0x100\<rparr>) s1"
    using assert_ok [OF s, of "0x100"] by auto
  have d: "dsp_hw (deliver 0xDCD10003)" "delivers (deliver 0xDCD10003) 0xDCD10003" using deliver_ok [of "0xDCD10003"] by simp_all
  show ?thesis using dsp_asserted_task_finishes [OF s1 d pi_cb_ok, where user = "\<lambda>_. Some"]
    by (auto simp: ends_task_def intro!: exI [of "\<lambda>s. \<exists>s'. P s s'" s1 for P])
qed

end
