(* ===== verification/LwpPool.thy ===== *)
theory LwpPool
  imports LwpQueue
begin

text \<open>
  Several node queues in one memory between which nodes move: the queues \<open>qf i\<close>, \<open>i < k\<close>, hold the
  lists \<open>xs i\<close> and share no word.
\<close>

definition pools :: "wmem \<Rightarrow> nat \<Rightarrow> (nat \<Rightarrow> u32) \<Rightarrow> (nat \<Rightarrow> u32 list) \<Rightarrow> bool" where
  "pools m k qf xs \<longleftrightarrow> (\<forall>i < k. lwp_list m (qf i) (xs i)) \<and>
     (\<forall>i < k. \<forall>j < k. i \<noteq> j \<longrightarrow> set (words (qf i) (xs i)) \<inter> set (words (qf j) (xs j)) = {})"

lemma pools_list: "pools m k qf xs \<Longrightarrow> i < k \<Longrightarrow> lwp_list m (qf i) (xs i)"
  by (simp add: pools_def)

lemma pools_get_empty: "pools m k qf xs \<Longrightarrow> i < k \<Longrightarrow> xs i = [] \<Longrightarrow> lwp_queue_getI (qf i) m = (0, m)"
  using pools_list getI_empty by metis

lemma pools_isempty: "pools m k qf xs \<Longrightarrow> i < k \<Longrightarrow> lwp_queue_isempty (qf i) m \<longleftrightarrow> xs i = []"
  using pools_list isempty_iff by metis

lemma cells_head: "distinct (cells (a # xs @ [b])) \<Longrightarrow> a \<notin> (\<lambda>n. n + 4) ` set xs"
  by (cases xs) (auto simp: set_cells)

text \<open>The first node of queue \<open>i\<close> moves to the end of queue \<open>j\<close>.\<close>

lemma pools_move:
  assumes p: "pools m k qf xs" and ij: "i < k" "j < k" "i \<noteq> j" and x: "xs i = x # rest"
  shows "\<exists>m1. lwp_queue_getI (qf i) m = (x, m1) \<and> x \<noteq> 0 \<and>
    pools (lwp_queue_appendI (qf j) x m1) k qf (xs(i := rest, j := xs j @ [x]))"
proof -
  let ?m1 = "lwp_queue_extractI x m" and ?m2 = "lwp_queue_appendI (qf j) x (lwp_queue_extractI x m)"
  note L = pools_list [OF p]
  have D: "set (words (qf a) (xs a)) \<inter> set (words (qf b) (xs b)) = {}" if "a < k" "b < k" "a \<noteq> b" for a b
    using p that by (simp add: pools_def)
  have Li: "lwp_list m (qf i) ([] @ x # rest)" using L [OF ij(1)] x by simp
  note g = getI_first [OF Li [unfolded append_Nil]]
  note e = extractI_list [OF Li]
  have sub: "set (words (qf i) rest) \<union> {x, x + 4} \<subseteq> set (words (qf i) (xs i))" by (auto simp: x set_words)
  have L1: "lwp_list ?m1 (qf a) (xs a)" if "a < k" "a \<noteq> i" for a
    using lwp_list_cong [of "qf a" "xs a" ?m1 m] e(2) D [OF that(1) ij(1) that(2)] sub L [OF that(1)] by auto
  have c: "distinct ((qf i + 4) # qf i # (x + 4) # cells (x # rest @ [qf i + 4]))"
    using Li by (simp add: lwp_list_def words_def chain_of_def)
  then have xo: "x \<notin> set (words (qf i) rest)" "x + 4 \<notin> set (words (qf i) rest)"
    using cells_head [of x rest "qf i + 4"] lwp_list_distinct [OF Li] by (auto simp: set_words set_cells add.commute)
  have fr: "node_fresh (qf j) (xs j) x" using D [OF ij] sub g(2) by (auto simp: node_fresh_def)
  note a = appendI_list [OF L1 [OF ij(2)] fr, OF ij(3) [symmetric]]
  have W: "set (words (qf j) (xs j @ [x])) = set (words (qf j) (xs j)) \<union> {x, x + 4}" by (auto simp: set_words)
  let ?xs = "xs(i := rest, j := xs j @ [x])"
  have D2: "set (words (qf a) (?xs a)) \<inter> set (words (qf j) (xs j @ [x])) = {}" if "a < k" "a \<noteq> j" for a
  proof (cases "a = i")
    case True
    then show ?thesis using D [OF ij] sub xo W that(2) by auto
  next
    case False
    then show ?thesis using D [OF that(1) ij(1) False] D [OF that(1) ij(2) that(2)] sub W that(2) by auto
  qed
  have "lwp_list ?m2 (qf a) (?xs a)" if "a < k" for a
  proof (cases "a = j")
    case True
    then show ?thesis using a(1) by simp
  next
    case False
    have "lwp_list ?m1 (qf a) (?xs a)" using L1 [OF that] e(1) False by (cases "a = i") auto
    then show ?thesis using lwp_list_cong [of "qf a" "?xs a" ?m2 ?m1] a(2) D2 [OF that False] by blast
  qed
  moreover have "set (words (qf a) (?xs a)) \<inter> set (words (qf b) (?xs b)) = {}" if "a < k" "b < k" "a \<noteq> b" for a b
  proof -
    have s: "set (words (qf c) (?xs c)) \<subseteq> set (words (qf c) (xs c))" if "c \<noteq> j" for c using sub that by auto
    show ?thesis
    proof (cases "a = j \<or> b = j")
      case True
      then show ?thesis using D2 [of a] D2 [of b] that by (auto simp: Int_commute)
    next
      case False
      then show ?thesis using D [OF that] s [of a] s [of b] by blast
    qed
  qed
  ultimately show ?thesis using g by (auto simp: pools_def)
qed

end
