(* ===== verification/Clock.thy ===== *)
theory Clock
  imports Ogc_Prelude
begin

text \<open>
  The conversions between times and ticks of the time base, \<^verbatim>\<open>gc/tuxedo/ppc/clock.h\<close>. The greatest common
  divisor is the table of the C version.
\<close>

definition PPC_TIMER_CLOCK :: "bool \<Rightarrow> u32" where
  "PPC_TIMER_CLOCK wii = (if wii then 243000000 else 162000000) div 4"

definition gcd_table :: "u32 \<Rightarrow> u32 \<Rightarrow> u32" where
  "gcd_table a b =
     (if a = 1000 then (if b = 40500000 then 1000 else if b = 60750000 then 1000 else 0)
      else if a = 1000000 then (if b = 40500000 then 500000 else if b = 60750000 then 250000 else 0)
      else if a = 40500000 then (if b = 1000000000 then 500000 else 0)
      else if a = 60750000 then (if b = 1000000000 then 250000 else 0)
      else 0)"

definition PPCGcd :: "u32 \<Rightarrow> u32 \<Rightarrow> u32" where
  "PPCGcd a b = (if a > b then gcd_table b a else gcd_table a b)"

definition PPCMulDiv :: "u64 \<Rightarrow> u32 \<Rightarrow> u32 \<Rightarrow> u64" where
  "PPCMulDiv value num den =
     (let g = PPCGcd num den; num' = num div g; den' = den div g in value * ucast num' div ucast den')"

definition PPCNsToTicks :: "bool \<Rightarrow> u64 \<Rightarrow> u64" where "PPCNsToTicks wii ns = PPCMulDiv ns (PPC_TIMER_CLOCK wii) 1000000000"
definition PPCUsToTicks :: "bool \<Rightarrow> u64 \<Rightarrow> u64" where "PPCUsToTicks wii us = PPCMulDiv us (PPC_TIMER_CLOCK wii) 1000000"
definition PPCMsToTicks :: "bool \<Rightarrow> u64 \<Rightarrow> u64" where "PPCMsToTicks wii ms = PPCMulDiv ms (PPC_TIMER_CLOCK wii) 1000"
definition PPCTicksToNs :: "bool \<Rightarrow> u64 \<Rightarrow> u64" where "PPCTicksToNs wii t = PPCMulDiv t 1000000000 (PPC_TIMER_CLOCK wii)"
definition PPCTicksToUs :: "bool \<Rightarrow> u64 \<Rightarrow> u64" where "PPCTicksToUs wii t = PPCMulDiv t 1000000 (PPC_TIMER_CLOCK wii)"
definition PPCTicksToMs :: "bool \<Rightarrow> u64 \<Rightarrow> u64" where "PPCTicksToMs wii t = PPCMulDiv t 1000 (PPC_TIMER_CLOCK wii)"

section \<open>Exactness\<close>

text \<open>The table holds the greatest common divisors.\<close>

lemma clock_gcds:
  "gcd 40500000 1000 = (1000 :: nat)" "gcd 60750000 1000 = (1000 :: nat)" "gcd 40500000 1000000 = (500000 :: nat)"
  "gcd 60750000 1000000 = (250000 :: nat)" "gcd 40500000 1000000000 = (500000 :: nat)" "gcd 60750000 1000000000 = (250000 :: nat)"
  by (simp_all add: gcd_non_0_nat)

lemma PPCGcd_gcd:
  assumes "b = 1000 \<or> b = 1000000 \<or> b = 1000000000"
  shows "PPCGcd (PPC_TIMER_CLOCK wii) b = of_nat (gcd (unat (PPC_TIMER_CLOCK wii)) (unat b))"
  using assms by (elim disjE) (cases wii; simp add: PPCGcd_def gcd_table_def PPC_TIMER_CLOCK_def clock_gcds)+

lemma ms_ticks:
  assumes "unat ms < 2 ^ 48"
  shows "unat (PPCMsToTicks wii ms) = unat ms * (if wii then 60750 else 40500)"
proof -
  have t: "PPCMsToTicks wii ms = ms * (if wii then 60750 else 40500)"
    by (cases wii) (simp_all add: PPCMsToTicks_def PPCMulDiv_def PPCGcd_def gcd_table_def PPC_TIMER_CLOCK_def)
  show ?thesis unfolding t using assms by (cases wii) (simp_all add: unat_word_ariths)
qed

lemma ticks_ms: "unat (PPCTicksToMs wii t) = unat t div (if wii then 60750 else 40500)"
  by (cases wii) (simp_all add: PPCTicksToMs_def PPCMulDiv_def PPCGcd_def gcd_table_def PPC_TIMER_CLOCK_def unat_div)

lemma ms_round: "unat ms < 2 ^ 48 \<Longrightarrow> PPCTicksToMs wii (PPCMsToTicks wii ms) = ms"
  by (rule word_unat_eq_iff [THEN iffD2]) (simp add: ticks_ms ms_ticks)

text \<open>Microseconds: a division is left, and the tick count is rounded down.\<close>

lemma us_ticks:
  assumes "unat us < 2 ^ 48"
  shows "unat (PPCUsToTicks wii us) = (if wii then unat us * 243 div 4 else unat us * 81 div 2)"
proof -
  have t: "PPCUsToTicks wii us = (if wii then us * 243 div 4 else us * 81 div 2)"
    by (cases wii) (simp_all add: PPCUsToTicks_def PPCMulDiv_def PPCGcd_def gcd_table_def PPC_TIMER_CLOCK_def)
  show ?thesis unfolding t using assms by (cases wii) (simp_all add: unat_word_ariths unat_div)
qed

end
