(* ===== verification/Exi.thy ===== *)
theory Exi
  imports KIrq LwpPool ByteMem Clock
begin

text \<open>
  The expansion interface \<^verbatim>\<open>libogc/exi.c\<close>: three channels with up to three devices each. A driver locks a
  channel for a device, selects the device and moves data by immediate transfers of up to four bytes
  or by DMA; drivers that find the channel locked leave a callback and are called by the next unlock.

  The control register of a channel is the one of the interrupt controller (\<open>irqhw\<close>), which holds the
  interrupt enables; the other four registers are in \<open>xreg\<close>, and what is written to them is also kept
  in order in \<open>xwr\<close>. \<open>dev\<close> is what the hardware does to the state between two polls of a register.
  A section with interrupts disabled is one step. Waking a thread adds the token to \<open>xwoken\<close>; which thread
  runs then is decided by the kernel. Data cache operations are kept in \<open>xcache\<close>. Channels are 0 to 2.
\<close>

section \<open>Data\<close>

text \<open>An \<^verbatim>\<open>EXICallback\<close>: null, those of this file, or one of the program.\<close>

datatype exi_cb = XNull | XLockSync | XXfer | XUnlocked | XUser u32

record lck_dev =
  l_dev :: u32
  unlockcb :: exi_cb

record exibus =
  CallbackEXI :: exi_cb
  CallbackTC :: exi_cb
  CallbackEXT :: exi_cb
  imm_len :: u32
  imm_buff :: ptr
  lockeddev :: u32
  x_flags :: u32
  exi_id :: u32
  exi_idtime :: u64

record exi =
  irqs :: irqstate
  xreg :: "nat \<Rightarrow> nat \<Rightarrow> u32"
  xwr :: "(nat \<times> nat \<times> u32) list"
  eximap :: "nat \<Rightarrow> exibus"
  lnk :: wmem
  lckdev_queue :: ptr
  lckdevs :: ptr
  lckd_dev :: "nat \<Rightarrow> ptr"
  lck :: "ptr \<Rightarrow> lck_dev"
  last_exi_idtime :: "nat \<Rightarrow> u64"
  exi_id_serport1 :: u32
  xmem :: bmem
  xwoken :: "u32 list"
  xcache :: "(u32 \<times> ptr \<times> u32) list"
  loc_id :: ptr
  loc_reg :: ptr

abbreviation EXI_READ :: u32 where "EXI_READ \<equiv> 0"
abbreviation EXI_WRITE :: u32 where "EXI_WRITE \<equiv> 1"
abbreviation EXI_READWRITE :: u32 where "EXI_READWRITE \<equiv> 2"
abbreviation EXI_FLAG_DMA :: u32 where "EXI_FLAG_DMA \<equiv> 0x1"
abbreviation EXI_FLAG_IMM :: u32 where "EXI_FLAG_IMM \<equiv> 0x2"
abbreviation EXI_FLAG_SELECT :: u32 where "EXI_FLAG_SELECT \<equiv> 0x4"
abbreviation EXI_FLAG_ATTACH :: u32 where "EXI_FLAG_ATTACH \<equiv> 0x8"
abbreviation EXI_FLAG_LOCKED :: u32 where "EXI_FLAG_LOCKED \<equiv> 0x10"
abbreviation EXI_LOCK_DEVS :: u32 where "EXI_LOCK_DEVS \<equiv> 32"
abbreviation EXI_EXI_IRQ :: u32 where "EXI_EXI_IRQ \<equiv> 0x2"
abbreviation EXI_TC_IRQ :: u32 where "EXI_TC_IRQ \<equiv> 0x8"
abbreviation EXI_EXT_IRQ :: u32 where "EXI_EXT_IRQ \<equiv> 0x800"
abbreviation EXI_EXT_BIT :: u32 where "EXI_EXT_BIT \<equiv> 0x1000"
abbreviation EXI_DEVICE0 :: u32 where "EXI_DEVICE0 \<equiv> 0x80"

section \<open>Access to the state\<close>

definition csr :: "nat \<Rightarrow> exi \<Rightarrow> u32" where
  "csr chn s = (let h = hw (irqs s) in if chn = 0 then exi0 h else if chn = 1 then exi5 h else exi10 h)"

definition set_csr :: "nat \<Rightarrow> u32 \<Rightarrow> exi \<Rightarrow> exi" where
  "set_csr chn v s =
     (let h = hw (irqs s);
          h' = (if chn = 0 then h\<lparr>exi0 := v\<rparr> else if chn = 1 then h\<lparr>exi5 := v\<rparr> else h\<lparr>exi10 := v\<rparr>)
      in s\<lparr>irqs := (irqs s)\<lparr>hw := h'\<rparr>\<rparr>)"

definition set_xreg :: "nat \<Rightarrow> nat \<Rightarrow> u32 \<Rightarrow> exi \<Rightarrow> exi" where
  "set_xreg chn k v s = s\<lparr>xreg := (xreg s)(chn := (xreg s chn)(k := v)), xwr := xwr s @ [(chn, k, v)]\<rparr>"

definition upd_chn :: "nat \<Rightarrow> (exibus \<Rightarrow> exibus) \<Rightarrow> exi \<Rightarrow> exi" where
  "upd_chn chn f s = s\<lparr>eximap := (eximap s)(chn := f (eximap s chn))\<rparr>"

definition has_flag :: "u32 \<Rightarrow> nat \<Rightarrow> exi \<Rightarrow> bool" where
  "has_flag m chn s \<longleftrightarrow> x_flags (eximap s chn) AND m \<noteq> 0"

definition set_flag :: "u32 \<Rightarrow> nat \<Rightarrow> exi \<Rightarrow> exi" where
  "set_flag m chn = upd_chn chn (\<lambda>x. x\<lparr>x_flags := x_flags x OR m\<rparr>)"

definition clr_flag :: "u32 \<Rightarrow> nat \<Rightarrow> exi \<Rightarrow> exi" where
  "clr_flag m chn = upd_chn chn (\<lambda>x. x\<lparr>x_flags := x_flags x AND NOT m\<rparr>)"

definition irq_on :: "bool \<Rightarrow> u32 \<Rightarrow> exi \<Rightarrow> exi" where
  "irq_on wii m s = s\<lparr>irqs := KIrqEnable wii m (irqs s)\<rparr>"

definition irq_off :: "bool \<Rightarrow> u32 \<Rightarrow> exi \<Rightarrow> exi" where
  "irq_off wii m s = s\<lparr>irqs := KIrqDisable wii m (irqs s)\<rparr>"

definition forget_id :: "nat \<Rightarrow> exi \<Rightarrow> exi" where
  "forget_id chn s = (upd_chn chn (\<lambda>x. x\<lparr>exi_idtime := 0\<rparr>) s)\<lparr>last_exi_idtime := (last_exi_idtime s)(chn := 0)\<rparr>"

section \<open>Interrupts and probing\<close>

definition exi_clearirqs :: "nat \<Rightarrow> bool \<Rightarrow> bool \<Rightarrow> bool \<Rightarrow> exi \<Rightarrow> exi" where
  "exi_clearirqs chn nEXIIrq nTCIrq nEXTIrq s =
     (let d = csr chn s AND NOT (EXI_EXI_IRQ OR EXI_TC_IRQ OR EXI_EXT_IRQ);
          d1 = (if nEXIIrq then d OR EXI_EXI_IRQ else d);
          d2 = (if nTCIrq then d1 OR EXI_TC_IRQ else d1);
          d3 = (if nEXTIrq then d2 OR EXI_EXT_IRQ else d2)
      in set_csr chn d3 s)"

definition exi_setinterrupts :: "bool \<Rightarrow> nat \<Rightarrow> exi \<Rightarrow> exi" where
  "exi_setinterrupts wii chn s =
     (let free = (\<not> has_flag EXI_FLAG_LOCKED chn s); m02 = IRQMASK IRQ_EXI0_EXI OR IRQMASK IRQ_EXI2_EXI in
      if chn = 0 then
        (if free \<and> (CallbackEXI (eximap s 0) \<noteq> XNull \<or> CallbackEXI (eximap s 2) \<noteq> XNull) then irq_on wii m02 s else irq_off wii m02 s)
      else if chn = 1 then
        (if free \<and> CallbackEXI (eximap s 1) \<noteq> XNull then irq_on wii (IRQMASK IRQ_EXI1_EXI) s else irq_off wii (IRQMASK IRQ_EXI1_EXI) s)
      else if chn = 2 then
        (if free \<and> KIrqGet IRQ_PI_DEBUG (irqs s) \<noteq> NULL then irq_on wii (IRQMASK IRQ_PI_DEBUG) s else irq_off wii (IRQMASK IRQ_PI_DEBUG) s)
      else s)"

definition exi_initmap :: "exi \<Rightarrow> exi" where
  "exi_initmap s =
     (let m = lwp_queue_initialize (lckdev_queue s) (lckdevs s) EXI_LOCK_DEVS 16 (lnk s) in
      fold (\<lambda>i s. (upd_chn i (\<lambda>_. \<lparr>CallbackEXI = XNull, CallbackTC = XNull, CallbackEXT = XNull, imm_len = 0, imm_buff = NULL,
               lockeddev = 0, x_flags = 0, exi_id = 0, exi_idtime = 0\<rparr>) s)\<lparr>lnk := lwp_queue_init_empty (lckd_dev s i) (lnk s)\<rparr>)
        [0 ..< 3] (s\<lparr>lnk := m\<rparr>))"

definition exi_probe :: "bool \<Rightarrow> nat \<Rightarrow> exi \<Rightarrow> u32 \<times> exi" where
  "exi_probe wii chn s =
     (if chn = 2 then (1, s)
      else let val = csr chn s in
        if \<not> has_flag EXI_FLAG_ATTACH chn s then
          let s1 = (if val AND EXI_EXT_IRQ \<noteq> 0 then forget_id chn (exi_clearirqs chn False False True s) else s) in
          if val AND EXI_EXT_BIT \<noteq> 0 then
            let t = timebase (irq_ks (irqs s1));
                time = (if t = 0 then 1 else t);
                s2 = (if last_exi_idtime s1 chn = 0 then s1\<lparr>last_exi_idtime := (last_exi_idtime s1)(chn := time)\<rparr> else s1)
            in (if time - last_exi_idtime s2 chn <s PPCMsToTicks wii 300 then 0 else 1, s2)
          else (0, forget_id chn s1)
        else if val AND EXI_EXT_BIT = 0 \<or> val AND EXI_EXT_IRQ \<noteq> 0 then (0, forget_id chn s)
        else (1, s))"

definition exi_attach :: "bool \<Rightarrow> nat \<Rightarrow> exi_cb \<Rightarrow> exi \<Rightarrow> u32 \<times> exi" where
  "exi_attach wii chn ext_cb s =
     (if \<not> has_flag EXI_FLAG_ATTACH chn s then
        (case exi_probe wii chn s of (r, s1) \<Rightarrow>
           if r \<noteq> 0 then
             (1, set_flag EXI_FLAG_ATTACH chn (irq_on wii (drop_bit (chn * 3) (IRQMASK IRQ_EXI0_EXT))
                   (upd_chn chn (\<lambda>x. x\<lparr>CallbackEXT := ext_cb\<rparr>) (exi_clearirqs chn True False False s1))))
           else (0, s1))
      else (0, s))"

section \<open>Locking\<close>

definition EXI_Lock :: "bool \<Rightarrow> nat \<Rightarrow> u32 \<Rightarrow> exi_cb \<Rightarrow> exi \<Rightarrow> u32 \<times> exi" where
  "EXI_Lock wii chn nDev unlockCB s =
     (if has_flag EXI_FLAG_LOCKED chn s then
        (0, if unlockCB \<noteq> XNull then
              (case lwp_queue_getI (lckdev_queue s) (lnk s) of (n, m) \<Rightarrow>
                 if n \<noteq> NULL then s\<lparr>lck := (lck s)(n := \<lparr>l_dev = nDev, unlockcb = unlockCB\<rparr>), lnk := lwp_queue_appendI (lckd_dev s chn) n m\<rparr>
                 else s\<lparr>lnk := m\<rparr>)
            else s)
      else (1, exi_setinterrupts wii chn (set_flag EXI_FLAG_LOCKED chn (upd_chn chn (\<lambda>x. x\<lparr>lockeddev := nDev\<rparr>) s))))"

definition lock_token :: "nat \<Rightarrow> u32 \<Rightarrow> u32" where
  "lock_token chn nDev = of_nat chn OR push_bit 2 nDev"

definition xfer_token :: "nat \<Rightarrow> u32" where
  "xfer_token chn = of_nat chn OR 0x100"

definition exi_locksync_cb :: "nat \<Rightarrow> u32 \<Rightarrow> exi \<Rightarrow> exi" where
  "exi_locksync_cb chn nDev s = s\<lparr>xwoken := xwoken s @ [lock_token chn nDev]\<rparr>"

text \<open>The result \<open>None\<close>: the caller sleeps under \<open>lock_token\<close>, and goes on with \<open>EXI_LockSync_resume\<close> once it has been woken.\<close>

definition EXI_LockSync_resume :: "bool \<Rightarrow> nat \<Rightarrow> u32 \<Rightarrow> exi \<Rightarrow> u32 option \<times> exi" where
  "EXI_LockSync_resume wii chn nDev s = (case EXI_Lock wii chn nDev XLockSync s of (r, s1) \<Rightarrow> (if r \<noteq> 0 then Some 1 else None, s1))"

definition EXI_LockSync :: "bool \<Rightarrow> nat \<Rightarrow> u32 \<Rightarrow> exi \<Rightarrow> u32 option \<times> exi" where
  "EXI_LockSync wii chn nDev s =
     (case EXI_Lock wii chn nDev XNull s of (r, s1) \<Rightarrow>
        if r \<noteq> 0 then (Some 1, s1)
        else if PPCIsInExcpt (irq_ks (irqs s1)) then (Some 0, s1)
        else EXI_LockSync_resume wii chn nDev s1)"

text \<open>\<open>call\<close> makes a callback.\<close>

definition EXI_Unlock :: "bool \<Rightarrow> (exi_cb \<Rightarrow> nat \<Rightarrow> u32 \<Rightarrow> exi \<Rightarrow> exi option) \<Rightarrow> nat \<Rightarrow> exi \<Rightarrow> (u32 \<times> exi) option" where
  "EXI_Unlock wii call chn s =
     (if \<not> has_flag EXI_FLAG_LOCKED chn s then Some (0, s)
      else let s1 = exi_setinterrupts wii chn (clr_flag EXI_FLAG_LOCKED chn s) in
        if lwp_queue_isempty (lckd_dev s1 chn) (lnk s1) then Some (1, s1)
        else case lwp_queue_getI (lckd_dev s1 chn) (lnk s1) of (n, m) \<Rightarrow>
          let s2 = s1\<lparr>lnk := lwp_queue_appendI (lckdev_queue s1) n m\<rparr> in
          map_option (Pair 1) (call (unlockcb (lck s2 n)) chn (l_dev (lck s2 n)) s2))"

section \<open>Selecting a device\<close>

definition sel_irq :: "(u32 \<Rightarrow> exi \<Rightarrow> exi) \<Rightarrow> nat \<Rightarrow> exi \<Rightarrow> exi" where
  "sel_irq f chn s =
     (if has_flag EXI_FLAG_ATTACH chn s then
        (if chn = 0 then f (IRQMASK IRQ_EXI0_EXT) s else if chn = 1 then f (IRQMASK IRQ_EXI1_EXT) s else s)
      else s)"

definition EXI_Select :: "bool \<Rightarrow> nat \<Rightarrow> u32 \<Rightarrow> u32 \<Rightarrow> exi \<Rightarrow> u32 \<times> exi" where
  "EXI_Select wii chn nDev nFrq s =
     (if has_flag EXI_FLAG_SELECT chn s then (0, s)
      else let (ok, s1) = (if chn \<noteq> 2 \<and> nDev = 0 \<and> \<not> has_flag EXI_FLAG_ATTACH chn s then exi_probe wii chn s else (1, s)) in
        if ok = 0 then (0, s1)
        else if chn \<noteq> 2 \<and> (\<not> has_flag EXI_FLAG_LOCKED chn s1 \<or> lockeddev (eximap s1 chn) \<noteq> nDev) then (0, s1)
        else let s2 = set_flag EXI_FLAG_SELECT chn s1;
                 s3 = set_csr chn ((csr chn s2 AND 0x405) OR push_bit (unat nDev) 0x80 OR push_bit 4 nFrq) s2
             in (1, sel_irq (irq_off wii) chn s3))"

definition EXI_Deselect :: "bool \<Rightarrow> nat \<Rightarrow> exi \<Rightarrow> u32 \<times> exi" where
  "EXI_Deselect wii chn s =
     (if \<not> has_flag EXI_FLAG_SELECT chn s then (0, s)
      else let s1 = clr_flag EXI_FLAG_SELECT chn s;
               val = csr chn s1;
               s2 = sel_irq (irq_on wii) chn (set_csr chn (val AND 0x405) s1)
           in if chn \<noteq> 2 \<and> val AND EXI_DEVICE0 \<noteq> 0 then exi_probe wii chn s2 else (1, s2))"

section \<open>Transfers\<close>

text \<open>The bytes that \<^verbatim>\<open>EXI_Imm\<close> packs into the data register, the first one at the top; at most four.\<close>

definition imm_value :: "u8 list \<Rightarrow> u32" where
  "imm_value bs = foldr (\<lambda>i v. push_bit ((3 - i) * 8) (ucast (bs ! i)) OR v) [0 ..< length bs] 0"

definition imm_bytes :: "nat \<Rightarrow> u32 \<Rightarrow> u8 list" where
  "imm_bytes n v = map (\<lambda>i. ucast (drop_bit ((3 - i) * 8) v)) [0 ..< n]"

definition exi_completetransfer :: "nat \<Rightarrow> exi \<Rightarrow> exi" where
  "exi_completetransfer chn s =
     (if \<not> has_flag (EXI_FLAG_DMA OR EXI_FLAG_IMM) chn s then s
      else let x = eximap s chn;
               s1 = (if has_flag EXI_FLAG_IMM chn s \<and> imm_buff x \<noteq> NULL \<and> imm_len x > 0
                     then s\<lparr>xmem := store_bytes (imm_buff x) (imm_bytes (unat (imm_len x)) (xreg s chn 4)) (xmem s)\<rparr> else s)
           in clr_flag (EXI_FLAG_DMA OR EXI_FLAG_IMM) chn s1)"

partial_function (option) exi_poll :: "(exi \<Rightarrow> exi) \<Rightarrow> nat \<Rightarrow> exi \<Rightarrow> exi option" where
  "exi_poll dev chn s =
     (if has_flag EXI_FLAG_SELECT chn s \<and> xreg s chn 3 AND 1 \<noteq> 0 then exi_poll dev chn (dev s) else Some s)"

definition EXI_Sync :: "(exi \<Rightarrow> exi) \<Rightarrow> nat \<Rightarrow> exi \<Rightarrow> (u32 \<times> exi) option" where
  "EXI_Sync dev chn s =
     map_option (\<lambda>s1. if has_flag EXI_FLAG_SELECT chn s1 then (1, exi_completetransfer chn s1) else (0, s1)) (exi_poll dev chn s)"

definition arm_tc :: "bool \<Rightarrow> nat \<Rightarrow> exi_cb \<Rightarrow> exi \<Rightarrow> exi" where
  "arm_tc wii chn tc_cb s =
     (let s1 = upd_chn chn (\<lambda>x. x\<lparr>CallbackTC := tc_cb\<rparr>) s in
      if tc_cb \<noteq> XNull then irq_on wii (drop_bit (chn * 3) (IRQMASK IRQ_EXI0_TC)) (exi_clearirqs chn False True False s1) else s1)"

definition EXI_Imm :: "bool \<Rightarrow> nat \<Rightarrow> ptr \<Rightarrow> u32 \<Rightarrow> u32 \<Rightarrow> exi_cb \<Rightarrow> exi \<Rightarrow> u32 \<times> exi" where
  "EXI_Imm wii chn pData nLen nMode tc_cb s =
     (if has_flag (EXI_FLAG_DMA OR EXI_FLAG_IMM) chn s \<or> \<not> has_flag EXI_FLAG_SELECT chn s then (0, s)
      else let s1 = set_flag EXI_FLAG_IMM chn (arm_tc wii chn tc_cb s);
               s2 = upd_chn chn (\<lambda>x. x\<lparr>imm_buff := pData, imm_len := (if nMode = EXI_WRITE then 0 else nLen)\<rparr>) s1;
               value = (if nMode \<noteq> EXI_READ then imm_value (load_bytes (xmem s2) pData (unat nLen)) else 0xffffffff)
           in (1, set_xreg chn 3 (push_bit 4 ((nLen - 1) AND 3) OR push_bit 2 (nMode AND 3) OR 1) (set_xreg chn 4 value s2)))"

function exi_immex :: "bool \<Rightarrow> (exi \<Rightarrow> exi) \<Rightarrow> nat \<Rightarrow> ptr \<Rightarrow> nat \<Rightarrow> u32 \<Rightarrow> u32 \<Rightarrow> exi \<Rightarrow> (u32 \<times> exi) option" where
  "exi_immex wii dev chn buf n nMode ret s =
     (if n = 0 then Some (ret, s)
      else let tc = min n 4 in
        case EXI_Imm wii chn buf (of_nat tc) nMode XNull s of (r, s1) \<Rightarrow>
          if r = 0 then Some (0, s1)
          else do { (r', s2) \<leftarrow> EXI_Sync dev chn s1;
                    if r' = 0 then Some (0, s2) else exi_immex wii dev chn (buf + of_nat tc) (n - tc) nMode 1 s2 })"
  by pat_completeness auto
termination by (relation "measure (\<lambda>(wii, dev, chn, buf, n, nMode, ret, s). n)") auto

definition EXI_ImmEx :: "bool \<Rightarrow> (exi \<Rightarrow> exi) \<Rightarrow> nat \<Rightarrow> ptr \<Rightarrow> u32 \<Rightarrow> u32 \<Rightarrow> exi \<Rightarrow> (u32 \<times> exi) option" where
  "EXI_ImmEx wii dev chn pData nLen nMode s = exi_immex wii dev chn pData (unat nLen) nMode 0 s"

definition EXI_Dma :: "bool \<Rightarrow> nat \<Rightarrow> ptr \<Rightarrow> u32 \<Rightarrow> u32 \<Rightarrow> exi_cb \<Rightarrow> exi \<Rightarrow> u32 \<times> exi" where
  "EXI_Dma wii chn pData nLen nMode tc_cb s =
     (if has_flag (EXI_FLAG_DMA OR EXI_FLAG_IMM) chn s \<or> \<not> has_flag EXI_FLAG_SELECT chn s then (0, s)
      else let s1 = arm_tc wii chn tc_cb s;
               s2 = set_flag EXI_FLAG_DMA chn (upd_chn chn (\<lambda>x. x\<lparr>imm_buff := NULL, imm_len := 0\<rparr>) s1)
           in (1, set_xreg chn 3 (push_bit 2 (nMode AND 3) OR 3) (set_xreg chn 2 nLen
                    (set_xreg chn 1 (MEM_VIRTUAL_TO_PHYSICAL pData AND NOT 0x1f) s2))))"

definition exi_xfer_cb :: "nat \<Rightarrow> exi \<Rightarrow> exi" where
  "exi_xfer_cb chn s = s\<lparr>xwoken := xwoken s @ [xfer_token chn]\<rparr>"

text \<open>
  The three parts of \<^verbatim>\<open>EXI_Transfer\<close>: bytes up to a cache line, whole lines by DMA, the rest. With the result
  \<open>None\<close> the caller sleeps under \<open>xfer_token\<close> and goes on with \<open>EXI_Transfer_resume\<close>.
\<close>

definition xfer_head :: "ptr \<Rightarrow> u32" where
  "xfer_head p = (if p AND 0x1f \<noteq> 0 then 0x20 - (p AND 0x1f) else 0)"

definition EXI_Transfer_resume :: "bool \<Rightarrow> (exi \<Rightarrow> exi) \<Rightarrow> nat \<Rightarrow> ptr \<Rightarrow> u32 \<Rightarrow> u32 \<Rightarrow> u32 \<Rightarrow> exi \<Rightarrow> (u32 \<times> exi) option" where
  "EXI_Transfer_resume wii dev chn p tail nMode ret s =
     (if ret \<noteq> 0 \<and> tail \<noteq> 0 then EXI_ImmEx wii dev chn p tail nMode s else Some (ret, s))"

definition EXI_Transfer :: "bool \<Rightarrow> (exi \<Rightarrow> exi) \<Rightarrow> nat \<Rightarrow> ptr \<Rightarrow> u32 \<Rightarrow> u32 \<Rightarrow> exi \<Rightarrow> (u32 option \<times> exi) option" where
  "EXI_Transfer wii dev chn pData nLen nMode s =
     (if nMode = EXI_READWRITE then Some (Some 0, s)
      else if nLen < (if pData AND 0x1f \<noteq> 0 then 0x40 else 0x20) then map_option (map_prod Some id) (EXI_ImmEx wii dev chn pData nLen nMode s)
      else do {
        (r, s1) \<leftarrow> (if pData AND 0x1f \<noteq> 0 then EXI_ImmEx wii dev chn pData (xfer_head pData) nMode s else Some (1, s));
        if r = 0 then Some (Some 0, s1)
        else let p = pData + xfer_head pData; n = nLen - xfer_head pData; tail = n AND 0x1f; n' = n AND NOT 0x1f;
                 s2 = s1\<lparr>xcache := xcache s1 @ [(nMode, p, n')]\<rparr>
             in if PPCIsInExcpt (irq_ks (irqs s2)) then
                  (case EXI_Dma wii chn p n' nMode XNull s2 of (ret, s3) \<Rightarrow>
                     do { s4 \<leftarrow> (if ret \<noteq> 0 then map_option snd (EXI_Sync dev chn s3) else Some s3);
                          map_option (map_prod Some id) (EXI_Transfer_resume wii dev chn (p + n') tail nMode ret s4) })
                else (case EXI_Dma wii chn p n' nMode XXfer s2 of (ret, s3) \<Rightarrow>
                        Some (if ret \<noteq> 0 then None else Some 0, s3)) })"

definition EXI_GetState :: "nat \<Rightarrow> exi \<Rightarrow> u32" where
  "EXI_GetState chn s = x_flags (eximap s chn)"

section \<open>Identifying devices\<close>

definition EXI_Detach :: "bool \<Rightarrow> nat \<Rightarrow> exi \<Rightarrow> u32 \<times> exi" where
  "EXI_Detach wii chn s =
     (if has_flag EXI_FLAG_ATTACH chn s then
        (if has_flag EXI_FLAG_LOCKED chn s \<and> lockeddev (eximap s chn) = 0 then (0, s)
         else (1, irq_off wii (drop_bit (chn * 3) (IRQMASK IRQ_EXI0_EXI OR IRQMASK IRQ_EXI0_EXT)) (clr_flag EXI_FLAG_ATTACH chn s)))
      else (1, s))"

text \<open>The part of \<^verbatim>\<open>EXI_GetID\<close> that talks to the device; the local \<^verbatim>\<open>reg\<close> is at \<open>loc_reg\<close>.\<close>

definition exi_read_id :: "bool \<Rightarrow> (exi \<Rightarrow> exi) \<Rightarrow> nat \<Rightarrow> u32 \<Rightarrow> ptr \<Rightarrow> exi \<Rightarrow> exi option" where
  "exi_read_id wii dev chn nDev nId s =
     (case EXI_Select wii chn nDev 0 s of (sel, s1) \<Rightarrow>
        if sel = 0 then Some s1
        else do { (_, s2) \<leftarrow> EXI_Sync dev chn (snd (EXI_Imm wii chn (loc_reg s1) 2 EXI_WRITE XNull (s1\<lparr>xmem := store_u32 (loc_reg s1) 0 (xmem s1)\<rparr>)));
                  (_, s3) \<leftarrow> EXI_Sync dev chn (snd (EXI_Imm wii chn nId 4 EXI_READ XNull s2));
                  Some (snd (EXI_Deselect wii chn s3)) })"

definition EXI_GetID :: "bool \<Rightarrow> (exi \<Rightarrow> exi) \<Rightarrow> (exi_cb \<Rightarrow> nat \<Rightarrow> u32 \<Rightarrow> exi \<Rightarrow> exi option) \<Rightarrow> nat \<Rightarrow> u32 \<Rightarrow> ptr \<Rightarrow> exi \<Rightarrow> (u32 \<times> exi) option" where
  "EXI_GetID wii dev call chn nDev nId s =
     (if chn = 0 \<and> nDev = 2 \<and> exi_id_serport1 s \<noteq> 0 then Some (1, s\<lparr>xmem := store_u32 nId (exi_id_serport1 s) (xmem s)\<rparr>)
      else let card = (chn < 2 \<and> nDev = 0); (pr, s1) = (if card then exi_probe wii chn s else (1, s)) in
        if pr = 0 then Some (0, s1)
        else if card \<and> exi_idtime (eximap s1 chn) = last_exi_idtime s1 chn
        then Some (1, s1\<lparr>xmem := store_u32 nId (exi_id (eximap s1 chn)) (xmem s1)\<rparr>)
        else let (at, s2) = (if card then exi_attach wii chn XNull s1 else (1, s1)) in
          if at = 0 then Some (0, s2)
          else let idtime = (if card then last_exi_idtime s2 chn else 0);
                   (ret, s3) = EXI_Lock wii chn nDev (if card then XUnlocked else XNull) s2
               in do {
                 s5 \<leftarrow> (if ret \<noteq> 0 then do { s4 \<leftarrow> exi_read_id wii dev chn nDev nId s3; map_option snd (EXI_Unlock wii call chn s4) } else Some s3);
                 if card then
                   let s6 = snd (EXI_Detach wii chn s5);
                       ret' = (if idtime \<noteq> last_exi_idtime s6 chn then 0 else ret)
                   in Some (ret', if ret' \<noteq> 0 then upd_chn chn (\<lambda>x. x\<lparr>exi_idtime := idtime, exi_id := load_u32 (xmem s6) nId\<rparr>) s6 else s6)
                 else Some (ret, s5) })"

text \<open>
  The callbacks of this file; \<^verbatim>\<open>__unlocked_handler\<close> reads the identification again, and its unlock calls
  the next one that waits, so that \<open>k\<close> bounds the nesting.
\<close>

fun exi_call :: "nat \<Rightarrow> bool \<Rightarrow> (exi \<Rightarrow> exi) \<Rightarrow> (u32 \<Rightarrow> nat \<Rightarrow> u32 \<Rightarrow> exi \<Rightarrow> exi option) \<Rightarrow> exi_cb \<Rightarrow> nat \<Rightarrow> u32 \<Rightarrow> exi \<Rightarrow> exi option" where
  "exi_call k wii dev user XNull chn d s = None"
| "exi_call k wii dev user XLockSync chn d s = Some (exi_locksync_cb chn d s)"
| "exi_call k wii dev user XXfer chn d s = Some (exi_xfer_cb chn s)"
| "exi_call k wii dev user (XUser u) chn d s = user u chn d s"
| "exi_call 0 wii dev user XUnlocked chn d s = None"
| "exi_call (Suc k) wii dev user XUnlocked chn d s = map_option snd (EXI_GetID wii dev (exi_call k wii dev user) chn d (loc_id s) s)"

definition EXI_Probe :: "bool \<Rightarrow> (exi \<Rightarrow> exi) \<Rightarrow> (exi_cb \<Rightarrow> nat \<Rightarrow> u32 \<Rightarrow> exi \<Rightarrow> exi option) \<Rightarrow> nat \<Rightarrow> exi \<Rightarrow> (u32 \<times> exi) option" where
  "EXI_Probe wii dev call chn s =
     (case exi_probe wii chn s of (ret, s1) \<Rightarrow>
        if ret \<noteq> 0 \<and> exi_idtime (eximap s1 chn) = 0
        then map_option (\<lambda>(r, s2). (if r = 0 then 0 else ret, s2)) (EXI_GetID wii dev call chn 0 (loc_id s1) s1)
        else Some (ret, s1))"

definition EXI_ProbeEx :: "bool \<Rightarrow> (exi \<Rightarrow> exi) \<Rightarrow> (exi_cb \<Rightarrow> nat \<Rightarrow> u32 \<Rightarrow> exi \<Rightarrow> exi option) \<Rightarrow> nat \<Rightarrow> exi \<Rightarrow> (u32 \<times> exi) option" where
  "EXI_ProbeEx wii dev call chn s =
     map_option (\<lambda>(r, s1). (if r \<noteq> 0 then 1 else if last_exi_idtime s1 chn = 0 then - 1 else 0, s1)) (EXI_Probe wii dev call chn s)"

definition EXI_Attach :: "bool \<Rightarrow> (exi \<Rightarrow> exi) \<Rightarrow> (exi_cb \<Rightarrow> nat \<Rightarrow> u32 \<Rightarrow> exi \<Rightarrow> exi option) \<Rightarrow> nat \<Rightarrow> exi_cb \<Rightarrow> exi \<Rightarrow> (u32 \<times> exi) option" where
  "EXI_Attach wii dev call chn ext_cb s =
     map_option (\<lambda>(_, s1). if exi_idtime (eximap s1 chn) \<noteq> 0 then exi_attach wii chn ext_cb s1 else (0, s1)) (EXI_Probe wii dev call chn s)"

definition EXI_SelectSD :: "bool \<Rightarrow> (exi \<Rightarrow> exi) \<Rightarrow> (exi_cb \<Rightarrow> nat \<Rightarrow> u32 \<Rightarrow> exi \<Rightarrow> exi option) \<Rightarrow> nat \<Rightarrow> u32 \<Rightarrow> u32 \<Rightarrow> exi \<Rightarrow> (u32 \<times> exi) option" where
  "EXI_SelectSD wii dev call chn nDev nFrq s =
     (if has_flag EXI_FLAG_SELECT chn s then Some (0, s)
      else do {
        (ok, s1) \<leftarrow> (if chn \<noteq> 2 \<and> nDev = 0 \<and> \<not> has_flag EXI_FLAG_ATTACH chn s then EXI_Probe wii dev call chn s else Some (1, s));
        Some (if ok = 0 then (0, s1)
          else if chn \<noteq> 2 \<and> (\<not> has_flag EXI_FLAG_LOCKED chn s1 \<or> lockeddev (eximap s1 chn) \<noteq> nDev) then (0, s1)
          else let s2 = set_flag EXI_FLAG_SELECT chn s1;
                   s3 = set_csr chn ((csr chn s2 AND 0x405) OR push_bit 4 nFrq) s2
               in (1, sel_irq (irq_off wii) chn s3)) })"

definition EXI_RegisterEXICallback :: "bool \<Rightarrow> nat \<Rightarrow> exi_cb \<Rightarrow> exi \<Rightarrow> exi_cb \<times> exi" where
  "EXI_RegisterEXICallback wii chn exi_cb' s =
     (let old = CallbackEXI (eximap s chn);
          s1 = upd_chn chn (\<lambda>x. x\<lparr>CallbackEXI := exi_cb'\<rparr>) s
      in (old, exi_setinterrupts wii (if chn = 2 then 0 else chn) s1))"

definition EXI_ProbeReset :: "bool \<Rightarrow> exi \<Rightarrow> exi" where
  "EXI_ProbeReset wii s =
     (let s1 = s\<lparr>last_exi_idtime := (last_exi_idtime s)(0 := 0, 1 := 0)\<rparr>;
          s2 = upd_chn 1 (\<lambda>x. x\<lparr>exi_idtime := 0\<rparr>) (upd_chn 0 (\<lambda>x. x\<lparr>exi_idtime := 0\<rparr>) s1)
      in snd (exi_probe wii 1 (snd (exi_probe wii 0 s2))))"

section \<open>Initialisation and interrupt handlers\<close>

partial_function (option) exi_idle :: "(exi \<Rightarrow> exi) \<Rightarrow> nat \<Rightarrow> exi \<Rightarrow> exi option" where
  "exi_idle dev chn s = (if xreg s chn 3 AND 1 \<noteq> 0 then exi_idle dev chn (dev s) else Some s)"

text \<open>\<open>fn\<close> are the addresses of the three handlers.\<close>

definition exi_init :: "bool \<Rightarrow> (exi \<Rightarrow> exi) \<Rightarrow> (exi_cb \<Rightarrow> nat \<Rightarrow> u32 \<Rightarrow> exi \<Rightarrow> exi option) \<Rightarrow> u32 \<times> u32 \<times> u32 \<Rightarrow> exi \<Rightarrow> exi option" where
  "exi_init wii dev call fn s =
     do { s1 \<leftarrow> exi_idle dev 0 s; s2 \<leftarrow> exi_idle dev 1 s1; s3 \<leftarrow> exi_idle dev 2 s2;
          let s4 = irq_off wii (IM_EXI0 OR IM_EXI1 OR IM_EXI2) s3;
              s5 = exi_initmap (set_csr 0 0x2000 (set_csr 2 0 (set_csr 1 0 (set_csr 0 0 s4))));
              (exih, tch, exth) = fn;
              s6 = s5\<lparr>irqs := fold (\<lambda>(irq, f, user) q. snd (KIrqSet irq f user q))
                 [(IRQ_EXI0_EXI, exih, 0), (IRQ_EXI0_TC, tch, 0), (IRQ_EXI0_EXT, exth, 0), (IRQ_EXI1_EXI, exih, 1),
                  (IRQ_EXI1_TC, tch, 1), (IRQ_EXI1_EXT, exth, 1), (IRQ_EXI2_EXI, exih, 2), (IRQ_EXI2_TC, tch, 2)] (irqs s5)\<rparr>;
              nId = loc_id s6
          in do { (_, s7) \<leftarrow> EXI_GetID wii dev call 0 2 nId (s6\<lparr>xmem := store_u32 nId (exi_id_serport1 s6) (xmem s6)\<rparr>);
                  Some (EXI_ProbeReset wii (s7\<lparr>exi_id_serport1 := load_u32 (xmem s7) nId\<rparr>)) } }"

definition irq_dev :: "nat \<Rightarrow> exi \<Rightarrow> u32" where
  "irq_dev chn s = drop_bit 8 (csr chn s AND 0x380) AND 3"

definition exi_irq_handler :: "(exi_cb \<Rightarrow> nat \<Rightarrow> u32 \<Rightarrow> exi \<Rightarrow> exi option) \<Rightarrow> nat \<Rightarrow> exi \<Rightarrow> exi option" where
  "exi_irq_handler call chn s =
     (let d = irq_dev chn s; s1 = exi_clearirqs chn True False False s; cb = CallbackEXI (eximap s1 chn)
      in if cb = XNull then Some s1 else call cb chn d s1)"

definition tc_irq_handler :: "bool \<Rightarrow> (exi_cb \<Rightarrow> nat \<Rightarrow> u32 \<Rightarrow> exi \<Rightarrow> exi option) \<Rightarrow> nat \<Rightarrow> nat \<Rightarrow> exi \<Rightarrow> exi option" where
  "tc_irq_handler wii call nIrq chn s =
     (let d = irq_dev chn s; s1 = exi_clearirqs chn False True False (irq_off wii (IRQMASK nIrq) s);
          tccb = CallbackTC (eximap s1 chn)
      in if tccb = XNull then Some s1
         else call tccb chn d (exi_completetransfer chn (upd_chn chn (\<lambda>x. x\<lparr>CallbackTC := XNull\<rparr>) s1)))"

text \<open>The shift is by the interrupt number, not by the channel.\<close>

definition ext_irq_handler :: "bool \<Rightarrow> (exi_cb \<Rightarrow> nat \<Rightarrow> u32 \<Rightarrow> exi \<Rightarrow> exi option) \<Rightarrow> nat \<Rightarrow> nat \<Rightarrow> exi \<Rightarrow> exi option" where
  "ext_irq_handler wii call nIrq chn s =
     (let d = irq_dev chn s;
          s1 = exi_clearirqs chn False False True (irq_off wii (drop_bit (nIrq * 3) (IRQMASK IRQ_EXI0_EXI OR IRQMASK IRQ_EXI0_EXT)) s);
          s2 = clr_flag EXI_FLAG_ATTACH chn s1; extcb = CallbackEXT (eximap s2 chn)
      in if extcb = XNull then Some s2 else call extcb chn d (upd_chn chn (\<lambda>x. x\<lparr>CallbackEXT := XNull\<rparr>) s2))"

end
