(* ===== verification/Sram.thy ===== *)
theory Sram
  imports Exi
begin

text \<open>
  The battery-backed memory, the clock and the boot ROM of \<^verbatim>\<open>libogc/system.c\<close>, all three on device 1 of channel 0 of the
  expansion interface. A copy of the 64 bytes of battery-backed memory is kept in the struct \<^verbatim>\<open>sramcntrl\<close>, which is
  memory here (at \<open>cn\<close>: the copy, then \<^verbatim>\<open>offset\<close>, \<^verbatim>\<open>enabled\<close>, \<^verbatim>\<open>locked\<close> and \<^verbatim>\<open>sync\<close>), because the transfers read it
  there; \<^verbatim>\<open>offset\<close> is where the part begins that still has to be written to the device. A setting is changed
  between a lock and an unlock; when another driver holds the bus, the write is left to a callback of the bus.

  Local variables whose address is passed to a transfer have the addresses \<open>loc_cmd\<close> and \<open>loc_time\<close>. \<open>wcb\<close> is the address of
  \<open>sram_writecallback\<close>, \<open>call\<close> makes a callback of the bus.
\<close>

section \<open>The struct\<close>

record sram_env =
  cn :: ptr
  loc_cmd :: ptr
  loc_time :: ptr
  wcb :: u32

type_synonym exi_calls = "exi_cb \<Rightarrow> nat \<Rightarrow> u32 \<Rightarrow> exi \<Rightarrow> exi option"

definition load_u16 :: "bmem \<Rightarrow> ptr \<Rightarrow> u16" where
  "load_u16 m a = push_bit 8 (ucast (m a)) OR ucast (m (a + 1))"

definition store_u16 :: "ptr \<Rightarrow> u16 \<Rightarrow> bmem \<Rightarrow> bmem" where
  "store_u16 a v = store_bytes a (be_bytes 2 (ucast v))"

definition sc_offset :: "sram_env \<Rightarrow> exi \<Rightarrow> u32" where "sc_offset E s = load_u32 (xmem s) (cn E + 64)"
definition sc_enabled :: "sram_env \<Rightarrow> exi \<Rightarrow> u32" where "sc_enabled E s = load_u32 (xmem s) (cn E + 68)"
definition sc_locked :: "sram_env \<Rightarrow> exi \<Rightarrow> u32" where "sc_locked E s = load_u32 (xmem s) (cn E + 72)"
definition sc_sync :: "sram_env \<Rightarrow> exi \<Rightarrow> u32" where "sc_sync E s = load_u32 (xmem s) (cn E + 76)"

definition set_sc :: "sram_env \<Rightarrow> u32 \<Rightarrow> u32 \<Rightarrow> exi \<Rightarrow> exi" where
  "set_sc E f v s = s\<lparr>xmem := store_u32 (cn E + f) v (xmem s)\<rparr>"

abbreviation set_offset :: "sram_env \<Rightarrow> u32 \<Rightarrow> exi \<Rightarrow> exi" where "set_offset E \<equiv> set_sc E 64"
abbreviation set_enabled :: "sram_env \<Rightarrow> u32 \<Rightarrow> exi \<Rightarrow> exi" where "set_enabled E \<equiv> set_sc E 68"
abbreviation set_locked :: "sram_env \<Rightarrow> u32 \<Rightarrow> exi \<Rightarrow> exi" where "set_locked E \<equiv> set_sc E 72"
abbreviation set_sync :: "sram_env \<Rightarrow> u32 \<Rightarrow> exi \<Rightarrow> exi" where "set_sync E \<equiv> set_sc E 76"

abbreviation SRAM_VIDEO_MODE_BITS :: u8 where "SRAM_VIDEO_MODE_BITS \<equiv> 0x03"
abbreviation SRAM_SOUND_MODE_BIT :: u8 where "SRAM_SOUND_MODE_BIT \<equiv> 0x04"
abbreviation SRAM_PROGSCAN_BIT :: u8 where "SRAM_PROGSCAN_BIT \<equiv> 0x80"
abbreviation EXI_SPEED8MHZ :: u32 where "EXI_SPEED8MHZ \<equiv> 3"
abbreviation EXI_SPEED32MHZ :: u32 where "EXI_SPEED32MHZ \<equiv> 5"
abbreviation SRAM_SIZE :: u32 where "SRAM_SIZE \<equiv> 20"

text \<open>\<^verbatim>\<open>if(op==0) ret |= bit;\<close> for each of the results, and in the end \<^verbatim>\<open>if(ret) return 0; return 1;\<close>\<close>

definition all_done :: "u32 list \<Rightarrow> u32" where
  "all_done rs = (if 0 \<in> set rs then 0 else 1)"

section \<open>Transfers\<close>

text \<open>
  Lock the bus with the callback \<open>cb\<close>, select device 1, make the transfers \<open>body\<close>, deselect and unlock: the frame of the four
  transfer functions. \<open>body\<close> gives the results of its transfers; \<open>chk\<close> is whether the result of the unlock counts.
\<close>

definition on_device ::
    "bool \<Rightarrow> exi_calls \<Rightarrow> exi_cb \<Rightarrow> u32 \<Rightarrow> bool \<Rightarrow> (exi \<Rightarrow> (u32 list \<times> exi) option) \<Rightarrow> exi \<Rightarrow> (u32 \<times> exi) option" where
  "on_device wii call cb spd chk body s =
     (case EXI_Lock wii 0 1 cb s of (r, s1) \<Rightarrow>
        if r = 0 then Some (0, s1)
        else case EXI_Select wii 0 1 spd s1 of (r2, s2) \<Rightarrow>
          if r2 = 0 then map_option (\<lambda>(_, s3). (0, s3)) (EXI_Unlock wii call 0 s2)
          else do { (rs, s3) \<leftarrow> body s2;
                    let (r4, s4) = EXI_Deselect wii 0 s3;
                    (r5, s5) \<leftarrow> EXI_Unlock wii call 0 s4;
                    Some (all_done (rs @ [r4] @ (if chk then [r5] else [])), s5) })"

text \<open>A command word, sent and waited for.\<close>

definition send_cmd :: "sram_env \<Rightarrow> bool \<Rightarrow> (exi \<Rightarrow> exi) \<Rightarrow> u32 \<Rightarrow> exi \<Rightarrow> (u32 list \<times> exi) option" where
  "send_cmd E wii dev cmd s =
     (case EXI_Imm wii 0 (loc_cmd E) 4 EXI_WRITE XNull (s\<lparr>xmem := store_u32 (loc_cmd E) cmd (xmem s)\<rparr>) of (r1, s1) \<Rightarrow>
        map_option (\<lambda>(r2, s2). ([r1, r2], s2)) (EXI_Sync dev 0 s1))"

definition dma_read :: "bool \<Rightarrow> (exi \<Rightarrow> exi) \<Rightarrow> ptr \<Rightarrow> u32 \<Rightarrow> exi \<Rightarrow> (u32 list \<times> exi) option" where
  "dma_read wii dev buf len s =
     (case EXI_Dma wii 0 buf len EXI_READ XNull s of (r1, s1) \<Rightarrow>
        map_option (\<lambda>(r2, s2). ([r1, r2], s2)) (EXI_Sync dev 0 s1))"

definition read_rom :: "sram_env \<Rightarrow> bool \<Rightarrow> (exi \<Rightarrow> exi) \<Rightarrow> exi_calls \<Rightarrow> ptr \<Rightarrow> u32 \<Rightarrow> u32 \<Rightarrow> exi \<Rightarrow> (u32 \<times> exi) option" where
  "read_rom E wii dev call buf len offs s =
     on_device wii call XNull EXI_SPEED32MHZ True
       (\<lambda>s. do { (r1, s1) \<leftarrow> send_cmd E wii dev (push_bit 6 offs) s; (r2, s2) \<leftarrow> dma_read wii dev buf len s1; Some (r1 @ r2, s2) })
       (s\<lparr>xcache := xcache s @ [(EXI_READ, buf, len)]\<rparr>)"

text \<open>\<^verbatim>\<open>*gctime = time\<close> is the third component; it is not written when the bus is locked.\<close>

definition getrtc :: "sram_env \<Rightarrow> bool \<Rightarrow> (exi \<Rightarrow> exi) \<Rightarrow> exi_calls \<Rightarrow> u32 \<Rightarrow> exi \<Rightarrow> (u32 \<times> u32 \<times> exi) option" where
  "getrtc E wii dev call t0 s =
     (case EXI_Lock wii 0 1 XNull s of (r, s1) \<Rightarrow>
        if r = 0 then Some (0, t0, s1)
        else case EXI_Select wii 0 1 EXI_SPEED8MHZ s1 of (r2, s2) \<Rightarrow>
          if r2 = 0 then map_option (\<lambda>(_, s3). (0, t0, s3)) (EXI_Unlock wii call 0 s2)
          else do { (rs, s3) \<leftarrow> send_cmd E wii dev 0x20000000 (s2\<lparr>xmem := store_u32 (loc_time E) 0 (xmem s2)\<rparr>);
                    let (r4, s4) = EXI_Imm wii 0 (loc_time E) 4 EXI_READ XNull s3;
                    (r5, s5) \<leftarrow> EXI_Sync dev 0 s4;
                    let (r6, s6) = EXI_Deselect wii 0 s5;
                    (_, s7) \<leftarrow> EXI_Unlock wii call 0 s6;
                    Some (all_done (rs @ [r4, r5, r6]), load_u32 (xmem s7) (loc_time E), s7) })"

definition sram_read :: "sram_env \<Rightarrow> bool \<Rightarrow> (exi \<Rightarrow> exi) \<Rightarrow> exi_calls \<Rightarrow> ptr \<Rightarrow> exi \<Rightarrow> (u32 \<times> exi) option" where
  "sram_read E wii dev call buf s =
     on_device wii call XNull EXI_SPEED8MHZ True
       (\<lambda>s. do { (r1, s1) \<leftarrow> send_cmd E wii dev 0x20000100 s; (r2, s2) \<leftarrow> dma_read wii dev buf 64 s1; Some (r1 @ r2, s2) })
       (s\<lparr>xcache := xcache s @ [(EXI_READ, buf, 64)]\<rparr>)"

definition sram_write :: "sram_env \<Rightarrow> bool \<Rightarrow> (exi \<Rightarrow> exi) \<Rightarrow> exi_calls \<Rightarrow> ptr \<Rightarrow> u32 \<Rightarrow> u32 \<Rightarrow> exi \<Rightarrow> (u32 \<times> exi) option" where
  "sram_write E wii dev call buf loc len s =
     on_device wii call (XUser (wcb E)) EXI_SPEED8MHZ True
       (\<lambda>s. do { (r1, s1) \<leftarrow> send_cmd E wii dev (0xa0000100 + push_bit 6 loc) s;
                 (r2, s2) \<leftarrow> EXI_ImmEx wii dev 0 buf len EXI_WRITE s1; Some (r1 @ [r2], s2) }) s"

text \<open>\<^verbatim>\<open>sync = __sram_write(srambuf+offset, offset, 64-offset); if(sync) offset = 64;\<close>\<close>

definition sram_flush :: "sram_env \<Rightarrow> bool \<Rightarrow> (exi \<Rightarrow> exi) \<Rightarrow> exi_calls \<Rightarrow> exi \<Rightarrow> exi option" where
  "sram_flush E wii dev call s =
     (let offs = sc_offset E s in
      map_option (\<lambda>(r, s1). let s2 = set_sync E r s1 in if r \<noteq> 0 then set_offset E 64 s2 else s2)
        (sram_write E wii dev call (cn E + offs) offs (64 - offs) s))"

definition sram_writecallback :: "sram_env \<Rightarrow> bool \<Rightarrow> (exi \<Rightarrow> exi) \<Rightarrow> exi_calls \<Rightarrow> nat \<Rightarrow> u32 \<Rightarrow> exi \<Rightarrow> (u32 \<times> exi) option" where
  "sram_writecallback E wii dev call chn d s = map_option (Pair 1) (sram_flush E wii dev call s)"

text \<open>
  The callbacks of the bus with that of this file; \<open>k\<close> bounds how deep callbacks and unlocks nest. \<open>user\<close> are the others.
\<close>

fun sram_call :: "nat \<Rightarrow> sram_env \<Rightarrow> bool \<Rightarrow> (exi \<Rightarrow> exi) \<Rightarrow> (u32 \<Rightarrow> nat \<Rightarrow> u32 \<Rightarrow> exi \<Rightarrow> exi option) \<Rightarrow> exi_calls" where
  "sram_call 0 E wii dev user cb chn d s = None"
| "sram_call (Suc k) E wii dev user cb chn d s =
     exi_call k wii dev (\<lambda>u chn d s. if u = wcb E then map_option snd (sram_writecallback E wii dev (sram_call k E wii dev user) chn d s)
       else user u chn d s) cb chn d s"

section \<open>Locking\<close>

definition buildchecksum :: "ptr \<Rightarrow> bmem \<Rightarrow> u16 \<times> u16" where
  "buildchecksum buf m =
     fold (\<lambda>i (c1, c2). let w = load_u16 m (buf + 2 * (6 + of_nat i)) in (c1 + w, c2 + (w XOR - 1))) [0 ..< 4] (0, 0)"

definition locksram :: "sram_env \<Rightarrow> u32 \<Rightarrow> exi \<Rightarrow> ptr \<times> exi" where
  "locksram E loc s =
     (let (level, k) = PPCIrqLockByMsr (irq_ks (irqs s)) in
      if sc_locked E s = 0
      then (cn E + loc, set_locked E 1 (set_enabled E level (s\<lparr>irqs := (irqs s)\<lparr>irq_ks := k\<rparr>\<rparr>)))
      else (NULL, s\<lparr>irqs := (irqs s)\<lparr>irq_ks := PPCIrqUnlockByMsr level k\<rparr>\<rparr>))"

text \<open>The checks and the checksums of the first 20 bytes, which are made only when those are unlocked.\<close>

definition sram_finish :: "sram_env \<Rightarrow> exi \<Rightarrow> exi" where
  "sram_finish E s =
     (let f = xmem s (cn E + 19);
          m = (if f AND SRAM_VIDEO_MODE_BITS > 2 then (xmem s)(cn E + 19 := f AND NOT SRAM_VIDEO_MODE_BITS) else xmem s);
          (c1, c2) = buildchecksum (cn E) m
      in s\<lparr>xmem := store_u16 (cn E + 2) c2 (store_u16 (cn E) c1 m)\<rparr>)"

definition unlocksram :: "sram_env \<Rightarrow> bool \<Rightarrow> (exi \<Rightarrow> exi) \<Rightarrow> exi_calls \<Rightarrow> bool \<Rightarrow> u32 \<Rightarrow> exi \<Rightarrow> (u32 \<times> exi) option" where
  "unlocksram E wii dev call write loc s = do {
     s1 \<leftarrow> (if write then
              let s2 = (if loc = 0 then sram_finish E s else s);
                  s3 = (if loc < sc_offset E s2 then set_offset E loc s2 else s2)
              in sram_flush E wii dev call s3
            else Some s);
     let s4 = set_locked E 0 s1;
     let s5 = s4\<lparr>irqs := (irqs s4)\<lparr>irq_ks := PPCIrqUnlockByMsr (sc_enabled E s4) (irq_ks (irqs s4))\<rparr>\<rparr>;
     Some (sc_sync E s5, s5) }"

definition SYS_LockSram :: "sram_env \<Rightarrow> exi \<Rightarrow> ptr \<times> exi" where
  "SYS_LockSram E = locksram E 0"

definition SYS_LockSramEx :: "sram_env \<Rightarrow> exi \<Rightarrow> ptr \<times> exi" where
  "SYS_LockSramEx E = locksram E SRAM_SIZE"

definition SYS_UnlockSram :: "sram_env \<Rightarrow> bool \<Rightarrow> (exi \<Rightarrow> exi) \<Rightarrow> exi_calls \<Rightarrow> bool \<Rightarrow> exi \<Rightarrow> (u32 \<times> exi) option" where
  "SYS_UnlockSram E wii dev call write = unlocksram E wii dev call write 0"

definition SYS_UnlockSramEx :: "sram_env \<Rightarrow> bool \<Rightarrow> (exi \<Rightarrow> exi) \<Rightarrow> exi_calls \<Rightarrow> bool \<Rightarrow> exi \<Rightarrow> (u32 \<times> exi) option" where
  "SYS_UnlockSramEx E wii dev call write = unlocksram E wii dev call write SRAM_SIZE"

definition SYS_SyncSram :: "sram_env \<Rightarrow> exi \<Rightarrow> u32" where
  "SYS_SyncSram E s = sc_sync E s"

section \<open>Settings\<close>

text \<open>
  The frames of the getters and of the setters: \<open>rd\<close> reads the field, \<open>wr\<close> writes it, \<open>differs\<close> is the setter's test. A lock that
  is refused returns a null pointer, which is dereferenced.
\<close>

definition sram_get :: "sram_env \<Rightarrow> bool \<Rightarrow> (exi \<Rightarrow> exi) \<Rightarrow> exi_calls \<Rightarrow> u32 \<Rightarrow> (ptr \<Rightarrow> bmem \<Rightarrow> 'a) \<Rightarrow> exi \<Rightarrow> ('a \<times> exi) option" where
  "sram_get E wii dev call loc rd s =
     (case locksram E loc s of (p, s1) \<Rightarrow>
        if p = NULL then None
        else map_option (\<lambda>(_, s2). (rd p (xmem s1), s2)) (unlocksram E wii dev call False loc s1))"

definition sram_set ::
    "sram_env \<Rightarrow> bool \<Rightarrow> (exi \<Rightarrow> exi) \<Rightarrow> exi_calls \<Rightarrow> u32 \<Rightarrow> (ptr \<Rightarrow> bmem \<Rightarrow> bool) \<Rightarrow> (ptr \<Rightarrow> bmem \<Rightarrow> bmem) \<Rightarrow> exi \<Rightarrow> exi option" where
  "sram_set E wii dev call loc differs wr s =
     (case locksram E loc s of (p, s1) \<Rightarrow>
        if p = NULL then None
        else let d = differs p (xmem s1) in
          map_option snd (unlocksram E wii dev call d loc (if d then s1\<lparr>xmem := wr p (xmem s1)\<rparr> else s1)))"

definition SYS_GetCounterBias :: "sram_env \<Rightarrow> bool \<Rightarrow> (exi \<Rightarrow> exi) \<Rightarrow> exi_calls \<Rightarrow> exi \<Rightarrow> (u32 \<times> exi) option" where
  "SYS_GetCounterBias E wii dev call = sram_get E wii dev call 0 (\<lambda>p m. load_u32 m (p + 12))"

definition SYS_SetCounterBias :: "sram_env \<Rightarrow> bool \<Rightarrow> (exi \<Rightarrow> exi) \<Rightarrow> exi_calls \<Rightarrow> u32 \<Rightarrow> exi \<Rightarrow> exi option" where
  "SYS_SetCounterBias E wii dev call bias =
     sram_set E wii dev call 0 (\<lambda>p m. load_u32 m (p + 12) \<noteq> bias) (\<lambda>p. store_u32 (p + 12) bias)"

definition SYS_GetDisplayOffsetH :: "sram_env \<Rightarrow> bool \<Rightarrow> (exi \<Rightarrow> exi) \<Rightarrow> exi_calls \<Rightarrow> exi \<Rightarrow> (u8 \<times> exi) option" where
  "SYS_GetDisplayOffsetH E wii dev call = sram_get E wii dev call 0 (\<lambda>p m. m (p + 16))"

definition SYS_SetDisplayOffsetH :: "sram_env \<Rightarrow> bool \<Rightarrow> (exi \<Rightarrow> exi) \<Rightarrow> exi_calls \<Rightarrow> u8 \<Rightarrow> exi \<Rightarrow> exi option" where
  "SYS_SetDisplayOffsetH E wii dev call v = sram_set E wii dev call 0 (\<lambda>p m. m (p + 16) \<noteq> v) (\<lambda>p m. m(p + 16 := v))"

definition SYS_GetEuRGB60 :: "sram_env \<Rightarrow> bool \<Rightarrow> (exi \<Rightarrow> exi) \<Rightarrow> exi_calls \<Rightarrow> exi \<Rightarrow> (u8 \<times> exi) option" where
  "SYS_GetEuRGB60 E wii dev call = sram_get E wii dev call 0 (\<lambda>p m. drop_bit 6 (m (p + 17)) AND 1)"

definition SYS_SetEuRGB60 :: "sram_env \<Rightarrow> bool \<Rightarrow> (exi \<Rightarrow> exi) \<Rightarrow> exi_calls \<Rightarrow> u8 \<Rightarrow> exi \<Rightarrow> exi option" where
  "SYS_SetEuRGB60 E wii dev call enable =
     sram_set E wii dev call 0 (\<lambda>p m. drop_bit 6 (m (p + 17)) AND 1 \<noteq> enable)
       (\<lambda>p m. m(p + 17 := (m (p + 17) AND NOT 0x40) OR push_bit 6 (enable AND 1)))"

definition SYS_GetLanguage :: "sram_env \<Rightarrow> bool \<Rightarrow> (exi \<Rightarrow> exi) \<Rightarrow> exi_calls \<Rightarrow> exi \<Rightarrow> (u8 \<times> exi) option" where
  "SYS_GetLanguage E wii dev call = sram_get E wii dev call 0 (\<lambda>p m. m (p + 18))"

definition SYS_SetLanguage :: "sram_env \<Rightarrow> bool \<Rightarrow> (exi \<Rightarrow> exi) \<Rightarrow> exi_calls \<Rightarrow> u8 \<Rightarrow> exi \<Rightarrow> exi option" where
  "SYS_SetLanguage E wii dev call v = sram_set E wii dev call 0 (\<lambda>p m. m (p + 18) \<noteq> v) (\<lambda>p m. m(p + 18 := v))"

definition SYS_GetProgressiveScan :: "sram_env \<Rightarrow> bool \<Rightarrow> (exi \<Rightarrow> exi) \<Rightarrow> exi_calls \<Rightarrow> exi \<Rightarrow> (u8 \<times> exi) option" where
  "SYS_GetProgressiveScan E wii dev call = sram_get E wii dev call 0 (\<lambda>p m. if m (p + 19) AND SRAM_PROGSCAN_BIT \<noteq> 0 then 1 else 0)"

definition SYS_SetProgressiveScan :: "sram_env \<Rightarrow> bool \<Rightarrow> (exi \<Rightarrow> exi) \<Rightarrow> exi_calls \<Rightarrow> u8 \<Rightarrow> exi \<Rightarrow> exi option" where
  "SYS_SetProgressiveScan E wii dev call enable =
     sram_set E wii dev call 0 (\<lambda>p m. drop_bit 7 (m (p + 19)) AND 1 \<noteq> enable)
       (\<lambda>p m. m(p + 19 := (m (p + 19) AND NOT SRAM_PROGSCAN_BIT) OR push_bit 7 (enable AND 1)))"

definition SYS_GetSoundMode :: "sram_env \<Rightarrow> bool \<Rightarrow> (exi \<Rightarrow> exi) \<Rightarrow> exi_calls \<Rightarrow> exi \<Rightarrow> (u8 \<times> exi) option" where
  "SYS_GetSoundMode E wii dev call = sram_get E wii dev call 0 (\<lambda>p m. if m (p + 19) AND SRAM_SOUND_MODE_BIT \<noteq> 0 then 1 else 0)"

definition SYS_SetSoundMode :: "sram_env \<Rightarrow> bool \<Rightarrow> (exi \<Rightarrow> exi) \<Rightarrow> exi_calls \<Rightarrow> u8 \<Rightarrow> exi \<Rightarrow> exi option" where
  "SYS_SetSoundMode E wii dev call mode =
     sram_set E wii dev call 0 (\<lambda>p m. drop_bit 2 (m (p + 19)) AND 1 \<noteq> mode)
       (\<lambda>p m. m(p + 19 := (m (p + 19) AND NOT SRAM_SOUND_MODE_BIT) OR push_bit 2 (mode AND 1)))"

definition SYS_GetVideoMode :: "sram_env \<Rightarrow> bool \<Rightarrow> (exi \<Rightarrow> exi) \<Rightarrow> exi_calls \<Rightarrow> exi \<Rightarrow> (u8 \<times> exi) option" where
  "SYS_GetVideoMode E wii dev call = sram_get E wii dev call 0 (\<lambda>p m. m (p + 19) AND SRAM_VIDEO_MODE_BITS)"

definition SYS_SetVideoMode :: "sram_env \<Rightarrow> bool \<Rightarrow> (exi \<Rightarrow> exi) \<Rightarrow> exi_calls \<Rightarrow> u8 \<Rightarrow> exi \<Rightarrow> exi option" where
  "SYS_SetVideoMode E wii dev call mode =
     sram_set E wii dev call 0 (\<lambda>p m. m (p + 19) AND SRAM_VIDEO_MODE_BITS \<noteq> mode)
       (\<lambda>p m. m(p + 19 := (m (p + 19) AND NOT SRAM_VIDEO_MODE_BITS) OR (mode AND SRAM_VIDEO_MODE_BITS)))"

definition SYS_GetWirelessID :: "sram_env \<Rightarrow> bool \<Rightarrow> (exi \<Rightarrow> exi) \<Rightarrow> exi_calls \<Rightarrow> u32 \<Rightarrow> exi \<Rightarrow> (u16 \<times> exi) option" where
  "SYS_GetWirelessID E wii dev call chan = sram_get E wii dev call SRAM_SIZE (\<lambda>p m. load_u16 m (p + 28 + 2 * chan))"

definition SYS_SetWirelessID :: "sram_env \<Rightarrow> bool \<Rightarrow> (exi \<Rightarrow> exi) \<Rightarrow> exi_calls \<Rightarrow> u32 \<Rightarrow> u16 \<Rightarrow> exi \<Rightarrow> exi option" where
  "SYS_SetWirelessID E wii dev call chan v =
     sram_set E wii dev call SRAM_SIZE (\<lambda>p m. load_u16 m (p + 28 + 2 * chan) \<noteq> v) (\<lambda>p. store_u16 (p + 28 + 2 * chan) v)"

definition SYS_GetGBSMode :: "sram_env \<Rightarrow> bool \<Rightarrow> (exi \<Rightarrow> exi) \<Rightarrow> exi_calls \<Rightarrow> exi \<Rightarrow> (u16 \<times> exi) option" where
  "SYS_GetGBSMode E wii dev call = sram_get E wii dev call SRAM_SIZE (\<lambda>p m. load_u16 m (p + 40))"

definition gbs_mode :: "u16 \<Rightarrow> u16" where
  "gbs_mode mode =
     (if drop_bit 10 mode AND 0x1f \<ge> 20 \<or> drop_bit 6 mode AND 3 = 3 \<or> mode AND 0x3f \<ge> 60 then 0 else mode)"

definition SYS_SetGBSMode :: "sram_env \<Rightarrow> bool \<Rightarrow> (exi \<Rightarrow> exi) \<Rightarrow> exi_calls \<Rightarrow> u16 \<Rightarrow> exi \<Rightarrow> exi option" where
  "SYS_SetGBSMode E wii dev call mode =
     sram_set E wii dev call SRAM_SIZE (\<lambda>p m. load_u16 m (p + 40) \<noteq> gbs_mode mode) (\<lambda>p. store_u16 (p + 40) (gbs_mode mode))"

section \<open>Initialisation, ROM and clock\<close>

definition sram_init :: "sram_env \<Rightarrow> bool \<Rightarrow> (exi \<Rightarrow> exi) \<Rightarrow> exi_calls \<Rightarrow> exi \<Rightarrow> exi option" where
  "sram_init E wii dev call s = do {
     (r, s1) \<leftarrow> sram_read E wii dev call (cn E) (set_locked E 0 (set_enabled E 0 s));
     let s2 = set_offset E 64 (set_sync E r s1);
     (mode, s3) \<leftarrow> SYS_GetGBSMode E wii dev call s2;
     SYS_SetGBSMode E wii dev call mode s3 }"

text \<open>\<^verbatim>\<open>while(__read_rom(buf,cpy_cnt,offset)==0);\<close>\<close>

partial_function (option) rom_retry :: "sram_env \<Rightarrow> bool \<Rightarrow> (exi \<Rightarrow> exi) \<Rightarrow> exi_calls \<Rightarrow> ptr \<Rightarrow> u32 \<Rightarrow> u32 \<Rightarrow> exi \<Rightarrow> exi option" where
  "rom_retry E wii dev call buf len offs s =
     do { (r, s1) \<leftarrow> read_rom E wii dev call buf len offs s; if r = 0 then rom_retry E wii dev call buf len offs s1 else Some s1 }"

partial_function (option) SYS_ReadROM :: "sram_env \<Rightarrow> bool \<Rightarrow> (exi \<Rightarrow> exi) \<Rightarrow> exi_calls \<Rightarrow> ptr \<Rightarrow> u32 \<Rightarrow> u32 \<Rightarrow> exi \<Rightarrow> exi option" where
  "SYS_ReadROM E wii dev call buf len offs s =
     (if len > 0 then
        let c0 = 1024 - offs mod 1024; c = (if len > c0 then c0 else len) in
        do { s1 \<leftarrow> rom_retry E wii dev call buf c offs s; SYS_ReadROM E wii dev call (buf + c) (len - c) (offs + c) s1 }
      else Some s)"

text \<open>At most \<open>n\<close> tries; the second component is \<^verbatim>\<open>*gctime\<close>, the locals \<open>t1\<close> and \<open>t2\<close> have undefined values at first.\<close>

fun rtc_loop :: "nat \<Rightarrow> sram_env \<Rightarrow> bool \<Rightarrow> (exi \<Rightarrow> exi) \<Rightarrow> exi_calls \<Rightarrow> u32 \<Rightarrow> u32 \<Rightarrow> u32 \<Rightarrow> exi \<Rightarrow> (u32 \<times> u32 \<times> exi) option" where
  "rtc_loop 0 E wii dev call gctime t1 t2 s = Some (0, gctime, s)"
| "rtc_loop (Suc n) E wii dev call gctime t1 t2 s = do {
     (r1, t1', s1) \<leftarrow> getrtc E wii dev call t1 s;
     (r2, t2', s2) \<leftarrow> getrtc E wii dev call t2 s1;
     if r1 = 0 \<or> r2 = 0 then Some (0, gctime, s2)
     else if t1' = t2' then Some (1, t1', s2)
     else rtc_loop n E wii dev call gctime t1' t2' s2 }"

definition SYS_GetRTC :: "sram_env \<Rightarrow> bool \<Rightarrow> (exi \<Rightarrow> exi) \<Rightarrow> exi_calls \<Rightarrow> u32 \<Rightarrow> u32 \<Rightarrow> u32 \<Rightarrow> exi \<Rightarrow> (u32 \<times> u32 \<times> exi) option" where
  "SYS_GetRTC E wii dev call gctime u1 u2 s = rtc_loop 16 E wii dev call gctime u1 u2 s"

end
