(* ===== verification/Font.thy ===== *)
theory Font
  imports Sram "HOL-Library.Signed_Division"
begin

text \<open>
  The fonts of \<^verbatim>\<open>libogc/system.c\<close>: a compressed font is read from the ROM, unpacked, and its image is
  expanded from two bits per pixel to four; characters are then looked up in the image. A packed file has a header
  (identifier, unpacked size, offsets of the links and of the chunks), a stream of mask bits from offset 16 on, one per item, and
  the streams of links and chunks.
\<close>

section \<open>Unpacking\<close>

record szp =
  z_mem :: bmem
  z_roff :: u32
  z_loff :: u32
  z_coff :: u32
  z_cmask :: u32
  z_cnt :: u32
  z_bcnt :: u32

text \<open>\<^verbatim>\<open>for(i=0;i<k;i++) dest8[cnt++] = tmp[i];\<close>\<close>

definition szp_copy :: "ptr \<Rightarrow> ptr \<Rightarrow> nat \<Rightarrow> u32 \<Rightarrow> bmem \<Rightarrow> u32 \<times> bmem" where
  "szp_copy dest tmp k cnt m = fold (\<lambda>i (cnt, m). (cnt + 1, m(dest + cnt := m (tmp + of_nat i)))) [0 ..< k] (cnt, m)"

text \<open>The body of the loop: the next mask word when the last one is used up, then one item.\<close>

definition szp_mask :: "ptr \<Rightarrow> szp \<Rightarrow> szp" where
  "szp_mask src z =
     (if z_bcnt z = 0 then z\<lparr>z_cmask := load_u32 (z_mem z) (src + z_roff z), z_roff := z_roff z + 4, z_bcnt := 32\<rparr> else z)"

definition szp_item :: "ptr \<Rightarrow> ptr \<Rightarrow> szp \<Rightarrow> szp" where
  "szp_item src dest z =
     (let m = z_mem z in
      if z_cmask z AND 0x80000000 \<noteq> 0
      then z\<lparr>z_mem := m(dest + z_cnt z := m (src + z_coff z)), z_cnt := z_cnt z + 1, z_coff := z_coff z + 1\<rparr>
      else let link = ucast (load_u16 m (src + z_loff z)) :: u32;
               tmp = dest + (z_cnt z - (link AND 0x0fff) - 1);
               k0 = drop_bit 12 link;
               (k, coff) = (if k0 = 0 then (ucast (m (src + z_coff z)) + 18, z_coff z + 1) else (k0 + 2, z_coff z));
               (cnt, m') = szp_copy dest tmp (unat k) (z_cnt z) m
           in z\<lparr>z_mem := m', z_cnt := cnt, z_loff := z_loff z + 2, z_coff := coff\<rparr>)"

definition szp_step :: "ptr \<Rightarrow> ptr \<Rightarrow> szp \<Rightarrow> szp" where
  "szp_step src dest z =
     (let z' = szp_item src dest (szp_mask src z) in z'\<lparr>z_cmask := push_bit 1 (z_cmask z'), z_bcnt := z_bcnt z' - 1\<rparr>)"

partial_function (option) szp_loop :: "ptr \<Rightarrow> ptr \<Rightarrow> u32 \<Rightarrow> szp \<Rightarrow> szp option" where
  "szp_loop src dest size' z = (let z' = szp_step src dest z in if z_cnt z' < size' then szp_loop src dest size' z' else Some z')"

declare szp_loop.simps [code]

definition decode_szp :: "ptr \<Rightarrow> ptr \<Rightarrow> bmem \<Rightarrow> bmem option" where
  "decode_szp src dest m =
     map_option z_mem (szp_loop src dest (load_u32 m (src + 4))
       \<lparr>z_mem = m, z_roff = 16, z_loff = load_u32 m (src + 8), z_coff = load_u32 m (src + 12), z_cmask = 0, z_cnt = 0, z_bcnt = 0\<rparr>)"

section \<open>The font\<close>

text \<open>The statics; the header is read where it lies in memory.\<close>

record font =
  sys_fontenc :: u16
  sys_fontcharsinsheet :: u32
  sys_fontwidthtab :: ptr
  sys_fontimage :: ptr
  sys_fontdata :: ptr

definition first_char :: "bmem \<Rightarrow> ptr \<Rightarrow> u16" where "first_char m f = load_u16 m (f + 2)"
definition last_char :: "bmem \<Rightarrow> ptr \<Rightarrow> u16" where "last_char m f = load_u16 m (f + 4)"
definition inval_char :: "bmem \<Rightarrow> ptr \<Rightarrow> u16" where "inval_char m f = load_u16 m (f + 6)"
definition cell_width :: "bmem \<Rightarrow> ptr \<Rightarrow> u32" where "cell_width m f = ucast (load_u16 m (f + 16))"
definition cell_height :: "bmem \<Rightarrow> ptr \<Rightarrow> u32" where "cell_height m f = ucast (load_u16 m (f + 18))"
definition sheet_size :: "bmem \<Rightarrow> ptr \<Rightarrow> u32" where "sheet_size m f = load_u32 m (f + 20)"
definition sheet_format :: "bmem \<Rightarrow> ptr \<Rightarrow> u16" where "sheet_format m f = load_u16 m (f + 24)"
definition sheet_column :: "bmem \<Rightarrow> ptr \<Rightarrow> u32" where "sheet_column m f = ucast (load_u16 m (f + 26))"
definition sheet_row :: "bmem \<Rightarrow> ptr \<Rightarrow> u32" where "sheet_row m f = ucast (load_u16 m (f + 28))"
definition sheet_width :: "bmem \<Rightarrow> ptr \<Rightarrow> u32" where "sheet_width m f = ucast (load_u16 m (f + 30))"
definition width_table :: "bmem \<Rightarrow> ptr \<Rightarrow> u32" where "width_table m f = ucast (load_u16 m (f + 34))"
definition sheet_image :: "bmem \<Rightarrow> ptr \<Rightarrow> u32" where "sheet_image m f = load_u32 m (f + 36)"
definition sheet_fullsize :: "bmem \<Rightarrow> ptr \<Rightarrow> u32" where "sheet_fullsize m f = load_u32 m (f + 40)"

definition get_fontsize :: "bmem \<Rightarrow> ptr \<Rightarrow> u32" where
  "get_fontsize m p = (if m p = 0x59 \<and> m (p + 1) = 0x61 \<and> m (p + 2) = 0x79 then load_u32 m (p + 4) else 0)"

text \<open>\<open>tv_mode\<close> and \<open>dtv\<close> are the mode of the video driver and register 55 of the video interface. Where the code
  locks interrupts only to read them, nothing is recorded.\<close>

definition VIDEO_GetCurrentTvMode :: "u32 \<Rightarrow> u32" where
  "VIDEO_GetCurrentTvMode mode = (if mode = 3 then 0 else if mode = 5 then 5 else if mode = 2 then 2 else if mode = 0 then 0 else 1)"

definition SYS_GetFontEncoding :: "u32 \<Rightarrow> u16 \<Rightarrow> font \<Rightarrow> u32 \<times> font" where
  "SYS_GetFontEncoding tv_mode dtv f =
     (if sys_fontenc f \<le> 1 then (ucast (sys_fontenc f), f)
      else let ret = (if VIDEO_GetCurrentTvMode tv_mode = 0 \<and> dtv AND 2 \<noteq> 0 then 1 else 0)
           in (ret, f\<lparr>sys_fontenc := ucast ret\<rparr>))"

definition read_font ::
    "sram_env \<Rightarrow> bool \<Rightarrow> (exi \<Rightarrow> exi) \<Rightarrow> exi_calls \<Rightarrow> u32 \<Rightarrow> u16 \<Rightarrow> ptr \<Rightarrow> font \<times> exi \<Rightarrow> (u32 \<times> font \<times> exi) option" where
  "read_font E wii dev call tv_mode dtv buffer fs =
     (case SYS_GetFontEncoding tv_mode dtv (fst fs) of (enc, f) \<Rightarrow>
        map_option (\<lambda>s. (get_fontsize (xmem s) buffer, f, s))
          (if enc = 1 then SYS_ReadROM E wii dev call buffer 315392 1769216 (snd fs) else SYS_ReadROM E wii dev call buffer 12288 2084608 (snd fs)))"

text \<open>Each byte of the packed image has four pixels, each an index into the four bytes at offset 44 of the header.\<close>

definition expand_byte :: "bmem \<Rightarrow> ptr \<Rightarrow> u8 \<Rightarrow> u8 \<times> u8" where
  "expand_byte m data b =
     (let c = (\<lambda>k. m (data + ucast (drop_bit k b AND 3))) in
      ((c 6 AND 0xf0) OR (c 4 AND 0x0f), (c 2 AND 0xf0) OR (c 0 AND 0x0f)))"

text \<open>The loop counts down from \<open>n - 1\<close>. Between the two stores of a turn the source byte is read again.\<close>

fun expand_loop :: "nat \<Rightarrow> ptr \<Rightarrow> ptr \<Rightarrow> ptr \<Rightarrow> bmem \<Rightarrow> bmem" where
  "expand_loop 0 data src dest m = m"
| "expand_loop (Suc cnt) data src dest m =
     (let m1 = m(dest + of_nat (2 * cnt) := fst (expand_byte m data (m (src + of_nat cnt))));
          m2 = m1(dest + of_nat (2 * cnt + 1) := snd (expand_byte m1 data (m1 (src + of_nat cnt))))
      in expand_loop cnt data src dest m2)"

text \<open>The counter is signed and starts at half the size of the image less one: an image of 0 or 1 bytes is left alone.
  The cache operation at the end is with the caller, \<open>SYS_InitFont\<close>.\<close>

definition expand_font :: "ptr \<Rightarrow> ptr \<Rightarrow> font \<Rightarrow> bmem \<Rightarrow> bmem" where
  "expand_font src dest f m =
     (if sheet_format m (sys_fontdata f) = 0
      then expand_loop (unat (sheet_fullsize m (sys_fontdata f) div 2)) (sys_fontdata f + 44) src dest m else m)"

definition SYS_LoadFont ::
    "sram_env \<Rightarrow> bool \<Rightarrow> (exi \<Rightarrow> exi) \<Rightarrow> exi_calls \<Rightarrow> u32 \<Rightarrow> u16 \<Rightarrow> ptr \<Rightarrow> ptr \<Rightarrow> font \<times> exi \<Rightarrow> (u32 \<times> font \<times> exi) option" where
  "SYS_LoadFont E wii dev call tv_mode dtv src dest fs = do {
     (n, f, s) \<leftarrow> read_font E wii dev call tv_mode dtv src fs;
     if n = 0 then Some (0, f, s)
     else do { m \<leftarrow> decode_szp src dest (xmem s);
               Some (1, f\<lparr>sys_fontdata := dest, sys_fontwidthtab := dest + width_table m dest,
                          sys_fontcharsinsheet := sheet_column m dest * sheet_row m dest\<rparr>, s\<lparr>xmem := m\<rparr>) } }"

definition SYS_InitFont ::
    "sram_env \<Rightarrow> bool \<Rightarrow> (exi \<Rightarrow> exi) \<Rightarrow> exi_calls \<Rightarrow> u32 \<Rightarrow> u16 \<Rightarrow> ptr \<Rightarrow> font \<times> exi \<Rightarrow> (u32 \<times> font \<times> exi) option" where
  "SYS_InitFont E wii dev call tv_mode dtv font_data fs =
     (if font_data = NULL then Some (0, fs)
      else case SYS_GetFontEncoding tv_mode dtv (fst fs) of (enc, f) \<Rightarrow>
        let (n, packed) = (if enc = 1 then (3840 + 1179648, font_data + 868096) else (288 + 131072, font_data + 119072));
            s = (snd fs)\<lparr>xmem := store_bytes font_data (replicate n 0) (xmem (snd fs))\<rparr>
        in do { (r, f', s') \<leftarrow> SYS_LoadFont E wii dev call tv_mode dtv packed font_data (f, s);
                if r = 1
                then let m = xmem s'; src = font_data + sheet_image m font_data; img = (src + 31) AND NOT 31;
                         f1 = f'\<lparr>sys_fontimage := img\<rparr>; m' = expand_font src img f1 m
                     in Some (1, f1, s'\<lparr>xmem := m', xcache := xcache s' @ [(EXI_WRITE, img, sheet_fullsize m' font_data)]\<rparr>)
                else Some (0, f', s') })"

section \<open>Characters\<close>

text \<open>The index of a character in the image. The character is signed, the header's fields are not.\<close>

definition font_index :: "bmem \<Rightarrow> ptr \<Rightarrow> u32 \<Rightarrow> u32" where
  "font_index m fd c =
     (if sint c < uint (first_char m fd) \<or> sint c > uint (last_char m fd) then ucast (inval_char m fd) else c - ucast (first_char m fd))"

text \<open>
  The results are \<^verbatim>\<open>*image\<close>, \<^verbatim>\<open>*xpos\<close>, \<^verbatim>\<open>*ypos\<close> and \<^verbatim>\<open>*width\<close>, which stays as it is without a font. \<open>None\<close> is a division by zero.
\<close>

definition SYS_GetFontTexture :: "u32 \<Rightarrow> u32 \<Rightarrow> font \<Rightarrow> bmem \<Rightarrow> (ptr \<times> u32 \<times> u32 \<times> u32) option" where
  "SYS_GetFontTexture c width0 f m =
     (if sys_fontwidthtab f = NULL \<or> sys_fontimage f = NULL then Some (NULL, 0, 0, width0)
      else let fd = sys_fontdata f; c' = font_index m fd c in
        if sys_fontcharsinsheet f = 0 \<or> sheet_column m fd = 0 then None
        else let sheets = c' div sys_fontcharsinsheet f; rem = c' mod sys_fontcharsinsheet f
             in Some (sys_fontimage f + sheet_size m fd * sheets, rem mod sheet_column m fd * cell_width m fd,
                      rem div sheet_column m fd * cell_height m fd, ucast (m (sys_fontwidthtab f + c'))))"

text \<open>\<^verbatim>\<open>(stride<<1)/8\<close> is a signed division.\<close>

definition texel_row :: "u32 \<Rightarrow> u32" where
  "texel_row stride = push_bit 5 (word_of_int (sint (push_bit 1 stride) sdiv 8))"

definition texel_src :: "bmem \<Rightarrow> ptr \<Rightarrow> ptr \<Rightarrow> u32 \<Rightarrow> u32 \<Rightarrow> u32 \<Rightarrow> u32 \<Rightarrow> ptr" where
  "texel_src m fd img_start xoff yoff xpos ypos =
     img_start + push_bit 5 (sheet_width m fd div 8) * ((ypos + yoff) div 8) + push_bit 5 ((xpos + xoff) div 8)
       + push_bit 2 ((ypos + yoff) mod 8) + (xpos + xoff) mod 8 div 2"

definition texel_dst :: "ptr \<Rightarrow> u32 \<Rightarrow> u32 \<Rightarrow> u32 \<Rightarrow> u32 \<Rightarrow> ptr" where
  "texel_dst img pos stride xpos ypos =
     img + ypos div 8 * texel_row stride + push_bit 5 ((xpos + pos) div 8) + (xpos + pos) mod 8 div 2 + push_bit 2 (ypos mod 8)"

text \<open>The loops read the size of a cell from memory in each turn.\<close>

partial_function (option) texel_line :: "ptr \<Rightarrow> ptr \<Rightarrow> u32 \<Rightarrow> u32 \<Rightarrow> ptr \<Rightarrow> u32 \<Rightarrow> u32 \<Rightarrow> u32 \<Rightarrow> u32 \<Rightarrow> bmem \<Rightarrow> bmem option" where
  "texel_line fd img_start xoff yoff img pos stride ypos xpos m =
     (if xpos < cell_width m fd
      then texel_line fd img_start xoff yoff img pos stride ypos (xpos + 2)
             (m(texel_dst img pos stride xpos ypos := m (texel_src m fd img_start xoff yoff xpos ypos)))
      else Some m)"

partial_function (option) texel_lines :: "ptr \<Rightarrow> ptr \<Rightarrow> u32 \<Rightarrow> u32 \<Rightarrow> ptr \<Rightarrow> u32 \<Rightarrow> u32 \<Rightarrow> u32 \<Rightarrow> bmem \<Rightarrow> bmem option" where
  "texel_lines fd img_start xoff yoff img pos stride ypos m =
     (if ypos < cell_height m fd
      then do { m1 \<leftarrow> texel_line fd img_start xoff yoff img pos stride ypos 0 m;
                texel_lines fd img_start xoff yoff img pos stride (ypos + 1) m1 }
      else Some m)"

definition SYS_GetFontTexel :: "u32 \<Rightarrow> ptr \<Rightarrow> u32 \<Rightarrow> u32 \<Rightarrow> u32 \<Rightarrow> font \<Rightarrow> bmem \<Rightarrow> (u32 \<times> bmem) option" where
  "SYS_GetFontTexel c img pos stride width0 f m =
     (if sys_fontwidthtab f = NULL \<or> sys_fontimage f = NULL then Some (width0, m)
      else let fd = sys_fontdata f; c' = font_index m fd c in
        if sys_fontcharsinsheet f = 0 \<or> sheet_column m fd = 0 then None
        else let sheets = c' div sys_fontcharsinsheet f; rem = c' mod sys_fontcharsinsheet f;
                 xoff = rem mod sheet_column m fd * cell_width m fd; yoff = rem div sheet_column m fd * cell_height m fd
             in map_option (\<lambda>m'. (ucast (m' (sys_fontwidthtab f + c')), m'))
                  (texel_lines fd (sys_fontimage f + sheet_size m fd * sheets) xoff yoff img pos stride 0 m))"

end
