(* ===== verification/FontProps.thy ===== *)
theory FontProps
  imports Font
begin

text \<open>
  The unpacker against a reference decoder that works on lists, and the expansion of the image, whose source
  and destination overlap.
\<close>

section \<open>Offsets\<close>

lemma add_of_nat_inj:
  assumes "x < 2 ^ 32" "y < 2 ^ 32"
  shows "(p :: ptr) + of_nat x = p + of_nat y \<longleftrightarrow> x = y"
proof -
  have "unat (of_nat x :: ptr) = x" "unat (of_nat y :: ptr) = y" using assms by (simp_all add: unat_of_nat take_bit_nat_eq_self)
  then show ?thesis by (metis add_left_cancel)
qed

lemma of_nat_at: "x < 2 ^ 32 \<Longrightarrow> unat ((p :: ptr) + of_nat x - p) = x"
  by (simp add: unat_of_nat take_bit_nat_eq_self)

lemma of_nat_next:
  "(p :: ptr) + of_nat (k + 1) = p + of_nat k + 1" "p + of_nat (k + 2) = p + of_nat k + 2" "p + of_nat (k + 3) = p + of_nat k + 3"
  by simp_all

section \<open>Expansion in place\<close>

text \<open>\<open>at m d i\<close>: the byte of the memory at offset \<open>i\<close> from \<open>d\<close>.\<close>

abbreviation at :: "bmem \<Rightarrow> ptr \<Rightarrow> nat \<Rightarrow> u8" where "at m d i \<equiv> m (d + of_nat i)"

text \<open>The four bytes of the palette are not in the destination of \<open>n\<close> bytes.\<close>

definition palette_safe :: "ptr \<Rightarrow> ptr \<Rightarrow> nat \<Rightarrow> bool" where
  "palette_safe data dest n \<longleftrightarrow> (\<forall>k < 4. n \<le> unat (data + of_nat k - dest))"

lemma palette_safe_mono: "palette_safe data dest n \<Longrightarrow> k \<le> n \<Longrightarrow> palette_safe data dest k"
  by (auto simp: palette_safe_def intro: le_trans)

lemma expand_byte_cong:
  assumes "\<And>k. k < 4 \<Longrightarrow> at m' data k = at m data k"
  shows "expand_byte m' data b = expand_byte m data b"
proof -
  have "m' (data + ucast (drop_bit k b AND 3)) = m (data + ucast (drop_bit k b AND 3))" for k
  proof -
    have "drop_bit k b AND 3 = drop_bit k b mod 4" using take_bit_eq_mod [of 2 "drop_bit k b"] by (simp add: take_bit_eq_mask mask_eq_decr_exp)
    then have "unat (drop_bit k b AND 3) < 4" by (simp add: unat_mod)
    then show ?thesis using assms [of "unat (drop_bit k b AND 3)"] by simp
  qed
  then show ?thesis by (simp add: expand_byte_def)
qed

lemma expand_loop_ok:
  assumes "dest = src + of_nat g" "g + 2 * n \<le> 2 ^ 32" "palette_safe data dest (2 * n)"
  shows "(\<forall>i < n. at (expand_loop n data src dest m) dest (2 * i) = fst (expand_byte m data (at m src i)) \<and>
      at (expand_loop n data src dest m) dest (2 * i + 1) =
        snd (expand_byte m data (if g = 0 \<and> i = 0 then fst (expand_byte m data (m src)) else at m src i))) \<and>
    (\<forall>x. 2 * n \<le> unat (x - dest) \<longrightarrow> expand_loop n data src dest m x = m x)"
  using assms
proof (induction n arbitrary: m)
  case 0
  then show ?case by simp
next
  case (Suc n)
  define p q where "p = dest + of_nat (2 * n)" and "q = dest + of_nat (2 * n + 1)"
  define m1 where "m1 = m(p := fst (expand_byte m data (at m src n)))"
  define m2 where "m2 = m1(q := snd (expand_byte m1 data (at m1 src n)))"
  define e where "e = expand_loop n data src dest m2"
  have b: "g + 2 * n \<le> 2 ^ 32" "2 * n < 2 ^ 32" "2 * n + 1 < 2 ^ 32" using Suc.prems(2) by simp_all
  have run: "expand_loop (Suc n) data src dest m = e" by (simp only: expand_loop.simps Let_def e_def m2_def m1_def p_def q_def)
  have pq: "unat (p - dest) = 2 * n" "unat (q - dest) = 2 * n + 1" unfolding p_def q_def by (rule of_nat_at [OF b(2)], rule of_nat_at [OF b(3)])
  have ne: "p \<noteq> q" using pq by auto
  have far: "m2 x = m x \<and> m1 x = m x" if "2 * n + 2 \<le> unat (x - dest)" for x using that pq by (auto simp: m1_def m2_def)
  have "at m2 data k = at m data k \<and> at m1 data k = at m data k" if "k < 4" for k
    using far [of "data + of_nat k"] Suc.prems(3) that by (simp add: palette_safe_def)
  then have ex: "expand_byte m2 data c = expand_byte m data c" "expand_byte m1 data c = expand_byte m data c" for c
    by (blast intro: expand_byte_cong)+
  have sd: "dest + of_nat j = src + of_nat (g + j)" for j using Suc.prems(1) by (simp add: add.assoc)
  have src: "at m2 src i = at m src i" if "i < n" for i
  proof -
    have "src + of_nat i \<noteq> p" unfolding p_def sd using that Suc.prems(2) by (subst add_of_nat_inj) auto
    moreover have "src + of_nat i \<noteq> q" unfolding q_def sd using that Suc.prems(2) by (subst add_of_nat_inj) auto
    ultimately show ?thesis by (simp add: m1_def m2_def)
  qed
  have src1: "at m1 src n = (if g = 0 \<and> n = 0 then fst (expand_byte m data (m src)) else at m src n)"
  proof (cases "g = 0 \<and> n = 0")
    case True
    then show ?thesis using Suc.prems(1) by (simp add: m1_def p_def)
  next
    case False
    then have "src + of_nat n \<noteq> p" unfolding p_def sd using Suc.prems(2) by (subst add_of_nat_inj) auto
    then show ?thesis using False by (auto simp: m1_def)
  qed
  note IH = Suc.IH [OF Suc.prems(1) b(1) palette_safe_mono [OF Suc.prems(3)], of m2, folded e_def, unfolded ex]
  have keep: "e x = m2 x" if "2 * n \<le> unat (x - dest)" for x using IH that by simp
  have "at e dest (2 * n) = fst (expand_byte m data (at m src n))" using keep [of p] pq(1) ne unfolding p_def [symmetric] by (simp add: m2_def m1_def)
  moreover have "at e dest (2 * n + 1) = snd (expand_byte m data (at m1 src n))" using keep [of q] pq(2) unfolding q_def [symmetric] by (simp add: m2_def ex(2))
  moreover have "at e dest (2 * i) = fst (expand_byte m data (at m src i)) \<and> at e dest (2 * i + 1) =
      snd (expand_byte m data (if g = 0 \<and> i = 0 then fst (expand_byte m data (m src)) else at m src i))" if "i < n" for i
    using IH src [OF that] src [of 0] that by auto
  ultimately have "at e dest (2 * i) = fst (expand_byte m data (at m src i)) \<and> at e dest (2 * i + 1) =
      snd (expand_byte m data (if g = 0 \<and> i = 0 then fst (expand_byte m data (m src)) else at m src i))" if "i < Suc n" for i
    using that src1 by (cases "i = n") simp_all
  moreover have "e x = m x" if "2 * Suc n \<le> unat (x - dest)" for x using keep [of x] far [of x] that by simp
  ultimately show ?case unfolding run by blast
qed

section \<open>The reference decoder\<close>

text \<open>A packed file is a sequence of literal bytes and of references, which repeat \<open>n\<close> bytes from \<open>d\<close> bytes back.\<close>

datatype szp_code = Lit u8 | Back nat nat

primrec again :: "nat \<Rightarrow> nat \<Rightarrow> u8 list \<Rightarrow> u8 list" where
  "again d 0 out = out"
| "again d (Suc n) out = (let o' = again d n out in o' @ [o' ! (length o' - d)])"

fun put_item :: "u8 list \<Rightarrow> szp_code \<Rightarrow> u8 list" where
  "put_item out (Lit b) = out @ [b]"
| "put_item out (Back d n) = again d n out"

definition unpack :: "szp_code list \<Rightarrow> u8 list" where
  "unpack its = foldl put_item [] its"

fun is_lit :: "szp_code \<Rightarrow> bool" where
  "is_lit (Lit b) = True"
| "is_lit (Back d n) = False"

text \<open>How an item is stored: a link of 12 bits for the distance and 4 for the length, and up to one chunk byte.\<close>

fun link_of :: "szp_code \<Rightarrow> u16" where
  "link_of (Lit b) = 0"
| "link_of (Back d n) = (if n < 18 then push_bit 12 (of_nat (n - 2)) else 0) OR of_nat (d - 1)"

fun chunk_of :: "szp_code \<Rightarrow> u8 list" where
  "chunk_of (Lit b) = [b]"
| "chunk_of (Back d n) = (if n < 18 then [] else [of_nat (n - 18)])"

fun item_ok :: "u8 list \<Rightarrow> szp_code \<Rightarrow> bool" where
  "item_ok out (Lit b) = True"
| "item_ok out (Back d n) = (1 \<le> d \<and> d \<le> 4096 \<and> d \<le> length out \<and> 3 \<le> n \<and> n \<le> 273)"

definition items_ok :: "szp_code list \<Rightarrow> bool" where
  "items_ok its \<longleftrightarrow> (\<forall>i < length its. item_ok (unpack (take i its)) (its ! i))"

definition nlinks :: "szp_code list \<Rightarrow> nat" where "nlinks its = length (filter (\<lambda>x. \<not> is_lit x) its)"
definition nchunks :: "szp_code list \<Rightarrow> nat" where "nchunks its = length (concat (map chunk_of its))"

text \<open>The file lies in the \<open>n\<close> bytes from \<open>src\<close> on.\<close>

definition packed :: "bmem \<Rightarrow> ptr \<Rightarrow> nat \<Rightarrow> szp_code list \<Rightarrow> bool" where
  "packed m src n its \<longleftrightarrow>
     (let lo = unat (load_u32 m (src + of_nat 8)); co = unat (load_u32 m (src + of_nat 12)) in
      load_u32 m (src + of_nat 4) = of_nat (length (unpack its)) \<and> 16 \<le> n \<and>
      (\<forall>i < length its. 20 + 4 * (i div 32) \<le> n \<and> (bit (load_u32 m (src + of_nat (16 + 4 * (i div 32)))) (31 - i mod 32) \<longleftrightarrow> is_lit (its ! i)) \<and>
        (\<not> is_lit (its ! i) \<longrightarrow> lo + 2 * nlinks (take i its) + 2 \<le> n \<and> load_u16 m (src + of_nat (lo + 2 * nlinks (take i its))) = link_of (its ! i)) \<and>
        (chunk_of (its ! i) \<noteq> [] \<longrightarrow> co + nchunks (take i its) + 1 \<le> n \<and> at m src (co + nchunks (take i its)) = hd (chunk_of (its ! i)))))"

lemma length_again [simp]: "length (again d n out) = length out + n"
  by (induction n) (simp_all add: Let_def)

lemma unpack_take:
  assumes "i < length its"
  shows "unpack (take (Suc i) its) = put_item (unpack (take i its)) (its ! i)" "nlinks (take (Suc i) its) = nlinks (take i its) + (if is_lit (its ! i) then 0 else 1)"
    "nchunks (take (Suc i) its) = nchunks (take i its) + length (chunk_of (its ! i))"
  using assms by (simp_all add: unpack_def nlinks_def nchunks_def take_Suc_conv_app_nth)

lemma put_longer: "item_ok out x \<Longrightarrow> length out < length (put_item out x)"
  by (cases x) auto

lemma unpack_mono:
  assumes "items_ok its" "i \<le> j" "j \<le> length its"
  shows "length (unpack (take i its)) + (j - i) \<le> length (unpack (take j its))"
  using assms(2,3)
proof (induction j rule: dec_induct)
  case (step j)
  then have "length (unpack (take j its)) < length (unpack (take (Suc j) its))"
    using assms(1) put_longer unpack_take(1) [of j its] by (simp add: items_ok_def)
  then show ?case using step by simp
qed simp

section \<open>One turn\<close>

lemma szp_copy_ok:
  assumes "\<And>j. j < length out \<Longrightarrow> at m dest j = out ! j" "1 \<le> d" "d \<le> length out" "length out + n < 2 ^ 32"
  shows "\<exists>m'. szp_copy dest (dest + of_nat (length out - d)) n (of_nat (length out)) m = (of_nat (length out + n), m') \<and>
    (\<forall>j < length out + n. at m' dest j = again d n out ! j) \<and> (\<forall>x. length out + n \<le> unat (x - dest) \<longrightarrow> m' x = m x)"
  using assms(4)
proof (induction n)
  case 0
  then show ?case using assms(1) by (simp add: szp_copy_def)
next
  case (Suc n)
  let ?p = "length out" and ?t = "dest + of_nat (length out - d)"
  obtain m' where m': "szp_copy dest ?t n (of_nat ?p) m = (of_nat (?p + n), m')" "\<forall>j < ?p + n. at m' dest j = again d n out ! j"
      "\<forall>x. ?p + n \<le> unat (x - dest) \<longrightarrow> m' x = m x"
    using Suc by auto
  define q where "q = dest + of_nat (?p + n)"
  have "?t + of_nat n = dest + of_nat (?p + n - d)" using assms(3) by (simp add: add.assoc flip: of_nat_add)
  moreover have "?p + n - d < ?p + n" using assms(2,3) by simp
  ultimately have r: "m' (?t + of_nat n) = again d n out ! (?p + n - d)" using m'(2) by metis
  have run: "szp_copy dest ?t (Suc n) (of_nat ?p) m = (of_nat (?p + Suc n), m'(q := m' (?t + of_nat n)))"
    using m'(1) by (simp add: szp_copy_def q_def add.commute)
  have uq: "unat (q - dest) = ?p + n" unfolding q_def by (rule of_nat_at) (use Suc.prems in simp)
  have "at (m'(q := m' (?t + of_nat n))) dest j = again d (Suc n) out ! j" if "j < ?p + Suc n" for j
  proof (cases "j = ?p + n")
    case True
    then have "dest + of_nat j = q" by (simp add: q_def)
    then show ?thesis using r True by (simp add: Let_def nth_append)
  next
    case False
    then have "dest + of_nat j \<noteq> q" unfolding q_def using that Suc.prems by (subst add_of_nat_inj) auto
    then show ?thesis using False that m'(2) by (simp add: Let_def nth_append)
  qed
  moreover have "(m'(q := m' (?t + of_nat n))) x = m x" if "?p + Suc n \<le> unat (x - dest)" for x
    using that uq m'(3) by auto
  ultimately show ?case using run by blast
qed

text \<open>After \<open>i\<close> items, from a memory \<open>m\<close>.\<close>

definition szp_at :: "bmem \<Rightarrow> ptr \<Rightarrow> ptr \<Rightarrow> szp_code list \<Rightarrow> nat \<Rightarrow> szp \<Rightarrow> bool" where
  "szp_at m src dest its i z \<longleftrightarrow>
     (let out = unpack (take i its) in
      z_cnt z = of_nat (length out) \<and> (\<forall>j < length out. at (z_mem z) dest j = out ! j) \<and>
      (\<forall>x. length out \<le> unat (x - dest) \<longrightarrow> z_mem z x = m x) \<and>
      z_loff z = load_u32 m (src + of_nat 8) + of_nat (2 * nlinks (take i its)) \<and>
      z_coff z = load_u32 m (src + of_nat 12) + of_nat (nchunks (take i its)) \<and>
      z_bcnt z = of_nat ((32 - i mod 32) mod 32) \<and> z_roff z = of_nat (16 + 4 * ((i + 31) div 32)) \<and>
      (i mod 32 \<noteq> 0 \<longrightarrow> z_cmask z = push_bit (i mod 32) (load_u32 m (src + of_nat (16 + 4 * (i div 32))))))"

text \<open>The file is not overwritten: none of its bytes is in the destination.\<close>

definition file_safe :: "ptr \<Rightarrow> nat \<Rightarrow> ptr \<Rightarrow> nat \<Rightarrow> bool" where
  "file_safe src n dest k \<longleftrightarrow> (\<forall>i < n. k \<le> unat (src + of_nat i - dest))"

lemma szp_loads:
  assumes "szp_at m src dest its i z" "file_safe src n dest (length (unpack (take i its)))"
  shows "k < n \<Longrightarrow> at (z_mem z) src k = at m src k"
    and "k + 2 \<le> n \<Longrightarrow> load_u16 (z_mem z) (src + of_nat k) = load_u16 m (src + of_nat k)"
    and "k + 4 \<le> n \<Longrightarrow> load_u32 (z_mem z) (src + of_nat k) = load_u32 m (src + of_nat k)"
proof -
  have b: "at (z_mem z) src k = at m src k" if "k < n" for k using assms that by (simp add: szp_at_def file_safe_def Let_def)
  then show "at (z_mem z) src k = at m src k" if "k < n" using that .
  show "load_u16 (z_mem z) (src + of_nat k) = load_u16 m (src + of_nat k)" if "k + 2 \<le> n"
    unfolding load_u16_def using that b [of k] b [of "k + 1", unfolded of_nat_next] by simp
  show "load_u32 (z_mem z) (src + of_nat k) = load_u32 m (src + of_nat k)" if "k + 4 \<le> n"
    unfolding load_u32_def
    using that b [of k] b [of "k + 1", unfolded of_nat_next] b [of "k + 2", unfolded of_nat_next] b [of "k + 3", unfolded of_nat_next] by simp
qed

lemma div_up: "(i + 31) div 32 = i div 32 + (if i mod 32 = 0 then 0 else 1)" for i :: nat
proof -
  define q r where "q = i div 32" and "r = i mod 32"
  have i: "i = 32 * q + r" "r < 32" by (simp_all add: q_def r_def)
  have "(i + 31) div 32 = q + (if r = 0 then 0 else 1)" by (rule div_nat_eqI) (use i in auto)
  then show ?thesis by (simp only: q_def r_def)
qed

lemma szp_mask_ok:
  assumes z: "szp_at m src dest its i z" and s: "file_safe src n dest (length (unpack (take i its)))" and n: "20 + 4 * (i div 32) \<le> n"
  shows "szp_mask src z = z\<lparr>z_cmask := push_bit (i mod 32) (load_u32 m (src + of_nat (16 + 4 * (i div 32)))),
    z_roff := of_nat (16 + 4 * (i div 32 + 1)), z_bcnt := of_nat (32 - i mod 32)\<rparr>"
proof (cases "i mod 32 = 0")
  case True
  then have d: "(i + 31) div 32 = i div 32" by (simp add: div_up)
  have r: "z_roff z = of_nat (16 + 4 * (i div 32))" "z_bcnt z = 0" using z True d by (simp_all add: szp_at_def Let_def)
  have "load_u32 (z_mem z) (src + of_nat (16 + 4 * (i div 32))) = load_u32 m (src + of_nat (16 + 4 * (i div 32)))"
    by (rule szp_loads(3) [OF z s]) (use n in simp)
  then show ?thesis using True r by (simp add: szp_mask_def algebra_simps)
next
  case False
  then have d: "(i + 31) div 32 = i div 32 + 1" "(32 - i mod 32) mod 32 = 32 - i mod 32" by (simp_all add: div_up)
  have "0 < 32 - i mod 32" "32 - i mod 32 < 32" using False by simp_all
  then have "unat (of_nat (32 - i mod 32) :: u32) = 32 - i mod 32" by (simp add: unat_of_nat take_bit_nat_eq_self del: of_nat_diff)
  then have "(of_nat (32 - i mod 32) :: u32) \<noteq> 0" using \<open>0 < 32 - i mod 32\<close> by (metis unat_0 less_irrefl)
  then show ?thesis using False z d by (simp add: szp_mask_def szp_at_def Let_def)
qed

lemma link_bits:
  fixes a b :: u16
  assumes "take_bit 4 a = a" "take_bit 12 b = b"
  shows "(ucast (push_bit 12 a OR b) :: u32) AND 0xfff = ucast b" "drop_bit 12 (ucast (push_bit 12 a OR b) :: u32) = ucast a"
proof -
  have a: "bit a k \<Longrightarrow> k < 4" for k using arg_cong [OF assms(1), of "\<lambda>w. bit w k"] by (simp add: bit_take_bit_iff)
  have b: "bit b k \<Longrightarrow> k < 12" for k using arg_cong [OF assms(2), of "\<lambda>w. bit w k"] by (simp add: bit_take_bit_iff)
  have m: "(0xfff :: u32) = mask 12" by (simp add: mask_eq_decr_exp)
  show "(ucast (push_bit 12 a OR b) :: u32) AND 0xfff = ucast b" unfolding m
    by (rule bit_word_eqI) (auto simp: bit_simps dest: b)
  show "drop_bit 12 (ucast (push_bit 12 a OR b) :: u32) = ucast a"
    by (rule bit_word_eqI) (auto simp: bit_simps dest: a b)
qed

lemma link_fields:
  assumes "1 \<le> d" "d \<le> 4096" "3 \<le> n"
  shows "(ucast (link_of (Back d n)) :: u32) AND 0xfff = of_nat (d - 1)"
    and "drop_bit 12 (ucast (link_of (Back d n)) :: u32) = (if n < 18 then of_nat (n - 2) else 0)"
proof -
  let ?a = "if n < 18 then of_nat (n - 2) else 0 :: u16" and ?b = "of_nat (d - 1) :: u16"
  have l: "link_of (Back d n) = push_bit 12 ?a OR ?b" by simp
  have "take_bit 4 (of_nat (n - 2) :: u16) = of_nat (n - 2)" if "n < 18" using that assms(3) by (simp add: take_bit_of_nat take_bit_nat_eq_self del: of_nat_diff)
  then have ta: "take_bit 4 ?a = ?a" by simp
  have tb: "take_bit 12 ?b = ?b" using assms(1,2) by (simp add: take_bit_of_nat take_bit_nat_eq_self del: of_nat_diff)
  have ub: "ucast ?b = (of_nat (d - 1) :: u32)" using assms(1,2) by (simp add: unsigned_of_nat take_bit_nat_eq_self del: of_nat_diff)
  have ua: "ucast ?a = (if n < 18 then of_nat (n - 2) else 0 :: u32)" by (simp add: unsigned_of_nat take_bit_nat_eq_self del: of_nat_diff)
  show "(ucast (link_of (Back d n)) :: u32) AND 0xfff = of_nat (d - 1)" unfolding l link_bits(1) [OF ta tb] by (rule ub)
  show "drop_bit 12 (ucast (link_of (Back d n)) :: u32) = (if n < 18 then of_nat (n - 2) else 0)" unfolding l link_bits(2) [OF ta tb] by (rule ua)
qed

lemma top_bit: "(push_bit r w AND 0x80000000 \<noteq> 0) = bit w (31 - r)" if "r < 32" for w :: u32
  using that and_exp_eq_0_iff_not_bit [of "push_bit r w" 31] by (simp add: bit_push_bit_iff)

lemma back_length:
  assumes "3 \<le> n" "n \<le> 273"
  shows "n < 18 \<Longrightarrow> (of_nat (n - 2) :: u32) \<noteq> 0" "of_nat (n - 2) + 2 = (of_nat n :: u32)"
    and "\<not> n < 18 \<Longrightarrow> ucast (of_nat (n - 18) :: u8) + 18 = (of_nat n :: u32)" "unat (of_nat n :: u32) = n"
proof -
  have "unat (of_nat (n - 2) :: u32) = n - 2" if "n < 18" using that by (simp add: unat_of_nat take_bit_nat_eq_self del: of_nat_diff)
  then show "(of_nat (n - 2) :: u32) \<noteq> 0" if "n < 18" using that assms(1) by (metis diff_is_0_eq not_less_eq_eq numeral_2_eq_2 numeral_3_eq_3 unat_0)
  show "of_nat (n - 2) + 2 = (of_nat n :: u32)" using assms(1) by (simp add: of_nat_diff)
  have "ucast (of_nat (n - 18) :: u8) = (of_nat (n - 18) :: u32)" using assms(2) by (simp add: unsigned_of_nat take_bit_nat_eq_self del: of_nat_diff)
  then show "ucast (of_nat (n - 18) :: u8) + 18 = (of_nat n :: u32)" if "\<not> n < 18" using that by (simp add: of_nat_diff)
  show "unat (of_nat n :: u32) = n" using assms(2) by (simp add: unat_of_nat take_bit_nat_eq_self)
qed

lemma packedD:
  assumes "packed m src n its" "i < length its"
  shows "20 + 4 * (i div 32) \<le> n" "bit (load_u32 m (src + of_nat (16 + 4 * (i div 32)))) (31 - i mod 32) = is_lit (its ! i)"
    and "\<not> is_lit (its ! i) \<Longrightarrow> unat (load_u32 m (src + of_nat 8)) + 2 * nlinks (take i its) + 2 \<le> n"
    and "\<not> is_lit (its ! i) \<Longrightarrow> load_u16 m (src + of_nat (unat (load_u32 m (src + of_nat 8)) + 2 * nlinks (take i its))) = link_of (its ! i)"
    and "chunk_of (its ! i) \<noteq> [] \<Longrightarrow> unat (load_u32 m (src + of_nat 12)) + nchunks (take i its) + 1 \<le> n"
    and "chunk_of (its ! i) \<noteq> [] \<Longrightarrow> at m src (unat (load_u32 m (src + of_nat 12)) + nchunks (take i its)) = hd (chunk_of (its ! i))"
  using assms unfolding packed_def Let_def by blast+

text \<open>One item, its bytes and its counters.\<close>

lemma szp_item_ok:
  assumes p: "packed m src n its" and ok: "items_ok its" and s: "file_safe src n dest (length (unpack (take i its)))" and i: "i < length its"
    and z: "szp_at m src dest its i z" and c: "(c AND 0x80000000 \<noteq> 0) = is_lit (its ! i)"
    and l: "length (unpack (take (Suc i) its)) < 2 ^ 32"
  shows "\<exists>m'. szp_item src dest (z\<lparr>z_cmask := c, z_roff := r, z_bcnt := b\<rparr>) = z\<lparr>z_cmask := c, z_roff := r, z_bcnt := b, z_mem := m',
      z_cnt := of_nat (length (unpack (take (Suc i) its))), z_loff := load_u32 m (src + of_nat 8) + of_nat (2 * nlinks (take (Suc i) its)),
      z_coff := load_u32 m (src + of_nat 12) + of_nat (nchunks (take (Suc i) its))\<rparr> \<and>
    (\<forall>j < length (unpack (take (Suc i) its)). at m' dest j = unpack (take (Suc i) its) ! j) \<and>
    (\<forall>x. length (unpack (take (Suc i) its)) \<le> unat (x - dest) \<longrightarrow> m' x = m x)"
proof -
  let ?out = "unpack (take i its)" and ?lo = "load_u32 m (src + of_nat 8)" and ?co = "load_u32 m (src + of_nat 12)"
  note t = unpack_take [OF i]
  have zf: "z_cnt z = of_nat (length ?out)" "\<forall>j < length ?out. at (z_mem z) dest j = ?out ! j" "\<forall>x. length ?out \<le> unat (x - dest) \<longrightarrow> z_mem z x = m x"
      "z_loff z = ?lo + of_nat (2 * nlinks (take i its))" "z_coff z = ?co + of_nat (nchunks (take i its))"
    using z by (simp_all add: szp_at_def Let_def)
  have lo: "src + z_loff z = src + of_nat (unat ?lo + 2 * nlinks (take i its))" and co: "src + z_coff z = src + of_nat (unat ?co + nchunks (take i its))"
    by (simp_all add: zf)
  have ch: "z_mem z (src + z_coff z) = hd (chunk_of (its ! i))" if "chunk_of (its ! i) \<noteq> []"
    using packedD(5,6) [OF p i that] szp_loads(1) [OF z s, of "unat ?co + nchunks (take i its)"] unfolding co by (simp only: Suc_eq_plus1 [symmetric] Suc_le_eq)
  show ?thesis
  proof (cases "its ! i")
    case (Lit v)
    let ?q = "dest + z_cnt z"
    have q: "unat (?q - dest) = length ?out" using l t(1) Lit zf(1) by (simp add: unat_of_nat take_bit_nat_eq_self)
    have "at ((z_mem z)(?q := v)) dest j = (?out @ [v]) ! j" if "j < length (?out @ [v])" for j
    proof (cases "j = length ?out")
      case True
      then show ?thesis using zf(1) by simp
    next
      case False
      then have "dest + of_nat j \<noteq> ?q" unfolding zf(1) using that l t(1) Lit by (subst add_of_nat_inj) auto
      then show ?thesis using False that zf(2) by (simp add: nth_append)
    qed
    moreover have "((z_mem z)(?q := v)) x = m x" if "length (?out @ [v]) \<le> unat (x - dest)" for x using that q zf(3) by auto
    moreover have "c AND 0x80000000 \<noteq> 0" "z_mem z (src + z_coff z) = v" using c ch Lit by simp_all
    ultimately show ?thesis using Lit t zf(1,4,5)
      by (intro exI [of _ "(z_mem z)(?q := v)"]) (simp add: szp_item_def Let_def add.commute add.left_commute)
  next
    case (Back d k)
    then have iok: "1 \<le> d" "d \<le> 4096" "d \<le> length ?out" "3 \<le> k" "k \<le> 273" using ok i by (auto simp: items_ok_def dest: spec [of _ i])
    have ln: "load_u16 (z_mem z) (src + z_loff z) = link_of (Back d k)"
      using packedD(3,4) [OF p i] Back szp_loads(2) [OF z s, of "unat ?lo + 2 * nlinks (take i its)"] unfolding lo by (simp only: is_lit.simps not_False_eq_True)
    obtain m' where m': "szp_copy dest (dest + of_nat (length ?out - d)) k (of_nat (length ?out)) (z_mem z) = (of_nat (length ?out + k), m')"
        "\<forall>j < length ?out + k. at m' dest j = again d k ?out ! j" "\<forall>x. length ?out + k \<le> unat (x - dest) \<longrightarrow> m' x = z_mem z x"
      using szp_copy_ok [of ?out "z_mem z" dest d k] zf(2) iok(1,3) l t(1) Back by auto
    have tmp: "z_cnt z - of_nat (d - 1) - 1 = of_nat (length ?out - d)" using iok(1,3) zf(1) by (simp add: of_nat_diff)
    have c0: "\<not> (c AND 0x80000000 \<noteq> 0)" using c Back by simp
    let ?k0 = "if k < 18 then of_nat (k - 2) else 0 :: u32"
    have kk: "(if ?k0 = 0 then (ucast (z_mem z (src + z_coff z)) + 18, z_coff z + 1) else (?k0 + 2, z_coff z)) =
        (of_nat k :: u32, ?co + of_nat (nchunks (take (Suc i) its)))"
    proof (cases "k < 18")
      case True
      then show ?thesis using back_length(1,2) [OF iok(4,5)] Back t(3) zf(5) by simp
    next
      case False
      then have "z_mem z (src + z_coff z) = of_nat (k - 18)" using ch Back by simp
      then show ?thesis using False back_length(3) [OF iok(4,5)] Back t(3) zf(5) by simp
    qed
    define y where "y = z\<lparr>z_cmask := c, z_roff := r, z_bcnt := b\<rparr>"
    have y: "z_mem y = z_mem z" "z_cmask y = c" "z_loff y = z_loff z" "z_coff y = z_coff z" "z_cnt y = z_cnt z" by (simp_all add: y_def)
    have "szp_item src dest y = y\<lparr>z_mem := m', z_cnt := of_nat (length ?out + k), z_loff := z_loff z + 2, z_coff := ?co + of_nat (nchunks (take (Suc i) its))\<rparr>"
      by (simp only: szp_item_def Let_def y c0 if_False ln link_fields [OF iok(1,2,4)] kk prod.case tmp back_length(4) [OF iok(4,5)])
        (simp only: zf(1) m'(1) prod.case)
    moreover have "z_loff z + 2 = ?lo + of_nat (2 * nlinks (take (Suc i) its))" using Back t(2) zf(4) by simp
    moreover have "unpack (take (Suc i) its) = again d k ?out" using Back t(1) by simp
    ultimately show ?thesis using m'(2,3) zf(3) unfolding y_def by (intro exI [of _ m']) simp
  qed
qed

lemma mod_next: "Suc i mod 32 = (if i mod 32 = 31 then 0 else Suc (i mod 32))" for i :: nat
  by (simp add: mod_Suc)

lemma mask_count: "r < 32 \<Longrightarrow> of_nat (32 - r) - (1 :: u32) = of_nat ((32 - (if r = 31 then 0 else Suc r)) mod 32)"
  by (auto simp: of_nat_diff)

lemma szp_step_ok:
  assumes p: "packed m src n its" and ok: "items_ok its" and s: "file_safe src n dest (length (unpack its))" and l: "length (unpack its) < 2 ^ 32"
    and i: "i < length its" and z: "szp_at m src dest its i z"
  shows "szp_at m src dest its (Suc i) (szp_step src dest z)"
proof -
  let ?W = "load_u32 m (src + of_nat (16 + 4 * (i div 32)))" and ?r = "i mod 32"
  let ?c = "push_bit ?r ?W" and ?o = "of_nat (16 + 4 * (i div 32 + 1)) :: u32" and ?b = "of_nat (32 - ?r) :: u32"
  have len: "length (unpack (take j its)) \<le> length (unpack its)" if "j \<le> length its" for j
    using unpack_mono [OF ok that] by simp
  have si: "file_safe src n dest (length (unpack (take i its)))" using s len [of i] i unfolding file_safe_def by (meson less_imp_le le_trans)
  have mk: "szp_mask src z = z\<lparr>z_cmask := ?c, z_roff := ?o, z_bcnt := ?b\<rparr>" by (rule szp_mask_ok [OF z si packedD(1) [OF p i]])
  have c: "(?c AND 0x80000000 \<noteq> 0) = is_lit (its ! i)" using top_bit [of ?r ?W] packedD(2) [OF p i] by simp
  have l': "length (unpack (take (Suc i) its)) < 2 ^ 32" using l len [of "Suc i"] i by simp
  obtain m' where m': "szp_item src dest (z\<lparr>z_cmask := ?c, z_roff := ?o, z_bcnt := ?b\<rparr>) = z\<lparr>z_cmask := ?c, z_roff := ?o, z_bcnt := ?b, z_mem := m',
      z_cnt := of_nat (length (unpack (take (Suc i) its))), z_loff := load_u32 m (src + of_nat 8) + of_nat (2 * nlinks (take (Suc i) its)),
      z_coff := load_u32 m (src + of_nat 12) + of_nat (nchunks (take (Suc i) its))\<rparr>"
      "\<forall>j < length (unpack (take (Suc i) its)). at m' dest j = unpack (take (Suc i) its) ! j"
      "\<forall>x. length (unpack (take (Suc i) its)) \<le> unat (x - dest) \<longrightarrow> m' x = m x"
    using szp_item_ok [OF p ok si i z c l'] by blast
  have a: "?b - 1 = of_nat ((32 - Suc i mod 32) mod 32)" "(Suc i + 31) div 32 = i div 32 + 1" using mask_count [of ?r] by (simp_all add: mod_next)
  have b: "push_bit 1 ?c = push_bit (Suc i mod 32) (load_u32 m (src + of_nat (16 + 4 * (Suc i div 32))))" if "Suc i mod 32 \<noteq> 0"
    using that by (simp add: mod_next div_Suc push_bit_push_bit split: if_splits)
  show ?thesis unfolding szp_at_def szp_step_def mk m'(1) Let_def using m'(2,3) a b by simp
qed

lemma szp_loop_ok:
  assumes p: "packed m src n its" and ok: "items_ok its" and s: "file_safe src n dest (length (unpack its))" and l: "length (unpack its) < 2 ^ 32"
  shows "i < length its \<Longrightarrow> szp_at m src dest its i z \<Longrightarrow>
    \<exists>z'. szp_loop src dest (of_nat (length (unpack its))) z = Some z' \<and> szp_at m src dest its (length its) z'"
proof (induction "length its - i" arbitrary: i z)
  case (Suc k)
  let ?z = "szp_step src dest z"
  have z: "szp_at m src dest its (Suc i) ?z" by (rule szp_step_ok [OF assms Suc.prems])
  have "length (unpack (take (Suc i) its)) + (length its - Suc i) \<le> length (unpack its)" using unpack_mono [OF ok, of "Suc i" "length its"] Suc.prems(1) by simp
  moreover have "z_cnt ?z = of_nat (length (unpack (take (Suc i) its)))" using z unfolding szp_at_def Let_def by (rule conjunct1)
  ultimately have c: "z_cnt ?z < of_nat (length (unpack its)) \<longleftrightarrow> Suc i < length its"
    using l by (cases "Suc i < length its") (simp_all add: word_less_nat_alt unat_of_nat take_bit_nat_eq_self)
  show ?case
  proof (cases "Suc i < length its")
    case True
    then show ?thesis using Suc.hyps(1) [of "Suc i" ?z] Suc.hyps(2) z c by (subst szp_loop.simps) (simp add: Let_def)
  next
    case False
    then have "Suc i = length its" using Suc.prems(1) by simp
    then show ?thesis using z c by (subst szp_loop.simps) (simp add: Let_def)
  qed
qed simp

section \<open>Properties\<close>

text \<open>
  C34. The unpacker is the reference decoder: for a file that encodes a sequence of items, whatever the layout of its streams, \<^verbatim>\<open>decode_szp\<close>
  returns, the destination holds the decoded bytes, references that overlap their own output included, and not a byte outside
  the unpacked size is written.
\<close>

theorem font_unpacked:
  assumes "packed m src n its" "items_ok its" "its \<noteq> []" "file_safe src n dest (length (unpack its))" "length (unpack its) < 2 ^ 32"
  shows "\<exists>m'. decode_szp src dest m = Some m' \<and> load_bytes m' dest (length (unpack its)) = unpack its \<and>
    (\<forall>x. length (unpack its) \<le> unat (x - dest) \<longrightarrow> m' x = m x)"
proof -
  let ?z = "\<lparr>z_mem = m, z_roff = 16, z_loff = load_u32 m (src + 8), z_coff = load_u32 m (src + 12), z_cmask = 0, z_cnt = 0, z_bcnt = 0\<rparr>"
  have "szp_at m src dest its 0 ?z" by (simp add: szp_at_def unpack_def nlinks_def nchunks_def)
  then obtain z' where z': "szp_loop src dest (of_nat (length (unpack its))) ?z = Some z'" "szp_at m src dest its (length its) z'"
    using szp_loop_ok [OF assms(1,2,4,5), of 0 ?z] assms(3) by auto
  have "load_u32 m (src + 4) = of_nat (length (unpack its))" using assms(1) by (simp add: packed_def Let_def)
  then have "decode_szp src dest m = Some (z_mem z')" using z'(1) by (simp add: decode_szp_def)
  moreover have "load_bytes (z_mem z') dest (length (unpack its)) = unpack its"
    using z'(2) by (intro nth_equalityI) (simp_all add: szp_at_def load_bytes_def Let_def)
  ultimately show ?thesis using z'(2) by (simp add: szp_at_def Let_def)
qed

text \<open>A file of two literals and a reference that repeats both of them twice.\<close>

definition szp_file :: bmem where
  "szp_file = store_bytes 0x1000 [0x59, 0x61, 0x79, 0x30, 0, 0, 0, 6, 0, 0, 0, 20, 0, 0, 0, 22, 0xc0, 0, 0, 0, 0x20, 0x01, 7, 8] (\<lambda>_. 0)"

theorem font_unpacked_witness:
  "\<exists>m'. decode_szp 0x1000 0x2000 szp_file = Some m' \<and> load_bytes m' 0x2000 6 = [7, 8, 7, 8, 7, 8]"
proof -
  let ?its = "[Lit 7, Lit 8, Back 2 4]"
  have u: "unpack ?its = [7, 8, 7, 8, 7, 8]" by code_simp
  have ld: "load_u32 szp_file 0x1004 = 6" "load_u32 szp_file 0x1008 = 20" "load_u32 szp_file 0x100c = 22" "load_u32 szp_file 0x1010 = 0xc0000000"
      "load_u16 szp_file 0x1014 = 0x2001" "szp_file 0x1016 = 7" "szp_file 0x1017 = 8"
    by (simp_all add: load_u32_def load_u16_def szp_file_def store_bytes_def)
  have all3: "(\<forall>i < length ?its. P i) = (P 0 \<and> P 1 \<and> P 2)" for P by (auto simp: less_Suc_eq numeral_2_eq_2)
  have p: "packed szp_file 0x1000 24 ?its" unfolding packed_def u all3 by (simp add: ld nlinks_def nchunks_def bit_simps)
  have i: "items_ok ?its" by code_simp
  have "0x1000 + of_nat i - 0x2000 = (of_nat (0xfffff000 + i) :: ptr)" for i by simp
  then have s: "file_safe 0x1000 24 0x2000 (length (unpack ?its))"
    unfolding file_safe_def u by (simp add: unat_of_nat take_bit_nat_eq_self del: of_nat_add of_nat_numeral)
  have u6: "length (unpack ?its) = 6" by (simp add: u)
  show ?thesis using font_unpacked [OF p i _ s] unfolding u6 unfolding u by auto
qed

text \<open>
  C35. The image of a font is expanded in place: its source may overlap the destination as long as it does not begin behind it, because
  the bytes are expanded from the last to the first. Every byte gives the two bytes of its four pixels, and nothing else
  changes, with one exception: when source and destination are the same, the second byte is computed from the first one that was just
  written, not from the source.
\<close>

theorem font_expanded:
  assumes "dest = src + of_nat g" "g + 2 * n \<le> 2 ^ 32" "palette_safe (sys_fontdata f + 44) dest (2 * n)"
    "sheet_format m (sys_fontdata f) = 0" "unat (sheet_fullsize m (sys_fontdata f)) div 2 = n"
  shows "(\<forall>i < n. at (expand_font src dest f m) dest (2 * i) = fst (expand_byte m (sys_fontdata f + 44) (at m src i)) \<and>
      (g \<noteq> 0 \<or> i \<noteq> 0 \<longrightarrow> at (expand_font src dest f m) dest (2 * i + 1) = snd (expand_byte m (sys_fontdata f + 44) (at m src i)))) \<and>
    (g = 0 \<and> n \<noteq> 0 \<longrightarrow> expand_font src dest f m (dest + 1) = snd (expand_byte m (sys_fontdata f + 44) (fst (expand_byte m (sys_fontdata f + 44) (m src))))) \<and>
    (\<forall>x. 2 * n \<le> unat (x - dest) \<longrightarrow> expand_font src dest f m x = m x)"
proof -
  let ?d = "sys_fontdata f + 44" and ?e = "expand_font src dest f m"
  have "?e = expand_loop n ?d src dest m" using assms(4,5) by (simp add: expand_font_def unat_div)
  then have e: "\<forall>i < n. at ?e dest (2 * i) = fst (expand_byte m ?d (at m src i)) \<and>
      at ?e dest (2 * i + 1) = snd (expand_byte m ?d (if g = 0 \<and> i = 0 then fst (expand_byte m ?d (m src)) else at m src i))"
    "\<forall>x. 2 * n \<le> unat (x - dest) \<longrightarrow> ?e x = m x"
    using expand_loop_ok [OF assms(1-3), of m] by simp_all
  have "?e (dest + 1) = snd (expand_byte m ?d (fst (expand_byte m ?d (m src))))" if "g = 0" "n \<noteq> 0"
    using e(1) [rule_format, of 0] that by simp
  moreover have "at ?e dest (2 * i) = fst (expand_byte m ?d (at m src i)) \<and> (g \<noteq> 0 \<or> i \<noteq> 0 \<longrightarrow> at ?e dest (2 * i + 1) = snd (expand_byte m ?d (at m src i)))"
    if "i < n" for i using e(1) [rule_format, OF that] by (auto split: if_splits)
  ultimately show ?thesis using e(2) by blast
qed

text \<open>A byte with the pixels 0, 1, 2 and 3, expanded where it lies: the second byte is \<open>0x55\<close> instead of \<open>0xaf\<close>.\<close>

definition font_mem :: bmem where
  "font_mem = (\<lambda>_. 0)(0x102b := 2, 0x102d := 0x55, 0x102e := 0xaa, 0x102f := 0xff, 0x2000 := 0x1b)"

definition font0 :: font where
  "font0 = \<lparr>sys_fontenc = 0, sys_fontcharsinsheet = 1, sys_fontwidthtab = 0x1030, sys_fontimage = 0x2000, sys_fontdata = 0x1000\<rparr>"

theorem font_expanded_witness:
  "expand_font 0x2000 0x2000 font0 font_mem 0x2000 = 0x05 \<and> expand_font 0x2000 0x2000 font0 font_mem 0x2001 = 0x55 \<and>
   snd (expand_byte font_mem 0x102c (font_mem 0x2000)) = 0xaf"
proof -
  have f: "sys_fontdata font0 = 0x1000" by (simp add: font0_def)
  have h: "sheet_format font_mem 0x1000 = 0" "unat (sheet_fullsize font_mem 0x1000) div 2 = 1"
    by (simp_all add: sheet_format_def sheet_fullsize_def load_u16_def load_u32_def font_mem_def)
  have "0x102c + of_nat k - 0x2000 = (of_nat (0xfffff02c + k) :: ptr)" for k by simp
  then have p: "palette_safe 0x102c 0x2000 (2 * 1)"
    unfolding palette_safe_def by (simp add: unat_of_nat take_bit_nat_eq_self del: of_nat_add of_nat_numeral)
  have b: "expand_byte font_mem 0x102c 0x1b = (0x05, 0xaf)" "expand_byte font_mem 0x102c 0x05 = (0x00, 0x55)" "font_mem 0x2000 = 0x1b"
    by (simp_all add: expand_byte_def font_mem_def)
  show ?thesis using font_expanded [of "0x2000" "0x2000" 0 1 font0 font_mem] f h p b by simp
qed

end
