(* ===== verification/ExiInv.thy ===== *)
theory ExiInv
  imports Exi
begin

text \<open>
  The locks of the expansion interface: an abstract machine with the holder and the waiters of each
  channel, and that \<^verbatim>\<open>EXI_Lock\<close> and \<^verbatim>\<open>EXI_Unlock\<close> implement it on the node queues.
\<close>

section \<open>Flags\<close>

lemma flag_bit:
  "has_flag EXI_FLAG_DMA chn s \<longleftrightarrow> bit (x_flags (eximap s chn)) 0"
  "has_flag EXI_FLAG_IMM chn s \<longleftrightarrow> bit (x_flags (eximap s chn)) 1"
  "has_flag EXI_FLAG_SELECT chn s \<longleftrightarrow> bit (x_flags (eximap s chn)) 2"
  "has_flag EXI_FLAG_ATTACH chn s \<longleftrightarrow> bit (x_flags (eximap s chn)) 3"
  "has_flag EXI_FLAG_LOCKED chn s \<longleftrightarrow> bit (x_flags (eximap s chn)) 4"
  using and_exp_eq_0_iff_not_bit [of "x_flags (eximap s chn)" 0] and_exp_eq_0_iff_not_bit [of "x_flags (eximap s chn)" 1]
    and_exp_eq_0_iff_not_bit [of "x_flags (eximap s chn)" 2] and_exp_eq_0_iff_not_bit [of "x_flags (eximap s chn)" 3]
    and_exp_eq_0_iff_not_bit [of "x_flags (eximap s chn)" 4]
  by (simp_all add: has_flag_def)

lemma busy_bit: "has_flag 3 chn s \<longleftrightarrow> bit (x_flags (eximap s chn)) 0 \<or> bit (x_flags (eximap s chn)) 1"
proof -
  have "(3 :: u32) = EXI_FLAG_DMA OR EXI_FLAG_IMM" by simp
  then have "has_flag 3 chn s \<longleftrightarrow> has_flag EXI_FLAG_DMA chn s \<or> has_flag EXI_FLAG_IMM chn s"
    by (simp only: has_flag_def bit.conj_disj_distrib or_eq_0_iff de_Morgan_conj)
  then show ?thesis by (simp only: flag_bit)
qed

lemma upd_chn_simps [simp]:
  "eximap (upd_chn chn f s) = (eximap s)(chn := f (eximap s chn))"
  "lnk (upd_chn chn f s) = lnk s" "lck (upd_chn chn f s) = lck s" "lckdev_queue (upd_chn chn f s) = lckdev_queue s"
  "lckd_dev (upd_chn chn f s) = lckd_dev s" "xreg (upd_chn chn f s) = xreg s" "xmem (upd_chn chn f s) = xmem s"
  "irqs (upd_chn chn f s) = irqs s" "xwr (upd_chn chn f s) = xwr s" "xwoken (upd_chn chn f s) = xwoken s"
  by (simp_all add: upd_chn_def)

section \<open>The abstract locks\<close>

record exi_locks =
  holder :: "nat \<Rightarrow> u32 option"
  waiters :: "nat \<Rightarrow> (u32 \<times> exi_cb) list"
  spare :: nat

definition ab_lock :: "nat \<Rightarrow> u32 \<Rightarrow> exi_cb \<Rightarrow> exi_locks \<Rightarrow> u32 \<times> exi_locks" where
  "ab_lock c d cb a =
     (case holder a c of
        None \<Rightarrow> (1, a\<lparr>holder := (holder a)(c := Some d)\<rparr>)
      | Some _ \<Rightarrow> (0, if cb \<noteq> XNull \<and> 0 < spare a
                      then a\<lparr>waiters := (waiters a)(c := waiters a c @ [(d, cb)]), spare := spare a - 1\<rparr> else a))"

definition ab_unlock :: "nat \<Rightarrow> exi_locks \<Rightarrow> u32 \<times> (u32 \<times> exi_cb) option \<times> exi_locks" where
  "ab_unlock c a =
     (case holder a c of
        None \<Rightarrow> (0, None, a)
      | Some _ \<Rightarrow> (case waiters a c of
          [] \<Rightarrow> (1, None, a\<lparr>holder := (holder a)(c := None)\<rparr>)
        | w # ws \<Rightarrow> (1, Some w, a\<lparr>holder := (holder a)(c := None), waiters := (waiters a)(c := ws), spare := spare a + 1\<rparr>)))"

definition queue_addr :: "exi \<Rightarrow> nat \<Rightarrow> ptr" where
  "queue_addr s i = (if i = 0 then lckdev_queue s else lckd_dev s (i - 1))"

definition lock_info :: "exi \<Rightarrow> ptr \<Rightarrow> u32 \<times> exi_cb" where
  "lock_info s n = (l_dev (lck s n), unlockcb (lck s n))"

definition holder_of :: "exi \<Rightarrow> nat \<Rightarrow> u32 option" where
  "holder_of s c = (if has_flag EXI_FLAG_LOCKED c s then Some (lockeddev (eximap s c)) else None)"

definition lock_view :: "exi \<Rightarrow> (nat \<Rightarrow> u32 list) \<Rightarrow> exi_locks \<Rightarrow> bool" where
  "lock_view s xs a \<longleftrightarrow> pools (lnk s) 4 (queue_addr s) xs \<and> spare a = length (xs 0) \<and>
     (\<forall>c < 3. waiters a c = map (lock_info s) (xs (Suc c)) \<and> holder a c = holder_of s c \<and> (\<forall>n \<in> set (xs (Suc c)). unlockcb (lck s n) \<noteq> XNull))"

definition exi_rel :: "exi \<Rightarrow> exi_locks \<Rightarrow> bool" where
  "exi_rel s a \<longleftrightarrow> (\<exists>xs. lock_view s xs a)"

text \<open>What a step that leaves the locks alone keeps.\<close>

definition locks_of :: "exi \<Rightarrow> wmem \<times> (ptr \<Rightarrow> lck_dev) \<times> ptr \<times> (nat \<Rightarrow> ptr) \<times> (nat \<Rightarrow> u32 option) \<times> u32 list" where
  "locks_of s = (lnk s, lck s, lckdev_queue s, lckd_dev s, holder_of s, xwoken s)"

lemma locks_view:
  assumes "locks_of s' = locks_of s"
  shows "lnk s' = lnk s" "queue_addr s' = queue_addr s" "lock_info s' = lock_info s" "holder_of s' = holder_of s" "xwoken s' = xwoken s" "lck s' = lck s"
  using assms by (auto simp: locks_of_def queue_addr_def lock_info_def fun_eq_iff)

lemma locks_rel: "locks_of s' = locks_of s \<Longrightarrow> lock_view s' xs a = lock_view s xs a" "locks_of s' = locks_of s \<Longrightarrow> exi_rel s' a = exi_rel s a"
  using locks_view [of s' s] by (simp_all add: exi_rel_def lock_view_def)

lemma view_upd [simp]:
  "queue_addr (upd_chn chn f s) = queue_addr s" "lock_info (upd_chn chn f s) = lock_info s"
  "queue_addr (s\<lparr>lnk := m\<rparr>) = queue_addr s" "lock_info (s\<lparr>lnk := m\<rparr>) = lock_info s" "holder_of (s\<lparr>lnk := m\<rparr>) = holder_of s"
  "queue_addr (s\<lparr>lck := l\<rparr>) = queue_addr s" "holder_of (s\<lparr>lck := l\<rparr>) = holder_of s"
  "queue_addr (s\<lparr>xwoken := z\<rparr>) = queue_addr s" "lock_info (s\<lparr>xwoken := z\<rparr>) = lock_info s" "holder_of (s\<lparr>xwoken := z\<rparr>) = holder_of s"
  by (auto simp: queue_addr_def lock_info_def holder_of_def has_flag_def fun_eq_iff)

lemma locks_simps [simp]:
  "locks_of (s\<lparr>irqs := i\<rparr>) = locks_of s" "locks_of (s\<lparr>xreg := x\<rparr>) = locks_of s" "locks_of (s\<lparr>xwr := wr\<rparr>) = locks_of s"
  "locks_of (s\<lparr>xmem := m\<rparr>) = locks_of s" "locks_of (s\<lparr>last_exi_idtime := t\<rparr>) = locks_of s" "locks_of (s\<lparr>xcache := ch\<rparr>) = locks_of s"
  "locks_of (s\<lparr>exi_id_serport1 := v\<rparr>) = locks_of s"
  by (simp_all add: locks_of_def holder_of_def has_flag_def fun_eq_iff)

lemma locks_upd_chn:
  "bit (x_flags (f (eximap s chn))) 4 = bit (x_flags (eximap s chn)) 4 \<Longrightarrow> lockeddev (f (eximap s chn)) = lockeddev (eximap s chn) \<Longrightarrow>
   locks_of (upd_chn chn f s) = locks_of s"
  by (auto simp: locks_of_def holder_of_def flag_bit fun_eq_iff)

lemma locks_flag [simp]:
  "\<not> bit m 4 \<Longrightarrow> locks_of (set_flag m chn s) = locks_of s" "\<not> bit m 4 \<Longrightarrow> locks_of (clr_flag m chn s) = locks_of s"
  unfolding set_flag_def clr_flag_def by (rule locks_upd_chn; simp add: bit_simps)+

lemma locks_field [simp]:
  "locks_of (upd_chn chn (\<lambda>x. x\<lparr>CallbackEXI := cb\<rparr>) s) = locks_of s" "locks_of (upd_chn chn (\<lambda>x. x\<lparr>CallbackTC := cb\<rparr>) s) = locks_of s"
  "locks_of (upd_chn chn (\<lambda>x. x\<lparr>CallbackEXT := cb\<rparr>) s) = locks_of s" "locks_of (upd_chn chn (\<lambda>x. x\<lparr>exi_idtime := t\<rparr>) s) = locks_of s"
  "locks_of (upd_chn chn (\<lambda>x. x\<lparr>imm_buff := p, imm_len := n\<rparr>) s) = locks_of s"
  "locks_of (upd_chn chn (\<lambda>x. x\<lparr>exi_idtime := t, exi_id := v\<rparr>) s) = locks_of s"
  by (rule locks_upd_chn; simp)+

lemma locks_irq [simp]:
  "locks_of (irq_on wii m s) = locks_of s" "locks_of (irq_off wii m s) = locks_of s" "locks_of (set_csr chn v s) = locks_of s"
  "locks_of (set_xreg chn k v s) = locks_of s" "locks_of (exi_clearirqs chn b1 b2 b3 s) = locks_of s" "locks_of (forget_id chn s) = locks_of s"
  "locks_of (exi_setinterrupts wii chn s) = locks_of s"
  by (simp_all add: irq_on_def irq_off_def set_csr_def set_xreg_def exi_clearirqs_def forget_id_def exi_setinterrupts_def Let_def)

section \<open>Refinement\<close>

lemma lock_ok:
  assumes r: "exi_rel s a" and c: "c < 3" and e: "EXI_Lock wii c d cb s = (r, s')"
  shows "\<exists>a'. ab_lock c d cb a = (r, a') \<and> exi_rel s' a'"
proof -
  obtain xs where v: "lock_view s xs a" using r by (auto simp: exi_rel_def)
  note V = v [unfolded lock_view_def]
  show ?thesis
  proof (cases "has_flag EXI_FLAG_LOCKED c s")
    case False
    let ?s = "set_flag EXI_FLAG_LOCKED c (upd_chn c (\<lambda>x. x\<lparr>lockeddev := d\<rparr>) s)"
    have s': "r = 1" "s' = exi_setinterrupts wii c ?s" using e False by (auto simp: EXI_Lock_def)
    have "holder_of ?s = (holder_of s)(c := Some d)"
      by (rule ext) (auto simp: holder_of_def flag_bit set_flag_def bit_simps)
    then have "exi_rel ?s (a\<lparr>holder := (holder a)(c := Some d)\<rparr>)"
      using V unfolding exi_rel_def lock_view_def by (intro exI [of _ xs]) (simp add: set_flag_def)
    moreover have "holder a c = None" using V c False by (simp add: holder_of_def)
    ultimately show ?thesis using s' locks_rel(2) [OF locks_irq(7)] by (auto simp: ab_lock_def)
  next
    case True
    then obtain h where h: "holder a c = Some h" using V c by (auto simp: holder_of_def)
    have q0: "queue_addr s 0 = lckdev_queue s" "queue_addr s (Suc c) = lckd_dev s c" by (simp_all add: queue_addr_def)
    show ?thesis
    proof (cases "cb \<noteq> XNull \<and> xs 0 \<noteq> []")
      case False
      then have "s' = s \<and> r = 0" using e True pools_get_empty [of "lnk s" 4 "queue_addr s" xs 0] V q0 by (auto simp: EXI_Lock_def)
      moreover have "\<not> (cb \<noteq> XNull \<and> 0 < spare a)" using False V by auto
      ultimately show ?thesis using r h by (auto simp: ab_lock_def)
    next
      case take: True
      then obtain n rest where n: "xs 0 = n # rest" by (cases "xs 0") auto
      let ?xs = "xs(0 := rest, Suc c := xs (Suc c) @ [n])"
      have p: "pools (lnk s) 4 (queue_addr s) xs" using V by blast
      obtain m1 where m1: "lwp_queue_getI (lckdev_queue s) (lnk s) = (n, m1)" "n \<noteq> 0" "pools (lwp_queue_appendI (lckd_dev s c) n m1) 4 (queue_addr s) ?xs"
        using pools_move [OF p _ _ _ n, of "Suc c"] c q0 by auto
      let ?s = "s\<lparr>lck := (lck s)(n := \<lparr>l_dev = d, unlockcb = cb\<rparr>), lnk := lwp_queue_appendI (lckd_dev s c) n m1\<rparr>"
      have s': "s' = ?s" "r = 0" using e True take m1(1,2) by (auto simp: EXI_Lock_def)
      have nn: "n \<notin> set (xs (Suc c'))" if "c' < 3" for c'
        using p that n unfolding pools_def by (force simp: set_words)
      have "lock_view ?s ?xs (a\<lparr>waiters := (waiters a)(c := waiters a c @ [(d, cb)]), spare := spare a - 1\<rparr>)"
        using V m1(3) nn n take unfolding lock_view_def by (auto simp: lock_info_def)
      then show ?thesis using s' h take V by (auto simp: ab_lock_def exi_rel_def)
    qed
  qed
qed

lemma unlock_ok:
  assumes r: "exi_rel s a" and c: "c < 3" and u: "ab_unlock c a = (r, w, a')"
  shows "\<exists>s1. exi_rel s1 a' \<and> xwoken s1 = xwoken s \<and> (\<forall>d. w \<noteq> Some (d, XNull)) \<and>
    EXI_Unlock wii call c s = (case w of None \<Rightarrow> Some (r, s1) | Some (d, cb) \<Rightarrow> map_option (Pair r) (call cb c d s1))"
proof -
  obtain xs where v: "lock_view s xs a" using r by (auto simp: exi_rel_def)
  note V = v [unfolded lock_view_def]
  show ?thesis
  proof (cases "has_flag EXI_FLAG_LOCKED c s")
    case False
    then have "holder a c = None" using V c by (simp add: holder_of_def)
    then show ?thesis using u r False by (intro exI [of _ s]) (auto simp: ab_unlock_def EXI_Unlock_def)
  next
    case True
    then obtain h where h: "holder a c = Some h" using V c by (auto simp: holder_of_def)
    let ?u = "clr_flag EXI_FLAG_LOCKED c s" and ?s = "exi_setinterrupts wii c (clr_flag EXI_FLAG_LOCKED c s)"
    have ho: "holder_of ?u = (holder_of s)(c := None)"
      by (rule ext) (auto simp: holder_of_def flag_bit clr_flag_def bit_simps)
    have wk: "xwoken ?s = xwoken s" by (simp add: exi_setinterrupts_def Let_def irq_on_def irq_off_def clr_flag_def)
    have "lock_view ?u xs (a\<lparr>holder := (holder a)(c := None)\<rparr>)"
      using V ho unfolding lock_view_def by (simp add: clr_flag_def)
    then have v1: "lock_view ?s xs (a\<lparr>holder := (holder a)(c := None)\<rparr>)"
      using locks_rel(1) [OF locks_irq(7)] by blast
    then have p: "pools (lnk ?s) 4 (queue_addr ?s) xs" by (simp add: lock_view_def)
    have q0: "queue_addr ?s 0 = lckdev_queue ?s" "queue_addr ?s (Suc c) = lckd_dev ?s c" by (simp_all add: queue_addr_def)
    have em: "lwp_queue_isempty (lckd_dev ?s c) (lnk ?s) \<longleftrightarrow> xs (Suc c) = []" using pools_isempty [OF p, of "Suc c"] c q0 by simp
    have wa: "waiters a c = map (lock_info ?s) (xs (Suc c))" using v1 c by (simp add: lock_view_def)
    show ?thesis
    proof (cases "xs (Suc c)")
      case Nil
      then show ?thesis using u h wa em True v1 wk by (intro exI [of _ ?s]) (auto simp: ab_unlock_def EXI_Unlock_def exi_rel_def Let_def)
    next
      case (Cons n rest)
      let ?xs = "xs(Suc c := rest, 0 := xs 0 @ [n])"
      obtain m1 where m1: "lwp_queue_getI (lckd_dev ?s c) (lnk ?s) = (n, m1)" "n \<noteq> 0" "pools (lwp_queue_appendI (lckdev_queue ?s) n m1) 4 (queue_addr ?s) ?xs"
        using pools_move [OF p _ _ _ Cons, of 0] c q0 by auto
      let ?t = "?s\<lparr>lnk := lwp_queue_appendI (lckdev_queue ?s) n m1\<rparr>"
      have "lock_view ?t ?xs (a\<lparr>holder := (holder a)(c := None), waiters := (waiters a)(c := map (lock_info ?s) rest), spare := spare a + 1\<rparr>)"
        using v1 m1(3) Cons unfolding lock_view_def by simp
      moreover have "EXI_Unlock wii call c s = map_option (Pair 1) (call (snd (lock_info ?s n)) c (fst (lock_info ?s n)) ?t)"
        using True em Cons m1(1) by (simp add: EXI_Unlock_def Let_def lock_info_def)
      moreover have "snd (lock_info ?s n) \<noteq> XNull" using v1 c Cons by (simp add: lock_view_def lock_info_def)
      ultimately show ?thesis using u h wa Cons wk by (intro exI [of _ ?t]) (auto simp: ab_unlock_def exi_rel_def case_prod_beta)
    qed
  qed
qed

lemma rel_woken [simp]: "exi_rel (s\<lparr>xwoken := z\<rparr>) a = exi_rel s a"
  by (simp add: exi_rel_def lock_view_def)

section \<open>Sequences of locks and unlocks\<close>

text \<open>
  Drivers that lock a channel, leaving a callback, or unlock it; the callbacks that are made are noted in
  the state of the program, here the list \<open>xwoken\<close> of tokens of \<^verbatim>\<open>EXI_LockSync\<close>.
\<close>

datatype lock_req = LockReq nat u32 | UnlockReq nat

fun lock_chn :: "lock_req \<Rightarrow> nat" where
  "lock_chn (LockReq c d) = c" | "lock_chn (UnlockReq c) = c"

abbreviation sync_call :: "exi_cb \<Rightarrow> nat \<Rightarrow> u32 \<Rightarrow> exi \<Rightarrow> exi option" where
  "sync_call cb c d s \<equiv> (if cb = XLockSync then Some (exi_locksync_cb c d s) else None)"

fun run_locks :: "bool \<Rightarrow> lock_req list \<Rightarrow> exi \<Rightarrow> exi option" where
  "run_locks wii [] s = Some s"
| "run_locks wii (LockReq c d # rs) s = run_locks wii rs (snd (EXI_Lock wii c d XLockSync s))"
| "run_locks wii (UnlockReq c # rs) s = Option.bind (EXI_Unlock wii sync_call c s) (\<lambda>(r, s'). run_locks wii rs s')"

text \<open>The abstract run also notes which requests had to wait.\<close>

fun ab_run :: "lock_req list \<Rightarrow> exi_locks \<Rightarrow> (nat \<times> u32) list \<Rightarrow> exi_locks \<times> (nat \<times> u32) list" where
  "ab_run [] a log = (a, log)"
| "ab_run (LockReq c d # rs) a log = ab_run rs (snd (ab_lock c d XLockSync a)) log"
| "ab_run (UnlockReq c # rs) a log =
     (case ab_unlock c a of (r, w, a') \<Rightarrow> ab_run rs a' (case w of None \<Rightarrow> log | Some (d, cb) \<Rightarrow> log @ [(c, d)]))"

definition all_sync :: "exi_locks \<Rightarrow> bool" where
  "all_sync a \<longleftrightarrow> (\<forall>c d cb. (d, cb) \<in> set (waiters a c) \<longrightarrow> cb = XLockSync)"

lemma ab_lock_sync: "all_sync a \<Longrightarrow> all_sync (snd (ab_lock c d XLockSync a))"
  by (auto simp: all_sync_def ab_lock_def split: option.splits)

lemma ab_unlock_sync:
  assumes "all_sync a" "ab_unlock c a = (r, w, a')"
  shows "all_sync a' \<and> (\<forall>d cb. w = Some (d, cb) \<longrightarrow> cb = XLockSync)"
proof -
  have s: "\<And>c d cb. (d, cb) \<in> set (waiters a c) \<Longrightarrow> cb = XLockSync" using assms(1) by (simp add: all_sync_def)
  show ?thesis
  proof (cases "holder a c = None \<or> waiters a c = []")
    case True
    then show ?thesis using assms s by (auto simp: ab_unlock_def all_sync_def split: option.splits list.splits)
  next
    case False
    then obtain h d cb ws where h: "holder a c = Some h" "waiters a c = (d, cb) # ws" by (cases "waiters a c") auto
    have "(d', cb') \<in> set ws \<Longrightarrow> cb' = XLockSync" "cb = XLockSync" for d' cb' using s [of _ _ c] unfolding h(2) by auto
    then show ?thesis using assms(2) s h by (auto simp: ab_unlock_def all_sync_def split: if_splits)
  qed
qed

lemma run_refines:
  "exi_rel s a \<Longrightarrow> all_sync a \<Longrightarrow> \<forall>r \<in> set rs. lock_chn r < 3 \<Longrightarrow> xwoken s = map (\<lambda>(c, d). lock_token c d) log \<Longrightarrow>
   \<exists>s'. run_locks wii rs s = Some s' \<and> exi_rel s' (fst (ab_run rs a log)) \<and> xwoken s' = map (\<lambda>(c, d). lock_token c d) (snd (ab_run rs a log))"
proof (induction rs arbitrary: s a log)
  case Nil
  then show ?case by simp
next
  case (Cons q rs)
  show ?case
  proof (cases q)
    case (LockReq c d)
    obtain r s1 where e: "EXI_Lock wii c d XLockSync s = (r, s1)" by fastforce
    then obtain a1 where a1: "ab_lock c d XLockSync a = (r, a1)" "exi_rel s1 a1" using lock_ok [OF Cons.prems(1) _ e] Cons.prems(3) LockReq by auto
    have "xwoken s1 = xwoken s"
      using e by (auto simp: EXI_Lock_def exi_setinterrupts_def irq_on_def irq_off_def set_flag_def Let_def split: if_splits prod.splits)
    then show ?thesis using Cons.IH [OF a1(2), of log] ab_lock_sync [OF Cons.prems(2), of c d] a1(1) Cons.prems LockReq e by simp
  next
    case (UnlockReq c)
    obtain r w a1 where u: "ab_unlock c a = (r, w, a1)" by (cases "ab_unlock c a") auto
    obtain s1 where s1: "exi_rel s1 a1" "xwoken s1 = xwoken s"
        "EXI_Unlock wii sync_call c s = (case w of None \<Rightarrow> Some (r, s1) | Some (d, cb) \<Rightarrow> map_option (Pair r) (sync_call cb c d s1))"
      using unlock_ok [OF Cons.prems(1) _ u, of wii sync_call] Cons.prems(3) UnlockReq by auto
    note sy = ab_unlock_sync [OF Cons.prems(2) u]
    show ?thesis
    proof (cases w)
      case None
      then show ?thesis using Cons.IH [OF s1(1), of log] sy s1 u UnlockReq Cons.prems by simp
    next
      case (Some p)
      then obtain d where w: "w = Some (d, XLockSync)" using sy by (cases p) auto
      then show ?thesis using Cons.IH [of "exi_locksync_cb c d s1" a1 "log @ [(c, d)]"] sy s1 u UnlockReq Cons.prems
        by (simp add: exi_locksync_cb_def)
    qed
  qed
qed

text \<open>In the abstract run the waiters of a channel are served in order and none gets lost.\<close>

fun ab_queued :: "nat \<Rightarrow> lock_req list \<Rightarrow> exi_locks \<Rightarrow> u32 list" where
  "ab_queued c [] a = []"
| "ab_queued c (LockReq c' d # rs) a =
     (if c' = c \<and> holder a c \<noteq> None \<and> 0 < spare a then [d] else []) @ ab_queued c rs (snd (ab_lock c' d XLockSync a))"
| "ab_queued c (UnlockReq c' # rs) a = ab_queued c rs (snd (snd (ab_unlock c' a)))"

lemma ab_fifo:
  "map snd (filter (\<lambda>(c', d). c' = c) (snd (ab_run rs a log))) @ map fst (waiters (fst (ab_run rs a log)) c) =
   map snd (filter (\<lambda>(c', d). c' = c) log) @ map fst (waiters a c) @ ab_queued c rs a"
proof (induction rs a log rule: ab_run.induct)
  case (2 c' d rs a log)
  then show ?case by (auto simp: ab_lock_def split: option.splits)
next
  case (3 c' rs a log)
  obtain r w a1 where u: "ab_unlock c' a = (r, w, a1)" by (cases "ab_unlock c' a") auto
  then show ?case using 3 [OF u [symmetric]] by (auto simp: ab_unlock_def split: option.splits list.splits if_splits prod.splits)
qed simp

lemma ab_count:
  "(\<Sum>c < 3. length (waiters (fst (ab_run rs a log)) c)) + spare (fst (ab_run rs a log)) = (\<Sum>c < 3. length (waiters a c)) + spare a"
  if "\<forall>r \<in> set rs. lock_chn r < 3"
  using that
proof (induction rs a log rule: ab_run.induct)
  case (2 c' d rs a log)
  then have "c' = 0 \<or> c' = Suc 0 \<or> c' = Suc (Suc 0)" by auto
  then show ?case using 2 by (auto simp: ab_lock_def numeral_3_eq_3 split: option.splits)
next
  case (3 c' rs a log)
  then have "c' = 0 \<or> c' = Suc 0 \<or> c' = Suc (Suc 0)" by auto
  moreover obtain r w a1 where u: "ab_unlock c' a = (r, w, a1)" by (cases "ab_unlock c' a") auto
  ultimately show ?case using 3(1) [OF u [symmetric]] 3(2) by (auto simp: ab_unlock_def numeral_3_eq_3 split: option.splits list.splits)
qed simp

end
