(* ===== verification/ExiOps.thy ===== *)
theory ExiOps
  imports ExiInv
begin

text \<open>
  What the other operations of the expansion interface leave alone, and that they return when the
  hardware finishes its transfers; the bytes that \<^verbatim>\<open>EXI_ImmEx\<close> sends.
\<close>

section \<open>Frames\<close>

lemma locks_ops [simp]:
  "locks_of (snd (exi_probe wii chn s)) = locks_of s"
  "locks_of (exi_completetransfer chn s) = locks_of s" "locks_of (arm_tc wii chn cb s) = locks_of s"
  "locks_of (snd (EXI_Imm wii chn p n m cb s)) = locks_of s" "locks_of (snd (EXI_Dma wii chn p n m cb s)) = locks_of s"
  "locks_of (snd (EXI_Detach wii chn s)) = locks_of s" "locks_of (sel_irq (irq_on wii) chn s) = locks_of s" "locks_of (sel_irq (irq_off wii) chn s) = locks_of s"
  by (simp_all add: exi_probe_def exi_completetransfer_def arm_tc_def EXI_Imm_def EXI_Dma_def EXI_Detach_def sel_irq_def Let_def)

lemma locks_ops2 [simp]:
  "locks_of (snd (exi_attach wii chn cb s)) = locks_of s" "locks_of (snd (EXI_Select wii chn d f s)) = locks_of s"
  "locks_of (snd (EXI_Deselect wii chn s)) = locks_of s"
proof -
  obtain r t where p: "exi_probe wii chn s = (r, t)" by fastforce
  have "locks_of t = locks_of s" using locks_ops(1) [of wii chn s] by (simp add: p)
  then show "locks_of (snd (exi_attach wii chn cb s)) = locks_of s" "locks_of (snd (EXI_Select wii chn d f s)) = locks_of s"
    by (simp_all add: exi_attach_def EXI_Select_def Let_def p)
  show "locks_of (snd (EXI_Deselect wii chn s)) = locks_of s" by (simp add: EXI_Deselect_def Let_def)
qed

section \<open>Hardware\<close>

text \<open>
  What is expected of the hardware: it changes registers only, and a transfer it has been given ends
  (the start bit falls after some polls).
\<close>

definition exi_hw :: "(exi \<Rightarrow> exi) \<Rightarrow> bool" where
  "exi_hw dev \<longleftrightarrow> (\<forall>s. \<exists>x h. dev s = s\<lparr>xreg := x, irqs := (irqs s)\<lparr>hw := h\<rparr>\<rparr>) \<and> (\<forall>s chn. \<exists>n. xreg ((dev ^^ n) s) chn 3 AND 1 = 0)"

definition hw_step :: "exi \<Rightarrow> exi \<Rightarrow> bool" where
  "hw_step s s' \<longleftrightarrow> (\<exists>x h. s' = s\<lparr>xreg := x, irqs := (irqs s)\<lparr>hw := h\<rparr>\<rparr>)"

lemma hw_step_refl: "hw_step s s"
  unfolding hw_step_def by (intro exI [of _ "xreg s"] exI [of _ "hw (irqs s)"]) simp

lemma hw_step_trans: "hw_step s t \<Longrightarrow> hw_step t u \<Longrightarrow> hw_step s u"
  unfolding hw_step_def by (elim exE) (simp, blast)

lemma hw_step_keeps:
  assumes "hw_step s s'"
  shows "eximap s' = eximap s" "xmem s' = xmem s" "xwr s' = xwr s" "locks_of s' = locks_of s" "has_flag m chn s' = has_flag m chn s"
    "loc_id s' = loc_id s" "loc_reg s' = loc_reg s" "xcache s' = xcache s" "irq_ks (irqs s') = irq_ks (irqs s)"
  using assms by (auto simp: hw_step_def has_flag_def)

lemma exi_hw_step: "exi_hw dev \<Longrightarrow> hw_step s (dev s)"
  by (auto simp: exi_hw_def hw_step_def)

lemma poll_ok:
  assumes "exi_hw dev"
  shows "\<exists>s'. exi_poll dev chn s = Some s' \<and> hw_step s s' \<and> (has_flag EXI_FLAG_SELECT chn s \<longrightarrow> xreg s' chn 3 AND 1 = 0)"
proof -
  obtain n where "xreg ((dev ^^ n) s) chn 3 AND 1 = 0" using assms unfolding exi_hw_def by blast
  then show ?thesis
  proof (induction n arbitrary: s)
    case 0
    then show ?case using hw_step_refl by (simp add: exi_poll.simps)
  next
    case (Suc n)
    have "xreg ((dev ^^ n) (dev s)) chn 3 AND 1 = 0" using Suc.prems by (simp add: funpow_swap1)
    from Suc.IH [OF this] obtain s' where s': "exi_poll dev chn (dev s) = Some s'" "hw_step (dev s) s'"
        "has_flag EXI_FLAG_SELECT chn (dev s) \<longrightarrow> xreg s' chn 3 AND 1 = 0" by blast
    note d = exi_hw_step [OF assms, of s]
    show ?case
    proof (cases "has_flag EXI_FLAG_SELECT chn s \<and> xreg s chn 3 AND 1 \<noteq> 0")
      case True
      then show ?thesis using s' hw_step_trans [OF d s'(2)] hw_step_keeps(5) [OF d] by (simp add: exi_poll.simps [of dev chn s])
    next
      case False
      then show ?thesis using hw_step_refl by (auto simp: exi_poll.simps [of dev chn s])
    qed
  qed
qed

lemma exi_sync_ok:
  assumes "exi_hw dev"
  shows "\<exists>s1. hw_step s s1 \<and> EXI_Sync dev chn s =
    Some (if has_flag EXI_FLAG_SELECT chn s then (1, exi_completetransfer chn s1) else (0, s1))"
  using poll_ok [OF assms, of chn s] hw_step_keeps(5) by (fastforce simp: EXI_Sync_def)

section \<open>Immediate transfers\<close>

lemma pack4:
  fixes a b c d :: u8
  defines "v \<equiv> push_bit 24 (ucast a) OR push_bit 16 (ucast b) OR push_bit 8 (ucast c) OR ucast d :: u32"
  shows "ucast (drop_bit 24 v) = a" "ucast (drop_bit 16 v) = b" "ucast (drop_bit 8 v) = c" "ucast v = d"
  unfolding v_def by (rule bit_eqI; auto simp: bit_simps dest: bit_imp_le_length)+

lemma imm_bytes_value:
  assumes "length bs \<le> 4"
  shows "imm_bytes (length bs) (imm_value bs) = bs"
proof -
  have "length bs = 0 \<or> length bs = 1 \<or> length bs = 2 \<or> length bs = 3 \<or> length bs = 4" using assms by linarith
  then consider "bs = []" | a where "bs = [a]" | a b where "bs = [a, b]" | a b c where "bs = [a, b, c]" | a b c d where "bs = [a, b, c, d]"
    by (auto simp: length_Suc_conv numeral_eq_Suc)
  then show ?thesis
    using pack4 [where b = 0 and c = 0 and d = 0] pack4 [where c = 0 and d = 0] pack4 [where d = 0] pack4
    by cases (simp_all add: imm_bytes_def imm_value_def upt_rec del: drop_bit_or)
qed

text \<open>The bytes that the writes to the registers of a channel send; \<open>d\<close> is the data register.\<close>

fun sent_bytes :: "nat \<Rightarrow> u32 \<Rightarrow> (nat \<times> nat \<times> u32) list \<Rightarrow> u8 list" where
  "sent_bytes chn d [] = []"
| "sent_bytes chn d ((c, k, v) # l) =
     (if c = chn \<and> k = 4 then sent_bytes chn v l
      else if c = chn \<and> k = 3 \<and> v AND 2 = 0 \<and> drop_bit 2 v AND 3 \<noteq> EXI_READ
      then imm_bytes (unat (drop_bit 4 v AND 3) + 1) d @ sent_bytes chn d l
      else sent_bytes chn d l)"

lemma sent_append: "sent_bytes chn d (l @ l') = sent_bytes chn d l @ sent_bytes chn (foldl (\<lambda>d (c, k, v). if c = chn \<and> k = 4 then v else d) d l) l'"
  by (induction chn d l rule: sent_bytes.induct) auto

definition idle :: "nat \<Rightarrow> exi \<Rightarrow> bool" where
  "idle chn s \<longleftrightarrow> has_flag EXI_FLAG_SELECT chn s \<and> \<not> has_flag (EXI_FLAG_DMA OR EXI_FLAG_IMM) chn s"

lemma complete_keeps [simp]:
  "xwr (exi_completetransfer chn s) = xwr s" "xcache (exi_completetransfer chn s) = xcache s" "irqs (exi_completetransfer chn s) = irqs s"
  by (simp_all add: exi_completetransfer_def Let_def clr_flag_def upd_chn_def)

lemma complete_idle: "has_flag EXI_FLAG_SELECT chn s \<Longrightarrow> idle chn (exi_completetransfer chn s)"
  by (auto simp: idle_def busy_bit flag_bit exi_completetransfer_def clr_flag_def bit_simps Let_def)

lemma chunk_sends:
  assumes hw: "exi_hw dev" and i: "idle chn s" and n: "0 < n" "n \<le> 4"
  shows "\<exists>s1 s2 l. EXI_Imm wii chn p (of_nat n) EXI_WRITE XNull s = (1, s1) \<and> EXI_Sync dev chn s1 = Some (1, s2) \<and> idle chn s2 \<and>
    xmem s2 = xmem s \<and> locks_of s2 = locks_of s \<and> xcache s2 = xcache s \<and> irq_ks (irqs s2) = irq_ks (irqs s) \<and>
    xwr s2 = xwr s @ l \<and> (\<forall>d. sent_bytes chn d l = load_bytes (xmem s) p n)"
proof -
  let ?v = "imm_value (load_bytes (xmem s) p n)" and ?cr = "push_bit 4 ((of_nat n - 1) AND 3) OR push_bit 2 (EXI_WRITE AND 3) OR 1 :: u32"
  obtain s1 where s1: "EXI_Imm wii chn p (of_nat n) EXI_WRITE XNull s = (1, s1)" "xwr s1 = xwr s @ [(chn, 4, ?v), (chn, 3, ?cr)]"
      "xmem s1 = xmem s" "xcache s1 = xcache s" "irqs s1 = irqs s" "has_flag EXI_FLAG_SELECT chn s1" "imm_len (eximap s1 chn) = 0"
    using i n by (auto simp: EXI_Imm_def idle_def Let_def arm_tc_def set_flag_def set_xreg_def upd_chn_def flag_bit bit_simps unat_of_nat take_bit_nat_eq_self)
  obtain s2 where h: "hw_step s1 s2" "EXI_Sync dev chn s1 = Some (1, exi_completetransfer chn s2)" using exi_sync_ok [OF hw, of s1 chn] s1(6) by auto
  note k = hw_step_keeps [OF h(1)]
  have "xmem (exi_completetransfer chn s2) = xmem s2" using s1(7) k(1) by (simp add: exi_completetransfer_def clr_flag_def Let_def)
  moreover have "locks_of s1 = locks_of s" using locks_ops(4) [of wii chn p "of_nat n" EXI_WRITE XNull s] s1(1) by simp
  moreover have "sent_bytes chn d [(chn, 4, ?v), (chn, 3, ?cr)] = load_bytes (xmem s) p n" for d
  proof -
    have "n = 1 \<or> n = 2 \<or> n = 3 \<or> n = 4" using n by linarith
    then have "?cr AND 2 = 0 \<and> drop_bit 2 ?cr AND 3 = 1 \<and> unat (drop_bit 4 ?cr AND 3) + 1 = n" by (elim disjE) simp_all
    then show ?thesis using imm_bytes_value [of "load_bytes (xmem s) p n"] n(2) by simp
  qed
  ultimately show ?thesis
    using s1 h k complete_idle [of chn s2] by (intro exI [of _ s1] exI [of _ "exi_completetransfer chn s2"] exI [of _ "[(chn, 4, ?v), (chn, 3, ?cr)]"]) simp
qed

lemma immex_sends:
  assumes "exi_hw dev"
  shows "idle chn s \<Longrightarrow> \<exists>s' l. exi_immex wii dev chn p n EXI_WRITE ret s = Some (if n = 0 then ret else 1, s') \<and> idle chn s' \<and>
    xmem s' = xmem s \<and> locks_of s' = locks_of s \<and> xcache s' = xcache s \<and> irq_ks (irqs s') = irq_ks (irqs s) \<and>
    xwr s' = xwr s @ l \<and> (\<forall>d. sent_bytes chn d l = load_bytes (xmem s) p n)"
proof (induction n arbitrary: p ret s rule: less_induct)
  case (less n)
  show ?case
  proof (cases "n = 0")
    case True
    then show ?thesis using less.prems by (intro exI [of _ s] exI [of _ "[]"]) (simp add: load_bytes_def)
  next
    case False
    let ?k = "min n 4"
    obtain s1 s2 l where c: "EXI_Imm wii chn p (of_nat ?k) EXI_WRITE XNull s = (1, s1)" "EXI_Sync dev chn s1 = Some (1, s2)" "idle chn s2"
        "xmem s2 = xmem s" "locks_of s2 = locks_of s" "xcache s2 = xcache s" "irq_ks (irqs s2) = irq_ks (irqs s)" "xwr s2 = xwr s @ l"
        "\<And>d. sent_bytes chn d l = load_bytes (xmem s) p ?k"
      using chunk_sends [OF assms less.prems, of ?k wii p] False by auto
    obtain s' l' where r: "exi_immex wii dev chn (p + of_nat ?k) (n - ?k) EXI_WRITE 1 s2 = Some (1, s')" "idle chn s'"
        "xmem s' = xmem s" "locks_of s' = locks_of s" "xcache s' = xcache s" "irq_ks (irqs s') = irq_ks (irqs s)" "xwr s' = xwr s @ l @ l'"
        "\<And>d. sent_bytes chn d l' = load_bytes (xmem s) (p + of_nat ?k) (n - ?k)"
      using less.IH [of "n - ?k" s2 "p + of_nat ?k" 1] False c by auto
    have "load_bytes (xmem s) p n = load_bytes (xmem s) p ?k @ load_bytes (xmem s) (p + of_nat ?k) (n - ?k)"
      using load_bytes_add [of "xmem s" p ?k "n - ?k"] by simp
    then have "sent_bytes chn d (l @ l') = load_bytes (xmem s) p n" for d using c(9) r(8) by (simp add: sent_append)
    then show ?thesis using False c(1,2) r by (intro exI [of _ s'] exI [of _ "l @ l'"]) (simp add: exi_immex.simps [of wii dev chn p n] Let_def)
  qed
qed

section \<open>Long transfers\<close>

lemma and_31: "unat (x AND 0x1f :: u32) = unat x mod 32"
proof -
  have "(0x1f :: u32) = mask 5" by (simp add: mask_numeral)
  then have "x AND 0x1f = take_bit 5 x" by (simp only: take_bit_eq_mask)
  then show ?thesis by (simp only: unsigned_take_bit_eq) (simp add: take_bit_eq_mod)
qed

lemma and_not_31: "unat (x AND NOT 0x1f :: u32) = unat x - unat x mod 32"
proof -
  have "(0x1f :: u32) = mask 5" by (simp add: mask_numeral)
  then show ?thesis using align_down [of x 5] by simp
qed

lemma round_up_mod:
  fixes x k :: nat
  assumes "0 < k"
  shows "(x + (k - x mod k)) mod k = 0"
proof -
  have "x mod k < k" using assms by simp
  moreover have "x = k * (x div k) + x mod k" by simp
  ultimately have "x + (k - x mod k) = k * (x div k) + k" by (metis add.assoc le_add_diff_inverse less_imp_le_nat)
  then show ?thesis by simp
qed

text \<open>The three parts of a long transfer: together they are the buffer, and the middle one consists of whole cache lines.\<close>

lemma xfer_split:
  assumes "(if p AND 0x1f \<noteq> 0 then 0x40 else 0x20) \<le> n"
  defines "h \<equiv> xfer_head p" and "b \<equiv> (n - xfer_head p) AND NOT 0x1f" and "t \<equiv> (n - xfer_head p) AND 0x1f"
  shows "unat h + unat b + unat t = unat n" "32 dvd unat b" "0 < unat b" "unat t < 32" "unat h < 32" "32 dvd unat (p + h)"
proof -
  have m: "p AND 0x1f = 0 \<longleftrightarrow> unat p mod 32 = 0" using and_31 [of p] by (metis unat_eq_zero)
  have n: "(if unat p mod 32 = 0 then 32 else 64) \<le> unat n"
    using assms(1) m by (auto simp: word_le_nat_alt split: if_splits)
  have h: "unat h = (32 - unat p mod 32) mod 32"
  proof (cases "unat p mod 32 = 0")
    case True
    then show ?thesis using m by (simp add: h_def xfer_head_def)
  next
    case False
    have "unat p mod 32 < 32" by simp
    then have "p AND 0x1f \<le> 0x20" by (simp add: word_le_nat_alt and_31)
    then have "unat (0x20 - (p AND 0x1f)) = 32 - unat p mod 32" by (simp add: unat_sub and_31)
    then show ?thesis using False m by (simp add: h_def xfer_head_def)
  qed
  have pm: "unat p mod 32 < 32" by simp
  show h32: "unat h < 32" unfolding h by simp
  have nh: "unat (n - h) = unat n - unat h" using h32 n by (intro unat_sub) (auto simp: word_le_nat_alt split: if_splits)
  have b: "unat b = (unat n - unat h) - (unat n - unat h) mod 32" unfolding b_def using and_not_31 [of "n - h"] nh h_def by simp
  have t: "unat t = (unat n - unat h) mod 32" unfolding t_def using and_31 [of "n - h"] nh h_def by simp
  have "32 \<le> unat n - unat h" using n h32 h by (auto split: if_splits)
  then show "0 < unat b" unfolding b using mod_less_divisor [of 32 "unat n - unat h"] by linarith
  show "unat h + unat b + unat t = unat n" unfolding b t using \<open>32 \<le> unat n - unat h\<close> mod_less_eq_dividend [of "unat n - unat h" 32] by linarith
  show "32 dvd unat b" unfolding b by (simp add: minus_mod_eq_mult_div)
  show "unat t < 32" unfolding t by simp
  have "unat (p + h) mod 32 = (unat p + unat h) mod 32"
    by (simp only: unat_word_ariths) (rule mod_mod_cancel, simp)
  also have "\<dots> = (unat p + (32 - unat p mod 32)) mod 32" unfolding h by (rule mod_add_right_eq)
  also have "\<dots> = 0" by (rule round_up_mod) simp
  finally show "32 dvd unat (p + h)" by (simp add: dvd_eq_mod_eq_0)
qed

text \<open>The register writes that start a DMA transfer to the device.\<close>

definition dma_writes :: "nat \<Rightarrow> ptr \<Rightarrow> u32 \<Rightarrow> (nat \<times> nat \<times> u32) list" where
  "dma_writes chn p n = [(chn, 1, MEM_VIRTUAL_TO_PHYSICAL p AND NOT 0x1f), (chn, 2, n), (chn, 3, 7)]"

lemma dma_starts:
  assumes "idle chn s"
  shows "\<exists>s'. EXI_Dma wii chn p n EXI_WRITE cb s = (1, s') \<and> has_flag EXI_FLAG_SELECT chn s' \<and> xmem s' = xmem s \<and> locks_of s' = locks_of s \<and>
    xcache s' = xcache s \<and> imm_len (eximap s' chn) = 0 \<and> xwr s' = xwr s @ dma_writes chn p n"
proof -
  have k: "xcache (arm_tc wii chn cb s) = xcache s" "xmem (arm_tc wii chn cb s) = xmem s" "xwr (arm_tc wii chn cb s) = xwr s"
      "x_flags (eximap (arm_tc wii chn cb s) chn) = x_flags (eximap s chn)"
    by (simp_all add: arm_tc_def irq_on_def exi_clearirqs_def set_csr_def upd_chn_def Let_def)
  obtain s' where s': "EXI_Dma wii chn p n EXI_WRITE cb s = (1, s')" "has_flag EXI_FLAG_SELECT chn s'" "xmem s' = xmem s"
      "xcache s' = xcache s" "imm_len (eximap s' chn) = 0" "xwr s' = xwr s @ dma_writes chn p n"
    using assms k by (auto simp: EXI_Dma_def idle_def Let_def set_flag_def set_xreg_def upd_chn_def flag_bit bit_simps dma_writes_def)
  moreover have "locks_of s' = locks_of s" using locks_ops(5) [of wii chn p n EXI_WRITE cb s] s'(1) by simp
  ultimately show ?thesis by blast
qed

text \<open>The first part of a long write, up to the start of the DMA transfer.\<close>

lemma head_sends:
  assumes "exi_hw dev" "idle chn s"
  shows "\<exists>s1 l. (if p AND 0x1f \<noteq> 0 then EXI_ImmEx wii dev chn p (xfer_head p) EXI_WRITE s else Some (1, s)) = Some (1, s1) \<and> idle chn s1 \<and>
    xmem s1 = xmem s \<and> locks_of s1 = locks_of s \<and> xcache s1 = xcache s \<and> irq_ks (irqs s1) = irq_ks (irqs s) \<and>
    xwr s1 = xwr s @ l \<and> (\<forall>d. sent_bytes chn d l = load_bytes (xmem s) p (unat (xfer_head p)))"
proof (cases "p AND 0x1f = 0")
  case True
  then show ?thesis using assms(2) by (intro exI [of _ s] exI [of _ "[]"]) (simp add: xfer_head_def load_bytes_def)
next
  case False
  have "unat (xfer_head p) \<noteq> 0"
  proof
    assume "unat (xfer_head p) = 0"
    then have "p AND 0x1f = 0x20" using False by (simp add: xfer_head_def unat_eq_zero)
    then have "unat (p AND 0x1f) = 32" by simp
    then show False using and_31 [of p] mod_less_divisor [of 32 "unat p"] by simp
  qed
  then show ?thesis using immex_sends [OF assms, of wii p "unat (xfer_head p)" 0] False by (simp add: EXI_ImmEx_def)
qed

lemma transfer_starts:
  assumes hw: "exi_hw dev" and i: "idle chn s" and n: "(if p AND 0x1f \<noteq> 0 then 0x40 else 0x20) \<le> n"
  defines "h \<equiv> xfer_head p" and "b \<equiv> (n - xfer_head p) AND NOT 0x1f" and "t \<equiv> (n - xfer_head p) AND 0x1f"
  shows "\<exists>s1 l. has_flag EXI_FLAG_SELECT chn s1 \<and> imm_len (eximap s1 chn) = 0 \<and> xmem s1 = xmem s \<and> locks_of s1 = locks_of s \<and>
    xcache s1 = xcache s @ [(EXI_WRITE, p + h, b)] \<and> xwr s1 = xwr s @ l @ dma_writes chn (p + h) b \<and>
    (\<forall>d. sent_bytes chn d l = load_bytes (xmem s) p (unat h)) \<and>
    EXI_Transfer wii dev chn p n EXI_WRITE s =
      (if PPCIsInExcpt (irq_ks (irqs s)) then
         do { s2 \<leftarrow> map_option snd (EXI_Sync dev chn s1); map_option (map_prod Some id) (EXI_Transfer_resume wii dev chn (p + h + b) t EXI_WRITE 1 s2) }
       else Some (None, s1))"
proof -
  obtain u l where u: "(if p AND 0x1f \<noteq> 0 then EXI_ImmEx wii dev chn p (xfer_head p) EXI_WRITE s else Some (1, s)) = Some (1, u)" "idle chn u"
      "xmem u = xmem s" "locks_of u = locks_of s" "xcache u = xcache s" "irq_ks (irqs u) = irq_ks (irqs s)"
      "xwr u = xwr s @ l" "\<And>d. sent_bytes chn d l = load_bytes (xmem s) p (unat (xfer_head p))"
    using head_sends [OF hw i, of p wii] by blast
  let ?u = "u\<lparr>xcache := xcache u @ [(EXI_WRITE, p + h, b)]\<rparr>" and ?cb = "if PPCIsInExcpt (irq_ks (irqs s)) then XNull else XXfer"
  have "idle chn ?u" using u(2) by (simp add: idle_def has_flag_def)
  from dma_starts [OF this, of wii "p + h" b ?cb] obtain s1 where s1: "EXI_Dma wii chn (p + h) b EXI_WRITE ?cb ?u = (1, s1)"
      "has_flag EXI_FLAG_SELECT chn s1" "xmem s1 = xmem u" "locks_of s1 = locks_of u" "xcache s1 = xcache u @ [(EXI_WRITE, p + h, b)]"
      "imm_len (eximap s1 chn) = 0" "xwr s1 = xwr u @ dma_writes chn (p + h) b" by auto
  have nl: "\<not> n < (if p AND 0x1f \<noteq> 0 then 0x40 else 0x20)" "\<not> EXI_WRITE = EXI_READWRITE" using n by (simp_all only: not_less) simp
  have "EXI_Transfer wii dev chn p n EXI_WRITE s =
      (if PPCIsInExcpt (irq_ks (irqs s)) then
         do { s2 \<leftarrow> map_option snd (EXI_Sync dev chn s1); map_option (map_prod Some id) (EXI_Transfer_resume wii dev chn (p + h + b) t EXI_WRITE 1 s2) }
       else Some (None, s1))"
    unfolding EXI_Transfer_def if_not_P [OF nl(1)] if_not_P [OF nl(2)] u(1)
    using u(6) s1(1) by (cases "PPCIsInExcpt (irq_ks (irqs s))") (simp_all add: Let_def h_def b_def t_def)
  then show ?thesis using s1 u h_def by (intro exI [of _ s1] exI [of _ l]) simp
qed

lemma transfer_tail:
  assumes "exi_hw dev" "idle chn s"
  shows "\<exists>s' l. EXI_Transfer_resume wii dev chn p t EXI_WRITE 1 s = Some (1, s') \<and> idle chn s' \<and> xmem s' = xmem s \<and> locks_of s' = locks_of s \<and>
    xcache s' = xcache s \<and> xwr s' = xwr s @ l \<and> (\<forall>d. sent_bytes chn d l = load_bytes (xmem s) p (unat t))"
proof (cases "t = 0")
  case True
  then show ?thesis using assms(2) by (intro exI [of _ s] exI [of _ "[]"]) (simp add: EXI_Transfer_resume_def load_bytes_def)
next
  case False
  then have "unat t \<noteq> 0" by (simp add: unat_eq_zero)
  then show ?thesis using immex_sends [OF assms, of wii p "unat t" 0] False by (auto simp: EXI_Transfer_resume_def EXI_ImmEx_def)
qed

lemma sync_dma:
  assumes "exi_hw dev" "has_flag EXI_FLAG_SELECT chn s" "imm_len (eximap s chn) = 0"
  shows "\<exists>s'. EXI_Sync dev chn s = Some (1, s') \<and> idle chn s' \<and> xmem s' = xmem s \<and> locks_of s' = locks_of s \<and> xcache s' = xcache s \<and> xwr s' = xwr s"
proof -
  obtain s1 where h: "hw_step s s1" "EXI_Sync dev chn s = Some (1, exi_completetransfer chn s1)" using exi_sync_ok [OF assms(1), of s chn] assms(2) by auto
  note k = hw_step_keeps [OF h(1)]
  have "xmem (exi_completetransfer chn s1) = xmem s1" using assms(3) k(1) by (simp add: exi_completetransfer_def clr_flag_def Let_def)
  then show ?thesis using h(2) k complete_idle [of chn s1] assms(2) by simp
qed

section \<open>Unlocking returns\<close>

lemma sync_locks:
  assumes "exi_hw dev"
  shows "\<exists>r s'. EXI_Sync dev chn s = Some (r, s') \<and> locks_of s' = locks_of s"
proof -
  obtain s1 where "hw_step s s1" "EXI_Sync dev chn s = Some (if has_flag EXI_FLAG_SELECT chn s then (1, exi_completetransfer chn s1) else (0, s1))"
    using exi_sync_ok [OF assms] by blast
  then show ?thesis using hw_step_keeps(4) by (cases "has_flag EXI_FLAG_SELECT chn s") auto
qed

lemma read_id_ok:
  assumes "exi_hw dev"
  shows "\<exists>s'. exi_read_id wii dev chn d nId s = Some s' \<and> locks_of s' = locks_of s"
proof -
  obtain r s1 where s1: "EXI_Select wii chn d 0 s = (r, s1)" by fastforce
  have l1: "locks_of s1 = locks_of s" using locks_ops2(2) [of wii chn d 0 s] s1 by simp
  let ?i = "snd (EXI_Imm wii chn (loc_reg s1) 2 EXI_WRITE XNull (s1\<lparr>xmem := store_u32 (loc_reg s1) 0 (xmem s1)\<rparr>))"
  obtain r2 s2 where s2: "EXI_Sync dev chn ?i = Some (r2, s2)" "locks_of s2 = locks_of ?i" using sync_locks [OF assms] by blast
  obtain r3 s3 where s3: "EXI_Sync dev chn (snd (EXI_Imm wii chn nId 4 EXI_READ XNull s2)) = Some (r3, s3)"
      "locks_of s3 = locks_of (snd (EXI_Imm wii chn nId 4 EXI_READ XNull s2))" using sync_locks [OF assms] by blast
  show ?thesis using s1 l1 s2 s3 by (simp add: exi_read_id_def)
qed

text \<open>The callbacks of a channel with \<open>k\<close> waiters left all return.\<close>

definition calls_ok :: "(exi_cb \<Rightarrow> nat \<Rightarrow> u32 \<Rightarrow> exi \<Rightarrow> exi option) \<Rightarrow> nat \<Rightarrow> nat \<Rightarrow> bool" where
  "calls_ok call c k \<longleftrightarrow> (\<forall>cb d s a. cb \<noteq> XNull \<and> exi_rel s a \<and> length (waiters a c) < k \<longrightarrow> (\<exists>s' a'. call cb c d s = Some s' \<and> exi_rel s' a'))"

lemma unlock_returns:
  assumes "exi_rel s a" "c < 3" "calls_ok call c (length (waiters a c))"
  shows "\<exists>r s' a'. EXI_Unlock wii call c s = Some (r, s') \<and> exi_rel s' a'"
proof -
  obtain r w a' where u: "ab_unlock c a = (r, w, a')" by (cases "ab_unlock c a") auto
  obtain s1 where s1: "exi_rel s1 a'" "\<forall>d. w \<noteq> Some (d, XNull)"
      "EXI_Unlock wii call c s = (case w of None \<Rightarrow> Some (r, s1) | Some (d, cb) \<Rightarrow> map_option (Pair r) (call cb c d s1))"
    using unlock_ok [OF assms(1,2) u, of wii call] by blast
  show ?thesis
  proof (cases w)
    case None
    then show ?thesis using s1 by auto
  next
    case (Some p)
    then obtain d cb where w: "w = Some (d, cb)" "cb \<noteq> XNull" using s1(2) by (cases p) auto
    have "length (waiters a' c) < length (waiters a c)" using u w(1) by (auto simp: ab_unlock_def split: option.splits list.splits)
    then obtain s2 a2 where "call cb c d s1 = Some s2" "exi_rel s2 a2" using assms(3) s1(1) w(2) unfolding calls_ok_def by blast
    then show ?thesis using s1(3) w(1) by auto
  qed
qed

lemma getid_returns:
  assumes hw: "exi_hw dev" and r: "exi_rel s a" and c: "c < 3" and k: "calls_ok call c (length (waiters a c))"
  shows "\<exists>r s' a'. EXI_GetID wii dev call c d nId s = Some (r, s') \<and> exi_rel s' a'"
proof -
  let ?card = "c < 2 \<and> d = 0"
  obtain pr s1 where s1: "(if ?card then exi_probe wii c s else (1, s)) = (pr, s1)" by fastforce
  obtain at s2 where s2: "(if ?card then exi_attach wii c XNull s1 else (1, s1)) = (at, s2)" by fastforce
  have "locks_of (snd (if ?card then exi_probe wii c s else (1, s))) = locks_of s" by simp
  then have l1: "locks_of s1 = locks_of s" by (simp only: s1 snd_conv)
  have "locks_of (snd (if ?card then exi_attach wii c XNull s1 else (1, s1))) = locks_of s1" by simp
  then have l: "locks_of s1 = locks_of s" "locks_of s2 = locks_of s" by (simp_all only: s2 snd_conv l1)
  then have r2: "exi_rel s1 a" "exi_rel s2 a" using r locks_rel(2) by blast+
  obtain ret s3 where s3: "EXI_Lock wii c d (if ?card then XUnlocked else XNull) s2 = (ret, s3)" by fastforce
  obtain a3 where a3: "ab_lock c d (if ?card then XUnlocked else XNull) a = (ret, a3)" "exi_rel s3 a3" using lock_ok [OF r2(2) c s3] by blast
  have "\<exists>s5 a5. (if ret \<noteq> 0 then do { s4 \<leftarrow> exi_read_id wii dev c d nId s3; map_option snd (EXI_Unlock wii call c s4) } else Some s3) = Some s5 \<and> exi_rel s5 a5"
  proof (cases "ret = 0")
    case True
    then show ?thesis using a3(2) by auto
  next
    case False
    then have "waiters a3 = waiters a" using a3(1) by (auto simp: ab_lock_def split: option.splits)
    obtain s4 where s4: "exi_read_id wii dev c d nId s3 = Some s4" "locks_of s4 = locks_of s3" using read_id_ok [OF hw] by blast
    have "exi_rel s4 a3" using s4(2) a3(2) locks_rel(2) by blast
    from unlock_returns [OF this c, of call wii] k obtain r5 s5 a5 where "EXI_Unlock wii call c s4 = Some (r5, s5)" "exi_rel s5 a5"
      using \<open>waiters a3 = waiters a\<close> by auto
    then show ?thesis using s4(1) False by auto
  qed
  then obtain s5 a5 where s5: "(if ret \<noteq> 0 then do { s4 \<leftarrow> exi_read_id wii dev c d nId s3; map_option snd (EXI_Unlock wii call c s4) } else Some s3) = Some s5"
      "exi_rel s5 a5" by blast
  have l6: "locks_of t = locks_of s5 \<Longrightarrow> exi_rel t a5" for t using s5(2) locks_rel(2) by blast
  have x: "exi_rel (s\<lparr>xmem := m\<rparr>) a" "exi_rel (s1\<lparr>xmem := m\<rparr>) a" for m using r r2(1) locks_rel(2) locks_simps(4) by blast+
  show ?thesis
    unfolding EXI_GetID_def Let_def s1 s2 prod.case s3 s5(1) bind.bind_lunit
    using x r2 s5(2) by (auto intro: l6 [THEN exI [of "exi_rel _"]])
qed

lemma exi_call_returns:
  assumes hw: "exi_hw dev" and c: "c < 3" and user: "\<And>u d s a. exi_rel s a \<Longrightarrow> \<exists>s' a'. user u c d s = Some s' \<and> exi_rel s' a'"
  shows "calls_ok (exi_call k wii dev user) c k"
proof (induction k)
  case 0
  then show ?case by (simp add: calls_ok_def)
next
  case (Suc k)
  show ?case
    unfolding calls_ok_def
  proof (intro allI impI, elim conjE)
    fix cb d s a
    assume a: "cb \<noteq> XNull" "exi_rel s a" "length (waiters a c) < Suc k"
    have w: "exi_rel (s\<lparr>xwoken := z\<rparr>) a" for z
      using a(2) by simp
    have "calls_ok (exi_call k wii dev user) c (length (waiters a c))"
      using Suc.IH a(3) unfolding calls_ok_def by (meson less_SucE less_Suc_eq_le less_le_trans)
    from getid_returns [OF hw a(2) c this] show "\<exists>s' a'. exi_call (Suc k) wii dev user cb c d s = Some s' \<and> exi_rel s' a'"
      using a(1,2) w user by (cases cb) (fastforce simp: exi_locksync_cb_def exi_xfer_cb_def)+
  qed
qed


end
