(* ===== verification/SramInv.thy ===== *)
theory SramInv
  imports Sram ExiOps
begin

text \<open>Lemmas on the battery-backed memory: the struct in memory, and the transfers on a free bus.\<close>

section \<open>Words in memory\<close>

lemma load_u32_bytes: "load_u32 m a = push_bit 24 (ucast (m a)) OR push_bit 16 (ucast (m (a + 1))) OR push_bit 8 (ucast (m (a + 2))) OR ucast (m (a + 3))"
  by (simp add: load_u32_def)

lemma be4: "be_bytes 4 v = [ucast (drop_bit 24 v), ucast (drop_bit 16 v), ucast (drop_bit 8 v), ucast v]"
  by (simp add: be_bytes_def upt_rec)

lemma be2: "be_bytes 2 v = [ucast (drop_bit 8 v), ucast v]"
  by (simp add: be_bytes_def upt_rec)

lemma load_store_u32 [simp]: "load_u32 (store_u32 a v m) a = v"
proof -
  have "load_u32 (store_u32 a v m) a = push_bit 24 (ucast (ucast (drop_bit 24 (ucast v :: u64)) :: u8)) OR
      push_bit 16 (ucast (ucast (drop_bit 16 (ucast v :: u64)) :: u8)) OR push_bit 8 (ucast (ucast (drop_bit 8 (ucast v :: u64)) :: u8)) OR
      ucast (ucast (ucast v :: u64) :: u8)"
    by (simp add: load_u32_def store_u32_def store_bytes_def be4)
  also have "\<dots> = v" by (rule bit_eqI) (auto simp: bit_simps)
  finally show ?thesis .
qed

lemma load_store_u16 [simp]: "load_u16 (store_u16 a v m) a = v"
proof -
  have "load_u16 (store_u16 a v m) a = push_bit 8 (ucast (ucast (drop_bit 8 (ucast v :: u64)) :: u8)) OR ucast (ucast (ucast v :: u64) :: u8)"
    by (simp add: load_u16_def store_u16_def store_bytes_def be2)
  also have "\<dots> = v" by (rule bit_eqI) (auto simp: bit_simps)
  finally show ?thesis .
qed

lemma load_stored_u32: "load_bytes (store_u32 a v m) a 4 = be_bytes 4 (ucast v)"
  using load_store_bytes [of "be_bytes 4 (ucast v)" a m] by (simp add: store_u32_def)

section \<open>The bus\<close>

lemma irq_frame [simp]:
  "xmem (irq_on wii m s) = xmem s" "xwr (irq_on wii m s) = xwr s" "eximap (irq_on wii m s) = eximap s"
  "xmem (irq_off wii m s) = xmem s" "xwr (irq_off wii m s) = xwr s" "eximap (irq_off wii m s) = eximap s"
  by (simp_all add: irq_on_def irq_off_def)

lemma setinterrupts_frame [simp]:
  "xmem (exi_setinterrupts wii c s) = xmem s" "xwr (exi_setinterrupts wii c s) = xwr s" "eximap (exi_setinterrupts wii c s) = eximap s"
  by (simp_all add: exi_setinterrupts_def Let_def)

lemma sel_irq_frame [simp]:
  "xmem (sel_irq (irq_on wii) c s) = xmem s" "xwr (sel_irq (irq_on wii) c s) = xwr s" "eximap (sel_irq (irq_on wii) c s) = eximap s"
  "xmem (sel_irq (irq_off wii) c s) = xmem s" "xwr (sel_irq (irq_off wii) c s) = xwr s" "eximap (sel_irq (irq_off wii) c s) = eximap s"
  by (simp_all add: sel_irq_def)

lemma csr_frame [simp]:
  "xmem (set_csr c v s) = xmem s" "xwr (set_csr c v s) = xwr s" "eximap (set_csr c v s) = eximap s" "csr 0 (set_csr 0 v s) = v"
  by (simp_all add: set_csr_def csr_def Let_def)

text \<open>The bit of the control register that selects device 0; the interrupt enables are others.\<close>

definition dev0 :: "exi \<Rightarrow> bool" where
  "dev0 s \<longleftrightarrow> bit (csr 0 s) 7"

lemma dev0_irq [simp]: "dev0 (irq_on wii m s) = dev0 s" "dev0 (irq_off wii m s) = dev0 s"
  by (simp_all add: dev0_def csr_def irq_on_def irq_off_def KIrqEnable_def KIrqDisable_def KIrqModify_def KIrqModify_hw_def Let_def
      upd_reg_def KIrqEncodeExi_def enc1_def case_prod_beta bit_simps)

lemma dev0_sel [simp]: "dev0 (sel_irq (irq_on wii) c s) = dev0 s" "dev0 (sel_irq (irq_off wii) c s) = dev0 s"
  by (simp_all add: sel_irq_def)

lemma dev0_irqs: "irqs s' = irqs s \<Longrightarrow> dev0 s' = dev0 s"
  by (simp add: dev0_def csr_def)

text \<open>The hardware leaves that bit alone.\<close>

definition sel_hw :: "(exi \<Rightarrow> exi) \<Rightarrow> bool" where
  "sel_hw dev \<longleftrightarrow> exi_hw dev \<and> (\<forall>s. dev0 (dev s) = dev0 s)"

lemma poll_dev0:
  assumes "exi_poll dev c s = Some s'"
  shows "(\<forall>s. dev0 (dev s) = dev0 s) \<longrightarrow> dev0 s' = dev0 s"
proof (rule exi_poll.raw_induct [where P = "\<lambda>dev c s s'. (\<forall>s. dev0 (dev s) = dev0 s) \<longrightarrow> dev0 s' = dev0 s", OF _ assms])
  fix poll and dev :: "exi \<Rightarrow> exi" and c s s'
  assume ih: "\<And>dev c s s'. poll dev c s = Some s' \<Longrightarrow> (\<forall>s. dev0 (dev s) = dev0 s) \<longrightarrow> dev0 s' = dev0 s"
    and e: "(if has_flag EXI_FLAG_SELECT c s \<and> xreg s c 3 AND 1 \<noteq> 0 then poll dev c (dev s) else Some s) = Some s'"
  show "(\<forall>s. dev0 (dev s) = dev0 s) \<longrightarrow> dev0 s' = dev0 s"
    using e ih [of dev c "dev s" s'] by (auto split: if_splits)
qed

lemma sync_dev0:
  assumes "sel_hw dev" "EXI_Sync dev c s = Some (r, s')"
  shows "dev0 s' = dev0 s"
proof -
  obtain s1 where "exi_poll dev c s = Some s1" "s' = s1 \<or> s' = exi_completetransfer c s1"
    using assms(2) by (auto simp: EXI_Sync_def split: if_splits)
  then show ?thesis using poll_dev0 [of dev c s s1] assms(1) dev0_irqs [of "exi_completetransfer c s1" s1] by (auto simp: sel_hw_def)
qed

lemma imm_dev0: "dev0 (snd (EXI_Imm wii c p n m XNull s)) = dev0 s"
  by (rule dev0_irqs) (simp add: EXI_Imm_def Let_def arm_tc_def set_flag_def set_xreg_def)

lemma immex_dev0:
  assumes "sel_hw dev"
  shows "exi_immex wii dev c p n m ret s = Some (r, s') \<Longrightarrow> dev0 s' = dev0 s"
proof (induction n arbitrary: p ret s rule: less_induct)
  case (less n)
  show ?case
  proof (cases "n = 0")
    case True
    then show ?thesis using less.prems by (simp add: exi_immex.simps)
  next
    case False
    obtain r1 s1 where i: "EXI_Imm wii c p (of_nat (min n 4)) m XNull s = (r1, s1)" by fastforce
    have d1: "dev0 s1 = dev0 s" using imm_dev0 [of wii c p "of_nat (min n 4)" m s] i by simp
    show ?thesis
    proof (cases "r1 = 0")
      case True
      then show ?thesis using less.prems False i d1 by (simp add: exi_immex.simps [of wii dev c p n] Let_def)
    next
      case r1: False
      then obtain r2 s2 where s2: "EXI_Sync dev c s1 = Some (r2, s2)"
          "(if r2 = 0 then Some (0, s2) else exi_immex wii dev c (p + of_nat (min n 4)) (n - min n 4) m 1 s2) = Some (r, s')"
        using less.prems False i by (auto simp: exi_immex.simps [of wii dev c p n] Let_def bind_eq_Some_conv)
      have "dev0 s2 = dev0 s1" using sync_dev0 [OF assms s2(1)] .
      then show ?thesis using s2(2) less.IH [of "n - min n 4" "p + of_nat (min n 4)" 1 s2] False d1 by (auto split: if_splits)
    qed
  qed
qed

text \<open>No device is selected and no transfer is under way.\<close>

definition bus_clean :: "exi \<Rightarrow> bool" where
  "bus_clean s \<longleftrightarrow> \<not> has_flag EXI_FLAG_SELECT 0 s \<and> \<not> has_flag (EXI_FLAG_DMA OR EXI_FLAG_IMM) 0 s"

lemma flags_clean: "x_flags (eximap s' 0) = x_flags (eximap s 0) \<Longrightarrow> bus_clean s' = bus_clean s"
  by (simp add: bus_clean_def has_flag_def)

lemma lock_frame:
  assumes "EXI_Lock wii 0 d cb s = (r, s')"
  shows "xmem s' = xmem s" "xwr s' = xwr s" "bus_clean s' = bus_clean s" "r \<noteq> 0 \<Longrightarrow> has_flag EXI_FLAG_LOCKED 0 s' \<and> lockeddev (eximap s' 0) = d"
  using assms by (auto simp: EXI_Lock_def bus_clean_def flag_bit busy_bit set_flag_def bit_simps split: if_splits prod.splits)

lemma select_ok:
  assumes "bus_clean s" "has_flag EXI_FLAG_LOCKED 0 s" "lockeddev (eximap s 0) = 1"
  shows "\<exists>s'. EXI_Select wii 0 1 f s = (1, s') \<and> idle 0 s' \<and> xmem s' = xmem s \<and> xwr s' = xwr s \<and> locks_of s' = locks_of s \<and> (\<not> bit f 3 \<longrightarrow> \<not> dev0 s')"
proof -
  let ?s = "set_flag EXI_FLAG_SELECT 0 s"
  let ?t = "set_csr 0 ((csr 0 ?s AND 0x405) OR push_bit (unat (1 :: u32)) 0x80 OR push_bit 4 f) ?s"
  have e: "EXI_Select wii 0 1 f s = (1, sel_irq (irq_off wii) 0 ?t)"
    using assms by (simp add: EXI_Select_def bus_clean_def Let_def)
  have "idle 0 (sel_irq (irq_off wii) 0 ?t)"
    using assms(1) by (simp add: idle_def bus_clean_def flag_bit busy_bit set_flag_def bit_simps)
  moreover have "\<not> bit f 3 \<longrightarrow> \<not> dev0 (sel_irq (irq_off wii) 0 ?t)"
    unfolding dev0_sel by (simp add: dev0_def bit_simps)
  moreover have "locks_of (sel_irq (irq_off wii) 0 ?t) = locks_of s" using locks_ops2(2) [of wii 0 1 f s] e by simp
  ultimately show ?thesis using e by (simp add: set_flag_def)
qed

lemma deselect_ok:
  assumes "idle 0 s" "\<not> dev0 s"
  shows "\<exists>s'. EXI_Deselect wii 0 s = (1, s') \<and> bus_clean s' \<and> xmem s' = xmem s \<and> xwr s' = xwr s \<and> locks_of s' = locks_of s"
proof -
  let ?s = "clr_flag EXI_FLAG_SELECT 0 s"
  let ?t = "sel_irq (irq_on wii) 0 (set_csr 0 (csr 0 ?s AND 0x405) ?s)"
  have "csr 0 ?s = csr 0 s" by (simp add: csr_def clr_flag_def)
  then have "csr 0 ?s AND EXI_DEVICE0 = 0" using assms(2) and_exp_eq_0_iff_not_bit [of "csr 0 s" 7] by (simp add: dev0_def)
  then have e: "EXI_Deselect wii 0 s = (1, ?t)" using assms(1) by (simp add: EXI_Deselect_def idle_def Let_def)
  have "bus_clean ?t" using assms(1) by (simp add: idle_def bus_clean_def flag_bit busy_bit clr_flag_def bit_simps)
  moreover have "locks_of ?t = locks_of s" using locks_ops2(3) [of wii 0 s] e by simp
  ultimately show ?thesis using e by (simp add: clr_flag_def)
qed

lemma waiters_empty:
  assumes "exi_rel s a" "c < 3"
  shows "lwp_queue_isempty (lckd_dev s c) (lnk s) \<longleftrightarrow> waiters a c = []"
proof -
  obtain xs where v: "lock_view s xs a" using assms(1) by (auto simp: exi_rel_def)
  then have "lwp_queue_isempty (queue_addr s (Suc c)) (lnk s) \<longleftrightarrow> xs (Suc c) = []"
    using pools_isempty [of "lnk s" 4 "queue_addr s" xs "Suc c"] assms(2) by (simp add: lock_view_def)
  then show ?thesis using v assms(2) by (simp add: lock_view_def queue_addr_def)
qed

text \<open>Unlocking when nobody waits.\<close>

lemma unlock_alone:
  assumes r: "exi_rel s a" and h: "holder a 0 \<noteq> None" and w: "waiters a 0 = []"
  shows "\<exists>s'. EXI_Unlock wii call 0 s = Some (1, s') \<and> exi_rel s' (a\<lparr>holder := (holder a)(0 := None)\<rparr>) \<and>
     xmem s' = xmem s \<and> xwr s' = xwr s \<and> bus_clean s' = bus_clean s"
proof -
  let ?s = "exi_setinterrupts wii 0 (clr_flag EXI_FLAG_LOCKED 0 s)"
  have u: "ab_unlock 0 a = (1, None, a\<lparr>holder := (holder a)(0 := None)\<rparr>)" using h w by (auto simp: ab_unlock_def)
  obtain s1 where s1: "exi_rel s1 (a\<lparr>holder := (holder a)(0 := None)\<rparr>)" "EXI_Unlock wii call 0 s = Some (1, s1)"
    using unlock_ok [OF r _ u, of wii call] by auto
  have "locks_of ?s = locks_of (clr_flag EXI_FLAG_LOCKED 0 s)" by simp
  then have q: "lnk ?s = lnk s" "lckd_dev ?s = lckd_dev s" by (auto simp: locks_of_def clr_flag_def)
  obtain xs where "lock_view s xs a" using r by (auto simp: exi_rel_def)
  then have "has_flag EXI_FLAG_LOCKED 0 s" using h by (auto simp: lock_view_def holder_of_def split: if_splits)
  then have "EXI_Unlock wii call 0 s = Some (1, ?s)"
    using waiters_empty [OF r, of 0] w q by (simp add: EXI_Unlock_def Let_def)
  moreover have "bus_clean ?s = bus_clean s" by (simp add: bus_clean_def flag_bit busy_bit clr_flag_def bit_simps)
  ultimately show ?thesis using s1 by (simp add: clr_flag_def)
qed

text \<open>A transfer on the free bus.\<close>

lemma on_device_ok:
  assumes r: "exi_rel s a" and free: "holder a 0 = None" "waiters a 0 = []" and cl: "bus_clean s" and f: "\<not> bit spd 3"
    and body: "\<And>s1. idle 0 s1 \<Longrightarrow> xmem s1 = xmem s \<Longrightarrow> xwr s1 = xwr s \<Longrightarrow> \<not> dev0 s1 \<Longrightarrow>
      \<exists>s2. b s1 = Some (rs, s2) \<and> idle 0 s2 \<and> xmem s2 = m \<and> locks_of s2 = locks_of s1 \<and> \<not> dev0 s2 \<and> P (xwr s2)"
  shows "\<exists>s'. on_device wii call cb spd chk b s = Some (all_done rs, s') \<and> exi_rel s' a \<and> bus_clean s' \<and> xmem s' = m \<and> P (xwr s')"
proof -
  obtain q s1 where l: "EXI_Lock wii 0 1 cb s = (q, s1)" by fastforce
  obtain a1 where a1: "ab_lock 0 1 cb a = (q, a1)" "exi_rel s1 a1" using lock_ok [OF r _ l] by auto
  then have q: "q = 1" "a1 = a\<lparr>holder := (holder a)(0 := Some 1)\<rparr>" using free by (auto simp: ab_lock_def)
  note lf = lock_frame [OF l]
  obtain s2 where s2: "EXI_Select wii 0 1 spd s1 = (1, s2)" "idle 0 s2" "xmem s2 = xmem s" "xwr s2 = xwr s" "locks_of s2 = locks_of s1" "\<not> dev0 s2"
    using select_ok [of s1 wii spd] lf cl q f by auto
  obtain s3 where s3: "b s2 = Some (rs, s3)" "idle 0 s3" "xmem s3 = m" "locks_of s3 = locks_of s2" "\<not> dev0 s3" "P (xwr s3)" using body [OF s2(2-4,6)] by blast
  obtain s4 where s4: "EXI_Deselect wii 0 s3 = (1, s4)" "bus_clean s4" "xmem s4 = m" "xwr s4 = xwr s3" "locks_of s4 = locks_of s3"
    using deselect_ok [OF s3(2,5)] s3(3) by auto
  have r4: "exi_rel s4 a1" using a1(2) locks_rel(2) s2(5) s3(4) s4(5) by metis
  have "holder a1 0 \<noteq> None" "waiters a1 0 = []" using q free by auto
  from unlock_alone [OF r4 this, of wii call] obtain s5 where s5: "EXI_Unlock wii call 0 s4 = Some (1, s5)"
      "exi_rel s5 (a1\<lparr>holder := (holder a1)(0 := None)\<rparr>)" "xmem s5 = xmem s4" "xwr s5 = xwr s4" "bus_clean s5 = bus_clean s4" by blast
  have "a1\<lparr>holder := (holder a1)(0 := None)\<rparr> = a" using q(2) free(1) by (simp add: fun_upd_idem)
  moreover have "all_done (rs @ [1] @ (if chk then [1] else [])) = all_done rs" by (simp add: all_done_def)
  ultimately show ?thesis using l q s2(1) s3(1,6) s4 s5 by (simp add: on_device_def)
qed

lemma unlock_calls:
  assumes r: "exi_rel s a" and h: "holder a 0 \<noteq> None" and w: "waiters a 0 = (d, cb) # ws"
  shows "\<exists>s1. exi_rel s1 (a\<lparr>holder := (holder a)(0 := None), waiters := (waiters a)(0 := ws), spare := spare a + 1\<rparr>) \<and>
     xmem s1 = xmem s \<and> xwr s1 = xwr s \<and> bus_clean s1 = bus_clean s \<and> (\<forall>call. EXI_Unlock wii call 0 s = map_option (Pair 1) (call cb 0 d s1))"
proof -
  let ?a = "a\<lparr>holder := (holder a)(0 := None), waiters := (waiters a)(0 := ws), spare := spare a + 1\<rparr>"
  let ?s = "exi_setinterrupts wii 0 (clr_flag EXI_FLAG_LOCKED 0 s)"
  obtain n m where n: "lwp_queue_getI (lckd_dev ?s 0) (lnk ?s) = (n, m)" by fastforce
  let ?t = "?s\<lparr>lnk := lwp_queue_appendI (lckdev_queue ?s) n m\<rparr>"
  have "locks_of ?s = locks_of (clr_flag EXI_FLAG_LOCKED 0 s)" by simp
  then have q: "lnk ?s = lnk s" "lckd_dev ?s = lckd_dev s" by (auto simp: locks_of_def clr_flag_def)
  obtain xs where "lock_view s xs a" using r by (auto simp: exi_rel_def)
  then have "has_flag EXI_FLAG_LOCKED 0 s" using h by (auto simp: lock_view_def holder_of_def split: if_splits)
  then have e: "EXI_Unlock wii call 0 s = map_option (Pair 1) (call (unlockcb (lck ?t n)) 0 (l_dev (lck ?t n)) ?t)" for call
    using waiters_empty [OF r, of 0] w q n by (simp add: EXI_Unlock_def Let_def)
  let ?call = "\<lambda>cb' (c :: nat) d' s'. if cb' = cb \<and> d' = d then Some (s' :: exi) else None"
  have "ab_unlock 0 a = (1, Some (d, cb), ?a)" using h w by (auto simp: ab_unlock_def)
  from unlock_ok [OF r _ this, of wii ?call] obtain s1 where s1: "exi_rel s1 ?a" "EXI_Unlock wii ?call 0 s = Some (1, s1)" by auto
  then have c: "unlockcb (lck ?t n) = cb" "l_dev (lck ?t n) = d" and t: "?t = s1" using e [of ?call] by (auto split: if_splits)
  have "bus_clean ?t = bus_clean s" by (simp add: bus_clean_def flag_bit busy_bit clr_flag_def bit_simps)
  moreover have "xmem ?t = xmem s" "xwr ?t = xwr s" by (simp_all add: clr_flag_def)
  moreover have "\<forall>call. EXI_Unlock wii call 0 s = map_option (Pair 1) (call cb 0 d ?t)" using e unfolding c by blast
  ultimately show ?thesis using s1(1) unfolding t by blast
qed

section \<open>Writing\<close>

lemma send_cmd_ok:
  assumes hw: "sel_hw dev" and i: "idle 0 s" "\<not> dev0 s"
  shows "\<exists>s' l. send_cmd E wii dev cmd s = Some ([1, 1], s') \<and> idle 0 s' \<and> \<not> dev0 s' \<and> xmem s' = store_u32 (loc_cmd E) cmd (xmem s) \<and>
     locks_of s' = locks_of s \<and> xwr s' = xwr s @ l \<and> (\<forall>d. sent_bytes 0 d l = be_bytes 4 (ucast cmd))"
proof -
  let ?s = "s\<lparr>xmem := store_u32 (loc_cmd E) cmd (xmem s)\<rparr>"
  have "exi_hw dev" "idle 0 ?s" using hw i by (simp_all add: sel_hw_def idle_def has_flag_def)
  from chunk_sends [OF this, of 4 wii "loc_cmd E"] obtain s1 s2 l where s2: "EXI_Imm wii 0 (loc_cmd E) 4 EXI_WRITE XNull ?s = (1, s1)"
      "EXI_Sync dev 0 s1 = Some (1, s2)" "idle 0 s2" "xmem s2 = xmem ?s" "locks_of s2 = locks_of ?s" "xwr s2 = xwr ?s @ l"
      "\<forall>d. sent_bytes 0 d l = load_bytes (xmem ?s) (loc_cmd E) 4" by auto
  have "dev0 s1 = dev0 ?s" using imm_dev0 [of wii 0 "loc_cmd E" 4 EXI_WRITE ?s] s2(1) by simp
  then have "\<not> dev0 s2" using sync_dev0 [OF hw s2(2)] i(2) dev0_irqs [of ?s s] by simp
  then show ?thesis using s2 load_stored_u32 by (simp add: send_cmd_def)
qed

definition write_cmd :: "u32 \<Rightarrow> u32" where
  "write_cmd loc = 0xa0000100 + push_bit 6 loc"

lemma write_ok:
  assumes hw: "sel_hw dev" and r: "exi_rel s a" and free: "holder a 0 = None" "waiters a 0 = []" and cl: "bus_clean s"
  shows "\<exists>s' l. sram_write E wii dev call buf loc len s = Some (if len = 0 then 0 else 1, s') \<and> exi_rel s' a \<and> bus_clean s' \<and>
     xmem s' = store_u32 (loc_cmd E) (write_cmd loc) (xmem s) \<and> xwr s' = xwr s @ l \<and>
     (\<forall>d. sent_bytes 0 d l = be_bytes 4 (ucast (write_cmd loc)) @ load_bytes (xmem s') buf (unat len))"
proof -
  let ?cmd = "write_cmd loc"
  let ?b = "\<lambda>s. do { (r1, s1) \<leftarrow> send_cmd E wii dev ?cmd s; (r2, s2) \<leftarrow> EXI_ImmEx wii dev 0 buf len EXI_WRITE s1; Some (r1 @ [r2], s2) }"
  let ?m = "store_u32 (loc_cmd E) ?cmd (xmem s)" and ?r = "if len = 0 then 0 else 1 :: u32"
  let ?P = "\<lambda>w. \<exists>l. w = xwr s @ l \<and> (\<forall>d. sent_bytes 0 d l = be_bytes 4 (ucast ?cmd) @ load_bytes ?m buf (unat len))"
  have b: "\<exists>s2. ?b s1 = Some ([1, 1, ?r], s2) \<and> idle 0 s2 \<and> xmem s2 = ?m \<and> locks_of s2 = locks_of s1 \<and> \<not> dev0 s2 \<and> ?P (xwr s2)"
    if i: "idle 0 s1" "xmem s1 = xmem s" "xwr s1 = xwr s" "\<not> dev0 s1" for s1
  proof -
    obtain s2 l where s2: "send_cmd E wii dev ?cmd s1 = Some ([1, 1], s2)" "idle 0 s2" "\<not> dev0 s2" "xmem s2 = ?m" "locks_of s2 = locks_of s1"
        "xwr s2 = xwr s @ l" "\<forall>d. sent_bytes 0 d l = be_bytes 4 (ucast ?cmd)" using send_cmd_ok [OF hw i(1,4), of E wii ?cmd] i by auto
    have "exi_hw dev" using hw by (simp add: sel_hw_def)
    from immex_sends [OF this s2(2), of wii buf "unat len" 0] obtain s3 l' where s3: "EXI_ImmEx wii dev 0 buf len EXI_WRITE s2 = Some (?r, s3)"
        "idle 0 s3" "xmem s3 = xmem s2" "locks_of s3 = locks_of s2" "xwr s3 = xwr s2 @ l'" "\<forall>d. sent_bytes 0 d l' = load_bytes ?m buf (unat len)"
      using s2(4) by (auto simp: EXI_ImmEx_def unat_eq_zero)
    have "\<not> dev0 s3" using immex_dev0 [OF hw, of wii 0 buf "unat len" EXI_WRITE 0 s2] s3(1) s2(3) by (simp add: EXI_ImmEx_def)
    then show ?thesis using s2 s3 by (auto simp: sent_append)
  qed
  have f: "\<not> bit EXI_SPEED8MHZ 3" by simp
  have d: "all_done [1, 1, ?r] = ?r" by (simp add: all_done_def)
  obtain s' where s': "on_device wii call (XUser (wcb E)) EXI_SPEED8MHZ True ?b s = Some (?r, s')" "exi_rel s' a" "bus_clean s'" "xmem s' = ?m" "?P (xwr s')"
    using on_device_ok [OF r free cl f b, of wii call "XUser (wcb E)" True] unfolding d by blast
  have "sram_write E wii dev call buf loc len s = Some (?r, s')" using s'(1) unfolding sram_write_def write_cmd_def .
  then show ?thesis using s'(2-5) by auto
qed

section \<open>The struct in memory\<close>

text \<open>The local variable is outside the struct, which is not at the end of the address space.\<close>

definition env_ok :: "sram_env \<Rightarrow> bool" where
  "env_ok E \<longleftrightarrow> (\<forall>i < 4. 80 \<le> unat (loc_cmd E + of_nat i - cn E)) \<and> cn E \<noteq> 0 \<and> cn E + 20 \<noteq> 0"

text \<open>The same struct.\<close>

definition same_sc :: "sram_env \<Rightarrow> exi \<Rightarrow> exi \<Rightarrow> bool" where
  "same_sc E s s' \<longleftrightarrow> (\<forall>j < 80. xmem s' (cn E + of_nat j) = xmem s (cn E + of_nat j))"

definition sram_buf :: "sram_env \<Rightarrow> exi \<Rightarrow> u8 list" where
  "sram_buf E s = load_bytes (xmem s) (cn E) 64"

lemma same_sc_mem: "xmem s' = xmem s \<Longrightarrow> same_sc E s s'"
  by (simp add: same_sc_def)

lemma same_sc_byte: "same_sc E s s' \<Longrightarrow> j < 80 \<Longrightarrow> xmem s' (cn E + of_nat j) = xmem s (cn E + of_nat j)"
  by (simp add: same_sc_def)

lemma same_sc_word:
  assumes "same_sc E s s'" "k + 4 \<le> 80"
  shows "load_u32 (xmem s') (cn E + of_nat k) = load_u32 (xmem s) (cn E + of_nat k)"
proof -
  have e: "cn E + of_nat k + 1 = cn E + of_nat (k + 1)" "cn E + of_nat k + 2 = cn E + of_nat (k + 2)" "cn E + of_nat k + 3 = cn E + of_nat (k + 3)"
    by (simp_all add: ac_simps)
  show ?thesis unfolding load_u32_def e
    using same_sc_byte [OF assms(1), of k] same_sc_byte [OF assms(1), of "k + 1"] same_sc_byte [OF assms(1), of "k + 2"]
      same_sc_byte [OF assms(1), of "k + 3"] assms(2) by simp
qed

lemma same_sc_views:
  assumes "same_sc E s s'"
  shows "sc_offset E s' = sc_offset E s" "sc_enabled E s' = sc_enabled E s" "sc_locked E s' = sc_locked E s" "sc_sync E s' = sc_sync E s"
    "sram_buf E s' = sram_buf E s"
  using same_sc_word [OF assms, of 64] same_sc_word [OF assms, of 68] same_sc_word [OF assms, of 72] same_sc_word [OF assms, of 76]
    same_sc_byte [OF assms]
  by (simp_all add: sc_offset_def sc_enabled_def sc_locked_def sc_sync_def sram_buf_def load_bytes_def)

lemma cmd_same_sc:
  assumes "env_ok E" "xmem s' = store_u32 (loc_cmd E) v (xmem s)"
  shows "same_sc E s s'"
  unfolding same_sc_def
proof (intro allI impI)
  fix j :: nat assume j: "j < 80"
  let ?i = "unat (cn E + of_nat j - loc_cmd E)"
  have "\<not> ?i < 4"
  proof
    assume "?i < 4"
    then have "80 \<le> unat (loc_cmd E + of_nat ?i - cn E)" using assms(1) unfolding env_ok_def by blast
    moreover have "loc_cmd E + of_nat ?i - cn E = of_nat j" by simp
    ultimately show False using j by (simp add: unat_of_nat take_bit_nat_eq_self)
  qed
  then show "xmem s' (cn E + of_nat j) = xmem s (cn E + of_nat j)" using assms(2) by (simp add: store_u32_def store_bytes_def)
qed

lemma set_sc_fields [simp]:
  "sc_offset E (set_offset E v s) = v" "sc_offset E (set_enabled E v s) = sc_offset E s" "sc_offset E (set_locked E v s) = sc_offset E s" "sc_offset E (set_sync E v s) = sc_offset E s"
  "sc_enabled E (set_offset E v s) = sc_enabled E s" "sc_enabled E (set_enabled E v s) = v" "sc_enabled E (set_locked E v s) = sc_enabled E s" "sc_enabled E (set_sync E v s) = sc_enabled E s"
  "sc_locked E (set_offset E v s) = sc_locked E s" "sc_locked E (set_enabled E v s) = sc_locked E s" "sc_locked E (set_locked E v s) = v" "sc_locked E (set_sync E v s) = sc_locked E s"
  "sc_sync E (set_offset E v s) = sc_sync E s" "sc_sync E (set_enabled E v s) = sc_sync E s" "sc_sync E (set_locked E v s) = sc_sync E s" "sc_sync E (set_sync E v s) = v"
  by (simp_all add: sc_offset_def sc_enabled_def sc_locked_def sc_sync_def set_sc_def load_store_u32)
     (simp_all add: load_u32_def store_u32_def store_bytes_def unsigned_minus_1_eq_mask mask_eq_exp_minus_1)

lemma set_sc_byte:
  assumes "j < 64" "64 \<le> f" "f \<le> 76"
  shows "xmem (set_sc E f v s) (cn E + of_nat j) = xmem s (cn E + of_nat j)"
proof -
  have "\<not> unat (cn E + of_nat j - (cn E + f)) < 4"
  proof
    assume l: "unat (cn E + of_nat j - (cn E + f)) < 4"
    let ?i = "unat (cn E + of_nat j - (cn E + f))"
    have "of_nat j = f + of_nat ?i" by simp
    then have "unat (of_nat j :: u32) = unat (f + of_nat ?i)" by simp
    moreover have "unat (f + of_nat ?i) = unat f + ?i" using l assms by (subst unat_add_lem [THEN iffD1]) (auto simp: word_le_nat_alt unat_of_nat)
    ultimately show False using assms by (simp add: unat_of_nat take_bit_nat_eq_self word_le_nat_alt)
  qed
  then show ?thesis by (simp add: set_sc_def store_u32_def store_bytes_def)
qed

lemma set_sc_frame [simp]:
  "exi_rel (set_sc E f v s) a = exi_rel s a" "bus_clean (set_sc E f v s) = bus_clean s" "xwr (set_sc E f v s) = xwr s" "irqs (set_sc E f v s) = irqs s"
  "64 \<le> f \<Longrightarrow> f \<le> 76 \<Longrightarrow> sram_buf E (set_sc E f v s) = sram_buf E s"
  using set_sc_byte [of _ f E v s] locks_rel(2) [of "set_sc E f v s" s a]
  by (auto simp: sram_buf_def load_bytes_def bus_clean_def has_flag_def) (simp_all add: set_sc_def)

section \<open>Bringing the device up to date\<close>

lemma load_bytes_drop: "j \<le> n \<Longrightarrow> load_bytes m (a + of_nat j) (n - j) = drop j (load_bytes m a n)"
  using load_bytes_add [of m a j "n - j"] by simp

lemma flush_free:
  assumes hw: "sel_hw dev" and E: "env_ok E" and r: "exi_rel s a" and free: "holder a 0 = None" "waiters a 0 = []" and cl: "bus_clean s"
    and o: "sc_offset E s \<le> 64"
  shows "\<exists>s' l. sram_flush E wii dev call s = Some s' \<and> exi_rel s' a \<and> bus_clean s' \<and> sram_buf E s' = sram_buf E s \<and> sc_enabled E s' = sc_enabled E s \<and>
     sc_locked E s' = sc_locked E s \<and> sc_offset E s' = 64 \<and> sc_sync E s' = (if sc_offset E s = 64 then 0 else 1) \<and> xwr s' = xwr s @ l \<and>
     (\<forall>d. sent_bytes 0 d l = be_bytes 4 (ucast (write_cmd (sc_offset E s))) @ drop (unat (sc_offset E s)) (sram_buf E s))"
proof -
  let ?o = "sc_offset E s"
  obtain s1 l where s1: "sram_write E wii dev call (cn E + ?o) ?o (64 - ?o) s = Some (if 64 - ?o = 0 then 0 else 1, s1)" "exi_rel s1 a" "bus_clean s1"
      "xmem s1 = store_u32 (loc_cmd E) (write_cmd ?o) (xmem s)" "xwr s1 = xwr s @ l"
      "\<forall>d. sent_bytes 0 d l = be_bytes 4 (ucast (write_cmd ?o)) @ load_bytes (xmem s1) (cn E + ?o) (unat (64 - ?o))"
    using write_ok [OF hw r free cl] by blast
  note sc = same_sc_views [OF cmd_same_sc [OF E s1(4)]]
  have z: "64 - ?o = 0 \<longleftrightarrow> ?o = 64" by auto
  have "unat ?o \<le> 64" using o by (simp add: word_le_nat_alt)
  then have "load_bytes (xmem s1) (cn E + ?o) (unat (64 - ?o)) = drop (unat ?o) (sram_buf E s1)"
    using load_bytes_drop [of "unat ?o" 64 "xmem s1" "cn E"] o by (simp add: sram_buf_def unat_sub)
  then have "\<forall>d. sent_bytes 0 d l = be_bytes 4 (ucast (write_cmd ?o)) @ drop (unat ?o) (sram_buf E s)" using s1(6) sc(5) by simp
  moreover have "sram_flush E wii dev call s = Some (if ?o = 64 then set_sync E 0 s1 else set_offset E 64 (set_sync E 1 s1))"
    using s1(1) z by (auto simp: sram_flush_def Let_def)
  ultimately show ?thesis using s1(2,3,5) sc by (cases "?o = 64") simp_all
qed

lemma flush_locked:
  assumes r: "exi_rel s a" and h: "holder a 0 \<noteq> None" and sp: "0 < spare a"
  shows "\<exists>s'. sram_flush E wii dev call s = Some s' \<and>
     exi_rel s' (a\<lparr>waiters := (waiters a)(0 := waiters a 0 @ [(1, XUser (wcb E))]), spare := spare a - 1\<rparr>) \<and>
     bus_clean s' = bus_clean s \<and> sram_buf E s' = sram_buf E s \<and> sc_enabled E s' = sc_enabled E s \<and>
     sc_locked E s' = sc_locked E s \<and> sc_offset E s' = sc_offset E s \<and> sc_sync E s' = 0 \<and> xwr s' = xwr s"
proof -
  obtain q s1 where l: "EXI_Lock wii 0 1 (XUser (wcb E)) s = (q, s1)" by fastforce
  obtain a1 where a1: "ab_lock 0 1 (XUser (wcb E)) a = (q, a1)" "exi_rel s1 a1" using lock_ok [OF r _ l] by auto
  have q: "q = 0" "a1 = a\<lparr>waiters := (waiters a)(0 := waiters a 0 @ [(1, XUser (wcb E))]), spare := spare a - 1\<rparr>"
    using a1(1) h sp by (auto simp: ab_lock_def split: option.splits)
  note f = lock_frame [OF l] and sc = same_sc_views [OF same_sc_mem [OF lock_frame(1) [OF l]]]
  have "sram_flush E wii dev call s = Some (set_sync E 0 s1)" using l q(1) by (simp add: sram_flush_def sram_write_def on_device_def Let_def)
  then show ?thesis using a1(2) q(2) f sc by simp
qed

section \<open>Locking and unlocking the copy\<close>

lemma locksram_ok:
  assumes "sc_locked E s = 0"
  shows "\<exists>s1. locksram E loc s = (cn E + loc, s1) \<and> sc_locked E s1 = 1 \<and> sc_offset E s1 = sc_offset E s \<and> sc_sync E s1 = sc_sync E s \<and>
     sram_buf E s1 = sram_buf E s \<and> (\<forall>a. exi_rel s1 a = exi_rel s a) \<and> bus_clean s1 = bus_clean s \<and> xwr s1 = xwr s"
proof -
  let ?s = "s\<lparr>irqs := (irqs s)\<lparr>irq_ks := snd (PPCIrqLockByMsr (irq_ks (irqs s)))\<rparr>\<rparr>"
  have e: "locksram E loc s = (cn E + loc, set_locked E 1 (set_enabled E (fst (PPCIrqLockByMsr (irq_ks (irqs s)))) ?s))"
    using assms by (simp add: locksram_def case_prod_beta)
  have "exi_rel ?s a = exi_rel s a" for a by (rule locks_rel(2)) simp
  moreover have "bus_clean ?s = bus_clean s" by (simp add: bus_clean_def has_flag_def)
  moreover note same_sc_views [OF same_sc_mem, of ?s s E]
  ultimately show ?thesis unfolding e by simp
qed

lemma finish_frame [simp]:
  "sc_offset E (sram_finish E s) = sc_offset E s" "sc_enabled E (sram_finish E s) = sc_enabled E s" "sc_locked E (sram_finish E s) = sc_locked E s"
  "exi_rel (sram_finish E s) a = exi_rel s a" "bus_clean (sram_finish E s) = bus_clean s" "xwr (sram_finish E s) = xwr s"
  by (simp_all add: sram_finish_def Let_def case_prod_beta sc_offset_def sc_enabled_def sc_locked_def bus_clean_def has_flag_def locks_rel(2) [OF locks_simps(4)])
     (simp_all add: load_u32_def store_u16_def store_bytes_def unsigned_minus_1_eq_mask mask_eq_exp_minus_1)

text \<open>The copy that an unlock with a change writes, and where the part begins that is written.\<close>

definition finished :: "sram_env \<Rightarrow> u32 \<Rightarrow> exi \<Rightarrow> exi" where
  "finished E loc s = (if loc = 0 then sram_finish E s else s)"

definition dirty_from :: "sram_env \<Rightarrow> u32 \<Rightarrow> exi \<Rightarrow> u32" where
  "dirty_from E loc s = (if loc < sc_offset E s then loc else sc_offset E s)"

definition released :: "sram_env \<Rightarrow> exi \<Rightarrow> exi" where
  "released E s = (let t = set_locked E 0 s in t\<lparr>irqs := (irqs t)\<lparr>irq_ks := PPCIrqUnlockByMsr (sc_enabled E t) (irq_ks (irqs t))\<rparr>\<rparr>)"

lemma release_frame:
  "sc_offset E (released E s) = sc_offset E s" "sc_locked E (released E s) = 0" "sc_sync E (released E s) = sc_sync E s"
  "sram_buf E (released E s) = sram_buf E s" "exi_rel (released E s) a = exi_rel s a" "bus_clean (released E s) = bus_clean s" "xwr (released E s) = xwr s"
proof -
  let ?t = "set_locked E 0 s" and ?u = "released E s"
  have "xmem ?u = xmem ?t" by (simp add: released_def Let_def)
  note sc = same_sc_views [OF same_sc_mem [OF this], of E]
  then show "sc_offset E ?u = sc_offset E s" "sc_locked E ?u = 0" "sc_sync E ?u = sc_sync E s" "sram_buf E ?u = sram_buf E s" by simp_all
  have "locks_of ?u = locks_of ?t" by (simp add: released_def Let_def)
  from locks_rel(2) [OF this] show "exi_rel ?u a = exi_rel s a" by simp
  show "bus_clean ?u = bus_clean s" "xwr ?u = xwr s" by (simp_all add: bus_clean_def has_flag_def released_def Let_def set_sc_def)
qed

lemma sc_irqs [simp]:
  "sc_offset E (s\<lparr>irqs := q\<rparr>) = sc_offset E s" "sc_enabled E (s\<lparr>irqs := q\<rparr>) = sc_enabled E s" "sc_locked E (s\<lparr>irqs := q\<rparr>) = sc_locked E s"
  "sc_sync E (s\<lparr>irqs := q\<rparr>) = sc_sync E s" "sram_buf E (s\<lparr>irqs := q\<rparr>) = sram_buf E s"
  by (simp_all add: sc_offset_def sc_enabled_def sc_locked_def sc_sync_def sram_buf_def)

lemma unlocksram_eq:
  "unlocksram E wii dev call write loc s = do {
     s1 \<leftarrow> (if write then sram_flush E wii dev call ((if loc < sc_offset E (finished E loc s) then set_offset E loc else id) (finished E loc s)) else Some s);
     Some (sc_sync E s1, released E s1) }"
  unfolding unlocksram_def by (auto simp: Let_def finished_def released_def)

lemma unlock_clean:
  "\<exists>s'. unlocksram E wii dev call False loc s = Some (sc_sync E s, s') \<and> sc_offset E s' = sc_offset E s \<and> sc_locked E s' = 0 \<and> sc_sync E s' = sc_sync E s \<and>
     sram_buf E s' = sram_buf E s \<and> (\<forall>a. exi_rel s' a = exi_rel s a) \<and> bus_clean s' = bus_clean s \<and> xwr s' = xwr s"
  by (simp add: unlocksram_eq release_frame)

lemma unlock_changed:
  assumes "sram_flush E wii dev call ((if loc < sc_offset E (finished E loc s) then set_offset E loc else id) (finished E loc s)) = Some t"
  shows "\<exists>s'. unlocksram E wii dev call True loc s = Some (sc_sync E t, s') \<and> sc_offset E s' = sc_offset E t \<and> sc_locked E s' = 0 \<and> sc_sync E s' = sc_sync E t \<and>
     sram_buf E s' = sram_buf E t \<and> (\<forall>a. exi_rel s' a = exi_rel t a) \<and> bus_clean s' = bus_clean t \<and> xwr s' = xwr t"
  using assms by (simp add: unlocksram_eq release_frame)

lemma finished_frame [simp]:
  "sc_offset E (finished E loc s) = sc_offset E s" "exi_rel (finished E loc s) a = exi_rel s a" "bus_clean (finished E loc s) = bus_clean s"
  "xwr (finished E loc s) = xwr s"
  by (simp_all add: finished_def)

lemma marked:
  fixes E loc s
  defines "t \<equiv> (if loc < sc_offset E (finished E loc s) then set_offset E loc else id) (finished E loc s)"
  shows "sc_offset E t = dirty_from E loc s" "sram_buf E t = sram_buf E (finished E loc s)" "exi_rel t a = exi_rel s a" "bus_clean t = bus_clean s" "xwr t = xwr s"
  by (simp_all add: t_def dirty_from_def)

text \<open>A change on the free bus reaches the device at once.\<close>

lemma unlock_free:
  assumes hw: "sel_hw dev" and E: "env_ok E" and r: "exi_rel s a" and free: "holder a 0 = None" "waiters a 0 = []" and cl: "bus_clean s"
    and o: "sc_offset E s \<le> 64" "loc < 64"
  shows "\<exists>s' l. unlocksram E wii dev call True loc s = Some (1, s') \<and> exi_rel s' a \<and> bus_clean s' \<and> sc_locked E s' = 0 \<and> sc_offset E s' = 64 \<and>
     sc_sync E s' = 1 \<and> sram_buf E s' = sram_buf E (finished E loc s) \<and> xwr s' = xwr s @ l \<and>
     (\<forall>d. sent_bytes 0 d l = be_bytes 4 (ucast (write_cmd (dirty_from E loc s))) @ drop (unat (dirty_from E loc s)) (sram_buf E s'))"
proof -
  let ?t = "(if loc < sc_offset E (finished E loc s) then set_offset E loc else id) (finished E loc s)"
  note m = marked [where E = E and loc = loc and s = s]
  have d: "dirty_from E loc s \<le> 64" "dirty_from E loc s \<noteq> 64" using o by (auto simp: dirty_from_def)
  have pre: "exi_rel ?t a" "bus_clean ?t" "sc_offset E ?t \<le> 64" using m r cl d(1) by simp_all
  obtain u l where u: "sram_flush E wii dev call ?t = Some u" "exi_rel u a" "bus_clean u" "sram_buf E u = sram_buf E ?t" "sc_offset E u = 64"
      "sc_sync E u = (if sc_offset E ?t = 64 then 0 else 1)" "xwr u = xwr ?t @ l"
      "\<forall>d. sent_bytes 0 d l = be_bytes 4 (ucast (write_cmd (sc_offset E ?t))) @ drop (unat (sc_offset E ?t)) (sram_buf E ?t)"
    using flush_free [OF hw E pre(1) free pre(2,3), of wii call] by blast
  obtain s' where "unlocksram E wii dev call True loc s = Some (sc_sync E u, s')" "sc_offset E s' = sc_offset E u" "sc_locked E s' = 0" "sc_sync E s' = sc_sync E u"
      "sram_buf E s' = sram_buf E u" "\<forall>a. exi_rel s' a = exi_rel u a" "bus_clean s' = bus_clean u" "xwr s' = xwr u"
    using unlock_changed [OF u(1)] by blast
  then show ?thesis using u(2-8) d(2) unfolding m by auto
qed

text \<open>While another driver holds the bus the change is only marked, and the callback is left to the bus.\<close>

lemma unlock_held:
  assumes r: "exi_rel s a" and h: "holder a 0 \<noteq> None" and sp: "0 < spare a"
  shows "\<exists>s'. unlocksram E wii dev call True loc s = Some (0, s') \<and>
     exi_rel s' (a\<lparr>waiters := (waiters a)(0 := waiters a 0 @ [(1, XUser (wcb E))]), spare := spare a - 1\<rparr>) \<and>
     bus_clean s' = bus_clean s \<and> sc_locked E s' = 0 \<and> sc_offset E s' = dirty_from E loc s \<and> sc_sync E s' = 0 \<and>
     sram_buf E s' = sram_buf E (finished E loc s) \<and> xwr s' = xwr s"
proof -
  let ?t = "(if loc < sc_offset E (finished E loc s) then set_offset E loc else id) (finished E loc s)"
  note m = marked [where E = E and loc = loc and s = s]
  have pre: "exi_rel ?t a" using m r by simp
  obtain u where u: "sram_flush E wii dev call ?t = Some u"
      "exi_rel u (a\<lparr>waiters := (waiters a)(0 := waiters a 0 @ [(1, XUser (wcb E))]), spare := spare a - 1\<rparr>)"
      "bus_clean u = bus_clean ?t" "sram_buf E u = sram_buf E ?t" "sc_offset E u = sc_offset E ?t" "sc_sync E u = 0" "xwr u = xwr ?t"
    using flush_locked [OF pre h sp, of E wii dev call] by blast
  obtain s' where "unlocksram E wii dev call True loc s = Some (sc_sync E u, s')" "sc_offset E s' = sc_offset E u" "sc_locked E s' = 0" "sc_sync E s' = sc_sync E u"
      "sram_buf E s' = sram_buf E u" "\<forall>a. exi_rel s' a = exi_rel u a" "bus_clean s' = bus_clean u" "xwr s' = xwr u"
    using unlock_changed [OF u(1)] by blast
  then show ?thesis using u(2-7) unfolding m by auto
qed

end
