(* ===== verification/ExiUart.thy ===== *)
theory ExiUart
  imports ExiOps
begin

text \<open>
  The serial line on the expansion interface, at the end of \<^verbatim>\<open>libogc/exi.c\<close>. The static variables are a record
  of their own; \<open>reg\<close> and \<open>len\<close> are the locals at \<open>loc_reg\<close> and \<open>loc_id\<close>.
\<close>

record uart =
  exi_uart_chan :: nat
  exi_uart_dev :: u32
  exi_uart_barnacle_enabled :: u32
  exi_uart_enabled :: u32

text \<open>Send a command word, then read \<open>n\<close> bytes into \<open>p\<close>; the results of the five calls.\<close>

definition uart_query :: "bool \<Rightarrow> (exi \<Rightarrow> exi) \<Rightarrow> nat \<Rightarrow> u32 \<Rightarrow> ptr \<Rightarrow> u32 \<Rightarrow> exi \<Rightarrow> (u32 list \<times> exi) option" where
  "uart_query wii dev chn reg p n s =
     (case EXI_Imm wii chn (loc_reg s) 4 EXI_WRITE XNull (s\<lparr>xmem := store_u32 (loc_reg s) reg (xmem s)\<rparr>) of (i1, s1) \<Rightarrow>
      do { (y1, s2) \<leftarrow> EXI_Sync dev chn s1;
           case EXI_Imm wii chn p n EXI_READ XNull s2 of (i2, s3) \<Rightarrow>
           do { (y2, s4) \<leftarrow> EXI_Sync dev chn s3;
                case EXI_Deselect wii chn s4 of (d, s5) \<Rightarrow> Some ([i1, y1, i2, y2, d], s5) } })"

definition probebarnacle :: "bool \<Rightarrow> (exi \<Rightarrow> exi) \<Rightarrow> (exi_cb \<Rightarrow> nat \<Rightarrow> u32 \<Rightarrow> exi \<Rightarrow> exi option) \<Rightarrow> nat \<Rightarrow> u32 \<Rightarrow> ptr \<Rightarrow> exi \<Rightarrow> (u32 \<times> exi) option" where
  "probebarnacle wii dev call chn d revp s =
     do { (at, s1) \<leftarrow> (if chn \<noteq> 2 \<and> d = 0 then EXI_Attach wii dev call chn XNull s else Some (1, s));
          if at = 0 then Some (0, s1)
          else do {
            (ok, s4) \<leftarrow>
              (case EXI_Lock wii chn d XNull s1 of (l, s2) \<Rightarrow>
                 if l \<noteq> 0 then
                   do { (ok, s3) \<leftarrow> (case EXI_Select wii chn d 0 s2 of (sel, s) \<Rightarrow>
                          if sel \<noteq> 0 then map_option (map_prod (list_all (\<lambda>r. r \<noteq> 0)) id) (uart_query wii dev chn 0x20011300 revp 4 s) else Some (True, s));
                        map_option (\<lambda>(_, s). (ok, s)) (EXI_Unlock wii call chn s3) }
                 else Some (True, s2));
            let s5 = (if chn \<noteq> 2 \<and> d = 0 then snd (EXI_Detach wii chn s4) else s4) in
            Some (if \<not> ok then 0 else if load_u32 (xmem s5) revp + 0x10000 = 0xffff then 0 else 1, s5) } }"

text \<open>A negative result is the error.\<close>

definition queuelength :: "bool \<Rightarrow> (exi \<Rightarrow> exi) \<Rightarrow> uart \<Rightarrow> exi \<Rightarrow> (int \<times> exi) option" where
  "queuelength wii dev u s =
     (case EXI_Select wii (exi_uart_chan u) (exi_uart_dev u) 3 s of (sel, s1) \<Rightarrow>
        if sel = 0 then Some (- 1, s1)
        else map_option (\<lambda>(_, s2). (16 - uint (xmem s2 (loc_id s2)), s2))
               (uart_query wii dev (exi_uart_chan u) 0x20010000 (loc_id s1) 1 (s1\<lparr>xmem := (xmem s1)(loc_id s1 := 0)\<rparr>)))"

definition no_barnacle_ids :: "u32 list" where
  "no_barnacle_ids = [0x01020000, 0x0004, 0x80000010, 0x80000008, 0x80000004, 0xffff, 0x80000020, 0x0020, 0x0010, 0x0008, 0x01010000,
     0x04040404, 0x04021000, 0x03010000, 0x02020000, 0x04020300, 0x04020200, 0x04130000, 0x04120000, 0x04060000, 0x04220000]"

definition SYS_EnableBarnacle :: "bool \<Rightarrow> (exi \<Rightarrow> exi) \<Rightarrow> (exi_cb \<Rightarrow> nat \<Rightarrow> u32 \<Rightarrow> exi \<Rightarrow> exi option) \<Rightarrow> nat \<Rightarrow> u32 \<Rightarrow> uart \<Rightarrow> exi \<Rightarrow> (uart \<times> exi) option" where
  "SYS_EnableBarnacle wii dev call chn d u s =
     do { (r, s1) \<leftarrow> EXI_GetID wii dev call chn d (loc_id s) s;
          if r = 0 \<or> load_u32 (xmem s1) (loc_id s1) \<in> set no_barnacle_ids then Some (u, s1)
          else do { (p, s2) \<leftarrow> probebarnacle wii dev call chn d (loc_id s1) s1;
                    Some (if p = 0 then u else \<lparr>exi_uart_chan = chn, exi_uart_dev = d, exi_uart_barnacle_enabled = 0xa5ff005a, exi_uart_enabled = 0xa5ff005a\<rparr>, s2) } }"

definition InitializeUART :: "uart \<Rightarrow> uart" where
  "InitializeUART u =
     (if exi_uart_enabled u + 0x5a010000 = 0x5a then u
      else u\<lparr>exi_uart_chan := 0, exi_uart_dev := 1, exi_uart_enabled := 0xa5ff005a\<rparr>)"

text \<open>The inner loop of \<^verbatim>\<open>WriteUARTN\<close>: \<open>qlen\<close> is compared with \<open>len\<close> as an unsigned number, and \<open>ptr\<close> stays.\<close>

partial_function (option) uart_send :: "bool \<Rightarrow> (exi \<Rightarrow> exi) \<Rightarrow> nat \<Rightarrow> ptr \<Rightarrow> int \<Rightarrow> u32 \<Rightarrow> exi \<Rightarrow> (u32 \<times> exi) option" where
  "uart_send wii dev chn p qlen len s =
     (if 0 < qlen \<and> 0 < len then
        (if 4 \<le> qlen then
           (let cnt = (if len < 4 then len else 4) in
            if qlen < uint len then Some (len, s)
            else Option.bind (EXI_Sync dev chn (snd (EXI_Imm wii chn p cnt EXI_WRITE XNull s)))
                   (\<lambda>(_, s1). uart_send wii dev chn p (qlen - uint cnt) (len - cnt) s1))
         else uart_send wii dev chn p qlen len s)
      else Some (len, s))"

partial_function (option) uart_loop :: "bool \<Rightarrow> (exi \<Rightarrow> exi) \<Rightarrow> uart \<Rightarrow> ptr \<Rightarrow> u32 \<Rightarrow> exi \<Rightarrow> (u32 \<times> exi) option" where
  "uart_loop wii dev u p len s =
     (if len = 0 then Some (0, s)
      else Option.bind (queuelength wii dev u s) (\<lambda>(qlen, s1).
        if qlen < 0 then Some (3, s1)
        else if 12 \<le> qlen \<or> uint len \<le> qlen then
          (case EXI_Select wii (exi_uart_chan u) (exi_uart_dev u) 3 s1 of (sel, s2) \<Rightarrow>
             if sel = 0 then Some (3, s2)
             else Option.bind (EXI_Sync dev (exi_uart_chan u) (snd (EXI_Imm wii (exi_uart_chan u) (loc_reg s2) 4 EXI_WRITE XNull
                      (s2\<lparr>xmem := store_u32 (loc_reg s2) 0xa0010000 (xmem s2)\<rparr>)))) (\<lambda>(_, s3).
                    Option.bind (uart_send wii dev (exi_uart_chan u) p qlen len s3) (\<lambda>(len', s4).
                      uart_loop wii dev u p len' (snd (EXI_Deselect wii (exi_uart_chan u) s4)))))
        else uart_loop wii dev u p len (snd (EXI_Deselect wii (exi_uart_chan u) s1))))"

definition WriteUARTN :: "bool \<Rightarrow> (exi \<Rightarrow> exi) \<Rightarrow> (exi_cb \<Rightarrow> nat \<Rightarrow> u32 \<Rightarrow> exi \<Rightarrow> exi option) \<Rightarrow> uart \<Rightarrow> ptr \<Rightarrow> u32 \<Rightarrow> exi \<Rightarrow> (u32 \<times> exi) option" where
  "WriteUARTN wii dev call u buf len s =
     (if exi_uart_enabled u + 0x5a010000 \<noteq> 0x5a then Some (2, s)
      else case EXI_Lock wii (exi_uart_chan u) (exi_uart_dev u) XNull s of (l, s1) \<Rightarrow>
        if l = 0 then Some (0, s1)
        else let s2 = s1\<lparr>xmem := store_bytes buf (map (\<lambda>b. if b = 10 then 13 else b) (load_bytes (xmem s1) buf (unat len))) (xmem s1)\<rparr> in
          do { (ret, s3) \<leftarrow> uart_loop wii dev u buf len s2;
               (_, s4) \<leftarrow> EXI_Unlock wii call (exi_uart_chan u) s3;
               Some (ret, s4) })"

section \<open>Properties\<close>

lemma queuelength_le: "queuelength wii dev u s = Some (q, s') \<Longrightarrow> q \<le> 16"
proof -
  have "(0 :: int) \<le> uint (b :: u8)" for b by simp
  then show "queuelength wii dev u s = Some (q, s') \<Longrightarrow> q \<le> 16" by (auto simp: queuelength_def split: prod.splits if_splits)
qed

lemma uart_send_long: "qlen < uint len \<Longrightarrow> 4 \<le> qlen \<Longrightarrow> uart_send wii dev chn p qlen len s = Some (len, s)"
  by (simp add: uart_send.simps [of wii dev chn p qlen len s] word_less_def)

text \<open>With one to three places left in the queue and something to send the inner loop does not end.\<close>

lemma uart_send_stuck:
  assumes "uart_send wii dev chn p qlen len s = Some y"
  shows "\<not> (0 < qlen \<and> qlen < 4 \<and> 0 < len)"
  by (rule uart_send.raw_induct [where P = "\<lambda>wii dev chn p qlen len s y. \<not> (0 < qlen \<and> qlen < 4 \<and> 0 < len)", OF _ assms])
    (auto split: if_splits)

text \<open>A text of more than 16 bytes is never written: the loop goes on until selecting the device fails.\<close>

lemma uart_loop_long:
  assumes "uart_loop wii dev u p len s = Some y" "16 < len"
  shows "fst y = 3"
proof -
  have "16 < len \<longrightarrow> fst y = 3"
  proof (rule uart_loop.raw_induct [where P = "\<lambda>wii dev u p len s y. 16 < len \<longrightarrow> fst y = 3", OF _ assms(1)], rule impI)
    fix rec wii dev u p and len :: u32 and s y
    assume IH: "\<And>wii dev u p len s y. rec wii dev u p len s = Some y \<Longrightarrow> 16 < len \<longrightarrow> fst y = 3"
      and e: "(if len = 0 then Some (0, s)
        else Option.bind (queuelength wii dev u s) (\<lambda>(qlen, s1).
          if qlen < 0 then Some (3, s1)
          else if 12 \<le> qlen \<or> uint len \<le> qlen then
            (case EXI_Select wii (exi_uart_chan u) (exi_uart_dev u) 3 s1 of (sel, s2) \<Rightarrow>
               if sel = 0 then Some (3, s2)
               else Option.bind (EXI_Sync dev (exi_uart_chan u) (snd (EXI_Imm wii (exi_uart_chan u) (loc_reg s2) 4 EXI_WRITE XNull
                        (s2\<lparr>xmem := store_u32 (loc_reg s2) 0xa0010000 (xmem s2)\<rparr>)))) (\<lambda>(_, s3).
                      Option.bind (uart_send wii dev (exi_uart_chan u) p qlen len s3) (\<lambda>(len', s4).
                        rec wii dev u p len' (snd (EXI_Deselect wii (exi_uart_chan u) s4)))))
          else rec wii dev u p len (snd (EXI_Deselect wii (exi_uart_chan u) s1)))) = Some y"
      and l: "16 < len"
    have l': "16 < uint len" "len \<noteq> 0" using l by (auto simp: word_less_def)
    obtain qlen s1 where q: "queuelength wii dev u s = Some (qlen, s1)" using e l'(2) by (auto split: bind_splits)
    have le: "qlen < uint len" using queuelength_le [OF q] l' by auto
    show "fst y = 3"
    proof (cases "12 \<le> qlen")
      case True
      then show ?thesis
        using e l'(2) q le l uart_send_long [OF le] by (auto split: bind_splits prod.splits if_splits dest!: IH)
    next
      case False
      then show ?thesis using e l'(2) q le l by (auto split: if_splits dest!: IH)
    qed
  qed
  then show ?thesis using assms(2) by blast
qed

end
