(* ===== verification/ExiProps.thy ===== *)
theory ExiProps
  imports ExiUart
begin

text \<open>The properties of the expansion interface, with their witnesses.\<close>

section \<open>After initialisation\<close>

definition exi_nodes :: "exi \<Rightarrow> u32 list" where
  "exi_nodes s = node_array (lckdevs s) 32 16"

text \<open>The linker gives the nodes and the queues different words.\<close>

definition exi_layout :: "exi \<Rightarrow> bool" where
  "exi_layout s \<longleftrightarrow> distinct (words (lckdev_queue s) (exi_nodes s)) \<and> 0 \<notin> set (exi_nodes s) \<and>
     (\<forall>c < 3. set (words (lckd_dev s c) []) \<inter> set (words (lckdev_queue s) (exi_nodes s)) = {} \<and>
        (\<forall>c' < 3. c \<noteq> c' \<longrightarrow> set (words (lckd_dev s c) []) \<inter> set (words (lckd_dev s c') []) = {}))"

lemma init_empty_frame: "p \<notin> set (words q []) \<Longrightarrow> lwp_queue_init_empty q m p = m p"
  by (auto simp: lwp_queue_init_empty_def set_words)

lemma pools_init:
  assumes "lwp_list m q0 xs" "\<And>c. c < k \<Longrightarrow> set (words (q c) []) \<inter> set (words q0 xs) = {}"
    "\<And>c c'. c < k \<Longrightarrow> c' < k \<Longrightarrow> c \<noteq> c' \<Longrightarrow> set (words (q c) []) \<inter> set (words (q c') []) = {}"
  shows "pools (fold (\<lambda>c. lwp_queue_init_empty (q c)) [0 ..< k] m) (Suc k) (\<lambda>i. if i = 0 then q0 else q (i - 1)) (\<lambda>i. if i = 0 then xs else [])"
  using assms(2,3)
proof (induction k)
  case 0
  then show ?case using assms(1) by (simp add: pools_def)
next
  case (Suc k)
  let ?f = "\<lambda>i. if i = 0 then q0 else q (i - 1)" and ?x = "\<lambda>i. if i = 0 then xs else [] :: u32 list"
  let ?m = "fold (\<lambda>c. lwp_queue_init_empty (q c)) [0 ..< k] m"
  have p: "pools ?m (Suc k) ?f ?x" using Suc by auto
  have d: "set (words (?f i) (?x i)) \<inter> set (words (q k) []) = {}" if "i < Suc k" for i
    using Suc.prems(1) [of k] Suc.prems(2) [of "i - 1" k] that by (auto simp: Int_commute)
  have "lwp_list (lwp_queue_init_empty (q k) ?m) (?f i) (?x i)" if "i < Suc (Suc k)" for i
  proof (cases "i = Suc k")
    case True
    then show ?thesis using init_empty_list by simp
  next
    case False
    then have i: "i < Suc k" using that by simp
    have "lwp_queue_init_empty (q k) ?m x = ?m x" if "x \<in> set (words (?f i) (?x i))" for x
      using d [OF i] that init_empty_frame by blast
    then show ?thesis using lwp_list_cong [of "?f i" "?x i" "lwp_queue_init_empty (q k) ?m" ?m] pools_list [OF p i] by blast
  qed
  moreover have "set (words (?f i) (?x i)) \<inter> set (words (?f j) (?x j)) = {}" if "i < Suc (Suc k)" "j < Suc (Suc k)" "i \<noteq> j" for i j
  proof (cases "i = Suc k \<or> j = Suc k")
    case True
    then show ?thesis using d [of i] d [of j] that by (auto simp: Int_commute less_Suc_eq)
  next
    case False
    then show ?thesis using p that unfolding pools_def by simp
  qed
  ultimately show ?case by (simp add: pools_def)
qed

lemma init_rel:
  assumes "exi_layout s"
  shows "exi_rel (exi_initmap s) \<lparr>holder = (\<lambda>_. None), waiters = (\<lambda>_. []), spare = 32\<rparr>"
proof -
  let ?m = "lwp_queue_initialize (lckdev_queue s) (lckdevs s) EXI_LOCK_DEVS 16 (lnk s)" and ?x = "\<lambda>i. if i = 0 then exi_nodes s else []"
  have "lwp_list ?m (lckdev_queue s) (exi_nodes s)"
    using initialize_list [of "lckdev_queue s" "lckdevs s" EXI_LOCK_DEVS 16 "lnk s"] assms by (simp add: exi_layout_def exi_nodes_def)
  from pools_init [OF this, of 3 "lckd_dev s"] assms
  have p: "pools (fold (\<lambda>c. lwp_queue_init_empty (lckd_dev s c)) [0 ..< 3] ?m) 4 (queue_addr s) ?x"
    by (simp add: exi_layout_def queue_addr_def [abs_def])
  have "lnk (exi_initmap s) = fold (\<lambda>c. lwp_queue_init_empty (lckd_dev s c)) [0 ..< 3] ?m"
      "queue_addr (exi_initmap s) = queue_addr s" "\<And>c. c < 3 \<Longrightarrow> x_flags (eximap (exi_initmap s) c) = 0"
    by (auto simp: exi_initmap_def upt_rec queue_addr_def fun_eq_iff upd_chn_def Let_def)
  with p show ?thesis
    unfolding exi_rel_def lock_view_def by (intro exI [of _ ?x]) (simp add: holder_of_def has_flag_def exi_nodes_def node_array_def)
qed

definition exi_start :: exi where
  "exi_start = \<lparr>irqs = \<lparr>irq_ks = \<lparr>threads = (\<lambda>_. zero_thread), s_firstThread = NULL, ppc_next_ctx = NULL, sprg2 = NULL, sprg3 = NULL, msr = 0,
        squeues = (\<lambda>_. zero_queue), mutex_owner = (\<lambda>_. NULL), stack_mem = (\<lambda>_. 0), tasks = (\<lambda>_. zero_task), s_firstTask = NULL,
        timebase = 0, dec_reg = 0\<rparr>,
      hw = \<lparr>pi0 = 0, pi1 = 0xf0, mi14 = 0, mi15 = 0, dsp5 = 0, ai0 = 0, exi0 = 0, exi5 = 0, exi10 = 0\<rparr>, s_irqCookies = (\<lambda>_. (0, 0))\<rparr>,
      xreg = (\<lambda>_ _. 0), xwr = [], eximap = (\<lambda>_. \<lparr>CallbackEXI = XNull, CallbackTC = XNull, CallbackEXT = XNull,
      imm_len = 0, imm_buff = NULL, lockeddev = 0, x_flags = EXI_FLAG_SELECT, exi_id = 0, exi_idtime = 0\<rparr>), lnk = (\<lambda>_. 0),
      lckdev_queue = 0x80001000, lckdevs = 0x80002000, lckd_dev = (\<lambda>c. 0x80003000 + 64 * of_nat c), lck = (\<lambda>_. \<lparr>l_dev = 0, unlockcb = XNull\<rparr>),
      last_exi_idtime = (\<lambda>_. 0), exi_id_serport1 = 0, xmem = (\<lambda>a. ucast a), xwoken = [], xcache = [], loc_id = 0x80004000, loc_reg = 0x80004004\<rparr>"

text \<open>Hardware that finishes a transfer at once.\<close>

definition quick_hw :: "exi \<Rightarrow> exi" where
  "quick_hw s = s\<lparr>xreg := (\<lambda>c k. if k = 3 then xreg s c k AND NOT 1 else xreg s c k)\<rparr>"

lemma quick_hw_ok: "exi_hw quick_hw"
proof -
  have "xreg ((quick_hw ^^ 1) s) chn 3 AND 1 = 0" for s chn by (simp add: quick_hw_def) (rule bit_eqI, auto simp: bit_simps)
  moreover have "quick_hw s = s\<lparr>xreg := xreg (quick_hw s), irqs := (irqs s)\<lparr>hw := hw (irqs s)\<rparr>\<rparr>" for s by (simp add: quick_hw_def)
  ultimately show ?thesis unfolding exi_hw_def by blast
qed

lemma all3: "(\<forall>c < 3. P c) \<longleftrightarrow> P 0 \<and> P 1 \<and> P (2 :: nat)"
  by (auto simp: numeral_3_eq_3 less_Suc_eq numeral_2_eq_2)

lemma exi_start_layout: "exi_layout exi_start"
proof -
  have q: "lckdev_queue exi_start = 0x80001000" "lckd_dev exi_start 0 = 0x80003000" "lckd_dev exi_start 1 = 0x80003040" "lckd_dev exi_start 2 = 0x80003080"
    by (simp_all add: exi_start_def)
  have n: "exi_nodes exi_start = map (\<lambda>i. 0x80002000 + of_nat i * 16) [0 ..< 32]" by (simp add: exi_nodes_def node_array_def exi_start_def)
  have "distinct (words 0x80001000 (exi_nodes exi_start))" unfolding n by (simp add: words_def chain_of_def upt_rec)
  then show ?thesis unfolding exi_layout_def all3 set_words q by (simp add: n upt_rec)
qed

section \<open>Properties\<close>

text \<open>
  C25. The locks of the expansion interface are first come, first served. Whatever sequence of locks and
  unlocks the drivers make after initialisation, the implementation on the node queues does what the abstract locks do:
  on each channel the callers that found it locked are woken in the order in which they came, and those
  not yet woken still wait in that order; and no node of the pool of 32 is ever lost.
\<close>

theorem exi_lock_fifo:
  assumes "exi_layout s" "xwoken s = []" "\<forall>r \<in> set rs. lock_chn r < 3"
  shows "\<exists>s' a log. run_locks wii rs (exi_initmap s) = Some s' \<and> exi_rel s' a \<and> xwoken s' = map (\<lambda>(c, d). lock_token c d) log \<and>
    (\<forall>c < 3. map snd (filter (\<lambda>(c', d). c' = c) log) @ map fst (waiters a c) =
       ab_queued c rs \<lparr>holder = (\<lambda>_. None), waiters = (\<lambda>_. []), spare = 32\<rparr>) \<and>
    (\<Sum>c < 3. length (waiters a c)) + spare a = 32"
proof -
  let ?a = "\<lparr>holder = (\<lambda>_. None), waiters = (\<lambda>_. []), spare = 32\<rparr> :: exi_locks"
  obtain a log where r: "ab_run rs ?a [] = (a, log)" by fastforce
  have "xwoken (exi_initmap s) = []" using assms(2) by (simp add: exi_initmap_def upt_rec Let_def)
  then obtain s' where "run_locks wii rs (exi_initmap s) = Some s'" "exi_rel s' a" "xwoken s' = map (\<lambda>(c, d). lock_token c d) log"
    using run_refines [OF init_rel [OF assms(1)] _ assms(3), of "[]" wii] r by (auto simp: all_sync_def)
  then show ?thesis using ab_fifo [of _ rs ?a "[]"] ab_count [OF assms(3), of ?a "[]"] r by auto
qed

theorem exi_lock_fifo_witness:
  "\<exists>s' a log. run_locks True [LockReq 1 0, LockReq 1 2, LockReq 1 1, UnlockReq 1] (exi_initmap exi_start) = Some s' \<and> exi_rel s' a \<and>
    xwoken s' = map (\<lambda>(c, d). lock_token c d) log \<and>
    map snd (filter (\<lambda>(c', d). c' = 1) log) @ map fst (waiters a 1) = [2, 1] \<and> (\<Sum>c < 3. length (waiters a c)) + spare a = 32"
proof -
  let ?rs = "[LockReq 1 0, LockReq 1 2, LockReq 1 1, UnlockReq 1]"
  obtain s' a log where r: "run_locks True ?rs (exi_initmap exi_start) = Some s'" "exi_rel s' a" "xwoken s' = map (\<lambda>(c, d). lock_token c d) log"
      "\<forall>c < 3. map snd (filter (\<lambda>(c', d). c' = c) log) @ map fst (waiters a c) = ab_queued c ?rs \<lparr>holder = (\<lambda>_. None), waiters = (\<lambda>_. []), spare = 32\<rparr>"
      "(\<Sum>c < 3. length (waiters a c)) + spare a = 32"
    using exi_lock_fifo [OF exi_start_layout, of ?rs True] by (auto simp: exi_start_def)
  have "map snd (filter (\<lambda>(c', d). c' = 1) log) @ map fst (waiters a 1) = [2, 1]"
    using r(4) by (simp add: ab_lock_def ab_unlock_def)
  then show ?thesis using r(1,2,3,5) by blast
qed

text \<open>
  C26. A long write sends every byte of the buffer exactly once and in order: the bytes up to a cache
  line by immediate transfers, then whole cache lines by one DMA transfer from an aligned address, which
  are also the lines flushed from the data cache, then the rest by immediate transfers. In an exception the call
  waits for all of it; in a thread it sleeps when the DMA transfer has been started and sends the rest when it is woken.
\<close>

theorem exi_transfer_writes:
  assumes "exi_hw dev" "idle chn s" "(if p AND 0x1f \<noteq> 0 then 0x40 else 0x20) \<le> n"
  shows "\<exists>h b t s1 l1. h + unat b + t = unat n \<and> 32 dvd unat b \<and> 32 dvd unat (p + of_nat h) \<and>
    xcache s1 = xcache s @ [(EXI_WRITE, p + of_nat h, b)] \<and> xwr s1 = xwr s @ l1 @ dma_writes chn (p + of_nat h) b \<and>
    (\<forall>d. sent_bytes chn d l1 = load_bytes (xmem s) p h) \<and>
    (if PPCIsInExcpt (irq_ks (irqs s))
     then \<exists>s2 l2. EXI_Transfer wii dev chn p n EXI_WRITE s = Some (Some 1, s2) \<and> xwr s2 = xwr s1 @ l2 \<and>
       (\<forall>d. sent_bytes chn d l2 = load_bytes (xmem s) (p + of_nat h + b) t)
     else EXI_Transfer wii dev chn p n EXI_WRITE s = Some (None, s1) \<and>
       (\<forall>s2. idle chn s2 \<and> xmem s2 = xmem s \<longrightarrow>
         (\<exists>s3 l2. EXI_Transfer_resume wii dev chn (p + of_nat h + b) (of_nat t) EXI_WRITE 1 s2 = Some (1, s3) \<and> xwr s3 = xwr s2 @ l2 \<and>
            (\<forall>d. sent_bytes chn d l2 = load_bytes (xmem s) (p + of_nat h + b) t))))"
proof -
  let ?h = "xfer_head p" and ?b = "(n - xfer_head p) AND NOT 0x1f" and ?t = "(n - xfer_head p) AND 0x1f"
  note sp = xfer_split [OF assms(3)]
  obtain s1 l1 where s1: "has_flag EXI_FLAG_SELECT chn s1" "imm_len (eximap s1 chn) = 0" "xmem s1 = xmem s"
      "xcache s1 = xcache s @ [(EXI_WRITE, p + ?h, ?b)]" "xwr s1 = xwr s @ l1 @ dma_writes chn (p + ?h) ?b"
      "\<forall>d. sent_bytes chn d l1 = load_bytes (xmem s) p (unat ?h)"
      "EXI_Transfer wii dev chn p n EXI_WRITE s =
      (if PPCIsInExcpt (irq_ks (irqs s)) then
         do { s2 \<leftarrow> map_option snd (EXI_Sync dev chn s1); map_option (map_prod Some id) (EXI_Transfer_resume wii dev chn (p + ?h + ?b) ?t EXI_WRITE 1 s2) }
       else Some (None, s1))"
    using transfer_starts [OF assms] by blast
  note tail = transfer_tail [OF assms(1), of chn _ wii "p + ?h + ?b" ?t]
  have e: "(of_nat (unat ?h) :: ptr) = ?h" "(of_nat (unat ?t) :: u32) = ?t" by simp_all
  have "if PPCIsInExcpt (irq_ks (irqs s))
     then \<exists>s2 l2. EXI_Transfer wii dev chn p n EXI_WRITE s = Some (Some 1, s2) \<and> xwr s2 = xwr s1 @ l2 \<and>
       (\<forall>d. sent_bytes chn d l2 = load_bytes (xmem s) (p + ?h + ?b) (unat ?t))
     else EXI_Transfer wii dev chn p n EXI_WRITE s = Some (None, s1) \<and>
       (\<forall>s2. idle chn s2 \<and> xmem s2 = xmem s \<longrightarrow>
         (\<exists>s3 l2. EXI_Transfer_resume wii dev chn (p + ?h + ?b) ?t EXI_WRITE 1 s2 = Some (1, s3) \<and> xwr s3 = xwr s2 @ l2 \<and>
            (\<forall>d. sent_bytes chn d l2 = load_bytes (xmem s) (p + ?h + ?b) (unat ?t))))"
  proof (cases "PPCIsInExcpt (irq_ks (irqs s))")
    case True
    obtain s2 where s2: "EXI_Sync dev chn s1 = Some (1, s2)" "idle chn s2" "xmem s2 = xmem s1" "xwr s2 = xwr s1" using sync_dma [OF assms(1) s1(1,2)] by blast
    then show ?thesis using True s1(3,7) tail [OF s2(2)] by auto
  next
    case False
    then show ?thesis using s1(7) tail by (metis (no_types, lifting))
  qed
  then show ?thesis using sp s1(4-6)
    by (intro exI [of _ "unat ?h"] exI [of _ ?b] exI [of _ "unat ?t"] exI [of _ s1] exI [of _ l1]) (simp only: e simp_thms)
qed

theorem exi_transfer_writes_witness:
  "\<exists>h b t (s1 :: exi) l1 s2 l2. h + unat b + t = 100 \<and> 32 dvd unat b \<and> 32 dvd unat (0x80005010 + of_nat h :: ptr) \<and>
    xwr s1 = l1 @ dma_writes 0 (0x80005010 + of_nat h) b \<and> (\<forall>d. sent_bytes 0 d l1 = load_bytes (xmem exi_start) 0x80005010 h) \<and>
    EXI_Transfer False quick_hw 0 0x80005010 100 EXI_WRITE exi_start = Some (Some 1, s2) \<and> xwr s2 = xwr s1 @ l2 \<and>
    (\<forall>d. sent_bytes 0 d l2 = load_bytes (xmem exi_start) (0x80005010 + of_nat h + b) t)"
proof -
  have i: "idle 0 exi_start" by (simp add: idle_def has_flag_def exi_start_def)
  have x: "PPCIsInExcpt (irq_ks (irqs exi_start))" "xwr exi_start = []" by (simp_all add: PPCIsInExcpt_def exi_start_def)
  have n: "(if (0x80005010 :: ptr) AND 0x1f \<noteq> 0 then 0x40 else 0x20) \<le> (100 :: u32)" "unat (100 :: u32) = 100" by simp_all
  note w = exi_transfer_writes [OF quick_hw_ok i n(1), of False, unfolded if_P [OF x(1)] x(2) n(2) append_Nil]
  show ?thesis
  proof (rule w [THEN exE], elim exE conjE)
    fix h b t and s1 :: exi and l1 s2 l2
    assume r: "h + unat b + t = 100" "32 dvd unat b" "32 dvd unat (0x80005010 + of_nat h :: ptr)"
      "xwr s1 = l1 @ dma_writes 0 (0x80005010 + of_nat h) b" "\<forall>d. sent_bytes 0 d l1 = load_bytes (xmem exi_start) 0x80005010 h"
      "EXI_Transfer False quick_hw 0 0x80005010 100 EXI_WRITE exi_start = Some (Some 1, s2)" "xwr s2 = xwr s1 @ l2"
      "\<forall>d. sent_bytes 0 d l2 = load_bytes (xmem exi_start) (0x80005010 + of_nat h + b) t"
    show ?thesis
      by (rule exI [of _ h], rule exI [of _ b], rule exI [of _ t], rule exI [of _ s1], rule exI [of _ l1],
          rule exI [of _ s2], rule exI [of _ l2], intro conjI r)
  qed
qed

text \<open>
  C24. \<^verbatim>\<open>EXI_Unlock\<close> returns. The handler that reads a device's identification unlocks the channel itself,
  which calls the next waiter, so that callbacks nest; with at most \<open>k\<close> waiters the nesting ends within \<open>k\<close>
  calls, every lock it took is released or still represented, and the queues stay well formed. The hardware has to finish its
  transfers, and the callbacks of the program have to return.
\<close>

theorem exi_unlock_terminates:
  assumes "exi_hw dev" "exi_rel s a" "c < 3" "length (waiters a c) \<le> k"
    "\<forall>u d s a. exi_rel s a \<longrightarrow> (\<exists>s' a'. user u c d s = Some s' \<and> exi_rel s' a')"
  shows "\<exists>r s' a'. EXI_Unlock wii (exi_call k wii dev user) c s = Some (r, s') \<and> exi_rel s' a'"
proof -
  have "calls_ok (exi_call k wii dev user) c k" using exi_call_returns [OF assms(1,3)] assms(5) by blast
  then have "calls_ok (exi_call k wii dev user) c (length (waiters a c))"
    using assms(4) unfolding calls_ok_def by (meson less_le_trans)
  from unlock_returns [OF assms(2,3) this] show ?thesis .
qed

theorem exi_unlock_terminates_witness:
  "\<exists>r s' a'. EXI_Unlock False (exi_call 32 False quick_hw (\<lambda>_ _ _ s. Some s)) 1
     (snd (EXI_Lock False 1 0 XUnlocked (snd (EXI_Lock False 1 0 XNull (exi_initmap exi_start))))) = Some (r, s') \<and> exi_rel s' a'"
proof -
  let ?a = "\<lparr>holder = (\<lambda>_. None), waiters = (\<lambda>_. []), spare = 32\<rparr> :: exi_locks"
  have l: "exi_rel (snd (EXI_Lock False 1 d cb s)) (snd (ab_lock 1 d cb a))" if "exi_rel s a" for s a d cb
    using lock_ok [OF that, of 1 False d cb] by (cases "EXI_Lock False 1 d cb s") fastforce
  have r: "exi_rel (snd (EXI_Lock False 1 0 XUnlocked (snd (EXI_Lock False 1 0 XNull (exi_initmap exi_start)))))
      (snd (ab_lock 1 0 XUnlocked (snd (ab_lock 1 0 XNull ?a))))" by (intro l init_rel exi_start_layout)
  show ?thesis by (rule exi_unlock_terminates [OF quick_hw_ok r]) (auto simp: ab_lock_def)
qed

text \<open>The interrupt for a removed card is not disabled: the handler shifts the mask by three times the interrupt number.\<close>

lemma ext_mask_empty:
  "nIrq = IRQ_EXI0_EXT \<or> nIrq = IRQ_EXI1_EXT \<Longrightarrow> drop_bit (nIrq * 3) (IRQMASK IRQ_EXI0_EXI OR IRQMASK IRQ_EXI0_EXT) = 0"
  by (auto simp: PPCBIT_def drop_bit_eq_div)

end
