(* ===== verification/SramProps.thy ===== *)
theory SramProps
  imports SramInv ExiProps
begin

text \<open>The properties of the battery-backed memory, with their witnesses.\<close>

section \<open>Setters and getters\<close>

definition sram_ready :: "sram_env \<Rightarrow> exi_locks \<Rightarrow> exi \<Rightarrow> bool" where
  "sram_ready E a s \<longleftrightarrow> exi_rel s a \<and> holder a 0 = None \<and> waiters a 0 = [] \<and> bus_clean s \<and> sc_locked E s = 0 \<and> sc_offset E s \<le> 64"

lemma buf_byte: "sram_buf E s' = sram_buf E s \<Longrightarrow> j < 64 \<Longrightarrow> xmem s' (cn E + of_nat j) = xmem s (cn E + of_nat j)"
  by (auto simp: sram_buf_def load_bytes_def)

lemma buf_num:
  assumes "sram_buf E s' = sram_buf E s" "numeral k < (64 :: nat)"
  shows "xmem s' (cn E + numeral k) = xmem s (cn E + numeral k)"
  using buf_byte [OF assms] by simp

lemma get_ok:
  assumes "sc_locked E s = 0" "cn E + loc \<noteq> 0"
  shows "\<exists>t s'. sram_get E wii dev call loc rd s = Some (rd (cn E + loc) (xmem t), s') \<and> sram_buf E t = sram_buf E s"
proof -
  obtain s1 where s1: "locksram E loc s = (cn E + loc, s1)" "sram_buf E s1 = sram_buf E s" using locksram_ok [OF assms(1)] by blast
  moreover obtain s2 where "unlocksram E wii dev call False loc s1 = Some (sc_sync E s1, s2)" using unlock_clean by blast
  ultimately show ?thesis using assms(2) by (intro exI [of _ s1] exI [of _ s2]) (simp add: sram_get_def)
qed

text \<open>A change writes only the first 64 bytes of the struct.\<close>

definition wr_ok :: "sram_env \<Rightarrow> u32 \<Rightarrow> (ptr \<Rightarrow> bmem \<Rightarrow> bmem) \<Rightarrow> bool" where
  "wr_ok E loc wr \<longleftrightarrow> (\<forall>m j. 64 \<le> j \<and> j < 80 \<longrightarrow> wr (cn E + loc) m (cn E + of_nat j) = m (cn E + of_nat j))"

lemma wr_sc:
  assumes "wr_ok E loc wr"
  shows "sc_locked E (s\<lparr>xmem := wr (cn E + loc) (xmem s)\<rparr>) = sc_locked E s" "sc_offset E (s\<lparr>xmem := wr (cn E + loc) (xmem s)\<rparr>) = sc_offset E s"
proof -
  have b: "wr (cn E + loc) m (cn E + of_nat j) = m (cn E + of_nat j)" if "64 \<le> j" "j < 80" for m j using assms that by (simp add: wr_ok_def)
  show "sc_offset E (s\<lparr>xmem := wr (cn E + loc) (xmem s)\<rparr>) = sc_offset E s"
    using b [of 64 "xmem s"] b [of 65 "xmem s"] b [of 66 "xmem s"] b [of 67 "xmem s"] by (simp add: sc_offset_def load_u32_def add.assoc)
  show "sc_locked E (s\<lparr>xmem := wr (cn E + loc) (xmem s)\<rparr>) = sc_locked E s"
    using b [of 72 "xmem s"] b [of 73 "xmem s"] b [of 74 "xmem s"] b [of 75 "xmem s"] by (simp add: sc_locked_def load_u32_def add.assoc)
qed

lemma set_ok:
  assumes hw: "sel_hw dev" and E: "env_ok E" and r: "sram_ready E a s" and loc: "cn E + loc \<noteq> 0" "loc < 64" and wr: "wr_ok E loc wr"
  shows "\<exists>t s'. sram_set E wii dev call loc differs wr s = Some s' \<and> sram_ready E a s' \<and> sram_buf E t = sram_buf E s \<and>
     sram_buf E s' = sram_buf E (if differs (cn E + loc) (xmem t) then finished E loc (t\<lparr>xmem := wr (cn E + loc) (xmem t)\<rparr>) else t) \<and>
     (differs (cn E + loc) (xmem t) \<longrightarrow> sc_sync E s' = 1 \<and> sc_offset E s' = 64)"
proof -
  have R: "exi_rel s a" "holder a 0 = None" "waiters a 0 = []" "bus_clean s" "sc_locked E s = 0" "sc_offset E s \<le> 64" using r by (auto simp: sram_ready_def)
  obtain t where t: "locksram E loc s = (cn E + loc, t)" "sc_offset E t = sc_offset E s" "sram_buf E t = sram_buf E s" "exi_rel t a" "bus_clean t"
    using locksram_ok [OF R(5), of loc] R by auto
  let ?d = "differs (cn E + loc) (xmem t)" and ?t = "t\<lparr>xmem := wr (cn E + loc) (xmem t)\<rparr>"
  have T: "exi_rel ?t a" "bus_clean ?t" "sc_offset E ?t \<le> 64" using t(2,4,5) R(6) wr_sc(2) [OF wr, of t] locks_rel(2) [OF locks_simps(4)]
    by (simp_all add: bus_clean_def has_flag_def)
  show ?thesis
  proof (cases ?d)
    case True
    obtain s' where "unlocksram E wii dev call True loc ?t = Some (1, s')" "exi_rel s' a" "bus_clean s'" "sc_locked E s' = 0" "sc_offset E s' = 64"
        "sc_sync E s' = 1" "sram_buf E s' = sram_buf E (finished E loc ?t)"
      using unlock_free [OF hw E T(1) R(2,3) T(2,3) loc(2), of wii call] by blast
    then show ?thesis using t R True loc(1) by (intro exI [of _ t] exI [of _ s']) (simp add: sram_set_def sram_ready_def Let_def)
  next
    case False
    obtain s' where "unlocksram E wii dev call False loc t = Some (sc_sync E t, s')" "sc_offset E s' = sc_offset E t" "sc_locked E s' = 0"
        "sram_buf E s' = sram_buf E t" "\<forall>a. exi_rel s' a = exi_rel t a" "bus_clean s' = bus_clean t" using unlock_clean by blast
    then show ?thesis using t R False loc(1) by (intro exI [of _ t] exI [of _ s']) (simp add: sram_set_def sram_ready_def Let_def)
  qed
qed

section \<open>Checksums\<close>

definition checksum_ok :: "sram_env \<Rightarrow> exi \<Rightarrow> bool" where
  "checksum_ok E s \<longleftrightarrow> buildchecksum (cn E) (xmem s) = (load_u16 (xmem s) (cn E), load_u16 (xmem s) (cn E + 2))"

lemma checksum_eq:
  "buildchecksum c m =
     (load_u16 m (c + 12) + load_u16 m (c + 14) + load_u16 m (c + 16) + load_u16 m (c + 18),
      NOT (load_u16 m (c + 12)) + NOT (load_u16 m (c + 14)) + NOT (load_u16 m (c + 16)) + NOT (load_u16 m (c + 18)))"
  by (simp add: buildchecksum_def upt_rec Let_def)

lemma buf_u16:
  assumes "sram_buf E s' = sram_buf E s" "k + 2 \<le> 64"
  shows "load_u16 (xmem s') (cn E + of_nat k) = load_u16 (xmem s) (cn E + of_nat k)"
proof -
  have e: "cn E + of_nat k + 1 = cn E + of_nat (k + 1)" by (simp add: ac_simps)
  show ?thesis unfolding load_u16_def e using buf_byte [OF assms(1), of k] buf_byte [OF assms(1), of "k + 1"] assms(2) by simp
qed

lemma buf_u32:
  assumes "sram_buf E s' = sram_buf E s" "k + 4 \<le> 64"
  shows "load_u32 (xmem s') (cn E + of_nat k) = load_u32 (xmem s) (cn E + of_nat k)"
proof -
  have e: "cn E + of_nat k + 1 = cn E + of_nat (k + 1)" "cn E + of_nat k + 2 = cn E + of_nat (k + 2)" "cn E + of_nat k + 3 = cn E + of_nat (k + 3)"
    by (simp_all add: ac_simps)
  show ?thesis unfolding load_u32_def e
    using buf_byte [OF assms(1), of k] buf_byte [OF assms(1), of "k + 1"] buf_byte [OF assms(1), of "k + 2"] buf_byte [OF assms(1), of "k + 3"]
      assms(2) by simp
qed

lemma buf_halfwords:
  assumes "sram_buf E s' = sram_buf E s"
  shows "load_u16 (xmem s') (cn E) = load_u16 (xmem s) (cn E)" "load_u16 (xmem s') (cn E + 2) = load_u16 (xmem s) (cn E + 2)"
    "load_u16 (xmem s') (cn E + 12) = load_u16 (xmem s) (cn E + 12)" "load_u16 (xmem s') (cn E + 14) = load_u16 (xmem s) (cn E + 14)"
    "load_u16 (xmem s') (cn E + 16) = load_u16 (xmem s) (cn E + 16)" "load_u16 (xmem s') (cn E + 18) = load_u16 (xmem s) (cn E + 18)"
    "load_u16 (xmem s') (cn E + 60) = load_u16 (xmem s) (cn E + 60)" "load_u32 (xmem s') (cn E + 12) = load_u32 (xmem s) (cn E + 12)"
  using buf_u16 [OF assms, of 0] buf_u16 [OF assms, of 2] buf_u16 [OF assms, of 12] buf_u16 [OF assms, of 14] buf_u16 [OF assms, of 16]
    buf_u16 [OF assms, of 18] buf_u16 [OF assms, of 60] buf_u32 [OF assms, of 12] by simp_all

lemma checksum_buf:
  assumes "sram_buf E s' = sram_buf E s"
  shows "checksum_ok E s' = checksum_ok E s"
  unfolding checksum_ok_def checksum_eq by (simp only: buf_halfwords [OF assms])

lemma finish_checksum: "checksum_ok E (sram_finish E s)"
proof -
  obtain m c1 c2 where m: "xmem (sram_finish E s) = store_u16 (cn E + 2) c2 (store_u16 (cn E) c1 m)" "buildchecksum (cn E) m = (c1, c2)"
    by (auto simp: sram_finish_def Let_def case_prod_beta intro!: that prod.collapse [symmetric])
  have "buildchecksum (cn E) (store_u16 (cn E + 2) c2 (store_u16 (cn E) c1 m)) = buildchecksum (cn E) m"
    by (simp add: checksum_eq load_u16_def store_u16_def store_bytes_def)
  moreover have "load_u16 (store_u16 (cn E + 2) c2 (store_u16 (cn E) c1 m)) (cn E) = load_u16 (store_u16 (cn E) c1 m) (cn E)"
    by (simp add: load_u16_def store_u16_def store_bytes_def unsigned_minus_1_eq_mask mask_eq_exp_minus_1)
  ultimately show ?thesis unfolding checksum_ok_def m(1) by (simp add: m(2))
qed

lemma finish_bytes:
  "xmem (sram_finish E s) (cn E + 16) = xmem s (cn E + 16)" "xmem (sram_finish E s) (cn E + 17) = xmem s (cn E + 17)"
  "xmem (sram_finish E s) (cn E + 18) = xmem s (cn E + 18)" "load_u32 (xmem (sram_finish E s)) (cn E + 12) = load_u32 (xmem s) (cn E + 12)"
  "xmem (sram_finish E s) (cn E + 19) = (if xmem s (cn E + 19) AND SRAM_VIDEO_MODE_BITS > 2 then xmem s (cn E + 19) AND NOT SRAM_VIDEO_MODE_BITS else xmem s (cn E + 19))"
  by (simp_all add: sram_finish_def Let_def case_prod_beta load_u32_def store_u16_def store_bytes_def)

section \<open>Reading back\<close>

lemma wr_byte:
  assumes "k < 64"
  shows "wr_ok E 0 (\<lambda>p m. m(p + of_nat k := f p m))"
proof -
  have "of_nat j \<noteq> (of_nat k :: u32)" if "64 \<le> j" "j < 80" for j
  proof
    assume "of_nat j = (of_nat k :: u32)"
    then have "unat (of_nat j :: u32) = unat (of_nat k :: u32)" by (rule arg_cong)
    then show False using that assms by (simp add: unat_of_nat take_bit_nat_eq_self)
  qed
  then show ?thesis by (auto simp: wr_ok_def)
qed

lemmas wr_settings = wr_byte [of 18, simplified] wr_byte [of 19, simplified] wr_byte [of 16, simplified] wr_byte [of 17, simplified]

lemma wr_store:
  assumes "unat (loc + k) + length bs \<le> 64"
  shows "wr_ok E loc (\<lambda>p. store_bytes (p + k) bs)"
  unfolding wr_ok_def
proof (intro allI impI)
  fix m and j :: nat
  assume j: "64 \<le> j \<and> j < 80"
  have e: "cn E + of_nat j - (cn E + loc + k) = of_nat j - (loc + k)" by simp
  have "unat (of_nat j - (loc + k)) = j - unat (loc + k)"
    using j assms by (subst unat_sub) (simp_all add: word_le_nat_alt unat_of_nat take_bit_nat_eq_self)
  then have "length bs \<le> unat (cn E + of_nat j - (cn E + loc + k))" unfolding e using j assms by linarith
  then show "store_bytes (cn E + loc + k) bs m (cn E + of_nat j) = m (cn E + of_nat j)" by (rule store_bytes_other)
qed

text \<open>A setting of the first 20 bytes: the copy afterwards, as far as the setting \<open>v\<close> and the checksums go.\<close>

lemma set_get_main:
  assumes hw: "sel_hw dev" and E: "env_ok E" and r: "sram_ready E a s" and wr: "wr_ok E 0 wr"
    and w: "\<And>t. differs (cn E) (xmem t) \<Longrightarrow> rd (cn E) (xmem (sram_finish E (t\<lparr>xmem := wr (cn E) (xmem t)\<rparr>))) = v"
    and n: "\<And>m. \<not> differs (cn E) m \<Longrightarrow> rd (cn E) m = v"
    and b: "\<And>s s'. sram_buf E s' = sram_buf E s \<Longrightarrow> rd (cn E) (xmem s') = rd (cn E) (xmem s)"
  shows "\<exists>s' s''. sram_set E wii dev call 0 differs wr s = Some s' \<and> sram_get E wii dev call 0 rd s' = Some (v, s'') \<and> (checksum_ok E s \<longrightarrow> checksum_ok E s')"
proof -
  have c: "cn E + 0 \<noteq> 0" using E by (simp add: env_ok_def)
  obtain t s' where s': "sram_set E wii dev call 0 differs wr s = Some s'" "sram_ready E a s'" "sram_buf E t = sram_buf E s"
      "sram_buf E s' = sram_buf E (if differs (cn E) (xmem t) then sram_finish E (t\<lparr>xmem := wr (cn E) (xmem t)\<rparr>) else t)"
    using set_ok [OF hw E r c _ wr, of wii call differs] by (auto simp: finished_def)
  obtain u s'' where u: "sram_get E wii dev call 0 rd s' = Some (rd (cn E) (xmem u), s'')" "sram_buf E u = sram_buf E s'"
    using get_ok [of E s' 0 wii dev call rd] s'(2) c by (auto simp: sram_ready_def)
  have "rd (cn E) (xmem u) = v" using b [OF u(2)] b [OF s'(4)] w n by auto
  moreover have "checksum_ok E s \<longrightarrow> checksum_ok E s'" using checksum_buf [OF s'(4)] checksum_buf [OF s'(3)] finish_checksum by auto
  ultimately show ?thesis using s'(1) u(1) by auto
qed

lemma language_set_get:
  assumes "sel_hw dev" "env_ok E" "sram_ready E a s"
  shows "\<exists>s' s''. SYS_SetLanguage E wii dev call v s = Some s' \<and> SYS_GetLanguage E wii dev call s' = Some (v, s'') \<and> (checksum_ok E s \<longrightarrow> checksum_ok E s')"
  unfolding SYS_SetLanguage_def SYS_GetLanguage_def
proof (rule set_get_main [OF assms wr_settings(1)])
  show "xmem (sram_finish E (t\<lparr>xmem := (xmem t)(cn E + 18 := v)\<rparr>)) (cn E + 18) = v" for t by (simp only: finish_bytes) simp
  show "xmem s' (cn E + 18) = xmem s (cn E + 18)" if "sram_buf E s' = sram_buf E s" for s s' using buf_byte [OF that, of 18] by simp
qed simp

lemma bias_set_get:
  assumes "sel_hw dev" "env_ok E" "sram_ready E a s"
  shows "\<exists>s' s''. SYS_SetCounterBias E wii dev call v s = Some s' \<and> SYS_GetCounterBias E wii dev call s' = Some (v, s'') \<and> (checksum_ok E s \<longrightarrow> checksum_ok E s')"
  unfolding SYS_SetCounterBias_def SYS_GetCounterBias_def
proof (rule set_get_main [OF assms])
  show "wr_ok E 0 (\<lambda>p. store_u32 (p + 12) v)" unfolding store_u32_def by (rule wr_store) simp
  show "load_u32 (xmem (sram_finish E (t\<lparr>xmem := store_u32 (cn E + 12) v (xmem t)\<rparr>))) (cn E + 12) = v" for t by (simp only: finish_bytes) simp
  show "load_u32 (xmem s') (cn E + 12) = load_u32 (xmem s) (cn E + 12)" if "sram_buf E s' = sram_buf E s" for s s' by (rule buf_halfwords [OF that])
qed simp

text \<open>A video mode that is 0, 1 or 2.\<close>

lemma video_bits:
  fixes f v :: u8
  assumes "v < 3"
  shows "((f AND NOT 3) OR (v AND 3)) AND 3 = v"
proof -
  have "unat v < 3" using assms by (simp add: word_less_nat_alt)
  then have "unat v = 0 \<or> unat v = 1 \<or> unat v = 2" by linarith
  then have "unat v = unat (0 :: u8) \<or> unat v = unat (1 :: u8) \<or> unat v = unat (2 :: u8)" by simp
  then have "v = 0 \<or> v = 1 \<or> v = 2" by (blast intro: unsigned_word_eqI)
  moreover have "((f AND NOT 3) OR (v AND 3)) AND 3 = v AND 3" by (rule bit_eqI) (auto simp: bit_simps)
  ultimately show ?thesis by auto
qed

lemma video_set_get:
  assumes "sel_hw dev" "env_ok E" "sram_ready E a s" "v < 3"
  shows "\<exists>s' s''. SYS_SetVideoMode E wii dev call v s = Some s' \<and> SYS_GetVideoMode E wii dev call s' = Some (v, s'') \<and> (checksum_ok E s \<longrightarrow> checksum_ok E s')"
  unfolding SYS_SetVideoMode_def SYS_GetVideoMode_def
proof (rule set_get_main [OF assms(1-3) wr_settings(2)])
  have v: "\<not> v > 2" using assms(4) by (simp add: word_less_nat_alt not_less)
  show "xmem (sram_finish E (t\<lparr>xmem := (xmem t)(cn E + 19 := (xmem t (cn E + 19) AND NOT SRAM_VIDEO_MODE_BITS) OR (v AND SRAM_VIDEO_MODE_BITS))\<rparr>)) (cn E + 19) AND SRAM_VIDEO_MODE_BITS = v" for t
    using video_bits [OF assms(4), of "xmem t (cn E + 19)"] v by (simp only: finish_bytes) simp
  show "xmem s' (cn E + 19) AND SRAM_VIDEO_MODE_BITS = xmem s (cn E + 19) AND SRAM_VIDEO_MODE_BITS" if "sram_buf E s' = sram_buf E s" for s s'
    using buf_byte [OF that, of 19] by simp
qed simp

text \<open>Settings of one bit: \<open>n\<close> is its place in the byte. The check of the video mode leaves the other bits alone.\<close>

lemma one_bit: "drop_bit n f AND 1 = (of_bool (bit f n) :: u8)"
  by (simp add: and_one_eq bit_iff_odd_drop_bit mod_2_eq_odd)

lemma flag_value: "(if f AND 4 \<noteq> 0 then 1 else 0) = (of_bool (bit f 2) :: u8)" "(if f AND 0x80 \<noteq> 0 then 1 else 0) = (of_bool (bit f 7) :: u8)"
  using and_exp_eq_0_iff_not_bit [of f 2] and_exp_eq_0_iff_not_bit [of f 7] by simp_all

lemma set_bits:
  fixes f e :: u8
  shows "of_bool (bit ((f AND NOT 0x40) OR push_bit 6 (e AND 1)) 6) = e AND 1"
    "of_bool (bit ((f AND NOT SRAM_PROGSCAN_BIT) OR push_bit 7 (e AND 1)) 7) = e AND 1"
    "of_bool (bit ((f AND NOT SRAM_SOUND_MODE_BIT) OR push_bit 2 (e AND 1)) 2) = e AND 1"
proof -
  have e: "e AND 1 = of_bool (bit e 0)" using one_bit [of 0 e] by simp
  show "of_bool (bit ((f AND NOT 0x40) OR push_bit 6 (e AND 1)) 6) = e AND 1"
    "of_bool (bit ((f AND NOT SRAM_PROGSCAN_BIT) OR push_bit 7 (e AND 1)) 7) = e AND 1"
    "of_bool (bit ((f AND NOT SRAM_SOUND_MODE_BIT) OR push_bit 2 (e AND 1)) 2) = e AND 1"
    unfolding e by (simp_all add: bit_or_iff bit_and_iff bit_not_iff bit_push_bit_iff)
qed

lemma xmem_put: "xmem (t\<lparr>xmem := (xmem t)(x := y)\<rparr>) x = y"
  by simp

lemma finish_flags: "bit (xmem (sram_finish E s) (cn E + 19)) n = bit (xmem s (cn E + 19)) n" if "n = 2 \<or> n = 7"
  unfolding finish_bytes using that by (auto simp: bit_and_iff bit_not_iff)

lemma offset_set_get:
  assumes "sel_hw dev" "env_ok E" "sram_ready E a s"
  shows "\<exists>s' s''. SYS_SetDisplayOffsetH E wii dev call v s = Some s' \<and> SYS_GetDisplayOffsetH E wii dev call s' = Some (v, s'') \<and> (checksum_ok E s \<longrightarrow> checksum_ok E s')"
  unfolding SYS_SetDisplayOffsetH_def SYS_GetDisplayOffsetH_def
proof (rule set_get_main [OF assms wr_settings(3)])
  show "xmem (sram_finish E (t\<lparr>xmem := (xmem t)(cn E + 16 := v)\<rparr>)) (cn E + 16) = v" for t by (simp only: finish_bytes) simp
  show "xmem s' (cn E + 16) = xmem s (cn E + 16)" if "sram_buf E s' = sram_buf E s" for s s' using buf_byte [OF that, of 16] by simp
qed simp

lemma rgb60_set_get:
  assumes "sel_hw dev" "env_ok E" "sram_ready E a s"
  shows "\<exists>s' s''. SYS_SetEuRGB60 E wii dev call v s = Some s' \<and> SYS_GetEuRGB60 E wii dev call s' = Some (v AND 1, s'') \<and> (checksum_ok E s \<longrightarrow> checksum_ok E s')"
  unfolding SYS_SetEuRGB60_def SYS_GetEuRGB60_def one_bit
proof (rule set_get_main [OF assms wr_settings(4)])
  show "of_bool (bit (xmem (sram_finish E (t\<lparr>xmem := (xmem t)(cn E + 17 := (xmem t (cn E + 17) AND NOT 0x40) OR push_bit 6 (v AND 1))\<rparr>)) (cn E + 17)) 6) = v AND 1" for t
    by (simp only: finish_bytes xmem_put set_bits)
  show "of_bool (bit (xmem s' (cn E + 17)) 6) = (of_bool (bit (xmem s (cn E + 17)) 6) :: u8)" if "sram_buf E s' = sram_buf E s" for s s'
    using buf_byte [OF that, of 17] by simp
qed auto

lemma progressive_set_get:
  assumes "sel_hw dev" "env_ok E" "sram_ready E a s"
  shows "\<exists>s' s''. SYS_SetProgressiveScan E wii dev call v s = Some s' \<and> SYS_GetProgressiveScan E wii dev call s' = Some (v AND 1, s'') \<and> (checksum_ok E s \<longrightarrow> checksum_ok E s')"
  unfolding SYS_SetProgressiveScan_def SYS_GetProgressiveScan_def one_bit flag_value
proof (rule set_get_main [OF assms wr_settings(2)])
  show "of_bool (bit (xmem (sram_finish E (t\<lparr>xmem := (xmem t)(cn E + 19 := (xmem t (cn E + 19) AND NOT SRAM_PROGSCAN_BIT) OR push_bit 7 (v AND 1))\<rparr>)) (cn E + 19)) 7) = v AND 1" for t
    by (simp only: finish_flags simp_thms xmem_put set_bits)
  show "of_bool (bit (xmem s' (cn E + 19)) 7) = (of_bool (bit (xmem s (cn E + 19)) 7) :: u8)" if "sram_buf E s' = sram_buf E s" for s s'
    using buf_byte [OF that, of 19] by simp
qed auto

lemma sound_set_get:
  assumes "sel_hw dev" "env_ok E" "sram_ready E a s"
  shows "\<exists>s' s''. SYS_SetSoundMode E wii dev call v s = Some s' \<and> SYS_GetSoundMode E wii dev call s' = Some (v AND 1, s'') \<and> (checksum_ok E s \<longrightarrow> checksum_ok E s')"
  unfolding SYS_SetSoundMode_def SYS_GetSoundMode_def one_bit flag_value
proof (rule set_get_main [OF assms wr_settings(2)])
  show "of_bool (bit (xmem (sram_finish E (t\<lparr>xmem := (xmem t)(cn E + 19 := (xmem t (cn E + 19) AND NOT SRAM_SOUND_MODE_BIT) OR push_bit 2 (v AND 1))\<rparr>)) (cn E + 19)) 2) = v AND 1" for t
    by (simp only: finish_flags simp_thms xmem_put set_bits)
  show "of_bool (bit (xmem s' (cn E + 19)) 2) = (of_bool (bit (xmem s (cn E + 19)) 2) :: u8)" if "sram_buf E s' = sram_buf E s" for s s'
    using buf_byte [OF that, of 19] by simp
qed auto

text \<open>The settings behind the first 20 bytes, which have no checksum of their own: halfwords at \<open>k\<close>.\<close>

lemma set_get_ex:
  assumes hw: "sel_hw dev" and E: "env_ok E" and r: "sram_ready E a s" and k: "k \<in> {28, 30, 32, 34, 40}"
  shows "\<exists>s' s''. sram_set E wii dev call SRAM_SIZE (\<lambda>p m. load_u16 m (p + k) \<noteq> v) (\<lambda>p. store_u16 (p + k) v) s = Some s' \<and>
    sram_get E wii dev call SRAM_SIZE (\<lambda>p m. load_u16 m (p + k)) s' = Some (v, s'') \<and> (checksum_ok E s \<longrightarrow> checksum_ok E s')"
proof -
  let ?d = "\<lambda>p m. load_u16 m (p + k) \<noteq> v" and ?wr = "\<lambda>p. store_u16 (p + k) v"
  have c: "cn E + SRAM_SIZE \<noteq> 0" using E by (simp add: env_ok_def)
  have l: "SRAM_SIZE < 64" and fin: "finished E SRAM_SIZE x = x" for x by (simp_all add: finished_def)
  have ub: "unat (SRAM_SIZE + k) + 2 \<le> 64" using k by auto
  have at: "cn E + SRAM_SIZE + k = cn E + of_nat (unat (SRAM_SIZE + k))" by (simp add: add.assoc)
  have wr: "wr_ok E SRAM_SIZE ?wr" unfolding store_u16_def by (rule wr_store) (use ub in simp)
  obtain t s' where s': "sram_set E wii dev call SRAM_SIZE ?d ?wr s = Some s'" "sram_ready E a s'" "sram_buf E t = sram_buf E s"
      "sram_buf E s' = sram_buf E (if ?d (cn E + SRAM_SIZE) (xmem t) then t\<lparr>xmem := ?wr (cn E + SRAM_SIZE) (xmem t)\<rparr> else t)"
    using set_ok [OF hw E r c l wr, of wii call ?d] unfolding fin by blast
  let ?t = "if ?d (cn E + SRAM_SIZE) (xmem t) then t\<lparr>xmem := ?wr (cn E + SRAM_SIZE) (xmem t)\<rparr> else t"
  obtain u s'' where u: "sram_get E wii dev call SRAM_SIZE (\<lambda>p m. load_u16 m (p + k)) s' = Some (load_u16 (xmem u) (cn E + SRAM_SIZE + k), s'')"
      "sram_buf E u = sram_buf E s'"
    using get_ok [of E s' SRAM_SIZE wii dev call "\<lambda>p m. load_u16 m (p + k)"] s'(2) c by (auto simp: sram_ready_def)
  have "load_u16 (xmem u) (cn E + SRAM_SIZE + k) = load_u16 (xmem ?t) (cn E + SRAM_SIZE + k)"
    using buf_u16 [OF u(2) ub] buf_u16 [OF s'(4) ub] by (simp only: at)
  also have "\<dots> = v" by (cases "?d (cn E + SRAM_SIZE) (xmem t)") simp_all
  finally have g: "load_u16 (xmem u) (cn E + SRAM_SIZE + k) = v" .
  have ld: "load_u16 (?wr (cn E + SRAM_SIZE) m) (cn E + j) = load_u16 m (cn E + j)" if "j \<in> {0, 2, 12, 14, 16, 18}" for j m
  proof -
    have e: "cn E + j - (cn E + SRAM_SIZE + k) = j - (SRAM_SIZE + k)" "cn E + j + 1 - (cn E + SRAM_SIZE + k) = j + 1 - (SRAM_SIZE + k)" by simp_all
    have "2 \<le> unat (j - (SRAM_SIZE + k))" "2 \<le> unat (j + 1 - (SRAM_SIZE + k))"
      using k that by (elim insertE emptyE; simp)+
    then have "?wr (cn E + SRAM_SIZE) m (cn E + j) = m (cn E + j)" "?wr (cn E + SRAM_SIZE) m (cn E + j + 1) = m (cn E + j + 1)"
      unfolding store_u16_def by (intro store_bytes_other; simp only: e length_be_bytes)+
    then show ?thesis by (simp only: load_u16_def)
  qed
  have "checksum_ok E (t\<lparr>xmem := ?wr (cn E + SRAM_SIZE) (xmem t)\<rparr>) = checksum_ok E t"
    using ld [of 0] ld [of 2] ld [of 12] ld [of 14] ld [of 16] ld [of 18] by (simp add: checksum_ok_def checksum_eq)
  then have "checksum_ok E ?t = checksum_ok E t" by simp
  then show ?thesis using s'(1) u(1) g checksum_buf [OF s'(4)] checksum_buf [OF s'(3)] by auto
qed

lemma gbs_set_get:
  assumes "sel_hw dev" "env_ok E" "sram_ready E a s"
  shows "\<exists>s' s''. SYS_SetGBSMode E wii dev call v s = Some s' \<and> SYS_GetGBSMode E wii dev call s' = Some (gbs_mode v, s'') \<and> (checksum_ok E s \<longrightarrow> checksum_ok E s')"
  unfolding SYS_SetGBSMode_def SYS_GetGBSMode_def by (rule set_get_ex [OF assms]) simp

lemma wireless_set_get:
  assumes "sel_hw dev" "env_ok E" "sram_ready E a s" "chan < 4"
  shows "\<exists>s' s''. SYS_SetWirelessID E wii dev call chan v s = Some s' \<and> SYS_GetWirelessID E wii dev call chan s' = Some (v, s'') \<and> (checksum_ok E s \<longrightarrow> checksum_ok E s')"
proof -
  have "unat chan < 4" using assms(4) by (simp add: word_less_nat_alt)
  then have "unat chan = 0 \<or> unat chan = 1 \<or> unat chan = 2 \<or> unat chan = 3" by linarith
  then have "unat chan = unat (0 :: u32) \<or> unat chan = unat (1 :: u32) \<or> unat chan = unat (2 :: u32) \<or> unat chan = unat (3 :: u32)" by simp
  then have "chan = 0 \<or> chan = 1 \<or> chan = 2 \<or> chan = 3" by (blast intro: unsigned_word_eqI)
  then have k: "28 + 2 * chan \<in> {28, 30, 32, 34, 40}" by auto
  show ?thesis unfolding SYS_SetWirelessID_def SYS_GetWirelessID_def add.assoc by (rule set_get_ex [OF assms(1-3) k])
qed

section \<open>Properties\<close>

text \<open>The state of the witnesses: after the initialisation of the bus, with an unlocked copy that agrees with the device.\<close>

definition sram_env0 :: sram_env where
  "sram_env0 = \<lparr>cn = 0x80010000, loc_cmd = 0x80020000, loc_time = 0x80020004, wcb = 0x80030000\<rparr>"

definition sram_start :: exi where
  "sram_start = set_locked sram_env0 0 (set_offset sram_env0 64 (exi_initmap exi_start))"

abbreviation free_locks :: exi_locks where
  "free_locks \<equiv> \<lparr>holder = (\<lambda>_. None), waiters = (\<lambda>_. []), spare = 32\<rparr>"

lemma sram_env0_ok: "env_ok sram_env0"
proof -
  have "i = 0 \<or> i = 1 \<or> i = 2 \<or> i = 3" if "i < 4" for i :: nat using that by linarith
  then show ?thesis unfolding env_ok_def sram_env0_def by fastforce
qed

lemma quick_sel_hw: "sel_hw quick_hw"
  using quick_hw_ok by (simp add: sel_hw_def dev0_def csr_def quick_hw_def)

lemma initmap_clean: "bus_clean (exi_initmap s)"
  by (simp add: bus_clean_def has_flag_def exi_initmap_def upt_rec Let_def)

lemma sram_start_ready: "sram_ready sram_env0 free_locks sram_start"
  using init_rel [OF exi_start_layout] initmap_clean [of exi_start] by (simp add: sram_ready_def sram_start_def)

text \<open>
  C27. Each of the nine settings of the battery-backed memory reads back as it was written, whether it was changed or not. The language, the
  clock's bias, the horizontal offset and the ids of the four wireless pads: every value. The video mode: 0 to 2. The flags for
  60 Hz, progressive scan and stereo sound: the lowest bit of the value, so 0 and 1 as written. The Game Boy Player settings: as written
  when they are in range, and 0 otherwise (\<open>gbs_mode\<close>). The checksums over the first settings stay valid.
\<close>

theorem sram_set_get:
  assumes "sel_hw dev" "env_ok E" "sram_ready E a s"
  shows "(\<exists>s' s''. SYS_SetLanguage E wii dev call lang s = Some s' \<and> SYS_GetLanguage E wii dev call s' = Some (lang, s'') \<and> (checksum_ok E s \<longrightarrow> checksum_ok E s')) \<and>
    (\<exists>s' s''. SYS_SetCounterBias E wii dev call bias s = Some s' \<and> SYS_GetCounterBias E wii dev call s' = Some (bias, s'') \<and> (checksum_ok E s \<longrightarrow> checksum_ok E s')) \<and>
    (mode < 3 \<longrightarrow> (\<exists>s' s''. SYS_SetVideoMode E wii dev call mode s = Some s' \<and> SYS_GetVideoMode E wii dev call s' = Some (mode, s'') \<and> (checksum_ok E s \<longrightarrow> checksum_ok E s'))) \<and>
    (\<exists>s' s''. SYS_SetGBSMode E wii dev call gbs s = Some s' \<and> SYS_GetGBSMode E wii dev call s' = Some (gbs_mode gbs, s'') \<and> (checksum_ok E s \<longrightarrow> checksum_ok E s')) \<and>
    (\<exists>s' s''. SYS_SetDisplayOffsetH E wii dev call offs s = Some s' \<and> SYS_GetDisplayOffsetH E wii dev call s' = Some (offs, s'') \<and> (checksum_ok E s \<longrightarrow> checksum_ok E s')) \<and>
    (\<exists>s' s''. SYS_SetEuRGB60 E wii dev call rgb s = Some s' \<and> SYS_GetEuRGB60 E wii dev call s' = Some (rgb AND 1, s'') \<and> (checksum_ok E s \<longrightarrow> checksum_ok E s')) \<and>
    (\<exists>s' s''. SYS_SetProgressiveScan E wii dev call prog s = Some s' \<and> SYS_GetProgressiveScan E wii dev call s' = Some (prog AND 1, s'') \<and> (checksum_ok E s \<longrightarrow> checksum_ok E s')) \<and>
    (\<exists>s' s''. SYS_SetSoundMode E wii dev call sound s = Some s' \<and> SYS_GetSoundMode E wii dev call s' = Some (sound AND 1, s'') \<and> (checksum_ok E s \<longrightarrow> checksum_ok E s')) \<and>
    (chan < 4 \<longrightarrow> (\<exists>s' s''. SYS_SetWirelessID E wii dev call chan wid s = Some s' \<and> SYS_GetWirelessID E wii dev call chan s' = Some (wid, s'') \<and> (checksum_ok E s \<longrightarrow> checksum_ok E s')))"
  using language_set_get [OF assms] bias_set_get [OF assms] video_set_get [OF assms] gbs_set_get [OF assms] offset_set_get [OF assms]
    rgb60_set_get [OF assms] progressive_set_get [OF assms] sound_set_get [OF assms] wireless_set_get [OF assms]
  by (intro conjI impI) simp_all

theorem sram_set_get_witness:
  "\<exists>s' s''. SYS_SetVideoMode sram_env0 False quick_hw (\<lambda>_ _ _ _. None) 2 sram_start = Some s' \<and>
     SYS_GetVideoMode sram_env0 False quick_hw (\<lambda>_ _ _ _. None) s' = Some (2, s'')"
proof -
  have "(2 :: u8) < 3" by simp
  then show ?thesis using sram_set_get [OF quick_sel_hw sram_env0_ok sram_start_ready, where mode = 2 and wii = False and call = "\<lambda>_ _ _ _. None"] by blast
qed

text \<open>
  C17. A setting that is changed while another driver holds the bus is not lost: the unlock of the copy returns at once with
  nothing written; and when that driver unlocks the bus, in whatever state it left the rest, the callback writes the changed
  part of the copy to the device, from the first changed byte to the end, and notes that the device is up to date.
\<close>

theorem sram_deferred_write:
  assumes "sel_hw dev" "env_ok E" "exi_rel s a" "holder a 0 \<noteq> None" "waiters a 0 = []" "0 < spare a" "sc_offset E s \<le> 64" "loc < 64"
  shows "\<exists>s1. unlocksram E wii dev call True loc s = Some (0, s1) \<and> xwr s1 = xwr s \<and>
    exi_rel s1 (a\<lparr>waiters := (waiters a)(0 := [(1, XUser (wcb E))]), spare := spare a - 1\<rparr>) \<and> bus_clean s1 = bus_clean s \<and>
    (\<forall>s2. exi_rel s2 (a\<lparr>waiters := (waiters a)(0 := [(1, XUser (wcb E))]), spare := spare a - 1\<rparr>) \<and> same_sc E s1 s2 \<and> bus_clean s2 \<longrightarrow>
      (\<exists>s3 l. EXI_Unlock wii (sram_call (Suc k) E wii dev user) 0 s2 = Some (1, s3) \<and> sc_sync E s3 = 1 \<and> sc_offset E s3 = 64 \<and>
        sram_buf E s3 = sram_buf E (finished E loc s) \<and> xwr s3 = xwr s2 @ l \<and>
        (\<forall>d. sent_bytes 0 d l = be_bytes 4 (ucast (write_cmd (dirty_from E loc s))) @ drop (unat (dirty_from E loc s)) (sram_buf E s3))))"
proof -
  let ?w = "(1, XUser (wcb E))" and ?o = "dirty_from E loc s"
  let ?a = "a\<lparr>waiters := (waiters a)(0 := [?w]), spare := spare a - 1\<rparr>"
  let ?b = "?a\<lparr>holder := (holder ?a)(0 := None), waiters := (waiters ?a)(0 := []), spare := spare ?a + 1\<rparr>"
  obtain s1 where s1: "unlocksram E wii dev call True loc s = Some (0, s1)" "exi_rel s1 ?a" "bus_clean s1 = bus_clean s" "sc_offset E s1 = ?o"
      "sram_buf E s1 = sram_buf E (finished E loc s)" "xwr s1 = xwr s"
    using unlock_held [OF assms(3,4,6), of E wii dev call loc] assms(5) by auto
  have o: "?o \<le> 64" "?o \<noteq> 64" using assms(7,8) by (auto simp: dirty_from_def)
  have "\<exists>s3 l. EXI_Unlock wii (sram_call (Suc k) E wii dev user) 0 s2 = Some (1, s3) \<and> sc_sync E s3 = 1 \<and> sc_offset E s3 = 64 \<and>
        sram_buf E s3 = sram_buf E (finished E loc s) \<and> xwr s3 = xwr s2 @ l \<and>
        (\<forall>d. sent_bytes 0 d l = be_bytes 4 (ucast (write_cmd ?o)) @ drop (unat ?o) (sram_buf E s3))"
    if s2: "exi_rel s2 ?a" "same_sc E s1 s2" "bus_clean s2" for s2
  proof -
    have h: "holder ?a 0 \<noteq> None" and w: "waiters ?a 0 = ?w # []" using assms(4) by simp_all
    obtain t where t: "exi_rel t ?b" "xmem t = xmem s2" "xwr t = xwr s2" "bus_clean t"
        "\<forall>call. EXI_Unlock wii call 0 s2 = map_option (Pair 1) (call (XUser (wcb E)) 0 1 t)"
      using unlock_calls [OF s2(1) h w, of wii] s2(3) by blast
    note sc = same_sc_views [OF s2(2)] same_sc_views [OF same_sc_mem [OF t(2)], of E]
    have free: "holder ?b 0 = None" "waiters ?b 0 = []" and ot: "sc_offset E t = ?o" "sram_buf E t = sram_buf E s1" using sc s1(4) by simp_all
    have "sc_offset E t \<le> 64" using ot(1) o(1) by simp
    from flush_free [OF assms(1,2) t(1) free t(4) this, of wii "sram_call k E wii dev user"] obtain s3 l where
        s3: "sram_flush E wii dev (sram_call k E wii dev user) t = Some s3" "sram_buf E s3 = sram_buf E t" "sc_offset E s3 = 64"
        "sc_sync E s3 = (if sc_offset E t = 64 then 0 else 1)" "xwr s3 = xwr t @ l"
        "\<forall>d. sent_bytes 0 d l = be_bytes 4 (ucast (write_cmd (sc_offset E t))) @ drop (unat (sc_offset E t)) (sram_buf E t)" by blast
    have "EXI_Unlock wii (sram_call (Suc k) E wii dev user) 0 s2 = Some (1, s3)" using t(5) s3(1) by (simp add: sram_writecallback_def)
    then show ?thesis using s3(2-6) ot o(2) s1(5) t(3) by auto
  qed
  then show ?thesis using s1 by blast
qed

theorem sram_deferred_write_witness:
  "\<exists>s1 s3. unlocksram sram_env0 False quick_hw (\<lambda>_ _ _ _. None) True 0 (snd (EXI_Lock False 0 2 XNull sram_start)) = Some (0, s1) \<and>
     EXI_Unlock False (sram_call 1 sram_env0 False quick_hw (\<lambda>_ _ _ _. None)) 0 s1 = Some (1, s3) \<and> sc_sync sram_env0 s3 = 1"
proof -
  let ?s = "snd (EXI_Lock False 0 2 XNull sram_start)" and ?a = "free_locks\<lparr>holder := (\<lambda>_. None)(0 := Some 2)\<rparr>" and ?E = sram_env0
  obtain r s where l: "EXI_Lock False 0 2 XNull sram_start = (r, s)" by fastforce
  have rdy: "exi_rel sram_start free_locks" "bus_clean sram_start" "sc_offset ?E sram_start \<le> 64" using sram_start_ready by (simp_all add: sram_ready_def)
  have rel: "exi_rel s ?a" using lock_ok [OF rdy(1) _ l] by (auto simp: ab_lock_def)
  have f: "bus_clean s" "sc_offset ?E s \<le> 64" using lock_frame [OF l] rdy same_sc_views(1) [OF same_sc_mem, of s sram_start ?E] by simp_all
  have p: "holder ?a 0 \<noteq> None" "waiters ?a 0 = []" "0 < spare ?a" "(0 :: u32) < 64" by simp_all
  from sram_deferred_write [OF quick_sel_hw sram_env0_ok rel p(1-3) f(2) p(4), where k = 0 and wii = False and call = "\<lambda>_ _ _ _. None" and user = "\<lambda>_ _ _ _. None"]
  obtain s1 where s1: "unlocksram ?E False quick_hw (\<lambda>_ _ _ _. None) True 0 s = Some (0, s1)"
      "exi_rel s1 (?a\<lparr>waiters := (waiters ?a)(0 := [(1, XUser (wcb ?E))]), spare := spare ?a - 1\<rparr>)" "bus_clean s1 = bus_clean s"
      "\<forall>s2. exi_rel s2 (?a\<lparr>waiters := (waiters ?a)(0 := [(1, XUser (wcb ?E))]), spare := spare ?a - 1\<rparr>) \<and> same_sc ?E s1 s2 \<and> bus_clean s2 \<longrightarrow>
        (\<exists>s3. EXI_Unlock False (sram_call (Suc 0) ?E False quick_hw (\<lambda>_ _ _ _. None)) 0 s2 = Some (1, s3) \<and> sc_sync ?E s3 = 1)"
    by blast
  have "same_sc ?E s1 s1" "bus_clean s1" using s1(3) f(1) by (simp_all add: same_sc_mem)
  then obtain s3 where "EXI_Unlock False (sram_call (Suc 0) ?E False quick_hw (\<lambda>_ _ _ _. None)) 0 s1 = Some (1, s3)" "sc_sync ?E s3 = 1"
    using s1(2,4) by blast
  then show ?thesis using s1(1) l by auto
qed

text \<open>
  When everything has been written already, another run of the callback transfers no bytes, which the bus reports as a failure: the
  device then counts as out of date although it is not.
\<close>

theorem sram_empty_write_fails:
  assumes "sel_hw dev" "env_ok E" "sram_ready E a s" "sc_offset E s = 64"
  shows "\<exists>s'. sram_writecallback E wii dev call 0 1 s = Some (1, s') \<and> SYS_SyncSram E s' = 0 \<and> sc_offset E s' = 64"
proof -
  have r: "exi_rel s a" "holder a 0 = None" "waiters a 0 = []" "bus_clean s" "sc_offset E s \<le> 64" using assms(3) by (auto simp: sram_ready_def)
  show ?thesis using flush_free [OF assms(1,2) r, of wii call] assms(4) by (auto simp: sram_writecallback_def SYS_SyncSram_def)
qed

end
