(* ===== verification/SysServ.thy ===== *)
theory SysServ
  imports Sram
begin

text \<open>
  Services of \<^verbatim>\<open>libogc/system.c\<close> that rest on the other components: the functions to call before a reset, in a node queue
  ordered by priority; the memory arenas; and the time of day as the time base with an offset.
\<close>

section \<open>Reset functions\<close>

text \<open>
  A \<^verbatim>\<open>sys_resetinfo\<close> is a node of the queue at \<open>q\<close> (\<^verbatim>\<open>next\<close>, \<^verbatim>\<open>prev\<close>) with \<^verbatim>\<open>func\<close> and \<^verbatim>\<open>prio\<close> at offsets 8 and 12.
\<close>

abbreviation rfunc :: "wmem \<Rightarrow> u32 \<Rightarrow> u32" where "rfunc m n \<equiv> m (n + 8)"
abbreviation rprio :: "wmem \<Rightarrow> u32 \<Rightarrow> u32" where "rprio m n \<equiv> m (n + 12)"

partial_function (option) reset_pos :: "wmem \<Rightarrow> u32 \<Rightarrow> u32 \<Rightarrow> u32 option" where
  "reset_pos m info after = (if m after \<noteq> 0 \<and> rprio m info \<ge> rprio m after then reset_pos m info (m after) else Some after)"

definition SYS_RegisterResetFunc :: "u32 \<Rightarrow> u32 \<Rightarrow> wmem \<Rightarrow> wmem option" where
  "SYS_RegisterResetFunc q info m = map_option (\<lambda>after. lwp_queue_insertI (m (after + 4)) info m) (reset_pos m info (m q))"

partial_function (option) reset_remove :: "u32 \<Rightarrow> u32 \<Rightarrow> wmem \<Rightarrow> wmem option" where
  "reset_remove info n m = (if m n \<noteq> 0 then if n = info then Some (lwp_queue_extractI n m) else reset_remove info (m n) m else Some m)"

definition SYS_UnregisterResetFunc :: "u32 \<Rightarrow> u32 \<Rightarrow> wmem \<Rightarrow> wmem option" where
  "SYS_UnregisterResetFunc q info m = reset_remove info (m q) m"

text \<open>
  \<open>call\<close> runs a function on the memory of the queue and the rest of the state, \<open>sync\<close> is \<^verbatim>\<open>__sram_sync\<close> on the latter.
\<close>

partial_function (option) reset_calls ::
    "(u32 \<Rightarrow> bool \<Rightarrow> wmem \<times> 'w \<Rightarrow> u32 \<times> wmem \<times> 'w) \<Rightarrow> u32 \<Rightarrow> bool \<Rightarrow> u32 \<Rightarrow> u32 \<Rightarrow> wmem \<times> 'w \<Rightarrow> (u32 \<times> wmem \<times> 'w) option" where
  "reset_calls call q final ret info s =
     (if info \<noteq> lwp_queue_tail q
      then let (r, s1) = (if rfunc (fst s) info \<noteq> 0 then call (rfunc (fst s) info) final s else (1, s));
               ret' = (if r = 0 then ret OR push_bit 1 ret else ret)
           in reset_calls call q final ret' (fst s1 info) s1
      else Some (ret, s))"

definition call_resetfuncs ::
    "(u32 \<Rightarrow> bool \<Rightarrow> wmem \<times> 'w \<Rightarrow> u32 \<times> wmem \<times> 'w) \<Rightarrow> ('w \<Rightarrow> u32) \<Rightarrow> u32 \<Rightarrow> bool \<Rightarrow> wmem \<times> 'w \<Rightarrow> (u32 \<times> wmem \<times> 'w) option" where
  "call_resetfuncs call sync q final s =
     map_option (\<lambda>(ret, s1). let ret' = (if sync (snd s1) = 0 then ret OR push_bit 1 ret else ret) in (if ret' AND NOT 1 \<noteq> 0 then 0 else 1, s1))
       (reset_calls call q final 1 (fst s q) s)"

section \<open>Arenas\<close>

record arenas =
  sysarena1lo :: ptr
  sysarena1hi :: ptr
  sysarena2lo :: ptr
  sysarena2hi :: ptr

definition SYS_SetArena1Lo :: "ptr \<Rightarrow> arenas \<Rightarrow> arenas" where "SYS_SetArena1Lo p a = a\<lparr>sysarena1lo := p\<rparr>"
definition SYS_GetArena1Lo :: "arenas \<Rightarrow> ptr" where "SYS_GetArena1Lo a = sysarena1lo a"
definition SYS_SetArena1Hi :: "ptr \<Rightarrow> arenas \<Rightarrow> arenas" where "SYS_SetArena1Hi p a = a\<lparr>sysarena1hi := p\<rparr>"
definition SYS_GetArena1Hi :: "arenas \<Rightarrow> ptr" where "SYS_GetArena1Hi a = sysarena1hi a"
definition SYS_GetArena1Size :: "arenas \<Rightarrow> u32" where "SYS_GetArena1Size a = sysarena1hi a - sysarena1lo a"
definition SYS_SetArena2Lo :: "ptr \<Rightarrow> arenas \<Rightarrow> arenas" where "SYS_SetArena2Lo p a = a\<lparr>sysarena2lo := p\<rparr>"
definition SYS_GetArena2Lo :: "arenas \<Rightarrow> ptr" where "SYS_GetArena2Lo a = sysarena2lo a"
definition SYS_SetArena2Hi :: "ptr \<Rightarrow> arenas \<Rightarrow> arenas" where "SYS_SetArena2Hi p a = a\<lparr>sysarena2hi := p\<rparr>"
definition SYS_GetArena2Hi :: "arenas \<Rightarrow> ptr" where "SYS_GetArena2Hi a = sysarena2hi a"
definition SYS_GetArena2Size :: "arenas \<Rightarrow> u32" where "SYS_GetArena2Size a = sysarena2hi a - sysarena2lo a"

definition arena_align :: "u32 \<Rightarrow> u32 \<Rightarrow> u32" where
  "arena_align v align = (v + (align - 1)) AND NOT (align - 1)"

definition SYS_AllocArena1MemLo :: "u32 \<Rightarrow> u32 \<Rightarrow> arenas \<Rightarrow> ptr \<times> arenas" where
  "SYS_AllocArena1MemLo size' align a =
     (let p = arena_align (SYS_GetArena1Lo a) align in (p, SYS_SetArena1Lo ((p + size' + align - 1) AND NOT (align - 1)) a))"

definition SYS_AllocArena2MemLo :: "u32 \<Rightarrow> u32 \<Rightarrow> arenas \<Rightarrow> ptr \<times> arenas" where
  "SYS_AllocArena2MemLo size' align a =
     (let p = arena_align (SYS_GetArena2Lo a) align in (p, SYS_SetArena2Lo ((p + size' + align - 1) AND NOT (align - 1)) a))"

section \<open>Time\<close>

text \<open>\<open>boot\<close> is the word pair at \<open>0x800030d8\<close>; the time base is that of the kernel state. A lock of interrupts ends as it began.\<close>

definition time_irq :: "(kstate \<Rightarrow> kstate) \<Rightarrow> exi \<Rightarrow> exi" where
  "time_irq f s = s\<lparr>irqs := (irqs s)\<lparr>irq_ks := f (irq_ks (irqs s))\<rparr>\<rparr>"

definition SYS_SetTime :: "bool \<Rightarrow> u64 \<Rightarrow> u64 \<times> exi \<Rightarrow> u64 \<times> exi" where
  "SYS_SetTime wii time bs =
     (let (boot, s) = bs; (level, k) = PPCIrqLockByMsr (irq_ks (irqs s)); now = timebase k - time + boot;
          s1 = EXI_ProbeReset wii (time_irq (\<lambda>_. k\<lparr>timebase := time\<rparr>) s)
      in (now, time_irq (PPCIrqUnlockByMsr level) s1))"

definition SYS_Time :: "u64 \<times> exi \<Rightarrow> u64 \<times> u64 \<times> exi" where
  "SYS_Time bs =
     (let (boot, s) = bs; (level, k) = PPCIrqLockByMsr (irq_ks (irqs s))
      in (timebase k + boot, boot, time_irq (\<lambda>_. PPCIrqUnlockByMsr level k) s))"

text \<open>\<open>conf_bias\<close> is what \<open>CONF_GetCounterBias\<close> gives on the Wii, \<open>t1\<close> and \<open>t2\<close> the undefined values of the locals of \<open>SYS_GetRTC\<close>.\<close>

definition SYS_SetBootTime ::
    "sram_env \<Rightarrow> bool \<Rightarrow> (exi \<Rightarrow> exi) \<Rightarrow> exi_calls \<Rightarrow> u32 option \<Rightarrow> u32 \<Rightarrow> u32 \<Rightarrow> u64 \<times> exi \<Rightarrow> (u64 \<times> exi) option" where
  "SYS_SetBootTime E wii dev call conf_bias t1 t2 bs = do {
     (r, gctime, s1) \<leftarrow> SYS_GetRTC E wii dev call 0 t1 t2 (snd bs);
     if r \<noteq> 1 then Some (fst bs, s1)
     else do { (t, s2) \<leftarrow> (if wii then Some (case conf_bias of None \<Rightarrow> gctime | Some b \<Rightarrow> gctime + b, s1)
                           else map_option (\<lambda>(b, s). (gctime + b, s)) (SYS_GetCounterBias E wii dev call s1));
               Some (SYS_SetTime wii (ucast t * ucast (PPC_TIMER_CLOCK wii)) (fst bs, s2)) } }"

end
