(* ===== verification/SysServProps.thy ===== *)
theory SysServProps
  imports SysServ
begin

text \<open>
  Reset functions are kept in the order of their priorities, first come, first served among equals, and a round calls them in
  that order and reports whether all agreed. Arena allocations are aligned and do not overlap. Setting the time base leaves the time of day alone.
\<close>

section \<open>The queue of reset functions\<close>

abbreviation first_of :: "u32 \<Rightarrow> u32 list \<Rightarrow> u32" where "first_of q zs \<equiv> (case zs of [] \<Rightarrow> q + 4 | z # _ \<Rightarrow> z)"

lemma node_next:
  assumes "lwp_list m q (ys @ z # zs)" "q + 4 \<noteq> 0"
  shows "m z = first_of q zs" "m z \<noteq> 0"
proof -
  show "m z = first_of q zs" by (rule lwp_list_next [OF assms(1)])
  moreover have "0 \<notin> set zs" using assms(1) by (simp add: lwp_list_def)
  ultimately show "m z \<noteq> 0" using assms(2) by (auto split: list.splits)
qed

lemma reset_pos_ok:
  assumes "q + 4 \<noteq> 0"
  shows "lwp_list m q (ys @ zs) \<Longrightarrow> reset_pos m info (first_of q zs) = Some (first_of q (dropWhile (\<lambda>x. rprio m x \<le> rprio m info) zs))"
proof (induction zs arbitrary: ys)
  case Nil
  then have "m (q + 4) = 0" by (simp add: lwp_list_def)
  then show ?case by (subst reset_pos.simps) simp
next
  case (Cons z zs)
  note n = node_next [OF Cons.prems assms]
  have "reset_pos m info (first_of q zs) = Some (first_of q (dropWhile (\<lambda>x. rprio m x \<le> rprio m info) zs))"
    using Cons.IH [of "ys @ [z]"] Cons.prems by simp
  then show ?case using n by (subst reset_pos.simps) simp
qed

lemma register_ok:
  assumes l: "lwp_list m q xs" and q: "q + 4 \<noteq> 0" and f: "node_fresh q xs info"
  defines "ys \<equiv> ins_after (\<lambda>x. rprio m x \<le> rprio m info) info xs"
  shows "\<exists>m'. SYS_RegisterResetFunc q info m = Some m' \<and> lwp_list m' q ys \<and> (\<forall>p. p \<notin> set (words q ys) \<longrightarrow> m' p = m p)"
proof -
  let ?c = "\<lambda>x. rprio m x \<le> rprio m info"
  let ?as = "takeWhile ?c xs" and ?bs = "dropWhile ?c xs"
  have l': "lwp_list m q (?as @ ?bs)" and f': "node_fresh q (?as @ ?bs) info" using l f by simp_all
  have "m q = first_of q xs" by (rule lwp_list_first [OF l])
  then have pos: "reset_pos m info (m q) = Some (first_of q ?bs)" using reset_pos_ok [OF q, of m "[]" xs info] l by simp
  have "m (first_of q ?bs + 4) = last (q # ?as)"
  proof (cases ?bs)
    case Nil
    then have as: "?as = xs" using takeWhile_dropWhile_id [of ?c xs] by simp
    show ?thesis unfolding Nil as using lwp_list_last [OF l] by (simp add: add.assoc)
  next
    case (Cons b bs)
    then show ?thesis using lwp_list_prev [of m q ?as b bs] l' by simp
  qed
  then have run: "SYS_RegisterResetFunc q info m = Some (lwp_queue_insertI (last (q # ?as)) info m)" using pos by (simp add: SYS_RegisterResetFunc_def)
  show ?thesis using run insertI_list [OF l' f'] unfolding ys_def ins_after_def by blast
qed

lemma reset_remove_ok:
  assumes "q + 4 \<noteq> 0"
  shows "lwp_list m q (ys @ zs) \<Longrightarrow> info \<notin> set ys \<Longrightarrow> \<exists>m'. reset_remove info (first_of q zs) m = Some m' \<and> lwp_list m' q (remove1 info (ys @ zs))"
proof (induction zs arbitrary: ys)
  case Nil
  then have "m (q + 4) = 0" by (simp add: lwp_list_def)
  then show ?case using Nil by (subst reset_remove.simps) (simp add: remove1_idem)
next
  case (Cons z zs)
  note n = node_next [OF Cons.prems(1) assms]
  show ?case
  proof (cases "z = info")
    case True
    then show ?thesis using n extractI_list(1) [OF Cons.prems(1)] Cons.prems(2) by (subst reset_remove.simps) (simp add: remove1_append)
  next
    case False
    then show ?thesis using n Cons.IH [of "ys @ [z]"] Cons.prems by (subst reset_remove.simps) simp
  qed
qed

theorem unregister_removes:
  assumes "lwp_list m q xs" "q + 4 \<noteq> 0"
  shows "\<exists>m'. SYS_UnregisterResetFunc q info m = Some m' \<and> lwp_list m' q (remove1 info xs)"
  using reset_remove_ok [OF assms(2), of m "[]" xs info] lwp_list_first [OF assms(1)] assms(1) by (simp add: SYS_UnregisterResetFunc_def)

section \<open>A round of calls\<close>

text \<open>The reference: call the functions of a list one after the other, and note whether all agreed.\<close>

fun reset_ref :: "(u32 \<Rightarrow> bool \<Rightarrow> wmem \<times> 'w \<Rightarrow> u32 \<times> wmem \<times> 'w) \<Rightarrow> bool \<Rightarrow> u32 list \<Rightarrow> wmem \<times> 'w \<Rightarrow> bool \<times> wmem \<times> 'w" where
  "reset_ref call final [] s = (True, s)"
| "reset_ref call final (x # xs) s =
     (let (r, s1) = (if rfunc (fst s) x \<noteq> 0 then call (rfunc (fst s) x) final s else (1, s)); (ok, s2) = reset_ref call final xs s1
      in (r \<noteq> 0 \<and> ok, s2))"

text \<open>Functions that leave the queue alone.\<close>

definition quiet_funcs :: "(u32 \<Rightarrow> bool \<Rightarrow> wmem \<times> 'w \<Rightarrow> u32 \<times> wmem \<times> 'w) \<Rightarrow> bool" where
  "quiet_funcs call \<longleftrightarrow> (\<forall>f final s. fst (snd (call f final s)) = fst s)"

definition agreed :: "u32 \<Rightarrow> bool \<Rightarrow> bool" where
  "agreed ret ok \<longleftrightarrow> bit ret 0 \<and> (if ok then ret = 1 else bit ret 1)"

lemma agreed_fail:
  assumes "agreed ret ok"
  shows "agreed (ret OR push_bit 1 ret) False"
proof -
  have b: "bit ret 0" using assms by (simp add: agreed_def)
  have "bit (ret OR push_bit 1 ret) 1" unfolding bit_or_iff bit_push_bit_iff using b by simp
  moreover have "bit (ret OR push_bit 1 ret) 0" unfolding bit_or_iff using b by (rule disjI1)
  ultimately show ?thesis by (simp only: agreed_def if_False simp_thms)
qed

lemma agreed_result: "agreed ret ok \<Longrightarrow> (ret AND NOT 1 \<noteq> 0) = (\<not> ok)"
proof (cases ok)
  case False
  assume "agreed ret ok"
  then have "bit (ret AND NOT 1) 1" using False by (simp add: agreed_def bit_simps)
  then show ?thesis using False by auto
qed (simp add: agreed_def)

lemma reset_calls_ok:
  assumes q: "quiet_funcs call"
  shows "lwp_list (fst s) q (ys @ zs) \<Longrightarrow> agreed ret ok \<Longrightarrow>
    \<exists>ret'. reset_calls call q final ret (first_of q zs) s = Some (ret', snd (reset_ref call final zs s)) \<and>
      agreed ret' (ok \<and> fst (reset_ref call final zs s)) \<and> fst (snd (reset_ref call final zs s)) = fst s"
proof (induction zs arbitrary: ys s ret ok)
  case Nil
  then show ?case by (subst reset_calls.simps) (auto simp: lwp_queue_tail_def)
next
  case (Cons z zs)
  obtain r s1 where c: "(if rfunc (fst s) z \<noteq> 0 then call (rfunc (fst s) z) final s else (1, s)) = (r, s1)" by (metis surj_pair)
  have s1: "fst s1 = fst s"
  proof (cases "rfunc (fst s) z = 0")
    case False
    then have "call (rfunc (fst s) z) final s = (r, s1)" using c by simp
    then show ?thesis using q [unfolded quiet_funcs_def, rule_format, of "rfunc (fst s) z" final s] by simp
  qed (use c in simp)
  have z: "z \<noteq> q + 4" "fst s z = first_of q zs" using lwp_list_distinct(3) [OF Cons.prems(1)] lwp_list_next [OF Cons.prems(1)] by auto
  let ?ret = "if r = 0 then ret OR push_bit 1 ret else ret"
  have "agreed ?ret (ok \<and> r \<noteq> 0)" using Cons.prems(2) agreed_fail by auto
  moreover have "lwp_list (fst s1) q ((ys @ [z]) @ zs)" using Cons.prems(1) s1 by simp
  ultimately obtain ret' where r: "reset_calls call q final ?ret (first_of q zs) s1 = Some (ret', snd (reset_ref call final zs s1))"
      "agreed ret' ((ok \<and> r \<noteq> 0) \<and> fst (reset_ref call final zs s1))" "fst (snd (reset_ref call final zs s1)) = fst s1"
    using Cons.IH by blast
  have "reset_calls call q final ret z s = reset_calls call q final ?ret (first_of q zs) s1"
    using z s1 c by (subst reset_calls.simps) (simp add: lwp_queue_tail_def Let_def)
  then show ?case using r c s1 by (simp add: Let_def case_prod_beta conj_assoc)
qed

text \<open>
  A round calls the functions in the order of the queue and reports success when all agree and the battery-backed memory is written,
  however many of them refuse.
\<close>

theorem reset_round:
  assumes "quiet_funcs call" "lwp_list m q xs"
  shows "call_resetfuncs call sync q final (m, w) =
    (let (ok, s') = reset_ref call final xs (m, w) in Some (if ok \<and> sync (snd s') \<noteq> 0 then 1 else 0, s'))"
proof -
  have "agreed 1 True" by (simp add: agreed_def)
  then obtain ret where r: "reset_calls call q final 1 (first_of q xs) (m, w) = Some (ret, snd (reset_ref call final xs (m, w)))"
      "agreed ret (fst (reset_ref call final xs (m, w)))"
    using reset_calls_ok [OF assms(1), of "(m, w)" q "[]" xs 1 True final] assms(2) by auto
  let ?s = "snd (reset_ref call final xs (m, w))"
  define ret' where "ret' = (if sync (snd ?s) = 0 then ret OR push_bit 1 ret else ret)"
  have "(ret' AND NOT 1 \<noteq> 0) = (\<not> (fst (reset_ref call final xs (m, w)) \<and> sync (snd ?s) \<noteq> 0))"
    unfolding ret'_def using agreed_result [OF r(2)] agreed_result [OF agreed_fail [OF r(2)]] by (cases "sync (snd ?s) = 0") (simp_all only: if_True if_False simp_thms)
  moreover have "call_resetfuncs call sync q final (m, w) = Some (if ret' AND NOT 1 \<noteq> 0 then 0 else 1, ?s)"
    unfolding call_resetfuncs_def fst_conv lwp_list_first [OF assms(2)] r(1) ret'_def by (simp only: option.map prod.case Let_def)
  ultimately show ?thesis by (cases "reset_ref call final xs (m, w)") auto
qed

text \<open>
  Registering keeps the queue sorted by priority: a function comes behind those that are as urgent as itself. The words that hold
  functions and priorities must not be those of the nodes.
\<close>

theorem register_sorted:
  assumes "lwp_list m q xs" "q + 4 \<noteq> 0" "node_fresh q xs info" "sorted_by (rprio m) xs"
    "\<forall>x\<in>set (info # xs). x + 8 \<notin> set (words q (info # xs)) \<and> x + 12 \<notin> set (words q (info # xs))"
  shows "\<exists>m' ys. SYS_RegisterResetFunc q info m = Some m' \<and> ys = ins_after (\<lambda>x. rprio m x \<le> rprio m info) info xs \<and> lwp_list m' q ys \<and>
    sorted_by (rprio m') ys \<and> (\<forall>x\<in>set ys. rprio m' x = rprio m x \<and> rfunc m' x = rfunc m x)"
proof -
  let ?ys = "ins_after (\<lambda>x. rprio m x \<le> rprio m info) info xs"
  obtain m' where m': "SYS_RegisterResetFunc q info m = Some m'" "lwp_list m' q ?ys" "\<forall>p. p \<notin> set (words q ?ys) \<longrightarrow> m' p = m p"
    using register_ok [OF assms(1-3)] by blast
  have "set (words q ?ys) = set (words q (info # xs))" unfolding set_words by simp
  then have k: "\<forall>x\<in>set ?ys. rprio m' x = rprio m x \<and> rfunc m' x = rfunc m x" using m'(3) assms(5) by simp
  then have "sorted_by (rprio m') ?ys = sorted_by (rprio m) ?ys" by (intro sorted_by_cong) blast
  then show ?thesis using m'(1,2) k sorted_by_ins_after [OF assms(4)] by blast
qed

section \<open>Arenas\<close>

lemma unat_mask32:
  assumes "k < 32"
  shows "unat (mask k :: u32) = 2 ^ k - 1"
proof -
  have "unat (take_bit k (- 1 :: u32)) = take_bit k (unat (- 1 :: u32))" by (rule unsigned_take_bit_eq)
  then show ?thesis using assms mask_eq_exp_minus_1 [of k, where 'a = nat]
    by (simp add: take_bit_minus_one_eq_mask unsigned_minus_1_eq_mask take_bit_of_mask min_def)
qed

lemma arena_align_up:
  assumes "align - 1 = mask k" "k < 32" "unat v + 2 ^ k \<le> 2 ^ 32"
  shows "2 ^ k dvd unat (arena_align v align) \<and> unat v \<le> unat (arena_align v align) \<and> unat (arena_align v align) < unat v + 2 ^ k"
proof -
  let ?s = "unat v + (2 ^ k - 1)"
  have "unat (v + mask k) = ?s" using unat_mask32 [OF assms(2)] assms(3) by (simp add: unat_plus_if')
  then have e: "unat (arena_align v align) = ?s - ?s mod 2 ^ k" unfolding arena_align_def assms(1) align_down by simp
  have "?s mod 2 ^ k < 2 ^ k" "?s mod 2 ^ k \<le> ?s" "(1 :: nat) \<le> 2 ^ k" by simp_all
  then have "unat v \<le> ?s - ?s mod 2 ^ k \<and> ?s - ?s mod 2 ^ k < unat v + 2 ^ k" by linarith
  then show ?thesis unfolding e using dvd_minus_mod [of "2 ^ k" ?s] by blast
qed

text \<open>
  An allocation is aligned, begins at or behind the old bottom of the arena and ends at or before the new one. The top of the
  arena is not looked at.
\<close>

theorem arena_alloc:
  assumes "align - 1 = mask k" "k < 32" "unat (SYS_GetArena1Lo a) + unat size' + 2 * 2 ^ k \<le> 2 ^ 32"
    "SYS_AllocArena1MemLo size' align a = (p, a')"
  shows "2 ^ k dvd unat p \<and> unat (SYS_GetArena1Lo a) \<le> unat p \<and> unat p + unat size' \<le> unat (SYS_GetArena1Lo a') \<and> sysarena1hi a' = sysarena1hi a"
proof -
  have p: "p = arena_align (SYS_GetArena1Lo a) align" and lo: "SYS_GetArena1Lo a' = arena_align (p + size') align" and hi: "sysarena1hi a' = sysarena1hi a"
    using assms(4) by (auto simp: SYS_AllocArena1MemLo_def SYS_GetArena1Lo_def SYS_SetArena1Lo_def arena_align_def Let_def algebra_simps)
  have up: "2 ^ k dvd unat p \<and> unat (SYS_GetArena1Lo a) \<le> unat p \<and> unat p < unat (SYS_GetArena1Lo a) + 2 ^ k"
    unfolding p by (rule arena_align_up [OF assms(1,2)]) (use assms(3) in simp)
  have "unat (p + size') = unat p + unat size'" using up assms(3) by (simp add: unat_plus_if')
  then have "unat p + unat size' \<le> unat (arena_align (p + size') align)" using arena_align_up [OF assms(1,2), of "p + size'"] up assms(3) by simp
  then show ?thesis using up lo hi by simp
qed

section \<open>Time\<close>

text \<open>The time of day is that of the time base and the offset, so setting the time base does not change it.\<close>

lemma probe_irqs: "irq_ks (irqs (snd (exi_probe wii chn s))) = irq_ks (irqs s)"
proof -
  have a: "irq_ks (irqs (forget_id chn t)) = irq_ks (irqs t)" "irq_ks (irqs (exi_clearirqs chn p q r t)) = irq_ks (irqs t)" for t p q r
    by (simp_all add: forget_id_def exi_clearirqs_def set_csr_def upd_chn_def Let_def)
  show ?thesis by (simp add: exi_probe_def Let_def a)
qed

lemma probe_reset_irqs: "irq_ks (irqs (EXI_ProbeReset wii s)) = irq_ks (irqs s)"
  by (simp add: EXI_ProbeReset_def Let_def probe_irqs upd_chn_def)

theorem time_of_day_kept: "fst (SYS_Time (SYS_SetTime wii t bs)) = fst (SYS_Time bs)"
proof -
  have "fst (SYS_Time (b, s)) = timebase (irq_ks (irqs s)) + b" for b s by (simp add: SYS_Time_def case_prod_beta Let_def)
  then show ?thesis by (cases bs) (simp add: SYS_SetTime_def case_prod_beta Let_def time_irq_def probe_reset_irqs)
qed

end
