(* ===== verification/Alarm.thy ===== *)
theory Alarm
  imports KTick Wkspace Clock
begin

text \<open>
  The alarms of \<^verbatim>\<open>libogc/lwpcompat/lwpc_alarm.c\<close>: tick tasks of the kernel in memory of the workspace. The struct
  \<^verbatim>\<open>lwpc_alarm\<close> has 32 bytes: the tick task, which is kept with the other tasks of the kernel under the address of the alarm,
  and the callback with its argument (\<open>a_cb\<close>, \<open>a_arg\<close>). The handle of an alarm is its address.
\<close>

section \<open>Operations\<close>

record alarms =
  a_ks :: kstate
  a_wk :: wkspace
  a_cb :: "ptr \<Rightarrow> u32"
  a_arg :: "ptr \<Rightarrow> u32"

abbreviation ALARM_SIZE :: u32 where "ALARM_SIZE \<equiv> 32"

definition timespec_to_ticks :: "bool \<Rightarrow> u64 \<times> u32 \<Rightarrow> u64" where
  "timespec_to_ticks wii tp = fst tp * ucast (PPC_TIMER_CLOCK wii) + PPCNsToTicks wii (scast (snd tp))"

definition lwpc_alarm_cb :: "(u32 \<Rightarrow> ptr \<Rightarrow> u32 \<Rightarrow> alarms \<Rightarrow> alarms option) \<Rightarrow> ptr \<Rightarrow> alarms \<Rightarrow> alarms option" where
  "lwpc_alarm_cb user t a = user (a_cb a t) t (a_arg a t) a"

text \<open>The second component is what is written to \<^verbatim>\<open>*thealarm\<close>, if anything.\<close>

definition SYS_CreateAlarm :: "alarms \<Rightarrow> (int \<times> u32 option \<times> alarms) option" where
  "SYS_CreateAlarm a =
     map_option (\<lambda>(p, w). let a1 = a\<lparr>a_wk := w\<rparr> in
         if p = NULL then (-1, None, a1)
         else (0, Some p, a1\<lparr>a_ks := upd_task p (\<lambda>_. zero_task) (a_ks a1), a_cb := (a_cb a1)(p := 0), a_arg := (a_arg a1)(p := 0)\<rparr>))
       (lwp_wkspace_allocate ALARM_SIZE (a_wk a))"

definition SYS_SetAlarmCommon :: "u32 \<Rightarrow> u64 \<Rightarrow> u64 \<Rightarrow> u32 \<Rightarrow> u32 \<Rightarrow> alarms \<Rightarrow> (int \<times> alarms) option" where
  "SYS_SetAlarmCommon h start period cb cbarg a =
     (if h = NULL then Some (-1, a)
      else let (st, s1) = PPCIrqLockByMsr (a_ks a) in
        do { s2 \<leftarrow> KTickTaskStart h Fn_lwpc_alarm_cb start period s1;
             Some (0, a\<lparr>a_ks := PPCIrqUnlockByMsr st s2, a_cb := (a_cb a)(h := cb), a_arg := (a_arg a)(h := cbarg)\<rparr>) })"

definition SYS_SetAlarm :: "bool \<Rightarrow> u32 \<Rightarrow> u64 \<times> u32 \<Rightarrow> u32 \<Rightarrow> u32 \<Rightarrow> alarms \<Rightarrow> (int \<times> alarms) option" where
  "SYS_SetAlarm wii h tp cb cbarg = SYS_SetAlarmCommon h (timespec_to_ticks wii tp) 0 cb cbarg"

definition SYS_SetPeriodicAlarm :: "bool \<Rightarrow> u32 \<Rightarrow> u64 \<times> u32 \<Rightarrow> u64 \<times> u32 \<Rightarrow> u32 \<Rightarrow> u32 \<Rightarrow> alarms \<Rightarrow> (int \<times> alarms) option" where
  "SYS_SetPeriodicAlarm wii h tp_start tp_period cb cbarg =
     SYS_SetAlarmCommon h (timespec_to_ticks wii tp_start) (timespec_to_ticks wii tp_period) cb cbarg"

definition SYS_CancelAlarm :: "u32 \<Rightarrow> alarms \<Rightarrow> (int \<times> alarms) option" where
  "SYS_CancelAlarm h a =
     (if h = NULL then Some (-1, a) else map_option (\<lambda>s. (0, a\<lparr>a_ks := s\<rparr>)) (KTickTaskStop h (a_ks a)))"

definition SYS_RemoveAlarm :: "u32 \<Rightarrow> alarms \<Rightarrow> (int \<times> alarms) option" where
  "SYS_RemoveAlarm h a =
     map_option (\<lambda>(ret, a1). (ret, if ret \<ge> 0 then a1\<lparr>a_wk := snd (lwp_wkspace_free h (a_wk a1))\<rparr> else a1)) (SYS_CancelAlarm h a)"

section \<open>Runs\<close>

text \<open>
  A program with the alarms \<open>A\<close>, in the order in which it got them, calls the operations on the \<open>i\<close>-th of them, in
  callbacks or elsewhere; meanwhile time passes (\<open>ATime\<close>), other tick tasks are started and stopped, and the decrementer handler
  takes the first task when it is due, one turn of its loop at a time (\<open>AExpire\<close>). There \<open>None\<close> also stands for the call of an alarm
  whose memory has been given back.
\<close>

datatype alarm_op =
    ACreate | ASet nat "u64 \<times> u32" u32 u32 | ASetPeriodic nat "u64 \<times> u32" "u64 \<times> u32" u32 u32 | ACancel nat | ARemove nat
  | ATime u64 | AExpire | AStart ptr tick_fn u64 u64 | AStop ptr

definition on_handle :: "nat \<Rightarrow> ptr list \<Rightarrow> (ptr \<Rightarrow> alarms \<Rightarrow> (int \<times> alarms) option) \<Rightarrow> alarms \<Rightarrow> (alarms \<times> ptr list) option" where
  "on_handle i A f a = (if i < length A then map_option (\<lambda>(_, a'). (a', A)) (f (A ! i) a) else Some (a, A))"

fun alarm_do :: "bool \<Rightarrow> alarm_op \<Rightarrow> alarms \<times> ptr list \<Rightarrow> (alarms \<times> ptr list) option" where
  "alarm_do wii ACreate (a, A) =
     map_option (\<lambda>(_, h, a'). (a', case h of None \<Rightarrow> A | Some p \<Rightarrow> p # A)) (SYS_CreateAlarm a)"
| "alarm_do wii (ASet i tp cb arg) (a, A) = on_handle i A (\<lambda>h. SYS_SetAlarm wii h tp cb arg) a"
| "alarm_do wii (ASetPeriodic i tp tp' cb arg) (a, A) = on_handle i A (\<lambda>h. SYS_SetPeriodicAlarm wii h tp tp' cb arg) a"
| "alarm_do wii (ACancel i) (a, A) = on_handle i A SYS_CancelAlarm a"
| "alarm_do wii (ARemove i) (a, A) =
     (if i < length A then map_option (\<lambda>(_, a'). (a', take i A @ drop (Suc i) A)) (SYS_RemoveAlarm (A ! i) a) else Some (a, A))"
| "alarm_do wii (ATime now) (a, A) = Some (a\<lparr>a_ks := (a_ks a)\<lparr>timebase := now\<rparr>\<rparr>, A)"
| "alarm_do wii AExpire (a, A) =
     (let s = a_ks a; t = s_firstTask s in
      if t \<noteq> NULL \<and> \<not> KTickIsSequential (timebase s) (ktarget s t)
      then if kfn s t = Fn_lwpc_alarm_cb \<and> t \<notin> set A then None else map_option (\<lambda>s'. (a\<lparr>a_ks := s'\<rparr>, A)) (KTickTaskPop s)
      else Some (a, A))"
| "alarm_do wii (AStart t fn delay period) (a, A) = map_option (\<lambda>s'. (a\<lparr>a_ks := s'\<rparr>, A)) (KTickTaskStart t fn delay period (a_ks a))"
| "alarm_do wii (AStop t) (a, A) = map_option (\<lambda>s'. (a\<lparr>a_ks := s'\<rparr>, A)) (KTickTaskStop t (a_ks a))"

fun alarm_run :: "bool \<Rightarrow> alarm_op list \<Rightarrow> alarms \<times> ptr list \<Rightarrow> (alarms \<times> ptr list) option" where
  "alarm_run wii [] aA = Some aA"
| "alarm_run wii (x # xs) aA = alarm_do wii x aA \<bind> alarm_run wii xs"

text \<open>
  What the program has to keep to: times below \<open>2 ^ 62\<close> ticks (more than 2000 years), and tick tasks of its own that do not lie in
  the workspace, at \<open>lo\<close> with \<open>T\<close> bytes.
\<close>

definition brief :: "u64 \<Rightarrow> bool" where
  "brief v \<longleftrightarrow> uint v < 2 ^ 62"

definition outside :: "nat \<Rightarrow> nat \<Rightarrow> ptr \<Rightarrow> bool" where
  "outside lo T t \<longleftrightarrow> t \<noteq> NULL \<and> (unat t < lo \<or> lo + T \<le> unat t)"

fun alarm_op_ok :: "bool \<Rightarrow> nat \<Rightarrow> nat \<Rightarrow> alarm_op \<Rightarrow> bool" where
  "alarm_op_ok wii lo T (ASet i tp cb arg) = brief (timespec_to_ticks wii tp)"
| "alarm_op_ok wii lo T (ASetPeriodic i tp tp' cb arg) = (brief (timespec_to_ticks wii tp) \<and> brief (timespec_to_ticks wii tp'))"
| "alarm_op_ok wii lo T (ATime now) = brief now"
| "alarm_op_ok wii lo T (AStart t fn delay period) =
     (outside lo T t \<and> fn \<noteq> Fn_null \<and> fn \<noteq> Fn_lwpc_alarm_cb \<and> brief delay \<and> brief period)"
| "alarm_op_ok wii lo T (AStop t) = outside lo T t"
| "alarm_op_ok wii lo T _ = True"

section \<open>The workspace\<close>

abbreviation wk_lo :: "wkspace \<Rightarrow> nat" where "wk_lo w \<equiv> unat (h_start (wkspace_heap w))"

lemma owned_area:
  assumes "wkspace_inv T w" "owned (wkspace_heap w) p l u"
  shows "wk_lo w \<le> l \<and> u \<le> wk_lo w + T"
proof -
  obtain ts fs where ok: "heap_ok (wkspace_heap w) ts fs" "tsum ts = T" using assms(1) by (auto simp: wkspace_inv_def heap_inv_def)
  have "tseg (hbk (wkspace_heap w)) (hfr (wkspace_heap w)) (wk_lo w) 1 ts" using heap_okD(4) [OF ok(1)] by (simp add: tiled_def)
  then show ?thesis using uaddrs_range assms(2) [unfolded owned_iff [OF ok(1)]] ok(2) by blast
qed

lemma wk_alloc_start:
  assumes "wkspace_inv T w" "admitted PPC_ALIGNMENT n" "lwp_wkspace_allocate n w = Some (p, w')"
  shows "wk_lo w' = wk_lo w"
proof -
  let ?h = "wkspace_heap w"
  obtain ts fs where ok: "heap_ok ?h ts fs" "pg_size ?h = PPC_ALIGNMENT" using assms(1) by (auto simp: wkspace_inv_def heap_inv_def)
  have n: "unat n + 2 * unat (pg_size ?h) + 8 \<le> 2 ^ 32" using assms(2) ok(2) by (simp add: admitted_def)
  obtain h' where h': "lwp_heap_allocate n ?h = Some (p, h')" "w' = w\<lparr>wkspace_heap := h'\<rparr>" using assms(3) by (auto simp: lwp_wkspace_allocate_def)
  show ?thesis
  proof (cases "\<exists>m. (m, False) \<in> set ts \<and> block_req (unat (pg_size ?h)) (unat n) \<le> m")
    case True
    then obtain m where m: "(m, False) \<in> set ts" "block_req (unat (pg_size ?h)) (unat n) \<le> m" by blast
    then show ?thesis using heap_allocate_ok [OF ok(1) n m] h' by auto
  next
    case False
    then show ?thesis using heap_allocate_none [OF ok(1) n] h' not_le by fastforce
  qed
qed

lemma wk_free_start:
  assumes "wkspace_inv T w" "owned (wkspace_heap w) p l u"
  shows "wk_lo (snd (lwp_wkspace_free p w)) = wk_lo w"
proof -
  obtain ts fs where "heap_ok (wkspace_heap w) ts fs" using assms(1) by (auto simp: wkspace_inv_def heap_inv_def)
  from heap_free_owned [OF this assms(2)] show ?thesis by (auto simp: lwp_wkspace_free_def)
qed

end
