(* ===== verification/AlarmProps.thy ===== *)
theory AlarmProps
  imports Alarm HeapProps
begin

text \<open>
  The invariant of the alarms over the timer list and the workspace: an alarm on the timer list has memory of its own. Every
  operation and every expiry keeps it.
\<close>

section \<open>Periods and the timer list\<close>

abbreviation kperiod :: "kstate \<Rightarrow> ptr \<Rightarrow> u64" where "kperiod s t \<equiv> k_period (tasks s t)"

lemma tick_repr_off:
  assumes "tick_repr base s L" "t \<notin> set L"
  shows "tick_repr base (upd_task t f s) L"
proof -
  have a: "knext (upd_task t f s) u = knext s u" "tick_off base (upd_task t f s) u = tick_off base s u" if "u \<in> set L" for u
    using that assms(2) by (auto simp: knext_def tick_off_def ktarget_def upd_task_def)
  have "sorted_by (tick_off base (upd_task t f s)) L = sorted_by (tick_off base s) L" using a(2) by (intro sorted_by_cong)
  moreover have "lst (knext (upd_task t f s)) p L = lst (knext s) p L" for p using a(1) by (intro path_cong)
  ultimately show ?thesis using assms(1) a(2) by (simp add: tick_repr_def tick_list_def tick_fits_def)
qed

lemma enqueue_period: "KTickTaskEnqueue t s = Some s' \<Longrightarrow> kperiod s' u = kperiod s u"
  by (auto simp: KTickTaskEnqueue_def upd_task_def bind_eq_Some_conv split: if_splits)

lemma dequeue_period: "KTickTaskDequeue t s = Some s' \<Longrightarrow> kperiod s' u = kperiod s u"
  by (auto simp: KTickTaskDequeue_def upd_task_def bind_eq_Some_conv split: if_splits)

lemma start_period:
  assumes "KTickTaskStart t fn d p s = Some s'"
  shows "kperiod s' u = (if u = t then p else kperiod s u)"
  using assms enqueue_period dequeue_period
  by (fastforce simp: KTickTaskStart_def Let_def case_prod_beta bind_eq_Some_conv upd_task_def split: if_splits)

lemma stop_period:
  assumes "KTickTaskStop t s = Some s'"
  shows "kperiod s' u = kperiod s u"
  using assms dequeue_period
  by (fastforce simp: KTickTaskStop_def Let_def case_prod_beta bind_eq_Some_conv upd_task_def split: if_splits)

lemma enqueue_time: "KTickTaskEnqueue t s = Some s' \<Longrightarrow> timebase s' = timebase s"
  by (auto simp: KTickTaskEnqueue_def bind_eq_Some_conv split: if_splits)

lemma stop_time: "KTickTaskStop t s = Some s' \<Longrightarrow> timebase s' = timebase s"
  by (auto simp: KTickTaskStop_def KTickTaskDequeue_def Let_def case_prod_beta bind_eq_Some_conv split: if_splits)

lemma brief_add:
  assumes "brief v" "brief w"
  shows "uint (v + w) < 2 ^ 63"
proof -
  have "uint v + uint w < 2 ^ 63" using assms by (simp add: brief_def)
  then show ?thesis by (simp add: uint_plus_if_size word_size)
qed

text \<open>The tasks \<open>L\<close> of the timer list are armed, all times are short.\<close>

definition timers :: "kstate \<Rightarrow> ptr list \<Rightarrow> bool" where
  "timers s L \<longleftrightarrow> tick_repr 0 s L \<and> brief (timebase s) \<and> (\<forall>u\<in>set L. kfn s u \<noteq> Fn_null \<and> brief (kperiod s u))"

lemma timers_cong:
  assumes "tasks s' = tasks s" "s_firstTask s' = s_firstTask s" "timebase s' = timebase s"
  shows "timers s' L = timers s L"
  using assms tick_repr_tasks [OF assms(1,2)] task_acc_tasks [OF assms(1)] by (simp add: timers_def)

lemma timers_zero: "timers s L \<Longrightarrow> t \<notin> set L \<Longrightarrow> timers (upd_task t (\<lambda>_. zero_task) s) L"
  using tick_repr_off [of 0 s L t "\<lambda>_. zero_task"] by (auto simp: timers_def kfn_def upd_task_def)

lemma timers_start:
  assumes "timers s L" "t \<noteq> NULL" "fn \<noteq> Fn_null" "brief d" "brief p"
  shows "\<exists>s' L'. KTickTaskStart t fn d p s = Some s' \<and> timers s' L' \<and> set L' = insert t (set L) \<and> kfn s' = (kfn s)(t := fn)"
proof -
  have r: "tick_repr 0 s L" and b: "brief (timebase s)" and f: "\<forall>u\<in>set L. kfn s u \<noteq> Fn_null" "\<forall>u\<in>set L. brief (kperiod s u)"
    using assms(1) by (auto simp: timers_def)
  have "uint (timebase s + d - 0) < 2 ^ 63" using brief_add [OF b assms(4)] by simp
  from KTickTaskStart_run [OF r assms(2) f(1) this, of fn p] obtain s' L' where s': "KTickTaskStart t fn d p s = Some s'"
      "tick_repr 0 s' L'" "mset L' = add_mset t (mset (remove1 t L))" "kfn s' = (kfn s)(t := fn)" "timebase s' = timebase s" by blast
  have "mset L' = mset (t # remove1 t L)" using s'(3) by (simp only: mset.simps)
  then have "set L' = insert t (set (remove1 t L))" by (metis set_mset_mset list.set(2))
  then have q: "set L' = insert t (set L)" using tk.repr_distinct [OF r] by auto
  have "kfn s' u \<noteq> Fn_null \<and> brief (kperiod s' u)" if "u \<in> set L'" for u
    using that f assms(3,5) unfolding s'(4) start_period [OF s'(1)] q by auto
  then have "timers s' L'" using s'(2,5) b by (simp add: timers_def)
  then show ?thesis using s'(1,4) q by blast
qed

lemma timers_stop:
  assumes "timers s L" "t \<noteq> NULL"
  shows "\<exists>s'. KTickTaskStop t s = Some s' \<and> timers s' (remove1 t L) \<and> t \<notin> set (remove1 t L) \<and> kfn s' = (kfn s)(t := Fn_null)"
proof -
  have r: "tick_repr 0 s L" and f: "\<forall>u\<in>set L. kfn s u \<noteq> Fn_null" using assms(1) by (auto simp: timers_def)
  obtain s' where s': "KTickTaskStop t s = Some s'" "tick_repr 0 s' (remove1 t L)" "kfn s' = (kfn s)(t := Fn_null)"
    using KTickTaskStop_run [OF r assms(2) f] by blast
  moreover have "t \<notin> set (remove1 t L)" using tk.repr_distinct [OF r] by simp
  ultimately show ?thesis using assms(1) stop_period [OF s'(1)] stop_time [OF s'(1)]
    by (auto simp: timers_def dest: notin_set_remove1)
qed

lemma timers_expire:
  assumes tm: "timers s L" and t: "s_firstTask s \<noteq> NULL" and due: "\<not> KTickIsSequential (timebase s) (ktarget s (s_firstTask s))"
  shows "\<exists>s' L'. KTickTaskPop s = Some s' \<and> timers s' L' \<and> set L' \<subseteq> set L \<and> (\<forall>u\<in>set L'. kfn s' u = kfn s u) \<and> s_firstTask s \<in> set L"
proof -
  let ?t = "s_firstTask s"
  have r: "tick_repr 0 s L" and b: "brief (timebase s)" and f: "\<forall>u\<in>set L. kfn s u \<noteq> Fn_null \<and> brief (kperiod s u)"
    using tm by (auto simp: timers_def)
  obtain M where L: "L = ?t # M" using r t by (cases L) (auto simp: tick_repr_def tick_list_def)
  let ?s1 = "s\<lparr>s_firstTask := knext s ?t\<rparr>"
  have r1: "tick_repr 0 ?s1 M" using r unfolding L by (auto simp: tick_repr_def tick_list_def tick_fits_def tick_off_def)
  have n: "?t \<notin> set M" using tk.repr_distinct [OF r] L by simp
  show ?thesis
  proof (cases "kperiod s ?t = 0")
    case True
    let ?s' = "upd_task ?t (\<lambda>k. k\<lparr>k_fn := Fn_null\<rparr>) ?s1"
    have "KTickTaskPop s = Some ?s'" using True by (simp add: KTickTaskPop_def Let_def)
    moreover have k: "kfn ?s' u = kfn s u \<and> kperiod ?s' u = kperiod s u" if "u \<in> set M" for u using that n by (auto simp: kfn_def upd_task_def)
    ultimately show ?thesis using tick_repr_off [OF r1 n] b f L
      by (intro exI [of _ ?s'] exI [of _ M]) (auto simp: timers_def)
  next
    case False
    let ?s2 = "upd_task ?t (\<lambda>k. k\<lparr>k_target := k_target k + k_period k\<rparr>) ?s1"
    have k2: "kfn ?s2 = kfn s" "kperiod ?s2 u = kperiod s u" "timebase ?s2 = timebase s" for u
      by (auto simp: kfn_def upd_task_def)
    have "brief (ktarget s ?t)"
      using due b r L KTickIsSequential_window [of "timebase s" 0 "ktarget s ?t"]
      by (auto simp: tick_repr_def tick_fits_def tick_off_def brief_def)
    then have "tick_fits 0 ?s2 ?t" using brief_add [of "ktarget s ?t" "kperiod s ?t"] f L
      by (simp add: tick_fits_def tick_off_def ktarget_def upd_task_def)
    from tk.enq_repr [OF tick_repr_off [OF r1 n] n t this] obtain s' L' where
        s': "KTickTaskEnqueue ?t ?s2 = Some s'" "tick_repr 0 s' L'" "mset L' = add_mset ?t (mset M)" by blast
    have q: "set L' = set L" using arg_cong [OF s'(3), of set_mset] L by simp
    have "tick_list ?s2 M" using tick_repr_off [OF r1 n] by (simp add: tick_repr_def)
    then have "kfn s' = kfn s" using KTickTaskEnqueue_list [OF _ n t] s'(1) k2(1) by fastforce
    moreover have "timers s' L'" using s'(2) q b f k2 enqueue_period [OF s'(1)] enqueue_time [OF s'(1)] calculation by (auto simp: timers_def)
    moreover have "KTickTaskPop s = Some s'" using False s'(1) by (simp add: KTickTaskPop_def Let_def)
    ultimately show ?thesis using q L by (intro exI [of _ s'] exI [of _ L']) auto
  qed
qed

section \<open>The invariant\<close>

definition alarm_inv :: "nat \<Rightarrow> nat \<Rightarrow> alarms \<Rightarrow> ptr list \<Rightarrow> bool" where
  "alarm_inv lo T a A \<longleftrightarrow> wkspace_inv T (a_wk a) \<and> wk_lo (a_wk a) = lo \<and>
     (\<exists>bs. wksp.holds (a_wk a) (map (\<lambda>p. (p, ALARM_SIZE)) A) bs) \<and>
     (\<exists>L. timers (a_ks a) L \<and> (\<forall>u\<in>set L. if kfn (a_ks a) u = Fn_lwpc_alarm_cb then u \<in> set A else outside lo T u))"

lemma alarm_invI:
  assumes "wkspace_inv T (a_wk a)" "wk_lo (a_wk a) = lo" "wksp.holds (a_wk a) (map (\<lambda>p. (p, ALARM_SIZE)) A) bs" "timers (a_ks a) L"
    "\<forall>u\<in>set L. if kfn (a_ks a) u = Fn_lwpc_alarm_cb then u \<in> set A else outside lo T u"
  shows "alarm_inv lo T a A"
  using assms unfolding alarm_inv_def by blast

text \<open>Operations that only touch the kernel.\<close>

lemma alarm_inv_ks:
  assumes "alarm_inv lo T a A" "timers s L" "\<forall>u\<in>set L. if kfn s u = Fn_lwpc_alarm_cb then u \<in> set A else outside lo T u"
  shows "alarm_inv lo T (a\<lparr>a_ks := s, a_cb := c, a_arg := g\<rparr>) A" "alarm_inv lo T (a\<lparr>a_ks := s\<rparr>) A"
  using assms unfolding alarm_inv_def by auto

lemma held_inside:
  assumes "alarm_inv lo T a A" "h \<in> set A"
  shows "\<exists>l u. owned (wkspace_heap (a_wk a)) h l u \<and> l < unat h \<and> unat h + 32 \<le> u \<and> lo \<le> l \<and> u \<le> lo + T"
proof -
  obtain bs i where "wksp.holds (a_wk a) (map (\<lambda>p. (p, ALARM_SIZE)) A) bs" "i < length A" "A ! i = h"
    using assms by (auto simp: alarm_inv_def in_set_conv_nth)
  then have o: "owned (wkspace_heap (a_wk a)) h (fst (bs ! i)) (snd (bs ! i))" "fst (bs ! i) < unat h" "unat h + 32 \<le> snd (bs ! i)"
    by (auto simp: wksp.holds_def wksp.held_def list_all2_conv_all_nth)
  then show ?thesis using owned_area [OF _ o(1), of T] assms(1) by (auto simp: alarm_inv_def)
qed

lemma held_not_outside: "alarm_inv lo T a A \<Longrightarrow> h \<in> set A \<Longrightarrow> h \<noteq> NULL \<and> \<not> outside lo T h"
  using held_inside [of lo T a A h] by (auto simp: outside_def)

lemma alarm_create_ok:
  assumes "alarm_inv lo T a A"
  shows "\<exists>r h a'. SYS_CreateAlarm a = Some (r, h, a') \<and> alarm_inv lo T a' (case h of None \<Rightarrow> A | Some p \<Rightarrow> p # A)"
proof -
  obtain bs L where i: "wkspace_inv T (a_wk a)" "wk_lo (a_wk a) = lo" "wksp.holds (a_wk a) (map (\<lambda>p. (p, ALARM_SIZE)) A) bs" "timers (a_ks a) L"
      "\<forall>u\<in>set L. if kfn (a_ks a) u = Fn_lwpc_alarm_cb then u \<in> set A else outside lo T u"
    using assms by (auto simp: alarm_inv_def)
  have ad: "admitted PPC_ALIGNMENT ALARM_SIZE" by (simp add: admitted_def)
  from wksp.alloc_law [OF i(1) ad] consider "lwp_wkspace_allocate ALARM_SIZE (a_wk a) = Some (NULL, a_wk a)"
    | p w l u where "lwp_wkspace_allocate ALARM_SIZE (a_wk a) = Some (p, w)" "p \<noteq> NULL" "wkspace_inv T w"
      "owned (wkspace_heap w) p l u" "l < unat p" "unat p + 32 \<le> u"
      "\<And>q l' u'. owned (wkspace_heap (a_wk a)) q l' u' \<Longrightarrow> owned (wkspace_heap w) q l' u' \<and> (u' \<le> l \<or> u \<le> l')"
    by auto
  then show ?thesis
  proof cases
    case 1
    then show ?thesis using assms by (simp add: SYS_CreateAlarm_def)
  next
    case (2 p w l u)
    have lo: "wk_lo w = lo" using wk_alloc_start [OF i(1) ad 2(1)] i(2) by simp
    then have "\<not> outside lo T p" using owned_area [OF 2(3,4)] 2(5,6) by (auto simp: outside_def)
    moreover have "p \<notin> set A"
    proof
      assume "p \<in> set A"
      then obtain l' u' where "owned (wkspace_heap (a_wk a)) p l' u'" "l' < unat p" "unat p + 32 \<le> u'" using held_inside [OF assms] by blast
      then show False using 2(5,6,7) by fastforce
    qed
    ultimately have p: "p \<notin> set L" using i(5) by (meson)
    have h: "wksp.holds w ((p, ALARM_SIZE) # map (\<lambda>p. (p, ALARM_SIZE)) A) ((l, u) # bs)"
      by (rule wksp.holds_take [OF i(3)]) (use 2(4-7) in \<open>auto simp: wksp.held_def wksp.apart_def\<close>)
    let ?s = "upd_task p (\<lambda>_. zero_task) (a_ks a)"
    have "kfn ?s u = kfn (a_ks a) u" if "u \<in> set L" for u using that p by (auto simp: kfn_def upd_task_def)
    then have "\<forall>u\<in>set L. if kfn ?s u = Fn_lwpc_alarm_cb then u \<in> set (p # A) else outside lo T u" using i(5) by auto
    then have "alarm_inv lo T (a\<lparr>a_wk := w, a_ks := ?s, a_cb := (a_cb a)(p := 0), a_arg := (a_arg a)(p := 0)\<rparr>) (p # A)"
      using 2(3) lo h timers_zero [OF i(4) p] by (intro alarm_invI [where L = L and bs = "(l, u) # bs"]) simp_all
    then show ?thesis using 2(1,2) by (simp add: SYS_CreateAlarm_def)
  qed
qed

lemma alarm_set_ok:
  assumes "alarm_inv lo T a A" "h \<in> set A" "brief start" "brief period"
  shows "\<exists>a'. SYS_SetAlarmCommon h start period cb arg a = Some (0, a') \<and> alarm_inv lo T a' A"
proof -
  obtain L where L: "timers (a_ks a) L" "\<forall>u\<in>set L. if kfn (a_ks a) u = Fn_lwpc_alarm_cb then u \<in> set A else outside lo T u"
    using assms(1) by (auto simp: alarm_inv_def)
  have h: "h \<noteq> NULL" using held_not_outside [OF assms(1,2)] by simp
  obtain st s1 where lock: "PPCIrqLockByMsr (a_ks a) = (st, s1)" by (cases "PPCIrqLockByMsr (a_ks a)")
  have s1: "tasks s1 = tasks (a_ks a)" "s_firstTask s1 = s_firstTask (a_ks a)" "timebase s1 = timebase (a_ks a)"
    using lock lock_acc [of "a_ks a"] by simp_all
  have t1: "timers s1 L" using L(1) timers_cong [OF s1] by simp
  obtain s2 L' where s2: "KTickTaskStart h Fn_lwpc_alarm_cb start period s1 = Some s2" "timers s2 L'" "set L' = insert h (set L)"
      "kfn s2 = (kfn s1)(h := Fn_lwpc_alarm_cb)"
    using timers_start [OF t1 h _ assms(3,4), of Fn_lwpc_alarm_cb] by auto
  let ?s = "PPCIrqUnlockByMsr st s2"
  have k: "kfn ?s = (kfn (a_ks a))(h := Fn_lwpc_alarm_cb)" using task_acc_tasks [OF s1(1)] task_acc_tasks [of ?s s2] s2(4) by simp
  have "timers ?s L'" using s2(2) timers_cong [of ?s s2] by simp
  moreover have "\<forall>u\<in>set L'. if kfn ?s u = Fn_lwpc_alarm_cb then u \<in> set A else outside lo T u" using L(2) s2(3) assms(2) k by auto
  ultimately show ?thesis using alarm_inv_ks(1) [OF assms(1)] h s2(1) by (simp add: SYS_SetAlarmCommon_def lock)
qed

text \<open>The callback is the one set last, with its handle and argument, also when another alarm is set afterwards.\<close>

lemma alarm_callback:
  assumes "SYS_SetAlarmCommon h start period cb arg a = Some (0, a1)" "h' \<noteq> h" "SYS_SetAlarmCommon h' start' period' cb' arg' a1 = Some (r, a2)"
  shows "lwpc_alarm_cb user h a2 = user cb h arg a2"
  using assms by (auto simp: SYS_SetAlarmCommon_def lwpc_alarm_cb_def case_prod_beta Let_def bind_eq_Some_conv split: if_splits)

lemma alarm_cancel_ok:
  assumes "alarm_inv lo T a A" "h \<in> set A"
  shows "\<exists>s L. SYS_CancelAlarm h a = Some (0, a\<lparr>a_ks := s\<rparr>) \<and> timers s L \<and> h \<notin> set L \<and>
    (\<forall>u\<in>set L. if kfn s u = Fn_lwpc_alarm_cb then u \<in> set A else outside lo T u)"
proof -
  obtain L where L: "timers (a_ks a) L" "\<forall>u\<in>set L. if kfn (a_ks a) u = Fn_lwpc_alarm_cb then u \<in> set A else outside lo T u"
    using assms(1) by (auto simp: alarm_inv_def)
  have h: "h \<noteq> NULL" using held_not_outside [OF assms] by simp
  obtain s where s: "KTickTaskStop h (a_ks a) = Some s" "timers s (remove1 h L)" "h \<notin> set (remove1 h L)" "kfn s = (kfn (a_ks a))(h := Fn_null)"
    using timers_stop [OF L(1) h] by blast
  then have "\<forall>u\<in>set (remove1 h L). if kfn s u = Fn_lwpc_alarm_cb then u \<in> set A else outside lo T u"
    using L(2) by (auto dest: notin_set_remove1)
  then show ?thesis using s h by (intro exI [of _ s] exI [of _ "remove1 h L"]) (simp add: SYS_CancelAlarm_def)
qed

lemma alarm_remove_ok:
  assumes inv: "alarm_inv lo T a A" and i: "i < length A"
  shows "\<exists>a'. SYS_RemoveAlarm (A ! i) a = Some (0, a') \<and> alarm_inv lo T a' (take i A @ drop (Suc i) A)"
proof -
  let ?h = "A ! i" and ?B = "take i A @ drop (Suc i) A" and ?m = "\<lambda>p. (p, ALARM_SIZE)"
  have hA: "?h \<in> set A" using i by simp
  obtain s L where s: "SYS_CancelAlarm ?h a = Some (0, a\<lparr>a_ks := s\<rparr>)" "timers s L" "?h \<notin> set L"
      "\<forall>u\<in>set L. if kfn s u = Fn_lwpc_alarm_cb then u \<in> set A else outside lo T u"
    using alarm_cancel_ok [OF inv hA] by blast
  obtain bs where b: "wksp.holds (a_wk a) (map ?m A) bs" and w: "wkspace_inv T (a_wk a)" "wk_lo (a_wk a) = lo" using inv by (auto simp: alarm_inv_def)
  have im: "i < length (map ?m A)" using i by simp
  have o: "owned (wkspace_heap (a_wk a)) ?h (fst (bs ! i)) (snd (bs ! i))"
    using b i by (auto simp: wksp.holds_def wksp.held_def list_all2_conv_all_nth)
  obtain w' where w': "lwp_wkspace_free ?h (a_wk a) = (True, w')" "wkspace_inv T w'"
      "\<forall>q l u. owned (wkspace_heap (a_wk a)) q l u \<and> (l, u) \<noteq> (fst (bs ! i), snd (bs ! i)) \<longrightarrow> owned (wkspace_heap w') q l u"
    using wksp.release_law [OF w(1) o] by blast
  have "wksp.holds w' (take i (map ?m A) @ drop (Suc i) (map ?m A)) (take i bs @ drop (Suc i) bs)"
    by (rule wksp.holds_give [OF b im]) (use w'(3) in simp)
  then have h: "wksp.holds w' (map ?m ?B) (take i bs @ drop (Suc i) bs)" by (simp add: take_map drop_map)
  have "A = take i A @ ?h # drop (Suc i) A" using i by (rule id_take_nth_drop)
  then have "set A = insert ?h (set ?B)" by (metis Un_insert_right list.set(2) set_append)
  then have "\<forall>u\<in>set L. if kfn s u = Fn_lwpc_alarm_cb then u \<in> set ?B else outside lo T u" using s(3,4) by auto
  then have "alarm_inv lo T (a\<lparr>a_ks := s, a_wk := w'\<rparr>) ?B"
    using w'(1,2) h s(2) wk_free_start [OF w(1) o] w(2) by (intro alarm_invI [where L = L and bs = "take i bs @ drop (Suc i) bs"]) simp_all
  then show ?thesis using s(1) w'(1) by (simp add: SYS_RemoveAlarm_def)
qed

section \<open>Runs\<close>

lemma on_handle_ok:
  assumes "alarm_inv lo T a A" "\<And>h. h \<in> set A \<Longrightarrow> \<exists>r a'. f h a = Some (r, a') \<and> alarm_inv lo T a' A"
  shows "\<exists>a'. on_handle i A f a = Some (a', A) \<and> alarm_inv lo T a' A"
  using assms nth_mem [of i A] by (fastforce simp: on_handle_def)

lemma alarm_expire_ok:
  assumes "alarm_inv lo T a A"
  shows "\<exists>a'. alarm_do wii AExpire (a, A) = Some (a', A) \<and> alarm_inv lo T a' A"
proof (cases "s_firstTask (a_ks a) \<noteq> NULL \<and> \<not> KTickIsSequential (timebase (a_ks a)) (ktarget (a_ks a) (s_firstTask (a_ks a)))")
  case True
  obtain L where L: "timers (a_ks a) L" "\<forall>u\<in>set L. if kfn (a_ks a) u = Fn_lwpc_alarm_cb then u \<in> set A else outside lo T u"
    using assms by (auto simp: alarm_inv_def)
  obtain s' L' where s': "KTickTaskPop (a_ks a) = Some s'" "timers s' L'" "set L' \<subseteq> set L" "\<forall>u\<in>set L'. kfn s' u = kfn (a_ks a) u"
      "s_firstTask (a_ks a) \<in> set L"
    using timers_expire [OF L(1)] True by blast
  have "\<forall>u\<in>set L'. if kfn s' u = Fn_lwpc_alarm_cb then u \<in> set A else outside lo T u" using s'(3,4) L(2) by auto
  then have "alarm_inv lo T (a\<lparr>a_ks := s'\<rparr>) A" by (rule alarm_inv_ks(2) [OF assms s'(2)])
  moreover have "kfn (a_ks a) (s_firstTask (a_ks a)) = Fn_lwpc_alarm_cb \<longrightarrow> s_firstTask (a_ks a) \<in> set A" using L(2) s'(5) by auto
  ultimately show ?thesis using True s'(1) by (auto simp: Let_def)
next
  case False
  then show ?thesis using assms by (auto simp: Let_def)
qed

lemma alarm_other_ok:
  assumes inv: "alarm_inv lo T a A" and t: "outside lo T t"
  shows "fn \<noteq> Fn_null \<Longrightarrow> fn \<noteq> Fn_lwpc_alarm_cb \<Longrightarrow> brief d \<Longrightarrow> brief p \<Longrightarrow>
      \<exists>s'. KTickTaskStart t fn d p (a_ks a) = Some s' \<and> alarm_inv lo T (a\<lparr>a_ks := s'\<rparr>) A"
    and "\<exists>s'. KTickTaskStop t (a_ks a) = Some s' \<and> alarm_inv lo T (a\<lparr>a_ks := s'\<rparr>) A"
proof -
  obtain L where L: "timers (a_ks a) L" "\<forall>u\<in>set L. if kfn (a_ks a) u = Fn_lwpc_alarm_cb then u \<in> set A else outside lo T u"
    using inv by (auto simp: alarm_inv_def)
  have t0: "t \<noteq> NULL" using t by (simp add: outside_def)
  show "\<exists>s'. KTickTaskStop t (a_ks a) = Some s' \<and> alarm_inv lo T (a\<lparr>a_ks := s'\<rparr>) A"
  proof -
    obtain s' where s': "KTickTaskStop t (a_ks a) = Some s'" "timers s' (remove1 t L)" "kfn s' = (kfn (a_ks a))(t := Fn_null)" "t \<notin> set (remove1 t L)"
      using timers_stop [OF L(1) t0] by blast
    have "\<forall>u\<in>set (remove1 t L). if kfn s' u = Fn_lwpc_alarm_cb then u \<in> set A else outside lo T u"
      using L(2) s'(3,4) by (auto dest: notin_set_remove1)
    then show ?thesis using alarm_inv_ks(2) [OF inv s'(2)] s'(1) by blast
  qed
  assume f: "fn \<noteq> Fn_null" "fn \<noteq> Fn_lwpc_alarm_cb" "brief d" "brief p"
  obtain s' L' where s': "KTickTaskStart t fn d p (a_ks a) = Some s'" "timers s' L'" "set L' = insert t (set L)" "kfn s' = (kfn (a_ks a))(t := fn)"
    using timers_start [OF L(1) t0 f(1,3,4)] by blast
  have "\<forall>u\<in>set L'. if kfn s' u = Fn_lwpc_alarm_cb then u \<in> set A else outside lo T u" using L(2) s'(3,4) f(2) t by auto
  then show "\<exists>s'. KTickTaskStart t fn d p (a_ks a) = Some s' \<and> alarm_inv lo T (a\<lparr>a_ks := s'\<rparr>) A"
    using alarm_inv_ks(2) [OF inv s'(2)] s'(1) by blast
qed

lemma alarm_time_ok:
  assumes "alarm_inv lo T a A" "brief now"
  shows "alarm_inv lo T (a\<lparr>a_ks := (a_ks a)\<lparr>timebase := now\<rparr>\<rparr>) A"
proof -
  let ?s = "(a_ks a)\<lparr>timebase := now\<rparr>"
  obtain L where L: "timers (a_ks a) L" "\<forall>u\<in>set L. if kfn (a_ks a) u = Fn_lwpc_alarm_cb then u \<in> set A else outside lo T u"
    using assms(1) by (auto simp: alarm_inv_def)
  have "kfn ?s = kfn (a_ks a)" using task_acc_tasks [of ?s "a_ks a"] by simp
  then show ?thesis using alarm_inv_ks(2) [OF assms(1), of ?s L] L assms(2) tick_repr_tasks [of ?s "a_ks a" 0 L] by (simp add: timers_def)
qed

lemma alarm_do_ok:
  assumes inv: "alarm_inv lo T a A" and ok: "alarm_op_ok wii lo T x"
  shows "\<exists>a' A'. alarm_do wii x (a, A) = Some (a', A') \<and> alarm_inv lo T a' A'"
proof (cases x)
  case ACreate
  then show ?thesis using alarm_create_ok [OF inv] by fastforce
next
  case (ASet i tp cb arg)
  have z: "brief 0" by (simp add: brief_def)
  from ASet have "\<exists>a'. on_handle i A (\<lambda>h. SYS_SetAlarm wii h tp cb arg) a = Some (a', A) \<and> alarm_inv lo T a' A"
    by (intro on_handle_ok [OF inv]) (use ok alarm_set_ok [OF inv _ _ z] in \<open>fastforce simp: SYS_SetAlarm_def\<close>)
  then show ?thesis using ASet by auto
next
  case (ASetPeriodic i tp tp' cb arg)
  then have "\<exists>a'. on_handle i A (\<lambda>h. SYS_SetPeriodicAlarm wii h tp tp' cb arg) a = Some (a', A) \<and> alarm_inv lo T a' A"
    by (intro on_handle_ok [OF inv]) (use ok alarm_set_ok [OF inv] in \<open>fastforce simp: SYS_SetPeriodicAlarm_def\<close>)
  then show ?thesis using ASetPeriodic by auto
next
  case (ACancel i)
  have "\<exists>r a'. SYS_CancelAlarm h a = Some (r, a') \<and> alarm_inv lo T a' A" if "h \<in> set A" for h
    using alarm_cancel_ok [OF inv that] alarm_inv_ks(2) [OF inv] by metis
  then show ?thesis using on_handle_ok [OF inv, of SYS_CancelAlarm i] ACancel by auto
next
  case (ARemove i)
  then show ?thesis using inv alarm_remove_ok [OF inv, of i] by fastforce
next
  case (ATime now)
  then show ?thesis using alarm_time_ok [OF inv] ok by simp
next
  case AExpire
  then show ?thesis using alarm_expire_ok [OF inv, of wii] by blast
next
  case (AStart t fn d p)
  then show ?thesis using alarm_other_ok(1) [OF inv, of t fn d p] ok by fastforce
next
  case (AStop t)
  then show ?thesis using alarm_other_ok(2) [OF inv, of t] ok by fastforce
qed

lemma alarm_run_ok:
  "alarm_inv lo T a A \<Longrightarrow> \<forall>x\<in>set xs. alarm_op_ok wii lo T x \<Longrightarrow> \<exists>a' A'. alarm_run wii xs (a, A) = Some (a', A') \<and> alarm_inv lo T a' A'"
proof (induction xs arbitrary: a A)
  case (Cons x xs)
  then obtain a1 A1 where "alarm_do wii x (a, A) = Some (a1, A1)" "alarm_inv lo T a1 A1" using alarm_do_ok [of lo T a A wii x] by auto
  then show ?case using Cons.IH [of a1 A1] Cons.prems(2) by simp
qed simp

lemma alarm_inv_start:
  assumes "wkspace_inv T (a_wk a)" "wk_lo (a_wk a) = lo" "s_firstTask (a_ks a) = NULL" "brief (timebase (a_ks a))"
  shows "alarm_inv lo T a []"
  using assms by (intro alarm_invI [where L = "[]" and bs = "[]"]) (simp_all add: wksp.holds_def timers_def tick_repr_def tick_list_def)

section \<open>Property\<close>

text \<open>
  C20. Timers and memory stay well formed together: from a start with no timers, whatever alarms a program creates, sets, cancels and
  removes while other timers are started and stopped, time passes and timers expire, every call returns, the timer list stays linked and sorted by
  deadline, every alarm on it is one the program still holds, with 32 bytes of workspace memory of its own, and no expiry
  ever reaches an alarm that was removed.
\<close>

theorem alarms_well_formed:
  assumes "wkspace_inv T (a_wk a)" "wk_lo (a_wk a) = lo" "s_firstTask (a_ks a) = NULL" "brief (timebase (a_ks a))"
    "\<forall>x\<in>set xs. alarm_op_ok wii lo T x"
  shows "\<exists>a' A L bs. alarm_run wii xs (a, []) = Some (a', A) \<and> tick_repr 0 (a_ks a') L \<and>
    (\<forall>u\<in>set L. kfn (a_ks a') u = Fn_lwpc_alarm_cb \<longrightarrow> u \<in> set A) \<and>
    list_all2 (\<lambda>p b. owned (wkspace_heap (a_wk a')) p (fst b) (snd b) \<and> fst b < unat p \<and> unat p + 32 \<le> snd b) A bs \<and>
    sorted_wrt (\<lambda>b c. snd b \<le> fst c \<or> snd c \<le> fst b) bs"
proof -
  obtain a' A where r: "alarm_run wii xs (a, []) = Some (a', A)" "alarm_inv lo T a' A"
    using alarm_run_ok [OF alarm_inv_start [OF assms(1-4)] assms(5)] by blast
  then obtain bs L where b: "wksp.holds (a_wk a') (map (\<lambda>p. (p, ALARM_SIZE)) A) bs" "timers (a_ks a') L"
      "\<forall>u\<in>set L. if kfn (a_ks a') u = Fn_lwpc_alarm_cb then u \<in> set A else outside lo T u"
    by (auto simp: alarm_inv_def)
  have "tick_repr 0 (a_ks a') L" "\<forall>u\<in>set L. kfn (a_ks a') u = Fn_lwpc_alarm_cb \<longrightarrow> u \<in> set A" using b(2,3) by (auto simp: timers_def)
  moreover have "list_all2 (\<lambda>p b. owned (wkspace_heap (a_wk a')) p (fst b) (snd b) \<and> fst b < unat p \<and> unat p + 32 \<le> snd b) A bs"
      "sorted_wrt (\<lambda>b c. snd b \<le> fst c \<or> snd c \<le> fst b) bs"
    using b(1) by (simp_all add: wksp.holds_def wksp.held_def list_all2_map1) (simp_all add: wksp.apart_def [abs_def])
  ultimately show ?thesis using r(1) by blast
qed

text \<open>A start: no timers, and a workspace of 64 KiB just initialised.\<close>

definition alarms0 :: alarms where
  "alarms0 = \<lparr>a_ks = \<lparr>threads = (\<lambda>_. zero_thread), s_firstThread = NULL, ppc_next_ctx = NULL, sprg2 = NULL, sprg3 = NULL, msr = MSR_EE,
       squeues = (\<lambda>_. zero_queue), mutex_owner = (\<lambda>_. NULL), stack_mem = (\<lambda>_. 0), tasks = (\<lambda>_. zero_task), s_firstTask = NULL,
       timebase = 0, dec_reg = 0\<rparr>, a_wk = lwp_wkspace_init 0x10000 wkspace0, a_cb = (\<lambda>_. 0), a_arg = (\<lambda>_. 0)\<rparr>"

text \<open>Two alarms, one set for one second; it expires after the other one is removed, while a task outside the workspace waits.\<close>

definition alarm_ops :: "alarm_op list" where
  "alarm_ops = [ACreate, ACreate, ASet 0 (1, 0) 0x80004000 7, ASetPeriodic 1 (2, 0) (1, 0) 0x80004000 8,
     AStart 0x500 Fn_KThreadSleepWakeup 90000000 0, ARemove 1, ATime 70000000, AExpire]"

theorem alarms_well_formed_witness:
  "\<exists>a' A L bs. alarm_run True alarm_ops (alarms0, []) = Some (a', A) \<and> tick_repr 0 (a_ks a') L \<and>
    (\<forall>u\<in>set L. kfn (a_ks a') u = Fn_lwpc_alarm_cb \<longrightarrow> u \<in> set A) \<and>
    list_all2 (\<lambda>p b. owned (wkspace_heap (a_wk a')) p (fst b) (snd b) \<and> fst b < unat p \<and> unat p + 32 \<le> snd b) A bs \<and>
    sorted_wrt (\<lambda>b c. snd b \<le> fst c \<or> snd c \<le> fst b) bs"
proof -
  let ?w = "lwp_wkspace_init 0x10000 wkspace0"
  obtain n where n: "heap_ok (wkspace_heap ?w) [(n, False)] [ROUND32UP (arena_lo wkspace0)]" "pg_size (wkspace_heap ?w) = PPC_ALIGNMENT"
    using wkspace_init_ok [of wkspace0 "0x10000"] by (auto simp: wkspace0_def heap_blank_def)
  have w: "wkspace_inv n (a_wk alarms0)" using n unfolding wkspace_inv_def heap_inv_def alarms0_def by fastforce
  have lo: "wk_lo (a_wk alarms0) = 0x80100020"
    by (simp add: alarms0_def lwp_wkspace_init_def lwp_heap_init_def Let_def ROUND32UP_def wkspace0_def heap_blank_def heap_memset_def lwp_heap_pgsize_valid_def)
  have "\<forall>x\<in>set alarm_ops. alarm_op_ok True 0x80100020 n x"
    by (simp add: alarm_ops_def brief_def outside_def timespec_to_ticks_def PPC_TIMER_CLOCK_def PPCNsToTicks_def PPCMulDiv_def)
  then show ?thesis by (intro alarms_well_formed [OF w lo]) (simp_all add: alarms0_def brief_def)
qed

end
