(* ===== verification/Spec2Isabelle.thy ===== *)
theory Spec2Isabelle
  imports DevProps CardProps HeapProps IpcProps IpcFmtProps DspProps FontProps SramProps SysServProps AlarmProps
begin

text \<open>
  \<^bold>\<open>libogc: the thread kernel, the heaps, the buses to devices and processors, and the stored formats\<close>

  libogc is the system library of homebrew programs for the GameCube and the Wii. Its core is a small
  preemptive kernel, Tuxedo (\<^verbatim>\<open>src/tuxedo\<close>): threads with priorities and priority inheritance, wait
  queues, mutexes, condition variables, mailboxes, timers on the decrementer, and the interrupt
  dispatcher. On it rest the older LWP interface (\<^verbatim>\<open>src/libogc/lwpcompat\<close>) and the drivers
  (\<^verbatim>\<open>src/libogc\<close>). Of those the heap and the workspace, the messages to the I/O processor of the Wii (IOS), the
  expansion interface (EXI) with the battery-backed memory, the clock chip, the ROM with its fonts and the serial line on it, the
  tasks of the signal processor, alarms, the ARAM request queue, the system configuration and the memory card file system are
  modelled here.

  The parts meet as they do in the code, with these limits. The drivers of the expansion interface, the signal processor and IOS register
  their handlers in the interrupt controller of the kernel, which is a field of their state (\<open>irqs\<close>, \<open>dirq\<close>, \<open>ipc_irqs\<close>). The
  compatibility layer, the ARAM queue and the battery-backed memory disable and restore interrupts in the kernel's state; in the expansion interface and the
  signal processor a section with interrupts disabled is one step, and the message layer of IOS keeps whether they are
  enabled in a field of its own (\<open>ee\<close>). Threads that sleep in an IOS call or a bus transfer are not put on the kernel's wait
  queues: such a call is split where it sleeps, and that a driver wakes a thread is recorded in a log (\<open>woken\<close>, \<open>xwoken\<close>). Otherwise
  the message heaps of IOS and the workspace are heaps of \<^verbatim>\<open>lwp_heap.c\<close>; the list of
  drivers that wait for the expansion interface is a node queue, its entries taken from another; the battery-backed memory is a client of the expansion
  interface and leaves writes to its callbacks.

  \<^bold>\<open>How the code is modelled.\<close> The machine state of the kernel is one record, \<open>kstate\<close>: the thread
  records by address, the globals of \<^verbatim>\<open>thread.c\<close> and \<^verbatim>\<open>tick.c\<close>, the static wait queues, the owners of
  the mutexes by address, and the registers the kernel reads and writes (\<open>MSR\<close>, \<open>SPRG2\<close>, the current
  thread, \<open>SPRG3\<close>, the owner of the floating point unit, the time base and the decrementer). A C
  function is a function of the state that returns the new state; pointers are 32-bit words, so lists
  are followed in the record map exactly as the code follows them. \<open>None\<close> is a dereferenced null
  pointer, or a loop that does not end (\<^verbatim>\<open>partial_function (option)\<close>); every theorem about an
  operation states that the result is \<open>Some\<close>. A function that puts the calling thread to sleep is split
  where the code switches threads: \<open>f\<close> ends in the state in which the next thread runs, and
  \<open>f_resume\<close> is the rest, run when the sleeper is switched to again. Integers keep their width
  (\<open>u8\<close> to \<open>u64\<close>), so wrap-around is that of the machine.

  \<^bold>\<open>Theories\<close>, in the order in which they build on each other:

  \<^item> \<open>Ogc_Prelude\<close>: integer types, linked lists in a memory (\<open>path\<close>, \<open>lst\<close>, the doubly linked
    \<open>dseg\<close>), ordered insertion, loops over a chain.
  \<^item> \<open>KState\<close>, \<open>KFrame\<close>, \<open>KQueue\<close>: the machine state, what each update leaves alone, the thread list
    and the wait queues of \<^verbatim>\<open>thread_priv.h\<close>.
  \<^item> \<open>OrdList\<close>, \<open>KTick\<close>: the interface of an ordered linked list and the tick tasks of \<^verbatim>\<open>tick.c\<close>, which
    implement it on deadlines that wrap around.
  \<^item> \<open>KThread\<close>: all operations of \<^verbatim>\<open>thread.c\<close>. \<open>KInv\<close> states the invariant of the kernel, \<open>KPrio\<close>
    proves priority inheritance, \<open>KSched\<close> the scheduling invariant \<open>ksched\<close>, and \<open>KOps\<close>, \<open>KBlock\<close>,
    \<open>KLife\<close> that each operation keeps it.
  \<^item> \<open>KSync\<close>: mutexes and condition variables of \<^verbatim>\<open>sync.c\<close>; \<open>KMutexInv\<close>, \<open>KMutexOps\<close>: hand-over and
    contended locking.
  \<^item> \<open>KStep\<close>: the kernel as a state machine: the calls and interrupts (\<open>kexec\<close>), the conditions under which they are made
    (\<open>kcall_ok\<close>), the reachable states and their invariant.
  \<^item> \<open>Fifo\<close>, \<open>KMailbox\<close>: bounded queues, with what they answer to a sequence of operations (\<open>replay\<close>), and the mailboxes of
    \<^verbatim>\<open>mailbox.c\<close>, which implement them, with their runs.
  \<^item> \<open>SlotTable\<close>, \<open>Lwpc\<close>, \<open>LwpcInv\<close>: handle tables, and the compatibility layer over the kernel.
  \<^item> \<open>KIrq\<close>: the interrupt controller of \<^verbatim>\<open>interrupt.c\<close>.
  \<^item> \<open>NodeQueue\<close>, \<open>LwpQueue\<close>: the intrusive queues of \<^verbatim>\<open>lwp_queue.c\<close> in a word memory, as an
    implementation of queues of nodes.
  \<^item> \<open>ArQueue\<close>, \<open>ArqMgr\<close>: the ARAM request queue and the stack of ARAM allocations.
  \<^item> \<open>Conf\<close>: the system configuration of \<^verbatim>\<open>conf.c\<close>.
  \<^item> \<open>Card\<close>, \<open>CardFat\<close>, \<open>CardCheck\<close>: the memory card file system of \<^verbatim>\<open>card.c\<close>: its two copies of
    directory and allocation table, allocation, freeing, mount checks and formatting.
  \<^item> \<open>Heap\<close>: boundary-tagged blocks and the free list of \<^verbatim>\<open>lwp_heap.c\<close> in a word memory; \<open>HeapInv\<close> its invariant,
    \<open>HeapOps\<close>, \<open>HeapAlloc\<close>, \<open>HeapFree\<close> that allocation and freeing with coalescing keep it, \<open>HeapUse\<close> the interface of an
    allocator and its use. \<open>Wkspace\<close>: the workspace heap of \<^verbatim>\<open>lwp_wkspace.c\<close>.
  \<^item> \<open>Alarm\<close>: the alarms of \<^verbatim>\<open>lwpc_alarm.c\<close>, tick tasks in memory of the workspace, and runs of them.
  \<^item> \<open>Ipc\<close>: message heaps, request ring, mailbox registers, interrupt handlers and calls of \<^verbatim>\<open>ipc.c\<close>; \<open>IpcInv\<close> the
    invariant of the ring, \<open>IpcUse\<close> the runs of callers, interrupts and IOS. \<open>IpcFmt\<close>, \<open>IpcFmtInv\<close>: the formatted calls and
    their buffers.
  \<^item> \<open>ByteMem\<close>, \<open>Clock\<close>, \<open>LwpPool\<close>: byte memory with big-endian words, conversion of times into ticks, and pools of
    queue nodes.
  \<^item> \<open>Exi\<close>: the expansion interface of \<^verbatim>\<open>exi.c\<close>, operations and interrupt handlers; \<open>ExiInv\<close> the relation \<open>exi_rel\<close> to
    holders and waiting drivers, \<open>ExiOps\<close> the operations under it, \<open>ExiUart\<close> the serial line.
  \<^item> \<open>Dsp\<close>: the signal processor of \<^verbatim>\<open>dsp.c\<close>; \<open>DspInv\<close> the task list, \<open>DspStep\<close> the abstract scheduler and its steps.
  \<^item> \<open>Sram\<close>: the battery-backed memory, the clock chip and the ROM of \<^verbatim>\<open>system.c\<close>; \<open>SramInv\<close> the transfers to the device
    and what they leave of the copy.
  \<^item> \<open>Font\<close>: the fonts of \<^verbatim>\<open>system.c\<close>: reading, unpacking, expanding, looking up characters.
  \<^item> \<open>SysServ\<close>, \<open>SysServProps\<close>: the queue of reset functions, the arenas and the time of day of \<^verbatim>\<open>system.c\<close>: functions are called
    in the order of their priorities, allocations are aligned and apart, setting the time base keeps the time of day.
  \<^item> \<open>KProps\<close>, \<open>SysProps\<close>, \<open>DevProps\<close>, \<open>CardProps\<close>, \<open>HeapProps\<close>, \<open>IpcProps\<close>, \<open>IpcFmtProps\<close>, \<open>ExiProps\<close>, \<open>DspProps\<close>,
    \<open>SramProps\<close>, \<open>AlarmProps\<close>, \<open>FontProps\<close>: the properties C1 to C40, each with an instance on a concrete state.

  \<^bold>\<open>What is shown.\<close>

  \<^item> Kernel: the invariant of all reachable states, and that calls return (C1); priority inheritance ends and is right (C2); hand-over and
    contended locking of mutexes (C3, C4); suspension, yielding, blocking, waking, priorities, exit (C5 to C10); condition
    variables (C11).
  \<^item> Heaps: blocks in use never overlap (C12), freeing undoes allocating (C14), the bytes add up (C31); alarms, the timer list and
    the workspace stay well formed together (C20).
  \<^item> Time and messages: tick tasks stay sorted across wrap-around and their functions are called when due (C13, C15); a mailbox is a bounded
    queue under any interleaving of senders and receivers (C16); semaphores count (C19); handles are distinct (C21); what interrupt masks switch (C22).
  \<^item> IOS: exactly the accepted messages are sent, in the order of the calls (C18); the vectors of a call come back (C36); formatted
    calls give back their buffers (C30).
  \<^item> Expansion interface: unlocking ends (C24), waiting drivers are served in order (C25), long writes send every byte
    once (C26); the nine settings of the battery-backed memory read back (C27) and deferred writes reach the device (C17).
  \<^item> Signal processor: the driver refines an abstract scheduler (C23) that runs yielding tasks in turn (C29); a task that
    asserted itself and finishes stays current (C33).
  \<^item> Fonts: the unpacker is a reference decoder (C34), the image is expanded in place (C35).
  \<^item> ARAM requests are transferred in adjacent chunks (C28); configuration settings read back (C32);
    allocation, freeing, repair and the first update of a memory card (C37 to C40).

  \<^bold>\<open>The kernel invariant.\<close> \<open>ksched s L Q\<close> says: \<open>L\<close> is the thread list, linked and sorted by
  priority; \<open>Q\<close> gives the contents of every wait queue, linked, sorted and holding exactly the threads
  whose record names it; a running thread is in no queue and not suspended; a thread that waits for a
  mutex is queued on its owner; the priority of every thread is the more urgent one of its base
  priority and that of its first waiter; owners and waiters form no cycle; and the current thread (the
  one a pending switch names inside an exception) is running and as urgent as any running thread.
  C1 shows it for all reachable states, and that no call gets stuck. \<open>kcall_ok\<close> states the conditions the code relies on
  without checking them: a lock does not close a cycle, a mutex owner is alive, the idle thread does
  not block, an exiting thread holds no contended mutex, a handler that suspended the interrupted thread wakes no other one, suspend
  counts do not overflow, and the priority of a thread that waits for a mutex is not changed (there the code
  does not reschedule).

  \<^bold>\<open>Interfaces.\<close> The locales \<open>ordered_list\<close>, \<open>bounded_fifo\<close>, \<open>slot_table\<close>, \<open>node_queue\<close>, \<open>allocator\<close> and its extension
  \<open>tracked_allocator\<close> state what a client may rely on. The tick list (\<open>tk\<close>), the mailbox (\<open>mbx\<close>), the 64-bit handle masks
  (\<open>slots\<close>), the node queues (\<open>lwpq\<close>), the heap (\<open>lwp\<close>, \<open>lwpt\<close>), the workspace (\<open>wksp\<close>, \<open>wkspt\<close>) and the message heaps of IOS
  (\<open>ios\<close>) are their interpretations; the client facts (order of receipt, distinct handles, regions in use that stay apart,
  nothing left behind after equal numbers of allocations and frees) are proved once in the locale.

  \<^bold>\<open>Parameters.\<close> What the code does not contain enters as arguments: the callbacks of tick tasks, interrupts, ARAM
  requests, drivers waiting for a bus and tasks of the signal processor; the IOS file calls of the configuration (\<open>ios\<close>);
  the answer of the bus to a card command; addresses the linker assigns (\<open>link_env\<close>) or that local variables have
  (\<open>sram_env\<close>); the memory \<^verbatim>\<open>malloc\<close> returns; and the devices, as functions that change the registers while the code
  polls. What a theorem assumes of them is stated as \<open>exi_hw\<close> and \<open>sel_hw\<close> (a started transfer is completed, in memory and
  registers as documented, and leaves the rest alone), \<open>dsp_hw\<close> and \<open>delivers\<close> (the signal processor takes and
  sends mails), \<open>cb_ok\<close> (a callback returns and keeps the invariant it may rely on), \<open>tick_quiet\<close> (the function of a tick task returns and leaves
  time base and armed tasks alone), \<open>cb_calls\<close> (the callback of a message returns, having made any number of calls).

  \<^bold>\<open>Bounds and fuel.\<close> The walk over the text settings has as much fuel as the file has bytes, and each
  step passes at least one; more fuel changes nothing (\<open>txt_loop_fuel\<close>). The removal of an owner's
  requests and the freeing of a block chain take fuel; \<open>arq_remove_owner\<close> and C38 show that a bound on the number
  of entries is enough. \<open>exi_call\<close> and \<open>sram_call\<close> carry a bound on how deep callbacks and unlocks nest; C24 shows that the
  number of waiting drivers is enough, C17 that one level is when only the memory waits. The clock chip is read at most 16
  times, a formatted call has at most 33 buffers, as in the code. Polling loops are \<^verbatim>\<open>partial_function (option)\<close>, and that
  they end is part of each theorem's conclusion. Tick deadlines must lie within half the range of the 64-bit counter. A
  semaphore count must not leave the range of a signed 32-bit integer.

  \<^bold>\<open>Not modelled.\<close> The floating point context, the thread switch callback (taken to be unset) and newlib's
  reentrancy data; of \<^verbatim>\<open>card.c\<close> the transfers over
  the expansion interface, the unlock sequence and the file interface; of \<^verbatim>\<open>system.c\<close> start-up, the reset sequence and the buttons;
  the exception vectors, which are assembly. The services of IOS (\<^verbatim>\<open>es.c\<close>, \<^verbatim>\<open>isfs.c\<close>, \<^verbatim>\<open>stm.c\<close>, sockets, USB, SD cards, SHA, AES)
  marshal arguments for a processor whose program is not in the repository. Graphics, video, console, audio, pads and
  the disc drive program hardware whose effect is not a value the code reads back. lwIP, lwBT, MAD, wiiuse, the
  databases and the file systems are libraries taken from elsewhere.
\<close>

end
